(* ===== verification/Prelude.thy ===== *)
theory Prelude
  imports Main "HOL-Library.Char_ord" "HOL-Library.List_Lexorder" "HOL-Library.Sublist"
begin

text \<open>
  Shared ground of the development: results that may carry an error, the byte strings of Go with
  the parts of package \<^verbatim>\<open>strings\<close> and \<^verbatim>\<open>unicode\<close> the backend uses on them, decimal numerals, and
  the generic list lemmas the component theories rely on. A Go string is a list of bytes, so it
  is modelled as \<^typ>\<open>string\<close>, whose characters are bytes; its order is the bytewise order of
  Go's comparison operators.
\<close>

section \<open>Results\<close>

named_theorems result_simps

type_synonym ('e, 'a) result = "'e + 'a"

definition bindR :: "('e, 'a) result \<Rightarrow> ('a \<Rightarrow> ('e, 'b) result) \<Rightarrow> ('e, 'b) result" where
  "bindR m f = (case m of Inl e \<Rightarrow> Inl e | Inr x \<Rightarrow> f x)"

definition ensure :: "bool \<Rightarrow> 'e \<Rightarrow> ('e, unit) result" where
  "ensure b e = (if b then Inr () else Inl e)"

definition mapErr :: "('e \<Rightarrow> 'f) \<Rightarrow> ('e, 'a) result \<Rightarrow> ('f, 'a) result" where
  "mapErr g m = (case m of Inl e \<Rightarrow> Inl (g e) | Inr x \<Rightarrow> Inr x)"

fun mapR :: "('a \<Rightarrow> ('e, 'b) result) \<Rightarrow> 'a list \<Rightarrow> ('e, 'b list) result" where
  "mapR f [] = Inr []"
| "mapR f (x # xs) = bindR (f x) (\<lambda>y. bindR (mapR f xs) (\<lambda>ys. Inr (y # ys)))"

fun foldR :: "('s \<Rightarrow> 'a \<Rightarrow> ('e, 's) result) \<Rightarrow> 's \<Rightarrow> 'a list \<Rightarrow> ('e, 's) result" where
  "foldR f s [] = Inr s"
| "foldR f s (x # xs) = bindR (f s x) (\<lambda>s'. foldR f s' xs)"

definition isOk :: "('e, 'a) result \<Rightarrow> bool" where
  "isOk m = (case m of Inl _ \<Rightarrow> False | Inr _ \<Rightarrow> True)"

lemma bindR_simps [simp]:
  "bindR (Inl e) f = Inl e" "bindR (Inr x) f = f x"
  by (simp_all add: bindR_def)

lemma bindR_Inr_iff [result_simps]: "bindR m f = Inr y \<longleftrightarrow> (\<exists>x. m = Inr x \<and> f x = Inr y)"
  by (cases m) auto

lemma bindR_Inl_iff: "bindR m f = Inl e \<longleftrightarrow> m = Inl e \<or> (\<exists>x. m = Inr x \<and> f x = Inl e)"
  by (cases m) auto

lemma ensure_Inr_iff [result_simps]: "ensure b e = Inr u \<longleftrightarrow> b"
  by (simp add: ensure_def)

lemma ensure_Inl_iff [result_simps]: "ensure b e = Inl e' \<longleftrightarrow> \<not> b \<and> e' = e"
  by (auto simp: ensure_def)

lemma ensure_True [simp]: "ensure True e = Inr ()"
  by (simp add: ensure_def)

lemma ensure_False [simp]: "ensure False e = Inl e"
  by (simp add: ensure_def)

lemma mapErr_simps [simp]: "mapErr g (Inl e) = Inl (g e)" "mapErr g (Inr x) = Inr x"
  by (simp_all add: mapErr_def)

lemma mapErr_Inr_iff [result_simps]: "mapErr g m = Inr x \<longleftrightarrow> m = Inr x"
  by (cases m) auto

lemma isOk_simps [simp]: "isOk (Inr x)" "\<not> isOk (Inl e)"
  by (simp_all add: isOk_def)

lemma isOk_iff: "isOk m \<longleftrightarrow> (\<exists>x. m = Inr x)"
  by (cases m) auto

lemma mapR_Inr_iff: "mapR f xs = Inr ys \<longleftrightarrow> list_all2 (\<lambda>x y. f x = Inr y) xs ys"
  by (induction xs arbitrary: ys) (auto simp: result_simps list_all2_Cons1)

lemma mapR_length: "mapR f xs = Inr ys \<Longrightarrow> length ys = length xs"
  by (simp add: mapR_Inr_iff list_all2_lengthD)

lemma mapR_Inr_set: "mapR f xs = Inr ys \<Longrightarrow> y \<in> set ys \<Longrightarrow> \<exists>x\<in>set xs. f x = Inr y"
  by (induction xs arbitrary: ys) (auto simp: result_simps)

lemma mapR_Inr_all: "mapR f xs = Inr ys \<Longrightarrow> x \<in> set xs \<Longrightarrow> \<exists>y\<in>set ys. f x = Inr y"
  by (induction xs arbitrary: ys) (auto simp: result_simps)

lemma mapR_all2:
  assumes "mapR f xs = Inr ys" and "\<And>x y. x \<in> set xs \<Longrightarrow> f x = Inr y \<Longrightarrow> R x y"
  shows "list_all2 R xs ys"
  using assms by (induction xs arbitrary: ys) (auto simp: result_simps)

lemma foldR_append: "foldR f s (xs @ ys) = bindR (foldR f s xs) (\<lambda>s'. foldR f s' ys)"
proof (induction xs arbitrary: s)
  case (Cons x xs)
  then show ?case by (cases "f s x") auto
qed simp

lemma foldR_total:
  assumes "I s" and "\<And>s x. I s \<Longrightarrow> x \<in> set xs \<Longrightarrow> \<exists>s'. f s x = Inr s' \<and> I s'"
  shows "\<exists>s'. foldR f s xs = Inr s' \<and> I s'"
  using assms
proof (induction xs arbitrary: s)
  case (Cons x xs)
  from Cons.prems obtain s' where s': "f s x = Inr s'" "I s'" by fastforce
  from Cons.IH [OF s'(2)] Cons.prems(2) obtain s'' where "foldR f s' xs = Inr s''" "I s''"
    by (metis list.set_intros(2))
  with s' show ?case by simp
qed simp

section \<open>Actions: state with results\<close>

text \<open>An operation that changes a state and returns a result or an error; the changes made before an error stay.\<close>

type_synonym ('s, 'e, 'a) action = "'s \<Rightarrow> 's \<times> ('e, 'a) result"

definition bindW :: "('s, 'e, 'a) action \<Rightarrow> ('a \<Rightarrow> ('s, 'e, 'b) action) \<Rightarrow> ('s, 'e, 'b) action" where
  "bindW m f s = (case m s of (s', Inl e) \<Rightarrow> (s', Inl e) | (s', Inr x) \<Rightarrow> f x s')"

definition liftW :: "('e, 'a) result \<Rightarrow> ('s, 'e, 'a) action" where
  "liftW r s = (s, r)"

fun mapW :: "('a \<Rightarrow> ('s, 'e, 'b) action) \<Rightarrow> 'a list \<Rightarrow> ('s, 'e, 'b list) action" where
  "mapW f [] = liftW (Inr [])"
| "mapW f (x # xs) = bindW (f x) (\<lambda>y. bindW (mapW f xs) (\<lambda>ys. liftW (Inr (y # ys))))"

lemma bindW_Inr_iff [result_simps]: "bindW m f s = (s', Inr y) \<longleftrightarrow> (\<exists>s1 x. m s = (s1, Inr x) \<and> f x s1 = (s', Inr y))"
  by (auto simp: bindW_def split: prod.splits sum.splits)

lemma liftW_iff [result_simps]: "liftW r s = (s', r') \<longleftrightarrow> s' = s \<and> r = r'"
  by (auto simp: liftW_def)

lemma bindW_liftW_Inr [simp]: "bindW (liftW (Inr x)) f = f x"
  by (rule ext) (simp add: bindW_def liftW_def)

text \<open>A run over a list that succeeds: one intermediate state per element, related by an invariant on states.\<close>

lemma mapW_Inr:
  assumes "mapW f xs s = (s', Inr ys)"
    and "\<And>x s1 s2 y. f x s1 = (s2, Inr y) \<Longrightarrow> le s1 s2" and "\<And>x y z. le x y \<Longrightarrow> le y z \<Longrightarrow> le x z" and "\<And>x. le x x"
  shows "list_all2 (\<lambda>x y. \<exists>s1 s2. le s s1 \<and> f x s1 = (s2, Inr y) \<and> le s2 s') xs ys \<and> le s s'"
  using assms(1)
proof (induction xs arbitrary: s ys)
  case Nil
  then show ?case by (simp add: result_simps assms(4))
next
  case (Cons x xs)
  then obtain s1 y ys' where c: "f x s = (s1, Inr y)" "mapW f xs s1 = (s', Inr ys')" "ys = y # ys'"
    by (auto simp: result_simps)
  have le1: "le s s1" using assms(2) [OF c(1)] .
  have ih: "list_all2 (\<lambda>x y. \<exists>s1' s2. le s1 s1' \<and> f x s1' = (s2, Inr y) \<and> le s2 s') xs ys'" "le s1 s'"
    using Cons.IH [OF c(2)] by auto
  have "list_all2 (\<lambda>x y. \<exists>s1' s2. le s s1' \<and> f x s1' = (s2, Inr y) \<and> le s2 s') xs ys'"
    by (rule list_all2_mono [OF ih(1)]) (use assms(3) [OF le1] in blast)
  moreover have "\<exists>s1' s2. le s s1' \<and> f x s1' = (s2, Inr y) \<and> le s2 s'" using c(1) ih(2) assms(4) by blast
  ultimately show ?case using c(3) ih(2) assms(3) [OF le1] by simp
qed

section \<open>Bytes and strings\<close>

definition byte :: "nat \<Rightarrow> char" where
  "byte n = char_of n"

definition byteVal :: "char \<Rightarrow> nat" where
  "byteVal c = of_char c"

text \<open>
  The byte sequences that \<^verbatim>\<open>unicode.IsSpace\<close> accepts when decoded: the ASCII spaces, and the UTF-8
  encodings of U+0085, U+00A0, U+1680, U+2000 to U+200A, U+2028, U+2029, U+202F, U+205F and
  U+3000. A leading byte of such an encoding is never a continuation byte, so trimming runes is
  trimming these sequences.
\<close>

definition spaceSeqs :: "string list" where
  "spaceSeqs = map (map byte)
     ([[9], [10], [11], [12], [13], [32], [194, 133], [194, 160], [225, 154, 128]]
      @ map (\<lambda>k. [226, 128, k]) ([128, 129, 130, 131, 132, 133, 134, 135, 136, 137, 138, 168, 169, 175])
      @ [[226, 129, 159], [227, 128, 128]])"

definition stripSeq :: "string list \<Rightarrow> string \<Rightarrow> string option" where
  "stripSeq seqs s = map_option (\<lambda>p. drop (length p) s) (find (\<lambda>p. prefix p s) seqs)"

lemma stripSeq_shorter:
  assumes "[] \<notin> set seqs" and "stripSeq seqs s = Some t"
  shows "length t < length s"
proof -
  from assms(2) obtain p where p: "find (\<lambda>p. prefix p s) seqs = Some p" "t = drop (length p) s"
    by (auto simp: stripSeq_def)
  then have "p \<in> set seqs" "prefix p s" by (auto simp: find_Some_iff)
  with assms(1) have "p \<noteq> []" "length p \<le> length s" by (auto simp: prefix_length_le)
  with p(2) show ?thesis by (cases p) auto
qed

function trimLeft :: "string list \<Rightarrow> string \<Rightarrow> string" where
  "trimLeft seqs s = (if [] \<in> set seqs then s else
     case stripSeq seqs s of None \<Rightarrow> s | Some t \<Rightarrow> trimLeft seqs t)"
  by pat_completeness auto
termination
  by (relation "measure (\<lambda>(seqs, s). length s)") (auto simp: stripSeq_shorter)

declare trimLeft.simps [simp del]

definition TrimSpace :: "string \<Rightarrow> string" where
  "TrimSpace s = rev (trimLeft (map rev spaceSeqs) (rev (trimLeft spaceSeqs s)))"

definition HasPrefix :: "string \<Rightarrow> string \<Rightarrow> bool" where
  "HasPrefix s p = prefix p s"

definition HasSuffix :: "string \<Rightarrow> string \<Rightarrow> bool" where
  "HasSuffix s p = suffix p s"

definition TrimPrefix :: "string \<Rightarrow> string \<Rightarrow> string" where
  "TrimPrefix s p = (if prefix p s then drop (length p) s else s)"

text \<open>\<^verbatim>\<open>strings.Fields\<close> splits at runs of the same sequences; \<^verbatim>\<open>strings.Join\<close> puts a separator between.\<close>

function fieldsFrom :: "string \<Rightarrow> string \<Rightarrow> string list" where
  "fieldsFrom cur s = (if s = [] then (if cur = [] then [] else [cur])
     else case stripSeq spaceSeqs s of
       Some rest \<Rightarrow> (if cur = [] then [] else [cur]) @ fieldsFrom [] rest
     | None \<Rightarrow> fieldsFrom (cur @ [hd s]) (tl s))"
  by pat_completeness auto
termination
proof (relation "measure (\<lambda>(cur, s). length s)")
  fix s rest :: string and cur :: string
  assume "stripSeq spaceSeqs s = Some rest"
  then show "(([], rest), (cur, s)) \<in> measure (\<lambda>(cur, s). length s)"
    using stripSeq_shorter [of spaceSeqs s rest] by (simp add: spaceSeqs_def byte_def)
qed auto

declare fieldsFrom.simps [simp del]

definition Fields :: "string \<Rightarrow> string list" where
  "Fields s = fieldsFrom [] s"

fun Join :: "string list \<Rightarrow> string \<Rightarrow> string" where
  "Join [] sep = []"
| "Join [x] sep = x"
| "Join (x # y # xs) sep = x @ sep @ Join (y # xs) sep"

text \<open>
  \<^verbatim>\<open>strings.ToLower\<close>: the ASCII letters by arithmetic; a text with any other byte goes through the Unicode
  tables, which are the argument.
\<close>

definition asciiLower :: "char \<Rightarrow> char" where
  "asciiLower c = (if 65 \<le> byteVal c \<and> byteVal c \<le> 90 then byte (byteVal c + 32) else c)"

definition ToLower :: "(string \<Rightarrow> string) \<Rightarrow> string \<Rightarrow> string" where
  "ToLower unicode s = (if list_all (\<lambda>c. byteVal c < 128) s then map asciiLower s else unicode s)"

text \<open>
  \<^verbatim>\<open>unicode.IsControl\<close> holds of U+0000 to U+001F, U+007F and U+0080 to U+009F. The last range is the
  byte 194 followed by 128 to 159, and 194 is never a continuation byte, so ranging over the
  runes of a string finds a control character exactly where these bytes occur.
\<close>

fun hasControlExcept :: "char list \<Rightarrow> string \<Rightarrow> bool" where
  "hasControlExcept ok [] = False"
| "hasControlExcept ok (c # cs) =
     ((c \<notin> set ok \<and> (byteVal c < 32 \<or> byteVal c = 127))
      \<or> (byteVal c = 194 \<and> cs \<noteq> [] \<and> 128 \<le> byteVal (hd cs) \<and> byteVal (hd cs) \<le> 159)
      \<or> hasControlExcept ok cs)"

subsection \<open>Trimming lemmas\<close>

lemma spaceSeqs_nonempty [simp]: "[] \<notin> set spaceSeqs" "[] \<notin> rev ` set spaceSeqs"
  by (auto simp: spaceSeqs_def)

lemma stripSeq_None_iff: "stripSeq seqs s = None \<longleftrightarrow> (\<forall>p\<in>set seqs. \<not> prefix p s)"
  by (auto simp: stripSeq_def find_None_iff)

lemma trimLeft_stripped:
  "[] \<notin> set seqs \<Longrightarrow> stripSeq seqs (trimLeft seqs s) = None"
proof (induction seqs s rule: trimLeft.induct)
  case (1 seqs s)
  then show ?case
    by (cases "stripSeq seqs s") (simp_all add: trimLeft.simps [of seqs s])
qed

lemma trimLeft_id: "stripSeq seqs s = None \<Longrightarrow> trimLeft seqs s = s"
  by (simp add: trimLeft.simps [of seqs s])

lemma trimLeft_suffix: "suffix (trimLeft seqs s) s"
proof (induction seqs s rule: trimLeft.induct)
  case (1 seqs s)
  show ?case
  proof (cases "[] \<in> set seqs \<or> stripSeq seqs s = None")
    case True
    then show ?thesis by (auto simp: trimLeft.simps [of seqs s])
  next
    case False
    then obtain t where t: "[] \<notin> set seqs" "stripSeq seqs s = Some t" by auto
    then have "suffix t s" by (auto simp: stripSeq_def suffix_drop)
    with t "1.IH" [OF t(1) t(2)] show ?thesis
      by (simp add: trimLeft.simps [of seqs s] suffix_order.trans)
  qed
qed

lemma trimLeft_prefix_None:
  assumes "stripSeq seqs s = None" and "prefix t s"
  shows "stripSeq seqs t = None"
  using assms by (auto simp: stripSeq_None_iff intro: prefix_order.trans)

lemma TrimSpace_idem [simp]: "TrimSpace (TrimSpace s) = TrimSpace s"
proof -
  let ?l = "trimLeft spaceSeqs s" and ?t = "TrimSpace s"
  have t: "rev ?t = trimLeft (map rev spaceSeqs) (rev ?l)" by (simp add: TrimSpace_def)
  then have "suffix (rev ?t) (rev ?l)" by (simp add: trimLeft_suffix)
  then have "prefix ?t ?l" by (simp add: suffix_to_prefix)
  with trimLeft_stripped [of spaceSeqs s] have "stripSeq spaceSeqs ?t = None"
    by (auto intro: trimLeft_prefix_None)
  then have left: "trimLeft spaceSeqs ?t = ?t" by (rule trimLeft_id)
  have "stripSeq (map rev spaceSeqs) (rev ?t) = None"
    unfolding t by (rule trimLeft_stripped) simp
  then have "trimLeft (map rev spaceSeqs) (rev ?t) = rev ?t" by (rule trimLeft_id)
  with left show ?thesis by (simp add: TrimSpace_def [of ?t])
qed

lemma stripSeq_Nil: "[] \<notin> set seqs \<Longrightarrow> stripSeq seqs [] = None"
  by (auto simp: stripSeq_None_iff)

lemma TrimSpace_Nil [simp]: "TrimSpace [] = []"
  by (simp add: TrimSpace_def trimLeft_id stripSeq_Nil)

definition graphic :: "char \<Rightarrow> bool" where
  "graphic c \<longleftrightarrow> 33 \<le> byteVal c \<and> byteVal c \<le> 126"

lemma spaceSeqs_not_graphic: "p \<in> set spaceSeqs \<Longrightarrow> \<not> graphic (hd p) \<and> \<not> graphic (last p)"
  by (auto simp: spaceSeqs_def graphic_def byte_def byteVal_def)

lemma stripSeq_graphic_hd:
  assumes "\<And>p. p \<in> set seqs \<Longrightarrow> p \<noteq> [] \<and> \<not> graphic (hd p)" and "graphic (hd s)"
  shows "stripSeq seqs s = None"
  unfolding stripSeq_None_iff
proof
  fix p assume "p \<in> set seqs"
  with assms(1) have "p \<noteq> []" "\<not> graphic (hd p)" by auto
  with assms(2) show "\<not> prefix p s" by (auto simp: prefix_def)
qed

lemma TrimSpace_graphic:
  assumes "graphic (hd s)" and "graphic (last s)" and "s \<noteq> []"
  shows "TrimSpace s = s"
proof -
  have "stripSeq spaceSeqs s = None"
    using assms spaceSeqs_not_graphic by (intro stripSeq_graphic_hd) auto
  moreover have "stripSeq (map rev spaceSeqs) (rev s) = None"
    using assms spaceSeqs_not_graphic by (intro stripSeq_graphic_hd) (auto simp: hd_rev)
  ultimately show ?thesis by (simp add: TrimSpace_def trimLeft_id)
qed

section \<open>Decimal numerals\<close>

definition digitChar :: "nat \<Rightarrow> char" where
  "digitChar d = byte (48 + d)"

definition digitVal :: "char \<Rightarrow> nat" where
  "digitVal c = byteVal c - 48"

definition isDigit :: "char \<Rightarrow> bool" where
  "isDigit c \<longleftrightarrow> 48 \<le> byteVal c \<and> byteVal c \<le> 57"

fun natDigits :: "nat \<Rightarrow> string" where
  "natDigits n = (if n < 10 then [digitChar n] else natDigits (n div 10) @ [digitChar (n mod 10)])"

declare natDigits.simps [simp del]

definition digitsVal :: "string \<Rightarrow> nat" where
  "digitsVal s = foldl (\<lambda>a c. 10 * a + digitVal c) 0 s"

text \<open>\<^verbatim>\<open>(*big.Int).String\<close> and \<^verbatim>\<open>strconv.FormatInt(_, 10)\<close>.\<close>

definition intString :: "int \<Rightarrow> string" where
  "intString z = (if z < 0 then CHR ''-'' # natDigits (nat (- z)) else natDigits (nat z))"

text \<open>
  \<^verbatim>\<open>(*big.Int).SetString(s, 10)\<close>: an optional sign, at least one digit, and nothing else.
\<close>

definition SetString :: "string \<Rightarrow> int option" where
  "SetString s = (
     let neg = (s \<noteq> [] \<and> hd s = CHR ''-'');
         ds = (if s \<noteq> [] \<and> (hd s = CHR ''-'' \<or> hd s = CHR ''+'') then tl s else s)
     in if ds \<noteq> [] \<and> list_all isDigit ds
        then Some (if neg then - int (digitsVal ds) else int (digitsVal ds)) else None)"

lemma byteVal_byte [simp]: "n < 256 \<Longrightarrow> byteVal (byte n) = n"
  by (simp add: byte_def byteVal_def)

lemma byte_byteVal [simp]: "byte (byteVal c) = c"
  by (simp add: byte_def byteVal_def)

lemma byteVal_eq_iff: "byteVal c = byteVal d \<longleftrightarrow> c = d"
  by (metis byte_byteVal)

lemma less_char_byteVal: "c < d \<longleftrightarrow> byteVal c < byteVal d"
  by (simp add: less_char_def byteVal_def)

lemma digitVal_digitChar [simp]: "d < 10 \<Longrightarrow> digitVal (digitChar d) = d"
  by (simp add: digitVal_def digitChar_def)

lemma digitChar_digitVal [simp]: "isDigit c \<Longrightarrow> digitChar (digitVal c) = c"
  by (simp add: isDigit_def digitVal_def digitChar_def)

lemma isDigit_digitChar [simp]: "d < 10 \<Longrightarrow> isDigit (digitChar d)"
  by (simp add: isDigit_def digitChar_def)

lemma digitVal_less: "isDigit c \<Longrightarrow> digitVal c < 10"
  by (auto simp: isDigit_def digitVal_def)

lemma isDigit_graphic: "isDigit c \<Longrightarrow> graphic c"
  by (auto simp: isDigit_def graphic_def)

lemma not_isDigit_sign [simp]: "\<not> isDigit (CHR ''-'')" "\<not> isDigit (CHR ''+'')" "\<not> isDigit (CHR ''.'')"
  by (simp_all add: isDigit_def byteVal_def)

lemma graphic_minus [simp]: "graphic (CHR ''-'')"
  by (simp add: graphic_def byteVal_def)

lemma digitsVal_Nil [simp]: "digitsVal [] = 0"
  by (simp add: digitsVal_def)

lemma digitsVal_snoc [simp]: "digitsVal (s @ [c]) = 10 * digitsVal s + digitVal c"
  by (simp add: digitsVal_def)

lemma digitsVal_append: "digitsVal (s @ t) = digitsVal s * 10 ^ length t + digitsVal t"
proof (induction t rule: rev_induct)
  case (snoc c t)
  have "digitsVal (s @ t @ [c]) = 10 * digitsVal (s @ t) + digitVal c"
    using digitsVal_snoc [of "s @ t" c] by simp
  with snoc show ?case by (simp add: algebra_simps)
qed simp

lemma digitsVal_single [simp]: "digitsVal [c] = digitVal c"
  by (simp add: digitsVal_def)

lemma digitsVal_Cons: "digitsVal (c # s) = digitVal c * 10 ^ length s + digitsVal s"
  using digitsVal_append [of "[c]" s] by simp

lemma digitsVal_bound: "list_all isDigit s \<Longrightarrow> digitsVal s < 10 ^ length s"
proof (induction s rule: rev_induct)
  case (snoc c s)
  then have "digitsVal s < 10 ^ length s" and "digitVal c < 10" by (auto simp: digitVal_less)
  then show ?case by simp
qed simp

lemma digitsVal_replicate0: "digitsVal (replicate k (digitChar 0)) = 0"
  by (induction k) (simp_all add: digitsVal_Cons)

lemma digitChar_literals:
  "digitChar 0 = CHR ''0''" "digitChar 1 = CHR ''1''" "digitChar (Suc 0) = CHR ''1''" "digitChar 2 = CHR ''2''" "digitChar 3 = CHR ''3''"
  "digitChar 4 = CHR ''4''" "digitChar 5 = CHR ''5''" "digitChar 6 = CHR ''6''" "digitChar 7 = CHR ''7''"
  "digitChar 8 = CHR ''8''" "digitChar 9 = CHR ''9''"
  by code_simp+

lemma natDigits_nonempty [simp]: "natDigits n \<noteq> []"
  by (subst natDigits.simps) simp

lemma natDigits_isDigit [simp]: "list_all isDigit (natDigits n)"
proof (induction n rule: natDigits.induct)
  case (1 n)
  then show ?case by (cases "n < 10") (simp_all add: natDigits.simps [of n])
qed

lemma digitsVal_natDigits [simp]: "digitsVal (natDigits n) = n"
proof (induction n rule: natDigits.induct)
  case (1 n)
  then show ?case by (cases "n < 10") (simp_all add: natDigits.simps [of n])
qed

lemma natDigits_length_le: "0 < k \<Longrightarrow> length (natDigits n) \<le> k \<longleftrightarrow> n < 10 ^ k"
proof (induction n arbitrary: k rule: natDigits.induct)
  case (1 n)
  show ?case
  proof (cases "n < 10")
    case True
    moreover from "1.prems" have "(10::nat) ^ 1 \<le> 10 ^ k" by (intro power_increasing) auto
    ultimately show ?thesis using "1.prems" by (simp add: natDigits.simps [of n])
  next
    case False
    show ?thesis
    proof (cases "k = 1")
      case True
      with False show ?thesis
        using natDigits_nonempty [of "n div 10"] by (auto simp: natDigits.simps [of n] neq_Nil_conv)
    next
      case k: False
      with "1.prems" obtain j where j: "k = Suc j" "0 < j" by (cases k) auto
      with False have "length (natDigits n) \<le> k \<longleftrightarrow> length (natDigits (n div 10)) \<le> j"
        by (simp add: natDigits.simps [of n])
      also have "\<dots> \<longleftrightarrow> n div 10 < 10 ^ j" using "1.IH" [OF False j(2)] .
      also have "\<dots> \<longleftrightarrow> n < 10 ^ k" by (auto simp: j(1) div_less_iff_less_mult mult.commute)
      finally show ?thesis .
    qed
  qed
qed

lemma natDigits_no_leading_zero: "0 < n \<Longrightarrow> hd (natDigits n) \<noteq> digitChar 0"
proof (induction n rule: natDigits.induct)
  case (1 n)
  show ?case
  proof (cases "n < 10")
    case True
    with "1.prems" have "digitChar n \<noteq> digitChar 0"
      by (metis digitVal_digitChar less_numeral_extra(3) zero_less_numeral)
    with True show ?thesis by (simp add: natDigits.simps [of n])
  next
    case False
    with "1.IH" show ?thesis by (simp add: natDigits.simps [of n])
  qed
qed

lemma digitsVal_inj:
  "list_all isDigit s \<Longrightarrow> list_all isDigit t \<Longrightarrow> length s = length t \<Longrightarrow> digitsVal s = digitsVal t
   \<Longrightarrow> s = t"
proof (induction s arbitrary: t rule: rev_induct)
  case (snoc c s)
  then obtain t' d where t: "t = t' @ [d]" by (cases t rule: rev_cases) auto
  from snoc.prems t have "10 * digitsVal s + digitVal c = 10 * digitsVal t' + digitVal d"
    and cd: "isDigit c" "isDigit d" by auto
  with digitVal_less [OF cd(1)] digitVal_less [OF cd(2)]
  have eq: "digitsVal s = digitsVal t'" "digitVal c = digitVal d" by presburger+
  from cd eq(2) have "c = d" by (metis digitChar_digitVal)
  moreover have "s = t'" using snoc t eq(1) by auto
  ultimately show ?case using t by simp
qed simp

lemma SetString_intString [simp]: "SetString (intString z) = Some z"
proof -
  have "hd (natDigits n) \<noteq> CHR ''-''" "hd (natDigits n) \<noteq> CHR ''+''" for n
    using natDigits_isDigit [of n] natDigits_nonempty [of n] not_isDigit_sign
    by (metis list.pred_inject(2) list.exhaust_sel)+
  then show ?thesis by (auto simp: SetString_def intString_def Let_def)
qed

lemma intString_inj: "intString x = intString y \<Longrightarrow> x = y"
  by (metis SetString_intString option.inject)

lemma intString_nonempty [simp]: "intString z \<noteq> []"
  by (simp add: intString_def)

lemma intString_graphic: "graphic (hd (intString z)) \<and> graphic (last (intString z))"
proof -
  have "graphic (hd (natDigits n)) \<and> graphic (last (natDigits n))" for n
    using natDigits_isDigit [of n] natDigits_nonempty [of n]
    by (metis list_all_iff hd_in_set last_in_set isDigit_graphic)
  then show ?thesis by (simp add: intString_def)
qed

lemma TrimSpace_intString [simp]: "TrimSpace (intString z) = intString z"
  by (rule TrimSpace_graphic) (use intString_graphic in auto)

lemma TrimPrefix_intString: "TrimPrefix (intString z) ''-'' = natDigits (nat \<bar>z\<bar>)"
proof -
  have "\<not> prefix ''-'' (natDigits n)" for n
    using natDigits_isDigit [of n] by (cases "natDigits n") auto
  then show ?thesis by (auto simp: intString_def TrimPrefix_def)
qed

end
