(* ===== verification/Go_Time.thy ===== *)
theory Go_Time
  imports Prelude
begin

text \<open>
  The part of Go's package \<^verbatim>\<open>time\<close> that the backend uses for calendar dates. Every such date is a
  midnight in UTC, so a \<^verbatim>\<open>time.Time\<close> is its day number in the proleptic Gregorian calendar, with
  1 January of year 1 as day 0; \<open>Before\<close> and \<open>After\<close> are the orders on day numbers. \<open>Date\<close>
  normalizes months and days as \<^verbatim>\<open>time.Date\<close> does, and \<open>parseDateOnly\<close> and \<open>formatDateOnly\<close> are
  \<^verbatim>\<open>time.Parse\<close> and \<^verbatim>\<open>Time.Format\<close> at the layout \<^verbatim>\<open>2006-01-02\<close>. The main facts: the calendar fields and
  the day number determine each other, and the text of a date orders as the date does.
\<close>

section \<open>Definitions\<close>

type_synonym time = int

definition isLeap :: "int \<Rightarrow> bool" where
  "isLeap y \<longleftrightarrow> y mod 4 = 0 \<and> (y mod 100 \<noteq> 0 \<or> y mod 400 = 0)"

definition monthStarts :: "bool \<Rightarrow> int list" where
  "monthStarts leap = (if leap then [0, 31, 60, 91, 121, 152, 182, 213, 244, 274, 305, 335]
                       else [0, 31, 59, 90, 120, 151, 181, 212, 243, 273, 304, 334])"

definition daysIn :: "int \<Rightarrow> int \<Rightarrow> int" where
  "daysIn m y = (if m = 2 then (if isLeap y then 29 else 28)
                 else if m = 4 \<or> m = 6 \<or> m = 9 \<or> m = 11 then 30 else 31)"

definition daysBeforeYear :: "int \<Rightarrow> int" where
  "daysBeforeYear y = 365 * (y - 1) + (y - 1) div 4 - (y - 1) div 100 + (y - 1) div 400"

text \<open>\<^verbatim>\<open>time.Date(year, month, day, 0, 0, 0, 0, time.UTC)\<close>, for any month and day numbers.\<close>

definition Date :: "int \<Rightarrow> int \<Rightarrow> int \<Rightarrow> time" where
  "Date y m d = (let y' = y + (m - 1) div 12; k = (m - 1) mod 12
                 in daysBeforeYear y' + monthStarts (isLeap y') ! nat k + (d - 1))"

definition Year :: "time \<Rightarrow> int" where
  "Year t = (let n400 = t div 146097; d1 = t mod 146097;
                 n100 = min 3 (d1 div 36524); d2 = d1 - 36524 * n100;
                 n4 = d2 div 1461; d3 = d2 mod 1461;
                 n1 = min 3 (d3 div 365)
             in 400 * n400 + 100 * n100 + 4 * n4 + n1 + 1)"

definition yearDay :: "time \<Rightarrow> int" where
  "yearDay t = t - daysBeforeYear (Year t)"

definition Month :: "time \<Rightarrow> int" where
  "Month t = int (length (takeWhile (\<lambda>s. s \<le> yearDay t) (monthStarts (isLeap (Year t)))))"

definition Day :: "time \<Rightarrow> int" where
  "Day t = yearDay t - monthStarts (isLeap (Year t)) ! nat (Month t - 1) + 1"

text \<open>Sunday is 0; day 0 of year 1 is a Monday.\<close>

definition Weekday :: "time \<Rightarrow> int" where
  "Weekday t = (t + 1) mod 7"

definition AddDate :: "time \<Rightarrow> int \<Rightarrow> int \<Rightarrow> int \<Rightarrow> time" where
  "AddDate t years months days = Date (Year t + years) (Month t + months) (Day t + days)"

definition padNat :: "nat \<Rightarrow> nat \<Rightarrow> string" where
  "padNat w n = replicate (w - length (natDigits n)) (CHR ''0'') @ natDigits n"

definition formatDateOnly :: "time \<Rightarrow> string" where
  "formatDateOnly t = (if Year t < 0 then ''-'' else []) @ padNat 4 (nat \<bar>Year t\<bar>) @ ''-''
     @ padNat 2 (nat (Month t)) @ ''-'' @ padNat 2 (nat (Day t))"

definition parseDateOnly :: "string \<Rightarrow> time option" where
  "parseDateOnly v = (
     if length v = 10 \<and> list_all isDigit (take 4 v) \<and> v ! 4 = CHR ''-'' \<and> list_all isDigit (take 2 (drop 5 v))
        \<and> v ! 7 = CHR ''-'' \<and> list_all isDigit (drop 8 v)
     then (let y = int (digitsVal (take 4 v)); m = int (digitsVal (take 2 (drop 5 v))); d = int (digitsVal (drop 8 v))
           in if 1 \<le> m \<and> m \<le> 12 \<and> 1 \<le> d \<and> d \<le> daysIn m y then Some (Date y m d) else None)
     else None)"

section \<open>Calendar arithmetic\<close>

lemma div_step: "0 < k \<Longrightarrow> (y::int) div k = (y - 1) div k + (if y mod k = 0 then 1 else 0)"
proof -
  assume k: "0 < k"
  have y: "y = k * (y div k) + y mod k" by simp
  have m: "0 \<le> y mod k" "y mod k < k" using k by simp_all
  show ?thesis
  proof (cases "y mod k = 0")
    case True
    then have "y - 1 = k * (y div k - 1) + (k - 1)" using y by (simp add: algebra_simps)
    then have "(y - 1) div k = y div k - 1" by (rule int_div_pos_eq) (use k in auto)
    with True show ?thesis by simp
  next
    case False
    then have "y - 1 = k * (y div k) + (y mod k - 1)" "0 \<le> y mod k - 1" "y mod k - 1 < k" using y m by simp_all
    then have "(y - 1) div k = y div k" by (rule int_div_pos_eq)
    with False show ?thesis by simp
  qed
qed

definition daysInYear :: "int \<Rightarrow> int" where
  "daysInYear y = (if isLeap y then 366 else 365)"

lemma mod_mult_dvd: "(y::int) mod 400 = 0 \<Longrightarrow> y mod 100 = 0" "(y::int) mod 100 = 0 \<Longrightarrow> y mod 4 = 0"
  by presburger+

lemma daysBeforeYear_Suc: "daysBeforeYear (y + 1) = daysBeforeYear y + daysInYear y"
proof -
  define p q r where "p = (y - 1) div 4" and "q = (y - 1) div 100" and "r = (y - 1) div 400"
  define A B C where "A \<longleftrightarrow> y mod 4 = 0" and "B \<longleftrightarrow> y mod 100 = 0" and "C \<longleftrightarrow> y mod 400 = 0"
  have "y div 4 = p + (if A then 1 else 0)" "y div 100 = q + (if B then 1 else 0)"
    "y div 400 = r + (if C then 1 else 0)"
    unfolding p_def q_def r_def A_def B_def C_def by (rule div_step, simp)+
  moreover have "daysBeforeYear (y + 1) = 365 * y + y div 4 - y div 100 + y div 400"
    by (simp only: daysBeforeYear_def add_diff_cancel_right')
  moreover have "daysBeforeYear y = 365 * (y - 1) + p - q + r"
    by (simp only: daysBeforeYear_def p_def q_def r_def)
  moreover have "daysInYear y = (if A \<and> (\<not> B \<or> C) then 366 else 365)"
    by (simp only: daysInYear_def isLeap_def A_def B_def C_def)
  moreover have "C \<Longrightarrow> B" "B \<Longrightarrow> A" using mod_mult_dvd by (simp_all only: A_def B_def C_def)
  ultimately show ?thesis by (cases A; cases B; cases C) simp_all
qed

lemma daysInYear_pos: "365 \<le> daysInYear y"
  by (simp add: daysInYear_def)

lemma daysBeforeYear_mono: "x \<le> y \<Longrightarrow> daysBeforeYear x \<le> daysBeforeYear y"
proof (induction y rule: int_ge_induct)
  case (step y)
  then show ?case using daysBeforeYear_Suc [of y] daysInYear_pos [of y] by linarith
qed simp

lemma year_unique:
  assumes "daysBeforeYear x \<le> t" "t < daysBeforeYear (x + 1)" "daysBeforeYear y \<le> t" "t < daysBeforeYear (y + 1)"
  shows "x = y"
proof (rule ccontr)
  assume "x \<noteq> y"
  then consider "x + 1 \<le> y" | "y + 1 \<le> x" by linarith
  then show False using assms daysBeforeYear_mono by cases fastforce+
qed

lemma daysBeforeYear_parts:
  assumes "0 \<le> b" "b \<le> 3" "0 \<le> c" "c \<le> 24" "0 \<le> e" "e \<le> 3"
  shows "daysBeforeYear (400 * a + 100 * b + 4 * c + e + 1) = 146097 * a + 36524 * b + 1461 * c + 365 * e"
proof -
  let ?y = "400 * a + 100 * b + 4 * c + e"
  have "?y div 4 = 100 * a + 25 * b + c"
    by (rule int_div_pos_eq [of _ _ _ e]) (use assms in auto)
  moreover have "?y div 100 = 4 * a + b"
    by (rule int_div_pos_eq [of _ _ _ "4 * c + e"]) (use assms in auto)
  moreover have "?y div 400 = a"
    by (rule int_div_pos_eq [of _ _ _ "100 * b + 4 * c + e"]) (use assms in auto)
  ultimately show ?thesis by (simp add: daysBeforeYear_def)
qed

lemma Year_bounds: "daysBeforeYear (Year t) \<le> t" "t < daysBeforeYear (Year t + 1)"
proof -
  define a where "a = t div 146097"
  define d1 where "d1 = t mod 146097"
  define b where "b = min 3 (d1 div 36524)"
  define d2 where "d2 = d1 - 36524 * b"
  define c where "c = d2 div 1461"
  define d3 where "d3 = d2 mod 1461"
  define e where "e = min 3 (d3 div 365)"
  have y: "Year t = 400 * a + 100 * b + 4 * c + e + 1"
    by (simp add: Year_def Let_def a_def d1_def b_def d2_def c_def d3_def e_def)
  have t: "t = 146097 * a + d1" "0 \<le> d1" "d1 < 146097" by (simp_all add: a_def d1_def)
  obtain q r where q: "q = d1 div 36524" "r = d1 mod 36524" by blast
  then have qr: "d1 = 36524 * q + r" "0 \<le> r" "r < 36524" by simp_all
  then have "0 \<le> q" "q \<le> 4" "q = 4 \<longrightarrow> r = 0" using t(2,3) by auto
  then have b: "0 \<le> b" "b \<le> 3" "0 \<le> d2" "d2 \<le> 36524" "d2 = 36524 \<longrightarrow> b = 3" "d1 = 36524 * b + d2"
    using qr unfolding b_def d2_def q(1) [symmetric] by (auto simp: min_def)
  have c: "0 \<le> c" "c \<le> 24" "0 \<le> d3" "d3 < 1461" "d2 = 1461 * c + d3"
    using b(3,4) unfolding c_def d3_def by (auto simp: pos_imp_zdiv_nonneg_iff)
  obtain u v where u: "u = d3 div 365" "v = d3 mod 365" by blast
  then have uv: "d3 = 365 * u + v" "0 \<le> v" "v < 365" by simp_all
  then have "0 \<le> u" "u \<le> 4" "u = 4 \<longrightarrow> v = 0" using c(3,4) by auto
  then have e: "0 \<le> e" "e \<le> 3" "0 \<le> d3 - 365 * e" "d3 - 365 * e \<le> 365" "d3 - 365 * e = 365 \<longrightarrow> e = 3 \<and> d3 = 1460"
    using uv unfolding e_def u(1) [symmetric] by (auto simp: min_def)
  have dby: "daysBeforeYear (Year t) = t - (d3 - 365 * e)"
    unfolding y daysBeforeYear_parts [OF b(1,2) c(1,2) e(1,2)] using t(1) b(6) c(5) by linarith
  then show "daysBeforeYear (Year t) \<le> t" using e(3) by simp
  have "isLeap (Year t)" if "d3 - 365 * e = 365"
  proof -
    from that e have e3: "e = 3" "d3 = 1460" by auto
    with b c have "c \<noteq> 24 \<or> b = 3" by auto
    have y4: "Year t = 4 * (100 * a + 25 * b + c + 1)" unfolding y e3 by simp
    then have m4: "Year t mod 4 = 0" by simp
    show ?thesis
    proof (cases "c = 24")
      case True
      with \<open>c \<noteq> 24 \<or> b = 3\<close> y4 have "Year t = 400 * (a + 1)" by simp
      then have "Year t mod 400 = 0" by simp
      with m4 show ?thesis by (simp add: isLeap_def)
    next
      case False
      have "Year t mod 100 = 4 * c + 4"
        by (rule int_mod_pos_eq [where q = "4 * a + b"]) (use y4 c False in auto)
      with m4 c show ?thesis by (simp add: isLeap_def)
    qed
  qed
  then have "d3 - 365 * e < daysInYear (Year t)" using e(4)
    by (cases "d3 - 365 * e = 365") (simp_all add: daysInYear_def)
  with dby show "t < daysBeforeYear (Year t + 1)" by (simp add: daysBeforeYear_Suc)
qed

lemma Year_eq: "daysBeforeYear y \<le> t \<Longrightarrow> t < daysBeforeYear (y + 1) \<Longrightarrow> Year t = y"
  using Year_bounds [of t] year_unique by blast

lemma yearDay_bounds: "0 \<le> yearDay t" "yearDay t < daysInYear (Year t)"
  using Year_bounds [of t] daysBeforeYear_Suc [of "Year t"] by (simp_all add: yearDay_def)

lemma monthStarts_length [simp]: "length (monthStarts l) = 12"
  by (simp add: monthStarts_def)

lemma month_cases:
  assumes "0 \<le> k" and "k < (12::int)"
  obtains "k = 0" | "k = 1" | "k = 2" | "k = 3" | "k = 4" | "k = 5" | "k = 6" | "k = 7" | "k = 8"
    | "k = 9" | "k = 10" | "k = 11"
  using assms by atomize_elim presburger

lemma monthStarts_days:
  assumes "1 \<le> m" and "m \<le> 12"
  shows "(if m < 12 then monthStarts (isLeap y) ! nat m else daysInYear y)
    = monthStarts (isLeap y) ! nat (m - 1) + daysIn m y"
proof -
  have "0 \<le> m - 1" "m - 1 < 12" using assms by simp_all
  then show ?thesis
    by (cases "m - 1" rule: month_cases) (simp_all add: eq_diff_eq [symmetric] diff_eq_eq monthStarts_def daysIn_def daysInYear_def)
qed

lemma monthStarts_at:
  assumes "1 \<le> m" and "m \<le> 12" and "1 \<le> d" and "d \<le> daysIn m y"
  shows "int (length (takeWhile (\<lambda>s. s \<le> monthStarts (isLeap y) ! nat (m - 1) + (d - 1)) (monthStarts (isLeap y)))) = m"
    and "0 \<le> monthStarts (isLeap y) ! nat (m - 1)"
    and "monthStarts (isLeap y) ! nat (m - 1) + (d - 1) < daysInYear y"
proof -
  have m: "0 \<le> m - 1" "m - 1 < 12" using assms by simp_all
  show "int (length (takeWhile (\<lambda>s. s \<le> monthStarts (isLeap y) ! nat (m - 1) + (d - 1)) (monthStarts (isLeap y)))) = m"
    using m assms(3,4)
    by (cases "m - 1" rule: month_cases) (auto simp: diff_eq_eq monthStarts_def daysIn_def split: if_splits)
  show "0 \<le> monthStarts (isLeap y) ! nat (m - 1)"
    using m by (cases "m - 1" rule: month_cases) (auto simp: diff_eq_eq monthStarts_def)
  show "monthStarts (isLeap y) ! nat (m - 1) + (d - 1) < daysInYear y"
    using m assms(3,4)
    by (cases "m - 1" rule: month_cases) (auto simp: diff_eq_eq monthStarts_def daysIn_def daysInYear_def split: if_splits)
qed

definition validDate :: "int \<Rightarrow> int \<Rightarrow> int \<Rightarrow> bool" where
  "validDate y m d \<longleftrightarrow> 1 \<le> m \<and> m \<le> 12 \<and> 1 \<le> d \<and> d \<le> daysIn m y"

lemma Date_plain:
  "1 \<le> m \<Longrightarrow> m \<le> 12 \<Longrightarrow> Date y m d = daysBeforeYear y + monthStarts (isLeap y) ! nat (m - 1) + (d - 1)"
  by (simp add: Date_def Let_def)

lemma Date_fields:
  assumes "validDate y m d"
  shows "Year (Date y m d) = y" "Month (Date y m d) = m" "Day (Date y m d) = d"
proof -
  let ?k = "monthStarts (isLeap y) ! nat (m - 1) + (d - 1)"
  have v: "1 \<le> m" "m \<le> 12" "1 \<le> d" "d \<le> daysIn m y" using assms by (simp_all add: validDate_def)
  have t: "Date y m d = daysBeforeYear y + ?k" using v by (simp add: Date_plain)
  note at = monthStarts_at [OF v]
  show y: "Year (Date y m d) = y"
    using at(2,3) v(3) by (intro Year_eq) (simp_all add: t daysBeforeYear_Suc)
  have yd: "yearDay (Date y m d) = ?k" using t y by (simp add: yearDay_def)
  show m: "Month (Date y m d) = m" by (simp only: Month_def y yd at(1))
  show "Day (Date y m d) = d" by (simp only: Day_def y yd m)
qed

lemma Month_range: "1 \<le> Month t" "Month t \<le> 12"
proof -
  have "monthStarts (isLeap (Year t)) ! 0 = 0" by (simp add: monthStarts_def)
  moreover have "monthStarts (isLeap (Year t)) \<noteq> []" by (metis monthStarts_length list.size(3) zero_neq_numeral)
  ultimately show "1 \<le> Month t" using yearDay_bounds(1) [of t]
    by (cases "monthStarts (isLeap (Year t))") (auto simp: Month_def)
  have "length (takeWhile P (monthStarts l)) \<le> 12" for P l
    by (metis length_takeWhile_le monthStarts_length)
  then show "Month t \<le> 12" unfolding Month_def by (metis of_nat_le_iff of_nat_numeral)
qed

lemma Month_bracket:
  "monthStarts (isLeap (Year t)) ! nat (Month t - 1) \<le> yearDay t"
  "Month t < 12 \<Longrightarrow> yearDay t < monthStarts (isLeap (Year t)) ! nat (Month t)"
proof -
  let ?ms = "monthStarts (isLeap (Year t))" and ?P = "\<lambda>s. s \<le> yearDay t"
  define n where "n = length (takeWhile ?P ?ms)"
  have n: "Month t = int n" by (simp add: Month_def n_def)
  have n1: "0 < n" using Month_range(1) [of t] n by simp
  then have "n - 1 < length (takeWhile ?P ?ms)" by (simp add: n_def)
  then have "?P (takeWhile ?P ?ms ! (n - 1))" by (metis nth_mem set_takeWhileD)
  then show "?ms ! nat (Month t - 1) \<le> yearDay t"
    using n1 n by (simp add: takeWhile_nth n_def [symmetric] nat_diff_distrib)
  assume "Month t < 12"
  then have "n < length ?ms" using n by simp
  then have "\<not> ?P (?ms ! n)" unfolding n_def by (rule nth_length_takeWhile)
  then show "yearDay t < ?ms ! nat (Month t)" by (simp add: n)
qed

lemma Date_of_fields: "Date (Year t) (Month t) (Day t) = t"
  using Month_range [of t] by (simp add: Date_plain Day_def yearDay_def)

lemma validDate_fields: "validDate (Year t) (Month t) (Day t)"
proof -
  have "Day t \<le> daysIn (Month t) (Year t)"
  proof (cases "Month t < 12")
    case True
    then show ?thesis using Month_bracket(2) [OF True] monthStarts_days [OF Month_range, of t "Year t"]
      by (simp add: Day_def)
  next
    case False
    then show ?thesis using yearDay_bounds(2) [of t] monthStarts_days [OF Month_range, of t "Year t"]
      by (simp add: Day_def)
  qed
  then show ?thesis using Month_range [of t] Month_bracket(1) [of t] by (simp add: validDate_def Day_def)
qed

lemma AddDate_days: "AddDate t 0 0 n = t + n"
  using Date_of_fields [of t] by (simp add: AddDate_def Date_def Let_def)

lemma Date_day: "Date y m d = Date y m 1 + (d - 1)"
  by (simp add: Date_def Let_def)

text \<open>Months counted from year 0: adding months is adding to this index.\<close>

definition monthIndex :: "time \<Rightarrow> int" where
  "monthIndex t = 12 * Year t + (Month t - 1)"

lemma Date_monthIndex: "Date y m 1 = Date ((12 * y + (m - 1)) div 12) ((12 * y + (m - 1)) mod 12 + 1) 1"
  by (simp add: Date_def Let_def mult.commute)

lemma validDate_first: "validDate y m 1 \<longleftrightarrow> 1 \<le> m \<and> m \<le> 12"
  by (auto simp: validDate_def daysIn_def)

lemma Date_first_fields:
  shows "Year (Date y m 1) = y + (m - 1) div 12" "Month (Date y m 1) = (m - 1) mod 12 + 1" "Day (Date y m 1) = 1"
proof -
  have "Date y m 1 = Date (y + (m - 1) div 12) ((m - 1) mod 12 + 1) 1" by (simp add: Date_def Let_def)
  moreover have "validDate (y + (m - 1) div 12) ((m - 1) mod 12 + 1) 1"
    using pos_mod_bound [of 12 "m - 1"] by (simp add: validDate_first)
  ultimately show "Year (Date y m 1) = y + (m - 1) div 12" "Month (Date y m 1) = (m - 1) mod 12 + 1" "Day (Date y m 1) = 1"
    using Date_fields by metis+
qed

lemma monthIndex_Date [simp]: "monthIndex (Date y m 1) = 12 * y + (m - 1)"
  by (simp add: monthIndex_def Date_first_fields algebra_simps)

section \<open>Dates as text\<close>

lemma padNat_length: "0 < w \<Longrightarrow> n < 10 ^ w \<Longrightarrow> length (padNat w n) = w"
  using natDigits_length_le [of w n] by (simp add: padNat_def)

lemma zero_isDigit: "isDigit (CHR ''0'')"
  by (simp add: isDigit_def byteVal_def)

lemma padNat_isDigit [simp]: "list_all isDigit (padNat w n)"
  by (auto simp: padNat_def list_all_iff zero_isDigit) (metis list_all_iff natDigits_isDigit)

lemma digitVal_zero: "digitVal (CHR ''0'') = 0"
  by (simp add: digitVal_def byteVal_def)

lemma digitsVal_zeros: "digitsVal (replicate k (CHR ''0'')) = 0"
  by (induction k) (simp_all add: digitsVal_Cons digitVal_zero)

lemma digitsVal_padNat [simp]: "digitsVal (padNat w n) = n"
  by (simp add: padNat_def digitsVal_append digitsVal_zeros)

lemma padNat_digitsVal:
  assumes "list_all isDigit s" and "s \<noteq> []"
  shows "padNat (length s) (digitsVal s) = s"
proof (rule digitsVal_inj)
  show "length (padNat (length s) (digitsVal s)) = length s"
    using assms digitsVal_bound by (intro padNat_length) auto
qed (use assms in simp_all)

lemma append_less_append:
  fixes a c :: "'a::linorder list"
  shows "length a = length c \<Longrightarrow> a @ b < c @ d \<longleftrightarrow> a < c \<or> (a = c \<and> b < d)"
  by (induction a c rule: list_induct2) auto

lemma digits_less_iff:
  "length s = length t \<Longrightarrow> list_all isDigit s \<Longrightarrow> list_all isDigit t \<Longrightarrow> s < t \<longleftrightarrow> digitsVal s < digitsVal t"
proof (induction s t rule: list_induct2)
  case (Cons c s d t)
  have b: "digitsVal s < 10 ^ length t" "digitsVal t < 10 ^ length t"
    using digitsVal_bound [of s] digitsVal_bound [of t] Cons.hyps Cons.prems by auto
  have cd: "c < d \<longleftrightarrow> digitVal c < digitVal d" "c = d \<longleftrightarrow> digitVal c = digitVal d"
    using Cons.prems by (auto simp: less_char_byteVal digitVal_def isDigit_def byteVal_eq_iff [symmetric])
  have lt: "x * 10 ^ length t + p < y * 10 ^ length t + q"
    if "x < y" "p < 10 ^ length t" for x y p q :: nat
  proof -
    from that(1) have "Suc x * 10 ^ length t \<le> y * 10 ^ length t" by (intro mult_le_mono1) simp
    with that(2) show ?thesis by simp
  qed
  consider "digitVal c < digitVal d" | "digitVal d < digitVal c" | "digitVal c = digitVal d" by linarith
  then show ?case
  proof cases
    case 1
    then show ?thesis using lt [OF 1 b(1)] Cons.hyps cd by (simp add: digitsVal_Cons)
  next
    case 2
    then show ?thesis using lt [OF 2 b(2), of "digitsVal s"] Cons.hyps cd by (auto simp: digitsVal_Cons)
  next
    case 3
    then show ?thesis using Cons cd by (simp add: digitsVal_Cons)
  qed
qed simp

definition fourDigitYear :: "time \<Rightarrow> bool" where
  "fourDigitYear t \<longleftrightarrow> 0 \<le> Year t \<and> Year t \<le> 9999"

lemma formatDateOnly_parts:
  assumes "fourDigitYear t"
  obtains y m d where "formatDateOnly t = y @ ''-'' @ m @ ''-'' @ d" "length y = 4" "length m = 2" "length d = 2"
    "list_all isDigit y" "list_all isDigit m" "list_all isDigit d"
    "int (digitsVal y) = Year t" "int (digitsVal m) = Month t" "int (digitsVal d) = Day t"
proof -
  have v: "1 \<le> Month t" "Month t \<le> 12" "1 \<le> Day t" "Day t \<le> daysIn (Month t) (Year t)"
    using validDate_fields [of t] by (simp_all add: validDate_def)
  moreover have "daysIn m y \<le> 31" for m y by (simp add: daysIn_def)
  ultimately have d: "Day t \<le> 31" by (metis order.trans)
  have "nat (Year t) < 10 ^ 4" "nat (Month t) < 10 ^ 2" "nat (Day t) < 10 ^ 2"
    using assms v d by (auto simp: fourDigitYear_def nat_less_iff)
  then show ?thesis
    using assms v
    by (intro that [of "padNat 4 (nat (Year t))" "padNat 2 (nat (Month t))" "padNat 2 (nat (Day t))"])
       (simp_all add: formatDateOnly_def fourDigitYear_def padNat_length)
qed

lemma date_less_iff:
  "t < u \<longleftrightarrow> Year t < Year u \<or> (Year t = Year u \<and> (Month t < Month u \<or> (Month t = Month u \<and> Day t < Day u)))"
proof -
  have half: "t < u" if "Year t < Year u \<or> (Year t = Year u \<and> (Month t < Month u \<or> (Month t = Month u \<and> Day t < Day u)))" for t u
    using that
  proof (elim disjE conjE)
    assume "Year t < Year u"
    then have "daysBeforeYear (Year t + 1) \<le> daysBeforeYear (Year u)" by (intro daysBeforeYear_mono) simp
    then show ?thesis using Year_bounds [of t] Year_bounds [of u] by linarith
  next
    assume y: "Year t = Year u" and m: "Month t < Month u"
    then have lt: "Month t < 12" using Month_range(2) [of u] by linarith
    have "monthStarts l ! nat (Month t) \<le> monthStarts l ! nat (Month u - 1)" for l
    proof -
      have "sorted (monthStarts l)" by (simp add: monthStarts_def)
      then show ?thesis by (rule sorted_nth_mono) (use m Month_range [of t] Month_range [of u] in auto)
    qed
    then have "yearDay t < yearDay u"
      using Month_bracket(2) [OF lt] Month_bracket(1) [of u] unfolding y by (meson less_le_trans)
    then show ?thesis by (simp add: yearDay_def y)
  next
    assume "Year t = Year u" "Month t = Month u" "Day t < Day u"
    then show ?thesis by (simp add: Day_def yearDay_def)
  qed
  have eq: "t = u" if "Year t = Year u" "Month t = Month u" "Day t = Day u" using that Date_of_fields by metis
  show ?thesis
  proof
    assume "t < u"
    then have "\<not> u < t" "t \<noteq> u" by simp_all
    with half [of u t] eq show "Year t < Year u \<or> (Year t = Year u \<and> (Month t < Month u \<or> (Month t = Month u \<and> Day t < Day u)))"
      by linarith
  qed (rule half)
qed

lemma formatDateOnly_less_iff:
  assumes "fourDigitYear t" and "fourDigitYear u"
  shows "formatDateOnly t < formatDateOnly u \<longleftrightarrow> t < u"
proof -
  obtain y m d where t: "formatDateOnly t = y @ ''-'' @ m @ ''-'' @ d" "length y = 4" "length m = 2" "length d = 2"
    "list_all isDigit y" "list_all isDigit m" "list_all isDigit d"
    "int (digitsVal y) = Year t" "int (digitsVal m) = Month t" "int (digitsVal d) = Day t"
    using formatDateOnly_parts [OF assms(1)] .
  obtain y' m' d' where u: "formatDateOnly u = y' @ ''-'' @ m' @ ''-'' @ d'" "length y' = 4" "length m' = 2" "length d' = 2"
    "list_all isDigit y'" "list_all isDigit m'" "list_all isDigit d'"
    "int (digitsVal y') = Year u" "int (digitsVal m') = Month u" "int (digitsVal d') = Day u"
    using formatDateOnly_parts [OF assms(2)] .
  have eq: "y = y' \<longleftrightarrow> Year t = Year u" "m = m' \<longleftrightarrow> Month t = Month u"
    using t u digitsVal_inj [of y y'] digitsVal_inj [of m m'] by force+
  have less: "y < y' \<longleftrightarrow> Year t < Year u" "m < m' \<longleftrightarrow> Month t < Month u" "d < d' \<longleftrightarrow> Day t < Day u"
    using t u digits_less_iff [of y y'] digits_less_iff [of m m'] digits_less_iff [of d d'] by force+
  have "formatDateOnly t < formatDateOnly u \<longleftrightarrow> y < y' \<or> (y = y' \<and> (m < m' \<or> (m = m' \<and> d < d')))"
    unfolding t(1) u(1) using t(2,3) u(2,3) by (simp add: append_less_append)
  then show ?thesis unfolding date_less_iff [of t u] eq less .
qed

lemma formatDateOnly_inj:
  "fourDigitYear t \<Longrightarrow> fourDigitYear u \<Longrightarrow> formatDateOnly t = formatDateOnly u \<longleftrightarrow> t = u"
  using formatDateOnly_less_iff [of t u] formatDateOnly_less_iff [of u t] less_linear [of t u] by force

lemma parse_format:
  assumes "fourDigitYear t"
  shows "parseDateOnly (formatDateOnly t) = Some t"
proof -
  obtain y m d where t: "formatDateOnly t = y @ ''-'' @ m @ ''-'' @ d" "length y = 4" "length m = 2" "length d = 2"
    "list_all isDigit y" "list_all isDigit m" "list_all isDigit d"
    "int (digitsVal y) = Year t" "int (digitsVal m) = Month t" "int (digitsVal d) = Day t"
    using formatDateOnly_parts [OF assms] .
  let ?v = "formatDateOnly t"
  have v: "take 4 ?v = y" "?v ! 4 = CHR ''-''" "take 2 (drop 5 ?v) = m" "?v ! 7 = CHR ''-''" "drop 8 ?v = d" "length ?v = 10"
    using t(1-4) by (simp_all add: nth_append numeral_eq_Suc)
  then show ?thesis
    using t(5-10) validDate_fields [of t] Date_of_fields [of t]
    by (simp add: parseDateOnly_def v validDate_def Let_def)
qed

lemma parseDateOnly_Some:
  assumes "parseDateOnly v = Some t"
  shows "fourDigitYear t \<and> formatDateOnly t = v"
proof -
  let ?y = "take 4 v" and ?m = "take 2 (drop 5 v)" and ?d = "drop 8 v"
  from assms have v: "length v = 10" "list_all isDigit ?y" "v ! 4 = CHR ''-''" "list_all isDigit ?m" "v ! 7 = CHR ''-''"
    "list_all isDigit ?d" "validDate (int (digitsVal ?y)) (int (digitsVal ?m)) (int (digitsVal ?d))"
    and t: "t = Date (int (digitsVal ?y)) (int (digitsVal ?m)) (int (digitsVal ?d))"
    by (auto simp: parseDateOnly_def validDate_def Let_def split: if_splits)
  have f: "Year t = int (digitsVal ?y)" "Month t = int (digitsVal ?m)" "Day t = int (digitsVal ?d)"
    using Date_fields [OF v(7)] by (simp_all add: t)
  have "digitsVal ?y < 10 ^ 4" using digitsVal_bound [OF v(2)] v(1) by simp
  then have four: "fourDigitYear t" by (simp add: fourDigitYear_def f)
  have pad: "padNat 4 (digitsVal ?y) = ?y" "padNat 2 (digitsVal ?m) = ?m" "padNat 2 (digitsVal ?d) = ?d"
    using padNat_digitsVal [OF v(2)] padNat_digitsVal [OF v(4)] padNat_digitsVal [OF v(6)] v(1) by force+
  have "v = ?y @ v ! 4 # drop 5 v" using v(1) id_take_nth_drop [of 4 v] by simp
  also have "drop 5 v = ?m @ v ! 7 # ?d" using v(1) id_take_nth_drop [of 2 "drop 5 v"] by simp
  finally have "formatDateOnly t = v" using v(3,5) by (simp add: formatDateOnly_def f pad)
  with four show ?thesis by simp
qed

lemma parseDateOnly_iff: "parseDateOnly v = Some t \<longleftrightarrow> fourDigitYear t \<and> v = formatDateOnly t"
  using parseDateOnly_Some parse_format by blast

end
