(* ===== verification/Recur.thy ===== *)
theory Recur
  imports Go_Time
begin

text \<open>
  Package \<^verbatim>\<open>internal/recur\<close>: the dates of a recurring schedule (\<^verbatim>\<open>schedule.go\<close>). The walk over a
  series is a loop without a bound of its own, so it is a partial function into \<^typ>\<open>'a option\<close>;
  that it always returns, for every schedule that passes \<open>Validate\<close>, is part of what is proved.
  The visitor closures of \<open>Occurrences\<close> and \<open>Next\<close> are functions that thread the variable they
  capture. Steps are mathematical integers: the service keeps the interval at most 10000 and dates
  end with year 9999, so every product the code forms stays below \<open>2 ^ 63\<close>.
\<close>

section \<open>Definitions\<close>

type_synonym Frequency = string

definition Daily :: Frequency where "Daily = ''daily''"

definition Weekly :: Frequency where "Weekly = ''weekly''"

definition Monthly :: Frequency where "Monthly = ''monthly''"

definition Yearly :: Frequency where "Yearly = ''yearly''"

definition MaxOccurrencesPerWindow :: nat where "MaxOccurrencesPerWindow = 4000"

datatype recur_error =
    ErrFrequencyInvalid | ErrIntervalInvalid | ErrWeekdayMissing | ErrDayOfMonthInvalid
  | ErrMonthInvalid | ErrDateInvalid | ErrWindowTooWide

record ScheduleSpec =
  spec_Frequency :: Frequency
  IntervalCount :: int
  ByWeekday :: "int option"
  DayOfMonth :: int
  LastDayOfMonth :: bool
  MonthOfYear :: int
  StartsOn :: string
  EndsOn :: string
  MaxOccurrences :: int

definition parseDate :: "string \<Rightarrow> (recur_error, time) result" where
  "parseDate v = (case parseDateOnly v of
       None \<Rightarrow> Inl ErrDateInvalid
     | Some parsed \<Rightarrow>
         if Year parsed < 1 \<or> Year parsed > 9999 \<or> formatDateOnly parsed \<noteq> v then Inl ErrDateInvalid
         else Inr parsed)"

definition validateMonthDay :: "ScheduleSpec \<Rightarrow> (recur_error, unit) result" where
  "validateMonthDay spec = (
     if LastDayOfMonth spec then
       (if DayOfMonth spec \<noteq> 0 then Inl ErrDayOfMonthInvalid else Inr ())
     else if DayOfMonth spec < 1 \<or> DayOfMonth spec > 31 then Inl ErrDayOfMonthInvalid
     else Inr ())"

definition Validate :: "ScheduleSpec \<Rightarrow> (recur_error, unit) result" where
  "Validate spec = (
     bindR (ensure (spec_Frequency spec \<in> {Daily, Weekly, Monthly, Yearly}) ErrFrequencyInvalid) (\<lambda>_.
     bindR (ensure (IntervalCount spec \<ge> 1) ErrIntervalInvalid) (\<lambda>_.
     bindR (parseDate (StartsOn spec)) (\<lambda>startsOn.
     bindR (if EndsOn spec \<noteq> [] then
              bindR (parseDate (EndsOn spec)) (\<lambda>endsOn. ensure (\<not> endsOn < startsOn) ErrDateInvalid)
            else Inr ()) (\<lambda>_.
     bindR (ensure (\<not> MaxOccurrences spec < 0) ErrIntervalInvalid) (\<lambda>_.
     if spec_Frequency spec = Weekly then
       (case ByWeekday spec of
          None \<Rightarrow> Inl ErrWeekdayMissing
        | Some w \<Rightarrow> if w < 0 \<or> w > 6 then Inl ErrWeekdayMissing else Inr ())
     else if spec_Frequency spec = Monthly then validateMonthDay spec
     else if spec_Frequency spec = Yearly then
       bindR (validateMonthDay spec) (\<lambda>_.
         if MonthOfYear spec < 1 \<or> MonthOfYear spec > 12 then Inl ErrMonthInvalid else Inr ())
     else Inr ()))))))"

text \<open>The zeroth day of the next month is the last day of this one.\<close>

definition daysInMonth :: "int \<Rightarrow> int \<Rightarrow> int" where
  "daysInMonth year month = Day (Date year (month + 1) 0)"

definition clampToMonth :: "time \<Rightarrow> ScheduleSpec \<Rightarrow> time" where
  "clampToMonth firstOfMonth spec = (
     let lastDay = daysInMonth (Year firstOfMonth) (Month firstOfMonth);
         day = (if LastDayOfMonth spec \<or> DayOfMonth spec > lastDay then lastDay else DayOfMonth spec)
     in Date (Year firstOfMonth) (Month firstOfMonth) day)"

text \<open>A series is its spec and its origin; the weekday of a weekly spec is present once validated.\<close>

definition newSeries :: "ScheduleSpec \<Rightarrow> time \<Rightarrow> time" where
  "newSeries spec anchor = (
     if spec_Frequency spec = Daily then anchor
     else if spec_Frequency spec = Weekly then
       (let offset = (the (ByWeekday spec) - Weekday anchor + 7) mod 7 in AddDate anchor 0 0 offset)
     else if spec_Frequency spec = Monthly then
       (let origin = Date (Year anchor) (Month anchor) 1
        in if clampToMonth origin spec < anchor then AddDate origin 0 (IntervalCount spec) 0 else origin)
     else if spec_Frequency spec = Yearly then
       (let origin = Date (Year anchor) (MonthOfYear spec) 1
        in if clampToMonth origin spec < anchor then AddDate origin (IntervalCount spec) 0 0 else origin)
     else anchor)"

definition series_at :: "ScheduleSpec \<Rightarrow> time \<Rightarrow> int \<Rightarrow> time" where
  "series_at spec origin index = (
     let step = index * IntervalCount spec in
     if spec_Frequency spec = Daily then AddDate origin 0 0 step
     else if spec_Frequency spec = Weekly then AddDate origin 0 0 (step * 7)
     else if spec_Frequency spec = Monthly then clampToMonth (AddDate origin 0 step 0) spec
     else if spec_Frequency spec = Yearly then clampToMonth (AddDate origin step 0 0) spec
     else origin)"

partial_function (option) walkFrom ::
  "ScheduleSpec \<Rightarrow> time \<Rightarrow> time option \<Rightarrow> ('s \<Rightarrow> int \<Rightarrow> time \<Rightarrow> (recur_error, bool \<times> 's) result)
   \<Rightarrow> int \<Rightarrow> 's \<Rightarrow> (recur_error, 's) result option" where
  "walkFrom spec origin seriesEnd visit index s = (
     if MaxOccurrences spec > 0 \<and> index \<ge> MaxOccurrences spec then Some (Inr s)
     else let date = series_at spec origin index in
       if Year date > 9999 \<or> Year date < 1 then Some (Inr s)
       else if (case seriesEnd of None \<Rightarrow> False | Some e \<Rightarrow> date > e) then Some (Inr s)
       else (case visit s index date of
           Inl err \<Rightarrow> Some (Inl err)
         | Inr r \<Rightarrow> if fst r then walkFrom spec origin seriesEnd visit (index + 1) (snd r)
                    else Some (Inr (snd r))))"

definition walk ::
  "ScheduleSpec \<Rightarrow> ('s \<Rightarrow> int \<Rightarrow> time \<Rightarrow> (recur_error, bool \<times> 's) result) \<Rightarrow> 's \<Rightarrow> (recur_error, 's) result option" where
  "walk spec visit s = (case parseDate (StartsOn spec) of
       Inl e \<Rightarrow> Some (Inl e)
     | Inr anchor \<Rightarrow>
         (case (if EndsOn spec \<noteq> [] then bindR (parseDate (EndsOn spec)) (\<lambda>t. Inr (Some t)) else Inr None) of
            Inl e \<Rightarrow> Some (Inl e)
          | Inr seriesEnd \<Rightarrow> walkFrom spec (newSeries spec anchor) seriesEnd visit 0 s))"

definition occurrencesVisit ::
  "time \<Rightarrow> time \<Rightarrow> string list \<Rightarrow> int \<Rightarrow> time \<Rightarrow> (recur_error, bool \<times> string list) result" where
  "occurrencesVisit windowStart windowEnd dates index date = (
     if date > windowEnd then Inr (False, dates)
     else if \<not> date < windowStart then
       (if length dates \<ge> MaxOccurrencesPerWindow then Inl ErrWindowTooWide
        else Inr (True, dates @ [formatDateOnly date]))
     else Inr (True, dates))"

definition Occurrences :: "ScheduleSpec \<Rightarrow> string \<Rightarrow> string \<Rightarrow> (recur_error, string list) result option" where
  "Occurrences spec from to = (case Validate spec of
       Inl e \<Rightarrow> Some (Inl e)
     | Inr _ \<Rightarrow> (case parseDate from of
         Inl e \<Rightarrow> Some (Inl e)
       | Inr windowStart \<Rightarrow> (case parseDate to of
           Inl e \<Rightarrow> Some (Inl e)
         | Inr windowEnd \<Rightarrow>
             if windowEnd < windowStart then Some (Inr [])
             else walk spec (occurrencesVisit windowStart windowEnd) [])))"

definition nextVisit :: "time \<Rightarrow> string \<Rightarrow> int \<Rightarrow> time \<Rightarrow> (recur_error, bool \<times> string) result" where
  "nextVisit cutoff nxt index date = (
     if \<not> date > cutoff then Inr (True, nxt) else Inr (False, formatDateOnly date))"

definition Next :: "ScheduleSpec \<Rightarrow> string \<Rightarrow> (recur_error, string \<times> bool) result option" where
  "Next spec after = (case Validate spec of
       Inl e \<Rightarrow> Some (Inl e)
     | Inr _ \<Rightarrow> (case parseDate after of
         Inl e \<Rightarrow> Some (Inl e)
       | Inr cutoff \<Rightarrow> (case walk spec (nextVisit cutoff) [] of
           None \<Rightarrow> None
         | Some (Inl e) \<Rightarrow> Some (Inl e)
         | Some (Inr nxt) \<Rightarrow> Some (Inr (nxt, nxt \<noteq> [])))))"

section \<open>The series\<close>

lemma frequency_distinct [simp]:
  "Daily \<noteq> Weekly" "Daily \<noteq> Monthly" "Daily \<noteq> Yearly" "Weekly \<noteq> Monthly" "Weekly \<noteq> Yearly" "Monthly \<noteq> Yearly"
  "Weekly \<noteq> Daily" "Monthly \<noteq> Daily" "Yearly \<noteq> Daily" "Monthly \<noteq> Weekly" "Yearly \<noteq> Weekly" "Yearly \<noteq> Monthly"
  by (simp_all add: Daily_def Weekly_def Monthly_def Yearly_def)

lemma parseDate_Inr_iff:
  "parseDate v = Inr t \<longleftrightarrow> v = formatDateOnly t \<and> 1 \<le> Year t \<and> Year t \<le> 9999"
proof -
  have "parseDateOnly v = Some t" if "v = formatDateOnly t" "1 \<le> Year t" "Year t \<le> 9999"
    using that parse_format [of t] by (simp add: fourDigitYear_def)
  then show ?thesis
    using parseDateOnly_Some [of v] by (auto simp: parseDate_def split: option.splits if_splits)
qed

lemma daysInMonth_eq:
  assumes "1 \<le> m" and "m \<le> 12"
  shows "daysInMonth y m = daysIn m y"
proof -
  have "Date y (m + 1) 0 = Date y m (daysIn m y)"
  proof (cases "m = 12")
    case True
    then have "Date y (m + 1) 0 = daysBeforeYear (y + 1) + monthStarts (isLeap (y + 1)) ! 0 - 1"
      by (simp add: Date_def Let_def)
    also have "\<dots> = daysBeforeYear y + daysInYear y - 1" by (simp add: daysBeforeYear_Suc monthStarts_def)
    finally show ?thesis using monthStarts_days [OF assms, of y] True by (simp add: Date_plain)
  next
    case False
    then have "m < 12" using assms by simp
    then show ?thesis using monthStarts_days [OF assms, of y] assms by (simp add: Date_plain)
  qed
  moreover have "validDate y m (daysIn m y)" using assms by (auto simp: validDate_def daysIn_def)
  ultimately show ?thesis by (simp add: daysInMonth_def Date_fields)
qed

definition clampedDay :: "ScheduleSpec \<Rightarrow> int \<Rightarrow> int \<Rightarrow> int" where
  "clampedDay spec y m = (if LastDayOfMonth spec \<or> DayOfMonth spec > daysIn m y then daysIn m y else DayOfMonth spec)"

definition dayRuleOk :: "ScheduleSpec \<Rightarrow> bool" where
  "dayRuleOk spec \<longleftrightarrow> LastDayOfMonth spec \<or> 1 \<le> DayOfMonth spec"

lemma clampedDay_valid: "dayRuleOk spec \<Longrightarrow> 1 \<le> m \<Longrightarrow> m \<le> 12 \<Longrightarrow> validDate y m (clampedDay spec y m)"
  by (auto simp: clampedDay_def validDate_def dayRuleOk_def daysIn_def)

lemma clampToMonth_eq: "clampToMonth t spec = Date (Year t) (Month t) (clampedDay spec (Year t) (Month t))"
  by (simp add: clampToMonth_def Let_def clampedDay_def daysInMonth_eq Month_range)

lemma clampToMonth_fields:
  assumes "dayRuleOk spec"
  shows "Year (clampToMonth t spec) = Year t" "Month (clampToMonth t spec) = Month t"
    "Day (clampToMonth t spec) = clampedDay spec (Year t) (Month t)"
  using Date_fields [OF clampedDay_valid [OF assms Month_range(1) [of t] Month_range(2) [of t], of "Year t"]]
  by (simp_all add: clampToMonth_eq)

lemma monthIndex_clamp [simp]: "dayRuleOk spec \<Longrightarrow> monthIndex (clampToMonth t spec) = monthIndex t"
  by (simp add: monthIndex_def clampToMonth_fields)

lemma monthIndex_less: "monthIndex t < monthIndex u \<Longrightarrow> t < u"
proof -
  assume l: "monthIndex t < monthIndex u"
  note r = Month_range [of t] Month_range [of u] l [unfolded monthIndex_def]
  show "t < u"
  proof (cases "Year t = Year u")
    case True
    then have "Month t < Month u" using r by linarith
    then show ?thesis using True by (simp add: date_less_iff [of t u])
  next
    case False
    then have "Year t < Year u" using r by linarith
    then show ?thesis by (simp add: date_less_iff [of t u])
  qed
qed

lemma AddDate_first:
  assumes "Day t = 1"
  shows "monthIndex (AddDate t y m 0) = monthIndex t + 12 * y + m" "Day (AddDate t y m 0) = 1"
  using assms by (simp_all add: AddDate_def Date_first_fields(3) monthIndex_def [of t])

lemma monthIndex_eqD:
  assumes "monthIndex t = monthIndex u"
  shows "Year t = Year u" "Month t = Month u"
proof -
  note r = Month_range [of t] Month_range [of u] assms [unfolded monthIndex_def]
  show y: "Year t = Year u" using r by linarith
  show "Month t = Month u" using r y by linarith
qed

lemma clampToMonth_iff:
  assumes "dayRuleOk spec"
  shows "t = clampToMonth u spec \<longleftrightarrow>
    monthIndex t = monthIndex u \<and> Day t = clampedDay spec (Year t) (Month t)"
proof
  assume "t = clampToMonth u spec"
  then show "monthIndex t = monthIndex u \<and> Day t = clampedDay spec (Year t) (Month t)"
    using assms by (simp add: clampToMonth_fields)
next
  assume a: "monthIndex t = monthIndex u \<and> Day t = clampedDay spec (Year t) (Month t)"
  then have "Year t = Year u" "Month t = Month u" using monthIndex_eqD by blast+
  with a show "t = clampToMonth u spec" by (metis clampToMonth_eq Date_of_fields)
qed

text \<open>
  The days of a monthly or yearly rule, in closed form: the day rule holds in every month that lies a
  whole number of steps after the base month, from the starting day on.
\<close>

lemma clamp_series:
  assumes rule: "dayRuleOk spec" and s: "1 \<le> s"
    and start: "monthIndex start < monthIndex base + s"
    and origin: "monthIndex origin = monthIndex base + (if clampToMonth base spec < start then s else 0)"
    and months: "\<And>i. 0 \<le> i \<Longrightarrow> monthIndex (month i) = monthIndex origin + i * s"
  shows "(\<exists>i\<ge>0. t = clampToMonth (month i) spec) \<longleftrightarrow>
    start \<le> t \<and> Day t = clampedDay spec (Year t) (Month t) \<and>
    s dvd (monthIndex t - monthIndex base) \<and> monthIndex base \<le> monthIndex t" (is "?L \<longleftrightarrow> ?R")
proof
  assume ?L
  then obtain i where i: "0 \<le> i" and t: "t = clampToMonth (month i) spec" by blast
  then have mt: "monthIndex t = monthIndex origin + i * s" "Day t = clampedDay spec (Year t) (Month t)"
    using months rule by (simp_all add: clampToMonth_fields)
  have i0: "0 \<le> i * s" using i s by simp
  have "start \<le> t"
  proof (cases "clampToMonth base spec < start")
    case True
    then have "monthIndex start < monthIndex t" using mt(1) origin start i0 by simp
    then show ?thesis using monthIndex_less [of start t] by simp
  next
    case False
    have "clampToMonth base spec \<le> t"
    proof (cases "i = 0")
      case True
      then have "monthIndex t = monthIndex base" using mt(1) origin False by simp
      then show ?thesis using mt(2) clampToMonth_iff [OF rule, of t base] by simp
    next
      case nz: False
      then have "0 < i * s" using i s by simp
      then have "monthIndex (clampToMonth base spec) < monthIndex t" using mt(1) origin False rule by simp
      then show ?thesis using monthIndex_less by fastforce
    qed
    then show ?thesis using False by simp
  qed
  moreover have "s dvd (monthIndex t - monthIndex base)" using mt(1) origin by simp
  moreover have "monthIndex base \<le> monthIndex t" using mt(1) origin i0 s by simp
  ultimately show ?R using mt(2) by blast
next
  assume R: ?R
  then obtain j where j: "monthIndex t - monthIndex base = s * j" by auto
  have "0 \<le> s * j" using R j by linarith
  then have j0: "0 \<le> j" using s by (simp add: zero_le_mult_iff)
  define i where "i = (if clampToMonth base spec < start then j - 1 else j)"
  have "0 \<le> i"
  proof (cases "clampToMonth base spec < start")
    case True
    have "j \<noteq> 0"
    proof
      assume "j = 0"
      then have "monthIndex t = monthIndex base" using j by simp
      then have "t = clampToMonth base spec" using R clampToMonth_iff [OF rule, of t base] by simp
      then show False using R True by simp
    qed
    then show ?thesis using j0 by (simp add: i_def)
  qed (simp add: i_def j0)
  moreover from this have "monthIndex t = monthIndex (month i)"
    using months j origin by (simp add: i_def algebra_simps split: if_splits)
  then have "t = clampToMonth (month i) spec" using R clampToMonth_iff [OF rule] by blast
  ultimately show ?L by blast
qed

section \<open>What a schedule means\<close>

text \<open>
  The meaning of a schedule that starts on a given day, without reference to the walk: which days
  follow its rule, and which of these it admits (calendar range, end date, number of occurrences).
\<close>

definition onSchedule :: "ScheduleSpec \<Rightarrow> time \<Rightarrow> time \<Rightarrow> bool" where
  "onSchedule spec start t \<longleftrightarrow> start \<le> t \<and> (
     if spec_Frequency spec = Daily then IntervalCount spec dvd (t - start)
     else if spec_Frequency spec = Weekly then
       (7 * IntervalCount spec) dvd (t - (start + (the (ByWeekday spec) - Weekday start) mod 7)) \<and>
       start + (the (ByWeekday spec) - Weekday start) mod 7 \<le> t
     else if spec_Frequency spec = Monthly then
       IntervalCount spec dvd (monthIndex t - monthIndex start) \<and> Day t = clampedDay spec (Year t) (Month t)
     else IntervalCount spec dvd (Year t - Year start) \<and> Month t = MonthOfYear spec \<and>
       Day t = clampedDay spec (Year t) (Month t))"

definition seriesStart :: "ScheduleSpec \<Rightarrow> time" where
  "seriesStart spec = projr (parseDate (StartsOn spec))"

definition occurs :: "ScheduleSpec \<Rightarrow> time \<Rightarrow> bool" where
  "occurs spec t \<longleftrightarrow> onSchedule spec (seriesStart spec) t \<and> Year t \<le> 9999 \<and>
     (EndsOn spec \<noteq> [] \<longrightarrow> t \<le> projr (parseDate (EndsOn spec))) \<and>
     (MaxOccurrences spec > 0 \<longrightarrow> int (card {u. onSchedule spec (seriesStart spec) u \<and> u < t}) < MaxOccurrences spec)"

text \<open>What \<open>Validate\<close> establishes.\<close>

definition specOk :: "ScheduleSpec \<Rightarrow> bool" where
  "specOk spec \<longleftrightarrow> spec_Frequency spec \<in> {Daily, Weekly, Monthly, Yearly} \<and> 1 \<le> IntervalCount spec \<and>
     parseDate (StartsOn spec) = Inr (seriesStart spec) \<and>
     (EndsOn spec \<noteq> [] \<longrightarrow> (\<exists>e \<ge> seriesStart spec. parseDate (EndsOn spec) = Inr e)) \<and>
     0 \<le> MaxOccurrences spec \<and>
     (spec_Frequency spec = Weekly \<longrightarrow> (\<exists>w. ByWeekday spec = Some w \<and> 0 \<le> w \<and> w \<le> 6)) \<and>
     (spec_Frequency spec \<in> {Monthly, Yearly} \<longrightarrow> dayRuleOk spec \<and>
        (if LastDayOfMonth spec then DayOfMonth spec = 0 else DayOfMonth spec \<le> 31)) \<and>
     (spec_Frequency spec = Yearly \<longrightarrow> 1 \<le> MonthOfYear spec \<and> MonthOfYear spec \<le> 12)"

lemma validateMonthDay_ok:
  "validateMonthDay spec = Inr u \<longleftrightarrow> dayRuleOk spec \<and> (if LastDayOfMonth spec then DayOfMonth spec = 0 else DayOfMonth spec \<le> 31)"
  by (auto simp: validateMonthDay_def dayRuleOk_def)

lemma Validate_ok_iff: "Validate spec = Inr () \<longleftrightarrow> specOk spec"
proof -
  have e: "bindR (parseDate v) (\<lambda>t. ensure (\<not> t < a) ErrDateInvalid) = Inr () \<longleftrightarrow> (\<exists>t\<ge>a. parseDate v = Inr t)" for v a
    by (cases "parseDate v") (auto simp: result_simps not_less)
  show ?thesis
    by (cases "parseDate (StartsOn spec)")
       (auto simp: Validate_def specOk_def seriesStart_def e validateMonthDay_ok result_simps
          bindR_Inr_iff ensure_Inr_iff not_less split: option.splits if_splits)
qed

section \<open>The series enumerates the schedule\<close>

abbreviation dateAt :: "ScheduleSpec \<Rightarrow> int \<Rightarrow> time" where
  "dateAt spec \<equiv> series_at spec (newSeries spec (seriesStart spec))"

lemma every_n_days:
  "1 \<le> (n::int) \<Longrightarrow> (\<exists>i\<ge>0. t = a + i * n) \<longleftrightarrow> a \<le> t \<and> n dvd (t - a)"
proof
  assume n: "1 \<le> n" and "a \<le> t \<and> n dvd (t - a)"
  then obtain i where i: "t - a = n * i" "a \<le> t" by auto
  then have "0 \<le> n * i" by simp
  then have "0 \<le> i" using n by (simp add: zero_le_mult_iff)
  with i show "\<exists>i\<ge>0. t = a + i * n" by (intro exI [of _ i]) (simp add: algebra_simps)
qed auto

lemma dateAt_daily:
  "spec_Frequency spec = Daily \<Longrightarrow> dateAt spec i = seriesStart spec + i * IntervalCount spec"
  by (simp add: series_at_def newSeries_def AddDate_days)

lemma dateAt_weekly:
  "spec_Frequency spec = Weekly \<Longrightarrow>
   dateAt spec i = (seriesStart spec + (the (ByWeekday spec) - Weekday (seriesStart spec)) mod 7) + i * (7 * IntervalCount spec)"
  by (simp add: series_at_def newSeries_def AddDate_days Let_def)

lemma dateAt_monthly:
  assumes "spec_Frequency spec = Monthly" and "dayRuleOk spec" and "1 \<le> IntervalCount spec"
  shows "(\<exists>i\<ge>0. t = dateAt spec i) \<longleftrightarrow> onSchedule spec (seriesStart spec) t"
    and "\<exists>b. \<forall>i. monthIndex (dateAt spec i) = monthIndex b + i * IntervalCount spec"
proof -
  define start where "start = seriesStart spec"
  define base where "base = Date (Year start) (Month start) 1"
  define origin where "origin = newSeries spec start"
  let ?k = "IntervalCount spec"
  have b: "Day base = 1" "monthIndex base = monthIndex start" by (simp_all add: base_def Date_first_fields monthIndex_def)
  have o: "Day origin = 1" "monthIndex origin = monthIndex base + (if clampToMonth base spec < start then ?k else 0)"
    using assms b AddDate_first [OF b(1), of 0 ?k] by (simp_all add: origin_def newSeries_def base_def [symmetric] Let_def)
  have at: "dateAt spec i = clampToMonth (AddDate origin 0 (i * ?k) 0) spec" for i
    using assms by (simp add: series_at_def origin_def start_def)
  have m: "monthIndex (AddDate origin 0 (i * ?k) 0) = monthIndex origin + i * ?k" for i
    using AddDate_first [OF o(1)] by simp
  have "(\<exists>i\<ge>0. t = clampToMonth (AddDate origin 0 (i * ?k) 0) spec) \<longleftrightarrow>
    start \<le> t \<and> Day t = clampedDay spec (Year t) (Month t) \<and> ?k dvd (monthIndex t - monthIndex base) \<and> monthIndex base \<le> monthIndex t"
    using b(2) assms(3) by (intro clamp_series [OF assms(2,3) _ o(2) m]) simp
  moreover have "start \<le> t \<Longrightarrow> monthIndex base \<le> monthIndex t" using b(2) monthIndex_less [of t start] by fastforce
  ultimately show "(\<exists>i\<ge>0. t = dateAt spec i) \<longleftrightarrow> onSchedule spec (seriesStart spec) t"
    using assms(1) b(2) by (auto simp: onSchedule_def at start_def)
  show "\<exists>b. \<forall>i. monthIndex (dateAt spec i) = monthIndex b + i * ?k"
    using assms(2) m by (auto simp: at)
qed

lemma dateAt_yearly:
  assumes "spec_Frequency spec = Yearly" and "dayRuleOk spec" and "1 \<le> IntervalCount spec"
    and "1 \<le> MonthOfYear spec" and "MonthOfYear spec \<le> 12"
  shows "(\<exists>i\<ge>0. t = dateAt spec i) \<longleftrightarrow> onSchedule spec (seriesStart spec) t"
    and "\<exists>b. \<forall>i. monthIndex (dateAt spec i) = monthIndex b + i * (12 * IntervalCount spec)"
proof -
  define start where "start = seriesStart spec"
  define base where "base = Date (Year start) (MonthOfYear spec) 1"
  define origin where "origin = newSeries spec start"
  let ?k = "IntervalCount spec"
  have b: "Day base = 1" "monthIndex base = 12 * Year start + (MonthOfYear spec - 1)"
    by (simp_all add: base_def Date_first_fields)
  have o: "Day origin = 1" "monthIndex origin = monthIndex base + (if clampToMonth base spec < start then 12 * ?k else 0)"
    using assms(1) b AddDate_first [OF b(1), of ?k 0] by (simp_all add: origin_def newSeries_def base_def [symmetric] Let_def)
  have at: "dateAt spec i = clampToMonth (AddDate origin (i * ?k) 0 0) spec" for i
    using assms(1) by (simp add: series_at_def origin_def start_def)
  have m: "monthIndex (AddDate origin (i * ?k) 0 0) = monthIndex origin + i * (12 * ?k)" for i
    using AddDate_first [OF o(1)] by simp
  have s: "monthIndex start < monthIndex base + 12 * ?k"
    using Month_range [of start] assms(3,4) b(2) monthIndex_def [of start] by linarith
  have "(\<exists>i\<ge>0. t = clampToMonth (AddDate origin (i * ?k) 0 0) spec) \<longleftrightarrow>
    start \<le> t \<and> Day t = clampedDay spec (Year t) (Month t) \<and> (12 * ?k) dvd (monthIndex t - monthIndex base) \<and> monthIndex base \<le> monthIndex t"
    using assms(3) by (intro clamp_series [OF assms(2) _ s o(2) m]) simp
  moreover have "(12 * ?k) dvd (monthIndex t - monthIndex base) \<longleftrightarrow> ?k dvd (Year t - Year start) \<and> Month t = MonthOfYear spec"
  proof
    assume "(12 * ?k) dvd (monthIndex t - monthIndex base)"
    then obtain q where "monthIndex t - monthIndex base = 12 * ?k * q" by (rule dvdE)
    then have q: "12 * Year t + (Month t - 1) - (12 * Year start + (MonthOfYear spec - 1)) = 12 * (?k * q)"
      using b(2) by (simp only: monthIndex_def mult.assoc)
    define r where "r = ?k * q - (Year t - Year start)"
    have "Month t - MonthOfYear spec = 12 * r" using q by (simp only: r_def right_diff_distrib)
    then have "Month t = MonthOfYear spec" using Month_range [of t] assms(4,5) by presburger
    moreover from this have "Year t - Year start = ?k * q" using q by linarith
    ultimately show "?k dvd (Year t - Year start) \<and> Month t = MonthOfYear spec" by simp
  next
    assume "?k dvd (Year t - Year start) \<and> Month t = MonthOfYear spec"
    then have "monthIndex t - monthIndex base = 12 * (Year t - Year start)" "?k dvd (Year t - Year start)"
      using b(2) monthIndex_def [of t] by simp_all
    then show "(12 * ?k) dvd (monthIndex t - monthIndex base)" by (simp only: mult_dvd_mono dvd_refl)
  qed
  moreover have "start \<le> t \<Longrightarrow> Month t = MonthOfYear spec \<Longrightarrow> monthIndex base \<le> monthIndex t"
    using b(2) monthIndex_def [of t] date_less_iff [of t start] by linarith
  ultimately show "(\<exists>i\<ge>0. t = dateAt spec i) \<longleftrightarrow> onSchedule spec (seriesStart spec) t"
    using assms(1) by (auto simp: onSchedule_def at start_def)
  show "\<exists>b. \<forall>i. monthIndex (dateAt spec i) = monthIndex b + i * (12 * ?k)"
    using assms(2) m by (auto simp: at)
qed

lemma dateAt_onSchedule:
  assumes "specOk spec"
  shows "(\<exists>i\<ge>0. t = dateAt spec i) \<longleftrightarrow> onSchedule spec (seriesStart spec) t"
proof -
  have k: "1 \<le> IntervalCount spec" using assms by (simp add: specOk_def)
  have off: "0 \<le> (the (ByWeekday spec) - Weekday (seriesStart spec)) mod 7" by simp
  from assms consider "spec_Frequency spec = Daily" | "spec_Frequency spec = Weekly"
    | "spec_Frequency spec = Monthly" | "spec_Frequency spec = Yearly" by (auto simp: specOk_def)
  then show ?thesis
  proof cases
    case 1
    then show ?thesis using every_n_days [OF k] by (simp add: dateAt_daily onSchedule_def)
  next
    case 2
    have "1 \<le> 7 * IntervalCount spec" using k by simp
    note every_n_days [OF this, of t "seriesStart spec + (the (ByWeekday spec) - Weekday (seriesStart spec)) mod 7"]
    with 2 off show ?thesis by (auto simp: dateAt_weekly onSchedule_def)
  next
    case 3
    then show ?thesis using assms k by (intro dateAt_monthly) (simp_all add: specOk_def)
  next
    case 4
    then show ?thesis using assms k by (intro dateAt_yearly) (simp_all add: specOk_def)
  qed
qed

lemma dateAt_strict_mono:
  assumes "specOk spec" and "i < j"
  shows "dateAt spec i < dateAt spec j"
proof -
  have k: "1 \<le> IntervalCount spec" using assms by (simp add: specOk_def)
  have l: "i * n < j * n" if "1 \<le> n" for n using assms(2) that by simp
  from assms(1) consider "spec_Frequency spec = Daily" | "spec_Frequency spec = Weekly"
    | "spec_Frequency spec = Monthly" | "spec_Frequency spec = Yearly" by (auto simp: specOk_def)
  then show ?thesis
  proof cases
    case 1
    then show ?thesis using l [OF k] by (simp add: dateAt_daily)
  next
    case 2
    have "i * (7 * IntervalCount spec) < j * (7 * IntervalCount spec)" using k by (intro l) simp
    then show ?thesis by (simp only: dateAt_weekly [OF 2] add_less_cancel_left)
  next
    case 3
    then obtain b where "\<And>i. monthIndex (dateAt spec i) = monthIndex b + i * IntervalCount spec"
      using dateAt_monthly(2) [OF 3 _ k] assms(1) by (auto simp: specOk_def)
    then show ?thesis using l [OF k] by (simp add: monthIndex_less)
  next
    case 4
    then obtain b where "\<And>i. monthIndex (dateAt spec i) = monthIndex b + i * (12 * IntervalCount spec)"
      using dateAt_yearly(2) [OF 4 _ k] assms(1) by (auto simp: specOk_def)
    moreover have "i * (12 * IntervalCount spec) < j * (12 * IntervalCount spec)" using k by (intro l) simp
    ultimately have "monthIndex (dateAt spec i) < monthIndex (dateAt spec j)" by (simp only: add_less_cancel_left)
    then show ?thesis by (rule monthIndex_less)
  qed
qed

section \<open>The walk\<close>

text \<open>The loop visits the dates of a series until its first inadmissible one.\<close>

definition admits :: "ScheduleSpec \<Rightarrow> time \<Rightarrow> time option \<Rightarrow> int \<Rightarrow> bool" where
  "admits spec origin seriesEnd i \<longleftrightarrow>
     \<not> (MaxOccurrences spec > 0 \<and> i \<ge> MaxOccurrences spec) \<and>
     1 \<le> Year (series_at spec origin i) \<and> Year (series_at spec origin i) \<le> 9999 \<and>
     (case seriesEnd of None \<Rightarrow> True | Some e \<Rightarrow> series_at spec origin i \<le> e)"

fun runVisits :: "('s \<Rightarrow> int \<Rightarrow> time \<Rightarrow> (recur_error, bool \<times> 's) result) \<Rightarrow> (int \<Rightarrow> time) \<Rightarrow> int list \<Rightarrow> 's \<Rightarrow> (recur_error, 's) result" where
  "runVisits visit at [] s = Inr s"
| "runVisits visit at (i # is) s = bindR (visit s i (at i)) (\<lambda>r. if fst r then runVisits visit at is (snd r) else Inr (snd r))"

lemma walkFrom_runVisits:
  assumes "k \<le> n" and "\<forall>i\<in>{k..<n}. admits spec origin seriesEnd i" and "\<not> admits spec origin seriesEnd n"
  shows "walkFrom spec origin seriesEnd visit k s = Some (runVisits visit (series_at spec origin) [k..n - 1] s)"
  using assms
proof (induction "nat (n - k)" arbitrary: k s)
  case 0
  then have "k = n" by simp
  with 0 show ?case by (subst walkFrom.simps) (auto simp: admits_def Let_def not_le split: option.splits)
next
  case (Suc d)
  then have kn: "k < n" "admits spec origin seriesEnd k" by auto
  have ih: "walkFrom spec origin seriesEnd visit (k + 1) s' = Some (runVisits visit (series_at spec origin) [k + 1..n - 1] s')" for s'
    using Suc kn by simp
  have "[k..n - 1] = k # [k + 1..n - 1]" using kn by (simp add: upto_rec1)
  moreover have "(case seriesEnd of None \<Rightarrow> False | Some e \<Rightarrow> series_at spec origin k > e) = False"
    "(MaxOccurrences spec > 0 \<and> k \<ge> MaxOccurrences spec) = False"
    "(Year (series_at spec origin k) > 9999 \<or> Year (series_at spec origin k) < 1) = False"
    using kn(2) by (auto simp: admits_def split: option.splits)
  ultimately show ?case
    by (subst walkFrom.simps) (simp only: Let_def if_False ih runVisits.simps bindR_def, simp split: sum.splits)
qed

lemma strict_mono_int_lower:
  fixes f :: "int \<Rightarrow> int"
  assumes "\<And>i j. i < j \<Longrightarrow> f i < f j"
  shows "f 0 + int n \<le> f (int n)"
proof (induction n)
  case (Suc n)
  have "f (int n) < f (int (Suc n))" by (intro assms) simp
  with Suc show ?case by simp
qed simp

lemma Year_mono: "t \<le> u \<Longrightarrow> Year t \<le> Year u"
  using date_less_iff [of u t] by linarith

lemma admits_eventually_not:
  assumes "specOk spec"
  shows "\<exists>n. \<not> admits spec (newSeries spec (seriesStart spec)) seriesEnd (int n)"
proof -
  define c where "c = Date 10000 1 1"
  define n where "n = nat (c - dateAt spec 0)"
  have "dateAt spec 0 + int n \<le> dateAt spec (int n)"
    using dateAt_strict_mono [OF assms] by (intro strict_mono_int_lower)
  moreover have "c - dateAt spec 0 \<le> int n" by (simp add: n_def)
  ultimately have "c \<le> dateAt spec (int n)" by linarith
  then have "10000 \<le> Year (dateAt spec (int n))" using Year_mono [of c] by (simp add: c_def Date_first_fields)
  then show ?thesis by (intro exI [of _ n]) (simp add: admits_def)
qed

definition seriesEndOf :: "ScheduleSpec \<Rightarrow> time option" where
  "seriesEndOf spec = (if EndsOn spec = [] then None else Some (projr (parseDate (EndsOn spec))))"

text \<open>The number of dates the series admits.\<close>

definition seriesLength :: "ScheduleSpec \<Rightarrow> nat" where
  "seriesLength spec = (LEAST n. \<not> admits spec (newSeries spec (seriesStart spec)) (seriesEndOf spec) (int n))"

lemma walk_runVisits:
  assumes ok: "specOk spec"
  shows "walk spec visit s = Some (runVisits visit (dateAt spec) [0..int (seriesLength spec) - 1] s)"
proof -
  let ?A = "\<lambda>i. admits spec (newSeries spec (seriesStart spec)) (seriesEndOf spec) i"
  have n: "\<not> ?A (int (seriesLength spec))"
    unfolding seriesLength_def using admits_eventually_not [OF ok] by (rule LeastI_ex)
  have "?A i" if "i \<in> {0..<int (seriesLength spec)}" for i
    using not_less_Least [of "nat i" "\<lambda>n. \<not> ?A (int n)"] that by (simp add: seriesLength_def nat_less_iff)
  then have w: "walkFrom spec (newSeries spec (seriesStart spec)) (seriesEndOf spec) visit 0 s
      = Some (runVisits visit (dateAt spec) [0..int (seriesLength spec) - 1] s)"
    using n by (intro walkFrom_runVisits) auto
  show ?thesis using ok w by (auto simp: walk_def specOk_def seriesEndOf_def)
qed

lemma index_is_rank:
  assumes ok: "specOk spec" and i: "0 \<le> i"
  shows "int (card {u. onSchedule spec (seriesStart spec) u \<and> u < dateAt spec i}) = i"
proof -
  have less: "dateAt spec j < dateAt spec i \<longleftrightarrow> j < i" for j
    using dateAt_strict_mono [OF ok, of i j] dateAt_strict_mono [OF ok, of j i] by (cases i j rule: linorder_cases) auto
  have "{u. onSchedule spec (seriesStart spec) u \<and> u < dateAt spec i} = dateAt spec ` {0..<i}"
  proof (intro set_eqI iffI)
    fix u assume "u \<in> {u. onSchedule spec (seriesStart spec) u \<and> u < dateAt spec i}"
    then obtain j where "0 \<le> j" "u = dateAt spec j" "u < dateAt spec i" using dateAt_onSchedule [OF ok] by blast
    then show "u \<in> dateAt spec ` {0..<i}" using less by auto
  next
    fix u assume "u \<in> dateAt spec ` {0..<i}"
    then obtain j where "0 \<le> j" "j < i" "u = dateAt spec j" by auto
    then show "u \<in> {u. onSchedule spec (seriesStart spec) u \<and> u < dateAt spec i}"
      using dateAt_onSchedule [OF ok] less by blast
  qed
  moreover have "inj_on (dateAt spec) {0..<i}"
  proof (rule inj_onI)
    fix a b assume "dateAt spec a = dateAt spec b"
    then show "a = b" using dateAt_strict_mono [OF ok, of a b] dateAt_strict_mono [OF ok, of b a]
      by (cases a b rule: linorder_cases) auto
  qed
  ultimately show ?thesis using i by (simp add: card_image)
qed

lemma dateAt_first:
  assumes ok: "specOk spec"
  shows "0 \<le> i \<Longrightarrow> 1 \<le> Year (dateAt spec i)"
proof -
  assume "0 \<le> i"
  then have "seriesStart spec \<le> dateAt spec i"
    using dateAt_onSchedule [OF ok, of "dateAt spec i"] by (auto simp: onSchedule_def)
  then show ?thesis using ok Year_mono by (fastforce simp: specOk_def parseDate_Inr_iff)
qed

lemma admits_iff_occurs:
  assumes ok: "specOk spec" and i: "0 \<le> i"
  shows "admits spec (newSeries spec (seriesStart spec)) (seriesEndOf spec) i \<longleftrightarrow> occurs spec (dateAt spec i)"
proof -
  have "onSchedule spec (seriesStart spec) (dateAt spec i)" using dateAt_onSchedule [OF ok] i by blast
  then show ?thesis using dateAt_first [OF ok i] index_is_rank [OF ok i]
    by (auto simp: admits_def occurs_def seriesEndOf_def split: if_splits)
qed

lemma admits_downward:
  assumes ok: "specOk spec" and "0 \<le> i" and "i \<le> j"
    and j: "admits spec (newSeries spec (seriesStart spec)) e j"
  shows "admits spec (newSeries spec (seriesStart spec)) e i"
proof -
  have le: "dateAt spec i \<le> dateAt spec j" using assms(3) dateAt_strict_mono [OF ok, of i j] by (cases "i = j") auto
  then show ?thesis using j assms(3) Year_mono [OF le] dateAt_first [OF ok assms(2)]
    by (auto simp: admits_def split: option.splits)
qed

text \<open>The dates the walk visits are exactly the dates the schedule admits.\<close>

lemma visited_dates:
  assumes ok: "specOk spec"
  shows "dateAt spec ` {0..<int (seriesLength spec)} = {t. occurs spec t}"
    and "sorted_wrt (<) (map (dateAt spec) [0..int (seriesLength spec) - 1])"
proof -
  let ?A = "\<lambda>i. admits spec (newSeries spec (seriesStart spec)) (seriesEndOf spec) i"
  have n: "\<not> ?A (int (seriesLength spec))"
    unfolding seriesLength_def using admits_eventually_not [OF ok] by (rule LeastI_ex)
  have a: "?A i" if "0 \<le> i" "i < int (seriesLength spec)" for i
    using not_less_Least [of "nat i" "\<lambda>n. \<not> ?A (int n)"] that by (simp add: seriesLength_def nat_less_iff)
  have b: "i < int (seriesLength spec)" if "0 \<le> i" "?A i" for i
    using admits_downward [OF ok _ _ that(2), of "int (seriesLength spec)"] n by fastforce
  have "occurs spec t \<longleftrightarrow> (\<exists>i\<ge>0. t = dateAt spec i \<and> ?A i)" for t
    using dateAt_onSchedule [OF ok, of t] admits_iff_occurs [OF ok] by (auto simp: occurs_def)
  then show "dateAt spec ` {0..<int (seriesLength spec)} = {t. occurs spec t}"
    using a b by fastforce
  show "sorted_wrt (<) (map (dateAt spec) [0..int (seriesLength spec) - 1])"
    unfolding sorted_wrt_map
    by (rule sorted_wrt_mono_rel [OF _ sorted_wrt_upto]) (rule dateAt_strict_mono [OF ok])
qed

section \<open>Occurrences and the next one\<close>

lemma runVisits_occurrences:
  assumes "sorted_wrt (<) (map at is)" and "length dates \<le> MaxOccurrencesPerWindow"
  shows "runVisits (occurrencesVisit a b) at is dates =
    (let sel = filter (\<lambda>t. a \<le> t \<and> t \<le> b) (map at is) in
     if length dates + length sel \<le> MaxOccurrencesPerWindow then Inr (dates @ map formatDateOnly sel)
     else Inl ErrWindowTooWide)"
  using assms
proof (induction "is" arbitrary: dates)
  case (Cons i "is")
  show ?case
  proof (cases "b < at i")
    case True
    then have "filter (\<lambda>t. a \<le> t \<and> t \<le> b) (map at is) = []" using Cons.prems by (auto simp: filter_empty_conv)
    then show ?thesis using True Cons.prems by (simp add: occurrencesVisit_def)
  next
    case False
    then show ?thesis using Cons by (auto simp: occurrencesVisit_def Let_def)
  qed
qed simp

lemma runVisits_next:
  "runVisits (nextVisit c) at is [] =
    Inr (case filter (\<lambda>t. c < t) (map at is) of [] \<Rightarrow> [] | t # ts \<Rightarrow> formatDateOnly t)"
  by (induction "is") (auto simp: nextVisit_def)

lemma sorted_filter_set:
  assumes "sorted_wrt (<) (ts :: int list)"
  shows "filter P ts = sorted_list_of_set {t \<in> set ts. P t}"
proof -
  have "sorted_wrt (<) (filter P ts)" using assms by (rule sorted_wrt_filter)
  then have "sorted (filter P ts)" "distinct (filter P ts)" by (simp_all add: strict_sorted_iff)
  then have "filter P ts = sorted_list_of_set (set (filter P ts))"
    by (metis sorted_list_of_set.idem_if_sorted_distinct)
  then show ?thesis by (simp only: set_filter)
qed

lemma filter_dates:
  assumes ok: "specOk spec"
  shows "filter P (map (dateAt spec) [0..int (seriesLength spec) - 1]) = sorted_list_of_set {t. occurs spec t \<and> P t}"
proof -
  have "set (map (dateAt spec) [0..int (seriesLength spec) - 1]) = {t. occurs spec t}"
    unfolding visited_dates(1) [OF ok, symmetric] by (simp only: set_map set_upto) (rule arg_cong [where f = "image _"], auto)
  then show ?thesis using sorted_filter_set [OF visited_dates(2) [OF ok], of P] by simp
qed

lemma occurs_finite: "specOk spec \<Longrightarrow> finite {t. occurs spec t}"
  using visited_dates(1) by (metis finite_atLeastLessThan_int finite_imageI)

lemma Occurrences_eq:
  assumes "Validate spec = Inr ()" and "parseDate from = Inr a" and "parseDate to = Inr b"
  shows "Occurrences spec from to = Some (
    let days = {t. occurs spec t \<and> a \<le> t \<and> t \<le> b} in
    if card days \<le> MaxOccurrencesPerWindow then Inr (map formatDateOnly (sorted_list_of_set days))
    else Inl ErrWindowTooWide)"
proof -
  have ok: "specOk spec" using assms(1) by (simp add: Validate_ok_iff)
  define days where "days = {t. occurs spec t \<and> a \<le> t \<and> t \<le> b}"
  have sel: "filter (\<lambda>t. a \<le> t \<and> t \<le> b) (map (dateAt spec) [0..int (seriesLength spec) - 1]) = sorted_list_of_set days"
    using filter_dates [OF ok, of "\<lambda>t. a \<le> t \<and> t \<le> b"] by (simp add: days_def)
  have "walk spec (occurrencesVisit a b) [] = Some (
      if card days \<le> MaxOccurrencesPerWindow then Inr (map formatDateOnly (sorted_list_of_set days)) else Inl ErrWindowTooWide)"
    using runVisits_occurrences [OF visited_dates(2) [OF ok], of "[]" a b] sel by (simp add: Let_def walk_runVisits [OF ok])
  moreover have "b < a \<Longrightarrow> days = {}" by (auto simp: days_def)
  ultimately show ?thesis using assms by (auto simp: Occurrences_def days_def [symmetric] Let_def)
qed

lemma Next_eq:
  assumes "Validate spec = Inr ()" and "parseDate after = Inr c"
  shows "Next spec after = Some (Inr (
    let days = {t. occurs spec t \<and> c < t} in
    if days = {} then ([], False) else (formatDateOnly (Min days), True)))"
proof -
  have ok: "specOk spec" using assms(1) by (simp add: Validate_ok_iff)
  define days where "days = {t. occurs spec t \<and> c < t}"
  have fin: "finite days" using occurs_finite [OF ok] by (simp add: days_def)
  have w: "walk spec (nextVisit c) [] = Some (Inr (case sorted_list_of_set days of [] \<Rightarrow> [] | t # ts \<Rightarrow> formatDateOnly t))"
    using walk_runVisits [OF ok, of "nextVisit c" "[]"] runVisits_next [of c] filter_dates [OF ok, of "\<lambda>t. c < t"]
    by (simp add: days_def)
  have ne: "formatDateOnly t \<noteq> []" for t by (simp add: formatDateOnly_def)
  show ?thesis
  proof (cases "days = {}")
    case True
    then show ?thesis using assms w by (simp add: Next_def days_def [symmetric])
  next
    case False
    then have "sorted_list_of_set days = Min days # sorted_list_of_set (days - {Min days})"
      using fin by (rule sorted_list_of_set_nonempty [rotated])
    then show ?thesis using assms w False ne by (simp add: Next_def days_def [symmetric])
  qed
qed



text \<open>A rent due on the last day of each month, over the end of a leap year's February.\<close>

definition rent :: ScheduleSpec where
  "rent = \<lparr> spec_Frequency = Monthly, IntervalCount = 1, ByWeekday = None, DayOfMonth = 31, LastDayOfMonth = False,
     MonthOfYear = 0, StartsOn = ''2024-01-15'', EndsOn = ''2024-12-31'', MaxOccurrences = 0 \<rparr>"

lemma rent_valid: "Validate rent = Inr ()"
  by code_simp

lemma rent_dates:
  "parseDate ''2024-02-01'' = Inr (Date 2024 2 1)" "parseDate ''2024-03-31'' = Inr (Date 2024 3 31)"
  "parseDate ''2024-12-30'' = Inr (Date 2024 12 30)" "parseDate ''2024-01-15'' = Inr (Date 2024 1 15)"
  "parseDate ''2024-12-31'' = Inr (Date 2024 12 31)"
  by (simp_all add: parseDate_Inr_iff formatDateOnly_def Date_fields validDate_def daysIn_def padNat_def natDigits.simps digitChar_literals)

lemma rent_at:
  "series_at rent (Date 2024 1 1) 0 = Date 2024 1 31" "series_at rent (Date 2024 1 1) 1 = Date 2024 2 29"
  "series_at rent (Date 2024 1 1) 2 = Date 2024 3 31" "series_at rent (Date 2024 1 1) 3 = Date 2024 4 30"
  "newSeries rent (Date 2024 1 15) = Date 2024 1 1"
  by code_simp+

lemma rent_years:
  "Year (Date 2024 1 31) = 2024" "Year (Date 2024 2 29) = 2024" "Year (Date 2024 3 31) = 2024" "Year (Date 2024 4 30) = 2024"
  by code_simp+

lemma rent_formats: "formatDateOnly (Date 2024 2 29) = ''2024-02-29''" "formatDateOnly (Date 2024 3 31) = ''2024-03-31''"
  by code_simp+

lemma rent_order:
  "(Date 2024 1 31 < Date 2024 2 1) = True" "(Date 2024 3 31 < Date 2024 2 1) = False" "(Date 2024 2 29 < Date 2024 2 1) = False"
  "(Date 2024 3 31 < Date 2024 1 31) = False" "(Date 2024 3 31 < Date 2024 2 29) = False" "(Date 2024 3 31 < Date 2024 4 30) = True"
  "(Date 2024 12 31 < Date 2024 1 31) = False" "(Date 2024 12 31 < Date 2024 2 29) = False"
  "(Date 2024 12 31 < Date 2024 3 31) = False" "(Date 2024 12 31 < Date 2024 4 30) = False"
  by code_simp+

lemma rent_fields: "StartsOn rent = ''2024-01-15''" "EndsOn rent = ''2024-12-31''" "MaxOccurrences rent = 0"
  by (simp_all add: rent_def)

lemma rent_occurrences:
  "Occurrences rent ''2024-02-01'' ''2024-03-31'' = Some (Inr [''2024-02-29'', ''2024-03-31''])"
  by (simp add: Occurrences_def rent_valid rent_dates rent_order walk_def rent_fields rent_at occurrencesVisit_def
     MaxOccurrencesPerWindow_def walkFrom.simps rent_years rent_formats)



end
