(* ===== verification/Throttle.thy ===== *)
theory Throttle
  imports Prelude "HOL-Library.Multiset"
begin

text \<open>
  Login throttling: \<^verbatim>\<open>app/auth_throttle.go\<close> over the \<^verbatim>\<open>login_throttles\<close> table of \<^verbatim>\<open>db/auth.go\<close>. The
  table is a map from a scope to its row. Each repository call is one database transaction, so it is
  one step; attempts of different requests interleave between steps. A time is a number of
  nanoseconds; a timestamp column holds whole seconds, as the RFC 3339 text the service writes does,
  so its parse errors do not arise. Fresh identifiers are arguments: the two a reservation may draw.
\<close>

section \<open>Definitions\<close>

definition loginThrottleMaxFailures :: int where "loginThrottleMaxFailures = 5"

definition loginThrottleWindow :: int where "loginThrottleWindow = 15 * 60 * 10 ^ 9"

definition throttleScopeUsername :: string where "throttleScopeUsername = ''username''"

definition throttleScopeClientIP :: string where "throttleScopeClientIP = ''client_ip''"

type_synonym loginThrottleScope = "string \<times> string"

record LoginThrottleRecord =
  lt_FailedAttempts :: int
  lt_BlockedUntil :: "int option"
  lt_UpdatedAt :: int
  lt_Generation :: string

record ThrottleScopeKey =
  sk_scope :: loginThrottleScope
  sk_Generation :: string

type_synonym throttles = "loginThrottleScope \<rightharpoonup> LoginThrottleRecord"

definition toSeconds :: "int \<Rightarrow> int" where "toSeconds t = t div 10 ^ 9"

definition fromSeconds :: "int \<Rightarrow> int" where "fromSeconds s = s * 10 ^ 9"

definition UpdateLoginThrottle ::
  "throttles \<Rightarrow> loginThrottleScope \<Rightarrow> (LoginThrottleRecord option \<Rightarrow> LoginThrottleRecord option \<times> 'a) \<Rightarrow> throttles \<times> 'a" where
  "UpdateLoginThrottle rows scope decide = (let (nxt, out) = decide (rows scope) in
     ((case nxt of None \<Rightarrow> rows | Some r \<Rightarrow> rows(scope \<mapsto> r)), out))"

definition RefundLoginAttempt :: "throttles \<Rightarrow> ThrottleScopeKey \<Rightarrow> throttles" where
  "RefundLoginAttempt rows key = (case rows (sk_scope key) of
       None \<Rightarrow> rows
     | Some r \<Rightarrow> if lt_Generation r = sk_Generation key \<and> lt_BlockedUntil r = None
                 then rows(sk_scope key \<mapsto> r\<lparr> lt_FailedAttempts := max (lt_FailedAttempts r - 1) 0 \<rparr>) else rows)"

definition DeleteLoginThrottle :: "throttles \<Rightarrow> ThrottleScopeKey \<Rightarrow> throttles" where
  "DeleteLoginThrottle rows key = (case rows (sk_scope key) of
       None \<Rightarrow> rows
     | Some r \<Rightarrow> if lt_Generation r = sk_Generation key then rows(sk_scope key := None) else rows)"

text \<open>The decision of \<open>reserveScope\<close>: the row to write, the generation and the wait.\<close>

definition reserveDecide :: "int \<Rightarrow> string \<Rightarrow> string \<Rightarrow> LoginThrottleRecord option \<Rightarrow> LoginThrottleRecord option \<times> string \<times> int" where
  "reserveDecide now uuid1 uuid2 current = (
     let admit = (\<lambda>attempts generation. (Some \<lparr> lt_FailedAttempts = attempts + 1, lt_BlockedUntil = None,
           lt_UpdatedAt = toSeconds now, lt_Generation = generation \<rparr>, generation, 0))
     in case current of
       None \<Rightarrow> admit 0 uuid1
     | Some r \<Rightarrow>
         (let generation = (if lt_Generation r \<noteq> [] then lt_Generation r else uuid1) in
          case lt_BlockedUntil r of
            Some blockedUntil \<Rightarrow>
              if fromSeconds blockedUntil > now then (None, generation, fromSeconds blockedUntil - now) else admit 0 uuid2
          | None \<Rightarrow>
              if lt_FailedAttempts r \<ge> loginThrottleMaxFailures then
                (let heldUntil = fromSeconds (lt_UpdatedAt r) + loginThrottleWindow in
                 if heldUntil > now then (None, generation, heldUntil - now) else admit 0 uuid2)
              else admit (lt_FailedAttempts r) generation))"

definition reserveScope :: "throttles \<Rightarrow> int \<Rightarrow> string \<Rightarrow> string \<Rightarrow> loginThrottleScope \<Rightarrow> throttles \<times> string \<times> int" where
  "reserveScope rows now uuid1 uuid2 scope = UpdateLoginThrottle rows scope (reserveDecide now uuid1 uuid2)"

definition failDecide :: "int \<Rightarrow> string \<Rightarrow> LoginThrottleRecord option \<Rightarrow> LoginThrottleRecord option \<times> int" where
  "failDecide now generation current = (case current of
       None \<Rightarrow> (None, 0)
     | Some r \<Rightarrow>
         if lt_Generation r \<noteq> generation then (None, 0)
         else case lt_BlockedUntil r of
           Some blockedUntil \<Rightarrow> (None, max (fromSeconds blockedUntil - now) 0)
         | None \<Rightarrow>
             if lt_FailedAttempts r \<ge> loginThrottleMaxFailures then
               (Some \<lparr> lt_FailedAttempts = 0, lt_BlockedUntil = Some (toSeconds (now + loginThrottleWindow)),
                  lt_UpdatedAt = toSeconds now, lt_Generation = generation \<rparr>, loginThrottleWindow)
             else
               (Some \<lparr> lt_FailedAttempts = lt_FailedAttempts r, lt_BlockedUntil = None,
                  lt_UpdatedAt = toSeconds now, lt_Generation = generation \<rparr>, 0))"

definition failScope :: "throttles \<Rightarrow> int \<Rightarrow> ThrottleScopeKey \<Rightarrow> throttles \<times> int" where
  "failScope rows now key = UpdateLoginThrottle rows (sk_scope key) (failDecide now (sk_Generation key))"

text \<open>A reservation is the list of places it holds and whether it has settled.\<close>

record throttleReservation =
  rv_scopes :: "ThrottleScopeKey list"
  rv_settled :: bool

definition release :: "throttles \<Rightarrow> throttleReservation \<Rightarrow> throttles \<times> throttleReservation" where
  "release rows r = (if rv_settled r then (rows, r)
     else (foldl RefundLoginAttempt rows (rv_scopes r), r\<lparr> rv_settled := True \<rparr>))"

text \<open>\<open>ticks\<close> gives, for each scope in turn, the clock read and the identifiers drawn by its reservation.\<close>

fun reserveFrom ::
  "throttles \<Rightarrow> throttleReservation \<Rightarrow> (int \<times> string \<times> string) list \<Rightarrow> loginThrottleScope list \<Rightarrow> throttles \<times> (int, throttleReservation) result" where
  "reserveFrom rows reservation ticks [] = (rows, Inr reservation)"
| "reserveFrom rows reservation ticks (scope # scopes) = (
     let (now, uuid1, uuid2) = hd ticks; (rows', generation, retryAfter) = reserveScope rows now uuid1 uuid2 scope in
     if retryAfter > 0 then (fst (release rows' reservation), Inl retryAfter)
     else reserveFrom rows' (reservation\<lparr> rv_scopes := rv_scopes reservation @ [\<lparr> sk_scope = scope, sk_Generation = generation \<rparr>] \<rparr>)
            (tl ticks) scopes)"

definition reserveAttempt ::
  "throttles \<Rightarrow> (int \<times> string \<times> string) list \<Rightarrow> loginThrottleScope list \<Rightarrow> throttles \<times> (int, throttleReservation) result" where
  "reserveAttempt rows ticks scopes = reserveFrom rows \<lparr> rv_scopes = [], rv_settled = False \<rparr> ticks scopes"

definition fail :: "throttles \<Rightarrow> int list \<Rightarrow> throttleReservation \<Rightarrow> throttles \<times> int \<times> throttleReservation" where
  "fail rows nows r = (
     let (rows', longest) = foldl (\<lambda>(rows, longest) (now, key). let (rows', retryAfter) = failScope rows now key in (rows', max longest retryAfter))
           (rows, 0) (zip nows (rv_scopes r))
     in (rows', longest, r\<lparr> rv_settled := True \<rparr>))"

definition successSettlement :: "throttleReservation \<Rightarrow> ThrottleScopeKey list \<times> ThrottleScopeKey list" where
  "successSettlement r = (filter (\<lambda>key. fst (sk_scope key) \<noteq> throttleScopeClientIP) (rv_scopes r),
     filter (\<lambda>key. fst (sk_scope key) = throttleScopeClientIP) (rv_scopes r))"

definition clear :: "throttles \<Rightarrow> throttleReservation \<Rightarrow> throttles \<times> throttleReservation" where
  "clear rows r = (let (clears, refunds) = successSettlement r in
     (foldl RefundLoginAttempt (foldl DeleteLoginThrottle rows clears) refunds, r\<lparr> rv_settled := True \<rparr>))"

definition loginThrottleScopes :: "string \<Rightarrow> string \<Rightarrow> loginThrottleScope list" where
  "loginThrottleScopes username clientIP = (let ip = TrimSpace clientIP in
     [(throttleScopeUsername, username)] @ (if ip \<noteq> [] then [(throttleScopeClientIP, ip)] else []))"

section \<open>A table of rows\<close>

text \<open>
  What the service relies on of the table: an update sees the current row of its scope and replaces
  only that row, and the two settlements touch only a row of the generation they name.
\<close>

locale throttle_store =
  fixes lookup :: "'t \<Rightarrow> loginThrottleScope \<Rightarrow> LoginThrottleRecord option"
    and refund :: "'t \<Rightarrow> ThrottleScopeKey \<Rightarrow> 't"
    and delete :: "'t \<Rightarrow> ThrottleScopeKey \<Rightarrow> 't"
    and reserve :: "'t \<Rightarrow> int \<Rightarrow> string \<Rightarrow> string \<Rightarrow> loginThrottleScope \<Rightarrow> 't \<times> string \<times> int"
    and failure :: "'t \<Rightarrow> int \<Rightarrow> ThrottleScopeKey \<Rightarrow> 't \<times> int"
  assumes lookup_reserve: "lookup (fst (reserve t now u1 u2 k)) j =
      (if j = k then (case fst (reserveDecide now u1 u2 (lookup t k)) of None \<Rightarrow> lookup t k | Some r \<Rightarrow> Some r) else lookup t j)"
    and out_reserve: "snd (reserve t now u1 u2 k) = snd (reserveDecide now u1 u2 (lookup t k))"
    and lookup_failure: "lookup (fst (failure t now key)) j =
      (if j = sk_scope key then (case fst (failDecide now (sk_Generation key) (lookup t j)) of None \<Rightarrow> lookup t j | Some r \<Rightarrow> Some r)
       else lookup t j)"
    and lookup_refund: "lookup (refund t key) j =
      (case lookup t j of Some r \<Rightarrow> if j = sk_scope key \<and> lt_Generation r = sk_Generation key \<and> lt_BlockedUntil r = None
         then Some (r\<lparr> lt_FailedAttempts := max (lt_FailedAttempts r - 1) 0 \<rparr>) else Some r | None \<Rightarrow> None)"
    and lookup_delete: "lookup (delete t key) j =
      (case lookup t j of Some r \<Rightarrow> if j = sk_scope key \<and> lt_Generation r = sk_Generation key then None else Some r | None \<Rightarrow> None)"
begin

text \<open>
  \<open>held\<close> counts the places admitted and not given back. The budget law: no generation of any scope
  holds more than the budget, and the live row counts at least its own places.
\<close>

definition rowOk :: "(loginThrottleScope \<times> string) multiset \<Rightarrow> string set \<Rightarrow> loginThrottleScope \<Rightarrow> LoginThrottleRecord \<Rightarrow> bool" where
  "rowOk held issued k r \<longleftrightarrow> (lt_Generation r = [] \<or> lt_Generation r \<in> issued) \<and>
     0 \<le> lt_FailedAttempts r \<and> lt_FailedAttempts r \<le> loginThrottleMaxFailures \<and>
     (lt_BlockedUntil r = None \<longrightarrow> int (count held (k, lt_Generation r)) \<le> lt_FailedAttempts r)"

definition budgetOk :: "'t \<Rightarrow> (loginThrottleScope \<times> string) multiset \<Rightarrow> string set \<Rightarrow> bool" where
  "budgetOk t held issued \<longleftrightarrow>
     (\<forall>k g. int (count held (k, g)) \<le> loginThrottleMaxFailures) \<and>
     (\<forall>k g. (k, g) \<in># held \<longrightarrow> g \<in> issued) \<and> [] \<notin> issued \<and>
     (\<forall>k r. lookup t k = Some r \<longrightarrow> rowOk held issued k r)"

lemma budgetOk_row: "budgetOk t held issued \<Longrightarrow> lookup t k = Some r \<Longrightarrow> rowOk held issued k r"
  and budgetOk_count: "budgetOk t held issued \<Longrightarrow> int (count held (k, g)) \<le> loginThrottleMaxFailures"
  and budgetOk_issued: "budgetOk t held issued \<Longrightarrow> (k, g) \<in># held \<Longrightarrow> g \<in> issued"
  and budgetOk_nil: "budgetOk t held issued \<Longrightarrow> [] \<notin> issued"
  unfolding budgetOk_def by blast+

lemma budgetOk_new:
  assumes "budgetOk t held issued"
    and "\<And>k g. int (count held' (k, g)) \<le> loginThrottleMaxFailures" and "\<And>k g. (k, g) \<in># held' \<Longrightarrow> g \<in> issued'" and "[] \<notin> issued'"
    and "\<And>k r. lookup t' k = Some r \<Longrightarrow> rowOk held' issued' k r"
  shows "budgetOk t' held' issued'"
  using assms unfolding budgetOk_def by blast

lemma budgetOk_fresh:
  "budgetOk t held issued \<Longrightarrow> u \<notin> issued \<Longrightarrow> count held (k, u) = 0"
  using budgetOk_issued [of t held issued k u] by (auto simp: count_eq_zero_iff)

lemma budget_reserve:
  assumes ok: "budgetOk t held issued" and fresh: "u1 \<notin> issued" "u2 \<notin> issued" "u1 \<noteq> []" "u2 \<noteq> []"
    and r: "reserve t now u1 u2 k = (t', g, 0)" and d: "fst (reserveDecide now u1 u2 (lookup t k)) \<noteq> None"
  shows "budgetOk t' (add_mset (k, g) held) (insert u1 (insert u2 issued))"
proof -
  obtain row where row: "fst (reserveDecide now u1 u2 (lookup t k)) = Some row" using d by blast
  have g: "snd (reserveDecide now u1 u2 (lookup t k)) = (g, 0)" using out_reserve [of t now u1 u2 k] r by simp
  have f: "count held (k, u1) = 0" "count held (k, u2) = 0" using budgetOk_fresh [OF ok] fresh by blast+
  have new: "lt_Generation row = g" "lt_BlockedUntil row = None" "g \<noteq> []" "g \<in> insert u1 (insert u2 issued)"
    "0 \<le> lt_FailedAttempts row" "lt_FailedAttempts row \<le> loginThrottleMaxFailures"
    "int (count held (k, g)) + 1 \<le> lt_FailedAttempts row"
  proof -
    consider (none) "lookup t k = None" | (some) r0 where "lookup t k = Some r0" "rowOk held issued k r0"
      using budgetOk_row [OF ok] by (cases "lookup t k") auto
    then show "lt_Generation row = g" "lt_BlockedUntil row = None" "g \<noteq> []" "g \<in> insert u1 (insert u2 issued)"
      "0 \<le> lt_FailedAttempts row" "lt_FailedAttempts row \<le> loginThrottleMaxFailures"
      "int (count held (k, g)) + 1 \<le> lt_FailedAttempts row"
      using row g f fresh(3,4)
      by (cases; auto simp: reserveDecide_def Let_def rowOk_def loginThrottleMaxFailures_def split: option.splits if_splits)+
  qed
  have lk: "lookup t' j = (if j = k then Some row else lookup t j)" for j
    using lookup_reserve [of t now u1 u2 k j] r row by simp
  have count: "count (add_mset (k, g) held) (j, h) = (if j = k \<and> h = g then count held (k, g) + 1 else count held (j, h))" for j h by auto
  show ?thesis
  proof (rule budgetOk_new [OF ok])
    show "int (count (add_mset (k, g) held) (j, h)) \<le> loginThrottleMaxFailures" for j h
      using budgetOk_count [OF ok, of j h] new(6,7) unfolding count by auto
    show "(j, h) \<in># add_mset (k, g) held \<Longrightarrow> h \<in> insert u1 (insert u2 issued)" for j h
      using budgetOk_issued [OF ok, of j h] new(4) by auto
    show "[] \<notin> insert u1 (insert u2 issued)" using budgetOk_nil [OF ok] fresh(3,4) by auto
    fix j r' assume l: "lookup t' j = Some r'"
    show "rowOk (add_mset (k, g) held) (insert u1 (insert u2 issued)) j r'"
    proof (cases "j = k")
      case True
      then show ?thesis using l lk new by (simp add: rowOk_def count)
    next
      case False
      then have "rowOk held issued j r'" using l lk budgetOk_row [OF ok] by simp
      then show ?thesis using False by (auto simp: rowOk_def count)
    qed
  qed
qed

lemma rowOk_fail:
  "rowOk held issued k r \<Longrightarrow> fst (failDecide now g (Some r)) = Some r' \<Longrightarrow> rowOk held issued k r'"
  by (auto simp: rowOk_def failDecide_def loginThrottleMaxFailures_def split: if_splits option.splits)

lemma budget_failure:
  assumes ok: "budgetOk t held issued"
  shows "budgetOk (fst (failure t now key)) held issued"
proof (rule budgetOk_new [OF ok])
  show "int (count held (k, g)) \<le> loginThrottleMaxFailures" "(k, g) \<in># held \<Longrightarrow> g \<in> issued" "[] \<notin> issued" for k g
    by (rule budgetOk_count [OF ok] budgetOk_issued [OF ok] budgetOk_nil [OF ok], assumption?)+
  fix k r assume "lookup (fst (failure t now key)) k = Some r"
  then consider "lookup t k = Some r" | r0 where "lookup t k = Some r0" "fst (failDecide now (sk_Generation key) (Some r0)) = Some r"
    using lookup_failure [of t now key k] by (cases "lookup t k") (auto simp: failDecide_def split: if_splits option.splits)
  then show "rowOk held issued k r" using budgetOk_row [OF ok] rowOk_fail by cases blast+
qed

lemma budget_refund:
  assumes ok: "budgetOk t held issued" and mem: "(sk_scope key, sk_Generation key) \<in># held"
  shows "budgetOk (refund t key) (held - {#(sk_scope key, sk_Generation key)#}) issued"
proof -
  let ?x = "(sk_scope key, sk_Generation key)"
  have pos: "0 < count held ?x" using mem by simp
  have c: "int (count (held - {#?x#}) y) = int (count held y) - (if y = ?x then 1 else 0)" for y
    using pos by (cases "y = ?x") auto
  show ?thesis
  proof (rule budgetOk_new [OF ok])
    show "int (count (held - {#?x#}) (k, g)) \<le> loginThrottleMaxFailures" for k g
      using budgetOk_count [OF ok, of k g] unfolding c by auto
    show "(k, g) \<in># held - {#?x#} \<Longrightarrow> g \<in> issued" "[] \<notin> issued" for k g
      using budgetOk_issued [OF ok, of k g] budgetOk_nil [OF ok] by (auto dest: in_diffD)
    fix k r assume l: "lookup (refund t key) k = Some r"
    then obtain r0 where r0: "lookup t k = Some r0" using lookup_refund [of t key k] by (auto split: option.splits)
    then have ok0: "rowOk held issued k r0" by (rule budgetOk_row [OF ok])
    show "rowOk (held - {#?x#}) issued k r"
    proof (cases "k = sk_scope key \<and> lt_Generation r0 = sk_Generation key \<and> lt_BlockedUntil r0 = None")
      case True
      then have "r = r0\<lparr> lt_FailedAttempts := max (lt_FailedAttempts r0 - 1) 0 \<rparr>" using l r0 lookup_refund [of t key k] by simp
      then show ?thesis using ok0 True pos unfolding rowOk_def c by auto
    next
      case False
      then have "r = r0" using l r0 lookup_refund [of t key k] by (auto split: if_splits)
      then show ?thesis using ok0 unfolding rowOk_def c by auto
    qed
  qed
qed

lemma budget_delete:
  assumes ok: "budgetOk t held issued"
  shows "budgetOk (delete t key) (held - {#(sk_scope key, sk_Generation key)#}) issued"
proof -
  let ?x = "(sk_scope key, sk_Generation key)"
  have c: "int (count (held - {#?x#}) y) \<le> int (count held y)" for y by simp
  show ?thesis
  proof (rule budgetOk_new [OF ok])
    show "int (count (held - {#?x#}) (k, g)) \<le> loginThrottleMaxFailures" for k g
      using budgetOk_count [OF ok, of k g] c [of "(k, g)"] by linarith
    show "(k, g) \<in># held - {#?x#} \<Longrightarrow> g \<in> issued" "[] \<notin> issued" for k g
      using budgetOk_issued [OF ok, of k g] budgetOk_nil [OF ok] by (auto dest: in_diffD)
    fix k r assume "lookup (delete t key) k = Some r"
    then have "lookup t k = Some r" using lookup_delete [of t key k] by (auto split: option.splits if_splits)
    then have "rowOk held issued k r" by (rule budgetOk_row [OF ok])
    then show "rowOk (held - {#?x#}) issued k r" using c [of "(k, lt_Generation r)"] by (auto simp: rowOk_def)
  qed
qed

end

text \<open>The map of rows and its transactions are such a table.\<close>

interpretation rows: throttle_store "\<lambda>rows :: throttles. rows" RefundLoginAttempt DeleteLoginThrottle reserveScope failScope
proof unfold_locales
  fix t :: throttles and now u1 u2 k j and key :: ThrottleScopeKey
  show "fst (reserveScope t now u1 u2 k) j =
      (if j = k then (case fst (reserveDecide now u1 u2 (t k)) of None \<Rightarrow> t k | Some r \<Rightarrow> Some r) else t j)"
    by (auto simp: reserveScope_def UpdateLoginThrottle_def split: prod.splits option.splits)
  show "snd (reserveScope t now u1 u2 k) = snd (reserveDecide now u1 u2 (t k))"
    by (auto simp: reserveScope_def UpdateLoginThrottle_def split: prod.splits)
  show "fst (failScope t now key) j =
      (if j = sk_scope key then (case fst (failDecide now (sk_Generation key) (t j)) of None \<Rightarrow> t j | Some r \<Rightarrow> Some r) else t j)"
    by (auto simp: failScope_def UpdateLoginThrottle_def split: prod.splits option.splits)
  show "RefundLoginAttempt t key j = (case t j of Some r \<Rightarrow> if j = sk_scope key \<and> lt_Generation r = sk_Generation key \<and> lt_BlockedUntil r = None
         then Some (r\<lparr> lt_FailedAttempts := max (lt_FailedAttempts r - 1) 0 \<rparr>) else Some r | None \<Rightarrow> None)"
    by (auto simp: RefundLoginAttempt_def split: option.splits)
  show "DeleteLoginThrottle t key j =
      (case t j of Some r \<Rightarrow> if j = sk_scope key \<and> lt_Generation r = sk_Generation key then None else Some r | None \<Rightarrow> None)"
    by (auto simp: DeleteLoginThrottle_def split: option.splits)
qed

section \<open>Interleaved attempts\<close>

text \<open>
  The system at the grain of database transactions. \<open>held\<close> is the multiset of places (scope and
  generation) admitted and not given back, \<open>issued\<close> the identifiers drawn so far. Any request may take
  its next step at any time, with any clock.
\<close>

record throttleSystem =
  sy_rows :: throttles
  sy_held :: "(loginThrottleScope \<times> string) multiset"
  sy_issued :: "string set"

inductive throttle_step :: "throttleSystem \<Rightarrow> throttleSystem \<Rightarrow> bool" where
  admit: "reserveScope (sy_rows s) now u1 u2 scope = (rows', g, 0) \<Longrightarrow>
    u1 \<notin> sy_issued s \<Longrightarrow> u2 \<notin> sy_issued s \<Longrightarrow> u1 \<noteq> [] \<Longrightarrow> u2 \<noteq> [] \<Longrightarrow>
    throttle_step s \<lparr> sy_rows = rows', sy_held = add_mset (scope, g) (sy_held s), sy_issued = insert u1 (insert u2 (sy_issued s)) \<rparr>"
| refuse: "reserveScope (sy_rows s) now u1 u2 scope = (rows', g, wait) \<Longrightarrow> wait \<noteq> 0 \<Longrightarrow> throttle_step s (s\<lparr> sy_rows := rows' \<rparr>)"
| failure: "(sk_scope key, sk_Generation key) \<in># sy_held s \<Longrightarrow> throttle_step s (s\<lparr> sy_rows := fst (failScope (sy_rows s) now key) \<rparr>)"
| refund: "(sk_scope key, sk_Generation key) \<in># sy_held s \<Longrightarrow>
    throttle_step s (s\<lparr> sy_rows := RefundLoginAttempt (sy_rows s) key, sy_held := sy_held s - {#(sk_scope key, sk_Generation key)#} \<rparr>)"
| clear: "(sk_scope key, sk_Generation key) \<in># sy_held s \<Longrightarrow>
    throttle_step s (s\<lparr> sy_rows := DeleteLoginThrottle (sy_rows s) key, sy_held := sy_held s - {#(sk_scope key, sk_Generation key)#} \<rparr>)"

inductive throttle_reachable :: "throttleSystem \<Rightarrow> bool" where
  start: "throttle_reachable \<lparr> sy_rows = Map.empty, sy_held = {#}, sy_issued = {} \<rparr>"
| step: "throttle_reachable s \<Longrightarrow> throttle_step s s' \<Longrightarrow> throttle_reachable s'"

lemma reserve_decision:
  "reserveScope rows now u1 u2 k = (rows', g, wait) \<Longrightarrow>
   if wait = 0 then fst (reserveDecide now u1 u2 (rows k)) \<noteq> None else wait > 0 \<and> rows' = rows"
  by (auto simp: reserveScope_def UpdateLoginThrottle_def reserveDecide_def Let_def split: prod.splits option.splits if_splits)

lemma throttle_invariant: "throttle_reachable s \<Longrightarrow> rows.budgetOk (sy_rows s) (sy_held s) (sy_issued s)"
proof (induction rule: throttle_reachable.induct)
  case start
  then show ?case by (simp add: rows.budgetOk_def loginThrottleMaxFailures_def)
next
  case (step s s')
  from step(2,3) show ?case
  proof (cases rule: throttle_step.cases)
    case (admit now u1 u2 scope rows' g)
    then show ?thesis using step(3) rows.budget_reserve [of "sy_rows s"] reserve_decision [OF admit(2)] by simp
  next
    case (refuse now u1 u2 scope rows' g wait)
    then show ?thesis using step(3) reserve_decision [OF refuse(2)] by simp
  next
    case (failure key now)
    then show ?thesis using step(3) rows.budget_failure by simp
  next
    case (refund key)
    then show ?thesis using step(3) rows.budget_refund by simp
  next
    case (clear key)
    then show ?thesis using step(3) rows.budget_delete by simp
  qed
qed

text \<open>
  C31. However attempts of concurrent requests interleave, no generation of any throttle scope ever
  holds more than five places: of the attempts admitted to it, at most five have not been given back,
  so at most five guesses reach a verifier before the scope blocks, expires or is reset.
\<close>

theorem throttle_budget:
  assumes "throttle_reachable s"
  shows "int (count (sy_held s) (scope, generation)) \<le> loginThrottleMaxFailures"
  by (rule rows.budgetOk_count [OF throttle_invariant [OF assms]])

definition firstAttempt :: throttleSystem where
  "firstAttempt = \<lparr> sy_rows = [(''username'', ''owner'') \<mapsto>
       \<lparr> lt_FailedAttempts = 1, lt_BlockedUntil = None, lt_UpdatedAt = 7, lt_Generation = ''a'' \<rparr>],
     sy_held = {#((''username'', ''owner''), ''a'')#}, sy_issued = {''a'', ''b''} \<rparr>"

lemma firstAttempt_reachable: "throttle_reachable firstAttempt"
proof -
  have "reserveScope Map.empty (7 * 10 ^ 9) ''a'' ''b'' (''username'', ''owner'') = (sy_rows firstAttempt, ''a'', 0)"
    by (simp add: reserveScope_def UpdateLoginThrottle_def reserveDecide_def toSeconds_def firstAttempt_def)
  then have "throttle_step \<lparr> sy_rows = Map.empty, sy_held = {#}, sy_issued = {} \<rparr> firstAttempt"
    using admit [of "\<lparr> sy_rows = Map.empty, sy_held = {#}, sy_issued = {} \<rparr>" "7 * 10 ^ 9" "''a''" "''b''" "(''username'', ''owner'')"]
    by (simp add: firstAttempt_def)
  then show ?thesis using start step by blast
qed

theorem throttle_budget_witness: "int (count (sy_held firstAttempt) ((''username'', ''owner''), ''a'')) \<le> loginThrottleMaxFailures"
  by (rule throttle_budget [OF firstAttempt_reachable])

section \<open>Blocks and settlements\<close>

text \<open>
  C32. The failure that fills the budget blocks the scope, and nothing shortens the block: until the
  recorded time (the fifteen-minute window, short of less than a second) every reservation of the scope is
  refused with a positive wait and changes no row, and no later refund or failure of the scope, of whatever
  generation, changes its row.
\<close>

theorem throttle_block_holds:
  assumes "rows scope = Some r" and "lt_Generation r = g" and "lt_BlockedUntil r = None"
    and "lt_FailedAttempts r \<ge> loginThrottleMaxFailures"
    and "failScope rows now \<lparr> sk_scope = scope, sk_Generation = g \<rparr> = (rows', wait)"
  shows "\<exists>until. wait = loginThrottleWindow \<and> now + loginThrottleWindow - 10 ^ 9 < until \<and> until \<le> now + loginThrottleWindow \<and>
    (\<forall>later u1 u2. later < until \<longrightarrow> (\<exists>g'. reserveScope rows' later u1 u2 scope = (rows', g', until - later))) \<and>
    (\<forall>g'. RefundLoginAttempt rows' \<lparr> sk_scope = scope, sk_Generation = g' \<rparr> = rows') \<and>
    (\<forall>later g'. fst (failScope rows' later \<lparr> sk_scope = scope, sk_Generation = g' \<rparr>) = rows')"
proof -
  define until where "until = fromSeconds (toSeconds (now + loginThrottleWindow))"
  have w: "wait = loginThrottleWindow" and rows': "rows' = rows(scope \<mapsto> \<lparr> lt_FailedAttempts = 0,
      lt_BlockedUntil = Some (toSeconds (now + loginThrottleWindow)), lt_UpdatedAt = toSeconds now, lt_Generation = g \<rparr>)"
    using assms by (auto simp: failScope_def UpdateLoginThrottle_def failDecide_def)
  have "until + (now + loginThrottleWindow) mod 10 ^ 9 = now + loginThrottleWindow"
    by (simp only: until_def fromSeconds_def toSeconds_def div_mult_mod_eq)
  moreover have "0 \<le> (now + loginThrottleWindow) mod 10 ^ 9" "(now + loginThrottleWindow) mod 10 ^ 9 < 10 ^ 9" by simp_all
  ultimately have "now + loginThrottleWindow - 10 ^ 9 < until" "until \<le> now + loginThrottleWindow" by linarith+
  moreover have "\<exists>g'. reserveScope rows' later u1 u2 scope = (rows', g', until - later)" if "later < until" for later u1 u2
    using that by (simp add: rows' reserveScope_def UpdateLoginThrottle_def reserveDecide_def until_def [symmetric])
  moreover have "RefundLoginAttempt rows' \<lparr> sk_scope = scope, sk_Generation = g' \<rparr> = rows'" for g'
    by (simp add: rows' RefundLoginAttempt_def)
  moreover have "fst (failScope rows' later \<lparr> sk_scope = scope, sk_Generation = g' \<rparr>) = rows'" for later g'
    by (simp add: rows' failScope_def UpdateLoginThrottle_def failDecide_def)
  ultimately show ?thesis using w by blast
qed

definition fullRow :: LoginThrottleRecord where
  "fullRow = \<lparr> lt_FailedAttempts = 5, lt_BlockedUntil = None, lt_UpdatedAt = 7, lt_Generation = ''a'' \<rparr>"

theorem throttle_block_holds_witness:
  "\<exists>rows' until. (8 * 10 ^ 9) + loginThrottleWindow - 10 ^ 9 < until \<and>
    (\<forall>later u1 u2. later < until \<longrightarrow> (\<exists>g'. reserveScope rows' later u1 u2 (''username'', ''owner'') = (rows', g', until - later)))"
proof -
  obtain rows' wait where "failScope [(''username'', ''owner'') \<mapsto> fullRow] (8 * 10 ^ 9)
      \<lparr> sk_scope = (''username'', ''owner''), sk_Generation = ''a'' \<rparr> = (rows', wait)" by (rule prod.exhaust)
  from throttle_block_holds [OF _ _ _ _ this, of fullRow] show ?thesis
    by (auto simp: fullRow_def loginThrottleMaxFailures_def)
qed

text \<open>The attempts a scope has counted.\<close>

definition attemptsOf :: "throttles \<Rightarrow> loginThrottleScope \<Rightarrow> int" where
  "attemptsOf rows k = (case rows k of None \<Rightarrow> 0 | Some r \<Rightarrow> lt_FailedAttempts r)"

text \<open>A reservation under way: each of its places is live in its row and counted on top of what was there.\<close>

definition placesHeld :: "throttles \<Rightarrow> throttles \<Rightarrow> ThrottleScopeKey list \<Rightarrow> bool" where
  "placesHeld orig rows keys \<longleftrightarrow> distinct (map sk_scope keys) \<and>
     (\<forall>key\<in>set keys. \<exists>r. rows (sk_scope key) = Some r \<and> lt_Generation r = sk_Generation key \<and> lt_BlockedUntil r = None \<and>
        1 \<le> lt_FailedAttempts r \<and> lt_FailedAttempts r \<le> attemptsOf orig (sk_scope key) + 1 \<and> lt_FailedAttempts r \<le> loginThrottleMaxFailures) \<and>
     (\<forall>k. k \<notin> sk_scope ` set keys \<longrightarrow> rows k = orig k)"

lemma refund_places:
  "placesHeld orig rows keys \<Longrightarrow> attemptsOf (foldl RefundLoginAttempt rows keys) k \<le> attemptsOf orig k"
proof (induction keys arbitrary: rows orig)
  case Nil
  then have "rows k = orig k" by (simp add: placesHeld_def del: split_paired_All)
  then show ?case by (simp add: attemptsOf_def)
next
  case (Cons key keys)
  obtain r where r: "rows (sk_scope key) = Some r" "lt_Generation r = sk_Generation key" "lt_BlockedUntil r = None"
    "1 \<le> lt_FailedAttempts r" "lt_FailedAttempts r \<le> attemptsOf orig (sk_scope key) + 1"
    using Cons.prems by (auto simp: placesHeld_def)
  define r' where "r' = r\<lparr> lt_FailedAttempts := lt_FailedAttempts r - 1 \<rparr>"
  have rows': "RefundLoginAttempt rows key = rows(sk_scope key \<mapsto> r')" using r by (simp add: RefundLoginAttempt_def r'_def)
  define orig' where "orig' = orig(sk_scope key \<mapsto> r')"
  have le: "attemptsOf orig' j \<le> attemptsOf orig j" for j using r(5) by (simp add: orig'_def attemptsOf_def r'_def)
  have "sk_scope key \<notin> sk_scope ` set keys" using Cons.prems by (simp add: placesHeld_def del: split_paired_All)
  then have ne: "sk_scope other \<noteq> sk_scope key" if "other \<in> set keys" for other using that by (metis image_eqI)
  then have same: "attemptsOf orig' (sk_scope other) = attemptsOf orig (sk_scope other)" if "other \<in> set keys" for other
    using that by (simp add: orig'_def attemptsOf_def)
  have "placesHeld orig' (rows(sk_scope key \<mapsto> r')) keys"
    using Cons.prems ne same by (auto simp: placesHeld_def orig'_def simp del: split_paired_All)
  note order_trans [OF Cons.IH [OF this] le]
  then show ?case by (simp only: foldl.simps rows')
qed

lemma reserve_place:
  assumes "placesHeld orig rows keys" and "scope \<notin> sk_scope ` set keys"
    and "reserveScope rows now u1 u2 scope = (rows', g, wait)"
    and "0 \<le> attemptsOf orig scope"
  shows "if wait = 0 then placesHeld orig rows' (keys @ [\<lparr> sk_scope = scope, sk_Generation = g \<rparr>]) else wait > 0 \<and> rows' = rows"
proof (cases "wait = 0")
  case False
  then show ?thesis using reserve_decision [OF assms(3)] by simp
next
  case True
  have o: "rows scope = orig scope" using assms(1,2) by (simp add: placesHeld_def del: split_paired_All)
  obtain r where r: "rows' = rows(scope \<mapsto> r)" "lt_Generation r = g" "lt_BlockedUntil r = None"
    "1 \<le> lt_FailedAttempts r" "lt_FailedAttempts r \<le> attemptsOf orig scope + 1" "lt_FailedAttempts r \<le> loginThrottleMaxFailures"
    using assms(3,4) True o
    by (auto simp: reserveScope_def UpdateLoginThrottle_def reserveDecide_def attemptsOf_def Let_def loginThrottleMaxFailures_def
        split: option.splits if_splits)
  have other: "rows' k = orig k" if "k \<notin> sk_scope ` set keys" "k \<noteq> scope" for k
    using assms(1) that r(1) by (simp add: placesHeld_def del: split_paired_All)
  have same: "rows' (sk_scope key) = rows (sk_scope key)" if "key \<in> set keys" for key using that assms(2) r(1) by auto
  show ?thesis unfolding placesHeld_def using True assms(1,2) r other same
    by (auto simp: placesHeld_def simp del: split_paired_All)
qed

lemma reserveFrom_outcome:
  assumes "placesHeld orig rows (rv_scopes rv)" and "\<not> rv_settled rv"
    and "distinct scopes" and "set scopes \<inter> sk_scope ` set (rv_scopes rv) = {}" and "\<And>k. 0 \<le> attemptsOf orig k"
  shows "case reserveFrom rows rv ticks scopes of
      (rows', Inl wait) \<Rightarrow> 0 < wait \<and> (\<forall>k. attemptsOf rows' k \<le> attemptsOf orig k)
    | (rows', Inr rv') \<Rightarrow> placesHeld orig rows' (rv_scopes rv') \<and> map sk_scope (rv_scopes rv') = map sk_scope (rv_scopes rv) @ scopes \<and> \<not> rv_settled rv'"
  using assms
proof (induction scopes arbitrary: rows rv ticks)
  case (Cons scope scopes)
  obtain now u1 u2 where t: "hd ticks = (now, u1, u2)" by (rule prod_cases3)
  obtain rows' g wait where r: "reserveScope rows now u1 u2 scope = (rows', g, wait)" by (rule prod_cases3)
  note p = reserve_place [OF Cons.prems(1) _ r Cons.prems(5)]
  have new: "scope \<notin> sk_scope ` set (rv_scopes rv)" using Cons.prems(4) by auto
  show ?case
  proof (cases "wait = 0")
    case False
    then have "wait > 0" "rows' = rows" using p new by simp_all
    then show ?thesis using t r refund_places [OF Cons.prems(1)] Cons.prems(2) by (simp add: release_def)
  next
    case True
    let ?rv = "rv\<lparr> rv_scopes := rv_scopes rv @ [\<lparr> sk_scope = scope, sk_Generation = g \<rparr>] \<rparr>"
    have "placesHeld orig rows' (rv_scopes ?rv)" using p new True by simp
    from Cons.IH [OF this, of "tl ticks"] show ?thesis using t r True Cons.prems(2-5) by (auto split: prod.splits sum.splits)
  qed
qed simp

text \<open>
  An attempt is admitted in every one of its scopes or in none. A refused attempt reports a
  positive wait and leaves no place behind: no scope counts more attempts than before it. An admitted
  one holds exactly one place in each scope, in order, each counted in the live, unblocked row of its own
  generation and within the budget.
\<close>

theorem reservation_all_or_nothing:
  assumes "distinct scopes" and "\<And>k. 0 \<le> attemptsOf rows k"
  shows "case reserveAttempt rows ticks scopes of
      (rows', Inl wait) \<Rightarrow> 0 < wait \<and> (\<forall>k. attemptsOf rows' k \<le> attemptsOf rows k)
    | (rows', Inr rv) \<Rightarrow> map sk_scope (rv_scopes rv) = scopes \<and> placesHeld rows rows' (rv_scopes rv)"
proof -
  have "placesHeld rows rows (rv_scopes \<lparr> rv_scopes = [], rv_settled = False \<rparr>)" by (simp add: placesHeld_def)
  from reserveFrom_outcome [OF this, of scopes ticks] assms show ?thesis
    by (auto simp: reserveAttempt_def split: prod.splits sum.splits)
qed

theorem reservation_all_or_nothing_witness:
  "case reserveAttempt Map.empty [(7, ''a'', ''b''), (7, ''c'', ''d'')] (loginThrottleScopes ''owner'' ''10.0.0.1'') of
      (rows', Inl wait) \<Rightarrow> 0 < wait \<and> (\<forall>k. attemptsOf rows' k \<le> attemptsOf Map.empty k)
    | (rows', Inr rv) \<Rightarrow> map sk_scope (rv_scopes rv) = loginThrottleScopes ''owner'' ''10.0.0.1'' \<and> placesHeld Map.empty rows' (rv_scopes rv)"
  by (rule reservation_all_or_nothing)
    (simp_all add: attemptsOf_def loginThrottleScopes_def throttleScopeUsername_def throttleScopeClientIP_def Let_def)

end
