(* ===== verification/Exact.thy ===== *)
theory Exact
  imports Complex_Main Prelude "HOL-Library.Multiset"
begin

text \<open>
  Package \<^verbatim>\<open>internal/exact\<close>: coefficients (\<^verbatim>\<open>coefficient.go\<close>), their decimal rendering
  (\<^verbatim>\<open>decimal.go\<close>), conversion with one rounding step (\<^verbatim>\<open>rate.go\<close>) and the scaled accumulator
  (\<^verbatim>\<open>scaled.go\<close>). A \<^verbatim>\<open>*big.Int\<close> is an \<^typ>\<open>int\<close>, or an \<^typ>\<open>int option\<close> where the code tests for
  nil. A panic is an error value like any other. The locale \<open>accumulator\<close> states what the rest of
  the backend relies on when it sums money; \<open>ScaledInt\<close> is shown to provide it.
\<close>

section \<open>Definitions\<close>

datatype exact_error =
    CoefficientRequired
  | CoefficientNotInteger
  | CoefficientTooWide int
  | CoefficientScanNull
  | CoefficientScanType
  | MulDivNilOperand
  | MulDivByZero
  | MulDivNegativeScale
  | PanicPow10 int
  | PanicAlign int
  | PanicTruncatedTo int
  | PanicParse exact_error
  | ErrInt64Range

subsection \<open>coefficient.go\<close>

definition MaxCoefficientDigits :: int where "MaxCoefficientDigits = 38"

definition MaxStandardScale :: int where "MaxStandardScale = 12"

definition MaxCryptoScale :: int where "MaxCryptoScale = 24"

definition MaxScaleForCommodityKind :: "string \<Rightarrow> int" where
  "MaxScaleForCommodityKind kind = (if kind = ''crypto'' then MaxCryptoScale else MaxStandardScale)"

type_synonym Coefficient = string

definition New :: "int \<Rightarrow> Coefficient" where
  "New value = intString value"

definition Parse :: "string \<Rightarrow> (exact_error, Coefficient) result" where
  "Parse raw = (let value = TrimSpace raw in
     if value = [] then Inl CoefficientRequired
     else case SetString value of
       None \<Rightarrow> Inl CoefficientNotInteger
     | Some integer \<Rightarrow>
         (let canonical = intString integer; digits = TrimPrefix canonical ''-'' in
          if int (length digits) > MaxCoefficientDigits then Inl (CoefficientTooWide MaxCoefficientDigits)
          else Inr canonical))"

definition FromBig :: "int option \<Rightarrow> (exact_error, Coefficient) result" where
  "FromBig value = (case value of None \<Rightarrow> Inl CoefficientRequired | Some z \<Rightarrow> Parse (intString z))"

definition MustParse :: "string \<Rightarrow> (exact_error, Coefficient) result" where
  "MustParse value = mapErr PanicParse (Parse value)"

definition Coefficient_String :: "Coefficient \<Rightarrow> string" where
  "Coefficient_String c = (if c = [] then ''0'' else c)"

text \<open>
  \<^verbatim>\<open>SetString\<close> leaves the receiver unspecified on malformed text. Every constructor of the package
  yields a well-formed coefficient (\<open>coefficient_wf\<close> below), for which the second case is never
  taken.
\<close>

definition BigInt :: "Coefficient \<Rightarrow> int" where
  "BigInt c = (case SetString (Coefficient_String c) of Some z \<Rightarrow> z | None \<Rightarrow> 0)"

definition Coefficient_Sign :: "Coefficient \<Rightarrow> int" where
  "Coefficient_Sign c = sgn (BigInt c)"

definition Coefficient_Negated :: "Coefficient \<Rightarrow> Coefficient" where
  "Coefficient_Negated c = intString (- BigInt c)"

definition bigCmp :: "int \<Rightarrow> int \<Rightarrow> int" where
  "bigCmp x y = (if x < y then - 1 else if x = y then 0 else 1)"

definition Coefficient_Cmp :: "Coefficient \<Rightarrow> Coefficient \<Rightarrow> int" where
  "Coefficient_Cmp c other = bigCmp (BigInt c) (BigInt other)"

definition Coefficient_Value :: "Coefficient \<Rightarrow> string" where
  "Coefficient_Value c = Coefficient_String c"

datatype scan_source = ScanInt64 int | ScanString string | ScanBytes string | ScanNil | ScanOther

definition Coefficient_Scan :: "scan_source \<Rightarrow> (exact_error, Coefficient) result" where
  "Coefficient_Scan source = (case source of
       ScanInt64 value \<Rightarrow> Parse (intString value)
     | ScanString value \<Rightarrow> Parse value
     | ScanBytes value \<Rightarrow> Parse value
     | ScanNil \<Rightarrow> Inl CoefficientScanNull
     | ScanOther \<Rightarrow> Inl CoefficientScanType)"

subsection \<open>decimal.go\<close>

definition decimalDigits :: "string \<Rightarrow> int \<Rightarrow> string" where
  "decimalDigits digits0 scale = (
     let negative = HasPrefix digits0 ''-'';
         digits = (if negative then drop 1 digits0 else digits0);
         rendered = (if scale \<le> 0 then digits
           else (let padded = (if int (length digits) \<le> scale
                               then replicate (nat (scale - int (length digits) + 1)) (CHR ''0'') @ digits
                               else digits);
                     cut = length padded - nat scale
                 in take cut padded @ ''.'' @ drop cut padded))
     in if negative then CHR ''-'' # rendered else rendered)"

definition Decimal :: "Coefficient \<Rightarrow> int \<Rightarrow> string" where
  "Decimal value scale = decimalDigits (Coefficient_String value) scale"

definition DecimalFromBig :: "int option \<Rightarrow> int \<Rightarrow> string" where
  "DecimalFromBig value scale = (case value of
       None \<Rightarrow> decimalDigits ''0'' scale
     | Some z \<Rightarrow> decimalDigits (intString z) scale)"

subsection \<open>scaled.go\<close>

definition MaxPow10Scale :: int where "MaxPow10Scale = 60"

definition Pow10 :: "int \<Rightarrow> (exact_error, int) result" where
  "Pow10 scale = (if scale < 0 \<or> scale > MaxPow10Scale then Inl (PanicPow10 scale) else Inr (10 ^ nat scale))"

record ScaledInt =
  si_value :: int
  si_scale :: int

definition NewScaledInt :: ScaledInt where
  "NewScaledInt = \<lparr>si_value = 0, si_scale = 0\<rparr>"

definition ScaledInt_Sign :: "ScaledInt \<Rightarrow> int" where
  "ScaledInt_Sign s = sgn (si_value s)"

definition ScaledInt_Align :: "ScaledInt \<Rightarrow> int \<Rightarrow> (exact_error, ScaledInt) result" where
  "ScaledInt_Align s sc = (
     if sc < 0 then Inl (PanicAlign sc)
     else if sc \<le> si_scale s then Inr s
     else bindR (Pow10 (sc - si_scale s)) (\<lambda>p. Inr \<lparr>si_value = si_value s * p, si_scale = sc\<rparr>))"

definition ScaledInt_Add :: "ScaledInt \<Rightarrow> int option \<Rightarrow> int \<Rightarrow> (exact_error, ScaledInt) result" where
  "ScaledInt_Add s v sc = (case v of
       None \<Rightarrow> Inr s
     | Some z \<Rightarrow>
         bindR (ScaledInt_Align s sc) (\<lambda>s'.
         bindR (if sc < si_scale s' then bindR (Pow10 (si_scale s' - sc)) (\<lambda>p. Inr (z * p)) else Inr z) (\<lambda>addend.
         Inr (s'\<lparr>si_value := si_value s' + addend\<rparr>))))"

definition ScaledIntFromBig :: "int option \<Rightarrow> int \<Rightarrow> (exact_error, ScaledInt) result" where
  "ScaledIntFromBig v sc = ScaledInt_Add NewScaledInt v sc"

definition ScaledIntFromInt64 :: "int \<Rightarrow> int \<Rightarrow> (exact_error, ScaledInt) result" where
  "ScaledIntFromInt64 v sc = ScaledIntFromBig (Some v) sc"

definition ScaledIntFromCoefficient :: "Coefficient \<Rightarrow> int \<Rightarrow> (exact_error, ScaledInt) result" where
  "ScaledIntFromCoefficient v sc = ScaledIntFromBig (Some (BigInt v)) sc"

definition ScaledInt_AddCoefficient :: "ScaledInt \<Rightarrow> Coefficient \<Rightarrow> int \<Rightarrow> (exact_error, ScaledInt) result" where
  "ScaledInt_AddCoefficient s v sc = ScaledInt_Add s (Some (BigInt v)) sc"

definition ScaledInt_AddInt64 :: "ScaledInt \<Rightarrow> int \<Rightarrow> int \<Rightarrow> (exact_error, ScaledInt) result" where
  "ScaledInt_AddInt64 s v sc = ScaledInt_Add s (Some v) sc"

definition ScaledInt_AddScaled :: "ScaledInt \<Rightarrow> ScaledInt option \<Rightarrow> (exact_error, ScaledInt) result" where
  "ScaledInt_AddScaled s other = (case other of
       None \<Rightarrow> Inr s | Some t \<Rightarrow> ScaledInt_Add s (Some (si_value t)) (si_scale t))"

definition ScaledInt_SubScaled :: "ScaledInt \<Rightarrow> ScaledInt option \<Rightarrow> (exact_error, ScaledInt) result" where
  "ScaledInt_SubScaled s other = (case other of
       None \<Rightarrow> Inr s | Some t \<Rightarrow> ScaledInt_Add s (Some (- si_value t)) (si_scale t))"

definition ScaledInt_Negated :: "ScaledInt \<Rightarrow> ScaledInt" where
  "ScaledInt_Negated s = \<lparr>si_value = - si_value s, si_scale = si_scale s\<rparr>"

definition ScaledInt_Cmp :: "ScaledInt \<Rightarrow> ScaledInt \<Rightarrow> (exact_error, int) result" where
  "ScaledInt_Cmp s t = (
     if si_scale s < si_scale t then
       bindR (Pow10 (si_scale t - si_scale s)) (\<lambda>p. Inr (bigCmp (si_value s * p) (si_value t)))
     else if si_scale s > si_scale t then
       bindR (Pow10 (si_scale s - si_scale t)) (\<lambda>p. Inr (bigCmp (si_value s) (si_value t * p)))
     else Inr (bigCmp (si_value s) (si_value t)))"

text \<open>\<^verbatim>\<open>big.Int.Quo\<close> and \<^verbatim>\<open>big.Int.Rem\<close> truncate towards zero.\<close>

definition bigQuo :: "int \<Rightarrow> int \<Rightarrow> int" where
  "bigQuo x y = sgn x * sgn y * (\<bar>x\<bar> div \<bar>y\<bar>)"

definition bigRem :: "int \<Rightarrow> int \<Rightarrow> int" where
  "bigRem x y = sgn x * (\<bar>x\<bar> mod \<bar>y\<bar>)"

definition ScaledInt_TruncatedTo :: "ScaledInt \<Rightarrow> int \<Rightarrow> (exact_error, ScaledInt) result" where
  "ScaledInt_TruncatedTo s sc = (
     if sc < 0 then Inl (PanicTruncatedTo sc)
     else if sc > si_scale s then ScaledInt_Align s sc
     else if sc < si_scale s then
       bindR (Pow10 (si_scale s - sc)) (\<lambda>p. Inr \<lparr>si_value = bigQuo (si_value s) p, si_scale = sc\<rparr>)
     else Inr s)"

function normalizeLoop :: "int \<Rightarrow> int \<Rightarrow> int \<times> int" where
  "normalizeLoop v sc =
     (if sc > 0 \<and> bigRem v 10 = 0 then normalizeLoop (bigQuo v 10) (sc - 1) else (v, sc))"
  by pat_completeness auto
termination
  by (relation "measure (\<lambda>(v, sc). nat sc)") auto

declare normalizeLoop.simps [simp del]

definition ScaledInt_Normalized :: "ScaledInt \<Rightarrow> ScaledInt" where
  "ScaledInt_Normalized s = (
     if si_scale s = 0 then s
     else if si_value s = 0 then s\<lparr>si_scale := 0\<rparr>
     else (let (v, sc) = normalizeLoop (si_value s) (si_scale s) in \<lparr>si_value = v, si_scale = sc\<rparr>))"

definition ScaledInt_Int64 :: "ScaledInt \<Rightarrow> (exact_error, int) result" where
  "ScaledInt_Int64 s = (if - (2 ^ 63) \<le> si_value s \<and> si_value s < 2 ^ 63 then Inr (si_value s) else Inl ErrInt64Range)"

definition ScaledInt_Coefficient :: "ScaledInt \<Rightarrow> (exact_error, Coefficient) result" where
  "ScaledInt_Coefficient s = FromBig (Some (si_value s))"

definition ScaledInt_String :: "ScaledInt \<Rightarrow> string" where
  "ScaledInt_String s = intString (si_value s) @ ''e-'' @ intString (si_scale s)"

subsection \<open>rate.go\<close>

definition MulDivRound ::
  "int option \<Rightarrow> int \<Rightarrow> int option \<Rightarrow> int \<Rightarrow> int option \<Rightarrow> int \<Rightarrow> int \<Rightarrow> (exact_error, int) result" where
  "MulDivRound v valueScale m multiplierScale d divisorScale resultScale = (case (v, m, d) of
     (Some value0, Some multiplier, Some divisor) \<Rightarrow>
       if divisor = 0 then Inl MulDivByZero
       else if valueScale < 0 \<or> multiplierScale < 0 \<or> divisorScale < 0 \<or> resultScale < 0
       then Inl MulDivNegativeScale
       else (let exponent = resultScale + divisorScale - valueScale - multiplierScale in
         bindR (if exponent \<ge> 0
                then bindR (Pow10 exponent) (\<lambda>p. Inr (value0 * multiplier * p, divisor))
                else bindR (Pow10 (- exponent)) (\<lambda>p. Inr (value0 * multiplier, divisor * p)))
           (\<lambda>(numerator, denominator).
              let sign = sgn numerator * sgn denominator;
                  q = \<bar>numerator\<bar> div \<bar>denominator\<bar>;
                  r = \<bar>numerator\<bar> mod \<bar>denominator\<bar>;
                  quotient = (if 2 * r \<ge> \<bar>denominator\<bar> then q + 1 else q)
              in Inr (if sign < 0 then - quotient else quotient)))
   | _ \<Rightarrow> Inl MulDivNilOperand)"

section \<open>Coefficients\<close>

text \<open>
  The values a coefficient may hold: the canonical numeral of an integer of at most 38 digits, or
  the empty string of a zero-valued Go variable.
\<close>

definition coefficientOk :: "Coefficient \<Rightarrow> bool" where
  "coefficientOk c \<longleftrightarrow> c = [] \<or> (\<exists>z. \<bar>z\<bar> < 10 ^ 38 \<and> c = intString z)"

lemma BigInt_intString [simp]: "BigInt (intString z) = z"
  by (simp add: BigInt_def Coefficient_String_def)

lemma BigInt_New [simp]: "BigInt (New z) = z"
  by (simp add: New_def)

lemma BigInt_Nil [simp]: "BigInt [] = 0"
  by (simp add: BigInt_def Coefficient_String_def SetString_def isDigit_def byteVal_def digitVal_def)

lemma BigInt_Negated [simp]: "BigInt (Coefficient_Negated c) = - BigInt c"
  by (simp add: Coefficient_Negated_def)

lemma bigCmp_less [simp]: "bigCmp x y < 0 \<longleftrightarrow> x < y"
  by (simp add: bigCmp_def)

lemma bigCmp_eq [simp]: "bigCmp x y = 0 \<longleftrightarrow> x = y"
  by (simp add: bigCmp_def)

lemma bigCmp_greater [simp]: "bigCmp x y > 0 \<longleftrightarrow> x > y"
  by (simp add: bigCmp_def)

lemma wide_iff:
  "int (length (TrimPrefix (intString z) ''-'')) > MaxCoefficientDigits \<longleftrightarrow> \<not> \<bar>z\<bar> < 10 ^ 38"
proof -
  have "int (length (TrimPrefix (intString z) ''-'')) > MaxCoefficientDigits \<longleftrightarrow>
        \<not> length (natDigits (nat \<bar>z\<bar>)) \<le> 38"
    by (auto simp: TrimPrefix_intString MaxCoefficientDigits_def)
  also have "\<dots> \<longleftrightarrow> \<not> nat \<bar>z\<bar> < 10 ^ 38" by (simp add: natDigits_length_le)
  also have "\<dots> \<longleftrightarrow> \<not> \<bar>z\<bar> < 10 ^ 38" by (simp add: nat_less_iff)
  finally show ?thesis .
qed

lemma Parse_eq:
  "Parse raw = (if TrimSpace raw = [] then Inl CoefficientRequired
     else case SetString (TrimSpace raw) of None \<Rightarrow> Inl CoefficientNotInteger
     | Some z \<Rightarrow> if \<bar>z\<bar> < 10 ^ 38 then Inr (intString z) else Inl (CoefficientTooWide 38))"
  unfolding Parse_def Let_def wide_iff
  by (auto simp: MaxCoefficientDigits_def split: option.split)

lemma SetString_Nil [simp]: "SetString [] = None"
  by (simp add: SetString_def)

lemma Parse_Inr_iff:
  "Parse raw = Inr c \<longleftrightarrow> (\<exists>z. SetString (TrimSpace raw) = Some z \<and> \<bar>z\<bar> < 10 ^ 38 \<and> c = intString z)"
  by (auto simp: Parse_eq split: option.splits if_splits)

lemma FromBig_Some: "FromBig (Some z) = (if \<bar>z\<bar> < 10 ^ 38 then Inr (intString z) else Inl (CoefficientTooWide 38))"
  by (simp add: FromBig_def Parse_eq)

lemma FromBig_Inr_iff: "FromBig (Some z) = Inr c \<longleftrightarrow> \<bar>z\<bar> < 10 ^ 38 \<and> c = intString z"
  by (auto simp: FromBig_Some)

lemma Parse_ok: "Parse raw = Inr c \<Longrightarrow> coefficientOk c"
  by (auto simp: Parse_Inr_iff coefficientOk_def)

lemma coefficientOk_Negated: "coefficientOk c \<Longrightarrow> coefficientOk (Coefficient_Negated c)"
proof -
  assume "coefficientOk c"
  then have "\<bar>- BigInt c\<bar> < 10 ^ 38" by (auto simp: coefficientOk_def)
  then show ?thesis unfolding coefficientOk_def Coefficient_Negated_def by blast
qed

section \<open>Scaled values\<close>

definition decVal :: "int \<Rightarrow> int \<Rightarrow> rat" where
  "decVal z sc = of_int z / 10 ^ nat sc"

definition scaledVal :: "ScaledInt \<Rightarrow> rat" where
  "scaledVal s = decVal (si_value s) (si_scale s)"

definition scaleOk :: "int \<Rightarrow> bool" where
  "scaleOk sc \<longleftrightarrow> 0 \<le> sc \<and> sc \<le> MaxPow10Scale"

named_theorems scaled_simps

lemma Pow10_ok [scaled_simps]: "scaleOk sc \<Longrightarrow> Pow10 sc = Inr (10 ^ nat sc)"
  by (auto simp: Pow10_def scaleOk_def)

lemma scaleOk_diff [scaled_simps]: "scaleOk a \<Longrightarrow> scaleOk b \<Longrightarrow> a \<le> b \<Longrightarrow> scaleOk (b - a)"
  by (auto simp: scaleOk_def)

lemma decVal_deepen:
  "0 \<le> a \<Longrightarrow> a \<le> b \<Longrightarrow> decVal (z * 10 ^ nat (b - a)) b = decVal z a"
proof -
  assume "0 \<le> a" "a \<le> b"
  then have "nat b = nat (b - a) + nat a" by simp
  then have "(10::rat) ^ nat b = 10 ^ nat (b - a) * 10 ^ nat a" by (simp only: power_add)
  then show ?thesis by (simp add: decVal_def)
qed

lemma decVal_add: "decVal (x + y) sc = decVal x sc + decVal y sc"
  by (simp add: decVal_def add_divide_distrib)

lemma decVal_minus [simp]: "decVal (- x) sc = - decVal x sc"
  by (simp add: decVal_def)

lemma decVal_0 [simp]: "decVal 0 sc = 0"
  by (simp add: decVal_def)

lemma decVal_eq_0_iff [simp]: "decVal x sc = 0 \<longleftrightarrow> x = 0"
  by (simp add: decVal_def)

lemma decVal_less_iff [simp]: "decVal x sc < decVal y sc \<longleftrightarrow> x < y"
  by (simp add: decVal_def divide_less_cancel)

lemma decVal_eq_iff [simp]: "decVal x sc = decVal y sc \<longleftrightarrow> x = y"
  by (simp add: decVal_def)

lemma decVal_sgn: "sgn (decVal x sc) = of_int (sgn x)"
  by (simp add: decVal_def sgn_if zero_less_divide_iff)

lemma scaledVal_New [simp]: "scaledVal NewScaledInt = 0"
  by (simp add: scaledVal_def NewScaledInt_def)

lemma scaledVal_Negated [simp]: "scaledVal (ScaledInt_Negated s) = - scaledVal s"
  by (simp add: scaledVal_def ScaledInt_Negated_def)

lemma ScaledInt_Sign_iff: "ScaledInt_Sign s = 0 \<longleftrightarrow> scaledVal s = 0"
  by (simp add: ScaledInt_Sign_def scaledVal_def sgn_if)

lemma ScaledInt_Sign_sgn: "of_int (ScaledInt_Sign s) = sgn (scaledVal s)"
  by (simp add: ScaledInt_Sign_def scaledVal_def decVal_sgn)

lemma Align_ok:
  assumes "scaleOk (si_scale s)" and "scaleOk sc"
  obtains s' where "ScaledInt_Align s sc = Inr s'" "si_scale s' = max (si_scale s) sc"
    "scaledVal s' = scaledVal s"
proof (cases "sc \<le> si_scale s")
  case True
  with assms show ?thesis by (intro that [of s]) (auto simp: ScaledInt_Align_def scaleOk_def)
next
  case False
  with assms have "Pow10 (sc - si_scale s) = Inr (10 ^ nat (sc - si_scale s))"
    by (intro Pow10_ok scaleOk_diff) auto
  with False assms show ?thesis
    by (intro that [of "\<lparr>si_value = si_value s * 10 ^ nat (sc - si_scale s), si_scale = sc\<rparr>"])
       (auto simp: ScaledInt_Align_def scaleOk_def scaledVal_def decVal_deepen)
qed

lemma Add_ok:
  assumes "scaleOk (si_scale s)" and "scaleOk sc"
  obtains s' where "ScaledInt_Add s (Some z) sc = Inr s'" "si_scale s' = max (si_scale s) sc"
    "scaledVal s' = scaledVal s + decVal z sc"
proof -
  obtain t where t: "ScaledInt_Align s sc = Inr t" "si_scale t = max (si_scale s) sc"
    "scaledVal t = scaledVal s"
    using Align_ok [OF assms] by blast
  have sc: "0 \<le> sc" "sc \<le> si_scale t" "scaleOk (si_scale t)"
    using assms t(2) by (auto simp: scaleOk_def)
  let ?a = "z * 10 ^ nat (si_scale t - sc)"
  have "(if sc < si_scale t then bindR (Pow10 (si_scale t - sc)) (\<lambda>p. Inr (z * p)) else Inr z) = Inr ?a"
    using sc assms(2) by (auto simp: Pow10_ok scaleOk_diff)
  then have "ScaledInt_Add s (Some z) sc = Inr (t\<lparr>si_value := si_value t + ?a\<rparr>)"
    using t(1) by (simp add: ScaledInt_Add_def)
  moreover have "scaledVal (t\<lparr>si_value := si_value t + ?a\<rparr>) = scaledVal t + decVal z sc"
    using sc by (simp add: scaledVal_def decVal_add decVal_deepen)
  ultimately show ?thesis using t by (intro that) auto
qed

section \<open>The accumulator interface\<close>

text \<open>
  What a client that sums amounts relies on: an addition at an admissible scale succeeds, keeps the
  accumulator admissible and adds exactly the rational value of the amount. The client's facts
  follow once: a run of additions never fails, its value is the exact sum, and the order of the
  amounts does not matter.
\<close>

locale accumulator =
  fixes empty :: "'s"
    and add :: "'s \<Rightarrow> int \<Rightarrow> int \<Rightarrow> ('e, 's) result"
    and val :: "'s \<Rightarrow> rat"
    and invar :: "'s \<Rightarrow> bool"
    and admissible :: "int \<Rightarrow> bool"
  assumes invar_empty: "invar empty"
    and val_empty: "val empty = 0"
    and add_succeeds: "invar s \<Longrightarrow> admissible sc \<Longrightarrow>
      \<exists>s'. add s z sc = Inr s' \<and> invar s' \<and> val s' = val s + decVal z sc"
begin

definition addAll :: "'s \<Rightarrow> (int \<times> int) list \<Rightarrow> ('e, 's) result" where
  "addAll s xs = foldR (\<lambda>s x. add s (fst x) (snd x)) s xs"

definition total :: "(int \<times> int) list \<Rightarrow> rat" where
  "total xs = (\<Sum>x\<leftarrow>xs. decVal (fst x) (snd x))"

lemma addAll_exact:
  assumes "invar s" and "\<And>x. x \<in> set xs \<Longrightarrow> admissible (snd x)"
  shows "\<exists>s'. addAll s xs = Inr s' \<and> invar s' \<and> val s' = val s + total xs"
  using assms
proof (induction xs arbitrary: s)
  case Nil
  then show ?case by (simp add: addAll_def total_def)
next
  case (Cons x xs)
  from add_succeeds [OF Cons.prems(1)] Cons.prems(2) obtain s'
    where s': "add s (fst x) (snd x) = Inr s'" "invar s'" "val s' = val s + decVal (fst x) (snd x)"
    by (metis list.set_intros(1))
  from Cons.IH [OF s'(2)] Cons.prems(2) obtain s''
    where "addAll s' xs = Inr s''" "invar s''" "val s'' = val s' + total xs" by auto
  with s' show ?case by (simp add: addAll_def total_def)
qed

lemma addAll_Inr:
  assumes "\<And>x. x \<in> set xs \<Longrightarrow> admissible (snd x)" and "addAll empty xs = Inr s"
  shows "invar s" "val s = total xs"
  using addAll_exact [OF invar_empty, of xs] assms by (auto simp: val_empty)

lemma total_mset: "mset xs = mset ys \<Longrightarrow> total xs = total ys"
proof -
  assume "mset xs = mset ys"
  then have "mset (map f xs) = mset (map f ys)" for f :: "int \<times> int \<Rightarrow> rat" by simp
  then show ?thesis unfolding total_def by (metis sum_mset_sum_list)
qed

lemma addAll_order_irrelevant:
  assumes "mset xs = mset ys" and "\<And>x. x \<in> set xs \<Longrightarrow> admissible (snd x)"
  shows "\<exists>s t. addAll empty xs = Inr s \<and> addAll empty ys = Inr t \<and> val s = val t"
proof -
  from assms(1) have "set ys = set xs" by (metis set_mset_mset)
  with assms(2) have ys: "\<And>y. y \<in> set ys \<Longrightarrow> admissible (snd y)" by auto
  obtain s where s: "addAll empty xs = Inr s" "val s = total xs"
    using addAll_exact [OF invar_empty, of xs] assms(2) by (auto simp: val_empty)
  obtain t where t: "addAll empty ys = Inr t" "val t = total ys"
    using addAll_exact [OF invar_empty, of ys] ys by (auto simp: val_empty)
  from s t total_mset [OF assms(1)] show ?thesis by simp
qed

end

interpretation scaled: accumulator NewScaledInt "\<lambda>s z sc. ScaledInt_Add s (Some z) sc" scaledVal
  "\<lambda>s :: ScaledInt. scaleOk (si_scale s)" scaleOk
proof unfold_locales
  show "scaleOk (si_scale NewScaledInt)" by (simp add: NewScaledInt_def scaleOk_def MaxPow10Scale_def)
  show "scaledVal NewScaledInt = 0" by simp
  fix s :: ScaledInt and sc z assume ok: "scaleOk (si_scale s)" "scaleOk sc"
  obtain s' where "ScaledInt_Add s (Some z) sc = Inr s'" "si_scale s' = max (si_scale s) sc"
    "scaledVal s' = scaledVal s + decVal z sc"
    using Add_ok [OF ok] by blast
  with ok show "\<exists>s'. ScaledInt_Add s (Some z) sc = Inr s' \<and> scaleOk (si_scale s') \<and>
      scaledVal s' = scaledVal s + decVal z sc"
    by (auto simp: max_def)
qed

section \<open>Comparison, truncation and normal forms\<close>

definition ratCmp :: "rat \<Rightarrow> rat \<Rightarrow> int" where
  "ratCmp x y = (if x < y then - 1 else if x = y then 0 else 1)"

lemma bigCmp_decVal: "bigCmp x y = ratCmp (decVal x sc) (decVal y sc)"
  by (simp add: bigCmp_def ratCmp_def)

lemma Cmp_eq_ratCmp:
  assumes "scaleOk (si_scale s)" and "scaleOk (si_scale t)"
  shows "ScaledInt_Cmp s t = Inr (ratCmp (scaledVal s) (scaledVal t))"
proof -
  have *: "0 \<le> si_scale s" "0 \<le> si_scale t" using assms by (auto simp: scaleOk_def)
  consider "si_scale s < si_scale t" | "si_scale s > si_scale t" | "si_scale s = si_scale t" by linarith
  then show ?thesis
  proof cases
    case 1
    then show ?thesis
      using assms * by (simp add: ScaledInt_Cmp_def Pow10_ok scaleOk_diff scaledVal_def decVal_deepen
          bigCmp_decVal [where sc = "si_scale t"])
  next
    case 2
    then show ?thesis
      using assms * by (simp add: ScaledInt_Cmp_def Pow10_ok scaleOk_diff scaledVal_def decVal_deepen
          bigCmp_decVal [where sc = "si_scale s"])
  next
    case 3
    then show ?thesis
      by (simp add: ScaledInt_Cmp_def scaledVal_def bigCmp_decVal [where sc = "si_scale t"])
  qed
qed

lemma bigRem_10_0: "bigRem v 10 = 0 \<longleftrightarrow> v mod 10 = 0"
proof -
  have "\<bar>v\<bar> mod 10 = 0 \<longleftrightarrow> v mod 10 = 0" by (simp add: mod_eq_0_iff_dvd)
  then show ?thesis by (auto simp: bigRem_def sgn_if)
qed

lemma bigQuo_exact: "v mod 10 = 0 \<Longrightarrow> 10 * bigQuo v 10 = v"
proof -
  assume "v mod 10 = 0"
  then obtain k where k: "v = 10 * k" by (auto simp: mod_eq_0_iff_dvd)
  have "\<bar>v\<bar> div \<bar>10\<bar> = \<bar>k\<bar>" by (simp add: k abs_mult)
  then show ?thesis by (auto simp: bigQuo_def k sgn_if abs_if)
qed

lemma normalizeLoop_spec:
  assumes "normalizeLoop v sc = (v', sc')" and "0 \<le> sc"
  shows "decVal v' sc' = decVal v sc \<and> 0 \<le> sc' \<and> sc' \<le> sc \<and> (sc' = 0 \<or> v' mod 10 \<noteq> 0)"
  using assms
proof (induction v sc rule: normalizeLoop.induct)
  case (1 v sc)
  show ?case
  proof (cases "sc > 0 \<and> bigRem v 10 = 0")
    case True
    then have m: "v mod 10 = 0" and sc: "0 < sc" by (simp_all add: bigRem_10_0)
    from True "1.prems" have "normalizeLoop (bigQuo v 10) (sc - 1) = (v', sc')"
      by (simp add: normalizeLoop.simps [of v sc])
    with "1.IH" [OF True] sc have IH: "decVal v' sc' = decVal (bigQuo v 10) (sc - 1)" "0 \<le> sc'" "sc' \<le> sc - 1"
      "sc' = 0 \<or> v' mod 10 \<noteq> 0" by auto
    have "decVal (bigQuo v 10) (sc - 1) = decVal (bigQuo v 10 * 10 ^ nat (sc - (sc - 1))) sc"
      by (rule decVal_deepen [symmetric]) (use sc in auto)
    also have "bigQuo v 10 * 10 ^ nat (sc - (sc - 1)) = v"
      using bigQuo_exact [OF m] by (simp add: mult.commute)
    finally show ?thesis using IH by simp
  next
    case False
    with "1.prems" show ?thesis by (auto simp: normalizeLoop.simps [of v sc] bigRem_10_0)
  qed
qed

lemma Normalized_spec:
  assumes "0 \<le> si_scale s"
  shows "scaledVal (ScaledInt_Normalized s) = scaledVal s \<and> 0 \<le> si_scale (ScaledInt_Normalized s)
    \<and> si_scale (ScaledInt_Normalized s) \<le> si_scale s
    \<and> (si_scale (ScaledInt_Normalized s) = 0 \<or> si_value (ScaledInt_Normalized s) mod 10 \<noteq> 0)"
proof -
  obtain v sc where n: "normalizeLoop (si_value s) (si_scale s) = (v, sc)" by fastforce
  show ?thesis using normalizeLoop_spec [OF n assms] assms n
    by (auto simp: ScaledInt_Normalized_def scaledVal_def)
qed

lemma decVal_deepen_eq:
  assumes "decVal x a = decVal y b" and "0 \<le> a" and "a \<le> b"
  shows "y = x * 10 ^ nat (b - a)"
  using assms decVal_deepen [of a b x] by (metis decVal_eq_iff)

lemma normal_form_unique:
  assumes "scaledVal s = scaledVal t" and "0 \<le> si_scale s" and "0 \<le> si_scale t"
    and "si_scale s = 0 \<or> si_value s mod 10 \<noteq> 0" and "si_scale t = 0 \<or> si_value t mod 10 \<noteq> 0"
  shows "(s :: ScaledInt) = t"
proof -
  have key: "si_scale s = si_scale t" if "si_scale s \<le> si_scale t" "scaledVal s = scaledVal t"
    "0 \<le> si_scale s" "si_scale t = 0 \<or> si_value t mod 10 \<noteq> 0" for s t :: ScaledInt
  proof (rule ccontr)
    assume "si_scale s \<noteq> si_scale t"
    with that have lt: "si_scale s < si_scale t" by simp
    then obtain k where k: "nat (si_scale t - si_scale s) = Suc k" by (cases "nat (si_scale t - si_scale s)") auto
    have "si_value t = si_value s * 10 ^ Suc k"
      using decVal_deepen_eq [of "si_value s" "si_scale s" "si_value t" "si_scale t"] that lt k
      by (simp add: scaledVal_def)
    then have "si_value t mod 10 = 0" by simp
    with that lt show False by simp
  qed
  have sc: "si_scale s = si_scale t"
    using key [of s t] key [of t s] assms by fastforce
  with assms(1) have "si_value s = si_value t" by (simp add: scaledVal_def)
  with sc show ?thesis by simp
qed

lemma bigQuo_bounds:
  assumes "0 < p"
  shows "\<bar>bigQuo v p * p\<bar> \<le> \<bar>v\<bar>" "\<bar>v - bigQuo v p * p\<bar> < p" "0 \<le> v * bigQuo v p"
proof -
  have eq: "v = sgn v * (\<bar>v\<bar> div p * p) + sgn v * (\<bar>v\<bar> mod p)"
    by (metis abs_mult_sgn div_mult_mod_eq distrib_left mult.commute)
  have q: "bigQuo v p * p = sgn v * (\<bar>v\<bar> div p * p)" using assms by (simp add: bigQuo_def)
  have m: "\<bar>v\<bar> mod p < p" "0 \<le> \<bar>v\<bar> mod p" using assms by simp_all
  then have "\<bar>v\<bar> div p * p \<le> \<bar>v\<bar>" using div_mult_mod_eq [of "\<bar>v\<bar>" p] by linarith
  moreover have "0 \<le> \<bar>v\<bar> div p * p" using assms by (simp add: pos_imp_zdiv_nonneg_iff)
  ultimately have le: "0 \<le> \<bar>v\<bar> div p * p" "\<bar>v\<bar> div p * p \<le> \<bar>v\<bar>" "\<bar>v\<bar> mod p < p" "0 \<le> \<bar>v\<bar> mod p"
    using m by simp_all
  show "\<bar>bigQuo v p * p\<bar> \<le> \<bar>v\<bar>" using le by (auto simp: q abs_mult sgn_if)
  have "v - bigQuo v p * p = sgn v * (\<bar>v\<bar> mod p)" using eq q by linarith
  then show "\<bar>v - bigQuo v p * p\<bar> < p" using le assms by (auto simp: abs_mult sgn_if)
  have "v * bigQuo v p = \<bar>v\<bar> * (\<bar>v\<bar> div p)"
    using assms by (simp add: bigQuo_def mult.assoc [symmetric] linordered_idom_class.abs_sgn)
  then show "0 \<le> v * bigQuo v p" using assms by (simp add: pos_imp_zdiv_nonneg_iff)
qed

section \<open>Decimal text\<close>

text \<open>A reader of plain decimals, the inverse of the rendering: the coefficient and the number of places.\<close>

definition readDecimal :: "string \<Rightarrow> int \<times> int" where
  "readDecimal s = (
     let negative = HasPrefix s ''-''; body = (if negative then drop 1 s else s);
         whole = takeWhile (\<lambda>c. c \<noteq> CHR ''.'') body; places = drop 1 (dropWhile (\<lambda>c. c \<noteq> CHR ''.'') body);
         magnitude = int (digitsVal (whole @ places))
     in (if negative then - magnitude else magnitude, int (length places)))"

lemma digits_no_point: "list_all isDigit ds \<Longrightarrow> c \<in> set ds \<Longrightarrow> c \<noteq> CHR ''.''"
  by (auto simp: list_all_iff)

lemma digits_no_minus: "list_all isDigit ds \<Longrightarrow> \<not> HasPrefix ds ''-''"
  by (cases ds) (auto simp: HasPrefix_def)

lemma digitChar_0: "digitChar 0 = CHR ''0''"
  by code_simp

lemma decimalDigits_positive:
  assumes "list_all isDigit ds"
  shows "readDecimal (decimalDigits ds sc) = (int (digitsVal ds), max 0 sc)"
    and "readDecimal (decimalDigits (CHR ''-'' # ds) sc) = (- int (digitsVal ds), max 0 sc)"
    and "list_all (\<lambda>c. isDigit c \<or> c = CHR ''.'') (decimalDigits ds sc)"
proof -
  define padded where "padded = (if int (length ds) \<le> sc
      then replicate (nat (sc - int (length ds) + 1)) (CHR ''0'') @ ds else ds)"
  define cut where "cut = length padded - nat sc"
  have zero: "isDigit (CHR ''0'')" using isDigit_digitChar [of 0] by (simp add: digitChar_0)
  have dig: "list_all isDigit padded"
    using assms zero by (auto simp: padded_def list_all_iff)
  have val: "digitsVal padded = digitsVal ds"
    using digitsVal_replicate0 [unfolded digitChar_0] by (simp add: padded_def digitsVal_append)
  have len: "0 < sc \<Longrightarrow> nat sc \<le> length padded" by (auto simp: padded_def)
  have tk: "takeWhile (\<lambda>c. c \<noteq> CHR ''.'') (take cut padded @ CHR ''.'' # r) = take cut padded"
    "dropWhile (\<lambda>c. c \<noteq> CHR ''.'') (take cut padded @ CHR ''.'' # r) = CHR ''.'' # r" for r
    using digits_no_point [OF dig, OF in_set_takeD] by (auto simp: takeWhile_append dropWhile_append)
  have whole: "takeWhile (\<lambda>c. c \<noteq> CHR ''.'') ds = ds" "dropWhile (\<lambda>c. c \<noteq> CHR ''.'') ds = []"
    using digits_no_point [OF assms] by (auto simp: takeWhile_eq_all_conv dropWhile_eq_Nil_conv)
  let ?r = "if sc \<le> 0 then ds else take cut padded @ ''.'' @ drop cut padded"
  have r: "decimalDigits ds sc = ?r" "decimalDigits (CHR ''-'' # ds) sc = CHR ''-'' # ?r"
    using digits_no_minus [OF assms]
    by (auto simp: decimalDigits_def Let_def cut_def padded_def HasPrefix_def)
  have np: "\<not> HasPrefix ?r ''-''"
    using digits_no_minus [OF assms] digits_no_minus [OF dig]
    by (cases padded; cases cut) (auto simp: HasPrefix_def)
  have lenp: "0 < sc \<Longrightarrow> int (length (drop cut padded)) = sc" using len by (simp add: cut_def)
  show "readDecimal (decimalDigits ds sc) = (int (digitsVal ds), max 0 sc)"
    using np lenp by (simp add: r(1) readDecimal_def Let_def tk whole val)
  show "readDecimal (decimalDigits (CHR ''-'' # ds) sc) = (- int (digitsVal ds), max 0 sc)"
    using lenp by (simp add: r(2) readDecimal_def Let_def tk whole val HasPrefix_def)
  show "list_all (\<lambda>c. isDigit c \<or> c = CHR ''.'') (decimalDigits ds sc)"
    using assms dig by (auto simp: r(1) list_all_iff dest: in_set_takeD in_set_dropD)
qed

section \<open>Rounding\<close>

text \<open>The rounding the backend documents: to the nearest integer, halves away from zero.\<close>

definition roundHalfAway :: "rat \<Rightarrow> int" where
  "roundHalfAway x = (if x < 0 then - \<lfloor>- x + 1 / 2\<rfloor> else \<lfloor>x + 1 / 2\<rfloor>)"

lemma roundHalfAway_minus [simp]: "roundHalfAway (- x) = - roundHalfAway x"
proof (cases "x = 0")
  case True
  moreover have "\<lfloor>1 / 2 :: rat\<rfloor> = 0" by (simp add: floor_eq_iff)
  ultimately show ?thesis by (simp add: roundHalfAway_def)
qed (simp add: roundHalfAway_def)

lemma roundHalfAway_error: "\<bar>x - of_int (roundHalfAway x)\<bar> \<le> 1 / 2"
proof -
  have "of_int \<lfloor>y + 1 / 2\<rfloor> \<le> y + 1 / 2" "y + 1 / 2 < of_int \<lfloor>y + 1 / 2\<rfloor> + 1" for y :: rat
    by linarith+
  note near = this [of x] this [of "- x"]
  show ?thesis
  proof (cases "x < 0")
    case True
    then have "roundHalfAway x = - \<lfloor>- x + 1 / 2\<rfloor>" by (simp add: roundHalfAway_def)
    with near show ?thesis by linarith
  next
    case False
    then have "roundHalfAway x = \<lfloor>x + 1 / 2\<rfloor>" by (simp add: roundHalfAway_def)
    with near show ?thesis by linarith
  qed
qed

lemma floor_half:
  fixes t :: rat
  assumes "0 \<le> t" and "t < 1"
  shows "\<lfloor>of_int q + (t + 1 / 2)\<rfloor> = (if 1 / 2 \<le> t then q + 1 else q)"
proof (cases "1 / 2 \<le> t")
  case True
  with assms have "\<lfloor>t + 1 / 2\<rfloor> = 1" by (subst floor_eq_iff) linarith
  with True show ?thesis by simp
next
  case False
  with assms have "\<lfloor>t + 1 / 2\<rfloor> = 0" by (subst floor_eq_iff) linarith
  with False show ?thesis by simp
qed

lemma div_half_up:
  fixes a b :: int
  assumes "0 \<le> a" and "0 < b"
  shows "\<lfloor>(of_int a / of_int b :: rat) + 1 / 2\<rfloor> = (if 2 * (a mod b) \<ge> b then a div b + 1 else a div b)"
proof -
  define q r where "q = a div b" and "r = a mod b"
  have a: "a = q * b + r" and r: "0 \<le> r" "r < b" using assms by (simp_all add: q_def r_def)
  have "(of_int a / of_int b :: rat) = of_int q + of_int r / of_int b"
    using assms(2) by (simp add: a field_simps)
  then have x: "(of_int a / of_int b :: rat) + 1 / 2 = of_int q + (of_int r / of_int b + 1 / 2)" by simp
  have lo: "0 \<le> (of_int r / of_int b :: rat)" "(of_int r / of_int b :: rat) < 1"
    using r assms(2) by simp_all
  have half: "(1 / 2 :: rat) \<le> of_int r / of_int b \<longleftrightarrow> b \<le> 2 * r"
  proof -
    have "(1 / 2 :: rat) \<le> of_int r / of_int b \<longleftrightarrow> of_int b \<le> (2 * of_int r :: rat)"
      using assms(2) by (simp add: field_simps)
    also have "\<dots> \<longleftrightarrow> b \<le> 2 * r" by (metis of_int_le_iff of_int_mult of_int_numeral)
    finally show ?thesis .
  qed
  show ?thesis
    unfolding x q_def [symmetric] r_def [symmetric]
    unfolding floor_half [OF lo] half ..
qed

lemma round_quotient:
  fixes n d :: int
  assumes "d \<noteq> 0"
  shows "roundHalfAway (of_int n / of_int d) =
    (let q = \<bar>n\<bar> div \<bar>d\<bar>; quotient = (if 2 * (\<bar>n\<bar> mod \<bar>d\<bar>) \<ge> \<bar>d\<bar> then q + 1 else q)
     in if sgn n * sgn d < 0 then - quotient else quotient)"
proof -
  have abs: "\<bar>of_int n / of_int d :: rat\<bar> = of_int \<bar>n\<bar> / of_int \<bar>d\<bar>" by simp
  have neg: "(of_int n / of_int d :: rat) < 0 \<longleftrightarrow> sgn n * sgn d < 0"
    using assms by (auto simp: divide_less_0_iff sgn_if)
  have "roundHalfAway x = (if x < 0 then - \<lfloor>\<bar>x\<bar> + 1 / 2\<rfloor> else \<lfloor>\<bar>x\<bar> + 1 / 2\<rfloor>)" for x
    by (simp add: roundHalfAway_def)
  from this [of "of_int n / of_int d"] show ?thesis
    unfolding neg abs using div_half_up [of "\<bar>n\<bar>" "\<bar>d\<bar>"] assms by (simp add: Let_def)
qed

lemma MulDivRound_eq:
  assumes "divisor \<noteq> 0" and "0 \<le> vs" "0 \<le> ms" "0 \<le> ds" "0 \<le> rs"
    and "\<bar>rs + ds - vs - ms\<bar> \<le> MaxPow10Scale"
  shows "MulDivRound (Some v) vs (Some m) ms (Some divisor) ds rs =
    Inr (roundHalfAway (decVal v vs * decVal m ms / decVal divisor ds * 10 ^ nat rs))"
proof -
  define e where "e = rs + ds - vs - ms"
  define n d where "n = (if e \<ge> 0 then v * m * 10 ^ nat e else v * m)"
    and "d = (if e \<ge> 0 then divisor else divisor * 10 ^ nat (- e))"
  have "d \<noteq> 0" using assms(1) by (simp add: d_def)
  have p: "Pow10 e = Inr (10 ^ nat e)" if "0 \<le> e"
    using that assms(6) by (intro Pow10_ok) (simp add: scaleOk_def e_def)
  have p': "Pow10 (- e) = Inr (10 ^ nat (- e))" if "\<not> 0 \<le> e"
    using that assms(6) by (intro Pow10_ok) (simp add: scaleOk_def e_def)
  have "\<not> (vs < 0 \<or> ms < 0 \<or> ds < 0 \<or> rs < 0)" using assms by simp
  moreover have "(if 0 \<le> e then bindR (Pow10 e) (\<lambda>p. Inr (v * m * p, divisor))
      else bindR (Pow10 (- e)) (\<lambda>p. Inr (v * m, divisor * p))) = Inr (n, d)"
    using p p' by (simp add: n_def d_def)
  ultimately have "MulDivRound (Some v) vs (Some m) ms (Some divisor) ds rs
      = Inr (roundHalfAway (of_int n / of_int d))"
    unfolding round_quotient [OF \<open>d \<noteq> 0\<close>, of n]
    by (simp only: MulDivRound_def e_def [symmetric] Let_def prod.case option.case if_False assms(1)
        bindR_simps)
  moreover have "(of_int n / of_int d :: rat) = decVal v vs * decVal m ms / decVal divisor ds * 10 ^ nat rs"
  proof -
    let ?B = "(10::rat) ^ nat vs * 10 ^ nat ms" and ?C = "(10::rat) ^ nat rs * 10 ^ nat ds"
    have E: "decVal v vs * decVal m ms / decVal divisor ds * 10 ^ nat rs
        = of_int (v * m) * ?C / (of_int divisor * ?B)"
      by (simp add: decVal_def mult.commute mult.left_commute)
    show ?thesis
    proof (cases "0 \<le> e")
      case True
      then have "nat rs + nat ds = nat e + (nat vs + nat ms)" using assms by (auto simp: e_def)
      then have C: "?C = 10 ^ nat e * ?B" by (metis power_add)
      show ?thesis unfolding E C using True by (simp add: n_def d_def)
    next
      case False
      then have "nat vs + nat ms = nat (- e) + (nat rs + nat ds)" using assms by (auto simp: e_def)
      then have B: "?B = 10 ^ nat (- e) * ?C" by (metis power_add)
      show ?thesis unfolding E B using False by (simp add: n_def d_def)
    qed
  qed
  ultimately show ?thesis by simp
qed

section \<open>Properties\<close>

text \<open>
  C38. \<^verbatim>\<open>exact.Parse\<close> on every input: blank text, text that is not a signed integer, an integer of
  more than 38 digits and an integer that fits are told apart, and the accepted value is the
  canonical numeral of exactly the integer written, so the stored form is unique per value.
\<close>

theorem parse_canonical:
  "Parse raw = (if TrimSpace raw = [] then Inl CoefficientRequired
     else case SetString (TrimSpace raw) of
       None \<Rightarrow> Inl CoefficientNotInteger
     | Some z \<Rightarrow> if \<bar>z\<bar> < 10 ^ 38 then Inr (intString z) else Inl (CoefficientTooWide 38))
   \<and> (case Parse raw of Inl _ \<Rightarrow> True
      | Inr c \<Rightarrow> coefficientOk c \<and> SetString (TrimSpace raw) = Some (BigInt c) \<and> Parse c = Inr c)"
proof -
  have "coefficientOk c \<and> SetString (TrimSpace raw) = Some (BigInt c) \<and> Parse c = Inr c"
    if "Parse raw = Inr c" for c
    using that Parse_ok [OF that] by (auto simp: Parse_Inr_iff)
  then show ?thesis unfolding Parse_eq [of raw, symmetric] by (auto split: sum.split)
qed

text \<open>
  A coefficient written to the database and scanned back is the same coefficient, from either
  text or bytes, and so is one made from an integer: storage loses nothing below 38 digits.
\<close>

theorem coefficient_storage_roundtrip:
  assumes "\<bar>z\<bar> < 10 ^ 38"
  shows "\<exists>c. FromBig (Some z) = Inr c \<and> BigInt c = z
    \<and> Coefficient_Scan (ScanString (Coefficient_Value c)) = Inr c
    \<and> Coefficient_Scan (ScanBytes (Coefficient_Value c)) = Inr c
    \<and> Coefficient_Scan (ScanInt64 z) = Inr c
    \<and> Coefficient_Negated (Coefficient_Negated c) = c"
  using assms
  by (auto simp: FromBig_Some Coefficient_Scan_def Coefficient_Value_def Coefficient_String_def
      Parse_eq Coefficient_Negated_def)

theorem coefficient_storage_roundtrip_witness:
  "\<bar>- 12345 :: int\<bar> < 10 ^ 38 \<and> (\<exists>c. FromBig (Some (- 12345)) = Inr c \<and> BigInt c = - 12345
    \<and> Coefficient_Scan (ScanString (Coefficient_Value c)) = Inr c
    \<and> Coefficient_Scan (ScanBytes (Coefficient_Value c)) = Inr c
    \<and> Coefficient_Scan (ScanInt64 (- 12345)) = Inr c
    \<and> Coefficient_Negated (Coefficient_Negated c) = c)"
proof -
  have h: "\<bar>- 12345 :: int\<bar> < 10 ^ 38" by simp
  show ?thesis by (rule conjI [OF h coefficient_storage_roundtrip [OF h]])
qed

text \<open>
  Decimal rendering is lossless: reading the text back gives the coefficient and the scale, for
  values of any width, and a non-positive scale renders the whole number.
\<close>

theorem decimal_rendering_lossless:
  "readDecimal (DecimalFromBig (Some z) sc) = (z, max 0 sc)
   \<and> (coefficientOk c \<longrightarrow> readDecimal (Decimal c sc) = (BigInt c, max 0 sc))"
proof -
  have big: "readDecimal (decimalDigits (intString z) sc) = (z, max 0 sc)" for z
    using decimalDigits_positive [OF natDigits_isDigit] by (simp add: intString_def)
  moreover have "Coefficient_String c = intString (BigInt c)" if "coefficientOk c"
  proof (cases "c = []")
    case True
    then show ?thesis by (simp add: Coefficient_String_def intString_def natDigits.simps [of 0] digitChar_0)
  next
    case False
    with that show ?thesis by (auto simp: coefficientOk_def Coefficient_String_def)
  qed
  ultimately show ?thesis by (simp add: DecimalFromBig_def Decimal_def)
qed

theorem decimal_rendering_lossless_witness:
  "readDecimal (DecimalFromBig (Some (- 5)) 3) = (- 5, 3) \<and> coefficientOk (New 1200)
   \<and> readDecimal (Decimal (New 1200) 2) = (1200, 2)"
proof -
  have "\<bar>1200 :: int\<bar> < 10 ^ 38" by simp
  then have ok: "coefficientOk (New 1200)" unfolding coefficientOk_def New_def by blast
  show ?thesis
    using decimal_rendering_lossless [of "- 5" 3 "New 1200"] decimal_rendering_lossless [of 0 2 "New 1200"] ok
    by simp
qed

text \<open>
  C40. Summing amounts whose scales lie between 0 and 60 never panics, whatever the mixture of
  scales, and the accumulator holds exactly the rational sum, independently of the order in which
  the amounts arrive.
\<close>

theorem scaled_sum_exact:
  assumes "\<And>z sc. (z, sc) \<in> set xs \<Longrightarrow> 0 \<le> sc \<and> sc \<le> MaxPow10Scale" and "mset ys = mset xs"
  shows "\<exists>s t. foldR (\<lambda>s x. ScaledInt_Add s (Some (fst x)) (snd x)) NewScaledInt xs = Inr s
    \<and> foldR (\<lambda>s x. ScaledInt_Add s (Some (fst x)) (snd x)) NewScaledInt ys = Inr t
    \<and> scaledVal s = (\<Sum>x\<leftarrow>xs. decVal (fst x) (snd x)) \<and> scaledVal t = scaledVal s"
proof -
  have ok: "scaleOk (snd x)" if "x \<in> set xs" for x using assms(1) that by (cases x) (auto simp: scaleOk_def)
  obtain s t where st: "scaled.addAll NewScaledInt xs = Inr s" "scaled.addAll NewScaledInt ys = Inr t"
    "scaledVal s = scaledVal t"
    using scaled.addAll_order_irrelevant [OF assms(2) [symmetric] ok] by blast
  from scaled.addAll_Inr(2) [OF ok st(1)] have "scaledVal s = (\<Sum>x\<leftarrow>xs. decVal (fst x) (snd x))"
    by (simp add: scaled.total_def)
  with st show ?thesis by (auto simp: scaled.addAll_def)
qed

theorem scaled_sum_exact_witness:
  "\<exists>s t. foldR (\<lambda>s x. ScaledInt_Add s (Some (fst x)) (snd x)) NewScaledInt [(1, 24), (250, 2)] = Inr s
    \<and> foldR (\<lambda>s x. ScaledInt_Add s (Some (fst x)) (snd x)) NewScaledInt [(250, 2), (1, 24)] = Inr t
    \<and> scaledVal s = (\<Sum>x\<leftarrow>[(1, 24), (250, 2)]. decVal (fst x) (snd x)) \<and> scaledVal t = scaledVal s"
proof (rule scaled_sum_exact)
  fix z sc :: int
  assume "(z, sc) \<in> set [(1, 24), (250, 2)]"
  then show "0 \<le> sc \<and> sc \<le> MaxPow10Scale" by (auto simp: MaxPow10Scale_def)
qed simp

text \<open>
  Comparing two scaled values decides the order of the exact values they represent, whatever
  their scales; normalizing keeps the value and yields the unique shallowest form, so two values
  are equal exactly when their normal forms are.
\<close>

theorem scaled_compare_and_normal_form:
  assumes "scaleOk (si_scale s)" and "scaleOk (si_scale t)"
  shows "ScaledInt_Cmp s t = Inr (if scaledVal s < scaledVal t then - 1 else if scaledVal s = scaledVal t then 0 else 1)
    \<and> scaledVal (ScaledInt_Normalized s) = scaledVal s
    \<and> ((ScaledInt_Normalized s :: ScaledInt) = ScaledInt_Normalized t \<longleftrightarrow> scaledVal s = scaledVal t)"
proof (intro conjI)
  show "ScaledInt_Cmp s t = Inr (if scaledVal s < scaledVal t then - 1 else if scaledVal s = scaledVal t then 0 else 1)"
    using Cmp_eq_ratCmp [OF assms] by (simp add: ratCmp_def)
  have nn: "0 \<le> si_scale s" "0 \<le> si_scale t" using assms by (simp_all add: scaleOk_def)
  note spec = Normalized_spec [OF nn(1)] Normalized_spec [OF nn(2)]
  show "scaledVal (ScaledInt_Normalized s) = scaledVal s" using spec by simp
  show "(ScaledInt_Normalized s :: ScaledInt) = ScaledInt_Normalized t \<longleftrightarrow> scaledVal s = scaledVal t"
    using spec normal_form_unique [of "ScaledInt_Normalized s" "ScaledInt_Normalized t"] by metis
qed

theorem scaled_compare_and_normal_form_witness:
  "ScaledInt_Cmp \<lparr>si_value = 1500, si_scale = 3\<rparr> \<lparr>si_value = 15, si_scale = 1\<rparr> = Inr 0
   \<and> ScaledInt_Normalized \<lparr>si_value = 1500, si_scale = 3\<rparr> = ScaledInt_Normalized \<lparr>si_value = 15, si_scale = 1\<rparr>"
proof -
  have ok: "scaleOk 3" "scaleOk 1" by (simp_all add: scaleOk_def MaxPow10Scale_def)
  have eq: "decVal 1500 3 = decVal 15 1" by (simp add: decVal_def)
  show ?thesis
    using scaled_compare_and_normal_form [of "\<lparr>si_value = 1500, si_scale = 3\<rparr>" "\<lparr>si_value = 15, si_scale = 1\<rparr>"]
      ok eq by (simp add: scaledVal_def)
qed

text \<open>
  \<^verbatim>\<open>MulDivRound\<close> is the exact quotient rounded once, to the nearest, halves away from zero: for
  every combination of scales whose net exponent stays within 60 it returns that integer, it is off
  by at most half a unit, and negating the amount negates the result, so debits and credits of one
  size convert to one size.
\<close>

theorem muldivround_single_rounding:
  assumes "divisor \<noteq> 0" and "0 \<le> vs" "0 \<le> ms" "0 \<le> ds" "0 \<le> rs"
    and "\<bar>rs + ds - vs - ms\<bar> \<le> MaxPow10Scale"
  shows "\<exists>q. MulDivRound (Some v) vs (Some m) ms (Some divisor) ds rs = Inr q
    \<and> q = roundHalfAway (decVal v vs * decVal m ms / decVal divisor ds * 10 ^ nat rs)
    \<and> \<bar>decVal v vs * decVal m ms / decVal divisor ds * 10 ^ nat rs - of_int q\<bar> \<le> 1 / 2
    \<and> MulDivRound (Some (- v)) vs (Some m) ms (Some divisor) ds rs = Inr (- q)"
proof -
  let ?x = "decVal v vs * decVal m ms / decVal divisor ds * 10 ^ nat rs"
  have "decVal (- v) vs * decVal m ms / decVal divisor ds * 10 ^ nat rs = - ?x" by simp
  then show ?thesis
    using MulDivRound_eq [OF assms, of v m] MulDivRound_eq [OF assms, of "- v" m] roundHalfAway_error [of ?x]
    by simp
qed

theorem muldivround_single_rounding_witness:
  "\<exists>q. MulDivRound (Some 10000) 2 (Some 920000) 6 (Some 1) 0 2 = Inr q
    \<and> q = roundHalfAway (decVal 10000 2 * decVal 920000 6 / decVal 1 0 * 10 ^ nat 2)
    \<and> \<bar>decVal 10000 2 * decVal 920000 6 / decVal 1 0 * 10 ^ nat 2 - of_int q\<bar> \<le> 1 / 2
    \<and> MulDivRound (Some (- 10000)) 2 (Some 920000) 6 (Some 1) 0 2 = Inr (- q)"
  by (rule muldivround_single_rounding) (simp_all add: MaxPow10Scale_def)

text \<open>
  Truncation to an output scale never moves a value away from zero, never changes its sign and
  drops less than one unit of the output scale; at a scale at least as deep nothing is lost.
\<close>

theorem truncation_bounds:
  assumes "scaleOk (si_scale s)" and "scaleOk sc"
  shows "\<exists>t. ScaledInt_TruncatedTo s sc = Inr t \<and> \<bar>scaledVal t\<bar> \<le> \<bar>scaledVal s\<bar>
    \<and> 0 \<le> scaledVal t * scaledVal s \<and> \<bar>scaledVal s - scaledVal t\<bar> < 1 / 10 ^ nat sc
    \<and> (si_scale s \<le> sc \<longrightarrow> scaledVal t = scaledVal s)"
proof (cases "sc < si_scale s")
  case False
  then have eq: "ScaledInt_TruncatedTo s sc = ScaledInt_Align s sc"
    using assms by (auto simp: ScaledInt_TruncatedTo_def ScaledInt_Align_def scaleOk_def)
  obtain t where "ScaledInt_Align s sc = Inr t" "scaledVal t = scaledVal s"
    using Align_ok [OF assms] by blast
  with eq show ?thesis by auto
next
  case True
  define k where "k = nat (si_scale s - sc)"
  define p :: int where "p = 10 ^ k"
  define q where "q = bigQuo (si_value s) p"
  have sc: "0 \<le> sc" using assms by (simp add: scaleOk_def)
  have p0: "0 < p" by (simp add: p_def)
  have r: "ScaledInt_TruncatedTo s sc = Inr \<lparr>si_value = q, si_scale = sc\<rparr>"
    using True assms by (simp add: ScaledInt_TruncatedTo_def Pow10_ok scaleOk_diff q_def p_def k_def scaleOk_def)
  have t: "scaledVal \<lparr>si_value = q, si_scale = sc\<rparr> = decVal (q * p) (si_scale s)"
    using decVal_deepen [of sc "si_scale s" q] True sc by (simp add: scaledVal_def p_def k_def)
  note b = bigQuo_bounds [OF p0, of "si_value s", folded q_def]
  have abs: "\<bar>decVal x c\<bar> = decVal \<bar>x\<bar> c" for x c by (simp add: decVal_def)
  have mono: "decVal x c \<le> decVal y c \<longleftrightarrow> x \<le> y" for x y c by (metis decVal_less_iff linorder_not_less)
  have unit: "decVal p (si_scale s) = 1 / 10 ^ nat sc"
    using decVal_deepen [of sc "si_scale s" 1] True sc by (simp add: p_def k_def decVal_def)
  have diff: "scaledVal s - decVal (q * p) (si_scale s) = decVal (si_value s - q * p) (si_scale s)"
    using decVal_add [of "si_value s" "- (q * p)" "si_scale s"] by (simp add: scaledVal_def)
  have "0 \<le> scaledVal s * decVal (q * p) (si_scale s)"
  proof -
    have "0 \<le> si_value s * q * p" using b(3) p0 by simp
    then have "0 \<le> (of_int (si_value s * (q * p)) :: rat)" by (simp only: mult.assoc of_int_0_le_iff)
    then show ?thesis by (simp add: scaledVal_def decVal_def)
  qed
  moreover have "\<bar>scaledVal s - decVal (q * p) (si_scale s)\<bar> < 1 / 10 ^ nat sc"
    unfolding diff abs unit [symmetric] using b(2) by simp
  moreover have "\<bar>decVal (q * p) (si_scale s)\<bar> \<le> \<bar>scaledVal s\<bar>"
    unfolding scaledVal_def abs mono using b(1) by simp
  ultimately show ?thesis using True by (simp add: r t mult.commute)
qed

theorem truncation_bounds_witness:
  "\<exists>t. ScaledInt_TruncatedTo \<lparr>si_value = - 1239, si_scale = 3\<rparr> 2 = Inr t
    \<and> \<bar>scaledVal t\<bar> \<le> \<bar>scaledVal \<lparr>si_value = - 1239, si_scale = 3\<rparr>\<bar>
    \<and> 0 \<le> scaledVal t * scaledVal \<lparr>si_value = - 1239, si_scale = 3\<rparr>
    \<and> \<bar>scaledVal \<lparr>si_value = - 1239, si_scale = 3\<rparr> - scaledVal t\<bar> < 1 / 10 ^ nat 2
    \<and> (si_scale \<lparr>si_value = - 1239, si_scale = 3\<rparr> \<le> 2 \<longrightarrow>
       scaledVal t = scaledVal \<lparr>si_value = - 1239, si_scale = 3\<rparr>)"
  by (rule truncation_bounds) (simp_all add: scaleOk_def MaxPow10Scale_def)

end
