(* ===== verification/Ledger_Types.thy ===== *)
theory Ledger_Types
  imports Exact Go_Time "HOL-Library.Multiset"
begin

text \<open>
  The data of the transaction service: requests (\<^verbatim>\<open>app/transactions_types.go\<close>), stored transactions as the
  service returns them, and the specifications and rules of \<^verbatim>\<open>db/transactions_types.go\<close>. A Go
  \<^verbatim>\<open>int64\<close> is an \<^typ>\<open>int\<close>, a nullable column or pointer an option, a coefficient its canonical text. Field
  names carry the initials of their struct. Every refusal the service returns is a value of
  \<open>ledger_error\<close>, one constructor per message; \<open>Panicked\<close> carries a panic of the exact package.
  The section on quantities gives the meaning of a list of postings: the exact net amount of each
  commodity.
\<close>

section \<open>Refusals\<close>

datatype ledger_error =
    Panicked exact_error
  | FieldRequired string | FieldNotDate string | FieldTooLong string int | FieldControlCharacters string
  | FieldNotJSON string | FieldNotObject string
  | PostedDatesRequireOneEntry
  | PostedDateNotAccountDay
  | EntryNotBalanced int
  | FeeSecond | FeeNotTransfer | FeeNotOutAndIn | FeePayerInvalid | FeeNotPositive | FeeOtherCurrency | FeeOtherDay
  | AmountsExceedCoefficient
  | ClearingAccountMissing | TradingAccountMissing
  | ConversionSideNotExchange | ExchangeRequiresOneEntry | ExchangeIsInvestment | ExchangeNamesSystemAccount
  | ExchangeLegsInvalid | ExchangeSameAccount | ExchangeSameCurrency | ExchangeSigns
  | ExchangeFeeCurrency | ExchangeFeeNotPositive | ExchangeFeeDay | ExchangeFeeExceeds
  | ConversionSideInvalid
  | RestatementNoTrading | RestatementNoBridge
  | StatusInvalid | KindInvalid | EntryKindInvalid | TransferSideInvalid
  | PayeeInvalid | PayeeArchived
  | PostingAccountRequired | PostingCommodityRequired | PostingScaleInvalid
  | PostingBeforeOpened | PostingVersionGap string string | PostingAccountInvalid
  | PostingAccountInactive | PostingSubledgerManaged | PostingAfterClosed
  | PostingCommodityMismatch | PostingScaleExceedsAccount
  | PostingCommodityInvalid | PostingCommodityArchived
  | PostingScaleExceedsKind | PostingScaleExceedsCommodity
  | LineKeyInvalid | LineKeyReused
  | ReconciliationStatusInvalid | ClearedDateUncleared
  | TagIDInvalid | ErrTransactionTag
  | EntryTooFewPostings int | TransactionWithoutEntries
  | MoveNeedsLine | MoveDirectionInvalid | TransactionNotFound | MoveNotPosted | JournalCannotMove
  | OnlyAccountPostingMoves | PostingDayUnparsable

section \<open>Requests\<close>

record PostingInput =
  pi_LineKey :: string
  pi_PostedOn :: string
  pi_AccountID :: int
  pi_QuantityValue :: Coefficient
  pi_QuantityScale :: int
  pi_CommodityID :: int
  pi_Memo :: string
  pi_MetadataJSON :: string
  pi_TagIDs :: "int list"

record JournalEntryInput =
  je_EntryDate :: string
  je_EntryKind :: string
  je_Memo :: string
  je_MetadataJSON :: string
  je_ConversionSide :: string
  je_FeePaidBy :: string
  je_Postings :: "PostingInput list"

record TransactionInput =
  ti_Status :: string
  ti_TransactionKind :: string
  ti_InvestmentOperationKind :: string
  ti_TransactionDate :: string
  ti_PayeeID :: "int option"
  ti_PayeeName :: string
  ti_Description :: string
  ti_ExternalRefHint :: string
  ti_NoteMarkdown :: string
  ti_MetadataJSON :: string
  ti_NeedsReview :: bool
  ti_TagIDs :: "int list"
  ti_JournalEntries :: "JournalEntryInput list"
  ti_storedJournal :: bool

section \<open>Stored transactions\<close>

record Posting =
  p_ID :: int
  p_PostingLineID :: int
  p_LineKey :: string
  p_LineSeq :: int
  p_AccountID :: int
  p_AccountDaySequence :: int
  p_QuantityValue :: Coefficient
  p_QuantityScale :: int
  p_CommodityID :: int
  p_Memo :: string
  p_ReconciliationStatus :: string
  p_ClearedOn :: string
  p_MetadataJSON :: string
  p_TagIDs :: "int list"
  p_AccountName :: "string option"
  p_AccountCode :: "string option"
  p_AccountSystemRole :: "string option"
  p_AccountBuiltinKey :: "string option"
  p_AccountClass :: string
  p_CommodityCode :: string
  p_CommoditySymbol :: "string option"

record JournalEntry =
  e_ID :: int
  e_EntrySeq :: int
  e_EntryDate :: string
  e_EntryKind :: string
  e_Memo :: string
  e_MetadataJSON :: string
  e_ConversionSide :: string
  e_FeePaidBy :: string
  e_Postings :: "Posting list"

record Transaction =
  t_ID :: int
  t_BookID :: int
  t_CorrectionOfTransactionID :: "int option"
  t_Status :: string
  t_TransactionKind :: string
  t_TransactionDate :: string
  t_TransactionDaySequence :: int
  t_PayeeID :: "int option"
  t_PayeeName :: string
  t_Description :: string
  t_ExternalRefHint :: string
  t_NoteMarkdown :: string
  t_MetadataJSON :: string
  t_NeedsReview :: bool
  t_VersionID :: int
  t_VersionSeq :: int
  t_SupersedesVersionID :: "int option"
  t_TagIDs :: "int list"
  t_JournalEntries :: "JournalEntry list"
  t_CreatedAt :: string
  t_UpdatedAt :: string
  t_DeletedAt :: string
  t_ChangeReason :: string
  t_SystemLabel :: string
  t_InvalidatedCheckpointIDs :: "int list"

section \<open>Specifications and records of the repository\<close>

record PostingSpec =
  ps_LineKey :: string
  ps_AccountID :: int
  ps_QuantityValue :: Coefficient
  ps_QuantityScale :: int
  ps_CommodityID :: int
  ps_Memo :: string
  ps_ReconciliationStatus :: string
  ps_ClearedOn :: "string option"
  ps_MetadataJSON :: string
  ps_TagIDs :: "int list"

record JournalEntrySpec =
  es_EntryDate :: string
  es_EntryKind :: string
  es_Memo :: string
  es_MetadataJSON :: string
  es_ConversionSide :: string
  es_FeePaidBy :: string
  es_Postings :: "PostingSpec list"

record TransactionSpec =
  ts_Status :: string
  ts_TransactionKind :: string
  ts_InvestmentOperationKind :: string
  ts_TransactionDate :: string
  ts_PayeeID :: "int option"
  ts_PayeeName :: "string option"
  ts_Description :: string
  ts_ExternalRefHint :: string
  ts_NoteMarkdown :: string
  ts_MetadataJSON :: string
  ts_NeedsReview :: bool
  ts_TagIDs :: "int list"
  ts_JournalEntries :: "JournalEntrySpec list"

record PostingRecord =
  pr_ID :: int
  pr_BookID :: int
  pr_TransactionVersionID :: int
  pr_JournalEntryID :: int
  pr_PostingLineID :: int
  pr_LineKey :: string
  pr_LineSeq :: int
  pr_AccountID :: int
  pr_AccountDaySequence :: int
  pr_QuantityValue :: Coefficient
  pr_QuantityScale :: int
  pr_CommodityID :: int
  pr_Memo :: string
  pr_ReconciliationStatus :: string
  pr_ClearedOn :: "string option"
  pr_MetadataJSON :: string
  pr_TagIDs :: "int list"

record JournalEntryRecord =
  er_ID :: int
  er_BookID :: int
  er_TransactionVersionID :: int
  er_EntrySeq :: int
  er_EntryDate :: string
  er_EntryKind :: string
  er_Memo :: string
  er_MetadataJSON :: string
  er_ConversionSide :: "string option"
  er_FeePaidBy :: "string option"
  er_Postings :: "PostingRecord list"

record PostingAccountRule =
  ar_AccountID :: int
  ar_AccountClass :: string
  ar_Status :: string
  ar_OpenedOn :: string
  ar_ClosedOn :: "string option"
  ar_DefaultCommodityID :: "int option"
  ar_QuantityScaleOverride :: "int option"
  ar_AllowsPostings :: bool
  ar_IsSystem :: bool
  ar_AccountKind :: string
  ar_EffectiveFrom :: string
  ar_VersionID :: int
  ar_LatestVersionID :: int
  ar_BaseKind :: string

definition AcceptsPostingsOn :: "PostingAccountRule \<Rightarrow> string \<Rightarrow> bool" where
  "AcceptsPostingsOn rule entryDate = (
     if \<not> ar_AllowsPostings rule then False
     else if ar_Status rule = ''active'' then True
     else if ar_Status rule = ''closed'' then
       (case ar_ClosedOn rule of None \<Rightarrow> False | Some closedOn \<Rightarrow> entryDate \<le> closedOn)
     else False)"

record PostingCommodityRule =
  cr_CommodityID :: int
  cr_Status :: string
  cr_MaxQuantityScale :: int
  cr_StandardScale :: int
  cr_CommodityBookID :: int
  cr_CommodityKind :: string

section \<open>Dates and text of a request\<close>

definition cleanRequiredDate :: "string \<Rightarrow> string \<Rightarrow> (ledger_error, string) result" where
  "cleanRequiredDate v field = (let cleaned = TrimSpace v in
     if cleaned = [] then Inl (FieldRequired field)
     else case parseDateOnly cleaned of None \<Rightarrow> Inl (FieldNotDate field) | Some _ \<Rightarrow> Inr cleaned)"

definition cleanOptionalDate :: "string \<Rightarrow> string \<Rightarrow> (ledger_error, string) result" where
  "cleanOptionalDate v field = (let cleaned = TrimSpace v in
     if cleaned = [] then Inr [] else cleanRequiredDate cleaned field)"

definition cleanOptionalText :: "string \<Rightarrow> string \<Rightarrow> int \<Rightarrow> (ledger_error, string) result" where
  "cleanOptionalText v field maxBytes = (let cleaned = TrimSpace v in
     if int (length cleaned) > maxBytes then Inl (FieldTooLong field maxBytes)
     else if hasControlExcept [] cleaned then Inl (FieldControlCharacters field)
     else Inr cleaned)"

definition cleanOptionalMultilineText :: "string \<Rightarrow> string \<Rightarrow> int \<Rightarrow> (ledger_error, string) result" where
  "cleanOptionalMultilineText v field maxBytes = (let cleaned = TrimSpace v in
     if int (length cleaned) > maxBytes then Inl (FieldTooLong field maxBytes)
     else if hasControlExcept [byte 10, byte 9] cleaned then Inl (FieldControlCharacters field)
     else Inr cleaned)"

section \<open>The quantities of postings\<close>

text \<open>
  The exact amount of one commodity in a list of postings, each given as its commodity and value. A
  journal balances when no commodity has a net amount.
\<close>

definition netOf :: "(int \<times> rat) list \<Rightarrow> int \<Rightarrow> rat" where
  "netOf legs c = (\<Sum>leg\<leftarrow>legs. if fst leg = c then snd leg else 0)"

definition balancedLegs :: "(int \<times> rat) list \<Rightarrow> bool" where
  "balancedLegs legs \<longleftrightarrow> (\<forall>c. netOf legs c = 0)"

definition inputLeg :: "PostingInput \<Rightarrow> int \<times> rat" where
  "inputLeg p = (pi_CommodityID p, decVal (BigInt (pi_QuantityValue p)) (pi_QuantityScale p))"

definition specLeg :: "PostingSpec \<Rightarrow> int \<times> rat" where
  "specLeg p = (ps_CommodityID p, decVal (BigInt (ps_QuantityValue p)) (ps_QuantityScale p))"

definition storedLeg :: "Posting \<Rightarrow> int \<times> rat" where
  "storedLeg p = (p_CommodityID p, decVal (BigInt (p_QuantityValue p)) (p_QuantityScale p))"

lemma netOf_simps [simp]:
  "netOf [] c = 0" "netOf (leg # legs) c = (if fst leg = c then snd leg else 0) + netOf legs c"
  "netOf (xs @ ys) c = netOf xs c + netOf ys c"
  by (simp_all add: netOf_def)

lemma netOf_absent: "c \<notin> fst ` set legs \<Longrightarrow> netOf legs c = 0"
  by (induction legs) auto

lemma netOf_mset: "mset xs = mset ys \<Longrightarrow> netOf xs c = netOf ys c"
proof -
  assume e: "mset xs = mset ys"
  have "netOf zs c = \<Sum>\<^sub># (image_mset (\<lambda>leg. if fst leg = c then snd leg else 0) (mset zs))" for zs
    unfolding netOf_def by (simp only: mset_map [symmetric] sum_mset_sum_list)
  then show ?thesis using e by simp
qed

lemma balancedLegs_iff: "balancedLegs legs \<longleftrightarrow> (\<forall>c\<in>fst ` set legs. netOf legs c = 0)"
  unfolding balancedLegs_def using netOf_absent by metis

lemma netOf_split_keys:
  assumes "distinct ks" and "\<And>x. x \<in> set xs \<Longrightarrow> key x \<in> set ks"
  shows "(\<Sum>k\<leftarrow>ks. netOf (map f (filter (\<lambda>x. key x = k) xs)) c) = netOf (map f xs) c"
  using assms(2)
proof (induction xs)
  case (Cons x xs)
  let ?n = "\<lambda>zs k. netOf (map f (filter (\<lambda>x. key x = k) zs)) c"
  let ?v = "if fst (f x) = c then snd (f x) else 0"
  have "(\<Sum>k\<leftarrow>ks. ?n (x # xs) k) = (\<Sum>k\<leftarrow>ks. (if key x = k then ?v else 0) + ?n xs k)"
    by (intro arg_cong [where f = sum_list] map_cong) auto
  also have "\<dots> = (\<Sum>k\<leftarrow>ks. if key x = k then ?v else 0) + (\<Sum>k\<leftarrow>ks. ?n xs k)" by (simp add: sum_list_addf)
  also have "(\<Sum>k\<leftarrow>ks. if key x = k then ?v else 0) = ?v"
    using assms(1) Cons.prems [of x] by (simp add: sum_list_distinct_conv_sum_set)
  finally show ?case using Cons by simp
qed simp

lemma cleanRequiredDate_Inr:
  "cleanRequiredDate v field = Inr d \<longleftrightarrow> d = TrimSpace v \<and> (\<exists>t. fourDigitYear t \<and> d = formatDateOnly t)"
proof -
  have ne: "formatDateOnly t \<noteq> []" for t by (simp add: formatDateOnly_def)
  have e: "(\<exists>t. parseDateOnly (TrimSpace v) = Some t) \<longleftrightarrow> (\<exists>t. fourDigitYear t \<and> TrimSpace v = formatDateOnly t)"
    by (simp add: parseDateOnly_iff)
  show ?thesis
  proof (cases "parseDateOnly (TrimSpace v)")
    case None
    then show ?thesis using e by (auto simp: cleanRequiredDate_def Let_def)
  next
    case (Some t)
    then have "TrimSpace v \<noteq> []" using ne by (auto simp: parseDateOnly_iff)
    then show ?thesis using Some e by (auto simp: cleanRequiredDate_def Let_def)
  qed
qed

lemma TrimSpace_date: "fourDigitYear t \<Longrightarrow> TrimSpace (formatDateOnly t) = formatDateOnly t"
proof -
  assume "fourDigitYear t"
  then obtain y m d where t: "formatDateOnly t = y @ ''-'' @ m @ ''-'' @ d" "length y = 4" "length d = 2"
    "list_all isDigit y" "list_all isDigit d"
    by (rule formatDateOnly_parts)
  then have ne: "y \<noteq> []" "d \<noteq> []" by auto
  then have "isDigit (hd y)" "isDigit (last d)" using t by (auto simp: list_all_iff)
  then show ?thesis using t ne by (intro TrimSpace_graphic) (simp_all add: isDigit_graphic)
qed

lemma cleanRequiredDate_idem: "cleanRequiredDate v field = Inr d \<Longrightarrow> cleanRequiredDate d field = Inr d"
  by (auto simp: cleanRequiredDate_Inr TrimSpace_date)

lemma cleanRequiredDate_literal:
  assumes "validDate y m d" and "0 \<le> y" and "y \<le> 9999"
    and "v = padNat 4 (nat y) @ ''-'' @ padNat 2 (nat m) @ ''-'' @ padNat 2 (nat d)"
  shows "cleanRequiredDate v field = Inr v" and "TrimSpace v = v"
proof -
  have v: "v = formatDateOnly (Date y m d)" "fourDigitYear (Date y m d)"
    using assms by (simp_all add: formatDateOnly_def Date_fields fourDigitYear_def)
  then show "TrimSpace v = v" by (simp add: TrimSpace_date)
  then show "cleanRequiredDate v field = Inr v" using v by (auto simp: cleanRequiredDate_Inr)
qed

lemmas date_literal = validDate_def daysIn_def padNat_def natDigits.simps digitChar_literals

lemmas text_literal = TrimSpace_graphic graphic_def byteVal_def

end
