(* ===== verification/Posted_On.thy ===== *)
theory Posted_On
  imports Ledger_Types
begin

text \<open>
  The posted-date rule of \<^verbatim>\<open>app/transactions_posted_on.go\<close>: one journal entry whose account postings
  carry their own posting days becomes one entry per day, each balanced through the
  \<^verbatim>\<open>transfer_clearing\<close> account. A Go map keyed by dates is the list of its keys in insertion order; the code
  sorts the keys before it uses an order. \<open>clearing\<close> is the value the lookup closure returns.
\<close>

section \<open>Definitions\<close>

definition conversionSending :: string where "conversionSending = ''sending''"

definition conversionReceiving :: string where "conversionReceiving = ''receiving''"

record postingDayRole =
  role_account :: bool
  role_system :: bool

definition addToSum ::
  "(int \<rightharpoonup> ScaledInt) \<times> int list \<Rightarrow> PostingInput \<Rightarrow> (ledger_error, (int \<rightharpoonup> ScaledInt) \<times> int list) result" where
  "addToSum acc posting = (
     let (totals, commodities) = acc; c = pi_CommodityID posting;
         (amount, commodities') = (case totals c of
            None \<Rightarrow> (NewScaledInt, commodities @ [c]) | Some s \<Rightarrow> (s, commodities))
     in bindR (mapErr Panicked (ScaledInt_AddCoefficient amount (pi_QuantityValue posting) (pi_QuantityScale posting)))
          (\<lambda>s. Inr (totals(c \<mapsto> s), commodities')))"

definition sumPostingsByCommodity ::
  "PostingInput list \<Rightarrow> (ledger_error, (int \<rightharpoonup> ScaledInt) \<times> int list) result" where
  "sumPostingsByCommodity postings =
     bindR (foldR addToSum (Map.empty, []) postings) (\<lambda>(totals, commodities). Inr (totals, sort commodities))"

definition validatePostingsBalanced :: "PostingInput list \<Rightarrow> (ledger_error, unit) result" where
  "validatePostingsBalanced postings =
     bindR (sumPostingsByCommodity postings) (\<lambda>(totals, commodities).
       if \<exists>c\<in>set commodities. ScaledInt_Sign (the (totals c)) \<noteq> 0 then Inl (EntryNotBalanced 1) else Inr ())"

definition emptyPosting :: PostingInput where
  "emptyPosting = \<lparr> pi_LineKey = [], pi_PostedOn = [], pi_AccountID = 0, pi_QuantityValue = [], pi_QuantityScale = 0,
     pi_CommodityID = 0, pi_Memo = [], pi_MetadataJSON = [], pi_TagIDs = [] \<rparr>"

definition negatedSum :: "ScaledInt \<Rightarrow> (ledger_error, Coefficient) result" where
  "negatedSum amount = (case ScaledInt_Coefficient (ScaledInt_Negated amount) of
      Inl _ \<Rightarrow> Inl AmountsExceedCoefficient | Inr v \<Rightarrow> Inr v)"

fun bridgesFor :: "(int \<rightharpoonup> ScaledInt) \<Rightarrow> int \<Rightarrow> int list \<Rightarrow> (ledger_error, PostingInput list) result" where
  "bridgesFor totals clearingAccountID [] = Inr []"
| "bridgesFor totals clearingAccountID (c # cs) = (
     let amount = the (totals c) in
     if ScaledInt_Sign amount = 0 then bridgesFor totals clearingAccountID cs
     else bindR (negatedSum amount) (\<lambda>v.
       bindR (bridgesFor totals clearingAccountID cs) (\<lambda>rest.
         Inr (emptyPosting\<lparr> pi_AccountID := clearingAccountID, pi_CommodityID := c, pi_QuantityValue := v,
                pi_QuantityScale := si_scale amount \<rparr> # rest))))"

definition clearingBridges :: "PostingInput list \<Rightarrow> int \<Rightarrow> (ledger_error, PostingInput list) result" where
  "clearingBridges postings clearingAccountID =
     bindR (sumPostingsByCommodity postings) (\<lambda>(totals, commodities). bridgesFor totals clearingAccountID commodities)"

definition isPostedOnAccount :: "PostingAccountRule \<Rightarrow> bool" where
  "isPostedOnAccount rule \<longleftrightarrow> \<not> ar_IsSystem rule \<and> (ar_AccountClass rule = ''asset'' \<or> ar_AccountClass rule = ''liability'')"

text \<open>The loop of \<open>feeOnItsPayersDay\<close> that picks out the account postings and the one fee.\<close>

fun feeScan :: "postingDayRole list \<Rightarrow> nat \<Rightarrow> nat list \<Rightarrow> nat option \<Rightarrow> (ledger_error, nat list \<times> nat option) result" where
  "feeScan [] index accounts fee = Inr (accounts, fee)"
| "feeScan (r # roles) index accounts fee = (
     if role_account r then feeScan roles (Suc index) (accounts @ [index]) fee
     else if role_system r then feeScan roles (Suc index) accounts fee
     else if fee \<noteq> None then Inl FeeSecond
     else feeScan roles (Suc index) accounts (Some index))"

text \<open>What it then checks of the sending and receiving account postings and the fee, and the day it gives the fee.\<close>

definition feeForPayer :: "JournalEntryInput \<Rightarrow> string \<Rightarrow> nat \<Rightarrow> nat \<Rightarrow> nat \<Rightarrow> (ledger_error, JournalEntryInput) result" where
  "feeForPayer entry entryDate fee sending receiving = (
     let posting = (\<lambda>i. je_Postings entry ! i);
         sgn = (\<lambda>i. Coefficient_Sign (pi_QuantityValue (posting i)));
         paidBy = TrimSpace (je_FeePaidBy entry);
         payer = (if paidBy = conversionSending then sending else receiving);
         payerDay0 = TrimSpace (pi_PostedOn (posting payer));
         payerDay = (if payerDay0 = [] then entryDate else payerDay0);
         postedOn = TrimSpace (pi_PostedOn (posting fee))
     in if sgn sending \<ge> 0 \<or> sgn receiving \<le> 0 \<or> pi_AccountID (posting sending) = pi_AccountID (posting receiving)
        then Inl FeeNotOutAndIn
        else if paidBy \<noteq> conversionSending \<and> paidBy \<noteq> conversionReceiving then Inl FeePayerInvalid
        else if sgn fee \<le> 0 then Inl FeeNotPositive
        else if pi_CommodityID (posting fee) \<noteq> pi_CommodityID (posting payer) then Inl FeeOtherCurrency
        else if postedOn \<noteq> [] \<and> postedOn \<noteq> payerDay then Inl FeeOtherDay
        else Inr (entry\<lparr> je_Postings := (je_Postings entry)[fee := (posting fee)\<lparr> pi_PostedOn := payerDay \<rparr>] \<rparr>))"

definition feeOnItsPayersDay ::
  "JournalEntryInput \<Rightarrow> string \<Rightarrow> postingDayRole list \<Rightarrow> (ledger_error, JournalEntryInput) result" where
  "feeOnItsPayersDay entry entryDate roles = bindR (feeScan roles 0 [] None) (\<lambda>(accounts, fee0).
     case (accounts, fee0) of
       ([a, b], Some fee) \<Rightarrow>
         (if Coefficient_Sign (pi_QuantityValue (je_Postings entry ! a)) > 0
          then feeForPayer entry entryDate fee b a else feeForPayer entry entryDate fee a b)
     | _ \<Rightarrow> Inl FeeNotTransfer)"

definition postingDay :: "string \<Rightarrow> PostingInput \<Rightarrow> (ledger_error, string) result" where
  "postingDay entryDate posting = (let postedOn = TrimSpace (pi_PostedOn posting) in
     if postedOn \<noteq> [] then cleanRequiredDate postedOn ''posted date'' else Inr entryDate)"

text \<open>The day each posting lands on: \<open>accountDays\<close> lists the day and commodity of every account posting.\<close>

definition landingDay ::
  "string \<Rightarrow> (string \<times> int) list \<Rightarrow> PostingInput \<times> postingDayRole \<times> string \<Rightarrow> (ledger_error, string \<times> PostingInput) result" where
  "landingDay followDate accountDays prd = (case prd of (posting, r, date) \<Rightarrow>
     let cleared = posting\<lparr> pi_PostedOn := [] \<rparr> in
     if role_account r then Inr (date, cleared)
     else if TrimSpace (pi_PostedOn posting) \<noteq> [] then
       (if date \<notin> fst ` set accountDays \<or> (\<not> role_system r \<and> (date, pi_CommodityID posting) \<notin> set accountDays)
        then Inl PostedDateNotAccountDay
        else Inr (date, cleared))
     else Inr (followDate, cleared))"

definition datedEntry ::
  "JournalEntryInput \<Rightarrow> (string \<times> PostingInput) list \<Rightarrow> int \<Rightarrow> string \<Rightarrow> (ledger_error, JournalEntryInput) result" where
  "datedEntry entry dated clearingAccountID date = (
     let postings = map snd (filter (\<lambda>dp. fst dp = date) dated) in
     bindR (clearingBridges postings clearingAccountID) (\<lambda>bridges.
       Inr \<lparr> je_EntryDate = date, je_EntryKind = je_EntryKind entry, je_Memo = je_Memo entry,
         je_MetadataJSON = je_MetadataJSON entry, je_ConversionSide = je_ConversionSide entry,
         je_FeePaidBy = je_FeePaidBy entry, je_Postings = postings @ bridges \<rparr>))"

definition groupPostingsByDay ::
  "JournalEntryInput \<Rightarrow> string \<Rightarrow> postingDayRole list \<Rightarrow> (ledger_error, int) result \<Rightarrow> (ledger_error, JournalEntryInput list) result" where
  "groupPostingsByDay entry0 entryDate roles clearing =
     bindR (validatePostingsBalanced (je_Postings entry0)) (\<lambda>_.
     bindR (if TrimSpace (je_FeePaidBy entry0) \<noteq> [] then feeOnItsPayersDay entry0 entryDate roles else Inr entry0) (\<lambda>entry.
     bindR (mapR (postingDay entryDate) (je_Postings entry)) (\<lambda>dates.
     let rows = zip (je_Postings entry) (zip roles dates);
         accountDays = map (\<lambda>(posting, r, date). (date, pi_CommodityID posting)) (filter (\<lambda>(posting, r, date). role_account r) rows);
         followDate = (case remdups (map fst accountDays) of [d] \<Rightarrow> d | _ \<Rightarrow> entryDate)
     in bindR (mapR (landingDay followDate accountDays) rows) (\<lambda>dated.
        case remdups (map fst dated) of
          [date] \<Rightarrow> Inr [entry\<lparr> je_EntryDate := date, je_Postings := map snd dated \<rparr>]
        | days \<Rightarrow> bindR clearing (\<lambda>clearingAccountID.
            mapR (datedEntry entry dated clearingAccountID) (sort days))))))"

section \<open>Sums and bridges\<close>

definition scalesOk :: "PostingInput list \<Rightarrow> bool" where
  "scalesOk ps \<longleftrightarrow> (\<forall>p\<in>set ps. scaleOk (pi_QuantityScale p))"

lemma scalesOk_simps [simp]:
  "scalesOk []" "scalesOk (p # ps) \<longleftrightarrow> scaleOk (pi_QuantityScale p) \<and> scalesOk ps"
  "scalesOk (ps @ qs) \<longleftrightarrow> scalesOk ps \<and> scalesOk qs"
  by (auto simp: scalesOk_def)

definition sumsOk :: "PostingInput list \<Rightarrow> (int \<rightharpoonup> ScaledInt) \<times> int list \<Rightarrow> bool" where
  "sumsOk ps acc \<longleftrightarrow> dom (fst acc) = set (snd acc) \<and> distinct (snd acc) \<and> set (snd acc) = pi_CommodityID ` set ps \<and>
     (\<forall>c s. fst acc c = Some s \<longrightarrow> scaleOk (si_scale s) \<and> scaledVal s = netOf (map inputLeg ps) c)"

lemma addToSum_step:
  assumes ok: "sumsOk ps acc" and p: "scaleOk (pi_QuantityScale p)"
  shows "\<exists>acc'. addToSum acc p = Inr acc' \<and> sumsOk (ps @ [p]) acc'"
proof -
  obtain m cs where acc: "acc = (m, cs)" by (cases acc)
  define c where "c = pi_CommodityID p"
  define s0 where "s0 = (case m c of None \<Rightarrow> NewScaledInt | Some s \<Rightarrow> s)"
  define cs' where "cs' = (case m c of None \<Rightarrow> cs @ [c] | Some s \<Rightarrow> cs)"
  have s0: "scaleOk (si_scale s0)" "scaledVal s0 = netOf (map inputLeg ps) c"
  proof -
    have "scaleOk (si_scale NewScaledInt)" by (rule scaled.invar_empty)
    moreover have "m c = None \<Longrightarrow> netOf (map inputLeg ps) c = 0"
    proof (rule netOf_absent)
      assume "m c = None"
      then have "c \<notin> pi_CommodityID ` set ps" using ok acc by (auto simp: sumsOk_def domIff)
      then show "c \<notin> fst ` set (map inputLeg ps)" by (auto simp: inputLeg_def)
    qed
    ultimately show "scaleOk (si_scale s0)" "scaledVal s0 = netOf (map inputLeg ps) c"
      using ok acc by (auto simp: s0_def sumsOk_def split: option.splits)
  qed
  obtain s' where s': "ScaledInt_Add s0 (Some (BigInt (pi_QuantityValue p))) (pi_QuantityScale p) = Inr s'"
    "si_scale s' = max (si_scale s0) (pi_QuantityScale p)"
    "scaledVal s' = scaledVal s0 + decVal (BigInt (pi_QuantityValue p)) (pi_QuantityScale p)"
    using Add_ok [OF s0(1) p] by blast
  have "addToSum acc p = Inr (m(c \<mapsto> s'), cs')"
    using s'(1) by (auto simp: addToSum_def acc Let_def c_def [symmetric] s0_def cs'_def ScaledInt_AddCoefficient_def split: option.splits)
  moreover have "sumsOk (ps @ [p]) (m(c \<mapsto> s'), cs')"
    using ok s0 s' p acc
    by (auto simp: sumsOk_def cs'_def c_def inputLeg_def max_def split: option.splits if_splits)
  ultimately show ?thesis by blast
qed

lemma sumPostings_fold:
  "scalesOk ps \<Longrightarrow> \<exists>acc. foldR addToSum (Map.empty, []) ps = Inr acc \<and> sumsOk ps acc"
proof (induction ps rule: rev_induct)
  case Nil
  then show ?case by (simp add: sumsOk_def)
next
  case (snoc p ps)
  then obtain acc where "foldR addToSum (Map.empty, []) ps = Inr acc" "sumsOk ps acc" by auto
  with snoc.prems addToSum_step [of ps acc p] show ?case by (auto simp: foldR_append)
qed

lemma sumPostings_ok:
  assumes "scalesOk ps"
  obtains m where "sumPostingsByCommodity ps = Inr (m, sorted_list_of_set (pi_CommodityID ` set ps))"
    "dom m = pi_CommodityID ` set ps"
    "\<And>c s. m c = Some s \<Longrightarrow> scaleOk (si_scale s) \<and> scaledVal s = netOf (map inputLeg ps) c"
proof -
  obtain m cs where mc: "foldR addToSum (Map.empty, []) ps = Inr (m, cs)" "sumsOk ps (m, cs)"
    using sumPostings_fold [OF assms] by auto
  then have "set cs = pi_CommodityID ` set ps" "distinct cs" by (simp_all add: sumsOk_def)
  then have "sort cs = sorted_list_of_set (pi_CommodityID ` set ps)"
    using sorted_list_of_set_sort_remdups [of cs] by (simp add: distinct_remdups_id)
  with mc that show thesis by (auto simp: sumPostingsByCommodity_def sumsOk_def)
qed

lemma validatePostingsBalanced_iff:
  assumes "scalesOk ps"
  shows "validatePostingsBalanced ps = (if balancedLegs (map inputLeg ps) then Inr () else Inl (EntryNotBalanced 1))"
proof -
  obtain m where m: "sumPostingsByCommodity ps = Inr (m, sorted_list_of_set (pi_CommodityID ` set ps))"
    "dom m = pi_CommodityID ` set ps"
    "\<And>c s. m c = Some s \<Longrightarrow> scaleOk (si_scale s) \<and> scaledVal s = netOf (map inputLeg ps) c"
    using sumPostings_ok [OF assms] by blast
  have "ScaledInt_Sign (the (m c)) = 0 \<longleftrightarrow> netOf (map inputLeg ps) c = 0" if "c \<in> pi_CommodityID ` set ps" for c
  proof -
    have "c \<in> dom m" using that m(2) by simp
    then obtain s where "m c = Some s" by (rule domD [THEN exE])
    then show ?thesis using m(3) by (simp add: ScaledInt_Sign_iff)
  qed
  moreover have "fst ` set (map inputLeg ps) = pi_CommodityID ` set ps" by (auto simp: inputLeg_def image_image)
  ultimately have "(\<exists>c\<in>pi_CommodityID ` set ps. ScaledInt_Sign (the (m c)) \<noteq> 0) \<longleftrightarrow> \<not> balancedLegs (map inputLeg ps)"
    unfolding balancedLegs_iff by simp
  then show ?thesis using m(1) by (simp add: validatePostingsBalanced_def)
qed

text \<open>The bridges of a group settle it: with them every commodity of the group nets to zero.\<close>

lemma bridgesFor_net:
  assumes "bridgesFor m k cs = Inr bs" and "distinct cs"
    and "\<And>c. c \<in> set cs \<Longrightarrow> \<exists>s. m c = Some s"
  shows "netOf (map inputLeg bs) c = (if c \<in> set cs then - scaledVal (the (m c)) else 0)"
    and "\<forall>b\<in>set bs. pi_AccountID b = k \<and> pi_LineKey b = [] \<and> pi_CommodityID b \<in> set cs \<and>
      BigInt (pi_QuantityValue b) \<noteq> 0 \<and> pi_QuantityScale b = si_scale (the (m (pi_CommodityID b)))"
  using assms
proof (induction cs arbitrary: bs)
  case (Cons d cs)
  {
    case 1
    show ?case
    proof (cases "ScaledInt_Sign (the (m d)) = 0")
      case True
      then show ?thesis using 1 Cons.IH(1) [of bs] by (auto simp: ScaledInt_Sign_iff)
    next
      case False
      then obtain v rest where v: "negatedSum (the (m d)) = Inr v" "bridgesFor m k cs = Inr rest"
        "bs = emptyPosting\<lparr> pi_AccountID := k, pi_CommodityID := d, pi_QuantityValue := v, pi_QuantityScale := si_scale (the (m d)) \<rparr> # rest"
        using 1 by (auto simp: Let_def result_simps)
      then have "BigInt v = - si_value (the (m d))"
        by (auto simp: negatedSum_def ScaledInt_Coefficient_def ScaledInt_Negated_def FromBig_Inr_iff split: sum.splits)
      then have "decVal (BigInt v) (si_scale (the (m d))) = - scaledVal (the (m d))" by (simp add: scaledVal_def)
      then show ?thesis using 1 Cons.IH(1) [OF v(2)] v(3) by (auto simp: inputLeg_def)
    qed
  next
    case 2
    show ?case
    proof (cases "ScaledInt_Sign (the (m d)) = 0")
      case True
      then show ?thesis using 2 Cons.IH(2) [of bs] by auto
    next
      case False
      then obtain v rest where v: "negatedSum (the (m d)) = Inr v" "bridgesFor m k cs = Inr rest"
        "bs = emptyPosting\<lparr> pi_AccountID := k, pi_CommodityID := d, pi_QuantityValue := v, pi_QuantityScale := si_scale (the (m d)) \<rparr> # rest"
        using 2 by (auto simp: Let_def result_simps)
      moreover from this False have "BigInt v \<noteq> 0"
        by (auto simp: negatedSum_def ScaledInt_Coefficient_def ScaledInt_Negated_def FromBig_Inr_iff ScaledInt_Sign_def sgn_if split: sum.splits)
      ultimately show ?thesis using 2 Cons.IH(2) [OF v(2)] by (auto simp: emptyPosting_def)
    qed
  }
qed auto

lemma clearingBridges_settle:
  assumes "scalesOk ps" and "clearingBridges ps k = Inr bs"
  shows "balancedLegs (map inputLeg (ps @ bs))" and "scalesOk bs"
    and "\<forall>b\<in>set bs. pi_AccountID b = k \<and> pi_LineKey b = [] \<and> BigInt (pi_QuantityValue b) \<noteq> 0"
    and "netOf (map inputLeg bs) c = - netOf (map inputLeg ps) c"
proof -
  obtain m where m: "sumPostingsByCommodity ps = Inr (m, sorted_list_of_set (pi_CommodityID ` set ps))"
    "dom m = pi_CommodityID ` set ps"
    "\<And>c s. m c = Some s \<Longrightarrow> scaleOk (si_scale s) \<and> scaledVal s = netOf (map inputLeg ps) c"
    using sumPostings_ok [OF assms(1)] by blast
  let ?cs = "sorted_list_of_set (pi_CommodityID ` set ps)"
  have b: "bridgesFor m k ?cs = Inr bs" using assms(2) m(1) by (simp add: clearingBridges_def)
  have some: "\<exists>s. m c = Some s" if "c \<in> set ?cs" for c using that m(2) by auto
  note net = bridgesFor_net [OF b sorted_list_of_set.distinct_sorted_key_list_of_set some]
  have n: "netOf (map inputLeg bs) c = - netOf (map inputLeg ps) c" for c
  proof (cases "c \<in> pi_CommodityID ` set ps")
    case True
    then have "c \<in> dom m" using m(2) by simp
    then obtain s where "m c = Some s" by (rule domD [THEN exE])
    then show ?thesis using net(1) [of c] True m(3) by simp
  next
    case False
    then have "netOf (map inputLeg ps) c = 0" by (intro netOf_absent) (auto simp: inputLeg_def)
    then show ?thesis using net(1) [of c] False by simp
  qed
  show "netOf (map inputLeg bs) c = - netOf (map inputLeg ps) c" by (rule n)
  show "balancedLegs (map inputLeg (ps @ bs))" by (simp add: balancedLegs_def n)
  show "scalesOk bs" unfolding scalesOk_def
  proof
    fix b assume bb: "b \<in> set bs"
    then obtain s where "m (pi_CommodityID b) = Some s" using net(2) some by blast
    then show "scaleOk (pi_QuantityScale b)" using net(2) bb m(3) by auto
  qed
  show "\<forall>b\<in>set bs. pi_AccountID b = k \<and> pi_LineKey b = [] \<and> BigInt (pi_QuantityValue b) \<noteq> 0" using net(2) by blast
qed

section \<open>Splitting an entry over its days\<close>

definition undated :: "PostingInput \<Rightarrow> PostingInput" where
  "undated p = p\<lparr> pi_PostedOn := [] \<rparr>"

lemma inputLeg_PostedOn [simp]: "inputLeg (p\<lparr> pi_PostedOn := d \<rparr>) = inputLeg p"
  by (simp add: inputLeg_def)

lemma inputLeg_undated [simp]: "inputLeg (undated p) = inputLeg p"
  by (simp add: undated_def)

lemma map_inputLeg_undated: "map undated ps = map undated qs \<Longrightarrow> map inputLeg ps = map inputLeg qs"
  by (metis (no_types, lifting) inputLeg_undated list.map_comp map_eq_conv o_apply)

lemma scalesOk_undated: "map undated ps = map undated qs \<Longrightarrow> scalesOk ps = scalesOk qs"
proof -
  have "scalesOk (map undated ps) = scalesOk ps" for ps by (auto simp: scalesOk_def undated_def)
  then show "map undated ps = map undated qs \<Longrightarrow> scalesOk ps = scalesOk qs" by metis
qed

lemma map_list_update_same: "f y = f (xs ! i) \<Longrightarrow> map f (xs[i := y]) = map f xs"
  by (cases "i < length xs") (simp_all add: map_update list_update_same_conv list_update_beyond)

lemma feeOnItsPayersDay_Inr:
  assumes "feeOnItsPayersDay entry d roles = Inr e'"
  obtains a b fee sending receiving where "feeForPayer entry d fee sending receiving = Inr e'"
    "feeScan roles 0 [] None = Inr ([a, b], Some fee)" "(sending, receiving) \<in> {(a, b), (b, a)}"
proof -
  obtain accounts fee0 where f: "feeScan roles 0 [] None = Inr (accounts, fee0)"
    using assms by (auto simp: feeOnItsPayersDay_def result_simps)
  then obtain a b fee where "accounts = [a, b]" "fee0 = Some fee"
    using assms by (auto simp: feeOnItsPayersDay_def split: list.splits option.splits)
  then show thesis using that f assms by (auto simp: feeOnItsPayersDay_def split: if_splits)
qed

lemma feeOnItsPayersDay_postings:
  assumes "feeOnItsPayersDay entry d roles = Inr e'"
  shows "map undated (je_Postings e') = map undated (je_Postings entry)"
proof -
  obtain a b fee sending receiving where "feeForPayer entry d fee sending receiving = Inr e'"
    using assms by (rule feeOnItsPayersDay_Inr)
  then show ?thesis by (auto simp: feeForPayer_def Let_def undated_def map_list_update_same split: if_splits)
qed

lemma mset_split_keys:
  assumes "distinct ks" and "\<And>x. x \<in> set xs \<Longrightarrow> key x \<in> set ks"
  shows "mset (concat (map (\<lambda>k. filter (\<lambda>x. key x = k) xs) ks)) = mset xs"
  using assms(2)
proof (induction xs)
  case (Cons x xs)
  have "mset (concat (map (\<lambda>k. filter (\<lambda>x. key x = k) (x # xs)) ks)) =
      mset (concat (map (\<lambda>k. if key x = k then [x] else []) ks)) + mset (concat (map (\<lambda>k. filter (\<lambda>x. key x = k) xs) ks))" for ks
    by (induction ks) auto
  moreover have "distinct ks \<Longrightarrow> mset (concat (map (\<lambda>k. if key x = k then [x] else []) ks)) = (if key x \<in> set ks then {#x#} else {#})" for ks
    by (induction ks) auto
  ultimately show ?case using Cons assms(1) by simp
qed (induction ks; simp)

lemma landingDay_posting: "landingDay f a row = Inr dp \<Longrightarrow> snd dp = undated (fst row)"
  by (auto simp: landingDay_def undated_def Let_def split: prod.splits if_splits)

lemma mapR_landing_postings:
  assumes "mapR (landingDay f a) (zip ps (zip roles dates)) = Inr dated"
    and "length roles = length ps" and "length dates = length ps"
  shows "map snd dated = map undated ps"
proof -
  have "list_all2 (\<lambda>row dp. snd dp = undated (fst row)) (zip ps (zip roles dates)) dated"
    using assms(1) unfolding mapR_Inr_iff by (rule list_all2_mono) (rule landingDay_posting)
  then have "map snd dated = map (\<lambda>row. undated (fst row)) (zip ps (zip roles dates))"
    by (induction rule: list_all2_induct) auto
  also have "\<dots> = map undated (map fst (zip ps (zip roles dates)))" by simp
  also have "\<dots> = map undated ps" using assms(2,3) by (simp only: map_fst_zip length_zip min.idem)
  finally show ?thesis .
qed

text \<open>The result of the rule, without its account lookups: the dated postings and the shape of the entries.\<close>

lemma groupPostingsByDay_cases:
  assumes g: "groupPostingsByDay entry day roles clearing = Inr entries"
    and len: "length roles = length (je_Postings entry)"
  obtains entry' dates accountDays followDate dated where
    "validatePostingsBalanced (je_Postings entry) = Inr ()"
    "map undated (je_Postings entry') = map undated (je_Postings entry)"
    "if TrimSpace (je_FeePaidBy entry) = [] then entry' = entry else feeOnItsPayersDay entry day roles = Inr entry'"
    "mapR (postingDay day) (je_Postings entry') = Inr dates"
    "accountDays = map (\<lambda>(posting, r, date). (date, pi_CommodityID posting))
       (filter (\<lambda>(posting, r, date). role_account r) (zip (je_Postings entry') (zip roles dates)))"
    "followDate = (case remdups (map fst accountDays) of [d] \<Rightarrow> d | _ \<Rightarrow> day)"
    "mapR (landingDay followDate accountDays) (zip (je_Postings entry') (zip roles dates)) = Inr dated"
    "map snd dated = map undated (je_Postings entry)"
    "if length (remdups (map fst dated)) = 1
     then entries = [entry'\<lparr> je_EntryDate := hd (remdups (map fst dated)), je_Postings := map snd dated \<rparr>]
     else \<exists>k. clearing = Inr k \<and> mapR (datedEntry entry' dated k) (sort (remdups (map fst dated))) = Inr entries"
proof -
  from g obtain u entry' dates dated where steps:
    "validatePostingsBalanced (je_Postings entry) = Inr u"
    "(if TrimSpace (je_FeePaidBy entry) \<noteq> [] then feeOnItsPayersDay entry day roles else Inr entry) = Inr entry'"
    "mapR (postingDay day) (je_Postings entry') = Inr dates"
    "mapR (landingDay (case remdups (map fst (map (\<lambda>(posting, r, date). (date, pi_CommodityID posting))
       (filter (\<lambda>(posting, r, date). role_account r) (zip (je_Postings entry') (zip roles dates))))) of [d] \<Rightarrow> d | _ \<Rightarrow> day)
       (map (\<lambda>(posting, r, date). (date, pi_CommodityID posting))
       (filter (\<lambda>(posting, r, date). role_account r) (zip (je_Postings entry') (zip roles dates))))) (zip (je_Postings entry') (zip roles dates)) = Inr dated"
    and last: "(case remdups (map fst dated) of
          [date] \<Rightarrow> Inr [entry'\<lparr> je_EntryDate := date, je_Postings := map snd dated \<rparr>]
        | days \<Rightarrow> bindR clearing (\<lambda>k. mapR (datedEntry entry' dated k) (sort days))) = Inr entries"
    unfolding groupPostingsByDay_def Let_def bindR_Inr_iff by blast
  have e': "map undated (je_Postings entry') = map undated (je_Postings entry)"
    using steps(2) feeOnItsPayersDay_postings by (auto split: if_splits)
  then have "length (je_Postings entry') = length (je_Postings entry)" by (metis length_map)
  then have "map snd dated = map undated (je_Postings entry)"
    using mapR_landing_postings [OF steps(4)] len mapR_length [OF steps(3)] e' by simp
  moreover have "if length (remdups (map fst dated)) = 1
     then entries = [entry'\<lparr> je_EntryDate := hd (remdups (map fst dated)), je_Postings := map snd dated \<rparr>]
     else \<exists>k. clearing = Inr k \<and> mapR (datedEntry entry' dated k) (sort (remdups (map fst dated))) = Inr entries"
    using last by (auto simp: result_simps split: list.splits)
  ultimately show thesis using steps e' by (intro that [of entry' dates]) (auto split: if_splits)
qed

lemma datedEntries:
  assumes "mapR (datedEntry entry dated k) days = Inr entries"
  obtains B where "map je_EntryDate entries = days"
    "map je_Postings entries = map (\<lambda>d. map snd (filter (\<lambda>dp. fst dp = d) dated) @ B d) days"
    "\<And>d. d \<in> set days \<Longrightarrow> clearingBridges (map snd (filter (\<lambda>dp. fst dp = d) dated)) k = Inr (B d)"
proof -
  define B where "B d = projr (clearingBridges (map snd (filter (\<lambda>dp. fst dp = d) dated)) k)" for d
  have one: "datedEntry entry dated k d = Inr e \<Longrightarrow> je_EntryDate e = d \<and>
      je_Postings e = map snd (filter (\<lambda>dp. fst dp = d) dated) @ B d \<and>
      clearingBridges (map snd (filter (\<lambda>dp. fst dp = d) dated)) k = Inr (B d)" for d e
    by (auto simp: datedEntry_def Let_def result_simps B_def)
  have "list_all2 (\<lambda>d e. datedEntry entry dated k d = Inr e) days entries" using assms by (simp add: mapR_Inr_iff)
  then have "map je_EntryDate entries = days \<and>
      map je_Postings entries = map (\<lambda>d. map snd (filter (\<lambda>dp. fst dp = d) dated) @ B d) days \<and>
      (\<forall>d\<in>set days. clearingBridges (map snd (filter (\<lambda>dp. fst dp = d) dated)) k = Inr (B d))"
    by (induction rule: list_all2_induct) (auto dest!: one)
  then show thesis using that by blast
qed

lemma mset_concat_append: "mset (concat (map (\<lambda>d. f d @ g d) ds)) = mset (concat (map f ds)) + mset (concat (map g ds))"
  by (induction ds) auto

lemma netOf_concat: "netOf (map f (concat xss)) c = (\<Sum>xs\<leftarrow>xss. netOf (map f xs) c)"
  by (induction xss) auto

text \<open>The bridges of all days together: they net to zero, since the whole entry balances.\<close>

lemma bridges_cancel:
  assumes scales: "scalesOk (map snd dated)" and bal: "balancedLegs (map inputLeg (map snd dated))"
    and days: "distinct days" "fst ` set dated \<subseteq> set days"
    and B: "\<And>d. d \<in> set days \<Longrightarrow> clearingBridges (map snd (filter (\<lambda>dp. fst dp = d) dated)) k = Inr (B d)"
  shows "balancedLegs (map inputLeg (concat (map B days)))"
    and "mset (concat (map (\<lambda>d. map snd (filter (\<lambda>dp. fst dp = d) dated)) days)) = mset (map snd dated)"
proof -
  let ?sel = "\<lambda>d. filter (\<lambda>dp. fst dp = d) dated"
  have ok: "scalesOk (map snd (?sel d))" for d using scales by (auto simp: scalesOk_def)
  have "netOf (map inputLeg (concat (map B days))) c = 0" for c
  proof -
    have "netOf (map inputLeg (concat (map B days))) c = (\<Sum>d\<leftarrow>days. - netOf (map (inputLeg \<circ> snd) (?sel d)) c)"
      unfolding netOf_concat map_map
      by (intro arg_cong [where f = sum_list] map_cong) (use clearingBridges_settle(4) [OF ok B] in simp_all)
    also have "\<dots> = - (\<Sum>d\<leftarrow>days. netOf (map (inputLeg \<circ> snd) (?sel d)) c)" by (induction days) simp_all
    also have "\<dots> = - netOf (map (inputLeg \<circ> snd) dated) c" using days by (subst netOf_split_keys) auto
    finally show ?thesis using bal by (simp add: balancedLegs_def)
  qed
  then show "balancedLegs (map inputLeg (concat (map B days)))" by (simp add: balancedLegs_def)
  have "mset (concat (map ?sel days)) = mset dated" using days by (intro mset_split_keys) auto
  then have "image_mset snd (mset (concat (map ?sel days))) = image_mset snd (mset dated)" by simp
  then show "mset (concat (map (\<lambda>d. map snd (?sel d)) days)) = mset (map snd dated)"
    by (simp add: map_concat mset_map [symmetric] o_def del: mset_map)
qed

lemma groupPostingsByDay_sound:
  assumes "groupPostingsByDay entry day roles clearing = Inr entries"
    and "length roles = length (je_Postings entry)" and "scalesOk (je_Postings entry)"
  shows "\<exists>bridges.
    mset (concat (map je_Postings entries)) = mset (map undated (je_Postings entry)) + mset bridges \<and>
    (\<forall>e\<in>set entries. balancedLegs (map inputLeg (je_Postings e))) \<and>
    balancedLegs (map inputLeg bridges) \<and>
    (\<forall>b\<in>set bridges. clearing = Inr (pi_AccountID b) \<and> pi_LineKey b = [] \<and> BigInt (pi_QuantityValue b) \<noteq> 0) \<and>
    (length entries = 1 \<longrightarrow> bridges = []) \<and>
    sorted_wrt (<) (map je_EntryDate entries) \<and> (\<forall>e\<in>set entries. scalesOk (je_Postings e))"
proof -
  obtain entry' dated where
    bal: "validatePostingsBalanced (je_Postings entry) = Inr ()"
    and ps: "map snd dated = map undated (je_Postings entry)"
    and last: "if length (remdups (map fst dated)) = 1
     then entries = [entry'\<lparr> je_EntryDate := hd (remdups (map fst dated)), je_Postings := map snd dated \<rparr>]
     else \<exists>k. clearing = Inr k \<and> mapR (datedEntry entry' dated k) (sort (remdups (map fst dated))) = Inr entries"
    using groupPostingsByDay_cases [OF assms(1,2)] by metis
  have b0: "balancedLegs (map inputLeg (je_Postings entry))"
    using bal validatePostingsBalanced_iff [OF assms(3)] by (auto split: if_splits)
  have b1: "balancedLegs (map inputLeg (map snd dated))" "scalesOk (map snd dated)"
    using b0 assms(3) by (simp_all add: ps o_def scalesOk_def) (simp add: undated_def)
  show ?thesis
  proof (cases "length (remdups (map fst dated)) = 1")
    case True
    then have "entries = [entry'\<lparr> je_EntryDate := hd (remdups (map fst dated)), je_Postings := map snd dated \<rparr>]"
      using last by simp
    then show ?thesis using b1 ps by (intro exI [of _ "[]"]) (simp add: balancedLegs_def)
  next
    case False
    define days where "days = sort (remdups (map fst dated))"
    obtain k where k: "clearing = Inr k" "mapR (datedEntry entry' dated k) days = Inr entries"
      using False last by (auto simp: days_def)
    obtain B where B: "map je_EntryDate entries = days"
      "map je_Postings entries = map (\<lambda>d. map snd (filter (\<lambda>dp. fst dp = d) dated) @ B d) days"
      "\<And>d. d \<in> set days \<Longrightarrow> clearingBridges (map snd (filter (\<lambda>dp. fst dp = d) dated)) k = Inr (B d)"
      using datedEntries [OF k(2)] by blast
    have d: "distinct days" "fst ` set dated \<subseteq> set days" "sorted_wrt (<) days"
      by (auto simp: days_def strict_sorted_iff)
    note cancel = bridges_cancel [OF b1(2,1) d(1,2) B(3)]
    have sel: "scalesOk (map snd (filter (\<lambda>dp. fst dp = x) dated))" for x using b1(2) by (auto simp: scalesOk_def)
    have "balancedLegs (map inputLeg (je_Postings e)) \<and> scalesOk (je_Postings e)" if "e \<in> set entries" for e
    proof -
      have "je_Postings e \<in> set (map je_Postings entries)" using that by simp
      then obtain x where "x \<in> set days" "je_Postings e = map snd (filter (\<lambda>dp. fst dp = x) dated) @ B x"
        unfolding B(2) by auto
      then show ?thesis using clearingBridges_settle(1,2) [OF sel B(3)] sel by simp
    qed
    moreover have "mset (concat (map je_Postings entries)) = mset (map undated (je_Postings entry)) + mset (concat (map B days))"
      using cancel(2) by (simp only: B(2) mset_concat_append ps)
    moreover have "\<forall>b\<in>set (concat (map B days)). clearing = Inr (pi_AccountID b) \<and> pi_LineKey b = [] \<and> BigInt (pi_QuantityValue b) \<noteq> 0"
      using clearingBridges_settle(3) [OF sel B(3)] k(1) by auto
    moreover have "length entries = length days" using B(1) by (metis length_map)
    then have "length entries \<noteq> 1" using False by (simp add: days_def)
    ultimately show ?thesis using cancel(1) B(1) d(3) by (intro exI [of _ "concat (map B days)"]) simp
  qed
qed

text \<open>
  C23. The posted-date rule never loses, adds or unbalances money. Whenever it splits an entry, the
  dated entries carry exactly the postings of the request and, besides them, only bridge postings on
  the clearing account; every dated entry balances in every commodity; the bridges cancel over the
  whole transaction, none of them is zero, and there are none when everything falls on one day; and the
  days are distinct and in calendar order.
\<close>

theorem posted_on_entries_balance:
  assumes "groupPostingsByDay entry day roles clearing = Inr entries"
    and "length roles = length (je_Postings entry)" and "scalesOk (je_Postings entry)"
  shows "\<exists>bridges.
    mset (concat (map je_Postings entries)) = mset (map undated (je_Postings entry)) + mset bridges \<and>
    (\<forall>e\<in>set entries. balancedLegs (map inputLeg (je_Postings e))) \<and>
    balancedLegs (map inputLeg bridges) \<and>
    (\<forall>b\<in>set bridges. clearing = Inr (pi_AccountID b) \<and> pi_LineKey b = [] \<and> BigInt (pi_QuantityValue b) \<noteq> 0) \<and>
    (length entries = 1 \<longrightarrow> bridges = []) \<and>
    sorted_wrt (<) (map je_EntryDate entries)"
  using groupPostingsByDay_sound [OF assms] by blast

section \<open>Which day a posting lands on\<close>

definition ownDay :: "string \<Rightarrow> PostingInput \<Rightarrow> string" where
  "ownDay day p = (if TrimSpace (pi_PostedOn p) = [] then day else TrimSpace (pi_PostedOn p))"

definition accountDaySet :: "string \<Rightarrow> PostingInput list \<Rightarrow> postingDayRole list \<Rightarrow> string set" where
  "accountDaySet day ps roles = {ownDay day (ps ! j) | j. j < length ps \<and> role_account (roles ! j)}"

text \<open>The one day the account postings share, or the entry's own date when they do not share one.\<close>

definition followDay :: "string \<Rightarrow> PostingInput list \<Rightarrow> postingDayRole list \<Rightarrow> string" where
  "followDay day ps roles = (if is_singleton (accountDaySet day ps roles) then the_elem (accountDaySet day ps roles) else day)"

definition landsOn :: "JournalEntryInput list \<Rightarrow> PostingInput \<Rightarrow> string \<Rightarrow> bool" where
  "landsOn entries p d \<longleftrightarrow> (\<exists>e\<in>set entries. je_EntryDate e = d \<and> undated p \<in> set (je_Postings e))"

lemma postingDay_own: "postingDay day p = Inr d \<Longrightarrow> d = ownDay day p"
  by (auto simp: postingDay_def ownDay_def Let_def cleanRequiredDate_Inr split: if_splits)

lemma remdups_singleton:
  "(case remdups xs of [d] \<Rightarrow> d | _ \<Rightarrow> day) = (if is_singleton (set xs) then the_elem (set xs) else day)"
proof -
  obtain ys where ys: "ys = remdups xs" by simp
  have "set ys = set xs" "distinct ys" by (simp_all add: ys)
  then show ?thesis unfolding ys [symmetric]
    by (auto simp: is_singleton_def split: list.splits) (metis distinct.simps(2) insert_iff list.set(2) singleton_iff)+
qed

lemma feeScan_accounts:
  "feeScan roles n accs fee0 = Inr (accs', fee') \<Longrightarrow> a \<in> set accs' \<Longrightarrow>
   a \<in> set accs \<or> (n \<le> a \<and> a < n + length roles \<and> role_account (roles ! (a - n)))"
proof (induction roles n accs fee0 rule: feeScan.induct)
  case (2 r roles n accs fee)
  then have "a \<in> set accs \<or> a = n \<and> role_account r \<or> (Suc n \<le> a \<and> a < Suc n + length roles \<and> role_account (roles ! (a - Suc n)))"
    by (auto split: if_splits)
  moreover have "Suc n \<le> a \<Longrightarrow> (r # roles) ! (a - n) = roles ! (a - Suc n)" by (simp add: nth_Cons' Suc_le_eq)
  ultimately show ?case by auto
qed simp

lemma feeScan_fee_some: "feeScan roles n accs (Some f) = Inr (accs', fee') \<Longrightarrow> fee' = Some f"
  by (induction roles arbitrary: n accs) (auto split: if_splits)

lemma feeScan_fee:
  "feeScan roles n accs None = Inr (accs', Some f) \<Longrightarrow> n \<le> f \<and> f < n + length roles \<and> \<not> role_account (roles ! (f - n))"
proof (induction roles arbitrary: n accs)
  case (Cons r roles)
  then have "f = n \<and> \<not> role_account r \<or> (Suc n \<le> f \<and> f < Suc n + length roles \<and> \<not> role_account (roles ! (f - Suc n)))"
    using Cons.IH [of "Suc n"] by (auto split: if_splits dest: feeScan_fee_some)
  moreover have "Suc n \<le> f \<Longrightarrow> (r # roles) ! (f - n) = roles ! (f - Suc n)" by (simp add: nth_Cons' Suc_le_eq)
  ultimately show ?case by auto
qed simp

lemma feeScan_unique:
  "feeScan roles n accs fee0 = Inr (accs', fee') \<Longrightarrow> i < length roles \<Longrightarrow> \<not> role_account (roles ! i) \<Longrightarrow>
   \<not> role_system (roles ! i) \<Longrightarrow> fee' = Some (n + i)"
proof (induction roles arbitrary: n accs fee0 i)
  case (Cons r roles)
  show ?case
  proof (cases i)
    case 0
    then show ?thesis using Cons.prems by (auto split: if_splits dest: feeScan_fee_some)
  next
    case (Suc k)
    then show ?thesis using Cons.prems Cons.IH [of "Suc n" _ _ k] by (auto split: if_splits)
  qed
qed simp

lemma dated_lands:
  assumes "if length (remdups (map fst dated)) = 1
     then entries = [entry'\<lparr> je_EntryDate := hd (remdups (map fst dated)), je_Postings := map snd dated \<rparr>]
     else \<exists>k. clearing = Inr k \<and> mapR (datedEntry entry' dated k) (sort (remdups (map fst dated))) = Inr entries"
    and "(d, undated p) \<in> set dated"
  shows "landsOn entries p d"
proof (cases "length (remdups (map fst dated)) = 1")
  case True
  then obtain x where x: "remdups (map fst dated) = [x]" by (metis One_nat_def length_0_conv length_Suc_conv)
  then have "set (map fst dated) = {x}" by (metis list.set(1) list.set(2) set_remdups)
  then have "d = x" using assms(2) by force
  then show ?thesis using True x assms by (force simp: landsOn_def)
next
  case False
  define days where "days = sort (remdups (map fst dated))"
  obtain k where k: "clearing = Inr k" "mapR (datedEntry entry' dated k) days = Inr entries"
    using False assms(1) by (auto simp: days_def)
  have "d \<in> set days" using assms(2) by (force simp: days_def)
  then obtain e where "e \<in> set entries" "datedEntry entry' dated k d = Inr e" using mapR_Inr_all [OF k(2)] by blast
  then show ?thesis using assms(2) by (force simp: landsOn_def datedEntry_def Let_def result_simps)
qed

lemma landing_of_index:
  assumes dates: "mapR (postingDay day) ps = Inr dates"
    and days: "accountDays = map (\<lambda>(posting, r, date). (date, pi_CommodityID posting))
       (filter (\<lambda>(posting, r, date). role_account r) (zip ps (zip roles dates)))"
    and follow: "followDate = (case remdups (map fst accountDays) of [d] \<Rightarrow> d | _ \<Rightarrow> day)"
    and dated: "mapR (landingDay followDate accountDays) (zip ps (zip roles dates)) = Inr dated"
    and len: "length roles = length ps" and i: "i < length ps"
  shows "((if role_account (roles ! i) \<or> TrimSpace (pi_PostedOn (ps ! i)) \<noteq> [] then ownDay day (ps ! i)
           else followDay day ps roles), undated (ps ! i)) \<in> set dated"
    and "\<not> role_account (roles ! i) \<Longrightarrow> TrimSpace (pi_PostedOn (ps ! i)) \<noteq> [] \<Longrightarrow>
      ownDay day (ps ! i) \<in> accountDaySet day ps roles"
proof -
  have l: "length dates = length ps" using mapR_length [OF dates] .
  have own: "dates ! j = ownDay day (ps ! j)" if "j < length ps" for j
    using dates that unfolding mapR_Inr_iff by (auto simp: list_all2_conv_all_nth intro: postingDay_own)
  have row: "zip ps (zip roles dates) ! j = (ps ! j, roles ! j, ownDay day (ps ! j))" if "j < length ps" for j
    using that l len own by simp
  have rows: "set (zip ps (zip roles dates)) = (\<lambda>j. (ps ! j, roles ! j, ownDay day (ps ! j))) ` {..<length ps}"
  proof -
    have "zip ps (zip roles dates) = map (\<lambda>j. (ps ! j, roles ! j, ownDay day (ps ! j))) [0..<length ps]"
      using row l len by (intro nth_equalityI) simp_all
    then show ?thesis by (simp add: lessThan_atLeast0)
  qed
  have s: "fst ` set accountDays = accountDaySet day ps roles"
  proof -
    have "fst ` set accountDays = ownDay day ` nth ps ` {j. j < length ps \<and> role_account (roles ! j)}"
      unfolding days set_map set_filter rows by (force simp: image_iff)
    then show ?thesis by (auto simp: accountDaySet_def)
  qed
  have f: "followDate = followDay day ps roles"
    unfolding follow remdups_singleton using s by (simp add: followDay_def)
  have li: "landingDay followDate accountDays (ps ! i, roles ! i, ownDay day (ps ! i)) = Inr (dated ! i)" "i < length dated"
    using dated i l len row [OF i] unfolding mapR_Inr_iff by (auto simp: list_all2_conv_all_nth)
  then have "dated ! i = (if role_account (roles ! i) \<or> TrimSpace (pi_PostedOn (ps ! i)) \<noteq> [] then ownDay day (ps ! i)
           else followDay day ps roles, undated (ps ! i))"
    using f by (auto simp: landingDay_def undated_def Let_def split: if_splits)
  then show "((if role_account (roles ! i) \<or> TrimSpace (pi_PostedOn (ps ! i)) \<noteq> [] then ownDay day (ps ! i)
           else followDay day ps roles), undated (ps ! i)) \<in> set dated" using li(2) by (metis nth_mem)
  show "\<not> role_account (roles ! i) \<Longrightarrow> TrimSpace (pi_PostedOn (ps ! i)) \<noteq> [] \<Longrightarrow>
      ownDay day (ps ! i) \<in> accountDaySet day ps roles"
    using li(1) s by (auto simp: landingDay_def Let_def split: if_splits)
qed

lemma fee_posting_day:
  assumes "feeOnItsPayersDay entry day roles = Inr entry'" and "length roles = length (je_Postings entry)"
    and "TrimSpace day = day"
  obtains fee payer where "je_Postings entry' = (je_Postings entry)[fee := (je_Postings entry ! fee)\<lparr> pi_PostedOn := ownDay day (je_Postings entry ! payer) \<rparr>]"
    "payer < length roles" "role_account (roles ! payer)" "\<not> role_account (roles ! fee)" "fee < length roles"
    "\<forall>i<length roles. \<not> role_account (roles ! i) \<and> \<not> role_system (roles ! i) \<longrightarrow> i = fee"
    "Coefficient_Sign (pi_QuantityValue (je_Postings entry ! payer)) =
       (if TrimSpace (je_FeePaidBy entry) = conversionSending then - 1 else 1)"
proof -
  obtain a b fee sending receiving where f: "feeForPayer entry day fee sending receiving = Inr entry'"
    "feeScan roles 0 [] None = Inr ([a, b], Some fee)" "(sending, receiving) \<in> {(a, b), (b, a)}"
    using assms(1) by (rule feeOnItsPayersDay_Inr)
  define payer where "payer = (if TrimSpace (je_FeePaidBy entry) = conversionSending then sending else receiving)"
  have "payer \<in> set [a, b]" using f(3) by (auto simp: payer_def)
  then have "payer < length roles \<and> role_account (roles ! payer)" using feeScan_accounts [OF f(2)] by fastforce
  moreover have "fee < length roles \<and> \<not> role_account (roles ! fee)" using feeScan_fee [OF f(2)] by simp
  moreover have "\<forall>i<length roles. \<not> role_account (roles ! i) \<and> \<not> role_system (roles ! i) \<longrightarrow> i = fee" using feeScan_unique [OF f(2)] by fastforce
  moreover have "je_Postings entry' = (je_Postings entry)[fee := (je_Postings entry ! fee)\<lparr> pi_PostedOn := ownDay day (je_Postings entry ! payer) \<rparr>]"
    using f(1) by (auto simp: feeForPayer_def Let_def payer_def ownDay_def split: if_splits)
  moreover have "Coefficient_Sign (pi_QuantityValue (je_Postings entry ! payer)) = (if TrimSpace (je_FeePaidBy entry) = conversionSending then - 1 else 1)"
    using f(1) by (auto simp: feeForPayer_def Let_def payer_def Coefficient_Sign_def sgn_if split: if_splits)
  ultimately show thesis using that by blast
qed

text \<open>
  C24. Where the posted-date rule puts each posting. An account posting lands on its own day: its
  posted date, or the entry's date when it names none. With no fee payer named, any other posting that
  names a day lands there and that day is the day of some account posting, and one that names none
  follows the account postings when they share one day and stays on the entry's date otherwise. With a
  fee payer named, the one posting that is neither an account's nor the system's lands on the day of an
  account posting that pays: the one with the negative amount for the sending side, with the positive
  amount for the receiving side.
\<close>

theorem posted_on_days:
  assumes "groupPostingsByDay entry day roles clearing = Inr entries"
    and "length roles = length (je_Postings entry)" and "i < length (je_Postings entry)"
    and "TrimSpace day = day" and "day \<noteq> []"
  shows "(role_account (roles ! i) \<longrightarrow> landsOn entries (je_Postings entry ! i) (ownDay day (je_Postings entry ! i))) \<and>
    (\<not> role_account (roles ! i) \<and> TrimSpace (je_FeePaidBy entry) = [] \<longrightarrow>
       (if TrimSpace (pi_PostedOn (je_Postings entry ! i)) \<noteq> []
        then landsOn entries (je_Postings entry ! i) (ownDay day (je_Postings entry ! i)) \<and>
          ownDay day (je_Postings entry ! i) \<in> accountDaySet day (je_Postings entry) roles
        else landsOn entries (je_Postings entry ! i) (followDay day (je_Postings entry) roles))) \<and>
    (\<not> role_account (roles ! i) \<and> \<not> role_system (roles ! i) \<and> TrimSpace (je_FeePaidBy entry) \<noteq> [] \<longrightarrow>
       (\<exists>payer<length roles. role_account (roles ! payer) \<and>
          Coefficient_Sign (pi_QuantityValue (je_Postings entry ! payer)) =
            (if TrimSpace (je_FeePaidBy entry) = conversionSending then - 1 else 1) \<and>
          landsOn entries (je_Postings entry ! i) (ownDay day (je_Postings entry ! payer))))"
proof -
  obtain entry' dates accountDays followDate dated where
    e': "map undated (je_Postings entry') = map undated (je_Postings entry)"
    and fee: "if TrimSpace (je_FeePaidBy entry) = [] then entry' = entry else feeOnItsPayersDay entry day roles = Inr entry'"
    and steps: "mapR (postingDay day) (je_Postings entry') = Inr dates"
    "accountDays = map (\<lambda>(posting, r, date). (date, pi_CommodityID posting))
       (filter (\<lambda>(posting, r, date). role_account r) (zip (je_Postings entry') (zip roles dates)))"
    "followDate = (case remdups (map fst accountDays) of [d] \<Rightarrow> d | _ \<Rightarrow> day)"
    "mapR (landingDay followDate accountDays) (zip (je_Postings entry') (zip roles dates)) = Inr dated"
    and last: "if length (remdups (map fst dated)) = 1
     then entries = [entry'\<lparr> je_EntryDate := hd (remdups (map fst dated)), je_Postings := map snd dated \<rparr>]
     else \<exists>k. clearing = Inr k \<and> mapR (datedEntry entry' dated k) (sort (remdups (map fst dated))) = Inr entries"
    using groupPostingsByDay_cases [OF assms(1,2)] by metis
  let ?ps = "je_Postings entry" and ?ps' = "je_Postings entry'"
  have len: "length roles = length ?ps'" "i < length ?ps'" using e' assms(2,3) by (metis length_map)+
  have und: "undated (?ps' ! i) = undated (?ps ! i)" using e' assms(3) len(2) by (metis nth_map)
  note land = landing_of_index [OF steps len]
  have l: "landsOn entries (?ps ! i) (if role_account (roles ! i) \<or> TrimSpace (pi_PostedOn (?ps' ! i)) \<noteq> []
      then ownDay day (?ps' ! i) else followDay day ?ps' roles)"
    using land(1) und by (intro dated_lands [OF last]) simp
  show ?thesis
  proof (cases "TrimSpace (je_FeePaidBy entry) = []")
    case True
    then show ?thesis using fee l land(2) by auto
  next
    case False
    then have "feeOnItsPayersDay entry day roles = Inr entry'" using fee by simp
    then obtain f payer where f: "?ps' = ?ps[f := (?ps ! f)\<lparr> pi_PostedOn := ownDay day (?ps ! payer) \<rparr>]"
      "payer < length roles" "role_account (roles ! payer)" "\<not> role_account (roles ! f)" "f < length roles"
      "\<forall>i<length roles. \<not> role_account (roles ! i) \<and> \<not> role_system (roles ! i) \<longrightarrow> i = f"
      "Coefficient_Sign (pi_QuantityValue (?ps ! payer)) = (if TrimSpace (je_FeePaidBy entry) = conversionSending then - 1 else 1)"
      by (rule fee_posting_day [OF _ assms(2,4)])
    have "TrimSpace (ownDay day (?ps ! payer)) = ownDay day (?ps ! payer)" "ownDay day (?ps ! payer) \<noteq> []"
      using assms(4,5) by (auto simp: ownDay_def)
    then have "i = f \<Longrightarrow> landsOn entries (?ps ! i) (ownDay day (?ps ! payer))"
      using l f(1) assms(2,3) by (simp add: ownDay_def)
    moreover have "role_account (roles ! i) \<Longrightarrow> landsOn entries (?ps ! i) (ownDay day (?ps ! i))"
    proof -
      assume "role_account (roles ! i)"
      moreover from this f(4) have "?ps' ! i = ?ps ! i" unfolding f(1) by (cases "i = f") simp_all
      ultimately show ?thesis using l by simp
    qed
    moreover have "\<not> role_account (roles ! i) \<Longrightarrow> \<not> role_system (roles ! i) \<Longrightarrow> i = f" using f(6) assms(2,3) by simp
    ultimately show ?thesis using False f(2,3,7) by blast
  qed
qed

section \<open>A card payment that clears later\<close>

text \<open>
  A transfer of 100.00 from account 1 to account 2 that reaches the second account two days later,
  with a fee of 1.50 paid by the sending account.
\<close>

definition leg :: "int \<Rightarrow> int \<Rightarrow> string \<Rightarrow> PostingInput" where
  "leg account v day = emptyPosting\<lparr> pi_AccountID := account, pi_QuantityValue := New v, pi_QuantityScale := 2,
     pi_CommodityID := 7, pi_PostedOn := day \<rparr>"

definition slowTransfer :: JournalEntryInput where
  "slowTransfer = \<lparr> je_EntryDate = ''2026-06-01'', je_EntryKind = ''transfer_leg'', je_Memo = [], je_MetadataJSON = [],
     je_ConversionSide = [], je_FeePaidBy = ''sending'',
     je_Postings = [leg 1 (- 10150) [], leg 2 10000 ''2026-06-03'', leg 3 150 []] \<rparr>"

definition slowRoles :: "postingDayRole list" where
  "slowRoles = [\<lparr> role_account = True, role_system = False \<rparr>, \<lparr> role_account = True, role_system = False \<rparr>,
     \<lparr> role_account = False, role_system = False \<rparr>]"

definition slowEntries :: "JournalEntryInput list" where
  "slowEntries = [
     slowTransfer\<lparr> je_EntryDate := ''2026-06-01'',
       je_Postings := [leg 1 (- 10150) [], leg 3 150 [], leg 9 10000 []] \<rparr>,
     slowTransfer\<lparr> je_EntryDate := ''2026-06-03'', je_Postings := [leg 2 10000 [], leg 9 (- 10000) []] \<rparr>]"

lemma slow_days:
  "cleanRequiredDate ''2026-06-03'' f = Inr ''2026-06-03''" "TrimSpace ''2026-06-03'' = ''2026-06-03''"
  "cleanRequiredDate ''2026-06-01'' f = Inr ''2026-06-01''" "TrimSpace ''2026-06-01'' = ''2026-06-01''"
  using cleanRequiredDate_literal [of 2026 6 3 "''2026-06-03''"] cleanRequiredDate_literal [of 2026 6 1 "''2026-06-01''"]
  by (simp_all add: date_literal)

lemmas slow_defs = slowTransfer_def slowRoles_def slowEntries_def leg_def emptyPosting_def

lemmas sum_eval = sumPostingsByCommodity_def addToSum_def ScaledInt_AddCoefficient_def ScaledInt_Add_def ScaledInt_Align_def
  NewScaledInt_def Pow10_def MaxPow10Scale_def ScaledInt_Sign_def negatedSum_def ScaledInt_Coefficient_def
  ScaledInt_Negated_def FromBig_Some New_def

lemma slow_paidBy: "TrimSpace ''sending'' = ''sending''"
  by (simp add: text_literal)

lemma slow_balanced: "validatePostingsBalanced (je_Postings slowTransfer) = Inr ()"
  by (subst validatePostingsBalanced_iff)
    (simp_all add: slow_defs scaleOk_def MaxPow10Scale_def balancedLegs_def inputLeg_def decVal_def)

lemma slow_fee:
  "feeOnItsPayersDay slowTransfer ''2026-06-01'' slowRoles = Inr (slowTransfer\<lparr> je_Postings :=
     [leg 1 (- 10150) [], leg 2 10000 ''2026-06-03'', leg 3 150 ''2026-06-01''] \<rparr>)"
  by (simp add: feeOnItsPayersDay_def feeForPayer_def slow_defs slow_paidBy conversionSending_def conversionReceiving_def
    Coefficient_Sign_def slow_days Let_def)

lemma slowTransfer_grouped: "groupPostingsByDay slowTransfer ''2026-06-01'' slowRoles (Inr 9) = Inr slowEntries"
proof -
  have "sort [''2026-06-03'', ''2026-06-01''] = [''2026-06-01'', ''2026-06-03'']" by (simp add: less_char_def)
  then show ?thesis
    by (simp add: groupPostingsByDay_def slow_balanced slow_fee)
      (simp add: slow_defs slow_paidBy slow_days postingDay_def landingDay_def Let_def datedEntry_def clearingBridges_def sum_eval)
qed

lemma slowTransfer_scales: "scalesOk (je_Postings slowTransfer)"
  by (simp add: slow_defs scaleOk_def MaxPow10Scale_def)

lemma slow_facts:
  "length slowRoles = length (je_Postings slowTransfer)" "2 < length (je_Postings slowTransfer)"
  "TrimSpace ''2026-06-01'' = ''2026-06-01''" "''2026-06-01'' \<noteq> []"
  by (simp_all add: slow_defs slow_days)

theorem posted_on_entries_balance_witness:
  "\<exists>bridges.
    mset (concat (map je_Postings slowEntries)) = mset (map undated (je_Postings slowTransfer)) + mset bridges \<and>
    (\<forall>e\<in>set slowEntries. balancedLegs (map inputLeg (je_Postings e))) \<and>
    balancedLegs (map inputLeg bridges) \<and>
    (\<forall>b\<in>set bridges. (Inr 9 :: (ledger_error, int) result) = Inr (pi_AccountID b) \<and> pi_LineKey b = [] \<and> BigInt (pi_QuantityValue b) \<noteq> 0) \<and>
    (length slowEntries = 1 \<longrightarrow> bridges = []) \<and>
    sorted_wrt (<) (map je_EntryDate slowEntries)"
  by (rule posted_on_entries_balance [OF slowTransfer_grouped slow_facts(1) slowTransfer_scales])

theorem posted_on_days_witness:
  "\<exists>payer<length slowRoles. role_account (slowRoles ! payer) \<and>
     Coefficient_Sign (pi_QuantityValue (je_Postings slowTransfer ! payer)) = - 1 \<and>
     landsOn slowEntries (je_Postings slowTransfer ! 2) (ownDay ''2026-06-01'' (je_Postings slowTransfer ! payer))"
proof -
  have "\<not> role_account (slowRoles ! 2) \<and> \<not> role_system (slowRoles ! 2)" "TrimSpace (je_FeePaidBy slowTransfer) = conversionSending"
    "conversionSending \<noteq> []"
    by (simp_all add: slow_defs slow_paidBy conversionSending_def)
  then show ?thesis using posted_on_days [OF slowTransfer_grouped slow_facts] by simp
qed


end
