(* ===== verification/Exchange.thy ===== *)
theory Exchange
  imports Posted_On
begin

text \<open>
  Currency exchanges, transfer shapes and journal restatements: \<^verbatim>\<open>app/transactions_exchange.go\<close> (the
  rule without its account lookups), \<^verbatim>\<open>app/transactions_transfer_shape.go\<close> and
  \<^verbatim>\<open>app/transactions_restatement.go\<close>. A shape or restatement is returned only when rebuilding it reproduces
  the stored journal. A failed rebuild yields none; a panic of the exact package stays a panic.
\<close>

section \<open>Definitions: the exchange rule\<close>

definition exchangeEntryKind :: string where "exchangeEntryKind = ''exchange''"

datatype exchangeLegKind = noExchangeLeg | exchangeAccountLeg | exchangeFeeLeg

fun legScan :: "exchangeLegKind list \<Rightarrow> nat \<Rightarrow> nat list \<Rightarrow> nat option \<Rightarrow> (ledger_error, nat list \<times> nat option) result" where
  "legScan [] index accounts fee = Inr (accounts, fee)"
| "legScan (k # kinds) index accounts fee = (case k of
       exchangeAccountLeg \<Rightarrow> legScan kinds (Suc index) (accounts @ [index]) fee
     | exchangeFeeLeg \<Rightarrow> if fee \<noteq> None then Inl ExchangeLegsInvalid else legScan kinds (Suc index) accounts (Some index)
     | noExchangeLeg \<Rightarrow> legScan kinds (Suc index) accounts fee)"

definition exchangeDay :: "JournalEntryInput \<Rightarrow> string \<Rightarrow> nat \<Rightarrow> string" where
  "exchangeDay entry entryDate index = (let postedOn = TrimSpace (pi_PostedOn (je_Postings entry ! index)) in
     if postedOn \<noteq> [] then postedOn else entryDate)"

text \<open>The fee block: the postings with the fee on its payer's day, and the recorded payer.\<close>

definition exchangeFee ::
  "JournalEntryInput \<Rightarrow> string \<Rightarrow> nat \<Rightarrow> nat \<Rightarrow> nat option \<Rightarrow> (ledger_error, PostingInput list \<times> string) result" where
  "exchangeFee entry entryDate sending receiving fee = (case fee of
       None \<Rightarrow> if TrimSpace (je_FeePaidBy entry) \<noteq> [] then Inl FeeSecond else Inr (je_Postings entry, je_FeePaidBy entry)
     | Some f \<Rightarrow>
         (let postings = je_Postings entry; feePosting = postings ! f;
              payers = filter (\<lambda>account. pi_CommodityID (postings ! account) = pi_CommodityID feePosting) [sending, receiving]
          in if payers = [] then Inl ExchangeFeeCurrency
             else if Coefficient_Sign (pi_QuantityValue feePosting) \<le> 0 then Inl ExchangeFeeNotPositive
             else let payer = last payers; postedOn = TrimSpace (pi_PostedOn feePosting); day = exchangeDay entry entryDate payer in
               if postedOn \<noteq> [] \<and> postedOn \<noteq> day then Inl ExchangeFeeDay
               else let payerSide = (if payer = receiving then conversionReceiving else conversionSending);
                        paidBy = TrimSpace (je_FeePaidBy entry) in
                 if paidBy \<noteq> [] \<and> paidBy \<noteq> payerSide then Inl ExchangeFeeCurrency
                 else Inr (postings[f := feePosting\<lparr> pi_PostedOn := day \<rparr>], payerSide)))"

definition tradingLeg :: "(int \<rightharpoonup> ScaledInt) \<Rightarrow> int \<Rightarrow> string \<Rightarrow> int \<Rightarrow> (ledger_error, PostingInput) result" where
  "tradingLeg totals tradingAccountID day c = bindR (negatedSum (the (totals c))) (\<lambda>v.
     Inr (emptyPosting\<lparr> pi_AccountID := tradingAccountID, pi_CommodityID := c, pi_QuantityValue := v,
       pi_QuantityScale := si_scale (the (totals c)), pi_PostedOn := day \<rparr>))"

text \<open>The rest of the rule, once the sending and receiving account postings are told apart.\<close>

definition exchangeBuild ::
  "JournalEntryInput \<Rightarrow> string \<Rightarrow> nat list \<Rightarrow> nat option \<Rightarrow> nat \<Rightarrow> nat \<Rightarrow> int \<Rightarrow> (ledger_error, JournalEntryInput) result" where
  "exchangeBuild entry entryDate accounts fee sending receiving tradingAccountID =
     bindR (exchangeFee entry entryDate sending receiving fee) (\<lambda>(postings, feePaidBy).
     bindR (sumPostingsByCommodity (je_Postings entry)) (\<lambda>(totals, commodities).
     bindR (ensure (\<forall>a\<in>set accounts. ScaledInt_Sign (the (totals (pi_CommodityID (je_Postings entry ! a))))
                       = Coefficient_Sign (pi_QuantityValue (je_Postings entry ! a))) ExchangeFeeExceeds) (\<lambda>_.
     let side0 = TrimSpace (je_ConversionSide entry) in
     bindR (ensure (side0 = [] \<or> side0 = conversionSending \<or> side0 = conversionReceiving) ConversionSideInvalid) (\<lambda>_.
     let (converting, side) = (if side0 = conversionReceiving then (receiving, conversionReceiving) else (sending, conversionSending)) in
     bindR (mapR (tradingLeg totals tradingAccountID (exchangeDay entry entryDate converting)) commodities) (\<lambda>trading.
     Inr (entry\<lparr> je_EntryKind := exchangeEntryKind, je_ConversionSide := side, je_FeePaidBy := feePaidBy,
       je_Postings := postings @ trading \<rparr>))))))"

definition exchangeLegs ::
  "JournalEntryInput \<Rightarrow> string \<Rightarrow> exchangeLegKind list \<Rightarrow> int \<Rightarrow> (ledger_error, JournalEntryInput) result" where
  "exchangeLegs entry entryDate kinds tradingAccountID = bindR (legScan kinds 0 [] None) (\<lambda>(accounts, fee).
     case accounts of
       [a, b] \<Rightarrow>
         (let first = je_Postings entry ! a; second = je_Postings entry ! b in
          if pi_AccountID first = pi_AccountID second then Inl ExchangeSameAccount
          else if pi_CommodityID first = pi_CommodityID second then Inl ExchangeSameCurrency
          else if Coefficient_Sign (pi_QuantityValue first) * Coefficient_Sign (pi_QuantityValue second) \<ge> 0 then Inl ExchangeSigns
          else if Coefficient_Sign (pi_QuantityValue first) > 0
          then exchangeBuild entry entryDate accounts fee b a tradingAccountID
          else exchangeBuild entry entryDate accounts fee a b tradingAccountID)
     | _ \<Rightarrow> Inl ExchangeLegsInvalid)"

definition isExchangeTradingLeg :: "JournalEntry \<Rightarrow> Posting \<Rightarrow> bool" where
  "isExchangeTradingLeg entry posting \<longleftrightarrow>
     e_EntryKind entry = exchangeEntryKind \<and> p_AccountSystemRole posting = Some ''commodity_trading''"

section \<open>Definitions: restating a stored journal\<close>

definition rebuildRestatement ::
  "JournalEntryInput \<Rightarrow> string \<Rightarrow> postingDayRole list \<Rightarrow> exchangeLegKind list \<Rightarrow> int \<Rightarrow> int
   \<Rightarrow> (ledger_error, JournalEntryInput list) result" where
  "rebuildRestatement entry0 transactionDate roles0 kinds trading clearing =
     bindR (if je_EntryKind entry0 = exchangeEntryKind then
              (if trading = 0 then Inl RestatementNoTrading
               else bindR (exchangeLegs entry0 transactionDate kinds trading) (\<lambda>built.
                 Inr (built, roles0 @ map (\<lambda>_. \<lparr> role_account = False, role_system = True \<rparr>) (drop (length roles0) (je_Postings built)))))
            else Inr (entry0, roles0)) (\<lambda>(entry, roles).
       groupPostingsByDay entry transactionDate roles (if clearing = 0 then Inl RestatementNoBridge else Inr clearing))"

definition postingKey :: "int \<Rightarrow> int \<Rightarrow> Coefficient \<Rightarrow> int \<Rightarrow> (ledger_error, string) result" where
  "postingKey accountID commodityID v scale =
     bindR (mapErr Panicked (ScaledIntFromCoefficient v scale)) (\<lambda>s.
       Inr (intString accountID @ ''|'' @ intString commodityID @ ''|'' @ ScaledInt_String (ScaledInt_Normalized s)))"

text \<open>The keys of a journal with the day of each, in the order the maps collect them.\<close>

definition storedKeys :: "JournalEntry list \<Rightarrow> (ledger_error, (string \<times> string) list) result" where
  "storedKeys stored = mapR (\<lambda>(day, p). bindR (postingKey (p_AccountID p) (p_CommodityID p) (p_QuantityValue p) (p_QuantityScale p))
       (\<lambda>k. Inr (day, k))) (concat (map (\<lambda>entry. map (Pair (e_EntryDate entry)) (e_Postings entry)) stored))"

definition entryKeys :: "JournalEntryInput \<Rightarrow> (ledger_error, (string \<times> string) list) result" where
  "entryKeys entry = mapR (\<lambda>p. bindR (postingKey (pi_AccountID p) (pi_CommodityID p) (pi_QuantityValue p) (pi_QuantityScale p))
       (\<lambda>k. Inr (je_EntryDate entry, k))) (je_Postings entry)"

fun rebuiltKeys :: "string \<Rightarrow> JournalEntryInput list \<Rightarrow> (ledger_error, (string \<times> string) list option) result" where
  "rebuiltKeys kind [] = Inr (Some [])"
| "rebuiltKeys kind (entry # rebuilt) = (
     if je_EntryKind entry \<noteq> kind then Inr None
     else bindR (entryKeys entry) (\<lambda>ks. bindR (rebuiltKeys kind rebuilt) (\<lambda>rest. Inr (map_option ((@) ks) rest))))"

definition keysOn :: "string \<Rightarrow> (string \<times> string) list \<Rightarrow> string list" where
  "keysOn day ks = map snd (filter (\<lambda>k. fst k = day) ks)"

definition sameJournal :: "JournalEntry list \<Rightarrow> JournalEntryInput list \<Rightarrow> (ledger_error, bool) result" where
  "sameJournal stored rebuilt = (
     if length stored \<noteq> length rebuilt then Inr False
     else bindR (storedKeys stored) (\<lambda>sk.
       bindR (rebuiltKeys (e_EntryKind (hd stored)) rebuilt) (\<lambda>rk0. case rk0 of
         None \<Rightarrow> Inr False
       | Some rk \<Rightarrow>
         (let storedDays = remdups (map fst sk); rebuiltDays = remdups (map fst rk) in
          if length storedDays \<noteq> length rebuiltDays then Inr False
          else Inr (\<forall>day\<in>set storedDays. length (keysOn day sk) = length (keysOn day rk) \<and>
                     sort (keysOn day sk) = sort (keysOn day rk))))))"

definition emptyJSON :: "string \<Rightarrow> bool" where
  "emptyJSON v = (let trimmed = TrimSpace v in trimmed = [] \<or> trimmed = ''{}'' \<or> trimmed = ''null'')"

record located =
  at_date :: string
  at_posting :: Posting

definition isRestatedAccountPosting :: "Posting \<Rightarrow> bool" where
  "isRestatedAccountPosting posting \<longleftrightarrow>
     p_AccountSystemRole posting = None \<and> (p_AccountClass posting = ''asset'' \<or> p_AccountClass posting = ''liability'')"

text \<open>A rebuild that fails yields no candidate; one that succeeds is compared with the stored journal.\<close>

definition reproduces :: "JournalEntry list \<Rightarrow> (ledger_error, JournalEntryInput list) result \<Rightarrow> (ledger_error, bool) result" where
  "reproduces stored attempt = (case attempt of
       Inl (Panicked e) \<Rightarrow> Inl (Panicked e)
     | Inl _ \<Rightarrow> Inr False
     | Inr rebuilt \<Rightarrow> sameJournal stored rebuilt)"

section \<open>Definitions: transfer shapes\<close>

record TransferShapeSide =
  sd_AccountID :: int
  sd_CommodityID :: int
  sd_QuantityValue :: Coefficient
  sd_QuantityScale :: int
  sd_PostedOn :: string
  sd_LineKey :: string
  sd_Memo :: string

record TransferShapeFee =
  fe_AccountID :: int
  fe_CommodityID :: int
  fe_QuantityValue :: Coefficient
  fe_QuantityScale :: int
  fe_PaidBy :: string
  fe_LineKey :: string
  fe_Memo :: string

record TransferShape =
  sh_Sending :: TransferShapeSide
  sh_Receiving :: TransferShapeSide
  sh_Fee :: "TransferShapeFee option"
  sh_ConversionSide :: string
  sh_EntryMemo :: string
  sh_EntryKind :: string

definition sideOf :: "located \<Rightarrow> TransferShapeSide" where
  "sideOf loc = \<lparr> sd_AccountID = p_AccountID (at_posting loc), sd_CommodityID = p_CommodityID (at_posting loc),
     sd_QuantityValue = p_QuantityValue (at_posting loc), sd_QuantityScale = p_QuantityScale (at_posting loc),
     sd_PostedOn = at_date loc, sd_LineKey = p_LineKey (at_posting loc), sd_Memo = p_Memo (at_posting loc) \<rparr>"

definition sidePosting :: "TransferShapeSide \<Rightarrow> PostingInput" where
  "sidePosting side = emptyPosting\<lparr> pi_LineKey := sd_LineKey side, pi_AccountID := sd_AccountID side,
     pi_CommodityID := sd_CommodityID side, pi_QuantityValue := sd_QuantityValue side,
     pi_QuantityScale := sd_QuantityScale side, pi_PostedOn := sd_PostedOn side, pi_Memo := sd_Memo side \<rparr>"

definition shape_entry :: "TransferShape \<Rightarrow> string \<Rightarrow> JournalEntryInput \<times> postingDayRole list \<times> exchangeLegKind list" where
  "shape_entry shape transactionDate = (
     let account = \<lparr> role_account = True, role_system = False \<rparr>;
         base = [sidePosting (sh_Sending shape), sidePosting (sh_Receiving shape)];
         (postings, roles, kinds, feePaidBy) = (case sh_Fee shape of
            None \<Rightarrow> (base, [account, account], [exchangeAccountLeg, exchangeAccountLeg], [])
          | Some fee \<Rightarrow>
              (let payerDay = (if fe_PaidBy fee = conversionReceiving then sd_PostedOn (sh_Receiving shape) else sd_PostedOn (sh_Sending shape))
               in (base @ [emptyPosting\<lparr> pi_LineKey := fe_LineKey fee, pi_AccountID := fe_AccountID fee,
                     pi_CommodityID := fe_CommodityID fee, pi_QuantityValue := fe_QuantityValue fee,
                     pi_QuantityScale := fe_QuantityScale fee, pi_PostedOn := payerDay, pi_Memo := fe_Memo fee \<rparr>],
                   [account, account, \<lparr> role_account = False, role_system = False \<rparr>],
                   [exchangeAccountLeg, exchangeAccountLeg, exchangeFeeLeg], fe_PaidBy fee)))
     in (\<lparr> je_EntryDate = transactionDate,
           je_EntryKind = (if sh_ConversionSide shape \<noteq> [] then exchangeEntryKind else sh_EntryKind shape),
           je_Memo = sh_EntryMemo shape, je_MetadataJSON = [], je_ConversionSide = sh_ConversionSide shape,
           je_FeePaidBy = feePaidBy, je_Postings = postings \<rparr>, roles, kinds))"

definition shape_input :: "TransferShape \<Rightarrow> TransactionInput \<Rightarrow> TransactionInput" where
  "shape_input shape base = base\<lparr> ti_JournalEntries := [fst (shape_entry shape (ti_TransactionDate base))] \<rparr>"

definition shape_rebuild :: "TransferShape \<Rightarrow> string \<Rightarrow> int \<Rightarrow> int \<Rightarrow> (ledger_error, JournalEntryInput list) result" where
  "shape_rebuild shape transactionDate trading clearing = (case shape_entry shape transactionDate of
     (entry, roles, kinds) \<Rightarrow> rebuildRestatement entry transactionDate roles kinds trading clearing)"

text \<open>
  The loop of \<open>TransferShapeOf\<close> over the stored postings, each with its entry: the account postings, the
  fee, the system accounts met and the days of the trading legs. None is the early return of nil.
\<close>

record shapeScan =
  sc_accounts :: "located list"
  sc_fee :: "located option"
  sc_trading :: int
  sc_clearing :: int
  sc_tradingDays :: "string list"

definition shapeStep :: "bool \<Rightarrow> bool \<Rightarrow> shapeScan \<Rightarrow> string \<times> Posting \<Rightarrow> shapeScan option" where
  "shapeStep exchange bridged sc dp = (case dp of (day, posting) \<Rightarrow>
     let role = (case p_AccountSystemRole posting of None \<Rightarrow> [] | Some r \<Rightarrow> r);
         loc = \<lparr> at_date = day, at_posting = posting \<rparr> in
     if p_TagIDs posting \<noteq> [] \<or> \<not> emptyJSON (p_MetadataJSON posting) then None
     else if role = ''commodity_trading'' \<and> exchange then
       Some (sc\<lparr> sc_trading := p_AccountID posting, sc_tradingDays := List.insert day (sc_tradingDays sc) \<rparr>)
     else if role = ''transfer_clearing'' \<and> bridged then Some (sc\<lparr> sc_clearing := p_AccountID posting \<rparr>)
     else if role \<noteq> [] then None
     else if p_AccountClass posting = ''asset'' \<or> p_AccountClass posting = ''liability'' then
       Some (sc\<lparr> sc_accounts := sc_accounts sc @ [loc] \<rparr>)
     else if p_AccountClass posting = ''expense'' \<and> sc_fee sc = None then Some (sc\<lparr> sc_fee := Some loc \<rparr>)
     else None)"

fun foldO :: "('s \<Rightarrow> 'a \<Rightarrow> 's option) \<Rightarrow> 's \<Rightarrow> 'a list \<Rightarrow> 's option" where
  "foldO f s [] = Some s"
| "foldO f s (x # xs) = (case f s x of None \<Rightarrow> None | Some s' \<Rightarrow> foldO f s' xs)"

definition shapeEntry :: "JournalEntry \<Rightarrow> bool \<Rightarrow> shapeScan \<Rightarrow> JournalEntry \<Rightarrow> shapeScan option" where
  "shapeEntry first bridged sc entry = (
     if e_EntryKind entry \<noteq> e_EntryKind first \<or> e_Memo entry \<noteq> e_Memo first \<or> \<not> emptyJSON (e_MetadataJSON entry) \<or>
        e_ConversionSide entry \<noteq> e_ConversionSide first \<or> e_FeePaidBy entry \<noteq> e_FeePaidBy first then None
     else foldO (shapeStep (e_EntryKind first = exchangeEntryKind) bridged) sc (map (Pair (e_EntryDate entry)) (e_Postings entry)))"

definition shapeFee :: "JournalEntry \<Rightarrow> located \<Rightarrow> located \<Rightarrow> located option \<Rightarrow> TransferShapeFee option option" where
  "shapeFee first sending receiving fee = (case fee of
       None \<Rightarrow> Some None
     | Some f \<Rightarrow>
         (let fp = at_posting f in
          if Coefficient_Sign (p_QuantityValue fp) \<le> 0 then None
          else case (if e_FeePaidBy first \<noteq> [] then Some (e_FeePaidBy first)
                     else if p_CommodityID fp = p_CommodityID (at_posting sending) \<and> at_date f = at_date sending then Some conversionSending
                     else if p_CommodityID fp = p_CommodityID (at_posting receiving) \<and> at_date f = at_date receiving then Some conversionReceiving
                     else None) of
                None \<Rightarrow> None
              | Some paidBy \<Rightarrow> Some (Some \<lparr> fe_AccountID = p_AccountID fp, fe_CommodityID = p_CommodityID fp,
                   fe_QuantityValue = p_QuantityValue fp, fe_QuantityScale = p_QuantityScale fp, fe_PaidBy = paidBy,
                   fe_LineKey = p_LineKey fp, fe_Memo = p_Memo fp \<rparr>)))"

definition shapeConversion :: "JournalEntry \<Rightarrow> located \<Rightarrow> located \<Rightarrow> string list \<Rightarrow> string option" where
  "shapeConversion first sending receiving tradingDays = (
     if e_EntryKind first \<noteq> exchangeEntryKind then Some []
     else if length tradingDays \<noteq> 1 then None
     else if e_ConversionSide first \<noteq> [] then Some (e_ConversionSide first)
     else if at_date sending \<in> set tradingDays then Some conversionSending
     else if at_date receiving \<in> set tradingDays then Some conversionReceiving
     else None)"

definition shapeCandidate :: "Transaction \<Rightarrow> (TransferShape \<times> int \<times> int) option" where
  "shapeCandidate transaction = (
     if t_TransactionKind transaction = ''investment'' \<or> t_JournalEntries transaction = [] then None
     else let first = hd (t_JournalEntries transaction) in
       case foldO (shapeEntry first (length (t_JournalEntries transaction) > 1))
          \<lparr> sc_accounts = [], sc_fee = None, sc_trading = 0, sc_clearing = 0, sc_tradingDays = [] \<rparr> (t_JournalEntries transaction) of
         None \<Rightarrow> None
       | Some sc \<Rightarrow> (case sc_accounts sc of
           [x, y] \<Rightarrow>
             if p_AccountID (at_posting x) = p_AccountID (at_posting y) then None
             else let (sending, receiving) = (if Coefficient_Sign (p_QuantityValue (at_posting x)) > 0 then (y, x) else (x, y)) in
               if Coefficient_Sign (p_QuantityValue (at_posting sending)) \<ge> 0 \<or>
                  Coefficient_Sign (p_QuantityValue (at_posting receiving)) \<le> 0 then None
               else if (p_CommodityID (at_posting sending) \<noteq> p_CommodityID (at_posting receiving)) \<noteq> (e_EntryKind first = exchangeEntryKind) then None
               else (case shapeFee first sending receiving (sc_fee sc) of
                   None \<Rightarrow> None
                 | Some fee \<Rightarrow> (case shapeConversion first sending receiving (sc_tradingDays sc) of
                     None \<Rightarrow> None
                   | Some conversion \<Rightarrow> Some (\<lparr> sh_Sending = sideOf sending, sh_Receiving = sideOf receiving, sh_Fee = fee,
                       sh_ConversionSide = conversion, sh_EntryMemo = e_Memo first, sh_EntryKind = e_EntryKind first \<rparr>,
                       sc_trading sc, sc_clearing sc)))
         | _ \<Rightarrow> None))"

definition TransferShapeOf :: "Transaction \<Rightarrow> (ledger_error, TransferShape option) result" where
  "TransferShapeOf transaction = (case shapeCandidate transaction of
       None \<Rightarrow> Inr None
     | Some (shape, trading, clearing) \<Rightarrow>
         bindR (reproduces (t_JournalEntries transaction) (shape_rebuild shape (t_TransactionDate transaction) trading clearing))
           (\<lambda>same. Inr (if same then Some shape else None)))"

section \<open>Definitions: journal restatements\<close>

record restateScan =
  rs_kept :: "located list"
  rs_trading :: int
  rs_clearing :: int
  rs_accountDates :: "string list"

definition restateStep :: "bool \<Rightarrow> bool \<Rightarrow> restateScan \<Rightarrow> string \<times> Posting \<Rightarrow> restateScan option" where
  "restateStep exchange bridged rs dp = (case dp of (day, posting) \<Rightarrow>
     let role = (case p_AccountSystemRole posting of None \<Rightarrow> [] | Some r \<Rightarrow> r) in
     if role = ''commodity_trading'' \<and> exchange then Some (rs\<lparr> rs_trading := p_AccountID posting \<rparr>)
     else if role = ''transfer_clearing'' \<and> bridged then Some (rs\<lparr> rs_clearing := p_AccountID posting \<rparr>)
     else if role \<noteq> [] then None
     else Some (rs\<lparr> rs_kept := rs_kept rs @ [\<lparr> at_date = day, at_posting = posting \<rparr>],
       rs_accountDates := (if isRestatedAccountPosting posting then List.insert day (rs_accountDates rs) else rs_accountDates rs) \<rparr>))"

definition restateEntry :: "JournalEntry \<Rightarrow> bool \<Rightarrow> restateScan \<Rightarrow> JournalEntry \<Rightarrow> restateScan option" where
  "restateEntry first bridged rs entry = (
     if e_EntryKind entry \<noteq> e_EntryKind first \<or> e_Memo entry \<noteq> e_Memo first \<or> e_MetadataJSON entry \<noteq> e_MetadataJSON first \<or>
        e_ConversionSide entry \<noteq> e_ConversionSide first \<or> e_FeePaidBy entry \<noteq> e_FeePaidBy first then None
     else foldO (restateStep (e_EntryKind first = exchangeEntryKind) bridged) rs (map (Pair (e_EntryDate entry)) (e_Postings entry)))"

definition restatedPosting :: "string \<Rightarrow> string \<Rightarrow> located \<Rightarrow> PostingInput" where
  "restatedPosting transactionDate followDate loc = (
     let account = isRestatedAccountPosting (at_posting loc);
         postedOn = (if (account \<and> at_date loc \<noteq> transactionDate) \<or> (\<not> account \<and> at_date loc \<noteq> followDate) then at_date loc else [])
     in \<lparr> pi_LineKey = p_LineKey (at_posting loc), pi_PostedOn = postedOn, pi_AccountID = p_AccountID (at_posting loc),
          pi_QuantityValue = p_QuantityValue (at_posting loc), pi_QuantityScale = p_QuantityScale (at_posting loc),
          pi_CommodityID = p_CommodityID (at_posting loc), pi_Memo = p_Memo (at_posting loc),
          pi_MetadataJSON = p_MetadataJSON (at_posting loc), pi_TagIDs = p_TagIDs (at_posting loc) \<rparr>)"

definition restatedKind :: "bool \<Rightarrow> located \<Rightarrow> exchangeLegKind option" where
  "restatedKind exchange loc = (
     if isRestatedAccountPosting (at_posting loc) then Some exchangeAccountLeg
     else if p_AccountClass (at_posting loc) = ''expense'' then Some exchangeFeeLeg
     else if exchange then None
     else Some noExchangeLeg)"

fun firstReproducing ::
  "JournalEntry list \<Rightarrow> (string \<Rightarrow> JournalEntryInput) \<Rightarrow> (JournalEntryInput \<Rightarrow> (ledger_error, JournalEntryInput list) result)
   \<Rightarrow> string list \<Rightarrow> (ledger_error, JournalEntryInput option) result" where
  "firstReproducing stored candidate rebuild [] = Inr None"
| "firstReproducing stored candidate rebuild (side # sides) =
     bindR (reproduces stored (rebuild (candidate side))) (\<lambda>same.
       if same then Inr (Some (candidate side)) else firstReproducing stored candidate rebuild sides)"

definition restatedEntry :: "Transaction \<Rightarrow> restateScan \<Rightarrow> JournalEntryInput" where
  "restatedEntry transaction rs = (
     let first = hd (t_JournalEntries transaction); date = t_TransactionDate transaction;
         followDate = (case rs_accountDates rs of [d] \<Rightarrow> d | _ \<Rightarrow> date)
     in \<lparr> je_EntryDate = date, je_EntryKind = e_EntryKind first, je_Memo = e_Memo first,
          je_MetadataJSON = e_MetadataJSON first, je_ConversionSide = e_ConversionSide first, je_FeePaidBy = e_FeePaidBy first,
          je_Postings = map (restatedPosting date followDate) (rs_kept rs) \<rparr>)"

definition restatedRoles :: "restateScan \<Rightarrow> postingDayRole list" where
  "restatedRoles rs = map (\<lambda>loc. \<lparr> role_account = isRestatedAccountPosting (at_posting loc), role_system = False \<rparr>) (rs_kept rs)"

definition restatedSides :: "JournalEntryInput \<Rightarrow> string list" where
  "restatedSides restated = (if je_EntryKind restated = exchangeEntryKind \<and> je_ConversionSide restated = []
     then [conversionSending, conversionReceiving] else [je_ConversionSide restated])"

definition JournalRestatementOf :: "Transaction \<Rightarrow> (ledger_error, JournalEntryInput option) result" where
  "JournalRestatementOf transaction = (
     if t_TransactionKind transaction = ''investment'' \<or> t_JournalEntries transaction = [] then Inr None
     else let first = hd (t_JournalEntries transaction) in
       case foldO (restateEntry first (length (t_JournalEntries transaction) > 1))
          \<lparr> rs_kept = [], rs_trading = 0, rs_clearing = 0, rs_accountDates = [] \<rparr> (t_JournalEntries transaction) of
         None \<Rightarrow> Inr None
       | Some rs \<Rightarrow>
         (let kinds = map (restatedKind (e_EntryKind first = exchangeEntryKind)) (rs_kept rs);
              restated = restatedEntry transaction rs
          in if None \<in> set kinds then Inr None
             else firstReproducing (t_JournalEntries transaction) (\<lambda>side. restated\<lparr> je_ConversionSide := side \<rparr>)
               (\<lambda>candidate. rebuildRestatement candidate (t_TransactionDate transaction) (restatedRoles rs) (map the kinds)
                  (rs_trading rs) (rs_clearing rs)) (restatedSides restated)))"

section \<open>The exchange rule balances every currency\<close>

lemma exchangeFee_postings:
  assumes "exchangeFee entry d s r fee = Inr (ps, paidBy)"
  shows "map undated ps = map undated (je_Postings entry)"
  using assms by (auto simp: exchangeFee_def Let_def undated_def map_list_update_same split: option.splits if_splits)

lemma tradingLeg_ok:
  "tradingLeg totals k day c = Inr l \<Longrightarrow>
    inputLeg l = (c, - scaledVal (the (totals c))) \<and> pi_AccountID l = k \<and> pi_PostedOn l = day \<and> pi_LineKey l = [] \<and>
    pi_CommodityID l = c \<and> pi_QuantityScale l = si_scale (the (totals c))"
  by (auto simp: tradingLeg_def negatedSum_def ScaledInt_Coefficient_def ScaledInt_Negated_def FromBig_Inr_iff result_simps
      inputLeg_def scaledVal_def emptyPosting_def split: sum.splits)

lemma tradingLegs_net:
  assumes "mapR (tradingLeg totals k day) cs = Inr ls" and "distinct cs"
  shows "netOf (map inputLeg ls) c = (if c \<in> set cs then - scaledVal (the (totals c)) else 0)"
  using assms
proof (induction cs arbitrary: ls)
  case (Cons d cs)
  then obtain l rest where l: "tradingLeg totals k day d = Inr l" "mapR (tradingLeg totals k day) cs = Inr rest" "ls = l # rest"
    by (auto simp: result_simps)
  then show ?case using Cons tradingLeg_ok [OF l(1)] by auto
qed simp

lemma exchangeLegs_Inr:
  assumes "exchangeLegs entry d kinds k = Inr built"
  obtains a b fee sending receiving where "exchangeBuild entry d [a, b] fee sending receiving k = Inr built"
    "legScan kinds 0 [] None = Inr ([a, b], fee)" "(sending, receiving) \<in> {(a, b), (b, a)}"
    "pi_CommodityID (je_Postings entry ! a) \<noteq> pi_CommodityID (je_Postings entry ! b)"
    "pi_AccountID (je_Postings entry ! a) \<noteq> pi_AccountID (je_Postings entry ! b)"
    "Coefficient_Sign (pi_QuantityValue (je_Postings entry ! sending)) < 0"
    "Coefficient_Sign (pi_QuantityValue (je_Postings entry ! receiving)) > 0"
proof -
  obtain accounts fee where f: "legScan kinds 0 [] None = Inr (accounts, fee)"
    using assms by (auto simp: exchangeLegs_def result_simps)
  then obtain a b where ab: "accounts = [a, b]" using assms by (auto simp: exchangeLegs_def split: list.splits)
  show thesis
    using that [of a b fee b a] that [of a b fee a b] assms f unfolding ab
    by (auto simp: exchangeLegs_def Let_def Coefficient_Sign_def sgn_if split: if_splits)
qed

lemma exchangeBuild_Inr:
  assumes "exchangeBuild entry d accounts fee sending receiving k = Inr built" and "scalesOk (je_Postings entry)"
  obtains own trading converting where
    "je_Postings built = own @ trading" "map undated own = map undated (je_Postings entry)"
    "netOf (map inputLeg trading) = (\<lambda>c. - netOf (map inputLeg (je_Postings entry)) c)"
    "map pi_CommodityID trading = sorted_list_of_set (pi_CommodityID ` set (je_Postings entry))"
    "\<forall>l\<in>set trading. pi_AccountID l = k \<and> pi_LineKey l = [] \<and> pi_PostedOn l = exchangeDay entry d converting \<and> scaleOk (pi_QuantityScale l)"
    "(je_ConversionSide built, converting) \<in> {(conversionSending, sending), (conversionReceiving, receiving)}"
    "je_EntryKind built = exchangeEntryKind"
proof -
  obtain m where m: "sumPostingsByCommodity (je_Postings entry) = Inr (m, sorted_list_of_set (pi_CommodityID ` set (je_Postings entry)))"
    "dom m = pi_CommodityID ` set (je_Postings entry)"
    "\<And>c s. m c = Some s \<Longrightarrow> scaleOk (si_scale s) \<and> scaledVal s = netOf (map inputLeg (je_Postings entry)) c"
    using sumPostings_ok [OF assms(2)] by blast
  let ?cs = "sorted_list_of_set (pi_CommodityID ` set (je_Postings entry))"
  define converting where "converting = (if TrimSpace (je_ConversionSide entry) = conversionReceiving then receiving else sending)"
  obtain own paidBy trading where b: "exchangeFee entry d sending receiving fee = Inr (own, paidBy)"
    "mapR (tradingLeg m k (exchangeDay entry d converting)) ?cs = Inr trading" "je_Postings built = own @ trading"
    "(je_ConversionSide built, converting) \<in> {(conversionSending, sending), (conversionReceiving, receiving)}"
    "je_EntryKind built = exchangeEntryKind"
    using assms(1) m(1) by (auto simp: exchangeBuild_def Let_def converting_def result_simps split: if_splits)
  have leg: "\<forall>l\<in>set trading. \<exists>c\<in>set ?cs. tradingLeg m k (exchangeDay entry d converting) c = Inr l"
    using mapR_Inr_set [OF b(2)] by blast
  have known: "\<exists>s. m c = Some s" if "c \<in> set ?cs" for c
    using that m(2) domD [of c m] by (simp add: image_iff)
  have "netOf (map inputLeg trading) c = - netOf (map inputLeg (je_Postings entry)) c" for c
  proof (cases "c \<in> set ?cs")
    case True
    then show ?thesis using tradingLegs_net [OF b(2)] known [OF True] m(3) by auto
  next
    case False
    then have "netOf (map inputLeg (je_Postings entry)) c = 0" by (intro netOf_absent) (auto simp: inputLeg_def)
    then show ?thesis using tradingLegs_net [OF b(2)] False by simp
  qed
  moreover have "map pi_CommodityID trading = ?cs"
  proof -
    have "list_all2 (\<lambda>c l. tradingLeg m k (exchangeDay entry d converting) c = Inr l) ?cs trading" using b(2) by (simp add: mapR_Inr_iff)
    then show ?thesis by (induction rule: list_all2_induct) (auto dest: tradingLeg_ok)
  qed
  moreover have "\<forall>l\<in>set trading. pi_AccountID l = k \<and> pi_LineKey l = [] \<and> pi_PostedOn l = exchangeDay entry d converting \<and> scaleOk (pi_QuantityScale l)"
  proof
    fix l assume "l \<in> set trading"
    then obtain c where c: "c \<in> set ?cs" "tradingLeg m k (exchangeDay entry d converting) c = Inr l" using leg by blast
    obtain s where "m c = Some s" using known [OF c(1)] by blast
    then show "pi_AccountID l = k \<and> pi_LineKey l = [] \<and> pi_PostedOn l = exchangeDay entry d converting \<and> scaleOk (pi_QuantityScale l)"
      using tradingLeg_ok [OF c(2)] m(3) by simp
  qed
  ultimately show thesis using that [of own trading converting] b exchangeFee_postings [OF b(1)] by blast
qed

text \<open>
  C25. A currency exchange that the rule completes balances in every currency. The request's postings
  are kept (only the fee's day may be filled in), and the rule appends exactly one trading posting per
  currency, in commodity order, on the trading account; all of them post on one day, the day of the
  account that converted: the one money left when the sending side converted, the one it reached when
  the receiving side did.
\<close>

theorem exchange_balances:
  assumes "exchangeLegs entry d kinds k = Inr built" and "scalesOk (je_Postings entry)"
  shows "\<exists>own trading i.
    je_Postings built = own @ trading \<and> map undated own = map undated (je_Postings entry) \<and>
    balancedLegs (map inputLeg (je_Postings built)) \<and>
    map pi_CommodityID trading = sorted_list_of_set (pi_CommodityID ` set (je_Postings entry)) \<and>
    (\<forall>l\<in>set trading. pi_AccountID l = k \<and> pi_PostedOn l = exchangeDay entry d i) \<and>
    (je_ConversionSide built = conversionSending \<and> BigInt (pi_QuantityValue (je_Postings entry ! i)) < 0 \<or>
     je_ConversionSide built = conversionReceiving \<and> BigInt (pi_QuantityValue (je_Postings entry ! i)) > 0)"
proof -
  obtain a b fee sending receiving where b: "exchangeBuild entry d [a, b] fee sending receiving k = Inr built"
    "Coefficient_Sign (pi_QuantityValue (je_Postings entry ! sending)) < 0"
    "Coefficient_Sign (pi_QuantityValue (je_Postings entry ! receiving)) > 0"
    using assms(1) by (rule exchangeLegs_Inr)
  obtain own trading i where t: "je_Postings built = own @ trading" "map undated own = map undated (je_Postings entry)"
    "netOf (map inputLeg trading) = (\<lambda>c. - netOf (map inputLeg (je_Postings entry)) c)"
    "map pi_CommodityID trading = sorted_list_of_set (pi_CommodityID ` set (je_Postings entry))"
    "\<forall>l\<in>set trading. pi_AccountID l = k \<and> pi_LineKey l = [] \<and> pi_PostedOn l = exchangeDay entry d i \<and> scaleOk (pi_QuantityScale l)"
    "(je_ConversionSide built, i) \<in> {(conversionSending, sending), (conversionReceiving, receiving)}"
    using b(1) assms(2) by (rule exchangeBuild_Inr)
  have "balancedLegs (map inputLeg (je_Postings built))"
    using t(1,3) map_inputLeg_undated [OF t(2)] by (simp add: balancedLegs_def)
  moreover have "je_ConversionSide built = conversionSending \<and> BigInt (pi_QuantityValue (je_Postings entry ! i)) < 0 \<or>
     je_ConversionSide built = conversionReceiving \<and> BigInt (pi_QuantityValue (je_Postings entry ! i)) > 0"
    using t(6) b(2,3) by (auto simp: Coefficient_Sign_def)
  ultimately show ?thesis using t(1,2,4,5) by blast
qed

section \<open>Comparing journals\<close>

text \<open>What a journal posts on a day: the multiset of account, commodity and exact amount.\<close>

definition storedOn :: "JournalEntry list \<Rightarrow> string \<Rightarrow> (int \<times> int \<times> rat) multiset" where
  "storedOn stored day = mset (map (\<lambda>p. (p_AccountID p, storedLeg p))
     (concat (map e_Postings (filter (\<lambda>e. e_EntryDate e = day) stored))))"

definition postedOn :: "JournalEntryInput list \<Rightarrow> string \<Rightarrow> (int \<times> int \<times> rat) multiset" where
  "postedOn entries day = mset (map (\<lambda>p. (pi_AccountID p, inputLeg p))
     (concat (map je_Postings (filter (\<lambda>e. je_EntryDate e = day) entries))))"

lemma split_at_separator:
  assumes "c \<notin> set xs" and "c \<notin> set xs'" and "xs @ c # ys = xs' @ c # ys'"
  shows "xs = xs' \<and> ys = ys'"
  using assms by (induction xs arbitrary: xs') (auto simp: Cons_eq_append_conv)

lemma intString_no_bar: "CHR ''|'' \<notin> set (intString z)" "CHR ''e'' \<notin> set (intString z)"
proof -
  have "c \<in> set (intString z) \<Longrightarrow> c = CHR ''-'' \<or> isDigit c" for c
    using natDigits_isDigit by (auto simp: intString_def list_all_iff split: if_splits)
  moreover have "\<not> isDigit (CHR ''|'')" "\<not> isDigit (CHR ''e'')" by (simp_all add: isDigit_def byteVal_def)
  ultimately show "CHR ''|'' \<notin> set (intString z)" "CHR ''e'' \<notin> set (intString z)" by auto
qed

lemma ScaledInt_String_inj: "ScaledInt_String (s :: ScaledInt) = ScaledInt_String t \<longleftrightarrow> s = t"
proof
  assume "ScaledInt_String s = ScaledInt_String t"
  then have "intString (si_value s) @ CHR ''e'' # ''-'' @ intString (si_scale s) = intString (si_value t) @ CHR ''e'' # ''-'' @ intString (si_scale t)"
    by (simp add: ScaledInt_String_def)
  from split_at_separator [OF intString_no_bar(2) intString_no_bar(2) this]
  show "s = t" by (simp add: intString_inj)
qed simp

lemma postingKey_form:
  assumes "scaleOk sc"
  obtains n :: ScaledInt where "postingKey a c v sc = Inr (intString a @ ''|'' @ intString c @ ''|'' @ ScaledInt_String n)"
    "scaledVal n = decVal (BigInt v) sc" "0 \<le> si_scale n" "si_scale n = 0 \<or> si_value n mod 10 \<noteq> 0"
proof -
  have 0: "scaleOk (si_scale NewScaledInt)" by (rule scaled.invar_empty)
  obtain s where s: "ScaledInt_Add NewScaledInt (Some (BigInt v)) sc = Inr s"
    "si_scale s = max (si_scale NewScaledInt) sc" "scaledVal s = scaledVal NewScaledInt + decVal (BigInt v) sc"
    using Add_ok [OF 0 assms] by blast
  then have "0 \<le> si_scale s" using assms by (simp add: scaleOk_def NewScaledInt_def)
  from Normalized_spec [OF this] s show thesis
    by (intro that [of "ScaledInt_Normalized s"]) (simp_all add: postingKey_def ScaledIntFromCoefficient_def ScaledIntFromBig_def)
qed

text \<open>Two keys agree only when account, commodity and amount agree.\<close>

lemma postingKey_inj:
  assumes "postingKey a c v sc = Inr k" and "postingKey a' c' v' sc' = Inr k" and "scaleOk sc" and "scaleOk sc'"
  shows "(a, c, decVal (BigInt v) sc) = (a', c', decVal (BigInt v') sc')"
proof -
  obtain n :: ScaledInt where n: "postingKey a c v sc = Inr (intString a @ ''|'' @ intString c @ ''|'' @ ScaledInt_String n)"
    "scaledVal n = decVal (BigInt v) sc" using postingKey_form [OF assms(3)] by metis
  obtain n' :: ScaledInt where n': "postingKey a' c' v' sc' = Inr (intString a' @ ''|'' @ intString c' @ ''|'' @ ScaledInt_String n')"
    "scaledVal n' = decVal (BigInt v') sc'" using postingKey_form [OF assms(4)] by metis
  have e: "intString a @ CHR ''|'' # intString c @ ''|'' @ ScaledInt_String n = intString a' @ CHR ''|'' # intString c' @ ''|'' @ ScaledInt_String n'"
    using assms(1,2) n(1) n'(1) by simp
  note 1 = split_at_separator [OF intString_no_bar(1) intString_no_bar(1) e]
  then have "intString c @ CHR ''|'' # ScaledInt_String n = intString c' @ CHR ''|'' # ScaledInt_String n'" by simp
  note 2 = split_at_separator [OF intString_no_bar(1) intString_no_bar(1) this]
  show ?thesis using 1 2 n(2) n'(2) by (simp add: intString_inj ScaledInt_String_inj)
qed

definition keyVal :: "string \<Rightarrow> int \<times> int \<times> rat" where
  "keyVal k = (SOME t. \<exists>a c v sc. t = (a, c, decVal (BigInt v) sc) \<and> scaleOk sc \<and> postingKey a c v sc = Inr k)"

lemma keyVal_eq: "postingKey a c v sc = Inr k \<Longrightarrow> scaleOk sc \<Longrightarrow> keyVal k = (a, c, decVal (BigInt v) sc)"
  unfolding keyVal_def by (rule some_equality) (blast dest: postingKey_inj)+

lemma keysOn_pairs:
  assumes "list_all2 (\<lambda>dp dk. fst dk = fst dp \<and> keyVal (snd dk) = tr (snd dp)) pairs ks"
  shows "map keyVal (keysOn day ks) = map tr (map snd (filter (\<lambda>dp. fst dp = day) pairs))"
  using assms by (induction rule: list_all2_induct) (auto simp: keysOn_def)

lemma storedKeys_on:
  assumes "storedKeys stored = Inr sk" and "\<forall>e\<in>set stored. \<forall>p\<in>set (e_Postings e). scaleOk (p_QuantityScale p)"
  shows "mset (map keyVal (keysOn day sk)) = storedOn stored day"
proof -
  define pairs where "pairs = concat (map (\<lambda>e. map (Pair (e_EntryDate e)) (e_Postings e)) stored)"
  have scales: "\<forall>dp\<in>set pairs. scaleOk (p_QuantityScale (snd dp))" using assms(2) by (auto simp: pairs_def)
  have "list_all2 (\<lambda>dp dk. fst dk = fst dp \<and> keyVal (snd dk) = (p_AccountID (snd dp), storedLeg (snd dp))) pairs sk"
  proof (rule mapR_all2 [OF assms(1) [unfolded storedKeys_def pairs_def [symmetric]]])
    fix dp dk
    assume dp: "dp \<in> set pairs" and f: "(case dp of (day, p) \<Rightarrow> bindR (postingKey (p_AccountID p) (p_CommodityID p) (p_QuantityValue p)
      (p_QuantityScale p)) (\<lambda>k. Inr (day, k))) = Inr dk"
    obtain day p where "dp = (day, p)" by (cases dp)
    with f dp scales show "fst dk = fst dp \<and> keyVal (snd dk) = (p_AccountID (snd dp), storedLeg (snd dp))"
      by (auto simp: result_simps storedLeg_def keyVal_eq)
  qed
  then have "map keyVal (keysOn day sk) = map (\<lambda>p. (p_AccountID p, storedLeg p)) (map snd (filter (\<lambda>dp. fst dp = day) pairs))"
    by (rule keysOn_pairs)
  moreover have "map snd (filter (\<lambda>dp. fst dp = day) pairs) = concat (map e_Postings (filter (\<lambda>e. e_EntryDate e = day) stored))"
    unfolding pairs_def by (induction stored) (auto simp: filter_map o_def)
  ultimately show ?thesis by (simp add: storedOn_def)
qed

lemma keysOn_append [simp]: "keysOn day (xs @ ys) = keysOn day xs @ keysOn day ys"
  by (simp add: keysOn_def)

lemma rebuiltKeys_on:
  assumes "rebuiltKeys kind rebuilt = Inr (Some rk)" and "\<forall>e\<in>set rebuilt. scalesOk (je_Postings e)"
  shows "mset (map keyVal (keysOn day rk)) = postedOn rebuilt day" and "\<forall>e\<in>set rebuilt. je_EntryKind e = kind"
  using assms
proof (induction rebuilt arbitrary: rk)
  case Nil
  {
    case 1
    then show ?case by (simp add: keysOn_def postedOn_def)
  next
    case 2
    then show ?case by simp
  }
next
  case (Cons e rebuilt)
  have step: "je_EntryKind e = kind \<and> (\<exists>ks rest. entryKeys e = Inr ks \<and> rebuiltKeys kind rebuilt = Inr (Some rest) \<and> rk = ks @ rest)"
    if "rebuiltKeys kind (e # rebuilt) = Inr (Some rk)" for rk using that by (auto simp: result_simps split: if_splits)
  {
    case 1
    then obtain ks rest where r: "entryKeys e = Inr ks" "rebuiltKeys kind rebuilt = Inr (Some rest)" "rk = ks @ rest"
      using step by blast
    have "list_all2 (\<lambda>dp dk. fst dk = fst dp \<and> keyVal (snd dk) = (pi_AccountID (snd dp), inputLeg (snd dp)))
        (map (Pair (je_EntryDate e)) (je_Postings e)) ks"
      unfolding list_all2_map1
    proof (rule mapR_all2 [OF r(1) [unfolded entryKeys_def]])
      fix p dk
      assume "p \<in> set (je_Postings e)" "bindR (postingKey (pi_AccountID p) (pi_CommodityID p) (pi_QuantityValue p) (pi_QuantityScale p))
         (\<lambda>k. Inr (je_EntryDate e, k)) = Inr dk"
      then show "fst dk = fst (je_EntryDate e, p) \<and> keyVal (snd dk) = (pi_AccountID (snd (je_EntryDate e, p)), inputLeg (snd (je_EntryDate e, p)))"
        using 1 by (auto simp: result_simps inputLeg_def keyVal_eq scalesOk_def)
    qed
    then have "map keyVal (keysOn day ks) = map (\<lambda>p. (pi_AccountID p, inputLeg p))
        (map snd (filter (\<lambda>dp. fst dp = day) (map (Pair (je_EntryDate e)) (je_Postings e))))"
      by (rule keysOn_pairs)
    then show ?case using Cons.IH(1) [OF r(2)] 1 r(3) by (auto simp: postedOn_def filter_map o_def)
  next
    case 2
    from step [OF 2(1)] obtain rest where "je_EntryKind e = kind" "rebuiltKeys kind rebuilt = Inr (Some rest)" by blast
    then show ?case using Cons.IH(2) [of rest] 2(2) by simp
  }
qed

lemma keysOn_nonempty: "keysOn day ks \<noteq> [] \<longleftrightarrow> day \<in> fst ` set ks"
  by (auto simp: keysOn_def filter_empty_conv)

text \<open>
  The comparison is sound: journals it accepts post the same exact amounts to the same accounts on
  every day.
\<close>

lemma sameJournal_sound:
  assumes same: "sameJournal stored rebuilt = Inr True"
    and scales: "\<forall>e\<in>set stored. \<forall>p\<in>set (e_Postings e). scaleOk (p_QuantityScale p)" "\<forall>e\<in>set rebuilt. scalesOk (je_Postings e)"
  shows "storedOn stored = postedOn rebuilt" and "length stored = length rebuilt"
    and "\<forall>e\<in>set rebuilt. je_EntryKind e = e_EntryKind (hd stored)"
proof -
  obtain sk rk where k: "storedKeys stored = Inr sk" "rebuiltKeys (e_EntryKind (hd stored)) rebuilt = Inr (Some rk)"
    "length (remdups (map fst sk)) = length (remdups (map fst rk))"
    "\<forall>day\<in>set (map fst sk). length (keysOn day sk) = length (keysOn day rk) \<and> sort (keysOn day sk) = sort (keysOn day rk)"
    "length stored = length rebuilt"
    using same by (auto simp: sameJournal_def Let_def result_simps split: if_splits option.splits)
  show "length stored = length rebuilt" by (rule k(5))
  show "\<forall>e\<in>set rebuilt. je_EntryKind e = e_EntryKind (hd stored)" by (rule rebuiltKeys_on(2) [OF k(2) scales(2)])
  have ms: "mset (keysOn day sk) = mset (keysOn day rk)" if "day \<in> fst ` set sk" for day
    using k(4) that by (metis mset_sort set_map)
  have sub: "fst ` set sk \<subseteq> fst ` set rk"
  proof
    fix day assume d: "day \<in> fst ` set sk"
    then have "keysOn day sk \<noteq> []" by (simp only: keysOn_nonempty simp_thms)
    then have "keysOn day rk \<noteq> []" using ms [OF d] by auto
    then show "day \<in> fst ` set rk" by (simp only: keysOn_nonempty simp_thms)
  qed
  moreover have "card (fst ` set sk) = card (fst ` set rk)" using k(3) by (metis length_remdups_card_conv set_map)
  ultimately have days: "fst ` set sk = fst ` set rk" by (intro card_subset_eq) simp_all
  show "storedOn stored = postedOn rebuilt"
  proof
    fix day
    have "mset (keysOn day sk) = mset (keysOn day rk)"
    proof (cases "day \<in> fst ` set sk")
      case True
      then show ?thesis by (rule ms)
    next
      case False
      then have "keysOn day sk = []" "keysOn day rk = []"
        using days keysOn_nonempty [of day sk] keysOn_nonempty [of day rk] by simp_all
      then show ?thesis by simp
    qed
    then have "mset (map keyVal (keysOn day sk)) = mset (map keyVal (keysOn day rk))" by simp
    then show "storedOn stored day = postedOn rebuilt day"
      using storedKeys_on [OF k(1) scales(1)] rebuiltKeys_on(1) [OF k(2) scales(2)] by simp
  qed
qed

section \<open>Restating a journal reproduces it\<close>

lemma rebuildRestatement_sound:
  assumes "rebuildRestatement entry date roles kinds trading clearing = Inr entries"
    and "length roles = length (je_Postings entry)" and "scalesOk (je_Postings entry)"
  shows "\<forall>e\<in>set entries. balancedLegs (map inputLeg (je_Postings e)) \<and> scalesOk (je_Postings e)"
proof -
  obtain entry' roles' where g: "groupPostingsByDay entry' date roles' (if clearing = 0 then Inl RestatementNoBridge else Inr clearing) = Inr entries"
    and e': "length roles' = length (je_Postings entry')" "scalesOk (je_Postings entry')"
  proof (cases "je_EntryKind entry = exchangeEntryKind")
    case True
    then obtain built where b: "exchangeLegs entry date kinds trading = Inr built"
      "groupPostingsByDay built date (roles @ map (\<lambda>_. \<lparr> role_account = False, role_system = True \<rparr>) (drop (length roles) (je_Postings built)))
         (if clearing = 0 then Inl RestatementNoBridge else Inr clearing) = Inr entries"
      using assms(1) by (auto simp: rebuildRestatement_def result_simps split: if_splits)
    obtain a c fee s r where x: "exchangeBuild entry date [a, c] fee s r trading = Inr built" using b(1) by (rule exchangeLegs_Inr)
    obtain own tr cv where t: "je_Postings built = own @ tr" "map undated own = map undated (je_Postings entry)"
      "\<forall>l\<in>set tr. pi_AccountID l = trading \<and> pi_LineKey l = [] \<and> pi_PostedOn l = exchangeDay entry date cv \<and> scaleOk (pi_QuantityScale l)"
      using x assms(3) by (rule exchangeBuild_Inr)
    have "scalesOk (je_Postings built)" using t(1,3) scalesOk_undated [OF t(2)] assms(3) by (auto simp: scalesOk_def)
    moreover have "length own = length (je_Postings entry)" using t(2) by (metis length_map)
    ultimately show thesis using that [OF b(2)] t(1) assms(2) by simp
  next
    case False
    then show thesis using that [of entry roles] assms by (simp add: rebuildRestatement_def)
  qed
  show ?thesis using groupPostingsByDay_sound [OF g e'] by blast
qed

lemma reproduces_True: "reproduces stored attempt = Inr True \<longleftrightarrow> (\<exists>rebuilt. attempt = Inr rebuilt \<and> sameJournal stored rebuilt = Inr True)"
  by (auto simp: reproduces_def split: sum.splits ledger_error.splits)

lemma firstReproducing_Some:
  "firstReproducing stored candidate rebuild sides = Inr (Some e) \<Longrightarrow>
   \<exists>side\<in>set sides. e = candidate side \<and> reproduces stored (rebuild e) = Inr True"
  by (induction sides) (auto simp: result_simps split: if_splits)

definition storedScalesOk :: "Transaction \<Rightarrow> bool" where
  "storedScalesOk t \<longleftrightarrow> (\<forall>e\<in>set (t_JournalEntries t). \<forall>p\<in>set (e_Postings e). scaleOk (p_QuantityScale p))"

lemma foldO_invariant:
  assumes "foldO f s xs = Some s'" and "P s" and "\<And>s x s'. x \<in> set xs \<Longrightarrow> P s \<Longrightarrow> f s x = Some s' \<Longrightarrow> P s'"
  shows "P s'"
  using assms
proof (induction xs arbitrary: s)
  case (Cons x xs)
  then obtain s1 where "f s x = Some s1" "foldO f s1 xs = Some s'" by (auto split: option.splits)
  with Cons show ?case by (metis list.set_intros(1) list.set_intros(2))
qed simp

lemma restateEntry_scales:
  assumes "restateEntry first bridged rs entry = Some rs'"
    and "\<forall>p\<in>set (e_Postings entry). scaleOk (p_QuantityScale p)" and "\<forall>l\<in>set (rs_kept rs). scaleOk (p_QuantityScale (at_posting l))"
  shows "\<forall>l\<in>set (rs_kept rs'). scaleOk (p_QuantityScale (at_posting l))"
proof -
  have f: "foldO (restateStep (e_EntryKind first = exchangeEntryKind) bridged) rs (map (Pair (e_EntryDate entry)) (e_Postings entry)) = Some rs'"
    using assms(1) by (auto simp: restateEntry_def split: if_splits)
  show ?thesis
    by (rule foldO_invariant [OF f, where P = "\<lambda>rs. \<forall>l\<in>set (rs_kept rs). scaleOk (p_QuantityScale (at_posting l))"])
       (use assms(2,3) in \<open>auto simp: restateStep_def Let_def split: prod.splits if_splits\<close>)
qed


definition scanOk :: "shapeScan \<Rightarrow> bool" where
  "scanOk sc \<longleftrightarrow> (\<forall>l\<in>set (sc_accounts sc). scaleOk (p_QuantityScale (at_posting l))) \<and>
     (\<forall>f. sc_fee sc = Some f \<longrightarrow> scaleOk (p_QuantityScale (at_posting f)))"

lemma shapeEntry_scales:
  assumes "shapeEntry first bridged sc entry = Some sc'"
    and "\<forall>p\<in>set (e_Postings entry). scaleOk (p_QuantityScale p)" and "scanOk sc"
  shows "scanOk sc'"
proof -
  have f: "foldO (shapeStep (e_EntryKind first = exchangeEntryKind) bridged) sc (map (Pair (e_EntryDate entry)) (e_Postings entry)) = Some sc'"
    using assms(1) by (auto simp: shapeEntry_def split: if_splits)
  show ?thesis
    by (rule foldO_invariant [OF f, where P = scanOk])
       (use assms(2,3) in \<open>auto simp: shapeStep_def scanOk_def Let_def split: prod.splits if_splits\<close>)
qed

lemma shapeFee_Some:
  "shapeFee first sending receiving fee = Some r \<Longrightarrow>
   (case r of None \<Rightarrow> fee = None | Some f \<Rightarrow> \<exists>loc. fee = Some loc \<and> BigInt (fe_QuantityValue f) > 0 \<and>
      fe_QuantityScale f = p_QuantityScale (at_posting loc))"
  by (auto simp: shapeFee_def Let_def Coefficient_Sign_def sgn_if split: option.splits if_splits)

lemma shapeCandidate_Some:
  assumes "shapeCandidate t = Some (shape, trading, clearing)"
  obtains sc sending receiving where
    "foldO (shapeEntry (hd (t_JournalEntries t)) (length (t_JournalEntries t) > 1))
          \<lparr> sc_accounts = [], sc_fee = None, sc_trading = 0, sc_clearing = 0, sc_tradingDays = [] \<rparr> (t_JournalEntries t) = Some sc"
    "set (sc_accounts sc) = {sending, receiving}"
    "sh_Sending shape = sideOf sending" "sh_Receiving shape = sideOf receiving"
    "p_AccountID (at_posting sending) \<noteq> p_AccountID (at_posting receiving)"
    "Coefficient_Sign (p_QuantityValue (at_posting sending)) < 0" "Coefficient_Sign (p_QuantityValue (at_posting receiving)) > 0"
    "shapeFee (hd (t_JournalEntries t)) sending receiving (sc_fee sc) = Some (sh_Fee shape)"
proof -
  obtain sc where sc: "foldO (shapeEntry (hd (t_JournalEntries t)) (length (t_JournalEntries t) > 1))
          \<lparr> sc_accounts = [], sc_fee = None, sc_trading = 0, sc_clearing = 0, sc_tradingDays = [] \<rparr> (t_JournalEntries t) = Some sc"
    using assms by (auto simp: shapeCandidate_def Let_def split: if_splits option.splits)
  then obtain x y where xy: "sc_accounts sc = [x, y]"
    using assms by (auto simp: shapeCandidate_def Let_def split: if_splits list.splits)
  define sending where "sending = (if Coefficient_Sign (p_QuantityValue (at_posting x)) > 0 then y else x)"
  define receiving where "receiving = (if Coefficient_Sign (p_QuantityValue (at_posting x)) > 0 then x else y)"
  have p: "(if Coefficient_Sign (p_QuantityValue (at_posting x)) > 0 then (y, x) else (x, y)) = (sending, receiving)"
    by (simp add: sending_def receiving_def)
  have "set (sc_accounts sc) = {sending, receiving}" by (auto simp: xy sending_def receiving_def)
  moreover have "p_AccountID (at_posting x) \<noteq> p_AccountID (at_posting y)"
    using assms sc xy by (auto simp: shapeCandidate_def Let_def split: if_splits)
  then have "p_AccountID (at_posting sending) \<noteq> p_AccountID (at_posting receiving)" by (auto simp: sending_def receiving_def)
  moreover have "sh_Sending shape = sideOf sending \<and> sh_Receiving shape = sideOf receiving \<and>
      Coefficient_Sign (p_QuantityValue (at_posting sending)) < 0 \<and> Coefficient_Sign (p_QuantityValue (at_posting receiving)) > 0 \<and>
      shapeFee (hd (t_JournalEntries t)) sending receiving (sc_fee sc) = Some (sh_Fee shape)"
    using assms sc by (auto simp: shapeCandidate_def Let_def xy p split: if_splits option.splits)
  ultimately show thesis using that [OF sc, of sending receiving] by blast
qed

lemma shape_entry_lengths:
  assumes "shape_entry shape date = (entry, roles, kinds)"
  shows "length roles = length (je_Postings entry)"
    and "scaleOk (sd_QuantityScale (sh_Sending shape)) \<Longrightarrow> scaleOk (sd_QuantityScale (sh_Receiving shape)) \<Longrightarrow>
      (\<And>f. sh_Fee shape = Some f \<Longrightarrow> scaleOk (fe_QuantityScale f)) \<Longrightarrow> scalesOk (je_Postings entry)"
  using assms by (auto simp: shape_entry_def Let_def sidePosting_def split: option.splits)

text \<open>
  C30. Opening a transaction in the transfer editor never reshapes it. A shape that
  \<open>TransferShapeOf\<close> returns moves money out of one account and into a different one, its fee is a
  positive cost, and rebuilding it with the writer's rules yields, on every day, exactly the accounts,
  commodities and exact amounts of the stored journal, every day of which balances.
\<close>

theorem transfer_shape_reproduces_journal:
  assumes "TransferShapeOf t = Inr (Some shape)" and "storedScalesOk t"
  shows "\<exists>trading clearing rebuilt.
    shape_rebuild shape (t_TransactionDate t) trading clearing = Inr rebuilt \<and>
    storedOn (t_JournalEntries t) = postedOn rebuilt \<and>
    (\<forall>e\<in>set rebuilt. balancedLegs (map inputLeg (je_Postings e))) \<and>
    BigInt (sd_QuantityValue (sh_Sending shape)) < 0 \<and> BigInt (sd_QuantityValue (sh_Receiving shape)) > 0 \<and>
    sd_AccountID (sh_Sending shape) \<noteq> sd_AccountID (sh_Receiving shape) \<and>
    (\<forall>f. sh_Fee shape = Some f \<longrightarrow> BigInt (fe_QuantityValue f) > 0)"
proof -
  let ?stored = "t_JournalEntries t"
  obtain trading clearing where c: "shapeCandidate t = Some (shape, trading, clearing)"
    "reproduces ?stored (shape_rebuild shape (t_TransactionDate t) trading clearing) = Inr True"
    using assms(1) by (auto simp: TransferShapeOf_def result_simps split: option.splits if_splits)
  obtain rebuilt where r: "shape_rebuild shape (t_TransactionDate t) trading clearing = Inr rebuilt" "sameJournal ?stored rebuilt = Inr True"
    using c(2) by (auto simp: reproduces_True)
  obtain sc sending receiving where k:
    "foldO (shapeEntry (hd ?stored) (length ?stored > 1))
          \<lparr> sc_accounts = [], sc_fee = None, sc_trading = 0, sc_clearing = 0, sc_tradingDays = [] \<rparr> ?stored = Some sc"
    "set (sc_accounts sc) = {sending, receiving}"
    "sh_Sending shape = sideOf sending" "sh_Receiving shape = sideOf receiving"
    "p_AccountID (at_posting sending) \<noteq> p_AccountID (at_posting receiving)"
    "Coefficient_Sign (p_QuantityValue (at_posting sending)) < 0" "Coefficient_Sign (p_QuantityValue (at_posting receiving)) > 0"
    "shapeFee (hd ?stored) sending receiving (sc_fee sc) = Some (sh_Fee shape)"
    using c(1) by (rule shapeCandidate_Some)
  have ok: "scanOk sc"
  proof (rule foldO_invariant [OF k(1), where P = scanOk])
    fix s x s' assume "x \<in> set ?stored" "scanOk s" "shapeEntry (hd ?stored) (length ?stored > 1) s x = Some s'"
    then show "scanOk s'" using assms(2) by (auto simp: storedScalesOk_def intro: shapeEntry_scales)
  qed (simp add: scanOk_def)
  note fee = shapeFee_Some [OF k(8)]
  obtain entry roles kinds where e: "shape_entry shape (t_TransactionDate t) = (entry, roles, kinds)" by (rule prod_cases3)
  have "scaleOk (sd_QuantityScale (sh_Sending shape))" "scaleOk (sd_QuantityScale (sh_Receiving shape))"
    using ok k(2) by (simp_all add: k(3,4) sideOf_def scanOk_def)
  moreover have "scaleOk (fe_QuantityScale f)" if "sh_Fee shape = Some f" for f
    using ok fee that by (auto simp: scanOk_def)
  ultimately have s: "\<forall>e\<in>set rebuilt. balancedLegs (map inputLeg (je_Postings e)) \<and> scalesOk (je_Postings e)"
    using rebuildRestatement_sound [of entry "t_TransactionDate t" roles kinds trading clearing rebuilt] shape_entry_lengths [OF e] r(1) e
    by (simp add: shape_rebuild_def)
  have "\<forall>f. sh_Fee shape = Some f \<longrightarrow> BigInt (fe_QuantityValue f) > 0" using fee by auto
  then show ?thesis
    using r(1) s sameJournal_sound(1) [OF r(2)] assms(2) [unfolded storedScalesOk_def] k(5-7)
    by (intro exI [of _ trading] exI [of _ clearing] exI [of _ rebuilt]) (simp add: k(3,4) sideOf_def Coefficient_Sign_def)
qed

section \<open>An exchange and a stored transfer\<close>

text \<open>102.50 of commodity 7 leaves account 1, 2.50 of it a fee, and 108.00 of commodity 8 reaches account 2.\<close>

definition exchangeRequest :: JournalEntryInput where
  "exchangeRequest = \<lparr> je_EntryDate = ''2026-06-01'', je_EntryKind = ''exchange'', je_Memo = [], je_MetadataJSON = [],
     je_ConversionSide = [], je_FeePaidBy = [],
     je_Postings = [leg 1 (- 10250) [], (leg 2 10800 ''2026-06-03'')\<lparr> pi_CommodityID := 8 \<rparr>, leg 3 250 []] \<rparr>"

definition exchangeKinds :: "exchangeLegKind list" where
  "exchangeKinds = [exchangeAccountLeg, exchangeAccountLeg, exchangeFeeLeg]"

definition exchangeBuilt :: JournalEntryInput where
  "exchangeBuilt = exchangeRequest\<lparr> je_ConversionSide := ''sending'', je_FeePaidBy := ''sending'',
     je_Postings := [leg 1 (- 10250) [], (leg 2 10800 ''2026-06-03'')\<lparr> pi_CommodityID := 8 \<rparr>, leg 3 250 ''2026-06-01'',
       leg 9 10000 ''2026-06-01'', (leg 9 (- 10800) ''2026-06-01'')\<lparr> pi_CommodityID := 8 \<rparr>] \<rparr>"

lemma exchange_built: "exchangeLegs exchangeRequest ''2026-06-01'' exchangeKinds 9 = Inr exchangeBuilt"
  by (simp add: exchangeLegs_def exchangeKinds_def exchangeBuilt_def exchangeRequest_def leg_def emptyPosting_def exchangeBuild_def
    exchangeFee_def exchangeDay_def Let_def Coefficient_Sign_def slow_days sum_eval tradingLeg_def exchangeEntryKind_def
    conversionSending_def conversionReceiving_def)

lemma exchange_scales: "scalesOk (je_Postings exchangeRequest)"
  by (simp add: exchangeRequest_def leg_def emptyPosting_def scaleOk_def MaxPow10Scale_def)

theorem exchange_balances_witness:
  "\<exists>own trading i.
    je_Postings exchangeBuilt = own @ trading \<and> map undated own = map undated (je_Postings exchangeRequest) \<and>
    balancedLegs (map inputLeg (je_Postings exchangeBuilt)) \<and>
    map pi_CommodityID trading = sorted_list_of_set (pi_CommodityID ` set (je_Postings exchangeRequest)) \<and>
    (\<forall>l\<in>set trading. pi_AccountID l = 9 \<and> pi_PostedOn l = exchangeDay exchangeRequest ''2026-06-01'' i) \<and>
    (je_ConversionSide exchangeBuilt = conversionSending \<and> BigInt (pi_QuantityValue (je_Postings exchangeRequest ! i)) < 0 \<or>
     je_ConversionSide exchangeBuilt = conversionReceiving \<and> BigInt (pi_QuantityValue (je_Postings exchangeRequest ! i)) > 0)"
  by (rule exchange_balances [OF exchange_built exchange_scales])

definition storedPosting :: "int \<Rightarrow> int \<Rightarrow> Posting" where
  "storedPosting account v = \<lparr> p_ID = account, p_PostingLineID = account, p_LineKey = [], p_LineSeq = 1, p_AccountID = account,
     p_AccountDaySequence = 1, p_QuantityValue = New v, p_QuantityScale = 2, p_CommodityID = 7, p_Memo = [],
     p_ReconciliationStatus = ''uncleared'', p_ClearedOn = [], p_MetadataJSON = [], p_TagIDs = [], p_AccountName = None,
     p_AccountCode = None, p_AccountSystemRole = None, p_AccountBuiltinKey = None, p_AccountClass = ''asset'',
     p_CommodityCode = ''EUR'', p_CommoditySymbol = None \<rparr>"

definition storedTransfer :: Transaction where
  "storedTransfer = \<lparr> t_ID = 1, t_BookID = 1, t_CorrectionOfTransactionID = None, t_Status = ''posted'', t_TransactionKind = ''transfer'',
     t_TransactionDate = ''2026-06-01'', t_TransactionDaySequence = 1, t_PayeeID = None, t_PayeeName = [], t_Description = [],
     t_ExternalRefHint = [], t_NoteMarkdown = [], t_MetadataJSON = [], t_NeedsReview = False, t_VersionID = 1, t_VersionSeq = 1,
     t_SupersedesVersionID = None, t_TagIDs = [],
     t_JournalEntries = [\<lparr> e_ID = 1, e_EntrySeq = 1, e_EntryDate = ''2026-06-01'', e_EntryKind = ''transfer_leg'', e_Memo = [],
       e_MetadataJSON = [], e_ConversionSide = [], e_FeePaidBy = [], e_Postings = [storedPosting 1 (- 1), storedPosting 2 1] \<rparr>],
     t_CreatedAt = [], t_UpdatedAt = [], t_DeletedAt = [], t_ChangeReason = [], t_SystemLabel = [], t_InvalidatedCheckpointIDs = [] \<rparr>"

lemma storedTransfer_scales: "storedScalesOk storedTransfer"
  by (simp add: storedScalesOk_def storedTransfer_def storedPosting_def scaleOk_def MaxPow10Scale_def)

lemmas restate_eval = storedTransfer_def storedPosting_def restateEntry_def restateStep_def isRestatedAccountPosting_def
    restatedEntry_def restatedKind_def restatedRoles_def restatedSides_def restatedPosting_def exchangeEntryKind_def Let_def

lemmas rebuild_eval = rebuildRestatement_def groupPostingsByDay_def validatePostingsBalanced_def postingDay_def landingDay_def
    reproduces_def sameJournal_def storedKeys_def entryKeys_def postingKey_def ScaledIntFromCoefficient_def ScaledIntFromBig_def
    keysOn_def ScaledInt_Normalized_def bigRem_def normalizeLoop.simps ScaledInt_String_def

lemma storedTransfer_restated: "\<exists>entry. JournalRestatementOf storedTransfer = Inr (Some entry)"
  by (simp add: JournalRestatementOf_def restate_eval rebuild_eval sum_eval)

lemma storedTransfer_shape: "\<exists>shape. TransferShapeOf storedTransfer = Inr (Some shape)"
  by (simp add: TransferShapeOf_def shapeCandidate_def shapeEntry_def shapeStep_def emptyJSON_def shapeFee_def shapeConversion_def
    Coefficient_Sign_def sideOf_def shape_rebuild_def shape_entry_def sidePosting_def emptyPosting_def restate_eval)
     (simp add: rebuild_eval sum_eval slow_days Let_def exchangeEntryKind_def)


theorem transfer_shape_reproduces_journal_witness:
  "\<exists>shape trading clearing rebuilt. TransferShapeOf storedTransfer = Inr (Some shape) \<and>
    shape_rebuild shape (t_TransactionDate storedTransfer) trading clearing = Inr rebuilt \<and>
    storedOn (t_JournalEntries storedTransfer) = postedOn rebuilt"
proof -
  obtain shape where s: "TransferShapeOf storedTransfer = Inr (Some shape)" using storedTransfer_shape by blast
  then show ?thesis using transfer_shape_reproduces_journal [OF s storedTransfer_scales] by blast
qed

end
