(* ===== verification/Ledger_Rules.thy ===== *)
theory Ledger_Rules
  imports Ledger_Types "HOL-Library.Product_Lexorder"
begin

text \<open>
  The lookups a posting is checked against: \<^verbatim>\<open>db/transactions_rules.go\<close>, the effective-dated selection of
  \<^verbatim>\<open>db/reference_date.go\<close>, the payee lookups of \<^verbatim>\<open>db/payees.go\<close>, and the service's reading of a
  missing rule (\<^verbatim>\<open>explainAccountRuleMiss\<close>) and record of the account versions it relied on
  (\<^verbatim>\<open>accountRuleDependencies\<close>). A table is the list of its rows and a query the first row of its result; a
  missing row is None. Failures of the database itself are not modelled.
\<close>

section \<open>Definitions: tables\<close>

record accountRow =
  a_id :: int
  a_book_id :: int
  a_system_role :: "string option"

record accountVersion =
  av_id :: int
  av_account_id :: int
  av_version_seq :: int
  av_effective_from :: string
  av_account_class :: string
  av_account_kind :: string
  av_status :: string
  av_opened_on :: string
  av_closed_on :: "string option"
  av_default_commodity_id :: "int option"
  av_quantity_scale_override :: "int option"
  av_allows_postings :: int

record accountKind =
  ak_code :: string
  ak_account_class :: string
  ak_base_kind :: string

record commodityRow =
  c_id :: int
  c_book_id :: int
  c_kind :: string

record commodityVersion =
  cv_id :: int
  cv_commodity_id :: int
  cv_version_seq :: int
  cv_effective_from :: string
  cv_status :: string
  cv_standard_scale :: int
  cv_max_quantity_scale :: int

record tagRow =
  tag_id :: int
  tag_book_id :: int
  tag_status :: string

record payeeRow =
  py_id :: int
  py_book_id :: int

record payeeVersion =
  pv_id :: int
  pv_payee_id :: int
  pv_version_seq :: int
  pv_effective_from :: string
  pv_status :: string
  pv_name :: string
  pv_normalized_name :: string

record bookTables =
  accounts :: "accountRow list"
  account_versions :: "accountVersion list"
  account_kinds :: "accountKind list"
  commodities :: "commodityRow list"
  commodity_versions :: "commodityVersion list"
  tags :: "tagRow list"
  payees :: "payeeRow list"
  payee_versions :: "payeeVersion list"

section \<open>Definitions: queries\<close>

text \<open>\<^verbatim>\<open>ORDER BY key DESC LIMIT 1\<close> and \<^verbatim>\<open>ORDER BY key LIMIT 1\<close>.\<close>

fun lastBy :: "('v \<Rightarrow> 'k :: linorder) \<Rightarrow> 'v list \<Rightarrow> 'v option" where
  "lastBy key [] = None"
| "lastBy key (v # vs) = (case lastBy key vs of None \<Rightarrow> Some v | Some w \<Rightarrow> if key w > key v then Some w else Some v)"

fun firstBy :: "('v \<Rightarrow> 'k :: linorder) \<Rightarrow> 'v list \<Rightarrow> 'v option" where
  "firstBy key [] = None"
| "firstBy key (v # vs) = (case firstBy key vs of None \<Rightarrow> Some v | Some w \<Rightarrow> if key w < key v then Some w else Some v)"

definition accountVersionsOf :: "bookTables \<Rightarrow> int \<Rightarrow> accountVersion list" where
  "accountVersionsOf bt accountID = filter (\<lambda>av. av_account_id av = accountID) (account_versions bt)"

definition versionKey :: "accountVersion \<Rightarrow> string \<times> int" where
  "versionKey av = (av_effective_from av, av_version_seq av)"

text \<open>The columns both account queries select, for one account and one of its versions.\<close>

definition accountRule :: "bookTables \<Rightarrow> accountRow \<Rightarrow> accountVersion \<Rightarrow> PostingAccountRule option" where
  "accountRule bt a av = (case find (\<lambda>ak. ak_code ak = av_account_kind av \<and> ak_account_class ak = av_account_class av) (account_kinds bt) of
       None \<Rightarrow> None
     | Some ak \<Rightarrow> Some \<lparr> ar_AccountID = a_id a, ar_AccountClass = av_account_class av, ar_Status = av_status av,
         ar_OpenedOn = av_opened_on av, ar_ClosedOn = av_closed_on av, ar_DefaultCommodityID = av_default_commodity_id av,
         ar_QuantityScaleOverride = av_quantity_scale_override av, ar_AllowsPostings = (av_allows_postings av = 1),
         ar_IsSystem = (a_system_role a \<noteq> None), ar_AccountKind = av_account_kind av, ar_EffectiveFrom = av_effective_from av,
         ar_VersionID = av_id av, ar_LatestVersionID = Max (av_id ` set (accountVersionsOf bt (a_id a))),
         ar_BaseKind = ak_base_kind ak \<rparr>)"

definition findAccount :: "bookTables \<Rightarrow> int \<Rightarrow> int \<Rightarrow> accountRow option" where
  "findAccount bt bookID accountID = find (\<lambda>a. a_book_id a = bookID \<and> a_id a = accountID) (accounts bt)"

definition lookupPostingAccountRule :: "bookTables \<Rightarrow> int \<Rightarrow> int \<Rightarrow> string \<Rightarrow> PostingAccountRule option" where
  "lookupPostingAccountRule bt bookID accountID entryDate = (case findAccount bt bookID accountID of
       None \<Rightarrow> None
     | Some a \<Rightarrow>
         (case lastBy versionKey (filter (\<lambda>av. av_effective_from av \<le> entryDate) (accountVersionsOf bt (a_id a))) of
            None \<Rightarrow> None
          | Some av \<Rightarrow> accountRule bt a av))"

definition EarliestPostingAccountRule :: "bookTables \<Rightarrow> int \<Rightarrow> int \<Rightarrow> PostingAccountRule option" where
  "EarliestPostingAccountRule bt bookID accountID = (case findAccount bt bookID accountID of
       None \<Rightarrow> None
     | Some a \<Rightarrow>
         (case firstBy versionKey (accountVersionsOf bt (a_id a)) of
            None \<Rightarrow> None
          | Some av \<Rightarrow> accountRule bt a av))"

definition lookupPostingCommodityRule :: "bookTables \<Rightarrow> int \<Rightarrow> int \<Rightarrow> string \<Rightarrow> PostingCommodityRule option" where
  "lookupPostingCommodityRule bt bookID commodityID entryDate =
     (case find (\<lambda>c. c_book_id c = bookID \<and> c_id c = commodityID) (commodities bt) of
        None \<Rightarrow> None
      | Some c \<Rightarrow>
          (case lastBy (\<lambda>cv. (cv_effective_from cv, cv_version_seq cv))
              (filter (\<lambda>cv. cv_commodity_id cv = c_id c \<and> cv_effective_from cv \<le> entryDate) (commodity_versions bt)) of
             None \<Rightarrow> None
           | Some cv \<Rightarrow> Some \<lparr> cr_CommodityID = c_id c, cr_Status = cv_status cv, cr_MaxQuantityScale = cv_max_quantity_scale cv,
               cr_StandardScale = cv_standard_scale cv, cr_CommodityBookID = c_book_id c, cr_CommodityKind = c_kind c \<rparr>))"

definition ActiveTagIDs :: "bookTables \<Rightarrow> int \<Rightarrow> int list \<Rightarrow> int set" where
  "ActiveTagIDs bt bookID tagIDs =
     tag_id ` set (filter (\<lambda>t. tag_book_id t = bookID \<and> tag_status t = ''active'' \<and> tag_id t \<in> set tagIDs) (tags bt))"

definition SystemAccountID :: "bookTables \<Rightarrow> int \<Rightarrow> string \<Rightarrow> int option" where
  "SystemAccountID bt bookID role = map_option a_id (find (\<lambda>a. a_book_id a = bookID \<and> a_system_role a = Some role) (accounts bt))"

text \<open>The version of a payee in effect on the reference date.\<close>

definition currentPayeeVersion :: "bookTables \<Rightarrow> string \<Rightarrow> int \<Rightarrow> payeeVersion option" where
  "currentPayeeVersion bt referenceDate payeeID = lastBy (\<lambda>pv. (pv_effective_from pv, pv_version_seq pv))
     (filter (\<lambda>pv. pv_payee_id pv = payeeID \<and> pv_effective_from pv \<le> referenceDate) (payee_versions bt))"

definition PayeeByID :: "bookTables \<Rightarrow> string \<Rightarrow> int \<Rightarrow> int \<Rightarrow> payeeVersion option" where
  "PayeeByID bt referenceDate bookID payeeID = (case find (\<lambda>p. py_book_id p = bookID \<and> py_id p = payeeID) (payees bt) of
       None \<Rightarrow> None | Some p \<Rightarrow> currentPayeeVersion bt referenceDate (py_id p))"

definition PayeeByNormalizedName :: "bookTables \<Rightarrow> string \<Rightarrow> int \<Rightarrow> string \<Rightarrow> (int \<times> string) option" where
  "PayeeByNormalizedName bt referenceDate bookID normalizedName = (
     case concat (map (\<lambda>p. case currentPayeeVersion bt referenceDate (py_id p) of
              None \<Rightarrow> []
            | Some pv \<Rightarrow> if pv_status pv = ''active'' \<and> pv_normalized_name pv = normalizedName then [(py_id p, pv_name pv)] else [])
            (filter (\<lambda>p. py_book_id p = bookID) (payees bt))) of
       [] \<Rightarrow> None | x # _ \<Rightarrow> Some x)"

section \<open>Definitions: reading the rules\<close>

datatype accountRuleMiss = accountMissing | accountNotYetOpened | accountVersionGap

definition explainAccountRuleMiss :: "bookTables \<Rightarrow> int \<Rightarrow> int \<Rightarrow> string \<Rightarrow> accountRuleMiss \<times> PostingAccountRule option" where
  "explainAccountRuleMiss bt bookID accountID date = (case EarliestPostingAccountRule bt bookID accountID of
       None \<Rightarrow> (accountMissing, None)
     | Some earliest \<Rightarrow>
         if date < ar_OpenedOn earliest then (accountNotYetOpened, Some earliest)
         else if date < ar_EffectiveFrom earliest then (accountVersionGap, Some earliest)
         else (accountMissing, Some earliest))"

definition subledgerManagedBaseKind :: string where "subledgerManagedBaseKind = ''security_holding''"

definition isSubledgerManagedAccount :: "PostingAccountRule \<Rightarrow> bool" where
  "isSubledgerManagedAccount rule \<longleftrightarrow> ar_BaseKind rule = subledgerManagedBaseKind"

text \<open>The dependencies collected so far, one version per account, in no particular order; None is a nil collector.\<close>

type_synonym accountRuleDependencies = "(int \<times> int) list option"

definition observe :: "accountRuleDependencies \<Rightarrow> PostingAccountRule \<Rightarrow> accountRuleDependencies" where
  "observe d rule = (case d of
       None \<Rightarrow> None
     | Some deps \<Rightarrow>
         if ar_AccountID rule \<le> 0 \<or> map_of deps (ar_AccountID rule) \<noteq> None then Some deps
         else Some (deps @ [(ar_AccountID rule, ar_LatestVersionID rule)]))"

definition dependencies_list :: "accountRuleDependencies \<Rightarrow> (int \<times> int) list" where
  "dependencies_list d = (case d of None \<Rightarrow> [] | Some deps \<Rightarrow> sort_key fst deps)"

section \<open>Selection by key\<close>

lemma lastBy_None [simp]: "lastBy key vs = None \<longleftrightarrow> vs = []"
  by (cases vs) (auto split: option.splits)

lemma firstBy_None [simp]: "firstBy key vs = None \<longleftrightarrow> vs = []"
  by (cases vs) (auto split: option.splits)

lemma lastBy_Some: "lastBy key vs = Some v \<Longrightarrow> v \<in> set vs \<and> (\<forall>w\<in>set vs. key w \<le> key v)"
  by (induction vs arbitrary: v) (fastforce split: option.splits if_splits)+

lemma firstBy_Some: "firstBy key vs = Some v \<Longrightarrow> v \<in> set vs \<and> (\<forall>w\<in>set vs. key v \<le> key w)"
  by (induction vs arbitrary: v) (fastforce split: option.splits if_splits)+

lemma firstBy_fst_le:
  assumes "firstBy key vs = Some v" and "w \<in> set vs"
  shows "fst (key v) \<le> fst (key w)"
  using firstBy_Some [OF assms(1)] assms(2) by (auto simp: less_eq_prod_def order.strict_implies_order)

section \<open>The contract of the account rules\<close>

text \<open>
  What the service relies on when it reads an account's rule as of a date: a hit is a version in effect
  that day, of that account; and on a date that finds nothing, either the account has no version at all or its
  earliest one takes effect later. \<open>wf\<close> is the referential integrity the laws rest on.
\<close>

locale account_rules =
  fixes wf :: "'b \<Rightarrow> bool"
    and asOf :: "'b \<Rightarrow> int \<Rightarrow> string \<Rightarrow> PostingAccountRule option"
    and earliest :: "'b \<Rightarrow> int \<Rightarrow> PostingAccountRule option"
  assumes asOf_hit: "asOf b account date = Some rule \<Longrightarrow> ar_AccountID rule = account \<and> ar_EffectiveFrom rule \<le> date"
    and asOf_miss: "wf b \<Longrightarrow> asOf b account date = None \<longleftrightarrow>
      (case earliest b account of None \<Rightarrow> True | Some rule \<Rightarrow> date < ar_EffectiveFrom rule)"
begin

lemma miss_before_first:
  "wf b \<Longrightarrow> asOf b account date = None \<Longrightarrow> earliest b account = Some rule \<Longrightarrow> date < ar_EffectiveFrom rule"
  by (simp add: asOf_miss)

lemma miss_is_downward_closed:
  "wf b \<Longrightarrow> asOf b account date = None \<Longrightarrow> date' \<le> date \<Longrightarrow> asOf b account date' = None"
  by (auto simp: asOf_miss split: option.splits intro: order.strict_trans1)

end

text \<open>Every version names an existing account kind (the foreign key of \<^verbatim>\<open>account_versions\<close>).\<close>

definition kindsKnown :: "bookTables \<Rightarrow> bool" where
  "kindsKnown bt \<longleftrightarrow> list_all (\<lambda>av. list_ex (\<lambda>ak. ak_code ak = av_account_kind av \<and> ak_account_class ak = av_account_class av) (account_kinds bt))
     (account_versions bt)"

lemma findAccount_Some: "findAccount bt bookID account = Some a \<Longrightarrow> a \<in> set (accounts bt) \<and> a_book_id a = bookID \<and> a_id a = account"
  unfolding findAccount_def by (auto simp: find_Some_iff)

lemma accountRule_fields:
  assumes "accountRule bt a av = Some rule"
  shows "ar_AccountID rule = a_id a" "ar_EffectiveFrom rule = av_effective_from av" "ar_OpenedOn rule = av_opened_on av"
    "ar_VersionID rule = av_id av" "ar_LatestVersionID rule = Max (av_id ` set (accountVersionsOf bt (a_id a)))"
  using assms by (auto simp: accountRule_def split: option.splits)

lemma accountRule_known:
  assumes "kindsKnown bt" and "av \<in> set (account_versions bt)"
  obtains rule where "accountRule bt a av = Some rule"
proof -
  have "find (\<lambda>ak. ak_code ak = av_account_kind av \<and> ak_account_class ak = av_account_class av) (account_kinds bt) \<noteq> None"
    using assms by (auto simp: kindsKnown_def list_all_iff list_ex_iff find_None_iff)
  then show ?thesis using that by (auto simp: accountRule_def split: option.splits)
qed

lemma lookup_hit:
  assumes "lookupPostingAccountRule bt bookID account date = Some rule"
  obtains a av where "findAccount bt bookID account = Some a" "av \<in> set (accountVersionsOf bt account)" "av_effective_from av \<le> date"
    "\<forall>w\<in>set (accountVersionsOf bt account). av_effective_from w \<le> date \<longrightarrow> versionKey w \<le> versionKey av"
    "accountRule bt a av = Some rule"
proof -
  from assms obtain a av where a: "findAccount bt bookID account = Some a"
    and av: "lastBy versionKey (filter (\<lambda>av. av_effective_from av \<le> date) (accountVersionsOf bt (a_id a))) = Some av"
    and r: "accountRule bt a av = Some rule"
    by (auto simp: lookupPostingAccountRule_def split: option.splits)
  from a have "a_id a = account" by (simp add: findAccount_Some)
  with lastBy_Some [OF av] show ?thesis by (intro that [OF a _ _ _ r]) auto
qed

lemma account_rules_miss:
  assumes wf: "kindsKnown bt"
  shows "lookupPostingAccountRule bt bookID account date = None \<longleftrightarrow>
    (case EarliestPostingAccountRule bt bookID account of None \<Rightarrow> True | Some rule \<Rightarrow> date < ar_EffectiveFrom rule)"
proof (cases "findAccount bt bookID account")
  case None
  then show ?thesis by (simp add: lookupPostingAccountRule_def EarliestPostingAccountRule_def)
next
  case (Some a)
  let ?vs = "accountVersionsOf bt (a_id a)"
  have in_table: "av \<in> set (account_versions bt)" if "av \<in> set ?vs" for av using that by (simp add: accountVersionsOf_def)
  show ?thesis
  proof (cases "firstBy versionKey ?vs")
    case None
    then show ?thesis using Some by (simp add: lookupPostingAccountRule_def EarliestPostingAccountRule_def)
  next
    case (Some v)
    from firstBy_Some [OF Some] have v: "v \<in> set ?vs" by simp
    obtain r where r: "accountRule bt a v = Some r" using accountRule_known [OF wf in_table [OF v]] .
    then have e: "EarliestPostingAccountRule bt bookID account = Some r"
      using \<open>findAccount bt bookID account = Some a\<close> Some by (simp add: EarliestPostingAccountRule_def)
    have first: "av_effective_from v \<le> av_effective_from w" if "w \<in> set ?vs" for w
      using firstBy_fst_le [OF Some that] by (simp add: versionKey_def)
    have "lookupPostingAccountRule bt bookID account date = None \<longleftrightarrow> filter (\<lambda>av. av_effective_from av \<le> date) ?vs = []"
    proof (cases "lastBy versionKey (filter (\<lambda>av. av_effective_from av \<le> date) ?vs)")
      case None
      then show ?thesis using \<open>findAccount bt bookID account = Some a\<close> by (simp add: lookupPostingAccountRule_def)
    next
      case (Some w)
      from lastBy_Some [OF Some] have w: "w \<in> set ?vs" "av_effective_from w \<le> date" by auto
      obtain r' where "accountRule bt a w = Some r'" using accountRule_known [OF wf in_table [OF w(1)]] .
      then show ?thesis using \<open>findAccount bt bookID account = Some a\<close> Some w
        by (auto simp: lookupPostingAccountRule_def filter_empty_conv)
    qed
    also have "\<dots> \<longleftrightarrow> date < av_effective_from v"
      using first v by (auto simp: filter_empty_conv not_le intro: order.strict_trans2)
    finally show ?thesis using e accountRule_fields(2) [OF r] by simp
  qed
qed

interpretation book: account_rules kindsKnown
  "\<lambda>bt. lookupPostingAccountRule bt bookID" "\<lambda>bt. EarliestPostingAccountRule bt bookID" for bookID
proof
  fix bt account date rule
  assume "lookupPostingAccountRule bt bookID account date = Some rule"
  then show "ar_AccountID rule = account \<and> ar_EffectiveFrom rule \<le> date"
    by (elim lookup_hit) (simp add: accountRule_fields findAccount_Some)
qed (rule account_rules_miss)

text \<open>
  What a missing rule means, for tables whose versions name known kinds. When the lookup as of a date
  finds no version of an account, the explanation is "missing" exactly when the book has no such
  account or the account no version; "not yet opened" exactly when the date precedes the opening
  recorded by the account's earliest version; and "version gap" exactly when the account was open but that version takes
  effect after the date. The defensive default branch of the classification is never taken.
\<close>

theorem account_rule_miss_classified:
  assumes "kindsKnown bt" and "lookupPostingAccountRule bt bookID account date = None"
  shows "case explainAccountRuleMiss bt bookID account date of
      (accountMissing, r) \<Rightarrow> r = None \<and> (findAccount bt bookID account = None \<or> accountVersionsOf bt account = [])
    | (accountNotYetOpened, r) \<Rightarrow> (\<exists>rule. r = Some rule \<and> EarliestPostingAccountRule bt bookID account = Some rule \<and> date < ar_OpenedOn rule)
    | (accountVersionGap, r) \<Rightarrow> (\<exists>rule. r = Some rule \<and> EarliestPostingAccountRule bt bookID account = Some rule \<and>
        ar_OpenedOn rule \<le> date \<and> date < ar_EffectiveFrom rule)"
proof (cases "EarliestPostingAccountRule bt bookID account")
  case None
  have "accountVersionsOf bt account = []" if a: "findAccount bt bookID account = Some a" for a
  proof (rule ccontr)
    assume "accountVersionsOf bt account \<noteq> []"
    then obtain v where v: "firstBy versionKey (accountVersionsOf bt (a_id a)) = Some v"
      using findAccount_Some [OF a] by fastforce
    then have "v \<in> set (account_versions bt)" using firstBy_Some [OF v] by (simp add: accountVersionsOf_def)
    then obtain r where "accountRule bt a v = Some r" using accountRule_known [OF assms(1)] by metis
    then show False using None a v by (simp add: EarliestPostingAccountRule_def)
  qed
  then have "findAccount bt bookID account = None \<or> accountVersionsOf bt account = []"
    by (cases "findAccount bt bookID account") simp_all
  then show ?thesis using None by (simp add: explainAccountRuleMiss_def)
next
  case (Some rule)
  then show ?thesis using book.miss_before_first [OF assms Some] by (auto simp: explainAccountRuleMiss_def not_less)
qed

section \<open>Dependencies\<close>

lemma observe_Some:
  "observe (Some deps) rule = Some (if ar_AccountID rule \<le> 0 \<or> map_of deps (ar_AccountID rule) \<noteq> None then deps
     else deps @ [(ar_AccountID rule, ar_LatestVersionID rule)])"
  by (simp add: observe_def)

lemma observe_collects:
  assumes "distinct (map fst deps)"
  shows "\<exists>deps'. foldl observe (Some deps) rules = Some deps' \<and> distinct (map fst deps') \<and>
    (\<forall>a. map_of deps' a = (case map_of deps a of Some v \<Rightarrow> Some v | None \<Rightarrow>
      if a \<le> 0 then None else map_option ar_LatestVersionID (find (\<lambda>r. ar_AccountID r = a) rules)))"
  using assms
proof (induction rules arbitrary: deps)
  case Nil
  then show ?case by (auto split: option.splits)
next
  case (Cons r rules)
  define deps1 where "deps1 = (if ar_AccountID r \<le> 0 \<or> map_of deps (ar_AccountID r) \<noteq> None then deps
     else deps @ [(ar_AccountID r, ar_LatestVersionID r)])"
  have d1: "distinct (map fst deps1)" using Cons.prems by (auto simp: deps1_def map_of_eq_None_iff)
  have e: "foldl observe (Some deps) (r # rules) = foldl observe (Some deps1) rules"
    by (simp add: observe_Some deps1_def)
  have "(case map_of deps1 a of Some v \<Rightarrow> Some v | None \<Rightarrow>
      if a \<le> 0 then None else map_option ar_LatestVersionID (find (\<lambda>r. ar_AccountID r = a) rules)) =
    (case map_of deps a of Some v \<Rightarrow> Some v | None \<Rightarrow>
      if a \<le> 0 then None else map_option ar_LatestVersionID (find (\<lambda>r. ar_AccountID r = a) (r # rules)))" for a
    by (auto simp: deps1_def map_add_def split: option.splits)
  then show ?case using Cons.IH [OF d1] unfolding e by simp
qed

lemma map_of_sort_key_fst:
  assumes "distinct (map fst xs)"
  shows "distinct (map fst (sort_key fst xs))" "map_of (sort_key fst xs) = map_of xs"
proof -
  show d: "distinct (map fst (sort_key fst xs))"
    using assms mset_eq_imp_distinct_iff [of "map fst (sort_key fst xs)" "map fst xs"] by simp
  show "map_of (sort_key fst xs) = map_of xs"
    using map_of_inject_set [OF d assms] by simp
qed

text \<open>
  The account versions a write depends on. However many checks read a rule, and whatever versions
  appear between two of the reads, the list handed to the writer names every account read exactly once,
  in account order, with the latest version that existed at the first read of that account.
\<close>

theorem dependencies_first_sighting:
  fixes rules :: "PostingAccountRule list"
  defines "listed \<equiv> dependencies_list (foldl observe (Some []) rules)"
  shows "sorted (map fst listed) \<and> distinct (map fst listed) \<and>
    map_of listed account = (if account \<le> 0 then None else
      map_option ar_LatestVersionID (find (\<lambda>r. ar_AccountID r = account) rules))"
proof -
  obtain deps where d: "foldl observe (Some []) rules = Some deps" "distinct (map fst deps)"
    and "\<forall>a. map_of deps a = (if a \<le> 0 then None else map_option ar_LatestVersionID (find (\<lambda>r. ar_AccountID r = a) rules))"
    using observe_collects [of "[]" rules] by auto
  moreover have "listed = sort_key fst deps" by (simp add: listed_def d dependencies_list_def)
  ultimately show ?thesis using map_of_sort_key_fst [OF d(2)] by simp
qed

section \<open>Witness\<close>

definition gapVersion :: accountVersion where
  "gapVersion = \<lparr> av_id = 3, av_account_id = 1, av_version_seq = 1, av_effective_from = ''2026-02-01'', av_account_class = ''asset'',
     av_account_kind = ''bank'', av_status = ''active'', av_opened_on = ''2026-01-01'', av_closed_on = None,
     av_default_commodity_id = None, av_quantity_scale_override = None, av_allows_postings = 1 \<rparr>"

definition gapBook :: bookTables where
  "gapBook = \<lparr> accounts = [\<lparr> a_id = 1, a_book_id = 1, a_system_role = None \<rparr>], account_versions = [gapVersion],
     account_kinds = [\<lparr> ak_code = ''bank'', ak_account_class = ''asset'', ak_base_kind = ''cash'' \<rparr>],
     commodities = [], commodity_versions = [], tags = [], payees = [], payee_versions = [] \<rparr>"

lemma gapBook_miss: "kindsKnown gapBook" "lookupPostingAccountRule gapBook 1 1 ''2026-01-15'' = None"
  by (simp_all add: kindsKnown_def gapBook_def gapVersion_def lookupPostingAccountRule_def findAccount_def accountVersionsOf_def)

theorem account_rule_miss_classified_witness:
  "case explainAccountRuleMiss gapBook 1 1 ''2026-01-15'' of
      (accountMissing, r) \<Rightarrow> r = None \<and> (findAccount gapBook 1 1 = None \<or> accountVersionsOf gapBook 1 = [])
    | (accountNotYetOpened, r) \<Rightarrow> (\<exists>rule. r = Some rule \<and> EarliestPostingAccountRule gapBook 1 1 = Some rule \<and> ''2026-01-15'' < ar_OpenedOn rule)
    | (accountVersionGap, r) \<Rightarrow> (\<exists>rule. r = Some rule \<and> EarliestPostingAccountRule gapBook 1 1 = Some rule \<and>
        ar_OpenedOn rule \<le> ''2026-01-15'' \<and> ''2026-01-15'' < ar_EffectiveFrom rule)"
  by (rule account_rule_miss_classified [OF gapBook_miss])

end
