(* ===== verification/Go_JSON.thy ===== *)
theory Go_JSON
  imports Prelude
begin

text \<open>
  The part of Go's \<^verbatim>\<open>encoding/json\<close> the service uses on metadata: \<^verbatim>\<open>Valid\<close> and \<^verbatim>\<open>Compact\<close>, as the byte scanner both
  share. A step consumes one byte and says whether \<^verbatim>\<open>Compact\<close> writes it; the stack records the open
  objects and arrays, at most 10000 of them.
\<close>

section \<open>Definitions\<close>

datatype jsonStep =
    BeginValue | BeginValueOrEmpty | BeginString | BeginStringOrEmpty | EndValue | EndTop
  | InString | InStringEsc | InStringEscU nat
  | Neg | Num1 | Num0 | Dot | Dot0 | Expo | ExpoSign | Expo0
  | Literal string

datatype jsonOpen = ObjectKey | ObjectValue | ArrayValue

definition maxNestingDepth :: nat where "maxNestingDepth = 10000"

definition jsonSpace :: "char \<Rightarrow> bool" where
  "jsonSpace c \<longleftrightarrow> c = CHR 0x20 \<or> c = CHR 0x09 \<or> c = CHR 0x0D \<or> c = CHR 0x0A"

definition isHex :: "char \<Rightarrow> bool" where
  "isHex c \<longleftrightarrow> isDigit c \<or> (97 \<le> byteVal c \<and> byteVal c \<le> 102) \<or> (65 \<le> byteVal c \<and> byteVal c \<le> 70)"

definition pushParseState :: "jsonStep \<Rightarrow> jsonOpen \<Rightarrow> jsonOpen list \<Rightarrow> (jsonStep \<times> jsonOpen list \<times> bool) option" where
  "pushParseState st o1 stack = (if length stack < maxNestingDepth then Some (st, o1 # stack, True) else None)"

definition popParseState :: "jsonOpen list \<Rightarrow> (jsonStep \<times> jsonOpen list \<times> bool) option" where
  "popParseState stack = Some (if tl stack = [] then EndTop else EndValue, tl stack, True)"

definition stateEndValue :: "jsonOpen list \<Rightarrow> char \<Rightarrow> (jsonStep \<times> jsonOpen list \<times> bool) option" where
  "stateEndValue stack c = (case stack of
       [] \<Rightarrow> if jsonSpace c then Some (EndTop, [], False) else None
     | innermost # rest \<Rightarrow>
         if jsonSpace c then Some (EndValue, stack, False)
         else (case innermost of
             ObjectKey \<Rightarrow> if c = CHR '':'' then Some (BeginValue, ObjectValue # rest, True) else None
           | ObjectValue \<Rightarrow>
               if c = CHR '','' then Some (BeginString, ObjectKey # rest, True)
               else if c = CHR ''}'' then popParseState stack else None
           | ArrayValue \<Rightarrow>
               if c = CHR '','' then Some (BeginValue, stack, True)
               else if c = CHR '']'' then popParseState stack else None))"

definition stateBeginValue :: "jsonOpen list \<Rightarrow> char \<Rightarrow> (jsonStep \<times> jsonOpen list \<times> bool) option" where
  "stateBeginValue stack c = (
     if jsonSpace c then Some (BeginValue, stack, False)
     else if c = CHR ''{'' then pushParseState BeginStringOrEmpty ObjectKey stack
     else if c = CHR ''['' then pushParseState BeginValueOrEmpty ArrayValue stack
     else if c = CHR 0x22 then Some (InString, stack, True)
     else if c = CHR ''-'' then Some (Neg, stack, True)
     else if c = CHR ''0'' then Some (Num0, stack, True)
     else if isDigit c then Some (Num1, stack, True)
     else if c = CHR ''t'' then Some (Literal ''rue'', stack, True)
     else if c = CHR ''f'' then Some (Literal ''alse'', stack, True)
     else if c = CHR ''n'' then Some (Literal ''ull'', stack, True)
     else None)"

definition stateBeginString :: "jsonOpen list \<Rightarrow> char \<Rightarrow> (jsonStep \<times> jsonOpen list \<times> bool) option" where
  "stateBeginString stack c = (
     if jsonSpace c then Some (BeginString, stack, False)
     else if c = CHR 0x22 then Some (InString, stack, True) else None)"

fun jsonScan :: "jsonStep \<Rightarrow> jsonOpen list \<Rightarrow> char \<Rightarrow> (jsonStep \<times> jsonOpen list \<times> bool) option" where
  "jsonScan BeginValue stack c = stateBeginValue stack c"
| "jsonScan BeginValueOrEmpty stack c = (
     if jsonSpace c then Some (BeginValueOrEmpty, stack, False)
     else if c = CHR '']'' then stateEndValue stack c else stateBeginValue stack c)"
| "jsonScan BeginString stack c = stateBeginString stack c"
| "jsonScan BeginStringOrEmpty stack c = (
     if jsonSpace c then Some (BeginStringOrEmpty, stack, False)
     else if c = CHR ''}'' then stateEndValue (ObjectValue # tl stack) c else stateBeginString stack c)"
| "jsonScan EndValue stack c = stateEndValue stack c"
| "jsonScan EndTop stack c = (if jsonSpace c then Some (EndTop, stack, False) else None)"
| "jsonScan InString stack c = (
     if c = CHR 0x22 then Some (EndValue, stack, True)
     else if c = CHR 0x5C then Some (InStringEsc, stack, True)
     else if byteVal c < 32 then None else Some (InString, stack, True))"
| "jsonScan InStringEsc stack c = (
     if c \<in> {CHR ''b'', CHR ''f'', CHR ''n'', CHR ''r'', CHR ''t'', CHR 0x5C, CHR ''/'', CHR 0x22} then Some (InString, stack, True)
     else if c = CHR ''u'' then Some (InStringEscU 4, stack, True) else None)"
| "jsonScan (InStringEscU n) stack c = (
     if isHex c then Some (if n \<le> 1 then InString else InStringEscU (n - 1), stack, True) else None)"
| "jsonScan Neg stack c = (
     if c = CHR ''0'' then Some (Num0, stack, True) else if isDigit c then Some (Num1, stack, True) else None)"
| "jsonScan Num1 stack c = (
     if isDigit c then Some (Num1, stack, True)
     else if c = CHR ''.'' then Some (Dot, stack, True)
     else if c = CHR ''e'' \<or> c = CHR ''E'' then Some (Expo, stack, True) else stateEndValue stack c)"
| "jsonScan Num0 stack c = (
     if c = CHR ''.'' then Some (Dot, stack, True)
     else if c = CHR ''e'' \<or> c = CHR ''E'' then Some (Expo, stack, True) else stateEndValue stack c)"
| "jsonScan Dot stack c = (if isDigit c then Some (Dot0, stack, True) else None)"
| "jsonScan Dot0 stack c = (
     if isDigit c then Some (Dot0, stack, True)
     else if c = CHR ''e'' \<or> c = CHR ''E'' then Some (Expo, stack, True) else stateEndValue stack c)"
| "jsonScan Expo stack c = (
     if c = CHR ''+'' \<or> c = CHR ''-'' then Some (ExpoSign, stack, True)
     else if isDigit c then Some (Expo0, stack, True) else None)"
| "jsonScan ExpoSign stack c = (if isDigit c then Some (Expo0, stack, True) else None)"
| "jsonScan Expo0 stack c = (if isDigit c then Some (Expo0, stack, True) else stateEndValue stack c)"
| "jsonScan (Literal rest) stack c = (case rest of
       [] \<Rightarrow> stateEndValue stack c
     | r # rs \<Rightarrow> if c = r then Some (if rs = [] then EndValue else Literal rs, stack, True) else None)"

text \<open>
  The scan of a whole text: its compact form, or none when it is not valid. At the end one more
  space must bring the scanner to the end of the top-level value.
\<close>

fun jsonCompact :: "jsonStep \<Rightarrow> jsonOpen list \<Rightarrow> string \<Rightarrow> string option" where
  "jsonCompact st stack [] = (if st = EndTop then Some []
     else case jsonScan st stack (CHR 0x20) of Some (EndTop, _, _) \<Rightarrow> Some [] | _ \<Rightarrow> None)"
| "jsonCompact st stack (c # cs) = (case jsonScan st stack c of
       None \<Rightarrow> None
     | Some (st', stack', keep) \<Rightarrow> map_option (\<lambda>out. if keep then c # out else out) (jsonCompact st' stack' cs))"

definition json_Compact :: "string \<Rightarrow> string option" where
  "json_Compact s = jsonCompact BeginValue [] s"

definition json_Valid :: "string \<Rightarrow> bool" where
  "json_Valid s \<longleftrightarrow> json_Compact s \<noteq> None"

section \<open>What the scanner keeps\<close>

text \<open>The compact form is the text without some of its white space.\<close>

lemma jsonScan_skips_space: "jsonScan st stack c = Some (st', stack', False) \<Longrightarrow> jsonSpace c"
  by (cases st) (auto simp: stateBeginValue_def stateBeginString_def stateEndValue_def pushParseState_def popParseState_def
      split: if_splits list.splits jsonOpen.splits)

lemma json_Compact_filter:
  "jsonCompact st stack s = Some out \<Longrightarrow> filter (\<lambda>c. \<not> jsonSpace c) out = filter (\<lambda>c. \<not> jsonSpace c) s \<and> length out \<le> length s"
proof (induction st stack s arbitrary: out rule: jsonCompact.induct)
  case (2 st stack c cs)
  then obtain st' stack' keep out' where s: "jsonScan st stack c = Some (st', stack', keep)"
    "jsonCompact st' stack' cs = Some out'" "out = (if keep then c # out' else out')"
    by (auto split: option.splits prod.splits)
  have "filter (\<lambda>c. \<not> jsonSpace c) out' = filter (\<lambda>c. \<not> jsonSpace c) cs \<and> length out' \<le> length cs"
    using 2(1) [OF s(1) refl refl s(2)] .
  then show ?case using s jsonScan_skips_space [of st stack c st' stack'] by (cases keep) auto
qed (auto split: if_splits option.splits jsonStep.splits)

lemma json_empty_object: "json_Compact ''{}'' = Some ''{}''"
  by (simp add: json_Compact_def stateBeginValue_def jsonSpace_def pushParseState_def maxNestingDepth_def stateEndValue_def
      popParseState_def)

end
