(* ===== verification/Validate.thy ===== *)
theory Validate
  imports Exchange Ledger_Rules Go_JSON
begin

text \<open>
  The writer's validation, \<^verbatim>\<open>app/transactions_validate.go\<close>, with the lookups of the posted-date and exchange rules: a
  request becomes the specification the repository stores, or a refusal. A run reads the book's
  tables and threads two things: the account versions it has relied on, and the number of line keys
  it has drawn. Both survive a refusal, as in the code. What the settings answer (the owner's day,
  the reference date) and the key generator are given by the environment.
\<close>

section \<open>Definitions: constants\<close>

definition BookID :: int where "BookID = 1"

definition transactionTextMaxBytes :: int where "transactionTextMaxBytes = 500"

definition transactionNoteMaxBytes :: int where "transactionNoteMaxBytes = 10000"

definition ledgerJSONMaxBytes :: int where "ledgerJSONMaxBytes = 10000"

definition payeeNameMaxBytes :: int where "payeeNameMaxBytes = 200"

definition transactionStatuses :: "string list" where
  "transactionStatuses = [''draft'', ''posted'', ''voided'']"

definition transactionKinds :: "string list" where
  "transactionKinds = [''ordinary'', ''transfer'', ''investment'', ''opening_balance'', ''adjustment'']"

definition entryKinds :: "string list" where
  "entryKinds = [''ordinary'', ''transfer_leg'', ''exchange'', ''investment'', ''opening_balance'', ''adjustment'']"

definition reconciliationStatuses :: "string list" where
  "reconciliationStatuses = [''uncleared'', ''cleared'', ''reconciled'']"

section \<open>Definitions: options and state of a run\<close>

record existingPostingState =
  xs_ReconciliationStatus :: string
  xs_ClearedOn :: string
  xs_EntryDate :: string
  xs_Posting :: PostingRecord

record cleanTransactionOptions =
  op_OwnerUserID :: int
  op_DefaultStatus :: string
  op_ForcedStatus :: string
  op_ExistingLineKeys :: "string list option"
  op_ExistingPostings :: "string \<rightharpoonup> existingPostingState"
  op_AllowSubledgerManagedPostings :: bool

text \<open>The tables, the days the settings answer, the line keys the generator draws in turn, and Unicode lower case.\<close>

record ledgerEnv =
  env_tables :: bookTables
  env_today :: "int \<Rightarrow> string"
  env_referenceDate :: string
  env_newLineKey :: "nat \<Rightarrow> string"
  env_unicodeLower :: "string \<Rightarrow> string"

record cleanState =
  cs_deps :: accountRuleDependencies
  cs_drawn :: nat

type_synonym 'a clean = "(cleanState, ledger_error, 'a) action"

definition observeW :: "PostingAccountRule \<Rightarrow> unit clean" where
  "observeW rule s = (s\<lparr> cs_deps := observe (cs_deps s) rule \<rparr>, Inr ())"

definition newLineKey :: "ledgerEnv \<Rightarrow> string clean" where
  "newLineKey env s = (s\<lparr> cs_drawn := Suc (cs_drawn s) \<rparr>, Inr (env_newLineKey env (cs_drawn s)))"

section \<open>Definitions: fields\<close>

definition cleanSizedJSONObject :: "string \<Rightarrow> string \<Rightarrow> int \<Rightarrow> (ledger_error, string) result" where
  "cleanSizedJSONObject v field maxBytes = (let cleaned = TrimSpace v in
     if cleaned = [] then Inr ''{}''
     else case json_Compact cleaned of
       None \<Rightarrow> Inl (FieldNotJSON field)
     | Some squeezed \<Rightarrow>
         if hd squeezed \<noteq> CHR ''{'' then Inl (FieldNotObject field)
         else if int (length squeezed) > maxBytes then Inl (FieldTooLong field maxBytes)
         else Inr squeezed)"

definition nullableSQLString :: "string \<Rightarrow> string option" where
  "nullableSQLString v = (let cleaned = TrimSpace v in if cleaned = [] then None else Some cleaned)"

definition normalizePayeeNameForMatch :: "ledgerEnv \<Rightarrow> string \<Rightarrow> string" where
  "normalizePayeeNameForMatch env v = ToLower (env_unicodeLower env) (Join (Fields (TrimSpace v)) '' '')"

text \<open>The tag ids without repetition, in the order of their first occurrence.\<close>

definition firstOccurrences :: "int list \<Rightarrow> int list" where
  "firstOccurrences xs = rev (remdups (rev xs))"

definition cleanTagIDs :: "ledgerEnv \<Rightarrow> int list \<Rightarrow> (ledger_error, int list) result" where
  "cleanTagIDs env tagIDs = (
     if tagIDs = [] then Inr []
     else if \<exists>tagID\<in>set tagIDs. tagID \<le> 0 then Inl TagIDInvalid
     else let cleaned = firstOccurrences tagIDs; active = ActiveTagIDs (env_tables env) BookID cleaned in
       if \<forall>tagID\<in>set cleaned. tagID \<in> active then Inr cleaned else Inl ErrTransactionTag)"

definition reconciliationAffectingChange :: "string \<Rightarrow> PostingRecord \<Rightarrow> string \<Rightarrow> PostingSpec \<Rightarrow> bool" where
  "reconciliationAffectingChange currentDate current nextDate next \<longleftrightarrow>
     currentDate \<noteq> nextDate \<or> pr_AccountID current \<noteq> ps_AccountID next \<or> pr_CommodityID current \<noteq> ps_CommodityID next
     \<or> Coefficient_Cmp (pr_QuantityValue current) (ps_QuantityValue next) \<noteq> 0 \<or> pr_QuantityScale current \<noteq> ps_QuantityScale next"

text \<open>The facts of a request's posting that a statement verifies, in an otherwise empty specification.\<close>

definition verifiedFacts :: "PostingInput \<Rightarrow> PostingSpec" where
  "verifiedFacts input = \<lparr> ps_LineKey = [], ps_AccountID = pi_AccountID input, ps_QuantityValue = pi_QuantityValue input,
     ps_QuantityScale = pi_QuantityScale input, ps_CommodityID = pi_CommodityID input, ps_Memo = [],
     ps_ReconciliationStatus = [], ps_ClearedOn = None, ps_MetadataJSON = [], ps_TagIDs = [] \<rparr>"

section \<open>Definitions: postings\<close>

definition ruleMissing :: "ledgerEnv \<Rightarrow> int \<Rightarrow> string \<Rightarrow> ledger_error" where
  "ruleMissing env accountID entryDate = (case explainAccountRuleMiss (env_tables env) BookID accountID entryDate of
       (accountNotYetOpened, _) \<Rightarrow> PostingBeforeOpened
     | (accountVersionGap, Some earliest) \<Rightarrow> PostingVersionGap entryDate (ar_EffectiveFrom earliest)
     | _ \<Rightarrow> PostingAccountInvalid)"

definition checkAccountRule :: "cleanTransactionOptions \<Rightarrow> PostingInput \<Rightarrow> string \<Rightarrow> PostingAccountRule \<Rightarrow> (ledger_error, unit) result" where
  "checkAccountRule options input entryDate rule = (
     if \<not> AcceptsPostingsOn rule entryDate then Inl PostingAccountInactive
     else if \<not> op_AllowSubledgerManagedPostings options \<and> isSubledgerManagedAccount rule then Inl PostingSubledgerManaged
     else if entryDate < ar_OpenedOn rule then Inl PostingBeforeOpened
     else if (case ar_ClosedOn rule of None \<Rightarrow> False | Some closedOn \<Rightarrow> entryDate > closedOn) then Inl PostingAfterClosed
     else if (case ar_DefaultCommodityID rule of None \<Rightarrow> False | Some c \<Rightarrow> c \<noteq> pi_CommodityID input) then Inl PostingCommodityMismatch
     else if (case ar_QuantityScaleOverride rule of None \<Rightarrow> False | Some sc \<Rightarrow> pi_QuantityScale input > sc) then Inl PostingScaleExceedsAccount
     else Inr ())"

definition checkCommodityRule :: "PostingInput \<Rightarrow> PostingCommodityRule option \<Rightarrow> (ledger_error, unit) result" where
  "checkCommodityRule input found = (case found of
       None \<Rightarrow> Inl PostingCommodityInvalid
     | Some rule \<Rightarrow>
         if cr_Status rule \<noteq> ''active'' then Inl PostingCommodityArchived
         else if pi_QuantityScale input > MaxScaleForCommodityKind (cr_CommodityKind rule) then Inl PostingScaleExceedsKind
         else if pi_QuantityScale input > cr_MaxQuantityScale rule then Inl PostingScaleExceedsCommodity
         else Inr ())"

definition cleanLineKey :: "ledgerEnv \<Rightarrow> cleanTransactionOptions \<Rightarrow> PostingInput \<Rightarrow> string clean" where
  "cleanLineKey env options input = (let lineKey = TrimSpace (pi_LineKey input) in
     if lineKey = [] then newLineKey env
     else case op_ExistingLineKeys options of
       None \<Rightarrow> liftW (Inr lineKey)
     | Some known \<Rightarrow> if lineKey \<in> set known then liftW (Inr lineKey) else liftW (Inl LineKeyInvalid))"

text \<open>The status and cleared date a posting line keeps, when a statement verified what it still shows.\<close>

definition keptReconciliation :: "cleanTransactionOptions \<Rightarrow> string \<Rightarrow> string \<Rightarrow> PostingInput \<Rightarrow> (ledger_error, string \<times> string) result" where
  "keptReconciliation options lineKey entryDate input = (
     let kept = (case op_ExistingPostings options lineKey of
           None \<Rightarrow> None
         | Some x \<Rightarrow> if reconciliationAffectingChange (xs_EntryDate x) (xs_Posting x) entryDate (verifiedFacts input) then None else Some x);
         reconciliationStatus = (case kept of None \<Rightarrow> ''uncleared'' | Some x \<Rightarrow> xs_ReconciliationStatus x) in
     if reconciliationStatus \<notin> set reconciliationStatuses then Inl ReconciliationStatusInvalid
     else bindR (cleanOptionalDate (case kept of None \<Rightarrow> [] | Some x \<Rightarrow> xs_ClearedOn x) ''cleared date'') (\<lambda>clearedOn.
       if clearedOn \<noteq> [] \<and> reconciliationStatus = ''uncleared'' then Inl ClearedDateUncleared
       else Inr (reconciliationStatus, clearedOn)))"

definition checkPostingShape :: "PostingInput \<Rightarrow> (ledger_error, unit) result" where
  "checkPostingShape input = (
     if pi_AccountID input \<le> 0 then Inl PostingAccountRequired
     else if pi_CommodityID input \<le> 0 then Inl PostingCommodityRequired
     else if pi_QuantityScale input < 0 \<or> pi_QuantityScale input > MaxCryptoScale then Inl PostingScaleInvalid
     else Inr ())"

definition cleanPosting :: "ledgerEnv \<Rightarrow> cleanTransactionOptions \<Rightarrow> string \<Rightarrow> PostingInput \<Rightarrow> PostingSpec clean" where
  "cleanPosting env options entryDate input =
     bindW (liftW (checkPostingShape input)) (\<lambda>_.
     bindW (liftW (case lookupPostingAccountRule (env_tables env) BookID (pi_AccountID input) entryDate of
         None \<Rightarrow> Inl (ruleMissing env (pi_AccountID input) entryDate) | Some rule \<Rightarrow> Inr rule)) (\<lambda>rule.
     bindW (observeW rule) (\<lambda>_.
     bindW (liftW (checkAccountRule options input entryDate rule)) (\<lambda>_.
     bindW (liftW (checkCommodityRule input (lookupPostingCommodityRule (env_tables env) BookID (pi_CommodityID input) entryDate))) (\<lambda>_.
     bindW (cleanLineKey env options input) (\<lambda>lineKey.
     bindW (liftW (keptReconciliation options lineKey entryDate input)) (\<lambda>(reconciliationStatus, clearedOn).
     bindW (liftW (cleanOptionalText (pi_Memo input) ''posting memo'' transactionTextMaxBytes)) (\<lambda>memo.
     bindW (liftW (cleanSizedJSONObject (pi_MetadataJSON input) ''posting metadata'' ledgerJSONMaxBytes)) (\<lambda>metadataJSON.
     bindW (liftW (cleanTagIDs env (pi_TagIDs input))) (\<lambda>tagIDs.
     liftW (Inr \<lparr> ps_LineKey = lineKey, ps_AccountID = pi_AccountID input, ps_QuantityValue = pi_QuantityValue input,
       ps_QuantityScale = pi_QuantityScale input, ps_CommodityID = pi_CommodityID input, ps_Memo = memo,
       ps_ReconciliationStatus = reconciliationStatus, ps_ClearedOn = nullableSQLString clearedOn,
       ps_MetadataJSON = metadataJSON, ps_TagIDs = tagIDs \<rparr>)))))))))))"

section \<open>Definitions: entries\<close>

definition sideOk :: "string \<Rightarrow> bool" where
  "sideOk side \<longleftrightarrow> side = [] \<or> side = conversionSending \<or> side = conversionReceiving"

definition cleanJournalEntry :: "ledgerEnv \<Rightarrow> cleanTransactionOptions \<Rightarrow> string \<Rightarrow> JournalEntryInput \<Rightarrow> JournalEntrySpec clean" where
  "cleanJournalEntry env options transactionDate input = (
     let entryDate0 = TrimSpace (je_EntryDate input); entryKind0 = TrimSpace (je_EntryKind input);
         entryKind = (if entryKind0 = [] then ''ordinary'' else entryKind0) in
     bindW (liftW (cleanRequiredDate (if entryDate0 = [] then transactionDate else entryDate0) ''entry date'')) (\<lambda>entryDate.
     bindW (liftW (ensure (entryKind \<in> set entryKinds) EntryKindInvalid)) (\<lambda>_.
     bindW (liftW (cleanOptionalText (je_Memo input) ''memo'' transactionTextMaxBytes)) (\<lambda>memo.
     bindW (liftW (cleanSizedJSONObject (je_MetadataJSON input) ''entry metadata'' ledgerJSONMaxBytes)) (\<lambda>metadataJSON.
     bindW (mapW (cleanPosting env options entryDate) (je_Postings input)) (\<lambda>postings.
     bindW (liftW (ensure (sideOk (je_ConversionSide input) \<and> sideOk (je_FeePaidBy input)) TransferSideInvalid)) (\<lambda>_.
     bindW (liftW (ensure (je_ConversionSide input = [] \<or> entryKind = exchangeEntryKind) ConversionSideNotExchange)) (\<lambda>_.
     liftW (Inr \<lparr> es_EntryDate = entryDate, es_EntryKind = entryKind, es_Memo = memo, es_MetadataJSON = metadataJSON,
       es_ConversionSide = je_ConversionSide input, es_FeePaidBy = je_FeePaidBy input, es_Postings = postings \<rparr>)))))))))"

text \<open>The loop over the entries, each checked for its two postings before the next is read.\<close>

fun cleanEntries :: "ledgerEnv \<Rightarrow> cleanTransactionOptions \<Rightarrow> string \<Rightarrow> nat \<Rightarrow> JournalEntryInput list \<Rightarrow> JournalEntrySpec list clean" where
  "cleanEntries env options transactionDate entryIndex [] = liftW (Inr [])"
| "cleanEntries env options transactionDate entryIndex (input # inputs) =
     bindW (cleanJournalEntry env options transactionDate input) (\<lambda>entry.
     bindW (liftW (ensure (length (es_Postings entry) \<ge> 2) (EntryTooFewPostings (int entryIndex + 1)))) (\<lambda>_.
     bindW (cleanEntries env options transactionDate (Suc entryIndex) inputs) (\<lambda>entries.
     liftW (Inr (entry # entries)))))"

fun lineKeysFresh :: "string list \<Rightarrow> string list \<Rightarrow> bool" where
  "lineKeysFresh seen [] = True"
| "lineKeysFresh seen (k # ks) = (k \<notin> set seen \<and> lineKeysFresh (k # seen) ks)"

definition validateLineKeysUnique :: "JournalEntrySpec list \<Rightarrow> (ledger_error, unit) result" where
  "validateLineKeysUnique entries =
     ensure (lineKeysFresh [] (map ps_LineKey (concat (map es_Postings entries)))) LineKeyReused"

definition maxScales :: "PostingSpec list \<Rightarrow> int \<Rightarrow> int" where
  "maxScales postings = fold (\<lambda>posting scales.
     if ps_QuantityScale posting > scales (ps_CommodityID posting)
     then scales(ps_CommodityID posting := ps_QuantityScale posting) else scales) postings (\<lambda>_. 0)"

definition addScaled :: "(int \<Rightarrow> int) \<Rightarrow> (int \<rightharpoonup> int) \<Rightarrow> PostingSpec \<Rightarrow> (ledger_error, int \<rightharpoonup> int) result" where
  "addScaled scales sums0 posting = (
     let c = ps_CommodityID posting;
         before = (case sums0 c of None \<Rightarrow> 0 | Some s \<Rightarrow> s);
         v = BigInt (ps_QuantityValue posting);
         scaleDiff = scales c - ps_QuantityScale posting in
     if scaleDiff > 0 then bindR (mapErr Panicked (Pow10 scaleDiff)) (\<lambda>p. Inr (sums0(c \<mapsto> before + v * p)))
     else Inr (sums0(c \<mapsto> before + v)))"

definition entryBalanced :: "JournalEntrySpec \<Rightarrow> (ledger_error, bool) result" where
  "entryBalanced entry = bindR (foldR (addScaled (maxScales (es_Postings entry))) Map.empty (es_Postings entry))
     (\<lambda>sums0. Inr (\<forall>c\<in>set (map ps_CommodityID (es_Postings entry)). sums0 c = Some 0))"

fun validateBalancedFrom :: "nat \<Rightarrow> JournalEntrySpec list \<Rightarrow> (ledger_error, unit) result" where
  "validateBalancedFrom entryIndex [] = Inr ()"
| "validateBalancedFrom entryIndex (entry # entries) =
     bindR (entryBalanced entry) (\<lambda>ok.
       if ok then validateBalancedFrom (Suc entryIndex) entries else Inl (EntryNotBalanced (int entryIndex + 1)))"

definition validateBalanced :: "JournalEntrySpec list \<Rightarrow> (ledger_error, unit) result" where
  "validateBalanced entries = validateBalancedFrom 0 entries"

section \<open>Definitions: the exchange and posted-date rules with their lookups\<close>

definition entryDay :: "string \<Rightarrow> JournalEntryInput \<Rightarrow> string" where
  "entryDay transactionDate entry = (let entryDate = TrimSpace (je_EntryDate entry) in
     if entryDate = [] then transactionDate else entryDate)"

definition exchangeKindOf :: "ledgerEnv \<Rightarrow> string \<Rightarrow> PostingInput \<Rightarrow> (ledger_error, exchangeLegKind) result" where
  "exchangeKindOf env entryDate posting = (
     let postedOn = TrimSpace (pi_PostedOn posting); date = (if postedOn \<noteq> [] then postedOn else entryDate) in
     case lookupPostingAccountRule (env_tables env) BookID (pi_AccountID posting) date of
       None \<Rightarrow> Inr exchangeAccountLeg
     | Some rule \<Rightarrow>
         if ar_IsSystem rule then Inl ExchangeNamesSystemAccount
         else if isPostedOnAccount rule then Inr exchangeAccountLeg
         else if ar_AccountClass rule = ''expense'' then Inr exchangeFeeLeg
         else Inl ExchangeLegsInvalid)"

text \<open>The first loop: an entry that is no exchange may not name a conversion side.\<close>

definition conversionSidesOk :: "JournalEntryInput list \<Rightarrow> bool" where
  "conversionSidesOk entries \<longleftrightarrow>
     list_all (\<lambda>entry. TrimSpace (je_EntryKind entry) = exchangeEntryKind \<or> TrimSpace (je_ConversionSide entry) = []) entries"

definition buildExchangeLegs :: "ledgerEnv \<Rightarrow> string \<Rightarrow> TransactionInput \<Rightarrow> (ledger_error, TransactionInput) result" where
  "buildExchangeLegs env transactionDate input = (
     if \<not> conversionSidesOk (ti_JournalEntries input) then Inl ConversionSideNotExchange
     else if \<not> list_ex (\<lambda>entry. TrimSpace (je_EntryKind entry) = exchangeEntryKind) (ti_JournalEntries input) then Inr input
     else case ti_JournalEntries input of
       [entry] \<Rightarrow>
         if ti_InvestmentOperationKind input \<noteq> [] \<or> ti_TransactionKind input = ''investment'' then Inl ExchangeIsInvestment
         else let entryDate = entryDay transactionDate entry in
           bindR (mapR (exchangeKindOf env entryDate) (je_Postings entry)) (\<lambda>kinds.
           bindR (case SystemAccountID (env_tables env) BookID ''commodity_trading'' of
               None \<Rightarrow> Inl TradingAccountMissing | Some systemID \<Rightarrow> Inr systemID) (\<lambda>tradingAccountID.
           bindR (exchangeLegs entry entryDate kinds tradingAccountID) (\<lambda>built.
           Inr (input\<lparr> ti_JournalEntries := [built] \<rparr>))))
     | _ \<Rightarrow> Inl ExchangeRequiresOneEntry)"

definition usesPostedOn :: "JournalEntryInput list \<Rightarrow> bool" where
  "usesPostedOn entries \<longleftrightarrow> list_ex (\<lambda>entry. TrimSpace (je_FeePaidBy entry) \<noteq> [] \<or>
     list_ex (\<lambda>posting. TrimSpace (pi_PostedOn posting) \<noteq> []) (je_Postings entry)) entries"

definition postingRole :: "ledgerEnv \<Rightarrow> string \<Rightarrow> PostingInput \<Rightarrow> (ledger_error, postingDayRole) result" where
  "postingRole env entryDate posting = bindR (postingDay entryDate posting) (\<lambda>date.
     case lookupPostingAccountRule (env_tables env) BookID (pi_AccountID posting) date of
       Some rule \<Rightarrow> Inr \<lparr> role_account = isPostedOnAccount rule, role_system = ar_IsSystem rule \<rparr>
     | None \<Rightarrow> Inr \<lparr> role_account = (TrimSpace (pi_PostedOn posting) \<noteq> []), role_system = False \<rparr>)"

definition groupPostingsByPostedOn :: "ledgerEnv \<Rightarrow> string \<Rightarrow> TransactionInput \<Rightarrow> (ledger_error, JournalEntryInput list) result" where
  "groupPostingsByPostedOn env transactionDate input = (
     if \<not> usesPostedOn (ti_JournalEntries input) then Inr (ti_JournalEntries input)
     else case ti_JournalEntries input of
       [entry] \<Rightarrow>
         bindR (cleanRequiredDate (entryDay transactionDate entry) ''entry date'') (\<lambda>entryDate.
         bindR (mapR (postingRole env entryDate) (je_Postings entry)) (\<lambda>roles.
         groupPostingsByDay entry entryDate roles
           (case SystemAccountID (env_tables env) BookID ''transfer_clearing'' of
              None \<Rightarrow> Inl ClearingAccountMissing | Some systemID \<Rightarrow> Inr systemID)))
     | _ \<Rightarrow> Inl PostedDatesRequireOneEntry)"

section \<open>Definitions: transactions\<close>

definition cleanStatus :: "cleanTransactionOptions \<Rightarrow> string \<Rightarrow> (ledger_error, string) result" where
  "cleanStatus options requested = (
     let status0 = TrimSpace requested;
         status1 = (if op_ForcedStatus options \<noteq> [] then op_ForcedStatus options
           else let s = (if status0 = [] then op_DefaultStatus options else status0) in if s = [] then ''posted'' else s) in
     if status0 \<noteq> [] \<and> (status0 \<notin> set transactionStatuses \<or> status0 = ''voided'') then Inl StatusInvalid
     else if status1 \<notin> set transactionStatuses \<or> status1 = ''voided'' then Inl StatusInvalid
     else Inr status1)"

definition cleanTransactionDate :: "ledgerEnv \<Rightarrow> cleanTransactionOptions \<Rightarrow> TransactionInput \<Rightarrow> (ledger_error, string) result" where
  "cleanTransactionDate env options input = (
     let date0 = TrimSpace (ti_TransactionDate input);
         date1 = (if date0 = [] \<and> ti_JournalEntries input \<noteq> [] then TrimSpace (je_EntryDate (hd (ti_JournalEntries input))) else date0);
         date2 = (if date1 = [] then env_today env (op_OwnerUserID options) else date1) in
     cleanRequiredDate date2 ''transaction date'')"

definition cleanPayee :: "ledgerEnv \<Rightarrow> TransactionInput \<Rightarrow> (ledger_error, int option \<times> string) result" where
  "cleanPayee env input =
     bindR (case ti_PayeeID input of
         None \<Rightarrow> Inr (TrimSpace (ti_PayeeName input))
       | Some requested \<Rightarrow> (case PayeeByID (env_tables env) (env_referenceDate env) BookID requested of
           None \<Rightarrow> Inl PayeeInvalid
         | Some payee \<Rightarrow> if pv_status payee \<noteq> ''active'' then Inl PayeeArchived else Inr (pv_name payee))) (\<lambda>payeeName.
     bindR (cleanOptionalText payeeName ''payee name'' payeeNameMaxBytes) (\<lambda>cleaned.
     if ti_PayeeID input = None \<and> cleaned \<noteq> [] then
       (case PayeeByNormalizedName (env_tables env) (env_referenceDate env) BookID (normalizePayeeNameForMatch env cleaned) of
          Some (resolvedID, resolvedName) \<Rightarrow> Inr (Some resolvedID, resolvedName)
        | None \<Rightarrow> Inr (None, cleaned))
     else Inr (ti_PayeeID input, cleaned)))"

definition writtenEntries :: "ledgerEnv \<Rightarrow> string \<Rightarrow> TransactionInput \<Rightarrow> (ledger_error, JournalEntryInput list) result" where
  "writtenEntries env transactionDate input = (
     if ti_storedJournal input then Inr (ti_JournalEntries input)
     else bindR (buildExchangeLegs env transactionDate input) (groupPostingsByPostedOn env transactionDate))"

definition cleanTransactionSpec :: "ledgerEnv \<Rightarrow> cleanTransactionOptions \<Rightarrow> TransactionInput \<Rightarrow> TransactionSpec clean" where
  "cleanTransactionSpec env options input = (
     let kind0 = TrimSpace (ti_TransactionKind input); kind = (if kind0 = [] then ''ordinary'' else kind0) in
     bindW (liftW (cleanStatus options (ti_Status input))) (\<lambda>status.
     bindW (liftW (ensure (kind \<in> set transactionKinds) KindInvalid)) (\<lambda>_.
     bindW (liftW (cleanTransactionDate env options input)) (\<lambda>transactionDate.
     bindW (liftW (cleanPayee env input)) (\<lambda>(payeeID, payeeName).
     bindW (liftW (cleanOptionalText (ti_Description input) ''description'' transactionTextMaxBytes)) (\<lambda>description.
     bindW (liftW (cleanOptionalText (ti_ExternalRefHint input) ''external reference'' transactionTextMaxBytes)) (\<lambda>externalRefHint.
     bindW (liftW (cleanOptionalMultilineText (ti_NoteMarkdown input) ''note'' transactionNoteMaxBytes)) (\<lambda>noteMarkdown.
     bindW (liftW (cleanSizedJSONObject (ti_MetadataJSON input) ''metadata'' ledgerJSONMaxBytes)) (\<lambda>metadataJSON.
     bindW (liftW (cleanTagIDs env (ti_TagIDs input))) (\<lambda>tagIDs.
     bindW (liftW (writtenEntries env transactionDate input)) (\<lambda>journalEntries.
     bindW (cleanEntries env options transactionDate 0 journalEntries) (\<lambda>entries.
     bindW (liftW (validateLineKeysUnique entries)) (\<lambda>_.
     bindW (liftW (ensure (entries \<noteq> []) TransactionWithoutEntries)) (\<lambda>_.
     bindW (liftW (if status = ''posted'' then validateBalanced entries else Inr ())) (\<lambda>_.
     liftW (Inr \<lparr> ts_Status = status, ts_TransactionKind = kind, ts_InvestmentOperationKind = ti_InvestmentOperationKind input,
       ts_TransactionDate = transactionDate, ts_PayeeID = payeeID, ts_PayeeName = nullableSQLString payeeName,
       ts_Description = description, ts_ExternalRefHint = externalRefHint, ts_NoteMarkdown = noteMarkdown,
       ts_MetadataJSON = metadataJSON, ts_NeedsReview = ti_NeedsReview input, ts_TagIDs = tagIDs,
       ts_JournalEntries = entries \<rparr>))))))))))))))))"

section \<open>Definitions: what an update knows of the stored transaction\<close>

definition lineKeySet :: "JournalEntryRecord list \<Rightarrow> string list" where
  "lineKeySet entries = map pr_LineKey (concat (map er_Postings entries))"

definition existingPostingStateSet :: "JournalEntryRecord list \<Rightarrow> string \<rightharpoonup> existingPostingState" where
  "existingPostingStateSet entries = map_of (rev (concat (map (\<lambda>entry. map (\<lambda>posting.
     (pr_LineKey posting, \<lparr> xs_ReconciliationStatus = pr_ReconciliationStatus posting,
        xs_ClearedOn = (case pr_ClearedOn posting of None \<Rightarrow> [] | Some d \<Rightarrow> d), xs_EntryDate = er_EntryDate entry,
        xs_Posting = posting \<rparr>)) (er_Postings entry)) entries)))"

definition postingInputFrom :: "Posting \<Rightarrow> PostingInput" where
  "postingInputFrom posting = \<lparr> pi_LineKey = p_LineKey posting, pi_PostedOn = [], pi_AccountID = p_AccountID posting,
     pi_QuantityValue = p_QuantityValue posting, pi_QuantityScale = p_QuantityScale posting,
     pi_CommodityID = p_CommodityID posting, pi_Memo = p_Memo posting, pi_MetadataJSON = p_MetadataJSON posting,
     pi_TagIDs = p_TagIDs posting \<rparr>"

definition entryInputFrom :: "JournalEntry \<Rightarrow> JournalEntryInput" where
  "entryInputFrom entry = \<lparr> je_EntryDate = e_EntryDate entry, je_EntryKind = e_EntryKind entry, je_Memo = e_Memo entry,
     je_MetadataJSON = e_MetadataJSON entry, je_ConversionSide = e_ConversionSide entry, je_FeePaidBy = e_FeePaidBy entry,
     je_Postings = map postingInputFrom (e_Postings entry) \<rparr>"

definition transactionInputFromTransaction :: "Transaction \<Rightarrow> TransactionInput" where
  "transactionInputFromTransaction transaction = \<lparr> ti_Status = t_Status transaction, ti_TransactionKind = t_TransactionKind transaction,
     ti_InvestmentOperationKind = [], ti_TransactionDate = t_TransactionDate transaction, ti_PayeeID = t_PayeeID transaction,
     ti_PayeeName = t_PayeeName transaction, ti_Description = t_Description transaction,
     ti_ExternalRefHint = t_ExternalRefHint transaction, ti_NoteMarkdown = t_NoteMarkdown transaction,
     ti_MetadataJSON = t_MetadataJSON transaction, ti_NeedsReview = False, ti_TagIDs = t_TagIDs transaction,
     ti_JournalEntries = map entryInputFrom (t_JournalEntries transaction), ti_storedJournal = False \<rparr>"

definition storedTransactionInput :: "Transaction \<Rightarrow> TransactionInput" where
  "storedTransactionInput transaction = (transactionInputFromTransaction transaction)\<lparr> ti_storedJournal := True \<rparr>"

section \<open>The balance check\<close>

definition specScalesOk :: "PostingSpec list \<Rightarrow> bool" where
  "specScalesOk ps \<longleftrightarrow> (\<forall>p\<in>set ps. scaleOk (ps_QuantityScale p))"

definition entryBalances :: "JournalEntrySpec \<Rightarrow> bool" where
  "entryBalances entry \<longleftrightarrow> balancedLegs (map specLeg (es_Postings entry))"

lemma maxScales_fold:
  fixes scales :: "int \<Rightarrow> int"
  defines "f \<equiv> \<lambda>posting scales. if ps_QuantityScale posting > scales (ps_CommodityID posting)
     then scales(ps_CommodityID posting := ps_QuantityScale posting) else scales"
  assumes "specScalesOk ps" and "\<And>c. scaleOk (scales c)"
  shows "scaleOk (fold f ps scales c) \<and> scales c \<le> fold f ps scales c \<and>
    (\<forall>p\<in>set ps. ps_CommodityID p = c \<longrightarrow> ps_QuantityScale p \<le> fold f ps scales c)"
  using assms(2,3)
proof (induction ps arbitrary: scales)
  case (Cons p ps)
  have p: "scaleOk (ps_QuantityScale p)" "specScalesOk ps" using Cons.prems(1) by (simp_all add: specScalesOk_def)
  have step: "scaleOk (f p scales c')" "scales c' \<le> f p scales c'" "ps_CommodityID p = c' \<Longrightarrow> ps_QuantityScale p \<le> f p scales c'" for c'
    using p(1) Cons.prems(2) by (simp_all add: f_def)
  have "scaleOk (fold f ps (f p scales) c) \<and> f p scales c \<le> fold f ps (f p scales) c \<and>
      (\<forall>q\<in>set ps. ps_CommodityID q = c \<longrightarrow> ps_QuantityScale q \<le> fold f ps (f p scales) c)"
    using Cons.IH [OF p(2), of "f p scales"] step(1) by simp
  then show ?case using step(2,3) [of c] by auto
qed simp

lemma maxScales_bound:
  assumes "specScalesOk ps" and "p \<in> set ps"
  shows "scaleOk (maxScales ps (ps_CommodityID p))" "ps_QuantityScale p \<le> maxScales ps (ps_CommodityID p)"
  using maxScales_fold [OF assms(1), of "\<lambda>_. 0" "ps_CommodityID p"] assms(2) by (auto simp: maxScales_def scaleOk_def MaxPow10Scale_def)

definition sumAt :: "(int \<rightharpoonup> int) \<Rightarrow> int \<Rightarrow> int" where
  "sumAt m c = (case m c of None \<Rightarrow> 0 | Some s \<Rightarrow> s)"

lemma addScaled_step:
  assumes "scaleOk (ps_QuantityScale p)" and "scaleOk (sc (ps_CommodityID p))" and "ps_QuantityScale p \<le> sc (ps_CommodityID p)"
  shows "\<exists>m'. addScaled sc m p = Inr m' \<and> dom m' = insert (ps_CommodityID p) (dom m) \<and>
    (\<forall>c. decVal (sumAt m' c) (sc c) = decVal (sumAt m c) (sc c) + netOf [specLeg p] c)"
proof -
  let ?c = "ps_CommodityID p" let ?v = "BigInt (ps_QuantityValue p)" let ?d = "sc ?c - ps_QuantityScale p"
  have "scaleOk ?d" using assms by (auto simp: scaleOk_def)
  then have a: "addScaled sc m p = Inr (m(?c \<mapsto> sumAt m ?c + ?v * 10 ^ nat ?d))"
    using assms(3) by (auto simp: addScaled_def Let_def sumAt_def Pow10_ok)
  have "decVal (?v * 10 ^ nat ?d) (sc ?c) = decVal ?v (ps_QuantityScale p)"
    using assms by (subst decVal_deepen) (auto simp: scaleOk_def)
  then show ?thesis by (simp add: a decVal_add sumAt_def specLeg_def)
qed

lemma addScaled_fold:
  assumes "\<And>p. p \<in> set ps \<Longrightarrow> scaleOk (ps_QuantityScale p) \<and> scaleOk (sc (ps_CommodityID p)) \<and> ps_QuantityScale p \<le> sc (ps_CommodityID p)"
  shows "\<exists>m'. foldR (addScaled sc) m ps = Inr m' \<and> dom m' = ps_CommodityID ` set ps \<union> dom m \<and>
    (\<forall>c. decVal (sumAt m' c) (sc c) = decVal (sumAt m c) (sc c) + netOf (map specLeg ps) c)"
  using assms
proof (induction ps arbitrary: m)
  case (Cons p ps)
  obtain m1 where m1: "addScaled sc m p = Inr m1" "dom m1 = insert (ps_CommodityID p) (dom m)"
    "\<forall>c. decVal (sumAt m1 c) (sc c) = decVal (sumAt m c) (sc c) + netOf [specLeg p] c"
    using addScaled_step [of p sc m] Cons.prems by auto
  obtain m2 where "foldR (addScaled sc) m1 ps = Inr m2" "dom m2 = ps_CommodityID ` set ps \<union> dom m1"
    "\<forall>c. decVal (sumAt m2 c) (sc c) = decVal (sumAt m1 c) (sc c) + netOf (map specLeg ps) c"
    using Cons.IH [of m1] Cons.prems by auto
  then show ?case using m1 by (auto simp: netOf_simps(2) [of "specLeg p" "map specLeg ps"])
qed simp

lemma entryBalanced_exact:
  assumes "specScalesOk (es_Postings entry)"
  shows "entryBalanced entry = Inr (entryBalances entry)"
proof -
  let ?ps = "es_Postings entry"
  obtain m where m: "foldR (addScaled (maxScales ?ps)) Map.empty ?ps = Inr m" "dom m = ps_CommodityID ` set ?ps"
    "\<And>c. decVal (sumAt m c) (maxScales ?ps c) = netOf (map specLeg ?ps) c"
    using addScaled_fold [of ?ps "maxScales ?ps" Map.empty] maxScales_bound [OF assms] assms
    by (auto simp: specScalesOk_def sumAt_def)
  have "m c = Some 0 \<longleftrightarrow> netOf (map specLeg ?ps) c = 0" if "c \<in> ps_CommodityID ` set ?ps" for c
  proof -
    have "c \<in> dom m" using that by (simp only: m(2))
    then obtain z where "m c = Some z" by (auto simp only: dom_def)
    then show ?thesis using m(3) [of c] decVal_eq_0_iff [of z "maxScales ?ps c"] by (simp add: sumAt_def)
  qed
  moreover have "fst ` set (map specLeg ?ps) = ps_CommodityID ` set ?ps" by (simp add: specLeg_def image_image)
  ultimately have "(\<forall>c\<in>ps_CommodityID ` set ?ps. m c = Some 0) \<longleftrightarrow> entryBalances entry"
    unfolding entryBalances_def balancedLegs_iff by (simp only:) simp
  then show ?thesis by (simp add: entryBalanced_def m(1))
qed

lemma validateBalancedFrom_exact:
  assumes "\<And>e. e \<in> set entries \<Longrightarrow> specScalesOk (es_Postings e)"
  shows "validateBalancedFrom i entries = (if list_all entryBalances entries then Inr ()
    else Inl (EntryNotBalanced (int (i + length (takeWhile entryBalances entries)) + 1)))"
  using assms by (induction entries arbitrary: i) (simp_all add: entryBalanced_exact)

text \<open>
  C17. The integer balance check of the writer, which aligns every amount of a commodity to that
  commodity's deepest scale, is exactly the check that the rational amounts of every commodity
  cancel: on postings whose scales are in range it never panics, accepts exactly when every entry
  balances in every commodity, and otherwise names the first entry that does not.
\<close>

theorem validate_balanced_exact:
  assumes "\<And>e p. e \<in> set entries \<Longrightarrow> p \<in> set (es_Postings e) \<Longrightarrow> scaleOk (ps_QuantityScale p)"
  shows "validateBalanced entries =
    (if \<forall>e\<in>set entries. balancedLegs (map specLeg (es_Postings e)) then Inr ()
     else Inl (EntryNotBalanced (int (length (takeWhile (\<lambda>e. balancedLegs (map specLeg (es_Postings e))) entries)) + 1)))"
proof -
  have "\<And>e. e \<in> set entries \<Longrightarrow> specScalesOk (es_Postings e)" using assms by (auto simp: specScalesOk_def)
  from validateBalancedFrom_exact [OF this, where i = 0] show ?thesis
    by (simp add: validateBalanced_def list_all_iff entryBalances_def [abs_def])
qed

section \<open>What an accepted posting satisfies\<close>

text \<open>
  The requirements on a posting in an entry of a date: its account has a version in effect that day which
  takes postings, lies within the account's open period and, unless the writer is the investment
  subledger, is not one of its holdings; and its commodity is active, the account's own if it names one, and
  precise enough for the amount.
\<close>

definition accountAdmits :: "ledgerEnv \<Rightarrow> cleanTransactionOptions \<Rightarrow> string \<Rightarrow> PostingSpec \<Rightarrow> PostingAccountRule \<Rightarrow> bool" where
  "accountAdmits env options date p rule \<longleftrightarrow>
     lookupPostingAccountRule (env_tables env) BookID (ps_AccountID p) date = Some rule \<and>
     AcceptsPostingsOn rule date \<and> ar_OpenedOn rule \<le> date \<and> (\<forall>closedOn. ar_ClosedOn rule = Some closedOn \<longrightarrow> date \<le> closedOn) \<and>
     (ar_BaseKind rule = ''security_holding'' \<longrightarrow> op_AllowSubledgerManagedPostings options) \<and>
     (\<forall>c. ar_DefaultCommodityID rule = Some c \<longrightarrow> ps_CommodityID p = c) \<and>
     (\<forall>sc. ar_QuantityScaleOverride rule = Some sc \<longrightarrow> ps_QuantityScale p \<le> sc)"

definition commodityAdmits :: "ledgerEnv \<Rightarrow> string \<Rightarrow> PostingSpec \<Rightarrow> PostingCommodityRule \<Rightarrow> bool" where
  "commodityAdmits env date p rule \<longleftrightarrow>
     lookupPostingCommodityRule (env_tables env) BookID (ps_CommodityID p) date = Some rule \<and> cr_Status rule = ''active'' \<and>
     0 \<le> ps_QuantityScale p \<and> ps_QuantityScale p \<le> MaxScaleForCommodityKind (cr_CommodityKind rule) \<and> ps_QuantityScale p \<le> cr_MaxQuantityScale rule"

definition postingAdmitted :: "ledgerEnv \<Rightarrow> cleanTransactionOptions \<Rightarrow> string \<Rightarrow> PostingSpec \<Rightarrow> bool" where
  "postingAdmitted env options date p \<longleftrightarrow>
     (\<exists>rule. accountAdmits env options date p rule) \<and> (\<exists>rule. commodityAdmits env date p rule)"

lemma postingAdmitted_scale: "postingAdmitted env options date p \<Longrightarrow> scaleOk (ps_QuantityScale p)"
  by (auto simp: postingAdmitted_def commodityAdmits_def scaleOk_def MaxPow10Scale_def MaxScaleForCommodityKind_def
      MaxCryptoScale_def MaxStandardScale_def split: if_splits)

text \<open>The states of a run only grow: a dependency, once recorded, stays, and keys are drawn in turn.\<close>

definition depsOf :: "cleanState \<Rightarrow> int \<rightharpoonup> int" where
  "depsOf s = (case cs_deps s of None \<Rightarrow> Map.empty | Some deps \<Rightarrow> map_of deps)"

definition later :: "cleanState \<Rightarrow> cleanState \<Rightarrow> bool" where
  "later s s' \<longleftrightarrow> depsOf s \<subseteq>\<^sub>m depsOf s' \<and> cs_drawn s \<le> cs_drawn s' \<and> (cs_deps s' = None \<longleftrightarrow> cs_deps s = None)"

lemma later_refl [simp]: "later s s"
  by (simp add: later_def)

lemma later_trans: "later s1 s2 \<Longrightarrow> later s2 s3 \<Longrightarrow> later s1 s3"
  unfolding later_def by (auto intro: map_le_trans)

lemma observe_later: "later s (s\<lparr> cs_deps := observe (cs_deps s) rule \<rparr>)"
  by (auto simp: later_def depsOf_def observe_def map_le_def dom_def split: option.splits)

lemma observe_recorded:
  "cs_deps s \<noteq> None \<Longrightarrow> 0 < ar_AccountID rule \<Longrightarrow> depsOf (s\<lparr> cs_deps := observe (cs_deps s) rule \<rparr>) (ar_AccountID rule) \<noteq> None"
  by (auto simp: depsOf_def observe_def map_add_def split: option.splits)

text \<open>The line key of an accepted posting: the key it names, which an update must already have, or a drawn one.\<close>

definition lineKeyFrom :: "ledgerEnv \<Rightarrow> cleanTransactionOptions \<Rightarrow> PostingInput \<Rightarrow> nat \<Rightarrow> nat \<Rightarrow> string \<Rightarrow> bool" where
  "lineKeyFrom env options input drawn drawn' key \<longleftrightarrow>
     (if TrimSpace (pi_LineKey input) = [] then \<exists>n. drawn \<le> n \<and> n < drawn' \<and> key = env_newLineKey env n
      else key = TrimSpace (pi_LineKey input) \<and> (\<forall>known. op_ExistingLineKeys options = Some known \<longrightarrow> key \<in> set known))"

lemma cleanLineKey_Inr:
  assumes "cleanLineKey env options input s = (s', Inr key)"
  shows "lineKeyFrom env options input (cs_drawn s) (cs_drawn s') key" "later s s'" "cs_deps s' = cs_deps s"
  using assms
  by (auto simp: cleanLineKey_def newLineKey_def lineKeyFrom_def Let_def result_simps later_def depsOf_def split: if_splits option.splits)

lemma checkAccountRule_Inr:
  "checkAccountRule options input date rule = Inr () \<longleftrightarrow>
     AcceptsPostingsOn rule date \<and> ar_OpenedOn rule \<le> date \<and> (\<forall>closedOn. ar_ClosedOn rule = Some closedOn \<longrightarrow> date \<le> closedOn) \<and>
     (ar_BaseKind rule = ''security_holding'' \<longrightarrow> op_AllowSubledgerManagedPostings options) \<and>
     (\<forall>c. ar_DefaultCommodityID rule = Some c \<longrightarrow> pi_CommodityID input = c) \<and>
     (\<forall>sc. ar_QuantityScaleOverride rule = Some sc \<longrightarrow> pi_QuantityScale input \<le> sc)"
  by (auto simp: checkAccountRule_def isSubledgerManagedAccount_def subledgerManagedBaseKind_def not_less split: option.splits)

lemma checkCommodityRule_Inr:
  "checkCommodityRule input found = Inr () \<longleftrightarrow> (\<exists>rule. found = Some rule \<and> cr_Status rule = ''active'' \<and>
     pi_QuantityScale input \<le> MaxScaleForCommodityKind (cr_CommodityKind rule) \<and> pi_QuantityScale input \<le> cr_MaxQuantityScale rule)"
  by (auto simp: checkCommodityRule_def not_less split: option.splits)

definition sameAmounts :: "PostingInput \<Rightarrow> PostingSpec \<Rightarrow> bool" where
  "sameAmounts input p \<longleftrightarrow> ps_AccountID p = pi_AccountID input \<and> ps_QuantityValue p = pi_QuantityValue input \<and>
     ps_QuantityScale p = pi_QuantityScale input \<and> ps_CommodityID p = pi_CommodityID input"

lemma cleanPosting_Inr:
  assumes "cleanPosting env options date input s = (s', Inr p)"
  shows "postingAdmitted env options date p" and "sameAmounts input p" and "later s s'"
    and "lineKeyFrom env options input (cs_drawn s) (cs_drawn s') (ps_LineKey p)"
    and "cs_deps s \<noteq> None \<Longrightarrow> depsOf s' (ps_AccountID p) \<noteq> None"
    and "\<exists>clearedOn. keptReconciliation options (ps_LineKey p) date input = Inr (ps_ReconciliationStatus p, clearedOn) \<and>
      ps_ClearedOn p = nullableSQLString clearedOn"
proof -
  obtain rule key clearedOn where
    shape: "checkPostingShape input = Inr ()"
    and rule: "lookupPostingAccountRule (env_tables env) BookID (pi_AccountID input) date = Some rule"
    and acc: "checkAccountRule options input date rule = Inr ()"
    and com: "checkCommodityRule input (lookupPostingCommodityRule (env_tables env) BookID (pi_CommodityID input) date) = Inr ()"
    and key: "cleanLineKey env options input (s\<lparr> cs_deps := observe (cs_deps s) rule \<rparr>) = (s', Inr key)"
    and kept: "keptReconciliation options key date input = Inr (ps_ReconciliationStatus p, clearedOn)"
    and p: "ps_LineKey p = key" "sameAmounts input p" "ps_ClearedOn p = nullableSQLString clearedOn"
    using assms by (auto simp: cleanPosting_def observeW_def sameAmounts_def result_simps split: option.splits)
  have amounts: "ps_AccountID p = pi_AccountID input" "ps_QuantityScale p = pi_QuantityScale input" "ps_CommodityID p = pi_CommodityID input"
    using p(2) by (simp_all add: sameAmounts_def)
  have pos: "0 < pi_AccountID input" "0 \<le> pi_QuantityScale input"
    using shape by (auto simp: checkPostingShape_def split: if_splits)
  have "accountAdmits env options date p rule"
    using rule acc by (simp add: accountAdmits_def amounts checkAccountRule_Inr)
  moreover have "\<exists>r. commodityAdmits env date p r"
    using com pos(2) by (auto simp: commodityAdmits_def amounts checkCommodityRule_Inr)
  ultimately show "postingAdmitted env options date p" by (auto simp: postingAdmitted_def)
  show "sameAmounts input p" by (rule p(2))
  show "later s s'" using cleanLineKey_Inr(2) [OF key] observe_later later_trans by blast
  show "lineKeyFrom env options input (cs_drawn s) (cs_drawn s') (ps_LineKey p)"
    using cleanLineKey_Inr(1) [OF key] by (simp add: p(1))
  have "ar_AccountID rule = pi_AccountID input" using book.asOf_hit [OF rule] by simp
  then show "depsOf s' (ps_AccountID p) \<noteq> None" if "cs_deps s \<noteq> None"
    using observe_recorded [OF that, of rule] cleanLineKey_Inr(3) [OF key] pos(1) by (simp add: amounts depsOf_def)
  show "\<exists>clearedOn. keptReconciliation options (ps_LineKey p) date input = Inr (ps_ReconciliationStatus p, clearedOn) \<and>
      ps_ClearedOn p = nullableSQLString clearedOn"
    using kept p by blast
qed

text \<open>A posting of the specification and the request's posting it comes from, for a run from \<open>s\<close> to \<open>s'\<close>.\<close>

definition postingWritten ::
  "ledgerEnv \<Rightarrow> cleanTransactionOptions \<Rightarrow> cleanState \<Rightarrow> cleanState \<Rightarrow> string \<Rightarrow> PostingInput \<Rightarrow> PostingSpec \<Rightarrow> bool" where
  "postingWritten env options s s' date input p \<longleftrightarrow>
     postingAdmitted env options date p \<and> sameAmounts input p \<and>
     lineKeyFrom env options input (cs_drawn s) (cs_drawn s') (ps_LineKey p) \<and>
     (cs_deps s \<noteq> None \<longrightarrow> depsOf s' (ps_AccountID p) \<noteq> None) \<and>
     (\<exists>clearedOn. keptReconciliation options (ps_LineKey p) date input = Inr (ps_ReconciliationStatus p, clearedOn) \<and>
        ps_ClearedOn p = nullableSQLString clearedOn)"

lemma lineKeyFrom_mono:
  "lineKeyFrom env options input m n key \<Longrightarrow> m' \<le> m \<Longrightarrow> n \<le> n' \<Longrightarrow> lineKeyFrom env options input m' n' key"
  unfolding lineKeyFrom_def by (metis le_trans less_le_trans)

lemma later_depsOf: "later s s' \<Longrightarrow> depsOf s a \<noteq> None \<Longrightarrow> depsOf s' a \<noteq> None"
  unfolding later_def map_le_def by (metis domIff)

lemma postingWritten_later:
  assumes "postingWritten env options s s' date input p" and "later r s" and "later s' t"
  shows "postingWritten env options r t date input p"
proof -
  have "lineKeyFrom env options input (cs_drawn r) (cs_drawn t) (ps_LineKey p)"
    using assms by (auto simp: postingWritten_def later_def elim: lineKeyFrom_mono)
  moreover have "cs_deps r \<noteq> None \<longrightarrow> depsOf t (ps_AccountID p) \<noteq> None"
    using assms later_depsOf [OF assms(3)] by (auto simp: postingWritten_def later_def)
  ultimately show ?thesis using assms(1) by (simp add: postingWritten_def)
qed

lemma cleanPosting_written: "cleanPosting env options date input s = (s', Inr p) \<Longrightarrow> postingWritten env options s s' date input p"
  unfolding postingWritten_def using cleanPosting_Inr [of env options date input s s' p] by simp

lemma cleanPostings_written:
  assumes "mapW (cleanPosting env options date) inputs s = (s', Inr ps)"
  shows "list_all2 (postingWritten env options s s' date) inputs ps" "later s s'"
proof -
  have m: "list_all2 (\<lambda>x y. \<exists>s1 s2. later s s1 \<and> cleanPosting env options date x s1 = (s2, Inr y) \<and> later s2 s') inputs ps \<and> later s s'"
    by (rule mapW_Inr [OF assms]) (blast intro: cleanPosting_Inr(3) later_trans later_refl)+
  then have "list_all2 (\<lambda>x y. \<exists>s1 s2. later s s1 \<and> cleanPosting env options date x s1 = (s2, Inr y) \<and> later s2 s') inputs ps" ..
  then show "list_all2 (postingWritten env options s s' date) inputs ps"
    by (rule list_all2_mono) (blast intro: postingWritten_later cleanPosting_written)
  show "later s s'" using m by blast
qed

definition orOrdinary :: "string \<Rightarrow> string" where
  "orOrdinary kind = (if TrimSpace kind = [] then ''ordinary'' else TrimSpace kind)"

definition entryWritten ::
  "ledgerEnv \<Rightarrow> cleanTransactionOptions \<Rightarrow> cleanState \<Rightarrow> cleanState \<Rightarrow> string \<Rightarrow> JournalEntryInput \<Rightarrow> JournalEntrySpec \<Rightarrow> bool" where
  "entryWritten env options s s' transactionDate input e \<longleftrightarrow>
     cleanRequiredDate (entryDay transactionDate input) ''entry date'' = Inr (es_EntryDate e) \<and>
     es_EntryKind e = orOrdinary (je_EntryKind input) \<and> es_EntryKind e \<in> set entryKinds \<and>
     es_ConversionSide e = je_ConversionSide input \<and> es_FeePaidBy e = je_FeePaidBy input \<and>
     (es_ConversionSide e \<noteq> [] \<longrightarrow> es_EntryKind e = exchangeEntryKind) \<and>
     list_all2 (postingWritten env options s s' (es_EntryDate e)) (je_Postings input) (es_Postings e)"

lemma entryWritten_later:
  assumes "entryWritten env options s s' d input e" and "later r s" and "later s' t"
  shows "entryWritten env options r t d input e"
proof -
  have "list_all2 (postingWritten env options s s' (es_EntryDate e)) (je_Postings input) (es_Postings e)"
    using assms(1) by (simp add: entryWritten_def)
  then have "list_all2 (postingWritten env options r t (es_EntryDate e)) (je_Postings input) (es_Postings e)"
    by (rule list_all2_mono) (rule postingWritten_later [OF _ assms(2,3)])
  then show ?thesis using assms(1) unfolding entryWritten_def by blast
qed

lemma cleanJournalEntry_written:
  assumes "cleanJournalEntry env options d input s = (s', Inr e)"
  shows "entryWritten env options s s' d input e" "later s s'"
proof -
  obtain ps where ps: "mapW (cleanPosting env options (es_EntryDate e)) (je_Postings input) s = (s', Inr ps)" "es_Postings e = ps"
    and e: "cleanRequiredDate (entryDay d input) ''entry date'' = Inr (es_EntryDate e)"
      "es_EntryKind e = orOrdinary (je_EntryKind input)" "es_EntryKind e \<in> set entryKinds"
      "es_ConversionSide e = je_ConversionSide input" "es_FeePaidBy e = je_FeePaidBy input"
      "es_ConversionSide e \<noteq> [] \<longrightarrow> es_EntryKind e = exchangeEntryKind"
    using assms by (auto simp: cleanJournalEntry_def Let_def result_simps entryDay_def orOrdinary_def)
  then show "entryWritten env options s s' d input e" "later s s'"
    using cleanPostings_written [OF ps(1)] by (simp_all add: entryWritten_def)
qed

lemma cleanEntries_written:
  assumes "cleanEntries env options d i inputs s = (s', Inr es)"
  shows "list_all2 (entryWritten env options s s' d) inputs es \<and> later s s' \<and> (\<forall>e\<in>set es. 2 \<le> length (es_Postings e))"
  using assms
proof (induction inputs arbitrary: i s es)
  case Nil
  then show ?case by (simp add: result_simps)
next
  case (Cons input inputs)
  then obtain s1 e es' where e: "cleanJournalEntry env options d input s = (s1, Inr e)" "2 \<le> length (es_Postings e)"
    and es: "cleanEntries env options d (Suc i) inputs s1 = (s', Inr es')" "es = e # es'"
    by (auto simp: result_simps)
  note w = cleanJournalEntry_written [OF e(1)] note ih = Cons.IH [OF es(1)]
  have "list_all2 (entryWritten env options s s' d) inputs es'"
    by (rule list_all2_mono [OF conjunct1 [OF ih]]) (blast intro: entryWritten_later w(2) later_refl)
  then show ?case using w ih e(2) es(2) by (auto intro: entryWritten_later later_trans)
qed

lemma lineKeysFresh_iff: "lineKeysFresh seen ks \<longleftrightarrow> distinct ks \<and> set seen \<inter> set ks = {}"
  by (induction ks arbitrary: seen) auto

text \<open>What an accepted request gives, gathered from the whole chain of checks.\<close>

lemma cleanTransactionSpec_Inr:
  assumes "cleanTransactionSpec env options input s = (s', Inr spec)"
  obtains journal where
    "cleanStatus options (ti_Status input) = Inr (ts_Status spec)"
    "cleanTransactionDate env options input = Inr (ts_TransactionDate spec)"
    "writtenEntries env (ts_TransactionDate spec) input = Inr journal"
    "list_all2 (entryWritten env options s s' (ts_TransactionDate spec)) journal (ts_JournalEntries spec)"
    "later s s'" "\<forall>e\<in>set (ts_JournalEntries spec). 2 \<le> length (es_Postings e)"
    "distinct (map ps_LineKey (concat (map es_Postings (ts_JournalEntries spec))))" "ts_JournalEntries spec \<noteq> []"
    "ts_Status spec = ''posted'' \<longrightarrow> validateBalanced (ts_JournalEntries spec) = Inr ()"
proof -
  obtain journal where
    j: "cleanStatus options (ti_Status input) = Inr (ts_Status spec)"
    "cleanTransactionDate env options input = Inr (ts_TransactionDate spec)"
    "writtenEntries env (ts_TransactionDate spec) input = Inr journal"
    and e: "cleanEntries env options (ts_TransactionDate spec) 0 journal s = (s', Inr (ts_JournalEntries spec))"
    and v: "validateLineKeysUnique (ts_JournalEntries spec) = Inr ()" "ts_JournalEntries spec \<noteq> []"
    "ts_Status spec = ''posted'' \<longrightarrow> validateBalanced (ts_JournalEntries spec) = Inr ()"
    using assms by (auto simp: cleanTransactionSpec_def Let_def result_simps split: if_splits)
  have "distinct (map ps_LineKey (concat (map es_Postings (ts_JournalEntries spec))))"
    using v(1) by (simp add: validateLineKeysUnique_def result_simps lineKeysFresh_iff)
  then show thesis using that [OF j] cleanEntries_written [OF e] v by auto
qed

section \<open>Accepted transactions\<close>

lemma entryWritten_postings:
  assumes "list_all2 (entryWritten env options s s' d) journal es" and "e \<in> set es" and "p \<in> set (es_Postings e)"
  shows "\<exists>input. postingWritten env options s s' (es_EntryDate e) input p"
proof -
  obtain je where "entryWritten env options s s' d je e" using assms(1,2) by (metis list_all2_conv_all_nth in_set_conv_nth)
  then have "list_all2 (postingWritten env options s s' (es_EntryDate e)) (je_Postings je) (es_Postings e)" by (simp add: entryWritten_def)
  then show ?thesis using assms(3) by (metis list_all2_conv_all_nth in_set_conv_nth)
qed

lemma cleanStatus_Inr:
  assumes "cleanStatus options requested = Inr status"
  shows "status = ''draft'' \<or> status = ''posted''" and "op_ForcedStatus options \<noteq> [] \<Longrightarrow> status = op_ForcedStatus options"
  using assms by (auto simp: cleanStatus_def transactionStatuses_def Let_def split: if_splits)

text \<open>
  C4. The writer accepts only sound transactions. An accepted one is a draft or posted, and
  carries the status the caller forces if it forces one, whatever the request says. It has at
  least one entry and every entry at least two postings; no two postings share a line key; every
  posting's account and commodity admit it on the date of its entry; and a posted transaction
  balances exactly, in every commodity of every entry.
\<close>

theorem accepted_transaction_sound:
  assumes "cleanTransactionSpec env options input s = (s', Inr spec)"
  shows "(ts_Status spec = ''draft'' \<or> ts_Status spec = ''posted'') \<and>
    (op_ForcedStatus options \<noteq> [] \<longrightarrow> ts_Status spec = op_ForcedStatus options) \<and>
    ts_JournalEntries spec \<noteq> [] \<and>
    distinct (map ps_LineKey (concat (map es_Postings (ts_JournalEntries spec)))) \<and>
    (\<forall>e\<in>set (ts_JournalEntries spec). 2 \<le> length (es_Postings e) \<and>
      (\<forall>p\<in>set (es_Postings e). postingAdmitted env options (es_EntryDate e) p) \<and>
      (ts_Status spec = ''posted'' \<longrightarrow> balancedLegs (map specLeg (es_Postings e))))"
proof -
  obtain journal where j: "cleanStatus options (ti_Status input) = Inr (ts_Status spec)"
    "list_all2 (entryWritten env options s s' (ts_TransactionDate spec)) journal (ts_JournalEntries spec)"
    "\<forall>e\<in>set (ts_JournalEntries spec). 2 \<le> length (es_Postings e)"
    "distinct (map ps_LineKey (concat (map es_Postings (ts_JournalEntries spec))))" "ts_JournalEntries spec \<noteq> []"
    "ts_Status spec = ''posted'' \<longrightarrow> validateBalanced (ts_JournalEntries spec) = Inr ()"
    using assms by (rule cleanTransactionSpec_Inr)
  have admitted: "postingAdmitted env options (es_EntryDate e) p" if "e \<in> set (ts_JournalEntries spec)" "p \<in> set (es_Postings e)" for e p
    using entryWritten_postings [OF j(2) that] by (auto simp: postingWritten_def)
  have "specScalesOk (es_Postings e)" if "e \<in> set (ts_JournalEntries spec)" for e
    unfolding specScalesOk_def using postingAdmitted_scale [OF admitted [OF that]] by blast
  note exact = validateBalancedFrom_exact [OF this, where i = 0]
  have "balancedLegs (map specLeg (es_Postings e))" if "e \<in> set (ts_JournalEntries spec)" "ts_Status spec = ''posted''" for e
    using j(6) exact that by (auto simp: validateBalanced_def list_all_iff entryBalances_def split: if_splits)
  then show ?thesis using cleanStatus_Inr [OF j(1)] j(3-5) admitted by blast
qed

text \<open>
  C28. The writer records every account version an accepted transaction rests on, and never
  replaces one recorded earlier: whatever the collector already held is unchanged, and every account posted to is in it.
\<close>

theorem dependencies_cover_postings:
  assumes "cleanTransactionSpec env options input s = (s', Inr spec)" and "cs_deps s \<noteq> None"
  shows "depsOf s \<subseteq>\<^sub>m depsOf s' \<and>
    (\<forall>e\<in>set (ts_JournalEntries spec). \<forall>p\<in>set (es_Postings e). depsOf s' (ps_AccountID p) \<noteq> None)"
proof -
  obtain journal where j: "list_all2 (entryWritten env options s s' (ts_TransactionDate spec)) journal (ts_JournalEntries spec)" "later s s'"
    using assms(1) by (rule cleanTransactionSpec_Inr)
  have "depsOf s' (ps_AccountID p) \<noteq> None" if "e \<in> set (ts_JournalEntries spec)" "p \<in> set (es_Postings e)" for e p
    using entryWritten_postings [OF j(1) that] assms(2) by (auto simp: postingWritten_def)
  then show ?thesis using j(2) by (auto simp: later_def)
qed

section \<open>Reconciliation\<close>

lemma keptReconciliation_Inr:
  assumes "keptReconciliation options key date input = Inr (status, clearedOn)" and "sameAmounts input p"
  shows "status = (case op_ExistingPostings options key of
       None \<Rightarrow> ''uncleared''
     | Some x \<Rightarrow> if reconciliationAffectingChange (xs_EntryDate x) (xs_Posting x) date p then ''uncleared'' else xs_ReconciliationStatus x)"
    and "status = ''uncleared'' \<Longrightarrow> clearedOn = []"
proof -
  have "reconciliationAffectingChange (xs_EntryDate x) (xs_Posting x) date (verifiedFacts input) =
      reconciliationAffectingChange (xs_EntryDate x) (xs_Posting x) date p" for x :: existingPostingState
    using assms(2) by (simp add: reconciliationAffectingChange_def verifiedFacts_def sameAmounts_def)
  then show "status = (case op_ExistingPostings options key of
       None \<Rightarrow> ''uncleared''
     | Some x \<Rightarrow> if reconciliationAffectingChange (xs_EntryDate x) (xs_Posting x) date p then ''uncleared'' else xs_ReconciliationStatus x)"
    and "status = ''uncleared'' \<Longrightarrow> clearedOn = []"
    using assms(1) by (auto simp: keptReconciliation_def Let_def result_simps split: option.splits if_splits)
qed

text \<open>
  C27. A reconciliation status survives an edit exactly while what a statement verified stays the same. An
  accepted posting of a stored line keeps the line's status if its date, account, commodity,
  amount and scale are all unchanged; if any of them changed, or the line is new, it is
  uncleared. An uncleared posting carries no cleared date.
\<close>

theorem reconciliation_follows_the_facts:
  assumes "cleanPosting env options date input s = (s', Inr p)"
  shows "ps_ReconciliationStatus p = (case op_ExistingPostings options (ps_LineKey p) of
       None \<Rightarrow> ''uncleared''
     | Some x \<Rightarrow>
         if xs_EntryDate x = date \<and> pr_AccountID (xs_Posting x) = ps_AccountID p \<and> pr_CommodityID (xs_Posting x) = ps_CommodityID p \<and>
            BigInt (pr_QuantityValue (xs_Posting x)) = BigInt (ps_QuantityValue p) \<and> pr_QuantityScale (xs_Posting x) = ps_QuantityScale p
         then xs_ReconciliationStatus x else ''uncleared'') \<and>
    (ps_ReconciliationStatus p = ''uncleared'' \<longrightarrow> ps_ClearedOn p = None)"
proof -
  obtain clearedOn where k: "keptReconciliation options (ps_LineKey p) date input = Inr (ps_ReconciliationStatus p, clearedOn)"
    "ps_ClearedOn p = nullableSQLString clearedOn"
    using cleanPosting_Inr(6) [OF assms] by blast
  note f = keptReconciliation_Inr [OF k(1) cleanPosting_Inr(2) [OF assms]]
  have "ps_ReconciliationStatus p = ''uncleared'' \<longrightarrow> ps_ClearedOn p = None"
    using f(2) k(2) by (simp add: nullableSQLString_def)
  then show ?thesis using f(1)
    by (simp add: reconciliationAffectingChange_def Coefficient_Cmp_def split: option.splits)
qed

section \<open>What reaches the journal\<close>

text \<open>The account, commodity, amount and scale of a posting.\<close>

definition amountOf :: "PostingInput \<Rightarrow> int \<times> int \<times> Coefficient \<times> int" where
  "amountOf p = (pi_AccountID p, pi_CommodityID p, pi_QuantityValue p, pi_QuantityScale p)"

definition specAmount :: "PostingSpec \<Rightarrow> int \<times> int \<times> Coefficient \<times> int" where
  "specAmount p = (ps_AccountID p, ps_CommodityID p, ps_QuantityValue p, ps_QuantityScale p)"

definition inputPostings :: "JournalEntryInput list \<Rightarrow> PostingInput list" where
  "inputPostings entries = concat (map je_Postings entries)"

lemma amountOf_undated: "amountOf (undated p) = amountOf p"
  by (simp add: amountOf_def undated_def)

lemma map_amountOf_undated: "map undated ps = map undated qs \<Longrightarrow> map amountOf ps = map amountOf qs"
  by (metis (no_types, lifting) amountOf_undated list.map_comp map_cong comp_apply)

lemma buildExchangeLegs_adds:
  assumes "buildExchangeLegs env d input = Inr input'" and "scalesOk (inputPostings (ti_JournalEntries input))"
  shows "\<exists>trading. map amountOf (inputPostings (ti_JournalEntries input')) =
      map amountOf (inputPostings (ti_JournalEntries input)) @ map amountOf trading \<and>
    (\<forall>l\<in>set trading. SystemAccountID (env_tables env) BookID ''commodity_trading'' = Some (pi_AccountID l)) \<and>
    scalesOk (inputPostings (ti_JournalEntries input'))"
proof (cases "input' = input")
  case True
  then show ?thesis using assms(2) by (intro exI [of _ "[]"]) simp
next
  case False
  then obtain entry kinds k built where e: "ti_JournalEntries input = [entry]"
    "SystemAccountID (env_tables env) BookID ''commodity_trading'' = Some k"
    "exchangeLegs entry (entryDay d entry) kinds k = Inr built" "ti_JournalEntries input' = [built]"
    using assms(1) by (auto simp: buildExchangeLegs_def Let_def result_simps split: if_splits list.splits option.splits)
  have sc: "scalesOk (je_Postings entry)" using assms(2) e(1) by (simp add: inputPostings_def)
  obtain a b fee sending receiving where "exchangeBuild entry (entryDay d entry) [a, b] fee sending receiving k = Inr built"
    using e(3) by (rule exchangeLegs_Inr)
  then obtain own trading i where t: "je_Postings built = own @ trading" "map undated own = map undated (je_Postings entry)"
    "\<forall>l\<in>set trading. pi_AccountID l = k \<and> pi_LineKey l = [] \<and> pi_PostedOn l = exchangeDay entry (entryDay d entry) i \<and> scaleOk (pi_QuantityScale l)"
    using sc by (rule exchangeBuild_Inr)
  have "scalesOk own" using scalesOk_undated [OF t(2)] sc by simp
  moreover have "scalesOk trading" using t(3) by (simp add: scalesOk_def)
  ultimately show ?thesis using t e map_amountOf_undated [OF t(2)]
    by (intro exI [of _ trading]) (simp add: inputPostings_def)
qed

lemma groupPostingsByPostedOn_adds:
  assumes "groupPostingsByPostedOn env d input = Inr entries" and "scalesOk (inputPostings (ti_JournalEntries input))"
  shows "\<exists>bridges. mset (map amountOf (inputPostings entries)) =
      mset (map amountOf (inputPostings (ti_JournalEntries input))) + mset (map amountOf bridges) \<and>
    (\<forall>l\<in>set bridges. SystemAccountID (env_tables env) BookID ''transfer_clearing'' = Some (pi_AccountID l))"
proof (cases "usesPostedOn (ti_JournalEntries input)")
  case False
  then show ?thesis using assms(1) by (intro exI [of _ "[]"]) (simp add: groupPostingsByPostedOn_def)
next
  case True
  let ?clearing = "case SystemAccountID (env_tables env) BookID ''transfer_clearing'' of None \<Rightarrow> Inl ClearingAccountMissing | Some k \<Rightarrow> Inr k"
  obtain entry day roles where e: "ti_JournalEntries input = [entry]" "mapR (postingRole env day) (je_Postings entry) = Inr roles"
    "groupPostingsByDay entry day roles ?clearing = Inr entries"
    using assms(1) True by (auto simp: groupPostingsByPostedOn_def result_simps split: if_splits list.splits)
  obtain bridges where b: "mset (concat (map je_Postings entries)) = mset (map undated (je_Postings entry)) + mset bridges"
    "\<forall>b\<in>set bridges. ?clearing = Inr (pi_AccountID b) \<and> pi_LineKey b = [] \<and> BigInt (pi_QuantityValue b) \<noteq> 0"
    using groupPostingsByDay_sound [OF e(3)] mapR_length [OF e(2)] assms(2) e(1) by (auto simp: inputPostings_def)
  have "image_mset amountOf (mset (concat (map je_Postings entries))) =
      image_mset (\<lambda>p. amountOf (undated p)) (mset (je_Postings entry)) + image_mset amountOf (mset bridges)"
    by (simp add: b(1) image_mset.compositionality o_def)
  then have "mset (map amountOf (inputPostings entries)) =
      mset (map amountOf (inputPostings (ti_JournalEntries input))) + mset (map amountOf bridges)"
    by (simp add: inputPostings_def e(1) amountOf_undated)
  then show ?thesis using b(2) by (intro exI [of _ bridges]) (auto split: option.splits)
qed

lemma written_amounts:
  assumes "list_all2 (entryWritten env options s s' d) journal es"
  shows "map specAmount (concat (map es_Postings es)) = map amountOf (inputPostings journal)"
  using assms
proof (induction rule: list_all2_induct)
  case (Cons je journal e es)
  have "list_all2 (postingWritten env options s s' (es_EntryDate e)) (je_Postings je) (es_Postings e)"
    using Cons(1) by (simp add: entryWritten_def)
  then have "map specAmount (es_Postings e) = map amountOf (je_Postings je)"
    by (induction rule: list_all2_induct) (simp_all add: postingWritten_def sameAmounts_def specAmount_def amountOf_def)
  then show ?case using Cons(3) by (simp add: inputPostings_def)
qed (simp add: inputPostings_def)

text \<open>
  C18. What a request asks for is what reaches the journal. The postings of an accepted
  transaction are exactly the request's postings, each with its account, commodity, amount and
  scale unchanged, and besides them only postings the server adds on its own two system accounts,
  the clearing account of the posted-date rule and the trading account of the exchange rule.
\<close>

theorem journal_is_request_plus_system_postings:
  assumes "cleanTransactionSpec env options input s = (s', Inr spec)"
    and "\<forall>e\<in>set (ti_JournalEntries input). scalesOk (je_Postings e)"
  shows "\<exists>added. mset (map specAmount (concat (map es_Postings (ts_JournalEntries spec)))) =
      mset (map amountOf (concat (map je_Postings (ti_JournalEntries input)))) + mset (map amountOf added) \<and>
    (\<forall>l\<in>set added. SystemAccountID (env_tables env) BookID ''transfer_clearing'' = Some (pi_AccountID l) \<or>
      SystemAccountID (env_tables env) BookID ''commodity_trading'' = Some (pi_AccountID l))"
proof -
  let ?d = "ts_TransactionDate spec"
  obtain journal where j: "writtenEntries env ?d input = Inr journal"
    "list_all2 (entryWritten env options s s' ?d) journal (ts_JournalEntries spec)"
    using assms(1) by (rule cleanTransactionSpec_Inr)
  have sc: "scalesOk (inputPostings (ti_JournalEntries input))" using assms(2) by (auto simp: scalesOk_def inputPostings_def)
  show ?thesis
  proof (cases "ti_storedJournal input")
    case True
    then have "journal = ti_JournalEntries input" using j(1) by (simp add: writtenEntries_def)
    then show ?thesis using written_amounts [OF j(2)] by (intro exI [of _ "[]"]) (simp only: inputPostings_def, simp)
  next
    case False
    then obtain input' where i: "buildExchangeLegs env ?d input = Inr input'" "groupPostingsByPostedOn env ?d input' = Inr journal"
      using j(1) by (auto simp: writtenEntries_def result_simps)
    obtain trading where t: "map amountOf (inputPostings (ti_JournalEntries input')) =
        map amountOf (inputPostings (ti_JournalEntries input)) @ map amountOf trading"
      "\<forall>l\<in>set trading. SystemAccountID (env_tables env) BookID ''commodity_trading'' = Some (pi_AccountID l)"
      "scalesOk (inputPostings (ti_JournalEntries input'))"
      using buildExchangeLegs_adds [OF i(1) sc] by blast
    obtain bridges where b: "mset (map amountOf (inputPostings journal)) =
        mset (map amountOf (inputPostings (ti_JournalEntries input'))) + mset (map amountOf bridges)"
      "\<forall>l\<in>set bridges. SystemAccountID (env_tables env) BookID ''transfer_clearing'' = Some (pi_AccountID l)"
      using groupPostingsByPostedOn_adds [OF i(2) t(3)] by blast
    have "mset (map amountOf (inputPostings journal)) =
        mset (map amountOf (inputPostings (ti_JournalEntries input))) + mset (map amountOf (trading @ bridges))"
      unfolding b(1) t(1) by simp
    then show ?thesis using t(2) b(2) written_amounts [OF j(2)]
      by (intro exI [of _ "trading @ bridges"]) (simp only: inputPostings_def set_append, blast)
  qed
qed

section \<open>Writing a stored journal again\<close>

definition storedRow :: "Posting \<Rightarrow> string \<times> int \<times> int \<times> Coefficient \<times> int" where
  "storedRow p = (p_LineKey p, p_AccountID p, p_CommodityID p, p_QuantityValue p, p_QuantityScale p)"

definition specRow :: "PostingSpec \<Rightarrow> string \<times> int \<times> int \<times> Coefficient \<times> int" where
  "specRow p = (ps_LineKey p, ps_AccountID p, ps_CommodityID p, ps_QuantityValue p, ps_QuantityScale p)"

text \<open>What the repository stores: real days and line keys that are not blank.\<close>

definition storedEntryOk :: "JournalEntry \<Rightarrow> bool" where
  "storedEntryOk e \<longleftrightarrow> parseDateOnly (e_EntryDate e) \<noteq> None \<and>
     list_all (\<lambda>p. p_LineKey p \<noteq> [] \<and> TrimSpace (p_LineKey p) = p_LineKey p) (e_Postings e)"

lemma postingWritten_stored:
  "postingWritten env options s s' d (postingInputFrom p) q \<Longrightarrow> p_LineKey p \<noteq> [] \<Longrightarrow> TrimSpace (p_LineKey p) = p_LineKey p \<Longrightarrow>
    specRow q = storedRow p"
  by (simp add: postingWritten_def sameAmounts_def lineKeyFrom_def specRow_def storedRow_def postingInputFrom_def)

lemma entryWritten_stored:
  assumes "entryWritten env options s s' d (entryInputFrom e) es" and "storedEntryOk e"
  shows "es_EntryDate es = e_EntryDate e" "map specRow (es_Postings es) = map storedRow (e_Postings e)"
proof -
  obtain t where t: "fourDigitYear t" "e_EntryDate e = formatDateOnly t"
    using assms(2) by (auto simp: storedEntryOk_def parseDateOnly_iff)
  then have ne: "TrimSpace (e_EntryDate e) = e_EntryDate e" "e_EntryDate e \<noteq> []"
    by (simp add: TrimSpace_date) (simp add: t(2) formatDateOnly_def)
  have "cleanRequiredDate (e_EntryDate e) ''entry date'' = Inr (es_EntryDate es)"
    using assms(1) ne by (simp add: entryWritten_def entryDay_def entryInputFrom_def)
  then show "es_EntryDate es = e_EntryDate e" using ne by (simp add: cleanRequiredDate_Inr)
  have "list_all2 (postingWritten env options s s' (es_EntryDate es)) (map postingInputFrom (e_Postings e)) (es_Postings es)"
    using assms(1) by (simp add: entryWritten_def entryInputFrom_def)
  moreover have "\<forall>p\<in>set (e_Postings e). p_LineKey p \<noteq> [] \<and> TrimSpace (p_LineKey p) = p_LineKey p"
    using assms(2) by (simp add: storedEntryOk_def list_all_iff)
  ultimately show "map specRow (es_Postings es) = map storedRow (e_Postings e)"
    unfolding list_all2_map1 by (induction rule: list_all2_induct) (simp_all add: postingWritten_stored)
qed

text \<open>
  C21. A stored journal written again as stored (a draft's promotion, a kept journal) is kept line for line: when
  the writer accepts it, the specification has the same entries on the same days, and each posting keeps its
  line key, account, commodity, amount and scale, in the same order; nothing is added or rebuilt.
\<close>

theorem stored_journal_kept:
  assumes "cleanTransactionSpec env options (storedTransactionInput t) s = (s', Inr spec)"
    and "\<forall>e\<in>set (t_JournalEntries t). storedEntryOk e"
  shows "map (\<lambda>e. (es_EntryDate e, map specRow (es_Postings e))) (ts_JournalEntries spec) =
    map (\<lambda>e. (e_EntryDate e, map storedRow (e_Postings e))) (t_JournalEntries t)"
proof -
  obtain journal where j: "writtenEntries env (ts_TransactionDate spec) (storedTransactionInput t) = Inr journal"
    "list_all2 (entryWritten env options s s' (ts_TransactionDate spec)) journal (ts_JournalEntries spec)"
    using assms(1) by (rule cleanTransactionSpec_Inr)
  have "journal = map entryInputFrom (t_JournalEntries t)"
    using j(1) by (simp add: writtenEntries_def storedTransactionInput_def transactionInputFromTransaction_def)
  then have "list_all2 (\<lambda>e es. entryWritten env options s s' (ts_TransactionDate spec) (entryInputFrom e) es)
      (t_JournalEntries t) (ts_JournalEntries spec)"
    using j(2) by (simp add: list_all2_map1)
  then show ?thesis using assms(2)
    by (induction rule: list_all2_induct) (simp_all add: entryWritten_stored)
qed

section \<open>Witnesses\<close>

definition openVersion :: "int \<Rightarrow> accountVersion" where
  "openVersion account = \<lparr> av_id = account, av_account_id = account, av_version_seq = 1, av_effective_from = ''2026-01-01'',
     av_account_class = ''asset'', av_account_kind = ''bank'', av_status = ''active'', av_opened_on = ''2026-01-01'',
     av_closed_on = None, av_default_commodity_id = Some 7, av_quantity_scale_override = None, av_allows_postings = 1 \<rparr>"

definition transferEnv :: ledgerEnv where
  "transferEnv = \<lparr> env_tables = \<lparr> accounts = [\<lparr> a_id = 1, a_book_id = 1, a_system_role = None \<rparr>, \<lparr> a_id = 2, a_book_id = 1, a_system_role = None \<rparr>],
       account_versions = [openVersion 1, openVersion 2],
       account_kinds = [\<lparr> ak_code = ''bank'', ak_account_class = ''asset'', ak_base_kind = ''cash'' \<rparr>],
       commodities = [\<lparr> c_id = 7, c_book_id = 1, c_kind = ''currency'' \<rparr>],
       commodity_versions = [\<lparr> cv_id = 1, cv_commodity_id = 7, cv_version_seq = 1, cv_effective_from = ''1900-01-01'',
         cv_status = ''active'', cv_standard_scale = 2, cv_max_quantity_scale = 2 \<rparr>],
       tags = [], payees = [], payee_versions = [] \<rparr>,
     env_today = (\<lambda>_. ''2026-06-02''), env_referenceDate = ''2026-06-02'', env_newLineKey = (\<lambda>n. ''k'' @ intString (int n)),
     env_unicodeLower = (\<lambda>t. t) \<rparr>"

definition keyedTransfer :: Transaction where
  "keyedTransfer = storedTransfer\<lparr> t_JournalEntries := [\<lparr> e_ID = 1, e_EntrySeq = 1, e_EntryDate = ''2026-06-01'', e_EntryKind = ''transfer_leg'',
     e_Memo = [], e_MetadataJSON = [], e_ConversionSide = [], e_FeePaidBy = [],
     e_Postings = [(storedPosting 1 (- 1))\<lparr> p_LineKey := ''a'' \<rparr>, (storedPosting 2 1)\<lparr> p_LineKey := ''b'' \<rparr>] \<rparr>] \<rparr>"

definition clearedLine :: existingPostingState where
  "clearedLine = \<lparr> xs_ReconciliationStatus = ''cleared'', xs_ClearedOn = ''2026-06-01'', xs_EntryDate = ''2026-06-01'',
     xs_Posting = \<lparr> pr_ID = 1, pr_BookID = 1, pr_TransactionVersionID = 1, pr_JournalEntryID = 1, pr_PostingLineID = 1, pr_LineKey = ''a'',
       pr_LineSeq = 1, pr_AccountID = 1, pr_AccountDaySequence = 1, pr_QuantityValue = New (- 1), pr_QuantityScale = 2,
       pr_CommodityID = 7, pr_Memo = [], pr_ReconciliationStatus = ''cleared'', pr_ClearedOn = Some ''2026-06-01'',
       pr_MetadataJSON = [], pr_TagIDs = [] \<rparr> \<rparr>"

definition updateOptions :: cleanTransactionOptions where
  "updateOptions = \<lparr> op_OwnerUserID = 1, op_DefaultStatus = [], op_ForcedStatus = ''posted'', op_ExistingLineKeys = Some [''a'', ''b''],
     op_ExistingPostings = [''a'' \<mapsto> clearedLine], op_AllowSubledgerManagedPostings = False \<rparr>"

definition freshRun :: cleanState where
  "freshRun = \<lparr> cs_deps = Some [], cs_drawn = 0 \<rparr>"

lemma day_literals:
  "cleanRequiredDate ''2026-06-01'' field = Inr ''2026-06-01''" "TrimSpace ''2026-06-01'' = ''2026-06-01''"
  by (rule cleanRequiredDate_literal [of 2026 6 1]; simp add: date_literal)+

lemma word_literals:
  "TrimSpace ''posted'' = ''posted''" "TrimSpace ''transfer'' = ''transfer''" "TrimSpace ''transfer_leg'' = ''transfer_leg''"
  "TrimSpace ''a'' = ''a''" "TrimSpace ''b'' = ''b''"
  by (simp_all add: text_literal)

lemmas rule_eval = lookupPostingAccountRule_def findAccount_def accountVersionsOf_def versionKey_def accountRule_def openVersion_def
  lookupPostingCommodityRule_def BookID_def transferEnv_def

lemmas posting_eval = cleanPosting_def checkPostingShape_def MaxCryptoScale_def checkAccountRule_def AcceptsPostingsOn_def
  isSubledgerManagedAccount_def subledgerManagedBaseKind_def checkCommodityRule_def MaxScaleForCommodityKind_def MaxStandardScale_def
  cleanLineKey_def keptReconciliation_def reconciliationAffectingChange_def verifiedFacts_def reconciliationStatuses_def
  cleanOptionalDate_def cleanOptionalText_def cleanSizedJSONObject_def cleanTagIDs_def transactionTextMaxBytes_def ledgerJSONMaxBytes_def
  bindW_def liftW_def observeW_def observe_def updateOptions_def clearedLine_def freshRun_def

lemma keyed_posting_a:
  "\<exists>p. cleanPosting transferEnv updateOptions ''2026-06-01'' (postingInputFrom ((storedPosting 1 (- 1))\<lparr> p_LineKey := ''a'' \<rparr>)) freshRun =
     (\<lparr> cs_deps = Some [(1, 1)], cs_drawn = 0 \<rparr>, Inr p) \<and> ps_LineKey p = ''a'' \<and> ps_CommodityID p = 7 \<and> ps_QuantityValue p = New (- 1) \<and> ps_QuantityScale p = 2"
  by (simp add: posting_eval rule_eval postingInputFrom_def storedPosting_def word_literals day_literals Coefficient_Cmp_def bigCmp_def Let_def)

lemma keyed_posting_b:
  "\<exists>p. cleanPosting transferEnv updateOptions ''2026-06-01'' (postingInputFrom ((storedPosting 2 1)\<lparr> p_LineKey := ''b'' \<rparr>))
       \<lparr> cs_deps = Some [(1, 1)], cs_drawn = 0 \<rparr> = (\<lparr> cs_deps = Some [(1, 1), (2, 2)], cs_drawn = 0 \<rparr>, Inr p) \<and>
     ps_LineKey p = ''b'' \<and> ps_CommodityID p = 7 \<and> ps_QuantityValue p = New 1 \<and> ps_QuantityScale p = 2"
  by (simp add: posting_eval rule_eval postingInputFrom_def storedPosting_def word_literals day_literals Let_def)

lemma keyed_entry:
  "\<exists>e. cleanJournalEntry transferEnv updateOptions ''2026-06-01'' (entryInputFrom (hd (t_JournalEntries keyedTransfer))) freshRun =
     (\<lparr> cs_deps = Some [(1, 1), (2, 2)], cs_drawn = 0 \<rparr>, Inr e) \<and> map ps_LineKey (es_Postings e) = [''a'', ''b''] \<and>
     map specLeg (es_Postings e) = [(7, decVal (- 1) 2), (7, decVal 1 2)] \<and> map ps_QuantityScale (es_Postings e) = [2, 2]"
proof -
  obtain p q where p: "cleanPosting transferEnv updateOptions ''2026-06-01'' (postingInputFrom ((storedPosting 1 (- 1))\<lparr> p_LineKey := ''a'' \<rparr>)) freshRun =
     (\<lparr> cs_deps = Some [(1, 1)], cs_drawn = 0 \<rparr>, Inr p)" "ps_LineKey p = ''a''" "ps_CommodityID p = 7" "ps_QuantityValue p = New (- 1)" "ps_QuantityScale p = 2"
    and q: "cleanPosting transferEnv updateOptions ''2026-06-01'' (postingInputFrom ((storedPosting 2 1)\<lparr> p_LineKey := ''b'' \<rparr>))
       \<lparr> cs_deps = Some [(1, 1)], cs_drawn = 0 \<rparr> = (\<lparr> cs_deps = Some [(1, 1), (2, 2)], cs_drawn = 0 \<rparr>, Inr q)"
      "ps_LineKey q = ''b''" "ps_CommodityID q = 7" "ps_QuantityValue q = New 1" "ps_QuantityScale q = 2"
    using keyed_posting_a keyed_posting_b by blast
  have legs: "specLeg p = (7, decVal (- 1) 2)" "specLeg q = (7, decVal 1 2)" using p q by (simp_all add: specLeg_def)
  have w: "mapW (cleanPosting transferEnv updateOptions ''2026-06-01'')
      (map postingInputFrom [(storedPosting 1 (- 1))\<lparr> p_LineKey := ''a'' \<rparr>, (storedPosting 2 1)\<lparr> p_LineKey := ''b'' \<rparr>]) freshRun =
      (\<lparr> cs_deps = Some [(1, 1), (2, 2)], cs_drawn = 0 \<rparr>, Inr [p, q])"
    by (simp add: bindW_def liftW_def p(1) q(1))
  then show ?thesis using p(2-) q(2-)
    by (simp add: cleanJournalEntry_def keyedTransfer_def entryInputFrom_def Let_def bindW_def [of "liftW _"] day_literals word_literals
        entryKinds_def cleanOptionalText_def cleanSizedJSONObject_def transactionTextMaxBytes_def sideOk_def liftW_def)
      (simp add: bindW_def legs)
qed

lemma keyed_accepted:
  "\<exists>s spec. cleanTransactionSpec transferEnv updateOptions ((transactionInputFromTransaction keyedTransfer)\<lparr> ti_storedJournal := stored \<rparr>) freshRun = (s, Inr spec)"
proof -
  define s where "s = \<lparr> cs_deps = Some [(1, 1), (2, 2)], cs_drawn = 0 \<rparr>"
  obtain e where
    e: "cleanJournalEntry transferEnv updateOptions ''2026-06-01'' (entryInputFrom (hd (t_JournalEntries keyedTransfer))) freshRun = (s, Inr e)"
    "map ps_LineKey (es_Postings e) = [''a'', ''b'']" "map specLeg (es_Postings e) = [(7, decVal (- 1) 2), (7, decVal 1 2)]"
    "map ps_QuantityScale (es_Postings e) = [2, 2]"
    using keyed_entry [folded s_def] by (elim exE conjE) (rule that)
  let ?input = "(transactionInputFromTransaction keyedTransfer)\<lparr> ti_storedJournal := stored \<rparr>"
  have two: "length (es_Postings e) = 2" using e(2) by (metis length_map length_Cons list.size(3) numeral_2_eq_2)
  have "ps_QuantityScale ` set (es_Postings e) = {2}" using arg_cong [OF e(4), of set] by simp
  then have "ps_QuantityScale p = 2" if "p \<in> set (es_Postings e)" for p using that by blast
  then have "specScalesOk (es_Postings e)" by (simp add: specScalesOk_def scaleOk_def MaxPow10Scale_def)
  then have "validateBalanced [e] = Inr ()"
    using validateBalancedFrom_exact [of "[e]" 0] e(3)
    by (simp add: validateBalanced_def entryBalances_def balancedLegs_def)
  moreover have "writtenEntries transferEnv ''2026-06-01'' ?input = Inr [entryInputFrom (hd (t_JournalEntries keyedTransfer))]"
    by (simp add: writtenEntries_def buildExchangeLegs_def conversionSidesOk_def groupPostingsByPostedOn_def usesPostedOn_def
        transactionInputFromTransaction_def keyedTransfer_def entryInputFrom_def postingInputFrom_def word_literals exchangeEntryKind_def)
  moreover have "cleanTransactionDate transferEnv updateOptions ?input = Inr ''2026-06-01''"
    by (simp add: cleanTransactionDate_def transactionInputFromTransaction_def keyedTransfer_def storedTransfer_def day_literals)
  moreover have "cleanPayee transferEnv ?input = Inr (None, [])"
    by (simp add: cleanPayee_def transactionInputFromTransaction_def keyedTransfer_def storedTransfer_def cleanOptionalText_def payeeNameMaxBytes_def)
  moreover have "cleanStatus updateOptions (ti_Status ?input) = Inr ''posted''"
    by (simp add: cleanStatus_def transactionInputFromTransaction_def keyedTransfer_def storedTransfer_def word_literals
        updateOptions_def transactionStatuses_def)
  moreover have "cleanEntries transferEnv updateOptions ''2026-06-01'' 0 [entryInputFrom (hd (t_JournalEntries keyedTransfer))] freshRun = (s, Inr [e])"
    by (simp add: bindW_def liftW_def e(1) two)
  moreover have "validateLineKeysUnique [e] = Inr ()" by (simp add: validateLineKeysUnique_def e(2))
  moreover have "ti_TransactionKind ?input = ''transfer''" "ti_Description ?input = []" "ti_ExternalRefHint ?input = []"
    "ti_NoteMarkdown ?input = []" "ti_MetadataJSON ?input = []" "ti_TagIDs ?input = []"
    by (simp_all add: transactionInputFromTransaction_def keyedTransfer_def storedTransfer_def)
  ultimately show ?thesis
    by (simp add: cleanTransactionSpec_def Let_def bindW_def liftW_def cleanOptionalText_def cleanOptionalMultilineText_def
        cleanSizedJSONObject_def cleanTagIDs_def transactionTextMaxBytes_def transactionNoteMaxBytes_def word_literals transactionKinds_def
        del: cleanEntries.simps)
qed

definition oneLegged :: JournalEntrySpec where
  "oneLegged = \<lparr> es_EntryDate = ''2026-06-01'', es_EntryKind = ''ordinary'', es_Memo = [], es_MetadataJSON = [], es_ConversionSide = [],
     es_FeePaidBy = [], es_Postings = [verifiedFacts (leg 1 5 [])] \<rparr>"

theorem validate_balanced_exact_witness: "validateBalanced [oneLegged] = Inl (EntryNotBalanced 1)"
proof -
  have "netOf (map specLeg (es_Postings oneLegged)) 7 \<noteq> 0"
    by (simp add: oneLegged_def verifiedFacts_def leg_def specLeg_def emptyPosting_def)
  then have "\<not> balancedLegs (map specLeg (es_Postings oneLegged))" unfolding balancedLegs_def by blast
  moreover have "scaleOk (ps_QuantityScale p)" if "e \<in> set [oneLegged]" "p \<in> set (es_Postings e)" for e p
    using that by (simp add: oneLegged_def verifiedFacts_def leg_def emptyPosting_def scaleOk_def MaxPow10Scale_def)
  ultimately show ?thesis using validate_balanced_exact [of "[oneLegged]"] by simp
qed

theorem accepted_transaction_sound_witness:
  "\<exists>s spec. cleanTransactionSpec transferEnv updateOptions (storedTransactionInput keyedTransfer) freshRun = (s, Inr spec) \<and>
    ts_Status spec = ''posted'' \<and> (\<forall>e\<in>set (ts_JournalEntries spec). balancedLegs (map specLeg (es_Postings e)))"
proof -
  obtain s spec where a: "cleanTransactionSpec transferEnv updateOptions (storedTransactionInput keyedTransfer) freshRun = (s, Inr spec)"
    using keyed_accepted [of True] unfolding storedTransactionInput_def by blast
  have "op_ForcedStatus updateOptions = ''posted''" by (simp add: updateOptions_def)
  then show ?thesis using a accepted_transaction_sound [OF a] by auto
qed

theorem dependencies_cover_postings_witness:
  "\<exists>s spec. cleanTransactionSpec transferEnv updateOptions (storedTransactionInput keyedTransfer) freshRun = (s, Inr spec) \<and>
    (\<forall>e\<in>set (ts_JournalEntries spec). \<forall>p\<in>set (es_Postings e). depsOf s (ps_AccountID p) \<noteq> None)"
proof -
  obtain s spec where a: "cleanTransactionSpec transferEnv updateOptions (storedTransactionInput keyedTransfer) freshRun = (s, Inr spec)"
    using keyed_accepted [of True] unfolding storedTransactionInput_def by blast
  moreover have "cs_deps freshRun \<noteq> None" by (simp add: freshRun_def)
  ultimately show ?thesis using dependencies_cover_postings [OF a] by blast
qed

theorem reconciliation_follows_the_facts_witness:
  "\<exists>s p. cleanPosting transferEnv updateOptions ''2026-06-01'' (postingInputFrom ((storedPosting 1 (- 1))\<lparr> p_LineKey := ''a'' \<rparr>)) freshRun = (s, Inr p) \<and>
    (ps_ReconciliationStatus p = ''uncleared'' \<longrightarrow> ps_ClearedOn p = None)"
proof -
  obtain s p where a: "cleanPosting transferEnv updateOptions ''2026-06-01'' (postingInputFrom ((storedPosting 1 (- 1))\<lparr> p_LineKey := ''a'' \<rparr>)) freshRun = (s, Inr p)"
    using keyed_posting_a by blast
  show ?thesis using a reconciliation_follows_the_facts [OF a] by blast
qed

theorem journal_is_request_plus_system_postings_witness:
  "\<exists>s spec added. cleanTransactionSpec transferEnv updateOptions ((transactionInputFromTransaction keyedTransfer)\<lparr> ti_storedJournal := False \<rparr>) freshRun = (s, Inr spec) \<and>
    mset (map specAmount (concat (map es_Postings (ts_JournalEntries spec)))) =
      mset (map amountOf (concat (map je_Postings (ti_JournalEntries (transactionInputFromTransaction keyedTransfer))))) + mset (map amountOf added)"
proof -
  let ?input = "(transactionInputFromTransaction keyedTransfer)\<lparr> ti_storedJournal := False \<rparr>"
  obtain s spec where a: "cleanTransactionSpec transferEnv updateOptions ?input freshRun = (s, Inr spec)"
    using keyed_accepted [of False] by blast
  have "\<forall>e\<in>set (ti_JournalEntries ?input). scalesOk (je_Postings e)"
    by (simp add: transactionInputFromTransaction_def keyedTransfer_def entryInputFrom_def postingInputFrom_def storedPosting_def
        scaleOk_def MaxPow10Scale_def)
  from journal_is_request_plus_system_postings [OF a this] a show ?thesis by auto
qed

theorem stored_journal_kept_witness:
  "\<exists>s spec. cleanTransactionSpec transferEnv updateOptions (storedTransactionInput keyedTransfer) freshRun = (s, Inr spec) \<and>
    map (\<lambda>e. (es_EntryDate e, map specRow (es_Postings e))) (ts_JournalEntries spec) =
    map (\<lambda>e. (e_EntryDate e, map storedRow (e_Postings e))) (t_JournalEntries keyedTransfer)"
proof -
  obtain s spec where a: "cleanTransactionSpec transferEnv updateOptions (storedTransactionInput keyedTransfer) freshRun = (s, Inr spec)"
    using keyed_accepted [of True] unfolding storedTransactionInput_def by blast
  have "parseDateOnly ''2026-06-01'' \<noteq> None"
    using day_literals(1) [of "[]"] by (auto simp: cleanRequiredDate_def Let_def day_literals(2) split: option.splits)
  then have "\<forall>e\<in>set (t_JournalEntries keyedTransfer). storedEntryOk e"
    by (simp add: keyedTransfer_def storedEntryOk_def word_literals)
  from stored_journal_kept [OF a this] a show ?thesis by blast
qed

end
