(* ===== verification/Checkpoints.thy ===== *)
theory Checkpoints
  imports Validate
begin

text \<open>
  Reconciliation checkpoints: the guard that keeps a write out of reconciled periods
  (\<^verbatim>\<open>db/reconciliation.go\<close>), the combined netting of a command's postings
  (\<^verbatim>\<open>db/reconciliation_netting.go\<close>), and the positions a write touches
  (\<^verbatim>\<open>app/transactions_reconciliation.go\<close>). A checkpoint closes an account's register of one commodity
  at a statement date and a position within that day; a posting is inside it when it lies at or before that
  boundary. The checkpoint table is the list of its rows. A guard's write is the new table, or a
  refusal with the ids of the checkpoints in the way.
\<close>

section \<open>Definitions: boundaries\<close>

record checkpointRow =
  ck_id :: int
  ck_book_id :: int
  ck_account_id :: int
  ck_commodity_id :: int
  ck_session_id :: "int option"
  ck_previous_checkpoint_id :: "int option"
  ck_status :: string
  ck_statement_date :: string
  ck_statement_account_sequence :: int
  ck_statement_balance_value :: Coefficient
  ck_statement_balance_scale :: int
  ck_created_at :: string
  ck_created_by_user_id :: int
  ck_created_audit_event_id :: "int option"
  ck_invalidated :: "(string \<times> int \<times> string \<times> int) option"
  ck_voided :: "(string \<times> int \<times> string \<times> int) option"

record PeriodScopedCheckpointRef =
  cd_AccountID :: int
  cd_CommodityID :: int
  cd_EntryDate :: string
  cd_AccountDaySequence :: int

record CheckpointInvalidationRef =
  rf_CheckpointID :: int
  rf_AccountID :: int
  rf_CommodityID :: int
  rf_EntryDate :: string
  rf_StatementDate :: string
  rf_StatementAccountSequence :: int

definition MaxInt64 :: int where "MaxInt64 = 2 ^ 63 - 1"

definition boundaryKey :: "checkpointRow \<Rightarrow> string \<times> int \<times> int" where
  "boundaryKey c = (ck_statement_date c, ck_statement_account_sequence c, ck_id c)"

definition reaches :: "int \<Rightarrow> PeriodScopedCheckpointRef \<Rightarrow> checkpointRow \<Rightarrow> bool" where
  "reaches bookID candidate c \<longleftrightarrow> ck_book_id c = bookID \<and> ck_account_id c = cd_AccountID candidate \<and>
     ck_commodity_id c = cd_CommodityID candidate \<and> ck_status c = ''active'' \<and>
     (ck_statement_date c > cd_EntryDate candidate \<or>
      ck_statement_date c = cd_EntryDate candidate \<and> ck_statement_account_sequence c \<ge> cd_AccountDaySequence candidate)"

definition refOf :: "PeriodScopedCheckpointRef \<Rightarrow> checkpointRow \<Rightarrow> CheckpointInvalidationRef" where
  "refOf candidate c = \<lparr> rf_CheckpointID = ck_id c, rf_AccountID = cd_AccountID candidate, rf_CommodityID = cd_CommodityID candidate,
     rf_EntryDate = cd_EntryDate candidate, rf_StatementDate = ck_statement_date c,
     rf_StatementAccountSequence = ck_statement_account_sequence c \<rparr>"

definition activeCheckpointRefsAtOrAfter :: "checkpointRow list \<Rightarrow> int \<Rightarrow> PeriodScopedCheckpointRef \<Rightarrow> CheckpointInvalidationRef list" where
  "activeCheckpointRefsAtOrAfter table bookID candidate =
     map (refOf candidate) (sort_key boundaryKey (filter (reaches bookID candidate) table))"

text \<open>
  The refs collected so far, and one more: a checkpoint already collected keeps its place and takes the earlier
  entry date.
\<close>

definition mergeRef :: "CheckpointInvalidationRef list \<Rightarrow> CheckpointInvalidationRef \<Rightarrow> CheckpointInvalidationRef list" where
  "mergeRef refs ref = (
     if rf_CheckpointID ref \<in> rf_CheckpointID ` set refs then
       map (\<lambda>r. if rf_CheckpointID r = rf_CheckpointID ref \<and> rf_EntryDate ref < rf_EntryDate r
                then r\<lparr> rf_EntryDate := rf_EntryDate ref \<rparr> else r) refs
     else refs @ [ref])"

fun collectRefs :: "checkpointRow list \<Rightarrow> int \<Rightarrow> PeriodScopedCheckpointRef list \<Rightarrow> CheckpointInvalidationRef list
    \<Rightarrow> PeriodScopedCheckpointRef list \<Rightarrow> CheckpointInvalidationRef list" where
  "collectRefs table bookID seen refs [] = refs"
| "collectRefs table bookID seen refs (candidate # candidates) = (
     if candidate \<in> set seen then collectRefs table bookID seen refs candidates
     else collectRefs table bookID (candidate # seen)
       (foldl mergeRef refs (activeCheckpointRefsAtOrAfter table bookID candidate)) candidates)"

definition periodScopedCheckpointInvalidationRefs ::
  "checkpointRow list \<Rightarrow> int \<Rightarrow> PeriodScopedCheckpointRef list \<Rightarrow> CheckpointInvalidationRef list" where
  "periodScopedCheckpointInvalidationRefs table bookID candidates = collectRefs table bookID [] [] candidates"

section \<open>Definitions: the guard\<close>

datatype checkpoint_error =
    ErrReconciliationOverrideRequired "int list"
  | ErrReconciliationImpactStale "int list"
  | NettingPanicked exact_error

definition uniqueCheckpointIDs :: "CheckpointInvalidationRef list \<Rightarrow> int list" where
  "uniqueCheckpointIDs refs = sort (remdups (filter (\<lambda>k. k > 0) (map rf_CheckpointID refs)))"

definition sameCheckpointIDSet :: "int list \<Rightarrow> int list \<Rightarrow> bool" where
  "sameCheckpointIDSet sortedUnique reviewed \<longleftrightarrow> sortedUnique = remdups_adj (sort reviewed)"

definition checkpointIDSubset :: "int list \<Rightarrow> int list \<Rightarrow> bool" where
  "checkpointIDSubset sortedUnique reviewed \<longleftrightarrow> list_all (\<lambda>k. k \<in> set reviewed) sortedUnique"

text \<open>\<open>batch\<close> is the context's mark of a reviewed import batch.\<close>

definition bindCheckpointOverride ::
  "bool \<Rightarrow> CheckpointInvalidationRef list \<Rightarrow> bool \<Rightarrow> int list option \<Rightarrow> (checkpoint_error, unit) result" where
  "bindCheckpointOverride batch refs override reviewed = (
     let ids = uniqueCheckpointIDs refs in
     if \<not> override then (if ids = [] then Inr () else Inl (ErrReconciliationOverrideRequired ids))
     else case reviewed of
       None \<Rightarrow> Inr ()
     | Some reviewedIDs \<Rightarrow>
         if (if batch then checkpointIDSubset ids reviewedIDs else sameCheckpointIDSet ids reviewedIDs) then Inr ()
         else Inl (ErrReconciliationImpactStale ids))"

record checkpointBoundaryParams =
  bp_BookID :: int
  bp_Candidates :: "PeriodScopedCheckpointRef list"
  bp_ReconciliationOverride :: bool
  bp_ReviewedCheckpointIDs :: "int list option"
  bp_ActorUserID :: int
  bp_AuditEventID :: int
  bp_OccurredAt :: string
  bp_Reason :: string

definition invalidateRow :: "checkpointBoundaryParams \<Rightarrow> int \<Rightarrow> checkpointRow \<Rightarrow> checkpointRow" where
  "invalidateRow params k c = (
     if ck_book_id c = bp_BookID params \<and> ck_id c = k \<and> ck_status c = ''active''
     then c\<lparr> ck_status := ''invalidated'',
             ck_invalidated := Some (bp_OccurredAt params, bp_ActorUserID params, bp_Reason params, bp_AuditEventID params) \<rparr>
     else c)"

fun invalidateReconciliationCheckpoints ::
  "checkpointBoundaryParams \<Rightarrow> int list \<Rightarrow> int list \<Rightarrow> CheckpointInvalidationRef list \<Rightarrow> checkpointRow list \<Rightarrow> checkpointRow list \<times> int list" where
  "invalidateReconciliationCheckpoints params seen ids [] table = (table, ids)"
| "invalidateReconciliationCheckpoints params seen ids (ref # refs) table = (
     if rf_CheckpointID ref \<le> 0 \<or> rf_CheckpointID ref \<in> set seen
     then invalidateReconciliationCheckpoints params seen ids refs table
     else invalidateReconciliationCheckpoints params (rf_CheckpointID ref # seen) (ids @ [rf_CheckpointID ref]) refs
       (map (invalidateRow params (rf_CheckpointID ref)) table))"

definition enforceCheckpointBoundaryTx ::
  "bool \<Rightarrow> checkpointBoundaryParams \<Rightarrow> checkpointRow list \<Rightarrow> (checkpoint_error, checkpointRow list \<times> int list) result" where
  "enforceCheckpointBoundaryTx batch params table = (
     let refs = periodScopedCheckpointInvalidationRefs table (bp_BookID params) (bp_Candidates params) in
     bindR (bindCheckpointOverride batch refs (bp_ReconciliationOverride params) (bp_ReviewedCheckpointIDs params)) (\<lambda>_.
       if refs = [] then Inr (table, [])
       else Inr (invalidateReconciliationCheckpoints params [] [] refs table)))"

section \<open>Definitions: combined netting\<close>

record CheckpointDelta =
  dl_AccountID :: int
  dl_CommodityID :: int
  dl_EntryDate :: string
  dl_AccountDaySequence :: int
  dl_QuantityValue :: Coefficient
  dl_QuantityScale :: int

definition atOrBefore :: "CheckpointDelta \<Rightarrow> string \<Rightarrow> int \<Rightarrow> bool" where
  "atOrBefore d date sequence \<longleftrightarrow> dl_EntryDate d < date \<or> dl_EntryDate d = date \<and> dl_AccountDaySequence d \<le> sequence"

definition CheckpointDeltasFromSpec :: "TransactionSpec \<Rightarrow> CheckpointDelta list" where
  "CheckpointDeltasFromSpec spec = (if ts_Status spec = ''draft'' then [] else
     concat (map (\<lambda>entry. map (\<lambda>posting. \<lparr> dl_AccountID = ps_AccountID posting, dl_CommodityID = ps_CommodityID posting,
       dl_EntryDate = es_EntryDate entry, dl_AccountDaySequence = MaxInt64, dl_QuantityValue = ps_QuantityValue posting,
       dl_QuantityScale = ps_QuantityScale posting \<rparr>) (es_Postings entry)) (ts_JournalEntries spec)))"

definition deltaKey :: "CheckpointDelta \<Rightarrow> int \<times> int" where
  "deltaKey d = (dl_AccountID d, dl_CommodityID d)"

definition earliestDelta :: "CheckpointDelta list \<Rightarrow> CheckpointDelta" where
  "earliestDelta grp = foldl (\<lambda>earliest d.
     if atOrBefore d (dl_EntryDate earliest) (dl_AccountDaySequence earliest) then d else earliest) (hd grp) (tl grp)"

definition sumUpTo :: "CheckpointDelta list \<Rightarrow> CheckpointInvalidationRef \<Rightarrow> (exact_error, ScaledInt) result" where
  "sumUpTo grp checkpoint = foldR (\<lambda>s d.
     if atOrBefore d (rf_StatementDate checkpoint) (rf_StatementAccountSequence checkpoint)
     then ScaledInt_AddCoefficient s (dl_QuantityValue d) (dl_QuantityScale d) else Inr s) NewScaledInt grp"

fun changedFrom :: "CheckpointDelta list \<Rightarrow> CheckpointInvalidationRef list \<Rightarrow> (exact_error, CheckpointInvalidationRef list) result" where
  "changedFrom grp [] = Inr []"
| "changedFrom grp (checkpoint # checkpoints) =
     bindR (sumUpTo grp checkpoint) (\<lambda>s.
       if ScaledInt_Sign s \<noteq> 0 then Inr (checkpoint # checkpoints) else changedFrom grp checkpoints)"

definition netPosition :: "checkpointRow list \<Rightarrow> int \<Rightarrow> CheckpointDelta list \<Rightarrow> int \<times> int \<Rightarrow> (exact_error, CheckpointInvalidationRef list) result" where
  "netPosition table bookID deltas key = (
     let grp = filter (\<lambda>d. deltaKey d = key) deltas; earliest = earliestDelta grp in
     changedFrom grp (activeCheckpointRefsAtOrAfter table bookID
       \<lparr> cd_AccountID = fst key, cd_CommodityID = snd key, cd_EntryDate = dl_EntryDate earliest,
          cd_AccountDaySequence = dl_AccountDaySequence earliest \<rparr>))"

definition netCheckpointInvalidationRefs ::
  "checkpointRow list \<Rightarrow> int \<Rightarrow> CheckpointDelta list \<Rightarrow> (checkpoint_error, CheckpointInvalidationRef list) result" where
  "netCheckpointInvalidationRefs table bookID deltas =
     bindR (mapErr NettingPanicked (mapR (netPosition table bookID deltas) (sort (remdups (map deltaKey deltas))))) (\<lambda>groups. Inr (concat groups))"

section \<open>Definitions: the positions a write touches\<close>

definition periodScopedCandidatesFromTransaction :: "Transaction \<Rightarrow> PeriodScopedCheckpointRef list" where
  "periodScopedCandidatesFromTransaction transaction = concat (map (\<lambda>entry. map (\<lambda>posting.
     \<lparr> cd_AccountID = p_AccountID posting, cd_CommodityID = p_CommodityID posting, cd_EntryDate = e_EntryDate entry,
        cd_AccountDaySequence = p_AccountDaySequence posting \<rparr>) (e_Postings entry)) (t_JournalEntries transaction))"

definition recordCandidate :: "string \<times> PostingRecord \<Rightarrow> PeriodScopedCheckpointRef" where
  "recordCandidate cur = \<lparr> cd_AccountID = pr_AccountID (snd cur), cd_CommodityID = pr_CommodityID (snd cur), cd_EntryDate = fst cur,
     cd_AccountDaySequence = pr_AccountDaySequence (snd cur) \<rparr>"

definition specCandidate :: "string \<times> PostingSpec \<Rightarrow> PeriodScopedCheckpointRef" where
  "specCandidate nxt = \<lparr> cd_AccountID = ps_AccountID (snd nxt), cd_CommodityID = ps_CommodityID (snd nxt), cd_EntryDate = fst nxt,
     cd_AccountDaySequence = MaxInt64 \<rparr>"

definition recordPostings :: "JournalEntryRecord list \<Rightarrow> (string \<times> PostingRecord) list" where
  "recordPostings entries = concat (map (\<lambda>entry. map (Pair (er_EntryDate entry)) (er_Postings entry)) entries)"

definition specPostings :: "JournalEntrySpec list \<Rightarrow> (string \<times> PostingSpec) list" where
  "specPostings entries = concat (map (\<lambda>entry. map (Pair (es_EntryDate entry)) (es_Postings entry)) entries)"

definition periodScopedCandidatesFromRecord :: "JournalEntryRecord list \<Rightarrow> PeriodScopedCheckpointRef list" where
  "periodScopedCandidatesFromRecord entries = map recordCandidate (recordPostings entries)"

definition reconciliationCandidatesFromSpec :: "TransactionSpec \<Rightarrow> PeriodScopedCheckpointRef list" where
  "reconciliationCandidatesFromSpec spec = (if ts_Status spec = ''draft'' then [] else
     map specCandidate (specPostings (ts_JournalEntries spec)))"

text \<open>
  The maps by line key: the last posting of a key wins. Ranging over a Go map visits the keys in no particular
  order; here in the order of their last occurrence.
\<close>

definition currentByKey :: "JournalEntryRecord list \<Rightarrow> string \<rightharpoonup> string \<times> PostingRecord" where
  "currentByKey entries = map_of (rev (map (\<lambda>cur. (pr_LineKey (snd cur), cur)) (recordPostings entries)))"

definition specByKey :: "JournalEntrySpec list \<Rightarrow> string \<rightharpoonup> string \<times> PostingSpec" where
  "specByKey entries = map_of (rev (map (\<lambda>nxt. (ps_LineKey (snd nxt), nxt)) (specPostings entries)))"

definition movesReconciled :: "(string \<times> PostingRecord) option \<Rightarrow> (string \<times> PostingSpec) option \<Rightarrow> bool" where
  "movesReconciled cur nxt = (case (cur, nxt) of
     (Some c, Some n) \<Rightarrow> reconciliationAffectingChange (fst c) (snd c) (fst n) (snd n) | _ \<Rightarrow> True)"

definition reconciliationCandidates :: "string \<Rightarrow> JournalEntryRecord list \<Rightarrow> TransactionSpec \<Rightarrow> PeriodScopedCheckpointRef list" where
  "reconciliationCandidates currentStatus currentEntries spec = (
     if currentStatus = ''draft'' \<and> ts_Status spec = ''draft'' then []
     else let cur = currentByKey currentEntries; nxt = specByKey (ts_JournalEntries spec);
              curKeys = remdups (map (pr_LineKey \<circ> snd) (recordPostings currentEntries));
              nxtKeys = remdups (map (ps_LineKey \<circ> snd) (specPostings (ts_JournalEntries spec)))
       in map (\<lambda>k. recordCandidate (the (cur k))) (filter (\<lambda>k. movesReconciled (cur k) (nxt k)) curKeys) @
          map (\<lambda>k. specCandidate (the (nxt k))) (filter (\<lambda>k. movesReconciled (cur k) (nxt k)) nxtKeys))"

section \<open>The guard\<close>

text \<open>The checkpoint contains a position the write touches.\<close>

definition covered :: "checkpointBoundaryParams \<Rightarrow> checkpointRow \<Rightarrow> bool" where
  "covered params c \<longleftrightarrow> list_ex (\<lambda>candidate. reaches (bp_BookID params) candidate c) (bp_Candidates params)"

text \<open>The primary key of the table.\<close>

definition tableOk :: "checkpointRow list \<Rightarrow> bool" where
  "tableOk table \<longleftrightarrow> distinct (map ck_id table) \<and> list_all (\<lambda>c. 0 < ck_id c) table"

lemma mergeRef_ids: "rf_CheckpointID ` set (mergeRef refs r) = insert (rf_CheckpointID r) (rf_CheckpointID ` set refs)"
proof -
  have "map rf_CheckpointID (map (\<lambda>q. if rf_CheckpointID q = rf_CheckpointID r \<and> rf_EntryDate r < rf_EntryDate q
      then q\<lparr> rf_EntryDate := rf_EntryDate r \<rparr> else q) refs) = map rf_CheckpointID refs"
    by simp
  then have "rf_CheckpointID ` set (map (\<lambda>q. if rf_CheckpointID q = rf_CheckpointID r \<and> rf_EntryDate r < rf_EntryDate q
      then q\<lparr> rf_EntryDate := rf_EntryDate r \<rparr> else q) refs) = rf_CheckpointID ` set refs"
    by (metis list.set_map)
  then show ?thesis by (auto simp: mergeRef_def)
qed

lemma foldl_mergeRef_ids: "rf_CheckpointID ` set (foldl mergeRef refs rs) = rf_CheckpointID ` set refs \<union> rf_CheckpointID ` set rs"
  by (induction rs arbitrary: refs) (simp_all add: mergeRef_ids)

definition reachedIDs :: "checkpointRow list \<Rightarrow> int \<Rightarrow> PeriodScopedCheckpointRef set \<Rightarrow> int set" where
  "reachedIDs table bookID ks = ck_id ` {c \<in> set table. \<exists>k\<in>ks. reaches bookID k c}"

lemma reachedIDs_insert: "reachedIDs table bookID (insert k ks) = reachedIDs table bookID {k} \<union> reachedIDs table bookID ks"
  by (auto simp: reachedIDs_def)

lemma activeRefs_ids: "rf_CheckpointID ` set (activeCheckpointRefsAtOrAfter table bookID k) = reachedIDs table bookID {k}"
  by (auto simp: activeCheckpointRefsAtOrAfter_def reachedIDs_def refOf_def image_image)

lemma collectRefs_ids:
  assumes "reachedIDs table bookID (set seen) \<subseteq> rf_CheckpointID ` set refs"
  shows "rf_CheckpointID ` set (collectRefs table bookID seen refs ks) = rf_CheckpointID ` set refs \<union> reachedIDs table bookID (set ks)"
  using assms
proof (induction ks arbitrary: seen refs)
  case Nil
  then show ?case by (simp add: reachedIDs_def)
next
  case (Cons k ks)
  show ?case
  proof (cases "k \<in> set seen")
    case True
    then have "reachedIDs table bookID {k} \<subseteq> rf_CheckpointID ` set refs" using Cons.prems by (auto simp: reachedIDs_def)
    then have "rf_CheckpointID ` set refs \<union> reachedIDs table bookID (set ks) = rf_CheckpointID ` set refs \<union> reachedIDs table bookID (set (k # ks))"
      using reachedIDs_insert [of table bookID k "set ks"] by auto
    moreover have "collectRefs table bookID seen refs (k # ks) = collectRefs table bookID seen refs ks" using True by simp
    ultimately show ?thesis using Cons.IH [OF Cons.prems] by simp
  next
    case False
    let ?refs = "foldl mergeRef refs (activeCheckpointRefsAtOrAfter table bookID k)"
    have ids: "rf_CheckpointID ` set ?refs = rf_CheckpointID ` set refs \<union> reachedIDs table bookID {k}"
      by (simp only: foldl_mergeRef_ids activeRefs_ids)
    have "reachedIDs table bookID (set (k # seen)) \<subseteq> rf_CheckpointID ` set ?refs"
      using Cons.prems reachedIDs_insert [of table bookID k "set seen"] unfolding ids by auto
    from Cons.IH [OF this] False show ?thesis unfolding ids using reachedIDs_insert [of table bookID k "set ks"] by auto
  qed
qed

lemma refs_ids:
  "rf_CheckpointID ` set (periodScopedCheckpointInvalidationRefs table (bp_BookID params) (bp_Candidates params)) =
    ck_id ` {c \<in> set table. covered params c}"
proof -
  have "reachedIDs table (bp_BookID params) (set []) \<subseteq> rf_CheckpointID ` set []" by (simp add: reachedIDs_def)
  from collectRefs_ids [OF this] show ?thesis
    by (simp add: periodScopedCheckpointInvalidationRefs_def reachedIDs_def covered_def list_ex_iff)
qed

lemma sorted_remdups_set: "sort (remdups xs) = sorted_list_of_set (set xs)"
  by (metis sorted_list_of_set_sort_remdups)

lemma uniqueCheckpointIDs_set:
  "\<forall>r\<in>set refs. 0 < rf_CheckpointID r \<Longrightarrow> uniqueCheckpointIDs refs = sorted_list_of_set (rf_CheckpointID ` set refs)"
  unfolding uniqueCheckpointIDs_def sorted_remdups_set by (intro arg_cong [where f = sorted_list_of_set]) auto

lemma distinct_remdups_adj_sorted: "sorted (xs :: int list) \<Longrightarrow> distinct (remdups_adj xs)"
  by (induction xs rule: remdups_adj.induct) (auto split: if_splits)

lemma sameCheckpointIDSet_iff:
  assumes "finite A"
  shows "sameCheckpointIDSet (sorted_list_of_set A) reviewed \<longleftrightarrow> A = set reviewed"
proof -
  have "remdups_adj (sort reviewed) = sorted_list_of_set (set reviewed)"
    by (rule sorted_distinct_set_unique) (simp_all add: distinct_remdups_adj_sorted)
  then show ?thesis unfolding sameCheckpointIDSet_def using assms by (metis List.finite_set set_sorted_list_of_set)
qed

lemma invalidateRow_id [simp]: "ck_id (invalidateRow params k c) = ck_id c" "ck_book_id (invalidateRow params k c) = ck_book_id c"
  by (simp_all add: invalidateRow_def)

lemma invalidate_all:
  assumes "\<forall>r\<in>set refs. 0 < rf_CheckpointID r" and "set ids = set seen"
    and "invalidateReconciliationCheckpoints params seen ids refs table = (table', ids')"
  shows "table' = map (\<lambda>c. if ck_id c \<in> rf_CheckpointID ` set refs - set seen then invalidateRow params (ck_id c) c else c) table \<and>
    set ids' = set ids \<union> rf_CheckpointID ` set refs"
  using assms
proof (induction refs arbitrary: seen ids table)
  case (Cons r refs)
  let ?k = "rf_CheckpointID r"
  have pos: "0 < ?k" "\<forall>r\<in>set refs. 0 < rf_CheckpointID r" using Cons.prems(1) by auto
  show ?case
  proof (cases "?k \<in> set seen")
    case True
    then have "invalidateReconciliationCheckpoints params seen ids refs table = (table', ids')" using Cons.prems(3) by simp
    from Cons.IH [OF pos(2) Cons.prems(2) this] True Cons.prems(2) show ?thesis by auto
  next
    case False
    then have i: "invalidateReconciliationCheckpoints params (?k # seen) (ids @ [?k]) refs (map (invalidateRow params ?k) table) = (table', ids')"
      using Cons.prems(3) pos(1) by simp
    have "set (ids @ [?k]) = set (?k # seen)" using Cons.prems(2) by auto
    note ih = Cons.IH [OF pos(2) this i]
    let ?g = "\<lambda>A c. if ck_id c \<in> A then invalidateRow params (ck_id c) c else c"
    have "?g (rf_CheckpointID ` set refs - set (?k # seen)) (invalidateRow params ?k c) = ?g (rf_CheckpointID ` set (r # refs) - set seen) c" for c
      using False by (cases "ck_id c = ?k") (auto simp: invalidateRow_def)
    then have "table' = map (?g (rf_CheckpointID ` set (r # refs) - set seen)) table"
      using conjunct1 [OF ih] unfolding map_map comp_def by (simp only:)
    then show ?thesis using ih by auto
  qed
qed simp

definition coveredIDs :: "checkpointBoundaryParams \<Rightarrow> checkpointRow list \<Rightarrow> int set" where
  "coveredIDs params table = ck_id ` {c \<in> set table. covered params c}"

definition invalidated :: "checkpointBoundaryParams \<Rightarrow> checkpointRow \<Rightarrow> checkpointRow" where
  "invalidated params c = c\<lparr> ck_status := ''invalidated'',
     ck_invalidated := Some (bp_OccurredAt params, bp_ActorUserID params, bp_Reason params, bp_AuditEventID params) \<rparr>"

lemma covered_active: "covered params c \<Longrightarrow> ck_status c = ''active'' \<and> ck_book_id c = bp_BookID params"
  by (auto simp: covered_def list_ex_iff reaches_def)

lemma enforce_table:
  assumes "tableOk table" and "refs = periodScopedCheckpointInvalidationRefs table (bp_BookID params) (bp_Candidates params)"
    and "invalidateReconciliationCheckpoints params [] [] refs table = (table', ids)"
  shows "table' = map (\<lambda>c. if covered params c then invalidated params c else c) table" "set ids = coveredIDs params table"
proof -
  have ids: "rf_CheckpointID ` set refs = coveredIDs params table" unfolding assms(2) coveredIDs_def by (rule refs_ids)
  have "0 < k" if k: "k \<in> coveredIDs params table" for k
    using assms(1) k by (auto simp: tableOk_def list_all_iff coveredIDs_def)
  then have pos: "\<forall>r\<in>set refs. 0 < rf_CheckpointID r" using ids by blast
  note all = invalidate_all [OF pos _ assms(3)]
  have "ck_id c \<in> coveredIDs params table \<longleftrightarrow> covered params c" if c: "c \<in> set table" for c
    using assms(1) c by (auto simp: tableOk_def coveredIDs_def distinct_map dest: inj_onD)
  then have "(if ck_id c \<in> coveredIDs params table then invalidateRow params (ck_id c) c else c) =
      (if covered params c then invalidated params c else c)" if "c \<in> set table" for c
    using that covered_active [of params c] by (simp add: invalidateRow_def invalidated_def)
  then show "table' = map (\<lambda>c. if covered params c then invalidated params c else c) table"
    using all by (simp add: ids)
  show "set ids = coveredIDs params table" using all ids by simp
qed

definition reviewFits :: "bool \<Rightarrow> int list option \<Rightarrow> int set \<Rightarrow> bool" where
  "reviewFits batch reviewed A \<longleftrightarrow> (case reviewed of None \<Rightarrow> True | Some R \<Rightarrow> if batch then A \<subseteq> set R else A = set R)"

definition guardPasses :: "bool \<Rightarrow> checkpointBoundaryParams \<Rightarrow> checkpointRow list \<Rightarrow> bool" where
  "guardPasses batch params table \<longleftrightarrow> (if bp_ReconciliationOverride params
     then reviewFits batch (bp_ReviewedCheckpointIDs params) (coveredIDs params table) else coveredIDs params table = {})"

lemma bindCheckpointOverride_eq:
  assumes "uniqueCheckpointIDs refs = sorted_list_of_set A" and "finite A"
  shows "bindCheckpointOverride batch refs override reviewed = (
    if (if override then reviewFits batch reviewed A else A = {}) then Inr ()
    else Inl ((if override then ErrReconciliationImpactStale else ErrReconciliationOverrideRequired) (sorted_list_of_set A)))"
  using assms sameCheckpointIDSet_iff [OF assms(2)]
  by (auto simp: bindCheckpointOverride_def Let_def checkpointIDSubset_def list_all_iff reviewFits_def split: option.splits)

lemma enforce_eq:
  fixes params :: checkpointBoundaryParams
  assumes "tableOk table"
  defines "refs \<equiv> periodScopedCheckpointInvalidationRefs table (bp_BookID params) (bp_Candidates params)"
  shows "enforceCheckpointBoundaryTx batch params table = (
    if guardPasses batch params table then Inr (if refs = [] then (table, []) else invalidateReconciliationCheckpoints params [] [] refs table)
    else Inl ((if bp_ReconciliationOverride params then ErrReconciliationImpactStale else ErrReconciliationOverrideRequired)
      (sorted_list_of_set (coveredIDs params table))))"
proof -
  have ids: "rf_CheckpointID ` set refs = coveredIDs params table" unfolding refs_def coveredIDs_def by (rule refs_ids)
  have "0 < k" if k: "k \<in> coveredIDs params table" for k
    using assms(1) k by (auto simp: tableOk_def list_all_iff coveredIDs_def)
  then have "\<forall>r\<in>set refs. 0 < rf_CheckpointID r" using ids by blast
  then have "uniqueCheckpointIDs refs = sorted_list_of_set (coveredIDs params table)" using uniqueCheckpointIDs_set ids by metis
  moreover have "finite (coveredIDs params table)" by (simp add: coveredIDs_def)
  ultimately show ?thesis
    by (simp add: enforceCheckpointBoundaryTx_def Let_def refs_def [symmetric] bindCheckpointOverride_eq guardPasses_def)
qed

lemma enforce_Inr:
  assumes "tableOk table" and "enforceCheckpointBoundaryTx batch params table = Inr (table', ids)"
  shows "table' = map (\<lambda>c. if covered params c then invalidated params c else c) table" "set ids = coveredIDs params table"
proof -
  define refs where "refs = periodScopedCheckpointInvalidationRefs table (bp_BookID params) (bp_Candidates params)"
  have ids: "rf_CheckpointID ` set refs = coveredIDs params table" unfolding refs_def coveredIDs_def by (rule refs_ids)
  have r: "(if refs = [] then (table, []) else invalidateReconciliationCheckpoints params [] [] refs table) = (table', ids)"
    using assms(2) unfolding enforce_eq [OF assms(1)] refs_def by (simp split: if_splits)
  have "table' = map (\<lambda>c. if covered params c then invalidated params c else c) table \<and> set ids = coveredIDs params table"
  proof (cases "refs = []")
    case True
    then have none: "coveredIDs params table = {}" using ids by simp
    then have "\<forall>c\<in>set table. \<not> covered params c" by (auto simp: coveredIDs_def)
    then have "map (\<lambda>c. if covered params c then invalidated params c else c) table = table" by (simp add: map_idI)
    then show ?thesis using r True none by simp
  next
    case False
    then show ?thesis using enforce_table [OF assms(1) refs_def] r by simp
  qed
  then show "table' = map (\<lambda>c. if covered params c then invalidated params c else c) table" "set ids = coveredIDs params table" by simp_all
qed

text \<open>
  C10. The reconciliation guard. A write is let through without an override only when no active
  checkpoint contains a position it touches, and then no checkpoint changes. With an override bound to a
  reviewed set it is let through only when that set is exactly the set of checkpoints in the way (for a
  row of a reviewed batch, contains it). What it then does is invalidate exactly those checkpoints and leave every other
  row as it was, so that afterwards no active checkpoint contains a touched position. A refusal names the checkpoints in the way.
\<close>

theorem checkpoint_guard_exact:
  assumes "tableOk table"
  shows "case enforceCheckpointBoundaryTx batch params table of
      Inl e \<Rightarrow> \<not> guardPasses batch params table \<and>
        e = (if bp_ReconciliationOverride params then ErrReconciliationImpactStale else ErrReconciliationOverrideRequired)
          (sorted_list_of_set (coveredIDs params table))
    | Inr (table', ids) \<Rightarrow> guardPasses batch params table \<and>
        table' = map (\<lambda>c. if covered params c then invalidated params c else c) table \<and>
        set ids = coveredIDs params table \<and> (\<forall>c\<in>set table'. \<not> covered params c) \<and>
        (\<not> bp_ReconciliationOverride params \<longrightarrow> table' = table)"
proof (cases "enforceCheckpointBoundaryTx batch params table")
  case (Inl e)
  then show ?thesis using enforce_eq [OF assms, of batch params] by (auto split: if_splits)
next
  case (Inr r)
  obtain table' ids where r: "r = (table', ids)" by (cases r)
  note t = enforce_Inr [OF assms Inr [unfolded r]]
  have passes: "guardPasses batch params table" using enforce_eq [OF assms, of batch params] Inr by (auto split: if_splits)
  have "\<not> covered params (invalidated params c)" for c
    using covered_active [of params "invalidated params c"] by (auto simp: invalidated_def)
  then have "\<forall>c\<in>set table'. \<not> covered params c" using t by auto
  moreover have "table' = table" if "\<not> bp_ReconciliationOverride params"
  proof -
    have "\<forall>c\<in>set table. \<not> covered params c" using that passes by (auto simp: guardPasses_def coveredIDs_def)
    then have "map (\<lambda>c. if covered params c then invalidated params c else c) table = table" by (simp add: map_idI)
    then show ?thesis using t(1) by simp
  qed
  ultimately show ?thesis unfolding Inr r sum.case prod.case using t passes by blast
qed

section \<open>Combined netting\<close>

text \<open>What a command's postings change in the balance a checkpoint closed.\<close>

definition changeAt :: "CheckpointDelta list \<Rightarrow> string \<Rightarrow> int \<Rightarrow> rat" where
  "changeAt grp date sequence = (\<Sum>d\<leftarrow>grp. if atOrBefore d date sequence then decVal (BigInt (dl_QuantityValue d)) (dl_QuantityScale d) else 0)"

definition balanceChange :: "CheckpointDelta list \<Rightarrow> checkpointRow \<Rightarrow> rat" where
  "balanceChange deltas c = changeAt (filter (\<lambda>d. deltaKey d = (ck_account_id c, ck_commodity_id c)) deltas)
     (ck_statement_date c) (ck_statement_account_sequence c)"

definition deltasOk :: "CheckpointDelta list \<Rightarrow> bool" where
  "deltasOk deltas \<longleftrightarrow> list_all (\<lambda>d. scaleOk (dl_QuantityScale d)) deltas"

lemma sumUpTo_exact:
  assumes "deltasOk grp"
  shows "\<exists>s. sumUpTo grp r = Inr s \<and> scaledVal s = changeAt grp (rf_StatementDate r) (rf_StatementAccountSequence r)"
proof -
  let ?in = "\<lambda>d. atOrBefore d (rf_StatementDate r) (rf_StatementAccountSequence r)"
  have "\<exists>s'. foldR (\<lambda>s d. if ?in d then ScaledInt_AddCoefficient s (dl_QuantityValue d) (dl_QuantityScale d) else Inr s) s ds = Inr s' \<and>
      scaleOk (si_scale s') \<and> scaledVal s' = scaledVal s + changeAt ds (rf_StatementDate r) (rf_StatementAccountSequence r)"
    if "scaleOk (si_scale s)" "deltasOk ds" for s ds
    using that
  proof (induction ds arbitrary: s)
    case Nil
    then show ?case by (simp add: changeAt_def)
  next
    case (Cons d ds)
    have d: "scaleOk (dl_QuantityScale d)" "deltasOk ds" using Cons.prems(2) by (simp_all add: deltasOk_def)
    obtain t where t: "ScaledInt_Add s (Some (BigInt (dl_QuantityValue d))) (dl_QuantityScale d) = Inr t"
      "si_scale t = max (si_scale s) (dl_QuantityScale d)" "scaledVal t = scaledVal s + decVal (BigInt (dl_QuantityValue d)) (dl_QuantityScale d)"
      using Add_ok [OF Cons.prems(1) d(1)] .
    have "scaleOk (si_scale t)" using t(2) Cons.prems(1) d(1) by (simp add: max_def)
    then show ?case using Cons.IH [of t] Cons.IH [OF Cons.prems(1)] d(2) t
      by (auto simp: ScaledInt_AddCoefficient_def changeAt_def)
  qed
  from this [of NewScaledInt grp] assms show ?thesis
    by (auto simp: sumUpTo_def NewScaledInt_def scaleOk_def MaxPow10Scale_def scaledVal_New [unfolded NewScaledInt_def])
qed

lemma changedFrom_exact:
  assumes "deltasOk grp"
  shows "changedFrom grp refs = Inr (dropWhile (\<lambda>r. changeAt grp (rf_StatementDate r) (rf_StatementAccountSequence r) = 0) refs)"
proof (induction refs)
  case (Cons r refs)
  obtain s where "sumUpTo grp r = Inr s" "scaledVal s = changeAt grp (rf_StatementDate r) (rf_StatementAccountSequence r)"
    using sumUpTo_exact [OF assms] by blast
  then show ?case using Cons by (simp add: ScaledInt_Sign_iff)
qed simp

lemma dropWhile_sorted:
  assumes "sorted (map key xs)" and "distinct (map key xs)"
  shows "x \<in> set (dropWhile P xs) \<longleftrightarrow> x \<in> set xs \<and> (\<exists>y\<in>set xs. key y \<le> key x \<and> \<not> P y)"
  using assms
proof (induction xs)
  case (Cons a xs)
  have first: "key a < key y" if "y \<in> set xs" for y
  proof -
    have "key a \<le> key y" "key a \<noteq> key y" using Cons.prems that by auto
    then show ?thesis by simp
  qed
  have ih: "x \<in> set (dropWhile P xs) \<longleftrightarrow> x \<in> set xs \<and> (\<exists>y\<in>set xs. key y \<le> key x \<and> \<not> P y)" using Cons by simp
  show ?case
  proof (cases "P a")
    case True
    have "\<not> key y \<le> key a" if "y \<in> set xs" for y using first [OF that] by simp
    then show ?thesis using True ih by auto
  next
    case False
    then show ?thesis using first by (auto intro: less_imp_le)
  qed
qed simp

lemma atOrBefore_iff: "atOrBefore d date sequence \<longleftrightarrow> (dl_EntryDate d, dl_AccountDaySequence d) \<le> (date, sequence)"
  by (auto simp: atOrBefore_def less_eq_prod_def)

lemma earliestDelta_least:
  assumes "grp \<noteq> []"
  shows "d \<in> set grp \<Longrightarrow> (dl_EntryDate (earliestDelta grp), dl_AccountDaySequence (earliestDelta grp)) \<le> (dl_EntryDate d, dl_AccountDaySequence d)"
proof -
  let ?f = "\<lambda>e d. if atOrBefore d (dl_EntryDate e) (dl_AccountDaySequence e) then d else e"
  let ?k = "\<lambda>d. (dl_EntryDate d, dl_AccountDaySequence d)"
  have "?k (foldl ?f e ds) \<le> ?k e \<and> (\<forall>d\<in>set ds. ?k (foldl ?f e ds) \<le> ?k d)" for e ds
  proof (induction ds arbitrary: e)
    case (Cons d ds)
    have "?k (?f e d) \<le> ?k e" "?k (?f e d) \<le> ?k d" by (auto simp: atOrBefore_iff)
    then show ?case using Cons [of "?f e d"] by (auto intro: order.trans)
  qed simp
  from this [of "hd grp" "tl grp"] assms show "d \<in> set grp \<Longrightarrow> ?k (earliestDelta grp) \<le> ?k d"
    by (cases grp) (auto simp: earliestDelta_def)
qed

definition activeIn :: "int \<Rightarrow> checkpointRow list \<Rightarrow> checkpointRow \<Rightarrow> bool" where
  "activeIn bookID table c \<longleftrightarrow> c \<in> set table \<and> ck_book_id c = bookID \<and> ck_status c = ''active''"

definition samePosition :: "checkpointRow \<Rightarrow> checkpointRow \<Rightarrow> bool" where
  "samePosition c c' \<longleftrightarrow> ck_account_id c = ck_account_id c' \<and> ck_commodity_id c = ck_commodity_id c'"

text \<open>One account and commodity: a checkpoint is returned exactly when it or an earlier one changed.\<close>

lemma netPosition_exact:
  assumes "tableOk table" and "deltasOk deltas" and "key \<in> set (map deltaKey deltas)"
  shows "\<exists>refs. netPosition table bookID deltas key = Inr refs \<and>
    rf_CheckpointID ` set refs = ck_id ` {c. activeIn bookID table c \<and> (ck_account_id c, ck_commodity_id c) = key \<and>
      (\<exists>c'. activeIn bookID table c' \<and> (ck_account_id c', ck_commodity_id c') = key \<and> boundaryKey c' \<le> boundaryKey c \<and> balanceChange deltas c' \<noteq> 0)}"
proof -
  define grp where "grp = filter (\<lambda>d. deltaKey d = key) deltas"
  have grp: "grp \<noteq> []" "deltasOk grp" using assms(2,3) by (auto simp: grp_def deltasOk_def list_all_iff filter_empty_conv)
  define cand where "cand = \<lparr> cd_AccountID = fst key, cd_CommodityID = snd key, cd_EntryDate = dl_EntryDate (earliestDelta grp),
    cd_AccountDaySequence = dl_AccountDaySequence (earliestDelta grp) \<rparr>"
  define rows where "rows = sort_key boundaryKey (filter (reaches bookID cand) table)"
  let ?P = "\<lambda>c. changeAt grp (ck_statement_date c) (ck_statement_account_sequence c) = 0"
  have n: "netPosition table bookID deltas key = Inr (map (refOf cand) (dropWhile ?P rows))"
    by (simp add: netPosition_def Let_def grp_def [symmetric] cand_def [symmetric] activeCheckpointRefsAtOrAfter_def rows_def [symmetric]
        changedFrom_exact [OF grp(2)] dropWhile_map o_def refOf_def)
  have "inj_on boundaryKey (set table)" using assms(1) by (auto simp: tableOk_def boundaryKey_def inj_on_def distinct_map)
  moreover have "distinct table" using assms(1) by (auto simp: tableOk_def distinct_map)
  ultimately have keys: "sorted (map boundaryKey rows)" "distinct (map boundaryKey rows)"
    by (auto simp: rows_def distinct_map intro: inj_on_subset)
  have bal: "balanceChange deltas c = changeAt grp (ck_statement_date c) (ck_statement_account_sequence c)"
    if "(ck_account_id c, ck_commodity_id c) = key" for c
    using that by (simp add: balanceChange_def grp_def)
  have far: "?P c" if "activeIn bookID table c" "(ck_account_id c, ck_commodity_id c) = key" "c \<notin> set rows" for c
  proof -
    have "\<not> (dl_EntryDate (earliestDelta grp), dl_AccountDaySequence (earliestDelta grp)) \<le> (ck_statement_date c, ck_statement_account_sequence c)"
      using that by (auto simp: rows_def reaches_def cand_def activeIn_def less_eq_prod_def)
    then have "\<not> atOrBefore d (ck_statement_date c) (ck_statement_account_sequence c)" if "d \<in> set grp" for d
      using earliestDelta_least [OF grp(1) that] by (auto simp: atOrBefore_iff dest: order.trans)
    then have "map (\<lambda>d. if atOrBefore d (ck_statement_date c) (ck_statement_account_sequence c) then decVal (BigInt (dl_QuantityValue d)) (dl_QuantityScale d) else 0) grp
        = map (\<lambda>_. 0) grp" by simp
    then show ?thesis unfolding changeAt_def by (simp only: sum_list_0)
  qed
  have row: "c \<in> set rows \<Longrightarrow> activeIn bookID table c \<and> (ck_account_id c, ck_commodity_id c) = key" for c
    by (auto simp: rows_def reaches_def cand_def activeIn_def)
  have later: "c \<in> set rows" if "activeIn bookID table c" "(ck_account_id c, ck_commodity_id c) = key" "c' \<in> set rows" "boundaryKey c' \<le> boundaryKey c" for c c'
    using that by (auto simp: rows_def reaches_def cand_def activeIn_def boundaryKey_def less_eq_prod_def)
  let ?Q = "\<lambda>c. activeIn bookID table c \<and> (ck_account_id c, ck_commodity_id c) = key"
  have "c \<in> set (dropWhile ?P rows) \<longleftrightarrow> ?Q c \<and> (\<exists>c'. ?Q c' \<and> boundaryKey c' \<le> boundaryKey c \<and> balanceChange deltas c' \<noteq> 0)" for c
  proof
    assume "c \<in> set (dropWhile ?P rows)"
    then obtain y where "c \<in> set rows" "y \<in> set rows" "boundaryKey y \<le> boundaryKey c" "\<not> ?P y"
      using dropWhile_sorted [OF keys, of c ?P] by blast
    then show "?Q c \<and> (\<exists>c'. ?Q c' \<and> boundaryKey c' \<le> boundaryKey c \<and> balanceChange deltas c' \<noteq> 0)"
      using row [of c] row [of y] bal [of y] by metis
  next
    assume "?Q c \<and> (\<exists>c'. ?Q c' \<and> boundaryKey c' \<le> boundaryKey c \<and> balanceChange deltas c' \<noteq> 0)"
    then obtain c' where c': "?Q c" "?Q c'" "boundaryKey c' \<le> boundaryKey c" "balanceChange deltas c' \<noteq> 0" by blast
    then have "\<not> ?P c'" using bal [of c'] by simp
    moreover from this have "c' \<in> set rows" using far [of c'] c'(2) by blast
    moreover from this have "c \<in> set rows" using later [of c c'] c' by blast
    ultimately show "c \<in> set (dropWhile ?P rows)" using c'(3) dropWhile_sorted [OF keys, of c ?P] by blast
  qed
  then have set: "set (dropWhile ?P rows) = {c. ?Q c \<and> (\<exists>c'. ?Q c' \<and> boundaryKey c' \<le> boundaryKey c \<and> balanceChange deltas c' \<noteq> 0)}"
    by blast
  have "rf_CheckpointID ` set (map (refOf cand) (dropWhile ?P rows)) = ck_id ` set (dropWhile ?P rows)"
    by (simp add: refOf_def image_image)
  then show ?thesis using n unfolding set by (simp only: conj_assoc) blast
qed

text \<open>
  C26. Netting a command's postings at each checkpoint is exact. The calculation never fails on
  postings whose scales are in range, and it returns a checkpoint exactly when the command changes the
  balance that this checkpoint, or an earlier active one of the same account and commodity, closed.
  In particular every active checkpoint it leaves alone still closes the balance that was reconciled:
  the command's postings up to its boundary cancel exactly.
\<close>

theorem checkpoint_netting_exact:
  assumes "tableOk table" and "deltasOk deltas"
  shows "\<exists>refs. netCheckpointInvalidationRefs table bookID deltas = Inr refs \<and>
    (\<forall>c. activeIn bookID table c \<longrightarrow>
      (ck_id c \<in> rf_CheckpointID ` set refs \<longleftrightarrow>
        (\<exists>c'. activeIn bookID table c' \<and> samePosition c' c \<and> boundaryKey c' \<le> boundaryKey c \<and> balanceChange deltas c' \<noteq> 0)) \<and>
      (ck_id c \<notin> rf_CheckpointID ` set refs \<longrightarrow> balanceChange deltas c = 0))"
proof -
  define keys where "keys = sort (remdups (map deltaKey deltas))"
  let ?hit = "\<lambda>c. \<exists>c'. activeIn bookID table c' \<and> samePosition c' c \<and> boundaryKey c' \<le> boundaryKey c \<and> balanceChange deltas c' \<noteq> 0"
  let ?at = "\<lambda>key c. (ck_account_id c, ck_commodity_id c) = key"
  have pos: "\<exists>refs. netPosition table bookID deltas key = Inr refs \<and>
      rf_CheckpointID ` set refs = ck_id ` {c. activeIn bookID table c \<and> ?at key c \<and> ?hit c}" if "key \<in> set keys" for key
  proof -
    have "key \<in> set (map deltaKey deltas)" using that by (simp add: keys_def)
    moreover have "{c. activeIn bookID table c \<and> ?at key c \<and> (\<exists>c'. activeIn bookID table c' \<and> ?at key c' \<and> boundaryKey c' \<le> boundaryKey c \<and>
        balanceChange deltas c' \<noteq> 0)} = {c. activeIn bookID table c \<and> ?at key c \<and> ?hit c}"
      by (intro Collect_cong) (auto simp: samePosition_def)
    ultimately show ?thesis using netPosition_exact [OF assms, of key bookID] by simp
  qed
  from bchoice [OF ballI [OF pos]] obtain f where all: "\<forall>key\<in>set keys. netPosition table bookID deltas key = Inr (f key) \<and>
      rf_CheckpointID ` set (f key) = ck_id ` {c. activeIn bookID table c \<and> ?at key c \<and> ?hit c}" ..
  note f = conjunct1 [OF bspec [OF all]] conjunct2 [OF bspec [OF all]]
  have "mapR (netPosition table bookID deltas) keys = Inr (map f keys)"
    using f(1) by (simp add: mapR_Inr_iff list_all2_map2 list_all2_same)
  then have n: "netCheckpointInvalidationRefs table bookID deltas = Inr (concat (map f keys))"
    by (simp add: netCheckpointInvalidationRefs_def keys_def [symmetric])
  have touched: "(ck_account_id c, ck_commodity_id c) \<in> set keys" if "balanceChange deltas c \<noteq> 0" for c
  proof (rule ccontr)
    assume "(ck_account_id c, ck_commodity_id c) \<notin> set keys"
    then have "filter (\<lambda>d. deltaKey d = (ck_account_id c, ck_commodity_id c)) deltas = []"
      by (auto simp: keys_def filter_empty_conv image_iff)
    then show False using that by (simp add: balanceChange_def changeAt_def)
  qed
  have ids: "ck_id c \<in> rf_CheckpointID ` set (concat (map f keys)) \<longleftrightarrow> ?hit c" if c: "activeIn bookID table c" for c
  proof
    assume "ck_id c \<in> rf_CheckpointID ` set (concat (map f keys))"
    then obtain key where "key \<in> set keys" "ck_id c \<in> rf_CheckpointID ` set (f key)" by auto
    then have "ck_id c \<in> ck_id ` {c. activeIn bookID table c \<and> ?at key c \<and> ?hit c}" by (simp only: f(2))
    then obtain c1 where "c1 \<in> {c. activeIn bookID table c \<and> ?at key c \<and> ?hit c}" "ck_id c = ck_id c1" by (rule imageE)
    then have "activeIn bookID table c1" "?hit c1" "ck_id c1 = ck_id c" by simp_all
    moreover have "c1 = c" if "ck_id c1 = ck_id c" "activeIn bookID table c1"
      using that c assms(1) by (auto simp: activeIn_def tableOk_def distinct_map dest: inj_onD)
    ultimately show "?hit c" by blast
  next
    assume h: "?hit c"
    then obtain c' where "samePosition c' c" "balanceChange deltas c' \<noteq> 0" by blast
    then have key: "(ck_account_id c, ck_commodity_id c) \<in> set keys" using touched [of c'] by (simp add: samePosition_def)
    then have "ck_id c \<in> rf_CheckpointID ` set (f (ck_account_id c, ck_commodity_id c))" using f(2) [OF key] c h by auto
    then show "ck_id c \<in> rf_CheckpointID ` set (concat (map f keys))" using key by auto
  qed
  have self: "?hit c" if "activeIn bookID table c" "balanceChange deltas c \<noteq> 0" for c
    using that by (intro exI [of _ c]) (simp add: samePosition_def)
  show ?thesis
  proof (intro exI [of _ "concat (map f keys)"] conjI allI impI)
    show "netCheckpointInvalidationRefs table bookID deltas = Inr (concat (map f keys))" by (rule n)
    fix c assume c: "activeIn bookID table c"
    show "ck_id c \<in> rf_CheckpointID ` set (concat (map f keys)) \<longleftrightarrow> ?hit c" by (rule ids [OF c])
    assume "ck_id c \<notin> rf_CheckpointID ` set (concat (map f keys))"
    then have "\<not> ?hit c" by (simp only: ids [OF c] not_False_eq_True)
    then show "balanceChange deltas c = 0" using self [OF c] by argo
  qed
qed

section \<open>Concrete runs\<close>

definition statementRow :: "int \<Rightarrow> string \<Rightarrow> int \<Rightarrow> checkpointRow" where
  "statementRow k date sequence = \<lparr> ck_id = k, ck_book_id = 1, ck_account_id = 10, ck_commodity_id = 5, ck_session_id = None,
     ck_previous_checkpoint_id = None, ck_status = ''active'', ck_statement_date = date, ck_statement_account_sequence = sequence,
     ck_statement_balance_value = ''0'', ck_statement_balance_scale = 2, ck_created_at = ''2026-02-01T00:00:00Z'', ck_created_by_user_id = 1,
     ck_created_audit_event_id = Some 1, ck_invalidated = None, ck_voided = None \<rparr>"

definition statementsTable :: "checkpointRow list" where
  "statementsTable = [statementRow 1 ''2026-01-05'' 2, statementRow 2 ''2026-01-15'' 3]"

definition januaryWrite :: checkpointBoundaryParams where
  "januaryWrite = \<lparr> bp_BookID = 1, bp_Candidates = [\<lparr> cd_AccountID = 10, cd_CommodityID = 5, cd_EntryDate = ''2026-01-05'',
     cd_AccountDaySequence = 3 \<rparr>], bp_ReconciliationOverride = True, bp_ReviewedCheckpointIDs = Some [2], bp_ActorUserID = 4, bp_AuditEventID = 9,
     bp_OccurredAt = ''2026-02-01'', bp_Reason = ''update'' \<rparr>"

definition januaryDeltas :: "CheckpointDelta list" where
  "januaryDeltas = [\<lparr> dl_AccountID = 10, dl_CommodityID = 5, dl_EntryDate = ''2026-01-10'', dl_AccountDaySequence = MaxInt64,
      dl_QuantityValue = New 250, dl_QuantityScale = 2 \<rparr>,
    \<lparr> dl_AccountID = 10, dl_CommodityID = 5, dl_EntryDate = ''2026-01-20'', dl_AccountDaySequence = MaxInt64,
      dl_QuantityValue = New (- 250), dl_QuantityScale = 2 \<rparr>]"

lemma statementsTable_ok: "tableOk statementsTable"
  by (simp add: tableOk_def statementRow_def statementsTable_def)

lemma januaryDeltas_ok: "deltasOk januaryDeltas"
  by (simp add: deltasOk_def januaryDeltas_def scaleOk_def MaxPow10Scale_def)

lemma januaryWrite_covers:
  "map (covered januaryWrite) statementsTable = [False, True]"
  by (simp add: statementRow_def statementsTable_def januaryWrite_def covered_def reaches_def)

lemma coveredIDs_list: "coveredIDs params table = set (map ck_id (filter (covered params) table))"
  by (simp add: coveredIDs_def)

lemma januaryWrite_ids: "coveredIDs januaryWrite statementsTable = {2}"
  unfolding coveredIDs_list by (simp add: statementRow_def statementsTable_def januaryWrite_def covered_def reaches_def)

lemma januaryWrite_passes: "guardPasses False januaryWrite statementsTable"
  unfolding guardPasses_def januaryWrite_ids by (simp add: reviewFits_def januaryWrite_def)

theorem checkpoint_guard_exact_witness:
  "\<exists>table' ids. enforceCheckpointBoundaryTx False januaryWrite statementsTable = Inr (table', ids) \<and>
    map ck_status table' = [''active'', ''invalidated''] \<and> set ids = {2}"
proof -
  obtain table' ids where r: "enforceCheckpointBoundaryTx False januaryWrite statementsTable = Inr (table', ids)"
  proof (cases "enforceCheckpointBoundaryTx False januaryWrite statementsTable")
    case (Inl e)
    then have False using checkpoint_guard_exact [OF statementsTable_ok, of False januaryWrite] januaryWrite_passes by simp
    then show ?thesis ..
  next
    case (Inr a)
    then show ?thesis using that by (cases a) simp
  qed
  have "table' = map (\<lambda>c. if covered januaryWrite c then invalidated januaryWrite c else c) statementsTable"
    "set ids = {2}"
    using checkpoint_guard_exact [OF statementsTable_ok, of False januaryWrite] unfolding r sum.case prod.case januaryWrite_ids
    by argo+
  moreover from this(1) have "map ck_status table' = [''active'', ''invalidated'']"
    using januaryWrite_covers by (simp add: statementRow_def statementsTable_def invalidated_def)
  ultimately show ?thesis using r by (intro exI [of _ table'] exI [of _ ids] conjI)
qed

theorem checkpoint_netting_exact_witness:
  "\<exists>refs. netCheckpointInvalidationRefs statementsTable 1 januaryDeltas = Inr refs \<and>
    1 \<notin> rf_CheckpointID ` set refs \<and> 2 \<in> rf_CheckpointID ` set refs"
proof -
  have change: "map (balanceChange januaryDeltas) statementsTable = [0, 5 / 2]"
    by (simp add: statementRow_def statementsTable_def januaryDeltas_def balanceChange_def changeAt_def deltaKey_def atOrBefore_def decVal_def
        BigInt_New)
  obtain refs where r: "netCheckpointInvalidationRefs statementsTable 1 januaryDeltas = Inr refs"
    and all: "\<forall>c. activeIn 1 statementsTable c \<longrightarrow>
      (ck_id c \<in> rf_CheckpointID ` set refs \<longleftrightarrow>
        (\<exists>c'. activeIn 1 statementsTable c' \<and> samePosition c' c \<and> boundaryKey c' \<le> boundaryKey c \<and> balanceChange januaryDeltas c' \<noteq> 0)) \<and>
      (ck_id c \<notin> rf_CheckpointID ` set refs \<longrightarrow> balanceChange januaryDeltas c = 0)"
    using checkpoint_netting_exact [OF statementsTable_ok januaryDeltas_ok, of 1] by blast
  let ?c1 = "statementsTable ! 0" and ?c2 = "statementsTable ! 1"
  have c: "activeIn 1 statementsTable ?c1" "activeIn 1 statementsTable ?c2" "ck_id ?c1 = 1" "ck_id ?c2 = 2"
    "balanceChange januaryDeltas ?c1 = 0" "balanceChange januaryDeltas ?c2 = 5 / 2" "set statementsTable = {?c1, ?c2}"
    "\<not> boundaryKey ?c2 \<le> boundaryKey ?c1"
    using change by (simp_all add: activeIn_def statementRow_def statementsTable_def boundaryKey_def)
  have "2 \<in> rf_CheckpointID ` set refs" using spec [OF all, of ?c2] c by auto
  moreover have "1 \<notin> rf_CheckpointID ` set refs"
  proof
    assume "1 \<in> rf_CheckpointID ` set refs"
    then obtain c' where "activeIn 1 statementsTable c'" "boundaryKey c' \<le> boundaryKey ?c1" "balanceChange januaryDeltas c' \<noteq> 0"
      using spec [OF all, of ?c1] c by auto
    moreover from this have "c' = ?c1 \<or> c' = ?c2" using c(7) by (auto simp: activeIn_def)
    ultimately show False using c by auto
  qed
  ultimately show ?thesis using r by blast
qed

end
