(* ===== verification/Store.thy ===== *)
theory Store
  imports Checkpoints
begin

text \<open>
  The transaction repository: \<^verbatim>\<open>db/transactions_write.go\<close>, the reads it rests on
  (\<^verbatim>\<open>db/transactions_read.go\<close>), the register positions of \<^verbatim>\<open>db/transactions_move.go\<close> and the audit
  writer \<^verbatim>\<open>db/audit.go\<close>. The database is a record of tables, each the list of its rows; the journal of a
  version (its journal entries and posting versions) is kept in the version's row, since it is only ever read
  through its version. A write is a function from the store to the new store and its result, or an error;
  after an error the transaction is rolled back, so there is no store in it. Rows get the next id above the
  largest in their table, as SQLite gives an \<^verbatim>\<open>INTEGER PRIMARY KEY\<close>. The triggers and foreign keys of the
  schema, which can only refuse a write, are not modelled.
\<close>

section \<open>Definitions: tables\<close>

record transactionRow =
  tr_id :: int
  tr_book_id :: int
  tr_correction_of :: "int option"
  tr_created_at :: string
  tr_created_by :: int
  tr_created_request :: "string option"
  tr_created_audit :: int
  tr_deleted_at :: "string option"
  tr_deleted_by :: "int option"
  tr_deleted_audit :: "int option"
  tr_delete_reason :: "string option"

record versionRow =
  tv_id :: int
  tv_book_id :: int
  tv_transaction_id :: int
  tv_version_seq :: int
  tv_supersedes :: "int option"
  tv_status :: string
  tv_kind :: string
  tv_date :: string
  tv_day_sequence :: int
  tv_payee_id :: "int option"
  tv_payee_name :: "string option"
  tv_description :: string
  tv_external_ref_hint :: "string option"
  tv_note_markdown :: string
  tv_metadata_json :: string
  tv_needs_review :: bool
  tv_recorded_at :: string
  tv_changed_by :: int
  tv_change_reason :: string
  tv_change_audit :: int
  tv_entries :: "JournalEntryRecord list"

record lineRow =
  pl_id :: int
  pl_book_id :: int
  pl_transaction_id :: int
  pl_line_key :: string
  pl_created_at :: string
  pl_created_by :: int
  pl_created_request :: "string option"
  pl_created_audit :: int

record tagLink =
  tl_book_id :: int
  tl_owner_id :: int
  tl_tag_id :: int
  tl_created_at :: string
  tl_created_by :: int
  tl_created_audit :: int

record auditRow =
  au_id :: int
  au_book_id :: "int option"
  au_actor :: "int option"
  au_session :: "int option"
  au_occurred_at :: string
  au_request :: "string option"
  au_origin :: string
  au_operation :: string
  au_reason :: string
  au_metadata :: string

record deletionEvent =
  de_book_id :: int
  de_transaction_id :: int
  de_action :: string
  de_occurred_at :: string
  de_actor :: int
  de_audit :: int
  de_reason :: string

record occurrenceRow =
  oc_id :: int
  oc_book_id :: int
  oc_template_id :: int
  oc_occurrence_date :: string
  oc_status :: string
  oc_transaction_id :: "int option"
  oc_error_summary :: string
  oc_skip_reason :: string
  oc_materialized_at :: string
  oc_created_at :: string
  oc_updated_at :: string
  oc_last_audit :: "int option"

text \<open>
  The tables the repository reads and writes. \<open>st_operation_links\<close> holds the version, role and operation kind of
  the investment journal links, \<open>st_lot_sources\<close> and \<open>st_lot_events\<close> the book and transaction of lots and lot events.
\<close>

record store =
  st_books :: "int list"
  st_reference :: bookTables
  st_transactions :: "transactionRow list"
  st_versions :: "versionRow list"
  st_lines :: "lineRow list"
  st_transaction_tags :: "tagLink list"
  st_posting_tags :: "tagLink list"
  st_checkpoints :: "checkpointRow list"
  st_audit :: "auditRow list"
  st_deletions :: "deletionEvent list"
  st_occurrences :: "occurrenceRow list"
  st_operation_links :: "(int \<times> string \<times> string) list"
  st_lot_sources :: "(int \<times> int) list"
  st_lot_events :: "(int \<times> int) list"

datatype write_error =
    ErrNotFound
  | ErrTransactionVersionStale
  | ErrPostingAccountVersionStale int
  | ErrTransactionVoided
  | ErrTransactionDeleted
  | ErrTransactionHasPostedVersions
  | AuditOriginInvalid | AuditOperationInvalid | AuditOccurredAtInvalid | AuditMetadataInvalid
  | TagRepeated | PostingScaleRefused
  | ErrInvalidReorder | ErrReorderNotSameDay
  | CheckpointImpact checkpoint_error

section \<open>Definitions: reading transactions\<close>

record TransactionRecord =
  rc_ID :: int
  rc_BookID :: int
  rc_CorrectionOfTransactionID :: "int option"
  rc_CreatedAt :: string
  rc_CreatedByUserID :: int
  rc_DeletedAt :: "string option"
  rc_VersionID :: int
  rc_VersionSeq :: int
  rc_SupersedesVersionID :: "int option"
  rc_Status :: string
  rc_TransactionKind :: string
  rc_TransactionDate :: string
  rc_TransactionDaySequence :: int
  rc_PayeeID :: "int option"
  rc_PayeeName :: "string option"
  rc_Description :: string
  rc_ExternalRefHint :: "string option"
  rc_NoteMarkdown :: string
  rc_MetadataJSON :: string
  rc_NeedsReview :: bool
  rc_RecordedAt :: string
  rc_ChangedByUserID :: int
  rc_ChangeReason :: string
  rc_SystemLabel :: string
  rc_TagIDs :: "int list"
  rc_JournalEntries :: "JournalEntryRecord list"
  rc_InvalidatedCheckpointIDs :: "int list"

text \<open>\<^verbatim>\<open>COALESCE(MAX(x), 0) + 1\<close>, and with it the id of the next row.\<close>

definition nextAbove :: "int list \<Rightarrow> int" where
  "nextAbove xs = (case xs of [] \<Rightarrow> 0 | x # ys \<Rightarrow> foldr max ys x) + 1"

definition readBookForUpdate :: "store \<Rightarrow> int \<Rightarrow> (write_error, int) result" where
  "readBookForUpdate st bookID = (if bookID \<in> set (st_books st) then Inr bookID else Inl ErrNotFound)"

definition versionsOf :: "store \<Rightarrow> int \<Rightarrow> versionRow list" where
  "versionsOf st transactionID = filter (\<lambda>v. tv_transaction_id v = transactionID) (st_versions st)"

definition versionOrder :: "versionRow \<Rightarrow> int \<times> int" where
  "versionOrder v = (tv_version_seq v, tv_id v)"

definition currentVersion :: "store \<Rightarrow> int \<Rightarrow> versionRow option" where
  "currentVersion st transactionID = lastBy versionOrder (versionsOf st transactionID)"

definition systemLabel :: "store \<Rightarrow> int \<Rightarrow> string" where
  "systemLabel st versionID = (
     case find (\<lambda>(v, role, kind). v = versionID \<and> role \<in> {''split_adjustment'', ''transfer_bridge''}) (st_operation_links st) of
       Some (_, role, _) \<Rightarrow> role
     | None \<Rightarrow> (case find (\<lambda>(v, role, kind). v = versionID \<and> role = ''primary'' \<and> kind \<in> {''share_exchange'', ''cash_and_stock_merger'', ''spin_off''})
           (st_operation_links st) of
         Some (_, _, kind) \<Rightarrow> kind | None \<Rightarrow> []))"

definition transactionVersionRecord :: "store \<Rightarrow> transactionRow \<Rightarrow> versionRow \<Rightarrow> TransactionRecord" where
  "transactionVersionRecord st t tv = \<lparr> rc_ID = tr_id t, rc_BookID = tr_book_id t, rc_CorrectionOfTransactionID = tr_correction_of t,
     rc_CreatedAt = tr_created_at t, rc_CreatedByUserID = tr_created_by t, rc_DeletedAt = tr_deleted_at t, rc_VersionID = tv_id tv,
     rc_VersionSeq = tv_version_seq tv, rc_SupersedesVersionID = tv_supersedes tv, rc_Status = tv_status tv,
     rc_TransactionKind = tv_kind tv, rc_TransactionDate = tv_date tv, rc_TransactionDaySequence = tv_day_sequence tv,
     rc_PayeeID = tv_payee_id tv, rc_PayeeName = tv_payee_name tv, rc_Description = tv_description tv,
     rc_ExternalRefHint = tv_external_ref_hint tv, rc_NoteMarkdown = tv_note_markdown tv, rc_MetadataJSON = tv_metadata_json tv,
     rc_NeedsReview = tv_needs_review tv, rc_RecordedAt = tv_recorded_at tv, rc_ChangedByUserID = tv_changed_by tv,
     rc_ChangeReason = tv_change_reason tv, rc_SystemLabel = systemLabel st (tv_id tv), rc_TagIDs = [], rc_JournalEntries = [],
     rc_InvalidatedCheckpointIDs = [] \<rparr>"

definition findTransaction :: "store \<Rightarrow> int \<Rightarrow> int \<Rightarrow> transactionRow option" where
  "findTransaction st bookID transactionID =
     find (\<lambda>t. tr_book_id t = bookID \<and> tr_id t = transactionID) (st_transactions st)"

definition transactionByID :: "store \<Rightarrow> int \<Rightarrow> int \<Rightarrow> (write_error, TransactionRecord) result" where
  "transactionByID st bookID transactionID = (case findTransaction st bookID transactionID of
       None \<Rightarrow> Inl ErrNotFound
     | Some t \<Rightarrow> (case currentVersion st transactionID of
         None \<Rightarrow> Inl ErrNotFound
       | Some tv \<Rightarrow> Inr (transactionVersionRecord st t tv)))"

definition transactionVersionByID :: "store \<Rightarrow> int \<Rightarrow> (write_error, TransactionRecord) result" where
  "transactionVersionByID st versionID = (case find (\<lambda>v. tv_id v = versionID) (st_versions st) of
       None \<Rightarrow> Inl ErrNotFound
     | Some tv \<Rightarrow> (case find (\<lambda>t. tr_id t = tv_transaction_id tv) (st_transactions st) of
         None \<Rightarrow> Inl ErrNotFound
       | Some t \<Rightarrow> Inr (transactionVersionRecord st t tv)))"

definition transactionTagIDs :: "store \<Rightarrow> int \<Rightarrow> int list" where
  "transactionTagIDs st transactionID = sort (map tl_tag_id (filter (\<lambda>l. tl_owner_id l = transactionID) (st_transaction_tags st)))"

definition postingTagIDs :: "store \<Rightarrow> int \<Rightarrow> int list" where
  "postingTagIDs st postingLineID = sort (map tl_tag_id (filter (\<lambda>l. tl_owner_id l = postingLineID) (st_posting_tags st)))"

definition withTags :: "store \<Rightarrow> JournalEntryRecord \<Rightarrow> JournalEntryRecord" where
  "withTags st entry = entry\<lparr> er_Postings := map (\<lambda>p. p\<lparr> pr_TagIDs := postingTagIDs st (pr_PostingLineID p) \<rparr>) (er_Postings entry) \<rparr>"

definition journalEntriesForVersion :: "store \<Rightarrow> int \<Rightarrow> JournalEntryRecord list" where
  "journalEntriesForVersion st versionID = (case find (\<lambda>v. tv_id v = versionID) (st_versions st) of
       None \<Rightarrow> [] | Some tv \<Rightarrow> map (withTags st) (tv_entries tv))"

definition loadTransactionChildren :: "store \<Rightarrow> TransactionRecord \<Rightarrow> TransactionRecord" where
  "loadTransactionChildren st record = record\<lparr> rc_TagIDs := transactionTagIDs st (rc_ID record),
     rc_JournalEntries := journalEntriesForVersion st (rc_VersionID record) \<rparr>"

definition transactionSpecFromRecord :: "TransactionRecord \<Rightarrow> TransactionSpec" where
  "transactionSpecFromRecord record = \<lparr> ts_Status = rc_Status record, ts_TransactionKind = rc_TransactionKind record,
     ts_InvestmentOperationKind = [], ts_TransactionDate = rc_TransactionDate record, ts_PayeeID = rc_PayeeID record,
     ts_PayeeName = rc_PayeeName record, ts_Description = rc_Description record,
     ts_ExternalRefHint = (case rc_ExternalRefHint record of None \<Rightarrow> [] | Some s \<Rightarrow> s),
     ts_NoteMarkdown = rc_NoteMarkdown record, ts_MetadataJSON = rc_MetadataJSON record, ts_NeedsReview = rc_NeedsReview record,
     ts_TagIDs = rc_TagIDs record,
     ts_JournalEntries = map (\<lambda>entry. \<lparr> es_EntryDate = er_EntryDate entry, es_EntryKind = er_EntryKind entry, es_Memo = er_Memo entry,
       es_MetadataJSON = er_MetadataJSON entry,
       es_ConversionSide = (case er_ConversionSide entry of None \<Rightarrow> [] | Some s \<Rightarrow> s),
       es_FeePaidBy = (case er_FeePaidBy entry of None \<Rightarrow> [] | Some s \<Rightarrow> s),
       es_Postings = map (\<lambda>p. \<lparr> ps_LineKey = pr_LineKey p, ps_AccountID = pr_AccountID p, ps_QuantityValue = pr_QuantityValue p,
         ps_QuantityScale = pr_QuantityScale p, ps_CommodityID = pr_CommodityID p, ps_Memo = pr_Memo p,
         ps_ReconciliationStatus = pr_ReconciliationStatus p, ps_ClearedOn = pr_ClearedOn p, ps_MetadataJSON = pr_MetadataJSON p,
         ps_TagIDs = pr_TagIDs p \<rparr>) (er_Postings entry) \<rparr>) (rc_JournalEntries record) \<rparr>"

section \<open>Definitions: audit events\<close>

definition auditOriginTypes :: "string list" where
  "auditOriginTypes = [''browser_api'', ''setup'', ''cli_recovery'', ''import'', ''system_seed'', ''scheduled'', ''internal'']"

record AuditEventParams =
  ap_BookID :: int
  ap_ActorUserID :: int
  ap_AuthSessionID :: int
  ap_OccurredAt :: string
  ap_RequestID :: string
  ap_OriginType :: string
  ap_Operation :: string
  ap_Reason :: string
  ap_MetadataJSON :: string

text \<open>
  The pattern \<^verbatim>\<open>^[a-z][a-z0-9_]*(\.[a-z][a-z0-9_]*)+$\<close> as its automaton: at the start of a segment or within one,
  and whether a dot has been seen.
\<close>

fun auditOperationFrom :: "bool \<Rightarrow> bool \<Rightarrow> string \<Rightarrow> bool" where
  "auditOperationFrom inside dotted [] = (inside \<and> dotted)"
| "auditOperationFrom inside dotted (c # cs) = (
     if 97 \<le> byteVal c \<and> byteVal c \<le> 122 then auditOperationFrom True dotted cs
     else inside \<and> (if 48 \<le> byteVal c \<and> byteVal c \<le> 57 \<or> byteVal c = 95 then auditOperationFrom True dotted cs
       else byteVal c = 46 \<and> auditOperationFrom False True cs))"

definition twoDigits :: "string \<Rightarrow> nat option" where
  "twoDigits s = (case s of [a, b] \<Rightarrow>
       if 48 \<le> byteVal a \<and> byteVal a \<le> 57 \<and> 48 \<le> byteVal b \<and> byteVal b \<le> 57
       then Some (10 * (byteVal a - 48) + (byteVal b - 48)) else None
     | _ \<Rightarrow> None)"

definition below :: "nat \<Rightarrow> nat option \<Rightarrow> bool" where
  "below n v = (case v of None \<Rightarrow> False | Some k \<Rightarrow> k < n)"

text \<open>The texts that parse as RFC 3339 in UTC and print back as themselves: a real day, a time of day and a Z.\<close>

definition utcSecond :: "string \<Rightarrow> bool" where
  "utcSecond s \<longleftrightarrow> length s = 20 \<and> parseDateOnly (take 10 s) \<noteq> None \<and> s ! 10 = CHR ''T'' \<and>
     below 24 (twoDigits (take 2 (drop 11 s))) \<and> s ! 13 = CHR '':'' \<and> below 60 (twoDigits (take 2 (drop 14 s))) \<and> s ! 16 = CHR '':'' \<and>
     below 60 (twoDigits (take 2 (drop 17 s))) \<and> s ! 19 = CHR ''Z''"

definition nullablePositiveInt64 :: "int \<Rightarrow> int option" where
  "nullablePositiveInt64 v = (if v \<le> 0 then None else Some v)"

definition nullIfBlank :: "string \<Rightarrow> string option" where
  "nullIfBlank v = (if v = [] then None else Some v)"

definition insertAuditEvent :: "AuditEventParams \<Rightarrow> store \<Rightarrow> (write_error, store \<times> int) result" where
  "insertAuditEvent params st = (
     let originType = TrimSpace (ap_OriginType params); operation = TrimSpace (ap_Operation params);
         occurredAt = TrimSpace (ap_OccurredAt params); metadata0 = TrimSpace (ap_MetadataJSON params);
         metadataJSON = (if metadata0 = [] then ''{}'' else metadata0); auditID = nextAbove (map au_id (st_audit st)) in
     bindR (ensure (originType \<in> set auditOriginTypes) AuditOriginInvalid) (\<lambda>_.
     bindR (ensure (auditOperationFrom False False operation) AuditOperationInvalid) (\<lambda>_.
     bindR (ensure (utcSecond occurredAt) AuditOccurredAtInvalid) (\<lambda>_.
     bindR (ensure (json_Valid metadataJSON \<and> hd metadataJSON = CHR ''{'') AuditMetadataInvalid) (\<lambda>_.
     Inr (st\<lparr> st_audit := st_audit st @ [\<lparr> au_id = auditID, au_book_id = nullablePositiveInt64 (ap_BookID params),
       au_actor = nullablePositiveInt64 (ap_ActorUserID params), au_session = nullablePositiveInt64 (ap_AuthSessionID params),
       au_occurred_at = occurredAt, au_request = nullIfBlank (TrimSpace (ap_RequestID params)), au_origin = originType,
       au_operation = operation, au_reason = TrimSpace (ap_Reason params), au_metadata = metadataJSON \<rparr>] \<rparr>, auditID))))))"

section \<open>Definitions: what a prepared write is held against\<close>

type_synonym AccountRuleDependency = "int \<times> int"

definition latestAccountVersion :: "store \<Rightarrow> int \<Rightarrow> int option" where
  "latestAccountVersion st accountID = (case map av_id (accountVersionsOf (st_reference st) accountID) of
       [] \<Rightarrow> None | x # ys \<Rightarrow> Some (foldr max ys x))"

fun dependenciesCurrent :: "store \<Rightarrow> AccountRuleDependency list \<Rightarrow> (write_error, unit) result" where
  "dependenciesCurrent st [] = Inr ()"
| "dependenciesCurrent st ((accountID, versionID) # rest) = (
     if accountID \<le> 0 \<or> versionID \<le> 0 then Inl (ErrPostingAccountVersionStale accountID)
     else if latestAccountVersion st accountID \<noteq> Some versionID then Inl (ErrPostingAccountVersionStale accountID)
     else dependenciesCurrent st rest)"

definition requireAccountRuleDependenciesTx ::
  "store \<Rightarrow> TransactionSpec \<Rightarrow> AccountRuleDependency list \<Rightarrow> (write_error, unit) result" where
  "requireAccountRuleDependenciesTx st spec dependencies =
     bindR (dependenciesCurrent st dependencies) (\<lambda>_.
       case find (\<lambda>nxt. ps_AccountID (snd nxt) \<notin> set (map fst dependencies)) (specPostings (ts_JournalEntries spec)) of
         None \<Rightarrow> Inr () | Some nxt \<Rightarrow> Inl (ErrPostingAccountVersionStale (ps_AccountID (snd nxt))))"

definition requireExpectedVersionTx :: "int \<Rightarrow> TransactionRecord \<Rightarrow> (write_error, unit) result" where
  "requireExpectedVersionTx expectedVersionID current = (
     if expectedVersionID \<le> 0 then Inl ErrTransactionVersionStale
     else if expectedVersionID \<noteq> rc_VersionID current then Inl ErrTransactionVersionStale
     else Inr ())"

section \<open>Definitions: writing a version\<close>

record insertTransactionVersionParams =
  iv_BookID :: int
  iv_TransactionID :: int
  iv_VersionSeq :: int
  iv_SupersedesVersionID :: "int option"
  iv_Spec :: TransactionSpec
  iv_ReplaceTags :: bool
  iv_RecordedAt :: string
  iv_ChangedByUserID :: int
  iv_ChangeReason :: string
  iv_ChangeAuditEventID :: int
  iv_RequestID :: string
  iv_TransactionDaySequence :: int
  iv_PostingSeqOverrides :: "int \<rightharpoonup> int"

definition ensurePostingLine :: "insertTransactionVersionParams \<Rightarrow> string \<Rightarrow> store \<Rightarrow> store \<times> int" where
  "ensurePostingLine params lineKey st = (
     case find (\<lambda>l. pl_book_id l = iv_BookID params \<and> pl_transaction_id l = iv_TransactionID params \<and> pl_line_key l = lineKey) (st_lines st) of
       Some l \<Rightarrow> (st, pl_id l)
     | None \<Rightarrow> let lineID = nextAbove (map pl_id (st_lines st)) in
         (st\<lparr> st_lines := st_lines st @ [\<lparr> pl_id = lineID, pl_book_id = iv_BookID params, pl_transaction_id = iv_TransactionID params,
            pl_line_key = lineKey, pl_created_at = iv_RecordedAt params, pl_created_by = iv_ChangedByUserID params,
            pl_created_request = nullIfBlank (iv_RequestID params), pl_created_audit = iv_ChangeAuditEventID params \<rparr>] \<rparr>, lineID))"

text \<open>Every posting version of the store with its entry's date.\<close>

definition storedPostings :: "store \<Rightarrow> (string \<times> PostingRecord) list" where
  "storedPostings st = concat (map (\<lambda>v. recordPostings (tv_entries v)) (st_versions st))"

definition inheritedSeq :: "store \<Rightarrow> int \<Rightarrow> int option \<Rightarrow> int \<Rightarrow> int \<Rightarrow> string \<Rightarrow> int option" where
  "inheritedSeq st bookID prevVersionID postingLineID accountID entryDate = (case prevVersionID of
       None \<Rightarrow> None
     | Some prev \<Rightarrow> if prev \<le> 0 then None else
         map_option (\<lambda>cur. pr_AccountDaySequence (snd cur)) (find (\<lambda>cur. pr_BookID (snd cur) = bookID \<and> pr_PostingLineID (snd cur) = postingLineID \<and>
             pr_AccountID (snd cur) = accountID \<and> fst cur = entryDate)
           (recordPostings (concat (map tv_entries (filter (\<lambda>v. tv_id v = prev) (st_versions st)))))))"

text \<open>\<open>placed\<close> are the posting versions of the version being written that are already in the table.\<close>

definition nextAccountDaySeq :: "store \<Rightarrow> (string \<times> PostingRecord) list \<Rightarrow> int \<Rightarrow> int \<Rightarrow> string \<Rightarrow> int" where
  "nextAccountDaySeq st placed bookID accountID entryDate = nextAbove (map (\<lambda>cur. pr_AccountDaySequence (snd cur))
     (filter (\<lambda>cur. pr_BookID (snd cur) = bookID \<and> pr_AccountID (snd cur) = accountID \<and> fst cur = entryDate) (storedPostings st @ placed)))"

definition allocateOrInheritAccountDaySeq ::
  "store \<Rightarrow> (string \<times> PostingRecord) list \<Rightarrow> int \<Rightarrow> int option \<Rightarrow> int \<Rightarrow> int \<Rightarrow> string \<Rightarrow> int" where
  "allocateOrInheritAccountDaySeq st placed bookID prevVersionID postingLineID accountID entryDate = (
     case inheritedSeq st bookID prevVersionID postingLineID accountID entryDate of
       Some inherited \<Rightarrow> inherited
     | None \<Rightarrow> nextAccountDaySeq st placed bookID accountID entryDate)"

fun insertTagLinks :: "(int \<Rightarrow> tagLink) \<Rightarrow> int list \<Rightarrow> tagLink list \<Rightarrow> (write_error, tagLink list) result" where
  "insertTagLinks link [] table = Inr table"
| "insertTagLinks link (tagID # tagIDs) table = (
     if (tl_owner_id (link tagID), tagID) \<in> set (map (\<lambda>l. (tl_owner_id l, tl_tag_id l)) table) then Inl TagRepeated
     else insertTagLinks link tagIDs (table @ [link tagID]))"

definition tagLinkOf :: "insertTransactionVersionParams \<Rightarrow> int \<Rightarrow> int \<Rightarrow> tagLink" where
  "tagLinkOf params owner tagID = \<lparr> tl_book_id = iv_BookID params, tl_owner_id = owner, tl_tag_id = tagID,
     tl_created_at = iv_RecordedAt params, tl_created_by = iv_ChangedByUserID params, tl_created_audit = iv_ChangeAuditEventID params \<rparr>"

definition replaceTransactionTags :: "insertTransactionVersionParams \<Rightarrow> store \<Rightarrow> (write_error, store) result" where
  "replaceTransactionTags params st =
     bindR (insertTagLinks (tagLinkOf params (iv_TransactionID params)) (ts_TagIDs (iv_Spec params))
       (filter (\<lambda>l. \<not> (tl_book_id l = iv_BookID params \<and> tl_owner_id l = iv_TransactionID params)) (st_transaction_tags st)))
     (\<lambda>table. Inr (st\<lparr> st_transaction_tags := table \<rparr>))"

definition replacePostingTags :: "insertTransactionVersionParams \<Rightarrow> int \<Rightarrow> int list \<Rightarrow> store \<Rightarrow> (write_error, store) result" where
  "replacePostingTags params postingLineID tagIDs st =
     bindR (insertTagLinks (tagLinkOf params postingLineID) tagIDs
       (filter (\<lambda>l. \<not> (tl_book_id l = iv_BookID params \<and> tl_owner_id l = postingLineID)) (st_posting_tags st)))
     (\<lambda>table. Inr (st\<lparr> st_posting_tags := table \<rparr>))"

definition clearUnusedPostingLineTags :: "insertTransactionVersionParams \<Rightarrow> int list \<Rightarrow> store \<Rightarrow> store" where
  "clearUnusedPostingLineTags params used st = (
     let lines = map pl_id (filter (\<lambda>l. pl_transaction_id l = iv_TransactionID params) (st_lines st)) in
     st\<lparr> st_posting_tags := filter (\<lambda>l. \<not> (tl_book_id l = iv_BookID params \<and> tl_owner_id l \<in> set lines \<and> tl_owner_id l \<notin> set used))
       (st_posting_tags st) \<rparr>)"

definition postingRow ::
  "insertTransactionVersionParams \<Rightarrow> int \<Rightarrow> int \<Rightarrow> int \<Rightarrow> int \<Rightarrow> int \<Rightarrow> int \<Rightarrow> PostingSpec \<Rightarrow> PostingRecord" where
  "postingRow params rowID versionID entryID lineID lineSeq acctDaySeq posting = \<lparr> pr_ID = rowID, pr_BookID = iv_BookID params,
     pr_TransactionVersionID = versionID, pr_JournalEntryID = entryID, pr_PostingLineID = lineID, pr_LineKey = ps_LineKey posting,
     pr_LineSeq = lineSeq, pr_AccountID = ps_AccountID posting, pr_AccountDaySequence = acctDaySeq,
     pr_QuantityValue = ps_QuantityValue posting, pr_QuantityScale = ps_QuantityScale posting, pr_CommodityID = ps_CommodityID posting,
     pr_Memo = ps_Memo posting, pr_ReconciliationStatus = ps_ReconciliationStatus posting, pr_ClearedOn = ps_ClearedOn posting,
     pr_MetadataJSON = ps_MetadataJSON posting, pr_TagIDs = [] \<rparr>"

text \<open>The schema's check on \<^verbatim>\<open>quantity_scale\<close>.\<close>

definition storedScale :: "int \<Rightarrow> bool" where
  "storedScale sc \<longleftrightarrow> 0 \<le> sc \<and> sc \<le> 24"

text \<open>The postings of one entry, in order; \<open>written\<close> are those of this entry already in the table.\<close>

fun insertPostings :: "insertTransactionVersionParams \<Rightarrow> int \<Rightarrow> int \<Rightarrow> string \<Rightarrow> (string \<times> PostingRecord) list \<Rightarrow> PostingRecord list
    \<Rightarrow> PostingSpec list \<Rightarrow> store \<Rightarrow> (write_error, store \<times> PostingRecord list) result" where
  "insertPostings params versionID entryID entryDate placed written [] st = Inr (st, written)"
| "insertPostings params versionID entryID entryDate placed written (posting # postings) st = (
     let (st1, lineID) = ensurePostingLine params (ps_LineKey posting) st;
         before = placed @ map (Pair entryDate) written;
         acctDaySeq = (case iv_PostingSeqOverrides params lineID of
             Some overridden \<Rightarrow> overridden
           | None \<Rightarrow> allocateOrInheritAccountDaySeq st1 before (iv_BookID params) (iv_SupersedesVersionID params) lineID
               (ps_AccountID posting) entryDate);
         rowID = nextAbove (map (\<lambda>cur. pr_ID (snd cur)) (storedPostings st1 @ before)) in
     bindR (ensure (storedScale (ps_QuantityScale posting)) PostingScaleRefused) (\<lambda>_.
     bindR (if iv_ReplaceTags params then replacePostingTags params lineID (ps_TagIDs posting) st1 else Inr st1) (\<lambda>st2.
       insertPostings params versionID entryID entryDate placed
         (written @ [postingRow params rowID versionID entryID lineID (int (length written) + 1) acctDaySeq posting]) postings st2)))"

definition entryRowOf :: "insertTransactionVersionParams \<Rightarrow> int \<Rightarrow> int \<Rightarrow> int \<Rightarrow> JournalEntrySpec \<Rightarrow> PostingRecord list \<Rightarrow> JournalEntryRecord" where
  "entryRowOf params entryID versionID entrySeq entry rows = \<lparr> er_ID = entryID, er_BookID = iv_BookID params,
     er_TransactionVersionID = versionID, er_EntrySeq = entrySeq, er_EntryDate = es_EntryDate entry, er_EntryKind = es_EntryKind entry,
     er_Memo = es_Memo entry, er_MetadataJSON = es_MetadataJSON entry, er_ConversionSide = nullIfBlank (es_ConversionSide entry),
     er_FeePaidBy = nullIfBlank (es_FeePaidBy entry), er_Postings = rows \<rparr>"

fun insertEntries :: "insertTransactionVersionParams \<Rightarrow> int \<Rightarrow> JournalEntryRecord list \<Rightarrow> JournalEntrySpec list \<Rightarrow> store
    \<Rightarrow> (write_error, store \<times> JournalEntryRecord list) result" where
  "insertEntries params versionID written [] st = Inr (st, written)"
| "insertEntries params versionID written (entry # entries) st = (
     let entryID = nextAbove (map er_ID (concat (map tv_entries (st_versions st)) @ written)) in
     bindR (insertPostings params versionID entryID (es_EntryDate entry) (recordPostings written) [] (es_Postings entry) st) (\<lambda>(st1, rows).
       insertEntries params versionID (written @ [entryRowOf params entryID versionID (int (length written) + 1) entry rows]) entries st1))"

definition versionRowOf :: "insertTransactionVersionParams \<Rightarrow> int \<Rightarrow> int \<Rightarrow> JournalEntryRecord list \<Rightarrow> versionRow" where
  "versionRowOf params versionID txDaySeq entries = (let spec = iv_Spec params in
     \<lparr> tv_id = versionID, tv_book_id = iv_BookID params, tv_transaction_id = iv_TransactionID params, tv_version_seq = iv_VersionSeq params,
       tv_supersedes = iv_SupersedesVersionID params, tv_status = ts_Status spec, tv_kind = ts_TransactionKind spec,
       tv_date = ts_TransactionDate spec, tv_day_sequence = txDaySeq, tv_payee_id = ts_PayeeID spec, tv_payee_name = ts_PayeeName spec,
       tv_description = ts_Description spec, tv_external_ref_hint = nullIfBlank (ts_ExternalRefHint spec),
       tv_note_markdown = ts_NoteMarkdown spec, tv_metadata_json = ts_MetadataJSON spec, tv_needs_review = ts_NeedsReview spec,
       tv_recorded_at = iv_RecordedAt params, tv_changed_by = iv_ChangedByUserID params, tv_change_reason = iv_ChangeReason params,
       tv_change_audit = iv_ChangeAuditEventID params, tv_entries = entries \<rparr>)"

definition transactionDaySeq :: "insertTransactionVersionParams \<Rightarrow> store \<Rightarrow> int" where
  "transactionDaySeq params st = (
     if iv_TransactionDaySequence params \<le> 0
     then nextAbove (map tv_day_sequence (filter (\<lambda>v. tv_book_id v = iv_BookID params \<and> tv_date v = ts_TransactionDate (iv_Spec params)) (st_versions st)))
     else iv_TransactionDaySequence params)"

definition insertTransactionVersion ::
  "insertTransactionVersionParams \<Rightarrow> store \<Rightarrow> (write_error, store \<times> TransactionRecord) result" where
  "insertTransactionVersion params st = (
     let versionID = nextAbove (map tv_id (st_versions st)); txDaySeq = transactionDaySeq params st in
     bindR (if iv_ReplaceTags params then replaceTransactionTags params st else Inr st) (\<lambda>st1.
     bindR (insertEntries params versionID [] (ts_JournalEntries (iv_Spec params)) st1) (\<lambda>(st2, entries).
     let st3 = st2\<lparr> st_versions := st_versions st2 @ [versionRowOf params versionID txDaySeq entries] \<rparr>;
         st4 = (if iv_ReplaceTags params
           then clearUnusedPostingLineTags params (map (\<lambda>cur. pr_PostingLineID (snd cur)) (recordPostings entries)) st3 else st3) in
     bindR (transactionVersionByID st4 versionID) (\<lambda>record. Inr (st4, loadTransactionChildren st4 record)))))"

section \<open>Fresh numbers and last rows\<close>

lemma foldr_max_ge: "(y::int) \<le> foldr max ys y" "x \<in> set ys \<Longrightarrow> x \<le> foldr max ys y"
  by (induction ys) auto

lemma nextAbove_gt: "x \<in> set xs \<Longrightarrow> x < nextAbove xs"
  by (cases xs) (auto simp: nextAbove_def foldr_max_ge less_le_trans intro: order.strict_trans1)

lemma nextAbove_pos: "\<forall>x\<in>set xs. 0 < x \<Longrightarrow> 0 < nextAbove xs"
  using nextAbove_gt [of "hd xs" xs] by (cases xs) (fastforce simp: nextAbove_def)+

lemma nextAbove_fresh: "nextAbove xs \<notin> set xs"
  using nextAbove_gt [of "nextAbove xs" xs] by auto

lemma lastBy_snoc: "\<forall>v\<in>set vs. key v < key w \<Longrightarrow> lastBy key (vs @ [w]) = Some w"
  by (induction vs) auto

lemma lastBy_in: "lastBy key vs = Some v \<Longrightarrow> v \<in> set vs"
  by (drule lastBy_Some) blast

lemma lastBy_ge: "lastBy key vs = Some v \<Longrightarrow> w \<in> set vs \<Longrightarrow> key w \<le> key v"
  by (drule lastBy_Some) blast

lemma find_in: "find P xs = Some x \<Longrightarrow> x \<in> set xs \<and> P x"
  by (induction xs) (auto split: if_splits)

lemma find_exists: "x \<in> set xs \<Longrightarrow> P x \<Longrightarrow> \<exists>y. find P xs = Some y"
  by (induction xs) auto

lemma find_distinct: "distinct (map f xs) \<Longrightarrow> x \<in> set xs \<Longrightarrow> find (\<lambda>y. f y = f x) xs = Some x"
  by (induction xs) (auto simp: image_iff)

lemma filter_distinct: "distinct (map f xs) \<Longrightarrow> x \<in> set xs \<Longrightarrow> filter (\<lambda>y. f y = f x) xs = [x]"
  by (induction xs) (auto simp: image_iff filter_empty_conv)

lemma find_append: "find P (xs @ ys) = (case find P xs of None \<Rightarrow> find P ys | Some x \<Rightarrow> Some x)"
  by (induction xs) auto

section \<open>Where a version's postings land\<close>

lemma nextAccountDaySeq_gt:
  assumes "old \<in> set (storedPostings st @ placed)" and "pr_BookID (snd old) = b" and "pr_AccountID (snd old) = a" and "fst old = d"
  shows "pr_AccountDaySequence (snd old) < nextAccountDaySeq st placed b a d"
  unfolding nextAccountDaySeq_def by (rule nextAbove_gt) (use assms in auto)

definition lineAt :: "int \<Rightarrow> int \<Rightarrow> lineRow list \<Rightarrow> string \<Rightarrow> int option" where
  "lineAt bookID transactionID lines lineKey = map_option pl_id
     (find (\<lambda>l. pl_book_id l = bookID \<and> pl_transaction_id l = transactionID \<and> pl_line_key l = lineKey) lines)"

abbreviation lineFor :: "insertTransactionVersionParams \<Rightarrow> lineRow list \<Rightarrow> string \<Rightarrow> int option" where
  "lineFor params \<equiv> lineAt (iv_BookID params) (iv_TransactionID params)"

lemma lineAt_inj:
  assumes "distinct (map pl_id lines)" and "lineAt b t lines k = Some i" and "lineAt b t lines k' = Some i"
  shows "k = k'"
proof -
  from assms(2,3) obtain l l' where "l \<in> set lines" "pl_line_key l = k" "pl_id l = i" "l' \<in> set lines" "pl_line_key l' = k'" "pl_id l' = i"
    by (auto simp: lineAt_def dest!: find_in)
  with assms(1) show ?thesis by (auto simp: distinct_map dest: inj_onD)
qed

definition samePlace :: "string \<times> PostingRecord \<Rightarrow> string \<times> PostingRecord \<Rightarrow> bool" where
  "samePlace cur cur' \<longleftrightarrow> pr_BookID (snd cur) = pr_BookID (snd cur') \<and> pr_AccountID (snd cur) = pr_AccountID (snd cur') \<and> fst cur = fst cur'"

definition seqFor :: "insertTransactionVersionParams \<Rightarrow> store \<Rightarrow> (string \<times> PostingRecord) list \<Rightarrow> string \<times> PostingRecord \<Rightarrow> bool" where
  "seqFor params st before cur \<longleftrightarrow> pr_AccountDaySequence (snd cur) = (case iv_PostingSeqOverrides params (pr_PostingLineID (snd cur)) of
     Some overridden \<Rightarrow> overridden
   | None \<Rightarrow> allocateOrInheritAccountDaySeq st before (iv_BookID params) (iv_SupersedesVersionID params) (pr_PostingLineID (snd cur))
       (pr_AccountID (snd cur)) (fst cur))"

definition rowOf :: "insertTransactionVersionParams \<Rightarrow> string \<times> PostingSpec \<Rightarrow> string \<times> PostingRecord \<Rightarrow> bool" where
  "rowOf params nxt cur \<longleftrightarrow> fst cur = fst nxt \<and> snd cur = postingRow params (pr_ID (snd cur)) (pr_TransactionVersionID (snd cur)) (pr_JournalEntryID (snd cur))
     (pr_PostingLineID (snd cur)) (pr_LineSeq (snd cur)) (pr_AccountDaySequence (snd cur)) (snd nxt) \<and> storedScale (ps_QuantityScale (snd nxt))"

fun rowsPlaced :: "insertTransactionVersionParams \<Rightarrow> store \<Rightarrow> lineRow list \<Rightarrow> (string \<times> PostingRecord) list
    \<Rightarrow> (string \<times> PostingSpec) list \<Rightarrow> (string \<times> PostingRecord) list \<Rightarrow> bool" where
  "rowsPlaced params st lines before [] [] = True"
| "rowsPlaced params st lines before (nxt # ns) (cur # cs) = (rowOf params nxt cur \<and>
     lineFor params lines (ps_LineKey (snd nxt)) = Some (pr_PostingLineID (snd cur)) \<and> seqFor params st before cur \<and>
     rowsPlaced params st lines (before @ [cur]) ns cs)"
| "rowsPlaced params st lines before _ _ = False"

lemma rowsPlaced_append:
  "rowsPlaced params st lines before ns cs \<Longrightarrow> rowsPlaced params st lines (before @ cs) ns' cs' \<Longrightarrow> rowsPlaced params st lines before (ns @ ns') (cs @ cs')"
  by (induction params st lines before ns cs rule: rowsPlaced.induct) auto

lemma lineFor_append: "lineAt b t lines k = Some i \<Longrightarrow> lineAt b t (lines @ ls) k = Some i"
  by (auto simp: lineAt_def find_append split: option.splits)

lemma rowsPlaced_lines: "rowsPlaced params st lines before ns cs \<Longrightarrow> rowsPlaced params st (lines @ ls) before ns cs"
  by (induction params st lines before ns cs rule: rowsPlaced.induct) (auto intro: lineFor_append)

lemma ensurePostingLine_cases:
  assumes "ensurePostingLine params k st = (st', i)"
  obtains ls where "st' = st\<lparr> st_lines := st_lines st @ ls \<rparr>" "lineFor params (st_lines st @ ls) k = Some i"
    "distinct (map pl_id (st_lines st)) \<Longrightarrow> distinct (map pl_id (st_lines st @ ls))"
proof (cases "find (\<lambda>l. pl_book_id l = iv_BookID params \<and> pl_transaction_id l = iv_TransactionID params \<and> pl_line_key l = k) (st_lines st)")
  case (Some l)
  then show ?thesis using that [of "[]"] assms by (simp add: ensurePostingLine_def lineAt_def)
next
  case None
  show ?thesis
    by (rule that [of "[\<lparr> pl_id = nextAbove (map pl_id (st_lines st)), pl_book_id = iv_BookID params, pl_transaction_id = iv_TransactionID params,
        pl_line_key = k, pl_created_at = iv_RecordedAt params, pl_created_by = iv_ChangedByUserID params,
        pl_created_request = nullIfBlank (iv_RequestID params), pl_created_audit = iv_ChangeAuditEventID params \<rparr>]"])
      (use assms None nextAbove_fresh [of "map pl_id (st_lines st)"] in \<open>auto simp: ensurePostingLine_def lineAt_def find_append Let_def\<close>)
qed

lemma allocate_versions:
  assumes "st_versions st = st_versions st'"
  shows "allocateOrInheritAccountDaySeq st before b prev l a d = allocateOrInheritAccountDaySeq st' before b prev l a d"
  unfolding allocateOrInheritAccountDaySeq_def inheritedSeq_def nextAccountDaySeq_def storedPostings_def assms ..

lemma seqFor_versions: "st_versions st = st_versions st' \<Longrightarrow> seqFor params st before cur = seqFor params st' before cur"
  unfolding seqFor_def by (simp only: allocate_versions [of st st'])

lemma rowsPlaced_versions:
  assumes "st_versions st = st_versions st'"
  shows "rowsPlaced params st lines before ns cs = rowsPlaced params st' lines before ns cs"
proof -
  have "seqFor params st b cur = seqFor params st' b cur" for b cur by (rule seqFor_versions [OF assms])
  then show ?thesis
  proof (induction ns arbitrary: before cs)
    case Nil
    then show ?case by (cases cs) simp_all
  next
    case (Cons n ns)
    then show ?case by (cases cs) simp_all
  qed
qed

lemma replacePostingTags_Inr: "replacePostingTags params l ts st = Inr st' \<Longrightarrow> \<exists>P. st' = st\<lparr> st_posting_tags := P \<rparr>"
  by (auto simp: replacePostingTags_def result_simps)

abbreviation postingIDsOf :: "(string \<times> PostingRecord) list \<Rightarrow> int list" where
  "postingIDsOf ps \<equiv> map (\<lambda>cur. pr_ID (snd cur)) ps"

lemma insertPostings_Inr:
  assumes "insertPostings params v e d placed written ps st = Inr (st', rows)"
  shows "\<exists>ls P rs. st' = st\<lparr> st_lines := st_lines st @ ls, st_posting_tags := P \<rparr> \<and> rows = written @ rs \<and>
    (distinct (map pl_id (st_lines st)) \<longrightarrow> distinct (map pl_id (st_lines st'))) \<and>
    (distinct (postingIDsOf (storedPostings st @ placed @ map (Pair d) written)) \<longrightarrow> distinct (postingIDsOf (storedPostings st @ placed @ map (Pair d) rows))) \<and>
    rowsPlaced params st (st_lines st') (placed @ map (Pair d) written) (map (Pair d) ps) (map (Pair d) rs)"
  using assms
proof (induction ps arbitrary: written st)
  case Nil
  then show ?case by (intro exI [of _ "[]"] exI [of _ "st_posting_tags st"]) simp
next
  case (Cons p ps)
  obtain st1 i where line: "ensurePostingLine params (ps_LineKey p) st = (st1, i)" by fastforce
  from ensurePostingLine_cases [OF this] obtain ls where st1: "st1 = st\<lparr> st_lines := st_lines st @ ls \<rparr>"
    and lf: "lineFor params (st_lines st @ ls) (ps_LineKey p) = Some i"
    and dl: "distinct (map pl_id (st_lines st)) \<Longrightarrow> distinct (map pl_id (st_lines st @ ls))" by blast
  let ?before = "placed @ map (Pair d) written"
  define n where "n = (case iv_PostingSeqOverrides params i of Some overridden \<Rightarrow> overridden
     | None \<Rightarrow> allocateOrInheritAccountDaySeq st1 ?before (iv_BookID params) (iv_SupersedesVersionID params) i (ps_AccountID p) d)"
  define row where "row = postingRow params (nextAbove (map (\<lambda>cur. pr_ID (snd cur)) (storedPostings st1 @ ?before))) v e i (int (length written) + 1) n p"
  from Cons.prems obtain st2 where st2: "(if iv_ReplaceTags params then replacePostingTags params i (ps_TagIDs p) st1 else Inr st1) = Inr st2"
    and rest: "insertPostings params v e d placed (written @ [row]) ps st2 = Inr (st', rows)" and scale: "storedScale (ps_QuantityScale p)"
    by (auto simp: line Let_def result_simps row_def n_def)
  have "\<exists>P. st2 = st1\<lparr> st_posting_tags := P \<rparr>"
    using st2 replacePostingTags_Inr by (auto split: if_splits intro: exI [of _ "st_posting_tags st1"])
  then obtain P where P: "st2 = st1\<lparr> st_posting_tags := P \<rparr>" ..
  from Cons.IH [OF rest] obtain ls' P' rs where ih: "st' = st2\<lparr> st_lines := st_lines st2 @ ls', st_posting_tags := P' \<rparr>"
    "rows = (written @ [row]) @ rs" "distinct (map pl_id (st_lines st2)) \<longrightarrow> distinct (map pl_id (st_lines st'))"
    "distinct (postingIDsOf (storedPostings st2 @ placed @ map (Pair d) (written @ [row]))) \<longrightarrow> distinct (postingIDsOf (storedPostings st2 @ placed @ map (Pair d) rows))"
    "rowsPlaced params st2 (st_lines st') (placed @ map (Pair d) (written @ [row])) (map (Pair d) ps) (map (Pair d) rs)" by blast
  have lines: "st_lines st' = (st_lines st @ ls) @ ls'" using ih(1) P st1 by simp
  have r: "pr_PostingLineID row = i" "pr_AccountID row = ps_AccountID p" "pr_AccountDaySequence row = n"
    by (simp_all add: row_def postingRow_def)
  have same: "st_versions st1 = st_versions st" by (simp add: st1)
  have same2: "st_versions st2 = st_versions st" by (simp add: P st1)
  have "rowOf params (d, p) (d, row)" by (simp add: rowOf_def row_def postingRow_def scale)
  moreover have "lineFor params (st_lines st') (ps_LineKey p) = Some (pr_PostingLineID row)"
    unfolding lines by (rule lineFor_append) (simp add: lf row_def postingRow_def)
  moreover have "seqFor params st ?before (d, row)" unfolding seqFor_def fst_conv snd_conv r n_def allocate_versions [OF same] ..
  moreover have "rowsPlaced params st (st_lines st') (?before @ [(d, row)]) (map (Pair d) ps) (map (Pair d) rs)"
    using ih(5) unfolding rowsPlaced_versions [OF same2] by simp
  ultimately have "rowsPlaced params st (st_lines st') ?before (map (Pair d) (p # ps)) (map (Pair d) (row # rs))" by simp
  moreover have "distinct (map pl_id (st_lines st)) \<longrightarrow> distinct (map pl_id (st_lines st'))" using dl ih(3) P st1 by simp
  moreover have "distinct (postingIDsOf (storedPostings st @ placed @ map (Pair d) written)) \<longrightarrow> distinct (postingIDsOf (storedPostings st @ placed @ map (Pair d) rows))"
  proof
    assume "distinct (postingIDsOf (storedPostings st @ placed @ map (Pair d) written))"
    moreover have "pr_ID row = nextAbove (postingIDsOf (storedPostings st @ placed @ map (Pair d) written))"
      by (simp add: row_def postingRow_def storedPostings_def same)
    then have "pr_ID row \<notin> set (postingIDsOf (storedPostings st @ placed @ map (Pair d) written))" by (metis nextAbove_fresh)
    ultimately have "distinct (postingIDsOf (storedPostings st @ placed @ map (Pair d) (written @ [row])))" by auto
    then show "distinct (postingIDsOf (storedPostings st @ placed @ map (Pair d) rows))" using ih(4) by (simp add: storedPostings_def same2)
  qed
  ultimately show ?case using ih(1,2) P st1
    by (intro exI [of _ "ls @ ls'"] exI [of _ P'] exI [of _ "row # rs"]) simp
qed

lemma recordPostings_append [simp]: "recordPostings (es @ es') = recordPostings es @ recordPostings es'"
  by (simp add: recordPostings_def)

lemma recordPostings_single [simp]: "recordPostings [e] = map (Pair (er_EntryDate e)) (er_Postings e)"
  by (simp add: recordPostings_def)

lemma insertEntries_Inr:
  assumes "insertEntries params v written es st = Inr (st', rows)"
  shows "\<exists>ls P rs. st' = st\<lparr> st_lines := st_lines st @ ls, st_posting_tags := P \<rparr> \<and> rows = written @ rs \<and>
    (distinct (map pl_id (st_lines st)) \<longrightarrow> distinct (map pl_id (st_lines st'))) \<and>
    (distinct (postingIDsOf (storedPostings st @ recordPostings written)) \<longrightarrow> distinct (postingIDsOf (storedPostings st @ recordPostings rows))) \<and>
    rowsPlaced params st (st_lines st') (recordPostings written) (specPostings es) (recordPostings rs)"
  using assms
proof (induction es arbitrary: written st)
  case Nil
  then show ?case
    by (intro exI [of _ "[]"] exI [of _ "st_posting_tags st"]) (simp add: specPostings_def recordPostings_def)
next
  case (Cons e es)
  let ?d = "es_EntryDate e"
  from Cons.prems obtain i k st1 ps where p: "insertPostings params v i ?d (recordPostings written) [] (es_Postings e) st = Inr (st1, ps)"
    and rest0: "insertEntries params v (written @ [entryRowOf params i v k e ps]) es st1 = Inr (st', rows)"
    by (auto simp: Let_def result_simps)
  define row where "row = entryRowOf params i v k e ps"
  have row: "er_EntryDate row = ?d" "er_Postings row = ps" by (simp_all add: row_def entryRowOf_def)
  note rest = rest0 [folded row_def]
  from insertPostings_Inr [OF p] obtain ls P where st1: "st1 = st\<lparr> st_lines := st_lines st @ ls, st_posting_tags := P \<rparr>"
    and dl: "distinct (map pl_id (st_lines st)) \<longrightarrow> distinct (map pl_id (st_lines st1))"
    and di: "distinct (postingIDsOf (storedPostings st @ recordPostings written)) \<longrightarrow> distinct (postingIDsOf (storedPostings st @ recordPostings written @ map (Pair ?d) ps))"
    and first: "rowsPlaced params st (st_lines st1) (recordPostings written) (map (Pair ?d) (es_Postings e)) (map (Pair ?d) ps)"
    by (auto simp del: map_append distinct_append)
  from Cons.IH [OF rest] obtain ls' P' rs where ih: "st' = st1\<lparr> st_lines := st_lines st1 @ ls', st_posting_tags := P' \<rparr>"
    "rows = (written @ [row]) @ rs" "distinct (map pl_id (st_lines st1)) \<longrightarrow> distinct (map pl_id (st_lines st'))"
    "distinct (postingIDsOf (storedPostings st1 @ recordPostings (written @ [row]))) \<longrightarrow> distinct (postingIDsOf (storedPostings st1 @ recordPostings rows))"
    "rowsPlaced params st1 (st_lines st') (recordPostings (written @ [row])) (specPostings es) (recordPostings rs)"
    by blast
  have lines: "st_lines st' = st_lines st1 @ ls'" using ih(1) by simp
  have "rowsPlaced params st (st_lines st') (recordPostings written) (map (Pair ?d) (es_Postings e) @ specPostings es)
      (map (Pair ?d) ps @ recordPostings rs)"
  proof (rule rowsPlaced_append)
    show "rowsPlaced params st (st_lines st') (recordPostings written) (map (Pair ?d) (es_Postings e)) (map (Pair ?d) ps)"
      unfolding lines by (rule rowsPlaced_lines [OF first])
    have "st_versions st1 = st_versions st" by (simp add: st1)
    from ih(5) [unfolded rowsPlaced_versions [OF this]]
    show "rowsPlaced params st (st_lines st') (recordPostings written @ map (Pair ?d) ps) (specPostings es) (recordPostings rs)"
      by (simp add: row)
  qed
  then have "rowsPlaced params st (st_lines st') (recordPostings written) (specPostings (e # es)) (recordPostings (row # rs))"
    by (simp add: specPostings_def recordPostings_def row)
  moreover have "distinct (postingIDsOf (storedPostings st @ recordPostings written)) \<longrightarrow> distinct (postingIDsOf (storedPostings st @ recordPostings rows))"
    using di ih(4) st1 row by (simp add: storedPostings_def)
  ultimately show ?case using ih(1,2,3) dl st1 by (intro exI [of _ "ls @ ls'"] exI [of _ P'] exI [of _ "row # rs"]) simp
qed

text \<open>
  What writing a version does to the store: the tables of transactions, checkpoints, audit events and deletions are as
  they were, posting lines are only added, and one version is appended whose postings are the specification's,
  each on its line and at its register position.
\<close>

definition versionAdded :: "insertTransactionVersionParams \<Rightarrow> store \<Rightarrow> store \<Rightarrow> JournalEntryRecord list \<Rightarrow> bool" where
  "versionAdded params st st' entries \<longleftrightarrow> (\<exists>ls P Q. st' = st\<lparr> st_versions := st_versions st @
       [versionRowOf params (nextAbove (map tv_id (st_versions st))) (transactionDaySeq params st) entries],
       st_lines := st_lines st @ ls, st_posting_tags := P, st_transaction_tags := Q \<rparr>) \<and>
     (distinct (map pl_id (st_lines st)) \<longrightarrow> distinct (map pl_id (st_lines st'))) \<and>
     (distinct (postingIDsOf (storedPostings st)) \<longrightarrow> distinct (postingIDsOf (storedPostings st'))) \<and>
     rowsPlaced params st (st_lines st') [] (specPostings (ts_JournalEntries (iv_Spec params))) (recordPostings entries)"

lemma replaceTransactionTags_Inr: "replaceTransactionTags params st = Inr st' \<Longrightarrow> \<exists>Q. st' = st\<lparr> st_transaction_tags := Q \<rparr>"
  by (auto simp: replaceTransactionTags_def result_simps)

lemma insertTransactionVersion_Inr:
  assumes "insertTransactionVersion params st = Inr (st', record)"
  obtains entries where "versionAdded params st st' entries"
    "bindR (transactionVersionByID st' (nextAbove (map tv_id (st_versions st)))) (\<lambda>r. Inr (loadTransactionChildren st' r)) = Inr record"
proof -
  let ?v = "nextAbove (map tv_id (st_versions st))"
  from assms obtain st1 st2 entries where
    st1: "(if iv_ReplaceTags params then replaceTransactionTags params st else Inr st) = Inr st1"
    and st2: "insertEntries params ?v [] (ts_JournalEntries (iv_Spec params)) st1 = Inr (st2, entries)"
    and st': "st' = (let st3 = st2\<lparr> st_versions := st_versions st2 @ [versionRowOf params ?v (transactionDaySeq params st) entries] \<rparr> in
      if iv_ReplaceTags params then clearUnusedPostingLineTags params (map (\<lambda>cur. pr_PostingLineID (snd cur)) (recordPostings entries)) st3 else st3)"
    and rec: "bindR (transactionVersionByID st' ?v) (\<lambda>r. Inr (loadTransactionChildren st' r)) = Inr record"
    by (auto simp: insertTransactionVersion_def Let_def result_simps)
  have "\<exists>Q. st1 = st\<lparr> st_transaction_tags := Q \<rparr>"
    using st1 replaceTransactionTags_Inr by (auto split: if_splits intro: exI [of _ "st_transaction_tags st"])
  then obtain Q where Q: "st1 = st\<lparr> st_transaction_tags := Q \<rparr>" ..
  from insertEntries_Inr [OF st2] obtain ls P where ls: "st2 = st1\<lparr> st_lines := st_lines st1 @ ls, st_posting_tags := P \<rparr>"
    and dl: "distinct (map pl_id (st_lines st1)) \<longrightarrow> distinct (map pl_id (st_lines st2))"
    and di: "distinct (postingIDsOf (storedPostings st1)) \<longrightarrow> distinct (postingIDsOf (storedPostings st1 @ recordPostings entries))"
    and rows: "rowsPlaced params st1 (st_lines st2) [] (specPostings (ts_JournalEntries (iv_Spec params))) (recordPostings entries)"
    by (auto simp: recordPostings_def)
  let ?row = "versionRowOf params ?v (transactionDaySeq params st) entries"
  have "\<exists>P'. st' = st\<lparr> st_versions := st_versions st @ [?row], st_lines := st_lines st @ ls, st_posting_tags := P', st_transaction_tags := Q \<rparr>"
    by (rule exI [of _ "st_posting_tags st'"], rule store.equality) (simp_all add: st' ls Q Let_def clearUnusedPostingLineTags_def)
  moreover have "st_lines st' = st_lines st2" unfolding st' by (simp add: Let_def clearUnusedPostingLineTags_def)
  moreover have "distinct (postingIDsOf (storedPostings st)) \<longrightarrow> distinct (postingIDsOf (storedPostings st'))"
    using di by (simp add: storedPostings_def st' ls Q Let_def clearUnusedPostingLineTags_def versionRowOf_def)
  moreover have "st_versions st1 = st_versions st" by (simp add: Q)
  note rows [unfolded rowsPlaced_versions [OF this]]
  ultimately have "versionAdded params st st' entries" unfolding versionAdded_def using dl by (auto simp: Q)
  then show ?thesis using rec by (rule that)
qed

end
