(* ===== verification/Writes.thy ===== *)
theory Writes
  imports Store
begin

text \<open>
  The writes of the transaction repository: create, update, void, unvoid, soft delete and restore, approve and hard delete
  (\<^verbatim>\<open>db/transactions_write.go\<close>) and the reorderings of \<^verbatim>\<open>db/transactions_move.go\<close>. Each reads its transaction inside the write,
  holds what was prepared against it, appends a version or sets a flag, and lets the checkpoint guard decide; an error
  undoes all of it. A create that records an investment operation goes through the investment writer, which is an argument.
\<close>

section \<open>Definitions: parameters\<close>

record CreateTransactionParams =
  ct_BookID :: int
  ct_CorrectionOfTransactionID :: "int option"
  ct_ActorUserID :: int
  ct_AuthSessionID :: int
  ct_RequestID :: string
  ct_OriginType :: string
  ct_Operation :: string
  ct_Spec :: TransactionSpec
  ct_CreatedAt :: string
  ct_ChangeReason :: string
  ct_AuditMetadataJSON :: string
  ct_CheckpointCandidates :: "PeriodScopedCheckpointRef list"
  ct_ReconciliationOverride :: bool
  ct_ReviewedCheckpointIDs :: "int list option"
  ct_InvalidateCheckpointReason :: string
  ct_AccountRuleDependencies :: "AccountRuleDependency list"

record UpdateTransactionParams =
  up_BookID :: int
  up_TransactionID :: int
  up_ActorUserID :: int
  up_AuthSessionID :: int
  up_RequestID :: string
  up_OriginType :: string
  up_Operation :: string
  up_Spec :: TransactionSpec
  up_RecordedAt :: string
  up_ChangeReason :: string
  up_CheckpointCandidates :: "PeriodScopedCheckpointRef list"
  up_ReconciliationOverride :: bool
  up_ReviewedCheckpointIDs :: "int list option"
  up_InvalidateCheckpointReason :: string
  up_ExpectedVersionID :: int
  up_AccountRuleDependencies :: "AccountRuleDependency list"

text \<open>\<^verbatim>\<open>VoidTransactionParams\<close>, also the parameters of unvoid, soft delete and restore.\<close>

record TransactionLifecycleParams =
  lp_BookID :: int
  lp_TransactionID :: int
  lp_ActorUserID :: int
  lp_AuthSessionID :: int
  lp_RequestID :: string
  lp_OriginType :: string
  lp_Operation :: string
  lp_RecordedAt :: string
  lp_ChangeReason :: string
  lp_CheckpointCandidates :: "PeriodScopedCheckpointRef list"
  lp_ReconciliationOverride :: bool
  lp_ReviewedCheckpointIDs :: "int list option"
  lp_InvalidateCheckpointReason :: string
  lp_ExpectedVersionID :: int

record ApproveTransactionParams =
  ax_BookID :: int
  ax_TransactionID :: int
  ax_ActorUserID :: int
  ax_AuthSessionID :: int
  ax_RequestID :: string
  ax_OriginType :: string
  ax_Operation :: string
  ax_RecordedAt :: string
  ax_ChangeReason :: string

record DeleteDraftTransactionParams =
  dd_BookID :: int
  dd_TransactionID :: int
  dd_ActorUserID :: int
  dd_AuthSessionID :: int
  dd_RequestID :: string
  dd_OriginType :: string
  dd_Operation :: string
  dd_ChangeReason :: string
  dd_OccurredAt :: string

section \<open>Definitions: the guard and the audit event of a write\<close>

definition enforceBoundary :: "bool \<Rightarrow> checkpointBoundaryParams \<Rightarrow> store \<Rightarrow> (write_error, store \<times> int list) result" where
  "enforceBoundary batch params st =
     bindR (mapErr CheckpointImpact (enforceCheckpointBoundaryTx batch params (st_checkpoints st))) (\<lambda>(table, ids).
       Inr (st\<lparr> st_checkpoints := table \<rparr>, ids))"

definition lifecycleAudit :: "TransactionLifecycleParams \<Rightarrow> AuditEventParams" where
  "lifecycleAudit params = \<lparr> ap_BookID = lp_BookID params, ap_ActorUserID = lp_ActorUserID params, ap_AuthSessionID = lp_AuthSessionID params,
     ap_OccurredAt = lp_RecordedAt params, ap_RequestID = lp_RequestID params, ap_OriginType = lp_OriginType params,
     ap_Operation = lp_Operation params, ap_Reason = lp_ChangeReason params, ap_MetadataJSON = [] \<rparr>"

definition lifecycleBoundary :: "TransactionLifecycleParams \<Rightarrow> int \<Rightarrow> checkpointBoundaryParams" where
  "lifecycleBoundary params auditEventID = \<lparr> bp_BookID = lp_BookID params, bp_Candidates = lp_CheckpointCandidates params,
     bp_ReconciliationOverride = lp_ReconciliationOverride params, bp_ReviewedCheckpointIDs = lp_ReviewedCheckpointIDs params,
     bp_ActorUserID = lp_ActorUserID params, bp_AuditEventID = auditEventID, bp_OccurredAt = lp_RecordedAt params,
     bp_Reason = lp_InvalidateCheckpointReason params \<rparr>"

text \<open>The next version of a transaction, by a lifecycle write.\<close>

definition lifecycleVersion :: "TransactionLifecycleParams \<Rightarrow> TransactionRecord \<Rightarrow> TransactionSpec \<Rightarrow> int \<Rightarrow> int \<Rightarrow> insertTransactionVersionParams" where
  "lifecycleVersion params current spec daySequence auditEventID = \<lparr> iv_BookID = lp_BookID params, iv_TransactionID = lp_TransactionID params,
     iv_VersionSeq = rc_VersionSeq current + 1, iv_SupersedesVersionID = Some (rc_VersionID current), iv_Spec = spec,
     iv_ReplaceTags = False, iv_RecordedAt = lp_RecordedAt params, iv_ChangedByUserID = lp_ActorUserID params,
     iv_ChangeReason = lp_ChangeReason params, iv_ChangeAuditEventID = auditEventID, iv_RequestID = lp_RequestID params,
     iv_TransactionDaySequence = daySequence, iv_PostingSeqOverrides = Map.empty \<rparr>"

section \<open>Definitions: create\<close>

definition createAudit :: "CreateTransactionParams \<Rightarrow> AuditEventParams" where
  "createAudit params = \<lparr> ap_BookID = ct_BookID params, ap_ActorUserID = ct_ActorUserID params, ap_AuthSessionID = ct_AuthSessionID params,
     ap_OccurredAt = ct_CreatedAt params, ap_RequestID = ct_RequestID params, ap_OriginType = ct_OriginType params,
     ap_Operation = ct_Operation params, ap_Reason = ct_ChangeReason params, ap_MetadataJSON = ct_AuditMetadataJSON params \<rparr>"

definition createRow :: "CreateTransactionParams \<Rightarrow> int \<Rightarrow> int \<Rightarrow> transactionRow" where
  "createRow params transactionID auditEventID = \<lparr> tr_id = transactionID, tr_book_id = ct_BookID params,
     tr_correction_of = ct_CorrectionOfTransactionID params, tr_created_at = ct_CreatedAt params, tr_created_by = ct_ActorUserID params,
     tr_created_request = nullIfBlank (ct_RequestID params), tr_created_audit = auditEventID, tr_deleted_at = None,
     tr_deleted_by = None, tr_deleted_audit = None, tr_delete_reason = None \<rparr>"

definition createVersion :: "CreateTransactionParams \<Rightarrow> int \<Rightarrow> int \<Rightarrow> insertTransactionVersionParams" where
  "createVersion params transactionID auditEventID = \<lparr> iv_BookID = ct_BookID params, iv_TransactionID = transactionID, iv_VersionSeq = 1,
     iv_SupersedesVersionID = None, iv_Spec = ct_Spec params, iv_ReplaceTags = True, iv_RecordedAt = ct_CreatedAt params,
     iv_ChangedByUserID = ct_ActorUserID params, iv_ChangeReason = ct_ChangeReason params, iv_ChangeAuditEventID = auditEventID,
     iv_RequestID = ct_RequestID params, iv_TransactionDaySequence = 0, iv_PostingSeqOverrides = Map.empty \<rparr>"

definition insertTransactionWithAuditEventTx ::
  "CreateTransactionParams \<Rightarrow> int \<Rightarrow> store \<Rightarrow> (write_error, store \<times> TransactionRecord) result" where
  "insertTransactionWithAuditEventTx params auditEventID st = (
     let transactionID = nextAbove (map tr_id (st_transactions st)) in
     bindR (ensure (length (filter (\<lambda>e. au_id e = auditEventID \<and> au_book_id e = Some (ct_BookID params)) (st_audit st)) = 1) ErrNotFound) (\<lambda>_.
     insertTransactionVersion (createVersion params transactionID auditEventID)
       (st\<lparr> st_transactions := st_transactions st @ [createRow params transactionID auditEventID] \<rparr>)))"

definition createTransactionWithAuditTx ::
  "CreateTransactionParams \<Rightarrow> store \<Rightarrow> (write_error, store \<times> TransactionRecord \<times> int) result" where
  "createTransactionWithAuditTx params st =
     bindR (readBookForUpdate st (ct_BookID params)) (\<lambda>_.
     bindR (requireAccountRuleDependenciesTx st (ct_Spec params) (ct_AccountRuleDependencies params)) (\<lambda>_.
     bindR (insertAuditEvent (createAudit params) st) (\<lambda>(st1, auditEventID).
     bindR (insertTransactionWithAuditEventTx params auditEventID st1) (\<lambda>(st2, record). Inr (st2, record, auditEventID)))))"

definition createBoundary :: "CreateTransactionParams \<Rightarrow> int \<Rightarrow> checkpointBoundaryParams" where
  "createBoundary params auditEventID = \<lparr> bp_BookID = ct_BookID params, bp_Candidates = ct_CheckpointCandidates params,
     bp_ReconciliationOverride = ct_ReconciliationOverride params, bp_ReviewedCheckpointIDs = ct_ReviewedCheckpointIDs params,
     bp_ActorUserID = ct_ActorUserID params, bp_AuditEventID = auditEventID, bp_OccurredAt = ct_CreatedAt params,
     bp_Reason = ct_InvalidateCheckpointReason params \<rparr>"

definition createTransactionTx :: "bool \<Rightarrow> CreateTransactionParams \<Rightarrow> store \<Rightarrow> (write_error, store \<times> TransactionRecord) result" where
  "createTransactionTx batch params st =
     bindR (createTransactionWithAuditTx params st) (\<lambda>(st1, record, auditEventID).
     bindR (enforceBoundary batch (createBoundary params auditEventID) st1) (\<lambda>(st2, ids).
       Inr (st2, record\<lparr> rc_InvalidatedCheckpointIDs := ids \<rparr>)))"

text \<open>\<open>postWrite\<close> is the caller's own write inside the transaction, given the new transaction's id.\<close>

definition repo_CreateTransaction ::
  "(CreateTransactionParams \<Rightarrow> store \<Rightarrow> (write_error, store \<times> TransactionRecord) result) \<Rightarrow> (int \<Rightarrow> store \<Rightarrow> (write_error, store) result) option
    \<Rightarrow> bool \<Rightarrow> CreateTransactionParams \<Rightarrow> store \<Rightarrow> (write_error, store \<times> TransactionRecord) result" where
  "repo_CreateTransaction investmentWrite postWrite batch params st = (
     if ts_InvestmentOperationKind (ct_Spec params) \<noteq> [] then investmentWrite params st
     else bindR (createTransactionTx batch params st) (\<lambda>(st1, record).
       case postWrite of None \<Rightarrow> Inr (st1, record)
       | Some write \<Rightarrow> bindR (write (rc_ID record) st1) (\<lambda>st2. Inr (st2, record))))"

section \<open>Definitions: update\<close>

definition updateAudit :: "UpdateTransactionParams \<Rightarrow> AuditEventParams" where
  "updateAudit params = \<lparr> ap_BookID = up_BookID params, ap_ActorUserID = up_ActorUserID params, ap_AuthSessionID = up_AuthSessionID params,
     ap_OccurredAt = up_RecordedAt params, ap_RequestID = up_RequestID params, ap_OriginType = up_OriginType params,
     ap_Operation = up_Operation params, ap_Reason = up_ChangeReason params, ap_MetadataJSON = [] \<rparr>"

definition updateVersion :: "UpdateTransactionParams \<Rightarrow> TransactionRecord \<Rightarrow> int \<Rightarrow> insertTransactionVersionParams" where
  "updateVersion params current auditEventID = \<lparr> iv_BookID = up_BookID params, iv_TransactionID = up_TransactionID params,
     iv_VersionSeq = rc_VersionSeq current + 1, iv_SupersedesVersionID = Some (rc_VersionID current), iv_Spec = up_Spec params,
     iv_ReplaceTags = True, iv_RecordedAt = up_RecordedAt params, iv_ChangedByUserID = up_ActorUserID params,
     iv_ChangeReason = up_ChangeReason params, iv_ChangeAuditEventID = auditEventID, iv_RequestID = up_RequestID params,
     iv_TransactionDaySequence = (if ts_TransactionDate (up_Spec params) = rc_TransactionDate current then rc_TransactionDaySequence current else 0),
     iv_PostingSeqOverrides = Map.empty \<rparr>"

definition updateBoundary :: "UpdateTransactionParams \<Rightarrow> int \<Rightarrow> checkpointBoundaryParams" where
  "updateBoundary params auditEventID = \<lparr> bp_BookID = up_BookID params, bp_Candidates = up_CheckpointCandidates params,
     bp_ReconciliationOverride = up_ReconciliationOverride params, bp_ReviewedCheckpointIDs = up_ReviewedCheckpointIDs params,
     bp_ActorUserID = up_ActorUserID params, bp_AuditEventID = auditEventID, bp_OccurredAt = up_RecordedAt params,
     bp_Reason = up_InvalidateCheckpointReason params \<rparr>"

definition repo_UpdateTransaction :: "bool \<Rightarrow> UpdateTransactionParams \<Rightarrow> store \<Rightarrow> (write_error, store \<times> TransactionRecord) result" where
  "repo_UpdateTransaction batch params st =
     bindR (readBookForUpdate st (up_BookID params)) (\<lambda>_.
     bindR (transactionByID st (up_BookID params) (up_TransactionID params)) (\<lambda>current.
     bindR (requireExpectedVersionTx (up_ExpectedVersionID params) current) (\<lambda>_.
     bindR (requireAccountRuleDependenciesTx st (up_Spec params) (up_AccountRuleDependencies params)) (\<lambda>_.
     bindR (ensure (rc_Status current \<noteq> ''voided'') ErrTransactionVoided) (\<lambda>_.
     bindR (ensure (rc_DeletedAt current = None) ErrTransactionDeleted) (\<lambda>_.
     bindR (insertAuditEvent (updateAudit params) st) (\<lambda>(st1, auditEventID).
     bindR (insertTransactionVersion (updateVersion params current auditEventID) st1) (\<lambda>(st2, record).
     bindR (enforceBoundary batch (updateBoundary params auditEventID) st2) (\<lambda>(st3, ids).
       Inr (st3, record\<lparr> rc_InvalidatedCheckpointIDs := ids \<rparr>))))))))))"

section \<open>Definitions: void, unvoid, soft delete and restore\<close>

definition repo_VoidTransaction :: "bool \<Rightarrow> TransactionLifecycleParams \<Rightarrow> store \<Rightarrow> (write_error, store \<times> TransactionRecord) result" where
  "repo_VoidTransaction batch params st =
     bindR (readBookForUpdate st (lp_BookID params)) (\<lambda>_.
     bindR (transactionByID st (lp_BookID params) (lp_TransactionID params)) (\<lambda>current.
     bindR (requireExpectedVersionTx (lp_ExpectedVersionID params) current) (\<lambda>_.
     if rc_Status current = ''voided'' then Inr (st, loadTransactionChildren st current)
     else
     bindR (ensure (rc_DeletedAt current = None) ErrTransactionDeleted) (\<lambda>_.
     let loaded = loadTransactionChildren st current in
     bindR (insertAuditEvent (lifecycleAudit params) st) (\<lambda>(st1, auditEventID).
     let spec = (transactionSpecFromRecord loaded)\<lparr> ts_Status := ''voided'' \<rparr> in
     bindR (insertTransactionVersion (lifecycleVersion params loaded spec (rc_TransactionDaySequence loaded) auditEventID) st1) (\<lambda>(st2, record).
     bindR (enforceBoundary batch (lifecycleBoundary params auditEventID) st2) (\<lambda>(st3, ids).
       Inr (st3, record\<lparr> rc_InvalidatedCheckpointIDs := ids \<rparr>))))))))"

text \<open>The latest version that is not voided: what an unvoid brings back.\<close>

definition priorVersion :: "store \<Rightarrow> int \<Rightarrow> versionRow option" where
  "priorVersion st transactionID = lastBy versionOrder (filter (\<lambda>v. tv_status v \<noteq> ''voided'') (versionsOf st transactionID))"

definition repo_UnvoidTransaction :: "bool \<Rightarrow> TransactionLifecycleParams \<Rightarrow> store \<Rightarrow> (write_error, store \<times> TransactionRecord) result" where
  "repo_UnvoidTransaction batch params st =
     bindR (readBookForUpdate st (lp_BookID params)) (\<lambda>_.
     bindR (transactionByID st (lp_BookID params) (lp_TransactionID params)) (\<lambda>current.
     bindR (requireExpectedVersionTx (lp_ExpectedVersionID params) current) (\<lambda>_.
     bindR (ensure (rc_DeletedAt current = None) ErrTransactionDeleted) (\<lambda>_.
     if rc_Status current \<noteq> ''voided'' then Inr (st, loadTransactionChildren st current)
     else
     bindR (case priorVersion st (lp_TransactionID params) of None \<Rightarrow> Inl ErrNotFound | Some v \<Rightarrow> transactionVersionByID st (tv_id v)) (\<lambda>found.
     let prior = loadTransactionChildren st found in
     bindR (insertAuditEvent (lifecycleAudit params) st) (\<lambda>(st1, auditEventID).
     bindR (insertTransactionVersion (lifecycleVersion params current (transactionSpecFromRecord prior) (rc_TransactionDaySequence prior) auditEventID) st1)
       (\<lambda>(st2, record).
     bindR (enforceBoundary batch (lifecycleBoundary params auditEventID) st2) (\<lambda>(st3, ids).
       Inr (st3, record\<lparr> rc_InvalidatedCheckpointIDs := ids \<rparr>)))))))))"

definition setDeletedFlag :: "TransactionLifecycleParams \<Rightarrow> bool \<Rightarrow> int \<Rightarrow> transactionRow \<Rightarrow> transactionRow" where
  "setDeletedFlag params deleted auditEventID t = (
     if tr_book_id t = lp_BookID params \<and> tr_id t = lp_TransactionID params then
       if deleted then t\<lparr> tr_deleted_at := Some (lp_RecordedAt params), tr_deleted_by := Some (lp_ActorUserID params),
         tr_deleted_audit := Some auditEventID, tr_delete_reason := Some (lp_ChangeReason params) \<rparr>
       else t\<lparr> tr_deleted_at := None \<rparr>
     else t)"

definition repo_SetTransactionDeleted ::
  "bool \<Rightarrow> TransactionLifecycleParams \<Rightarrow> bool \<Rightarrow> store \<Rightarrow> (write_error, store \<times> TransactionRecord) result" where
  "repo_SetTransactionDeleted batch params deleted st =
     bindR (readBookForUpdate st (lp_BookID params)) (\<lambda>_.
     bindR (transactionByID st (lp_BookID params) (lp_TransactionID params)) (\<lambda>current.
     bindR (requireExpectedVersionTx (lp_ExpectedVersionID params) current) (\<lambda>_.
     if (rc_DeletedAt current \<noteq> None) = deleted then Inr (st, loadTransactionChildren st current)
     else
     bindR (ensure (\<not> (deleted \<and> rc_Status current = ''draft'')) ErrTransactionHasPostedVersions) (\<lambda>_.
     bindR (insertAuditEvent (lifecycleAudit params) st) (\<lambda>(st1, auditEventID).
     let st2 = st1\<lparr> st_transactions := map (setDeletedFlag params deleted auditEventID) (st_transactions st1),
           st_deletions := st_deletions st1 @ [\<lparr> de_book_id = lp_BookID params, de_transaction_id = lp_TransactionID params,
             de_action = (if deleted then ''soft_delete'' else ''restore''), de_occurred_at = lp_RecordedAt params,
             de_actor = lp_ActorUserID params, de_audit = auditEventID, de_reason = lp_ChangeReason params \<rparr>] \<rparr> in
     bindR (enforceBoundary batch (lifecycleBoundary params auditEventID) st2) (\<lambda>(st3, ids).
     bindR (transactionByID st3 (lp_BookID params) (lp_TransactionID params)) (\<lambda>record.
       Inr (st3, (loadTransactionChildren st3 record)\<lparr> rc_InvalidatedCheckpointIDs := ids \<rparr>))))))))"

section \<open>Definitions: approve and hard delete\<close>

definition approveAudit :: "ApproveTransactionParams \<Rightarrow> AuditEventParams" where
  "approveAudit params = \<lparr> ap_BookID = ax_BookID params, ap_ActorUserID = ax_ActorUserID params, ap_AuthSessionID = ax_AuthSessionID params,
     ap_OccurredAt = ax_RecordedAt params, ap_RequestID = ax_RequestID params, ap_OriginType = ax_OriginType params,
     ap_Operation = ax_Operation params, ap_Reason = ax_ChangeReason params, ap_MetadataJSON = [] \<rparr>"

definition approveVersion :: "ApproveTransactionParams \<Rightarrow> TransactionRecord \<Rightarrow> int \<Rightarrow> insertTransactionVersionParams" where
  "approveVersion params current auditEventID = \<lparr> iv_BookID = ax_BookID params, iv_TransactionID = ax_TransactionID params,
     iv_VersionSeq = rc_VersionSeq current + 1, iv_SupersedesVersionID = Some (rc_VersionID current),
     iv_Spec = (transactionSpecFromRecord current)\<lparr> ts_NeedsReview := False \<rparr>, iv_ReplaceTags = False,
     iv_RecordedAt = ax_RecordedAt params, iv_ChangedByUserID = ax_ActorUserID params, iv_ChangeReason = ax_ChangeReason params,
     iv_ChangeAuditEventID = auditEventID, iv_RequestID = ax_RequestID params,
     iv_TransactionDaySequence = rc_TransactionDaySequence current, iv_PostingSeqOverrides = Map.empty \<rparr>"

definition repo_ApproveTransaction :: "ApproveTransactionParams \<Rightarrow> store \<Rightarrow> (write_error, store \<times> TransactionRecord) result" where
  "repo_ApproveTransaction params st =
     bindR (readBookForUpdate st (ax_BookID params)) (\<lambda>_.
     bindR (transactionByID st (ax_BookID params) (ax_TransactionID params)) (\<lambda>header.
     bindR (ensure (rc_Status header \<noteq> ''voided'') ErrTransactionVoided) (\<lambda>_.
     bindR (ensure (rc_DeletedAt header = None) ErrTransactionDeleted) (\<lambda>_.
     let current = loadTransactionChildren st header in
     if \<not> rc_NeedsReview current then Inr (st, current)
     else
     bindR (insertAuditEvent (approveAudit params) st) (\<lambda>(st1, auditEventID).
     insertTransactionVersion (approveVersion params current auditEventID) st1)))))"

definition skipOccurrence :: "DeleteDraftTransactionParams \<Rightarrow> int \<Rightarrow> occurrenceRow \<Rightarrow> occurrenceRow" where
  "skipOccurrence params auditID o' = (
     if oc_book_id o' = dd_BookID params \<and> oc_transaction_id o' = Some (dd_TransactionID params) \<and> oc_status o' = ''generated''
     then o'\<lparr> oc_status := ''skipped'', oc_transaction_id := None,
       oc_skip_reason := ''discarded generated draft: '' @ dd_ChangeReason params, oc_updated_at := dd_OccurredAt params, oc_last_audit := Some auditID \<rparr>
     else o')"

definition discardAudit :: "DeleteDraftTransactionParams \<Rightarrow> AuditEventParams" where
  "discardAudit params = \<lparr> ap_BookID = dd_BookID params, ap_ActorUserID = dd_ActorUserID params, ap_AuthSessionID = dd_AuthSessionID params,
     ap_OccurredAt = dd_OccurredAt params, ap_RequestID = dd_RequestID params, ap_OriginType = dd_OriginType params,
     ap_Operation = dd_Operation params, ap_Reason = dd_ChangeReason params,
     ap_MetadataJSON = ''{\"transaction_id\":'' @ intString (dd_TransactionID params) @ ''}'' \<rparr>"

definition repo_DeleteDraftTransaction :: "DeleteDraftTransactionParams \<Rightarrow> store \<Rightarrow> (write_error, store) result" where
  "repo_DeleteDraftTransaction params st =
     bindR (readBookForUpdate st (dd_BookID params)) (\<lambda>_.
     bindR (transactionByID st (dd_BookID params) (dd_TransactionID params)) (\<lambda>_.
     bindR (ensure (filter (\<lambda>v. tv_status v \<in> {''posted'', ''voided''}) (versionsOf st (dd_TransactionID params)) = []) ErrTransactionHasPostedVersions) (\<lambda>_.
     bindR (insertAuditEvent (discardAudit params) st) (\<lambda>(st1, auditID).
     let lines = map pl_id (filter (\<lambda>l. pl_transaction_id l = dd_TransactionID params) (st_lines st1)) in
     Inr (st1\<lparr> st_occurrences := map (skipOccurrence params auditID) (st_occurrences st1),
       st_posting_tags := filter (\<lambda>l. tl_owner_id l \<notin> set lines) (st_posting_tags st1),
       st_transaction_tags := filter (\<lambda>l. tl_owner_id l \<noteq> dd_TransactionID params) (st_transaction_tags st1),
       st_versions := filter (\<lambda>v. tv_transaction_id v \<noteq> dd_TransactionID params) (st_versions st1),
       st_lines := filter (\<lambda>l. pl_transaction_id l \<noteq> dd_TransactionID params) (st_lines st1),
       st_transactions := filter (\<lambda>t. \<not> (tr_book_id t = dd_BookID params \<and> tr_id t = dd_TransactionID params)) (st_transactions st1) \<rparr>)))))"

end
