(* ===== verification/Register.thy ===== *)
theory Register
  imports Writes
begin

text \<open>
  What the writes of the repository do to the account registers and to the balances that active checkpoints closed.
  The balance of a checkpoint is the sum of the posted postings of its account and commodity at or before its boundary;
  a posting's place in the register is its entry date and its sequence within the day. The invariant of the store
  (\<open>storeOk\<close>) states what the schema enforces and what the writes rely on: unique ids, postings on their own lines with positive
  sequences, and boundaries no later than the last posting of their day.
\<close>

section \<open>Balances and the invariant\<close>

definition postingVal :: "PostingRecord \<Rightarrow> rat" where
  "postingVal p = decVal (BigInt (pr_QuantityValue p)) (pr_QuantityScale p)"

definition inside :: "checkpointRow \<Rightarrow> string \<times> PostingRecord \<Rightarrow> bool" where
  "inside c cur \<longleftrightarrow> pr_AccountID (snd cur) = ck_account_id c \<and> pr_CommodityID (snd cur) = ck_commodity_id c \<and>
     (fst cur < ck_statement_date c \<or> fst cur = ck_statement_date c \<and> pr_AccountDaySequence (snd cur) \<le> ck_statement_account_sequence c)"

definition contribution :: "checkpointRow \<Rightarrow> versionRow \<Rightarrow> rat" where
  "contribution c v = (if tv_status v = ''posted''
     then (\<Sum>cur\<leftarrow>recordPostings (tv_entries v). if inside c cur then postingVal (snd cur) else 0) else 0)"

definition ledgerShare :: "store \<Rightarrow> checkpointRow \<Rightarrow> transactionRow \<Rightarrow> rat" where
  "ledgerShare st c t = (if tr_book_id t = ck_book_id c \<and> tr_deleted_at t = None
     then (case currentVersion st (tr_id t) of None \<Rightarrow> 0 | Some v \<Rightarrow> contribution c v) else 0)"

definition registerBalance :: "store \<Rightarrow> checkpointRow \<Rightarrow> rat" where
  "registerBalance st c = (\<Sum>t\<leftarrow>st_transactions st. ledgerShare st c t)"

definition postingKey' :: "string \<times> PostingRecord \<Rightarrow> string" where
  "postingKey' cur = pr_LineKey (snd cur)"

definition journalOk :: "lineRow list \<Rightarrow> versionRow \<Rightarrow> bool" where
  "journalOk lines v \<longleftrightarrow> distinct (map postingKey' (recordPostings (tv_entries v))) \<and>
     (\<forall>cur\<in>set (recordPostings (tv_entries v)). pr_BookID (snd cur) = tv_book_id v \<and> 0 < pr_AccountDaySequence (snd cur) \<and>
        storedScale (pr_QuantityScale (snd cur)) \<and>
        lineAt (tv_book_id v) (tv_transaction_id v) lines (pr_LineKey (snd cur)) = Some (pr_PostingLineID (snd cur)))"

text \<open>The boundary's day holds a posted posting at or after it, so the next position of the day lies beyond.\<close>

definition boundaryOk :: "store \<Rightarrow> checkpointRow \<Rightarrow> bool" where
  "boundaryOk st c \<longleftrightarrow> ck_statement_account_sequence c \<le> 0 \<or>
     (\<exists>v\<in>set (st_versions st). tv_status v = ''posted'' \<and> (\<exists>cur\<in>set (recordPostings (tv_entries v)).
        pr_BookID (snd cur) = ck_book_id c \<and> pr_AccountID (snd cur) = ck_account_id c \<and> fst cur = ck_statement_date c \<and>
        ck_statement_account_sequence c \<le> pr_AccountDaySequence (snd cur)))"

text \<open>What a posting is apart from its place in the register and its review state.\<close>

definition postingCore :: "string \<times> PostingRecord \<Rightarrow> string \<times> string \<times> int \<times> int \<times> Coefficient \<times> int" where
  "postingCore cur = (fst cur, pr_LineKey (snd cur), pr_AccountID (snd cur), pr_CommodityID (snd cur), pr_QuantityValue (snd cur), pr_QuantityScale (snd cur))"

definition sameJournalRows :: "versionRow \<Rightarrow> versionRow \<Rightarrow> bool" where
  "sameJournalRows u v \<longleftrightarrow> map postingCore (recordPostings (tv_entries u)) = map postingCore (recordPostings (tv_entries v))"

definition voidOk :: "store \<Rightarrow> int \<Rightarrow> bool" where
  "voidOk st transactionID \<longleftrightarrow> (case (currentVersion st transactionID, priorVersion st transactionID) of
     (Some v, Some u) \<Rightarrow> tv_status v = ''voided'' \<longrightarrow> sameJournalRows u v | _ \<Rightarrow> True)"

definition storeOk :: "store \<Rightarrow> bool" where
  "storeOk st \<longleftrightarrow> distinct (map tr_id (st_transactions st)) \<and> distinct (map tv_id (st_versions st)) \<and>
     (\<forall>v\<in>set (st_versions st). 0 < tv_id v \<and> tv_status v \<in> set transactionStatuses \<and> journalOk (st_lines st) v \<and>
        (\<exists>t\<in>set (st_transactions st). tr_id t = tv_transaction_id v \<and> tr_book_id t = tv_book_id v)) \<and>
     distinct (map pl_id (st_lines st)) \<and>
     (\<forall>t\<in>set (st_transactions st). voidOk st (tr_id t)) \<and>
     tableOk (st_checkpoints st) \<and> (\<forall>c\<in>set (st_checkpoints st). boundaryOk st c) \<and>
     distinct (postingIDsOf (storedPostings st))"

lemma storeOk_parts:
  assumes "storeOk st"
  shows "distinct (map tr_id (st_transactions st))" "distinct (map tv_id (st_versions st))"
    "v \<in> set (st_versions st) \<Longrightarrow> 0 < tv_id v" "v \<in> set (st_versions st) \<Longrightarrow> journalOk (st_lines st) v"
    "distinct (map pl_id (st_lines st))" "t \<in> set (st_transactions st) \<Longrightarrow> voidOk st (tr_id t)"
    "tableOk (st_checkpoints st)" "c \<in> set (st_checkpoints st) \<Longrightarrow> boundaryOk st c"
    "v \<in> set (st_versions st) \<Longrightarrow> \<exists>t\<in>set (st_transactions st). tr_id t = tv_transaction_id v \<and> tr_book_id t = tv_book_id v"
    "v \<in> set (st_versions st) \<Longrightarrow> tv_status v \<in> set transactionStatuses"
    "distinct (postingIDsOf (storedPostings st))"
  using assms unfolding storeOk_def by blast+

lemma reaches_inside:
  "ck_book_id c = b \<Longrightarrow> ck_status c = ''active'' \<Longrightarrow> reaches b (recordCandidate cur) c \<longleftrightarrow> inside c cur"
  by (auto simp: reaches_def recordCandidate_def inside_def)

section \<open>The rows a version receives\<close>

lemma storedPostings_in: "v \<in> set (st_versions st) \<Longrightarrow> cur \<in> set (recordPostings (tv_entries v)) \<Longrightarrow> cur \<in> set (storedPostings st)"
  by (auto simp: storedPostings_def)

definition freshFor :: "store \<Rightarrow> insertTransactionVersionParams \<Rightarrow> string \<times> PostingRecord \<Rightarrow> bool" where
  "freshFor st params cur \<longleftrightarrow> (\<forall>old\<in>set (storedPostings st). pr_BookID (snd old) = iv_BookID params \<and> pr_AccountID (snd old) = pr_AccountID (snd cur) \<and>
     fst old = fst cur \<longrightarrow> pr_AccountDaySequence (snd old) < pr_AccountDaySequence (snd cur))"

definition placing :: "insertTransactionVersionParams \<Rightarrow> store \<Rightarrow> string \<times> PostingRecord \<Rightarrow> bool" where
  "placing params st cur \<longleftrightarrow> (case iv_PostingSeqOverrides params (pr_PostingLineID (snd cur)) of
       Some overridden \<Rightarrow> pr_AccountDaySequence (snd cur) = overridden
     | None \<Rightarrow> (case inheritedSeq st (iv_BookID params) (iv_SupersedesVersionID params) (pr_PostingLineID (snd cur)) (pr_AccountID (snd cur)) (fst cur) of
         Some inherited \<Rightarrow> pr_AccountDaySequence (snd cur) = inherited
       | None \<Rightarrow> freshFor st params cur))"

lemma seqFor_placing: "seqFor params st before cur \<Longrightarrow> placing params st cur"
  unfolding seqFor_def placing_def allocateOrInheritAccountDaySeq_def freshFor_def
  by (auto split: option.splits intro!: nextAccountDaySeq_gt)

lemma rowsPlaced_all2:
  "rowsPlaced params st lines before ns cs \<Longrightarrow> list_all2 (\<lambda>nxt cur. rowOf params nxt cur \<and>
     lineFor params lines (ps_LineKey (snd nxt)) = Some (pr_PostingLineID (snd cur)) \<and> placing params st cur) ns cs"
  by (induction params st lines before ns cs rule: rowsPlaced.induct) (auto intro: seqFor_placing)

lemma rowOf_fields:
  assumes "rowOf params nxt cur"
  shows "fst cur = fst nxt" "pr_BookID (snd cur) = iv_BookID params" "pr_LineKey (snd cur) = ps_LineKey (snd nxt)"
    "pr_AccountID (snd cur) = ps_AccountID (snd nxt)" "pr_CommodityID (snd cur) = ps_CommodityID (snd nxt)"
    "pr_QuantityValue (snd cur) = ps_QuantityValue (snd nxt)" "pr_QuantityScale (snd cur) = ps_QuantityScale (snd nxt)"
    "storedScale (pr_QuantityScale (snd cur))"
proof -
  have d: "fst cur = fst nxt" and r: "snd cur = postingRow params (pr_ID (snd cur)) (pr_TransactionVersionID (snd cur)) (pr_JournalEntryID (snd cur))
     (pr_PostingLineID (snd cur)) (pr_LineSeq (snd cur)) (pr_AccountDaySequence (snd cur)) (snd nxt)" using assms by (simp_all add: rowOf_def)
  have "pr_QuantityScale (snd cur) = ps_QuantityScale (snd nxt)" by (subst r, simp add: postingRow_def)
  then show "storedScale (pr_QuantityScale (snd cur))" using assms by (simp add: rowOf_def)
  show "fst cur = fst nxt" by (rule d)
  show "pr_BookID (snd cur) = iv_BookID params" "pr_LineKey (snd cur) = ps_LineKey (snd nxt)"
    "pr_AccountID (snd cur) = ps_AccountID (snd nxt)" "pr_CommodityID (snd cur) = ps_CommodityID (snd nxt)"
    "pr_QuantityValue (snd cur) = ps_QuantityValue (snd nxt)" "pr_QuantityScale (snd cur) = ps_QuantityScale (snd nxt)"
    by (subst r, simp add: postingRow_def)+
qed

text \<open>The superseded version of a write.\<close>

lemma inheritedSeq_from:
  assumes "storeOk st" and "v \<in> set (st_versions st)" and "prev = Some (tv_id v)"
  shows "inheritedSeq st b prev l a d = map_option (\<lambda>cur. pr_AccountDaySequence (snd cur))
    (find (\<lambda>cur. pr_BookID (snd cur) = b \<and> pr_PostingLineID (snd cur) = l \<and> pr_AccountID (snd cur) = a \<and> fst cur = d) (recordPostings (tv_entries v)))"
proof -
  have "filter (\<lambda>w. tv_id w = tv_id v) (st_versions st) = [v]"
    by (rule filter_distinct [OF storeOk_parts(2) [OF assms(1)] assms(2)])
  then show ?thesis using storeOk_parts(3) [OF assms(1,2)] assms(3) by (simp add: inheritedSeq_def)
qed

text \<open>
  A row on a line of the superseded version keeps its sequence while account and day are the same, and otherwise gets a
  fresh one; so does a row on a line that version did not have.
\<close>

lemma row_place:
  assumes ok: "storeOk st" and v: "v \<in> set (st_versions st)" and prev: "iv_SupersedesVersionID params = Some (tv_id v)"
    and ids: "iv_BookID params = tv_book_id v" "iv_TransactionID params = tv_transaction_id v" and no: "iv_PostingSeqOverrides params (pr_PostingLineID (snd cur)) = None"
    and lines: "distinct (map pl_id lines)" "\<forall>k i. lineFor params (st_lines st) k = Some i \<longrightarrow> lineFor params lines k = Some i"
    and row: "rowOf params nxt cur" "lineFor params lines (ps_LineKey (snd nxt)) = Some (pr_PostingLineID (snd cur))" "placing params st cur"
  shows "\<lbrakk>old \<in> set (recordPostings (tv_entries v)); pr_LineKey (snd old) = pr_LineKey (snd cur); pr_AccountID (snd old) = pr_AccountID (snd cur);
      fst old = fst cur\<rbrakk> \<Longrightarrow> pr_AccountDaySequence (snd cur) = pr_AccountDaySequence (snd old)"
    and "(\<And>old. old \<in> set (recordPostings (tv_entries v)) \<Longrightarrow> pr_LineKey (snd old) = pr_LineKey (snd cur) \<Longrightarrow>
      pr_AccountID (snd old) = pr_AccountID (snd cur) \<Longrightarrow> fst old = fst cur \<Longrightarrow> False) \<Longrightarrow> freshFor st params cur"
proof -
  note f = rowOf_fields [OF row(1)]
  have j: "journalOk (st_lines st) v" by (rule storeOk_parts(4) [OF ok v])
  let ?P = "\<lambda>old. pr_BookID (snd old) = iv_BookID params \<and> pr_PostingLineID (snd old) = pr_PostingLineID (snd cur) \<and>
    pr_AccountID (snd old) = pr_AccountID (snd cur) \<and> fst old = fst cur"
  have inh: "inheritedSeq st (iv_BookID params) (iv_SupersedesVersionID params) (pr_PostingLineID (snd cur)) (pr_AccountID (snd cur)) (fst cur) =
      map_option (\<lambda>cur. pr_AccountDaySequence (snd cur)) (find ?P (recordPostings (tv_entries v)))"
    by (rule inheritedSeq_from [OF ok v prev])
  have line: "lineFor params lines (pr_LineKey (snd old)) = Some (pr_PostingLineID (snd old))" if "old \<in> set (recordPostings (tv_entries v))" for old
  proof -
    have "lineFor params (st_lines st) (pr_LineKey (snd old)) = Some (pr_PostingLineID (snd old))"
      using j that unfolding journalOk_def ids by blast
    then show ?thesis using lines(2) by blast
  qed
  have key: "pr_LineKey (snd old) = pr_LineKey (snd cur)" if "old \<in> set (recordPostings (tv_entries v))" "pr_PostingLineID (snd old) = pr_PostingLineID (snd cur)" for old
  proof (rule lineAt_inj [OF lines(1)])
    show "lineFor params lines (pr_LineKey (snd old)) = Some (pr_PostingLineID (snd cur))" using line [OF that(1)] that(2) by simp
    show "lineFor params lines (pr_LineKey (snd cur)) = Some (pr_PostingLineID (snd cur))" using row(2) f(3) by simp
  qed
  show "pr_AccountDaySequence (snd cur) = pr_AccountDaySequence (snd old)"
    if old: "old \<in> set (recordPostings (tv_entries v))" "pr_LineKey (snd old) = pr_LineKey (snd cur)" "pr_AccountID (snd old) = pr_AccountID (snd cur)" "fst old = fst cur"
  proof -
    have "lineFor params lines (pr_LineKey (snd old)) = Some (pr_PostingLineID (snd cur))" using row(2) f(3) old(2) by simp
    then have "?P old" using line [OF old(1)] old j ids by (simp add: journalOk_def)
    then obtain o' where o': "find ?P (recordPostings (tv_entries v)) = Some o'" using find_exists [OF old(1), of ?P] by auto
    then have "o' \<in> set (recordPostings (tv_entries v))" "pr_PostingLineID (snd o') = pr_PostingLineID (snd cur)" using find_in [OF o'] by auto
    then have "postingKey' o' = postingKey' old" using key old(2) by (simp add: postingKey'_def)
    then have "o' = old" using j \<open>o' \<in> _\<close> old(1) by (auto simp: journalOk_def distinct_map dest: inj_onD)
    then show ?thesis using row(3) unfolding placing_def no inh o' by simp
  qed
  show "freshFor st params cur" if none: "\<And>old. old \<in> set (recordPostings (tv_entries v)) \<Longrightarrow> pr_LineKey (snd old) = pr_LineKey (snd cur) \<Longrightarrow>
      pr_AccountID (snd old) = pr_AccountID (snd cur) \<Longrightarrow> fst old = fst cur \<Longrightarrow> False"
  proof -
    have "find ?P (recordPostings (tv_entries v)) = None"
    proof (cases "find ?P (recordPostings (tv_entries v))")
      case (Some old)
      then have "old \<in> set (recordPostings (tv_entries v))" "?P old" using find_in [OF Some] by auto
      then have False using none [of old] key [of old] by blast
      then show ?thesis ..
    qed
    then show ?thesis using row(3) unfolding placing_def no inh by simp
  qed
qed

lemma fresh_outside:
  assumes ok: "storeOk st" and c: "c \<in> set (st_checkpoints st)" "ck_book_id c = iv_BookID params" "ck_status c = ''active''"
    and row: "rowOf params nxt cur" "freshFor st params cur" "0 < pr_AccountDaySequence (snd cur)"
    and far: "\<not> reaches (iv_BookID params) (specCandidate nxt) c"
  shows "\<not> inside c cur"
proof
  assume i: "inside c cur"
  note f = rowOf_fields [OF row(1)]
  have "\<not> fst nxt < ck_statement_date c" using far i c f by (auto simp: reaches_def specCandidate_def inside_def)
  then have day: "fst cur = ck_statement_date c" and seq: "pr_AccountDaySequence (snd cur) \<le> ck_statement_account_sequence c"
    using i f(1) by (auto simp: inside_def)
  from storeOk_parts(8) [OF ok c(1)] seq row(3) obtain v old where old: "v \<in> set (st_versions st)" "old \<in> set (recordPostings (tv_entries v))"
    "pr_BookID (snd old) = ck_book_id c" "pr_AccountID (snd old) = ck_account_id c" "fst old = ck_statement_date c"
    "ck_statement_account_sequence c \<le> pr_AccountDaySequence (snd old)" unfolding boundaryOk_def by force
  have "pr_AccountDaySequence (snd old) < pr_AccountDaySequence (snd cur)"
    using row(2) storedPostings_in [OF old(1,2)] old i day c(2) unfolding freshFor_def inside_def by simp
  then show False using old(6) seq by simp
qed

lemma keyed_sums:
  fixes F :: "'k \<Rightarrow> rat"
  assumes "distinct (map k xs)" and "distinct (map k' ys)" and "\<And>x. x \<in> set xs \<Longrightarrow> f x = F (k x)" and "\<And>y. y \<in> set ys \<Longrightarrow> g y = F (k' y)"
    and "\<And>key. F key \<noteq> 0 \<Longrightarrow> key \<in> k ` set xs \<and> key \<in> k' ` set ys"
  shows "(\<Sum>x\<leftarrow>xs. f x) = (\<Sum>y\<leftarrow>ys. g y)"
proof -
  have "(\<Sum>x\<leftarrow>xs. f x) = (\<Sum>x\<leftarrow>map k xs. F x)" using assms(3) by (simp add: o_def cong: map_cong)
  also have "\<dots> = sum F (set (map k xs))" by (rule sum_list_distinct_conv_sum_set [OF assms(1)])
  also have "\<dots> = sum F (k ` set xs \<union> k' ` set ys)" using assms(5) by (intro sum.mono_neutral_left) auto
  also have "\<dots> = sum F (set (map k' ys))" using assms(5) by (intro sum.mono_neutral_right) auto
  also have "\<dots> = (\<Sum>y\<leftarrow>map k' ys. F y)" by (rule sum_list_distinct_conv_sum_set [OF assms(2), symmetric])
  also have "\<dots> = (\<Sum>y\<leftarrow>ys. g y)" using assms(4) by (simp add: o_def cong: map_cong)
  finally show ?thesis .
qed

section \<open>The balance of a checkpoint under a new version\<close>

text \<open>A line that stays on its account and day keeps its commodity too.\<close>

definition commodityKept :: "JournalEntryRecord list \<Rightarrow> TransactionSpec \<Rightarrow> bool" where
  "commodityKept entries spec \<longleftrightarrow> list_all (\<lambda>cur. list_all (\<lambda>nxt.
     pr_LineKey (snd cur) = ps_LineKey (snd nxt) \<and> pr_AccountID (snd cur) = ps_AccountID (snd nxt) \<and> fst cur = fst nxt
     \<longrightarrow> pr_CommodityID (snd cur) = ps_CommodityID (snd nxt)) (specPostings (ts_JournalEntries spec))) (recordPostings entries)"

definition specKeys :: "TransactionSpec \<Rightarrow> string list" where
  "specKeys spec = map (ps_LineKey \<circ> snd) (specPostings (ts_JournalEntries spec))"

lemma map_of_keyed: "distinct (map k xs) \<Longrightarrow> x \<in> set xs \<Longrightarrow> map_of (rev (map (\<lambda>x. (k x, x)) xs)) (k x) = Some x"
  by (simp add: distinct_map map_of_eq_Some_iff rev_map [symmetric] o_def inj_on_def)

lemma map_of_keyed_Some: "map_of (rev (map (\<lambda>x. (k x, x)) xs)) key = Some x \<Longrightarrow> x \<in> set xs \<and> k x = key"
  by (auto dest!: map_of_SomeD)

lemma currentByKey_iff:
  assumes "distinct (map postingKey' (recordPostings es))"
  shows "currentByKey es key = Some cur \<longleftrightarrow> cur \<in> set (recordPostings es) \<and> pr_LineKey (snd cur) = key"
proof
  show "currentByKey es key = Some cur \<Longrightarrow> cur \<in> set (recordPostings es) \<and> pr_LineKey (snd cur) = key"
    unfolding currentByKey_def by (rule map_of_keyed_Some)
  show "cur \<in> set (recordPostings es) \<and> pr_LineKey (snd cur) = key \<Longrightarrow> currentByKey es key = Some cur"
    using map_of_keyed [OF assms, of cur] by (auto simp: currentByKey_def postingKey'_def)
qed

lemma specByKey_iff:
  assumes "distinct (map (ps_LineKey \<circ> snd) (specPostings es))"
  shows "specByKey es key = Some nxt \<longleftrightarrow> nxt \<in> set (specPostings es) \<and> ps_LineKey (snd nxt) = key"
proof
  show "specByKey es key = Some nxt \<Longrightarrow> nxt \<in> set (specPostings es) \<and> ps_LineKey (snd nxt) = key"
    unfolding specByKey_def by (rule map_of_keyed_Some)
  show "nxt \<in> set (specPostings es) \<and> ps_LineKey (snd nxt) = key \<Longrightarrow> specByKey es key = Some nxt"
    using map_of_keyed [OF assms, of nxt] by (auto simp: specByKey_def)
qed

lemma candidates_old:
  assumes "distinct (map postingKey' (recordPostings es))" and "cur \<in> set (recordPostings es)" and "\<not> (status = ''draft'' \<and> ts_Status spec = ''draft'')"
    and "movesReconciled (Some cur) (specByKey (ts_JournalEntries spec) (pr_LineKey (snd cur)))"
  shows "recordCandidate cur \<in> set (reconciliationCandidates status es spec)"
proof -
  have "currentByKey es (pr_LineKey (snd cur)) = Some cur" using assms(2) by (simp add: currentByKey_iff [OF assms(1)])
  then show ?thesis using assms(2,3,4)
    by (auto simp: reconciliationCandidates_def Let_def image_iff intro!: bexI [of _ cur] exI [of _ "pr_LineKey (snd cur)"])
qed

lemma candidates_new:
  assumes "distinct (specKeys spec)" and "nxt \<in> set (specPostings (ts_JournalEntries spec))" and "\<not> (status = ''draft'' \<and> ts_Status spec = ''draft'')"
    and "movesReconciled (currentByKey es (ps_LineKey (snd nxt))) (Some nxt)"
  shows "specCandidate nxt \<in> set (reconciliationCandidates status es spec)"
proof -
  have "specByKey (ts_JournalEntries spec) (ps_LineKey (snd nxt)) = Some nxt"
    using assms(2) by (simp add: specByKey_iff [OF assms(1) [unfolded specKeys_def]])
  then show ?thesis using assms(2,3,4)
    by (auto simp: reconciliationCandidates_def Let_def image_iff intro!: bexI [of _ nxt] exI [of _ "ps_LineKey (snd nxt)"])
qed

definition positive :: "(string \<times> PostingRecord) list \<Rightarrow> bool" where
  "positive ps \<longleftrightarrow> (\<forall>cur\<in>set ps. 0 < pr_AccountDaySequence (snd cur))"

lemma recordPostings_concat: "recordPostings (concat ess) = concat (map recordPostings ess)"
  by (induction ess) (simp_all add: recordPostings_def)

lemma inheritedSeq_stored:
  assumes "inheritedSeq st b prev l a d = Some n"
  shows "\<exists>cur\<in>set (storedPostings st). pr_AccountDaySequence (snd cur) = n"
proof -
  from assms obtain p cur where "find (\<lambda>cur. pr_BookID (snd cur) = b \<and> pr_PostingLineID (snd cur) = l \<and> pr_AccountID (snd cur) = a \<and> fst cur = d)
      (recordPostings (concat (map tv_entries (filter (\<lambda>v. tv_id v = p) (st_versions st))))) = Some cur"
    and n: "pr_AccountDaySequence (snd cur) = n"
    by (auto simp: inheritedSeq_def split: option.splits if_splits)
  from find_in [OF this(1)] have "cur \<in> set (storedPostings st)" by (auto simp: recordPostings_concat storedPostings_def)
  then show ?thesis using n by blast
qed

lemma allocate_pos:
  assumes "positive (storedPostings st @ before)"
  shows "0 < allocateOrInheritAccountDaySeq st before b prev l a d"
proof (cases "inheritedSeq st b prev l a d")
  case (Some n)
  then show ?thesis using inheritedSeq_stored [OF Some] assms by (auto simp: allocateOrInheritAccountDaySeq_def positive_def)
next
  case None
  have "0 < nextAccountDaySeq st before b a d"
    unfolding nextAccountDaySeq_def by (rule nextAbove_pos) (use assms in \<open>auto simp: positive_def\<close>)
  then show ?thesis by (simp add: allocateOrInheritAccountDaySeq_def None)
qed

lemma rowsPlaced_pos:
  assumes "rowsPlaced params st lines before ns cs" and "positive (storedPostings st @ before)" and "\<forall>l n. iv_PostingSeqOverrides params l = Some n \<longrightarrow> 0 < n"
  shows "positive cs"
  using assms
proof (induction params st lines before ns cs rule: rowsPlaced.induct)
  case (2 params st lines before nxt ns cur cs)
  have "0 < pr_AccountDaySequence (snd cur)"
    using 2(2,4) allocate_pos [OF 2(3)] by (auto simp: seqFor_def split: option.splits)
  then have "positive (storedPostings st @ before @ [cur])" using 2(3) by (auto simp: positive_def)
  with 2 \<open>0 < _\<close> show ?case by (auto simp: positive_def)
qed (auto simp: positive_def)

lemma storeOk_positive: "storeOk st \<Longrightarrow> positive (storedPostings st)"
  using storeOk_parts(4) by (fastforce simp: positive_def storedPostings_def journalOk_def)

text \<open>A version that supersedes another one of its transaction.\<close>

definition supersedesWith :: "insertTransactionVersionParams \<Rightarrow> store \<Rightarrow> versionRow \<Rightarrow> store \<Rightarrow> JournalEntryRecord list \<Rightarrow> bool" where
  "supersedesWith params st v st' entries \<longleftrightarrow> versionAdded params st st' entries \<and> v \<in> set (st_versions st) \<and>
     iv_SupersedesVersionID params = Some (tv_id v) \<and> iv_BookID params = tv_book_id v \<and> iv_TransactionID params = tv_transaction_id v"

lemma versionAdded_lines:
  assumes "storeOk st" and "versionAdded params st st' entries"
  shows "distinct (map pl_id (st_lines st'))" "\<forall>k i. lineAt b t (st_lines st) k = Some i \<longrightarrow> lineAt b t (st_lines st') k = Some i"
  using assms storeOk_parts(5) [OF assms(1)] by (auto simp: versionAdded_def intro: lineFor_append)

lemma added_rows:
  assumes "storeOk st" and "versionAdded params st st' entries"
  shows "list_all2 (\<lambda>nxt cur. rowOf params nxt cur \<and> lineFor params (st_lines st') (ps_LineKey (snd nxt)) = Some (pr_PostingLineID (snd cur)) \<and>
      placing params st cur) (specPostings (ts_JournalEntries (iv_Spec params))) (recordPostings entries)"
    and "\<forall>l n. iv_PostingSeqOverrides params l = Some n \<longrightarrow> 0 < n \<Longrightarrow> positive (recordPostings entries)"
proof -
  have rows: "rowsPlaced params st (st_lines st') [] (specPostings (ts_JournalEntries (iv_Spec params))) (recordPostings entries)"
    using assms(2) by (simp add: versionAdded_def)
  show "list_all2 (\<lambda>nxt cur. rowOf params nxt cur \<and> lineFor params (st_lines st') (ps_LineKey (snd nxt)) = Some (pr_PostingLineID (snd cur)) \<and>
      placing params st cur) (specPostings (ts_JournalEntries (iv_Spec params))) (recordPostings entries)"
    by (rule rowsPlaced_all2 [OF rows])
  show "\<forall>l n. iv_PostingSeqOverrides params l = Some n \<longrightarrow> 0 < n \<Longrightarrow> positive (recordPostings entries)"
    by (rule rowsPlaced_pos [OF rows]) (simp_all add: storeOk_positive [OF assms(1)])
qed

lemma added_keys:
  assumes "storeOk st" and "versionAdded params st st' entries"
  shows "map postingKey' (recordPostings entries) = specKeys (iv_Spec params)"
proof -
  have "list_all2 (\<lambda>nxt cur. pr_LineKey (snd cur) = ps_LineKey (snd nxt)) (specPostings (ts_JournalEntries (iv_Spec params))) (recordPostings entries)"
    by (rule list_all2_mono [OF added_rows(1) [OF assms]]) (blast dest: rowOf_fields(3))
  then show ?thesis unfolding specKeys_def
    by (auto simp: postingKey'_def list_eq_iff_nth_eq list_all2_conv_all_nth)
qed

lemma added_row:
  assumes "storeOk st" and "versionAdded params st st' entries" and "cur \<in> set (recordPostings entries)"
  obtains nxt where "nxt \<in> set (specPostings (ts_JournalEntries (iv_Spec params)))" "rowOf params nxt cur"
    "lineFor params (st_lines st') (ps_LineKey (snd nxt)) = Some (pr_PostingLineID (snd cur))" "placing params st cur"
proof -
  let ?ns = "specPostings (ts_JournalEntries (iv_Spec params))"
  obtain i where i: "i < length (recordPostings entries)" "cur = recordPostings entries ! i" using assms(3) by (auto simp: in_set_conv_nth)
  have "i < length ?ns" using i(1) list_all2_lengthD [OF added_rows(1) [OF assms(1,2)]] by simp
  then show ?thesis using that [of "?ns ! i"] list_all2_nthD [OF added_rows(1) [OF assms(1,2)], of i] i by simp
qed

text \<open>
  A row of the new version lies inside a checkpoint only if the row of the superseded version on its line, account and day
  does, as long as the position asked of the guard for it does not reach the checkpoint.
\<close>

lemma superseding_row_inside:
  assumes ok: "storeOk st" and s: "supersedesWith params st v st' entries" and no: "iv_PostingSeqOverrides params = Map.empty"
    and kept: "commodityKept (tv_entries v) (iv_Spec params)"
    and c: "c \<in> set (st_checkpoints st)" "ck_book_id c = iv_BookID params" "ck_status c = ''active''"
    and cur: "cur \<in> set (recordPostings entries)" "inside c cur"
    and nxt: "nxt \<in> set (specPostings (ts_JournalEntries (iv_Spec params)))" "rowOf params nxt cur"
      "lineFor params (st_lines st') (ps_LineKey (snd nxt)) = Some (pr_PostingLineID (snd cur))" "placing params st cur"
    and far: "\<not> reaches (iv_BookID params) (specCandidate nxt) c"
  shows "\<exists>old\<in>set (recordPostings (tv_entries v)). pr_LineKey (snd old) = pr_LineKey (snd cur) \<and> inside c old"
proof (rule ccontr)
  assume none: "\<not> ?thesis"
  have a: "versionAdded params st st' entries" and v: "v \<in> set (st_versions st)" and prev: "iv_SupersedesVersionID params = Some (tv_id v)"
    and ids: "iv_BookID params = tv_book_id v" "iv_TransactionID params = tv_transaction_id v" using s by (simp_all add: supersedesWith_def)
  have "iv_PostingSeqOverrides params (pr_PostingLineID (snd cur)) = None" by (simp add: no)
  note place = row_place [OF ok v prev ids this versionAdded_lines(1) [OF ok a] versionAdded_lines(2) [OF ok a] nxt(2-4)]
  note f = rowOf_fields [OF nxt(2)]
  have pos: "0 < pr_AccountDaySequence (snd cur)" using added_rows(2) [OF ok a] cur(1) no by (simp add: positive_def)
  have "freshFor st params cur"
  proof (rule place(2))
    fix old assume old: "old \<in> set (recordPostings (tv_entries v))" "pr_LineKey (snd old) = pr_LineKey (snd cur)"
      "pr_AccountID (snd old) = pr_AccountID (snd cur)" "fst old = fst cur"
    then have "pr_CommodityID (snd old) = pr_CommodityID (snd cur)" using kept nxt(1) f unfolding commodityKept_def list_all_iff by metis
    then have "inside c old" using place(1) [OF old] cur(2) old(3,4) by (simp add: inside_def)
    then show False using none old by blast
  qed
  from fresh_outside [OF ok c nxt(2) this pos far] cur(2) show False by blast
qed

lemma superseding_row_kept:
  assumes ok: "storeOk st" and s: "supersedesWith params st v st' entries" and no: "iv_PostingSeqOverrides params (pr_PostingLineID (snd cur)) = None"
    and old: "old \<in> set (recordPostings (tv_entries v))" "pr_LineKey (snd old) = ps_LineKey (snd nxt)"
    and same: "\<not> reconciliationAffectingChange (fst old) (snd old) (fst nxt) (snd nxt)"
    and nxt: "rowOf params nxt cur" "lineFor params (st_lines st') (ps_LineKey (snd nxt)) = Some (pr_PostingLineID (snd cur))" "placing params st cur"
  shows "inside c cur \<longleftrightarrow> inside c old" "postingVal (snd cur) = postingVal (snd old)"
proof -
  have a: "versionAdded params st st' entries" and v: "v \<in> set (st_versions st)" and prev: "iv_SupersedesVersionID params = Some (tv_id v)"
    and ids: "iv_BookID params = tv_book_id v" "iv_TransactionID params = tv_transaction_id v" using s by (simp_all add: supersedesWith_def)
  note f = rowOf_fields [OF nxt(1)]
  have eq: "pr_AccountID (snd old) = pr_AccountID (snd cur)" "fst old = fst cur" "pr_CommodityID (snd old) = pr_CommodityID (snd cur)"
    "pr_QuantityScale (snd old) = pr_QuantityScale (snd cur)" "BigInt (pr_QuantityValue (snd old)) = BigInt (pr_QuantityValue (snd cur))"
    using same f by (simp_all add: reconciliationAffectingChange_def Coefficient_Cmp_def bigCmp_def split: if_splits)
  have "pr_AccountDaySequence (snd cur) = pr_AccountDaySequence (snd old)"
    using row_place(1) [OF ok v prev ids no versionAdded_lines [OF ok a] nxt old(1)] old(2) f eq by simp
  then show "inside c cur \<longleftrightarrow> inside c old" "postingVal (snd cur) = postingVal (snd old)"
    using eq by (simp_all add: inside_def postingVal_def)
qed

lemma update_share:
  assumes ok: "storeOk st" and s: "supersedesWith params st v st' entries" and no: "iv_PostingSeqOverrides params = Map.empty"
    and kept: "commodityKept (tv_entries v) (iv_Spec params)" and keys: "distinct (specKeys (iv_Spec params))"
    and c: "c \<in> set (st_checkpoints st)" "ck_book_id c = iv_BookID params" "ck_status c = ''active''"
    and status: "tv_status v = ''posted''" "ts_Status (iv_Spec params) = ''posted''"
    and far: "\<forall>k\<in>set (reconciliationCandidates (tv_status v) (tv_entries v) (iv_Spec params)). \<not> reaches (iv_BookID params) k c"
  shows "contribution c (versionRowOf params i n entries) = contribution c v"
proof -
  have a: "versionAdded params st st' entries" and v: "v \<in> set (st_versions st)" using s by (simp_all add: supersedesWith_def)
  have dv: "distinct (map postingKey' (recordPostings (tv_entries v)))" using storeOk_parts(4) [OF ok v] by (simp add: journalOk_def)
  let ?spec = "iv_Spec params" let ?es = "tv_entries v" let ?f = "\<lambda>cur. if inside c cur then postingVal (snd cur) else 0"
  note curs = currentByKey_iff [OF dv] and specs = specByKey_iff [OF keys [unfolded specKeys_def]]
  define F where "F key = (case (currentByKey ?es key, specByKey (ts_JournalEntries ?spec) key) of
      (Some cur, Some nxt) \<Rightarrow> if reconciliationAffectingChange (fst cur) (snd cur) (fst nxt) (snd nxt) then 0 else ?f cur | _ \<Rightarrow> 0)" for key
  have outside: "\<not> inside c cur" if "cur \<in> set (recordPostings ?es)" "movesReconciled (Some cur) (specByKey (ts_JournalEntries ?spec) (pr_LineKey (snd cur)))" for cur
    using candidates_old [OF dv that(1) _ that(2), of "tv_status v"] far status reaches_inside [OF c(2,3), of cur] by auto
  have "(\<Sum>cur\<leftarrow>recordPostings ?es. ?f cur) = (\<Sum>cur\<leftarrow>recordPostings entries. ?f cur)"
  proof (rule keyed_sums [where F = F and k = postingKey' and k' = postingKey'])
    show "distinct (map postingKey' (recordPostings ?es))" by (rule dv)
    show "distinct (map postingKey' (recordPostings entries))" unfolding added_keys [OF ok a] by (rule keys)
    show "?f cur = F (postingKey' cur)" if cur: "cur \<in> set (recordPostings ?es)" for cur
    proof -
      have k: "currentByKey ?es (postingKey' cur) = Some cur" using cur by (simp add: curs postingKey'_def)
      show ?thesis
      proof (cases "movesReconciled (Some cur) (specByKey (ts_JournalEntries ?spec) (pr_LineKey (snd cur)))")
        case True
        then show ?thesis using outside [OF cur True]
          by (auto simp: F_def k [unfolded postingKey'_def] postingKey'_def movesReconciled_def split: option.splits)
      next
        case False
        then show ?thesis by (auto simp: F_def k [unfolded postingKey'_def] postingKey'_def movesReconciled_def split: option.splits)
      qed
    qed
    show "?f cur = F (postingKey' cur)" if cur: "cur \<in> set (recordPostings entries)" for cur
    proof -
      from added_row [OF ok a cur] obtain nxt where nxt: "nxt \<in> set (specPostings (ts_JournalEntries ?spec))" "rowOf params nxt cur"
        "lineFor params (st_lines st') (ps_LineKey (snd nxt)) = Some (pr_PostingLineID (snd cur))" "placing params st cur" .
      have key: "postingKey' cur = ps_LineKey (snd nxt)" using rowOf_fields(3) [OF nxt(2)] by (simp add: postingKey'_def)
      have k: "specByKey (ts_JournalEntries ?spec) (ps_LineKey (snd nxt)) = Some nxt" using nxt(1) by (simp add: specs)
      show ?thesis
      proof (cases "movesReconciled (currentByKey ?es (ps_LineKey (snd nxt))) (Some nxt)")
        case True
        have "\<not> reaches (iv_BookID params) (specCandidate nxt) c"
          using candidates_new [OF keys nxt(1) _ True, of "tv_status v"] far status by auto
        note in_old = superseding_row_inside [OF ok s no kept c cur _ nxt this]
        have "\<not> inside c cur"
        proof
          assume "inside c cur"
          from in_old [OF this] obtain old where old: "old \<in> set (recordPostings ?es)" "pr_LineKey (snd old) = pr_LineKey (snd cur)" "inside c old" by blast
          have ko: "pr_LineKey (snd old) = ps_LineKey (snd nxt)" using old(2) key by (simp add: postingKey'_def)
          then have "currentByKey ?es (ps_LineKey (snd nxt)) = Some old" using old(1) by (simp add: curs)
          then have "movesReconciled (Some old) (specByKey (ts_JournalEntries ?spec) (pr_LineKey (snd old)))" using True k ko by simp
          from outside [OF old(1) this] old(3) show False by blast
        qed
        then show ?thesis using True by (auto simp: F_def key k movesReconciled_def split: option.splits)
      next
        case False
        then obtain old where old: "currentByKey ?es (ps_LineKey (snd nxt)) = Some old"
          "\<not> reconciliationAffectingChange (fst old) (snd old) (fst nxt) (snd nxt)" by (auto simp: movesReconciled_def split: option.splits)
        then have o': "old \<in> set (recordPostings ?es)" "pr_LineKey (snd old) = ps_LineKey (snd nxt)" by (simp_all add: curs)
        have "iv_PostingSeqOverrides params (pr_PostingLineID (snd cur)) = None" by (simp add: no)
        note same = superseding_row_kept [OF ok s this o' old(2) nxt(2-4)]
        show ?thesis using same(1) [of c] same(2) old by (simp add: F_def key k)
      qed
    qed
    show "key \<in> postingKey' ` set (recordPostings ?es) \<and> key \<in> postingKey' ` set (recordPostings entries)" if "F key \<noteq> 0" for key
    proof -
      from that obtain cur nxt where "currentByKey ?es key = Some cur" "specByKey (ts_JournalEntries ?spec) key = Some nxt"
        by (auto simp: F_def split: option.splits)
      then have "cur \<in> set (recordPostings ?es)" "postingKey' cur = key" "key \<in> set (specKeys ?spec)"
        by (auto simp: curs specs postingKey'_def specKeys_def intro!: image_eqI [of _ _ nxt])
      then show ?thesis using added_keys [OF ok a] by (metis imageI list.set_map)
    qed
  qed
  then show ?thesis using status by (simp add: contribution_def versionRowOf_def Let_def)
qed

section \<open>The store after a new version\<close>

abbreviation newVersion :: "insertTransactionVersionParams \<Rightarrow> store \<Rightarrow> JournalEntryRecord list \<Rightarrow> versionRow" where
  "newVersion params st entries \<equiv> versionRowOf params (nextAbove (map tv_id (st_versions st))) (transactionDaySeq params st) entries"

lemma newVersion_fields [simp]:
  "tv_id (versionRowOf params i n es) = i" "tv_book_id (versionRowOf params i n es) = iv_BookID params"
  "tv_transaction_id (versionRowOf params i n es) = iv_TransactionID params" "tv_version_seq (versionRowOf params i n es) = iv_VersionSeq params"
  "tv_status (versionRowOf params i n es) = ts_Status (iv_Spec params)" "tv_entries (versionRowOf params i n es) = es"
  by (simp_all add: versionRowOf_def Let_def)

lemma versionAdded_frame:
  assumes "versionAdded params st st' entries"
  shows "st_transactions st' = st_transactions st" "st_versions st' = st_versions st @ [newVersion params st entries]"
    "st_checkpoints st' = st_checkpoints st" "st_books st' = st_books st" "st_reference st' = st_reference st" "st_audit st' = st_audit st"
    "st_deletions st' = st_deletions st" "st_occurrences st' = st_occurrences st"
  using assms by (auto simp: versionAdded_def)

lemma versionsOf_added:
  assumes "versionAdded params st st' entries"
  shows "versionsOf st' t = versionsOf st t @ (if t = iv_TransactionID params then [newVersion params st entries] else [])"
  by (auto simp: versionsOf_def versionAdded_frame [OF assms])

definition nextInChain :: "insertTransactionVersionParams \<Rightarrow> store \<Rightarrow> bool" where
  "nextInChain params st \<longleftrightarrow> (\<forall>w\<in>set (versionsOf st (iv_TransactionID params)). tv_version_seq w < iv_VersionSeq params)"

lemma currentVersion_added:
  assumes "versionAdded params st st' entries" and "nextInChain params st"
  shows "currentVersion st' t = (if t = iv_TransactionID params then Some (newVersion params st entries) else currentVersion st t)"
proof (cases "t = iv_TransactionID params")
  case True
  have "lastBy versionOrder (versionsOf st t @ [newVersion params st entries]) = Some (newVersion params st entries)"
    by (rule lastBy_snoc) (use assms(2) True in \<open>auto simp: nextInChain_def versionOrder_def less_prod_def\<close>)
  then show ?thesis by (simp add: currentVersion_def versionsOf_added [OF assms(1)] True)
qed (simp add: currentVersion_def versionsOf_added [OF assms(1)])

lemma priorVersion_added:
  assumes "versionAdded params st st' entries" and "nextInChain params st"
  shows "priorVersion st' t = (if t = iv_TransactionID params \<and> ts_Status (iv_Spec params) \<noteq> ''voided''
    then Some (newVersion params st entries) else priorVersion st t)"
proof (cases "t = iv_TransactionID params \<and> ts_Status (iv_Spec params) \<noteq> ''voided''")
  case True
  have "lastBy versionOrder (filter (\<lambda>v. tv_status v \<noteq> ''voided'') (versionsOf st t) @ [newVersion params st entries]) = Some (newVersion params st entries)"
    by (rule lastBy_snoc) (use assms(2) True in \<open>auto simp: nextInChain_def versionOrder_def less_prod_def\<close>)
  then show ?thesis using True by (simp add: priorVersion_def versionsOf_added [OF assms(1)])
qed (auto simp: priorVersion_def versionsOf_added [OF assms(1)])

definition specCore :: "string \<times> PostingSpec \<Rightarrow> string \<times> string \<times> int \<times> int \<times> Coefficient \<times> int" where
  "specCore nxt = (fst nxt, ps_LineKey (snd nxt), ps_AccountID (snd nxt), ps_CommodityID (snd nxt), ps_QuantityValue (snd nxt), ps_QuantityScale (snd nxt))"

lemma added_core:
  assumes "storeOk st" and "versionAdded params st st' entries"
  shows "map postingCore (recordPostings entries) = map specCore (specPostings (ts_JournalEntries (iv_Spec params)))"
proof -
  have "list_all2 (\<lambda>nxt cur. postingCore cur = specCore nxt) (specPostings (ts_JournalEntries (iv_Spec params))) (recordPostings entries)"
    by (rule list_all2_mono [OF added_rows(1) [OF assms]]) (use rowOf_fields in \<open>fastforce simp: postingCore_def specCore_def\<close>)
  then show ?thesis by (auto simp: list_eq_iff_nth_eq list_all2_conv_all_nth)
qed

lemma boundaryOk_mono: "boundaryOk st c \<Longrightarrow> set (st_versions st) \<subseteq> set (st_versions st') \<Longrightarrow> boundaryOk st' c"
  by (auto simp: boundaryOk_def)

lemma journalOk_mono:
  "journalOk lines v \<Longrightarrow> \<forall>k i. lineAt (tv_book_id v) (tv_transaction_id v) lines k = Some i \<longrightarrow> lineAt (tv_book_id v) (tv_transaction_id v) lines' k = Some i
    \<Longrightarrow> journalOk lines' v"
  by (auto simp: journalOk_def)

lemma versionAdded_storeOk:
  assumes ok: "storeOk st" and a: "versionAdded params st st' entries" and chain: "nextInChain params st"
    and t: "\<exists>t\<in>set (st_transactions st). tr_id t = iv_TransactionID params \<and> tr_book_id t = iv_BookID params"
    and keys: "distinct (specKeys (iv_Spec params))" and pos: "\<forall>l n. iv_PostingSeqOverrides params l = Some n \<longrightarrow> 0 < n"
    and status: "ts_Status (iv_Spec params) \<in> set transactionStatuses"
    and void: "ts_Status (iv_Spec params) = ''voided'' \<Longrightarrow> \<forall>u. priorVersion st (iv_TransactionID params) = Some u \<longrightarrow>
      map postingCore (recordPostings (tv_entries u)) = map specCore (specPostings (ts_JournalEntries (iv_Spec params)))"
  shows "storeOk st'"
proof -
  note fr = versionAdded_frame [OF a] and lines = versionAdded_lines [OF ok a]
  have new: "journalOk (st_lines st') (newVersion params st entries)"
    unfolding journalOk_def newVersion_fields
  proof (intro conjI ballI)
    show "distinct (map postingKey' (recordPostings entries))" unfolding added_keys [OF ok a] by (rule keys)
    fix cur assume cur: "cur \<in> set (recordPostings entries)"
    from added_row [OF ok a cur] obtain nxt where nxt: "rowOf params nxt cur"
      "lineFor params (st_lines st') (ps_LineKey (snd nxt)) = Some (pr_PostingLineID (snd cur))" by blast
    show "pr_BookID (snd cur) = iv_BookID params" using rowOf_fields(2) [OF nxt(1)] .
    show "0 < pr_AccountDaySequence (snd cur)" using added_rows(2) [OF ok a pos] cur by (simp add: positive_def)
    show "storedScale (pr_QuantityScale (snd cur))" by (rule rowOf_fields(8) [OF nxt(1)])
    show "lineFor params (st_lines st') (pr_LineKey (snd cur)) = Some (pr_PostingLineID (snd cur))"
      using nxt(2) rowOf_fields(3) [OF nxt(1)] by simp
  qed
  have fresh: "nextAbove (map tv_id (st_versions st)) \<notin> tv_id ` set (st_versions st)"
    using nextAbove_fresh [of "map tv_id (st_versions st)"] by simp
  have idpos: "0 < nextAbove (map tv_id (st_versions st))"
    by (rule nextAbove_pos) (use storeOk_parts(3) [OF ok] in auto)
  have vo: "voidOk st' (tr_id t)" if t: "t \<in> set (st_transactions st)" for t
  proof (cases "tr_id t = iv_TransactionID params")
    case True
    then show ?thesis using void
      by (auto simp: voidOk_def currentVersion_added [OF a chain] priorVersion_added [OF a chain] sameJournalRows_def added_core [OF ok a] split: option.splits)
  next
    case False
    then show ?thesis using storeOk_parts(6) [OF ok t]
      by (simp add: voidOk_def currentVersion_added [OF a chain] priorVersion_added [OF a chain])
  qed
  have sub: "set (st_versions st) \<subseteq> set (st_versions st')" by (auto simp: fr)
  have vs: "0 < tv_id v \<and> tv_status v \<in> set transactionStatuses \<and> journalOk (st_lines st') v \<and> (\<exists>t\<in>set (st_transactions st). tr_id t = tv_transaction_id v \<and> tr_book_id t = tv_book_id v)"
    if "v \<in> set (st_versions st')" for v
  proof (cases "v \<in> set (st_versions st)")
    case True
    then show ?thesis using storeOk_parts(3) [OF ok True] storeOk_parts(9,10) [OF ok True] journalOk_mono [OF storeOk_parts(4) [OF ok True] lines(2)] by blast
  next
    case False
    then have "v = newVersion params st entries" using that by (simp add: fr)
    then show ?thesis using new idpos t status by simp
  qed
  show ?thesis unfolding storeOk_def
  proof (intro conjI ballI)
    show "distinct (map tv_id (st_versions st'))" using storeOk_parts(2) [OF ok] fresh by (simp add: fr)
    show "boundaryOk st' c" if "c \<in> set (st_checkpoints st')" for c
      using boundaryOk_mono [OF storeOk_parts(8) [OF ok] sub] that by (simp add: fr)
    show "distinct (postingIDsOf (storedPostings st'))" using storeOk_parts(11) [OF ok] a by (simp add: versionAdded_def)
  qed (use storeOk_parts(1,7) [OF ok] lines(1) vo vs in \<open>auto simp: fr\<close>)
qed

section \<open>Balances kept by a write\<close>

text \<open>Every checkpoint that is active after the write was active before and closes the balance it closed.\<close>

definition balancesKept :: "store \<Rightarrow> store \<Rightarrow> bool" where
  "balancesKept st st' \<longleftrightarrow> (\<forall>c\<in>set (st_checkpoints st'). ck_status c = ''active'' \<longrightarrow>
     c \<in> set (st_checkpoints st) \<and> registerBalance st' c = registerBalance st c)"

lemma balancesKept_trans: "balancesKept st st1 \<Longrightarrow> balancesKept st1 st2 \<Longrightarrow> balancesKept st st2"
  by (auto simp: balancesKept_def)

lemma balancesKept_refl: "balancesKept st st"
  by (simp add: balancesKept_def)

lemma reads_versions:
  assumes "st_versions st = st_versions st'"
  shows "versionsOf st t = versionsOf st' t" "currentVersion st t = currentVersion st' t" "priorVersion st t = priorVersion st' t"
    "voidOk st t = voidOk st' t" "boundaryOk st c = boundaryOk st' c" "storedPostings st = storedPostings st'"
  using assms by (simp_all add: versionsOf_def currentVersion_def priorVersion_def voidOk_def boundaryOk_def storedPostings_def)

lemma registerBalance_reads:
  assumes "st_versions st = st_versions st'" and "st_transactions st = st_transactions st'"
  shows "registerBalance st c = registerBalance st' c"
  unfolding registerBalance_def ledgerShare_def reads_versions(2) [OF assms(1)] assms(2) ..

lemma row_unique:
  assumes "storeOk st" and "t \<in> set (st_transactions st)" and "row \<in> set (st_transactions st)" and "tr_id t = tr_id row"
  shows "t = row"
  using storeOk_parts(1) [OF assms(1)] assms(2-4) by (simp add: distinct_map inj_on_def)

lemma storeOk_audit:
  assumes "storeOk st"
  shows "storeOk (st\<lparr> st_audit := A \<rparr>)"
proof -
  have v: "st_versions (st\<lparr> st_audit := A \<rparr>) = st_versions st" by simp
  show ?thesis using assms unfolding storeOk_def reads_versions(4,5,6) [OF v] by simp
qed

lemma insertAuditEvent_Inr: "insertAuditEvent p st = Inr (st', i) \<Longrightarrow> \<exists>A. st' = st\<lparr> st_audit := A \<rparr>"
  by (auto simp: insertAuditEvent_def Let_def result_simps)

lemma enforceBoundary_Inr:
  assumes "storeOk st" and "enforceBoundary batch bp st = Inr (st', ids)"
  shows "storeOk st'" "\<forall>c\<in>set (st_checkpoints st'). ck_status c = ''active'' \<longrightarrow> c \<in> set (st_checkpoints st) \<and> \<not> covered bp c"
    "st_versions st' = st_versions st" "st_transactions st' = st_transactions st" "st_lines st' = st_lines st"
proof -
  from assms(2) obtain table where g: "enforceCheckpointBoundaryTx batch bp (st_checkpoints st) = Inr (table, ids)" "st' = st\<lparr> st_checkpoints := table \<rparr>"
    by (auto simp: enforceBoundary_def result_simps)
  have table: "table = map (\<lambda>c. if covered bp c then invalidated bp c else c) (st_checkpoints st)"
    by (rule enforce_Inr(1) [OF storeOk_parts(7) [OF assms(1)] g(1)])
  show v: "st_versions st' = st_versions st" and "st_transactions st' = st_transactions st" "st_lines st' = st_lines st" by (simp_all add: g(2))
  show "\<forall>c\<in>set (st_checkpoints st'). ck_status c = ''active'' \<longrightarrow> c \<in> set (st_checkpoints st) \<and> \<not> covered bp c"
    by (auto simp: g(2) table invalidated_def)
  have ids: "map ck_id table = map ck_id (st_checkpoints st)" by (simp add: table invalidated_def)
  have "\<forall>c\<in>set table. 0 < ck_id c"
    using storeOk_parts(7) [OF assms(1)] by (auto simp: tableOk_def list_all_iff table invalidated_def)
  then have "tableOk table" using storeOk_parts(7) [OF assms(1)] by (simp add: tableOk_def list_all_iff ids)
  moreover have "boundaryOk st (invalidated bp c) = boundaryOk st c" for c by (simp add: boundaryOk_def invalidated_def)
  then have "\<forall>c\<in>set table. boundaryOk st c" using storeOk_parts(8) [OF assms(1)] by (auto simp: table)
  ultimately show "storeOk st'" using assms(1) unfolding storeOk_def reads_versions(4,5,6) [OF v] by (simp add: g(2))
qed

lemma transactionByID_Inr:
  assumes "transactionByID st b t = Inr r"
  obtains row v where "row \<in> set (st_transactions st)" "tr_book_id row = b" "tr_id row = t" "currentVersion st t = Some v"
    "r = transactionVersionRecord st row v"
  using assms by (auto simp: transactionByID_def findTransaction_def split: option.splits dest!: find_in)

lemma currentVersion_in: "currentVersion st t = Some v \<Longrightarrow> v \<in> set (st_versions st) \<and> tv_transaction_id v = t"
  by (auto simp: currentVersion_def versionsOf_def dest: lastBy_in)

lemma current_chain:
  assumes "currentVersion st t = Some v" and "iv_TransactionID params = t" and "tv_version_seq v < iv_VersionSeq params"
  shows "nextInChain params st"
  using lastBy_ge [OF assms(1) [unfolded currentVersion_def]] assms(2,3)
  by (fastforce simp: nextInChain_def versionOrder_def less_eq_prod_def)

lemma rowOfVersion:
  assumes "storeOk st" and "row \<in> set (st_transactions st)" and "currentVersion st (tr_id row) = Some v"
  shows "tv_book_id v = tr_book_id row"
proof -
  from currentVersion_in [OF assms(3)] have v: "v \<in> set (st_versions st)" "tv_transaction_id v = tr_id row" by simp_all
  from storeOk_parts(9) [OF assms(1) v(1)] obtain t where "t \<in> set (st_transactions st)" "tr_id t = tr_id row" "tr_book_id t = tv_book_id v" using v by auto
  moreover from this have "t = row" using row_unique [OF assms(1) _ assms(2)] by blast
  ultimately show ?thesis by simp
qed

lemma version_balance:
  assumes ok: "storeOk st" and a: "versionAdded params st st1 entries" and row: "row \<in> set (st_transactions st)" "tr_id row = iv_TransactionID params"
      "tr_book_id row = iv_BookID params" and cur: "currentVersion st (iv_TransactionID params) = Some v" and chain: "nextInChain params st"
    and eq: "ck_book_id c = iv_BookID params \<Longrightarrow> tr_deleted_at row = None \<Longrightarrow> contribution c (newVersion params st entries) = contribution c v"
  shows "registerBalance st1 c = registerBalance st c"
proof -
  have "ledgerShare st1 c t = ledgerShare st c t" if t: "t \<in> set (st_transactions st)" for t
  proof (cases "tr_id t = iv_TransactionID params")
    case True
    then have "t = row" using row_unique [OF ok t row(1)] row(2) by simp
    then show ?thesis using eq row cur by (auto simp: ledgerShare_def currentVersion_added [OF a chain])
  next
    case False
    then show ?thesis by (simp add: ledgerShare_def currentVersion_added [OF a chain])
  qed
  then show ?thesis by (simp add: registerBalance_def versionAdded_frame [OF a] cong: map_cong)
qed

text \<open>A new version of a transaction, followed by the guard.\<close>

lemma version_kept:
  assumes ok: "storeOk st" and a: "versionAdded params st st1 entries" and row: "row \<in> set (st_transactions st)" "tr_id row = iv_TransactionID params"
      "tr_book_id row = iv_BookID params" and cur: "currentVersion st (iv_TransactionID params) = Some v" and chain: "nextInChain params st"
    and ok1: "storeOk st1" and g: "enforceBoundary batch bp st1 = Inr (st2, ids)"
    and eq: "\<And>c. c \<in> set (st_checkpoints st) \<Longrightarrow> ck_status c = ''active'' \<Longrightarrow> ck_book_id c = iv_BookID params \<Longrightarrow> tr_deleted_at row = None \<Longrightarrow>
      \<not> covered bp c \<Longrightarrow> contribution c (newVersion params st entries) = contribution c v"
  shows "storeOk st2 \<and> balancesKept st st2"
proof -
  note e = enforceBoundary_Inr [OF ok1 g]
  have "registerBalance st2 c = registerBalance st c" if c: "c \<in> set (st_checkpoints st)" "ck_status c = ''active''" "\<not> covered bp c" for c
  proof -
    have "registerBalance st1 c = registerBalance st c" by (rule version_balance [OF ok a row cur chain]) (use eq c in auto)
    moreover have "registerBalance st2 c = registerBalance st1 c" by (rule registerBalance_reads) (simp_all add: e)
    ultimately show ?thesis by simp
  qed
  then show ?thesis using e(1,2) by (auto simp: balancesKept_def versionAdded_frame [OF a])
qed

section \<open>Copies, entries into the ledger and exits\<close>

definition rawSum :: "checkpointRow \<Rightarrow> JournalEntryRecord list \<Rightarrow> rat" where
  "rawSum c es = (\<Sum>cur\<leftarrow>recordPostings es. if inside c cur then postingVal (snd cur) else 0)"

lemma contribution_rawSum: "contribution c v = (if tv_status v = ''posted'' then rawSum c (tv_entries v) else 0)"
  by (simp add: contribution_def rawSum_def)

lemma rawSum_outside:
  assumes "\<And>cur. cur \<in> set (recordPostings es) \<Longrightarrow> \<not> inside c cur"
  shows "rawSum c es = 0"
proof -
  have "map (\<lambda>cur. if inside c cur then postingVal (snd cur) else 0) (recordPostings es) = map (\<lambda>_. 0) (recordPostings es)" using assms by simp
  then show ?thesis unfolding rawSum_def by (simp only: sum_list_0)
qed

lemma recordPostings_withTags:
  "recordPostings (map (withTags st) es) = map (\<lambda>cur. (fst cur, (snd cur)\<lparr> pr_TagIDs := postingTagIDs st (pr_PostingLineID (snd cur)) \<rparr>)) (recordPostings es)"
  by (induction es) (simp_all add: recordPostings_def withTags_def o_def)

lemma core_withTags: "map postingCore (recordPostings (map (withTags st) es)) = map postingCore (recordPostings es)"
  by (simp add: recordPostings_withTags o_def postingCore_def)

lemma candidates_withTags: "periodScopedCandidatesFromRecord (map (withTags st) es) = periodScopedCandidatesFromRecord es"
  by (simp add: periodScopedCandidatesFromRecord_def recordPostings_withTags o_def recordCandidate_def)

lemma specFromRecord_core:
  "map specCore (specPostings (ts_JournalEntries (transactionSpecFromRecord r))) = map postingCore (recordPostings (rc_JournalEntries r))"
proof -
  have "map specCore (concat (map (\<lambda>entry. map (Pair (es_EntryDate entry)) (es_Postings entry)) (map (\<lambda>entry. \<lparr> es_EntryDate = er_EntryDate entry, es_EntryKind = er_EntryKind entry, es_Memo = er_Memo entry,
       es_MetadataJSON = er_MetadataJSON entry,
       es_ConversionSide = (case er_ConversionSide entry of None \<Rightarrow> [] | Some s \<Rightarrow> s),
       es_FeePaidBy = (case er_FeePaidBy entry of None \<Rightarrow> [] | Some s \<Rightarrow> s),
       es_Postings = map (\<lambda>p. \<lparr> ps_LineKey = pr_LineKey p, ps_AccountID = pr_AccountID p, ps_QuantityValue = pr_QuantityValue p,
         ps_QuantityScale = pr_QuantityScale p, ps_CommodityID = pr_CommodityID p, ps_Memo = pr_Memo p,
         ps_ReconciliationStatus = pr_ReconciliationStatus p, ps_ClearedOn = pr_ClearedOn p, ps_MetadataJSON = pr_MetadataJSON p,
         ps_TagIDs = pr_TagIDs p \<rparr>) (er_Postings entry) \<rparr>) es))) = map postingCore (recordPostings es)" for es
    by (induction es) (simp_all add: recordPostings_def specCore_def postingCore_def)
  then show ?thesis by (simp add: transactionSpecFromRecord_def specPostings_def)
qed

lemma core_keys: "map specCore ns = map postingCore cs \<Longrightarrow> map (ps_LineKey \<circ> snd) ns = map postingKey' cs"
proof (induction ns arbitrary: cs)
  case (Cons n ns)
  then show ?case by (cases cs) (auto simp: specCore_def postingCore_def postingKey'_def)
qed simp

text \<open>A copy of a journal, some of its postings at given places that are on the same side of the boundary.\<close>

lemma copy_raw_overrides:
  assumes ok: "storeOk st" and s: "supersedesWith params st v st' entries"
    and core: "map specCore (specPostings (ts_JournalEntries (iv_Spec params))) = map postingCore (recordPostings (tv_entries v))"
    and side: "\<And>old n. old \<in> set (recordPostings (tv_entries v)) \<Longrightarrow> iv_PostingSeqOverrides params (pr_PostingLineID (snd old)) = Some n \<Longrightarrow>
      inside c (fst old, (snd old)\<lparr> pr_AccountDaySequence := n \<rparr>) \<longleftrightarrow> inside c old"
  shows "rawSum c entries = rawSum c (tv_entries v)"
proof -
  let ?ns = "specPostings (ts_JournalEntries (iv_Spec params))" let ?old = "recordPostings (tv_entries v)" let ?new = "recordPostings entries"
  have a: "versionAdded params st st' entries" and v: "v \<in> set (st_versions st)" and ids: "iv_BookID params = tv_book_id v" "iv_TransactionID params = tv_transaction_id v"
    using s by (simp_all add: supersedesWith_def)
  note rows = added_rows(1) [OF ok a]
  have len: "length ?new = length ?ns" "length ?old = length ?ns" using list_all2_lengthD [OF rows] arg_cong [OF core, of length] by simp_all
  have "(if inside c (?new ! i) then postingVal (snd (?new ! i)) else 0) = (if inside c (?old ! i) then postingVal (snd (?old ! i)) else 0)"
    if i: "i < length ?ns" for i
  proof -
    have sc: "specCore (?ns ! i) = postingCore (?old ! i)" using arg_cong [OF core, of "\<lambda>xs. xs ! i"] i len by simp
    then have same: "pr_LineKey (snd (?old ! i)) = ps_LineKey (snd (?ns ! i))"
      "\<not> reconciliationAffectingChange (fst (?old ! i)) (snd (?old ! i)) (fst (?ns ! i)) (snd (?ns ! i))"
      by (simp_all add: specCore_def postingCore_def reconciliationAffectingChange_def Coefficient_Cmp_def)
    have old: "?old ! i \<in> set ?old" using i len by simp
    have new: "rowOf params (?ns ! i) (?new ! i)" "lineFor params (st_lines st') (ps_LineKey (snd (?ns ! i))) = Some (pr_PostingLineID (snd (?new ! i)))"
      "placing params st (?new ! i)" using list_all2_nthD [OF rows i] by simp_all
    show ?thesis
    proof (cases "iv_PostingSeqOverrides params (pr_PostingLineID (snd (?new ! i)))")
      case None
      then show ?thesis using superseding_row_kept [OF ok s None old same new] by auto
    next
      case (Some n)
      have "lineFor params (st_lines st) (pr_LineKey (snd (?old ! i))) = Some (pr_PostingLineID (snd (?old ! i)))"
        using storeOk_parts(4) [OF ok v] old unfolding journalOk_def ids by blast
      then have line: "pr_PostingLineID (snd (?old ! i)) = pr_PostingLineID (snd (?new ! i))"
        using versionAdded_lines(2) [OF ok a] new(2) same(1) by fastforce
      have "inside c (?new ! i) = inside c (fst (?old ! i), (snd (?old ! i))\<lparr> pr_AccountDaySequence := n \<rparr>)" "postingVal (snd (?new ! i)) = postingVal (snd (?old ! i))"
        using rowOf_fields [OF new(1)] sc new(3) Some by (simp_all add: inside_def postingVal_def placing_def specCore_def postingCore_def)
      then show ?thesis using side [OF old] Some line by simp
    qed
  qed
  then have "map (\<lambda>cur. if inside c cur then postingVal (snd cur) else 0) ?new = map (\<lambda>cur. if inside c cur then postingVal (snd cur) else 0) ?old"
    using len by (auto simp: list_eq_iff_nth_eq)
  then show ?thesis by (simp add: rawSum_def)
qed

lemma copy_raw:
  assumes "storeOk st" and "supersedesWith params st v st' entries" and "iv_PostingSeqOverrides params = Map.empty"
    and "map specCore (specPostings (ts_JournalEntries (iv_Spec params))) = map postingCore (recordPostings (tv_entries v))"
  shows "rawSum c entries = rawSum c (tv_entries v)"
  by (rule copy_raw_overrides [OF assms(1,2,4)]) (simp add: assms(3))

lemma covers_record:
  assumes "\<not> covered bp c" and "set (periodScopedCandidatesFromRecord es) \<subseteq> set (bp_Candidates bp)" and "ck_book_id c = bp_BookID bp" and "ck_status c = ''active''"
  shows "rawSum c es = 0"
proof (rule rawSum_outside)
  fix cur assume "cur \<in> set (recordPostings es)"
  then have "recordCandidate cur \<in> set (bp_Candidates bp)" using assms(2) by (auto simp: periodScopedCandidatesFromRecord_def)
  then show "\<not> inside c cur" using assms(1) reaches_inside [OF assms(3,4), of cur] by (auto simp: covered_def list_ex_iff)
qed

lemma promotion_raw:
  assumes ok: "storeOk st" and s: "supersedesWith params st v st' entries" and no: "iv_PostingSeqOverrides params = Map.empty"
    and kept: "commodityKept (tv_entries v) (iv_Spec params)" and c: "c \<in> set (st_checkpoints st)" "ck_book_id c = iv_BookID params" "ck_status c = ''active''"
    and out: "\<And>old. old \<in> set (recordPostings (tv_entries v)) \<Longrightarrow> \<not> inside c old"
    and far: "\<And>nxt. nxt \<in> set (specPostings (ts_JournalEntries (iv_Spec params))) \<Longrightarrow> \<not> reaches (iv_BookID params) (specCandidate nxt) c"
  shows "rawSum c entries = 0"
proof (rule rawSum_outside)
  fix cur assume cur: "cur \<in> set (recordPostings entries)"
  have a: "versionAdded params st st' entries" using s by (simp add: supersedesWith_def)
  from added_row [OF ok a cur] obtain nxt where nxt: "nxt \<in> set (specPostings (ts_JournalEntries (iv_Spec params)))" "rowOf params nxt cur"
    "lineFor params (st_lines st') (ps_LineKey (snd nxt)) = Some (pr_PostingLineID (snd cur))" "placing params st cur" .
  from superseding_row_inside [OF ok s no kept c cur _ nxt far [OF nxt(1)]] out show "\<not> inside c cur" by blast
qed

end
