(* ===== verification/Lifecycle.thy ===== *)
theory Lifecycle
  imports Register
begin

text \<open>
  The transaction service's writes (\<^verbatim>\<open>app/transactions_write.go\<close>): creating, editing, posting, voiding, unvoiding,
  deleting and restoring transactions. A write has two halves. The service reads the store, decides, and prepares the
  parameters of the repository write, including the register positions the write touches; then the repository
  commits them. Other writes may commit in between, so a preparation is a function of the store it reads and the
  commit is the repository's function of a later one. What the service does after the commit (adding display
  names) is not modelled.
\<close>

section \<open>Definitions: inputs and errors\<close>

datatype service_error =
    Invalid ledger_error
  | OwnerRequired | TransactionIDRequired | ChangeReasonRequired | ChangeReasonTooLong | ChangeReasonControl
  | KeptJournalNamesEntries | PromotionNamesNoVersion
  | AccountIDRequired | PostingLineIDRequired | DirectionInvalid | TwoTransactionsRequired | PositionInvalid | ReorderRefused write_error
  | ErrTransactionNotFound
  | SvcTransactionVersionStale | SvcTransactionVoided | SvcTransactionDeleted | SvcPostingAccountVersionStale
  | ErrTransactionPosted | ErrTransactionDraftNotVoidable | ErrTransactionDraftNotUserCreatable | ErrInvestmentWorkflowRequired
  | SvcCheckpointImpact checkpoint_error
  | RepositoryFailed write_error

record CreateTransactionInput =
  ci_OwnerUserID :: int
  ci_AuthSessionID :: int
  ci_RequestID :: string
  ci_OriginType :: string
  ci_Operation :: string
  ci_CorrectionOfTransactionID :: "int option"
  ci_Spec :: TransactionInput
  ci_ChangeReason :: string
  ci_ReconciliationOverride :: bool
  ci_ReconciliationOverrideCheckpointIDs :: "int list option"

record UpdateTransactionInput =
  ui_OwnerUserID :: int
  ui_AuthSessionID :: int
  ui_RequestID :: string
  ui_OriginType :: string
  ui_Operation :: string
  ui_TransactionID :: int
  ui_Spec :: TransactionInput
  ui_ChangeReason :: string
  ui_ReconciliationOverride :: bool
  ui_ReconciliationOverrideCheckpointIDs :: "int list option"
  ui_AllowDraftPromotion :: bool
  ui_ExpectedVersionID :: int
  ui_KeepJournal :: bool

text \<open>\<^verbatim>\<open>VoidTransactionInput\<close>, also the input of posting, unvoid, soft delete and restore.\<close>

record TransactionLifecycleInput =
  li_OwnerUserID :: int
  li_AuthSessionID :: int
  li_RequestID :: string
  li_OriginType :: string
  li_TransactionID :: int
  li_ChangeReason :: string
  li_ReconciliationOverride :: bool
  li_ReconciliationOverrideCheckpointIDs :: "int list option"
  li_ExpectedVersionID :: int

record DeleteDraftTransactionInput =
  di_OwnerUserID :: int
  di_AuthSessionID :: int
  di_RequestID :: string
  di_OriginType :: string
  di_TransactionID :: int

record ApproveTransactionInput =
  ai_OwnerUserID :: int
  ai_AuthSessionID :: int
  ai_RequestID :: string
  ai_OriginType :: string
  ai_TransactionID :: int
  ai_ChangeReason :: string

text \<open>A preparation ends with nothing to do, or with the parameters of a repository write.\<close>

datatype 'p prepared = Unchanged Transaction | Prepared 'p

definition mapTransactionDBError :: "write_error \<Rightarrow> service_error" where
  "mapTransactionDBError e = (case e of
       ErrNotFound \<Rightarrow> ErrTransactionNotFound
     | ErrTransactionHasPostedVersions \<Rightarrow> ErrTransactionPosted
     | ErrTransactionVoided \<Rightarrow> SvcTransactionVoided
     | ErrTransactionVersionStale \<Rightarrow> SvcTransactionVersionStale
     | ErrPostingAccountVersionStale _ \<Rightarrow> SvcPostingAccountVersionStale
     | ErrTransactionDeleted \<Rightarrow> SvcTransactionDeleted
     | CheckpointImpact impact \<Rightarrow> SvcCheckpointImpact impact
     | _ \<Rightarrow> RepositoryFailed e)"

section \<open>Definitions: reading for a decision\<close>

definition orEmpty :: "string option \<Rightarrow> string" where
  "orEmpty v = (case v of None \<Rightarrow> [] | Some s \<Rightarrow> s)"

definition toPosting :: "PostingRecord \<Rightarrow> Posting" where
  "toPosting posting = \<lparr> p_ID = pr_ID posting, p_PostingLineID = pr_PostingLineID posting, p_LineKey = pr_LineKey posting,
     p_LineSeq = pr_LineSeq posting, p_AccountID = pr_AccountID posting, p_AccountDaySequence = pr_AccountDaySequence posting,
     p_QuantityValue = pr_QuantityValue posting, p_QuantityScale = pr_QuantityScale posting, p_CommodityID = pr_CommodityID posting,
     p_Memo = pr_Memo posting, p_ReconciliationStatus = pr_ReconciliationStatus posting, p_ClearedOn = orEmpty (pr_ClearedOn posting),
     p_MetadataJSON = pr_MetadataJSON posting, p_TagIDs = pr_TagIDs posting, p_AccountName = None, p_AccountCode = None,
     p_AccountSystemRole = None, p_AccountBuiltinKey = None, p_AccountClass = [], p_CommodityCode = [], p_CommoditySymbol = None \<rparr>"

definition toTransaction :: "TransactionRecord \<Rightarrow> Transaction" where
  "toTransaction record = \<lparr> t_ID = rc_ID record, t_BookID = rc_BookID record, t_CorrectionOfTransactionID = rc_CorrectionOfTransactionID record,
     t_Status = rc_Status record, t_TransactionKind = rc_TransactionKind record, t_TransactionDate = rc_TransactionDate record,
     t_TransactionDaySequence = rc_TransactionDaySequence record, t_PayeeID = rc_PayeeID record, t_PayeeName = orEmpty (rc_PayeeName record),
     t_Description = rc_Description record, t_ExternalRefHint = orEmpty (rc_ExternalRefHint record), t_NoteMarkdown = rc_NoteMarkdown record,
     t_MetadataJSON = rc_MetadataJSON record, t_NeedsReview = rc_NeedsReview record, t_VersionID = rc_VersionID record,
     t_VersionSeq = rc_VersionSeq record, t_SupersedesVersionID = rc_SupersedesVersionID record, t_TagIDs = rc_TagIDs record,
     t_JournalEntries = map (\<lambda>entry. \<lparr> e_ID = er_ID entry, e_EntrySeq = er_EntrySeq entry, e_EntryDate = er_EntryDate entry,
       e_EntryKind = er_EntryKind entry, e_Memo = er_Memo entry, e_MetadataJSON = er_MetadataJSON entry,
       e_ConversionSide = orEmpty (er_ConversionSide entry), e_FeePaidBy = orEmpty (er_FeePaidBy entry),
       e_Postings = map toPosting (er_Postings entry) \<rparr>) (rc_JournalEntries record),
     t_CreatedAt = rc_CreatedAt record, t_UpdatedAt = rc_RecordedAt record, t_DeletedAt = orEmpty (rc_DeletedAt record),
     t_ChangeReason = rc_ChangeReason record, t_SystemLabel = rc_SystemLabel record,
     t_InvalidatedCheckpointIDs = rc_InvalidatedCheckpointIDs record \<rparr>"

text \<open>The repository's reads: with its journal, and unless asked otherwise only when not deleted.\<close>

definition TransactionByIDIncludingDeleted :: "store \<Rightarrow> int \<Rightarrow> (write_error, TransactionRecord) result" where
  "TransactionByIDIncludingDeleted st transactionID =
     bindR (transactionByID st BookID transactionID) (\<lambda>record. Inr (loadTransactionChildren st record))"

definition TransactionByID :: "store \<Rightarrow> int \<Rightarrow> (write_error, TransactionRecord) result" where
  "TransactionByID st transactionID =
     bindR (TransactionByIDIncludingDeleted st transactionID) (\<lambda>record.
       if rc_DeletedAt record = None then Inr record else Inl ErrNotFound)"

definition TransactionHasInvestmentLinks :: "store \<Rightarrow> int \<Rightarrow> bool" where
  "TransactionHasInvestmentLinks st transactionID \<longleftrightarrow>
     (case currentVersion st transactionID of None \<Rightarrow> False | Some v \<Rightarrow> tv_book_id v = BookID \<and> tv_kind v = ''investment'') \<or>
     (BookID, transactionID) \<in> set (st_lot_sources st) \<or> (BookID, transactionID) \<in> set (st_lot_events st)"

definition rejectInvestmentLinkedMutation :: "store \<Rightarrow> int \<Rightarrow> (service_error, unit) result" where
  "rejectInvestmentLinkedMutation st transactionID = ensure (\<not> TransactionHasInvestmentLinks st transactionID) ErrInvestmentWorkflowRequired"

definition changeReasonMaxBytes :: int where "changeReasonMaxBytes = 500"

definition cleanChangeReason :: "string \<Rightarrow> string \<Rightarrow> (service_error, string) result" where
  "cleanChangeReason v fallback = (
     let cleaned0 = TrimSpace v; cleaned = (if cleaned0 = [] then fallback else cleaned0) in
     if int (length cleaned) > changeReasonMaxBytes then Inl ChangeReasonTooLong
     else if hasControlExcept [] cleaned then Inl ChangeReasonControl
     else Inr cleaned)"

definition requireReviewedVersion :: "int \<Rightarrow> int \<Rightarrow> (service_error, unit) result" where
  "requireReviewedVersion expected current = ensure (\<not> (expected > 0 \<and> expected \<noteq> current)) SvcTransactionVersionStale"

definition checkpointImpactRefusal :: "(int list \<Rightarrow> checkpoint_error) \<Rightarrow> CheckpointInvalidationRef list \<Rightarrow> service_error" where
  "checkpointImpactRefusal err refs = SvcCheckpointImpact (err (sort (remdups (map rf_CheckpointID refs))))"

definition resolveCheckpointRefs :: "store \<Rightarrow> PeriodScopedCheckpointRef list \<Rightarrow> CheckpointInvalidationRef list" where
  "resolveCheckpointRefs st candidates = periodScopedCheckpointInvalidationRefs (st_checkpoints st) BookID candidates"

definition rejectIfCheckpointAlreadyInTheWay :: "store \<Rightarrow> PeriodScopedCheckpointRef list \<Rightarrow> bool \<Rightarrow> (service_error, unit) result" where
  "rejectIfCheckpointAlreadyInTheWay st candidates override = (
     if override \<or> candidates = [] then Inr ()
     else let refs = resolveCheckpointRefs st candidates in
       if refs \<noteq> [] then Inl (checkpointImpactRefusal ErrReconciliationOverrideRequired refs) else Inr ())"

section \<open>Definitions: preparing a specification\<close>

text \<open>
  The request restated: an edit that keeps the journal takes the stored one, and metadata an edit leaves out is kept.
\<close>

definition keptJournalSpec :: "TransactionInput \<Rightarrow> TransactionRecord \<Rightarrow> bool \<Rightarrow> (service_error, TransactionInput) result" where
  "keptJournalSpec spec current keep = (
     if \<not> keep then Inr spec
     else if ti_JournalEntries spec \<noteq> [] then Inl KeptJournalNamesEntries
     else Inr (spec\<lparr> ti_JournalEntries := ti_JournalEntries (storedTransactionInput (toTransaction current)), ti_storedJournal := True \<rparr>))"

definition preserveOmittedMetadata :: "TransactionInput \<Rightarrow> Transaction \<Rightarrow> TransactionInput" where
  "preserveOmittedMetadata spec stored = (
     let entries = t_JournalEntries stored;
         entryMetadata = (case entries of [] \<Rightarrow> [] | e # _ \<Rightarrow> e_MetadataJSON e);
         shared = list_all (\<lambda>e. e_MetadataJSON e = entryMetadata) entries;
         postingMetadata = map_of (rev (concat (map (\<lambda>e. map (\<lambda>p. (p_LineKey p, p_MetadataJSON p)) (e_Postings e)) entries)));
         keepPosting = (\<lambda>posting. case postingMetadata (TrimSpace (pi_LineKey posting)) of
             Some recorded \<Rightarrow> if TrimSpace (pi_MetadataJSON posting) = [] \<and> pi_LineKey posting \<noteq> [] then posting\<lparr> pi_MetadataJSON := recorded \<rparr> else posting
           | None \<Rightarrow> posting);
         keepEntry = (\<lambda>entry. (if TrimSpace (je_MetadataJSON entry) = [] \<and> shared then entry\<lparr> je_MetadataJSON := entryMetadata \<rparr> else entry)
           \<lparr> je_Postings := map keepPosting (je_Postings entry) \<rparr>) in
     (if TrimSpace (ti_MetadataJSON spec) = [] then spec\<lparr> ti_MetadataJSON := t_MetadataJSON stored \<rparr> else spec)
       \<lparr> ti_JournalEntries := map keepEntry (ti_JournalEntries spec) \<rparr>)"

text \<open>Cleaning against the tables of a store, collecting the account versions relied on.\<close>

definition cleanAgainst :: "ledgerEnv \<Rightarrow> store \<Rightarrow> accountRuleDependencies \<Rightarrow> cleanTransactionOptions \<Rightarrow> TransactionInput
    \<Rightarrow> (service_error, TransactionSpec \<times> AccountRuleDependency list) result" where
  "cleanAgainst env st deps options input = (
     case cleanTransactionSpec (env\<lparr> env_tables := st_reference st \<rparr>) options input \<lparr> cs_deps = deps, cs_drawn = 0 \<rparr> of
       (s, Inl e) \<Rightarrow> Inl (Invalid e)
     | (s, Inr spec) \<Rightarrow> Inr (spec, dependencies_list (cs_deps s)))"

section \<open>Definitions: create\<close>

text \<open>\<open>now\<close> is the clock's answer in RFC 3339. \<open>guarded\<close> says that the writer guards the checkpoints itself.\<close>

definition prepareCreateTransaction :: "ledgerEnv \<Rightarrow> string \<Rightarrow> store \<Rightarrow> accountRuleDependencies \<Rightarrow> cleanTransactionOptions \<Rightarrow> CreateTransactionInput
    \<Rightarrow> (service_error, CreateTransactionParams) result" where
  "prepareCreateTransaction env now st deps options input =
     bindR (ensure (ci_OwnerUserID input > 0) OwnerRequired) (\<lambda>_.
     bindR (ensure (\<not> (TrimSpace (ti_Status (ci_Spec input)) = ''draft'' \<and> TrimSpace (ci_OriginType input) = ''browser_api''))
       ErrTransactionDraftNotUserCreatable) (\<lambda>_.
     bindR (cleanAgainst env st deps (options\<lparr> op_OwnerUserID := ci_OwnerUserID input, op_DefaultStatus := ''posted'' \<rparr>) (ci_Spec input)) (\<lambda>(spec, dependencies).
     bindR (cleanChangeReason (ci_ChangeReason input) ''created transaction'') (\<lambda>changeReason.
     Inr \<lparr> ct_BookID = BookID, ct_CorrectionOfTransactionID = ci_CorrectionOfTransactionID input, ct_ActorUserID = ci_OwnerUserID input,
       ct_AuthSessionID = ci_AuthSessionID input, ct_RequestID = ci_RequestID input, ct_OriginType = ci_OriginType input,
       ct_Operation = (if TrimSpace (ci_Operation input) = [] then ''transaction.create'' else TrimSpace (ci_Operation input)),
       ct_Spec = spec, ct_CreatedAt = now, ct_ChangeReason = changeReason, ct_AuditMetadataJSON = [], ct_CheckpointCandidates = [],
       ct_ReconciliationOverride = False, ct_ReviewedCheckpointIDs = None, ct_InvalidateCheckpointReason = [],
       ct_AccountRuleDependencies = dependencies \<rparr>))))"

definition prepareCreateTransactionForWriteWithOptions :: "ledgerEnv \<Rightarrow> string \<Rightarrow> store \<Rightarrow> (int \<times> int) list \<Rightarrow> bool \<Rightarrow> cleanTransactionOptions
    \<Rightarrow> CreateTransactionInput \<Rightarrow> (service_error, CreateTransactionParams) result" where
  "prepareCreateTransactionForWriteWithOptions env now st deps guarded options input =
     bindR (prepareCreateTransaction env now st (Some deps) options input) (\<lambda>params.
     let candidates = reconciliationCandidatesFromSpec (ct_Spec params) in
     bindR (if \<not> ci_ReconciliationOverride input \<and> \<not> guarded
       then (let refs = resolveCheckpointRefs st candidates in
         if refs \<noteq> [] then Inl (checkpointImpactRefusal ErrReconciliationOverrideRequired refs) else Inr ())
       else Inr ()) (\<lambda>_.
     Inr (params\<lparr> ct_CheckpointCandidates := candidates, ct_ReconciliationOverride := ci_ReconciliationOverride input,
       ct_ReviewedCheckpointIDs := ci_ReconciliationOverrideCheckpointIDs input, ct_InvalidateCheckpointReason := ct_ChangeReason params \<rparr>)))"

definition plainOptions :: cleanTransactionOptions where
  "plainOptions = \<lparr> op_OwnerUserID = 0, op_DefaultStatus = [], op_ForcedStatus = [], op_ExistingLineKeys = None,
     op_ExistingPostings = Map.empty, op_AllowSubledgerManagedPostings = False \<rparr>"

definition prepareCreateTransactionForWrite :: "ledgerEnv \<Rightarrow> string \<Rightarrow> store \<Rightarrow> CreateTransactionInput \<Rightarrow> (service_error, CreateTransactionParams) result" where
  "prepareCreateTransactionForWrite env now st input = prepareCreateTransactionForWriteWithOptions env now st [] False plainOptions input"

definition prepareCreateTransactionForWriteCarrying :: "ledgerEnv \<Rightarrow> string \<Rightarrow> store \<Rightarrow> (int \<times> int) list \<Rightarrow> CreateTransactionInput
    \<Rightarrow> (service_error, CreateTransactionParams) result" where
  "prepareCreateTransactionForWriteCarrying env now st deps input = prepareCreateTransactionForWriteWithOptions env now st deps True plainOptions input"

definition prepareInvestmentTransactionForWrite :: "ledgerEnv \<Rightarrow> string \<Rightarrow> store \<Rightarrow> (int \<times> int) list \<Rightarrow> CreateTransactionInput
    \<Rightarrow> (service_error, CreateTransactionParams) result" where
  "prepareInvestmentTransactionForWrite env now st deps input =
     prepareCreateTransactionForWriteWithOptions env now st deps True (plainOptions\<lparr> op_AllowSubledgerManagedPostings := True \<rparr>) input"

text \<open>What \<^verbatim>\<open>CreateTransaction\<close> does before the repository writes.\<close>

definition prepareCreate :: "ledgerEnv \<Rightarrow> string \<Rightarrow> store \<Rightarrow> CreateTransactionInput \<Rightarrow> (service_error, CreateTransactionParams) result" where
  "prepareCreate env now st input =
     bindR (case ci_CorrectionOfTransactionID input of
         None \<Rightarrow> Inr input
       | Some originalID \<Rightarrow>
           bindR (rejectInvestmentLinkedMutation st originalID) (\<lambda>_.
             case TransactionByID st originalID of
               Inl _ \<Rightarrow> Inr input
             | Inr original \<Rightarrow> Inr (input\<lparr> ci_Spec := preserveOmittedMetadata (ci_Spec input) (toTransaction original) \<rparr>))) (\<lambda>restated.
     prepareCreateTransactionForWrite env now st restated)"

definition svc_CreateTransaction ::
  "(CreateTransactionParams \<Rightarrow> store \<Rightarrow> (write_error, store \<times> TransactionRecord) result) \<Rightarrow> bool \<Rightarrow> CreateTransactionParams \<Rightarrow> store
    \<Rightarrow> (service_error, store \<times> Transaction) result" where
  "svc_CreateTransaction investmentWrite batch params st =
     bindR (mapErr mapTransactionDBError (repo_CreateTransaction investmentWrite None batch params st)) (\<lambda>(st', record). Inr (st', toTransaction record))"

section \<open>Definitions: update and post\<close>

definition updateCandidates :: "TransactionRecord \<Rightarrow> TransactionSpec \<Rightarrow> bool \<Rightarrow> PeriodScopedCheckpointRef list" where
  "updateCandidates current spec promotingDraft = (
     if promotingDraft then periodScopedCandidatesFromRecord (rc_JournalEntries current) @ reconciliationCandidatesFromSpec spec
     else reconciliationCandidates (rc_Status current) (rc_JournalEntries current) spec)"

definition updateCleanOptions :: "UpdateTransactionInput \<Rightarrow> TransactionRecord \<Rightarrow> string \<Rightarrow> cleanTransactionOptions" where
  "updateCleanOptions input current forcedStatus = \<lparr> op_OwnerUserID = ui_OwnerUserID input, op_DefaultStatus = [], op_ForcedStatus = forcedStatus,
     op_ExistingLineKeys = Some (lineKeySet (rc_JournalEntries current)),
     op_ExistingPostings = existingPostingStateSet (rc_JournalEntries current), op_AllowSubledgerManagedPostings = False \<rparr>"

definition updateParams :: "string \<Rightarrow> UpdateTransactionInput \<Rightarrow> TransactionRecord \<Rightarrow> TransactionSpec \<Rightarrow> AccountRuleDependency list \<Rightarrow> PeriodScopedCheckpointRef list
    \<Rightarrow> string \<Rightarrow> UpdateTransactionParams" where
  "updateParams now input current spec dependencies candidates changeReason =
     \<lparr> up_BookID = BookID, up_TransactionID = ui_TransactionID input, up_ActorUserID = ui_OwnerUserID input,
       up_AuthSessionID = ui_AuthSessionID input, up_RequestID = ui_RequestID input, up_OriginType = ui_OriginType input,
       up_Operation = (if TrimSpace (ui_Operation input) = [] then ''transaction.update'' else TrimSpace (ui_Operation input)),
       up_Spec = spec, up_RecordedAt = now, up_ChangeReason = changeReason, up_CheckpointCandidates = candidates,
       up_ReconciliationOverride = ui_ReconciliationOverride input, up_ReviewedCheckpointIDs = ui_ReconciliationOverrideCheckpointIDs input,
       up_InvalidateCheckpointReason = changeReason, up_ExpectedVersionID = rc_VersionID current,
       up_AccountRuleDependencies = dependencies \<rparr>"

definition prepareUpdate :: "ledgerEnv \<Rightarrow> string \<Rightarrow> store \<Rightarrow> UpdateTransactionInput \<Rightarrow> (service_error, UpdateTransactionParams) result" where
  "prepareUpdate env now st input =
     bindR (ensure (ui_OwnerUserID input > 0) OwnerRequired) (\<lambda>_.
     bindR (ensure (ui_TransactionID input > 0) TransactionIDRequired) (\<lambda>_.
     bindR (mapErr mapTransactionDBError (TransactionByID st (ui_TransactionID input))) (\<lambda>current.
     bindR (ensure (\<not> (ui_ExpectedVersionID input > 0 \<and> ui_ExpectedVersionID input \<noteq> rc_VersionID current)) SvcTransactionVersionStale) (\<lambda>_.
     bindR (ensure (rc_Status current \<noteq> ''voided'') SvcTransactionVoided) (\<lambda>_.
     bindR (rejectInvestmentLinkedMutation st (ui_TransactionID input)) (\<lambda>_.
     bindR (keptJournalSpec (ui_Spec input) current (ui_KeepJournal input)) (\<lambda>kept.
     let requested = preserveOmittedMetadata kept (toTransaction current);
         promotingDraft = (rc_Status current = ''draft'' \<and> ui_AllowDraftPromotion input);
         forcedStatus = (if rc_Status current = ''draft'' \<and> \<not> promotingDraft then ''draft'' else ''posted'') in
     bindR (ensure (\<not> (ui_AllowDraftPromotion input \<and> ui_ExpectedVersionID input \<le> 0)) PromotionNamesNoVersion) (\<lambda>_.
     bindR (cleanAgainst env st (Some []) (updateCleanOptions input current forcedStatus) requested) (\<lambda>(spec, dependencies).
     let candidates = updateCandidates current spec promotingDraft in
     bindR (rejectIfCheckpointAlreadyInTheWay st candidates (ui_ReconciliationOverride input)) (\<lambda>_.
     bindR (cleanChangeReason (ui_ChangeReason input) ''updated transaction'') (\<lambda>changeReason.
     Inr (updateParams now input current spec dependencies candidates changeReason))))))))))))"

definition svc_UpdateTransaction :: "bool \<Rightarrow> UpdateTransactionParams \<Rightarrow> store \<Rightarrow> (service_error, store \<times> Transaction) result" where
  "svc_UpdateTransaction batch params st =
     bindR (mapErr mapTransactionDBError (repo_UpdateTransaction batch params st)) (\<lambda>(st', record). Inr (st', toTransaction record))"

text \<open>Posting a draft: the stored draft restated as posted, bound to the version it was read from.\<close>

definition preparePost :: "store \<Rightarrow> TransactionLifecycleInput \<Rightarrow> (service_error, UpdateTransactionInput prepared) result" where
  "preparePost st input =
     bindR (ensure (li_OwnerUserID input > 0) OwnerRequired) (\<lambda>_.
     bindR (ensure (li_TransactionID input > 0) TransactionIDRequired) (\<lambda>_.
     bindR (mapErr mapTransactionDBError (TransactionByID st (li_TransactionID input))) (\<lambda>record.
     let current = toTransaction record in
     bindR (requireReviewedVersion (li_ExpectedVersionID input) (t_VersionID current)) (\<lambda>_.
     bindR (ensure (t_Status current \<noteq> ''voided'') SvcTransactionVoided) (\<lambda>_.
     if t_Status current = ''posted'' then Inr (Unchanged current)
     else
     bindR (rejectInvestmentLinkedMutation st (li_TransactionID input)) (\<lambda>_.
     Inr (Prepared \<lparr> ui_OwnerUserID = li_OwnerUserID input, ui_AuthSessionID = li_AuthSessionID input, ui_RequestID = li_RequestID input,
       ui_OriginType = li_OriginType input, ui_Operation = ''transaction.post'', ui_TransactionID = li_TransactionID input,
       ui_Spec = (storedTransactionInput current)\<lparr> ti_Status := ''posted'' \<rparr>, ui_ChangeReason = li_ChangeReason input,
       ui_ReconciliationOverride = li_ReconciliationOverride input,
       ui_ReconciliationOverrideCheckpointIDs = li_ReconciliationOverrideCheckpointIDs input, ui_AllowDraftPromotion = True,
       ui_ExpectedVersionID = t_VersionID current, ui_KeepJournal = False \<rparr>)))))))"

section \<open>Definitions: void, unvoid, soft delete and restore\<close>

definition planVoid :: "store \<Rightarrow> int \<Rightarrow> (service_error, TransactionRecord \<times> PeriodScopedCheckpointRef list \<times> bool) result" where
  "planVoid st transactionID =
     bindR (mapErr mapTransactionDBError (TransactionByID st transactionID)) (\<lambda>current.
     if rc_Status current = ''voided'' then Inr (current, [], False)
     else if rc_Status current = ''draft'' then Inl ErrTransactionDraftNotVoidable
     else bindR (rejectInvestmentLinkedMutation st transactionID) (\<lambda>_.
       Inr (current, periodScopedCandidatesFromRecord (rc_JournalEntries current), True)))"

definition planUnvoid :: "Transaction \<Rightarrow> (service_error, PeriodScopedCheckpointRef list \<times> bool) result" where
  "planUnvoid current = (
     if t_DeletedAt current \<noteq> [] then Inl SvcTransactionDeleted
     else if t_Status current \<noteq> ''voided'' then Inr ([], False)
     else Inr (periodScopedCandidatesFromTransaction current, True))"

definition planSetDeleted :: "Transaction \<Rightarrow> bool \<Rightarrow> (service_error, PeriodScopedCheckpointRef list \<times> bool) result" where
  "planSetDeleted current deleted = (
     if (t_DeletedAt current \<noteq> []) = deleted then Inr ([], False)
     else if deleted \<and> t_Status current = ''draft'' then Inl ErrTransactionPosted
     else Inr (periodScopedCandidatesFromTransaction current, True))"

definition lifecycleParams :: "string \<Rightarrow> TransactionLifecycleInput \<Rightarrow> string \<Rightarrow> string \<Rightarrow> PeriodScopedCheckpointRef list \<Rightarrow> int \<Rightarrow> TransactionLifecycleParams" where
  "lifecycleParams now input operation changeReason candidates expectedVersionID = \<lparr> lp_BookID = BookID, lp_TransactionID = li_TransactionID input,
     lp_ActorUserID = li_OwnerUserID input, lp_AuthSessionID = li_AuthSessionID input, lp_RequestID = li_RequestID input,
     lp_OriginType = li_OriginType input, lp_Operation = operation, lp_RecordedAt = now, lp_ChangeReason = changeReason,
     lp_CheckpointCandidates = candidates, lp_ReconciliationOverride = li_ReconciliationOverride input,
     lp_ReviewedCheckpointIDs = li_ReconciliationOverrideCheckpointIDs input, lp_InvalidateCheckpointReason = changeReason,
     lp_ExpectedVersionID = expectedVersionID \<rparr>"

definition prepareVoid :: "string \<Rightarrow> store \<Rightarrow> TransactionLifecycleInput \<Rightarrow> (service_error, TransactionLifecycleParams prepared) result" where
  "prepareVoid now st input =
     bindR (ensure (li_OwnerUserID input > 0) OwnerRequired) (\<lambda>_.
     bindR (ensure (li_TransactionID input > 0) TransactionIDRequired) (\<lambda>_.
     bindR (cleanChangeReason (li_ChangeReason input) []) (\<lambda>changeReason.
     bindR (ensure (changeReason \<noteq> []) ChangeReasonRequired) (\<lambda>_.
     bindR (planVoid st (li_TransactionID input)) (\<lambda>(current, candidates, changes).
     bindR (requireReviewedVersion (li_ExpectedVersionID input) (rc_VersionID current)) (\<lambda>_.
     if \<not> changes then Inr (Unchanged (toTransaction current))
     else
     bindR (rejectIfCheckpointAlreadyInTheWay st candidates (li_ReconciliationOverride input)) (\<lambda>_.
     Inr (Prepared (lifecycleParams now input ''transaction.void'' changeReason candidates (rc_VersionID current))))))))))"

definition prepareLifecycleChange :: "store \<Rightarrow> TransactionLifecycleInput \<Rightarrow> bool \<Rightarrow> (service_error, Transaction \<times> string) result" where
  "prepareLifecycleChange st input requireReason =
     bindR (ensure (li_OwnerUserID input > 0) OwnerRequired) (\<lambda>_.
     bindR (ensure (li_TransactionID input > 0) TransactionIDRequired) (\<lambda>_.
     bindR (mapErr mapTransactionDBError (TransactionByIDIncludingDeleted st (li_TransactionID input))) (\<lambda>record.
     bindR (requireReviewedVersion (li_ExpectedVersionID input) (rc_VersionID record)) (\<lambda>_.
     bindR (rejectInvestmentLinkedMutation st (li_TransactionID input)) (\<lambda>_.
     bindR (cleanChangeReason (li_ChangeReason input) []) (\<lambda>reason.
     bindR (ensure (\<not> (requireReason \<and> reason = [])) ChangeReasonRequired) (\<lambda>_.
     Inr (toTransaction record, reason))))))))"

definition prepareUnvoid :: "string \<Rightarrow> store \<Rightarrow> TransactionLifecycleInput \<Rightarrow> (service_error, TransactionLifecycleParams prepared) result" where
  "prepareUnvoid now st input =
     bindR (prepareLifecycleChange st input True) (\<lambda>(current, changeReason).
     bindR (planUnvoid current) (\<lambda>(candidates, changes).
     if \<not> changes then Inr (Unchanged current)
     else
     bindR (rejectIfCheckpointAlreadyInTheWay st candidates (li_ReconciliationOverride input)) (\<lambda>_.
     Inr (Prepared (lifecycleParams now input ''transaction.unvoid'' changeReason candidates (t_VersionID current))))))"

definition prepareSetDeleted :: "string \<Rightarrow> store \<Rightarrow> TransactionLifecycleInput \<Rightarrow> bool \<Rightarrow> (service_error, TransactionLifecycleParams prepared) result" where
  "prepareSetDeleted now st input deleted =
     bindR (prepareLifecycleChange st input True) (\<lambda>(current, changeReason).
     bindR (planSetDeleted current deleted) (\<lambda>(candidates, changes).
     if \<not> changes then Inr (Unchanged current)
     else
     bindR (rejectIfCheckpointAlreadyInTheWay st candidates (li_ReconciliationOverride input)) (\<lambda>_.
     Inr (Prepared (lifecycleParams now input (if deleted then ''transaction.soft_delete'' else ''transaction.restore'') changeReason
       candidates (t_VersionID current))))))"

section \<open>Definitions: approve and discard\<close>

definition prepareApprove :: "string \<Rightarrow> ApproveTransactionInput \<Rightarrow> (service_error, ApproveTransactionParams) result" where
  "prepareApprove now input =
     bindR (ensure (ai_OwnerUserID input > 0) OwnerRequired) (\<lambda>_.
     bindR (ensure (ai_TransactionID input > 0) TransactionIDRequired) (\<lambda>_.
     Inr \<lparr> ax_BookID = BookID, ax_TransactionID = ai_TransactionID input, ax_ActorUserID = ai_OwnerUserID input,
       ax_AuthSessionID = ai_AuthSessionID input, ax_RequestID = ai_RequestID input, ax_OriginType = ai_OriginType input,
       ax_Operation = ''transaction.approve'', ax_RecordedAt = now, ax_ChangeReason = ai_ChangeReason input \<rparr>))"

definition prepareDeleteDraft :: "string \<Rightarrow> store \<Rightarrow> DeleteDraftTransactionInput \<Rightarrow> (service_error, DeleteDraftTransactionParams) result" where
  "prepareDeleteDraft now st input =
     bindR (ensure (di_OwnerUserID input > 0) OwnerRequired) (\<lambda>_.
     bindR (ensure (di_TransactionID input > 0) TransactionIDRequired) (\<lambda>_.
     bindR (rejectInvestmentLinkedMutation st (di_TransactionID input)) (\<lambda>_.
     Inr \<lparr> dd_BookID = BookID, dd_TransactionID = di_TransactionID input, dd_ActorUserID = di_OwnerUserID input,
       dd_AuthSessionID = di_AuthSessionID input, dd_RequestID = di_RequestID input,
       dd_OriginType = (if TrimSpace (di_OriginType input) = [] then ''browser_api'' else TrimSpace (di_OriginType input)),
       dd_Operation = ''transaction.delete_draft'', dd_ChangeReason = ''hard-deleted never-posted draft'', dd_OccurredAt = now \<rparr>)))"

end
