(* ===== verification/Ledger.thy ===== *)
theory Ledger
  imports Lifecycle
begin

text \<open>
  The ledger as its writes change it over time: what each committed write keeps of the store's invariant and of the
  balances that active checkpoints closed, when it was prepared against an earlier store.
\<close>

section \<open>What a preparation read\<close>

lemma journal_loaded:
  assumes "storeOk st" and "v \<in> set (st_versions st)"
  shows "journalEntriesForVersion st (tv_id v) = map (withTags st) (tv_entries v)"
  using find_distinct [OF storeOk_parts(2) [OF assms(1)] assms(2)] by (simp add: journalEntriesForVersion_def)

lemma currentByKey_withTags:
  "currentByKey (map (withTags st) es) k =
    map_option (\<lambda>cur. (fst cur, (snd cur)\<lparr> pr_TagIDs := postingTagIDs st (pr_PostingLineID (snd cur)) \<rparr>)) (currentByKey es k)"
proof -
  let ?g = "\<lambda>cur. (fst cur, (snd cur)\<lparr> pr_TagIDs := postingTagIDs st (pr_PostingLineID (snd cur)) \<rparr>)"
  have "map_of (rev (map (\<lambda>cur. (pr_LineKey (snd cur), cur)) (map ?g xs))) k = map_option ?g (map_of (rev (map (\<lambda>cur. (pr_LineKey (snd cur), cur)) xs)) k)" for xs
    by (induction xs) (simp_all add: map_add_def split: option.splits)
  then show ?thesis by (simp add: currentByKey_def recordPostings_withTags)
qed

lemma movesReconciled_tags: "movesReconciled (map_option (\<lambda>cur. (fst cur, (snd cur)\<lparr> pr_TagIDs := f cur \<rparr>)) c) n = movesReconciled c n"
  by (cases c) (simp_all add: movesReconciled_def reconciliationAffectingChange_def split: option.splits)

lemma recordCandidate_tags: "recordCandidate (the (map_option (\<lambda>cur. (fst cur, (snd cur)\<lparr> pr_TagIDs := f cur \<rparr>)) c)) = recordCandidate (the c)"
  by (cases c) (simp_all add: recordCandidate_def)

lemma reconciliationCandidates_withTags: "reconciliationCandidates s (map (withTags st) es) spec = reconciliationCandidates s es spec"
proof -
  have "map (pr_LineKey \<circ> snd) (recordPostings (map (withTags st) es)) = map (pr_LineKey \<circ> snd) (recordPostings es)"
    by (simp add: recordPostings_withTags)
  then show ?thesis
    by (simp add: reconciliationCandidates_def Let_def currentByKey_withTags movesReconciled_tags recordCandidate_tags cong: if_cong)
qed

lemma TransactionByIDIncludingDeleted_Inr:
  assumes "storeOk st" and "TransactionByIDIncludingDeleted st t = Inr r"
  obtains row v where "row \<in> set (st_transactions st)" "tr_book_id row = BookID" "tr_id row = t" "currentVersion st t = Some v"
    "rc_VersionID r = tv_id v" "rc_Status r = tv_status v" "rc_DeletedAt r = tr_deleted_at row" "rc_JournalEntries r = map (withTags st) (tv_entries v)"
proof -
  from assms(2) obtain r0 where r0: "transactionByID st BookID t = Inr r0" "r = loadTransactionChildren st r0"
    by (auto simp: TransactionByIDIncludingDeleted_def result_simps)
  from transactionByID_Inr [OF r0(1)] obtain row v where f: "row \<in> set (st_transactions st)" "tr_book_id row = BookID" "tr_id row = t"
    "currentVersion st t = Some v" "r0 = transactionVersionRecord st row v" .
  have "journalEntriesForVersion st (tv_id v) = map (withTags st) (tv_entries v)"
    by (rule journal_loaded [OF assms(1)]) (use currentVersion_in [OF f(4)] in simp)
  then show ?thesis using that [OF f(1-4)] f(5) r0(2) by (simp add: loadTransactionChildren_def transactionVersionRecord_def)
qed

lemma TransactionByID_Inr:
  assumes "TransactionByID st t = Inr r"
  shows "TransactionByIDIncludingDeleted st t = Inr r" "rc_DeletedAt r = None"
  using assms by (auto simp: TransactionByID_def result_simps split: if_splits)

lemma cleanAgainst_Inr:
  assumes "cleanAgainst env st deps options input = Inr (spec, dependencies)"
  shows "distinct (specKeys spec)" "ts_Status spec = ''draft'' \<or> ts_Status spec = ''posted''" "op_ForcedStatus options \<noteq> [] \<Longrightarrow> ts_Status spec = op_ForcedStatus options"
proof -
  from assms obtain s where c: "cleanTransactionSpec (env\<lparr> env_tables := st_reference st \<rparr>) options input \<lparr> cs_deps = deps, cs_drawn = 0 \<rparr> = (s, Inr spec)"
    by (auto simp: cleanAgainst_def split: prod.splits sum.splits)
  have "map (ps_LineKey \<circ> snd) (specPostings es) = map ps_LineKey (concat (map es_Postings es))" for es
    by (induction es) (simp_all add: specPostings_def)
  moreover have "distinct (map ps_LineKey (concat (map es_Postings (ts_JournalEntries spec))))" using c by (rule cleanTransactionSpec_Inr)
  ultimately show "distinct (specKeys spec)" by (simp add: specKeys_def)
  have st: "cleanStatus options (ti_Status input) = Inr (ts_Status spec)" using c by (rule cleanTransactionSpec_Inr)
  show "ts_Status spec = ''draft'' \<or> ts_Status spec = ''posted''" "op_ForcedStatus options \<noteq> [] \<Longrightarrow> ts_Status spec = op_ForcedStatus options"
    using cleanStatus_Inr [OF st] by blast+
qed

lemma prepareUpdate_Inr:
  assumes ok: "storeOk st" and p: "prepareUpdate env now st input = Inr params"
  obtains v where "currentVersion st (up_TransactionID params) = Some v" "up_ExpectedVersionID params = tv_id v" "up_BookID params = BookID"
    "tv_status v \<noteq> ''voided''" "distinct (specKeys (up_Spec params))"
    "ts_Status (up_Spec params) = (if tv_status v = ''draft'' \<and> \<not> ui_AllowDraftPromotion input then ''draft'' else ''posted'')"
    "up_CheckpointCandidates params = (if tv_status v = ''draft'' \<and> ui_AllowDraftPromotion input
      then periodScopedCandidatesFromRecord (tv_entries v) @ reconciliationCandidatesFromSpec (up_Spec params)
      else reconciliationCandidates (tv_status v) (tv_entries v) (up_Spec params))"
proof -
  define forced where "forced current = (if rc_Status current = ''draft'' \<and> \<not> ui_AllowDraftPromotion input then ''draft'' else ''posted'')" for current :: TransactionRecord
  have eq: "(if rc_Status r = ''draft'' \<and> \<not> (rc_Status r = ''draft'' \<and> ui_AllowDraftPromotion input) then ''draft'' else ''posted'') = forced r" for r :: TransactionRecord
    by (simp add: forced_def)
  from p obtain current requested spec dependencies changeReason where
    c: "TransactionByID st (ui_TransactionID input) = Inr current" "rc_Status current \<noteq> ''voided''"
    and spec: "cleanAgainst env st (Some []) (updateCleanOptions input current (forced current)) requested = Inr (spec, dependencies)"
    and params: "params = updateParams now input current spec dependencies
      (updateCandidates current spec (rc_Status current = ''draft'' \<and> ui_AllowDraftPromotion input)) changeReason"
    unfolding prepareUpdate_def Let_def eq by (auto simp: result_simps)
  from TransactionByIDIncludingDeleted_Inr [OF ok TransactionByID_Inr(1) [OF c(1)]] obtain row v where v: "currentVersion st (ui_TransactionID input) = Some v"
    "rc_VersionID current = tv_id v" "rc_Status current = tv_status v" "rc_JournalEntries current = map (withTags st) (tv_entries v)" .
  have "ts_Status spec = forced current"
    using cleanAgainst_Inr(3) [OF spec] by (simp add: updateCleanOptions_def forced_def)
  then show ?thesis using that [of v] v c(2) params cleanAgainst_Inr(1) [OF spec]
    by (simp add: updateParams_def forced_def updateCandidates_def candidates_withTags reconciliationCandidates_withTags)
qed

section \<open>A prepared write, committed\<close>

lemma same_version:
  assumes "storeOk st" and "v0 \<in> set (st_versions st)" and "v \<in> set (st_versions st)" and "tv_id v0 = tv_id v"
  shows "v0 = v"
  using storeOk_parts(2) [OF assms(1)] assms(2-4) by (simp add: distinct_map inj_on_def)

lemma balancesKept_audit: "balancesKept (st\<lparr> st_audit := A \<rparr>) st' = balancesKept st st'"
  using registerBalance_reads [of "st\<lparr> st_audit := A \<rparr>" st] by (simp add: balancesKept_def)

lemma currentVersion_audit [simp]: "currentVersion (st\<lparr> st_audit := A \<rparr>) t = currentVersion st t" "priorVersion (st\<lparr> st_audit := A \<rparr>) t = priorVersion st t"
  by (simp_all add: currentVersion_def priorVersion_def versionsOf_def)

text \<open>
  The common part of the writes that append a version to a transaction and then ask the guard: given what the new version
  contributes to the balances of the checkpoints the guard leaves alone, the invariant and the balances are kept.
\<close>

lemma next_version_kept:
  assumes ok: "storeOk st" and row: "row \<in> set (st_transactions st)" "tr_book_id row = b" "tr_id row = t" and cur: "currentVersion st t = Some v"
    and i: "insertTransactionVersion vp (st\<lparr> st_audit := A \<rparr>) = Inr (st2, rec)" and g: "enforceBoundary batch bp st2 = Inr (st3, ids)"
    and vp: "iv_BookID vp = b" "iv_TransactionID vp = t" "iv_VersionSeq vp = tv_version_seq v + 1" "iv_SupersedesVersionID vp = Some (tv_id v)"
      "iv_PostingSeqOverrides vp = Map.empty" and bp: "bp_BookID bp = b" and keys: "distinct (specKeys (iv_Spec vp))"
    and status: "ts_Status (iv_Spec vp) \<in> set transactionStatuses"
    and void: "ts_Status (iv_Spec vp) = ''voided'' \<Longrightarrow> \<forall>u. priorVersion st t = Some u \<longrightarrow>
      map postingCore (recordPostings (tv_entries u)) = map specCore (specPostings (ts_JournalEntries (iv_Spec vp)))"
    and eq: "\<And>c st' entries n k. storeOk (st\<lparr> st_audit := A \<rparr>) \<Longrightarrow> supersedesWith vp (st\<lparr> st_audit := A \<rparr>) v st' entries \<Longrightarrow>
      c \<in> set (st_checkpoints st) \<Longrightarrow> ck_status c = ''active'' \<Longrightarrow> ck_book_id c = b \<Longrightarrow> tr_deleted_at row = None \<Longrightarrow> \<not> covered bp c \<Longrightarrow>
      contribution c (versionRowOf vp n k entries) = contribution c v"
  shows "storeOk st3 \<and> balancesKept st st3 \<and> set (st_versions st) \<subseteq> set (st_versions st3)"
proof -
  let ?st = "st\<lparr> st_audit := A \<rparr>"
  have ok1: "storeOk ?st" by (rule storeOk_audit [OF ok])
  from insertTransactionVersion_Inr [OF i] obtain entries where a: "versionAdded vp ?st st2 entries" .
  have v: "v \<in> set (st_versions st)" "tv_transaction_id v = t" "tv_book_id v = b"
    using currentVersion_in [OF cur] rowOfVersion [OF ok row(1)] cur row(2,3) by simp_all
  have sup: "supersedesWith vp ?st v st2 entries" using a v vp by (simp add: supersedesWith_def)
  have chain: "nextInChain vp ?st" by (rule current_chain [of _ t v]) (simp_all add: cur vp)
  have ok2: "storeOk st2"
    by (rule versionAdded_storeOk [OF ok1 a chain _ keys _ status]) (use row vp void in auto)
  have "storeOk st3 \<and> balancesKept ?st st3"
    by (rule version_kept [OF ok1 a, of row v, OF _ _ _ _ chain ok2 g]) (use row vp cur eq [OF ok1 sup] in auto)
  moreover have "st_versions st3 = st_versions st @ [newVersion vp ?st entries]"
    using enforceBoundary_Inr(3) [OF ok2 g] versionAdded_frame(2) [OF a] by simp
  ultimately show ?thesis by (auto simp: balancesKept_audit)
qed

lemma update_committed:
  assumes ok0: "storeOk st0" and ok: "storeOk st" and sub: "set (st_versions st0) \<subseteq> set (st_versions st)"
    and p: "prepareUpdate env now st0 input = Inr params" and w: "repo_UpdateTransaction batch params st = Inr (st', r)"
    and kept: "\<forall>v. currentVersion st (up_TransactionID params) = Some v \<longrightarrow> commodityKept (tv_entries v) (up_Spec params)"
  shows "storeOk st' \<and> balancesKept st st' \<and> set (st_versions st) \<subseteq> set (st_versions st')"
proof -
  from prepareUpdate_Inr [OF ok0 p] obtain v0 where v0: "currentVersion st0 (up_TransactionID params) = Some v0" "up_ExpectedVersionID params = tv_id v0"
    "up_BookID params = BookID" "tv_status v0 \<noteq> ''voided''" "distinct (specKeys (up_Spec params))"
    "ts_Status (up_Spec params) = (if tv_status v0 = ''draft'' \<and> \<not> ui_AllowDraftPromotion input then ''draft'' else ''posted'')"
    "up_CheckpointCandidates params = (if tv_status v0 = ''draft'' \<and> ui_AllowDraftPromotion input
      then periodScopedCandidatesFromRecord (tv_entries v0) @ reconciliationCandidatesFromSpec (up_Spec params)
      else reconciliationCandidates (tv_status v0) (tv_entries v0) (up_Spec params))" .
  from w obtain current st1 audit st2 rec ids where
    t: "transactionByID st (up_BookID params) (up_TransactionID params) = Inr current" "up_ExpectedVersionID params = rc_VersionID current"
    and au: "insertAuditEvent (updateAudit params) st = Inr (st1, audit)"
    and i: "insertTransactionVersion (updateVersion params current audit) st1 = Inr (st2, rec)"
    and g: "enforceBoundary batch (updateBoundary params audit) st2 = Inr (st', ids)"
    by (auto simp: repo_UpdateTransaction_def requireExpectedVersionTx_def result_simps split: if_splits)
  from insertAuditEvent_Inr [OF au] obtain A where A: "st1 = st\<lparr> st_audit := A \<rparr>" ..
  from transactionByID_Inr [OF t(1)] obtain row v where f: "row \<in> set (st_transactions st)" "tr_book_id row = up_BookID params"
    "tr_id row = up_TransactionID params" "currentVersion st (up_TransactionID params) = Some v" "current = transactionVersionRecord st row v" .
  have "v0 \<in> set (st_versions st)" using currentVersion_in [OF v0(1)] sub by blast
  then have vv: "v0 = v" using same_version [OF ok] currentVersion_in [OF f(4)] t(2) v0(2) f(5) by (simp add: transactionVersionRecord_def)
  let ?vp = "updateVersion params current audit" let ?bp = "updateBoundary params audit"
  have k: "commodityKept (tv_entries v) (up_Spec params)" using kept f(4) by blast
  have spec: "iv_Spec ?vp = up_Spec params" "iv_BookID ?vp = up_BookID params" "iv_PostingSeqOverrides ?vp = Map.empty"
    by (simp_all add: updateVersion_def)
  have bp: "bp_BookID ?bp = up_BookID params" "bp_Candidates ?bp = up_CheckpointCandidates params" by (simp_all add: updateBoundary_def)
  have share: "contribution c (versionRowOf ?vp n m entries) = contribution c v"
    if ok1: "storeOk (st\<lparr> st_audit := A \<rparr>)" and s: "supersedesWith ?vp (st\<lparr> st_audit := A \<rparr>) v st'' entries"
      and c: "c \<in> set (st_checkpoints st)" "ck_status c = ''active''" "ck_book_id c = up_BookID params" "\<not> covered ?bp c" for c st'' entries n m
  proof -
    have far: "\<not> reaches (up_BookID params) cand c" if "cand \<in> set (up_CheckpointCandidates params)" for cand
      using c(4) that by (auto simp: covered_def list_ex_iff bp)
    note cc = c(1,3,2)
    consider "tv_status v = ''draft''" "ts_Status (up_Spec params) = ''draft''" | "tv_status v = ''draft''" "ui_AllowDraftPromotion input"
      "ts_Status (up_Spec params) = ''posted''" | "tv_status v \<noteq> ''draft''" "ts_Status (up_Spec params) = ''posted''"
      using v0(6) vv by (auto split: if_splits)
    then show ?thesis
    proof cases
      case 1
      then show ?thesis by (simp add: contribution_def spec)
    next
      case 2
      have "rawSum c entries = 0"
      proof (rule promotion_raw [OF ok1 s spec(3)])
        show "commodityKept (tv_entries v) (iv_Spec ?vp)" using k spec by simp
        show "c \<in> set (st_checkpoints (st\<lparr> st_audit := A \<rparr>))" "ck_book_id c = iv_BookID ?vp" "ck_status c = ''active''" using cc spec by simp_all
        show "\<not> inside c old" if "old \<in> set (recordPostings (tv_entries v))" for old
          using far [of "recordCandidate old"] reaches_inside [OF cc(2,3), of old] that 2 v0(7) vv by (auto simp: periodScopedCandidatesFromRecord_def)
        show "\<not> reaches (iv_BookID ?vp) (specCandidate nxt) c" if "nxt \<in> set (specPostings (ts_JournalEntries (iv_Spec ?vp)))" for nxt
          using far [of "specCandidate nxt"] that 2 v0(7) vv spec by (auto simp: reconciliationCandidatesFromSpec_def)
      qed
      then show ?thesis using 2 by (simp add: contribution_rawSum spec)
    next
      case 3
      have "tv_status v = ''posted'' \<Longrightarrow> contribution c (versionRowOf ?vp n m entries) = contribution c v"
        by (rule update_share [OF ok1 s spec(3)]) (use k v0(5) 3 v0(7) vv cc far spec in auto)
      then show ?thesis using storeOk_parts(10) [OF ok currentVersion_in [OF f(4), THEN conjunct1]] 3 v0(4) vv by (auto simp: transactionStatuses_def)
    qed
  qed
  show ?thesis
    by (rule next_version_kept [OF ok f(1,2,3,4), of "updateVersion params current audit" A st2 rec batch "updateBoundary params audit" st' ids])
      (use i [unfolded A] g f(5) v0(5) bp share v0(6) in \<open>auto simp: updateVersion_def transactionVersionRecord_def transactionStatuses_def split: if_splits\<close>)
qed

section \<open>Void and unvoid\<close>

lemma lastBy_filter: "lastBy key vs = Some v \<Longrightarrow> P v \<Longrightarrow> lastBy key (filter P vs) = Some v"
proof (induction vs arbitrary: v)
  case (Cons a vs)
  show ?case
  proof (cases "lastBy key vs")
    case None
    then show ?thesis using Cons.prems by simp
  next
    case (Some w)
    show ?thesis
    proof (cases "key w > key a")
      case True
      then have "v = w" using Cons.prems Some by simp
      then show ?thesis using Cons.IH [OF Some] Cons.prems(2) True by (cases "P a") simp_all
    next
      case False
      then have v: "v = a" using Cons.prems Some by simp
      have "key x \<le> key a" if "lastBy key (filter P vs) = Some x" for x
        using lastBy_ge [OF Some, of x] lastBy_in [OF that] False by auto
      then show ?thesis using v Cons.prems(2) by (cases "lastBy key (filter P vs)") (auto simp: not_less)
    qed
  qed
qed simp

lemma prior_current: "currentVersion st t = Some v \<Longrightarrow> tv_status v \<noteq> ''voided'' \<Longrightarrow> priorVersion st t = Some v"
  by (simp add: currentVersion_def priorVersion_def lastBy_filter)

lemma copied_keys:
  assumes "storeOk st" and "v \<in> set (st_versions st)" and "map specCore (specPostings (ts_JournalEntries spec)) = map postingCore (recordPostings (tv_entries v))"
  shows "distinct (specKeys spec)"
  using storeOk_parts(4) [OF assms(1,2)] core_keys [OF assms(3)] by (simp add: specKeys_def journalOk_def)

lemma candidates_toTransaction: "periodScopedCandidatesFromTransaction (toTransaction r) = periodScopedCandidatesFromRecord (rc_JournalEntries r)"
  by (simp add: periodScopedCandidatesFromTransaction_def toTransaction_def periodScopedCandidatesFromRecord_def recordPostings_def
      recordCandidate_def toPosting_def map_concat o_def)

lemma record_core:
  assumes "storeOk st" and "v \<in> set (st_versions st)" and "rc_VersionID r = tv_id v"
  shows "map specCore (specPostings (ts_JournalEntries (transactionSpecFromRecord (loadTransactionChildren st r)))) = map postingCore (recordPostings (tv_entries v))"
  unfolding specFromRecord_core using journal_loaded [OF assms(1,2)] assms(3) by (simp add: loadTransactionChildren_def core_withTags)

lemma prepareVoid_Inr:
  assumes ok: "storeOk st" and p: "prepareVoid now st input = Inr (Prepared params)"
  obtains v where "currentVersion st (lp_TransactionID params) = Some v" "lp_ExpectedVersionID params = tv_id v"
    "lp_CheckpointCandidates params = periodScopedCandidatesFromRecord (tv_entries v)" "lp_BookID params = BookID"
proof -
  from p obtain current candidates changeReason where c: "TransactionByID st (li_TransactionID input) = Inr current"
    and params: "params = lifecycleParams now input ''transaction.void'' changeReason (periodScopedCandidatesFromRecord (rc_JournalEntries current)) (rc_VersionID current)"
    by (auto simp: prepareVoid_def planVoid_def result_simps split: if_splits)
  from TransactionByIDIncludingDeleted_Inr [OF ok TransactionByID_Inr(1) [OF c]] obtain row v where v: "currentVersion st (li_TransactionID input) = Some v"
    "rc_VersionID current = tv_id v" "rc_JournalEntries current = map (withTags st) (tv_entries v)" .
  then show ?thesis using that [of v] params by (simp add: lifecycleParams_def candidates_withTags)
qed

lemma void_committed:
  assumes ok0: "storeOk st0" and ok: "storeOk st" and sub: "set (st_versions st0) \<subseteq> set (st_versions st)"
    and p: "prepareVoid now st0 input = Inr (Prepared params)" and w: "repo_VoidTransaction batch params st = Inr (st', r)"
  shows "storeOk st' \<and> balancesKept st st' \<and> set (st_versions st) \<subseteq> set (st_versions st')"
proof -
  from prepareVoid_Inr [OF ok0 p] obtain v0 where v0: "currentVersion st0 (lp_TransactionID params) = Some v0" "lp_ExpectedVersionID params = tv_id v0"
    "lp_CheckpointCandidates params = periodScopedCandidatesFromRecord (tv_entries v0)" "lp_BookID params = BookID" .
  from w obtain current where t: "transactionByID st (lp_BookID params) (lp_TransactionID params) = Inr current" "lp_ExpectedVersionID params = rc_VersionID current"
    by (auto simp: repo_VoidTransaction_def requireExpectedVersionTx_def result_simps split: if_splits)
  from transactionByID_Inr [OF t(1)] obtain row v where f: "row \<in> set (st_transactions st)" "tr_book_id row = lp_BookID params"
    "tr_id row = lp_TransactionID params" "currentVersion st (lp_TransactionID params) = Some v" "current = transactionVersionRecord st row v" .
  have cv: "rc_VersionID current = tv_id v" "rc_Status current = tv_status v" "rc_VersionSeq current = tv_version_seq v"
    using f(5) by (simp_all add: transactionVersionRecord_def)
  have v: "v \<in> set (st_versions st)" using currentVersion_in [OF f(4)] by simp
  have "v0 \<in> set (st_versions st)" using currentVersion_in [OF v0(1)] sub by blast
  then have vv: "v0 = v" using same_version [OF ok _ v] t(2) v0(2) cv(1) by simp
  show ?thesis
  proof (cases "tv_status v = ''voided''")
    case True
    then have "st' = st" using w t cv by (auto simp: repo_VoidTransaction_def result_simps split: if_splits)
    then show ?thesis using ok balancesKept_refl by simp
  next
    case False
    define spec where "spec = (transactionSpecFromRecord (loadTransactionChildren st current))\<lparr> ts_Status := ''voided'' \<rparr>"
    define vp where "vp audit = lifecycleVersion params (loadTransactionChildren st current) spec (rc_TransactionDaySequence (loadTransactionChildren st current)) audit" for audit
    from w False obtain st1 audit st2 rec ids where au: "insertAuditEvent (lifecycleAudit params) st = Inr (st1, audit)"
      and i: "insertTransactionVersion (vp audit) st1 = Inr (st2, rec)"
      and g: "enforceBoundary batch (lifecycleBoundary params audit) st2 = Inr (st', ids)"
      unfolding repo_VoidTransaction_def Let_def spec_def vp_def using t cv(2) by (auto simp: result_simps)
    from insertAuditEvent_Inr [OF au] obtain A where A: "st1 = st\<lparr> st_audit := A \<rparr>" ..
    have core: "map specCore (specPostings (ts_JournalEntries spec)) = map postingCore (recordPostings (tv_entries v))"
      using record_core [OF ok v cv(1)] by (simp add: spec_def)
    let ?bp = "lifecycleBoundary params audit"
    have vp: "iv_Spec (vp audit) = spec" "iv_BookID (vp audit) = lp_BookID params" "iv_TransactionID (vp audit) = lp_TransactionID params"
      "iv_VersionSeq (vp audit) = tv_version_seq v + 1" "iv_SupersedesVersionID (vp audit) = Some (tv_id v)" "iv_PostingSeqOverrides (vp audit) = Map.empty"
      using cv by (simp_all add: vp_def lifecycleVersion_def loadTransactionChildren_def)
    have bp: "bp_BookID ?bp = lp_BookID params" "bp_Candidates ?bp = periodScopedCandidatesFromRecord (tv_entries v)"
      using v0(3) vv by (simp_all add: lifecycleBoundary_def)
    show ?thesis
    proof (rule next_version_kept [OF ok f(1-4) i [unfolded A] g vp(2-6) bp(1)])
      show "distinct (specKeys (iv_Spec (vp audit)))" unfolding vp(1) by (rule copied_keys [OF ok v core])
      show "ts_Status (iv_Spec (vp audit)) \<in> set transactionStatuses" by (simp add: vp(1) spec_def transactionStatuses_def)
      show "\<forall>u. priorVersion st (lp_TransactionID params) = Some u \<longrightarrow>
          map postingCore (recordPostings (tv_entries u)) = map specCore (specPostings (ts_JournalEntries (iv_Spec (vp audit))))"
        unfolding vp(1) using core prior_current [OF f(4) False] by simp
      fix c st'' entries n k
      assume "ck_status c = ''active''" "ck_book_id c = lp_BookID params" "\<not> covered ?bp c"
      then have "rawSum c (tv_entries v) = 0" using covers_record [of ?bp c] bp by simp
      then show "contribution c (versionRowOf (vp audit) n k entries) = contribution c v"
        by (simp add: contribution_rawSum vp(1) spec_def)
    qed
  qed
qed

lemma prepareLifecycleChange_Inr:
  assumes ok: "storeOk st" and p: "prepareLifecycleChange st input b = Inr (t, reason)"
  obtains row v where "row \<in> set (st_transactions st)" "tr_book_id row = BookID" "tr_id row = li_TransactionID input"
    "currentVersion st (li_TransactionID input) = Some v" "t_VersionID t = tv_id v" "t_Status t = tv_status v" "t_DeletedAt t = orEmpty (tr_deleted_at row)"
    "periodScopedCandidatesFromTransaction t = periodScopedCandidatesFromRecord (tv_entries v)"
proof -
  from p obtain r where r: "TransactionByIDIncludingDeleted st (li_TransactionID input) = Inr r" "t = toTransaction r"
    by (auto simp: prepareLifecycleChange_def result_simps)
  from TransactionByIDIncludingDeleted_Inr [OF ok r(1)] obtain row v where f: "row \<in> set (st_transactions st)" "tr_book_id row = BookID"
    "tr_id row = li_TransactionID input" "currentVersion st (li_TransactionID input) = Some v" "rc_VersionID r = tv_id v" "rc_Status r = tv_status v"
    "rc_DeletedAt r = tr_deleted_at row" "rc_JournalEntries r = map (withTags st) (tv_entries v)" .
  have c: "periodScopedCandidatesFromTransaction t = periodScopedCandidatesFromRecord (tv_entries v)"
    unfolding r(2) candidates_toTransaction f(8) candidates_withTags ..
  have "t_VersionID t = tv_id v" "t_Status t = tv_status v" "t_DeletedAt t = orEmpty (tr_deleted_at row)"
    using r(2) f by (simp_all add: toTransaction_def)
  then show ?thesis using that [OF f(1-4)] c by blast
qed

lemma prepareUnvoid_Inr:
  assumes ok: "storeOk st" and p: "prepareUnvoid now st input = Inr (Prepared params)"
  obtains v where "currentVersion st (lp_TransactionID params) = Some v" "lp_ExpectedVersionID params = tv_id v"
    "lp_CheckpointCandidates params = periodScopedCandidatesFromRecord (tv_entries v)" "lp_BookID params = BookID"
proof -
  from p obtain t reason where c: "prepareLifecycleChange st input True = Inr (t, reason)"
    and params: "params = lifecycleParams now input ''transaction.unvoid'' reason (periodScopedCandidatesFromTransaction t) (t_VersionID t)"
    by (auto simp: prepareUnvoid_def planUnvoid_def result_simps split: if_splits)
  from prepareLifecycleChange_Inr [OF ok c] obtain row v where "currentVersion st (li_TransactionID input) = Some v" "t_VersionID t = tv_id v"
    "periodScopedCandidatesFromTransaction t = periodScopedCandidatesFromRecord (tv_entries v)" .
  then show ?thesis using that [of v] params by (simp add: lifecycleParams_def)
qed

lemma unvoid_committed:
  assumes ok0: "storeOk st0" and ok: "storeOk st" and sub: "set (st_versions st0) \<subseteq> set (st_versions st)"
    and p: "prepareUnvoid now st0 input = Inr (Prepared params)" and w: "repo_UnvoidTransaction batch params st = Inr (st', r)"
  shows "storeOk st' \<and> balancesKept st st' \<and> set (st_versions st) \<subseteq> set (st_versions st')"
proof -
  from prepareUnvoid_Inr [OF ok0 p] obtain v0 where v0: "currentVersion st0 (lp_TransactionID params) = Some v0" "lp_ExpectedVersionID params = tv_id v0"
    "lp_CheckpointCandidates params = periodScopedCandidatesFromRecord (tv_entries v0)" "lp_BookID params = BookID" .
  from w obtain current where t: "transactionByID st (lp_BookID params) (lp_TransactionID params) = Inr current" "lp_ExpectedVersionID params = rc_VersionID current"
    by (auto simp: repo_UnvoidTransaction_def requireExpectedVersionTx_def result_simps split: if_splits)
  from transactionByID_Inr [OF t(1)] obtain row v where f: "row \<in> set (st_transactions st)" "tr_book_id row = lp_BookID params"
    "tr_id row = lp_TransactionID params" "currentVersion st (lp_TransactionID params) = Some v" "current = transactionVersionRecord st row v" .
  have cv: "rc_VersionID current = tv_id v" "rc_Status current = tv_status v" "rc_VersionSeq current = tv_version_seq v"
    using f(5) by (simp_all add: transactionVersionRecord_def)
  have v: "v \<in> set (st_versions st)" using currentVersion_in [OF f(4)] by simp
  have "v0 \<in> set (st_versions st)" using currentVersion_in [OF v0(1)] sub by blast
  then have vv: "v0 = v" using same_version [OF ok _ v] t(2) v0(2) cv(1) by simp
  show ?thesis
  proof (cases "tv_status v = ''voided''")
    case False
    then have "st' = st" using w t cv by (auto simp: repo_UnvoidTransaction_def result_simps split: if_splits)
    then show ?thesis using ok balancesKept_refl by simp
  next
    case True
    define spec where "spec found = transactionSpecFromRecord (loadTransactionChildren st found)" for found
    define vp where "vp found audit = lifecycleVersion params current (spec found) (rc_TransactionDaySequence (loadTransactionChildren st found)) audit" for found audit
    from w True obtain u found st1 audit st2 rec ids where u: "priorVersion st (lp_TransactionID params) = Some u" "transactionVersionByID st (tv_id u) = Inr found"
      and au: "insertAuditEvent (lifecycleAudit params) st = Inr (st1, audit)"
      and i: "insertTransactionVersion (vp found audit) st1 = Inr (st2, rec)"
      and g: "enforceBoundary batch (lifecycleBoundary params audit) st2 = Inr (st', ids)"
      unfolding repo_UnvoidTransaction_def Let_def spec_def vp_def using t cv(2) by (auto simp: result_simps split: option.splits)
    from insertAuditEvent_Inr [OF au] obtain A where A: "st1 = st\<lparr> st_audit := A \<rparr>" ..
    have uin: "u \<in> set (st_versions st)" "tv_status u \<noteq> ''voided''" using lastBy_in [OF u(1) [unfolded priorVersion_def]] by (auto simp: versionsOf_def)
    have fu: "rc_VersionID found = tv_id u" "rc_Status found = tv_status u"
      using u(2) find_distinct [OF storeOk_parts(2) [OF ok] uin(1)] by (auto simp: transactionVersionByID_def transactionVersionRecord_def split: option.splits)
    have same: "map postingCore (recordPostings (tv_entries u)) = map postingCore (recordPostings (tv_entries v))"
      using storeOk_parts(6) [OF ok f(1)] f(3,4) u(1) True by (simp add: voidOk_def sameJournalRows_def)
    have core: "map specCore (specPostings (ts_JournalEntries (spec found))) = map postingCore (recordPostings (tv_entries v))"
      using record_core [OF ok uin(1) fu(1)] same by (simp add: spec_def)
    let ?bp = "lifecycleBoundary params audit" and ?vp = "vp found audit"
    have vp: "iv_Spec ?vp = spec found" "iv_BookID ?vp = lp_BookID params" "iv_TransactionID ?vp = lp_TransactionID params"
      "iv_VersionSeq ?vp = tv_version_seq v + 1" "iv_SupersedesVersionID ?vp = Some (tv_id v)" "iv_PostingSeqOverrides ?vp = Map.empty"
      using cv by (simp_all add: vp_def lifecycleVersion_def)
    have bp: "bp_BookID ?bp = lp_BookID params" "bp_Candidates ?bp = periodScopedCandidatesFromRecord (tv_entries v)"
      using v0(3) vv by (simp_all add: lifecycleBoundary_def)
    have sstat: "ts_Status (spec found) = tv_status u" using fu(2) by (simp add: spec_def transactionSpecFromRecord_def loadTransactionChildren_def)
    show ?thesis
    proof (rule next_version_kept [OF ok f(1-4) i [unfolded A] g vp(2-6) bp(1)])
      show "distinct (specKeys (iv_Spec ?vp))" unfolding vp(1) by (rule copied_keys [OF ok v core])
      show "ts_Status (iv_Spec ?vp) \<in> set transactionStatuses" using storeOk_parts(10) [OF ok uin(1)] by (simp add: vp(1) sstat)
      show "\<forall>u. priorVersion st (lp_TransactionID params) = Some u \<longrightarrow>
          map postingCore (recordPostings (tv_entries u)) = map specCore (specPostings (ts_JournalEntries (iv_Spec ?vp)))" if "ts_Status (iv_Spec ?vp) = ''voided''"
        using that uin(2) by (simp add: vp(1) sstat)
      fix c st'' entries n k
      assume s: "storeOk (st\<lparr> st_audit := A \<rparr>)" "supersedesWith ?vp (st\<lparr> st_audit := A \<rparr>) v st'' entries"
        and c: "ck_status c = ''active''" "ck_book_id c = lp_BookID params" "\<not> covered ?bp c"
      have "rawSum c entries = rawSum c (tv_entries v)" by (rule copy_raw [OF s vp(6)]) (simp add: vp(1) core)
      also have "\<dots> = 0" using covers_record [of ?bp c] bp c by simp
      finally show "contribution c (versionRowOf ?vp n k entries) = contribution c v" by (simp add: contribution_rawSum True)
    qed
  qed
qed

section \<open>Soft delete and restore\<close>

lemma prepareSetDeleted_Inr:
  assumes ok: "storeOk st" and p: "prepareSetDeleted now st input deleted = Inr (Prepared params)"
  obtains v where "currentVersion st (lp_TransactionID params) = Some v" "lp_ExpectedVersionID params = tv_id v"
    "lp_CheckpointCandidates params = periodScopedCandidatesFromRecord (tv_entries v)" "lp_BookID params = BookID"
proof -
  from p obtain t reason operation where c: "prepareLifecycleChange st input True = Inr (t, reason)"
    and params: "params = lifecycleParams now input operation reason (periodScopedCandidatesFromTransaction t) (t_VersionID t)"
    by (auto simp: prepareSetDeleted_def planSetDeleted_def result_simps split: if_splits)
  from prepareLifecycleChange_Inr [OF ok c] obtain row v where "currentVersion st (li_TransactionID input) = Some v" "t_VersionID t = tv_id v"
    "periodScopedCandidatesFromTransaction t = periodScopedCandidatesFromRecord (tv_entries v)" .
  then show ?thesis using that [of v] params by (simp add: lifecycleParams_def)
qed

lemma setDeletedFlag_ids [simp]: "tr_id (setDeletedFlag params d a t) = tr_id t" "tr_book_id (setDeletedFlag params d a t) = tr_book_id t"
  by (simp_all add: setDeletedFlag_def)

lemma flagged_storeOk:
  assumes ok: "storeOk st" and T: "map tr_id T = map tr_id (st_transactions st)" "map tr_book_id T = map tr_book_id (st_transactions st)"
  shows "storeOk (st\<lparr> st_audit := A, st_transactions := T, st_deletions := D \<rparr>)"
proof -
  let ?st = "st\<lparr> st_audit := A, st_transactions := T, st_deletions := D \<rparr>"
  have v: "st_versions ?st = st_versions st" by simp
  have len: "length T = length (st_transactions st)" using arg_cong [OF T(1), of length] by simp
  have "\<exists>t\<in>set T. tr_id t = i \<and> tr_book_id t = b" if "\<exists>t\<in>set (st_transactions st). tr_id t = i \<and> tr_book_id t = b" for i b
  proof -
    from that obtain k where k: "k < length (st_transactions st)" "tr_id (st_transactions st ! k) = i" "tr_book_id (st_transactions st ! k) = b"
      by (auto simp: in_set_conv_nth)
    then have "tr_id (T ! k) = i" "tr_book_id (T ! k) = b" using T len by (auto simp: list_eq_iff_nth_eq)
    then show ?thesis using k(1) len by (metis nth_mem)
  qed
  moreover have "tr_id ` set T = tr_id ` set (st_transactions st)" using arg_cong [OF T(1), of set] by simp
  then have "\<forall>t\<in>set T. voidOk st (tr_id t)" using storeOk_parts(6) [OF ok] by (metis (mono_tags, lifting) image_iff)
  ultimately show ?thesis using ok T(1) unfolding storeOk_def reads_versions(4,5,6) [OF v] by simp
qed

lemma setDeleted_committed:
  assumes ok0: "storeOk st0" and ok: "storeOk st" and sub: "set (st_versions st0) \<subseteq> set (st_versions st)"
    and p: "prepareSetDeleted now st0 input deleted = Inr (Prepared params)" and w: "repo_SetTransactionDeleted batch params deleted st = Inr (st', r)"
  shows "storeOk st' \<and> balancesKept st st' \<and> set (st_versions st) \<subseteq> set (st_versions st')"
proof -
  from prepareSetDeleted_Inr [OF ok0 p] obtain v0 where v0: "currentVersion st0 (lp_TransactionID params) = Some v0" "lp_ExpectedVersionID params = tv_id v0"
    "lp_CheckpointCandidates params = periodScopedCandidatesFromRecord (tv_entries v0)" "lp_BookID params = BookID" .
  from w obtain current where t: "transactionByID st (lp_BookID params) (lp_TransactionID params) = Inr current" "lp_ExpectedVersionID params = rc_VersionID current"
    by (auto simp: repo_SetTransactionDeleted_def requireExpectedVersionTx_def result_simps split: if_splits)
  from transactionByID_Inr [OF t(1)] obtain row v where f: "row \<in> set (st_transactions st)" "tr_book_id row = lp_BookID params"
    "tr_id row = lp_TransactionID params" "currentVersion st (lp_TransactionID params) = Some v" "current = transactionVersionRecord st row v" .
  have cv: "rc_VersionID current = tv_id v" "rc_DeletedAt current = tr_deleted_at row"
    using f(5) by (simp_all add: transactionVersionRecord_def)
  have v: "v \<in> set (st_versions st)" using currentVersion_in [OF f(4)] by simp
  have "v0 \<in> set (st_versions st)" using currentVersion_in [OF v0(1)] sub by blast
  then have vv: "v0 = v" using same_version [OF ok _ v] t(2) v0(2) cv(1) by simp
  show ?thesis
  proof (cases "(tr_deleted_at row \<noteq> None) = deleted")
    case True
    then have "st' = st" using w t cv by (auto simp: repo_SetTransactionDeleted_def result_simps split: if_splits)
    then show ?thesis using ok balancesKept_refl by simp
  next
    case False
    from w False obtain st1 audit D ids where au: "insertAuditEvent (lifecycleAudit params) st = Inr (st1, audit)"
      and g: "enforceBoundary batch (lifecycleBoundary params audit)
        (st1\<lparr> st_transactions := map (setDeletedFlag params deleted audit) (st_transactions st1), st_deletions := D \<rparr>) = Inr (st', ids)"
      unfolding repo_SetTransactionDeleted_def Let_def using t cv(2) by (auto simp: result_simps split: if_splits)
    from insertAuditEvent_Inr [OF au] obtain A where A: "st1 = st\<lparr> st_audit := A \<rparr>" ..
    let ?T = "map (setDeletedFlag params deleted audit) (st_transactions st)" and ?bp = "lifecycleBoundary params audit"
    let ?st2 = "st\<lparr> st_audit := A, st_transactions := ?T, st_deletions := D \<rparr>"
    have ok2: "storeOk ?st2" by (rule flagged_storeOk [OF ok]) (simp_all add: o_def)
    have "st1\<lparr> st_transactions := map (setDeletedFlag params deleted audit) (st_transactions st1), st_deletions := D \<rparr> = ?st2" by (simp add: A)
    note e = enforceBoundary_Inr [OF ok2 g [unfolded this]]
    have "registerBalance st' c = registerBalance st c" if c: "ck_status c = ''active''" "\<not> covered ?bp c" for c
    proof -
      have bp: "bp_BookID ?bp = lp_BookID params" "bp_Candidates ?bp = periodScopedCandidatesFromRecord (tv_entries v)"
        using v0(3) vv by (simp_all add: lifecycleBoundary_def)
      have "ledgerShare ?st2 c (setDeletedFlag params deleted audit x) = ledgerShare st c x" if x: "x \<in> set (st_transactions st)" for x
      proof (cases "tr_id x = lp_TransactionID params")
        case True
        then have "x = row" using row_unique [OF ok x f(1)] f(3) by simp
        moreover have "rawSum c (tv_entries v) = 0" if "ck_book_id c = lp_BookID params" using covers_record [of ?bp c] bp c that by simp
        ultimately show ?thesis using f(2,3,4) by (auto simp: ledgerShare_def contribution_rawSum currentVersion_def versionsOf_def)
      next
        case False
        then show ?thesis by (simp add: setDeletedFlag_def ledgerShare_def currentVersion_def versionsOf_def)
      qed
      then have "registerBalance ?st2 c = registerBalance st c" by (simp add: registerBalance_def o_def cong: map_cong)
      moreover have "registerBalance st' c = registerBalance ?st2 c" by (rule registerBalance_reads) (simp_all add: e)
      ultimately show ?thesis by simp
    qed
    then show ?thesis using e(1,2,3) by (auto simp: balancesKept_def)
  qed
qed

end
