(* ===== verification/Drafts.thy ===== *)
theory Drafts
  imports Ledger
begin

text \<open>
  The creation of a transaction, its approval and the discarding of a draft: what each committed write keeps of the store's
  invariant and of the balances that active checkpoints closed.
\<close>

section \<open>Approve\<close>

definition openGate :: "int \<Rightarrow> checkpointBoundaryParams" where
  "openGate bookID = \<lparr> bp_BookID = bookID, bp_Candidates = [], bp_ReconciliationOverride = False, bp_ReviewedCheckpointIDs = None,
     bp_ActorUserID = 0, bp_AuditEventID = 0, bp_OccurredAt = [], bp_Reason = [] \<rparr>"

lemma openGate_passes: "enforceBoundary False (openGate b) st = Inr (st, [])"
  by (simp add: enforceBoundary_def openGate_def enforceCheckpointBoundaryTx_def periodScopedCheckpointInvalidationRefs_def
      bindCheckpointOverride_def uniqueCheckpointIDs_def result_simps)

lemma approve_committed:
  assumes ok: "storeOk st" and w: "repo_ApproveTransaction params st = Inr (st', r)"
  shows "storeOk st' \<and> balancesKept st st' \<and> set (st_versions st) \<subseteq> set (st_versions st')"
proof -
  define current where "current header = loadTransactionChildren st header" for header
  from w obtain header where t: "transactionByID st (ax_BookID params) (ax_TransactionID params) = Inr header" "rc_Status header \<noteq> ''voided''"
    and rest: "\<not> rc_NeedsReview (current header) \<and> st' = st \<or> (\<exists>st1 audit. insertAuditEvent (approveAudit params) st = Inr (st1, audit) \<and>
      insertTransactionVersion (approveVersion params (current header) audit) st1 = Inr (st', r))"
    by (auto simp: repo_ApproveTransaction_def result_simps Let_def current_def split: if_splits)
  from transactionByID_Inr [OF t(1)] obtain row v where f: "row \<in> set (st_transactions st)" "tr_book_id row = ax_BookID params"
    "tr_id row = ax_TransactionID params" "currentVersion st (ax_TransactionID params) = Some v" "header = transactionVersionRecord st row v" .
  have cv: "rc_VersionID header = tv_id v" "rc_Status header = tv_status v" "rc_VersionSeq header = tv_version_seq v"
    using f(5) by (simp_all add: transactionVersionRecord_def)
  have v: "v \<in> set (st_versions st)" using currentVersion_in [OF f(4)] by simp
  from rest show ?thesis
  proof (elim disjE exE conjE)
    assume "st' = st" then show ?thesis using ok balancesKept_refl by simp
  next
    fix st1 audit assume au: "insertAuditEvent (approveAudit params) st = Inr (st1, audit)"
      and i: "insertTransactionVersion (approveVersion params (current header) audit) st1 = Inr (st', r)"
    from insertAuditEvent_Inr [OF au] obtain A where A: "st1 = st\<lparr> st_audit := A \<rparr>" ..
    define vp where "vp = approveVersion params (current header) audit"
    have core: "map specCore (specPostings (ts_JournalEntries (iv_Spec vp))) = map postingCore (recordPostings (tv_entries v))"
      using record_core [OF ok v cv(1)] by (simp add: vp_def approveVersion_def current_def)
    have status: "ts_Status (iv_Spec vp) = tv_status v"
      by (simp add: vp_def approveVersion_def current_def transactionSpecFromRecord_def loadTransactionChildren_def cv)
    have vp: "iv_BookID vp = ax_BookID params" "iv_TransactionID vp = ax_TransactionID params" "iv_VersionSeq vp = tv_version_seq v + 1"
      "iv_SupersedesVersionID vp = Some (tv_id v)" "iv_PostingSeqOverrides vp = Map.empty"
      by (simp_all add: vp_def approveVersion_def current_def loadTransactionChildren_def cv)
    show ?thesis
    proof (rule next_version_kept [OF ok f(1-4) i [folded vp_def, unfolded A] openGate_passes vp])
      show "bp_BookID (openGate (ax_BookID params)) = ax_BookID params" by (simp add: openGate_def)
      show "distinct (specKeys (iv_Spec vp))" by (rule copied_keys [OF ok v core])
      show "ts_Status (iv_Spec vp) \<in> set transactionStatuses" using storeOk_parts(10) [OF ok v] by (simp add: status)
      show "\<forall>u. priorVersion st (ax_TransactionID params) = Some u \<longrightarrow>
          map postingCore (recordPostings (tv_entries u)) = map specCore (specPostings (ts_JournalEntries (iv_Spec vp)))" if "ts_Status (iv_Spec vp) = ''voided''"
        using that t(2) by (simp add: status cv)
      fix c st'' entries n k
      assume s: "storeOk (st\<lparr> st_audit := A \<rparr>)" "supersedesWith vp (st\<lparr> st_audit := A \<rparr>) v st'' entries"
      have "rawSum c entries = rawSum c (tv_entries v)" by (rule copy_raw [OF s vp(5) core])
      then show "contribution c (versionRowOf vp n k entries) = contribution c v" by (simp add: contribution_rawSum status)
    qed
  qed
qed

section \<open>Create\<close>

lemma prepareCreate_Inr:
  assumes "prepareCreate env now st input = Inr params"
  shows "distinct (specKeys (ct_Spec params))" "ts_Status (ct_Spec params) = ''draft'' \<or> ts_Status (ct_Spec params) = ''posted''"
    "ct_CheckpointCandidates params = reconciliationCandidatesFromSpec (ct_Spec params)" "ct_BookID params = BookID"
proof -
  from assms obtain restated where "prepareCreateTransactionForWrite env now st restated = Inr params"
    by (auto simp: prepareCreate_def result_simps)
  then obtain p0 where p0: "prepareCreateTransaction env now st (Some []) plainOptions restated = Inr p0"
    and params: "ct_Spec params = ct_Spec p0" "ct_CheckpointCandidates params = reconciliationCandidatesFromSpec (ct_Spec p0)" "ct_BookID params = ct_BookID p0"
    unfolding prepareCreateTransactionForWrite_def prepareCreateTransactionForWriteWithOptions_def Let_def by (auto simp: result_simps)
  from p0 obtain dependencies where c: "cleanAgainst env st (Some []) (plainOptions\<lparr> op_OwnerUserID := ci_OwnerUserID restated, op_DefaultStatus := ''posted'' \<rparr>)
      (ci_Spec restated) = Inr (ct_Spec p0, dependencies)" "ct_BookID p0 = BookID"
    unfolding prepareCreateTransaction_def by (auto simp: result_simps)
  show "distinct (specKeys (ct_Spec params))" "ts_Status (ct_Spec params) = ''draft'' \<or> ts_Status (ct_Spec params) = ''posted''"
    using cleanAgainst_Inr(1,2) [OF c(1)] by (simp_all add: params)
  show "ct_CheckpointCandidates params = reconciliationCandidatesFromSpec (ct_Spec params)" "ct_BookID params = BookID"
    using c(2) by (simp_all add: params)
qed

lemma covers_spec:
  assumes "ts_Status spec \<noteq> ''draft''" and "nxt \<in> set (specPostings (ts_JournalEntries spec))" and "bp_Candidates bp = reconciliationCandidatesFromSpec spec"
    and "\<not> covered bp c"
  shows "\<not> reaches (bp_BookID bp) (specCandidate nxt) c"
  using assms by (auto simp: covered_def list_ex_iff reconciliationCandidatesFromSpec_def)

text \<open>A transaction row with no version yet changes nothing.\<close>

lemma row_added:
  assumes ok: "storeOk st" and fresh: "tr_id row = nextAbove (map tr_id (st_transactions st))"
  shows "storeOk (st\<lparr> st_transactions := st_transactions st @ [row] \<rparr>)" "versionsOf st (tr_id row) = []"
proof -
  let ?st = "st\<lparr> st_transactions := st_transactions st @ [row] \<rparr>"
  have new: "tr_id row \<notin> tr_id ` set (st_transactions st)" using nextAbove_fresh [of "map tr_id (st_transactions st)"] fresh by simp
  have "tv_transaction_id v \<noteq> tr_id row" if "v \<in> set (st_versions st)" for v
  proof -
    from storeOk_parts(9) [OF ok that] obtain t where "t \<in> set (st_transactions st)" "tr_id t = tv_transaction_id v" by blast
    then show ?thesis using new by (metis imageI)
  qed
  then show none: "versionsOf st (tr_id row) = []" by (auto simp: versionsOf_def filter_empty_conv)
  have v: "st_versions ?st = st_versions st" by simp
  have "voidOk st (tr_id row)" by (simp add: voidOk_def currentVersion_def none)
  then have "\<forall>t\<in>set (st_transactions st @ [row]). voidOk st (tr_id t)" using storeOk_parts(6) [OF ok] by auto
  moreover have "distinct (map tr_id (st_transactions st @ [row]))" using storeOk_parts(1) [OF ok] new by simp
  ultimately show "storeOk ?st" using ok unfolding storeOk_def reads_versions(4,5,6) [OF v] by auto
qed

lemma fresh_version_raw:
  assumes ok: "storeOk st" and a: "versionAdded vp st st' entries" and vp: "iv_SupersedesVersionID vp = None" "iv_PostingSeqOverrides vp = Map.empty"
    and c: "c \<in> set (st_checkpoints st)" "ck_book_id c = iv_BookID vp" "ck_status c = ''active''"
    and far: "\<And>nxt. nxt \<in> set (specPostings (ts_JournalEntries (iv_Spec vp))) \<Longrightarrow> \<not> reaches (iv_BookID vp) (specCandidate nxt) c"
  shows "rawSum c entries = 0"
proof (rule rawSum_outside)
  fix cur assume cur: "cur \<in> set (recordPostings entries)"
  from added_row [OF ok a cur] obtain nxt where nxt: "nxt \<in> set (specPostings (ts_JournalEntries (iv_Spec vp)))" "rowOf vp nxt cur" "placing vp st cur" by blast
  have "freshFor st vp cur" using nxt(3) by (simp add: placing_def vp inheritedSeq_def)
  moreover have "0 < pr_AccountDaySequence (snd cur)" using added_rows(2) [OF ok a] cur by (simp add: positive_def vp)
  ultimately show "\<not> inside c cur" using fresh_outside [OF ok c nxt(2)] far [OF nxt(1)] by blast
qed

lemma create_written:
  assumes ok: "storeOk st" and w: "createTransactionTx batch params st = Inr (st', r)"
    and pc: "distinct (specKeys (ct_Spec params))" "ts_Status (ct_Spec params) = ''draft'' \<or> ts_Status (ct_Spec params) = ''posted''"
      "ct_CheckpointCandidates params = reconciliationCandidatesFromSpec (ct_Spec params)"
  shows "storeOk st' \<and> balancesKept st st' \<and> set (st_versions st) \<subseteq> set (st_versions st')"
proof -
  define t where "t st1 = nextAbove (map tr_id (st_transactions st1))" for st1 :: store
  from w obtain st1 audit st2 rec ids where au: "insertAuditEvent (createAudit params) st = Inr (st1, audit)"
    and i: "insertTransactionVersion (createVersion params (t st1) audit) (st1\<lparr> st_transactions := st_transactions st1 @ [createRow params (t st1) audit] \<rparr>) = Inr (st2, rec)"
    and g: "enforceBoundary batch (createBoundary params audit) st2 = Inr (st', ids)"
    unfolding createTransactionTx_def createTransactionWithAuditTx_def insertTransactionWithAuditEventTx_def Let_def t_def by (auto simp: result_simps)
  from insertAuditEvent_Inr [OF au] obtain A where A: "st1 = st\<lparr> st_audit := A \<rparr>" ..
  define row where "row = createRow params (t st1) audit"
  define sa where "sa = st1\<lparr> st_transactions := st_transactions st1 @ [row] \<rparr>"
  define vp where "vp = createVersion params (t st1) audit"
  have row: "tr_id row = t st1" "tr_book_id row = ct_BookID params" by (simp_all add: row_def createRow_def)
  have ok1: "storeOk st1" unfolding A by (rule storeOk_audit [OF ok])
  note ra = row_added [OF ok1, of row, unfolded row(1), OF t_def, folded sa_def]
  have vp: "iv_BookID vp = ct_BookID params" "iv_TransactionID vp = t st1" "iv_VersionSeq vp = 1" "iv_SupersedesVersionID vp = None"
    "iv_PostingSeqOverrides vp = Map.empty" "iv_Spec vp = ct_Spec params" by (simp_all add: vp_def createVersion_def)
  from insertTransactionVersion_Inr [OF i [folded row_def, folded sa_def vp_def]] obtain entries where a: "versionAdded vp sa st2 entries" .
  have none: "versionsOf sa (t st1) = []" using ra(2) by (simp add: sa_def versionsOf_def)
  have chain: "nextInChain vp sa" by (simp add: nextInChain_def vp none)
  have ok2: "storeOk st2"
    by (rule versionAdded_storeOk [OF ra(1) a chain]) (use row pc(1,2) in \<open>auto simp: vp sa_def transactionStatuses_def\<close>)
  note e = enforceBoundary_Inr [OF ok2 g] and fr = versionAdded_frame [OF a]
  have txs: "st_transactions st2 = st_transactions st @ [row]" and vs: "set (st_versions st) \<subseteq> set (st_versions st2)" and cks: "st_checkpoints st2 = st_checkpoints st"
    by (auto simp: fr sa_def A)
  have "registerBalance st' c = registerBalance st c" if c: "c \<in> set (st_checkpoints st)" "ck_status c = ''active''" "\<not> covered (createBoundary params audit) c" for c
  proof -
    have "ledgerShare st2 c x = ledgerShare st c x" if x: "x \<in> set (st_transactions st)" for x
    proof -
      have "tr_id x < t st1" unfolding t_def by (rule nextAbove_gt) (use x in \<open>simp add: A\<close>)
      then show ?thesis by (simp add: ledgerShare_def currentVersion_added [OF a chain] vp) (simp add: sa_def A currentVersion_def versionsOf_def)
    qed
    moreover have "ledgerShare st2 c row = 0"
    proof (cases "ck_book_id c = ct_BookID params \<and> ts_Status (ct_Spec params) = ''posted''")
      case True
      have "rawSum c entries = 0"
      proof (rule fresh_version_raw [OF ra(1) a vp(4,5)])
        show "c \<in> set (st_checkpoints sa)" "ck_book_id c = iv_BookID vp" using c(1) True by (simp_all add: sa_def A vp)
        fix nxt assume "nxt \<in> set (specPostings (ts_JournalEntries (iv_Spec vp)))"
        then show "\<not> reaches (iv_BookID vp) (specCandidate nxt) c"
          using covers_spec [of "ct_Spec params" nxt "createBoundary params audit" c] c(3) True pc(3) by (simp add: vp createBoundary_def)
      qed (rule c(2))
      then show ?thesis by (simp add: ledgerShare_def currentVersion_added [OF a chain] row vp contribution_rawSum)
    next
      case False
      then show ?thesis by (auto simp: ledgerShare_def currentVersion_added [OF a chain] row vp contribution_rawSum)
    qed
    ultimately have "registerBalance st2 c = registerBalance st c" by (simp add: registerBalance_def txs cong: map_cong)
    moreover have "registerBalance st' c = registerBalance st2 c" by (rule registerBalance_reads) (simp_all add: e)
    ultimately show ?thesis by simp
  qed
  then show ?thesis using e(1,2,3) vs by (auto simp: balancesKept_def cks)
qed

lemma create_committed:
  assumes "storeOk st" and "prepareCreate env now st0 input = Inr params" and "createTransactionTx batch params st = Inr (st', r)"
  shows "storeOk st' \<and> balancesKept st st' \<and> set (st_versions st) \<subseteq> set (st_versions st')"
  by (rule create_written [OF assms(1,3) prepareCreate_Inr(1-3) [OF assms(2)]])

section \<open>Discarding a draft\<close>

lemma lineAt_filter: "t' \<noteq> t \<Longrightarrow> lineAt b t' (filter (\<lambda>l. pl_transaction_id l \<noteq> t) lines) k = lineAt b t' lines k"
  by (induction lines) (auto simp: lineAt_def)

lemma versionsOf_filter: "t' \<noteq> t \<Longrightarrow> filter (\<lambda>v. tv_transaction_id v = t') (filter (\<lambda>v. tv_transaction_id v \<noteq> t) vs) = filter (\<lambda>v. tv_transaction_id v = t') vs"
  by (induction vs) auto

lemma sum_list_filter_zero: "(\<And>x. x \<in> set xs \<Longrightarrow> \<not> P x \<Longrightarrow> f x = 0) \<Longrightarrow> sum_list (map f (filter P xs)) = (sum_list (map f xs) :: rat)"
  by (induction xs) auto

lemma distinct_map_filtered: "distinct (map f xs) \<Longrightarrow> distinct (map f (filter P xs))"
  by (simp add: distinct_map inj_on_def)

lemma distinct_postings_filter:
  "distinct (postingIDsOf (concat (map (\<lambda>v. recordPostings (tv_entries v)) vs))) \<Longrightarrow>
    distinct (postingIDsOf (concat (map (\<lambda>v. recordPostings (tv_entries v)) (filter P vs))))"
  by (induction vs) auto

text \<open>A transaction none of whose versions is posted or voided, and all that belongs to it, taken out of the tables.\<close>

definition withoutTransaction :: "int \<Rightarrow> int \<Rightarrow> store \<Rightarrow> store \<Rightarrow> bool" where
  "withoutTransaction b t st st' \<longleftrightarrow> st_versions st' = filter (\<lambda>v. tv_transaction_id v \<noteq> t) (st_versions st) \<and>
     st_lines st' = filter (\<lambda>l. pl_transaction_id l \<noteq> t) (st_lines st) \<and> st_checkpoints st' = st_checkpoints st \<and>
     st_transactions st' = filter (\<lambda>x. \<not> (tr_book_id x = b \<and> tr_id x = t)) (st_transactions st)"

lemma discard_committed:
  assumes ok: "storeOk st" and w: "repo_DeleteDraftTransaction params st = Inr st'"
  shows "storeOk st' \<and> balancesKept st st'"
proof -
  define b where "b = dd_BookID params" define t where "t = dd_TransactionID params"
  from w obtain rec where rec: "transactionByID st b t = Inr rec" and drafts: "filter (\<lambda>v. tv_status v \<in> {''posted'', ''voided''}) (versionsOf st t) = []"
    and w': "withoutTransaction b t st st'"
    by (auto simp: repo_DeleteDraftTransaction_def result_simps b_def t_def withoutTransaction_def dest!: insertAuditEvent_Inr)
  have vs: "st_versions st' = filter (\<lambda>v. tv_transaction_id v \<noteq> t) (st_versions st)"
    and ls: "st_lines st' = filter (\<lambda>l. pl_transaction_id l \<noteq> t) (st_lines st)"
    and ts: "st_transactions st' = filter (\<lambda>x. \<not> (tr_book_id x = b \<and> tr_id x = t)) (st_transactions st)"
    and cs: "st_checkpoints st' = st_checkpoints st" using w' by (simp_all add: withoutTransaction_def)
  from transactionByID_Inr [OF rec] obtain row where row: "row \<in> set (st_transactions st)" "tr_book_id row = b" "tr_id row = t" by blast
  have other: "tr_id x \<noteq> t" if "x \<in> set (st_transactions st')" for x
    using that row_unique [OF ok _ row(1), of x] row by (auto simp: ts)
  have reads: "currentVersion st' t' = currentVersion st t'" "priorVersion st' t' = priorVersion st t'" if "t' \<noteq> t" for t'
    unfolding currentVersion_def priorVersion_def versionsOf_def vs versionsOf_filter [OF that] by simp_all
  have undrafted: "tv_status v \<noteq> ''posted''" if "v \<in> set (st_versions st)" "tv_transaction_id v = t" for v
    using drafts that by (auto simp: filter_empty_conv versionsOf_def)
  have "boundaryOk st' c" if "c \<in> set (st_checkpoints st)" for c
    using storeOk_parts(8) [OF ok that] undrafted by (fastforce simp: boundaryOk_def vs)
  moreover have "journalOk (st_lines st') v" if "v \<in> set (st_versions st')" for v
    using storeOk_parts(4) [OF ok, of v] that by (auto simp: journalOk_def vs ls lineAt_filter)
  moreover have "\<exists>x\<in>set (st_transactions st'). tr_id x = tv_transaction_id v \<and> tr_book_id x = tv_book_id v" if "v \<in> set (st_versions st')" for v
    using storeOk_parts(9) [OF ok, of v] that by (auto simp: vs ts)
  moreover have "voidOk st' (tr_id x)" if "x \<in> set (st_transactions st')" for x
    using storeOk_parts(6) [OF ok, of x] that reads [OF other [OF that]] by (simp add: voidOk_def ts)
  moreover have "distinct (postingIDsOf (storedPostings st'))"
    using distinct_postings_filter storeOk_parts(11) [OF ok] by (simp add: storedPostings_def vs)
  ultimately have "storeOk st'" unfolding storeOk_def
    using storeOk_parts(1,2,5,7) [OF ok] storeOk_parts(3,10) [OF ok] by (simp add: cs distinct_map_filtered ts vs ls)
  moreover have "registerBalance st' c = registerBalance st c" for c
  proof -
    have gone: "ledgerShare st c x = 0" if "x \<in> set (st_transactions st)" "tr_book_id x = b \<and> tr_id x = t" for x
      using undrafted currentVersion_in [of st t] that by (auto simp: ledgerShare_def contribution_def split: option.splits)
    have "registerBalance st' c = (\<Sum>x\<leftarrow>st_transactions st'. ledgerShare st c x)"
      unfolding registerBalance_def using other reads(1) by (intro arg_cong [of _ _ sum_list] map_cong) (simp_all add: ledgerShare_def)
    also have "\<dots> = registerBalance st c" unfolding registerBalance_def ts by (rule sum_list_filter_zero) (use gone in auto)
    finally show ?thesis .
  qed
  ultimately show ?thesis by (simp add: balancesKept_def cs)
qed

end
