(* ===== verification/Reorder.thy ===== *)
theory Reorder
  imports Prelude "HOL-Library.Multiset"
begin

text \<open>
  Placing a transaction before or after another one on their shared day (\<^verbatim>\<open>placeInScope\<close> of
  \<^verbatim>\<open>db/transactions_reorder.go\<close>): a scope is one day of the journal or of an account register, as the query returns it, in the order of
  its sequence values. The function returns the items whose sequence changes. The theorem is about the scope after
  these changes: it holds the same sequence values, the subject is on the asked side of the anchor, and
  neither the subject's own items nor the rest change their order.
\<close>

section \<open>Definitions\<close>

record reorderItem =
  ri_transactionID :: int
  ri_postingLineID :: int
  ri_commodityID :: int
  ri_seq :: int

definition ofTransaction :: "int \<Rightarrow> reorderItem \<Rightarrow> bool" where
  "ofTransaction t item \<longleftrightarrow> ri_transactionID item = t"

definition anchorFirst :: "reorderItem list \<Rightarrow> int \<Rightarrow> nat" where
  "anchorFirst others anchor = length (takeWhile (\<lambda>item. \<not> ofTransaction anchor item) others)"

definition anchorLast :: "reorderItem list \<Rightarrow> int \<Rightarrow> nat" where
  "anchorLast others anchor = length others - 1 - length (takeWhile (\<lambda>item. \<not> ofTransaction anchor item) (rev others))"

definition relationHolds :: "reorderItem list \<Rightarrow> reorderItem list \<Rightarrow> int \<Rightarrow> bool \<Rightarrow> bool" where
  "relationHolds subjectItems others anchor before =
     list_all (\<lambda>item. list_all (\<lambda>other. ofTransaction anchor other \<longrightarrow>
         \<not> (before \<and> ri_seq item > ri_seq other \<or> \<not> before \<and> ri_seq item < ri_seq other))
       (take (anchorLast others anchor + 1 - anchorFirst others anchor) (drop (anchorFirst others anchor) others))) subjectItems"

definition changedItems :: "reorderItem list \<Rightarrow> int list \<Rightarrow> reorderItem list" where
  "changedItems ordered values = concat (map (\<lambda>(item, v). if ri_seq item \<noteq> v then [item\<lparr> ri_seq := v \<rparr>] else []) (zip ordered values))"

definition placeInScope :: "reorderItem list \<Rightarrow> int \<Rightarrow> int \<Rightarrow> bool \<Rightarrow> reorderItem list" where
  "placeInScope items subject anchor before = (
     let subjectItems = filter (ofTransaction subject) items; others = filter (\<lambda>item. \<not> ofTransaction subject item) items in
     if subjectItems = [] \<or> \<not> list_ex (ofTransaction anchor) others then []
     else if relationHolds subjectItems others anchor before then []
     else let insertAt = (if before then anchorFirst others anchor else anchorLast others anchor + 1) in
       changedItems (take insertAt others @ subjectItems @ drop insertAt others) (sort (map ri_seq items)))"

lemma place_changed:
  assumes "ci \<in> set (placeInScope items subject anchor before)"
  obtains x where "x \<in> set items" "ci = x\<lparr> ri_seq := ri_seq ci \<rparr>" "ri_seq ci \<in> ri_seq ` set items"
proof -
  let ?os = "filter (\<lambda>item. \<not> ofTransaction subject item) items"
  from assms obtain k where "ci \<in> set (changedItems (take k ?os @ filter (ofTransaction subject) items @ drop k ?os) (sort (map ri_seq items)))"
    by (auto simp: placeInScope_def Let_def split: if_splits)
  moreover have "set (take k ?os @ filter (ofTransaction subject) items @ drop k ?os) \<subseteq> set items" by (auto dest!: in_set_takeD in_set_dropD)
  ultimately obtain ordered where "set ordered \<subseteq> set items" and c: "ci \<in> set (changedItems ordered (sort (map ri_seq items)))" by blast
  moreover from c obtain x v where "(x, v) \<in> set (zip ordered (sort (map ri_seq items)))" "ci = x\<lparr> ri_seq := v \<rparr>"
    by (auto simp: changedItems_def split: if_splits)
  moreover from this have "x \<in> set ordered" "v \<in> set (sort (map ri_seq items))" by (auto dest: set_zip_leftD set_zip_rightD simp del: set_sort)
  ultimately show ?thesis using that [of x] by auto
qed

section \<open>The scope after the changes\<close>

definition itemKey :: "reorderItem \<Rightarrow> int \<times> int" where
  "itemKey item = (ri_transactionID item, ri_postingLineID item)"

definition changedTo :: "reorderItem list \<Rightarrow> reorderItem \<Rightarrow> reorderItem" where
  "changedTo changed item = (case find (\<lambda>c. itemKey c = itemKey item) changed of None \<Rightarrow> item | Some c \<Rightarrow> item\<lparr> ri_seq := ri_seq c \<rparr>)"

lemma itemKey_seq [simp]: "itemKey (item\<lparr> ri_seq := v \<rparr>) = itemKey item" "ofTransaction t (item\<lparr> ri_seq := v \<rparr>) = ofTransaction t item"
  by (simp_all add: itemKey_def ofTransaction_def)

lemma changedTo_transaction [simp]: "ri_transactionID (changedTo changed item) = ri_transactionID item"
  by (simp add: changedTo_def split: option.splits)

lemma find_changed:
  assumes "length values = length ordered" and "distinct (map itemKey ordered)" and "k < length ordered"
  shows "ri_seq (changedTo (changedItems ordered values) (ordered ! k)) = values ! k"
  using assms
proof (induction ordered "values" arbitrary: k rule: list_induct2')
  case (4 x xs v vs)
  have rest: "find (\<lambda>c. itemKey c = itemKey x) (changedItems xs vs) = None"
    using 4(3) by (auto simp: find_None_iff changedItems_def set_zip split: if_splits) (metis nth_mem image_eqI itemKey_seq(1))
  have skip: "changedTo (changedItems (x # xs) (v # vs)) (xs ! j) = changedTo (changedItems xs vs) (xs ! j)" if "j < length xs" for j
  proof -
    have "itemKey x \<noteq> itemKey (xs ! j)" using 4(3) that by (metis distinct.simps(2) list.simps(9) nth_map nth_mem length_map)
    then show ?thesis by (simp add: changedTo_def changedItems_def)
  qed
  show ?case
  proof (cases k)
    case 0
    then show ?thesis using rest by (auto simp: changedTo_def changedItems_def)
  next
    case (Suc j)
    then show ?thesis using 4 skip [of j] by simp
  qed
qed simp_all

lemma sorted_wrt_filter_nth: "sorted_wrt R (filter P xs) \<Longrightarrow> i < j \<Longrightarrow> j < length xs \<Longrightarrow> P (xs ! i) \<Longrightarrow> P (xs ! j) \<Longrightarrow> R (xs ! i) (xs ! j)"
proof (induction xs arbitrary: i j)
  case (Cons x xs)
  show ?case
  proof (cases i)
    case 0
    then obtain j' where j: "j = Suc j'" "j' < length xs" using Cons.prems(2,3) by (cases j) auto
    then have "xs ! j' \<in> set (filter P xs)" using Cons.prems(5) by simp
    then show ?thesis using Cons.prems(1,4) 0 j by simp
  next
    case (Suc i')
    then obtain j' where "j = Suc j'" using Cons.prems(2) by (cases j) auto
    then show ?thesis using Cons.IH [of i' j'] Cons.prems Suc by (auto split: if_splits)
  qed
qed simp

lemma anchors_after_first: "other \<in> set (take (anchorFirst others anchor) others) \<Longrightarrow> \<not> ofTransaction anchor other"
  by (metis anchorFirst_def takeWhile_eq_take set_takeWhileD)

lemma anchors_before_last:
  assumes "list_ex (ofTransaction anchor) others" and "other \<in> set (drop (anchorLast others anchor + 1) others)"
  shows "\<not> ofTransaction anchor other"
proof -
  let ?n = "length (takeWhile (\<lambda>item. \<not> ofTransaction anchor item) (rev others))"
  have "?n \<noteq> length (rev others)"
  proof
    assume "?n = length (rev others)"
    then have "takeWhile (\<lambda>item. \<not> ofTransaction anchor item) (rev others) = rev others" by (metis takeWhile_eq_take take_all order_refl)
    then show False using assms(1) by (auto simp: takeWhile_eq_all_conv list_ex_iff)
  qed
  then have "?n < length (rev others)" using length_takeWhile_le [of _ "rev others"] by (simp add: le_neq_trans)
  then have "anchorLast others anchor + 1 = length others - ?n" by (simp add: anchorLast_def)
  then have "drop (anchorLast others anchor + 1) others = rev (take ?n (rev others))" by (simp add: take_rev)
  then show ?thesis using assms(2) by (metis set_rev set_takeWhileD takeWhile_eq_take)
qed

lemma anchor_in_slice:
  assumes "other \<in> set others" and "ofTransaction anchor other"
  shows "other \<in> set (take (anchorLast others anchor + 1 - anchorFirst others anchor) (drop (anchorFirst others anchor) others))"
proof -
  let ?f = "anchorFirst others anchor" and ?l = "anchorLast others anchor + 1"
  have ex: "list_ex (ofTransaction anchor) others" using assms by (auto simp: list_ex_iff)
  obtain i where i: "i < length others" "others ! i = other" using assms(1) by (auto simp: in_set_conv_nth)
  have "\<not> i < ?f"
  proof
    assume "i < ?f"
    then have "other \<in> set (take ?f others)" using i by (auto simp: in_set_conv_nth)
    then show False using anchors_after_first assms(2) by blast
  qed
  moreover have "\<not> ?l \<le> i"
  proof
    assume "?l \<le> i"
    then have "other \<in> set (drop ?l others)" using i by (auto simp: in_set_conv_nth intro!: exI [of _ "i - ?l"])
    then show False using anchors_before_last [OF ex] assms(2) by blast
  qed
  ultimately have "take (?l - ?f) (drop ?f others) ! (i - ?f) = other" "i - ?f < length (take (?l - ?f) (drop ?f others))" using i by auto
  then show ?thesis by (metis nth_mem)
qed

lemma relationHolds_iff:
  "relationHolds ss others anchor before \<longleftrightarrow>
    (\<forall>s\<in>set ss. \<forall>a\<in>set others. ofTransaction anchor a \<longrightarrow> (if before then ri_seq s \<le> ri_seq a else ri_seq a \<le> ri_seq s))"
proof -
  let ?slice = "take (anchorLast others anchor + 1 - anchorFirst others anchor) (drop (anchorFirst others anchor) others)"
  have "set ?slice \<subseteq> set others" by (meson set_drop_subset set_take_subset order_trans)
  then have "(\<forall>a\<in>set ?slice. ofTransaction anchor a \<longrightarrow> P a) \<longleftrightarrow> (\<forall>a\<in>set others. ofTransaction anchor a \<longrightarrow> P a)" for P
    using anchor_in_slice by blast
  then show ?thesis unfolding relationHolds_def list_all_iff by (auto simp: not_less)
qed

definition scopeAfter :: "reorderItem list \<Rightarrow> int \<Rightarrow> int \<Rightarrow> bool \<Rightarrow> reorderItem list" where
  "scopeAfter items subject anchor before = map (changedTo (placeInScope items subject anchor before)) items"

definition scopePlaced :: "reorderItem list \<Rightarrow> int \<Rightarrow> int \<Rightarrow> bool \<Rightarrow> (reorderItem \<Rightarrow> reorderItem) \<Rightarrow> bool" where
  "scopePlaced items subject anchor before f \<longleftrightarrow> mset (map (ri_seq \<circ> f) items) = mset (map ri_seq items) \<and>
     relationHolds (map f (filter (ofTransaction subject) items)) (map f (filter (\<lambda>x. \<not> ofTransaction subject x) items)) anchor before \<and>
     sorted_wrt (\<lambda>x y. ri_seq (f x) \<le> ri_seq (f y)) (filter (ofTransaction subject) items) \<and>
     sorted_wrt (\<lambda>x y. ri_seq (f x) \<le> ri_seq (f y)) (filter (\<lambda>x. \<not> ofTransaction subject x) items)"

lemma scopePlaced_unchanged:
  assumes "sorted (map ri_seq items)" and "relationHolds (filter (ofTransaction subject) items) (filter (\<lambda>x. \<not> ofTransaction subject x) items) anchor before"
  shows "scopePlaced items subject anchor before (\<lambda>x. x)"
  using assms by (simp add: scopePlaced_def sorted_wrt_map sorted_wrt_filter comp_def)

lemma scopePlaced_moved:
  assumes keys: "distinct (map itemKey items)" and ex: "list_ex (ofTransaction anchor) others"
    and others: "others = filter (\<lambda>x. \<not> ofTransaction subject x) items"
    and at: "insertAt = (if before then anchorFirst others anchor else anchorLast others anchor + 1)"
    and f: "f = changedTo (changedItems (take insertAt others @ filter (ofTransaction subject) items @ drop insertAt others) (sort (map ri_seq items)))"
  shows "scopePlaced items subject anchor before f"
proof -
  let ?ss = "filter (ofTransaction subject) items" let ?ordered = "take insertAt others @ ?ss @ drop insertAt others" let ?vals = "sort (map ri_seq items)"
  have perm: "mset ?ordered = mset items"
  proof -
    have "mset ?ordered = mset ?ss + mset (take insertAt others @ drop insertAt others)" by (simp del: append_take_drop_id)
    also have "\<dots> = mset items" by (simp add: others)
    finally show ?thesis .
  qed
  have len: "length ?ordered = length items" using perm by (metis size_mset)
  have "mset (map itemKey ?ordered) = mset (map itemKey items)" unfolding mset_map perm ..
  then have "distinct (map itemKey ?ordered)" using keys mset_eq_imp_distinct_iff by blast
  then have nth: "ri_seq (f (?ordered ! k)) = ?vals ! k" if "k < length ?ordered" for k
    unfolding f using find_changed [of ?vals ?ordered k] that len by simp
  have all: "map (ri_seq \<circ> f) ?ordered = ?vals"
    by (rule nth_equalityI) (use len nth in \<open>simp_all only: length_map length_sort nth_map comp_def\<close>)
  have vals: "mset (map (ri_seq \<circ> f) ?ordered) = mset (map ri_seq items)" unfolding all by simp
  have "sorted (map (ri_seq \<circ> f) ?ordered)" unfolding all by simp
  then have srt: "sorted_wrt (\<lambda>x y. ri_seq (f x) \<le> ri_seq (f y)) ?ordered" unfolding sorted_wrt_map comp_def .
  have "mset (map (ri_seq \<circ> f) items) = mset (map (ri_seq \<circ> f) ?ordered)" unfolding mset_map perm ..
  moreover have "sorted_wrt (\<lambda>x y. ri_seq (f x) \<le> ri_seq (f y)) (take insertAt others @ drop insertAt others)"
    using srt by (auto simp: sorted_wrt_append simp del: append_take_drop_id)
  moreover have "relationHolds (map f ?ss) (map f others) anchor before"
    unfolding relationHolds_iff
  proof (intro ballI impI)
    fix s' a' assume "s' \<in> set (map f ?ss)" and "a' \<in> set (map f others)" and anchor: "ofTransaction anchor a'"
    then obtain s a where s: "s' = f s" "s \<in> set ?ss" and a: "a' = f a" "a \<in> set others" by auto
    have "ofTransaction anchor a" using anchor a(1) by (simp add: f ofTransaction_def)
    moreover have "a \<in> set (take insertAt others) \<or> a \<in> set (drop insertAt others)" using a(2) by (metis append_take_drop_id set_append Un_iff)
    ultimately have "if before then a \<in> set (drop insertAt others) else a \<in> set (take insertAt others)"
      using anchors_after_first anchors_before_last [OF ex] by (auto simp: at split: if_splits)
    then show "if before then ri_seq s' \<le> ri_seq a' else ri_seq a' \<le> ri_seq s'"
      using srt s a(1) by (auto simp: sorted_wrt_append split: if_splits)
  qed
  ultimately show ?thesis unfolding scopePlaced_def others [symmetric] using vals srt by (simp add: sorted_wrt_append)
qed

lemma place_scopePlaced:
  assumes "sorted (map ri_seq items)" and "distinct (map itemKey items)"
  shows "scopePlaced items subject anchor before (changedTo (placeInScope items subject anchor before))"
proof -
  let ?ss = "filter (ofTransaction subject) items" and ?os = "filter (\<lambda>x. \<not> ofTransaction subject x) items"
  consider (still) "?ss = [] \<or> \<not> list_ex (ofTransaction anchor) ?os \<or> relationHolds ?ss ?os anchor before"
    | (moved) "?ss \<noteq> []" "list_ex (ofTransaction anchor) ?os" "\<not> relationHolds ?ss ?os anchor before" by blast
  then show ?thesis
  proof cases
    case still
    then have "placeInScope items subject anchor before = []" by (auto simp: placeInScope_def Let_def)
    moreover have "relationHolds ?ss ?os anchor before" using still by (auto simp: relationHolds_iff list_ex_iff filter_empty_conv)
    moreover have "changedTo [] = (\<lambda>x. x)" by (simp add: changedTo_def fun_eq_iff)
    ultimately show ?thesis using scopePlaced_unchanged [OF assms(1)] by simp
  next
    case moved
    then show ?thesis by (intro scopePlaced_moved [OF assms(2) moved(2)]) (simp_all add: placeInScope_def Let_def)
  qed
qed

text \<open>
  C22. Placing a transaction on its day. For a scope in the order of its sequences, as the query returns it, the scope
  after the changes uses exactly the sequence values it had; every item of the subject is on the asked side of every
  item of the anchor; two items that are both the subject's, or both not the subject's, keep
  their order; and asking again changes nothing.
\<close>

theorem place_in_scope_correct:
  assumes sorted: "sorted (map ri_seq items)" and keys: "distinct (map itemKey items)"
  shows "mset (map ri_seq (scopeAfter items subject anchor before)) = mset (map ri_seq items) \<and>
    (\<forall>s\<in>set (scopeAfter items subject anchor before). \<forall>a\<in>set (scopeAfter items subject anchor before).
       ri_transactionID s = subject \<and> ri_transactionID a = anchor \<and> subject \<noteq> anchor \<longrightarrow>
       (if before then ri_seq s \<le> ri_seq a else ri_seq a \<le> ri_seq s)) \<and>
    (\<forall>i j. i < j \<and> j < length items \<and> (ri_transactionID (items ! i) = subject \<longleftrightarrow> ri_transactionID (items ! j) = subject) \<longrightarrow>
       ri_seq (scopeAfter items subject anchor before ! i) \<le> ri_seq (scopeAfter items subject anchor before ! j)) \<and>
    placeInScope (sort_key ri_seq (scopeAfter items subject anchor before)) subject anchor before = []"
proof -
  let ?f = "changedTo (placeInScope items subject anchor before)"
  have p: "scopePlaced items subject anchor before ?f" by (rule place_scopePlaced [OF assms])
  have rel: "if before then ri_seq s \<le> ri_seq a else ri_seq a \<le> ri_seq s"
    if "s \<in> set (scopeAfter items subject anchor before)" "a \<in> set (scopeAfter items subject anchor before)"
      "ofTransaction subject s" "\<not> ofTransaction subject a" "ofTransaction anchor a" for s a
  proof -
    from that obtain s0 a0 where "s = ?f s0" "s0 \<in> set items" "a = ?f a0" "a0 \<in> set items" by (auto simp: scopeAfter_def)
    then have "s \<in> set (map ?f (filter (ofTransaction subject) items))" "a \<in> set (map ?f (filter (\<lambda>x. \<not> ofTransaction subject x) items))"
      using that(3,4) by (auto simp: ofTransaction_def)
    then show ?thesis using p that(5) unfolding scopePlaced_def relationHolds_iff by blast
  qed
  have "ri_seq (?f (items ! i)) \<le> ri_seq (?f (items ! j))"
    if "i < j" "j < length items" "ofTransaction subject (items ! i) \<longleftrightarrow> ofTransaction subject (items ! j)" for i j
    using p sorted_wrt_filter_nth [where i = i and j = j and xs = items and R = "\<lambda>x y. ri_seq (?f x) \<le> ri_seq (?f y)"] that
    unfolding scopePlaced_def by (cases "ofTransaction subject (items ! i)") auto
  moreover have "relationHolds (filter (ofTransaction subject) xs) (filter (\<lambda>x. \<not> ofTransaction subject x) xs) anchor before"
    if "set xs = set (scopeAfter items subject anchor before)" for xs
    using rel that by (auto simp: relationHolds_iff)
  then have "placeInScope (sort_key ri_seq (scopeAfter items subject anchor before)) subject anchor before = []"
    by (simp add: placeInScope_def Let_def)
  ultimately show ?thesis using p rel by (auto simp: scopePlaced_def scopeAfter_def ofTransaction_def comp_def)
qed

definition dayOfFour :: "reorderItem list" where
  "dayOfFour = [\<lparr> ri_transactionID = 7, ri_postingLineID = 71, ri_commodityID = 1, ri_seq = 2 \<rparr>, \<lparr> ri_transactionID = 8, ri_postingLineID = 81, ri_commodityID = 2, ri_seq = 3 \<rparr>,
    \<lparr> ri_transactionID = 9, ri_postingLineID = 91, ri_commodityID = 1, ri_seq = 5 \<rparr>, \<lparr> ri_transactionID = 9, ri_postingLineID = 92, ri_commodityID = 1, ri_seq = 6 \<rparr>]"

theorem place_in_scope_correct_witness:
  "sorted (map ri_seq dayOfFour) \<and> distinct (map itemKey dayOfFour) \<and>
   map ri_seq (scopeAfter dayOfFour 9 7 True) = [5, 6, 2, 3] \<and> mset (map ri_seq (scopeAfter dayOfFour 9 7 True)) = mset (map ri_seq dayOfFour)"
proof -
  have "sorted (map ri_seq dayOfFour)" "distinct (map itemKey dayOfFour)" by code_simp+
  moreover have "map ri_seq (scopeAfter dayOfFour 9 7 True) = [5, 6, 2, 3]" by code_simp
  moreover note place_in_scope_correct [of dayOfFour 9 7 True]
  ultimately show ?thesis by blast
qed

end
