(* ===== verification/Moves.thy ===== *)
theory Moves
  imports Drafts Reorder
begin

text \<open>
  Changing the order of a day: \<^verbatim>\<open>MoveTransaction\<close> and \<^verbatim>\<open>MovePosting\<close> of \<^verbatim>\<open>db/transactions_move.go\<close>,
  \<^verbatim>\<open>PlaceTransaction\<close> of \<^verbatim>\<open>db/transactions_reorder.go\<close>, and what the service checks before them
  (\<^verbatim>\<open>app/transactions_move.go\<close>). Each writes new versions of the transactions whose places change, with the same journal and
  with the new sequence values given as overrides. Where a query orders by the sequence alone and takes the first row,
  the model takes the first of the rows that share the value; where the code ranges over a Go map, the model
  takes the keys in the order they were put in.
\<close>

section \<open>Definitions: parameters\<close>

record MoveTransactionParams =
  mt_BookID :: int
  mt_TransactionID :: int
  mt_Direction :: string
  mt_ActorUserID :: int
  mt_AuthSessionID :: int
  mt_RequestID :: string
  mt_OriginType :: string
  mt_RecordedAt :: string

record MovePostingParams =
  mp_BookID :: int
  mp_AccountID :: int
  mp_PostingLineID :: int
  mp_Direction :: string
  mp_ActorUserID :: int
  mp_AuthSessionID :: int
  mp_RequestID :: string
  mp_OriginType :: string
  mp_RecordedAt :: string
  mp_ReconciliationOverride :: bool
  mp_ReviewedCheckpointIDs :: "int list option"

record PlaceTransactionParams =
  pt_BookID :: int
  pt_TransactionID :: int
  pt_AnchorTransactionID :: int
  pt_Position :: string
  pt_ActorUserID :: int
  pt_AuthSessionID :: int
  pt_RequestID :: string
  pt_OriginType :: string
  pt_RecordedAt :: string
  pt_ReconciliationOverride :: bool
  pt_ReviewedCheckpointIDs :: "int list option"

section \<open>Definitions: the rows of the current versions\<close>

text \<open>The view \<^verbatim>\<open>current_transaction_versions\<close> joined with its transactions that are not deleted, and their postings.\<close>

definition currentRows :: "store \<Rightarrow> (transactionRow \<times> versionRow) list" where
  "currentRows st = concat (map (\<lambda>t. if tr_deleted_at t \<noteq> None then [] else
     case currentVersion st (tr_id t) of None \<Rightarrow> [] | Some v \<Rightarrow> [(t, v)]) (st_transactions st))"

definition currentPostings :: "store \<Rightarrow> (int \<times> string \<times> PostingRecord) list" where
  "currentPostings st = concat (map (\<lambda>(t, v). map (Pair (tr_id t)) (recordPostings (tv_entries v))) (currentRows st))"

text \<open>The next version of a transaction, its journal copied.\<close>

definition copiedVersion :: "int \<Rightarrow> int \<Rightarrow> TransactionRecord \<Rightarrow> string \<Rightarrow> int \<Rightarrow> string \<Rightarrow> int \<Rightarrow> string \<Rightarrow> int \<Rightarrow> (int \<rightharpoonup> int) \<Rightarrow> insertTransactionVersionParams" where
  "copiedVersion bookID transactionID record recordedAt actor reason auditEventID requestID daySequence overrides =
     \<lparr> iv_BookID = bookID, iv_TransactionID = transactionID, iv_VersionSeq = rc_VersionSeq record + 1,
       iv_SupersedesVersionID = Some (rc_VersionID record), iv_Spec = transactionSpecFromRecord record, iv_ReplaceTags = False,
       iv_RecordedAt = recordedAt, iv_ChangedByUserID = actor, iv_ChangeReason = reason, iv_ChangeAuditEventID = auditEventID,
       iv_RequestID = requestID, iv_TransactionDaySequence = daySequence, iv_PostingSeqOverrides = overrides \<rparr>"

section \<open>Definitions: moving a transaction one place\<close>

definition adjacentTransaction :: "store \<Rightarrow> int \<Rightarrow> string \<Rightarrow> int \<Rightarrow> string \<Rightarrow> (transactionRow \<times> versionRow) option" where
  "adjacentTransaction st bookID date sequence direction = (
     let rows = filter (\<lambda>(t, v). tv_book_id v = bookID \<and> tv_date v = date) (currentRows st) in
     if direction = ''earlier'' then lastBy (\<lambda>(t, v). tv_day_sequence v) (filter (\<lambda>(t, v). tv_day_sequence v < sequence) rows)
     else firstBy (\<lambda>(t, v). tv_day_sequence v) (filter (\<lambda>(t, v). tv_day_sequence v > sequence) rows))"

definition moveAudit :: "MoveTransactionParams \<Rightarrow> AuditEventParams" where
  "moveAudit params = \<lparr> ap_BookID = mt_BookID params, ap_ActorUserID = mt_ActorUserID params, ap_AuthSessionID = mt_AuthSessionID params,
     ap_OccurredAt = mt_RecordedAt params, ap_RequestID = mt_RequestID params, ap_OriginType = mt_OriginType params,
     ap_Operation = ''transaction.move'', ap_Reason = ''moved '' @ mt_Direction params, ap_MetadataJSON = [] \<rparr>"

definition repo_MoveTransaction :: "MoveTransactionParams \<Rightarrow> store \<Rightarrow> (write_error, store \<times> TransactionRecord) result" where
  "repo_MoveTransaction params st =
     bindR (readBookForUpdate st (mt_BookID params)) (\<lambda>_.
     bindR (transactionByID st (mt_BookID params) (mt_TransactionID params)) (\<lambda>header.
     bindR (case adjacentTransaction st (mt_BookID params) (rc_TransactionDate header) (rc_TransactionDaySequence header) (mt_Direction params) of
         None \<Rightarrow> Inl ErrNotFound | Some (t, v) \<Rightarrow> Inr (tr_id t, tv_day_sequence v)) (\<lambda>(adjTransactionID, adjSeq).
     bindR (insertAuditEvent (moveAudit params) st) (\<lambda>(st1, auditEventID).
     let current = loadTransactionChildren st1 header in
     bindR (transactionByID st1 (mt_BookID params) adjTransactionID) (\<lambda>adjHeader.
     let adj = loadTransactionChildren st1 adjHeader in
     bindR (insertTransactionVersion (copiedVersion (mt_BookID params) (mt_TransactionID params) current (mt_RecordedAt params) (mt_ActorUserID params)
         (''moved '' @ mt_Direction params) auditEventID (mt_RequestID params) adjSeq Map.empty) st1) (\<lambda>(st2, movedRecord).
     bindR (insertTransactionVersion (copiedVersion (mt_BookID params) adjTransactionID adj (mt_RecordedAt params) (mt_ActorUserID params)
         ''swapped for moved transaction'' auditEventID (mt_RequestID params) (rc_TransactionDaySequence current) Map.empty) st2) (\<lambda>(st3, _).
       Inr (st3, movedRecord))))))))"

section \<open>Definitions: moving a posting one place\<close>

definition adjacentPosting :: "store \<Rightarrow> int \<Rightarrow> int \<Rightarrow> string \<Rightarrow> int \<Rightarrow> string \<Rightarrow> (int \<times> string \<times> PostingRecord) option" where
  "adjacentPosting st bookID accountID date sequence direction = (
     let rows = filter (\<lambda>(t, d, p). pr_BookID p = bookID \<and> pr_AccountID p = accountID \<and> d = date) (currentPostings st) in
     if direction = ''earlier'' then lastBy (\<lambda>(t, d, p). pr_AccountDaySequence p) (filter (\<lambda>(t, d, p). pr_AccountDaySequence p < sequence) rows)
     else firstBy (\<lambda>(t, d, p). pr_AccountDaySequence p) (filter (\<lambda>(t, d, p). pr_AccountDaySequence p > sequence) rows))"

text \<open>
  The checkpoints a change of order between two sequence values of a day concerns: those at or after the lower value,
  if one of them closes that day before the higher.
\<close>

definition crossedRefs :: "checkpointRow list \<Rightarrow> int \<Rightarrow> int \<Rightarrow> int \<Rightarrow> string \<Rightarrow> int \<Rightarrow> int \<Rightarrow> CheckpointInvalidationRef list" where
  "crossedRefs table bookID accountID commodityID date lowSeq highSeq = (
     let refs = activeCheckpointRefsAtOrAfter table bookID \<lparr> cd_AccountID = accountID, cd_CommodityID = commodityID, cd_EntryDate = date, cd_AccountDaySequence = lowSeq \<rparr> in
     if list_ex (\<lambda>ref. rf_StatementDate ref = date \<and> rf_StatementAccountSequence ref < highSeq) refs then refs else [])"

definition reorderBoundary :: "int \<Rightarrow> int \<Rightarrow> int \<Rightarrow> string \<Rightarrow> string \<Rightarrow> checkpointBoundaryParams" where
  "reorderBoundary bookID actor auditEventID occurredAt reason = \<lparr> bp_BookID = bookID, bp_Candidates = [], bp_ReconciliationOverride = True,
     bp_ReviewedCheckpointIDs = None, bp_ActorUserID = actor, bp_AuditEventID = auditEventID, bp_OccurredAt = occurredAt, bp_Reason = reason \<rparr>"

text \<open>The end of a change of order: the checkpoints it crosses are invalidated and named in the result.\<close>

definition invalidateCrossed :: "checkpointBoundaryParams \<Rightarrow> CheckpointInvalidationRef list \<Rightarrow> store \<Rightarrow> TransactionRecord \<Rightarrow> store \<times> TransactionRecord" where
  "invalidateCrossed params reached st record = (
     if reached = [] then (st, record)
     else case invalidateReconciliationCheckpoints params [] [] reached (st_checkpoints st) of
       (table, ids) \<Rightarrow> (st\<lparr> st_checkpoints := table \<rparr>, record\<lparr> rc_InvalidatedCheckpointIDs := ids \<rparr>))"

definition postingAudit :: "MovePostingParams \<Rightarrow> AuditEventParams" where
  "postingAudit params = \<lparr> ap_BookID = mp_BookID params, ap_ActorUserID = mp_ActorUserID params, ap_AuthSessionID = mp_AuthSessionID params,
     ap_OccurredAt = mp_RecordedAt params, ap_RequestID = mp_RequestID params, ap_OriginType = mp_OriginType params,
     ap_Operation = ''posting.move'', ap_Reason = ''moved '' @ mp_Direction params, ap_MetadataJSON = [] \<rparr>"

definition findPosting :: "store \<Rightarrow> int \<Rightarrow> int \<Rightarrow> int \<Rightarrow> (int \<times> string \<times> PostingRecord) option" where
  "findPosting st bookID postingLineID accountID =
     find (\<lambda>(t, d, p). pr_BookID p = bookID \<and> pr_PostingLineID p = postingLineID \<and> pr_AccountID p = accountID) (currentPostings st)"

text \<open>The swapped version of one of the two transactions, read from the store as it is then.\<close>

definition moveVersion :: "MovePostingParams \<Rightarrow> int \<Rightarrow> int \<Rightarrow> string \<Rightarrow> (int \<rightharpoonup> int) \<Rightarrow> store \<Rightarrow> (write_error, store \<times> TransactionRecord) result" where
  "moveVersion params auditEventID transactionID reason overrides st =
     bindR (transactionByID st (mp_BookID params) transactionID) (\<lambda>header.
     let record = loadTransactionChildren st header in
     insertTransactionVersion (copiedVersion (mp_BookID params) transactionID record (mp_RecordedAt params) (mp_ActorUserID params) reason
       auditEventID (mp_RequestID params) (rc_TransactionDaySequence record) overrides) st)"

definition repo_MovePosting :: "bool \<Rightarrow> MovePostingParams \<Rightarrow> store \<Rightarrow> (write_error, store \<times> TransactionRecord) result" where
  "repo_MovePosting batch params st =
     bindR (readBookForUpdate st (mp_BookID params)) (\<lambda>_.
     bindR (case findPosting st (mp_BookID params) (mp_PostingLineID params) (mp_AccountID params) of
         None \<Rightarrow> Inl ErrNotFound | Some cur \<Rightarrow> Inr cur) (\<lambda>(currentTransactionID, currentEntryDate, current).
     let currentSeq = pr_AccountDaySequence current in
     bindR (case adjacentPosting st (mp_BookID params) (mp_AccountID params) currentEntryDate currentSeq (mp_Direction params) of
         None \<Rightarrow> Inl ErrNotFound | Some adj \<Rightarrow> Inr adj) (\<lambda>(adjTransactionID, _, adj).
     let adjSeq = pr_AccountDaySequence adj;
         reached = crossedRefs (st_checkpoints st) (mp_BookID params) (mp_AccountID params) (pr_CommodityID current) currentEntryDate
           (min currentSeq adjSeq) (max currentSeq adjSeq) in
     bindR (mapErr CheckpointImpact (bindCheckpointOverride batch reached (mp_ReconciliationOverride params) (mp_ReviewedCheckpointIDs params))) (\<lambda>_.
     bindR (insertAuditEvent (postingAudit params) st) (\<lambda>(st1, auditEventID).
     bindR (moveVersion params auditEventID currentTransactionID (''posting moved '' @ mp_Direction params)
       (if adjTransactionID = currentTransactionID then [mp_PostingLineID params \<mapsto> adjSeq, pr_PostingLineID adj \<mapsto> currentSeq]
        else [mp_PostingLineID params \<mapsto> adjSeq]) st1) (\<lambda>(st2, movedResult).
     bindR (if adjTransactionID = currentTransactionID then Inr st2
       else bindR (moveVersion params auditEventID adjTransactionID ''swapped for moved posting'' [pr_PostingLineID adj \<mapsto> currentSeq] st2)
         (\<lambda>(st3, _). Inr st3)) (\<lambda>st3.
     Inr (invalidateCrossed (reorderBoundary (mp_BookID params) (mp_ActorUserID params) auditEventID (mp_RecordedAt params)
       (''posting moved '' @ mp_Direction params @ '' across a reconciled checkpoint'')) reached st3 movedResult))))))))"

section \<open>Definitions: placing a transaction beside another\<close>

definition journalDayItemsTx :: "store \<Rightarrow> int \<Rightarrow> string \<Rightarrow> reorderItem list" where
  "journalDayItemsTx st bookID date = sort_key (\<lambda>item. (ri_seq item, ri_transactionID item))
     (map (\<lambda>(t, v). \<lparr> ri_transactionID = tr_id t, ri_postingLineID = 0, ri_commodityID = 0, ri_seq = tv_day_sequence v \<rparr>)
       (filter (\<lambda>(t, v). tv_book_id v = bookID \<and> tv_date v = date) (currentRows st)))"

definition accountDayItemsTx :: "store \<Rightarrow> int \<Rightarrow> int \<Rightarrow> string \<Rightarrow> reorderItem list" where
  "accountDayItemsTx st bookID accountID date =
     map (\<lambda>(t, d, p). \<lparr> ri_transactionID = t, ri_postingLineID = pr_PostingLineID p, ri_commodityID = pr_CommodityID p, ri_seq = pr_AccountDaySequence p \<rparr>)
       (sort_key (\<lambda>(t, d, p). (pr_AccountDaySequence p, pr_ID p))
         (filter (\<lambda>(t, d, p). pr_BookID p = bookID \<and> pr_AccountID p = accountID \<and> d = date) (currentPostings st)))"

definition versionDays :: "store \<Rightarrow> int \<Rightarrow> (int \<times> string) list" where
  "versionDays st transactionID = (case currentVersion st transactionID of None \<Rightarrow> []
     | Some v \<Rightarrow> map (\<lambda>(d, p). (pr_AccountID p, d)) (recordPostings (tv_entries v)))"

definition sharedAccountDaysTx :: "store \<Rightarrow> int \<Rightarrow> int \<Rightarrow> int \<Rightarrow> (int \<times> string) list" where
  "sharedAccountDaysTx st bookID subjectID anchorID = sort (remdups (filter (\<lambda>day. day \<in> set (versionDays st anchorID))
     (case currentVersion st subjectID of None \<Rightarrow> [] | Some v \<Rightarrow> if tv_book_id v = bookID then versionDays st subjectID else [])))"

text \<open>What the account scopes ask for: the new sequence of each posting line, by transaction, and the checkpoints concerned.\<close>

record reorderPlan =
  rp_posting_seq :: "(int \<times> int \<times> int) list"
  rp_reached :: "CheckpointInvalidationRef list"

definition previousSeq :: "reorderItem list \<Rightarrow> int \<Rightarrow> int" where
  "previousSeq items line = (case map_of (rev (map (\<lambda>item. (ri_postingLineID item, ri_seq item)) items)) line of None \<Rightarrow> 0 | Some n \<Rightarrow> n)"

definition spanLow :: "reorderItem list \<Rightarrow> reorderItem list \<Rightarrow> int" where
  "spanLow items changed = foldl (\<lambda>low item. min (min low (ri_seq item)) (previousSeq items (ri_postingLineID item))) (ri_seq (hd changed)) changed"

definition spanHigh :: "reorderItem list \<Rightarrow> reorderItem list \<Rightarrow> int" where
  "spanHigh items changed = foldl (\<lambda>high item. max (max high (ri_seq item)) (previousSeq items (ri_postingLineID item))) (ri_seq (hd changed)) changed"

definition appendRef :: "CheckpointInvalidationRef list \<Rightarrow> CheckpointInvalidationRef \<Rightarrow> CheckpointInvalidationRef list" where
  "appendRef refs ref = (if rf_CheckpointID ref \<in> rf_CheckpointID ` set refs then refs else refs @ [ref])"

definition planScope :: "store \<Rightarrow> PlaceTransactionParams \<Rightarrow> reorderPlan \<Rightarrow> int \<times> string \<Rightarrow> reorderPlan" where
  "planScope st params plan scope = (
     let items = accountDayItemsTx st (pt_BookID params) (fst scope) (snd scope);
         changed = placeInScope items (pt_TransactionID params) (pt_AnchorTransactionID params) (pt_Position params = ''before'') in
     if changed = [] then plan
     else \<lparr> rp_posting_seq = rp_posting_seq plan @ map (\<lambda>item. (ri_transactionID item, ri_postingLineID item, ri_seq item)) changed,
       rp_reached = foldl appendRef (rp_reached plan) (concat (map (\<lambda>commodityID.
         crossedRefs (st_checkpoints st) (pt_BookID params) (fst scope) commodityID (snd scope) (spanLow items changed) (spanHigh items changed))
         (remdups (map ri_commodityID changed)))) \<rparr>)"

definition placeAudit :: "PlaceTransactionParams \<Rightarrow> AuditEventParams" where
  "placeAudit params = \<lparr> ap_BookID = pt_BookID params, ap_ActorUserID = pt_ActorUserID params, ap_AuthSessionID = pt_AuthSessionID params,
     ap_OccurredAt = pt_RecordedAt params, ap_RequestID = pt_RequestID params, ap_OriginType = pt_OriginType params,
     ap_Operation = ''transaction.reorder'', ap_Reason = ''placed '' @ pt_Position params @ '' another transaction'', ap_MetadataJSON = [] \<rparr>"

definition seqOverrides :: "(int \<times> int \<times> int) list \<Rightarrow> int \<Rightarrow> (int \<rightharpoonup> int)" where
  "seqOverrides posting_seq transactionID = map_of (rev (map snd (filter (\<lambda>entry. fst entry = transactionID) posting_seq)))"

fun writeReordered :: "PlaceTransactionParams \<Rightarrow> int \<Rightarrow> (int \<rightharpoonup> int) \<Rightarrow> (int \<times> int \<times> int) list \<Rightarrow> int list \<Rightarrow> TransactionRecord option \<Rightarrow> store
    \<Rightarrow> (write_error, store \<times> TransactionRecord option) result" where
  "writeReordered params auditEventID daySeq posting_seq [] found st = Inr (st, found)"
| "writeReordered params auditEventID daySeq posting_seq (t # ts) found st =
     bindR (transactionByID st (pt_BookID params) t) (\<lambda>header.
     let record = loadTransactionChildren st header;
         sequence = (case daySeq t of Some moved \<Rightarrow> moved | None \<Rightarrow> rc_TransactionDaySequence record);
         reason = (if t = pt_TransactionID params then ''placed '' @ pt_Position params @ '' another transaction''
           else ''reordered beside a moved transaction'') in
     bindR (insertTransactionVersion (copiedVersion (pt_BookID params) t record (pt_RecordedAt params) (pt_ActorUserID params) reason auditEventID
         (pt_RequestID params) sequence (seqOverrides posting_seq t)) st) (\<lambda>(st1, written).
     writeReordered params auditEventID daySeq posting_seq ts (if t = pt_TransactionID params then Some written else found) st1))"

definition placeDaySeq :: "store \<Rightarrow> PlaceTransactionParams \<Rightarrow> string \<Rightarrow> (int \<times> int) list" where
  "placeDaySeq st params date = map (\<lambda>item. (ri_transactionID item, ri_seq item))
     (placeInScope (journalDayItemsTx st (pt_BookID params) date) (pt_TransactionID params) (pt_AnchorTransactionID params) (pt_Position params = ''before''))"

definition repo_PlaceTransaction :: "bool \<Rightarrow> PlaceTransactionParams \<Rightarrow> store \<Rightarrow> (write_error, store \<times> TransactionRecord) result" where
  "repo_PlaceTransaction batch params st =
     bindR (ensure (pt_TransactionID params > 0 \<and> pt_AnchorTransactionID params > 0 \<and> pt_TransactionID params \<noteq> pt_AnchorTransactionID params \<and>
       pt_Position params \<in> {''before'', ''after''}) ErrInvalidReorder) (\<lambda>_.
     bindR (readBookForUpdate st (pt_BookID params)) (\<lambda>_.
     bindR (transactionByID st (pt_BookID params) (pt_TransactionID params)) (\<lambda>subject.
     bindR (transactionByID st (pt_BookID params) (pt_AnchorTransactionID params)) (\<lambda>anchor.
     let sameDate = (rc_TransactionDate subject = rc_TransactionDate anchor);
         daySeq = (if sameDate then placeDaySeq st params (rc_TransactionDate subject) else []);
         shared = sharedAccountDaysTx st (pt_BookID params) (pt_TransactionID params) (pt_AnchorTransactionID params);
         plan = foldl (planScope st params) \<lparr> rp_posting_seq = [], rp_reached = [] \<rparr> shared;
         affected = sort (remdups (map fst daySeq @ map fst (rp_posting_seq plan))) in
     bindR (ensure (sameDate \<or> shared \<noteq> []) ErrReorderNotSameDay) (\<lambda>_.
     bindR (mapErr CheckpointImpact (bindCheckpointOverride batch (rp_reached plan) (pt_ReconciliationOverride params) (pt_ReviewedCheckpointIDs params))) (\<lambda>_.
     if affected = [] then Inr (st, loadTransactionChildren st subject)
     else
     bindR (insertAuditEvent (placeAudit params) st) (\<lambda>(st1, auditEventID).
     bindR (writeReordered params auditEventID (map_of (rev daySeq)) (rp_posting_seq plan) affected None st1) (\<lambda>(st2, found).
     Inr (invalidateCrossed (reorderBoundary (pt_BookID params) (pt_ActorUserID params) auditEventID (pt_RecordedAt params)
         ''transaction reordered across a reconciled checkpoint'') (rp_reached plan) st2
       (case found of Some written \<Rightarrow> written | None \<Rightarrow> loadTransactionChildren st2 subject))))))))))"

section \<open>Definitions: the service's checks\<close>

definition moveOp :: "int \<Rightarrow> (write_error, store \<times> TransactionRecord) result \<Rightarrow> (service_error, store \<times> Transaction) result" where
  "moveOp ownerUserID outcome =
     bindR (ensure (ownerUserID > 0) OwnerRequired) (\<lambda>_.
     bindR (mapErr mapTransactionDBError outcome) (\<lambda>(st, record). Inr (st, toTransaction record)))"

definition svc_MoveTransaction :: "MoveTransactionParams \<Rightarrow> store \<Rightarrow> (service_error, store \<times> Transaction) result" where
  "svc_MoveTransaction params st =
     bindR (ensure (mt_TransactionID params > 0) TransactionIDRequired) (\<lambda>_.
     bindR (ensure (mt_Direction params \<in> {''earlier'', ''later''}) DirectionInvalid) (\<lambda>_.
     moveOp (mt_ActorUserID params) (repo_MoveTransaction (params\<lparr> mt_BookID := BookID \<rparr>) st)))"

definition svc_MovePosting :: "bool \<Rightarrow> MovePostingParams \<Rightarrow> store \<Rightarrow> (service_error, store \<times> Transaction) result" where
  "svc_MovePosting batch params st =
     bindR (ensure (mp_AccountID params > 0) AccountIDRequired) (\<lambda>_.
     bindR (ensure (mp_PostingLineID params > 0) PostingLineIDRequired) (\<lambda>_.
     bindR (ensure (mp_Direction params \<in> {''earlier'', ''later''}) DirectionInvalid) (\<lambda>_.
     moveOp (mp_ActorUserID params) (repo_MovePosting batch (params\<lparr> mp_BookID := BookID \<rparr>) st))))"

definition svc_PlaceTransaction :: "bool \<Rightarrow> PlaceTransactionParams \<Rightarrow> store \<Rightarrow> (service_error, store \<times> Transaction) result" where
  "svc_PlaceTransaction batch params st =
     bindR (ensure (pt_TransactionID params > 0 \<and> pt_AnchorTransactionID params > 0 \<and> pt_TransactionID params \<noteq> pt_AnchorTransactionID params)
       TwoTransactionsRequired) (\<lambda>_.
     bindR (ensure (pt_Position params \<in> {''before'', ''after''}) PositionInvalid) (\<lambda>_.
     mapErr (\<lambda>e. if e \<in> {RepositoryFailed ErrReorderNotSameDay, RepositoryFailed ErrInvalidReorder}
         then ReorderRefused (case e of RepositoryFailed w \<Rightarrow> w | _ \<Rightarrow> ErrInvalidReorder) else e)
       (moveOp (pt_ActorUserID params) (repo_PlaceTransaction batch (params\<lparr> pt_BookID := BookID \<rparr>) st))))"

section \<open>A version with its journal copied\<close>

lemma transactionByID_audit: "transactionByID (st\<lparr> st_audit := A \<rparr>) b t = transactionByID st b t"
  by (simp add: transactionByID_def findTransaction_def transactionVersionRecord_def systemLabel_def cong: option.case_cong)

lemma found_row:
  assumes "distinct (map tr_id (st_transactions st))" and "row \<in> set (st_transactions st)" and "tr_book_id row = b" and "tr_id row = t"
  shows "findTransaction st b t = Some row"
proof -
  obtain x where x: "findTransaction st b t = Some x"
    using find_exists [OF assms(2), of "\<lambda>x. tr_book_id x = b \<and> tr_id x = t"] assms(3,4) by (auto simp: findTransaction_def)
  then have "x \<in> set (st_transactions st)" "tr_id x = tr_id row" using assms(4) by (auto simp: findTransaction_def dest!: find_in)
  then have "x = row" using assms(1,2) by (simp add: distinct_map inj_on_def)
  then show ?thesis using x by simp
qed

text \<open>A version that restates the journal of the current one; only its sequences and review states may differ.\<close>

lemma restated_version:
  assumes ok0: "storeOk st0" and ok: "storeOk st" and t: "transactionByID st0 b t = Inr header"
    and same: "currentVersion st t = currentVersion st0 t" "st_transactions st = st_transactions st0"
    and vp: "iv_BookID vp = b" "iv_TransactionID vp = t" "iv_VersionSeq vp = rc_VersionSeq header + 1" "iv_SupersedesVersionID vp = Some (rc_VersionID header)"
      "ts_Status (iv_Spec vp) = rc_Status header"
    and said: "\<And>v. currentVersion st t = Some v \<Longrightarrow> map specCore (specPostings (ts_JournalEntries (iv_Spec vp))) = map postingCore (recordPostings (tv_entries v))" and pos: "\<forall>l n. iv_PostingSeqOverrides vp l = Some n \<longrightarrow> 0 < n"
    and i: "insertTransactionVersion vp st = Inr (st', rec)"
  shows "storeOk st'" "st_checkpoints st' = st_checkpoints st" "set (st_versions st) \<subseteq> set (st_versions st')" "st_transactions st' = st_transactions st"
    "t' \<noteq> t \<Longrightarrow> currentVersion st' t' = currentVersion st t'"
    "(\<And>v old n. ck_book_id c = b \<Longrightarrow> tr_deleted_at (the (findTransaction st0 b t)) = None \<Longrightarrow> currentVersion st t = Some v \<Longrightarrow> old \<in> set (recordPostings (tv_entries v)) \<Longrightarrow> iv_PostingSeqOverrides vp (pr_PostingLineID (snd old)) = Some n \<Longrightarrow>
      inside c (fst old, (snd old)\<lparr> pr_AccountDaySequence := n \<rparr>) = inside c old) \<Longrightarrow> registerBalance st' c = registerBalance st c"
proof -
  from transactionByID_Inr [OF t] obtain row v where f: "row \<in> set (st_transactions st)" "tr_book_id row = b" "tr_id row = t"
    "currentVersion st t = Some v" "header = transactionVersionRecord st0 row v" unfolding same [symmetric] .
  have cv: "rc_VersionID header = tv_id v" "rc_Status header = tv_status v" "rc_VersionSeq header = tv_version_seq v"
    using f(5) by (simp_all add: transactionVersionRecord_def)
  have v: "v \<in> set (st_versions st)" "tv_transaction_id v = t" "tv_book_id v = b"
    using currentVersion_in [OF f(4)] rowOfVersion [OF ok f(1)] f by simp_all
  have core: "map specCore (specPostings (ts_JournalEntries (iv_Spec vp))) = map postingCore (recordPostings (tv_entries v))"
    by (rule said [OF f(4)])
  have status: "ts_Status (iv_Spec vp) = tv_status v" by (simp add: vp(5) cv)
  from insertTransactionVersion_Inr [OF i] obtain entries where a: "versionAdded vp st st' entries" .
  have sup: "supersedesWith vp st v st' entries" using a v vp cv by (simp add: supersedesWith_def)
  have chain: "nextInChain vp st" by (rule current_chain [of _ t v]) (simp_all add: f(4) vp cv)
  show "storeOk st'"
  proof (rule versionAdded_storeOk [OF ok a chain _ copied_keys [OF ok v(1) core] pos])
    show "\<exists>x\<in>set (st_transactions st). tr_id x = iv_TransactionID vp \<and> tr_book_id x = iv_BookID vp" using f(1-3) vp by auto
    show "ts_Status (iv_Spec vp) \<in> set transactionStatuses" using storeOk_parts(10) [OF ok v(1)] by (simp add: status)
    show "\<forall>u. priorVersion st (iv_TransactionID vp) = Some u \<longrightarrow> map postingCore (recordPostings (tv_entries u)) =
        map specCore (specPostings (ts_JournalEntries (iv_Spec vp)))" if "ts_Status (iv_Spec vp) = ''voided''"
      using storeOk_parts(6) [OF ok f(1)] f(3,4) that unfolding core by (auto simp: voidOk_def sameJournalRows_def status vp(2))
  qed
  note fr = versionAdded_frame [OF a]
  show "st_checkpoints st' = st_checkpoints st" "set (st_versions st) \<subseteq> set (st_versions st')" "st_transactions st' = st_transactions st" by (auto simp: fr)
  show "currentVersion st' t' = currentVersion st t'" if "t' \<noteq> t" using that by (simp add: currentVersion_added [OF a chain] vp(2))
  assume side: "\<And>v old n. ck_book_id c = b \<Longrightarrow> tr_deleted_at (the (findTransaction st0 b t)) = None \<Longrightarrow> currentVersion st t = Some v \<Longrightarrow> old \<in> set (recordPostings (tv_entries v)) \<Longrightarrow> iv_PostingSeqOverrides vp (pr_PostingLineID (snd old)) = Some n \<Longrightarrow>
      inside c (fst old, (snd old)\<lparr> pr_AccountDaySequence := n \<rparr>) = inside c old"
  have "findTransaction st0 b t = Some row"
    by (rule found_row) (use storeOk_parts(1) [OF ok0] f(1-3) same(2) in auto)
  then have "rawSum c entries = rawSum c (tv_entries v)" if "ck_book_id c = b" "tr_deleted_at row = None"
    by (intro copy_raw_overrides [OF ok sup core]) (use side f(4) that in auto)
  then have "contribution c (newVersion vp st entries) = contribution c v" if "ck_book_id c = b" "tr_deleted_at row = None" using that by (simp add: contribution_rawSum status)
  then show "registerBalance st' c = registerBalance st c"
    by (intro version_balance [OF ok a f(1)]) (use f chain vp in auto)
qed

lemma copied_version:
  assumes ok0: "storeOk st0" and ok: "storeOk st" and t: "transactionByID st0 b t = Inr header"
    and same: "currentVersion st t = currentVersion st0 t" "st_transactions st = st_transactions st0"
    and vp: "iv_BookID vp = b" "iv_TransactionID vp = t" "iv_VersionSeq vp = rc_VersionSeq header + 1" "iv_SupersedesVersionID vp = Some (rc_VersionID header)"
      "iv_Spec vp = transactionSpecFromRecord (loadTransactionChildren st0 header)" and pos: "\<forall>l n. iv_PostingSeqOverrides vp l = Some n \<longrightarrow> 0 < n"
    and i: "insertTransactionVersion vp st = Inr (st', rec)"
  shows "storeOk st'" "st_checkpoints st' = st_checkpoints st" "set (st_versions st) \<subseteq> set (st_versions st')" "st_transactions st' = st_transactions st"
    "t' \<noteq> t \<Longrightarrow> currentVersion st' t' = currentVersion st t'"
    "(\<And>v old n. ck_book_id c = b \<Longrightarrow> tr_deleted_at (the (findTransaction st0 b t)) = None \<Longrightarrow> currentVersion st t = Some v \<Longrightarrow> old \<in> set (recordPostings (tv_entries v)) \<Longrightarrow> iv_PostingSeqOverrides vp (pr_PostingLineID (snd old)) = Some n \<Longrightarrow>
      inside c (fst old, (snd old)\<lparr> pr_AccountDaySequence := n \<rparr>) = inside c old) \<Longrightarrow> registerBalance st' c = registerBalance st c"
proof -
  have s: "ts_Status (iv_Spec vp) = rc_Status header" by (simp add: vp(5) transactionSpecFromRecord_def loadTransactionChildren_def)
  have said: "map specCore (specPostings (ts_JournalEntries (iv_Spec vp))) = map postingCore (recordPostings (tv_entries v))" if "currentVersion st t = Some v" for v
  proof -
    from transactionByID_Inr [OF t] obtain row v0 where "currentVersion st0 t = Some v0" "header = transactionVersionRecord st0 row v0" by blast
    then have "v \<in> set (st_versions st0)" "rc_VersionID header = tv_id v"
      using that same(1) currentVersion_in [of st0 t v] by (simp_all add: transactionVersionRecord_def)
    then show ?thesis unfolding vp(5) by (rule record_core [OF ok0])
  qed
  note r = restated_version [OF ok0 ok t same vp(1-4) s _ pos i]
  show "storeOk st'" by (rule r(1)) (rule said)
  show "st_checkpoints st' = st_checkpoints st" by (rule r(2)) (rule said)
  show "set (st_versions st) \<subseteq> set (st_versions st')" by (rule r(3)) (rule said)
  show "st_transactions st' = st_transactions st" by (rule r(4)) (rule said)
  show "t' \<noteq> t \<Longrightarrow> currentVersion st' t' = currentVersion st t'" by (rule r(5)) (rule said)
  assume side: "\<And>v old n. ck_book_id c = b \<Longrightarrow> tr_deleted_at (the (findTransaction st0 b t)) = None \<Longrightarrow> currentVersion st t = Some v \<Longrightarrow> old \<in> set (recordPostings (tv_entries v)) \<Longrightarrow> iv_PostingSeqOverrides vp (pr_PostingLineID (snd old)) = Some n \<Longrightarrow>
      inside c (fst old, (snd old)\<lparr> pr_AccountDaySequence := n \<rparr>) = inside c old"
  show "registerBalance st' c = registerBalance st c" by (rule r(6)) (erule said, rule side)
qed

lemma copiedVersion_fields [simp]:
  "iv_BookID (copiedVersion b t r w a reason i q d ov) = b" "iv_TransactionID (copiedVersion b t r w a reason i q d ov) = t"
  "iv_VersionSeq (copiedVersion b t r w a reason i q d ov) = rc_VersionSeq r + 1"
  "iv_SupersedesVersionID (copiedVersion b t r w a reason i q d ov) = Some (rc_VersionID r)"
  "iv_Spec (copiedVersion b t r w a reason i q d ov) = transactionSpecFromRecord r"
  "iv_PostingSeqOverrides (copiedVersion b t r w a reason i q d ov) = ov"
  by (simp_all add: copiedVersion_def)

lemma loadTransactionChildren_fields [simp]:
  "rc_VersionSeq (loadTransactionChildren st r) = rc_VersionSeq r" "rc_VersionID (loadTransactionChildren st r) = rc_VersionID r"
  by (simp_all add: loadTransactionChildren_def)

section \<open>Moving a transaction\<close>

lemma adjacent_other:
  assumes "adjacentTransaction st b d n direction = Some (t, v)"
  shows "t \<in> set (st_transactions st)" "currentVersion st (tr_id t) = Some v" "tr_deleted_at t = None" "tv_day_sequence v \<noteq> n"
  using assms
  by (auto simp: adjacentTransaction_def Let_def currentRows_def split: if_splits option.splits dest!: lastBy_in conjunct1 [OF firstBy_Some])

lemma move_committed:
  assumes ok: "storeOk st" and w: "repo_MoveTransaction params st = Inr (st', r)"
  shows "storeOk st' \<and> balancesKept st st' \<and> set (st_versions st) \<subseteq> set (st_versions st')"
proof -
  define b where "b = mt_BookID params" define t where "t = mt_TransactionID params"
  define copied where "copied st1 t h reason audit n = copiedVersion b t (loadTransactionChildren st1 h) (mt_RecordedAt params) (mt_ActorUserID params) reason audit (mt_RequestID params) n Map.empty"
    for st1 t h reason audit n
  from w obtain h ta va st1 audit h' st2 r2 r3 reason where th: "transactionByID st b t = Inr h"
    and adj: "adjacentTransaction st b (rc_TransactionDate h) (rc_TransactionDaySequence h) (mt_Direction params) = Some (ta, va)"
    and au: "insertAuditEvent (moveAudit params) st = Inr (st1, audit)" and th': "transactionByID st1 b (tr_id ta) = Inr h'"
    and i1: "insertTransactionVersion (copied st1 t h reason audit (tv_day_sequence va)) st1 = Inr (st2, r2)"
    and i2: "insertTransactionVersion (copied st1 (tr_id ta) h' ''swapped for moved transaction'' audit (rc_TransactionDaySequence (loadTransactionChildren st1 h))) st2 = Inr (st', r3)"
    unfolding repo_MoveTransaction_def b_def [symmetric] t_def [symmetric] copied_def Let_def by (auto simp: result_simps split: option.splits)
  from insertAuditEvent_Inr [OF au] obtain A where A: "st1 = st\<lparr> st_audit := A \<rparr>" ..
  have ok1: "storeOk st1" unfolding A by (rule storeOk_audit [OF ok])
  have th1: "transactionByID st1 b t = Inr h" using th by (simp add: A transactionByID_audit)
  have f: "iv_BookID (copied s x h reason audit n) = b" "iv_TransactionID (copied s x h reason audit n) = x" "iv_VersionSeq (copied s x h reason audit n) = rc_VersionSeq h + 1"
    "iv_SupersedesVersionID (copied s x h reason audit n) = Some (rc_VersionID h)" "iv_PostingSeqOverrides (copied s x h reason audit n) = Map.empty"
    "iv_Spec (copied s x h reason audit n) = transactionSpecFromRecord (loadTransactionChildren s h)" for s x h reason audit n
    by (simp_all add: copied_def)
  have other: "tr_id ta \<noteq> t"
  proof
    assume e: "tr_id ta = t"
    from transactionByID_Inr [OF th] obtain row v where "currentVersion st t = Some v" "h = transactionVersionRecord st row v" by blast
    then show False using adjacent_other(2,4) [OF adj] e by (simp add: transactionVersionRecord_def)
  qed
  note c1 = copied_version [OF ok1 ok1 th1 refl refl f(1-4) f(6) _ i1]
  have cur: "currentVersion st2 (tr_id ta) = currentVersion st1 (tr_id ta)" "st_transactions st2 = st_transactions st1" using c1(4,5) other by (simp_all add: f)
  have ok2: "storeOk st2" using c1(1) by (simp add: f)
  note c2 = copied_version [OF ok1 ok2 th' cur f(1-4) f(6) _ i2]
  have "registerBalance st' c = registerBalance st c" for c
  proof -
    have "registerBalance st' c = registerBalance st2 c" by (rule c2(6)) (simp_all add: f)
    also have "\<dots> = registerBalance st1 c" by (rule c1(6)) (simp_all add: f)
    also have "\<dots> = registerBalance st c" by (rule registerBalance_reads) (simp_all add: A)
    finally show ?thesis .
  qed
  then show ?thesis using c1(2,3) c2(1,2,3) by (auto simp: f balancesKept_def A)
qed

section \<open>Changes of order and the checkpoints they cross\<close>

lemma line_unique:
  assumes ok: "storeOk st" and v: "v \<in> set (st_versions st)" "cur \<in> set (recordPostings (tv_entries v))"
    and w: "w \<in> set (st_versions st)" "cur' \<in> set (recordPostings (tv_entries w))" and line: "pr_PostingLineID (snd cur) = pr_PostingLineID (snd cur')"
  shows "tv_transaction_id v = tv_transaction_id w" "pr_LineKey (snd cur) = pr_LineKey (snd cur')"
proof -
  have "\<exists>l\<in>set (st_lines st). pl_id l = pr_PostingLineID (snd c) \<and> pl_transaction_id l = tv_transaction_id u \<and> pl_line_key l = pr_LineKey (snd c)"
    if u: "u \<in> set (st_versions st)" "c \<in> set (recordPostings (tv_entries u))" for u c
  proof -
    have "lineAt (tv_book_id u) (tv_transaction_id u) (st_lines st) (pr_LineKey (snd c)) = Some (pr_PostingLineID (snd c))"
      using storeOk_parts(4) [OF ok u(1)] u(2) unfolding journalOk_def by blast
    then show ?thesis by (auto simp: lineAt_def dest!: find_in)
  qed
  from this [OF v] this [OF w] obtain l l' where l: "l \<in> set (st_lines st)" "l' \<in> set (st_lines st)" "pl_id l = pl_id l'"
    "pl_transaction_id l = tv_transaction_id v" "pl_line_key l = pr_LineKey (snd cur)" "pl_transaction_id l' = tv_transaction_id w" "pl_line_key l' = pr_LineKey (snd cur')"
    using line by auto
  moreover have "l = l'" using storeOk_parts(5) [OF ok] l(1-3) by (simp add: distinct_map inj_on_def)
  ultimately show "tv_transaction_id v = tv_transaction_id w" "pr_LineKey (snd cur) = pr_LineKey (snd cur')" by simp_all
qed

lemma currentRows_iff:
  "(row, v) \<in> set (currentRows st) \<longleftrightarrow> row \<in> set (st_transactions st) \<and> tr_deleted_at row = None \<and> currentVersion st (tr_id row) = Some v"
proof -
  define rowsOf where "rowsOf t = (if tr_deleted_at t \<noteq> None then [] else case currentVersion st (tr_id t) of None \<Rightarrow> [] | Some v \<Rightarrow> [(t, v)])" for t :: transactionRow
  have "(row, v) \<in> set (rowsOf t) \<longleftrightarrow> t = row \<and> tr_deleted_at row = None \<and> currentVersion st (tr_id row) = Some v" for t
    by (auto simp: rowsOf_def split: option.splits)
  moreover have "(row, v) \<in> set (currentRows st) \<longleftrightarrow> (\<exists>t\<in>set (st_transactions st). (row, v) \<in> set (rowsOf t))"
    unfolding currentRows_def rowsOf_def [symmetric] by simp
  ultimately show ?thesis by auto
qed

lemma currentPostings_iff:
  "(t, cur) \<in> set (currentPostings st) \<longleftrightarrow> (\<exists>row v. row \<in> set (st_transactions st) \<and> tr_deleted_at row = None \<and> tr_id row = t \<and>
     currentVersion st t = Some v \<and> cur \<in> set (recordPostings (tv_entries v)))"
proof -
  have "(t, cur) \<in> set (currentPostings st) \<longleftrightarrow> (\<exists>row v. (row, v) \<in> set (currentRows st) \<and> tr_id row = t \<and> cur \<in> set (recordPostings (tv_entries v)))"
    by (force simp: currentPostings_def)
  then show ?thesis unfolding currentRows_iff by blast
qed

lemma current_posting_unique:
  assumes ok: "storeOk st" and "(t, cur) \<in> set (currentPostings st)" and v: "currentVersion st t' = Some w" "cur' \<in> set (recordPostings (tv_entries w))"
    and line: "pr_PostingLineID (snd cur) = pr_PostingLineID (snd cur')"
  shows "t = t'" "cur = cur'"
proof -
  from assms(2) obtain v where w: "currentVersion st t = Some v" "cur \<in> set (recordPostings (tv_entries v))" unfolding currentPostings_iff by blast
  note vw = currentVersion_in [OF w(1)] currentVersion_in [OF v(1)]
  note u = line_unique [OF ok conjunct1 [OF vw(1)] w(2) conjunct1 [OF vw(2)] v(2) line]
  show t: "t = t'" using u(1) vw by simp
  then have "v = w" using w(1) v(1) by simp
  moreover have "distinct (map postingKey' (recordPostings (tv_entries w)))" using storeOk_parts(4) [OF ok conjunct1 [OF vw(2)]] by (simp add: journalOk_def)
  ultimately have "inj_on postingKey' (set (recordPostings (tv_entries w)))" "cur \<in> set (recordPostings (tv_entries w))" using w(2) by (simp_all add: distinct_map)
  then show "cur = cur'" using inj_onD [of postingKey' _ cur cur'] v(2) u(2) by (simp add: postingKey'_def)
qed

lemma crossedRefs_in:
  assumes "c \<in> set table" and "ck_book_id c = b" and "ck_status c = ''active''" and "ck_account_id c = a" and "ck_commodity_id c = m" and "ck_statement_date c = d"
    and "low \<le> ck_statement_account_sequence c" and "ck_statement_account_sequence c < high"
  shows "ck_id c \<in> rf_CheckpointID ` set (crossedRefs table b a m d low high)"
proof -
  let ?k = "\<lparr> cd_AccountID = a, cd_CommodityID = m, cd_EntryDate = d, cd_AccountDaySequence = low \<rparr>"
  have "refOf ?k c \<in> set (activeCheckpointRefsAtOrAfter table b ?k)" using assms by (auto simp: activeCheckpointRefsAtOrAfter_def reaches_def)
  moreover have "rf_StatementDate (refOf ?k c) = d \<and> rf_StatementAccountSequence (refOf ?k c) < high" "rf_CheckpointID (refOf ?k c) = ck_id c"
    using assms by (simp_all add: refOf_def)
  ultimately have "refOf ?k c \<in> set (crossedRefs table b a m d low high)" "ck_id c = rf_CheckpointID (refOf ?k c)"
    by (auto simp: crossedRefs_def Let_def list_ex_iff)
  then show ?thesis by (rule image_eqI [rotated])
qed

lemma side_kept:
  assumes "c \<in> set table" and "ck_book_id c = b" and "ck_status c = ''active''"
    and "ck_id c \<notin> rf_CheckpointID ` set (crossedRefs table b (pr_AccountID (snd cur)) (pr_CommodityID (snd cur)) (fst cur) low high)"
    and "low \<le> pr_AccountDaySequence (snd cur)" and "pr_AccountDaySequence (snd cur) \<le> high" and "low \<le> n" and "n \<le> high"
  shows "inside c (fst cur, (snd cur)\<lparr> pr_AccountDaySequence := n \<rparr>) = inside c cur"
proof (rule ccontr)
  assume "\<not> ?thesis"
  then have "pr_AccountID (snd cur) = ck_account_id c" "pr_CommodityID (snd cur) = ck_commodity_id c" "fst cur = ck_statement_date c"
    "low \<le> ck_statement_account_sequence c" "ck_statement_account_sequence c < high"
    using assms(5-8) by (auto simp: inside_def)
  with crossedRefs_in [OF assms(1-3), of "pr_AccountID (snd cur)" "pr_CommodityID (snd cur)" "fst cur" low high] assms(4) show False by simp
qed

lemma crossedRefs_ids: "rf_CheckpointID ` set (crossedRefs table b a m d low high) \<subseteq> ck_id ` set table"
  by (auto simp: crossedRefs_def Let_def activeCheckpointRefsAtOrAfter_def refOf_def)

lemma refs_invalidated:
  assumes ok: "storeOk st" and sub: "rf_CheckpointID ` set refs \<subseteq> ck_id ` set (st_checkpoints st)"
    and i: "invalidateReconciliationCheckpoints bp [] [] refs (st_checkpoints st) = (table, ids)"
  shows "storeOk (st\<lparr> st_checkpoints := table \<rparr>)"
    "\<forall>c\<in>set table. ck_status c = ''active'' \<longrightarrow> c \<in> set (st_checkpoints st) \<and> (ck_book_id c = bp_BookID bp \<longrightarrow> ck_id c \<notin> rf_CheckpointID ` set refs)"
proof -
  have pos: "0 < ck_id c" if "c \<in> set (st_checkpoints st)" for c using storeOk_parts(7) [OF ok] that by (simp add: tableOk_def list_all_iff)
  have "0 < rf_CheckpointID r" if "r \<in> set refs" for r
  proof -
    from that sub obtain c where "c \<in> set (st_checkpoints st)" "rf_CheckpointID r = ck_id c" by blast
    then show ?thesis using pos [of c] by simp
  qed
  then have "\<forall>r\<in>set refs. 0 < rf_CheckpointID r" by blast
  from invalidate_all [OF this _ i] have table: "table = map (\<lambda>c. if ck_id c \<in> rf_CheckpointID ` set refs then invalidateRow bp (ck_id c) c else c) (st_checkpoints st)" by simp
  show "\<forall>c\<in>set table. ck_status c = ''active'' \<longrightarrow> c \<in> set (st_checkpoints st) \<and> (ck_book_id c = bp_BookID bp \<longrightarrow> ck_id c \<notin> rf_CheckpointID ` set refs)"
    by (auto simp: table invalidateRow_def split: if_splits)
  have v: "st_versions (st\<lparr> st_checkpoints := table \<rparr>) = st_versions st" by simp
  have ids: "map ck_id table = map ck_id (st_checkpoints st)" by (simp add: table)
  have "list_all (\<lambda>k. 0 < k) (map ck_id table)" unfolding ids using pos by (simp add: list_all_iff)
  then have "list_all (\<lambda>c. 0 < ck_id c) table" unfolding list.pred_map comp_def .
  then have "tableOk table" using storeOk_parts(7) [OF ok] unfolding tableOk_def ids by blast
  moreover have "boundaryOk st (invalidateRow bp k c) = boundaryOk st c" for k c by (simp add: boundaryOk_def invalidateRow_def)
  then have "\<forall>c\<in>set table. boundaryOk st c" using storeOk_parts(8) [OF ok] by (auto simp: table)
  ultimately show "storeOk (st\<lparr> st_checkpoints := table \<rparr>)" using ok unfolding storeOk_def reads_versions(4,5,6) [OF v] by simp
qed

lemma crossed_invalidated:
  assumes ok: "storeOk st" and sub: "rf_CheckpointID ` set refs \<subseteq> ck_id ` set (st_checkpoints st)" and i: "invalidateCrossed bp refs st r = (st', r')"
  shows "storeOk st'" "st_versions st' = st_versions st" "st_transactions st' = st_transactions st"
    "\<forall>c\<in>set (st_checkpoints st'). ck_status c = ''active'' \<longrightarrow> c \<in> set (st_checkpoints st) \<and> (ck_book_id c = bp_BookID bp \<longrightarrow> ck_id c \<notin> rf_CheckpointID ` set refs)"
proof -
  obtain table ids where t: "invalidateReconciliationCheckpoints bp [] [] refs (st_checkpoints st) = (table, ids)" by fastforce
  note ri = refs_invalidated [OF ok sub t]
  have st': "st' = st\<lparr> st_checkpoints := table \<rparr>" using i t by (auto simp: invalidateCrossed_def split: if_splits)
  show "storeOk st'" "st_versions st' = st_versions st" "st_transactions st' = st_transactions st" using ri(1) by (simp_all add: st')
  show "\<forall>c\<in>set (st_checkpoints st'). ck_status c = ''active'' \<longrightarrow> c \<in> set (st_checkpoints st) \<and> (ck_book_id c = bp_BookID bp \<longrightarrow> ck_id c \<notin> rf_CheckpointID ` set refs)"
    using ri(2) by (simp add: st')
qed

section \<open>Moving a posting\<close>

lemma moveVersion_Inr:
  assumes ok: "storeOk st" and w: "moveVersion params audit t reason ov st = Inr (st', r)" and pos: "\<forall>l n. ov l = Some n \<longrightarrow> 0 < n"
  shows "storeOk st'" "st_checkpoints st' = st_checkpoints st" "set (st_versions st) \<subseteq> set (st_versions st')" "st_transactions st' = st_transactions st"
    "t' \<noteq> t \<Longrightarrow> currentVersion st' t' = currentVersion st t'"
    "(\<And>v old n. ck_book_id c = mp_BookID params \<Longrightarrow> currentVersion st t = Some v \<Longrightarrow> old \<in> set (recordPostings (tv_entries v)) \<Longrightarrow> ov (pr_PostingLineID (snd old)) = Some n \<Longrightarrow>
      inside c (fst old, (snd old)\<lparr> pr_AccountDaySequence := n \<rparr>) = inside c old) \<Longrightarrow> registerBalance st' c = registerBalance st c"
proof -
  define vp where "vp h = copiedVersion (mp_BookID params) t (loadTransactionChildren st h) (mp_RecordedAt params) (mp_ActorUserID params) reason audit
    (mp_RequestID params) (rc_TransactionDaySequence (loadTransactionChildren st h)) ov" for h
  from w obtain h where h: "transactionByID st (mp_BookID params) t = Inr h" and i: "insertTransactionVersion (vp h) st = Inr (st', r)"
    unfolding moveVersion_def Let_def vp_def by (auto simp: result_simps)
  have f: "iv_BookID (vp h) = mp_BookID params" "iv_TransactionID (vp h) = t" "iv_VersionSeq (vp h) = rc_VersionSeq h + 1"
    "iv_SupersedesVersionID (vp h) = Some (rc_VersionID h)" "iv_Spec (vp h) = transactionSpecFromRecord (loadTransactionChildren st h)"
    and ov: "iv_PostingSeqOverrides (vp h) = ov" by (simp_all add: vp_def)
  note cv = copied_version [OF ok ok h refl refl f _ i, unfolded ov, OF pos]
  show "storeOk st'" "st_checkpoints st' = st_checkpoints st" "set (st_versions st) \<subseteq> set (st_versions st')" "st_transactions st' = st_transactions st" by (fact cv)+
  show "t' \<noteq> t \<Longrightarrow> currentVersion st' t' = currentVersion st t'" by (fact cv(5))
  show "(\<And>v old n. ck_book_id c = mp_BookID params \<Longrightarrow> currentVersion st t = Some v \<Longrightarrow> old \<in> set (recordPostings (tv_entries v)) \<Longrightarrow> ov (pr_PostingLineID (snd old)) = Some n \<Longrightarrow>
      inside c (fst old, (snd old)\<lparr> pr_AccountDaySequence := n \<rparr>) = inside c old) \<Longrightarrow> registerBalance st' c = registerBalance st c"
    by (rule cv(6)) blast
qed

lemma current_positive:
  assumes "storeOk st" and "(t, cur) \<in> set (currentPostings st)"
  shows "0 < pr_AccountDaySequence (snd cur)"
proof -
  from assms(2) obtain v where "currentVersion st t = Some v" "cur \<in> set (recordPostings (tv_entries v))" unfolding currentPostings_iff by blast
  then show ?thesis using storeOk_parts(4) [OF assms(1), of v] currentVersion_in [of st t v] by (auto simp: journalOk_def)
qed

lemma findPosting_Some:
  assumes "findPosting st b l a = Some (t, cur)"
  shows "(t, cur) \<in> set (currentPostings st)" "pr_PostingLineID (snd cur) = l" "pr_AccountID (snd cur) = a"
  using assms by (auto simp: findPosting_def dest!: find_in)

lemma adjacentPosting_Some:
  assumes "adjacentPosting st b a d n direction = Some (t, cur)"
  shows "(t, cur) \<in> set (currentPostings st)" "pr_AccountID (snd cur) = a" "fst cur = d" "pr_AccountDaySequence (snd cur) \<noteq> n"
  using assms by (auto simp: adjacentPosting_def Let_def split: if_splits dest!: lastBy_in conjunct1 [OF firstBy_Some])

text \<open>The posting that is moved and the one it changes places with are of the same commodity.\<close>

definition sameCommodity :: "MovePostingParams \<Rightarrow> store \<Rightarrow> bool" where
  "sameCommodity params st = (case findPosting st (mp_BookID params) (mp_PostingLineID params) (mp_AccountID params) of None \<Rightarrow> True
     | Some (t, d, current) \<Rightarrow> (case adjacentPosting st (mp_BookID params) (mp_AccountID params) d (pr_AccountDaySequence current) (mp_Direction params) of
         None \<Rightarrow> True | Some (t', d', adj) \<Rightarrow> pr_CommodityID adj = pr_CommodityID current))"

lemma movePosting_committed:
  assumes ok: "storeOk st" and w: "repo_MovePosting batch params st = Inr (st', r)" and com: "sameCommodity params st"
  shows "storeOk st' \<and> balancesKept st st' \<and> set (st_versions st) \<subseteq> set (st_versions st')"
proof -
  define b where "b = mp_BookID params" define l where "l = mp_PostingLineID params"
  define reached where "reached d p q = crossedRefs (st_checkpoints st) b (mp_AccountID params) (pr_CommodityID p) d
    (min (pr_AccountDaySequence p) (pr_AccountDaySequence q)) (max (pr_AccountDaySequence p) (pr_AccountDaySequence q))" for d and p q :: PostingRecord
  define ov where "ov t t' p q = (if t' = t then [l \<mapsto> pr_AccountDaySequence q, pr_PostingLineID q \<mapsto> pr_AccountDaySequence p] else [l \<mapsto> pr_AccountDaySequence q])"
    for t t' :: int and p q :: PostingRecord
  define bp where "bp audit = reorderBoundary b (mp_ActorUserID params) audit (mp_RecordedAt params)
    (''posting moved '' @ mp_Direction params @ '' across a reconciled checkpoint'')" for audit
  from w obtain t d p t' d' q st1 audit st2 r2 st3 reason where
    cur: "findPosting st b l (mp_AccountID params) = Some (t, d, p)"
    and adj: "adjacentPosting st b (mp_AccountID params) d (pr_AccountDaySequence p) (mp_Direction params) = Some (t', d', q)"
    and au: "insertAuditEvent (postingAudit params) st = Inr (st1, audit)"
    and w2: "moveVersion params audit t reason (ov t t' p q) st1 = Inr (st2, r2)"
    and w3: "(if t' = t then Inr st2 else bindR (moveVersion params audit t' ''swapped for moved posting'' [pr_PostingLineID q \<mapsto> pr_AccountDaySequence p] st2)
      (\<lambda>(st3, _). Inr st3)) = Inr st3"
    and inv: "invalidateCrossed (bp audit) (reached d p q) st3 r2 = (st', r)"
    unfolding repo_MovePosting_def Let_def b_def [symmetric] l_def [symmetric] reached_def [symmetric] bp_def [symmetric] ov_def [symmetric]
    by (auto simp: result_simps split: option.splits prod.splits)
  from insertAuditEvent_Inr [OF au] obtain A where A: "st1 = st\<lparr> st_audit := A \<rparr>" ..
  have ok1: "storeOk st1" unfolding A by (rule storeOk_audit [OF ok])
  note fc = findPosting_Some [OF cur] and fa = adjacentPosting_Some [OF adj]
  have pos: "0 < pr_AccountDaySequence p" "0 < pr_AccountDaySequence q" using current_positive [OF ok fc(1)] current_positive [OF ok fa(1)] by simp_all
  have same: "pr_CommodityID q = pr_CommodityID p" "d' = d" "pr_PostingLineID p = l" "pr_AccountID p = mp_AccountID params" "pr_AccountID q = mp_AccountID params"
    using com fc fa cur adj by (simp_all add: sameCommodity_def b_def l_def)
  have side: "inside c (fst old, (snd old)\<lparr> pr_AccountDaySequence := n \<rparr>) = inside c old"
    if c: "c \<in> set (st_checkpoints st)" "ck_book_id c = b" "ck_status c = ''active''" "ck_id c \<notin> rf_CheckpointID ` set (reached d p q)"
      and old: "old = (d, p) \<and> n = pr_AccountDaySequence q \<or> old = (d, q) \<and> n = pr_AccountDaySequence p" for c old n
    by (rule side_kept [OF c(1-3), where low = "min (pr_AccountDaySequence p) (pr_AccountDaySequence q)" and high = "max (pr_AccountDaySequence p) (pr_AccountDaySequence q)"])
      (use old c(4) same in \<open>auto simp: reached_def\<close>)
  have lines: "pr_PostingLineID q \<noteq> l"
  proof
    assume e: "pr_PostingLineID q = l"
    from fc(1) obtain v where "currentVersion st t = Some v" "(d, p) \<in> set (recordPostings (tv_entries v))" unfolding currentPostings_iff by blast
    from current_posting_unique [OF ok fa(1) this] e same(3) fa(4) show False by simp
  qed
  have pick: "old = (d, p) \<and> n = pr_AccountDaySequence q \<or> old = (d, q) \<and> n = pr_AccountDaySequence p"
    if v: "currentVersion st x = Some v" "old \<in> set (recordPostings (tv_entries v))"
      and o: "[l \<mapsto> pr_AccountDaySequence q, pr_PostingLineID q \<mapsto> pr_AccountDaySequence p] (pr_PostingLineID (snd old)) = Some n" for x v old n
    using current_posting_unique [OF ok fc(1) v] current_posting_unique [OF ok fa(1) v] o lines same(2,3) by (auto split: if_splits)
  have ovs: "[l \<mapsto> pr_AccountDaySequence q, pr_PostingLineID q \<mapsto> pr_AccountDaySequence p] k = Some n" if "ov t t' p q k = Some n" for k n
    using that lines by (auto simp: ov_def split: if_splits)
  have "\<forall>k n. ov t t' p q k = Some n \<longrightarrow> 0 < n" using pos by (auto simp: ov_def split: if_splits)
  note m1 = moveVersion_Inr [OF ok1 w2 this]
  have step2: "storeOk st3 \<and> st_checkpoints st3 = st_checkpoints st2 \<and> set (st_versions st2) \<subseteq> set (st_versions st3) \<and>
    (\<forall>c. c \<in> set (st_checkpoints st) \<and> ck_status c = ''active'' \<and> (ck_book_id c = b \<longrightarrow> ck_id c \<notin> rf_CheckpointID ` set (reached d p q)) \<longrightarrow>
       registerBalance st3 c = registerBalance st2 c)"
  proof (cases "t' = t")
    case True
    then show ?thesis using w3 m1(1) by simp
  next
    case False
    from w3 False obtain r3 where w3': "moveVersion params audit t' ''swapped for moved posting'' [pr_PostingLineID q \<mapsto> pr_AccountDaySequence p] st2 = Inr (st3, r3)"
      by (auto simp: result_simps)
    have "\<forall>k n. [pr_PostingLineID q \<mapsto> pr_AccountDaySequence p] k = Some n \<longrightarrow> 0 < n" using pos by (auto split: if_splits)
    note m2 = moveVersion_Inr [OF m1(1) w3' this]
    have "currentVersion st2 t' = currentVersion st t'" using m1(5) [OF False] by (simp add: A)
    then have "registerBalance st3 c = registerBalance st2 c"
      if "c \<in> set (st_checkpoints st)" "ck_status c = ''active''" "ck_book_id c = b \<longrightarrow> ck_id c \<notin> rf_CheckpointID ` set (reached d p q)" for c
      by (intro m2(6) side [OF that(1) _ that(2)] pick [of t']) (use that(3) in \<open>auto simp: b_def split: if_splits\<close>)
    then show ?thesis using m2(1,2,3) by blast
  qed
  have bal: "registerBalance st3 c = registerBalance st c"
    if c: "c \<in> set (st_checkpoints st)" "ck_status c = ''active''" "ck_book_id c = b \<longrightarrow> ck_id c \<notin> rf_CheckpointID ` set (reached d p q)" for c
  proof -
    have "registerBalance st3 c = registerBalance st2 c" using step2 c by blast
    also have "\<dots> = registerBalance st1 c" by (rule m1(6)) (use side pick [of t] ovs c in \<open>auto simp: b_def A\<close>)
    also have "\<dots> = registerBalance st c" by (rule registerBalance_reads) (simp_all add: A)
    finally show ?thesis .
  qed
  have cks: "st_checkpoints st3 = st_checkpoints st" using step2 m1(2) by (simp add: A)
  have "rf_CheckpointID ` set (reached d p q) \<subseteq> ck_id ` set (st_checkpoints st3)" unfolding reached_def cks by (rule crossedRefs_ids)
  note ri = crossed_invalidated [OF conjunct1 [OF step2] this inv]
  have "registerBalance st' c = registerBalance st3 c" for c by (rule registerBalance_reads) (simp_all add: ri)
  moreover have "bp_BookID (bp audit) = b" by (simp add: bp_def reorderBoundary_def)
  ultimately have "balancesKept st st'" using ri(4) bal unfolding balancesKept_def by (auto simp: cks)
  then show ?thesis using ri(1,2) step2 m1(3) by (auto simp: A)
qed

section \<open>Placing a transaction\<close>

lemma foldl_min_le: "foldl (\<lambda>low x. min (min low (f x)) (g x)) (n :: int) xs \<le> n"
proof (induction xs arbitrary: n)
  case (Cons x xs)
  show ?case using Cons [of "min (min n (f x)) (g x)"] by simp
qed simp

lemma foldl_min: "x \<in> set xs \<Longrightarrow> foldl (\<lambda>low x. min (min low (f x)) (g x)) (n :: int) xs \<le> min (f x) (g x)"
proof (induction xs arbitrary: n)
  case (Cons y xs)
  then show ?case using foldl_min_le [of f g "min (min n (f y)) (g y)" xs] by auto
qed simp

lemma foldl_max_ge: "(n :: int) \<le> foldl (\<lambda>high x. max (max high (f x)) (g x)) n xs"
proof (induction xs arbitrary: n)
  case (Cons x xs)
  show ?case using Cons [of "max (max n (f x)) (g x)"] by simp
qed simp

lemma foldl_max: "x \<in> set xs \<Longrightarrow> max (f x) (g x) \<le> foldl (\<lambda>high x. max (max high (f x)) (g x)) (n :: int) xs"
proof (induction xs arbitrary: n)
  case (Cons y xs)
  then show ?case using foldl_max_ge [of "max (max n (f y)) (g y)" f g xs] by auto
qed simp

lemma previousSeq_of:
  assumes "x \<in> set items" and "\<And>y. y \<in> set items \<Longrightarrow> ri_postingLineID y = ri_postingLineID x \<Longrightarrow> ri_seq y = ri_seq x"
  shows "previousSeq items (ri_postingLineID x) = ri_seq x"
proof (cases "map_of (rev (map (\<lambda>item. (ri_postingLineID item, ri_seq item)) items)) (ri_postingLineID x)")
  case None
  then show ?thesis using assms(1) by (auto simp: map_of_eq_None_iff image_iff)
next
  case (Some n)
  then show ?thesis using assms(2) by (auto simp: previousSeq_def dest!: map_of_SomeD)
qed

lemma accountDayItems_in:
  assumes "x \<in> set (accountDayItemsTx st b a d)"
  obtains p where "(ri_transactionID x, d, p) \<in> set (currentPostings st)" "pr_AccountID p = a" "ri_postingLineID x = pr_PostingLineID p"
    "ri_commodityID x = pr_CommodityID p" "ri_seq x = pr_AccountDaySequence p"
  using assms by (auto simp: accountDayItemsTx_def)

lemma appendRef_ids: "rf_CheckpointID ` set (foldl appendRef refs xs) = rf_CheckpointID ` set refs \<union> rf_CheckpointID ` set xs"
  by (induction xs arbitrary: refs) (auto simp: appendRef_def)

text \<open>
  What a plan asks for: sequences of postings that are current, each of them on the same side of every checkpoint that the
  plan does not name.
\<close>

definition entryOk :: "store \<Rightarrow> int \<Rightarrow> int set \<Rightarrow> int \<times> int \<times> int \<Rightarrow> bool" where
  "entryOk st b named = (\<lambda>(t, l, n). 0 < n \<and> (\<exists>cur. (t, cur) \<in> set (currentPostings st) \<and> pr_PostingLineID (snd cur) = l \<and>
     (\<forall>c\<in>set (st_checkpoints st). ck_book_id c = b \<and> ck_status c = ''active'' \<and> ck_id c \<notin> named \<longrightarrow>
        inside c (fst cur, (snd cur)\<lparr> pr_AccountDaySequence := n \<rparr>) = inside c cur)))"

definition planOk :: "store \<Rightarrow> int \<Rightarrow> reorderPlan \<Rightarrow> bool" where
  "planOk st b plan \<longleftrightarrow> rf_CheckpointID ` set (rp_reached plan) \<subseteq> ck_id ` set (st_checkpoints st) \<and>
     (\<forall>e\<in>set (rp_posting_seq plan). entryOk st b (rf_CheckpointID ` set (rp_reached plan)) e)"

lemma entryOk_mono: "entryOk st b named e \<Longrightarrow> named \<subseteq> named' \<Longrightarrow> entryOk st b named' e"
  unfolding entryOk_def by (cases e) blast

lemma changed_place:
  assumes ok: "storeOk st" and items: "items = accountDayItemsTx st b a d" and changed: "changed = placeInScope items s anc before" and ci: "ci \<in> set changed"
  obtains p where "(ri_transactionID ci, d, p) \<in> set (currentPostings st)" "pr_AccountID p = a" "ri_postingLineID ci = pr_PostingLineID p"
    "ri_commodityID ci = pr_CommodityID p" "0 < ri_seq ci" "spanLow items changed \<le> ri_seq ci" "ri_seq ci \<le> spanHigh items changed"
    "spanLow items changed \<le> pr_AccountDaySequence p" "pr_AccountDaySequence p \<le> spanHigh items changed"
proof -
  from place_changed [OF ci [unfolded changed]] obtain x where x: "x \<in> set items" "ci = x\<lparr> ri_seq := ri_seq ci \<rparr>" "ri_seq ci \<in> ri_seq ` set items" .
  have ids: "ri_transactionID ci = ri_transactionID x" "ri_postingLineID ci = ri_postingLineID x" "ri_commodityID ci = ri_commodityID x"
    by (subst x(2), simp)+
  from accountDayItems_in [OF x(1) [unfolded items]] obtain p where p: "(ri_transactionID x, d, p) \<in> set (currentPostings st)" "pr_AccountID p = a"
    "ri_postingLineID x = pr_PostingLineID p" "ri_commodityID x = pr_CommodityID p" "ri_seq x = pr_AccountDaySequence p" .
  from p(1) obtain v where v: "currentVersion st (ri_transactionID x) = Some v" "(d, p) \<in> set (recordPostings (tv_entries v))" unfolding currentPostings_iff by blast
  have prev: "previousSeq items (ri_postingLineID ci) = pr_AccountDaySequence p"
    unfolding ids p(5) [symmetric]
  proof (rule previousSeq_of [OF x(1)])
    fix y assume y: "y \<in> set items" "ri_postingLineID y = ri_postingLineID x"
    from accountDayItems_in [OF y(1) [unfolded items]] obtain q where q: "(ri_transactionID y, d, q) \<in> set (currentPostings st)"
      "ri_postingLineID y = pr_PostingLineID q" "ri_seq y = pr_AccountDaySequence q" .
    from current_posting_unique(2) [OF ok q(1) v] q(2) y(2) p(3) have "q = p" by simp
    then show "ri_seq y = ri_seq x" using q(3) p(5) by simp
  qed
  from x(3) obtain y where y: "y \<in> set items" "ri_seq ci = ri_seq y" by blast
  from accountDayItems_in [OF y(1) [unfolded items]] obtain q where "(ri_transactionID y, d, q) \<in> set (currentPostings st)" "ri_seq y = pr_AccountDaySequence q" .
  then have pos: "0 < ri_seq ci" using current_positive [OF ok, of "ri_transactionID y" "(d, q)"] y(2) by simp
  have low: "spanLow items changed \<le> min (ri_seq ci) (previousSeq items (ri_postingLineID ci))"
    unfolding spanLow_def by (rule foldl_min [OF ci])
  have high: "max (ri_seq ci) (previousSeq items (ri_postingLineID ci)) \<le> spanHigh items changed"
    unfolding spanHigh_def by (rule foldl_max [OF ci])
  show ?thesis by (rule that [of p]) (use p ids low high prev pos in auto)
qed

lemma planScope_ok:
  assumes ok: "storeOk st" and plan: "planOk st (pt_BookID params) plan"
  shows "planOk st (pt_BookID params) (planScope st params plan scope)"
proof -
  define items where "items = accountDayItemsTx st (pt_BookID params) (fst scope) (snd scope)"
  define changed where "changed = placeInScope items (pt_TransactionID params) (pt_AnchorTransactionID params) (pt_Position params = ''before'')"
  define refs where "refs m = crossedRefs (st_checkpoints st) (pt_BookID params) (fst scope) m (snd scope) (spanLow items changed) (spanHigh items changed)" for m
  show ?thesis
  proof (cases "changed = []")
    case True
    then show ?thesis using plan by (simp add: planScope_def Let_def changed_def items_def)
  next
    case False
    define plan' where "plan' = planScope st params plan scope"
    have p': "rp_posting_seq plan' = rp_posting_seq plan @ map (\<lambda>item. (ri_transactionID item, ri_postingLineID item, ri_seq item)) changed"
      "rp_reached plan' = foldl appendRef (rp_reached plan) (concat (map refs (remdups (map ri_commodityID changed))))"
      using False unfolding plan'_def planScope_def Let_def items_def [symmetric] changed_def [symmetric] refs_def [symmetric] by simp_all
    have ids: "rf_CheckpointID ` set (rp_reached plan') = rf_CheckpointID ` set (rp_reached plan) \<union> (\<Union>m\<in>ri_commodityID ` set changed. rf_CheckpointID ` set (refs m))"
      unfolding p' appendRef_ids by (simp add: image_UN)
    have "rf_CheckpointID ` set (refs m) \<subseteq> ck_id ` set (st_checkpoints st)" for m unfolding refs_def by (rule crossedRefs_ids)
    then have sub: "rf_CheckpointID ` set (rp_reached plan') \<subseteq> ck_id ` set (st_checkpoints st)"
      unfolding ids using plan by (auto simp: planOk_def)
    have "entryOk st (pt_BookID params) (rf_CheckpointID ` set (rp_reached plan')) (ri_transactionID ci, ri_postingLineID ci, ri_seq ci)" if ci: "ci \<in> set changed" for ci
    proof -
      from changed_place [OF ok items_def changed_def ci] obtain p where p: "(ri_transactionID ci, snd scope, p) \<in> set (currentPostings st)" "pr_AccountID p = fst scope"
        "ri_postingLineID ci = pr_PostingLineID p" "ri_commodityID ci = pr_CommodityID p" "0 < ri_seq ci" "spanLow items changed \<le> ri_seq ci" "ri_seq ci \<le> spanHigh items changed"
        "spanLow items changed \<le> pr_AccountDaySequence p" "pr_AccountDaySequence p \<le> spanHigh items changed" .
      have "ck_id c \<notin> rf_CheckpointID ` set (refs (pr_CommodityID p))" if "ck_id c \<notin> rf_CheckpointID ` set (rp_reached plan')" for c
        using that ci unfolding ids p(4) [symmetric] by blast
      then have "inside c (fst (snd scope, p), (snd (snd scope, p))\<lparr> pr_AccountDaySequence := ri_seq ci \<rparr>) = inside c (snd scope, p)"
        if "c \<in> set (st_checkpoints st)" "ck_book_id c = pt_BookID params" "ck_status c = ''active''" "ck_id c \<notin> rf_CheckpointID ` set (rp_reached plan')" for c
        using that p by (intro side_kept [where low = "spanLow items changed" and high = "spanHigh items changed"]) (simp_all add: refs_def)
      then show ?thesis unfolding entryOk_def prod.case using p(1,3,5) by (intro conjI exI [of _ "(snd scope, p)"]) auto
    qed
    moreover have "entryOk st (pt_BookID params) (rf_CheckpointID ` set (rp_reached plan')) e" if "e \<in> set (rp_posting_seq plan)" for e
      by (rule entryOk_mono [of _ _ "rf_CheckpointID ` set (rp_reached plan)"]) (use plan that ids in \<open>auto simp: planOk_def\<close>)
    ultimately have "planOk st (pt_BookID params) plan'" using sub unfolding planOk_def p'(1) by auto
    then show ?thesis by (simp add: plan'_def)
  qed
qed

lemma plan_ok: "storeOk st \<Longrightarrow> planOk st (pt_BookID params) plan \<Longrightarrow> planOk st (pt_BookID params) (foldl (planScope st params) plan scopes)"
  by (induction scopes arbitrary: plan) (simp_all add: planScope_ok)

lemma seqOverrides_in: "seqOverrides ps t l = Some n \<Longrightarrow> (t, l, n) \<in> set ps"
  by (auto simp: seqOverrides_def dest!: map_of_SomeD)

lemma writeReordered_kept:
  assumes "storeOk st" and "distinct ts" and "writeReordered params audit days ps ts found st = Inr (st', found')" and pos: "\<forall>(t, l, n)\<in>set ps. 0 < n"
  shows "storeOk st' \<and> st_checkpoints st' = st_checkpoints st \<and> set (st_versions st) \<subseteq> set (st_versions st') \<and>
    (\<forall>c. (\<forall>t\<in>set ts. \<forall>v old n. currentVersion st t = Some v \<longrightarrow> old \<in> set (recordPostings (tv_entries v)) \<longrightarrow> seqOverrides ps t (pr_PostingLineID (snd old)) = Some n \<longrightarrow>
        ck_book_id c = pt_BookID params \<longrightarrow> inside c (fst old, (snd old)\<lparr> pr_AccountDaySequence := n \<rparr>) = inside c old) \<longrightarrow>
      registerBalance st' c = registerBalance st c)"
  using assms(1-3)
proof (induction ts arbitrary: st found)
  case (Cons t ts)
  define vp where "vp h n reason = copiedVersion (pt_BookID params) t (loadTransactionChildren st h) (pt_RecordedAt params) (pt_ActorUserID params) reason audit
    (pt_RequestID params) n (seqOverrides ps t)" for h n reason
  from Cons.prems(3) obtain h n reason st1 written found1 where h: "transactionByID st (pt_BookID params) t = Inr h"
    and i: "insertTransactionVersion (vp h n reason) st = Inr (st1, written)" and rest: "writeReordered params audit days ps ts found1 st1 = Inr (st', found')"
    unfolding writeReordered.simps Let_def vp_def by (auto simp: result_simps)
  have f: "iv_BookID (vp h n reason) = pt_BookID params" "iv_TransactionID (vp h n reason) = t" "iv_VersionSeq (vp h n reason) = rc_VersionSeq h + 1"
    "iv_SupersedesVersionID (vp h n reason) = Some (rc_VersionID h)" "iv_Spec (vp h n reason) = transactionSpecFromRecord (loadTransactionChildren st h)"
    and ov: "iv_PostingSeqOverrides (vp h n reason) = seqOverrides ps t" by (simp_all add: vp_def)
  have "\<forall>l n. seqOverrides ps t l = Some n \<longrightarrow> 0 < n" using pos seqOverrides_in by fastforce
  note cv = copied_version [OF Cons.prems(1) Cons.prems(1) h refl refl f _ i, unfolded ov, OF this]
  have same: "currentVersion st1 t' = currentVersion st t'" if "t' \<in> set ts" for t' using cv(5) [of t'] that Cons.prems(2) by auto
  note ih = Cons.IH [OF cv(1) _ rest]
  have "registerBalance st' c = registerBalance st c"
    if c: "\<forall>t\<in>set (t # ts). \<forall>v old n. currentVersion st t = Some v \<longrightarrow> old \<in> set (recordPostings (tv_entries v)) \<longrightarrow> seqOverrides ps t (pr_PostingLineID (snd old)) = Some n \<longrightarrow>
        ck_book_id c = pt_BookID params \<longrightarrow> inside c (fst old, (snd old)\<lparr> pr_AccountDaySequence := n \<rparr>) = inside c old" for c
  proof -
    have "registerBalance st' c = registerBalance st1 c" using ih Cons.prems(2) c same by simp
    also have "\<dots> = registerBalance st c" by (rule cv(6)) (use c in auto)
    finally show ?thesis .
  qed
  then show ?case using ih Cons.prems(2) cv(2,3) by auto
qed simp

lemma place_committed:
  assumes ok: "storeOk st" and w: "repo_PlaceTransaction batch params st = Inr (st', r)"
  shows "storeOk st' \<and> balancesKept st st' \<and> set (st_versions st) \<subseteq> set (st_versions st')"
proof -
  define b where "b = pt_BookID params"
  define shared where "shared = sharedAccountDaysTx st b (pt_TransactionID params) (pt_AnchorTransactionID params)"
  define plan where "plan = foldl (planScope st params) \<lparr> rp_posting_seq = [], rp_reached = [] \<rparr> shared"
  define bp where "bp audit = reorderBoundary b (pt_ActorUserID params) audit (pt_RecordedAt params) ''transaction reordered across a reconciled checkpoint''" for audit
  from w have "st' = st \<or> (\<exists>st1 audit days ts st2 found r0. insertAuditEvent (placeAudit params) st = Inr (st1, audit) \<and>
      distinct ts \<and> writeReordered params audit days (rp_posting_seq plan) ts None st1 = Inr (st2, found) \<and>
      invalidateCrossed (bp audit) (rp_reached plan) st2 r0 = (st', r))"
    unfolding repo_PlaceTransaction_def Let_def b_def [symmetric] shared_def [symmetric] plan_def [symmetric] bp_def [symmetric]
    by (auto simp: result_simps split: if_splits) (meson distinct_sort distinct_remdups)+
  then show ?thesis
  proof (elim disjE exE conjE)
    assume "st' = st" then show ?thesis using ok balancesKept_refl by simp
  next
    fix st1 audit days ts st2 found r0
    assume au: "insertAuditEvent (placeAudit params) st = Inr (st1, audit)"
      and ts: "distinct ts" and wr: "writeReordered params audit days (rp_posting_seq plan) ts None st1 = Inr (st2, found)"
      and inv: "invalidateCrossed (bp audit) (rp_reached plan) st2 r0 = (st', r)"
    from insertAuditEvent_Inr [OF au] obtain A where A: "st1 = st\<lparr> st_audit := A \<rparr>" ..
    have ok1: "storeOk st1" unfolding A by (rule storeOk_audit [OF ok])
    have "planOk st b plan" unfolding plan_def b_def by (rule plan_ok [OF ok]) (simp add: planOk_def)
    then have sub: "rf_CheckpointID ` set (rp_reached plan) \<subseteq> ck_id ` set (st_checkpoints st)"
      and entry: "\<And>e. e \<in> set (rp_posting_seq plan) \<Longrightarrow> entryOk st b (rf_CheckpointID ` set (rp_reached plan)) e" by (auto simp: planOk_def)
    have "\<forall>(t, l, n)\<in>set (rp_posting_seq plan). 0 < n" using entry by (auto simp: entryOk_def)
    note wk = writeReordered_kept [OF ok1 ts wr this]
    have bal: "registerBalance st2 c = registerBalance st c"
      if c: "c \<in> set (st_checkpoints st)" "ck_status c = ''active''" "ck_book_id c = b \<longrightarrow> ck_id c \<notin> rf_CheckpointID ` set (rp_reached plan)" for c
    proof -
      have "inside c (fst old, (snd old)\<lparr> pr_AccountDaySequence := n \<rparr>) = inside c old"
        if v: "currentVersion st t = Some v" "old \<in> set (recordPostings (tv_entries v))" and o: "seqOverrides (rp_posting_seq plan) t (pr_PostingLineID (snd old)) = Some n"
          and book: "ck_book_id c = b" for t v old n
      proof -
        from entry [OF seqOverrides_in [OF o]] obtain cur where cur: "(t, cur) \<in> set (currentPostings st)" "pr_PostingLineID (snd cur) = pr_PostingLineID (snd old)"
          "\<forall>c\<in>set (st_checkpoints st). ck_book_id c = b \<and> ck_status c = ''active'' \<and> ck_id c \<notin> rf_CheckpointID ` set (rp_reached plan) \<longrightarrow>
             inside c (fst cur, (snd cur)\<lparr> pr_AccountDaySequence := n \<rparr>) = inside c cur" by (auto simp: entryOk_def)
        have "cur = old" by (rule current_posting_unique(2) [OF ok cur(1) v cur(2)])
        then show ?thesis using cur(3) c book by blast
      qed
      then have "registerBalance st2 c = registerBalance st1 c" using wk by (fastforce simp: A b_def)
      also have "\<dots> = registerBalance st c" by (rule registerBalance_reads) (simp_all add: A)
      finally show ?thesis .
    qed
    have cks: "st_checkpoints st2 = st_checkpoints st" using wk by (simp add: A)
    note ri = crossed_invalidated [OF conjunct1 [OF wk] sub [folded cks] inv]
    have "registerBalance st' c = registerBalance st2 c" for c by (rule registerBalance_reads) (simp_all add: ri)
    moreover have "bp_BookID (bp audit) = b" by (simp add: bp_def reorderBoundary_def)
    ultimately have "balancesKept st st'" using ri(4) bal unfolding balancesKept_def by (auto simp: cks)
    then show ?thesis using ri(1,2) wk by (auto simp: A)
  qed
qed

end
