(* ===== verification/Reconcile.thy ===== *)
theory Reconcile
  imports Moves
begin

text \<open>
  Reconciling an account with a statement: \<^verbatim>\<open>db/reconciliation.go\<close> without the guard (theory Checkpoints) and
  \<^verbatim>\<open>app/reconciliation.go\<close>. A session starts from the latest active checkpoint of its account and commodity, selects posted
  postings up to the statement date that no covering checkpoint links yet, and finishes when statement, starting balance and selection
  agree: the selected postings get a new version marked reconciled, and a new checkpoint is chained to the starting one with
  links to those versions. The tables of sessions, selections and links stand beside the store. Where the code ranges over
  a Go map (\<^verbatim>\<open>appendReconciliationStatusVersions\<close>), the order of its keys is an argument \<open>ord\<close>.
\<close>

section \<open>Definitions: sessions, selections and links\<close>

text \<open>
  The columns of a session that its record reads; the row adds the audit events and the record the postings that
  are read with it.
\<close>

record sessionFields =
  sn_ID :: int
  sn_BookID :: int
  sn_AccountID :: int
  sn_CommodityID :: int
  sn_Status :: string
  sn_SourceKind :: string
  sn_StatementDate :: string
  sn_StatementBalanceValue :: Coefficient
  sn_StatementBalanceScale :: int
  sn_StartingCheckpointID :: "int option"
  sn_StartingBalanceValue :: Coefficient
  sn_StartingBalanceScale :: int
  sn_SelectedBalanceValue :: Coefficient
  sn_SelectedBalanceScale :: int
  sn_DifferenceValue :: Coefficient
  sn_DifferenceScale :: int
  sn_MetadataJSON :: string
  sn_CreatedAt :: string
  sn_CreatedByUserID :: int
  sn_UpdatedAt :: string
  sn_UpdatedByUserID :: int
  sn_FinishedAt :: "string option"
  sn_VoidedAt :: "string option"
  sn_ChangeReason :: string

record sessionRow = sessionFields +
  sn_created_audit :: "int option"
  sn_updated_audit :: "int option"

record ReconciliationPostingRecord =
  rq_PostingID :: int
  rq_BookID :: int
  rq_TransactionID :: int
  rq_TransactionVersionID :: int
  rq_PostingLineID :: int
  rq_AccountID :: int
  rq_CommodityID :: int
  rq_EntryDate :: string
  rq_AccountDaySequence :: int
  rq_QuantityValue :: Coefficient
  rq_QuantityScale :: int
  rq_ReconciliationStatus :: string
  rq_PayeeName :: "string option"
  rq_Description :: string
  rq_Selected :: bool

record ReconciliationSessionRecord = sessionFields +
  sn_Candidates :: "ReconciliationPostingRecord list"
  sn_SelectedPostings :: "ReconciliationPostingRecord list"

record sessionPostingRow =
  xp_session_id :: int
  xp_posting_version_id :: int
  xp_book_id :: int
  xp_transaction_id :: int
  xp_transaction_version_id :: int
  xp_posting_line_id :: int
  xp_account_id :: int
  xp_commodity_id :: int
  xp_entry_date :: string
  xp_quantity_value :: Coefficient
  xp_quantity_scale :: int
  xp_payee_name :: "string option"
  xp_description :: string
  xp_created_at :: string
  xp_created_by :: int
  xp_created_audit :: int

record checkpointPostingRow =
  kp_checkpoint_id :: int
  kp_posting_version_id :: int
  kp_book_id :: int
  kp_account_id :: int
  kp_commodity_id :: int
  kp_entry_date :: string
  kp_quantity_value :: Coefficient
  kp_quantity_scale :: int

record reconcileStore =
  rs_ledger :: store
  rs_sessions :: "sessionRow list"
  rs_session_postings :: "sessionPostingRow list"
  rs_checkpoint_postings :: "checkpointPostingRow list"

datatype reconcile_error =
    LedgerError write_error
  | ErrReconciliationNotFound
  | ErrReconciliationClosed
  | ErrReconciliationNotBalanced
  | ErrReconciliationPosting
  | ErrReconciliationCheckpoint
  | ErrReconciliationStartStale

section \<open>Definitions: parameters\<close>

record CreateReconciliationSessionParams =
  start_BookID :: int
  start_AccountID :: int
  start_CommodityID :: int
  start_SourceKind :: string
  start_StatementDate :: string
  start_StatementBalanceValue :: Coefficient
  start_StatementBalanceScale :: int
  start_MetadataJSON :: string
  start_ActorUserID :: int
  start_AuthSessionID :: int
  start_RequestID :: string
  start_OriginType :: string
  start_OccurredAt :: string
  start_ChangeReason :: string

record ReconciliationSessionSelectionParams =
  select_BookID :: int
  select_SessionID :: int
  select_PostingVersionIDs :: "int list"
  select_SelectedBalanceValue :: Coefficient
  select_SelectedBalanceScale :: int
  select_DifferenceValue :: Coefficient
  select_DifferenceScale :: int
  select_ActorUserID :: int
  select_AuthSessionID :: int
  select_RequestID :: string
  select_OriginType :: string
  select_OccurredAt :: string
  select_Operation :: string
  select_ChangeReason :: string

record FinishReconciliationSessionParams =
  finish_BookID :: int
  finish_SessionID :: int
  finish_ActorUserID :: int
  finish_AuthSessionID :: int
  finish_RequestID :: string
  finish_OriginType :: string
  finish_OccurredAt :: string
  finish_ChangeReason :: string

record VoidReconciliationParams =
  void_BookID :: int
  void_ID :: int
  void_ActorUserID :: int
  void_AuthSessionID :: int
  void_RequestID :: string
  void_OriginType :: string
  void_OccurredAt :: string
  void_Operation :: string
  void_ChangeReason :: string

record ChangePostingReconciliationStatusParams =
  mark_BookID :: int
  mark_AccountID :: int
  mark_PostingVersionIDs :: "int list"
  mark_Status :: string
  mark_ClearedOn :: "string option"
  mark_ActorUserID :: int
  mark_AuthSessionID :: int
  mark_RequestID :: string
  mark_OriginType :: string
  mark_OccurredAt :: string
  mark_ChangeReason :: string

record appendReconciliationStatusParams =
  append_BookID :: int
  append_Postings :: "ReconciliationPostingRecord list"
  append_Status :: string
  append_ClearedOn :: "string option"
  append_ActorUserID :: int
  append_RequestID :: string
  append_RecordedAt :: string
  append_ChangeReason :: string
  append_ChangeAuditEventID :: int

section \<open>Definitions: covering checkpoints\<close>

text \<open>
  The recursive query \<^verbatim>\<open>coveringCheckpointsSQL\<close>: the active checkpoints of an account, and every checkpoint
  before one of them on its chain. Each round adds the previous checkpoints of the rows found that are not found yet
  (\<^verbatim>\<open>UNION\<close> keeps no row twice).
\<close>

definition previousIDs :: "checkpointRow list \<Rightarrow> int list \<Rightarrow> int list" where
  "previousIDs table found = remdups (filter (\<lambda>i. i \<notin> set found)
     (map (the \<circ> ck_previous_checkpoint_id) (filter (\<lambda>c. ck_id c \<in> set found \<and> ck_previous_checkpoint_id c \<noteq> None) table)))"

function coveringFrom :: "checkpointRow list \<Rightarrow> int list \<Rightarrow> int list" where
  "coveringFrom table found = (let next = previousIDs table found in if next = [] then found else coveringFrom table (found @ next))"
  by pat_completeness auto
termination
proof (relation "measure (\<lambda>(table, found). card ((the \<circ> ck_previous_checkpoint_id) ` set table - set found))")
  fix table :: "checkpointRow list" and found "next"
  assume n: "next = previousIDs table found" "next \<noteq> []"
  let ?all = "(the \<circ> ck_previous_checkpoint_id) ` set table"
  have "set next \<subseteq> ?all - set found" by (auto simp: n(1) previousIDs_def)
  moreover obtain i where "i \<in> set next" using n(2) by (cases "next") auto
  ultimately have "?all - set (found @ next) \<subset> ?all - set found" by auto
  then have "card (?all - set (found @ next)) < card (?all - set found)" by (intro psubset_card_mono) auto
  then show "((table, found @ next), (table, found)) \<in> measure (\<lambda>(table, found). card ((the \<circ> ck_previous_checkpoint_id) ` set table - set found))"
    by simp
qed simp

declare coveringFrom.simps [simp del]

definition coveringCheckpoints :: "checkpointRow list \<Rightarrow> int \<Rightarrow> int \<Rightarrow> int list" where
  "coveringCheckpoints table bookID accountID = coveringFrom table
     (map ck_id (filter (\<lambda>c. ck_book_id c = bookID \<and> ck_account_id c = accountID \<and> ck_status c = ''active'') table))"

text \<open>A posting line that a covering checkpoint links through one of its versions.\<close>

definition linkedLine :: "reconcileStore \<Rightarrow> checkpointPostingRow \<Rightarrow> int \<Rightarrow> bool" where
  "linkedLine rst link line \<longleftrightarrow> list_ex (\<lambda>cur. pr_ID (snd cur) = kp_posting_version_id link \<and> pr_PostingLineID (snd cur) = line) (storedPostings (rs_ledger rst))"

definition notCoveredByCheckpoint :: "reconcileStore \<Rightarrow> int \<Rightarrow> int \<Rightarrow> int \<Rightarrow> bool" where
  "notCoveredByCheckpoint rst bookID accountID line \<longleftrightarrow>
     \<not> list_ex (\<lambda>link. kp_checkpoint_id link \<in> set (coveringCheckpoints (st_checkpoints (rs_ledger rst)) bookID accountID) \<and> linkedLine rst link line)
       (rs_checkpoint_postings rst)"

definition checkpointCoveredPostingCount :: "reconcileStore \<Rightarrow> int \<Rightarrow> int \<Rightarrow> int list \<Rightarrow> nat" where
  "checkpointCoveredPostingCount rst bookID accountID postingVersionIDs = length (filter (\<lambda>cur. pr_ID (snd cur) \<in> set postingVersionIDs \<and>
     \<not> notCoveredByCheckpoint rst bookID accountID (pr_PostingLineID (snd cur))) (storedPostings (rs_ledger rst)))"

section \<open>Definitions: reading postings\<close>

definition reconciliationPosting :: "transactionRow \<Rightarrow> versionRow \<Rightarrow> string \<times> PostingRecord \<Rightarrow> ReconciliationPostingRecord" where
  "reconciliationPosting t v cur = \<lparr> rq_PostingID = pr_ID (snd cur), rq_BookID = tv_book_id v, rq_TransactionID = tr_id t,
     rq_TransactionVersionID = tv_id v, rq_PostingLineID = pr_PostingLineID (snd cur), rq_AccountID = pr_AccountID (snd cur),
     rq_CommodityID = pr_CommodityID (snd cur), rq_EntryDate = fst cur, rq_AccountDaySequence = 0,
     rq_QuantityValue = pr_QuantityValue (snd cur), rq_QuantityScale = pr_QuantityScale (snd cur),
     rq_ReconciliationStatus = pr_ReconciliationStatus (snd cur), rq_PayeeName = tv_payee_name v, rq_Description = tv_description v,
     rq_Selected = False \<rparr>"

text \<open>The rows of \<^verbatim>\<open>reconciliationPostingSelect\<close> that are posted in the book, and its \<^verbatim>\<open>WHERE\<close> and \<^verbatim>\<open>ORDER BY\<close>.\<close>

definition postedRows :: "store \<Rightarrow> int \<Rightarrow> ReconciliationPostingRecord list" where
  "postedRows st bookID = concat (map (\<lambda>(t, v). if tv_book_id v = bookID \<and> tv_status v = ''posted''
     then map (reconciliationPosting t v) (recordPostings (tv_entries v)) else []) (currentRows st))"

definition postingOrder :: "ReconciliationPostingRecord \<Rightarrow> string \<times> int" where
  "postingOrder posting = (rq_EntryDate posting, rq_PostingID posting)"

definition reconciliationPostingSelect :: "store \<Rightarrow> int \<Rightarrow> (ReconciliationPostingRecord \<Rightarrow> bool) \<Rightarrow> ReconciliationPostingRecord list" where
  "reconciliationPostingSelect st bookID wanted = sort_key postingOrder (filter wanted (postedRows st bookID))"

definition openForSession :: "reconcileStore \<Rightarrow> 'a sessionFields_scheme \<Rightarrow> ReconciliationPostingRecord \<Rightarrow> bool" where
  "openForSession rst session posting \<longleftrightarrow> rq_AccountID posting = sn_AccountID session \<and> rq_CommodityID posting = sn_CommodityID session \<and>
     rq_EntryDate posting \<le> sn_StatementDate session \<and>
     notCoveredByCheckpoint rst (sn_BookID session) (sn_AccountID session) (rq_PostingLineID posting)"

definition sessionCandidates :: "reconcileStore \<Rightarrow> 'a sessionFields_scheme \<Rightarrow> ReconciliationPostingRecord list" where
  "sessionCandidates rst session = reconciliationPostingSelect (rs_ledger rst) (sn_BookID session) (openForSession rst session)"

definition sessionPosting :: "sessionPostingRow \<Rightarrow> ReconciliationPostingRecord" where
  "sessionPosting x = \<lparr> rq_PostingID = xp_posting_version_id x, rq_BookID = xp_book_id x, rq_TransactionID = xp_transaction_id x,
     rq_TransactionVersionID = xp_transaction_version_id x, rq_PostingLineID = xp_posting_line_id x, rq_AccountID = xp_account_id x,
     rq_CommodityID = xp_commodity_id x, rq_EntryDate = xp_entry_date x, rq_AccountDaySequence = 0,
     rq_QuantityValue = xp_quantity_value x, rq_QuantityScale = xp_quantity_scale x, rq_ReconciliationStatus = [],
     rq_PayeeName = xp_payee_name x, rq_Description = xp_description x, rq_Selected = True \<rparr>"

definition reconciliationSessionPostings :: "reconcileStore \<Rightarrow> int \<Rightarrow> int \<Rightarrow> ReconciliationPostingRecord list" where
  "reconciliationSessionPostings rst bookID sessionID = map sessionPosting (sort_key (\<lambda>x. (xp_entry_date x, xp_posting_version_id x))
     (filter (\<lambda>x. xp_book_id x = bookID \<and> xp_session_id x = sessionID) (rs_session_postings rst)))"

definition distinctPositiveCount :: "int list \<Rightarrow> nat" where
  "distinctPositiveCount ids = length (remdups_adj (sort (filter (\<lambda>i. i > 0) ids)))"

definition currentReconciliationPostingsByID ::
  "reconcileStore \<Rightarrow> 'a sessionFields_scheme \<Rightarrow> int list \<Rightarrow> (reconcile_error, ReconciliationPostingRecord list) result" where
  "currentReconciliationPostingsByID rst session ids = (
     if ids = [] then Inr []
     else let postings = reconciliationPostingSelect (rs_ledger rst) (sn_BookID session)
         (\<lambda>posting. openForSession rst session posting \<and> rq_PostingID posting \<in> set ids) in
       if length postings \<noteq> distinctPositiveCount ids then Inl ErrReconciliationPosting
       else Inr (map (\<lambda>posting. posting\<lparr> rq_Selected := True \<rparr>) postings))"

definition currentAccountPostingsByID :: "reconcileStore \<Rightarrow> int \<Rightarrow> int \<Rightarrow> int list \<Rightarrow> (reconcile_error, ReconciliationPostingRecord list) result" where
  "currentAccountPostingsByID rst bookID accountID ids = (
     if ids = [] then Inl ErrReconciliationPosting
     else let postings = reconciliationPostingSelect (rs_ledger rst) bookID
         (\<lambda>posting. rq_AccountID posting = accountID \<and> rq_PostingID posting \<in> set ids) in
       if length postings \<noteq> distinctPositiveCount ids then Inl ErrReconciliationPosting else Inr postings)"

section \<open>Definitions: reading sessions and checkpoints\<close>

definition sessionRecord :: "sessionRow \<Rightarrow> ReconciliationSessionRecord" where
  "sessionRecord row = sessionFields.extend (sessionFields.truncate row) (ReconciliationSessionRecord.fields [] [])"

definition reconciliationSessionByID :: "reconcileStore \<Rightarrow> int \<Rightarrow> int \<Rightarrow> (reconcile_error, ReconciliationSessionRecord) result" where
  "reconciliationSessionByID rst bookID sessionID = (case find (\<lambda>s. sn_BookID s = bookID \<and> sn_ID s = sessionID) (rs_sessions rst) of
       None \<Rightarrow> Inl ErrReconciliationNotFound
     | Some row \<Rightarrow> Inr (sessionRecord row))"

definition loadReconciliationSessionChildren :: "reconcileStore \<Rightarrow> ReconciliationSessionRecord \<Rightarrow> ReconciliationSessionRecord" where
  "loadReconciliationSessionChildren rst session = session\<lparr> sn_Candidates := sessionCandidates rst session,
     sn_SelectedPostings := reconciliationSessionPostings rst (sn_BookID session) (sn_ID session) \<rparr>"

definition repo_ReconciliationSessionByID :: "reconcileStore \<Rightarrow> int \<Rightarrow> int \<Rightarrow> (reconcile_error, ReconciliationSessionRecord) result" where
  "repo_ReconciliationSessionByID rst bookID sessionID =
     bindR (reconciliationSessionByID rst bookID sessionID) (\<lambda>session. Inr (loadReconciliationSessionChildren rst session))"

definition latestActiveReconciliationCheckpoint :: "reconcileStore \<Rightarrow> int \<Rightarrow> int \<Rightarrow> int \<Rightarrow> (reconcile_error, checkpointRow) result" where
  "latestActiveReconciliationCheckpoint rst bookID accountID commodityID = (
     case lastBy (\<lambda>c. (ck_statement_date c, ck_id c)) (filter (\<lambda>c. ck_book_id c = bookID \<and> ck_account_id c = accountID \<and>
         ck_commodity_id c = commodityID \<and> ck_status c = ''active'') (st_checkpoints (rs_ledger rst))) of
       None \<Rightarrow> Inl ErrReconciliationCheckpoint
     | Some c \<Rightarrow> Inr c)"

definition reconciliationCheckpointByID :: "reconcileStore \<Rightarrow> int \<Rightarrow> int \<Rightarrow> (reconcile_error, checkpointRow) result" where
  "reconciliationCheckpointByID rst bookID checkpointID = (
     case find (\<lambda>c. ck_book_id c = bookID \<and> ck_id c = checkpointID) (st_checkpoints (rs_ledger rst)) of
       None \<Rightarrow> Inl (LedgerError ErrNotFound)
     | Some c \<Rightarrow> Inr c)"

definition repo_ListReconciliationCheckpoints :: "reconcileStore \<Rightarrow> int \<Rightarrow> int \<Rightarrow> int \<Rightarrow> checkpointRow list" where
  "repo_ListReconciliationCheckpoints rst bookID accountID commodityID = rev (sort_key (\<lambda>c. (ck_statement_date c, ck_id c))
     (filter (\<lambda>c. ck_book_id c = bookID \<and> ck_account_id c = accountID \<and> (commodityID > 0 \<longrightarrow> ck_commodity_id c = commodityID))
       (st_checkpoints (rs_ledger rst))))"

section \<open>Definitions: starting a session and selecting postings\<close>

definition reconcileAudit :: "int \<Rightarrow> int \<Rightarrow> int \<Rightarrow> string \<Rightarrow> string \<Rightarrow> string \<Rightarrow> string \<Rightarrow> string \<Rightarrow> AuditEventParams" where
  "reconcileAudit bookID actor authSession occurredAt requestID origin operation reason = \<lparr> ap_BookID = bookID, ap_ActorUserID = actor,
     ap_AuthSessionID = authSession, ap_OccurredAt = occurredAt, ap_RequestID = requestID, ap_OriginType = origin,
     ap_Operation = operation, ap_Reason = reason, ap_MetadataJSON = [] \<rparr>"

definition inLedger :: "(write_error, store \<times> 'a) result \<Rightarrow> reconcileStore \<Rightarrow> (reconcile_error, reconcileStore \<times> 'a) result" where
  "inLedger outcome rst = bindR (mapErr LedgerError outcome) (\<lambda>(st, x). Inr (rst\<lparr> rs_ledger := st \<rparr>, x))"

definition newSession :: "CreateReconciliationSessionParams \<Rightarrow> checkpointRow option \<Rightarrow> int \<Rightarrow> int \<Rightarrow> sessionRow" where
  "newSession params start sessionID auditEventID = \<lparr> sn_ID = sessionID, sn_BookID = start_BookID params, sn_AccountID = start_AccountID params,
     sn_CommodityID = start_CommodityID params, sn_Status = ''open'', sn_SourceKind = start_SourceKind params,
     sn_StatementDate = start_StatementDate params, sn_StatementBalanceValue = start_StatementBalanceValue params,
     sn_StatementBalanceScale = start_StatementBalanceScale params, sn_StartingCheckpointID = map_option ck_id start,
     sn_StartingBalanceValue = (case start of None \<Rightarrow> New 0 | Some c \<Rightarrow> ck_statement_balance_value c),
     sn_StartingBalanceScale = (case start of None \<Rightarrow> 0 | Some c \<Rightarrow> ck_statement_balance_scale c),
     sn_SelectedBalanceValue = New 0, sn_SelectedBalanceScale = 0, sn_DifferenceValue = New 0, sn_DifferenceScale = 0,
     sn_MetadataJSON = start_MetadataJSON params, sn_CreatedAt = start_OccurredAt params, sn_CreatedByUserID = start_ActorUserID params,
     sn_UpdatedAt = start_OccurredAt params, sn_UpdatedByUserID = start_ActorUserID params, sn_FinishedAt = None, sn_VoidedAt = None,
     sn_ChangeReason = start_ChangeReason params, sn_created_audit = Some auditEventID, sn_updated_audit = Some auditEventID \<rparr>"

definition repo_CreateReconciliationSession ::
  "CreateReconciliationSessionParams \<Rightarrow> reconcileStore \<Rightarrow> (reconcile_error, reconcileStore \<times> ReconciliationSessionRecord) result" where
  "repo_CreateReconciliationSession params rst =
     bindR (mapErr LedgerError (readBookForUpdate (rs_ledger rst) (start_BookID params))) (\<lambda>_.
     bindR (case latestActiveReconciliationCheckpoint rst (start_BookID params) (start_AccountID params) (start_CommodityID params) of
         Inr c \<Rightarrow> Inr (Some c)
       | Inl e \<Rightarrow> if e = ErrReconciliationCheckpoint then Inr None else Inl e) (\<lambda>start.
     bindR (inLedger (insertAuditEvent (reconcileAudit (start_BookID params) (start_ActorUserID params) (start_AuthSessionID params)
         (start_OccurredAt params) (start_RequestID params) (start_OriginType params) ''reconciliation.start'' (start_ChangeReason params))
         (rs_ledger rst)) rst) (\<lambda>(rst1, auditEventID).
     let sessionID = nextAbove (map sn_ID (rs_sessions rst1));
         rst2 = rst1\<lparr> rs_sessions := rs_sessions rst1 @ [newSession params start sessionID auditEventID] \<rparr> in
     bindR (reconciliationSessionByID rst2 (start_BookID params) sessionID) (\<lambda>session.
       Inr (rst2, session\<lparr> sn_Candidates := sessionCandidates rst2 session \<rparr>)))))"

definition selectionRow :: "int \<Rightarrow> string \<Rightarrow> int \<Rightarrow> int \<Rightarrow> ReconciliationPostingRecord \<Rightarrow> sessionPostingRow" where
  "selectionRow sessionID occurredAt actor auditEventID posting = \<lparr> xp_session_id = sessionID, xp_posting_version_id = rq_PostingID posting,
     xp_book_id = rq_BookID posting, xp_transaction_id = rq_TransactionID posting, xp_transaction_version_id = rq_TransactionVersionID posting,
     xp_posting_line_id = rq_PostingLineID posting, xp_account_id = rq_AccountID posting, xp_commodity_id = rq_CommodityID posting,
     xp_entry_date = rq_EntryDate posting, xp_quantity_value = rq_QuantityValue posting, xp_quantity_scale = rq_QuantityScale posting,
     xp_payee_name = rq_PayeeName posting, xp_description = rq_Description posting, xp_created_at = occurredAt, xp_created_by = actor,
     xp_created_audit = auditEventID \<rparr>"

text \<open>The postings come from one query, so their ids differ and the primary key never refuses a row.\<close>

definition replaceSessionPostings ::
  "int \<Rightarrow> ReconciliationPostingRecord list \<Rightarrow> string \<Rightarrow> int \<Rightarrow> int \<Rightarrow> reconcileStore \<Rightarrow> reconcileStore" where
  "replaceSessionPostings sessionID postings occurredAt actor auditEventID rst = rst\<lparr> rs_session_postings :=
     filter (\<lambda>x. xp_session_id x \<noteq> sessionID) (rs_session_postings rst) @ map (selectionRow sessionID occurredAt actor auditEventID) postings \<rparr>"

definition updateSession :: "int \<Rightarrow> int \<Rightarrow> (sessionRow \<Rightarrow> sessionRow) \<Rightarrow> reconcileStore \<Rightarrow> reconcileStore" where
  "updateSession bookID sessionID change rst = rst\<lparr> rs_sessions :=
     map (\<lambda>s. if sn_BookID s = bookID \<and> sn_ID s = sessionID then change s else s) (rs_sessions rst) \<rparr>"

definition selectedSession :: "ReconciliationSessionSelectionParams \<Rightarrow> int \<Rightarrow> sessionRow \<Rightarrow> sessionRow" where
  "selectedSession params auditEventID s = s\<lparr> sn_SelectedBalanceValue := select_SelectedBalanceValue params,
     sn_SelectedBalanceScale := select_SelectedBalanceScale params, sn_DifferenceValue := select_DifferenceValue params,
     sn_DifferenceScale := select_DifferenceScale params, sn_UpdatedAt := select_OccurredAt params,
     sn_UpdatedByUserID := select_ActorUserID params, sn_ChangeReason := select_ChangeReason params,
     sn_updated_audit := Some auditEventID \<rparr>"

definition repo_ReplaceReconciliationSessionSelection ::
  "ReconciliationSessionSelectionParams \<Rightarrow> reconcileStore \<Rightarrow> (reconcile_error, reconcileStore \<times> ReconciliationSessionRecord) result" where
  "repo_ReplaceReconciliationSessionSelection params rst =
     bindR (mapErr LedgerError (readBookForUpdate (rs_ledger rst) (select_BookID params))) (\<lambda>_.
     bindR (reconciliationSessionByID rst (select_BookID params) (select_SessionID params)) (\<lambda>session.
     bindR (ensure (sn_Status session = ''open'') ErrReconciliationClosed) (\<lambda>_.
     bindR (inLedger (insertAuditEvent (reconcileAudit (select_BookID params) (select_ActorUserID params) (select_AuthSessionID params)
         (select_OccurredAt params) (select_RequestID params) (select_OriginType params) (select_Operation params) (select_ChangeReason params))
         (rs_ledger rst)) rst) (\<lambda>(rst1, auditEventID).
     bindR (currentReconciliationPostingsByID rst1 session (select_PostingVersionIDs params)) (\<lambda>postings.
     let rst2 = updateSession (select_BookID params) (select_SessionID params) (selectedSession params auditEventID)
           (replaceSessionPostings (sn_ID session) postings (select_OccurredAt params) (select_ActorUserID params) auditEventID rst1) in
     bindR (reconciliationSessionByID rst2 (select_BookID params) (select_SessionID params)) (\<lambda>selected.
       Inr (rst2, selected\<lparr> sn_Candidates := sessionCandidates rst2 selected, sn_SelectedPostings := postings \<rparr>)))))))"

section \<open>Definitions: new versions with a reconciliation status\<close>

definition postingLineIDByKey :: "TransactionRecord \<Rightarrow> string \<Rightarrow> int" where
  "postingLineIDByKey record lineKey = (
     case find (\<lambda>posting. pr_LineKey posting = lineKey) (concat (map er_Postings (rc_JournalEntries record))) of
       None \<Rightarrow> 0
     | Some posting \<Rightarrow> pr_PostingLineID posting)"

definition markPosting :: "appendReconciliationStatusParams \<Rightarrow> TransactionRecord \<Rightarrow> int list \<Rightarrow> PostingSpec \<Rightarrow> PostingSpec" where
  "markPosting params current lineIDs posting = (
     if postingLineIDByKey current (ps_LineKey posting) \<in> set lineIDs
     then posting\<lparr> ps_ReconciliationStatus := append_Status params,
       ps_ClearedOn := (if append_Status params = ''uncleared'' then None else append_ClearedOn params) \<rparr>
     else posting)"

definition markedSpec :: "appendReconciliationStatusParams \<Rightarrow> TransactionRecord \<Rightarrow> int list \<Rightarrow> TransactionSpec" where
  "markedSpec params current lineIDs = (let spec = transactionSpecFromRecord current in
     spec\<lparr> ts_JournalEntries := map (\<lambda>entry. entry\<lparr> es_Postings := map (markPosting params current lineIDs) (es_Postings entry) \<rparr>) (ts_JournalEntries spec) \<rparr>)"

definition statusVersion :: "appendReconciliationStatusParams \<Rightarrow> int \<Rightarrow> TransactionRecord \<Rightarrow> int list \<Rightarrow> insertTransactionVersionParams" where
  "statusVersion params transactionID current lineIDs = \<lparr> iv_BookID = append_BookID params, iv_TransactionID = transactionID,
     iv_VersionSeq = rc_VersionSeq current + 1, iv_SupersedesVersionID = Some (rc_VersionID current),
     iv_Spec = markedSpec params current lineIDs, iv_ReplaceTags = False, iv_RecordedAt = append_RecordedAt params,
     iv_ChangedByUserID = append_ActorUserID params, iv_ChangeReason = append_ChangeReason params,
     iv_ChangeAuditEventID = append_ChangeAuditEventID params, iv_RequestID = append_RequestID params,
     iv_TransactionDaySequence = rc_TransactionDaySequence current, iv_PostingSeqOverrides = Map.empty \<rparr>"

definition reconciledPosting :: "TransactionRecord \<Rightarrow> string \<times> PostingRecord \<Rightarrow> ReconciliationPostingRecord" where
  "reconciledPosting record cur = \<lparr> rq_PostingID = pr_ID (snd cur), rq_BookID = pr_BookID (snd cur), rq_TransactionID = rc_ID record,
     rq_TransactionVersionID = pr_TransactionVersionID (snd cur), rq_PostingLineID = pr_PostingLineID (snd cur),
     rq_AccountID = pr_AccountID (snd cur), rq_CommodityID = pr_CommodityID (snd cur), rq_EntryDate = fst cur,
     rq_AccountDaySequence = pr_AccountDaySequence (snd cur), rq_QuantityValue = pr_QuantityValue (snd cur),
     rq_QuantityScale = pr_QuantityScale (snd cur), rq_ReconciliationStatus = pr_ReconciliationStatus (snd cur),
     rq_PayeeName = rc_PayeeName record, rq_Description = rc_Description record, rq_Selected = False \<rparr>"

text \<open>One round of the loop over \<^verbatim>\<open>byTransaction\<close>, and the rounds over the keys in the order given.\<close>

definition lineIDsOf :: "ReconciliationPostingRecord list \<Rightarrow> int \<Rightarrow> int list" where
  "lineIDsOf postings transactionID = map rq_PostingLineID (filter (\<lambda>posting. rq_TransactionID posting = transactionID) postings)"

definition appendStatusVersion ::
  "appendReconciliationStatusParams \<Rightarrow> int \<Rightarrow> store \<Rightarrow> (write_error, store \<times> ReconciliationPostingRecord list) result" where
  "appendStatusVersion params transactionID st = (let lineIDs = lineIDsOf (append_Postings params) transactionID in
     bindR (transactionByID st (append_BookID params) transactionID) (\<lambda>header.
     let current = loadTransactionChildren st header in
     bindR (insertTransactionVersion (statusVersion params transactionID current lineIDs) st) (\<lambda>(st1, record).
       Inr (st1, map (reconciledPosting record)
         (filter (\<lambda>cur. pr_PostingLineID (snd cur) \<in> set lineIDs) (recordPostings (rc_JournalEntries record)))))))"

fun appendStatusVersions ::
  "appendReconciliationStatusParams \<Rightarrow> int list \<Rightarrow> store \<Rightarrow> (write_error, store \<times> ReconciliationPostingRecord list) result" where
  "appendStatusVersions params [] st = Inr (st, [])"
| "appendStatusVersions params (transactionID # transactionIDs) st =
     bindR (appendStatusVersion params transactionID st) (\<lambda>(st1, reconciled).
     bindR (appendStatusVersions params transactionIDs st1) (\<lambda>(st2, rest). Inr (st2, reconciled @ rest)))"

definition appendReconciliationStatusVersions ::
  "(int list \<Rightarrow> int list) \<Rightarrow> appendReconciliationStatusParams \<Rightarrow> store \<Rightarrow> (write_error, store \<times> ReconciliationPostingRecord list) result" where
  "appendReconciliationStatusVersions ord params st =
     appendStatusVersions params (ord (map rq_TransactionID (append_Postings params))) st"

text \<open>What Go promises of ranging over a map: every key once, in any order.\<close>

definition mapOrder :: "(int list \<Rightarrow> int list) \<Rightarrow> bool" where
  "mapOrder ord \<longleftrightarrow> (\<forall>ks. distinct (ord ks) \<and> set (ord ks) = set ks)"

section \<open>Definitions: finishing a session\<close>

definition statementAccountSequence :: "ReconciliationPostingRecord list \<Rightarrow> string \<Rightarrow> int" where
  "statementAccountSequence postings statementDate = foldl (\<lambda>seq posting.
     if rq_EntryDate posting = statementDate \<and> rq_AccountDaySequence posting > seq then rq_AccountDaySequence posting else seq) 0 postings"

definition finishedCheckpoint :: "FinishReconciliationSessionParams \<Rightarrow> 'a sessionFields_scheme \<Rightarrow> int \<Rightarrow> int \<Rightarrow> int \<Rightarrow> checkpointRow" where
  "finishedCheckpoint params session sequence auditEventID checkpointID = \<lparr> ck_id = checkpointID, ck_book_id = finish_BookID params,
     ck_account_id = sn_AccountID session, ck_commodity_id = sn_CommodityID session, ck_session_id = Some (sn_ID session),
     ck_previous_checkpoint_id = sn_StartingCheckpointID session, ck_status = ''active'', ck_statement_date = sn_StatementDate session,
     ck_statement_account_sequence = sequence, ck_statement_balance_value = sn_StatementBalanceValue session,
     ck_statement_balance_scale = sn_StatementBalanceScale session, ck_created_at = finish_OccurredAt params,
     ck_created_by_user_id = finish_ActorUserID params, ck_created_audit_event_id = Some auditEventID, ck_invalidated = None, ck_voided = None \<rparr>"

definition checkpointPosting :: "int \<Rightarrow> ReconciliationPostingRecord \<Rightarrow> checkpointPostingRow" where
  "checkpointPosting checkpointID posting = \<lparr> kp_checkpoint_id = checkpointID, kp_posting_version_id = rq_PostingID posting,
     kp_book_id = rq_BookID posting, kp_account_id = rq_AccountID posting, kp_commodity_id = rq_CommodityID posting,
     kp_entry_date = rq_EntryDate posting, kp_quantity_value = rq_QuantityValue posting, kp_quantity_scale = rq_QuantityScale posting \<rparr>"

definition finishedSession :: "FinishReconciliationSessionParams \<Rightarrow> int \<Rightarrow> sessionRow \<Rightarrow> sessionRow" where
  "finishedSession params auditEventID s = s\<lparr> sn_Status := ''finished'', sn_FinishedAt := Some (finish_OccurredAt params),
     sn_UpdatedAt := finish_OccurredAt params, sn_UpdatedByUserID := finish_ActorUserID params, sn_ChangeReason := finish_ChangeReason params,
     sn_updated_audit := Some auditEventID \<rparr>"

text \<open>The starting balance must still be the latest active one of the account and commodity.\<close>

definition startStillCurrent :: "reconcileStore \<Rightarrow> int \<Rightarrow> 'a sessionFields_scheme \<Rightarrow> (reconcile_error, unit) result" where
  "startStillCurrent rst bookID session = (
     case latestActiveReconciliationCheckpoint rst bookID (sn_AccountID session) (sn_CommodityID session) of
       Inl e \<Rightarrow> if e = ErrReconciliationCheckpoint
         then (if sn_StartingCheckpointID session \<noteq> None then Inl ErrReconciliationStartStale else Inr ()) else Inl e
     | Inr current \<Rightarrow> if sn_StartingCheckpointID session \<noteq> Some (ck_id current) then Inl ErrReconciliationStartStale else Inr ())"

definition finishStatus :: "FinishReconciliationSessionParams \<Rightarrow> 'a sessionFields_scheme \<Rightarrow> ReconciliationPostingRecord list \<Rightarrow> int \<Rightarrow> appendReconciliationStatusParams" where
  "finishStatus params session postings auditEventID = \<lparr> append_BookID = finish_BookID params, append_Postings = postings,
     append_Status = ''reconciled'', append_ClearedOn = Some (sn_StatementDate session), append_ActorUserID = finish_ActorUserID params,
     append_RequestID = finish_RequestID params, append_RecordedAt = finish_OccurredAt params,
     append_ChangeReason = finish_ChangeReason params, append_ChangeAuditEventID = auditEventID \<rparr>"

definition closeStatement :: "FinishReconciliationSessionParams \<Rightarrow> 'a sessionFields_scheme \<Rightarrow> ReconciliationPostingRecord list \<Rightarrow> int \<Rightarrow> reconcileStore \<Rightarrow> reconcileStore" where
  "closeStatement params session reconciled auditEventID rst = (
     let st = rs_ledger rst; checkpointID = nextAbove (map ck_id (st_checkpoints st));
         row = finishedCheckpoint params session (statementAccountSequence reconciled (sn_StatementDate session)) auditEventID checkpointID in
     updateSession (finish_BookID params) (finish_SessionID params) (finishedSession params auditEventID)
       (rst\<lparr> rs_ledger := st\<lparr> st_checkpoints := st_checkpoints st @ [row] \<rparr>,
          rs_checkpoint_postings := rs_checkpoint_postings rst @ map (checkpointPosting checkpointID) reconciled \<rparr>))"

definition repo_FinishReconciliationSession ::
  "(int list \<Rightarrow> int list) \<Rightarrow> FinishReconciliationSessionParams \<Rightarrow> reconcileStore \<Rightarrow> (reconcile_error, reconcileStore \<times> ReconciliationSessionRecord) result" where
  "repo_FinishReconciliationSession ord params rst =
     bindR (mapErr LedgerError (readBookForUpdate (rs_ledger rst) (finish_BookID params))) (\<lambda>_.
     bindR (reconciliationSessionByID rst (finish_BookID params) (finish_SessionID params)) (\<lambda>session.
     bindR (ensure (sn_Status session = ''open'') ErrReconciliationClosed) (\<lambda>_.
     bindR (ensure (Coefficient_Sign (sn_DifferenceValue session) = 0) ErrReconciliationNotBalanced) (\<lambda>_.
     bindR (startStillCurrent rst (finish_BookID params) session) (\<lambda>_.
     let selected = reconciliationSessionPostings rst (finish_BookID params) (finish_SessionID params) in
     bindR (ensure (selected \<noteq> []) ErrReconciliationPosting) (\<lambda>_.
     bindR (currentReconciliationPostingsByID rst session (map rq_PostingID selected)) (\<lambda>currentSelected.
     bindR (inLedger (insertAuditEvent (reconcileAudit (finish_BookID params) (finish_ActorUserID params) (finish_AuthSessionID params)
         (finish_OccurredAt params) (finish_RequestID params) (finish_OriginType params) ''reconciliation.finish'' (finish_ChangeReason params))
         (rs_ledger rst)) rst) (\<lambda>(rst1, auditEventID).
     bindR (inLedger (appendReconciliationStatusVersions ord (finishStatus params session currentSelected auditEventID) (rs_ledger rst1)) rst1) (\<lambda>(rst2, reconciled).
     let rst3 = closeStatement params session reconciled auditEventID rst2 in
     bindR (reconciliationSessionByID rst3 (finish_BookID params) (finish_SessionID params)) (\<lambda>finished.
       Inr (rst3, finished\<lparr> sn_SelectedPostings := reconciled \<rparr>)))))))))))"

section \<open>Definitions: voiding sessions and checkpoints, and marking postings\<close>

definition voidedSession :: "VoidReconciliationParams \<Rightarrow> int \<Rightarrow> sessionRow \<Rightarrow> sessionRow" where
  "voidedSession params auditEventID s = s\<lparr> sn_Status := ''voided'', sn_VoidedAt := Some (void_OccurredAt params),
     sn_UpdatedAt := void_OccurredAt params, sn_UpdatedByUserID := void_ActorUserID params, sn_ChangeReason := void_ChangeReason params,
     sn_updated_audit := Some auditEventID \<rparr>"

definition voidAudit :: "VoidReconciliationParams \<Rightarrow> AuditEventParams" where
  "voidAudit params = reconcileAudit (void_BookID params) (void_ActorUserID params) (void_AuthSessionID params) (void_OccurredAt params)
     (void_RequestID params) (void_OriginType params) (void_Operation params) (void_ChangeReason params)"

definition repo_VoidReconciliationSession ::
  "VoidReconciliationParams \<Rightarrow> reconcileStore \<Rightarrow> (reconcile_error, reconcileStore \<times> ReconciliationSessionRecord) result" where
  "repo_VoidReconciliationSession params rst =
     bindR (mapErr LedgerError (readBookForUpdate (rs_ledger rst) (void_BookID params))) (\<lambda>_.
     bindR (reconciliationSessionByID rst (void_BookID params) (void_ID params)) (\<lambda>session.
     if sn_Status session = ''voided'' then Inr (rst, loadReconciliationSessionChildren rst session)
     else
     bindR (inLedger (insertAuditEvent (voidAudit params) (rs_ledger rst)) rst) (\<lambda>(rst1, auditEventID).
     let rst2 = updateSession (void_BookID params) (void_ID params) (voidedSession params auditEventID) rst1 in
     bindR (reconciliationSessionByID rst2 (void_BookID params) (void_ID params)) (\<lambda>voided.
       Inr (rst2, loadReconciliationSessionChildren rst2 voided)))))"

definition voidedCheckpoint :: "VoidReconciliationParams \<Rightarrow> int \<Rightarrow> checkpointRow \<Rightarrow> checkpointRow" where
  "voidedCheckpoint params auditEventID c = (if ck_book_id c = void_BookID params \<and> ck_id c = void_ID params
     then c\<lparr> ck_status := ''voided'', ck_voided := Some (void_OccurredAt params, void_ActorUserID params, void_ChangeReason params, auditEventID) \<rparr> else c)"

definition repo_VoidReconciliationCheckpoint ::
  "VoidReconciliationParams \<Rightarrow> reconcileStore \<Rightarrow> (reconcile_error, reconcileStore \<times> checkpointRow) result" where
  "repo_VoidReconciliationCheckpoint params rst =
     bindR (mapErr LedgerError (readBookForUpdate (rs_ledger rst) (void_BookID params))) (\<lambda>_.
     bindR (reconciliationCheckpointByID rst (void_BookID params) (void_ID params)) (\<lambda>checkpoint.
     if ck_status checkpoint = ''voided'' then Inr (rst, checkpoint)
     else
     bindR (inLedger (insertAuditEvent (voidAudit params) (rs_ledger rst)) rst) (\<lambda>(rst1, auditEventID).
     let st = rs_ledger rst1;
         rst2 = rst1\<lparr> rs_ledger := st\<lparr> st_checkpoints := map (voidedCheckpoint params auditEventID) (st_checkpoints st) \<rparr> \<rparr> in
     bindR (reconciliationCheckpointByID rst2 (void_BookID params) (void_ID params)) (\<lambda>voided. Inr (rst2, voided)))))"

definition markStatus :: "ChangePostingReconciliationStatusParams \<Rightarrow> ReconciliationPostingRecord list \<Rightarrow> int \<Rightarrow> appendReconciliationStatusParams" where
  "markStatus params postings auditEventID = \<lparr> append_BookID = mark_BookID params, append_Postings = postings,
     append_Status = mark_Status params, append_ClearedOn = mark_ClearedOn params, append_ActorUserID = mark_ActorUserID params,
     append_RequestID = mark_RequestID params, append_RecordedAt = mark_OccurredAt params,
     append_ChangeReason = mark_ChangeReason params, append_ChangeAuditEventID = auditEventID \<rparr>"

text \<open>The ids of a list, each where it first occurs.\<close>

definition firstSeen :: "int list \<Rightarrow> int list" where
  "firstSeen ids = rev (remdups (rev ids))"

definition repo_ChangePostingReconciliationStatus ::
  "(int list \<Rightarrow> int list) \<Rightarrow> ChangePostingReconciliationStatusParams \<Rightarrow> reconcileStore \<Rightarrow> (reconcile_error, reconcileStore \<times> TransactionRecord list) result" where
  "repo_ChangePostingReconciliationStatus ord params rst =
     bindR (mapErr LedgerError (readBookForUpdate (rs_ledger rst) (mark_BookID params))) (\<lambda>_.
     bindR (currentAccountPostingsByID rst (mark_BookID params) (mark_AccountID params) (mark_PostingVersionIDs params)) (\<lambda>postings.
     bindR (ensure (\<not> checkpointCoveredPostingCount rst (mark_BookID params) (mark_AccountID params) (map rq_PostingID postings) > 0) ErrReconciliationPosting) (\<lambda>_.
     bindR (inLedger (insertAuditEvent (reconcileAudit (mark_BookID params) (mark_ActorUserID params) (mark_AuthSessionID params)
         (mark_OccurredAt params) (mark_RequestID params) (mark_OriginType params) ''reconciliation.posting_status'' (mark_ChangeReason params))
         (rs_ledger rst)) rst) (\<lambda>(rst1, auditEventID).
     bindR (inLedger (appendReconciliationStatusVersions ord (markStatus params postings auditEventID) (rs_ledger rst1)) rst1) (\<lambda>(rst2, _).
     bindR (mapErr LedgerError (mapR (\<lambda>transactionID. transactionByID (rs_ledger rst2) (mark_BookID params) transactionID)
         (firstSeen (map rq_TransactionID postings)))) (\<lambda>records.
       Inr (rst2, map (loadTransactionChildren (rs_ledger rst2)) records)))))))"

section \<open>Definitions: the service\<close>

datatype statement_error =
    OwnerUserRequired | AccountRequired | CommodityRequired | ReconciliationIDRequired | CheckpointIDRequired | ReasonRequired
  | SourceKindInvalid | StatementScaleInvalid | StatementCommodityInvalid | StatementScaleExceedsCommodity
  | PostingIDInvalid | PostingStatusInvalid | FieldInvalid ledger_error | AmountRefused exact_error
  | SvcReconciliationNotFound | SvcReconciliationClosed | SvcReconciliationNotBalanced | SvcReconciliationPosting | SvcReconciliationStartStale
  | ServiceError service_error

definition mapReconcileError :: "reconcile_error \<Rightarrow> statement_error" where
  "mapReconcileError e = (case e of
       LedgerError w \<Rightarrow> ServiceError (mapTransactionDBError w)
     | ErrReconciliationNotFound \<Rightarrow> SvcReconciliationNotFound
     | ErrReconciliationClosed \<Rightarrow> SvcReconciliationClosed
     | ErrReconciliationNotBalanced \<Rightarrow> SvcReconciliationNotBalanced
     | ErrReconciliationStartStale \<Rightarrow> SvcReconciliationStartStale
     | ErrReconciliationPosting \<Rightarrow> SvcReconciliationPosting
     | ErrReconciliationCheckpoint \<Rightarrow> SvcReconciliationPosting)"

record BalanceQuantity =
  bq_CommodityID :: int
  bq_QuantityValue :: Coefficient
  bq_QuantityScale :: int
  bq_NormalQuantityValue :: Coefficient

definition reconciliationQuantity :: "int \<Rightarrow> Coefficient \<Rightarrow> int \<Rightarrow> BalanceQuantity" where
  "reconciliationQuantity commodityID v sc = \<lparr> bq_CommodityID = commodityID, bq_QuantityValue = v, bq_QuantityScale = sc,
     bq_NormalQuantityValue = v \<rparr>"

record ReconciliationPosting =
  rp_PostingID :: int
  rp_TransactionID :: int
  rp_TransactionVersionID :: int
  rp_PostingLineID :: int
  rp_AccountID :: int
  rp_CommodityID :: int
  rp_EntryDate :: string
  rp_QuantityValue :: Coefficient
  rp_QuantityScale :: int
  rp_ReconciliationStatus :: string
  rp_PayeeName :: string
  rp_Description :: string
  rp_Selected :: bool

record ReconciliationSession =
  rn_ID :: int
  rn_BookID :: int
  rn_AccountID :: int
  rn_CommodityID :: int
  rn_Status :: string
  rn_SourceKind :: string
  rn_StatementDate :: string
  rn_StatementBalance :: BalanceQuantity
  rn_StartingCheckpointID :: "int option"
  rn_StartingBalance :: BalanceQuantity
  rn_SelectedBalance :: BalanceQuantity
  rn_Difference :: BalanceQuantity
  rn_MetadataJSON :: string
  rn_CreatedAt :: string
  rn_UpdatedAt :: string
  rn_FinishedAt :: string
  rn_VoidedAt :: string
  rn_ChangeReason :: string
  rn_Candidates :: "ReconciliationPosting list"
  rn_SelectedPostings :: "ReconciliationPosting list"

record ReconciliationCheckpoint =
  rk_ID :: int
  rk_BookID :: int
  rk_AccountID :: int
  rk_CommodityID :: int
  rk_SessionID :: "int option"
  rk_PreviousCheckpointID :: "int option"
  rk_Status :: string
  rk_StatementDate :: string
  rk_StatementBalance :: BalanceQuantity
  rk_CreatedAt :: string
  rk_InvalidatedAt :: string
  rk_InvalidationReason :: string
  rk_VoidedAt :: string
  rk_VoidReason :: string

definition toReconciliationPosting :: "ReconciliationPostingRecord \<Rightarrow> ReconciliationPosting" where
  "toReconciliationPosting r = \<lparr> rp_PostingID = rq_PostingID r, rp_TransactionID = rq_TransactionID r,
     rp_TransactionVersionID = rq_TransactionVersionID r, rp_PostingLineID = rq_PostingLineID r, rp_AccountID = rq_AccountID r,
     rp_CommodityID = rq_CommodityID r, rp_EntryDate = rq_EntryDate r, rp_QuantityValue = rq_QuantityValue r,
     rp_QuantityScale = rq_QuantityScale r, rp_ReconciliationStatus = rq_ReconciliationStatus r, rp_PayeeName = orEmpty (rq_PayeeName r),
     rp_Description = rq_Description r, rp_Selected = rq_Selected r \<rparr>"

definition toReconciliationSession :: "ReconciliationSessionRecord \<Rightarrow> ReconciliationSession" where
  "toReconciliationSession r = \<lparr> rn_ID = sn_ID r, rn_BookID = sn_BookID r, rn_AccountID = sn_AccountID r, rn_CommodityID = sn_CommodityID r,
     rn_Status = sn_Status r, rn_SourceKind = sn_SourceKind r, rn_StatementDate = sn_StatementDate r,
     rn_StatementBalance = reconciliationQuantity (sn_CommodityID r) (sn_StatementBalanceValue r) (sn_StatementBalanceScale r),
     rn_StartingCheckpointID = sn_StartingCheckpointID r,
     rn_StartingBalance = reconciliationQuantity (sn_CommodityID r) (sn_StartingBalanceValue r) (sn_StartingBalanceScale r),
     rn_SelectedBalance = reconciliationQuantity (sn_CommodityID r) (sn_SelectedBalanceValue r) (sn_SelectedBalanceScale r),
     rn_Difference = reconciliationQuantity (sn_CommodityID r) (sn_DifferenceValue r) (sn_DifferenceScale r),
     rn_MetadataJSON = sn_MetadataJSON r, rn_CreatedAt = sn_CreatedAt r, rn_UpdatedAt = sn_UpdatedAt r,
     rn_FinishedAt = orEmpty (sn_FinishedAt r), rn_VoidedAt = orEmpty (sn_VoidedAt r), rn_ChangeReason = sn_ChangeReason r,
     rn_Candidates = map toReconciliationPosting (sn_Candidates r), rn_SelectedPostings = map toReconciliationPosting (sn_SelectedPostings r) \<rparr>"

definition toReconciliationCheckpoint :: "checkpointRow \<Rightarrow> ReconciliationCheckpoint" where
  "toReconciliationCheckpoint c = \<lparr> rk_ID = ck_id c, rk_BookID = ck_book_id c, rk_AccountID = ck_account_id c, rk_CommodityID = ck_commodity_id c,
     rk_SessionID = ck_session_id c, rk_PreviousCheckpointID = ck_previous_checkpoint_id c, rk_Status = ck_status c,
     rk_StatementDate = ck_statement_date c,
     rk_StatementBalance = reconciliationQuantity (ck_commodity_id c) (ck_statement_balance_value c) (ck_statement_balance_scale c),
     rk_CreatedAt = ck_created_at c, rk_InvalidatedAt = (case ck_invalidated c of None \<Rightarrow> [] | Some (moment, _, _, _) \<Rightarrow> moment),
     rk_InvalidationReason = (case ck_invalidated c of None \<Rightarrow> [] | Some (_, _, reason, _) \<Rightarrow> reason),
     rk_VoidedAt = (case ck_voided c of None \<Rightarrow> [] | Some (moment, _, _, _) \<Rightarrow> moment),
     rk_VoidReason = (case ck_voided c of None \<Rightarrow> [] | Some (_, _, reason, _) \<Rightarrow> reason) \<rparr>"

fun cleanIDs :: "int list \<Rightarrow> int list \<Rightarrow> int list \<Rightarrow> (statement_error, int list) result" where
  "cleanIDs seen cleaned [] = Inr cleaned"
| "cleanIDs seen cleaned (i # ids) = (
     if i \<le> 0 then Inl PostingIDInvalid
     else if i \<in> set seen then cleanIDs seen cleaned ids
     else cleanIDs (i # seen) (cleaned @ [i]) ids)"

definition cleanPositiveInt64IDs :: "int list \<Rightarrow> (statement_error, int list) result" where
  "cleanPositiveInt64IDs ids = cleanIDs [] [] ids"

text \<open>
  The selection's total and what is left of the statement: statement minus (starting balance plus selection).
  \<^verbatim>\<open>AddCoefficient\<close> panics on a scale out of range, which the schema excludes for stored quantities.
\<close>

definition reconciliationTotals ::
  "'a sessionFields_scheme \<Rightarrow> ReconciliationPostingRecord list \<Rightarrow> (exact_error, BalanceQuantity \<times> BalanceQuantity) result" where
  "reconciliationTotals session selected =
     bindR (foldR (\<lambda>s posting. ScaledInt_AddCoefficient s (rq_QuantityValue posting) (rq_QuantityScale posting)) NewScaledInt selected) (\<lambda>selectedAmount.
     bindR (ScaledInt_Coefficient selectedAmount) (\<lambda>selectedValue.
     bindR (ScaledInt_AddCoefficient NewScaledInt (sn_StartingBalanceValue session) (sn_StartingBalanceScale session)) (\<lambda>expected1.
     bindR (ScaledInt_AddScaled expected1 (Some selectedAmount)) (\<lambda>expected.
     bindR (ScaledInt_AddCoefficient NewScaledInt (sn_StatementBalanceValue session) (sn_StatementBalanceScale session)) (\<lambda>difference1.
     bindR (ScaledInt_SubScaled difference1 (Some expected)) (\<lambda>difference.
     bindR (ScaledInt_Coefficient difference) (\<lambda>differenceValue.
     Inr (reconciliationQuantity (sn_CommodityID session) selectedValue (si_scale selectedAmount),
          reconciliationQuantity (sn_CommodityID session) differenceValue (si_scale difference)))))))))"

record StartReconciliationInput =
  si_OwnerUserID :: int
  si_AuthSessionID :: int
  si_RequestID :: string
  si_OriginType :: string
  si_AccountID :: int
  si_CommodityID :: int
  si_SourceKind :: string
  si_StatementDate :: string
  si_StatementBalanceValue :: Coefficient
  si_StatementBalanceScale :: int
  si_MetadataJSON :: string
  si_ChangeReason :: string

record ReconciliationSelectionInput =
  sx_OwnerUserID :: int
  sx_AuthSessionID :: int
  sx_RequestID :: string
  sx_OriginType :: string
  sx_SessionID :: int
  sx_PostingVersionIDs :: "int list"
  sx_ChangeReason :: string

record FinishReconciliationInput =
  fi_OwnerUserID :: int
  fi_AuthSessionID :: int
  fi_RequestID :: string
  fi_OriginType :: string
  fi_SessionID :: int
  fi_ChangeReason :: string

record VoidReconciliationInput =
  vi_OwnerUserID :: int
  vi_AuthSessionID :: int
  vi_RequestID :: string
  vi_OriginType :: string
  vi_ID :: int
  vi_ChangeReason :: string

record ChangePostingReconciliationStatusInput =
  mi_OwnerUserID :: int
  mi_AuthSessionID :: int
  mi_RequestID :: string
  mi_OriginType :: string
  mi_AccountID :: int
  mi_PostingVersionIDs :: "int list"
  mi_Status :: string
  mi_ClearedOn :: string
  mi_ChangeReason :: string

definition reconciliationSourceKinds :: "string list" where
  "reconciliationSourceKinds = [''statement'', ''online_balance'', ''manual_cash_count'', ''asset_valuation'', ''other'']"

definition checkStatementScale :: "bookTables \<Rightarrow> StartReconciliationInput \<Rightarrow> string \<Rightarrow> (statement_error, unit) result" where
  "checkStatementScale bt input statementDate = (
     if si_StatementBalanceScale input < 0 \<or> si_StatementBalanceScale input > MaxCryptoScale then Inl StatementScaleInvalid
     else case lookupPostingCommodityRule bt BookID (si_CommodityID input) statementDate of
       None \<Rightarrow> Inl StatementCommodityInvalid
     | Some rule \<Rightarrow>
         if cr_Status rule \<noteq> ''active'' then Inl StatementCommodityInvalid
         else if si_StatementBalanceScale input > cr_MaxQuantityScale rule \<or>
            si_StatementBalanceScale input > MaxScaleForCommodityKind (cr_CommodityKind rule) then Inl StatementScaleExceedsCommodity
         else Inr ())"

definition prepareStart :: "string \<Rightarrow> bookTables \<Rightarrow> StartReconciliationInput \<Rightarrow> (statement_error, CreateReconciliationSessionParams) result" where
  "prepareStart now bt input =
     bindR (ensure (si_OwnerUserID input > 0) OwnerUserRequired) (\<lambda>_.
     bindR (ensure (si_AccountID input > 0) AccountRequired) (\<lambda>_.
     bindR (ensure (si_CommodityID input > 0) CommodityRequired) (\<lambda>_.
     let trimmed = TrimSpace (si_SourceKind input); sourceKind = (if trimmed = [] then ''statement'' else trimmed) in
     bindR (ensure (sourceKind \<in> set reconciliationSourceKinds) SourceKindInvalid) (\<lambda>_.
     bindR (mapErr FieldInvalid (cleanRequiredDate (si_StatementDate input) ''statement date'')) (\<lambda>statementDate.
     bindR (checkStatementScale bt input statementDate) (\<lambda>_.
     bindR (mapErr FieldInvalid (cleanSizedJSONObject (si_MetadataJSON input) ''metadata'' ledgerJSONMaxBytes)) (\<lambda>metadataJSON.
     bindR (mapErr ServiceError (cleanChangeReason (si_ChangeReason input) ''started reconciliation'')) (\<lambda>changeReason.
     Inr \<lparr> start_BookID = BookID, start_AccountID = si_AccountID input, start_CommodityID = si_CommodityID input,
       start_SourceKind = sourceKind, start_StatementDate = statementDate, start_StatementBalanceValue = si_StatementBalanceValue input,
       start_StatementBalanceScale = si_StatementBalanceScale input, start_MetadataJSON = metadataJSON,
       start_ActorUserID = si_OwnerUserID input, start_AuthSessionID = si_AuthSessionID input, start_RequestID = si_RequestID input,
       start_OriginType = si_OriginType input, start_OccurredAt = now, start_ChangeReason = changeReason \<rparr>))))))))"

text \<open>What the service reads and works out before a selection is committed.\<close>

definition prepareSelection ::
  "string \<Rightarrow> string \<Rightarrow> string \<Rightarrow> reconcileStore \<Rightarrow> ReconciliationSelectionInput \<Rightarrow> (statement_error, ReconciliationSessionSelectionParams) result" where
  "prepareSelection now operation fallbackReason rst input =
     bindR (ensure (sx_OwnerUserID input > 0) OwnerUserRequired) (\<lambda>_.
     bindR (ensure (sx_SessionID input > 0) ReconciliationIDRequired) (\<lambda>_.
     bindR (cleanPositiveInt64IDs (sx_PostingVersionIDs input)) (\<lambda>postingIDs.
     bindR (mapErr mapReconcileError (repo_ReconciliationSessionByID rst BookID (sx_SessionID input))) (\<lambda>session.
     let selected = filter (\<lambda>candidate. rq_PostingID candidate \<in> set postingIDs) (sn_Candidates session) in
     bindR (ensure (length selected = length postingIDs) SvcReconciliationPosting) (\<lambda>_.
     bindR (mapErr AmountRefused (reconciliationTotals session selected)) (\<lambda>(selectedBalance, difference).
     bindR (mapErr ServiceError (cleanChangeReason (sx_ChangeReason input) fallbackReason)) (\<lambda>changeReason.
     Inr \<lparr> select_BookID = BookID, select_SessionID = sx_SessionID input, select_PostingVersionIDs = postingIDs,
       select_SelectedBalanceValue = bq_QuantityValue selectedBalance, select_SelectedBalanceScale = bq_QuantityScale selectedBalance,
       select_DifferenceValue = bq_QuantityValue difference, select_DifferenceScale = bq_QuantityScale difference,
       select_ActorUserID = sx_OwnerUserID input, select_AuthSessionID = sx_AuthSessionID input, select_RequestID = sx_RequestID input,
       select_OriginType = sx_OriginType input, select_OccurredAt = now, select_Operation = operation, select_ChangeReason = changeReason \<rparr>)))))))"

text \<open>A committed write, or the refusal with the state as it was.\<close>

definition commitTo :: "(reconcile_error, reconcileStore \<times> 'a) result \<Rightarrow> (reconcileStore, statement_error, 'a) action" where
  "commitTo outcome rst = (case outcome of Inl e \<Rightarrow> (rst, Inl (mapReconcileError e)) | Inr (rst', x) \<Rightarrow> (rst', Inr x))"

definition replaceReconciliationSelection ::
  "string \<Rightarrow> string \<Rightarrow> string \<Rightarrow> ReconciliationSelectionInput \<Rightarrow> (reconcileStore, statement_error, ReconciliationSession) action" where
  "replaceReconciliationSelection now operation fallbackReason input rst =
     bindW (liftW (prepareSelection now operation fallbackReason rst input)) (\<lambda>params.
     bindW (\<lambda>rst. commitTo (repo_ReplaceReconciliationSessionSelection params rst) rst) (\<lambda>record.
     liftW (Inr (toReconciliationSession record)))) rst"

definition svc_PreviewReconciliation :: "string \<Rightarrow> ReconciliationSelectionInput \<Rightarrow> (reconcileStore, statement_error, ReconciliationSession) action" where
  "svc_PreviewReconciliation now input = replaceReconciliationSelection now ''reconciliation.preview'' ''previewed reconciliation'' input"

definition svc_UpdateReconciliationSelection :: "string \<Rightarrow> ReconciliationSelectionInput \<Rightarrow> (reconcileStore, statement_error, ReconciliationSession) action" where
  "svc_UpdateReconciliationSelection now input = replaceReconciliationSelection now ''reconciliation.selection'' ''updated reconciliation selection'' input"

definition clearedCandidates :: "ReconciliationSessionRecord \<Rightarrow> int list" where
  "clearedCandidates record = map rq_PostingID
     (filter (\<lambda>candidate. rq_ReconciliationStatus candidate = ''cleared'' \<or> rq_ReconciliationStatus candidate = ''reconciled'') (sn_Candidates record))"

definition svc_StartReconciliation ::
  "string \<Rightarrow> bookTables \<Rightarrow> StartReconciliationInput \<Rightarrow> (reconcileStore, statement_error, ReconciliationSession) action" where
  "svc_StartReconciliation now bt input =
     bindW (liftW (prepareStart now bt input)) (\<lambda>params.
     bindW (\<lambda>rst. commitTo (repo_CreateReconciliationSession params rst) rst) (\<lambda>record.
     if clearedCandidates record \<noteq> [] then
       replaceReconciliationSelection now ''reconciliation.start_selection'' ''selected cleared postings''
         \<lparr> sx_OwnerUserID = si_OwnerUserID input, sx_AuthSessionID = si_AuthSessionID input, sx_RequestID = si_RequestID input,
            sx_OriginType = si_OriginType input, sx_SessionID = sn_ID record, sx_PostingVersionIDs = clearedCandidates record,
            sx_ChangeReason = ''selected cleared postings'' \<rparr>
     else liftW (Inr (toReconciliationSession record))))"

definition svc_ReconciliationSession :: "reconcileStore \<Rightarrow> int \<Rightarrow> (statement_error, ReconciliationSession) result" where
  "svc_ReconciliationSession rst sessionID =
     bindR (ensure (sessionID > 0) ReconciliationIDRequired) (\<lambda>_.
     bindR (mapErr mapReconcileError (repo_ReconciliationSessionByID rst BookID sessionID)) (\<lambda>record. Inr (toReconciliationSession record)))"

definition prepareFinish :: "string \<Rightarrow> FinishReconciliationInput \<Rightarrow> (statement_error, FinishReconciliationSessionParams) result" where
  "prepareFinish now input =
     bindR (ensure (fi_OwnerUserID input > 0) OwnerUserRequired) (\<lambda>_.
     bindR (ensure (fi_SessionID input > 0) ReconciliationIDRequired) (\<lambda>_.
     bindR (mapErr ServiceError (cleanChangeReason (fi_ChangeReason input) [])) (\<lambda>changeReason.
     bindR (ensure (changeReason \<noteq> []) ReasonRequired) (\<lambda>_.
     Inr \<lparr> finish_BookID = BookID, finish_SessionID = fi_SessionID input, finish_ActorUserID = fi_OwnerUserID input,
       finish_AuthSessionID = fi_AuthSessionID input, finish_RequestID = fi_RequestID input, finish_OriginType = fi_OriginType input,
       finish_OccurredAt = now, finish_ChangeReason = changeReason \<rparr>))))"

definition svc_FinishReconciliation ::
  "(int list \<Rightarrow> int list) \<Rightarrow> string \<Rightarrow> FinishReconciliationInput \<Rightarrow> (reconcileStore, statement_error, ReconciliationSession) action" where
  "svc_FinishReconciliation ord now input =
     bindW (liftW (prepareFinish now input)) (\<lambda>params.
     bindW (\<lambda>rst. commitTo (repo_FinishReconciliationSession ord params rst) rst) (\<lambda>record.
     liftW (Inr (toReconciliationSession record))))"

definition prepareVoidReconciliation ::
  "string \<Rightarrow> string \<Rightarrow> statement_error \<Rightarrow> VoidReconciliationInput \<Rightarrow> (statement_error, VoidReconciliationParams) result" where
  "prepareVoidReconciliation now operation missing input =
     bindR (ensure (vi_OwnerUserID input > 0) OwnerUserRequired) (\<lambda>_.
     bindR (ensure (vi_ID input > 0) missing) (\<lambda>_.
     bindR (mapErr ServiceError (cleanChangeReason (vi_ChangeReason input) [])) (\<lambda>changeReason.
     bindR (ensure (changeReason \<noteq> []) ReasonRequired) (\<lambda>_.
     Inr \<lparr> void_BookID = BookID, void_ID = vi_ID input, void_ActorUserID = vi_OwnerUserID input, void_AuthSessionID = vi_AuthSessionID input,
       void_RequestID = vi_RequestID input, void_OriginType = vi_OriginType input, void_OccurredAt = now, void_Operation = operation,
       void_ChangeReason = changeReason \<rparr>))))"

definition svc_VoidReconciliationSession :: "string \<Rightarrow> VoidReconciliationInput \<Rightarrow> (reconcileStore, statement_error, ReconciliationSession) action" where
  "svc_VoidReconciliationSession now input =
     bindW (liftW (prepareVoidReconciliation now ''reconciliation.void'' ReconciliationIDRequired input)) (\<lambda>params.
     bindW (\<lambda>rst. commitTo (repo_VoidReconciliationSession params rst) rst) (\<lambda>record.
     liftW (Inr (toReconciliationSession record))))"

definition svc_ReconciliationCheckpoints :: "reconcileStore \<Rightarrow> int \<Rightarrow> int \<Rightarrow> (statement_error, ReconciliationCheckpoint list) result" where
  "svc_ReconciliationCheckpoints rst accountID commodityID =
     bindR (ensure (accountID > 0) AccountRequired) (\<lambda>_.
     Inr (map toReconciliationCheckpoint (repo_ListReconciliationCheckpoints rst BookID accountID commodityID)))"

definition svc_VoidReconciliationCheckpoint :: "string \<Rightarrow> VoidReconciliationInput \<Rightarrow> (reconcileStore, statement_error, ReconciliationCheckpoint) action" where
  "svc_VoidReconciliationCheckpoint now input =
     bindW (liftW (prepareVoidReconciliation now ''reconciliation_checkpoint.void'' CheckpointIDRequired input)) (\<lambda>params.
     bindW (\<lambda>rst. commitTo (repo_VoidReconciliationCheckpoint params rst) rst) (\<lambda>record.
     liftW (Inr (toReconciliationCheckpoint record))))"

definition prepareMark ::
  "string \<Rightarrow> (int \<Rightarrow> string) \<Rightarrow> ChangePostingReconciliationStatusInput \<Rightarrow> (statement_error, ChangePostingReconciliationStatusParams) result" where
  "prepareMark now today input =
     bindR (ensure (mi_OwnerUserID input > 0) OwnerUserRequired) (\<lambda>_.
     bindR (ensure (mi_AccountID input > 0) AccountRequired) (\<lambda>_.
     bindR (cleanPositiveInt64IDs (mi_PostingVersionIDs input)) (\<lambda>postingIDs.
     let status = TrimSpace (mi_Status input) in
     bindR (ensure (status = ''cleared'' \<or> status = ''uncleared'') PostingStatusInvalid) (\<lambda>_.
     bindR (mapErr FieldInvalid (cleanOptionalDate (mi_ClearedOn input) ''cleared date'')) (\<lambda>given.
     let clearedOn = (if status = ''uncleared'' then [] else if given = [] then today (mi_OwnerUserID input) else given) in
     bindR (mapErr ServiceError (cleanChangeReason (mi_ChangeReason input) ''updated reconciliation status'')) (\<lambda>changeReason.
     Inr \<lparr> mark_BookID = BookID, mark_AccountID = mi_AccountID input, mark_PostingVersionIDs = postingIDs, mark_Status = status,
       mark_ClearedOn = nullableSQLString clearedOn, mark_ActorUserID = mi_OwnerUserID input, mark_AuthSessionID = mi_AuthSessionID input,
       mark_RequestID = mi_RequestID input, mark_OriginType = mi_OriginType input, mark_OccurredAt = now,
       mark_ChangeReason = changeReason \<rparr>))))))"

text \<open>The records, before the service adds the names of accounts and commodities to them.\<close>

definition svc_ChangePostingReconciliationStatus ::
  "(int list \<Rightarrow> int list) \<Rightarrow> string \<Rightarrow> (int \<Rightarrow> string) \<Rightarrow> ChangePostingReconciliationStatusInput \<Rightarrow> (reconcileStore, statement_error, TransactionRecord list) action" where
  "svc_ChangePostingReconciliationStatus ord now today input =
     bindW (liftW (prepareMark now today input)) (\<lambda>params.
     (\<lambda>rst. commitTo (repo_ChangePostingReconciliationStatus ord params rst) rst))"

end
