(* ===== verification/Life.thy ===== *)
theory Life
  imports Moves
begin

text \<open>
  The life of a transaction. Every write appends versions to the ledger and takes none away; the status of each new version
  follows from the one before it: a draft is edited or posted, a posted transaction is edited or voided, a voided one is
  brought back, and any of them may be moved within its day. What the unvoid of the code does by looking for the latest version
  that is not voided is shown to find a posted one.
\<close>

section \<open>The life of a transaction\<close>

definition statusStep :: "string \<Rightarrow> string \<Rightarrow> bool" where
  "statusStep s s' \<longleftrightarrow> s' = s \<or> (s, s') \<in> {(''draft'', ''posted''), (''posted'', ''voided''), (''voided'', ''posted'')}"

definition life :: "versionRow list \<Rightarrow> bool" where
  "life vs \<longleftrightarrow> sorted_wrt (\<lambda>u v. versionOrder u < versionOrder v) vs \<and> successively statusStep (map tv_status vs) \<and>
     (vs \<noteq> [] \<longrightarrow> tv_status (hd vs) \<in> {''draft'', ''posted''})"

definition lives :: "store \<Rightarrow> bool" where
  "lives st \<longleftrightarrow> (\<forall>t. life (versionsOf st t))"

text \<open>A version that may be appended to the store.\<close>

definition follows :: "store \<Rightarrow> versionRow \<Rightarrow> bool" where
  "follows st n \<longleftrightarrow> (case currentVersion st (tv_transaction_id n) of
       None \<Rightarrow> versionsOf st (tv_transaction_id n) = [] \<and> tv_status n \<in> {''draft'', ''posted''}
     | Some v \<Rightarrow> tv_version_seq n = tv_version_seq v + 1 \<and>
         (statusStep (tv_status v) (tv_status n) \<or> tv_status v = ''voided'' \<and> map_option tv_status (priorVersion st (tv_transaction_id n)) = Some (tv_status n)))"

inductive grows :: "store \<Rightarrow> store \<Rightarrow> bool" where
  same: "st_versions st' = st_versions st \<Longrightarrow> grows st st'"
| one: "grows st st1 \<Longrightarrow> follows st1 n \<Longrightarrow> st_versions st' = st_versions st1 @ [n] \<Longrightarrow> grows st st'"

lemma lastBy_sorted: "sorted_wrt (\<lambda>u v. key u < key v) (vs @ [v]) \<Longrightarrow> lastBy key (vs @ [v]) = Some v"
  by (rule lastBy_snoc) (simp add: sorted_wrt_append)

lemma life_current:
  assumes "life (versionsOf st t)" and "versionsOf st t \<noteq> []"
  shows "currentVersion st t = Some (last (versionsOf st t))"
  using lastBy_sorted [of versionOrder "butlast (versionsOf st t)" "last (versionsOf st t)"] assms by (simp add: currentVersion_def life_def)

lemma life_butlast: "life (vs @ [v]) \<Longrightarrow> life vs"
  by (auto simp: life_def sorted_wrt_append successively_append_iff hd_append split: if_splits)

lemma life_step: "life (vs @ [w, v]) \<Longrightarrow> statusStep (tv_status w) (tv_status v)"
  by (simp add: life_def successively_append_iff)

text \<open>Before a voided version the latest one that is not voided is posted.\<close>

lemma life_prior:
  assumes "life (vs @ [v])" and "tv_status v = ''voided''"
  shows "\<exists>u. lastBy versionOrder (filter (\<lambda>v. tv_status v \<noteq> ''voided'') vs) = Some u \<and> tv_status u = ''posted''"
  using assms
proof (induction vs arbitrary: v rule: rev_induct)
  case Nil
  then show ?case by (simp add: life_def)
next
  case (snoc w vs)
  have step: "statusStep (tv_status w) ''voided''" using life_step [of vs w v] snoc.prems by simp
  have l: "life (vs @ [w])" using life_butlast [OF snoc.prems(1)] by simp
  show ?case
  proof (cases "tv_status w = ''voided''")
    case True
    then show ?thesis using snoc.IH [OF l] by simp
  next
    case False
    then have "tv_status w = ''posted''" using step by (auto simp: statusStep_def)
    moreover have "lastBy versionOrder (filter (\<lambda>v. tv_status v \<noteq> ''voided'') vs @ [w]) = Some w"
      by (rule lastBy_snoc) (use l in \<open>auto simp: life_def sorted_wrt_append\<close>)
    ultimately show ?thesis by simp
  qed
qed

lemma prior_posted:
  assumes "life (versionsOf st t)" and "currentVersion st t = Some v" and "tv_status v = ''voided''"
  shows "map_option tv_status (priorVersion st t) = Some ''posted''"
proof -
  have ne: "versionsOf st t \<noteq> []" using assms(2) by (auto simp: currentVersion_def)
  then have v: "v = last (versionsOf st t)" using life_current [OF assms(1)] assms(2) by simp
  have split: "versionsOf st t = butlast (versionsOf st t) @ [v]" using ne by (simp add: v)
  obtain u where u: "lastBy versionOrder (filter (\<lambda>v. tv_status v \<noteq> ''voided'') (butlast (versionsOf st t))) = Some u" "tv_status u = ''posted''"
    using life_prior [of "butlast (versionsOf st t)" v] assms(1,3) split by auto
  have "filter (\<lambda>v. tv_status v \<noteq> ''voided'') (versionsOf st t) = filter (\<lambda>v. tv_status v \<noteq> ''voided'') (butlast (versionsOf st t))"
    by (subst split) (simp add: assms(3))
  then show ?thesis using u by (simp add: priorVersion_def)
qed

lemma follows_lives:
  assumes "lives st" and f: "follows st n" and new: "st_versions st' = st_versions st @ [n]"
  shows "lives st'"
  unfolding lives_def
proof
  fix t
  show "life (versionsOf st' t)"
  proof (cases "tv_transaction_id n = t")
    case False
    then show ?thesis using assms(1) by (simp add: lives_def versionsOf_def new)
  next
    case True
    then have vs: "versionsOf st' t = versionsOf st t @ [n]" by (simp add: versionsOf_def new)
    have l: "life (versionsOf st t)" using assms(1) by (simp add: lives_def)
    show ?thesis
    proof (cases "versionsOf st t = []")
      case True
      then have "currentVersion st t = None" by (simp add: currentVersion_def)
      then show ?thesis using f \<open>tv_transaction_id n = t\<close> True by (simp add: vs follows_def life_def)
    next
      case False
      let ?v = "last (versionsOf st t)"
      note cur = life_current [OF l False]
      have seq: "tv_version_seq n = tv_version_seq ?v + 1" and
        st: "statusStep (tv_status ?v) (tv_status n) \<or> tv_status ?v = ''voided'' \<and> map_option tv_status (priorVersion st t) = Some (tv_status n)"
        using f True cur by (simp_all add: follows_def)
      have "statusStep (tv_status ?v) (tv_status n)"
        using st prior_posted [OF l cur] by (auto simp: statusStep_def)
      moreover have "versionOrder u < versionOrder n" if "u \<in> set (versionsOf st t)" for u
        using lastBy_ge [OF cur [unfolded currentVersion_def] that] seq by (auto simp: versionOrder_def less_eq_prod_def less_prod_def')
      moreover have "successively statusStep (map tv_status (versionsOf st t) @ [tv_status n])"
        using l False calculation(1) by (simp add: life_def successively_append_iff last_map)
      ultimately show ?thesis using l False by (auto simp: vs life_def sorted_wrt_append)
    qed
  qed
qed

lemma lives_reads: "st_versions st' = st_versions st \<Longrightarrow> lives st' = lives st"
  by (simp add: lives_def versionsOf_def)

lemma grows_lives: "grows st st' \<Longrightarrow> lives st \<Longrightarrow> lives st'"
proof (induction rule: grows.induct)
  case (same st' st)
  from same(2) show ?case unfolding lives_reads [OF same(1)] .
next
  case (one st st1 n st')
  from one.IH [OF one.prems] one.hyps(2,3) show ?case by (rule follows_lives)
qed

lemma grows_versions: "grows st st' \<Longrightarrow> \<exists>new. st_versions st' = st_versions st @ new"
  by (induction rule: grows.induct) auto

lemma follows_reads: "st_versions st1 = st_versions st2 \<Longrightarrow> follows st1 n = follows st2 n"
  by (simp add: follows_def reads_versions [of st1 st2] cong: option.case_cong)

lemma grows_trans:
  assumes "grows st1 st2" and "grows st st1"
  shows "grows st st2"
  using assms
proof (induction rule: grows.induct)
  case (same st' st1)
  from same(2,1) show ?case
  proof (cases rule: grows.cases)
    case 1: same
    show ?thesis by (rule grows.same) (rule trans [OF same(1) 1])
  next
    case 1: (one st0 n)
    show ?thesis by (rule grows.one [OF 1(1,2)]) (rule trans [OF same(1) 1(3)])
  qed
next
  case (one st1 st2 n st3)
  show ?case by (rule grows.one [OF one.IH [OF one.prems] one.hyps(2,3)])
qed

section \<open>What each write appends\<close>

lemma enforceBoundary_versions: "enforceBoundary batch bp st = Inr (st', ids) \<Longrightarrow> st_versions st' = st_versions st"
  by (auto simp: enforceBoundary_def result_simps)

lemma invalidateCrossed_versions: "invalidateCrossed bp refs st r = (st', r') \<Longrightarrow> st_versions st' = st_versions st"
  by (auto simp: invalidateCrossed_def split: if_splits prod.splits)

lemma inserted_grows:
  assumes "insertTransactionVersion vp st1 = Inr (st2, rec)" and "st_versions st1 = st_versions st" and "st_versions st' = st_versions st2"
    and cur: "currentVersion st (iv_TransactionID vp) = Some v" and seq: "iv_VersionSeq vp = tv_version_seq v + 1"
    and step: "statusStep (tv_status v) (ts_Status (iv_Spec vp)) \<or>
      tv_status v = ''voided'' \<and> map_option tv_status (priorVersion st (iv_TransactionID vp)) = Some (ts_Status (iv_Spec vp))"
  shows "grows st st'"
proof -
  from insertTransactionVersion_Inr [OF assms(1)] obtain entries where a: "versionAdded vp st1 st2 entries" .
  have "st_versions st' = st_versions st @ [newVersion vp st1 entries]" using versionAdded_frame(2) [OF a] assms(2,3) by simp
  moreover have "follows st (newVersion vp st1 entries)" using cur seq step by (simp add: follows_def)
  ultimately show ?thesis using grows.one [OF grows.same [OF refl]] by blast
qed

lemma copied_grows:
  assumes "insertTransactionVersion vp st1 = Inr (st2, rec)" and "st_versions st1 = st_versions st" and "st_versions st' = st_versions st2"
    and t: "transactionByID st b (iv_TransactionID vp) = Inr header" and "iv_VersionSeq vp = rc_VersionSeq header + 1" and "ts_Status (iv_Spec vp) = rc_Status header"
  shows "grows st st'"
proof -
  from transactionByID_Inr [OF t] obtain row v where "currentVersion st (iv_TransactionID vp) = Some v" "header = transactionVersionRecord st row v" by blast
  then show ?thesis using assms(5,6) by (intro inserted_grows [OF assms(1-3)]) (auto simp: transactionVersionRecord_def statusStep_def)
qed

lemma spec_status [simp]: "ts_Status (transactionSpecFromRecord (loadTransactionChildren st h)) = rc_Status h"
  by (simp add: transactionSpecFromRecord_def loadTransactionChildren_def)

text \<open>The transaction of a write bound to the version it was prepared from is still at that version.\<close>

lemma still_current:
  assumes "storeOk st" and "set (st_versions st0) \<subseteq> set (st_versions st)" and "currentVersion st0 t = Some v0"
    and "transactionByID st b t = Inr current" and "requireExpectedVersionTx (tv_id v0) current = Inr ()"
  shows "currentVersion st t = Some v0" "rc_Status current = tv_status v0" "rc_VersionSeq current = tv_version_seq v0"
proof -
  from transactionByID_Inr [OF assms(4)] obtain row v where v: "currentVersion st t = Some v" "current = transactionVersionRecord st row v" by blast
  have "tv_id v0 = tv_id v" using assms(5) v(2) by (simp add: requireExpectedVersionTx_def transactionVersionRecord_def split: if_splits)
  then have "v0 = v"
    using same_version [OF assms(1)] currentVersion_in [OF v(1)] currentVersion_in [OF assms(3)] assms(2) by blast
  then show "currentVersion st t = Some v0" "rc_Status current = tv_status v0" "rc_VersionSeq current = tv_version_seq v0"
    using v by (simp_all add: transactionVersionRecord_def)
qed

lemma audit_versions: "insertAuditEvent p st = Inr (st', i) \<Longrightarrow> st_versions st' = st_versions st"
  using insertAuditEvent_Inr [of p st st' i] by auto

lemma update_grows:
  assumes ok0: "storeOk st0" and ok: "storeOk st" and sub: "set (st_versions st0) \<subseteq> set (st_versions st)"
    and p: "prepareUpdate env now st0 input = Inr params" and w: "repo_UpdateTransaction batch params st = Inr (st', r)"
  shows "grows st st'"
proof -
  from prepareUpdate_Inr [OF ok0 p] obtain v0 where v0: "currentVersion st0 (up_TransactionID params) = Some v0" "up_ExpectedVersionID params = tv_id v0"
    "tv_status v0 \<noteq> ''voided''" "ts_Status (up_Spec params) = (if tv_status v0 = ''draft'' \<and> \<not> ui_AllowDraftPromotion input then ''draft'' else ''posted'')"
    by blast
  from w obtain current st1 audit st2 rec ids where t: "transactionByID st (up_BookID params) (up_TransactionID params) = Inr current"
    "requireExpectedVersionTx (up_ExpectedVersionID params) current = Inr ()" and au: "insertAuditEvent (updateAudit params) st = Inr (st1, audit)"
    and i: "insertTransactionVersion (updateVersion params current audit) st1 = Inr (st2, rec)"
    and g: "enforceBoundary batch (updateBoundary params audit) st2 = Inr (st', ids)"
    by (auto simp: repo_UpdateTransaction_def result_simps)
  note c = still_current [OF ok sub v0(1) t(1) t(2) [unfolded v0(2)]]
  have "tv_status v0 \<in> set transactionStatuses" using storeOk_parts(10) [OF ok] currentVersion_in [OF c(1)] by blast
  then have "statusStep (tv_status v0) (ts_Status (up_Spec params))" using v0(3,4) by (auto simp: statusStep_def transactionStatuses_def)
  then show ?thesis
    by (intro inserted_grows [OF i audit_versions [OF au] enforceBoundary_versions [OF g], of v0]) (simp_all add: updateVersion_def c)
qed

lemma prepareVoid_posted:
  assumes ok: "storeOk st" and p: "prepareVoid now st input = Inr (Prepared params)"
  obtains v where "currentVersion st (lp_TransactionID params) = Some v" "lp_ExpectedVersionID params = tv_id v" "tv_status v = ''posted''"
proof -
  from p obtain current candidates reason where c: "TransactionByID st (li_TransactionID input) = Inr current" "rc_Status current \<notin> {''voided'', ''draft''}"
    and params: "params = lifecycleParams now input ''transaction.void'' reason candidates (rc_VersionID current)"
    by (auto simp: prepareVoid_def planVoid_def result_simps split: if_splits)
  from TransactionByIDIncludingDeleted_Inr [OF ok TransactionByID_Inr(1) [OF c(1)]] obtain row v where v: "currentVersion st (li_TransactionID input) = Some v"
    "rc_VersionID current = tv_id v" "rc_Status current = tv_status v" by blast
  moreover have "tv_status v \<in> set transactionStatuses" using storeOk_parts(10) [OF ok] currentVersion_in [OF v(1)] by blast
  ultimately show ?thesis using that [of v] c(2) params by (auto simp: lifecycleParams_def transactionStatuses_def)
qed

lemma void_grows:
  assumes ok0: "storeOk st0" and ok: "storeOk st" and sub: "set (st_versions st0) \<subseteq> set (st_versions st)"
    and p: "prepareVoid now st0 input = Inr (Prepared params)" and w: "repo_VoidTransaction batch params st = Inr (st', r)"
  shows "grows st st'"
proof -
  from prepareVoid_posted [OF ok0 p] obtain v0 where v0: "currentVersion st0 (lp_TransactionID params) = Some v0" "lp_ExpectedVersionID params = tv_id v0"
    "tv_status v0 = ''posted''" .
  define spec where "spec current = (transactionSpecFromRecord (loadTransactionChildren st current))\<lparr> ts_Status := ''voided'' \<rparr>" for current
  define vp where "vp current audit = lifecycleVersion params (loadTransactionChildren st current) (spec current)
    (rc_TransactionDaySequence (loadTransactionChildren st current)) audit" for current audit
  from w obtain current where t: "transactionByID st (lp_BookID params) (lp_TransactionID params) = Inr current"
    "requireExpectedVersionTx (lp_ExpectedVersionID params) current = Inr ()" by (auto simp: repo_VoidTransaction_def result_simps)
  note c = still_current [OF ok sub v0(1) t(1) t(2) [unfolded v0(2)]]
  from w obtain st1 audit st2 rec ids where au: "insertAuditEvent (lifecycleAudit params) st = Inr (st1, audit)"
    and i: "insertTransactionVersion (vp current audit) st1 = Inr (st2, rec)" and g: "enforceBoundary batch (lifecycleBoundary params audit) st2 = Inr (st', ids)"
    unfolding repo_VoidTransaction_def Let_def spec_def vp_def using t c(2) v0(3) by (auto simp: result_simps)
  show ?thesis
    by (rule inserted_grows [OF i audit_versions [OF au] enforceBoundary_versions [OF g], of v0])
      (simp_all add: vp_def spec_def lifecycleVersion_def c v0(3) statusStep_def)
qed

lemma unvoid_grows:
  assumes ok0: "storeOk st0" and ok: "storeOk st" and sub: "set (st_versions st0) \<subseteq> set (st_versions st)"
    and p: "prepareUnvoid now st0 input = Inr (Prepared params)" and w: "repo_UnvoidTransaction batch params st = Inr (st', r)"
  shows "grows st st'"
proof -
  from prepareUnvoid_Inr [OF ok0 p] obtain v0 where v0: "currentVersion st0 (lp_TransactionID params) = Some v0" "lp_ExpectedVersionID params = tv_id v0" .
  define vp where "vp current found audit = lifecycleVersion params current (transactionSpecFromRecord (loadTransactionChildren st found))
    (rc_TransactionDaySequence (loadTransactionChildren st found)) audit" for current found audit
  from w obtain current where t: "transactionByID st (lp_BookID params) (lp_TransactionID params) = Inr current"
    "requireExpectedVersionTx (lp_ExpectedVersionID params) current = Inr ()" by (auto simp: repo_UnvoidTransaction_def result_simps)
  note c = still_current [OF ok sub v0(1) t(1) t(2) [unfolded v0(2)]]
  show ?thesis
  proof (cases "tv_status v0 = ''voided''")
    case False
    then have "st' = st" using w t c(2) by (auto simp: repo_UnvoidTransaction_def result_simps split: if_splits)
    then show ?thesis by (simp add: grows.same)
  next
    case True
    from w True obtain u found st1 audit st2 rec ids where u: "priorVersion st (lp_TransactionID params) = Some u" "transactionVersionByID st (tv_id u) = Inr found"
      and au: "insertAuditEvent (lifecycleAudit params) st = Inr (st1, audit)" and i: "insertTransactionVersion (vp current found audit) st1 = Inr (st2, rec)"
      and g: "enforceBoundary batch (lifecycleBoundary params audit) st2 = Inr (st', ids)"
      unfolding repo_UnvoidTransaction_def Let_def vp_def using t c(2) by (auto simp: result_simps split: option.splits)
    have "u \<in> set (st_versions st)" using lastBy_in [OF u(1) [unfolded priorVersion_def]] by (auto simp: versionsOf_def)
    then have "rc_Status found = tv_status u" using u(2) find_distinct [OF storeOk_parts(2) [OF ok]]
      by (auto simp: transactionVersionByID_def transactionVersionRecord_def split: option.splits)
    then show ?thesis
      by (intro inserted_grows [OF i audit_versions [OF au] enforceBoundary_versions [OF g], of v0])
        (simp_all add: vp_def lifecycleVersion_def c True u(1))
  qed
qed

lemma setDeleted_grows: "repo_SetTransactionDeleted batch params deleted st = Inr (st', r) \<Longrightarrow> grows st st'"
  by (rule grows.same) (auto simp: repo_SetTransactionDeleted_def Let_def result_simps split: if_splits dest!: audit_versions enforceBoundary_versions)

lemma approve_grows:
  assumes "repo_ApproveTransaction params st = Inr (st', r)"
  shows "grows st st'"
proof -
  define vp where "vp header audit = approveVersion params (loadTransactionChildren st header) audit" for header audit
  from assms obtain header where t: "transactionByID st (ax_BookID params) (ax_TransactionID params) = Inr header"
    and "st' = st \<or> (\<exists>st1 audit. insertAuditEvent (approveAudit params) st = Inr (st1, audit) \<and> insertTransactionVersion (vp header audit) st1 = Inr (st', r))"
    unfolding repo_ApproveTransaction_def Let_def vp_def by (auto simp: result_simps split: if_splits)
  from this(2) show ?thesis
  proof (elim disjE exE conjE)
    assume "st' = st" then show ?thesis by (simp add: grows.same)
  next
    fix st1 audit assume au: "insertAuditEvent (approveAudit params) st = Inr (st1, audit)" and i: "insertTransactionVersion (vp header audit) st1 = Inr (st', r)"
    show ?thesis
      by (rule copied_grows [OF i audit_versions [OF au] refl, of "ax_BookID params" header]) (simp_all add: vp_def approveVersion_def t)
  qed
qed

lemma create_grows:
  assumes ok: "storeOk st" and p: "prepareCreate env now st0 input = Inr params" and w: "createTransactionTx batch params st = Inr (st', r)"
  shows "grows st st'"
proof -
  define t where "t st1 = nextAbove (map tr_id (st_transactions st1))" for st1 :: store
  define sa where "sa st1 audit = st1\<lparr> st_transactions := st_transactions st1 @ [createRow params (t st1) audit] \<rparr>" for st1 audit
  from w obtain st1 audit st2 rec ids where au: "insertAuditEvent (createAudit params) st = Inr (st1, audit)"
    and i: "insertTransactionVersion (createVersion params (t st1) audit) (sa st1 audit) = Inr (st2, rec)"
    and g: "enforceBoundary batch (createBoundary params audit) st2 = Inr (st', ids)"
    unfolding createTransactionTx_def createTransactionWithAuditTx_def insertTransactionWithAuditEventTx_def Let_def t_def sa_def by (auto simp: result_simps)
  from insertAuditEvent_Inr [OF au] obtain A where A: "st1 = st\<lparr> st_audit := A \<rparr>" ..
  have "storeOk st1" unfolding A by (rule storeOk_audit [OF ok])
  then have none: "versionsOf st1 (t st1) = []"
    using row_added(2) [of st1 "createRow params (t st1) audit"] by (simp add: t_def createRow_def)
  from insertTransactionVersion_Inr [OF i] obtain entries where a: "versionAdded (createVersion params (t st1) audit) (sa st1 audit) st2 entries" .
  let ?n = "newVersion (createVersion params (t st1) audit) (sa st1 audit) entries"
  have "st_versions st' = st_versions st @ [?n]"
    using versionAdded_frame(2) [OF a] enforceBoundary_versions [OF g] by (simp add: sa_def A)
  moreover have "versionsOf st (t st1) = []" using none by (simp add: versionsOf_def A)
  then have "follows st ?n" using prepareCreate_Inr(2) [OF p] by (auto simp: follows_def createVersion_def currentVersion_def)
  ultimately show ?thesis using grows.one [OF grows.same [OF refl]] by blast
qed

lemma move_grows:
  assumes w: "repo_MoveTransaction params st = Inr (st', r)"
  shows "grows st st'"
proof -
  define b where "b = mt_BookID params" define t where "t = mt_TransactionID params"
  define copied where "copied st1 t h reason audit n = copiedVersion b t (loadTransactionChildren st1 h) (mt_RecordedAt params) (mt_ActorUserID params) reason audit (mt_RequestID params) n Map.empty"
    for st1 t h reason audit n
  from w obtain h ta va st1 audit h' st2 r2 r3 reason where th: "transactionByID st b t = Inr h"
    and adj: "adjacentTransaction st b (rc_TransactionDate h) (rc_TransactionDaySequence h) (mt_Direction params) = Some (ta, va)"
    and au: "insertAuditEvent (moveAudit params) st = Inr (st1, audit)" and th': "transactionByID st1 b (tr_id ta) = Inr h'"
    and i1: "insertTransactionVersion (copied st1 t h reason audit (tv_day_sequence va)) st1 = Inr (st2, r2)"
    and i2: "insertTransactionVersion (copied st1 (tr_id ta) h' ''swapped for moved transaction'' audit (rc_TransactionDaySequence (loadTransactionChildren st1 h))) st2 = Inr (st', r3)"
    unfolding repo_MoveTransaction_def b_def [symmetric] t_def [symmetric] copied_def Let_def by (auto simp: result_simps split: option.splits)
  from insertAuditEvent_Inr [OF au] obtain A where A: "st1 = st\<lparr> st_audit := A \<rparr>" ..
  have other: "tr_id ta \<noteq> t"
  proof
    assume e: "tr_id ta = t"
    from transactionByID_Inr [OF th] obtain row v where "currentVersion st t = Some v" "h = transactionVersionRecord st row v" by blast
    then show False using adjacent_other(2,4) [OF adj] e by (simp add: transactionVersionRecord_def)
  qed
  have "grows st st2" by (rule copied_grows [OF i1 audit_versions [OF au] refl, of b h]) (simp_all add: copied_def th)
  moreover from transactionByID_Inr [OF th'] obtain row v where v: "currentVersion st1 (tr_id ta) = Some v" "h' = transactionVersionRecord st1 row v" by blast
  have "grows st2 st'"
  proof (rule inserted_grows [OF i2 refl refl])
    from insertTransactionVersion_Inr [OF i1] obtain entries where a: "versionAdded (copied st1 t h reason audit (tv_day_sequence va)) st1 st2 entries" .
    have "currentVersion st2 (tr_id ta) = currentVersion st1 (tr_id ta)"
      using other by (simp add: currentVersion_def versionsOf_def versionAdded_frame(2) [OF a] copied_def)
    then show "currentVersion st2 (iv_TransactionID (copied st1 (tr_id ta) h' ''swapped for moved transaction'' audit (rc_TransactionDaySequence (loadTransactionChildren st1 h)))) = Some v"
      using v(1) by (simp add: copied_def)
    show "iv_VersionSeq (copied st1 (tr_id ta) h' ''swapped for moved transaction'' audit (rc_TransactionDaySequence (loadTransactionChildren st1 h))) = tv_version_seq v + 1"
      by (simp add: copied_def v(2) transactionVersionRecord_def)
    show "statusStep (tv_status v) (ts_Status (iv_Spec (copied st1 (tr_id ta) h' ''swapped for moved transaction'' audit (rc_TransactionDaySequence (loadTransactionChildren st1 h))))) \<or>
        tv_status v = ''voided'' \<and> map_option tv_status (priorVersion st2 (iv_TransactionID (copied st1 (tr_id ta) h' ''swapped for moved transaction'' audit
          (rc_TransactionDaySequence (loadTransactionChildren st1 h))))) =
          Some (ts_Status (iv_Spec (copied st1 (tr_id ta) h' ''swapped for moved transaction'' audit (rc_TransactionDaySequence (loadTransactionChildren st1 h)))))"
      by (simp add: copied_def v(2) transactionVersionRecord_def statusStep_def)
  qed
  ultimately show ?thesis by (rule grows_trans [rotated])
qed

lemma moveVersion_grows:
  assumes "moveVersion params audit t reason ov st = Inr (st', r)"
  shows "grows st st'"
proof -
  define vp where "vp h = copiedVersion (mp_BookID params) t (loadTransactionChildren st h) (mp_RecordedAt params) (mp_ActorUserID params) reason audit
    (mp_RequestID params) (rc_TransactionDaySequence (loadTransactionChildren st h)) ov" for h
  from assms obtain h where h: "transactionByID st (mp_BookID params) t = Inr h" and i: "insertTransactionVersion (vp h) st = Inr (st', r)"
    unfolding moveVersion_def Let_def vp_def by (auto simp: result_simps)
  show ?thesis by (rule copied_grows [OF i refl refl, of "mp_BookID params" h]) (simp_all add: vp_def h)
qed

lemma movePosting_grows:
  assumes "repo_MovePosting batch params st = Inr (st', r)"
  shows "grows st st'"
proof -
  from assms obtain st1 audit t reason ov st2 r2 t' ov' st3 bp refs where au: "insertAuditEvent (postingAudit params) st = Inr (st1, audit)"
    and m1: "moveVersion params audit t reason ov st1 = Inr (st2, r2)"
    and m2: "(if t' = t then Inr st2 else bindR (moveVersion params audit t' ''swapped for moved posting'' ov' st2) (\<lambda>(st3, _). Inr st3)) = Inr st3"
    and inv: "invalidateCrossed bp refs st3 r2 = (st', r)"
    unfolding repo_MovePosting_def Let_def by (auto simp: result_simps split: option.splits prod.splits)
  have "grows st st2" by (rule grows_trans [OF moveVersion_grows [OF m1] grows.same [OF audit_versions [OF au]]])
  moreover have "grows st2 st3"
    using m2 moveVersion_grows by (auto simp: result_simps grows.same split: if_splits)
  moreover have "grows st3 st'" by (rule grows.same [OF invalidateCrossed_versions [OF inv]])
  ultimately show ?thesis using grows_trans by blast
qed

lemma writeReordered_grows:
  assumes "writeReordered params audit days ps ts found st = Inr (st', found')"
  shows "grows st st'"
  using assms
proof (induction ts arbitrary: st found)
  case Nil
  then show ?case by (simp add: grows.same)
next
  case (Cons t ts)
  define vp where "vp h n reason = copiedVersion (pt_BookID params) t (loadTransactionChildren st h) (pt_RecordedAt params) (pt_ActorUserID params) reason audit
    (pt_RequestID params) n (seqOverrides ps t)" for h n reason
  from Cons.prems obtain h n reason st1 written found1 where h: "transactionByID st (pt_BookID params) t = Inr h"
    and i: "insertTransactionVersion (vp h n reason) st = Inr (st1, written)" and rest: "writeReordered params audit days ps ts found1 st1 = Inr (st', found')"
    unfolding writeReordered.simps Let_def vp_def by (auto simp: result_simps)
  have "grows st st1" by (rule copied_grows [OF i refl refl, of "pt_BookID params" h]) (simp_all add: vp_def h)
  then show ?case by (rule grows_trans [OF Cons.IH [OF rest]])
qed

lemma place_grows:
  assumes "repo_PlaceTransaction batch params st = Inr (st', r)"
  shows "grows st st'"
proof -
  from assms have "st' = st \<or> (\<exists>st1 audit days ps ts st2 found bp refs r0. insertAuditEvent (placeAudit params) st = Inr (st1, audit) \<and>
      writeReordered params audit days ps ts None st1 = Inr (st2, found) \<and> invalidateCrossed bp refs st2 r0 = (st', r))"
    unfolding repo_PlaceTransaction_def Let_def by (auto simp: result_simps split: if_splits) blast+
  then show ?thesis
  proof (elim disjE exE conjE)
    assume "st' = st" then show ?thesis by (simp add: grows.same)
  next
    fix st1 audit days ps ts st2 found bp refs r0
    assume "insertAuditEvent (placeAudit params) st = Inr (st1, audit)" and "writeReordered params audit days ps ts None st1 = Inr (st2, found)"
      and "invalidateCrossed bp refs st2 r0 = (st', r)"
    then show ?thesis
      using grows_trans [OF grows.same [OF invalidateCrossed_versions] grows_trans [OF writeReordered_grows grows.same [OF audit_versions]]] by blast
  qed
qed

text \<open>Discarding a draft takes away no version that is posted or voided, nor any other of its transaction.\<close>

lemma discard_lives:
  assumes "repo_DeleteDraftTransaction params st = Inr st'"
  shows "lives st \<Longrightarrow> lives st'"
    and "v \<in> set (st_versions st) \<Longrightarrow> tv_status v \<in> {''posted'', ''voided''} \<Longrightarrow> versionsOf st' (tv_transaction_id v) = versionsOf st (tv_transaction_id v)"
proof -
  define t where "t = dd_TransactionID params"
  from assms have vs: "st_versions st' = filter (\<lambda>v. tv_transaction_id v \<noteq> t) (st_versions st)"
    and drafts: "filter (\<lambda>v. tv_status v \<in> {''posted'', ''voided''}) (versionsOf st t) = []"
    by (auto simp: repo_DeleteDraftTransaction_def result_simps Let_def t_def dest!: insertAuditEvent_Inr)
  have of: "versionsOf st' x = (if x = t then [] else versionsOf st x)" for x
    using versionsOf_filter [of x t "st_versions st"] by (auto simp: versionsOf_def vs filter_empty_conv)
  show "lives st \<Longrightarrow> lives st'" by (auto simp: lives_def of life_def)
  show "versionsOf st' (tv_transaction_id v) = versionsOf st (tv_transaction_id v)"
    if "v \<in> set (st_versions st)" "tv_status v \<in> {''posted'', ''voided''}"
  proof -
    have "tv_transaction_id v \<noteq> t" using drafts that by (auto simp: filter_empty_conv versionsOf_def)
    then show ?thesis by (simp add: of)
  qed
qed

end
