(* ===== verification/Progress.thy ===== *)
theory Progress
  imports Life
begin

text \<open>
  When a lifecycle write goes through, and what it leaves behind: the audit event is accepted, copying a journal into a new version
  cannot fail, every posting of the copy keeps its place in the register and everything it says, and the guard has nothing
  to say when no checkpoint is in the way. With this a void and an unvoid of the service are known to complete, and to
  be each other's inverse.
\<close>

section \<open>Steps that succeed\<close>

definition auditAccepted :: "AuditEventParams \<Rightarrow> bool" where
  "auditAccepted p \<longleftrightarrow> TrimSpace (ap_OriginType p) \<in> set auditOriginTypes \<and> auditOperationFrom False False (TrimSpace (ap_Operation p)) \<and>
     utcSecond (TrimSpace (ap_OccurredAt p)) \<and> (let m = TrimSpace (ap_MetadataJSON p) in m = [] \<or> json_Valid m \<and> hd m = CHR ''{'')"

lemma json_braces: "json_Valid ''{}''" by code_simp

lemma audit_accepted: "auditAccepted p \<Longrightarrow> \<exists>A i. insertAuditEvent p st = Inr (st\<lparr> st_audit := A \<rparr>, i)"
  using json_braces by (auto simp: auditAccepted_def insertAuditEvent_def Let_def result_simps)

lemma insertPostings_total:
  "\<not> iv_ReplaceTags params \<Longrightarrow> \<forall>p\<in>set ps. storedScale (ps_QuantityScale p) \<Longrightarrow> \<exists>st' rows. insertPostings params v e d placed written ps st = Inr (st', rows)"
  by (induction ps arbitrary: written st) (simp_all add: Let_def result_simps split: prod.splits)

lemma insertEntries_total:
  "\<not> iv_ReplaceTags params \<Longrightarrow> \<forall>e\<in>set es. \<forall>p\<in>set (es_Postings e). storedScale (ps_QuantityScale p) \<Longrightarrow>
    \<exists>st' rows. insertEntries params v written es st = Inr (st', rows)"
proof (induction es arbitrary: written st)
  case (Cons e es)
  have e: "\<forall>p\<in>set (es_Postings e). storedScale (ps_QuantityScale p)" using Cons.prems(2) by simp
  have rest: "\<forall>e\<in>set es. \<forall>p\<in>set (es_Postings e). storedScale (ps_QuantityScale p)" using Cons.prems(2) by simp
  obtain st1 rows where "insertPostings params v (nextAbove (map er_ID (concat (map tv_entries (st_versions st)) @ written))) (es_EntryDate e) (recordPostings written) [] (es_Postings e) st = Inr (st1, rows)"
    using insertPostings_total [OF Cons.prems(1) e] by blast
  then show ?case using Cons.IH [OF Cons.prems(1) rest] by (simp add: Let_def result_simps)
qed simp

lemma specPostings_scales:
  "\<forall>nxt\<in>set (specPostings es). storedScale (ps_QuantityScale (snd nxt)) \<Longrightarrow> \<forall>e\<in>set es. \<forall>p\<in>set (es_Postings e). storedScale (ps_QuantityScale p)"
  by (force simp: specPostings_def)

lemma insertTransactionVersion_total:
  assumes "\<not> iv_ReplaceTags params" and "\<exists>t\<in>set (st_transactions st). tr_id t = iv_TransactionID params"
    and scales: "\<forall>nxt\<in>set (specPostings (ts_JournalEntries (iv_Spec params))). storedScale (ps_QuantityScale (snd nxt))"
  shows "\<exists>st' r. insertTransactionVersion params st = Inr (st', r)"
proof -
  let ?v = "nextAbove (map tv_id (st_versions st))"
  obtain st2 entries where i: "insertEntries params ?v [] (ts_JournalEntries (iv_Spec params)) st = Inr (st2, entries)"
    using insertEntries_total [OF assms(1) specPostings_scales [OF scales]] by blast
  from insertEntries_Inr [OF i] have st2: "st_versions st2 = st_versions st" "st_transactions st2 = st_transactions st" by auto
  let ?row = "versionRowOf params ?v (transactionDaySeq params st) entries"
  have "find (\<lambda>v. tv_id v = ?v) (st_versions st @ [?row]) = Some ?row"
  proof -
    have "tv_id v \<noteq> ?v" if "v \<in> set (st_versions st)" for v using nextAbove_gt [of "tv_id v" "map tv_id (st_versions st)"] that by simp
    then have "find (\<lambda>v. tv_id v = ?v) (st_versions st) = None" by (simp add: find_None_iff)
    then show ?thesis by (simp add: find_append)
  qed
  moreover obtain t where "find (\<lambda>t. tr_id t = iv_TransactionID params) (st_transactions st) = Some t"
    using assms(2) find_exists by fastforce
  ultimately show ?thesis
    using assms(1) i by (simp add: insertTransactionVersion_def Let_def result_simps transactionVersionByID_def st2)
qed

definition unguarded :: "checkpointBoundaryParams \<Rightarrow> store \<Rightarrow> bool" where
  "unguarded bp st \<longleftrightarrow> list_all (\<lambda>c. \<not> covered bp c) (st_checkpoints st)"

lemma unguarded_passes:
  assumes "tableOk (st_checkpoints st)" and "unguarded bp st" and "\<not> bp_ReconciliationOverride bp"
  shows "enforceBoundary batch bp st = Inr (st, [])"
proof -
  have none: "coveredIDs bp (st_checkpoints st) = {}" using assms(2) by (auto simp: coveredIDs_def unguarded_def list_all_iff)
  then have "rf_CheckpointID ` set (periodScopedCheckpointInvalidationRefs (st_checkpoints st) (bp_BookID bp) (bp_Candidates bp)) = {}"
    unfolding coveredIDs_def refs_ids [symmetric] .
  then show ?thesis using assms(3) none
    by (simp add: enforceBoundary_def enforce_eq [OF assms(1)] guardPasses_def result_simps)
qed

section \<open>A copied journal\<close>

text \<open>All a posting says, and its place in the register.\<close>

definition postingText :: "PostingRecord \<Rightarrow> string \<times> string \<times> string option \<times> string" where
  "postingText p = (pr_Memo p, pr_ReconciliationStatus p, pr_ClearedOn p, pr_MetadataJSON p)"

definition place :: "string \<times> PostingRecord \<Rightarrow> (string \<times> string \<times> int \<times> int \<times> Coefficient \<times> int) \<times> (string \<times> string \<times> string option \<times> string) \<times> int" where
  "place cur = (postingCore cur, postingText (snd cur), pr_AccountDaySequence (snd cur))"

definition specText :: "PostingSpec \<Rightarrow> string \<times> string \<times> string option \<times> string" where
  "specText p = (ps_Memo p, ps_ReconciliationStatus p, ps_ClearedOn p, ps_MetadataJSON p)"

lemma specFromRecord_texts:
  "map (\<lambda>n. specText (snd n)) (specPostings (ts_JournalEntries (transactionSpecFromRecord r))) = map (\<lambda>c. postingText (snd c)) (recordPostings (rc_JournalEntries r))"
  unfolding transactionSpecFromRecord_def specPostings_def recordPostings_def by (simp add: map_concat o_def specText_def postingText_def)

lemma record_texts:
  assumes "storeOk st" and "v \<in> set (st_versions st)" and "rc_VersionID r = tv_id v"
  shows "map (\<lambda>n. specText (snd n)) (specPostings (ts_JournalEntries (transactionSpecFromRecord (loadTransactionChildren st r)))) =
    map (\<lambda>c. postingText (snd c)) (recordPostings (tv_entries v))"
  unfolding specFromRecord_texts using journal_loaded [OF assms(1,2)] assms(3)
  by (simp add: loadTransactionChildren_def recordPostings_withTags o_def postingText_def)

lemma copied_places:
  assumes ok: "storeOk st" and s: "supersedesWith params st v st' entries" and no: "iv_PostingSeqOverrides params = Map.empty"
    and core: "map specCore (specPostings (ts_JournalEntries (iv_Spec params))) = map postingCore (recordPostings (tv_entries v))"
    and texts: "map (\<lambda>n. specText (snd n)) (specPostings (ts_JournalEntries (iv_Spec params))) = map (\<lambda>c. postingText (snd c)) (recordPostings (tv_entries v))"
  shows "map place (recordPostings entries) = map place (recordPostings (tv_entries v))"
proof -
  let ?ns = "specPostings (ts_JournalEntries (iv_Spec params))" let ?old = "recordPostings (tv_entries v)" let ?new = "recordPostings entries"
  have a: "versionAdded params st st' entries" and v: "v \<in> set (st_versions st)" and prev: "iv_SupersedesVersionID params = Some (tv_id v)"
    and ids: "iv_BookID params = tv_book_id v" "iv_TransactionID params = tv_transaction_id v" using s by (simp_all add: supersedesWith_def)
  note rows = added_rows(1) [OF ok a]
  have len: "length ?new = length ?ns" "length ?old = length ?ns" using list_all2_lengthD [OF rows] arg_cong [OF core, of length] by simp_all
  show ?thesis
  proof (rule nth_equalityI)
    show "length (map place ?new) = length (map place ?old)" using len by simp
    fix i assume "i < length (map place ?new)"
    then have i: "i < length ?ns" using len by simp
    have new: "rowOf params (?ns ! i) (?new ! i)" "lineFor params (st_lines st') (ps_LineKey (snd (?ns ! i))) = Some (pr_PostingLineID (snd (?new ! i)))"
      "placing params st (?new ! i)" using list_all2_nthD [OF rows i] by simp_all
    have sc: "specCore (?ns ! i) = postingCore (?old ! i)" using arg_cong [OF core, of "\<lambda>xs. xs ! i"] i len by simp
    have nc: "postingCore (?new ! i) = specCore (?ns ! i)" using rowOf_fields [OF new(1)] by (simp add: postingCore_def specCore_def)
    have "snd (?new ! i) = postingRow params (pr_ID (snd (?new ! i))) (pr_TransactionVersionID (snd (?new ! i))) (pr_JournalEntryID (snd (?new ! i)))
      (pr_PostingLineID (snd (?new ! i))) (pr_LineSeq (snd (?new ! i))) (pr_AccountDaySequence (snd (?new ! i))) (snd (?ns ! i))"
      using new(1) by (simp add: rowOf_def)
    then have "postingText (snd (?new ! i)) = specText (snd (?ns ! i))" by (metis (no_types, lifting) postingRow_def postingText_def specText_def PostingRecord.select_convs)
    also have "\<dots> = postingText (snd (?old ! i))" using arg_cong [OF texts, of "\<lambda>xs. xs ! i"] i len by simp
    finally have said: "postingText (snd (?new ! i)) = postingText (snd (?old ! i))" .
    have "pr_AccountDaySequence (snd (?new ! i)) = pr_AccountDaySequence (snd (?old ! i))"
    proof (rule row_place(1) [OF ok v prev ids _ versionAdded_lines(1) [OF ok a] versionAdded_lines(2) [OF ok a] new])
      show "iv_PostingSeqOverrides params (pr_PostingLineID (snd (?new ! i))) = None" by (simp add: no)
      show "?old ! i \<in> set ?old" using i len by simp
      show "pr_LineKey (snd (?old ! i)) = pr_LineKey (snd (?new ! i))" "pr_AccountID (snd (?old ! i)) = pr_AccountID (snd (?new ! i))" "fst (?old ! i) = fst (?new ! i)"
        using sc nc by (simp_all add: postingCore_def)
    qed
    then show "map place ?new ! i = map place ?old ! i" using said sc nc i len by (simp add: place_def)
  qed
qed

lemma rawSum_places: "map place (recordPostings es) = map place (recordPostings es') \<Longrightarrow> rawSum c es = rawSum c es'"
proof -
  assume a: "map place (recordPostings es) = map place (recordPostings es')"
  define share where "share p = (case p of ((d, k, a, m, q, s), x, n) \<Rightarrow>
    if a = ck_account_id c \<and> m = ck_commodity_id c \<and> (d < ck_statement_date c \<or> d = ck_statement_date c \<and> n \<le> ck_statement_account_sequence c)
    then decVal (BigInt q) s else 0)" for p :: "(string \<times> string \<times> int \<times> int \<times> Coefficient \<times> int) \<times> (string \<times> string \<times> string option \<times> string) \<times> int"
  have "(if inside c cur then postingVal (snd cur) else 0) = share (place cur)" for cur
    by (auto simp: share_def place_def postingCore_def inside_def postingVal_def)
  then have "rawSum c es = sum_list (map share (map place (recordPostings es)))" for es
    by (simp add: rawSum_def o_def)
  then show ?thesis by (simp only: a)
qed

section \<open>What a lifecycle version leaves behind\<close>

definition descriptive :: "versionRow \<Rightarrow> string \<times> string \<times> int option \<times> string option \<times> string \<times> string \<times> string \<times> bool" where
  "descriptive v = (tv_kind v, tv_date v, tv_payee_id v, tv_payee_name v, tv_description v, tv_note_markdown v, tv_metadata_json v, tv_needs_review v)"

definition specDescriptive :: "TransactionSpec \<Rightarrow> string \<times> string \<times> int option \<times> string option \<times> string \<times> string \<times> string \<times> bool" where
  "specDescriptive spec = (ts_TransactionKind spec, ts_TransactionDate spec, ts_PayeeID spec, ts_PayeeName spec, ts_Description spec,
     ts_NoteMarkdown spec, ts_MetadataJSON spec, ts_NeedsReview spec)"

lemma lifecycle_outcome:
  assumes ok: "storeOk st" and cur: "currentVersion st t = Some v"
    and i: "insertTransactionVersion vp (st\<lparr> st_audit := A \<rparr>) = Inr (st2, rec)" and g: "enforceBoundary batch bp st2 = Inr (st3, ids)"
    and vp: "iv_BookID vp = tv_book_id v" "iv_TransactionID vp = t" "iv_VersionSeq vp = tv_version_seq v + 1" "iv_SupersedesVersionID vp = Some (tv_id v)"
      "iv_PostingSeqOverrides vp = Map.empty"
    and core: "map specCore (specPostings (ts_JournalEntries (iv_Spec vp))) = map postingCore (recordPostings (tv_entries v))"
    and texts: "map (\<lambda>n. specText (snd n)) (specPostings (ts_JournalEntries (iv_Spec vp))) = map (\<lambda>c. postingText (snd c)) (recordPostings (tv_entries v))"
  obtains w where "tv_status w = ts_Status (iv_Spec vp)" "descriptive w = specDescriptive (iv_Spec vp)" "tv_book_id w = tv_book_id v"
    "0 < iv_TransactionDaySequence vp \<Longrightarrow> tv_day_sequence w = iv_TransactionDaySequence vp"
    "map place (recordPostings (tv_entries w)) = map place (recordPostings (tv_entries v))"
    "\<And>x. currentVersion st3 x = (if x = t then Some w else currentVersion st x)"
    "\<And>x. priorVersion st3 x = (if x = t \<and> tv_status w \<noteq> ''voided'' then Some w else priorVersion st x)"
    "st_transactions st3 = st_transactions st"
proof -
  let ?st = "st\<lparr> st_audit := A \<rparr>"
  have ok1: "storeOk ?st" by (rule storeOk_audit [OF ok])
  from insertTransactionVersion_Inr [OF i] obtain entries where a: "versionAdded vp ?st st2 entries" .
  let ?w = "newVersion vp ?st entries"
  have v: "v \<in> set (st_versions st)" "tv_transaction_id v = t" using currentVersion_in [OF cur] by simp_all
  have sup: "supersedesWith vp ?st v st2 entries" using a v vp by (simp add: supersedesWith_def)
  have chain: "nextInChain vp ?st" by (rule current_chain [of _ t v]) (simp_all add: cur vp)
  have vs: "st_versions st3 = st_versions st2" by (rule enforceBoundary_versions [OF g])
  have ts: "st_transactions st3 = st_transactions st2" using g by (auto simp: enforceBoundary_def result_simps)
  have places: "map place (recordPostings entries) = map place (recordPostings (tv_entries v))"
    by (rule copied_places [OF ok1 sup vp(5) core texts])
  show ?thesis
  proof (rule that [of ?w])
    show "descriptive ?w = specDescriptive (iv_Spec vp)" by (simp add: descriptive_def specDescriptive_def versionRowOf_def Let_def)
    show "0 < iv_TransactionDaySequence vp \<Longrightarrow> tv_day_sequence ?w = iv_TransactionDaySequence vp"
      by (simp add: versionRowOf_def Let_def transactionDaySeq_def)
    show "currentVersion st3 x = (if x = t then Some ?w else currentVersion st x)" for x
      using currentVersion_added [OF a chain, of x] reads_versions(2) [OF vs] vp(2) by simp
    show "priorVersion st3 x = (if x = t \<and> tv_status ?w \<noteq> ''voided'' then Some ?w else priorVersion st x)" for x
      using priorVersion_added [OF a chain, of x] reads_versions(3) [OF vs] vp(2) by simp
    show "st_transactions st3 = st_transactions st" by (simp add: ts versionAdded_frame [OF a])
  qed (simp_all add: vp places)
qed

lemma record_descriptive:
  "rc_VersionID r = tv_id v \<Longrightarrow> r = transactionVersionRecord st' row v \<Longrightarrow>
    specDescriptive (transactionSpecFromRecord (loadTransactionChildren st r)) = descriptive v"
  by (simp add: specDescriptive_def descriptive_def transactionSpecFromRecord_def loadTransactionChildren_def transactionVersionRecord_def)

lemma void_outcome:
  assumes ok: "storeOk st" and p: "prepareVoid now st input = Inr (Prepared params)" and w: "repo_VoidTransaction batch params st = Inr (st', r)"
  obtains v w where "currentVersion st (lp_TransactionID params) = Some v" "tv_status v = ''posted''" "tv_status w = ''voided''" "descriptive w = descriptive v"
    "tv_book_id w = tv_book_id v" "0 < tv_day_sequence v \<Longrightarrow> tv_day_sequence w = tv_day_sequence v"
    "map place (recordPostings (tv_entries w)) = map place (recordPostings (tv_entries v))"
    "\<And>x. currentVersion st' x = (if x = lp_TransactionID params then Some w else currentVersion st x)"
    "priorVersion st' (lp_TransactionID params) = Some v" "st_transactions st' = st_transactions st"
proof -
  from prepareVoid_posted [OF ok p] obtain v where v: "currentVersion st (lp_TransactionID params) = Some v" "lp_ExpectedVersionID params = tv_id v"
    "tv_status v = ''posted''" .
  define spec where "spec current = (transactionSpecFromRecord (loadTransactionChildren st current))\<lparr> ts_Status := ''voided'' \<rparr>" for current
  define vp where "vp current audit = lifecycleVersion params (loadTransactionChildren st current) (spec current)
    (rc_TransactionDaySequence (loadTransactionChildren st current)) audit" for current audit
  from w obtain current where t: "transactionByID st (lp_BookID params) (lp_TransactionID params) = Inr current"
    by (auto simp: repo_VoidTransaction_def result_simps)
  from transactionByID_Inr [OF t] v(1) obtain row where row: "row \<in> set (st_transactions st)" "tr_book_id row = lp_BookID params"
    "tr_id row = lp_TransactionID params" "current = transactionVersionRecord st row v" by auto
  have cv: "rc_VersionID current = tv_id v" "rc_Status current = tv_status v" "rc_VersionSeq current = tv_version_seq v"
    "rc_TransactionDaySequence (loadTransactionChildren st current) = tv_day_sequence v"
    by (simp_all add: row(4) transactionVersionRecord_def loadTransactionChildren_def)
  from w obtain st1 audit st2 rec ids where au: "insertAuditEvent (lifecycleAudit params) st = Inr (st1, audit)"
    and i: "insertTransactionVersion (vp current audit) st1 = Inr (st2, rec)" and g: "enforceBoundary batch (lifecycleBoundary params audit) st2 = Inr (st', ids)"
    unfolding repo_VoidTransaction_def Let_def spec_def vp_def using t cv(2) v(3) by (auto simp: result_simps)
  from insertAuditEvent_Inr [OF au] obtain A where A: "st1 = st\<lparr> st_audit := A \<rparr>" ..
  have vin: "v \<in> set (st_versions st)" using currentVersion_in [OF v(1)] by simp
  have book: "tv_book_id v = lp_BookID params" using rowOfVersion [OF ok row(1)] v(1) row(2,3) by simp
  have core: "map specCore (specPostings (ts_JournalEntries (spec current))) = map postingCore (recordPostings (tv_entries v))"
    using record_core [OF ok vin cv(1)] by (simp add: spec_def)
  have texts: "map (\<lambda>n. specText (snd n)) (specPostings (ts_JournalEntries (spec current))) = map (\<lambda>c. postingText (snd c)) (recordPostings (tv_entries v))"
    using record_texts [OF ok vin cv(1)] by (simp add: spec_def)
  have fields: "iv_BookID (vp current audit) = tv_book_id v" "iv_TransactionID (vp current audit) = lp_TransactionID params"
    "iv_VersionSeq (vp current audit) = tv_version_seq v + 1" "iv_SupersedesVersionID (vp current audit) = Some (tv_id v)"
    "iv_PostingSeqOverrides (vp current audit) = Map.empty" "iv_Spec (vp current audit) = spec current" "iv_TransactionDaySequence (vp current audit) = tv_day_sequence v"
    using cv by (simp_all add: vp_def lifecycleVersion_def book)
  have d: "specDescriptive (spec current) = descriptive v" "ts_Status (spec current) = ''voided''"
    using record_descriptive [OF cv(1) row(4), of st] by (simp_all add: spec_def specDescriptive_def)
  obtain w where w: "tv_status w = ts_Status (iv_Spec (vp current audit))" "descriptive w = specDescriptive (iv_Spec (vp current audit))" "tv_book_id w = tv_book_id v"
    "0 < iv_TransactionDaySequence (vp current audit) \<Longrightarrow> tv_day_sequence w = iv_TransactionDaySequence (vp current audit)"
    "map place (recordPostings (tv_entries w)) = map place (recordPostings (tv_entries v))"
    "\<And>x. currentVersion st' x = (if x = lp_TransactionID params then Some w else currentVersion st x)"
    "\<And>x. priorVersion st' x = (if x = lp_TransactionID params \<and> tv_status w \<noteq> ''voided'' then Some w else priorVersion st x)"
    "st_transactions st' = st_transactions st"
    using lifecycle_outcome [OF ok v(1) i [unfolded A] g fields(1-5) core [folded fields(6)] texts [folded fields(6)]] by blast
  show ?thesis
    by (rule that [OF v(1,3)]) (use w d prior_current [OF v(1)] v(3) in \<open>simp_all add: fields\<close>)
qed

lemma unvoid_outcome:
  assumes ok: "storeOk st" and w: "repo_UnvoidTransaction batch params st = Inr (st', r)" and cur: "currentVersion st (lp_TransactionID params) = Some v"
    and voided: "tv_status v = ''voided''" and prior: "priorVersion st (lp_TransactionID params) = Some u"
    and places: "map place (recordPostings (tv_entries v)) = map place (recordPostings (tv_entries u))"
  obtains w where "tv_status w = tv_status u" "descriptive w = descriptive u" "0 < tv_day_sequence u \<Longrightarrow> tv_day_sequence w = tv_day_sequence u"
    "map place (recordPostings (tv_entries w)) = map place (recordPostings (tv_entries u))"
    "\<And>x. currentVersion st' x = (if x = lp_TransactionID params then Some w else currentVersion st x)" "st_transactions st' = st_transactions st"
proof -
  define vp where "vp current found audit = lifecycleVersion params current (transactionSpecFromRecord (loadTransactionChildren st found))
    (rc_TransactionDaySequence (loadTransactionChildren st found)) audit" for current found audit
  from w obtain current where t: "transactionByID st (lp_BookID params) (lp_TransactionID params) = Inr current"
    by (auto simp: repo_UnvoidTransaction_def result_simps)
  from transactionByID_Inr [OF t] cur obtain row where row: "row \<in> set (st_transactions st)" "tr_book_id row = lp_BookID params"
    "tr_id row = lp_TransactionID params" "current = transactionVersionRecord st row v" by auto
  have cv: "rc_VersionID current = tv_id v" "rc_Status current = tv_status v" "rc_VersionSeq current = tv_version_seq v"
    by (simp_all add: row(4) transactionVersionRecord_def)
  from w obtain found st1 audit st2 rec ids where u: "transactionVersionByID st (tv_id u) = Inr found"
    and au: "insertAuditEvent (lifecycleAudit params) st = Inr (st1, audit)" and i: "insertTransactionVersion (vp current found audit) st1 = Inr (st2, rec)"
    and g: "enforceBoundary batch (lifecycleBoundary params audit) st2 = Inr (st', ids)"
    unfolding repo_UnvoidTransaction_def Let_def vp_def using t cv(2) voided prior by (auto simp: result_simps split: option.splits)
  from insertAuditEvent_Inr [OF au] obtain A where A: "st1 = st\<lparr> st_audit := A \<rparr>" ..
  have uin: "u \<in> set (st_versions st)" using lastBy_in [OF prior [unfolded priorVersion_def]] by (auto simp: versionsOf_def)
  have "find (\<lambda>x. tv_id x = tv_id u) (st_versions st) = Some u" by (rule find_distinct [OF storeOk_parts(2) [OF ok] uin])
  then obtain row' where fu: "found = transactionVersionRecord st row' u" using u by (auto simp: transactionVersionByID_def split: option.splits)
  then have fid: "rc_VersionID found = tv_id u" by (simp add: transactionVersionRecord_def)
  have book: "tv_book_id v = lp_BookID params" using rowOfVersion [OF ok row(1)] cur row(2,3) by simp
  let ?spec = "transactionSpecFromRecord (loadTransactionChildren st found)"
  have cores: "map postingCore (recordPostings (tv_entries u)) = map postingCore (recordPostings (tv_entries v))"
    using arg_cong [OF places, of "map fst"] by (simp add: o_def place_def)
  have said: "map (\<lambda>c. postingText (snd c)) (recordPostings (tv_entries u)) = map (\<lambda>c. postingText (snd c)) (recordPostings (tv_entries v))"
    using arg_cong [OF places, of "map (fst \<circ> snd)"] by (simp add: o_def place_def)
  have core: "map specCore (specPostings (ts_JournalEntries ?spec)) = map postingCore (recordPostings (tv_entries v))"
    using record_core [OF ok uin fid] cores by simp
  have texts: "map (\<lambda>n. specText (snd n)) (specPostings (ts_JournalEntries ?spec)) = map (\<lambda>c. postingText (snd c)) (recordPostings (tv_entries v))"
    using record_texts [OF ok uin fid] said by simp
  have fields: "iv_BookID (vp current found audit) = tv_book_id v" "iv_TransactionID (vp current found audit) = lp_TransactionID params"
    "iv_VersionSeq (vp current found audit) = tv_version_seq v + 1" "iv_SupersedesVersionID (vp current found audit) = Some (tv_id v)"
    "iv_PostingSeqOverrides (vp current found audit) = Map.empty" "iv_Spec (vp current found audit) = ?spec" "iv_TransactionDaySequence (vp current found audit) = tv_day_sequence u"
    using cv by (simp_all add: vp_def lifecycleVersion_def book fu transactionVersionRecord_def loadTransactionChildren_def)
  have d: "specDescriptive ?spec = descriptive u" "ts_Status ?spec = tv_status u"
    using record_descriptive [OF fid fu, of st] by (simp_all add: fu transactionVersionRecord_def)
  obtain w where w: "tv_status w = ts_Status (iv_Spec (vp current found audit))" "descriptive w = specDescriptive (iv_Spec (vp current found audit))"
    "tv_book_id w = tv_book_id v" "0 < iv_TransactionDaySequence (vp current found audit) \<Longrightarrow> tv_day_sequence w = iv_TransactionDaySequence (vp current found audit)"
    "map place (recordPostings (tv_entries w)) = map place (recordPostings (tv_entries v))"
    "\<And>x. currentVersion st' x = (if x = lp_TransactionID params then Some w else currentVersion st x)"
    "\<And>x. priorVersion st' x = (if x = lp_TransactionID params \<and> tv_status w \<noteq> ''voided'' then Some w else priorVersion st x)"
    "st_transactions st' = st_transactions st"
    using lifecycle_outcome [OF ok cur i [unfolded A] g fields(1-5) core [folded fields(6)] texts [folded fields(6)]] by blast
  show ?thesis by (rule that [of w]) (use w d places in \<open>simp_all add: fields\<close>)
qed

section \<open>Void and unvoid are each other's inverse\<close>

lemma prepareVoid_transaction: "prepareVoid now st input = Inr (Prepared params) \<Longrightarrow> lp_TransactionID params = li_TransactionID input"
  by (auto simp: prepareVoid_def planVoid_def lifecycleParams_def result_simps split: if_splits)

lemma prepareUnvoid_transaction: "prepareUnvoid now st input = Inr (Prepared params) \<Longrightarrow> lp_TransactionID params = li_TransactionID input"
  by (auto simp: prepareUnvoid_def lifecycleParams_def result_simps split: if_splits)

text \<open>
  C7. Voiding a posted transaction and unvoiding it gives back what was there. The version that is current in the end has the status, the
  descriptive fields, and posting by posting the account, commodity, day, amount, text, review state and place in the register of
  the version that was voided, and every balance at every boundary of every register is what it was. (The place of the transaction in its
  day's journal is given back too.)
\<close>

theorem void_unvoid_restores:
  assumes ok: "storeOk st" and p1: "prepareVoid now st input = Inr (Prepared params1)" and w1: "repo_VoidTransaction batch params1 st = Inr (st1, r1)"
    and p2: "prepareUnvoid now2 st1 input2 = Inr (Prepared params2)" and w2: "repo_UnvoidTransaction batch2 params2 st1 = Inr (st2, r2)"
    and same: "li_TransactionID input2 = li_TransactionID input"
  shows "\<exists>v w. currentVersion st (li_TransactionID input) = Some v \<and> currentVersion st2 (li_TransactionID input) = Some w \<and>
    tv_status w = tv_status v \<and> descriptive w = descriptive v \<and> (0 < tv_day_sequence v \<longrightarrow> tv_day_sequence w = tv_day_sequence v) \<and>
    map place (recordPostings (tv_entries w)) = map place (recordPostings (tv_entries v)) \<and> (\<forall>c. registerBalance st2 c = registerBalance st c)"
proof -
  let ?t = "li_TransactionID input"
  note t = prepareVoid_transaction [OF p1] prepareUnvoid_transaction [OF p2, unfolded same]
  from void_outcome [OF ok p1 w1, unfolded t] obtain v v1 where v: "currentVersion st ?t = Some v" "tv_status v1 = ''voided''"
    "map place (recordPostings (tv_entries v1)) = map place (recordPostings (tv_entries v))"
    "\<And>x. currentVersion st1 x = (if x = ?t then Some v1 else currentVersion st x)" "priorVersion st1 ?t = Some v" "st_transactions st1 = st_transactions st"
    by blast
  have ok1: "storeOk st1" using void_committed [OF ok ok subset_refl p1 w1] by blast
  have cur1: "currentVersion st1 (lp_TransactionID params2) = Some v1" "priorVersion st1 (lp_TransactionID params2) = Some v" using v(4,5) t(2) by simp_all
  obtain w where w: "tv_status w = tv_status v" "descriptive w = descriptive v" "0 < tv_day_sequence v \<Longrightarrow> tv_day_sequence w = tv_day_sequence v"
    "map place (recordPostings (tv_entries w)) = map place (recordPostings (tv_entries v))"
    "\<And>x. currentVersion st2 x = (if x = lp_TransactionID params2 then Some w else currentVersion st1 x)" "st_transactions st2 = st_transactions st1"
    using unvoid_outcome [OF ok1 w2 cur1(1) v(2) cur1(2) v(3)] by blast
  have cur2: "currentVersion st2 x = (if x = ?t then Some w else currentVersion st x)" for x using w(5) v(4) t(2) by simp
  have "registerBalance st2 c = registerBalance st c" for c
  proof -
    have "contribution c w = contribution c v" using rawSum_places [OF w(4)] w(1) by (simp add: contribution_rawSum)
    then have "ledgerShare st2 c x = ledgerShare st c x" for x using cur2 v(1) by (simp add: ledgerShare_def)
    then show ?thesis by (simp add: registerBalance_def w(6) v(6))
  qed
  then show ?thesis using v(1) w(1-4) cur2 by (intro exI [of _ v] exI [of _ w]) auto
qed

section \<open>Requests that complete\<close>

definition lifecycleReady :: "string \<Rightarrow> store \<Rightarrow> TransactionLifecycleInput \<Rightarrow> bool" where
  "lifecycleReady now st input \<longleftrightarrow> li_OwnerUserID input > 0 \<and> li_TransactionID input > 0 \<and>
     (case cleanChangeReason (li_ChangeReason input) [] of Inl _ \<Rightarrow> False | Inr reason \<Rightarrow> reason \<noteq> []) \<and> BookID \<in> set (st_books st) \<and>
     utcSecond (TrimSpace now) \<and> TrimSpace (li_OriginType input) \<in> set auditOriginTypes \<and> \<not> li_ReconciliationOverride input \<and>
     \<not> TransactionHasInvestmentLinks st (li_TransactionID input) \<and>
     (case (findTransaction st BookID (li_TransactionID input), currentVersion st (li_TransactionID input)) of
        (Some row, Some v) \<Rightarrow> tr_deleted_at row = None \<and> (li_ExpectedVersionID input \<le> 0 \<or> li_ExpectedVersionID input = tv_id v) \<and>
          list_all (\<lambda>cur. list_all (\<lambda>c. \<not> reaches BookID (recordCandidate cur) c) (st_checkpoints st)) (recordPostings (tv_entries v))
      | _ \<Rightarrow> False)"

lemma ready_parts:
  assumes ok: "storeOk st" and r: "lifecycleReady now st input"
  obtains row v reason where "findTransaction st BookID (li_TransactionID input) = Some row" "currentVersion st (li_TransactionID input) = Some v"
    "tr_deleted_at row = None" "row \<in> set (st_transactions st)" "tr_id row = li_TransactionID input" "0 < tv_id v" "tr_book_id row = BookID"
    "TransactionByIDIncludingDeleted st (li_TransactionID input) = Inr (loadTransactionChildren st (transactionVersionRecord st row v))"
    "transactionByID st BookID (li_TransactionID input) = Inr (transactionVersionRecord st row v)"
    "rc_JournalEntries (loadTransactionChildren st (transactionVersionRecord st row v)) = map (withTags st) (tv_entries v)"
    "cleanChangeReason (li_ChangeReason input) [] = Inr reason" "reason \<noteq> []" "rejectInvestmentLinkedMutation st (li_TransactionID input) = Inr ()"
    "requireReviewedVersion (li_ExpectedVersionID input) (tv_id v) = Inr ()"
    "rejectIfCheckpointAlreadyInTheWay st (periodScopedCandidatesFromRecord (tv_entries v)) (li_ReconciliationOverride input) = Inr ()"
    "\<And>bp. bp_BookID bp = BookID \<Longrightarrow> bp_Candidates bp = periodScopedCandidatesFromRecord (tv_entries v) \<Longrightarrow> unguarded bp st"
proof -
  from r obtain row v where f: "findTransaction st BookID (li_TransactionID input) = Some row" "currentVersion st (li_TransactionID input) = Some v"
    "tr_deleted_at row = None" "li_ExpectedVersionID input \<le> 0 \<or> li_ExpectedVersionID input = tv_id v"
    "\<forall>cur\<in>set (recordPostings (tv_entries v)). \<forall>c\<in>set (st_checkpoints st). \<not> reaches BookID (recordCandidate cur) c"
    by (auto simp: lifecycleReady_def list_all_iff split: option.splits)
  from r obtain reason where reason: "cleanChangeReason (li_ChangeReason input) [] = Inr reason" "reason \<noteq> []"
    by (auto simp: lifecycleReady_def split: sum.splits)
  have row: "row \<in> set (st_transactions st)" "tr_book_id row = BookID" "tr_id row = li_TransactionID input"
    using find_in [OF f(1) [unfolded findTransaction_def]] by simp_all
  have v: "v \<in> set (st_versions st)" using currentVersion_in [OF f(2)] by simp
  let ?h = "transactionVersionRecord st row v"
  have h: "transactionByID st BookID (li_TransactionID input) = Inr ?h" by (simp add: transactionByID_def f)
  have je: "rc_JournalEntries (loadTransactionChildren st ?h) = map (withTags st) (tv_entries v)"
    using journal_loaded [OF ok v] by (simp add: loadTransactionChildren_def transactionVersionRecord_def)
  have ug: "unguarded bp st" if "bp_BookID bp = BookID" "bp_Candidates bp = periodScopedCandidatesFromRecord (tv_entries v)" for bp
    using f(5) that by (auto simp: unguarded_def covered_def list_all_iff list_ex_iff periodScopedCandidatesFromRecord_def)
  have rej: "rejectIfCheckpointAlreadyInTheWay st (periodScopedCandidatesFromRecord (tv_entries v)) (li_ReconciliationOverride input) = Inr ()"
  proof -
    define bp where "bp = \<lparr> bp_BookID = BookID, bp_Candidates = periodScopedCandidatesFromRecord (tv_entries v), bp_ReconciliationOverride = False,
      bp_ReviewedCheckpointIDs = None, bp_ActorUserID = 0, bp_AuditEventID = 0, bp_OccurredAt = [], bp_Reason = [] \<rparr>"
    have "unguarded bp st" by (rule ug) (simp_all add: bp_def)
    then have "{c \<in> set (st_checkpoints st). covered bp c} = {}" by (auto simp: unguarded_def list_all_iff)
    then have "rf_CheckpointID ` set (periodScopedCheckpointInvalidationRefs (st_checkpoints st) (bp_BookID bp) (bp_Candidates bp)) = {}" unfolding refs_ids by simp
    then show ?thesis by (simp add: rejectIfCheckpointAlreadyInTheWay_def resolveCheckpointRefs_def bp_def)
  qed
  show ?thesis
    by (rule that [of row v reason])
      (use f row reason h je rej ug storeOk_parts(3) [OF ok v] r in \<open>auto simp: TransactionByIDIncludingDeleted_def result_simps rejectInvestmentLinkedMutation_def
        lifecycleReady_def requireReviewedVersion_def\<close>)
qed

lemma operations_accepted:
  "auditOperationFrom False False (TrimSpace ''transaction.void'')" "auditOperationFrom False False (TrimSpace ''transaction.unvoid'')"
  by (simp_all add: text_literal byteVal_def)

lemma lifecycle_accepted:
  assumes "lifecycleReady now st input" and "operation \<in> {''transaction.void'', ''transaction.unvoid''}"
  shows "auditAccepted (lifecycleAudit (lifecycleParams now input operation reason candidates k))"
  using assms operations_accepted by (auto simp: auditAccepted_def lifecycleAudit_def lifecycleParams_def lifecycleReady_def text_literal)

lemma prepareVoid_ready:
  assumes ok: "storeOk st" and r: "lifecycleReady now st input" and v: "currentVersion st (li_TransactionID input) = Some v" and posted: "tv_status v = ''posted''"
  shows "\<exists>reason. prepareVoid now st input = Inr (Prepared (lifecycleParams now input ''transaction.void'' reason
    (periodScopedCandidatesFromRecord (tv_entries v)) (tv_id v)))"
proof -
  obtain row v' reason where f: "currentVersion st (li_TransactionID input) = Some v'" "tr_deleted_at row = None"
    "TransactionByIDIncludingDeleted st (li_TransactionID input) = Inr (loadTransactionChildren st (transactionVersionRecord st row v'))"
    "rc_JournalEntries (loadTransactionChildren st (transactionVersionRecord st row v')) = map (withTags st) (tv_entries v')"
    "cleanChangeReason (li_ChangeReason input) [] = Inr reason" "reason \<noteq> []" "rejectInvestmentLinkedMutation st (li_TransactionID input) = Inr ()"
    "requireReviewedVersion (li_ExpectedVersionID input) (tv_id v') = Inr ()"
    "rejectIfCheckpointAlreadyInTheWay st (periodScopedCandidatesFromRecord (tv_entries v')) (li_ReconciliationOverride input) = Inr ()"
    by (rule ready_parts [OF ok r]) blast
  have vv: "v' = v" using f(1) v by simp
  let ?r = "loadTransactionChildren st (transactionVersionRecord st row v)"
  have flds: "rc_Status ?r = ''posted''" "rc_DeletedAt ?r = None" "rc_VersionID ?r = tv_id v"
    using f(2) posted by (simp_all add: loadTransactionChildren_def transactionVersionRecord_def)
  have "TransactionByID st (li_TransactionID input) = Inr ?r"
    using f(3) flds(2) by (simp add: TransactionByID_def result_simps vv)
  moreover have "li_OwnerUserID input > 0" "li_TransactionID input > 0" using r by (simp_all add: lifecycleReady_def)
  ultimately show ?thesis using f flds
    by (intro exI [of _ reason]) (simp add: prepareVoid_def planVoid_def result_simps vv candidates_withTags)
qed

lemma prepareUnvoid_ready:
  assumes ok: "storeOk st" and r: "lifecycleReady now st input" and v: "currentVersion st (li_TransactionID input) = Some v" and voided: "tv_status v = ''voided''"
  shows "\<exists>reason. prepareUnvoid now st input = Inr (Prepared (lifecycleParams now input ''transaction.unvoid'' reason
    (periodScopedCandidatesFromRecord (tv_entries v)) (tv_id v)))"
proof -
  obtain row v' reason where f: "currentVersion st (li_TransactionID input) = Some v'" "tr_deleted_at row = None"
    "TransactionByIDIncludingDeleted st (li_TransactionID input) = Inr (loadTransactionChildren st (transactionVersionRecord st row v'))"
    "rc_JournalEntries (loadTransactionChildren st (transactionVersionRecord st row v')) = map (withTags st) (tv_entries v')"
    "cleanChangeReason (li_ChangeReason input) [] = Inr reason" "reason \<noteq> []" "rejectInvestmentLinkedMutation st (li_TransactionID input) = Inr ()"
    "requireReviewedVersion (li_ExpectedVersionID input) (tv_id v') = Inr ()"
    "rejectIfCheckpointAlreadyInTheWay st (periodScopedCandidatesFromRecord (tv_entries v')) (li_ReconciliationOverride input) = Inr ()"
    by (rule ready_parts [OF ok r]) blast
  have vv: "v' = v" using f(1) v by simp
  let ?r = "loadTransactionChildren st (transactionVersionRecord st row v)"
  have flds: "rc_Status ?r = ''voided''" "rc_DeletedAt ?r = None" "rc_VersionID ?r = tv_id v"
    using f(2) voided by (simp_all add: loadTransactionChildren_def transactionVersionRecord_def)
  have t: "t_DeletedAt (toTransaction ?r) = []" "t_Status (toTransaction ?r) = ''voided''" "t_VersionID (toTransaction ?r) = tv_id v"
    "periodScopedCandidatesFromTransaction (toTransaction ?r) = periodScopedCandidatesFromRecord (tv_entries v)"
    using flds f(4) by (simp_all add: candidates_toTransaction candidates_withTags vv) (simp_all add: toTransaction_def orEmpty_def)
  have "li_OwnerUserID input > 0" "li_TransactionID input > 0" using r by (simp_all add: lifecycleReady_def)
  then show ?thesis using f flds t
    by (intro exI [of _ reason]) (simp add: prepareUnvoid_def prepareLifecycleChange_def planUnvoid_def result_simps vv)
qed

lemma repo_books: "lifecycleReady now st input \<Longrightarrow> readBookForUpdate st BookID = Inr BookID"
  by (simp add: lifecycleReady_def readBookForUpdate_def)

lemma core_scales:
  assumes "storeOk st" and "v \<in> set (st_versions st)" and "map specCore (specPostings es) = map postingCore (recordPostings (tv_entries v))"
  shows "\<forall>nxt\<in>set (specPostings es). storedScale (ps_QuantityScale (snd nxt))"
proof
  fix nxt assume "nxt \<in> set (specPostings es)"
  then have "specCore nxt \<in> set (map postingCore (recordPostings (tv_entries v)))" unfolding assms(3) [symmetric] by simp
  then obtain cur where "cur \<in> set (recordPostings (tv_entries v))" "specCore nxt = postingCore cur" by auto
  then show "storedScale (ps_QuantityScale (snd nxt))"
    using storeOk_parts(4) [OF assms(1,2)] by (simp add: journalOk_def specCore_def postingCore_def)
qed

text \<open>The commit of a copied version when no checkpoint is in the way.\<close>

lemma copy_commits:
  assumes ok: "storeOk st" and aud: "auditAccepted p" and row: "row \<in> set (st_transactions st)" "tr_id row = t"
    and vp: "\<And>a. iv_TransactionID (vp a) = t" "\<And>a. \<not> iv_ReplaceTags (vp a)"
    and v: "v \<in> set (st_versions st)" "\<And>a. map specCore (specPostings (ts_JournalEntries (iv_Spec (vp a)))) = map postingCore (recordPostings (tv_entries v))"
    and bp: "\<And>a. unguarded (bp a) st" "\<And>a. \<not> bp_ReconciliationOverride (bp a)"
  obtains A a st2 rec where "insertAuditEvent p st = Inr (st\<lparr> st_audit := A \<rparr>, a)" "insertTransactionVersion (vp a) (st\<lparr> st_audit := A \<rparr>) = Inr (st2, rec)"
    "enforceBoundary batch (bp a) st2 = Inr (st2, [])"
proof -
  from audit_accepted [OF aud] obtain A a where A: "insertAuditEvent p st = Inr (st\<lparr> st_audit := A \<rparr>, a)" by blast
  let ?st = "st\<lparr> st_audit := A \<rparr>"
  obtain st2 rec where i: "insertTransactionVersion (vp a) ?st = Inr (st2, rec)"
    using insertTransactionVersion_total [of "vp a" ?st] vp row core_scales [OF ok v(1) v(2) [of a]] by auto
  from insertTransactionVersion_Inr [OF i] obtain entries where a: "versionAdded (vp a) ?st st2 entries" .
  have "st_checkpoints st2 = st_checkpoints st" by (simp add: versionAdded_frame [OF a])
  then have "enforceBoundary batch (bp a) st2 = Inr (st2, [])"
    using storeOk_parts(7) [OF ok] bp by (intro unguarded_passes) (simp_all add: unguarded_def)
  then show ?thesis by (rule that [OF A i])
qed

lemma repo_void_ready:
  assumes ok: "storeOk st" and r: "lifecycleReady now st input" and v: "currentVersion st (li_TransactionID input) = Some v" and posted: "tv_status v = ''posted''"
    and params: "params = lifecycleParams now input ''transaction.void'' reason (periodScopedCandidatesFromRecord (tv_entries v)) (tv_id v)"
  shows "\<exists>st' rec. repo_VoidTransaction batch params st = Inr (st', rec)"
proof -
  obtain row v' where f: "findTransaction st BookID (li_TransactionID input) = Some row" "currentVersion st (li_TransactionID input) = Some v'" "tr_deleted_at row = None"
    "row \<in> set (st_transactions st)" "tr_id row = li_TransactionID input" "0 < tv_id v'"
    "transactionByID st BookID (li_TransactionID input) = Inr (transactionVersionRecord st row v')"
    "\<And>bp. bp_BookID bp = BookID \<Longrightarrow> bp_Candidates bp = periodScopedCandidatesFromRecord (tv_entries v') \<Longrightarrow> unguarded bp st"
    by (rule ready_parts [OF ok r]) blast
  have vv: "v' = v" using f(2) v by simp
  let ?h = "transactionVersionRecord st row v" let ?l = "loadTransactionChildren st ?h"
  have flds: "rc_Status ?h = ''posted''" "rc_DeletedAt ?h = None" "rc_VersionID ?h = tv_id v" using f(3) posted by (simp_all add: transactionVersionRecord_def)
  have p: "lp_BookID params = BookID" "lp_TransactionID params = li_TransactionID input" "lp_ExpectedVersionID params = tv_id v"
    "lp_CheckpointCandidates params = periodScopedCandidatesFromRecord (tv_entries v)" "\<not> lp_ReconciliationOverride params"
    using r by (simp_all add: params lifecycleParams_def lifecycleReady_def)
  have ex: "requireExpectedVersionTx (tv_id v) ?h = Inr ()" using f(6) flds(3) vv by (simp add: requireExpectedVersionTx_def)
  have aud: "auditAccepted (lifecycleAudit params)" unfolding params by (rule lifecycle_accepted [OF r]) simp
  define vp where "vp a = lifecycleVersion params ?l ((transactionSpecFromRecord ?l)\<lparr> ts_Status := ''voided'' \<rparr>) (rc_TransactionDaySequence ?l) a" for a
  obtain A a st2 rec where "insertAuditEvent (lifecycleAudit params) st = Inr (st\<lparr> st_audit := A \<rparr>, a)"
    "insertTransactionVersion (vp a) (st\<lparr> st_audit := A \<rparr>) = Inr (st2, rec)" "enforceBoundary batch (lifecycleBoundary params a) st2 = Inr (st2, [])"
  proof (rule copy_commits [OF ok aud f(4,5), where vp = vp and v = v and bp = "lifecycleBoundary params" and batch = batch])
    show "unguarded (lifecycleBoundary params a) st" for a by (rule f(8)) (simp_all add: lifecycleBoundary_def p vv)
    show vin: "v \<in> set (st_versions st)" using currentVersion_in [OF v] ..
    show "map specCore (specPostings (ts_JournalEntries (iv_Spec (vp a)))) = map postingCore (recordPostings (tv_entries v))" for a
      using record_core [OF ok vin flds(3)] by (simp add: vp_def lifecycleVersion_def)
  qed (simp_all add: vp_def lifecycleVersion_def lifecycleBoundary_def p)
  then show ?thesis using repo_books [OF r] f(7) flds ex
    by (simp add: repo_VoidTransaction_def Let_def result_simps p vp_def vv)
qed

lemma repo_unvoid_ready:
  assumes ok: "storeOk st" and r: "lifecycleReady now st input" and v: "currentVersion st (li_TransactionID input) = Some v" and voided: "tv_status v = ''voided''"
    and prior: "priorVersion st (li_TransactionID input) = Some u"
    and params: "params = lifecycleParams now input ''transaction.unvoid'' reason (periodScopedCandidatesFromRecord (tv_entries v)) (tv_id v)"
  shows "\<exists>st' rec. repo_UnvoidTransaction batch params st = Inr (st', rec)"
proof -
  obtain row v' where f: "findTransaction st BookID (li_TransactionID input) = Some row" "currentVersion st (li_TransactionID input) = Some v'" "tr_deleted_at row = None"
    "row \<in> set (st_transactions st)" "tr_id row = li_TransactionID input" "0 < tv_id v'"
    "transactionByID st BookID (li_TransactionID input) = Inr (transactionVersionRecord st row v')"
    "\<And>bp. bp_BookID bp = BookID \<Longrightarrow> bp_Candidates bp = periodScopedCandidatesFromRecord (tv_entries v') \<Longrightarrow> unguarded bp st"
    by (rule ready_parts [OF ok r]) blast
  have vv: "v' = v" using f(2) v by simp
  let ?h = "transactionVersionRecord st row v"
  have flds: "rc_Status ?h = ''voided''" "rc_DeletedAt ?h = None" "rc_VersionID ?h = tv_id v" using f(3) voided by (simp_all add: transactionVersionRecord_def)
  have p: "lp_BookID params = BookID" "lp_TransactionID params = li_TransactionID input" "lp_ExpectedVersionID params = tv_id v"
    "lp_CheckpointCandidates params = periodScopedCandidatesFromRecord (tv_entries v)" "\<not> lp_ReconciliationOverride params"
    using r by (simp_all add: params lifecycleParams_def lifecycleReady_def)
  have ex: "requireExpectedVersionTx (tv_id v) ?h = Inr ()" using f(6) flds(3) vv by (simp add: requireExpectedVersionTx_def)
  have aud: "auditAccepted (lifecycleAudit params)" unfolding params by (rule lifecycle_accepted [OF r]) simp
  have uin: "u \<in> set (st_versions st)" using lastBy_in [OF prior [unfolded priorVersion_def]] by (auto simp: versionsOf_def)
  obtain row' where "find (\<lambda>t. tr_id t = tv_transaction_id u) (st_transactions st) = Some row'"
    using storeOk_parts(9) [OF ok uin] find_exists by fastforce
  then obtain found where found: "transactionVersionByID st (tv_id u) = Inr found"
    using find_distinct [OF storeOk_parts(2) [OF ok] uin] by (simp add: transactionVersionByID_def)
  define prior where "prior = loadTransactionChildren st found"
  define vp where "vp a = lifecycleVersion params ?h (transactionSpecFromRecord prior) (rc_TransactionDaySequence prior) a" for a
  obtain A a st2 rec where "insertAuditEvent (lifecycleAudit params) st = Inr (st\<lparr> st_audit := A \<rparr>, a)"
    "insertTransactionVersion (vp a) (st\<lparr> st_audit := A \<rparr>) = Inr (st2, rec)" "enforceBoundary batch (lifecycleBoundary params a) st2 = Inr (st2, [])"
  proof (rule copy_commits [OF ok aud f(4,5), where vp = vp and v = u and bp = "lifecycleBoundary params" and batch = batch])
    show "unguarded (lifecycleBoundary params a) st" for a by (rule f(8)) (simp_all add: lifecycleBoundary_def p vv)
    show "u \<in> set (st_versions st)" by (rule uin)
    have "rc_VersionID found = tv_id u" using found find_distinct [OF storeOk_parts(2) [OF ok] uin]
      by (auto simp: transactionVersionByID_def transactionVersionRecord_def split: option.splits)
    then show "map specCore (specPostings (ts_JournalEntries (iv_Spec (vp a)))) = map postingCore (recordPostings (tv_entries u))" for a
      using record_core [OF ok uin, of found] by (simp add: vp_def lifecycleVersion_def prior_def)
  qed (simp_all add: vp_def lifecycleVersion_def lifecycleBoundary_def p)
  then show ?thesis using repo_books [OF r] f(7) flds ex found assms(5)
    by (simp add: repo_UnvoidTransaction_def Let_def result_simps p vp_def prior_def vv)
qed

lemma void_frame:
  assumes "repo_VoidTransaction batch params st = Inr (st', r)"
  shows "st_books st' = st_books st" "st_lot_sources st' = st_lot_sources st" "st_lot_events st' = st_lot_events st" "st_transactions st' = st_transactions st"
    "\<not> lp_ReconciliationOverride params \<Longrightarrow> tableOk (st_checkpoints st) \<Longrightarrow> st_checkpoints st' = st_checkpoints st"
proof -
  have *: "st_books s' = st_books s \<and> st_lot_sources s' = st_lot_sources s \<and> st_lot_events s' = st_lot_events s \<and> st_transactions s' = st_transactions s \<and>
    st_checkpoints s' = st_checkpoints s" if "insertTransactionVersion vp s = Inr (s', rec)" for vp s s' rec
    by (rule insertTransactionVersion_Inr [OF that]) (auto simp: versionAdded_def)
  have g: "st_books s' = st_books s \<and> st_lot_sources s' = st_lot_sources s \<and> st_lot_events s' = st_lot_events s \<and> st_transactions s' = st_transactions s \<and>
    (\<not> bp_ReconciliationOverride bp \<longrightarrow> tableOk (st_checkpoints s) \<longrightarrow> st_checkpoints s' = st_checkpoints s)" if e: "enforceBoundary batch bp s = Inr (s', ids)" for bp s s' ids
  proof -
    from e obtain table where t: "enforceCheckpointBoundaryTx batch bp (st_checkpoints s) = Inr (table, ids)" "s' = s\<lparr> st_checkpoints := table \<rparr>"
      by (auto simp: enforceBoundary_def result_simps)
    have "table = st_checkpoints s" if "\<not> bp_ReconciliationOverride bp" "tableOk (st_checkpoints s)"
    proof -
      have "guardPasses batch bp (st_checkpoints s)" using enforce_eq [OF that(2), of batch bp] t(1) by (auto split: if_splits)
      then have "\<forall>c\<in>set (st_checkpoints s). \<not> covered bp c" using that(1) by (auto simp: guardPasses_def coveredIDs_def)
      then show ?thesis using enforce_Inr(1) [OF that(2) t(1)] by (simp add: map_idI)
    qed
    then show ?thesis by (simp add: t(2))
  qed
  have "st' = st \<or> (\<exists>st1 audit vp st2 rec ids. insertAuditEvent (lifecycleAudit params) st = Inr (st1, audit) \<and> insertTransactionVersion vp st1 = Inr (st2, rec) \<and>
      enforceBoundary batch (lifecycleBoundary params audit) st2 = Inr (st', ids))"
    using assms unfolding repo_VoidTransaction_def Let_def by (auto simp: result_simps split: if_splits) blast
  then have "st_books st' = st_books st \<and> st_lot_sources st' = st_lot_sources st \<and> st_lot_events st' = st_lot_events st \<and> st_transactions st' = st_transactions st \<and>
    (\<not> lp_ReconciliationOverride params \<longrightarrow> tableOk (st_checkpoints st) \<longrightarrow> st_checkpoints st' = st_checkpoints st)"
  proof (elim disjE exE conjE)
    fix st1 audit vp st2 rec ids
    assume au: "insertAuditEvent (lifecycleAudit params) st = Inr (st1, audit)" and i: "insertTransactionVersion vp st1 = Inr (st2, rec)"
      and e: "enforceBoundary batch (lifecycleBoundary params audit) st2 = Inr (st', ids)"
    from insertAuditEvent_Inr [OF au] obtain A where A: "st1 = st\<lparr> st_audit := A \<rparr>" ..
    show ?thesis using * [OF i] g [OF e] by (simp add: A lifecycleBoundary_def)
  qed simp
  then show "st_books st' = st_books st" "st_lot_sources st' = st_lot_sources st" "st_lot_events st' = st_lot_events st" "st_transactions st' = st_transactions st"
    "\<not> lp_ReconciliationOverride params \<Longrightarrow> tableOk (st_checkpoints st) \<Longrightarrow> st_checkpoints st' = st_checkpoints st" by simp_all
qed


section \<open>Examples\<close>

text \<open>
  A small ledger: on one day two transactions between account 1 and others, the first of 50.00 and closed by a checkpoint of account
  1 at its place, the second of 10.00 and open.
\<close>

definition exampleDay :: string where "exampleDay = ''2026-06-01''"

definition examplePosting :: "int \<Rightarrow> int \<Rightarrow> string \<Rightarrow> int \<Rightarrow> int \<Rightarrow> int \<Rightarrow> int \<Rightarrow> PostingRecord" where
  "examplePosting row version key account n commodity amount = \<lparr> pr_ID = row, pr_BookID = BookID, pr_TransactionVersionID = version, pr_JournalEntryID = version,
     pr_PostingLineID = row, pr_LineKey = key, pr_LineSeq = 1, pr_AccountID = account, pr_AccountDaySequence = n,
     pr_QuantityValue = New amount, pr_QuantityScale = 2, pr_CommodityID = commodity, pr_Memo = [], pr_ReconciliationStatus = ''uncleared'',
     pr_ClearedOn = None, pr_MetadataJSON = [], pr_TagIDs = [] \<rparr>"

definition exampleVersion :: "int \<Rightarrow> int \<Rightarrow> string \<Rightarrow> PostingRecord list \<Rightarrow> versionRow" where
  "exampleVersion version n status postings = \<lparr> tv_id = version, tv_book_id = BookID, tv_transaction_id = version, tv_version_seq = 1, tv_supersedes = None,
     tv_status = status, tv_kind = ''transfer'', tv_date = exampleDay, tv_day_sequence = n, tv_payee_id = None, tv_payee_name = None,
     tv_description = [], tv_external_ref_hint = None, tv_note_markdown = [], tv_metadata_json = [], tv_needs_review = False,
     tv_recorded_at = [], tv_changed_by = 1, tv_change_reason = [], tv_change_audit = 1,
     tv_entries = [\<lparr> er_ID = version, er_BookID = BookID, er_TransactionVersionID = version, er_EntrySeq = 1, er_EntryDate = exampleDay,
       er_EntryKind = ''transfer_leg'', er_Memo = [], er_MetadataJSON = [], er_ConversionSide = None, er_FeePaidBy = None, er_Postings = postings \<rparr>] \<rparr>"

definition exampleRow :: "int \<Rightarrow> transactionRow" where
  "exampleRow t = \<lparr> tr_id = t, tr_book_id = BookID, tr_correction_of = None, tr_created_at = [], tr_created_by = 1,
     tr_created_request = None, tr_created_audit = 1, tr_deleted_at = None, tr_deleted_by = None, tr_deleted_audit = None, tr_delete_reason = None \<rparr>"

definition exampleLine :: "int \<Rightarrow> int \<Rightarrow> string \<Rightarrow> lineRow" where
  "exampleLine l t key = \<lparr> pl_id = l, pl_book_id = BookID, pl_transaction_id = t, pl_line_key = key, pl_created_at = [],
     pl_created_by = 1, pl_created_request = None, pl_created_audit = 1 \<rparr>"

definition exampleCheckpoint :: "int \<Rightarrow> int \<Rightarrow> int \<Rightarrow> string \<Rightarrow> int \<Rightarrow> int \<Rightarrow> checkpointRow" where
  "exampleCheckpoint k account commodity date n amount = \<lparr> ck_id = k, ck_book_id = BookID, ck_account_id = account, ck_commodity_id = commodity, ck_session_id = None,
     ck_previous_checkpoint_id = None, ck_status = ''active'', ck_statement_date = date, ck_statement_account_sequence = n,
     ck_statement_balance_value = New amount, ck_statement_balance_scale = 2, ck_created_at = [], ck_created_by_user_id = 1,
     ck_created_audit_event_id = None, ck_invalidated = None, ck_voided = None \<rparr>"

definition januaryTables :: bookTables where
  "januaryTables = env_tables transferEnv"

definition smallLedger :: store where
  "smallLedger = \<lparr> st_books = [BookID], st_reference = januaryTables, st_transactions = [exampleRow 1, exampleRow 2],
     st_versions = [exampleVersion 1 1 ''posted'' [examplePosting 1 1 ''a'' 1 1 7 5000, examplePosting 2 1 ''b'' 2 1 7 (- 5000)],
       exampleVersion 2 2 ''posted'' [examplePosting 3 2 ''a'' 1 2 7 1000, examplePosting 4 2 ''b'' 3 1 7 (- 1000)]],
     st_lines = [exampleLine 1 1 ''a'', exampleLine 2 1 ''b'', exampleLine 3 2 ''a'', exampleLine 4 2 ''b''],
     st_transaction_tags = [], st_posting_tags = [], st_checkpoints = [exampleCheckpoint 1 1 7 exampleDay 1 5000],
     st_audit = [], st_deletions = [], st_occurrences = [], st_operation_links = [], st_lot_sources = [], st_lot_events = [] \<rparr>"

definition exampleRequest :: TransactionLifecycleInput where
  "exampleRequest = \<lparr> li_OwnerUserID = 1, li_AuthSessionID = 0, li_RequestID = [], li_OriginType = ''browser_api'', li_TransactionID = 2,
     li_ChangeReason = ''duplicate'', li_ReconciliationOverride = False, li_ReconciliationOverrideCheckpointIDs = None, li_ExpectedVersionID = 0 \<rparr>"

definition exampleNow :: string where "exampleNow = ''2026-06-03T10:00:00Z''"

lemmas example_rows = exampleRow_def exampleLine_def exampleCheckpoint_def exampleVersion_def examplePosting_def

lemmas evalStore = storeOk_def storedScale_def storedPostings_def journalOk_def voidOk_def boundaryOk_def tableOk_def recordPostings_def postingKey'_def lineAt_def transactionStatuses_def
  currentVersion_def priorVersion_def versionsOf_def versionOrder_def

lemma smallLedger_ok: "storeOk smallLedger"
  unfolding evalStore by (simp add: smallLedger_def example_rows)

lemma smallLedger_current: "currentVersion smallLedger 2 = Some (exampleVersion 2 2 ''posted'' [examplePosting 3 2 ''a'' 1 2 7 1000, examplePosting 4 2 ''b'' 3 1 7 (- 1000)])"
  unfolding evalStore by (simp add: smallLedger_def example_rows)

lemma parses_literal:
  assumes "validDate y m d" and "0 \<le> y" and "y \<le> 9999" and "v = padNat 4 (nat y) @ ''-'' @ padNat 2 (nat m) @ ''-'' @ padNat 2 (nat d)"
  shows "\<exists>t. parseDateOnly v = Some t"
  using cleanRequiredDate_literal(1) [OF assms, of "[]"] by (auto simp: cleanRequiredDate_def Let_def split: option.splits if_splits)

lemma example_time: "utcSecond (TrimSpace exampleNow)"
proof -
  have "\<exists>t. parseDateOnly ''2026-06-03'' = Some t" by (rule parses_literal [of 2026 6 3]) (simp_all add: date_literal)
  then show ?thesis by (auto simp: exampleNow_def text_literal utcSecond_def twoDigits_def below_def byteVal_def)
qed

lemma example_reason: "cleanChangeReason ''duplicate'' [] = Inr ''duplicate''"
  by (simp add: cleanChangeReason_def changeReasonMaxBytes_def text_literal byteVal_def)

lemma smallLedger_parts [simp]:
  "findTransaction smallLedger BookID 2 = Some (exampleRow 2)" "st_books smallLedger = [BookID]" "st_lot_sources smallLedger = []" "st_lot_events smallLedger = []"
  "st_checkpoints smallLedger = [exampleCheckpoint 1 1 7 exampleDay 1 5000]"
  by (simp_all add: smallLedger_def findTransaction_def exampleRow_def)

lemma example_ready: "lifecycleReady exampleNow smallLedger exampleRequest"
  unfolding lifecycleReady_def
  using example_time example_reason smallLedger_current
  by (simp add: exampleRequest_def auditOriginTypes_def TransactionHasInvestmentLinks_def text_literal)
    (simp add: example_rows recordPostings_def recordCandidate_def reaches_def)


lemma ready_after_void:
  assumes ok: "storeOk st" and r: "lifecycleReady now st input" and new: "li_ExpectedVersionID input \<le> 0"
    and p: "prepareVoid now st input = Inr (Prepared params)" and w: "repo_VoidTransaction batch params st = Inr (st1, rec)"
  shows "lifecycleReady now st1 input"
proof -
  note t = prepareVoid_transaction [OF p]
  from void_outcome [OF ok p w, unfolded t] obtain v w1 where v: "currentVersion st (li_TransactionID input) = Some v" "descriptive w1 = descriptive v"
    "tv_book_id w1 = tv_book_id v" "map place (recordPostings (tv_entries w1)) = map place (recordPostings (tv_entries v))"
    "\<And>x. currentVersion st1 x = (if x = li_TransactionID input then Some w1 else currentVersion st x)" by blast
  have "\<not> lp_ReconciliationOverride params"
    using p r by (auto simp: prepareVoid_def planVoid_def lifecycleParams_def result_simps lifecycleReady_def split: if_splits)
  note f = void_frame(1-4) [OF w] void_frame(5) [OF w this storeOk_parts(7) [OF ok]]
  define cand where "cand = (\<lambda>(c :: string \<times> string \<times> int \<times> int \<times> Coefficient \<times> int, x :: string \<times> string \<times> string option \<times> string, n).
    \<lparr> cd_AccountID = fst (snd (snd c)), cd_CommodityID = fst (snd (snd (snd c))), cd_EntryDate = fst c, cd_AccountDaySequence = n \<rparr>)"
  have "recordCandidate = (\<lambda>cur. cand (place cur))" by (rule ext) (simp add: recordCandidate_def cand_def place_def postingCore_def)
  then have "map recordCandidate (recordPostings (tv_entries w1)) = map recordCandidate (recordPostings (tv_entries v))"
    using arg_cong [OF v(4), of "map cand"] by (simp add: comp_def)
  then have "recordCandidate ` set (recordPostings (tv_entries w1)) = recordCandidate ` set (recordPostings (tv_entries v))" by (metis list.set_map)
  then have "list_all (\<lambda>cur. list_all (\<lambda>c. \<not> reaches BookID (recordCandidate cur) c) (st_checkpoints st)) (recordPostings (tv_entries w1)) =
      list_all (\<lambda>cur. list_all (\<lambda>c. \<not> reaches BookID (recordCandidate cur) c) (st_checkpoints st)) (recordPostings (tv_entries v))"
    unfolding list_all_iff by (metis (no_types, lifting) imageE image_eqI)
  moreover have "tv_kind w1 = tv_kind v" using v(2) by (simp add: descriptive_def)
  ultimately show ?thesis using r new v(1,3,5)
    by (simp add: lifecycleReady_def f findTransaction_def TransactionHasInvestmentLinks_def split: option.splits)
qed

theorem void_unvoid_restores_witness:
  "\<exists>params1 st1 r1 params2 st2 r2 w. prepareVoid exampleNow smallLedger exampleRequest = Inr (Prepared params1) \<and>
    repo_VoidTransaction False params1 smallLedger = Inr (st1, r1) \<and> prepareUnvoid exampleNow st1 exampleRequest = Inr (Prepared params2) \<and>
    repo_UnvoidTransaction False params2 st1 = Inr (st2, r2) \<and> currentVersion st2 2 = Some w \<and> tv_status w = ''posted'' \<and>
    registerBalance st2 (exampleCheckpoint 1 1 7 exampleDay 2 6000) = registerBalance smallLedger (exampleCheckpoint 1 1 7 exampleDay 2 6000)"
proof -
  have e: "li_TransactionID exampleRequest = 2" "li_ExpectedVersionID exampleRequest \<le> 0" by (simp_all add: exampleRequest_def)
  let ?v = "exampleVersion 2 2 ''posted'' [examplePosting 3 2 ''a'' 1 2 7 1000, examplePosting 4 2 ''b'' 3 1 7 (- 1000)]"
  have v: "currentVersion smallLedger (li_TransactionID exampleRequest) = Some ?v" "tv_status ?v = ''posted''"
    using smallLedger_current by (simp_all add: e exampleVersion_def)
  from prepareVoid_ready [OF smallLedger_ok example_ready v] obtain reason where p1: "prepareVoid exampleNow smallLedger exampleRequest =
    Inr (Prepared (lifecycleParams exampleNow exampleRequest ''transaction.void'' reason (periodScopedCandidatesFromRecord (tv_entries ?v)) (tv_id ?v)))" ..
  from repo_void_ready [OF smallLedger_ok example_ready v refl] obtain st1 r1 where w1: "repo_VoidTransaction False
    (lifecycleParams exampleNow exampleRequest ''transaction.void'' reason (periodScopedCandidatesFromRecord (tv_entries ?v)) (tv_id ?v)) smallLedger = Inr (st1, r1)" by blast
  note t = prepareVoid_transaction [OF p1]
  from void_outcome [OF smallLedger_ok p1 w1, unfolded t] obtain v0 v1 where v1: "tv_status v1 = ''voided''"
    "\<And>x. currentVersion st1 x = (if x = li_TransactionID exampleRequest then Some v1 else currentVersion smallLedger x)"
    "priorVersion st1 (li_TransactionID exampleRequest) = Some v0" "currentVersion smallLedger (li_TransactionID exampleRequest) = Some v0" by blast
  have cur1: "currentVersion st1 (li_TransactionID exampleRequest) = Some v1" "priorVersion st1 (li_TransactionID exampleRequest) = Some ?v"
    using v1 v(1) by simp_all
  have ok1: "storeOk st1" using void_committed [OF smallLedger_ok smallLedger_ok subset_refl p1 w1] by blast
  have r1: "lifecycleReady exampleNow st1 exampleRequest" by (rule ready_after_void [OF smallLedger_ok example_ready e(2) p1 w1])
  from prepareUnvoid_ready [OF ok1 r1 cur1(1) v1(1)] obtain reason2 where p2: "prepareUnvoid exampleNow st1 exampleRequest =
    Inr (Prepared (lifecycleParams exampleNow exampleRequest ''transaction.unvoid'' reason2 (periodScopedCandidatesFromRecord (tv_entries v1)) (tv_id v1)))" ..
  from repo_unvoid_ready [OF ok1 r1 cur1(1) v1(1) cur1(2) refl] obtain st2 r2 where w2: "repo_UnvoidTransaction False
    (lifecycleParams exampleNow exampleRequest ''transaction.unvoid'' reason2 (periodScopedCandidatesFromRecord (tv_entries v1)) (tv_id v1)) st1 = Inr (st2, r2)" by blast
  from void_unvoid_restores [OF smallLedger_ok p1 w1 p2 w2 refl] v(1,2) obtain w where "currentVersion st2 2 = Some w" "tv_status w = ''posted''"
    "\<And>c. registerBalance st2 c = registerBalance smallLedger c" by (auto simp: e)
  then show ?thesis using p1 w1 p2 w2 by blast
qed

end
