(* ===== verification/History.thy ===== *)
theory History
  imports Progress
begin

text \<open>
  Histories of the ledger. A request to change a transaction is prepared against the store it reads and committed to the
  store as it is by then; any number of other requests may commit in between. A history is any such interleaving, from a
  store that satisfies the invariant. The theorems say what every history keeps: the invariant, the life of every transaction, the
  versions once written, the balance of every checkpoint that is still active, and that a write prepared against a version that
  has been superseded since is refused.
\<close>

section \<open>Writes and histories\<close>

inductive committedWrite :: "ledgerEnv \<Rightarrow> store \<Rightarrow> store \<Rightarrow> store \<Rightarrow> bool" for env :: ledgerEnv and st0 st :: store where
  create: "prepareCreate env now st0 input = Inr params \<Longrightarrow> ts_InvestmentOperationKind (ct_Spec params) = [] \<Longrightarrow>
    repo_CreateTransaction investment None batch params st = Inr (st', r) \<Longrightarrow> committedWrite env st0 st st'"
| update: "prepareUpdate env now st0 input = Inr params \<Longrightarrow> repo_UpdateTransaction batch params st = Inr (st', r) \<Longrightarrow>
    (case currentVersion st (up_TransactionID params) of None \<Rightarrow> True | Some v \<Rightarrow> commodityKept (tv_entries v) (up_Spec params)) \<Longrightarrow> committedWrite env st0 st st'"
| void: "prepareVoid now st0 input = Inr (Prepared params) \<Longrightarrow> repo_VoidTransaction batch params st = Inr (st', r) \<Longrightarrow> committedWrite env st0 st st'"
| unvoid: "prepareUnvoid now st0 input = Inr (Prepared params) \<Longrightarrow> repo_UnvoidTransaction batch params st = Inr (st', r) \<Longrightarrow> committedWrite env st0 st st'"
| delete: "prepareSetDeleted now st0 input deleted = Inr (Prepared params) \<Longrightarrow> repo_SetTransactionDeleted batch params deleted st = Inr (st', r) \<Longrightarrow> committedWrite env st0 st st'"
| approve: "prepareApprove now input = Inr params \<Longrightarrow> repo_ApproveTransaction params st = Inr (st', r) \<Longrightarrow> committedWrite env st0 st st'"
| move: "svc_MoveTransaction params st = Inr (st', r) \<Longrightarrow> committedWrite env st0 st st'"
| movePosting: "svc_MovePosting batch params st = Inr (st', r) \<Longrightarrow> sameCommodity (params\<lparr> mp_BookID := BookID \<rparr>) st \<Longrightarrow> committedWrite env st0 st st'"
| place: "svc_PlaceTransaction batch params st = Inr (st', r) \<Longrightarrow> committedWrite env st0 st st'"

text \<open>
  The stores of a history, the latest first. A write is prepared against one of them, provided no draft that existed then
  has been discarded since; discarding a draft needs no preparation that could go stale.
\<close>

inductive history :: "ledgerEnv \<Rightarrow> store \<Rightarrow> store list \<Rightarrow> bool" for env :: ledgerEnv and start :: store where
  begins: "history env start [start]"
| writes: "history env start (st # past) \<Longrightarrow> st0 \<in> set (st # past) \<Longrightarrow> set (st_versions st0) \<subseteq> set (st_versions st) \<Longrightarrow>
    committedWrite env st0 st st' \<Longrightarrow> history env start (st' # st # past)"
| discards: "history env start (st # past) \<Longrightarrow> prepareDeleteDraft now st0 input = Inr params \<Longrightarrow> repo_DeleteDraftTransaction params st = Inr st' \<Longrightarrow>
    history env start (st' # st # past)"

inductive_cases history_cases: "history env start stores"

lemma moveOp_Inr: "moveOp owner outcome = Inr (st', t) \<Longrightarrow> \<exists>r. outcome = Inr (st', r)"
  by (auto simp: moveOp_def result_simps)

lemma write_kept:
  assumes "committedWrite env st0 st st'" and ok0: "storeOk st0" and ok: "storeOk st" and sub: "set (st_versions st0) \<subseteq> set (st_versions st)"
  shows "storeOk st' \<and> balancesKept st st' \<and> set (st_versions st) \<subseteq> set (st_versions st')"
  using assms(1)
proof cases
  case (create now input params investment batch r)
  then show ?thesis using create_committed [OF ok create(1)] by (auto simp: repo_CreateTransaction_def result_simps)
next
  case (update now input params batch r)
  show ?thesis by (rule update_committed [OF ok0 ok sub update(1,2)]) (use update(3) in auto)
next
  case (void now input params batch r)
  then show ?thesis using void_committed [OF ok0 ok sub] by blast
next
  case (unvoid now input params batch r)
  then show ?thesis using unvoid_committed [OF ok0 ok sub] by blast
next
  case (delete now input deleted params batch r)
  then show ?thesis using setDeleted_committed [OF ok0 ok sub] by blast
next
  case (approve now input params r)
  then show ?thesis using approve_committed [OF ok] by blast
next
  case (move params r)
  then obtain r' where "repo_MoveTransaction (params\<lparr> mt_BookID := BookID \<rparr>) st = Inr (st', r')"
    by (auto simp: svc_MoveTransaction_def result_simps dest!: moveOp_Inr)
  then show ?thesis by (rule move_committed [OF ok])
next
  case (movePosting batch params r)
  then obtain r' where "repo_MovePosting batch (params\<lparr> mp_BookID := BookID \<rparr>) st = Inr (st', r')"
    by (auto simp: svc_MovePosting_def result_simps dest!: moveOp_Inr)
  then show ?thesis using movePosting(2) by (rule movePosting_committed [OF ok])
next
  case (place batch params r)
  then obtain r' where "repo_PlaceTransaction batch (params\<lparr> pt_BookID := BookID \<rparr>) st = Inr (st', r')"
    by (auto simp: svc_PlaceTransaction_def result_simps dest!: moveOp_Inr)
  then show ?thesis by (rule place_committed [OF ok])
qed

lemma write_grows:
  assumes "committedWrite env st0 st st'" and ok0: "storeOk st0" and ok: "storeOk st" and sub: "set (st_versions st0) \<subseteq> set (st_versions st)"
  shows "grows st st'"
  using assms(1)
proof cases
  case (create now input params investment batch r)
  then show ?thesis using create_grows [OF ok create(1)] by (auto simp: repo_CreateTransaction_def result_simps)
next
  case (move params r)
  then show ?thesis using move_grows by (fastforce simp: svc_MoveTransaction_def result_simps dest!: moveOp_Inr)
next
  case (movePosting batch params r)
  then show ?thesis using movePosting_grows by (fastforce simp: svc_MovePosting_def result_simps dest!: moveOp_Inr)
next
  case (place batch params r)
  then show ?thesis using place_grows by (fastforce simp: svc_PlaceTransaction_def result_simps dest!: moveOp_Inr)
qed (blast intro: update_grows [OF ok0 ok sub] void_grows [OF ok0 ok sub] unvoid_grows [OF ok0 ok sub] setDeleted_grows approve_grows)+

text \<open>The versions of a transaction that has been posted stay, and others are only added.\<close>

definition keepsPosted :: "store \<Rightarrow> store \<Rightarrow> bool" where
  "keepsPosted st st' \<longleftrightarrow> (\<forall>v\<in>set (st_versions st). tv_status v \<in> {''posted'', ''voided''} \<longrightarrow>
     (\<exists>later. versionsOf st' (tv_transaction_id v) = versionsOf st (tv_transaction_id v) @ later))"

lemma keepsPosted_refl: "keepsPosted st st"
  by (simp add: keepsPosted_def)

lemma in_versionsOf: "v \<in> set (versionsOf st t) \<longleftrightarrow> v \<in> set (st_versions st) \<and> tv_transaction_id v = t"
  by (auto simp: versionsOf_def)

lemma keepsPosted_trans:
  assumes "keepsPosted st st1" and "keepsPosted st1 st2"
  shows "keepsPosted st st2"
  unfolding keepsPosted_def
proof (intro ballI impI)
  fix v assume v: "v \<in> set (st_versions st)" "tv_status v \<in> {''posted'', ''voided''}"
  then obtain l where l: "versionsOf st1 (tv_transaction_id v) = versionsOf st (tv_transaction_id v) @ l" using assms(1) unfolding keepsPosted_def by blast
  have "v \<in> set (versionsOf st1 (tv_transaction_id v))" using v(1) by (simp add: l in_versionsOf)
  then have "v \<in> set (st_versions st1)" by (simp add: in_versionsOf)
  then obtain l' where "versionsOf st2 (tv_transaction_id v) = versionsOf st1 (tv_transaction_id v) @ l'" using assms(2) v(2) unfolding keepsPosted_def by blast
  then show "\<exists>later. versionsOf st2 (tv_transaction_id v) = versionsOf st (tv_transaction_id v) @ later" using l by simp
qed

lemma grows_keepsPosted: "grows st st' \<Longrightarrow> keepsPosted st st'"
  using grows_versions [of st st'] by (auto simp: keepsPosted_def versionsOf_def)

lemma discard_keepsPosted: "repo_DeleteDraftTransaction params st = Inr st' \<Longrightarrow> keepsPosted st st'"
  using discard_lives(2) [of params st st'] by (simp add: keepsPosted_def)

lemma history_kept:
  assumes "history env start stores" and "storeOk start" and "lives start"
  shows "stores \<noteq> [] \<and> (\<forall>st\<in>set stores. storeOk st \<and> lives st \<and> keepsPosted st (hd stores)) \<and> balancesKept start (hd stores)"
  using assms(1)
proof induction
  case begins
  then show ?case using assms(2,3) by (simp add: balancesKept_refl keepsPosted_refl)
next
  case (writes st past st0 st')
  have "storeOk st0" "storeOk st" "lives st" using writes(2,5) by auto
  then have "storeOk st' \<and> balancesKept st st'" "lives st'" "keepsPosted st st'"
    using write_kept [OF writes(4)] write_grows [OF writes(4)] writes(3) grows_lives grows_keepsPosted by blast+
  then show ?case using writes(5) balancesKept_trans keepsPosted_trans keepsPosted_refl by auto
next
  case (discards st past now st0 input params st')
  have "storeOk st" "lives st" using discards(4) by auto
  then have "storeOk st' \<and> balancesKept st st'" "lives st'" "keepsPosted st st'"
    using discard_committed [of st params st'] discard_lives(1) discard_keepsPosted discards(3) by blast+
  then show ?case using discards(4) balancesKept_trans keepsPosted_trans keepsPosted_refl by auto
qed

section \<open>What every history keeps\<close>


text \<open>
  C15. The invariant of the store and the life of every transaction are kept by every history. In each of its stores ids are unique, every
  version belongs to a transaction of its book and every posting to its own line, at a positive place; a voided version has the journal
  of the one it voided; and the versions of a transaction, in order, begin as a draft or posted and go on from draft to
  posted, from posted to voided and from voided back to posted, or stay as they are.
\<close>

theorem histories_keep_the_invariant:
  assumes "history env start stores" and "storeOk start" and "lives start"
  shows "\<forall>st\<in>set stores. storeOk st \<and> (\<forall>t. successively statusStep (map tv_status (versionsOf st t)) \<and>
    (versionsOf st t \<noteq> [] \<longrightarrow> tv_status (hd (versionsOf st t)) \<noteq> ''voided'' \<and> currentVersion st t = Some (last (versionsOf st t))))"
proof
  fix st assume "st \<in> set stores"
  then have st: "storeOk st" "lives st" using history_kept [OF assms] by blast+
  then have "life (versionsOf st t)" for t by (simp add: lives_def)
  then show "storeOk st \<and> (\<forall>t. successively statusStep (map tv_status (versionsOf st t)) \<and>
    (versionsOf st t \<noteq> [] \<longrightarrow> tv_status (hd (versionsOf st t)) \<noteq> ''voided'' \<and> currentVersion st t = Some (last (versionsOf st t))))"
    using st(1) life_current by (fastforce simp: life_def)
qed

lemma statusStep_draft: "statusStep s ''draft'' \<Longrightarrow> s = ''draft''"
  by (auto simp: statusStep_def)

lemma last_not_draft: "successively statusStep zs \<Longrightarrow> x \<in> set zs \<Longrightarrow> x \<noteq> ''draft'' \<Longrightarrow> last zs \<noteq> ''draft''"
proof (induction zs rule: rev_induct)
  case (snoc z zs)
  show ?case
  proof (cases "x \<in> set zs")
    case True
    then have "zs \<noteq> []" by auto
    then have "statusStep (last zs) z" "last zs \<noteq> ''draft''" using snoc.prems(1) snoc.IH [OF _ True snoc.prems(3)] by (simp_all add: successively_append_iff)
    then show ?thesis using statusStep_draft by auto
  qed (use snoc.prems in auto)
qed simp

lemma never_draft_again: "successively statusStep (xs @ ys) \<Longrightarrow> \<exists>x\<in>set xs. x \<noteq> ''draft'' \<Longrightarrow> \<forall>y\<in>set ys. y \<noteq> ''draft''"
proof (induction ys arbitrary: xs)
  case (Cons y ys)
  obtain x where x: "x \<in> set xs" "x \<noteq> ''draft''" using Cons.prems(2) by blast
  have step: "successively statusStep ((xs @ [y]) @ ys)" using Cons.prems(1) by simp
  then have "successively statusStep (xs @ [y])" using successively_append_iff [of statusStep "xs @ [y]" ys] by blast
  then have "last (xs @ [y]) \<noteq> ''draft''" by (rule last_not_draft) (use x in simp_all)
  moreover have "\<forall>y\<in>set ys. y \<noteq> ''draft''" by (rule Cons.IH [OF step]) (use x in auto)
  ultimately show ?case by simp
qed simp

text \<open>
  C14. The ledger is append-only. Once a transaction has a posted or voided version in some store of a history, every later store has all
  the versions it had then, unchanged and in order, and those added since are never drafts: what has been posted cannot be
  discarded, rewritten or turned back into a draft.
\<close>

theorem posted_versions_are_permanent:
  assumes h: "history env start (final # past)" and ok: "storeOk start" "lives start" and st: "st \<in> set (final # past)"
    and v: "v \<in> set (st_versions st)" "tv_status v \<in> {''posted'', ''voided''}"
  shows "\<exists>later. versionsOf final (tv_transaction_id v) = versionsOf st (tv_transaction_id v) @ later \<and> (\<forall>w\<in>set later. tv_status w \<noteq> ''draft'')"
proof -
  note k = history_kept [OF h ok]
  have "keepsPosted st final" using k st by fastforce
  then obtain later where l: "versionsOf final (tv_transaction_id v) = versionsOf st (tv_transaction_id v) @ later" using v unfolding keepsPosted_def by blast
  have "lives final" using k by simp
  then have "successively statusStep (map tv_status (versionsOf st (tv_transaction_id v)) @ map tv_status later)"
    using l by (metis lives_def life_def map_append)
  moreover have "\<exists>x\<in>set (map tv_status (versionsOf st (tv_transaction_id v))). x \<noteq> ''draft''" using v by (force simp: in_versionsOf)
  ultimately have "\<forall>y\<in>set (map tv_status later). y \<noteq> ''draft''" by (rule never_draft_again)
  then show ?thesis using l by auto
qed

section \<open>Writes that come too late\<close>

lemma stale_version:
  assumes "storeOk st" and "set (st_versions st0) \<subseteq> set (st_versions st)" and "currentVersion st0 t = Some v0" and "currentVersion st t \<noteq> currentVersion st0 t"
    and "transactionByID st b t = Inr current"
  shows "requireExpectedVersionTx (tv_id v0) current = Inl ErrTransactionVersionStale"
proof -
  from transactionByID_Inr [OF assms(5)] obtain row v where v: "currentVersion st t = Some v" "current = transactionVersionRecord st row v" by blast
  have "v0 \<noteq> v" using assms(3,4) v(1) by simp
  then have "tv_id v0 \<noteq> tv_id v" using same_version [OF assms(1)] currentVersion_in [OF v(1)] currentVersion_in [OF assms(3)] assms(2) by blast
  then show ?thesis using v(2) by (simp add: requireExpectedVersionTx_def transactionVersionRecord_def)
qed

text \<open>
  C11. No lost update. A write that was prepared against one version of a transaction and reaches the repository when another
  version is current is refused as stale, whatever the two versions are: an edit or a posting, a void, an unvoid, a delete or
  a restore. (As in a history, no draft that existed at the preparation has been discarded since.)
\<close>

theorem stale_writes_refused:
  assumes ok0: "storeOk st0" and ok: "storeOk st" and sub: "set (st_versions st0) \<subseteq> set (st_versions st)"
    and moved: "currentVersion st t \<noteq> currentVersion st0 t" and t: "transactionByID st BookID t = Inr current" and book: "BookID \<in> set (st_books st)"
  shows "(prepareUpdate env now st0 edit = Inr ep \<longrightarrow> ui_TransactionID edit = t \<longrightarrow> repo_UpdateTransaction batch ep st = Inl ErrTransactionVersionStale) \<and>
    (prepareVoid now st0 input = Inr (Prepared vp) \<longrightarrow> li_TransactionID input = t \<longrightarrow> repo_VoidTransaction batch vp st = Inl ErrTransactionVersionStale) \<and>
    (prepareUnvoid now st0 input = Inr (Prepared up) \<longrightarrow> li_TransactionID input = t \<longrightarrow> repo_UnvoidTransaction batch up st = Inl ErrTransactionVersionStale) \<and>
    (prepareSetDeleted now st0 input deleted = Inr (Prepared dp) \<longrightarrow> li_TransactionID input = t \<longrightarrow>
      repo_SetTransactionDeleted batch dp deleted st = Inl ErrTransactionVersionStale)"
proof (intro conjI impI)
  have read: "readBookForUpdate st BookID = Inr BookID" using book by (simp add: readBookForUpdate_def)
  note stale = stale_version [OF ok sub _ moved t]
  show "repo_UpdateTransaction batch ep st = Inl ErrTransactionVersionStale" if p: "prepareUpdate env now st0 edit = Inr ep" and e: "ui_TransactionID edit = t"
  proof -
    from p e have "up_TransactionID ep = t" by (auto simp: prepareUpdate_def Let_def updateParams_def result_simps)
    moreover from prepareUpdate_Inr [OF ok0 p] obtain v0 where "currentVersion st0 (up_TransactionID ep) = Some v0" "up_ExpectedVersionID ep = tv_id v0" "up_BookID ep = BookID" by blast
    ultimately show ?thesis using read t stale by (simp add: repo_UpdateTransaction_def result_simps)
  qed
  show "repo_VoidTransaction batch vp st = Inl ErrTransactionVersionStale" if p: "prepareVoid now st0 input = Inr (Prepared vp)" and e: "li_TransactionID input = t"
  proof -
    from prepareVoid_Inr [OF ok0 p] obtain v0 where "currentVersion st0 (lp_TransactionID vp) = Some v0" "lp_ExpectedVersionID vp = tv_id v0" "lp_BookID vp = BookID" by blast
    then show ?thesis using read t stale prepareVoid_transaction [OF p] e by (simp add: repo_VoidTransaction_def result_simps)
  qed
  show "repo_UnvoidTransaction batch up st = Inl ErrTransactionVersionStale" if p: "prepareUnvoid now st0 input = Inr (Prepared up)" and e: "li_TransactionID input = t"
  proof -
    from prepareUnvoid_Inr [OF ok0 p] obtain v0 where "currentVersion st0 (lp_TransactionID up) = Some v0" "lp_ExpectedVersionID up = tv_id v0" "lp_BookID up = BookID" by blast
    then show ?thesis using read t stale prepareUnvoid_transaction [OF p] e by (simp add: repo_UnvoidTransaction_def result_simps)
  qed
  show "repo_SetTransactionDeleted batch dp deleted st = Inl ErrTransactionVersionStale"
    if p: "prepareSetDeleted now st0 input deleted = Inr (Prepared dp)" and e: "li_TransactionID input = t"
  proof -
    have "lp_TransactionID dp = t" using p e by (auto simp: prepareSetDeleted_def lifecycleParams_def result_simps split: if_splits)
    moreover from prepareSetDeleted_Inr [OF ok0 p] obtain v0 where "currentVersion st0 (lp_TransactionID dp) = Some v0" "lp_ExpectedVersionID dp = tv_id v0" "lp_BookID dp = BookID" by blast
    ultimately show ?thesis using read t stale by (simp add: repo_SetTransactionDeleted_def result_simps)
  qed
qed

section \<open>Examples\<close>

lemma smallLedger_lives: "lives smallLedger"
  by (auto simp: lives_def life_def versionsOf_def smallLedger_def example_rows)

text \<open>The second transaction of the small ledger is voided.\<close>

lemma example_void:
  obtains params st rec w where "prepareVoid exampleNow smallLedger exampleRequest = Inr (Prepared params)" "repo_VoidTransaction False params smallLedger = Inr (st, rec)"
    "currentVersion st 2 = Some w" "tv_status w = ''voided''" "st_checkpoints st = st_checkpoints smallLedger" "history transferEnv smallLedger [st, smallLedger]"
proof -
  have r: "li_TransactionID exampleRequest = 2" by (simp add: exampleRequest_def)
  have v: "currentVersion smallLedger (li_TransactionID exampleRequest) = Some (exampleVersion 2 2 ''posted'' [examplePosting 3 2 ''a'' 1 2 7 1000, examplePosting 4 2 ''b'' 3 1 7 (- 1000)])"
    (is "_ = Some ?v") using smallLedger_current by (simp add: r)
  have s: "tv_status ?v = ''posted''" by (simp add: exampleVersion_def)
  from prepareVoid_ready [OF smallLedger_ok example_ready v s] obtain params reason where p: "prepareVoid exampleNow smallLedger exampleRequest = Inr (Prepared params)"
    and params: "params = lifecycleParams exampleNow exampleRequest ''transaction.void'' reason (periodScopedCandidatesFromRecord (tv_entries ?v)) (tv_id ?v)" by blast
  from repo_void_ready [OF smallLedger_ok example_ready v s params] obtain st rec where w: "repo_VoidTransaction False params smallLedger = Inr (st, rec)" by blast
  note t = prepareVoid_transaction [OF p]
  from void_outcome [OF smallLedger_ok p w, unfolded t r] obtain w' where o0: "tv_status w' = ''voided''"
    "\<And>x. currentVersion st x = (if x = 2 then Some w' else currentVersion smallLedger x)" by blast
  have o': "tv_status w' = ''voided''" "currentVersion st 2 = Some w'" using o0(1) o0(2) [of 2] by simp_all
  have "\<not> lp_ReconciliationOverride params" by (simp add: params lifecycleParams_def exampleRequest_def)
  note c = void_frame(5) [OF w this storeOk_parts(7) [OF smallLedger_ok]]
  have "history transferEnv smallLedger [st, smallLedger]"
    by (rule history.writes [OF history.begins _ _ committedWrite.void [OF p w]]) simp_all
  then show ?thesis using that p w o' c by blast
qed

lemma smallLedger_balance: "registerBalance smallLedger (exampleCheckpoint 1 1 7 exampleDay 1 5000) = 50"
  by (simp add: smallLedger_def example_rows registerBalance_def ledgerShare_def contribution_def recordPostings_def inside_def postingVal_def decVal_def
    currentVersion_def versionsOf_def versionOrder_def New_def)


theorem histories_keep_the_invariant_witness:
  "\<exists>st. history transferEnv smallLedger [st, smallLedger] \<and> storeOk st \<and> successively statusStep (map tv_status (versionsOf st 2)) \<and>
    tv_status (last (versionsOf st 2)) = ''voided''"
proof -
  obtain st w where st: "history transferEnv smallLedger [st, smallLedger]" "currentVersion st 2 = Some w" "tv_status w = ''voided''"
    by (rule example_void) blast
  then have "versionsOf st 2 \<noteq> []" by (auto simp: currentVersion_def)
  then show ?thesis using histories_keep_the_invariant [OF st(1) smallLedger_ok smallLedger_lives] st by force
qed

theorem posted_versions_are_permanent_witness:
  "\<exists>st later. history transferEnv smallLedger [st, smallLedger] \<and> versionsOf st 2 = versionsOf smallLedger 2 @ later \<and> (\<forall>w\<in>set later. tv_status w \<noteq> ''draft'')"
proof -
  obtain st where st: "history transferEnv smallLedger [st, smallLedger]"
    by (rule example_void) blast
  let ?v = "exampleVersion 2 2 ''posted'' [examplePosting 3 2 ''a'' 1 2 7 1000, examplePosting 4 2 ''b'' 3 1 7 (- 1000)]"
  have v: "?v \<in> set (st_versions smallLedger)" "tv_status ?v \<in> {''posted'', ''voided''}" "tv_transaction_id ?v = 2"
    by (simp_all add: smallLedger_def exampleVersion_def)
  have "smallLedger \<in> set [st, smallLedger]" by simp
  note posted_versions_are_permanent [OF st smallLedger_ok smallLedger_lives this v(1,2)]
  then show ?thesis using st unfolding v(3) by blast
qed

theorem stale_writes_refused_witness:
  "\<exists>params st rec. prepareVoid exampleNow smallLedger exampleRequest = Inr (Prepared params) \<and> repo_VoidTransaction False params smallLedger = Inr (st, rec) \<and>
    repo_VoidTransaction False params st = Inl ErrTransactionVersionStale"
proof -
  obtain params st rec w where st: "prepareVoid exampleNow smallLedger exampleRequest = Inr (Prepared params)"
    "repo_VoidTransaction False params smallLedger = Inr (st, rec)" "currentVersion st 2 = Some w" "tv_status w = ''voided''"
    by (rule example_void) blast
  have ok: "storeOk st \<and> balancesKept smallLedger st \<and> set (st_versions smallLedger) \<subseteq> set (st_versions st)"
    by (rule void_committed [OF smallLedger_ok smallLedger_ok subset_refl st(1,2)])
  have moved: "currentVersion st 2 \<noteq> currentVersion smallLedger 2" using st(3,4) smallLedger_current by (auto simp: exampleVersion_def)
  have f: "st_transactions st = st_transactions smallLedger" "st_books st = st_books smallLedger" using void_frame [OF st(2)] by simp_all
  have "findTransaction st BookID 2 = Some (exampleRow 2)" using smallLedger_parts(1) by (simp add: findTransaction_def f)
  then have t: "transactionByID st BookID 2 = Inr (transactionVersionRecord st (exampleRow 2) w)" using st(3) by (simp add: transactionByID_def)
  have "BookID \<in> set (st_books st)" "li_TransactionID exampleRequest = 2" by (simp_all add: f exampleRequest_def)
  then have "repo_VoidTransaction False params st = Inl ErrTransactionVersionStale"
    using stale_writes_refused [OF smallLedger_ok _ _ moved t] ok st(1) by blast
  then show ?thesis using st(1,2) by blast
qed

end
