(* ===== verification/Chains.thy ===== *)
theory Chains
  imports History
begin

text \<open>
  What the writes of the ledger leave of the checkpoint table: a write may take an active checkpoint out of force, and changes
  nothing else of it. So the chain a checkpoint stands on, the statement it closes and the balance it states are the same
  after any write.
\<close>

definition chainOf :: "checkpointRow \<Rightarrow> checkpointRow" where
  "chainOf c = c\<lparr> ck_status := [], ck_invalidated := None, ck_voided := None \<rparr>"

definition chainRows :: "store \<Rightarrow> checkpointRow list" where
  "chainRows st = map chainOf (st_checkpoints st)"

lemma chainOf_invalidateRow [simp]: "chainOf (invalidateRow bp k c) = chainOf c"
  by (simp add: invalidateRow_def chainOf_def)

lemma invalidate_chain: "invalidateReconciliationCheckpoints bp seen ids refs table = (table', ids') \<Longrightarrow> map chainOf table' = map chainOf table"
  by (induction bp seen ids refs table rule: invalidateReconciliationCheckpoints.induct) (simp_all add: o_def split: if_splits)

lemma enforce_chain: "enforceBoundary batch bp st = Inr (st', ids) \<Longrightarrow> chainRows st' = chainRows st"
  by (auto simp: enforceBoundary_def enforceCheckpointBoundaryTx_def Let_def chainRows_def result_simps split: if_splits dest: invalidate_chain)

lemma crossed_chain: "invalidateCrossed bp refs st r = (st', r') \<Longrightarrow> chainRows st' = chainRows st"
  by (auto simp: invalidateCrossed_def chainRows_def split: if_splits prod.splits dest: invalidate_chain)

lemma audit_chain: "insertAuditEvent p st = Inr (st', i) \<Longrightarrow> chainRows st' = chainRows st"
  by (auto simp: chainRows_def dest!: insertAuditEvent_Inr)

lemma insert_chain: "insertTransactionVersion vp st = Inr (st', r) \<Longrightarrow> chainRows st' = chainRows st"
  by (erule insertTransactionVersion_Inr) (simp add: chainRows_def versionAdded_frame)

lemma moveVersion_chain: "moveVersion params audit t reason ov st = Inr (st', r) \<Longrightarrow> chainRows st' = chainRows st"
  by (auto simp: moveVersion_def Let_def result_simps dest: insert_chain)

lemma writeReordered_chain: "writeReordered params audit days ps ts found st = Inr (st', found') \<Longrightarrow> chainRows st' = chainRows st"
  by (induction ts arbitrary: st found) (auto simp: Let_def result_simps dest!: insert_chain)

lemmas write_chains = enforce_chain crossed_chain audit_chain insert_chain moveVersion_chain writeReordered_chain

lemma create_chain: "createTransactionTx batch params st = Inr (st', r) \<Longrightarrow> chainRows st' = chainRows st"
proof -
  assume "createTransactionTx batch params st = Inr (st', r)"
  then obtain st1 audit n row st2 rec ids where "insertAuditEvent (createAudit params) st = Inr (st1, audit)"
    and "insertTransactionVersion (createVersion params n audit) (st1\<lparr> st_transactions := st_transactions st1 @ [row] \<rparr>) = Inr (st2, rec)"
    and "enforceBoundary batch (createBoundary params audit) st2 = Inr (st', ids)"
    by (auto simp: createTransactionTx_def createTransactionWithAuditTx_def insertTransactionWithAuditEventTx_def Let_def result_simps)
  note s = this
  have "chainRows (st1\<lparr> st_transactions := st_transactions st1 @ [row] \<rparr>) = chainRows st1" by (simp add: chainRows_def)
  then show ?thesis using write_chains(1) [OF s(3)] write_chains(3) [OF s(1)] write_chains(4) [OF s(2)] by simp
qed

lemma update_chain: "repo_UpdateTransaction batch params st = Inr (st', r) \<Longrightarrow> chainRows st' = chainRows st"
  by (auto simp: repo_UpdateTransaction_def result_simps dest!: write_chains)

lemma void_chain: "repo_VoidTransaction batch params st = Inr (st', r) \<Longrightarrow> chainRows st' = chainRows st"
  by (auto simp: repo_VoidTransaction_def Let_def result_simps split: if_splits dest!: write_chains)

lemma unvoid_chain: "repo_UnvoidTransaction batch params st = Inr (st', r) \<Longrightarrow> chainRows st' = chainRows st"
  by (auto simp: repo_UnvoidTransaction_def Let_def result_simps split: if_splits dest!: write_chains)

lemma setDeleted_chain: "repo_SetTransactionDeleted batch params deleted st = Inr (st', r) \<Longrightarrow> chainRows st' = chainRows st"
  by (auto simp: repo_SetTransactionDeleted_def Let_def result_simps chainRows_def split: if_splits dest!: insertAuditEvent_Inr enforce_chain)

lemma approve_chain: "repo_ApproveTransaction params st = Inr (st', r) \<Longrightarrow> chainRows st' = chainRows st"
  by (auto simp: repo_ApproveTransaction_def Let_def result_simps split: if_splits dest!: write_chains)

lemma move_chain: "repo_MoveTransaction params st = Inr (st', r) \<Longrightarrow> chainRows st' = chainRows st"
  by (auto simp: repo_MoveTransaction_def Let_def result_simps split: option.splits dest!: write_chains)

lemma movePosting_chain:
  assumes "repo_MovePosting batch params st = Inr (st', r)"
  shows "chainRows st' = chainRows st"
proof -
  from assms obtain st1 audit t reason ov st2 r2 t' ov' st3 bp refs where au: "insertAuditEvent (postingAudit params) st = Inr (st1, audit)"
    and m1: "moveVersion params audit t reason ov st1 = Inr (st2, r2)"
    and m2: "(if t' = t then Inr st2 else bindR (moveVersion params audit t' ''swapped for moved posting'' ov' st2) (\<lambda>(st3, _). Inr st3)) = Inr st3"
    and inv: "invalidateCrossed bp refs st3 r2 = (st', r)"
    unfolding repo_MovePosting_def Let_def by (auto simp: result_simps split: option.splits prod.splits)
  have "chainRows st3 = chainRows st2" using m2 by (auto simp: result_simps split: if_splits dest: moveVersion_chain)
  then show ?thesis using crossed_chain [OF inv] moveVersion_chain [OF m1] audit_chain [OF au] by simp
qed

lemma place_chain:
  assumes "repo_PlaceTransaction batch params st = Inr (st', r)"
  shows "chainRows st' = chainRows st"
proof -
  from assms have "st' = st \<or> (\<exists>st1 audit days ps ts st2 found bp refs r0. insertAuditEvent (placeAudit params) st = Inr (st1, audit) \<and>
      writeReordered params audit days ps ts None st1 = Inr (st2, found) \<and> invalidateCrossed bp refs st2 r0 = (st', r))"
    unfolding repo_PlaceTransaction_def Let_def by (auto simp: result_simps split: if_splits) blast+
  then show ?thesis by (elim disjE exE conjE, simp) (drule audit_chain, drule writeReordered_chain, drule crossed_chain, simp)
qed

lemma discard_chain: "repo_DeleteDraftTransaction params st = Inr st' \<Longrightarrow> chainRows st' = chainRows st"
  by (auto simp: repo_DeleteDraftTransaction_def Let_def result_simps chainRows_def dest!: insertAuditEvent_Inr)

lemma write_chain:
  assumes "committedWrite env st0 st st'"
  shows "chainRows st' = chainRows st"
  using assms
proof cases
  case (create now input params investment batch r)
  then show ?thesis using create_chain by (auto simp: repo_CreateTransaction_def result_simps)
next
  case (move params r)
  then show ?thesis by (auto simp: svc_MoveTransaction_def result_simps dest!: moveOp_Inr dest: move_chain)
next
  case (movePosting batch params r)
  then show ?thesis by (auto simp: svc_MovePosting_def result_simps dest!: moveOp_Inr dest: movePosting_chain)
next
  case (place batch params r)
  then show ?thesis by (auto simp: svc_PlaceTransaction_def result_simps dest!: moveOp_Inr dest: place_chain)
qed (blast intro: update_chain void_chain unvoid_chain setDeleted_chain approve_chain)+

end
