(* ===== verification/Statements.thy ===== *)
theory Statements
  imports Reconcile Chains
begin

text \<open>
  What reconciling an account keeps and establishes. The covering checkpoints are the closure of the previous-checkpoint chain;
  marking postings writes versions with the same journal, so the store's invariant and every balance stay; and a finished
  statement adds up: its balance is the balance it started from and the postings it links, each of which no earlier
  statement of its chain links.
\<close>

section \<open>The chain of checkpoints\<close>

definition previousOf :: "checkpointRow list \<Rightarrow> (int \<times> int) set" where
  "previousOf table = {(ck_id c, p) |c p. c \<in> set table \<and> ck_previous_checkpoint_id c = Some p}"

lemma previousIDs_set: "set (previousIDs table found) = previousOf table `` set found - set found"
  by (force simp: previousIDs_def previousOf_def)

lemma coveringFrom_closure: "set (coveringFrom table found) = (previousOf table)\<^sup>* `` set found"
proof (induction table found rule: coveringFrom.induct)
  case (1 table found)
  let ?R = "previousOf table" let ?next = "previousIDs table found"
  show ?case
  proof (cases "?next = []")
    case True
    then have "?R `` set found \<subseteq> set found" using previousIDs_set [of table found] by auto
    then have "?R\<^sup>* `` set found \<subseteq> set found" by (metis Image_closed_trancl order_refl)
    then show ?thesis using True by (subst coveringFrom.simps) auto
  next
    case False
    have "set ?next \<subseteq> ?R\<^sup>* `` set found" unfolding previousIDs_set by auto
    then have "?R\<^sup>* `` (set found \<union> set ?next) = ?R\<^sup>* `` set found" by (auto intro: rtrancl_trans)
    then show ?thesis using False 1 [OF refl False] by (subst coveringFrom.simps) (simp add: Let_def)
  qed
qed

text \<open>
  C33. The recursive query for the covering checkpoints ends, and finds exactly the checkpoints an active one of the account
  stands on: each active checkpoint, and each one reached from an active one through previous checkpoints, whatever
  its own status.
\<close>

theorem covering_is_the_chain_closure:
  "set (coveringCheckpoints table bookID accountID) = {i. \<exists>c. c \<in> set table \<and> ck_book_id c = bookID \<and> ck_account_id c = accountID \<and>
     ck_status c = ''active'' \<and> (ck_id c, i) \<in> (previousOf table)\<^sup>*}"
  unfolding coveringCheckpoints_def coveringFrom_closure by auto

section \<open>Versions that mark postings\<close>

text \<open>What a posting is apart from its version and its review state, with the line it stands on.\<close>

definition rowInfo :: "int \<Rightarrow> string \<times> PostingRecord \<Rightarrow> int \<times> int \<times> string \<times> int \<times> int \<times> Coefficient \<times> int" where
  "rowInfo t cur = (t, pr_PostingLineID (snd cur), fst cur, pr_AccountID (snd cur), pr_CommodityID (snd cur),
     pr_QuantityValue (snd cur), pr_QuantityScale (snd cur))"

definition postingInfo :: "ReconciliationPostingRecord \<Rightarrow> int \<times> int \<times> string \<times> int \<times> int \<times> Coefficient \<times> int" where
  "postingInfo r = (rq_TransactionID r, rq_PostingLineID r, rq_EntryDate r, rq_AccountID r, rq_CommodityID r, rq_QuantityValue r, rq_QuantityScale r)"

text \<open>The current version of a transaction restated, and the postings of the given lines as the new version has them.\<close>

definition marks :: "store \<Rightarrow> int \<Rightarrow> int set \<Rightarrow> store \<Rightarrow> ReconciliationPostingRecord list \<Rightarrow> bool" where
  "marks st t lines st' rs \<longleftrightarrow> (\<exists>v v'. currentVersion st t = Some v \<and> currentVersion st' t = Some v' \<and>
     tv_status v' = tv_status v \<and> tv_book_id v' = tv_book_id v \<and>
     map (rowInfo t) (recordPostings (tv_entries v')) = map (rowInfo t) (recordPostings (tv_entries v)) \<and>
     list_all2 (\<lambda>r cur. postingInfo r = rowInfo t cur \<and> rq_PostingID r = pr_ID (snd cur) \<and> rq_AccountDaySequence r = pr_AccountDaySequence (snd cur) \<and> rq_BookID r = tv_book_id v')
       rs (filter (\<lambda>cur. pr_PostingLineID (snd cur) \<in> lines) (recordPostings (tv_entries v'))))"

lemma same_lines:
  assumes "journalOk lines v" and "journalOk lines' v'" and "tv_book_id v' = tv_book_id v" and "tv_transaction_id v' = tv_transaction_id v"
    and "\<forall>k i. lineAt (tv_book_id v) (tv_transaction_id v) lines k = Some i \<longrightarrow> lineAt (tv_book_id v) (tv_transaction_id v) lines' k = Some i"
    and "map postingCore (recordPostings (tv_entries v')) = map postingCore (recordPostings (tv_entries v))"
  shows "map (rowInfo t) (recordPostings (tv_entries v')) = map (rowInfo t) (recordPostings (tv_entries v))"
proof -
  define g where "g p = (case p of (d :: string, k, a :: int, m :: int, q :: Coefficient, sc :: int) \<Rightarrow> (t, the (lineAt (tv_book_id v) (tv_transaction_id v) lines' k), d, a, m, q, sc))" for p
  have "rowInfo t cur = g (postingCore cur)" if "cur \<in> set (recordPostings (tv_entries v))" for cur
    using assms(1,5) that by (auto simp: journalOk_def g_def rowInfo_def postingCore_def)
  then have "map (rowInfo t) (recordPostings (tv_entries v)) = map g (map postingCore (recordPostings (tv_entries v)))" by simp
  moreover have "rowInfo t cur = g (postingCore cur)" if "cur \<in> set (recordPostings (tv_entries v'))" for cur
    using assms(2,3,4) that by (auto simp: journalOk_def g_def rowInfo_def postingCore_def)
  then have "map (rowInfo t) (recordPostings (tv_entries v')) = map g (map postingCore (recordPostings (tv_entries v')))" by simp
  ultimately show ?thesis using assms(6) by simp
qed

lemma markedSpec_core:
  "map specCore (specPostings (ts_JournalEntries (markedSpec params r lines))) = map specCore (specPostings (ts_JournalEntries (transactionSpecFromRecord r)))"
proof -
  have "specCore (d, markPosting params r lines p) = specCore (d, p)" for d p by (simp add: specCore_def markPosting_def)
  then show ?thesis by (simp add: markedSpec_def Let_def specPostings_def map_concat o_def)
qed

lemma markedSpec_status: "ts_Status (markedSpec params (loadTransactionChildren st h) lines) = rc_Status h"
  by (simp add: markedSpec_def Let_def)

lemma statusVersion_fields [simp]:
  "iv_BookID (statusVersion params t r lines) = append_BookID params" "iv_TransactionID (statusVersion params t r lines) = t"
  "iv_VersionSeq (statusVersion params t r lines) = rc_VersionSeq r + 1" "iv_SupersedesVersionID (statusVersion params t r lines) = Some (rc_VersionID r)"
  "iv_Spec (statusVersion params t r lines) = markedSpec params r lines" "iv_PostingSeqOverrides (statusVersion params t r lines) = Map.empty"
  by (simp_all add: statusVersion_def)

lemma inserted_record:
  assumes "storeOk st'" and "versionAdded vp st st' entries"
    and "bindR (transactionVersionByID st' (nextAbove (map tv_id (st_versions st)))) (\<lambda>r. Inr (loadTransactionChildren st' r)) = Inr written"
  shows "recordPostings (rc_JournalEntries written) = recordPostings (map (withTags st') entries)" "rc_ID written = iv_TransactionID vp"
proof -
  let ?v = "newVersion vp st entries"
  have v: "?v \<in> set (st_versions st')" by (simp add: versionAdded_frame [OF assms(2)])
  have f: "find (\<lambda>w. tv_id w = tv_id ?v) (st_versions st') = Some ?v" by (rule find_distinct [OF storeOk_parts(2) [OF assms(1)] v])
  from assms(3) obtain r where r: "transactionVersionByID st' (tv_id ?v) = Inr r" "written = loadTransactionChildren st' r" by (auto simp: result_simps)
  from r(1) obtain t where t: "find (\<lambda>t. tr_id t = iv_TransactionID vp) (st_transactions st') = Some t" "r = transactionVersionRecord st' t ?v"
    using f by (auto simp: transactionVersionByID_def split: option.splits)
  have "rc_VersionID r = tv_id ?v" "rc_ID r = iv_TransactionID vp" using t find_in [OF t(1)] by (simp_all add: transactionVersionRecord_def)
  then show "recordPostings (rc_JournalEntries written) = recordPostings (map (withTags st') entries)" "rc_ID written = iv_TransactionID vp"
    using f by (simp_all add: r(2) loadTransactionChildren_def journalEntriesForVersion_def)
qed

text \<open>One round: the store's invariant and every balance stay, and the postings marked are those of the lines asked for.\<close>

lemma mark_round:
  assumes ok: "storeOk st" and w: "appendStatusVersion params t st = Inr (st', rs)"
  shows "storeOk st'" "st_checkpoints st' = st_checkpoints st" "st_transactions st' = st_transactions st" "set (st_versions st) \<subseteq> set (st_versions st')"
    "t' \<noteq> t \<Longrightarrow> currentVersion st' t' = currentVersion st t'" "registerBalance st' c = registerBalance st c" "grows st st'"
    "marks st t (set (lineIDsOf (append_Postings params) t)) st' rs"
proof -
  let ?lines = "lineIDsOf (append_Postings params) t"
  define vp where "vp h = statusVersion params t (loadTransactionChildren st h) ?lines" for h
  from w obtain h written where h: "transactionByID st (append_BookID params) t = Inr h" and i: "insertTransactionVersion (vp h) st = Inr (st', written)"
    and rs: "rs = map (reconciledPosting written) (filter (\<lambda>cur. pr_PostingLineID (snd cur) \<in> set ?lines) (recordPostings (rc_JournalEntries written)))"
    by (auto simp: appendStatusVersion_def Let_def result_simps vp_def)
  from transactionByID_Inr [OF h] obtain row v where f: "row \<in> set (st_transactions st)" "tr_book_id row = append_BookID params" "tr_id row = t"
    "currentVersion st t = Some v" "h = transactionVersionRecord st row v" .
  have hv: "rc_VersionID h = tv_id v" "rc_Status h = tv_status v" "rc_VersionSeq h = tv_version_seq v" using f(5) by (simp_all add: transactionVersionRecord_def)
  have v: "v \<in> set (st_versions st)" "tv_transaction_id v = t" "tv_book_id v = append_BookID params"
    using currentVersion_in [OF f(4)] rowOfVersion [OF ok f(1)] f by simp_all
  have vp: "iv_BookID (vp h) = append_BookID params" "iv_TransactionID (vp h) = t" "iv_VersionSeq (vp h) = rc_VersionSeq h + 1"
    "iv_SupersedesVersionID (vp h) = Some (rc_VersionID h)" "ts_Status (iv_Spec (vp h)) = rc_Status h" by (simp_all add: vp_def markedSpec_status)
  have core: "map specCore (specPostings (ts_JournalEntries (iv_Spec (vp h)))) = map postingCore (recordPostings (tv_entries v))"
    using record_core [OF ok v(1) hv(1)] by (simp add: vp_def markedSpec_core)
  have pos: "\<forall>l n. iv_PostingSeqOverrides (vp h) l = Some n \<longrightarrow> 0 < n" by (simp add: vp_def)
  have said: "map specCore (specPostings (ts_JournalEntries (iv_Spec (vp h)))) = map postingCore (recordPostings (tv_entries u))" if "currentVersion st t = Some u" for u
    using that core f(4) by simp
  note r = restated_version [OF ok ok h refl refl vp _ pos i]
  show ok': "storeOk st'" by (rule r(1)) (rule said)
  show "st_checkpoints st' = st_checkpoints st" by (rule r(2)) (rule said)
  show "st_transactions st' = st_transactions st" by (rule r(4)) (rule said)
  show "set (st_versions st) \<subseteq> set (st_versions st')" by (rule r(3)) (rule said)
  show "t' \<noteq> t \<Longrightarrow> currentVersion st' t' = currentVersion st t'" by (rule r(5)) (rule said)
  show "registerBalance st' c = registerBalance st c" by (rule r(6)) (erule said, simp add: vp_def)
  show "grows st st'" by (rule copied_grows [OF i refl refl]) (use h vp in simp_all)
  obtain entries where a: "versionAdded (vp h) st st' entries"
    and wr: "bindR (transactionVersionByID st' (nextAbove (map tv_id (st_versions st)))) (\<lambda>r. Inr (loadTransactionChildren st' r)) = Inr written"
    by (rule insertTransactionVersion_Inr [OF i])
  let ?v = "newVersion (vp h) st entries"
  have chain: "nextInChain (vp h) st" by (rule current_chain [of _ t v]) (simp_all add: f(4) vp hv)
  have v': "?v \<in> set (st_versions st')" by (simp add: versionAdded_frame [OF a])
  have cores: "map postingCore (recordPostings (tv_entries ?v)) = map postingCore (recordPostings (tv_entries v))"
    using added_core [OF ok a] core by simp
  have info: "map (rowInfo t) (recordPostings (tv_entries ?v)) = map (rowInfo t) (recordPostings (tv_entries v))"
    by (rule same_lines [OF storeOk_parts(4) [OF ok v(1)] storeOk_parts(4) [OF ok' v'] _ _ versionAdded_lines(2) [OF ok a] cores]) (simp_all add: v vp)
  have book: "pr_BookID (snd cur) = tv_book_id ?v" if "cur \<in> set (recordPostings (tv_entries ?v))" for cur
    using storeOk_parts(4) [OF ok' v'] that by (simp add: journalOk_def)
  note written = inserted_record [OF ok' a wr]
  have "list_all2 (\<lambda>r cur. postingInfo r = rowInfo t cur \<and> rq_PostingID r = pr_ID (snd cur) \<and> rq_AccountDaySequence r = pr_AccountDaySequence (snd cur) \<and> rq_BookID r = tv_book_id ?v)
    rs (filter (\<lambda>cur. pr_PostingLineID (snd cur) \<in> set ?lines) (recordPostings (tv_entries ?v)))"
    using book written(2) unfolding rs written(1) recordPostings_withTags
    by (auto simp: filter_map o_def list_all2_map1 reconciledPosting_def postingInfo_def rowInfo_def vp intro!: list.rel_refl_strong)
  then show "marks st t (set ?lines) st' rs"
    unfolding marks_def using f(4) info versionAdded_frame(2) [OF a] currentVersion_added [OF a chain] vp hv v
    by (intro exI [of _ v] exI [of _ ?v]) simp
qed

lemma append_kept:
  assumes "storeOk st" and "distinct ts" and "appendStatusVersions params ts st = Inr (st', rs)"
  shows "storeOk st' \<and> st_checkpoints st' = st_checkpoints st \<and> st_transactions st' = st_transactions st \<and> set (st_versions st) \<subseteq> set (st_versions st') \<and>
    (\<forall>c. registerBalance st' c = registerBalance st c) \<and> grows st st' \<and> (\<forall>t. t \<notin> set ts \<longrightarrow> currentVersion st' t = currentVersion st t) \<and>
    (\<exists>rss. rs = concat rss \<and> list_all2 (\<lambda>t. marks st t (set (lineIDsOf (append_Postings params) t)) st') ts rss)"
  using assms
proof (induction ts arbitrary: st rs)
  case Nil
  then show ?case by (auto intro: grows.same)
next
  case (Cons t ts)
  from Cons.prems(3) obtain st1 rs1 rest where w: "appendStatusVersion params t st = Inr (st1, rs1)"
    and rest: "appendStatusVersions params ts st1 = Inr (st', rest)" and rs: "rs = rs1 @ rest" by (auto simp: result_simps)
  note r = mark_round [OF Cons.prems(1) w]
  have ts: "distinct ts" "t \<notin> set ts" using Cons.prems(2) by simp_all
  note ih = Cons.IH [OF r(1) ts(1) rest]
  then obtain rss where rss: "rest = concat rss" "list_all2 (\<lambda>t. marks st1 t (set (lineIDsOf (append_Postings params) t)) st') ts rss" by blast
  have "currentVersion st' t = currentVersion st1 t" using ih ts(2) by blast
  then have first: "marks st t (set (lineIDsOf (append_Postings params) t)) st' rs1" using r(8) by (simp add: marks_def)
  have "currentVersion st1 t' = currentVersion st t'" if "t' \<in> set ts" for t' by (rule r(5)) (use that ts(2) in auto)
  then have "list_all2 (\<lambda>t. marks st t (set (lineIDsOf (append_Postings params) t)) st') ts rss"
    using rss(2) by (auto simp: marks_def list_all2_conv_all_nth)
  then have "\<exists>rss. rs = concat rss \<and> list_all2 (\<lambda>t. marks st t (set (lineIDsOf (append_Postings params) t)) st') (t # ts) rss"
    using first rss(1) rs by (intro exI [of _ "rs1 # rss"]) simp
  moreover have "currentVersion st' t' = currentVersion st t'" if "t' \<notin> set (t # ts)" for t' using ih r(5) that by simp
  moreover have "grows st st'" using ih r(7) grows_trans by blast
  ultimately show ?case using ih r(2,3,4,6) by auto
qed

section \<open>The postings a session selects\<close>

lemma posted_rows:
  "r \<in> set (postedRows st b) \<longleftrightarrow> (\<exists>t v cur. t \<in> set (st_transactions st) \<and> tr_deleted_at t = None \<and> currentVersion st (tr_id t) = Some v \<and> tv_book_id v = b \<and>
     tv_status v = ''posted'' \<and> cur \<in> set (recordPostings (tv_entries v)) \<and> r = reconciliationPosting t v cur)"
proof -
  have "(t, v) \<in> set (currentRows st) \<longleftrightarrow> t \<in> set (st_transactions st) \<and> tr_deleted_at t = None \<and> currentVersion st (tr_id t) = Some v" for t v
    by (auto simp: currentRows_def split: if_splits option.splits)
  moreover have "r \<in> set (postedRows st b) \<longleftrightarrow> (\<exists>p\<in>set (currentRows st). case p of (t, v) \<Rightarrow> tv_book_id v = b \<and> tv_status v = ''posted'' \<and>
      r \<in> reconciliationPosting t v ` set (recordPostings (tv_entries v)))"
    by (force simp: postedRows_def split: if_splits)
  ultimately show ?thesis by (auto simp: image_iff)
qed

lemma concat_map_inj: "distinct (concat (map f xs)) \<Longrightarrow> x \<in> set xs \<Longrightarrow> y \<in> set xs \<Longrightarrow> z \<in> set (f x) \<Longrightarrow> z \<in> set (f y) \<Longrightarrow> x = y"
  by (induction xs) auto

lemma posting_unique:
  assumes "storeOk st" and "v \<in> set (st_versions st)" and "w \<in> set (st_versions st)" and "cur \<in> set (recordPostings (tv_entries v))"
    and "cur' \<in> set (recordPostings (tv_entries w))" and "pr_ID (snd cur) = pr_ID (snd cur')"
  shows "v = w" "cur = cur'"
proof -
  have d: "distinct (concat (map (\<lambda>v. postingIDsOf (recordPostings (tv_entries v))) (st_versions st)))"
    using storeOk_parts(11) [OF assms(1)] by (simp add: storedPostings_def map_concat o_def)
  show "v = w" by (rule concat_map_inj [OF d assms(2,3), of "pr_ID (snd cur)"]) (use assms(4-6) in \<open>auto intro: rev_image_eqI\<close>)
  have "inj_on (\<lambda>cur. pr_ID (snd cur)) (set (storedPostings st))" using storeOk_parts(11) [OF assms(1)] by (simp add: distinct_map)
  then show "cur = cur'" using assms by (auto simp: inj_on_def storedPostings_def)
qed

lemma lines_distinct:
  assumes "storeOk st" and "v \<in> set (st_versions st)" and "cur \<in> set (recordPostings (tv_entries v))" and "cur' \<in> set (recordPostings (tv_entries v))"
    and "pr_PostingLineID (snd cur) = pr_PostingLineID (snd cur')"
  shows "cur = cur'"
proof -
  have j: "journalOk (st_lines st) v" by (rule storeOk_parts(4) [OF assms(1,2)])
  have "pr_LineKey (snd cur) = pr_LineKey (snd cur')"
    by (rule lineAt_inj [OF storeOk_parts(5) [OF assms(1)]]) (use j assms(3-5) in \<open>auto simp: journalOk_def\<close>)
  then have "postingKey' cur = postingKey' cur'" by (simp add: postingKey'_def)
  then show ?thesis using j assms(3,4) by (auto simp: journalOk_def distinct_map dest: inj_onD)
qed

lemma mset_partition:
  assumes "distinct ts" and "f ` set xs \<subseteq> set ts"
  shows "mset (concat (map (\<lambda>t. filter (\<lambda>x. f x = t) xs) ts)) = mset xs"
  using assms
proof (induction ts arbitrary: xs)
  case (Cons t ts)
  let ?rest = "filter (\<lambda>x. f x \<noteq> t) xs"
  have "mset (concat (map (\<lambda>u. filter (\<lambda>x. f x = u) ?rest) ts)) = mset ?rest" using Cons.prems by (intro Cons.IH) auto
  moreover have "filter (\<lambda>x. f x = u) ?rest = filter (\<lambda>x. f x = u) xs" if "u \<in> set ts" for u
    using Cons.prems(1) that by (auto intro: filter_cong)
  then have e: "map (\<lambda>u. filter (\<lambda>x. f x = u) ?rest) ts = map (\<lambda>u. filter (\<lambda>x. f x = u) xs) ts" by (intro map_cong refl)
  ultimately have "mset (concat (map (\<lambda>u. filter (\<lambda>x. f x = u) xs) ts)) = mset ?rest" unfolding e by blast
  moreover have "mset (filter (\<lambda>x. f x = t) xs) + mset ?rest = mset xs" by (induction xs) auto
  ultimately show ?case by simp
qed simp

text \<open>The rows of one query over the posted rows, in some order, whatever their mark.\<close>

definition plain :: "ReconciliationPostingRecord \<Rightarrow> ReconciliationPostingRecord" where
  "plain r = r\<lparr> rq_Selected := False \<rparr>"

definition selection :: "store \<Rightarrow> int \<Rightarrow> (ReconciliationPostingRecord \<Rightarrow> bool) \<Rightarrow> ReconciliationPostingRecord list \<Rightarrow> bool" where
  "selection st b W P \<longleftrightarrow> mset (map plain P) = mset (filter W (postedRows st b))"

lemma plain_fields [simp]:
  "postingInfo (plain r) = postingInfo r" "rq_TransactionID (plain r) = rq_TransactionID r" "rq_PostingLineID (plain r) = rq_PostingLineID r"
  "rq_PostingID (plain r) = rq_PostingID r" "rq_EntryDate (plain r) = rq_EntryDate r" "rq_QuantityValue (plain r) = rq_QuantityValue r"
  "rq_QuantityScale (plain r) = rq_QuantityScale r" "rq_AccountID (plain r) = rq_AccountID r" "rq_CommodityID (plain r) = rq_CommodityID r"
  by (simp_all add: plain_def postingInfo_def)

lemma plain_posted: "r \<in> set (postedRows st b) \<Longrightarrow> plain r = r"
  by (auto simp: posted_rows plain_def reconciliationPosting_def)

lemma reconciliationPosting_fields [simp]:
  "rq_TransactionID (reconciliationPosting t v cur) = tr_id t" "rq_PostingID (reconciliationPosting t v cur) = pr_ID (snd cur)"
  "postingInfo (reconciliationPosting t v cur) = rowInfo (tr_id t) cur" "rq_BookID (reconciliationPosting t v cur) = tv_book_id v"
  by (simp_all add: reconciliationPosting_def postingInfo_def rowInfo_def)

lemma selection_select: "selection st b W (reconciliationPostingSelect st b W)"
proof -
  have "map plain (filter W (postedRows st b)) = filter W (postedRows st b)" by (rule map_idI) (auto intro: plain_posted)
  then have "mset (map plain (sort_key postingOrder (filter W (postedRows st b)))) = mset (filter W (postedRows st b))"
    by (metis mset_map mset_sort)
  then show ?thesis by (simp add: selection_def reconciliationPostingSelect_def)
qed

lemma selection_marked: "selection st b W P \<Longrightarrow> selection st b W (map (\<lambda>posting. posting\<lparr> rq_Selected := True \<rparr>) P)"
proof -
  assume "selection st b W P"
  moreover have "map plain (map (\<lambda>posting. posting\<lparr> rq_Selected := True \<rparr>) P) = map plain P" by (simp add: plain_def)
  ultimately show ?thesis by (simp add: selection_def del: map_map)
qed

lemma postedRows_cong: "st_versions st' = st_versions st \<Longrightarrow> st_transactions st' = st_transactions st \<Longrightarrow> postedRows st' b = postedRows st b"
  unfolding postedRows_def currentRows_def using reads_versions(2) [of st' st] by presburger

lemma selection_cong: "st_versions st' = st_versions st \<Longrightarrow> st_transactions st' = st_transactions st \<Longrightarrow> selection st' b W P = selection st b W P"
  unfolding selection_def by (drule (1) postedRows_cong) (rule arg_cong)

lemma selection_set: "selection st b W P \<Longrightarrow> plain ` set P = {r \<in> set (postedRows st b). W r}"
  unfolding selection_def by (drule arg_cong [of _ _ set_mset]) simp

lemma concat_filter_key:
  assumes "distinct (map k xs)" and "x \<in> set xs" and "\<And>y r. y \<in> set xs \<Longrightarrow> r \<in> set (f y) \<Longrightarrow> key r = k y"
  shows "filter (\<lambda>r. key r = k x) (concat (map f xs)) = f x"
  using assms
proof (induction xs)
  case (Cons y ys)
  have keys: "key r = k z" if "z \<in> set (y # ys)" "r \<in> set (f z)" for z r using Cons.prems(3) that by blast
  show ?case
  proof (cases "x = y")
    case True
    have "k z \<noteq> k x" if "z \<in> set ys" for z using Cons.prems(1) that True by (metis distinct.simps(2) image_eqI list.simps(9) list.set_map)
    then have "filter (\<lambda>r. key r = k x) (f z) = []" if "z \<in> set ys" for z
      using keys [of z] that by (auto simp: filter_empty_conv)
    then have "filter (\<lambda>r. key r = k x) (concat (map f ys)) = []" by (simp add: filter_concat o_def)
    moreover have "filter (\<lambda>r. key r = k x) (f y) = f y" using keys [of y] True by (simp add: filter_id_conv)
    ultimately show ?thesis using True by simp
  next
    case False
    then have x: "x \<in> set ys" using Cons.prems(2) by simp
    have "k y \<noteq> k x" using Cons.prems(1) x by (metis distinct.simps(2) image_eqI list.simps(9) list.set_map)
    then have "filter (\<lambda>r. key r = k x) (f y) = []" using keys [of y] by (auto simp: filter_empty_conv)
    then show ?thesis using Cons.IH [OF _ x] Cons.prems by simp
  qed
qed simp

lemma concat_map_concat: "concat (map g (concat (map h xs))) = concat (map (\<lambda>x. concat (map g (h x))) xs)"
  by (induction xs) simp_all

definition transactionRows :: "store \<Rightarrow> int \<Rightarrow> transactionRow \<Rightarrow> ReconciliationPostingRecord list" where
  "transactionRows st b x = (if tr_deleted_at x \<noteq> None then [] else case currentVersion st (tr_id x) of None \<Rightarrow> []
    | Some w \<Rightarrow> if tv_book_id w = b \<and> tv_status w = ''posted'' then map (reconciliationPosting x w) (recordPostings (tv_entries w)) else [])"

lemma transactionRows_cases:
  "transactionRows st b x = [] \<or> (\<exists>v. currentVersion st (tr_id x) = Some v \<and> transactionRows st b x = map (reconciliationPosting x v) (recordPostings (tv_entries v)))"
  by (cases "currentVersion st (tr_id x)") (auto simp: transactionRows_def)

lemma postedRows_concat: "postedRows st b = concat (map (transactionRows st b) (st_transactions st))"
  unfolding postedRows_def currentRows_def concat_map_concat transactionRows_def
  by (intro arg_cong [of _ _ concat] map_cong refl) (simp split: option.splits)

lemma posted_of_transaction:
  assumes ok: "storeOk st" and t: "t \<in> set (st_transactions st)" "tr_deleted_at t = None" "currentVersion st (tr_id t) = Some v" "tv_book_id v = b" "tv_status v = ''posted''"
  shows "filter (\<lambda>r. rq_TransactionID r = tr_id t) (postedRows st b) = map (reconciliationPosting t v) (recordPostings (tv_entries v))"
proof -
  have "filter (\<lambda>r. rq_TransactionID r = tr_id t) (concat (map (transactionRows st b) (st_transactions st))) = transactionRows st b t"
    by (rule concat_filter_key [OF storeOk_parts(1) [OF ok] t(1)]) (auto simp: transactionRows_def split: if_splits option.splits)
  then show ?thesis using t by (simp add: postedRows_concat transactionRows_def)
qed

text \<open>The rows selected of one transaction are its current postings on the lines that \<open>lineIDsOf\<close> gives.\<close>

lemma selected_rows:
  assumes ok: "storeOk st" and sel: "selection st b W P" and t: "t \<in> rq_TransactionID ` set P" and v: "currentVersion st t = Some v"
  shows "mset (map postingInfo (filter (\<lambda>r. rq_TransactionID r = t) P)) =
    mset (map (rowInfo t) (filter (\<lambda>cur. pr_PostingLineID (snd cur) \<in> set (lineIDsOf P t)) (recordPostings (tv_entries v))))"
    "tv_status v = ''posted''" "tv_book_id v = b"
proof -
  from t obtain p where p: "p \<in> set P" "rq_TransactionID p = t" by blast
  then have "plain p \<in> set (postedRows st b)" using selection_set [OF sel] by blast
  then obtain row w where row: "row \<in> set (st_transactions st)" "tr_deleted_at row = None" "currentVersion st (tr_id row) = Some w" "tv_book_id w = b"
    "tv_status w = ''posted''" and pr: "\<exists>cur. plain p = reconciliationPosting row w cur" unfolding posted_rows by blast
  have "rq_TransactionID (plain p) = tr_id row" using pr by (auto simp only: reconciliationPosting_fields)
  then have tr: "tr_id row = t" "w = v" using row(3) p(2) v by simp_all
  show st: "tv_status v = ''posted''" and bk: "tv_book_id v = b" using row(4,5) tr by simp_all
  have vin: "v \<in> set (st_versions st)" using currentVersion_in [OF v] ..
  let ?old = "recordPostings (tv_entries v)" let ?r = "reconciliationPosting row v"
  have all: "filter (\<lambda>r. rq_TransactionID r = t) (postedRows st b) = map ?r ?old"
    using posted_of_transaction [OF ok row(1-5)] tr by simp
  have m: "mset (map plain (filter (\<lambda>r. rq_TransactionID r = t) P)) = mset (map ?r (filter (\<lambda>cur. W (?r cur)) ?old))"
  proof -
    have "map plain (filter (\<lambda>r. rq_TransactionID r = t) P) = filter (\<lambda>r. rq_TransactionID r = t) (map plain P)" by (simp add: filter_map o_def)
    then have "mset (map plain (filter (\<lambda>r. rq_TransactionID r = t) P)) = filter_mset (\<lambda>r. rq_TransactionID r = t) (mset (map plain P))" by (simp del: mset_map)
    also have "\<dots> = filter_mset (\<lambda>r. rq_TransactionID r = t) (filter_mset W (mset (postedRows st b)))"
      using sel by (simp only: selection_def mset_filter)
    also have "\<dots> = mset (filter W (filter (\<lambda>r. rq_TransactionID r = t) (postedRows st b)))" by (rule multiset_eqI) simp
    finally show ?thesis unfolding all by (simp add: filter_map o_def)
  qed
  have lines: "set (lineIDsOf P t) = pr_PostingLineID ` snd ` {cur \<in> set ?old. W (?r cur)}"
  proof -
    have "set (lineIDsOf P t) = rq_PostingLineID ` set (map plain (filter (\<lambda>r. rq_TransactionID r = t) P))" by (simp add: lineIDsOf_def image_image)
    also have "\<dots> = rq_PostingLineID ` set (map ?r (filter (\<lambda>cur. W (?r cur)) ?old))" using m by (metis mset_eq_setD)
    finally show ?thesis by (simp add: image_image reconciliationPosting_def)
  qed
  have "filter (\<lambda>cur. W (?r cur)) ?old = filter (\<lambda>cur. pr_PostingLineID (snd cur) \<in> set (lineIDsOf P t)) ?old"
  proof (rule filter_cong [OF refl])
    fix cur assume cur: "cur \<in> set ?old"
    show "W (?r cur) = (pr_PostingLineID (snd cur) \<in> set (lineIDsOf P t))"
      unfolding lines
    proof
      show "W (?r cur) \<Longrightarrow> pr_PostingLineID (snd cur) \<in> pr_PostingLineID ` snd ` {cur \<in> set ?old. W (?r cur)}" using cur by blast
      assume "pr_PostingLineID (snd cur) \<in> pr_PostingLineID ` snd ` {cur \<in> set ?old. W (?r cur)}"
      then obtain x where x: "x \<in> set ?old" "W (?r x)" "pr_PostingLineID (snd cur) = pr_PostingLineID (snd x)" by blast
      then show "W (?r cur)" using lines_distinct [OF ok vin cur] by blast
    qed
  qed
  moreover have "postingInfo (?r cur) = rowInfo t cur" for cur by (simp add: postingInfo_def rowInfo_def reconciliationPosting_def tr)
  moreover have "mset (map postingInfo (filter (\<lambda>r. rq_TransactionID r = t) P)) = image_mset postingInfo (mset (map plain (filter (\<lambda>r. rq_TransactionID r = t) P)))"
    by (simp add: multiset.map_comp o_def)
  ultimately show "mset (map postingInfo (filter (\<lambda>r. rq_TransactionID r = t) P)) =
    mset (map (rowInfo t) (filter (\<lambda>cur. pr_PostingLineID (snd cur) \<in> set (lineIDsOf P t)) ?old))"
    unfolding m by (simp add: multiset.map_comp o_def)
qed

lemma list_all2_mono_set: "list_all2 R xs ys \<Longrightarrow> (\<And>x y. x \<in> set xs \<Longrightarrow> R x y \<Longrightarrow> S x y) \<Longrightarrow> list_all2 S xs ys"
  by (simp add: list_all2_conv_all_nth)

lemma all2_in: "list_all2 R xs ys \<Longrightarrow> x \<in> set xs \<Longrightarrow> \<exists>y\<in>set ys. R x y"
  by (induction rule: list_all2_induct) auto

lemma concat_mset: "list_all2 (\<lambda>t qs. mset (map f qs) = mset (map f (g t))) ts qss \<Longrightarrow> mset (map f (concat qss)) = mset (map f (concat (map g ts)))"
  by (induction rule: list_all2_induct) simp_all

lemma concat_all: "list_all2 (\<lambda>t qs. \<forall>q\<in>set qs. R q) ts qss \<Longrightarrow> \<forall>q\<in>set (concat qss). R q"
  by (induction rule: list_all2_induct) auto

text \<open>The postings that come back from marking a selection are the selection's, on the new versions.\<close>

definition onCurrent :: "store \<Rightarrow> int \<Rightarrow> ReconciliationPostingRecord \<Rightarrow> bool" where
  "onCurrent st b r \<longleftrightarrow> rq_BookID r = b \<and> (\<exists>v. currentVersion st (rq_TransactionID r) = Some v \<and> tv_status v = ''posted'' \<and> tv_book_id v = b \<and>
     (\<exists>cur\<in>set (recordPostings (tv_entries v)). rowInfo (rq_TransactionID r) cur = postingInfo r \<and> pr_ID (snd cur) = rq_PostingID r \<and>
        pr_AccountDaySequence (snd cur) = rq_AccountDaySequence r))"

lemma append_selection:
  assumes ok: "storeOk st" and sel: "selection st b W P" and ord: "mapOrder ord" and P: "append_Postings params = P"
    and w: "appendReconciliationStatusVersions ord params st = Inr (st', rs)"
  shows "mset (map postingInfo rs) = mset (map postingInfo P)" "\<forall>r\<in>set rs. onCurrent st' b r"
    "storeOk st' \<and> st_checkpoints st' = st_checkpoints st \<and> st_transactions st' = st_transactions st \<and> set (st_versions st) \<subseteq> set (st_versions st') \<and>
      (\<forall>c. registerBalance st' c = registerBalance st c) \<and> grows st st'"
proof -
  let ?ts = "ord (map rq_TransactionID P)"
  have ts: "distinct ?ts" "set ?ts = rq_TransactionID ` set P" using ord by (simp_all add: mapOrder_def)
  have w': "appendStatusVersions params ?ts st = Inr (st', rs)" using w by (simp add: appendReconciliationStatusVersions_def P)
  note k = append_kept [OF ok ts(1) w', unfolded P]
  show "storeOk st' \<and> st_checkpoints st' = st_checkpoints st \<and> st_transactions st' = st_transactions st \<and> set (st_versions st) \<subseteq> set (st_versions st') \<and>
      (\<forall>c. registerBalance st' c = registerBalance st c) \<and> grows st st'" using k by blast
  from k obtain rss where rss: "rs = concat rss" "list_all2 (\<lambda>t. marks st t (set (lineIDsOf P t)) st') ?ts rss" by blast
  have one: "mset (map postingInfo qs) = mset (map postingInfo (filter (\<lambda>r. rq_TransactionID r = t) P)) \<and> (\<forall>r\<in>set qs. onCurrent st' b r)"
    if t: "t \<in> rq_TransactionID ` set P" and m: "marks st t (set (lineIDsOf P t)) st' qs" for t qs
  proof -
    let ?in = "\<lambda>cur. pr_PostingLineID (snd cur) \<in> set (lineIDsOf P t)"
    from m obtain v v' where v: "currentVersion st t = Some v" "currentVersion st' t = Some v'" "tv_status v' = tv_status v" "tv_book_id v' = tv_book_id v"
      "map (rowInfo t) (recordPostings (tv_entries v')) = map (rowInfo t) (recordPostings (tv_entries v))"
      and qs: "list_all2 (\<lambda>r cur. postingInfo r = rowInfo t cur \<and> rq_PostingID r = pr_ID (snd cur) \<and> rq_AccountDaySequence r = pr_AccountDaySequence (snd cur) \<and> rq_BookID r = tv_book_id v')
        qs (filter ?in (recordPostings (tv_entries v')))" unfolding marks_def by blast
    note s = selected_rows [OF ok sel t v(1)]
    define inLine where "inLine p = (case p of (t' :: int, l, rest :: string \<times> int \<times> int \<times> Coefficient \<times> int) \<Rightarrow> l \<in> set (lineIDsOf P t))" for p
    have inLine: "inLine (rowInfo t cur) = ?in cur" for cur by (simp add: inLine_def rowInfo_def)
    have fm: "map (rowInfo t) (filter ?in ps) = filter inLine (map (rowInfo t) ps)" for ps by (induction ps) (simp_all add: inLine)
    have "map postingInfo qs = map (rowInfo t) (filter ?in (recordPostings (tv_entries v')))"
      using qs by (auto simp: list_eq_iff_nth_eq list_all2_conv_all_nth)
    also have "\<dots> = map (rowInfo t) (filter ?in (recordPostings (tv_entries v)))" unfolding fm v(5) ..
    finally have "mset (map postingInfo qs) = mset (map postingInfo (filter (\<lambda>r. rq_TransactionID r = t) P))" using s(1) by simp
    moreover have "onCurrent st' b r" if "r \<in> set qs" for r
    proof -
      from all2_in [OF qs that] obtain cur where cur: "cur \<in> set (recordPostings (tv_entries v'))" "postingInfo r = rowInfo t cur" "rq_PostingID r = pr_ID (snd cur)"
        "rq_AccountDaySequence r = pr_AccountDaySequence (snd cur)" "rq_BookID r = tv_book_id v'"
        by auto
      then have "rq_TransactionID r = t" by (simp add: postingInfo_def rowInfo_def)
      then show ?thesis unfolding onCurrent_def using cur v s(2,3) by auto
    qed
    ultimately show ?thesis by blast
  qed
  have all: "list_all2 (\<lambda>t qs. mset (map postingInfo qs) = mset (map postingInfo (filter (\<lambda>r. rq_TransactionID r = t) P)) \<and> (\<forall>r\<in>set qs. onCurrent st' b r)) ?ts rss"
    by (rule list_all2_mono_set [OF rss(2)]) (use one ts(2) in blast)
  have "mset (map postingInfo (concat rss)) = mset (map postingInfo (concat (map (\<lambda>t. filter (\<lambda>r. rq_TransactionID r = t) P) ?ts)))"
    by (rule concat_mset, rule list_all2_mono [OF all]) blast
  also have "\<dots> = image_mset postingInfo (mset (concat (map (\<lambda>t. filter (\<lambda>r. rq_TransactionID r = t) P) ?ts)))" by (rule mset_map)
  also have "mset (concat (map (\<lambda>t. filter (\<lambda>r. rq_TransactionID r = t) P) ?ts)) = mset P" by (rule mset_partition [OF ts(1)]) (simp add: ts(2))
  finally show "mset (map postingInfo rs) = mset (map postingInfo P)" by (simp add: rss(1))
  show "\<forall>r\<in>set rs. onCurrent st' b r" unfolding rss(1) by (rule concat_all, rule list_all2_mono [OF all]) blast
qed

end
