(* ===== verification/Reconciled.thy ===== *)
theory Reconciled
  imports Statements
begin

text \<open>
  The invariant of reconciliation, and that every operation on sessions, statements and the ledger keeps it: every checkpoint's
  statement balance is that of the checkpoint before it and the postings it links; links and selections are of posted
  versions, with their amounts; no line is linked twice along a chain; and a session with a selection has the
  difference that is left of its statement.
\<close>

section \<open>Posted versions behind links and selections\<close>

definition backed :: "store \<Rightarrow> int \<Rightarrow> int \<times> int \<times> int \<times> string \<times> Coefficient \<times> int \<Rightarrow> bool" where
  "backed st i facts \<longleftrightarrow> (\<exists>v\<in>set (st_versions st). tv_status v = ''posted'' \<and> (\<exists>cur\<in>set (recordPostings (tv_entries v)). pr_ID (snd cur) = i \<and>
     facts = (pr_BookID (snd cur), pr_AccountID (snd cur), pr_CommodityID (snd cur), fst cur, pr_QuantityValue (snd cur), pr_QuantityScale (snd cur))))"

definition lineOf :: "store \<Rightarrow> int \<Rightarrow> int option" where
  "lineOf st i = map_option (\<lambda>cur. pr_PostingLineID (snd cur)) (find (\<lambda>cur. pr_ID (snd cur) = i) (storedPostings st))"

definition valueOf :: "store \<Rightarrow> int \<Rightarrow> rat" where
  "valueOf st i = (case find (\<lambda>cur. pr_ID (snd cur) = i) (storedPostings st) of None \<Rightarrow> 0 | Some cur \<Rightarrow> postingVal (snd cur))"

lemma find_stored:
  assumes "storeOk st" and "v \<in> set (st_versions st)" and "cur \<in> set (recordPostings (tv_entries v))"
  shows "find (\<lambda>x. pr_ID (snd x) = pr_ID (snd cur)) (storedPostings st) = Some cur"
  by (rule find_distinct [of "\<lambda>x. pr_ID (snd x)"]) (use storeOk_parts(11) [OF assms(1)] storedPostings_in [OF assms(2,3)] in auto)

lemma stored_facts:
  assumes "storeOk st" and "v \<in> set (st_versions st)" and "cur \<in> set (recordPostings (tv_entries v))"
  shows "lineOf st (pr_ID (snd cur)) = Some (pr_PostingLineID (snd cur))" "valueOf st (pr_ID (snd cur)) = postingVal (snd cur)"
  using find_stored [OF assms] by (simp_all add: lineOf_def valueOf_def)

lemma backed_value: "storeOk st \<Longrightarrow> backed st i (b, a, m, d, q, sc) \<Longrightarrow> valueOf st i = decVal (BigInt q) sc"
  using stored_facts(2) by (fastforce simp: backed_def postingVal_def)

lemma kept_version: "keepsPosted st st' \<Longrightarrow> v \<in> set (st_versions st) \<Longrightarrow> tv_status v = ''posted'' \<Longrightarrow> v \<in> set (st_versions st')"
  using in_versionsOf [of v st' "tv_transaction_id v"] in_versionsOf [of v st "tv_transaction_id v"] by (fastforce simp: keepsPosted_def)

lemma backed_kept: "keepsPosted st st' \<Longrightarrow> backed st i facts \<Longrightarrow> backed st' i facts"
  unfolding backed_def using kept_version by blast

lemma kept_facts:
  assumes "storeOk st" and "storeOk st'" and "keepsPosted st st'" and "backed st i facts"
  shows "lineOf st' i = lineOf st i" "valueOf st' i = valueOf st i" "lineOf st i \<noteq> None"
proof -
  from assms(4) obtain v cur where v: "v \<in> set (st_versions st)" "tv_status v = ''posted''" "cur \<in> set (recordPostings (tv_entries v))" "pr_ID (snd cur) = i"
    unfolding backed_def by blast
  have v': "v \<in> set (st_versions st')" by (rule kept_version [OF assms(3) v(1,2)])
  show "lineOf st' i = lineOf st i" "valueOf st' i = valueOf st i" "lineOf st i \<noteq> None"
    using stored_facts [OF assms(1) v(1,3)] stored_facts [OF assms(2) v' v(3)] v(4) by simp_all
qed

lemma linkedLine_iff:
  assumes "storeOk (rs_ledger rst)" and "backed (rs_ledger rst) (kp_posting_version_id k) facts"
  shows "linkedLine rst k l \<longleftrightarrow> lineOf (rs_ledger rst) (kp_posting_version_id k) = Some l"
proof -
  from assms(2) obtain v cur where v: "v \<in> set (st_versions (rs_ledger rst))" "cur \<in> set (recordPostings (tv_entries v))" "pr_ID (snd cur) = kp_posting_version_id k"
    unfolding backed_def by blast
  have f: "find (\<lambda>x. pr_ID (snd x) = kp_posting_version_id k) (storedPostings (rs_ledger rst)) = Some cur" using find_stored [OF assms(1) v(1,2)] v(3) by simp
  have u: "x = cur" if "x \<in> set (storedPostings (rs_ledger rst))" "pr_ID (snd x) = kp_posting_version_id k" for x
  proof -
    from that(1) obtain w where w: "w \<in> set (st_versions (rs_ledger rst))" "x \<in> set (recordPostings (tv_entries w))" by (auto simp: storedPostings_def)
    show ?thesis by (rule posting_unique(2) [OF assms(1) w(1) v(1) w(2) v(2)]) (simp add: that(2) v(3))
  qed
  have "linkedLine rst k l \<longleftrightarrow> (\<exists>x\<in>set (storedPostings (rs_ledger rst)). pr_ID (snd x) = kp_posting_version_id k \<and> pr_PostingLineID (snd x) = l)"
    by (simp add: linkedLine_def list_ex_iff)
  also have "\<dots> \<longleftrightarrow> pr_PostingLineID (snd cur) = l" using u storedPostings_in [OF v(1,2)] v(3) by blast
  finally show ?thesis by (simp add: lineOf_def f)
qed

definition rqVal :: "ReconciliationPostingRecord \<Rightarrow> rat" where
  "rqVal r = decVal (BigInt (rq_QuantityValue r)) (rq_QuantityScale r)"

lemma posted_backed:
  assumes "storeOk st" and "r \<in> set (postedRows st b)"
  shows "backed st (rq_PostingID r) (b, rq_AccountID r, rq_CommodityID r, rq_EntryDate r, rq_QuantityValue r, rq_QuantityScale r)"
    "rqVal r = valueOf st (rq_PostingID r)" "lineOf st (rq_PostingID r) = Some (rq_PostingLineID r)" "rq_BookID r = b" "storedScale (rq_QuantityScale r)"
proof -
  from assms(2) obtain t v cur where t: "currentVersion st (tr_id t) = Some v" "tv_book_id v = b" "tv_status v = ''posted''"
    "cur \<in> set (recordPostings (tv_entries v))" "r = reconciliationPosting t v cur" unfolding posted_rows by blast
  have v: "v \<in> set (st_versions st)" using currentVersion_in [OF t(1)] ..
  have j: "pr_BookID (snd cur) = b" "storedScale (pr_QuantityScale (snd cur))" using storeOk_parts(4) [OF assms(1) v] t(2,4) by (simp_all add: journalOk_def)
  show "backed st (rq_PostingID r) (b, rq_AccountID r, rq_CommodityID r, rq_EntryDate r, rq_QuantityValue r, rq_QuantityScale r)"
    unfolding backed_def using v t(3,4) j by (intro bexI [of _ v] conjI bexI [of _ cur]) (simp_all add: t(5) reconciliationPosting_def)
  show "rqVal r = valueOf st (rq_PostingID r)" "lineOf st (rq_PostingID r) = Some (rq_PostingLineID r)" "rq_BookID r = b" "storedScale (rq_QuantityScale r)"
    using stored_facts [OF assms(1) v t(4)] t(2) j by (simp_all add: t(5) reconciliationPosting_def rqVal_def postingVal_def)
qed

lemma distinct_concat_keys:
  assumes "distinct (map k xs)" and "\<And>x. distinct (f x)" and "\<And>x y. k x \<noteq> k y \<Longrightarrow> set (f x) \<inter> set (f y) = {}"
  shows "distinct (concat (map f xs))"
  using assms(1)
proof (induction xs)
  case (Cons a xs)
  have "set (f a) \<inter> set (f x) = {}" if "x \<in> set xs" for x by (rule assms(3)) (use Cons.prems that in auto)
  then show ?case using Cons assms(2) by auto
qed simp

lemma posted_ids_distinct:
  assumes "storeOk st"
  shows "distinct (map rq_PostingID (postedRows st b))"
proof -
  let ?f = "\<lambda>x. map rq_PostingID (transactionRows st b x)"
  have rows: "\<exists>v\<in>set (st_versions st). tv_transaction_id v = tr_id x \<and> (\<exists>cur\<in>set (recordPostings (tv_entries v)). pr_ID (snd cur) = i)" if "i \<in> set (?f x)" for x i
  proof -
    from that obtain v where v: "currentVersion st (tr_id x) = Some v" "transactionRows st b x = map (reconciliationPosting x v) (recordPostings (tv_entries v))"
      using transactionRows_cases [of st b x] by force
    then show ?thesis using that currentVersion_in [OF v(1)] by auto
  qed
  have one: "distinct (?f x)" for x
  proof (cases "transactionRows st b x = []")
    case False
    then obtain v where v: "currentVersion st (tr_id x) = Some v" "transactionRows st b x = map (reconciliationPosting x v) (recordPostings (tv_entries v))"
      using transactionRows_cases [of st b x] by force
    have "v \<in> set (st_versions st)" using currentVersion_in [OF v(1)] ..
    moreover have "distinct (concat (map (\<lambda>v. postingIDsOf (recordPostings (tv_entries v))) (st_versions st)))"
      using storeOk_parts(11) [OF assms] by (simp add: storedPostings_def map_concat o_def)
    ultimately have "distinct (postingIDsOf (recordPostings (tv_entries v)))" by (auto simp: distinct_concat_iff)
    then show ?thesis by (simp add: v(2) o_def)
  qed simp
  have "set (?f x) \<inter> set (?f y) = {}" if "tr_id x \<noteq> tr_id y" for x y
  proof (rule ccontr)
    assume "set (?f x) \<inter> set (?f y) \<noteq> {}"
    then obtain i where i: "i \<in> set (?f x)" "i \<in> set (?f y)" by blast
    obtain v cur where v: "v \<in> set (st_versions st)" "tv_transaction_id v = tr_id x" "cur \<in> set (recordPostings (tv_entries v))" "pr_ID (snd cur) = i"
      using rows [OF i(1)] by blast
    obtain w cur' where w: "w \<in> set (st_versions st)" "tv_transaction_id w = tr_id y" "cur' \<in> set (recordPostings (tv_entries w))" "pr_ID (snd cur') = i"
      using rows [OF i(2)] by blast
    have "v = w" by (rule posting_unique(1) [OF assms v(1) w(1) v(3) w(3)]) (simp add: v(4) w(4))
    then show False using v(2) w(2) that by simp
  qed
  then have "distinct (concat (map ?f (st_transactions st)))" by (rule distinct_concat_keys [OF storeOk_parts(1) [OF assms] one])
  then show ?thesis by (simp add: postedRows_concat map_concat o_def)
qed

lemma posted_line_unique:
  assumes ok: "storeOk st" and r: "r \<in> set (postedRows st b)" "r' \<in> set (postedRows st b)" and same: "rq_PostingLineID r = rq_PostingLineID r'"
  shows "rq_PostingID r = rq_PostingID r'"
proof -
  have row: "\<exists>v cur. v \<in> set (st_versions st) \<and> currentVersion st (tv_transaction_id v) = Some v \<and> cur \<in> set (recordPostings (tv_entries v)) \<and>
      rq_PostingID q = pr_ID (snd cur) \<and> rq_PostingLineID q = pr_PostingLineID (snd cur)" if "q \<in> set (postedRows st b)" for q
  proof -
    from that obtain t v cur where t: "currentVersion st (tr_id t) = Some v" "cur \<in> set (recordPostings (tv_entries v))" "q = reconciliationPosting t v cur"
      unfolding posted_rows by blast
    then show ?thesis using currentVersion_in [OF t(1)] by (intro exI [of _ v] exI [of _ cur]) (auto simp: reconciliationPosting_def)
  qed
  obtain v cur where v: "v \<in> set (st_versions st)" "currentVersion st (tv_transaction_id v) = Some v" "cur \<in> set (recordPostings (tv_entries v))"
    "rq_PostingID r = pr_ID (snd cur)" "rq_PostingLineID r = pr_PostingLineID (snd cur)" using row [OF r(1)] by blast
  obtain w cur' where w: "w \<in> set (st_versions st)" "currentVersion st (tv_transaction_id w) = Some w" "cur' \<in> set (recordPostings (tv_entries w))"
    "rq_PostingID r' = pr_ID (snd cur')" "rq_PostingLineID r' = pr_PostingLineID (snd cur')" using row [OF r(2)] by blast
  have owner: "\<exists>l\<in>set (st_lines st). pl_id l = pr_PostingLineID (snd x) \<and> pl_transaction_id l = tv_transaction_id u"
    if u: "u \<in> set (st_versions st)" "x \<in> set (recordPostings (tv_entries u))" for u x
  proof -
    have "lineAt (tv_book_id u) (tv_transaction_id u) (st_lines st) (pr_LineKey (snd x)) = Some (pr_PostingLineID (snd x))"
      using storeOk_parts(4) [OF ok u(1)] u(2) by (simp add: journalOk_def)
    then obtain l where "find (\<lambda>l. pl_book_id l = tv_book_id u \<and> pl_transaction_id l = tv_transaction_id u \<and> pl_line_key l = pr_LineKey (snd x)) (st_lines st) = Some l"
      "pl_id l = pr_PostingLineID (snd x)" by (auto simp: lineAt_def)
    then show ?thesis using find_in by fastforce
  qed
  obtain l where l: "l \<in> set (st_lines st)" "pl_id l = pr_PostingLineID (snd cur)" "pl_transaction_id l = tv_transaction_id v" using owner [OF v(1,3)] by blast
  obtain l' where l': "l' \<in> set (st_lines st)" "pl_id l' = pr_PostingLineID (snd cur')" "pl_transaction_id l' = tv_transaction_id w" using owner [OF w(1,3)] by blast
  have "pl_id l = pl_id l'" using l(2) l'(2) v(5) w(5) same by simp
  then have "l = l'" using storeOk_parts(5) [OF ok] l(1) l'(1) by (simp add: distinct_map inj_on_def)
  then have "v = w" using l(3) l'(3) v(2) w(2) by simp
  then have "cur = cur'" using lines_distinct [OF ok v(1,3), of cur'] w(3,5) v(5) same by simp
  then show ?thesis using v(4) w(4) by simp
qed

section \<open>The invariant\<close>

definition stated :: "checkpointRow \<Rightarrow> rat" where
  "stated c = decVal (BigInt (ck_statement_balance_value c)) (ck_statement_balance_scale c)"

definition linkVal :: "checkpointPostingRow \<Rightarrow> rat" where
  "linkVal k = decVal (BigInt (kp_quantity_value k)) (kp_quantity_scale k)"

definition startOf :: "checkpointRow list \<Rightarrow> int option \<Rightarrow> rat" where
  "startOf table previous = (case previous of None \<Rightarrow> 0 | Some p \<Rightarrow>
     (case find (\<lambda>c. ck_id c = p) table of None \<Rightarrow> 0 | Some c \<Rightarrow> stated c))"

definition linksOf :: "checkpointPostingRow list \<Rightarrow> int \<Rightarrow> checkpointPostingRow list" where
  "linksOf links i = filter (\<lambda>k. kp_checkpoint_id k = i) links"

definition position :: "checkpointRow \<Rightarrow> int \<times> int \<times> int" where
  "position c = (ck_book_id c, ck_account_id c, ck_commodity_id c)"

definition chainOk :: "checkpointRow list \<Rightarrow> checkpointPostingRow list \<Rightarrow> bool" where
  "chainOk table links \<longleftrightarrow> (\<forall>c\<in>set table. storedScale (ck_statement_balance_scale c) \<and>
     stated c = startOf table (ck_previous_checkpoint_id c) + (\<Sum>k\<leftarrow>linksOf links (ck_id c). linkVal k) \<and>
     (\<forall>p. ck_previous_checkpoint_id c = Some p \<longrightarrow> p < ck_id c \<and> (\<exists>d\<in>set table. ck_id d = p \<and> position d = position c)))"

definition linksOk :: "store \<Rightarrow> checkpointRow list \<Rightarrow> checkpointPostingRow list \<Rightarrow> bool" where
  "linksOk st table links \<longleftrightarrow> (\<forall>k\<in>set links. backed st (kp_posting_version_id k)
       (kp_book_id k, kp_account_id k, kp_commodity_id k, kp_entry_date k, kp_quantity_value k, kp_quantity_scale k) \<and>
     (\<exists>c\<in>set table. ck_id c = kp_checkpoint_id k \<and> position c = (kp_book_id k, kp_account_id k, kp_commodity_id k)))"

definition chainLinks :: "checkpointRow list \<Rightarrow> checkpointPostingRow list \<Rightarrow> int \<Rightarrow> checkpointPostingRow list" where
  "chainLinks table links i = filter (\<lambda>k. kp_checkpoint_id k \<in> set (coveringFrom table [i])) links"

definition onceOk :: "store \<Rightarrow> checkpointRow list \<Rightarrow> checkpointPostingRow list \<Rightarrow> bool" where
  "onceOk st table links \<longleftrightarrow> (\<forall>c\<in>set table. distinct (map (\<lambda>k. lineOf st (kp_posting_version_id k)) (chainLinks table links (ck_id c))))"

definition sessionKey :: "'a sessionFields_scheme \<Rightarrow> int \<times> int \<times> int" where
  "sessionKey s = (sn_BookID s, sn_AccountID s, sn_CommodityID s)"

definition selectionOf :: "sessionPostingRow list \<Rightarrow> int \<Rightarrow> sessionPostingRow list" where
  "selectionOf selections i = filter (\<lambda>x. xp_session_id x = i) selections"

definition selectedVal :: "sessionPostingRow \<Rightarrow> rat" where
  "selectedVal x = decVal (BigInt (xp_quantity_value x)) (xp_quantity_scale x)"

definition statementVal :: "'a sessionFields_scheme \<Rightarrow> rat" where
  "statementVal s = decVal (BigInt (sn_StatementBalanceValue s)) (sn_StatementBalanceScale s)"

definition startingVal :: "'a sessionFields_scheme \<Rightarrow> rat" where
  "startingVal s = decVal (BigInt (sn_StartingBalanceValue s)) (sn_StartingBalanceScale s)"

definition differenceVal :: "'a sessionFields_scheme \<Rightarrow> rat" where
  "differenceVal s = decVal (BigInt (sn_DifferenceValue s)) (sn_DifferenceScale s)"

definition sessionOk :: "checkpointRow list \<Rightarrow> sessionPostingRow list \<Rightarrow> sessionRow \<Rightarrow> bool" where
  "sessionOk table selections s \<longleftrightarrow> storedScale (sn_StatementBalanceScale s) \<and> storedScale (sn_StartingBalanceScale s) \<and>
     (case sn_StartingCheckpointID s of None \<Rightarrow> startingVal s = 0
      | Some p \<Rightarrow> \<exists>d\<in>set table. ck_id d = p \<and> position d = sessionKey s \<and> startingVal s = stated d) \<and>
     (selectionOf selections (sn_ID s) \<noteq> [] \<longrightarrow>
       statementVal s = startingVal s + (\<Sum>x\<leftarrow>selectionOf selections (sn_ID s). selectedVal x) + differenceVal s)"

definition selectionsOk :: "store \<Rightarrow> sessionRow list \<Rightarrow> sessionPostingRow list \<Rightarrow> bool" where
  "selectionsOk st sessions selections \<longleftrightarrow> distinct (map (\<lambda>x. (xp_session_id x, xp_posting_version_id x)) selections) \<and>
     (\<forall>x\<in>set selections. 0 < xp_posting_version_id x \<and> backed st (xp_posting_version_id x)
       (xp_book_id x, xp_account_id x, xp_commodity_id x, xp_entry_date x, xp_quantity_value x, xp_quantity_scale x) \<and>
     (\<exists>s\<in>set sessions. sn_ID s = xp_session_id x \<and> sessionKey s = (xp_book_id x, xp_account_id x, xp_commodity_id x)))"

definition statementsOk :: "reconcileStore \<Rightarrow> bool" where
  "statementsOk rst \<longleftrightarrow> (let st = rs_ledger rst; rows = chainRows st in
     storeOk st \<and> chainOk rows (rs_checkpoint_postings rst) \<and> linksOk st rows (rs_checkpoint_postings rst) \<and>
     onceOk st rows (rs_checkpoint_postings rst) \<and> distinct (map sn_ID (rs_sessions rst)) \<and>
     (\<forall>s\<in>set (rs_sessions rst). sessionOk rows (rs_session_postings rst) s) \<and> selectionsOk st (rs_sessions rst) (rs_session_postings rst))"

lemma statementsOk_parts:
  assumes "statementsOk rst"
  shows "storeOk (rs_ledger rst)" "chainOk (chainRows (rs_ledger rst)) (rs_checkpoint_postings rst)"
    "linksOk (rs_ledger rst) (chainRows (rs_ledger rst)) (rs_checkpoint_postings rst)"
    "onceOk (rs_ledger rst) (chainRows (rs_ledger rst)) (rs_checkpoint_postings rst)" "distinct (map sn_ID (rs_sessions rst))"
    "s \<in> set (rs_sessions rst) \<Longrightarrow> sessionOk (chainRows (rs_ledger rst)) (rs_session_postings rst) s"
    "selectionsOk (rs_ledger rst) (rs_sessions rst) (rs_session_postings rst)"
  using assms unfolding statementsOk_def Let_def by blast+

text \<open>A change of the ledger alone.\<close>

lemma ledger_step:
  assumes ok: "statementsOk rst" and st: "storeOk st'" "keepsPosted (rs_ledger rst) st'" "chainRows st' = chainRows (rs_ledger rst)"
  shows "statementsOk (rst\<lparr> rs_ledger := st' \<rparr>)"
proof -
  note p = statementsOk_parts [OF ok]
  have links: "linksOk st' (chainRows (rs_ledger rst)) (rs_checkpoint_postings rst)"
    using p(3) backed_kept [OF st(2)] unfolding linksOk_def by blast
  have lines: "lineOf st' (kp_posting_version_id k) = lineOf (rs_ledger rst) (kp_posting_version_id k)" if "k \<in> set (rs_checkpoint_postings rst)" for k
    using p(3) that kept_facts(1) [OF p(1) st(1,2)] unfolding linksOk_def by blast
  then have eq: "\<And>T i. map (\<lambda>k. lineOf st' (kp_posting_version_id k)) (chainLinks T (rs_checkpoint_postings rst) i) =
      map (\<lambda>k. lineOf (rs_ledger rst) (kp_posting_version_id k)) (chainLinks T (rs_checkpoint_postings rst) i)"
    by (simp add: chainLinks_def)
  then have "onceOk st' (chainRows (rs_ledger rst)) (rs_checkpoint_postings rst)" using p(4) unfolding onceOk_def by (simp only: eq)
  moreover have "selectionsOk st' (rs_sessions rst) (rs_session_postings rst)"
    using p(7) backed_kept [OF st(2)] unfolding selectionsOk_def by blast
  ultimately show ?thesis using p(2,5,6) links st(1) by (simp add: statementsOk_def Let_def st(3))
qed

end
