(* ===== verification/Sessions.thy ===== *)
theory Sessions
  imports Reconciled
begin

text \<open>
  Starting a session, selecting postings, voiding a session or a checkpoint, and marking postings: each keeps the invariant of
  reconciliation, the facts a session was started with, and the balance of every checkpoint that stays active.
\<close>

section \<open>What an operation leaves\<close>

definition sessionFacts :: "'a sessionFields_scheme \<Rightarrow> int \<times> (int \<times> int \<times> int) \<times> string \<times> Coefficient \<times> int \<times> int option \<times> Coefficient \<times> int" where
  "sessionFacts s = (sn_ID s, sessionKey s, sn_StatementDate s, sn_StatementBalanceValue s, sn_StatementBalanceScale s,
     sn_StartingCheckpointID s, sn_StartingBalanceValue s, sn_StartingBalanceScale s)"

lemma sessionFacts_eq:
  assumes "sessionFacts s' = sessionFacts s"
  shows "sn_ID s' = sn_ID s" "sessionKey s' = sessionKey s" "sn_StatementBalanceScale s' = sn_StatementBalanceScale s"
    "sn_StartingBalanceScale s' = sn_StartingBalanceScale s" "sn_StartingCheckpointID s' = sn_StartingCheckpointID s"
    "statementVal s' = statementVal s" "startingVal s' = startingVal s" "sn_BookID s' = sn_BookID s"
  using assms by (simp_all add: sessionFacts_def statementVal_def startingVal_def sessionKey_def)

lemma sessionRecord_facts [simp]:
  "sessionFacts (sessionRecord row) = sessionFacts row" "sn_Status (sessionRecord row) = sn_Status row" "sn_ID (sessionRecord row) = sn_ID row"
  "sn_BookID (sessionRecord row) = sn_BookID row" "sn_AccountID (sessionRecord row) = sn_AccountID row" "sn_CommodityID (sessionRecord row) = sn_CommodityID row"
  "sn_DifferenceValue (sessionRecord row) = sn_DifferenceValue row" "sn_StatementDate (sessionRecord row) = sn_StatementDate row"
  "sn_StartingCheckpointID (sessionRecord row) = sn_StartingCheckpointID row"
  "sn_StatementBalanceValue (sessionRecord row) = sn_StatementBalanceValue row" "sn_StatementBalanceScale (sessionRecord row) = sn_StatementBalanceScale row"
  by (simp_all add: sessionRecord_def sessionFields.defs ReconciliationSessionRecord.defs sessionFacts_def sessionKey_def)

text \<open>The checkpoints of the table before are still there, and one of them that is active still is as it was and closes the same balance.\<close>

definition closedKept :: "store \<Rightarrow> store \<Rightarrow> bool" where
  "closedKept st st' \<longleftrightarrow> ck_id ` set (st_checkpoints st) \<subseteq> ck_id ` set (st_checkpoints st') \<and>
     (\<forall>c'\<in>set (st_checkpoints st'). ck_status c' = ''active'' \<longrightarrow>
       (\<forall>c\<in>set (st_checkpoints st). ck_id c = ck_id c' \<longrightarrow> c' = c \<and> registerBalance st' c' = registerBalance st c'))"

definition follows :: "reconcileStore \<Rightarrow> reconcileStore \<Rightarrow> bool" where
  "follows rst rst' \<longleftrightarrow> keepsPosted (rs_ledger rst) (rs_ledger rst') \<and> closedKept (rs_ledger rst) (rs_ledger rst') \<and>
     sessionFacts ` set (rs_sessions rst) \<subseteq> sessionFacts ` set (rs_sessions rst')"

lemma closedKept_parts:
  assumes "closedKept st st'"
  shows "ck_id ` set (st_checkpoints st) \<subseteq> ck_id ` set (st_checkpoints st')"
    "c' \<in> set (st_checkpoints st') \<Longrightarrow> ck_status c' = ''active'' \<Longrightarrow> c \<in> set (st_checkpoints st) \<Longrightarrow> ck_id c = ck_id c' \<Longrightarrow>
      c' = c \<and> registerBalance st' c' = registerBalance st c'"
  using assms by (simp_all add: closedKept_def)

lemma closedKept_trans:
  assumes "closedKept st st1" and "closedKept st1 st2"
  shows "closedKept st st2"
  unfolding closedKept_def
proof (intro conjI ballI impI)
  show "ck_id ` set (st_checkpoints st) \<subseteq> ck_id ` set (st_checkpoints st2)"
    by (rule subset_trans [OF closedKept_parts(1) [OF assms(1)] closedKept_parts(1) [OF assms(2)]])
  fix c' c assume c: "c' \<in> set (st_checkpoints st2)" "ck_status c' = ''active''" "c \<in> set (st_checkpoints st)" "ck_id c = ck_id c'"
  have "ck_id c \<in> ck_id ` set (st_checkpoints st1)" by (rule subsetD [OF closedKept_parts(1) [OF assms(1)] imageI [OF c(3)]])
  then obtain c1 where c1: "c1 \<in> set (st_checkpoints st1)" "ck_id c = ck_id c1" by (rule imageE) simp
  have e: "c' = c1 \<and> registerBalance st2 c' = registerBalance st1 c'"
    by (rule closedKept_parts(2) [OF assms(2) c(1,2) c1(1)]) (simp only: c1(2) [symmetric] c(4))
  have "c' \<in> set (st_checkpoints st1)" using e c1(1) by simp
  note d = closedKept_parts(2) [OF assms(1) this c(2,3,4)]
  show "c' = c" by (rule conjunct1 [OF d])
  show "registerBalance st2 c' = registerBalance st c'" by (rule trans [OF conjunct2 [OF e] conjunct2 [OF d]])
qed

lemma follows_trans:
  assumes "follows rst rst1" and "follows rst1 rst2"
  shows "follows rst rst2"
  unfolding follows_def
proof (intro conjI)
  note f = assms [unfolded follows_def]
  show "keepsPosted (rs_ledger rst) (rs_ledger rst2)" by (rule keepsPosted_trans [of _ "rs_ledger rst1"]) (use f in simp_all)
  show "closedKept (rs_ledger rst) (rs_ledger rst2)" by (rule closedKept_trans [of _ "rs_ledger rst1"]) (use f in simp_all)
  show "sessionFacts ` set (rs_sessions rst) \<subseteq> sessionFacts ` set (rs_sessions rst2)" using f by (meson subset_trans)
qed

lemma checkpoint_unique:
  assumes "storeOk st" and "c \<in> set (st_checkpoints st)" and "d \<in> set (st_checkpoints st)" and "ck_id c = ck_id d"
  shows "c = d"
proof -
  have "inj_on ck_id (set (st_checkpoints st))" using storeOk_parts(7) [OF assms(1)] by (simp add: tableOk_def distinct_map)
  then show ?thesis using assms(4,2,3) by (rule inj_onD)
qed

lemma closedKept_same:
  assumes "storeOk st" and "st_checkpoints st' = st_checkpoints st" and "\<And>c. registerBalance st' c = registerBalance st c"
  shows "closedKept st st'"
  unfolding closedKept_def assms(2,3)
proof (intro conjI ballI impI subset_refl refl)
  fix c' c assume "c' \<in> set (st_checkpoints st)" "c \<in> set (st_checkpoints st)" "ck_id c = ck_id c'"
  then show "c' = c" using checkpoint_unique [OF assms(1)] by metis
qed

lemma closedKept_balances:
  assumes "storeOk st" and "balancesKept st st'" and "chainRows st' = chainRows st"
  shows "closedKept st st'"
proof -
  have "map ck_id (chainRows st') = map ck_id (chainRows st)" using assms(3) by simp
  then have "map ck_id (st_checkpoints st') = map ck_id (st_checkpoints st)" by (simp add: chainRows_def chainOf_def o_def)
  then have "ck_id ` set (st_checkpoints st') = ck_id ` set (st_checkpoints st)" by (metis list.set_map)
  then show ?thesis unfolding closedKept_def
  proof (intro conjI ballI impI)
    fix c' c assume c: "c' \<in> set (st_checkpoints st')" "ck_status c' = ''active''" "c \<in> set (st_checkpoints st)" "ck_id c = ck_id c'"
    then have k: "c' \<in> set (st_checkpoints st)" "registerBalance st' c' = registerBalance st c'" using assms(2) by (simp_all add: balancesKept_def)
    show "registerBalance st' c' = registerBalance st c'" by (rule k(2))
    show "c' = c" by (rule checkpoint_unique [OF assms(1) k(1) c(3) c(4) [symmetric]])
  qed simp
qed

lemma keepsPosted_same: "st_versions st' = st_versions st \<Longrightarrow> keepsPosted st st'"
  by (simp add: keepsPosted_def versionsOf_def)

lemma follows_refl: "storeOk (rs_ledger rst) \<Longrightarrow> follows rst rst"
  by (simp add: follows_def keepsPosted_refl closedKept_same)

lemma inLedger_Inr: "inLedger m rst = Inr (rst', x) \<longleftrightarrow> (\<exists>st. m = Inr (st, x) \<and> rst' = rst\<lparr> rs_ledger := st \<rparr>)"
  by (auto simp: inLedger_def result_simps)

lemma inLedger_audit:
  assumes "inLedger (insertAuditEvent p (rs_ledger rst)) rst = Inr (rst1, i)"
  obtains A where "rst1 = rst\<lparr> rs_ledger := (rs_ledger rst)\<lparr> st_audit := A \<rparr> \<rparr>"
  using assms insertAuditEvent_Inr [of p "rs_ledger rst"] by (auto simp: inLedger_Inr)

lemma audit_step:
  assumes "statementsOk rst"
  shows "statementsOk (rst\<lparr> rs_ledger := (rs_ledger rst)\<lparr> st_audit := A \<rparr> \<rparr>)" "follows rst (rst\<lparr> rs_ledger := (rs_ledger rst)\<lparr> st_audit := A \<rparr> \<rparr>)"
proof -
  note ok = statementsOk_parts(1) [OF assms]
  show "statementsOk (rst\<lparr> rs_ledger := (rs_ledger rst)\<lparr> st_audit := A \<rparr> \<rparr>)"
    by (rule ledger_step [OF assms storeOk_audit [OF ok] keepsPosted_same]) (simp_all add: chainRows_def)
  show "follows rst (rst\<lparr> rs_ledger := (rs_ledger rst)\<lparr> st_audit := A \<rparr> \<rparr>)"
    unfolding follows_def by (intro conjI keepsPosted_same closedKept_same) (simp_all add: ok registerBalance_reads [of "(rs_ledger rst)\<lparr> st_audit := A \<rparr>" "rs_ledger rst"])
qed

section \<open>The totals of a selection\<close>

lemma storedScale_ok: "storedScale sc \<Longrightarrow> scaleOk sc"
  by (simp add: storedScale_def scaleOk_def MaxPow10Scale_def)

lemma sum_selection_exact:
  assumes "\<forall>r\<in>set P. storedScale (rq_QuantityScale r)" and "scaleOk (si_scale s)"
    and "foldR (\<lambda>s posting. ScaledInt_AddCoefficient s (rq_QuantityValue posting) (rq_QuantityScale posting)) s P = Inr s'"
  shows "scaleOk (si_scale s') \<and> scaledVal s' = scaledVal s + (\<Sum>r\<leftarrow>P. rqVal r)"
  using assms
proof (induction P arbitrary: s)
  case (Cons r P)
  obtain s1 where s1: "ScaledInt_Add s (Some (BigInt (rq_QuantityValue r))) (rq_QuantityScale r) = Inr s1" "si_scale s1 = max (si_scale s) (rq_QuantityScale r)"
    "scaledVal s1 = scaledVal s + rqVal r"
    by (rule Add_ok [OF Cons.prems(2) storedScale_ok, of "rq_QuantityScale r" "BigInt (rq_QuantityValue r)"]) (use Cons.prems(1) in \<open>simp_all add: rqVal_def\<close>)
  have "scaleOk (si_scale s1)" using s1(2) Cons.prems(2) storedScale_ok [of "rq_QuantityScale r"] Cons.prems(1) by (simp add: max_def)
  then show ?case using Cons.IH [of s1] Cons.prems(1,3) s1(1,3) by (simp add: ScaledInt_AddCoefficient_def)
qed simp

lemma added_scaled:
  assumes "ScaledInt_Add s (Some z) sc = Inr s'" and "scaleOk (si_scale s)" and "scaleOk sc"
  shows "scaleOk (si_scale s')" "scaledVal s' = scaledVal s + decVal z sc"
  by (rule Add_ok [OF assms(2,3), of z]; use assms in \<open>simp add: max_def\<close>)+

lemma coefficient_scaled: "ScaledInt_Coefficient s = Inr v \<Longrightarrow> decVal (BigInt v) (si_scale s) = scaledVal s"
  by (auto simp: ScaledInt_Coefficient_def FromBig_Inr_iff scaledVal_def)

lemma totals_exact:
  assumes "\<forall>r\<in>set P. storedScale (rq_QuantityScale r)" and "storedScale (sn_StatementBalanceScale session)" "storedScale (sn_StartingBalanceScale session)"
    and "reconciliationTotals session P = Inr (sel, diff)"
  shows "statementVal session = startingVal session + (\<Sum>r\<leftarrow>P. rqVal r) + decVal (BigInt (bq_QuantityValue diff)) (bq_QuantityScale diff)"
proof -
  have zero: "scaleOk (si_scale NewScaledInt)" by (simp add: NewScaledInt_def scaleOk_def MaxPow10Scale_def)
  from assms(4) obtain amount v e1 e d1 d w where
    amount: "foldR (\<lambda>s posting. ScaledInt_AddCoefficient s (rq_QuantityValue posting) (rq_QuantityScale posting)) NewScaledInt P = Inr amount"
    and e1: "ScaledInt_Add NewScaledInt (Some (BigInt (sn_StartingBalanceValue session))) (sn_StartingBalanceScale session) = Inr e1"
    and e: "ScaledInt_Add e1 (Some (si_value amount)) (si_scale amount) = Inr e"
    and d1: "ScaledInt_Add NewScaledInt (Some (BigInt (sn_StatementBalanceValue session))) (sn_StatementBalanceScale session) = Inr d1"
    and d: "ScaledInt_Add d1 (Some (- si_value e)) (si_scale e) = Inr d"
    and w: "ScaledInt_Coefficient d = Inr w" "bq_QuantityValue diff = w" "bq_QuantityScale diff = si_scale d"
    by (auto simp: reconciliationTotals_def ScaledInt_AddCoefficient_def ScaledInt_AddScaled_def ScaledInt_SubScaled_def reconciliationQuantity_def result_simps)
  have a: "scaleOk (si_scale amount)" "scaledVal amount = (\<Sum>r\<leftarrow>P. rqVal r)" using sum_selection_exact [OF assms(1) zero amount] by simp_all
  note e1' = added_scaled [OF e1 zero storedScale_ok [OF assms(3)]]
  note e' = added_scaled [OF e e1'(1) a(1)]
  note d1' = added_scaled [OF d1 zero storedScale_ok [OF assms(2)]]
  note d' = added_scaled [OF d d1'(1) e'(1)]
  have "decVal (BigInt w) (si_scale d) = scaledVal d" by (rule coefficient_scaled [OF w(1)])
  also have "\<dots> = statementVal session - scaledVal e" using d'(2) d1'(2) by (simp add: statementVal_def scaledVal_def NewScaledInt_def)
  also have "scaledVal e = startingVal session + (\<Sum>r\<leftarrow>P. rqVal r)" using e'(2) e1'(2) a(2) by (simp add: startingVal_def scaledVal_def NewScaledInt_def)
  finally show ?thesis by (simp add: w(2,3))
qed

section \<open>The postings of a selection\<close>

lemma selection_ids:
  assumes ok: "storeOk st" and sel: "selection st b W P"
  shows "distinct (map rq_PostingID P)" "r \<in> set P \<Longrightarrow> plain r \<in> set (postedRows st b) \<and> W (plain r)"
proof -
  have "image_mset rq_PostingID (mset P) = image_mset rq_PostingID (mset (map plain P))" by (simp add: multiset.map_comp o_def)
  then have "mset (map rq_PostingID P) = mset (map rq_PostingID (filter W (postedRows st b)))"
    using sel unfolding selection_def mset_map [of rq_PostingID] by presburger
  then show "distinct (map rq_PostingID P)"
    using mset_eq_imp_distinct_iff distinct_map_filter [OF posted_ids_distinct [OF ok]] by blast
  show "r \<in> set P \<Longrightarrow> plain r \<in> set (postedRows st b) \<and> W (plain r)" using selection_set [OF sel] by blast
qed

lemma distinctPositiveCount_distinct: "distinct ids \<Longrightarrow> \<forall>i\<in>set ids. 0 < i \<Longrightarrow> distinctPositiveCount ids = length ids"
  by (simp add: distinctPositiveCount_def filter_id_conv remdups_adj_distinct)

lemma mset_of_all:
  assumes "distinct xs" and "distinct ys" and "set xs \<subseteq> set ys" and "length xs = length ys"
  shows "mset xs = mset ys"
proof -
  have "set xs = set ys" by (rule card_subset_eq) (use assms in \<open>simp_all add: distinct_card\<close>)
  then show ?thesis using assms(1,2) by (simp add: set_eq_iff_mset_eq_distinct)
qed

lemma plain_selected [simp]: "map plain (map (\<lambda>posting. posting\<lparr> rq_Selected := True \<rparr>) P) = map plain P"
  by (simp add: plain_def)

lemma current_postings:
  assumes ok: "storeOk (rs_ledger rst)" and w: "currentReconciliationPostingsByID rst session ids = Inr P"
    and ids: "distinct ids" "\<forall>i\<in>set ids. 0 < i"
  shows "selection (rs_ledger rst) (sn_BookID session) (\<lambda>r. openForSession rst session r \<and> rq_PostingID r \<in> set ids) P \<or> ids = [] \<and> P = []"
    "mset (map rq_PostingID P) = mset ids"
proof -
  let ?W = "\<lambda>r. openForSession rst session r \<and> rq_PostingID r \<in> set ids"
  show sel: "selection (rs_ledger rst) (sn_BookID session) ?W P \<or> ids = [] \<and> P = []"
    using w selection_marked [OF selection_select [of "rs_ledger rst" "sn_BookID session" ?W]]
    by (auto simp: currentReconciliationPostingsByID_def Let_def split: if_splits)
  show "mset (map rq_PostingID P) = mset ids"
  proof (cases "ids = []")
    case True
    then show ?thesis using w by (simp add: currentReconciliationPostingsByID_def)
  next
    case False
    then have s: "selection (rs_ledger rst) (sn_BookID session) ?W P" using sel by simp
    have "length P = length ids" using w False distinctPositiveCount_distinct [OF ids]
      by (auto simp: currentReconciliationPostingsByID_def Let_def split: if_splits)
    moreover have "set (map rq_PostingID P) \<subseteq> set ids" using selection_ids(2) [OF ok s] by fastforce
    ultimately show ?thesis using mset_of_all [OF selection_ids(1) [OF ok s] ids(1)] by simp
  qed
qed

lemma sum_by_id:
  assumes "mset (map rq_PostingID P) = mset ids" and "\<forall>r\<in>set P. rqVal r = valueOf st (rq_PostingID r)"
  shows "(\<Sum>r\<leftarrow>P. rqVal r) = (\<Sum>i\<leftarrow>ids. valueOf st i)"
proof -
  have "(\<Sum>r\<leftarrow>P. rqVal r) = (\<Sum>i\<leftarrow>map rq_PostingID P. valueOf st i)" using assms(2) by (simp add: o_def cong: map_cong)
  also have "mset (map (valueOf st) (map rq_PostingID P)) = mset (map (valueOf st) ids)"
    using assms(1) unfolding mset_map [of "valueOf st"] by (rule arg_cong)
  then have "(\<Sum>i\<leftarrow>map rq_PostingID P. valueOf st i) = (\<Sum>i\<leftarrow>ids. valueOf st i)" by (metis sum_mset_sum_list)
  finally show ?thesis .
qed

text \<open>A posting of a selection: its facts are those of a posted version, whatever its mark.\<close>

lemma selected_posting:
  assumes ok: "storeOk st" and sel: "selection st b W P" and r: "r \<in> set P"
  shows "backed st (rq_PostingID r) (b, rq_AccountID r, rq_CommodityID r, rq_EntryDate r, rq_QuantityValue r, rq_QuantityScale r)"
    "rqVal r = valueOf st (rq_PostingID r)" "lineOf st (rq_PostingID r) = Some (rq_PostingLineID r)" "rq_BookID r = b" "storedScale (rq_QuantityScale r)"
  using posted_backed [OF ok conjunct1 [OF selection_ids(2) [OF ok sel r]]] by (simp_all add: rqVal_def plain_def)

section \<open>Starting a session\<close>

lemma statementsOkI:
  assumes "storeOk (rs_ledger rst)" and "chainOk (chainRows (rs_ledger rst)) (rs_checkpoint_postings rst)"
    and "linksOk (rs_ledger rst) (chainRows (rs_ledger rst)) (rs_checkpoint_postings rst)"
    and "onceOk (rs_ledger rst) (chainRows (rs_ledger rst)) (rs_checkpoint_postings rst)" and "distinct (map sn_ID (rs_sessions rst))"
    and "\<And>s. s \<in> set (rs_sessions rst) \<Longrightarrow> sessionOk (chainRows (rs_ledger rst)) (rs_session_postings rst) s"
    and "selectionsOk (rs_ledger rst) (rs_sessions rst) (rs_session_postings rst)"
  shows "statementsOk rst"
  using assms unfolding statementsOk_def Let_def by blast

lemma chainOf_fields [simp]:
  "ck_id (chainOf c) = ck_id c" "stated (chainOf c) = stated c" "position (chainOf c) = position c"
  "ck_previous_checkpoint_id (chainOf c) = ck_previous_checkpoint_id c" "ck_statement_balance_scale (chainOf c) = ck_statement_balance_scale c"
  by (simp_all add: chainOf_def stated_def position_def)

lemma latest_checkpoint:
  assumes "latestActiveReconciliationCheckpoint rst b a m = Inr c"
  shows "c \<in> set (st_checkpoints (rs_ledger rst))" "position c = (b, a, m)" "ck_status c = ''active''"
  using assms by (auto simp: latestActiveReconciliationCheckpoint_def position_def split: option.splits dest!: lastBy_in)

lemma latest_checkpoint_none: "latestActiveReconciliationCheckpoint rst b a m = Inl e \<Longrightarrow> e = ErrReconciliationCheckpoint"
  by (auto simp: latestActiveReconciliationCheckpoint_def split: option.splits)

lemma checkpoint_scale:
  assumes "statementsOk rst" and "c \<in> set (st_checkpoints (rs_ledger rst))"
  shows "storedScale (ck_statement_balance_scale c)"
proof -
  have "chainOf c \<in> set (chainRows (rs_ledger rst))" using assms(2) by (simp add: chainRows_def)
  then have "storedScale (ck_statement_balance_scale (chainOf c))" using statementsOk_parts(2) [OF assms(1)] unfolding chainOk_def by blast
  then show ?thesis by simp
qed

lemma selectionsOk_rows:
  assumes "selectionsOk st sessions selections" and "x \<in> set selections"
  shows "0 < xp_posting_version_id x" "backed st (xp_posting_version_id x)
       (xp_book_id x, xp_account_id x, xp_commodity_id x, xp_entry_date x, xp_quantity_value x, xp_quantity_scale x)"
    "\<exists>s\<in>set sessions. sn_ID s = xp_session_id x \<and> sessionKey s = (xp_book_id x, xp_account_id x, xp_commodity_id x)"
  using assms unfolding selectionsOk_def by blast+

lemma selection_of_new:
  assumes "selectionsOk st sessions selections" and "i \<notin> sn_ID ` set sessions"
  shows "selectionOf selections i = []"
  unfolding selectionOf_def filter_empty_conv
proof
  fix x assume "x \<in> set selections"
  from selectionsOk_rows(3) [OF assms(1) this] obtain s where "s \<in> set sessions" "sn_ID s = xp_session_id x" by blast
  then have "xp_session_id x \<in> sn_ID ` set sessions" by (metis imageI)
  then show "xp_session_id x \<noteq> i" using assms(2) by blast
qed

lemma start_step:
  assumes ok: "statementsOk rst" and w: "repo_CreateReconciliationSession params rst = Inr (rst', r)" and scale: "storedScale (start_StatementBalanceScale params)"
  shows "statementsOk rst'" "follows rst rst'"
proof -
  let ?key = "(start_BookID params, start_AccountID params, start_CommodityID params)"
  from w obtain start rst1 audit where
    start: "(case latestActiveReconciliationCheckpoint rst (start_BookID params) (start_AccountID params) (start_CommodityID params) of
         Inr c \<Rightarrow> Inr (Some c) | Inl e \<Rightarrow> if e = ErrReconciliationCheckpoint then Inr None else Inl e) = Inr start"
    and au: "inLedger (insertAuditEvent (reconcileAudit (start_BookID params) (start_ActorUserID params) (start_AuthSessionID params)
         (start_OccurredAt params) (start_RequestID params) (start_OriginType params) ''reconciliation.start'' (start_ChangeReason params))
         (rs_ledger rst)) rst = Inr (rst1, audit)"
    and rst': "rst' = rst1\<lparr> rs_sessions := rs_sessions rst1 @ [newSession params start (nextAbove (map sn_ID (rs_sessions rst1))) audit] \<rparr>"
    by (auto simp: repo_CreateReconciliationSession_def Let_def result_simps)
  obtain A where A: "rst1 = rst\<lparr> rs_ledger := (rs_ledger rst)\<lparr> st_audit := A \<rparr> \<rparr>" by (rule inLedger_audit [OF au])
  note ok1 = audit_step(1) [OF ok, of A, folded A] and f1 = audit_step(2) [OF ok, of A, folded A]
  note p = statementsOk_parts [OF ok1]
  define n where "n = nextAbove (map sn_ID (rs_sessions rst1))"
  define s where "s = newSession params start n audit"
  have rst': "rst' = rst1\<lparr> rs_sessions := rs_sessions rst1 @ [s] \<rparr>" by (simp add: rst' s_def n_def)
  have n: "n \<notin> sn_ID ` set (rs_sessions rst1)" using nextAbove_fresh [of "map sn_ID (rs_sessions rst1)"] by (simp add: n_def)
  have s: "sn_ID s = n" "sessionKey s = ?key" "sn_StatementBalanceScale s = start_StatementBalanceScale params"
    by (simp_all add: s_def newSession_def sessionKey_def)
  have st: "storedScale (sn_StartingBalanceScale s) \<and> (case sn_StartingCheckpointID s of None \<Rightarrow> startingVal s = 0
      | Some i \<Rightarrow> \<exists>d\<in>set (chainRows (rs_ledger rst1)). ck_id d = i \<and> position d = sessionKey s \<and> startingVal s = stated d)"
  proof (cases start)
    case None
    then show ?thesis by (simp add: s_def newSession_def startingVal_def storedScale_def)
  next
    case (Some c)
    then have "latestActiveReconciliationCheckpoint rst (start_BookID params) (start_AccountID params) (start_CommodityID params) = Inr c"
      using start by (auto split: sum.splits if_splits)
    note c = latest_checkpoint [OF this]
    have "chainOf c \<in> set (chainRows (rs_ledger rst1))" using c(1) by (simp add: A chainRows_def)
    moreover have "startingVal s = stated c" by (simp add: s_def newSession_def Some startingVal_def stated_def)
    moreover have "sn_StartingCheckpointID s = Some (ck_id c)" "sn_StartingBalanceScale s = ck_statement_balance_scale c"
      by (simp_all add: s_def newSession_def Some)
    ultimately show ?thesis using checkpoint_scale [OF ok c(1)] c(2) s(2) by (auto intro!: bexI [of _ "chainOf c"])
  qed
  have "sessionOk (chainRows (rs_ledger rst1)) (rs_session_postings rst1) s"
    using st scale selection_of_new [OF p(7) n] by (simp add: sessionOk_def s(1,3))
  then show "statementsOk rst'"
  proof (intro statementsOkI)
    assume new: "sessionOk (chainRows (rs_ledger rst1)) (rs_session_postings rst1) s"
    show "distinct (map sn_ID (rs_sessions rst'))" using p(5) n by (simp add: rst' s(1))
    show "sessionOk (chainRows (rs_ledger rst')) (rs_session_postings rst') x" if "x \<in> set (rs_sessions rst')" for x
      using that p(6) new by (auto simp: rst')
    show "selectionsOk (rs_ledger rst') (rs_sessions rst') (rs_session_postings rst')" using p(7) by (simp add: selectionsOk_def rst' bex_Un)
  qed (use p(1-4) in \<open>simp_all add: rst'\<close>)
  have "follows rst1 rst'" using follows_refl [OF p(1)] by (auto simp: follows_def rst')
  then show "follows rst rst'" by (rule follows_trans [OF f1])
qed

section \<open>Selecting postings\<close>

lemma sessionOk_cong:
  assumes "sessionFacts s' = sessionFacts s" and "selectionOf X' (sn_ID s) = selectionOf X (sn_ID s)" and "differenceVal s' = differenceVal s"
  shows "sessionOk T X' s' = sessionOk T X s"
  unfolding sessionOk_def sessionFacts_eq [OF assms(1)] assms(2,3) ..

lemma selectionsOk_sessions:
  assumes "selectionsOk st sessions selections" and "sessionFacts ` set sessions \<subseteq> sessionFacts ` set sessions'"
  shows "selectionsOk st sessions' selections"
  unfolding selectionsOk_def
proof (intro conjI ballI)
  show "distinct (map (\<lambda>x. (xp_session_id x, xp_posting_version_id x)) selections)" using assms(1) by (simp add: selectionsOk_def)
  fix x assume x: "x \<in> set selections"
  note r = selectionsOk_rows [OF assms(1) x]
  show "0 < xp_posting_version_id x" by (rule r(1))
  show "backed st (xp_posting_version_id x) (xp_book_id x, xp_account_id x, xp_commodity_id x, xp_entry_date x, xp_quantity_value x, xp_quantity_scale x)"
    by (rule r(2))
  from r(3) obtain s where s: "s \<in> set sessions" "sn_ID s = xp_session_id x" "sessionKey s = (xp_book_id x, xp_account_id x, xp_commodity_id x)" by blast
  have "sessionFacts s \<in> sessionFacts ` set sessions'" by (rule subsetD [OF assms(2) imageI [OF s(1)]])
  then obtain s' where s': "sessionFacts s = sessionFacts s'" "s' \<in> set sessions'" by (rule imageE)
  show "\<exists>s\<in>set sessions'. sn_ID s = xp_session_id x \<and> sessionKey s = (xp_book_id x, xp_account_id x, xp_commodity_id x)"
    using s(2,3) s'(2) sessionFacts_eq(1,2) [OF s'(1)] by auto
qed

lemma updateSession_fields [simp]:
  "rs_ledger (updateSession b i f rst) = rs_ledger rst" "rs_session_postings (updateSession b i f rst) = rs_session_postings rst"
  "rs_checkpoint_postings (updateSession b i f rst) = rs_checkpoint_postings rst"
  by (simp_all add: updateSession_def)

lemma updateSession_facts:
  assumes "\<And>s. sessionFacts (f s) = sessionFacts s"
  shows "map sessionFacts (rs_sessions (updateSession b i f rst)) = map sessionFacts (rs_sessions rst)"
    "sessionFacts ` set (rs_sessions (updateSession b i f rst)) = sessionFacts ` set (rs_sessions rst)"
    "map sn_ID (rs_sessions (updateSession b i f rst)) = map sn_ID (rs_sessions rst)"
proof -
  show m: "map sessionFacts (rs_sessions (updateSession b i f rst)) = map sessionFacts (rs_sessions rst)"
    using assms by (simp add: updateSession_def)
  then show "sessionFacts ` set (rs_sessions (updateSession b i f rst)) = sessionFacts ` set (rs_sessions rst)" by (metis list.set_map)
  have "sn_ID (f s) = sn_ID s" for s by (rule sessionFacts_eq(1) [OF assms])
  then show "map sn_ID (rs_sessions (updateSession b i f rst)) = map sn_ID (rs_sessions rst)" by (simp add: updateSession_def)
qed

lemma change_step:
  assumes ok: "statementsOk rst" and facts: "\<And>s. sessionFacts (f s) = sessionFacts s" and difference: "\<And>s. differenceVal (f s) = differenceVal s"
  shows "statementsOk (updateSession b i f rst)" "follows rst (updateSession b i f rst)"
proof -
  note p = statementsOk_parts [OF ok] and u = updateSession_facts [of f b i rst, OF facts]
  show "statementsOk (updateSession b i f rst)"
  proof (rule statementsOkI)
    show "distinct (map sn_ID (rs_sessions (updateSession b i f rst)))" by (simp only: u(3) p(5))
    show "selectionsOk (rs_ledger (updateSession b i f rst)) (rs_sessions (updateSession b i f rst)) (rs_session_postings (updateSession b i f rst))"
      unfolding updateSession_fields by (rule selectionsOk_sessions [OF p(7)]) (simp only: u(2) subset_refl)
    fix s' assume "s' \<in> set (rs_sessions (updateSession b i f rst))"
    then obtain s where s: "s \<in> set (rs_sessions rst)" "s' = f s \<or> s' = s" by (auto simp: updateSession_def split: if_splits)
    then have "sessionFacts s' = sessionFacts s" "differenceVal s' = differenceVal s" using facts difference by auto
    then show "sessionOk (chainRows (rs_ledger (updateSession b i f rst))) (rs_session_postings (updateSession b i f rst)) s'"
      unfolding updateSession_fields using sessionOk_cong p(6) [OF s(1)] by blast
  qed (simp_all only: updateSession_fields p(1-4))
  show "follows rst (updateSession b i f rst)" using follows_refl [OF p(1)] by (simp add: follows_def u(2))
qed

text \<open>What the service has worked out of a selection, whatever store it read.\<close>

definition workedOut :: "reconcileStore \<Rightarrow> ReconciliationSessionSelectionParams \<Rightarrow> bool" where
  "workedOut rst params \<longleftrightarrow> select_BookID params = BookID \<and> distinct (select_PostingVersionIDs params) \<and>
     (\<forall>i\<in>set (select_PostingVersionIDs params). 0 < i \<and> (\<exists>facts. backed (rs_ledger rst) i facts)) \<and>
     (\<exists>s\<in>set (rs_sessions rst). sn_BookID s = BookID \<and> sn_ID s = select_SessionID params \<and>
        statementVal s = startingVal s + (\<Sum>i\<leftarrow>select_PostingVersionIDs params. valueOf (rs_ledger rst) i) +
          decVal (BigInt (select_DifferenceValue params)) (select_DifferenceScale params))"

lemma cleanIDs_ok:
  assumes "cleanIDs seen cleaned ids = Inr out" and "distinct cleaned" and "set seen = set cleaned" and "\<forall>i\<in>set cleaned. 0 < i"
  shows "distinct out \<and> (\<forall>i\<in>set out. 0 < i)"
  using assms by (induction seen cleaned ids rule: cleanIDs.induct) (auto split: if_splits)

lemma candidates_selection:
  "selection (rs_ledger rst) (sn_BookID session) (openForSession rst session) (sessionCandidates rst session)"
  unfolding sessionCandidates_def by (rule selection_select)

lemma sessionByID_Inr:
  "reconciliationSessionByID rst b i = Inr session \<Longrightarrow> \<exists>row\<in>set (rs_sessions rst). sn_BookID row = b \<and> sn_ID row = i \<and> session = sessionRecord row"
  by (auto simp: reconciliationSessionByID_def split: option.splits dest: find_in)

lemma prepared_selection:
  assumes ok: "statementsOk rst" and p: "prepareSelection now operation reason rst input = Inr params"
  shows "workedOut rst params"
proof -
  from p obtain ids session0 sel diff where ids: "cleanPositiveInt64IDs (sx_PostingVersionIDs input) = Inr ids"
    and s0: "reconciliationSessionByID rst BookID (sx_SessionID input) = Inr session0"
    and len: "length (filter (\<lambda>c. rq_PostingID c \<in> set ids) (sessionCandidates rst session0)) = length ids"
    and tot: "reconciliationTotals (loadReconciliationSessionChildren rst session0) (filter (\<lambda>c. rq_PostingID c \<in> set ids) (sessionCandidates rst session0)) = Inr (sel, diff)"
    and params: "select_BookID params = BookID" "select_SessionID params = sx_SessionID input" "select_PostingVersionIDs params = ids"
      "select_DifferenceValue params = bq_QuantityValue diff" "select_DifferenceScale params = bq_QuantityScale diff"
    by (auto simp: prepareSelection_def Let_def repo_ReconciliationSessionByID_def loadReconciliationSessionChildren_def result_simps split: prod.splits)
  let ?P = "filter (\<lambda>c. rq_PostingID c \<in> set ids) (sessionCandidates rst session0)" and ?st = "rs_ledger rst"
  note st = statementsOk_parts(1) [OF ok] and sel = candidates_selection [of rst session0]
  have pos: "distinct ids" "\<forall>i\<in>set ids. 0 < i" using cleanIDs_ok [of "[]" "[]"] ids by (simp_all add: cleanPositiveInt64IDs_def)
  have "distinct (map rq_PostingID ?P)" by (rule distinct_map_filter [OF selection_ids(1) [OF st sel]])
  then have m: "mset (map rq_PostingID ?P) = mset ids" by (rule mset_of_all) (use pos(1) len in auto)
  have rows: "r \<in> set ?P \<Longrightarrow> r \<in> set (sessionCandidates rst session0)" for r by simp
  note facts = selected_posting [OF st sel rows]
  from sessionByID_Inr [OF s0] obtain row where row: "row \<in> set (rs_sessions rst)" "sn_BookID row = BookID" "sn_ID row = sx_SessionID input" "session0 = sessionRecord row" by blast
  have same: "sessionFacts (loadReconciliationSessionChildren rst session0) = sessionFacts row"
    by (simp add: loadReconciliationSessionChildren_def sessionFacts_def sessionKey_def row(4)) (simp add: sessionRecord_def sessionFields.defs ReconciliationSessionRecord.defs)
  have scales: "storedScale (sn_StatementBalanceScale row)" "storedScale (sn_StartingBalanceScale row)"
    using statementsOk_parts(6) [OF ok row(1)] unfolding sessionOk_def by blast+
  have "statementVal row = startingVal row + (\<Sum>r\<leftarrow>?P. rqVal r) + decVal (BigInt (bq_QuantityValue diff)) (bq_QuantityScale diff)"
    using totals_exact [OF _ _ _ tot] facts(5) scales unfolding sessionFacts_eq [OF same] by blast
  moreover have "(\<Sum>r\<leftarrow>?P. rqVal r) = (\<Sum>i\<leftarrow>ids. valueOf ?st i)" by (rule sum_by_id [OF m]) (use facts(2) in blast)
  ultimately have eq: "statementVal row = startingVal row + (\<Sum>i\<leftarrow>ids. valueOf ?st i) + decVal (BigInt (bq_QuantityValue diff)) (bq_QuantityScale diff)" by simp
  have "\<exists>facts. backed ?st i facts" if "i \<in> set ids" for i
  proof -
    have "i \<in> set (map rq_PostingID ?P)" using m that by (metis mset_eq_setD)
    then obtain r where "r \<in> set ?P" "rq_PostingID r = i" by auto
    then show ?thesis using facts(1) by blast
  qed
  then show ?thesis unfolding workedOut_def params using pos row(1-3) eq by blast
qed

lemma selectedSession_facts: "sessionFacts (selectedSession params audit s) = sessionFacts s"
  by (simp add: selectedSession_def sessionFacts_def sessionKey_def)

lemma selectedSession_difference:
  "differenceVal (selectedSession params audit s) = decVal (BigInt (select_DifferenceValue params)) (select_DifferenceScale params)"
  by (simp add: selectedSession_def differenceVal_def)

lemma selectionOf_replaced:
  "selectionOf (filter (\<lambda>x. xp_session_id x \<noteq> i) old @ map (selectionRow i at' actor audit) P) j = (if j = i then map (selectionRow i at' actor audit) P else selectionOf old j)"
proof -
  have "filter (\<lambda>x. xp_session_id x = i) (filter (\<lambda>x. xp_session_id x \<noteq> i) old) = []" by simp
  moreover have "filter (\<lambda>x. xp_session_id x = j) (filter (\<lambda>x. xp_session_id x \<noteq> i) old) = filter (\<lambda>x. xp_session_id x = j) old" if "j \<noteq> i"
    using that by (simp add: conj_commute cong: conj_cong)
  moreover have "filter (\<lambda>x. xp_session_id x = j) (map (selectionRow i at' actor audit) P) = (if j = i then map (selectionRow i at' actor audit) P else [])"
    by (simp add: selectionRow_def filter_map o_def)
  ultimately show ?thesis by (simp add: selectionOf_def)
qed

lemma replaced_selections:
  assumes ok: "storeOk st" and old: "selectionsOk st sessions X" and s: "s \<in> set sessions" "sn_ID s = i"
    and P: "selection st b W P" "\<forall>r\<in>set P. 0 < rq_PostingID r" "\<forall>r\<in>set P. sessionKey s = (b, rq_AccountID r, rq_CommodityID r)"
  shows "selectionsOk st sessions (filter (\<lambda>x. xp_session_id x \<noteq> i) X @ map (selectionRow i at' actor audit) P)"
  unfolding selectionsOk_def
proof (intro conjI ballI)
  let ?row = "selectionRow i at' actor audit"
  have row: "xp_session_id (?row r) = i" "xp_posting_version_id (?row r) = rq_PostingID r" "xp_book_id (?row r) = rq_BookID r" "xp_account_id (?row r) = rq_AccountID r"
    "xp_commodity_id (?row r) = rq_CommodityID r" "xp_entry_date (?row r) = rq_EntryDate r" "xp_quantity_value (?row r) = rq_QuantityValue r"
    "xp_quantity_scale (?row r) = rq_QuantityScale r" for r by (simp_all add: selectionRow_def)
  have "distinct (map (\<lambda>x. (xp_session_id x, xp_posting_version_id x)) (filter (\<lambda>x. xp_session_id x \<noteq> i) X))"
    using old by (simp add: selectionsOk_def distinct_map_filter)
  moreover have "distinct (map (\<lambda>r. (i, rq_PostingID r)) P)" using selection_ids(1) [OF ok P(1)] by (auto simp: distinct_map inj_on_def)
  ultimately show "distinct (map (\<lambda>x. (xp_session_id x, xp_posting_version_id x)) (filter (\<lambda>x. xp_session_id x \<noteq> i) X @ map ?row P))"
    by (auto simp: row o_def)
  fix x assume "x \<in> set (filter (\<lambda>x. xp_session_id x \<noteq> i) X @ map ?row P)"
  then consider "x \<in> set X" | r where "r \<in> set P" "x = ?row r" by auto
  then show "0 < xp_posting_version_id x"
    "backed st (xp_posting_version_id x) (xp_book_id x, xp_account_id x, xp_commodity_id x, xp_entry_date x, xp_quantity_value x, xp_quantity_scale x)"
    "\<exists>s\<in>set sessions. sn_ID s = xp_session_id x \<and> sessionKey s = (xp_book_id x, xp_account_id x, xp_commodity_id x)"
  proof (atomize (full), cases)
    case 1
    show "0 < xp_posting_version_id x \<and> backed st (xp_posting_version_id x) (xp_book_id x, xp_account_id x, xp_commodity_id x, xp_entry_date x, xp_quantity_value x, xp_quantity_scale x) \<and>
        (\<exists>s\<in>set sessions. sn_ID s = xp_session_id x \<and> sessionKey s = (xp_book_id x, xp_account_id x, xp_commodity_id x))"
      by (intro conjI selectionsOk_rows [OF old 1])
  next
    case 2
    note r = selected_posting [OF ok P(1) 2(1)]
    show "0 < xp_posting_version_id x \<and> backed st (xp_posting_version_id x) (xp_book_id x, xp_account_id x, xp_commodity_id x, xp_entry_date x, xp_quantity_value x, xp_quantity_scale x) \<and>
        (\<exists>s\<in>set sessions. sn_ID s = xp_session_id x \<and> sessionKey s = (xp_book_id x, xp_account_id x, xp_commodity_id x))"
      unfolding 2(2) row using P(2,3) 2(1) r(1) s by (auto simp: r(4))
  qed
qed

lemma select_step:
  assumes ok0: "statementsOk rst0" and ok: "statementsOk rst" and since: "follows rst0 rst" and wo: "workedOut rst0 params"
    and w: "repo_ReplaceReconciliationSessionSelection params rst = Inr (rst', r)"
  shows "statementsOk rst'" "follows rst rst'"
proof -
  let ?ids = "select_PostingVersionIDs params"
  from w obtain session rst1 audit P where s: "reconciliationSessionByID rst (select_BookID params) (select_SessionID params) = Inr session"
    and au: "inLedger (insertAuditEvent (reconcileAudit (select_BookID params) (select_ActorUserID params) (select_AuthSessionID params)
         (select_OccurredAt params) (select_RequestID params) (select_OriginType params) (select_Operation params) (select_ChangeReason params))
         (rs_ledger rst)) rst = Inr (rst1, audit)"
    and P: "currentReconciliationPostingsByID rst1 session ?ids = Inr P"
    and rst': "rst' = updateSession (select_BookID params) (select_SessionID params) (selectedSession params audit)
           (replaceSessionPostings (sn_ID session) P (select_OccurredAt params) (select_ActorUserID params) audit rst1)"
    by (auto simp: repo_ReplaceReconciliationSessionSelection_def Let_def result_simps)
  obtain A where A: "rst1 = rst\<lparr> rs_ledger := (rs_ledger rst)\<lparr> st_audit := A \<rparr> \<rparr>" by (rule inLedger_audit [OF au])
  note ok1 = audit_step(1) [OF ok, of A, folded A] and f1 = audit_step(2) [OF ok, of A, folded A]
  note p = statementsOk_parts [OF ok1] and p0 = statementsOk_parts [OF ok0]
  let ?st = "rs_ledger rst1" let ?X = "rs_session_postings rst1" let ?row = "selectionRow (sn_ID session) (select_OccurredAt params) (select_ActorUserID params) audit"
  have since1: "follows rst0 rst1" by (rule follows_trans [OF since f1])
  from wo obtain s0 where ids: "select_BookID params = BookID" "distinct ?ids" "\<forall>i\<in>set ?ids. 0 < i" "\<forall>i\<in>set ?ids. \<exists>facts. backed (rs_ledger rst0) i facts"
    and s0: "s0 \<in> set (rs_sessions rst0)" "sn_ID s0 = select_SessionID params"
      "statementVal s0 = startingVal s0 + (\<Sum>i\<leftarrow>?ids. valueOf (rs_ledger rst0) i) + decVal (BigInt (select_DifferenceValue params)) (select_DifferenceScale params)"
    unfolding workedOut_def by blast
  from sessionByID_Inr [OF s] obtain row where row: "row \<in> set (rs_sessions rst)" "sn_BookID row = BookID" "sn_ID row = select_SessionID params" "session = sessionRecord row"
    using ids(1) by auto
  have row1: "row \<in> set (rs_sessions rst1)" using row(1) by (simp add: A)
  have only: "s = row" if "s \<in> set (rs_sessions rst1)" "sn_ID s = sn_ID row" for s
    using p(5) row1 that by (auto simp: distinct_map dest: inj_onD)
  have same: "sessionFacts s0 = sessionFacts row"
  proof -
    have "sessionFacts s0 \<in> sessionFacts ` set (rs_sessions rst1)" by (rule subsetD [OF _ imageI [OF s0(1)]]) (use since1 in \<open>simp add: follows_def\<close>)
    then obtain s1 where s1: "sessionFacts s0 = sessionFacts s1" "s1 \<in> set (rs_sessions rst1)" by (rule imageE)
    have "s1 = row" by (rule only [OF s1(2)]) (simp only: sessionFacts_eq(1) [OF s1(1) [symmetric]] s0(2) row(3))
    then show ?thesis using s1(1) by simp
  qed
  let ?W = "\<lambda>r. openForSession rst1 session r \<and> rq_PostingID r \<in> set ?ids"
  note cp = current_postings [OF p(1) P ids(2,3)]
  have sel: "selection ?st BookID ?W P" if "P \<noteq> []" using cp(1) that by (auto simp: row(2,4))
  have kept: "valueOf ?st i = valueOf (rs_ledger rst0) i" if "i \<in> set ?ids" for i
  proof -
    have k: "keepsPosted (rs_ledger rst0) ?st" using since1 by (simp add: follows_def)
    from bspec [OF ids(4) that] obtain facts where "backed (rs_ledger rst0) i facts" ..
    then show ?thesis by (rule kept_facts(2) [OF p0(1) p(1) k])
  qed
  have idr: "rq_PostingID r \<in> set ?ids" if "r \<in> set P" for r
  proof -
    have "rq_PostingID r \<in> set (map rq_PostingID P)" using that by simp
    then show ?thesis using cp(2) by (metis mset_eq_setD)
  qed
  have sum: "(\<Sum>r\<leftarrow>P. rqVal r) = (\<Sum>i\<leftarrow>?ids. valueOf (rs_ledger rst0) i)"
  proof -
    have "(\<Sum>r\<leftarrow>P. rqVal r) = (\<Sum>i\<leftarrow>?ids. valueOf ?st i)"
    proof (rule sum_by_id [OF cp(2)], rule ballI)
      fix r assume r: "r \<in> set P"
      then have "P \<noteq> []" by auto
      then show "rqVal r = valueOf ?st (rq_PostingID r)" by (rule selected_posting(2) [OF p(1) sel r])
    qed
    then show ?thesis using kept by (simp cong: map_cong)
  qed
  let ?X' = "filter (\<lambda>x. xp_session_id x \<noteq> sn_ID session) ?X @ map ?row P"
  have X': "selectionsOk ?st (rs_sessions rst1) ?X'"
  proof (cases "P = []")
    case True
    have "selectionsOk ?st (rs_sessions rst1) (filter (\<lambda>x. xp_session_id x \<noteq> sn_ID session) ?X)"
      using p(7) by (simp add: selectionsOk_def distinct_map_filter)
    then show ?thesis by (simp add: True)
  next
    case False
    show ?thesis
    proof (rule replaced_selections [OF p(1) p(7) row1 _ sel [OF False]])
      show "sn_ID row = sn_ID session" by (simp add: row(4))
      show "\<forall>r\<in>set P. 0 < rq_PostingID r" using idr ids(3) by blast
      show "\<forall>r\<in>set P. sessionKey row = (BookID, rq_AccountID r, rq_CommodityID r)"
      proof
        fix r assume "r \<in> set P"
        from selection_ids(2) [OF p(1) sel [OF False] this] have "openForSession rst1 session (plain r)" by blast
        then show "sessionKey row = (BookID, rq_AccountID r, rq_CommodityID r)" by (simp add: openForSession_def sessionKey_def row(2,4))
      qed
    qed
  qed
  let ?rst2 = "replaceSessionPostings (sn_ID session) P (select_OccurredAt params) (select_ActorUserID params) audit rst1"
  have r2: "rs_ledger ?rst2 = ?st" "rs_sessions ?rst2 = rs_sessions rst1" "rs_session_postings ?rst2 = ?X'" "rs_checkpoint_postings ?rst2 = rs_checkpoint_postings rst1"
    by (simp_all add: replaceSessionPostings_def)
  note u = updateSession_facts [of "selectedSession params audit" "select_BookID params" "select_SessionID params" ?rst2, OF selectedSession_facts, folded rst', unfolded r2]
  have r': "rs_ledger rst' = ?st" "rs_session_postings rst' = ?X'" "rs_checkpoint_postings rst' = rs_checkpoint_postings rst1"
    unfolding rst' by (simp_all only: updateSession_fields r2)
  show "statementsOk rst'"
  proof (rule statementsOkI, unfold r')
    show "distinct (map sn_ID (rs_sessions rst'))" by (simp only: u(3) p(5))
    show "selectionsOk ?st (rs_sessions rst') ?X'" by (rule selectionsOk_sessions [OF X']) (simp only: u(2) subset_refl)
    fix s' assume "s' \<in> set (rs_sessions rst')"
    then obtain s where s: "s \<in> set (rs_sessions rst1)" "s' = (if sn_BookID s = select_BookID params \<and> sn_ID s = select_SessionID params then selectedSession params audit s else s)"
      unfolding rst' updateSession_def by (auto simp: r2)
    show "sessionOk (chainRows ?st) ?X' s'"
    proof (cases "sn_ID s = select_SessionID params")
      case True
      then have e: "s = row" using only [OF s(1)] row(3) by simp
      then have s': "s' = selectedSession params audit row" using s(2) row(2) ids(1) True by simp
      note fs = sessionFacts_eq [OF selectedSession_facts [of params audit row], folded s'] and f0 = sessionFacts_eq [OF same]
      have "selectedVal (?row r) = rqVal r" for r by (simp add: selectedVal_def rqVal_def selectionRow_def)
      then have "(\<Sum>x\<leftarrow>selectionOf ?X' (sn_ID row). selectedVal x) = (\<Sum>r\<leftarrow>P. rqVal r)"
        unfolding selectionOf_replaced by (simp add: row(4) o_def)
      moreover have "differenceVal s' = decVal (BigInt (select_DifferenceValue params)) (select_DifferenceScale params)"
        by (simp only: s' selectedSession_difference)
      ultimately have "statementVal row = startingVal row + (\<Sum>x\<leftarrow>selectionOf ?X' (sn_ID row). selectedVal x) + differenceVal s'"
        using s0(3) sum f0(6,7) by simp
      then show ?thesis using p(6) [OF row1] unfolding sessionOk_def fs by blast
    next
      case False
      then have "s' = s" "sn_ID s \<noteq> sn_ID session" using s(2) row(3,4) by simp_all
      then have "selectionOf ?X' (sn_ID s) = selectionOf ?X (sn_ID s)" unfolding selectionOf_replaced by simp
      then show ?thesis using sessionOk_cong [OF refl _ refl] p(6) [OF s(1)] \<open>s' = s\<close> by blast
    qed
  qed (use p(1-4) in blast)+
  have "follows rst1 rst'" using follows_refl [OF p(1)] by (simp add: follows_def r'(1) u(2))
  then show "follows rst rst'" by (rule follows_trans [OF f1])
qed

section \<open>Voiding, and marking postings\<close>

lemma voidSession_step:
  assumes ok: "statementsOk rst" and w: "repo_VoidReconciliationSession params rst = Inr (rst', r)"
  shows "statementsOk rst' \<and> follows rst rst'"
proof -
  from w have "rst' = rst \<or> (\<exists>rst1 audit. inLedger (insertAuditEvent (voidAudit params) (rs_ledger rst)) rst = Inr (rst1, audit) \<and>
      rst' = updateSession (void_BookID params) (void_ID params) (voidedSession params audit) rst1)"
    by (auto simp: repo_VoidReconciliationSession_def Let_def result_simps split: if_splits)
  then show ?thesis
  proof (elim disjE exE conjE)
    assume "rst' = rst"
    then show ?thesis using ok follows_refl statementsOk_parts(1) by blast
  next
    fix rst1 audit assume au: "inLedger (insertAuditEvent (voidAudit params) (rs_ledger rst)) rst = Inr (rst1, audit)"
      and rst': "rst' = updateSession (void_BookID params) (void_ID params) (voidedSession params audit) rst1"
    obtain A where A: "rst1 = rst\<lparr> rs_ledger := (rs_ledger rst)\<lparr> st_audit := A \<rparr> \<rparr>" by (rule inLedger_audit [OF au])
    note s1 = audit_step [OF ok, of A, folded A]
    have "sessionFacts (voidedSession params audit s) = sessionFacts s" "differenceVal (voidedSession params audit s) = differenceVal s" for s
      by (simp_all add: voidedSession_def sessionFacts_def sessionKey_def differenceVal_def)
    note c = change_step [OF s1(1) this, of "void_BookID params" "void_ID params", folded rst']
    show ?thesis by (intro conjI c(1) follows_trans [OF s1(2) c(2)])
  qed
qed

lemma voidedCheckpoint_chain: "chainOf (voidedCheckpoint params audit c) = chainOf c" "boundaryOk st (voidedCheckpoint params audit c) = boundaryOk st c"
  "ck_id (voidedCheckpoint params audit c) = ck_id c" "ck_status (voidedCheckpoint params audit c) = ''active'' \<Longrightarrow> voidedCheckpoint params audit c = c"
  by (auto simp: voidedCheckpoint_def chainOf_def boundaryOk_def)

lemma voidCheckpoint_step:
  assumes ok: "statementsOk rst" and w: "repo_VoidReconciliationCheckpoint params rst = Inr (rst', r)"
  shows "statementsOk rst' \<and> follows rst rst'"
proof -
  from w have "rst' = rst \<or> (\<exists>rst1 audit. inLedger (insertAuditEvent (voidAudit params) (rs_ledger rst)) rst = Inr (rst1, audit) \<and>
      rst' = rst1\<lparr> rs_ledger := (rs_ledger rst1)\<lparr> st_checkpoints := map (voidedCheckpoint params audit) (st_checkpoints (rs_ledger rst1)) \<rparr> \<rparr>)"
    by (auto simp: repo_VoidReconciliationCheckpoint_def Let_def result_simps split: if_splits)
  then show ?thesis
  proof (elim disjE exE conjE)
    assume "rst' = rst"
    then show ?thesis using ok follows_refl statementsOk_parts(1) by blast
  next
    fix rst1 audit assume au: "inLedger (insertAuditEvent (voidAudit params) (rs_ledger rst)) rst = Inr (rst1, audit)"
      and rst': "rst' = rst1\<lparr> rs_ledger := (rs_ledger rst1)\<lparr> st_checkpoints := map (voidedCheckpoint params audit) (st_checkpoints (rs_ledger rst1)) \<rparr> \<rparr>"
    obtain A where A: "rst1 = rst\<lparr> rs_ledger := (rs_ledger rst)\<lparr> st_audit := A \<rparr> \<rparr>" by (rule inLedger_audit [OF au])
    note s1 = audit_step [OF ok, of A, folded A] and vc = voidedCheckpoint_chain
    let ?st = "rs_ledger rst1"
    define st' where "st' = ?st\<lparr> st_checkpoints := map (voidedCheckpoint params audit) (st_checkpoints ?st) \<rparr>"
    note st = statementsOk_parts(1) [OF s1(1)]
    have v: "st_versions st' = st_versions ?st" "st_transactions st' = st_transactions ?st" "st_lines st' = st_lines ?st"
      and cs: "st_checkpoints st' = map (voidedCheckpoint params audit) (st_checkpoints ?st)" by (simp_all add: st'_def)
    have ids: "map ck_id (st_checkpoints st') = map ck_id (st_checkpoints ?st)" by (simp add: cs vc(3))
    have "tableOk (st_checkpoints st')" using storeOk_parts(7) [OF st] by (simp add: tableOk_def ids list_all_iff) (simp add: cs vc(3))
    moreover have "\<forall>c\<in>set (st_checkpoints st'). boundaryOk ?st c" using storeOk_parts(8) [OF st] by (simp add: cs vc(2))
    ultimately have ok': "storeOk st'" using st unfolding storeOk_def reads_versions(4,5,6) [OF v(1)] by (simp add: v)
    have chain: "chainRows st' = chainRows ?st" by (simp add: chainRows_def cs vc(1))
    have kept: "balancesKept ?st st'"
      unfolding balancesKept_def
    proof (intro ballI impI conjI)
      fix c assume c: "c \<in> set (st_checkpoints st')" "ck_status c = ''active''"
      from c(1) obtain x where x: "x \<in> set (st_checkpoints ?st)" "c = voidedCheckpoint params audit x" by (auto simp: cs)
      then have "c = x" using vc(4) [of params audit x] c(2) by simp
      then show "c \<in> set (st_checkpoints ?st)" using x(1) by simp
      show "registerBalance st' c = registerBalance ?st c" by (rule registerBalance_reads [OF v(1,2)])
    qed
    have s2: "statementsOk rst'" unfolding rst' by (rule ledger_step [OF s1(1) ok' [unfolded st'_def] keepsPosted_same chain [unfolded st'_def]]) simp
    have "follows rst1 rst'"
      unfolding follows_def using keepsPosted_same [OF v(1)] closedKept_balances [OF st kept chain] by (simp add: rst' st'_def)
    then show ?thesis by (intro conjI s2 follows_trans [OF s1(2)])
  qed
qed

lemma marked_step:
  assumes ok: "statementsOk rst" and sel: "selection (rs_ledger rst) b W P" and ord: "mapOrder ord" and P: "append_Postings params = P"
    and w: "inLedger (appendReconciliationStatusVersions ord params (rs_ledger rst)) rst = Inr (rst', rs)"
  shows "statementsOk rst'" "follows rst rst'"
proof -
  from w obtain st where st: "appendReconciliationStatusVersions ord params (rs_ledger rst) = Inr (st, rs)" "rst' = rst\<lparr> rs_ledger := st \<rparr>"
    by (auto simp: inLedger_Inr)
  note ok0 = statementsOk_parts(1) [OF ok]
  from append_selection(3) [OF ok0 sel ord P st(1)] have k: "storeOk st" "st_checkpoints st = st_checkpoints (rs_ledger rst)"
    "\<And>c. registerBalance st c = registerBalance (rs_ledger rst) c" "keepsPosted (rs_ledger rst) st" using grows_keepsPosted by blast+
  show "statementsOk rst'" unfolding st(2) by (rule ledger_step [OF ok k(1,4)]) (simp add: chainRows_def k(2))
  show "follows rst rst'" using closedKept_same [OF ok0 k(2,3)] k(4) by (simp add: follows_def st(2))
qed

lemma mark_step:
  assumes ok: "statementsOk rst" and ord: "mapOrder ord" and w: "repo_ChangePostingReconciliationStatus ord params rst = Inr (rst', r)"
  shows "statementsOk rst' \<and> follows rst rst'"
proof -
  from w obtain P rst1 audit rs where P: "currentAccountPostingsByID rst (mark_BookID params) (mark_AccountID params) (mark_PostingVersionIDs params) = Inr P"
    and au: "inLedger (insertAuditEvent (reconcileAudit (mark_BookID params) (mark_ActorUserID params) (mark_AuthSessionID params)
         (mark_OccurredAt params) (mark_RequestID params) (mark_OriginType params) ''reconciliation.posting_status'' (mark_ChangeReason params))
         (rs_ledger rst)) rst = Inr (rst1, audit)"
    and ap: "inLedger (appendReconciliationStatusVersions ord (markStatus params P audit) (rs_ledger rst1)) rst1 = Inr (rst', rs)"
    by (auto simp: repo_ChangePostingReconciliationStatus_def Let_def result_simps)
  let ?W = "\<lambda>posting. rq_AccountID posting = mark_AccountID params \<and> rq_PostingID posting \<in> set (mark_PostingVersionIDs params)"
  obtain A where A: "rst1 = rst\<lparr> rs_ledger := (rs_ledger rst)\<lparr> st_audit := A \<rparr> \<rparr>" by (rule inLedger_audit [OF au])
  note s1 = audit_step [OF ok, of A, folded A]
  have "P = reconciliationPostingSelect (rs_ledger rst) (mark_BookID params) ?W"
    using P by (simp add: currentAccountPostingsByID_def Let_def split: if_splits)
  then have "selection (rs_ledger rst) (mark_BookID params) ?W P" by (simp only: selection_select)
  then have sel: "selection (rs_ledger rst1) (mark_BookID params) ?W P" using selection_cong [of "rs_ledger rst1" "rs_ledger rst"] by (simp add: A)
  have post: "append_Postings (markStatus params P audit) = P" by (simp add: markStatus_def)
  note s2 = marked_step [OF s1(1) sel ord post ap]
  show ?thesis by (intro conjI s2(1) follows_trans [OF s1(2) s2(2)])
qed

end
