(* ===== verification/Finishing.thy ===== *)
theory Finishing
  imports Sessions
begin

text \<open>
  Finishing a session: the selection has the postings the statement was worked out for, on their new versions; the new
  checkpoint continues the chain of the session's starting checkpoint; and no line that it links is linked before on that chain.
\<close>

section \<open>Chains and the new checkpoint\<close>

lemma find_new: "find P (xs @ [x]) = (case find P xs of None \<Rightarrow> if P x then Some x else None | Some y \<Rightarrow> Some y)"
  by (induction xs) auto

lemma chainOk_row:
  assumes "chainOk T L" and "c \<in> set T"
  shows "storedScale (ck_statement_balance_scale c)" "stated c = startOf T (ck_previous_checkpoint_id c) + (\<Sum>k\<leftarrow>linksOf L (ck_id c). linkVal k)"
    "ck_previous_checkpoint_id c = Some p \<Longrightarrow> p < ck_id c \<and> (\<exists>d\<in>set T. ck_id d = p \<and> position d = position c)"
  using assms unfolding chainOk_def by blast+

lemma previousOf_append: "previousOf (T @ [n]) = previousOf T \<union> {(ck_id n, p) |p. ck_previous_checkpoint_id n = Some p}"
  by (auto simp: previousOf_def)

lemma chain_ids:
  assumes "chainOk T L" and "(i, j) \<in> (previousOf T)\<^sup>*" and "i \<in> ck_id ` set T"
  shows "j \<in> ck_id ` set T \<and> j \<le> i"
  using assms(2)
proof induction
  case (step j l)
  from step(2) obtain c where c: "c \<in> set T" "ck_id c = j" "ck_previous_checkpoint_id c = Some l" by (auto simp: previousOf_def)
  from chainOk_row(3) [OF assms(1) c(1,3)] show ?case using step(3) c(2) by auto
qed (use assms(3) in simp)

lemma chain_unchanged:
  assumes ok: "chainOk T L" and n: "ck_id n \<notin> ck_id ` set T" and i: "i \<in> ck_id ` set T"
  shows "(i, j) \<in> (previousOf (T @ [n]))\<^sup>* \<longleftrightarrow> (i, j) \<in> (previousOf T)\<^sup>*"
proof
  assume "(i, j) \<in> (previousOf (T @ [n]))\<^sup>*"
  then show "(i, j) \<in> (previousOf T)\<^sup>*"
  proof induction
    case (step j l)
    have "j \<noteq> ck_id n" using chain_ids [OF ok step(3) i] n by metis
    then have "(j, l) \<in> previousOf T" using step(2) by (auto simp: previousOf_append)
    then show ?case using step(3) by (rule rtrancl_into_rtrancl [rotated])
  qed simp
next
  assume "(i, j) \<in> (previousOf T)\<^sup>*"
  then show "(i, j) \<in> (previousOf (T @ [n]))\<^sup>*" by (rule rtrancl_mono [THEN subsetD, rotated]) (simp add: previousOf_append)
qed

lemma chain_of_new:
  assumes ok: "chainOk T L" and n: "ck_id n \<notin> ck_id ` set T" and p: "ck_previous_checkpoint_id n = Some p" "p \<in> ck_id ` set T"
  shows "(ck_id n, j) \<in> (previousOf (T @ [n]))\<^sup>* \<longleftrightarrow> j = ck_id n \<or> (p, j) \<in> (previousOf T)\<^sup>*"
proof
  assume "(ck_id n, j) \<in> (previousOf (T @ [n]))\<^sup>*"
  then show "j = ck_id n \<or> (p, j) \<in> (previousOf T)\<^sup>*"
  proof (cases rule: converse_rtranclE)
    case (step q)
    have "(ck_id n, q) \<notin> previousOf T" using n by (auto simp: previousOf_def)
    then have "q = p" using step(1) p(1) by (auto simp: previousOf_append)
    then show ?thesis using step(2) chain_unchanged [OF ok n p(2)] by blast
  qed simp
next
  assume "j = ck_id n \<or> (p, j) \<in> (previousOf T)\<^sup>*"
  moreover have "(ck_id n, p) \<in> previousOf (T @ [n])" using p(1) by (simp add: previousOf_append)
  ultimately show "(ck_id n, j) \<in> (previousOf (T @ [n]))\<^sup>*"
    using chain_unchanged [OF ok n p(2)] by (metis converse_rtrancl_into_rtrancl rtrancl.rtrancl_refl)
qed

lemma chain_of_first:
  assumes "ck_id n \<notin> ck_id ` set T" and "ck_previous_checkpoint_id n = None"
  shows "(ck_id n, j) \<in> (previousOf (T @ [n]))\<^sup>* \<longleftrightarrow> j = ck_id n"
proof -
  have "(ck_id n, q) \<notin> previousOf (T @ [n])" for q using assms by (auto simp: previousOf_append) (auto simp: previousOf_def)
  then show ?thesis by (metis converse_rtranclE rtrancl.rtrancl_refl)
qed

lemma chainLinks_closure: "chainLinks T L i = filter (\<lambda>k. (i, kp_checkpoint_id k) \<in> (previousOf T)\<^sup>*) L"
  unfolding chainLinks_def coveringFrom_closure by (intro filter_cong) auto

text \<open>A checkpoint appended to the table with its links, where it starts from one of the table or from none.\<close>

lemma chainOk_append:
  assumes ok: "chainOk T L" and links: "\<forall>k\<in>set L. kp_checkpoint_id k \<in> ck_id ` set T" and n: "\<forall>c\<in>set T. ck_id c < ck_id n"
    and new: "\<forall>k\<in>set N. kp_checkpoint_id k = ck_id n" and scale: "storedScale (ck_statement_balance_scale n)"
    and p: "\<And>p. ck_previous_checkpoint_id n = Some p \<Longrightarrow> \<exists>d\<in>set T. ck_id d = p \<and> position d = position n"
    and sum: "stated n = startOf T (ck_previous_checkpoint_id n) + (\<Sum>k\<leftarrow>N. linkVal k)"
  shows "chainOk (T @ [n]) (L @ N)"
proof -
  have old: "startOf (T @ [n]) q = startOf T q" if "\<And>p. q = Some p \<Longrightarrow> \<exists>d\<in>set T. ck_id d = p" for q
  proof (cases q)
    case (Some p)
    then have "find (\<lambda>c. ck_id c = p) T \<noteq> None" using that by (auto simp: find_None_iff)
    then show ?thesis by (auto simp: startOf_def Some find_new)
  qed (simp add: startOf_def)
  have fresh: "ck_id n \<notin> ck_id ` set T" using n by force
  have l1: "linksOf (L @ N) (ck_id c) = linksOf L (ck_id c)" if "c \<in> set T" for c
  proof -
    have "ck_id n \<noteq> ck_id c" using n that by force
    then show ?thesis using new by (auto simp: linksOf_def filter_empty_conv)
  qed
  have "kp_checkpoint_id k \<noteq> ck_id n" if "k \<in> set L" for k using bspec [OF links that] fresh by metis
  then have l2: "linksOf (L @ N) (ck_id n) = N" using new by (simp add: linksOf_def filter_empty_conv filter_id_conv)
  show ?thesis unfolding chainOk_def
  proof (rule ballI)
    fix c assume "c \<in> set (T @ [n])"
    then consider (old) "c \<in> set T" | (new) "c = n" by auto
    then show "storedScale (ck_statement_balance_scale c) \<and>
       stated c = startOf (T @ [n]) (ck_previous_checkpoint_id c) + (\<Sum>k\<leftarrow>linksOf (L @ N) (ck_id c). linkVal k) \<and>
       (\<forall>p. ck_previous_checkpoint_id c = Some p \<longrightarrow> p < ck_id c \<and> (\<exists>d\<in>set (T @ [n]). ck_id d = p \<and> position d = position c))"
    proof cases
      case old
      note r = chainOk_row [OF ok this]
      have "startOf (T @ [n]) (ck_previous_checkpoint_id c) = startOf T (ck_previous_checkpoint_id c)" by (rule \<open>\<And>q. (\<And>p. q = Some p \<Longrightarrow> \<exists>d\<in>set T. ck_id d = p) \<Longrightarrow> startOf (T @ [n]) q = startOf T q\<close>) (use r(3) in blast)
      then show ?thesis using r l1 [OF old] by auto
    next
      case new
      have "startOf (T @ [n]) (ck_previous_checkpoint_id n) = startOf T (ck_previous_checkpoint_id n)" by (rule old) (use p in blast)
      then show ?thesis using scale sum l2 p n by (fastforce simp: new)
    qed
  qed
qed

lemma onceOk_append:
  assumes ok: "chainOk T L" and once: "onceOk st T L" and links: "\<forall>k\<in>set L. kp_checkpoint_id k \<in> ck_id ` set T" and n: "\<forall>c\<in>set T. ck_id c < ck_id n"
    and new: "\<forall>k\<in>set N. kp_checkpoint_id k = ck_id n" and p: "\<And>p. ck_previous_checkpoint_id n = Some p \<Longrightarrow> p \<in> ck_id ` set T"
    and lines: "distinct (map (\<lambda>k. lineOf st (kp_posting_version_id k)) N)"
    and apart: "\<And>p k k'. ck_previous_checkpoint_id n = Some p \<Longrightarrow> k \<in> set (chainLinks T L p) \<Longrightarrow> k' \<in> set N \<Longrightarrow>
      lineOf st (kp_posting_version_id k) \<noteq> lineOf st (kp_posting_version_id k')"
  shows "onceOk st (T @ [n]) (L @ N)"
proof -
  have fresh: "ck_id n \<notin> ck_id ` set T" using n by force
  have l1: "chainLinks (T @ [n]) (L @ N) (ck_id c) = chainLinks T L (ck_id c)" if c: "c \<in> set T" for c
  proof -
    have i: "ck_id c \<in> ck_id ` set T" using c by simp
    have "(ck_id c, ck_id n) \<notin> (previousOf T)\<^sup>*" using chain_ids [OF ok _ i] fresh by blast
    then show ?thesis using new unfolding chainLinks_closure chain_unchanged [OF ok fresh i] by (auto simp: filter_empty_conv)
  qed
  have foreign: "kp_checkpoint_id k \<noteq> ck_id n" if "k \<in> set L" for k using bspec [OF links that] fresh by metis
  then have old: "filter (\<lambda>k. kp_checkpoint_id k = ck_id n) L = []" by (simp add: filter_empty_conv)
  have "distinct (map (\<lambda>k. lineOf st (kp_posting_version_id k)) (chainLinks (T @ [n]) (L @ N) (ck_id n)))"
  proof (cases "ck_previous_checkpoint_id n")
    case None
    then have "chainLinks (T @ [n]) (L @ N) (ck_id n) = N"
      using new old by (simp add: chainLinks_closure chain_of_first [OF fresh] filter_id_conv)
    then show ?thesis using lines by simp
  next
    case (Some p)
    note c = chain_of_new [OF ok fresh Some assms(6) [OF Some]]
    have "filter (\<lambda>k. kp_checkpoint_id k = ck_id n \<or> (p, kp_checkpoint_id k) \<in> (previousOf T)\<^sup>*) L = chainLinks T L p"
      unfolding chainLinks_closure using foreign by (intro filter_cong) auto
    then have l: "chainLinks (T @ [n]) (L @ N) (ck_id n) = chainLinks T L p @ N"
      using new unfolding chainLinks_closure [of "T @ [n]"] c by (simp add: filter_id_conv)
    obtain d where "d \<in> set T" "ck_id d = p" using assms(6) [OF Some] by auto
    then have "distinct (map (\<lambda>k. lineOf st (kp_posting_version_id k)) (chainLinks T L p))" using once unfolding onceOk_def by blast
    then show ?thesis using lines apart [OF Some] by (auto simp: l)
  qed
  then show ?thesis using once l1 unfolding onceOk_def by simp
qed

section \<open>A checkpoint closed\<close>

lemma storeOk_checkpoint:
  assumes ok: "storeOk st" and n: "ck_id n = nextAbove (map ck_id (st_checkpoints st))" and bound: "boundaryOk st n"
  shows "storeOk (st\<lparr> st_checkpoints := st_checkpoints st @ [n] \<rparr>)"
proof -
  let ?st = "st\<lparr> st_checkpoints := st_checkpoints st @ [n] \<rparr>"
  have v: "st_versions ?st = st_versions st" by simp
  have "\<forall>x\<in>set (map ck_id (st_checkpoints st)). 0 < x" using storeOk_parts(7) [OF ok] by (auto simp: tableOk_def list_all_iff)
  then have "0 < ck_id n" unfolding n by (rule nextAbove_pos)
  moreover have "ck_id n \<notin> ck_id ` set (st_checkpoints st)" using nextAbove_fresh [of "map ck_id (st_checkpoints st)"] by (simp add: n)
  ultimately have "tableOk (st_checkpoints st @ [n])" using storeOk_parts(7) [OF ok] by (simp add: tableOk_def)
  then show ?thesis using ok bound unfolding storeOk_def reads_versions(4,5,6) [OF v] by simp
qed

lemma sessionOk_mono: "sessionOk T X s \<Longrightarrow> set T \<subseteq> set T' \<Longrightarrow> sessionOk T' X s"
  unfolding sessionOk_def by (auto split: option.splits)

lemma chainRows_in: "ck_id ` set (chainRows st) = ck_id ` set (st_checkpoints st)"
  by (simp add: chainRows_def image_image)

lemma linksOk_row:
  assumes "linksOk st T L" and "k \<in> set L"
  shows "backed st (kp_posting_version_id k) (kp_book_id k, kp_account_id k, kp_commodity_id k, kp_entry_date k, kp_quantity_value k, kp_quantity_scale k)"
    "\<exists>c\<in>set T. ck_id c = kp_checkpoint_id k \<and> position c = (kp_book_id k, kp_account_id k, kp_commodity_id k)" "kp_checkpoint_id k \<in> ck_id ` set T"
  using assms unfolding linksOk_def by blast (use assms in \<open>force simp: linksOk_def\<close>)+

lemma closing_step:
  assumes ok: "statementsOk rst" and n: "ck_id n = nextAbove (map ck_id (st_checkpoints (rs_ledger rst)))" and bound: "boundaryOk (rs_ledger rst) n"
    and scale: "storedScale (ck_statement_balance_scale n)"
    and p: "\<And>p. ck_previous_checkpoint_id n = Some p \<Longrightarrow> \<exists>d\<in>set (chainRows (rs_ledger rst)). ck_id d = p \<and> position d = position n"
    and sum: "stated n = startOf (chainRows (rs_ledger rst)) (ck_previous_checkpoint_id n) + (\<Sum>k\<leftarrow>N. linkVal k)"
    and new: "\<And>k. k \<in> set N \<Longrightarrow> kp_checkpoint_id k = ck_id n \<and> position n = (kp_book_id k, kp_account_id k, kp_commodity_id k) \<and>
      backed (rs_ledger rst) (kp_posting_version_id k) (kp_book_id k, kp_account_id k, kp_commodity_id k, kp_entry_date k, kp_quantity_value k, kp_quantity_scale k)"
    and lines: "distinct (map (\<lambda>k. lineOf (rs_ledger rst) (kp_posting_version_id k)) N)"
    and apart: "\<And>p k k'. ck_previous_checkpoint_id n = Some p \<Longrightarrow> k \<in> set (chainLinks (chainRows (rs_ledger rst)) (rs_checkpoint_postings rst) p) \<Longrightarrow> k' \<in> set N \<Longrightarrow>
      lineOf (rs_ledger rst) (kp_posting_version_id k) \<noteq> lineOf (rs_ledger rst) (kp_posting_version_id k')"
    and rst': "rst' = rst\<lparr> rs_ledger := (rs_ledger rst)\<lparr> st_checkpoints := st_checkpoints (rs_ledger rst) @ [n] \<rparr>,
      rs_checkpoint_postings := rs_checkpoint_postings rst @ N \<rparr>"
  shows "statementsOk rst'" "follows rst rst'"
proof -
  note q = statementsOk_parts [OF ok]
  let ?st = "rs_ledger rst" let ?T = "chainRows ?st" let ?L = "rs_checkpoint_postings rst"
  define st' where "st' = ?st\<lparr> st_checkpoints := st_checkpoints ?st @ [n] \<rparr>"
  have r': "rs_ledger rst' = st'" "rs_sessions rst' = rs_sessions rst" "rs_session_postings rst' = rs_session_postings rst"
    "rs_checkpoint_postings rst' = ?L @ N" by (simp_all add: rst' st'_def)
  have v: "st_versions st' = st_versions ?st" and t: "st_transactions st' = st_transactions ?st" by (simp_all add: st'_def)
  have T: "chainRows st' = ?T @ [chainOf n]" by (simp add: st'_def chainRows_def)
  have kept: "keepsPosted ?st st'" by (rule keepsPosted_same [OF v])
  have line: "lineOf st' = lineOf ?st" by (simp add: fun_eq_iff lineOf_def reads_versions(6) [OF v])
  have le: "\<forall>c\<in>set ?T. ck_id c < ck_id (chainOf n)"
    using nextAbove_gt [of _ "map ck_id (st_checkpoints ?st)"] by (auto simp: chainRows_def n)
  have links: "\<forall>k\<in>set ?L. kp_checkpoint_id k \<in> ck_id ` set ?T" using linksOk_row(3) [OF q(3)] by blast
  have newid: "\<forall>k\<in>set N. kp_checkpoint_id k = ck_id (chainOf n)" using new by simp
  show "statementsOk rst'"
  proof (rule statementsOkI, unfold r' T)
    show "storeOk st'" unfolding st'_def by (rule storeOk_checkpoint [OF q(1) n bound])
    show "chainOk (?T @ [chainOf n]) (?L @ N)"
      by (rule chainOk_append [OF q(2) links le newid]) (use scale p sum in simp_all)
    show "linksOk st' (?T @ [chainOf n]) (?L @ N)"
      unfolding linksOk_def
    proof (intro ballI conjI)
      fix k assume "k \<in> set (?L @ N)"
      then consider (old) "k \<in> set ?L" | (new) "k \<in> set N" by auto
      then have "backed ?st (kp_posting_version_id k) (kp_book_id k, kp_account_id k, kp_commodity_id k, kp_entry_date k, kp_quantity_value k, kp_quantity_scale k) \<and>
          (\<exists>c\<in>set (?T @ [chainOf n]). ck_id c = kp_checkpoint_id k \<and> position c = (kp_book_id k, kp_account_id k, kp_commodity_id k))"
      proof cases
        case old
        note r = linksOk_row [OF q(3) old]
        show ?thesis using r(1,2) by auto
      next
        case new
        show ?thesis using assms(7) [OF new] by auto
      qed
      then show "backed st' (kp_posting_version_id k) (kp_book_id k, kp_account_id k, kp_commodity_id k, kp_entry_date k, kp_quantity_value k, kp_quantity_scale k)"
        "\<exists>c\<in>set (?T @ [chainOf n]). ck_id c = kp_checkpoint_id k \<and> position c = (kp_book_id k, kp_account_id k, kp_commodity_id k)"
        using backed_kept [OF kept] by blast+
    qed
    have "onceOk ?st (?T @ [chainOf n]) (?L @ N)"
    proof (rule onceOk_append [OF q(2) q(4) links le newid _ lines])
      show "q \<in> ck_id ` set ?T" if "ck_previous_checkpoint_id (chainOf n) = Some q" for q using p [of q] that by auto
    qed (use apart in simp)
    then show "onceOk st' (?T @ [chainOf n]) (?L @ N)" by (simp add: onceOk_def line)
    show "distinct (map sn_ID (rs_sessions rst))" by (rule q(5))
    show "sessionOk (?T @ [chainOf n]) (rs_session_postings rst) s" if "s \<in> set (rs_sessions rst)" for s
      by (rule sessionOk_mono [OF q(6) [OF that]]) auto
    show "selectionsOk st' (rs_sessions rst) (rs_session_postings rst)"
      using q(7) backed_kept [OF kept] unfolding selectionsOk_def by blast
  qed
  have "closedKept ?st st'"
    unfolding closedKept_def
  proof (intro conjI ballI impI)
    show "ck_id ` set (st_checkpoints ?st) \<subseteq> ck_id ` set (st_checkpoints st')" by (auto simp: st'_def)
    fix c' c assume c: "c' \<in> set (st_checkpoints st')" "c \<in> set (st_checkpoints ?st)" "ck_id c = ck_id c'"
    have "ck_id c < ck_id n" using nextAbove_gt [of "ck_id c" "map ck_id (st_checkpoints ?st)"] c(2) by (simp add: n)
    then have "c' \<in> set (st_checkpoints ?st)" using c(1,3) by (auto simp: st'_def)
    then show "c' = c" using checkpoint_unique [OF q(1) _ c(2)] c(3) by simp
    show "registerBalance st' c' = registerBalance ?st c'" by (rule registerBalance_reads [OF v t])
  qed
  then show "follows rst rst'" using kept by (simp add: follows_def r')
qed

section \<open>Finishing a session\<close>

lemma previousOf_chain [simp]: "previousOf (chainRows st) = previousOf (st_checkpoints st)"
proof (rule set_eqI, rule prod.induct)
  fix i j
  have "(i, j) \<in> previousOf (chainRows st) \<longleftrightarrow> (\<exists>c\<in>set (st_checkpoints st). i = ck_id (chainOf c) \<and> ck_previous_checkpoint_id (chainOf c) = Some j)"
    unfolding previousOf_def chainRows_def by fastforce
  then show "(i, j) \<in> previousOf (chainRows st) \<longleftrightarrow> (i, j) \<in> previousOf (st_checkpoints st)" by (auto simp: previousOf_def)
qed

lemma infoVal:
  obtains val line acct com where "\<And>r. rqVal r = val (postingInfo r)" "\<And>r. rq_PostingLineID r = line (postingInfo r)"
    "\<And>r. rq_AccountID r = acct (postingInfo r)" "\<And>r. rq_CommodityID r = com (postingInfo r)"
proof -
  show thesis
    by (rule that [of "\<lambda>(t, l, d, a, m, q, sc). decVal (BigInt q) sc" "\<lambda>(t, l, d, a, m, q, sc). l" "\<lambda>(t, l, d, a, m, q, sc). a" "\<lambda>(t, l, d, a, m, q, sc). m"])
      (simp_all add: postingInfo_def rqVal_def)
qed

lemma same_infos:
  assumes "mset (map postingInfo rs) = mset (map postingInfo P)"
  shows "(\<Sum>r\<leftarrow>rs. rqVal r) = (\<Sum>r\<leftarrow>P. rqVal r)" "mset (map rq_PostingLineID rs) = mset (map rq_PostingLineID P)"
    "r \<in> set rs \<Longrightarrow> \<exists>r'\<in>set P. postingInfo r' = postingInfo r"
proof -
  have m: "mset (map (g \<circ> postingInfo) rs) = mset (map (g \<circ> postingInfo) P)" for g :: "_ \<Rightarrow> 'b"
    using arg_cong [OF assms, of "image_mset g"] by (simp add: multiset.map_comp)
  obtain val line acct com where v: "\<And>r. rqVal r = val (postingInfo r)" "\<And>r. rq_PostingLineID r = line (postingInfo r)"
    "\<And>r. rq_AccountID r = acct (postingInfo r)" "\<And>r. rq_CommodityID r = com (postingInfo r)" by (rule infoVal) blast
  have "rqVal = val \<circ> postingInfo" "rq_PostingLineID = line \<circ> postingInfo" using v(1,2) by (simp_all add: fun_eq_iff)
  then show "mset (map rq_PostingLineID rs) = mset (map rq_PostingLineID P)" and "(\<Sum>r\<leftarrow>rs. rqVal r) = (\<Sum>r\<leftarrow>P. rqVal r)"
    using m by (metis sum_mset_sum_list)+
  assume "r \<in> set rs"
  then have "postingInfo r \<in> set (map postingInfo rs)" by simp
  then have "postingInfo r \<in> set (map postingInfo P)" using assms by (metis mset_eq_setD)
  then show "\<exists>r'\<in>set P. postingInfo r' = postingInfo r" by auto
qed

lemma same_info_fields:
  assumes "postingInfo r' = postingInfo r"
  shows "rq_AccountID r' = rq_AccountID r" "rq_CommodityID r' = rq_CommodityID r" "rq_PostingLineID r' = rq_PostingLineID r" "rq_EntryDate r' = rq_EntryDate r"
  using assms by (simp_all add: postingInfo_def)

lemma onCurrent_facts:
  assumes ok: "storeOk st" and r: "onCurrent st b r"
  shows "backed st (rq_PostingID r) (b, rq_AccountID r, rq_CommodityID r, rq_EntryDate r, rq_QuantityValue r, rq_QuantityScale r)"
    "lineOf st (rq_PostingID r) = Some (rq_PostingLineID r)" "rq_BookID r = b"
    "\<exists>v\<in>set (st_versions st). tv_status v = ''posted'' \<and> (\<exists>cur\<in>set (recordPostings (tv_entries v)). pr_BookID (snd cur) = b \<and>
      pr_AccountID (snd cur) = rq_AccountID r \<and> fst cur = rq_EntryDate r \<and> pr_AccountDaySequence (snd cur) = rq_AccountDaySequence r)"
proof -
  from r obtain v cur where v: "currentVersion st (rq_TransactionID r) = Some v" "tv_status v = ''posted''" "tv_book_id v = b"
    and cur: "cur \<in> set (recordPostings (tv_entries v))" "rowInfo (rq_TransactionID r) cur = postingInfo r" "pr_ID (snd cur) = rq_PostingID r"
      "pr_AccountDaySequence (snd cur) = rq_AccountDaySequence r" and b: "rq_BookID r = b" unfolding onCurrent_def by blast
  have vin: "v \<in> set (st_versions st)" using currentVersion_in [OF v(1)] ..
  have book: "pr_BookID (snd cur) = b" using storeOk_parts(4) [OF ok vin] cur(1) v(3) by (simp add: journalOk_def)
  have i: "pr_PostingLineID (snd cur) = rq_PostingLineID r" "fst cur = rq_EntryDate r" "pr_AccountID (snd cur) = rq_AccountID r"
    "pr_CommodityID (snd cur) = rq_CommodityID r" "pr_QuantityValue (snd cur) = rq_QuantityValue r" "pr_QuantityScale (snd cur) = rq_QuantityScale r"
    using cur(2) by (simp_all add: rowInfo_def postingInfo_def)
  show "rq_BookID r = b" by (rule b)
  show "backed st (rq_PostingID r) (b, rq_AccountID r, rq_CommodityID r, rq_EntryDate r, rq_QuantityValue r, rq_QuantityScale r)"
    unfolding backed_def using vin v(2) cur(1,3) i book by (intro bexI [of _ v] conjI bexI [of _ cur]) simp_all
  show "lineOf st (rq_PostingID r) = Some (rq_PostingLineID r)" using stored_facts(1) [OF ok vin cur(1)] i(1) cur(3) by simp
  show "\<exists>v\<in>set (st_versions st). tv_status v = ''posted'' \<and> (\<exists>cur\<in>set (recordPostings (tv_entries v)). pr_BookID (snd cur) = b \<and>
      pr_AccountID (snd cur) = rq_AccountID r \<and> fst cur = rq_EntryDate r \<and> pr_AccountDaySequence (snd cur) = rq_AccountDaySequence r)"
    using vin v(2) cur(1,4) i book by (intro bexI [of _ v] conjI bexI [of _ cur]) simp_all
qed

lemma statementAccountSequence_reached:
  "statementAccountSequence rs d = 0 \<or> (\<exists>r\<in>set rs. rq_EntryDate r = d \<and> rq_AccountDaySequence r = statementAccountSequence rs d)"
proof -
  let ?f = "\<lambda>seq posting. if rq_EntryDate posting = d \<and> rq_AccountDaySequence posting > seq then rq_AccountDaySequence posting else seq"
  have "foldl ?f seq rs = seq \<or> (\<exists>r\<in>set rs. rq_EntryDate r = d \<and> rq_AccountDaySequence r = foldl ?f seq rs)" for seq
    by (induction rs arbitrary: seq) force+
  then show ?thesis by (simp add: statementAccountSequence_def)
qed

lemma boundary_reached:
  assumes "storeOk st" and "\<forall>r\<in>set rs. onCurrent st b r \<and> rq_AccountID r = a"
    and "ck_book_id c = b" and "ck_account_id c = a" and "ck_statement_account_sequence c = statementAccountSequence rs (ck_statement_date c)"
  shows "boundaryOk st c"
proof (cases "statementAccountSequence rs (ck_statement_date c) = 0")
  case False
  then obtain r where r: "r \<in> set rs" "rq_EntryDate r = ck_statement_date c" "rq_AccountDaySequence r = ck_statement_account_sequence c"
    using statementAccountSequence_reached [of rs "ck_statement_date c"] assms(5) by metis
  then have "onCurrent st b r" "rq_AccountID r = a" using assms(2) by blast+
  then show ?thesis using onCurrent_facts(4) [OF assms(1)] r(2,3) assms(3,4) unfolding boundaryOk_def by fastforce
qed (simp add: boundaryOk_def assms(5))

lemma finishedSession_facts: "sessionFacts (finishedSession params audit s) = sessionFacts s" "differenceVal (finishedSession params audit s) = differenceVal s"
  by (simp_all add: finishedSession_def sessionFacts_def sessionKey_def differenceVal_def)

lemma distinct_lines:
  assumes ok: "storeOk st" and sel: "selection st b W P"
  shows "distinct (map rq_PostingLineID P)"
proof -
  have inj: "inj_on rq_PostingID (set P)" "distinct P" using selection_ids(1) [OF ok sel] by (simp_all add: distinct_map)
  have "r = r'" if "r \<in> set P" "r' \<in> set P" "rq_PostingLineID r = rq_PostingLineID r'" for r r'
  proof -
    have "rq_PostingID (plain r) = rq_PostingID (plain r')"
      by (rule posted_line_unique [OF ok]) (use selection_ids(2) [OF ok sel] that in auto)
    then have "rq_PostingID r = rq_PostingID r'" by simp
    then show ?thesis using inj(1) that(1,2) by (auto dest: inj_onD)
  qed
  then show ?thesis using inj(2) by (simp add: distinct_map inj_on_def)
qed

text \<open>The lines a covering checkpoint links are not open for the session.\<close>

lemma open_line_apart:
  assumes ok: "statementsOk rst" and p: "c \<in> set (st_checkpoints (rs_ledger rst))" "ck_status c = ''active''" "ck_book_id c = b" "ck_account_id c = a"
    and k: "k \<in> set (chainLinks (chainRows (rs_ledger rst)) (rs_checkpoint_postings rst) (ck_id c))"
    and line: "notCoveredByCheckpoint rst b a l"
  shows "lineOf (rs_ledger rst) (kp_posting_version_id k) \<noteq> Some l" "k \<in> set (rs_checkpoint_postings rst)"
proof -
  from k have k': "k \<in> set (rs_checkpoint_postings rst)" "(ck_id c, kp_checkpoint_id k) \<in> (previousOf (st_checkpoints (rs_ledger rst)))\<^sup>*"
    by (simp_all add: chainLinks_closure)
  show "k \<in> set (rs_checkpoint_postings rst)" by (rule k'(1))
  have "kp_checkpoint_id k \<in> set (coveringCheckpoints (st_checkpoints (rs_ledger rst)) b a)"
    unfolding coveringCheckpoints_def coveringFrom_closure using k'(2) p by auto
  then have "\<not> linkedLine rst k l" using line k'(1) unfolding notCoveredByCheckpoint_def list_ex_iff by blast
  moreover note linksOk_row(1) [OF statementsOk_parts(3) [OF ok] k'(1)]
  ultimately show "lineOf (rs_ledger rst) (kp_posting_version_id k) \<noteq> Some l" using linkedLine_iff [OF statementsOk_parts(1) [OF ok]] by blast
qed

text \<open>A session whose start is still current starts from the balance of the latest active checkpoint, or from nothing.\<close>

lemma start_current:
  assumes "startStillCurrent rst b session = Inr u" and "sn_StartingCheckpointID session = Some i"
  shows "\<exists>c\<in>set (st_checkpoints (rs_ledger rst)). ck_id c = i \<and> ck_status c = ''active'' \<and> position c = (b, sn_AccountID session, sn_CommodityID session)"
proof -
  from assms obtain c where "latestActiveReconciliationCheckpoint rst b (sn_AccountID session) (sn_CommodityID session) = Inr c" "ck_id c = i"
    by (auto simp: startStillCurrent_def split: sum.splits if_splits)
  then show ?thesis using latest_checkpoint by blast
qed

lemma startOf_session:
  assumes s: "sessionOk T X s" and T: "distinct (map ck_id T)"
  shows "startOf T (sn_StartingCheckpointID s) = startingVal s"
proof (cases "sn_StartingCheckpointID s")
  case None
  then show ?thesis using s by (simp add: sessionOk_def startOf_def)
next
  case (Some i)
  then obtain d where d: "d \<in> set T" "ck_id d = i" "startingVal s = stated d" using s by (auto simp: sessionOk_def)
  have "find (\<lambda>c. ck_id c = ck_id d) T = Some d" by (rule find_distinct [OF T d(1)])
  then show ?thesis by (simp add: startOf_def Some d(2,3))
qed

text \<open>What a finished session has written, at the table before and the table after.\<close>

definition closes :: "reconcileStore \<Rightarrow> FinishReconciliationSessionParams \<Rightarrow> reconcileStore \<Rightarrow> sessionRow \<Rightarrow> checkpointRow \<Rightarrow> checkpointPostingRow list \<Rightarrow> bool" where
  "closes rst params rst' s n N \<longleftrightarrow> s \<in> set (rs_sessions rst) \<and> sn_BookID s = finish_BookID params \<and> sn_ID s = finish_SessionID params \<and>
     sn_Status s = ''open'' \<and> (\<forall>s'\<in>set (rs_sessions rst'). sn_ID s' = sn_ID s \<longrightarrow> sn_Status s' = ''finished'') \<and>
     st_checkpoints (rs_ledger rst') = st_checkpoints (rs_ledger rst) @ [n] \<and> rs_checkpoint_postings rst' = rs_checkpoint_postings rst @ N \<and> N \<noteq> [] \<and>
     ck_status n = ''active'' \<and> position n = sessionKey s \<and> ck_statement_date n = sn_StatementDate s \<and>
     ck_previous_checkpoint_id n = sn_StartingCheckpointID s \<and> stated n = statementVal s \<and>
     statementVal s = startingVal s + (\<Sum>k\<leftarrow>N. linkVal k) \<and> (\<forall>k\<in>set N. kp_checkpoint_id k = ck_id n) \<and>
     mset (map (\<lambda>k. lineOf (rs_ledger rst') (kp_posting_version_id k)) N) =
       mset (map (\<lambda>x. lineOf (rs_ledger rst) (xp_posting_version_id x)) (selectionOf (rs_session_postings rst) (sn_ID s)))"

text \<open>The rows of the selection, as the code reads them back.\<close>

lemma session_postings:
  assumes ok: "statementsOk rst" and s: "s \<in> set (rs_sessions rst)"
  shows "mset (map rq_PostingID (reconciliationSessionPostings rst (sn_BookID s) (sn_ID s))) =
      mset (map xp_posting_version_id (selectionOf (rs_session_postings rst) (sn_ID s)))"
    "distinct (map xp_posting_version_id (selectionOf (rs_session_postings rst) (sn_ID s)))"
    "x \<in> set (selectionOf (rs_session_postings rst) (sn_ID s)) \<Longrightarrow> 0 < xp_posting_version_id x \<and> valueOf (rs_ledger rst) (xp_posting_version_id x) = selectedVal x"
proof -
  note q = statementsOk_parts [OF ok]
  let ?X = "rs_session_postings rst"
  have in_sel: "x \<in> set ?X \<and> xp_session_id x = sn_ID s" if "x \<in> set (selectionOf ?X (sn_ID s))" for x using that by (simp add: selectionOf_def)
  have book: "xp_book_id x = sn_BookID s" if x: "x \<in> set ?X" "xp_session_id x = sn_ID s" for x
  proof -
    from selectionsOk_rows(3) [OF q(7) x(1)] obtain s' where s': "s' \<in> set (rs_sessions rst)" "sn_ID s' = xp_session_id x" "sessionKey s' = (xp_book_id x, xp_account_id x, xp_commodity_id x)" by blast
    have "inj_on sn_ID (set (rs_sessions rst))" using q(5) by (simp add: distinct_map)
    then have "s' = s" by (rule inj_onD) (use s'(1,2) x(2) s in simp_all)
    then show ?thesis using s'(3) by (simp add: sessionKey_def)
  qed
  have "filter (\<lambda>x. xp_book_id x = sn_BookID s \<and> xp_session_id x = sn_ID s) ?X = selectionOf ?X (sn_ID s)"
    unfolding selectionOf_def using book by (intro filter_cong) auto
  then have "map rq_PostingID (reconciliationSessionPostings rst (sn_BookID s) (sn_ID s)) =
      map xp_posting_version_id (sort_key (\<lambda>x. (xp_entry_date x, xp_posting_version_id x)) (selectionOf ?X (sn_ID s)))"
    by (simp add: reconciliationSessionPostings_def o_def sessionPosting_def)
  then show "mset (map rq_PostingID (reconciliationSessionPostings rst (sn_BookID s) (sn_ID s))) = mset (map xp_posting_version_id (selectionOf ?X (sn_ID s)))"
    by (simp only: mset_map mset_sort)
  have d: "inj_on (\<lambda>x. (xp_session_id x, xp_posting_version_id x)) (set ?X)" "distinct ?X" using q(7) by (simp_all add: selectionsOk_def distinct_map)
  then show "distinct (map xp_posting_version_id (selectionOf ?X (sn_ID s)))"
    by (auto simp: selectionOf_def distinct_map inj_on_def)
  assume "x \<in> set (selectionOf ?X (sn_ID s))"
  note r = selectionsOk_rows(1,2) [OF q(7) conjunct1 [OF in_sel [OF this]]]
  show "0 < xp_posting_version_id x \<and> valueOf (rs_ledger rst) (xp_posting_version_id x) = selectedVal x"
    using r(1) backed_value [OF q(1) r(2)] by (simp add: selectedVal_def)
qed

lemma same_mset_map: "mset xs = mset ys \<Longrightarrow> mset (map f xs) = mset (map f ys)"
  by simp

lemma same_sum: "mset xs = mset ys \<Longrightarrow> (\<Sum>x\<leftarrow>xs. f x) = (\<Sum>x\<leftarrow>ys. f x :: rat)"
  using same_mset_map [of xs ys f] by (metis sum_mset_sum_list)

lemma distinct_mset: "mset xs = mset ys \<Longrightarrow> distinct ys \<Longrightarrow> distinct xs"
  using mset_eq_imp_distinct_iff by blast

lemma session_finished:
  assumes d: "distinct (map sn_ID (rs_sessions rst))" and row: "row \<in> set (rs_sessions rst)" "sn_BookID row = b" "sn_ID row = i"
    and s': "s' \<in> set (rs_sessions (updateSession b i (finishedSession params audit) rst))" "sn_ID s' = sn_ID row"
  shows "sn_Status s' = ''finished''"
proof -
  from s'(1) obtain x where x: "x \<in> set (rs_sessions rst)" "s' = (if sn_BookID x = b \<and> sn_ID x = i then finishedSession params audit x else x)"
    by (auto simp: updateSession_def)
  have "sn_ID s' = sn_ID x" using sessionFacts_eq(1) [OF finishedSession_facts(1)] by (simp add: x(2))
  then have e: "sn_ID x = sn_ID row" using s'(2) by simp
  have "inj_on sn_ID (set (rs_sessions rst))" using d by (simp add: distinct_map)
  then have "x = row" using e x(1) row(1) by (rule inj_onD)
  then show ?thesis using x(2) row(2,3) by (simp add: finishedSession_def)
qed

lemma lineOf_cong: "st_versions st = st_versions st' \<Longrightarrow> lineOf st = lineOf st'"
  by (simp add: fun_eq_iff lineOf_def storedPostings_def)

lemma lines_by_id:
  assumes "mset (map rq_PostingID P) = mset ids" and "\<forall>r\<in>set P. lineOf st (rq_PostingID r) = Some (rq_PostingLineID r)"
  shows "mset (map Some (map rq_PostingLineID P)) = mset (map (lineOf st) ids)"
proof -
  have "map Some (map rq_PostingLineID P) = map (lineOf st) (map rq_PostingID P)" using assms(2) by simp
  then show ?thesis using same_mset_map [OF assms(1), of "lineOf st"] by (simp only:)
qed

lemma finish_step:
  assumes ok: "statementsOk rst" and ord: "mapOrder ord" and w: "repo_FinishReconciliationSession ord params rst = Inr (rst', r)"
  obtains s n N where "statementsOk rst'" "follows rst rst'" "closes rst params rst' s n N"
proof -
  let ?b = "finish_BookID params"
  from w obtain session u P rst1 audit rst2 rs where s: "reconciliationSessionByID rst ?b (finish_SessionID params) = Inr session"
    and opened: "sn_Status session = ''open''" and zero: "Coefficient_Sign (sn_DifferenceValue session) = 0" and start: "startStillCurrent rst ?b session = Inr u"
    and some: "reconciliationSessionPostings rst ?b (finish_SessionID params) \<noteq> []"
    and P: "currentReconciliationPostingsByID rst session (map rq_PostingID (reconciliationSessionPostings rst ?b (finish_SessionID params))) = Inr P"
    and au: "inLedger (insertAuditEvent (reconcileAudit ?b (finish_ActorUserID params) (finish_AuthSessionID params)
         (finish_OccurredAt params) (finish_RequestID params) (finish_OriginType params) ''reconciliation.finish'' (finish_ChangeReason params))
         (rs_ledger rst)) rst = Inr (rst1, audit)"
    and ap: "inLedger (appendReconciliationStatusVersions ord (finishStatus params session P audit) (rs_ledger rst1)) rst1 = Inr (rst2, rs)"
    and rst': "rst' = closeStatement params session rs audit rst2"
    by (auto simp: repo_FinishReconciliationSession_def Let_def result_simps)
  from sessionByID_Inr [OF s] obtain row where row: "row \<in> set (rs_sessions rst)" "sn_BookID row = ?b" "sn_ID row = finish_SessionID params" "session = sessionRecord row" by blast
  obtain A where A: "rst1 = rst\<lparr> rs_ledger := (rs_ledger rst)\<lparr> st_audit := A \<rparr> \<rparr>" by (rule inLedger_audit [OF au])
  note s1 = audit_step [OF ok, of A, folded A]
  let ?ids = "map rq_PostingID (reconciliationSessionPostings rst ?b (finish_SessionID params))" let ?X = "selectionOf (rs_session_postings rst) (finish_SessionID params)"
  note sp = session_postings [OF ok row(1), unfolded row(2,3)]
  have ids: "distinct ?ids" "\<forall>i\<in>set ?ids. 0 < i"
  proof -
    show "distinct ?ids" by (rule distinct_mset [OF sp(1) sp(2)])
    have "set ?ids = set (map xp_posting_version_id ?X)" by (rule mset_eq_setD [OF sp(1)])
    then show "\<forall>i\<in>set ?ids. 0 < i" using sp(3) by auto
  qed
  note q = statementsOk_parts [OF ok]
  let ?W = "\<lambda>r. openForSession rst session r \<and> rq_PostingID r \<in> set ?ids"
  note cp = current_postings [OF q(1) P ids]
  have sel: "selection (rs_ledger rst) ?b ?W P" using cp(1) some by (simp add: row(2,4))
  then have sel1: "selection (rs_ledger rst1) ?b ?W P" using selection_cong [of "rs_ledger rst1" "rs_ledger rst"] by (simp add: A)
  have post: "append_Postings (finishStatus params session P audit) = P" by (simp add: finishStatus_def)
  note s2 = marked_step [OF s1(1) sel1 ord post ap]
  from ap obtain st2 where st2: "appendReconciliationStatusVersions ord (finishStatus params session P audit) (rs_ledger rst1) = Inr (st2, rs)" "rst2 = rst1\<lparr> rs_ledger := st2 \<rparr>"
    by (auto simp: inLedger_Inr)
  note as = append_selection [OF statementsOk_parts(1) [OF s1(1)] sel1 ord post st2(1)]
  note infos = same_infos [OF as(1)] and q2 = statementsOk_parts [OF s2(1)]
  have l2: "rs_ledger rst2 = st2" "rs_sessions rst2 = rs_sessions rst" "rs_session_postings rst2 = rs_session_postings rst"
    "rs_checkpoint_postings rst2 = rs_checkpoint_postings rst" by (simp_all add: st2(2) A)
  have cks: "st_checkpoints st2 = st_checkpoints (rs_ledger rst)" using as(3) by (simp add: A)
  then have T: "chainRows st2 = chainRows (rs_ledger rst)" by (simp add: chainRows_def)
  have kept: "keepsPosted (rs_ledger rst) st2" using follows_trans [OF s1(2) s2(2)] by (simp add: follows_def l2)
  define n where "n = finishedCheckpoint params session (statementAccountSequence rs (sn_StatementDate session)) audit (nextAbove (map ck_id (st_checkpoints st2)))"
  define N where "N = map (checkpointPosting (ck_id n)) rs"
  define rst3 where "rst3 = rst2\<lparr> rs_ledger := st2\<lparr> st_checkpoints := st_checkpoints st2 @ [n] \<rparr>, rs_checkpoint_postings := rs_checkpoint_postings rst2 @ N \<rparr>"
  have nf: "ck_id n = nextAbove (map ck_id (st_checkpoints st2))" "ck_previous_checkpoint_id n = sn_StartingCheckpointID row" "position n = sessionKey row"
    "stated n = statementVal row" "ck_status n = ''active''" "ck_statement_date n = sn_StatementDate row" "ck_statement_balance_scale n = sn_StatementBalanceScale row"
    "ck_book_id n = ?b" "ck_account_id n = sn_AccountID row" "ck_statement_account_sequence n = statementAccountSequence rs (ck_statement_date n)"
    by (simp_all add: n_def finishedCheckpoint_def position_def sessionKey_def stated_def statementVal_def row(2,4))
  have end': "rst' = updateSession ?b (finish_SessionID params) (finishedSession params audit) rst3"
    unfolding rst' closeStatement_def Let_def l2(1) rst3_def N_def n_def by (simp add: finishedCheckpoint_def)
  have cur: "onCurrent st2 ?b r \<and> rq_AccountID r = sn_AccountID row \<and> rq_CommodityID r = sn_CommodityID row" if r: "r \<in> set rs" for r
  proof -
    obtain r' where r': "r' \<in> set P" "postingInfo r' = postingInfo r" using infos(3) [OF r] by blast
    have "openForSession rst session (plain r')" using selection_ids(2) [OF q(1) sel r'(1)] by blast
    then show ?thesis using same_info_fields [OF r'(2)] as(2) r by (simp add: openForSession_def row(4))
  qed
  have cf: "backed st2 (rq_PostingID r) (?b, rq_AccountID r, rq_CommodityID r, rq_EntryDate r, rq_QuantityValue r, rq_QuantityScale r)"
    "lineOf st2 (rq_PostingID r) = Some (rq_PostingLineID r)" "rq_BookID r = ?b" if r: "r \<in> set rs" for r
    by (rule onCurrent_facts [OF q2(1) [unfolded l2(1)] conjunct1 [OF cur [OF r]]])+
  have lineN: "map (\<lambda>k. lineOf st2 (kp_posting_version_id k)) N = map Some (map rq_PostingLineID rs)"
    using cf(2) by (simp add: N_def checkpointPosting_def o_def)
  have sumN: "(\<Sum>k\<leftarrow>N. linkVal k) = (\<Sum>i\<leftarrow>?ids. valueOf (rs_ledger rst) i)"
  proof -
    have "(\<Sum>k\<leftarrow>N. linkVal k) = (\<Sum>r\<leftarrow>rs. rqVal r)" by (simp add: N_def o_def linkVal_def checkpointPosting_def rqVal_def)
    also have "\<dots> = (\<Sum>r\<leftarrow>P. rqVal r)" by (rule infos(1))
    also have "\<dots> = (\<Sum>i\<leftarrow>?ids. valueOf (rs_ledger rst) i)" by (rule sum_by_id [OF cp(2)]) (use selected_posting(2) [OF q(1) sel] in blast)
    finally show ?thesis .
  qed
  have balance: "statementVal row = startingVal row + (\<Sum>k\<leftarrow>N. linkVal k)"
  proof -
    have "(\<Sum>i\<leftarrow>?ids. valueOf (rs_ledger rst) i) = (\<Sum>i\<leftarrow>map xp_posting_version_id ?X. valueOf (rs_ledger rst) i)"
      by (rule same_sum [OF sp(1)])
    also have "\<dots> = (\<Sum>x\<leftarrow>?X. selectedVal x)" using sp(3) by (simp add: o_def cong: map_cong)
    finally have sel_sum: "(\<Sum>k\<leftarrow>N. linkVal k) = (\<Sum>x\<leftarrow>?X. selectedVal x)" using sumN by simp
    have "?X \<noteq> []" using some sp(1) by auto
    then have "statementVal row = startingVal row + (\<Sum>x\<leftarrow>?X. selectedVal x) + differenceVal row" using q(6) [OF row(1)] unfolding sessionOk_def row(3) by blast
    moreover have "differenceVal row = 0" using zero by (simp add: Coefficient_Sign_def row(4) differenceVal_def sgn_eq_0_iff)
    ultimately show ?thesis by (simp add: sel_sum)
  qed
  have T_ids: "distinct (map ck_id (chainRows st2))" using storeOk_parts(7) [OF q2(1)] by (simp add: l2(1) tableOk_def chainRows_def o_def)
  have sok: "sessionOk (chainRows st2) (rs_session_postings rst) row" using q(6) [OF row(1)] by (simp add: T)
  have c1: "boundaryOk st2 n" by (rule boundary_reached [OF q2(1) [unfolded l2(1)] _ nf(8,9,10)]) (use cur in blast)
  have c2: "storedScale (ck_statement_balance_scale n)" using sok by (simp add: nf(7) sessionOk_def)
  have c3: "\<exists>d\<in>set (chainRows st2). ck_id d = p \<and> position d = position n" if "ck_previous_checkpoint_id n = Some p" for p
    using that sok unfolding nf(2,3) sessionOk_def by auto
  have c4: "stated n = startOf (chainRows st2) (ck_previous_checkpoint_id n) + (\<Sum>k\<leftarrow>N. linkVal k)"
    unfolding nf(2,4) startOf_session [OF sok T_ids] by (rule balance)
  have c5: "kp_checkpoint_id k = ck_id n \<and> position n = (kp_book_id k, kp_account_id k, kp_commodity_id k) \<and>
    backed st2 (kp_posting_version_id k) (kp_book_id k, kp_account_id k, kp_commodity_id k, kp_entry_date k, kp_quantity_value k, kp_quantity_scale k)"
    if "k \<in> set N" for k
  proof -
    from that obtain r where r: "r \<in> set rs" "k = checkpointPosting (ck_id n) r" by (auto simp: N_def)
    then show ?thesis using cf(1,3) [OF r(1)] cur [OF r(1)] nf(3) by (simp add: checkpointPosting_def sessionKey_def row(2))
  qed
  have c6: "distinct (map (\<lambda>k. lineOf st2 (kp_posting_version_id k)) N)"
    using distinct_mset [OF infos(2) distinct_lines [OF q(1) sel]] unfolding lineN by (simp add: distinct_map inj_on_def)
  have c7: "lineOf st2 (kp_posting_version_id k) \<noteq> lineOf st2 (kp_posting_version_id k')"
    if p: "ck_previous_checkpoint_id n = Some p" and k: "k \<in> set (chainLinks (chainRows st2) (rs_checkpoint_postings rst) p)" and k': "k' \<in> set N" for p k k'
  proof -
    from start_current [OF start, of p] p obtain c where c: "c \<in> set (st_checkpoints (rs_ledger rst))" "ck_id c = p" "ck_status c = ''active''"
      "position c = (?b, sn_AccountID session, sn_CommodityID session)" by (auto simp: nf(2) row(4))
    from k' obtain r where r: "r \<in> set rs" "k' = checkpointPosting (ck_id n) r" by (auto simp: N_def)
    obtain r' where r': "r' \<in> set P" "postingInfo r' = postingInfo r" using infos(3) [OF r(1)] by blast
    have "openForSession rst session (plain r')" using selection_ids(2) [OF q(1) sel r'(1)] by blast
    then have nc: "notCoveredByCheckpoint rst ?b (sn_AccountID session) (rq_PostingLineID r)"
      using same_info_fields(3) [OF r'(2)] by (simp add: openForSession_def row(2,4))
    note a = open_line_apart [OF ok c(1,3) _ _ k [unfolded T c(2) [symmetric]] nc]
    have k_in: "lineOf (rs_ledger rst) (kp_posting_version_id k) \<noteq> Some (rq_PostingLineID r)" "k \<in> set (rs_checkpoint_postings rst)"
      using a c(4) by (simp_all add: position_def)
    have "lineOf st2 (kp_posting_version_id k) = lineOf (rs_ledger rst) (kp_posting_version_id k)"
      by (rule kept_facts(1) [OF q(1) q2(1) [unfolded l2(1)] kept linksOk_row(1) [OF q(3) k_in(2)]])
    then show ?thesis using k_in(1) cf(2) [OF r(1)] by (simp add: r(2) checkpointPosting_def)
  qed
  have rst3: "rst3 = rst2\<lparr> rs_ledger := st2\<lparr> st_checkpoints := st_checkpoints st2 @ [n] \<rparr>, rs_checkpoint_postings := rs_checkpoint_postings rst @ N \<rparr>"
    by (simp add: rst3_def l2)
  have st3: "statementsOk rst3" "follows rst2 rst3"
    using closing_step [OF s2(1), unfolded l2, OF nf(1) c1 c2 c3 c4 c5 c6 c7 rst3] by simp_all
  note s4 = change_step [where f = "finishedSession params audit" and b = ?b and i = "finish_SessionID params", OF st3(1) finishedSession_facts, folded end']
  have f: "follows rst rst'" by (rule follows_trans [OF s1(2) follows_trans [OF s2(2) follows_trans [OF st3(2) s4(2)]]])
  have lines: "mset (map (\<lambda>k. lineOf (rs_ledger rst') (kp_posting_version_id k)) N) = mset (map (\<lambda>x. lineOf (rs_ledger rst) (xp_posting_version_id x)) ?X)"
  proof -
    have same: "lineOf (rs_ledger rst') = lineOf st2" by (rule lineOf_cong) (simp add: end' rst3_def)
    have "mset (map Some (map rq_PostingLineID rs)) = mset (map Some (map rq_PostingLineID P))" by (rule same_mset_map [OF infos(2)])
    also have "\<dots> = mset (map (lineOf (rs_ledger rst)) ?ids)" by (rule lines_by_id [OF cp(2)]) (use selected_posting(3) [OF q(1) sel] in blast)
    also have "\<dots> = mset (map (lineOf (rs_ledger rst)) (map xp_posting_version_id ?X))" by (rule same_mset_map [OF sp(1)])
    finally show ?thesis unfolding same lineN by (simp add: o_def)
  qed
  have nonempty: "N \<noteq> []"
  proof
    assume "N = []"
    then have "?X = []" using lines by simp
    then show False using sp(1) some by simp
  qed
  have finished: "sn_Status s' = ''finished''" if "s' \<in> set (rs_sessions rst')" "sn_ID s' = sn_ID row" for s'
    by (rule session_finished [of rst3 row ?b "finish_SessionID params" s' params audit]) (use that q(5) row in \<open>simp_all add: end' rst3_def l2\<close>)
  have "closes rst params rst' row n N"
    unfolding closes_def using row(1-3) opened nonempty finished nf(2-6) balance lines
    by (simp add: row(4) end' rst3_def l2 cks N_def checkpointPosting_def)
  then show thesis by (rule that [OF s4(1) f])
qed

end
