(* ===== verification/Completion.thy ===== *)
theory Completion
  imports Finishing
begin

text \<open>
  When finishing a session goes through, and what refuses it: each check of the code in its order, and that nothing after the
  last check can fail.
\<close>

section \<open>Marking always goes through\<close>

lemma mark_total:
  assumes ok: "storeOk st" and h: "transactionByID st (append_BookID params) t = Inr h"
  shows "\<exists>st' rs. appendStatusVersion params t st = Inr (st', rs)"
proof -
  let ?lines = "lineIDsOf (append_Postings params) t"
  let ?vp = "statusVersion params t (loadTransactionChildren st h) ?lines"
  from transactionByID_Inr [OF h] obtain row v where f: "row \<in> set (st_transactions st)" "tr_id row = t" "currentVersion st t = Some v" "h = transactionVersionRecord st row v" .
  have vin: "v \<in> set (st_versions st)" using currentVersion_in [OF f(3)] ..
  have "rc_VersionID h = tv_id v" by (simp add: f(4) transactionVersionRecord_def)
  then have core: "map specCore (specPostings (ts_JournalEntries (iv_Spec ?vp))) = map postingCore (recordPostings (tv_entries v))"
    using record_core [OF ok vin] by (simp add: markedSpec_core)
  have "\<exists>st' r. insertTransactionVersion ?vp st = Inr (st', r)"
    by (rule insertTransactionVersion_total [OF _ _ core_scales [OF ok vin core]]) (use f in \<open>auto simp: statusVersion_def\<close>)
  then show ?thesis by (auto simp: appendStatusVersion_def Let_def h result_simps)
qed

lemma transactionByID_cong:
  "st_transactions st' = st_transactions st \<Longrightarrow> currentVersion st' t = currentVersion st t \<Longrightarrow>
    (\<exists>h. transactionByID st' b t = Inr h) \<longleftrightarrow> (\<exists>h. transactionByID st b t = Inr h)"
  by (simp add: transactionByID_def findTransaction_def split: option.splits)

lemma append_total:
  assumes "storeOk st" and "distinct ts" and "\<forall>t\<in>set ts. \<exists>h. transactionByID st (append_BookID params) t = Inr h"
  shows "\<exists>st' rs. appendStatusVersions params ts st = Inr (st', rs)"
  using assms
proof (induction ts arbitrary: st)
  case (Cons t ts)
  obtain st1 rs1 where w: "appendStatusVersion params t st = Inr (st1, rs1)" using mark_total Cons.prems(1,3) by force
  note r = mark_round [OF Cons.prems(1) w]
  have "\<exists>h. transactionByID st1 (append_BookID params) t' = Inr h" if t': "t' \<in> set ts" for t'
  proof -
    have "t' \<noteq> t" using t' Cons.prems(2) by auto
    then show ?thesis using transactionByID_cong [OF r(3) r(5)] Cons.prems(3) t' by simp
  qed
  then obtain st2 rs2 where "appendStatusVersions params ts st1 = Inr (st2, rs2)" using Cons.IH [OF r(1)] Cons.prems(2) by auto
  then show ?case by (simp add: w)
qed simp

lemma selection_total:
  assumes ok: "storeOk st" and sel: "selection st b W P" and ord: "mapOrder ord" and P: "append_Postings params = P" "append_BookID params = b"
  shows "\<exists>st' rs. appendReconciliationStatusVersions ord params st = Inr (st', rs)"
proof -
  let ?ts = "ord (map rq_TransactionID P)"
  have ts: "distinct ?ts" "set ?ts = rq_TransactionID ` set P" using ord by (simp_all add: mapOrder_def)
  have "\<exists>h. transactionByID st b t = Inr h" if t: "t \<in> set ?ts" for t
  proof -
    from t obtain r where r: "r \<in> set P" "rq_TransactionID r = t" unfolding ts(2) by blast
    have "plain r \<in> set (postedRows st b)" using selection_ids(2) [OF ok sel r(1)] by blast
    then obtain row v cur where v: "row \<in> set (st_transactions st)" "currentVersion st (tr_id row) = Some v" "tv_book_id v = b" "plain r = reconciliationPosting row v cur"
      unfolding posted_rows by blast
    have i: "tr_id row = t" using arg_cong [OF v(4), of rq_TransactionID] r(2) by simp
    have "tr_book_id row = b" using rowOfVersion [OF ok v(1,2)] v(3) by simp
    then have "findTransaction st b t \<noteq> None" using v(1) i by (auto simp: findTransaction_def find_None_iff)
    then show ?thesis using v(2) i by (auto simp: transactionByID_def)
  qed
  then show ?thesis using append_total [OF ok ts(1)] P by (simp add: appendReconciliationStatusVersions_def)
qed

section \<open>The postings that are still open\<close>

lemma selected_length:
  assumes ok: "storeOk st" and ids: "distinct ids"
  shows "length (reconciliationPostingSelect st b (\<lambda>r. W r \<and> rq_PostingID r \<in> set ids)) = length ids \<longleftrightarrow>
    set ids \<subseteq> rq_PostingID ` set (reconciliationPostingSelect st b W)"
proof -
  let ?P = "reconciliationPostingSelect st b (\<lambda>r. W r \<and> rq_PostingID r \<in> set ids)" let ?C = "reconciliationPostingSelect st b W"
  have "length ?P = card (set (map rq_PostingID ?P))" using distinct_card [OF selection_ids(1) [OF ok selection_select]] by simp
  moreover have "set (map rq_PostingID ?P) = rq_PostingID ` set ?C \<inter> set ids" by (auto simp: reconciliationPostingSelect_def)
  moreover have "length ids = card (set ids)" using distinct_card [OF ids] by simp
  moreover have "card (rq_PostingID ` set ?C \<inter> set ids) = card (set ids) \<longleftrightarrow> set ids \<subseteq> rq_PostingID ` set ?C"
    by (metis List.finite_set card_subset_eq inf_le2 le_iff_inf inf_commute)
  ultimately show ?thesis by simp
qed

lemma current_postings_iff:
  assumes ok: "storeOk (rs_ledger rst)" and ids: "distinct ids" "\<forall>i\<in>set ids. 0 < i" "ids \<noteq> []"
  shows "currentReconciliationPostingsByID rst session ids = (if set ids \<subseteq> rq_PostingID ` set (sessionCandidates rst session)
      then Inr (map (\<lambda>posting. posting\<lparr> rq_Selected := True \<rparr>) (reconciliationPostingSelect (rs_ledger rst) (sn_BookID session)
        (\<lambda>r. openForSession rst session r \<and> rq_PostingID r \<in> set ids)))
      else Inl ErrReconciliationPosting)"
  using selected_length [OF ok ids(1), of "sn_BookID session" "openForSession rst session"] distinctPositiveCount_distinct [OF ids(1,2)] ids(3)
  by (simp add: currentReconciliationPostingsByID_def Let_def sessionCandidates_def)

section \<open>What finishing a session comes to\<close>

lemma sessionByID_found:
  assumes d: "distinct (map sn_ID (rs_sessions rst))" and row: "row \<in> set (rs_sessions rst)" "sn_BookID row = b" "sn_ID row = i"
  shows "reconciliationSessionByID rst b i = Inr (sessionRecord row)"
proof (cases "find (\<lambda>s. sn_BookID s = b \<and> sn_ID s = i) (rs_sessions rst)")
  case None
  then show ?thesis using row by (auto simp: find_None_iff)
next
  case (Some s)
  have s: "s \<in> set (rs_sessions rst)" "sn_ID s = i" using find_in [OF Some] by simp_all
  have "inj_on sn_ID (set (rs_sessions rst))" using d by (simp add: distinct_map)
  moreover have "sn_ID s = sn_ID row" by (simp only: s(2) row(3))
  ultimately have "s = row" using s(1) row(1) by (rule inj_onD)
  then show ?thesis using Some by (simp add: reconciliationSessionByID_def)
qed

definition finishAudit :: "FinishReconciliationSessionParams \<Rightarrow> AuditEventParams" where
  "finishAudit params = reconcileAudit (finish_BookID params) (finish_ActorUserID params) (finish_AuthSessionID params) (finish_OccurredAt params)
     (finish_RequestID params) (finish_OriginType params) ''reconciliation.finish'' (finish_ChangeReason params)"

definition startNow :: "reconcileStore \<Rightarrow> sessionRow \<Rightarrow> int option" where
  "startNow rst s = (case latestActiveReconciliationCheckpoint rst (sn_BookID s) (sn_AccountID s) (sn_CommodityID s) of Inl _ \<Rightarrow> None | Inr c \<Rightarrow> Some (ck_id c))"

lemma startStillCurrent_now:
  "startStillCurrent rst (sn_BookID s) (sessionRecord s) = (if sn_StartingCheckpointID s = startNow rst s then Inr () else Inl ErrReconciliationStartStale)"
  using latest_checkpoint_none by (auto simp: startStillCurrent_def startNow_def split: sum.splits)

lemma finish_eval:
  assumes ok: "statementsOk rst" and book: "finish_BookID params \<in> set (st_books (rs_ledger rst))"
    and s: "s \<in> set (rs_sessions rst)" "sn_BookID s = finish_BookID params" "sn_ID s = finish_SessionID params"
  shows "repo_FinishReconciliationSession ord params rst = (
     if sn_Status s \<noteq> ''open'' then Inl ErrReconciliationClosed
     else if Coefficient_Sign (sn_DifferenceValue s) \<noteq> 0 then Inl ErrReconciliationNotBalanced
     else if sn_StartingCheckpointID s \<noteq> startNow rst s then Inl ErrReconciliationStartStale
     else if selectionOf (rs_session_postings rst) (sn_ID s) = [] then Inl ErrReconciliationPosting
     else if \<not> xp_posting_version_id ` set (selectionOf (rs_session_postings rst) (sn_ID s)) \<subseteq> rq_PostingID ` set (sessionCandidates rst (sessionRecord s)) then Inl ErrReconciliationPosting
     else bindR (inLedger (insertAuditEvent (finishAudit params) (rs_ledger rst)) rst) (\<lambda>(rst1, auditEventID).
       let P = map (\<lambda>posting. posting\<lparr> rq_Selected := True \<rparr>) (reconciliationPostingSelect (rs_ledger rst) (sn_BookID s)
         (\<lambda>r. openForSession rst (sessionRecord s) r \<and> rq_PostingID r \<in> set (map rq_PostingID (reconciliationSessionPostings rst (sn_BookID s) (sn_ID s))))) in
       bindR (inLedger (appendReconciliationStatusVersions ord (finishStatus params (sessionRecord s) P auditEventID) (rs_ledger rst1)) rst1) (\<lambda>(rst2, reconciled).
       let rst3 = closeStatement params (sessionRecord s) reconciled auditEventID rst2 in
       bindR (reconciliationSessionByID rst3 (finish_BookID params) (finish_SessionID params)) (\<lambda>finished.
         Inr (rst3, finished\<lparr> sn_SelectedPostings := reconciled \<rparr>)))))"
proof -
  let ?ids = "map rq_PostingID (reconciliationSessionPostings rst (sn_BookID s) (sn_ID s))" let ?X = "selectionOf (rs_session_postings rst) (sn_ID s)"
  note q = statementsOk_parts [OF ok] and sp = session_postings [OF ok s(1)]
  have read: "readBookForUpdate (rs_ledger rst) (finish_BookID params) = Inr (finish_BookID params)" using book by (simp add: readBookForUpdate_def)
  note found = sessionByID_found [OF q(5) s]
  have set_ids: "set ?ids = xp_posting_version_id ` set ?X" using mset_eq_setD [OF sp(1)] by simp
  have "length ?ids = length (map xp_posting_version_id ?X)" by (rule mset_eq_length [OF sp(1)])
  then have empty: "reconciliationSessionPostings rst (sn_BookID s) (sn_ID s) = [] \<longleftrightarrow> ?X = []" by auto
  have pos: "\<forall>i\<in>set ?ids. 0 < i" unfolding set_ids using sp(3) by blast
  note ci = current_postings_iff [OF q(1) distinct_mset [OF sp(1,2)] pos, of "sessionRecord s"]
  show ?thesis
    unfolding repo_FinishReconciliationSession_def Let_def read found finishAudit_def [symmetric]
    using ci empty set_ids by (simp add: ensure_def s(2,3) [symmetric] startStillCurrent_now Let_def)
qed

lemma closeStatement_sessions: "rs_sessions (closeStatement params session rs audit rst) = rs_sessions (updateSession (finish_BookID params) (finish_SessionID params) (finishedSession params audit) rst)"
  by (simp add: closeStatement_def Let_def updateSession_def)

lemma finish_ready:
  assumes ok: "statementsOk rst" and book: "finish_BookID params \<in> set (st_books (rs_ledger rst))" and ord: "mapOrder ord"
    and s: "s \<in> set (rs_sessions rst)" "sn_BookID s = finish_BookID params" "sn_ID s = finish_SessionID params"
    and audit: "auditAccepted (finishAudit params)"
    and checks: "sn_Status s = ''open''" "Coefficient_Sign (sn_DifferenceValue s) = 0" "sn_StartingCheckpointID s = startNow rst s"
      "selectionOf (rs_session_postings rst) (sn_ID s) \<noteq> []"
      "xp_posting_version_id ` set (selectionOf (rs_session_postings rst) (sn_ID s)) \<subseteq> rq_PostingID ` set (sessionCandidates rst (sessionRecord s))"
  shows "\<exists>rst' r. repo_FinishReconciliationSession ord params rst = Inr (rst', r)"
proof -
  let ?W = "\<lambda>r. openForSession rst (sessionRecord s) r \<and> rq_PostingID r \<in> set (map rq_PostingID (reconciliationSessionPostings rst (sn_BookID s) (sn_ID s)))"
  define P where "P = map (\<lambda>posting. posting\<lparr> rq_Selected := True \<rparr>) (reconciliationPostingSelect (rs_ledger rst) (sn_BookID s) ?W)"
  obtain A i where au: "insertAuditEvent (finishAudit params) (rs_ledger rst) = Inr ((rs_ledger rst)\<lparr> st_audit := A \<rparr>, i)" using audit_accepted [OF audit] by blast
  define rst1 where "rst1 = rst\<lparr> rs_ledger := (rs_ledger rst)\<lparr> st_audit := A \<rparr> \<rparr>"
  have in1: "inLedger (insertAuditEvent (finishAudit params) (rs_ledger rst)) rst = Inr (rst1, i)" by (simp add: inLedger_Inr au rst1_def)
  note s1 = audit_step [OF ok, of A, folded rst1_def]
  have "selection (rs_ledger rst) (sn_BookID s) ?W P" unfolding P_def by (rule selection_marked [OF selection_select])
  then have sel: "selection (rs_ledger rst1) (sn_BookID s) ?W P" using selection_cong [of "rs_ledger rst1" "rs_ledger rst"] by (simp add: rst1_def)
  obtain st2 rs where "appendReconciliationStatusVersions ord (finishStatus params (sessionRecord s) P i) (rs_ledger rst1) = Inr (st2, rs)"
    using selection_total [OF statementsOk_parts(1) [OF s1(1)] sel ord, of "finishStatus params (sessionRecord s) P i"] s(2) by (auto simp: finishStatus_def)
  then have in2: "inLedger (appendReconciliationStatusVersions ord (finishStatus params (sessionRecord s) P i) (rs_ledger rst1)) rst1 = Inr (rst1\<lparr> rs_ledger := st2 \<rparr>, rs)"
    by (simp add: inLedger_Inr)
  let ?rst3 = "closeStatement params (sessionRecord s) rs i (rst1\<lparr> rs_ledger := st2 \<rparr>)"
  have "rs_sessions (rst1\<lparr> rs_ledger := st2 \<rparr>) = rs_sessions rst" by (simp add: rst1_def)
  then have ids: "map sn_ID (rs_sessions ?rst3) = map sn_ID (rs_sessions rst)"
    using updateSession_facts(3) [of "finishedSession params i", OF finishedSession_facts(1)] unfolding closeStatement_sessions by simp
  have "finishedSession params i s \<in> set (rs_sessions ?rst3)"
    unfolding closeStatement_sessions using s by (auto simp: updateSession_def rst1_def intro!: rev_image_eqI [of s])
  then have "reconciliationSessionByID ?rst3 (finish_BookID params) (finish_SessionID params) = Inr (sessionRecord (finishedSession params i s))"
    by (rule sessionByID_found [rotated]) (use s ids statementsOk_parts(5) [OF ok] in \<open>simp_all add: finishedSession_def\<close>)
  then show ?thesis
    unfolding finish_eval [OF ok book s] using checks in1 in2 by (simp add: Let_def P_def)
qed

end
