(* ===== verification/Histories.thy ===== *)
theory Histories
  imports Prelude
begin

text \<open>
  What any number of steps keeps, when each step keeps it: the contract between the operations of a component, each of which leaves its state
  in order and related to the state it found, and what is read from a whole history of them.
\<close>

locale kept_relation =
  fixes ok :: "'s \<Rightarrow> bool" and kept :: "'s \<Rightarrow> 's \<Rightarrow> bool"
  assumes kept_refl: "ok s \<Longrightarrow> kept s s"
    and kept_trans: "kept r s \<Longrightarrow> kept s t \<Longrightarrow> kept r t"
begin

text \<open>A history is a list of states, the latest first; each is related to the latest.\<close>

definition intact :: "'s list \<Rightarrow> bool" where
  "intact states \<longleftrightarrow> states \<noteq> [] \<and> (\<forall>s\<in>set states. ok s \<and> kept s (hd states))"

lemma intact_one: "ok s \<Longrightarrow> intact [s]"
  by (simp add: intact_def kept_refl)

lemma intact_step: "intact states \<Longrightarrow> ok s' \<and> kept (hd states) s' \<Longrightarrow> intact (s' # states)"
  unfolding intact_def list.sel set_simps using kept_refl kept_trans by blast

lemma intactD: "intact (s # states) \<Longrightarrow> r \<in> set (s # states) \<Longrightarrow> ok r \<and> kept r s"
  unfolding intact_def list.sel by blast

text \<open>A list of functions, each of which leaves every state in order and related to the one it found.\<close>

lemma through_all: "ok s \<Longrightarrow> (\<And>f s. f \<in> set fs \<Longrightarrow> ok s \<Longrightarrow> ok (f s) \<and> kept s (f s)) \<Longrightarrow> ok (fold (\<lambda>f. f) fs s) \<and> kept s (fold (\<lambda>f. f) fs s)"
proof (induction fs arbitrary: s)
  case (Cons f fs)
  have f: "ok (f s) \<and> kept s (f s)" using Cons.prems by simp
  have "ok (fold (\<lambda>f. f) fs (f s)) \<and> kept (f s) (fold (\<lambda>f. f) fs (f s))" using Cons f by simp
  then show ?case using f kept_trans by auto
qed (simp add: kept_refl)

end

end
