(* ===== verification/Statement_History.thy ===== *)
theory Statement_History
  imports Completion Histories
begin

text \<open>
  Histories of a book with its statements: ledger writes, discards, sessions started, selections replaced, statements finished, sessions
  and checkpoints voided, postings marked, in any order, each prepared against a store of the history and committed to the
  latest. What every one of them keeps: the statements add up, and what a checkpoint closed stays closed.
\<close>

section \<open>Histories\<close>

inductive statementHistory :: "ledgerEnv \<Rightarrow> reconcileStore \<Rightarrow> reconcileStore list \<Rightarrow> bool" for env :: ledgerEnv and start :: reconcileStore where
  begins: "statementHistory env start [start]"
| writes: "statementHistory env start (rst # past) \<Longrightarrow> rst0 \<in> set (rst # past) \<Longrightarrow>
    set (st_versions (rs_ledger rst0)) \<subseteq> set (st_versions (rs_ledger rst)) \<Longrightarrow> committedWrite env (rs_ledger rst0) (rs_ledger rst) st' \<Longrightarrow>
    statementHistory env start (rst\<lparr> rs_ledger := st' \<rparr> # rst # past)"
| discards: "statementHistory env start (rst # past) \<Longrightarrow> rst0 \<in> set (rst # past) \<Longrightarrow> prepareDeleteDraft now (rs_ledger rst0) input = Inr params \<Longrightarrow>
    repo_DeleteDraftTransaction params (rs_ledger rst) = Inr st' \<Longrightarrow> statementHistory env start (rst\<lparr> rs_ledger := st' \<rparr> # rst # past)"
| starts: "statementHistory env start (rst # past) \<Longrightarrow> prepareStart now bt input = Inr params \<Longrightarrow>
    repo_CreateReconciliationSession params rst = Inr (rst', r) \<Longrightarrow> statementHistory env start (rst' # rst # past)"
| selects: "statementHistory env start (rst # past) \<Longrightarrow> rst0 \<in> set (rst # past) \<Longrightarrow> prepareSelection now operation reason rst0 input = Inr params \<Longrightarrow>
    repo_ReplaceReconciliationSessionSelection params rst = Inr (rst', r) \<Longrightarrow> statementHistory env start (rst' # rst # past)"
| finishes: "statementHistory env start (rst # past) \<Longrightarrow> prepareFinish now input = Inr params \<Longrightarrow> mapOrder ord \<Longrightarrow>
    repo_FinishReconciliationSession ord params rst = Inr (rst', r) \<Longrightarrow> statementHistory env start (rst' # rst # past)"
| voids: "statementHistory env start (rst # past) \<Longrightarrow> prepareVoidReconciliation now operation missing input = Inr params \<Longrightarrow>
    repo_VoidReconciliationSession params rst = Inr (rst', r) \<Longrightarrow> statementHistory env start (rst' # rst # past)"
| reopens: "statementHistory env start (rst # past) \<Longrightarrow> prepareVoidReconciliation now operation missing input = Inr params \<Longrightarrow>
    repo_VoidReconciliationCheckpoint params rst = Inr (rst', c) \<Longrightarrow> statementHistory env start (rst' # rst # past)"
| marks: "statementHistory env start (rst # past) \<Longrightarrow> prepareMark now today input = Inr params \<Longrightarrow> mapOrder ord \<Longrightarrow>
    repo_ChangePostingReconciliationStatus ord params rst = Inr (rst', records) \<Longrightarrow> statementHistory env start (rst' # rst # past)"

lemma prepareStart_scale: "prepareStart now bt input = Inr params \<Longrightarrow> storedScale (start_StatementBalanceScale params)"
  by (auto simp: prepareStart_def Let_def checkStatementScale_def storedScale_def MaxCryptoScale_def result_simps split: if_splits)

lemma ledger_kept:
  assumes ok: "statementsOk rst" and st: "storeOk st'" "balancesKept (rs_ledger rst) st'" "keepsPosted (rs_ledger rst) st'" "chainRows st' = chainRows (rs_ledger rst)"
  shows "statementsOk (rst\<lparr> rs_ledger := st' \<rparr>) \<and> follows rst (rst\<lparr> rs_ledger := st' \<rparr>)"
  using ledger_step [OF ok st(1,3,4)] closedKept_balances [OF statementsOk_parts(1) [OF ok] st(2,4)] st(3) by (simp add: follows_def)

lemma write_statement_kept:
  assumes "committedWrite env (rs_ledger rst0) (rs_ledger rst) st'" and "statementsOk rst0" and "statementsOk rst"
    and "set (st_versions (rs_ledger rst0)) \<subseteq> set (st_versions (rs_ledger rst))"
  shows "statementsOk (rst\<lparr> rs_ledger := st' \<rparr>) \<and> follows rst (rst\<lparr> rs_ledger := st' \<rparr>)"
proof -
  note ok = statementsOk_parts(1) [OF assms(2)] statementsOk_parts(1) [OF assms(3)]
  note k = write_kept [OF assms(1) ok assms(4)]
  show ?thesis
    by (rule ledger_kept [OF assms(3) _ _ grows_keepsPosted [OF write_grows [OF assms(1) ok assms(4)]] write_chain [OF assms(1)]]) (use k in simp_all)
qed

text \<open>What the operations promise is the contract of a kept relation; the history is built on what follows from it.\<close>

interpretation reconciliation: kept_relation statementsOk follows
  by unfold_locales (auto intro: follows_refl follows_trans dest: statementsOk_parts(1))

lemmas kept_head = reconciliation.intact_step [unfolded reconciliation.intact_def]

lemma statementHistory_kept:
  assumes "statementHistory env start stores" and "statementsOk start"
  shows "stores \<noteq> [] \<and> (\<forall>r\<in>set stores. statementsOk r \<and> follows r (hd stores))"
  using assms(1)
proof induction
  case begins
  then show ?case by (rule reconciliation.intact_one [unfolded reconciliation.intact_def, OF assms(2)])
next
  case (writes rst past rst0 st')
  have "statementsOk rst0" "statementsOk rst" using writes(2,5) by auto
  note k = write_statement_kept [OF writes(4) this writes(3)]
  show ?case by (rule kept_head [OF writes(5)]) (use k in simp)
next
  case (discards rst past rst0 now input params st')
  have ok: "statementsOk rst" using discards(5) by auto
  have d: "storeOk st' \<and> balancesKept (rs_ledger rst) st'" using discard_committed [of "rs_ledger rst" params st'] statementsOk_parts(1) [OF ok] discards(4) by blast
  note k = ledger_kept [OF ok conjunct1 [OF d] conjunct2 [OF d] discard_keepsPosted [OF discards(4)] discard_chain [OF discards(4)]]
  show ?case by (rule kept_head [OF discards(5)]) (use k in simp)
next
  case (starts rst past now bt input params rst' r)
  have ok: "statementsOk rst" using starts(4) by auto
  note k = start_step [OF ok starts(3) prepareStart_scale [OF starts(2)]]
  show ?case by (rule kept_head [OF starts(4)]) (use k in simp)
next
  case (selects rst past rst0 now operation reason input params rst' r)
  have ok: "statementsOk rst0" "statementsOk rst" "follows rst0 rst" using selects(2,5) by auto
  note k = select_step [OF ok prepared_selection [OF ok(1) selects(3)] selects(4)]
  show ?case by (rule kept_head [OF selects(5)]) (use k in simp)
next
  case (finishes rst past now input params ord rst' r)
  have ok: "statementsOk rst" using finishes(5) by auto
  obtain s n N where "statementsOk rst'" "follows rst rst'" by (rule finish_step [OF ok finishes(3,4)])
  then show ?case by (intro kept_head [OF finishes(5)]) simp
next
  case (voids rst past now operation missing input params rst' r)
  have ok: "statementsOk rst" using voids(4) by auto
  note k = voidSession_step [OF ok voids(3)]
  show ?case by (rule kept_head [OF voids(4)]) (use k in simp)
next
  case (reopens rst past now operation missing input params rst' c)
  have ok: "statementsOk rst" using reopens(4) by auto
  note k = voidCheckpoint_step [OF ok reopens(3)]
  show ?case by (rule kept_head [OF reopens(4)]) (use k in simp)
next
  case (marks rst past now today input params ord rst' records)
  have ok: "statementsOk rst" using marks(5) by auto
  note k = mark_step [OF ok marks(3,4)]
  show ?case by (rule kept_head [OF marks(5)]) (use k in simp)
qed

section \<open>What a statement adds up to\<close>

lemma sum_filter_or: "(\<And>x. x \<in> set xs \<Longrightarrow> \<not> (A x \<and> B x)) \<Longrightarrow> (\<Sum>x\<leftarrow>filter (\<lambda>x. A x \<or> B x) xs. f x) = (\<Sum>x\<leftarrow>filter A xs. f x) + (\<Sum>x\<leftarrow>filter B xs. f x :: rat)"
  by (induction xs) (auto simp: algebra_simps)

lemma chain_step:
  assumes "distinct (map ck_id T)" and c: "c \<in> set T"
  shows "(ck_id c, j) \<in> (previousOf T)\<^sup>* \<longleftrightarrow> j = ck_id c \<or> (\<exists>p. ck_previous_checkpoint_id c = Some p \<and> (p, j) \<in> (previousOf T)\<^sup>*)"
proof -
  have one: "(ck_id c, p) \<in> previousOf T \<longleftrightarrow> ck_previous_checkpoint_id c = Some p" for p
  proof
    assume "(ck_id c, p) \<in> previousOf T"
    then obtain d where d: "d \<in> set T" "ck_id c = ck_id d" "ck_previous_checkpoint_id d = Some p" by (auto simp: previousOf_def)
    have "inj_on ck_id (set T)" using assms(1) by (simp add: distinct_map)
    then have "c = d" using d(2) c d(1) by (rule inj_onD)
    then show "ck_previous_checkpoint_id c = Some p" using d(3) by simp
  qed (use c in \<open>auto simp: previousOf_def\<close>)
  show ?thesis
  proof
    assume "(ck_id c, j) \<in> (previousOf T)\<^sup>*"
    then show "j = ck_id c \<or> (\<exists>p. ck_previous_checkpoint_id c = Some p \<and> (p, j) \<in> (previousOf T)\<^sup>*)"
      by (cases rule: converse_rtranclE) (use one in auto)
  next
    assume "j = ck_id c \<or> (\<exists>p. ck_previous_checkpoint_id c = Some p \<and> (p, j) \<in> (previousOf T)\<^sup>*)"
    then show "(ck_id c, j) \<in> (previousOf T)\<^sup>*" using one by (auto intro: converse_rtrancl_into_rtrancl)
  qed
qed

lemma chain_sum:
  assumes ok: "chainOk T L" and T: "distinct (map ck_id T)" "\<forall>c\<in>set T. 0 < ck_id c" and c: "c \<in> set T"
  shows "stated c = (\<Sum>k\<leftarrow>chainLinks T L (ck_id c). linkVal k)"
  using c
proof (induction "nat (ck_id c)" arbitrary: c rule: less_induct)
  case less
  note r = chainOk_row [OF ok less.prems] and step = chain_step [OF T(1) less.prems]
  show ?case
  proof (cases "ck_previous_checkpoint_id c")
    case None
    then have "chainLinks T L (ck_id c) = linksOf L (ck_id c)" by (simp add: chainLinks_closure step linksOf_def)
    then show ?thesis using r(2) None by (simp add: startOf_def)
  next
    case (Some p)
    from r(3) [OF Some] obtain d where d: "d \<in> set T" "ck_id d = p" "p < ck_id c" by blast
    have "nat (ck_id d) < nat (ck_id c)" using d T(2) by auto
    then have ih: "stated d = (\<Sum>k\<leftarrow>chainLinks T L p. linkVal k)" using less.hyps [OF _ d(1)] d(2) by simp
    have "find (\<lambda>x. ck_id x = ck_id d) T = Some d" by (rule find_distinct [OF T(1) d(1)])
    then have start: "startOf T (ck_previous_checkpoint_id c) = stated d" by (simp add: startOf_def Some d(2))
    have "p \<in> ck_id ` set T" using d by auto
    then have apart: "\<not> (kp_checkpoint_id k = ck_id c \<and> (p, kp_checkpoint_id k) \<in> (previousOf T)\<^sup>*)" for k
      using chain_ids [OF ok] d(3) by fastforce
    have "(\<Sum>k\<leftarrow>filter (\<lambda>k. kp_checkpoint_id k = ck_id c \<or> (p, kp_checkpoint_id k) \<in> (previousOf T)\<^sup>*) L. linkVal k) =
        (\<Sum>k\<leftarrow>linksOf L (ck_id c). linkVal k) + (\<Sum>k\<leftarrow>chainLinks T L p. linkVal k)"
      unfolding chainLinks_closure linksOf_def by (rule sum_filter_or) (rule apart)
    then have "(\<Sum>k\<leftarrow>chainLinks T L (ck_id c). linkVal k) = (\<Sum>k\<leftarrow>linksOf L (ck_id c). linkVal k) + (\<Sum>k\<leftarrow>chainLinks T L p. linkVal k)"
      by (simp add: chainLinks_closure [of T L "ck_id c"] step Some)
    then show ?thesis using r(2) start ih by simp
  qed
qed

section \<open>The properties\<close>

lemma chainLinks_rows: "chainLinks (chainRows st) L i = chainLinks (st_checkpoints st) L i"
  by (simp add: chainLinks_closure)

text \<open>
  C2. Statements add up. In every store of every history, of ledger writes and of sessions started, selected, finished and voided in any order, the
  balance that a checkpoint states, whatever its status by then, is exactly the sum of the postings linked by the checkpoints of its chain; no
  posting line is linked twice along the chain; and every link is to a posting of a posted version of the book, account and commodity of its
  checkpoint, with its amount.
\<close>

theorem statements_add_up:
  assumes "statementHistory env start stores" and "statementsOk start" and "rst \<in> set stores" and "c \<in> set (st_checkpoints (rs_ledger rst))"
    and links: "links = chainLinks (st_checkpoints (rs_ledger rst)) (rs_checkpoint_postings rst) (ck_id c)"
  shows "stated c = (\<Sum>k\<leftarrow>links. linkVal k) \<and> distinct (map (\<lambda>k. lineOf (rs_ledger rst) (kp_posting_version_id k)) links) \<and>
    (\<forall>k\<in>set (linksOf (rs_checkpoint_postings rst) (ck_id c)). backed (rs_ledger rst) (kp_posting_version_id k)
       (ck_book_id c, ck_account_id c, ck_commodity_id c, kp_entry_date k, kp_quantity_value k, kp_quantity_scale k))"
proof -
  have ok: "statementsOk rst" using statementHistory_kept [OF assms(1,2)] assms(3) by blast
  note q = statementsOk_parts [OF ok]
  let ?T = "chainRows (rs_ledger rst)" let ?L = "rs_checkpoint_postings rst"
  have c: "chainOf c \<in> set ?T" "ck_id (chainOf c) = ck_id c" using assms(4) by (simp_all add: chainRows_def)
  have tab: "tableOk (st_checkpoints (rs_ledger rst))" by (rule storeOk_parts(7) [OF q(1)])
  then have d: "distinct (map ck_id ?T)" "\<forall>x\<in>set ?T. 0 < ck_id x" by (simp_all add: tableOk_def chainRows_def o_def list_all_iff)
  have "stated c = (\<Sum>k\<leftarrow>links. linkVal k)" using chain_sum [OF q(2) d c(1)] by (simp add: links chainLinks_rows)
  moreover have "distinct (map (\<lambda>k. lineOf (rs_ledger rst) (kp_posting_version_id k)) links)"
    using q(4) c unfolding onceOk_def links chainLinks_rows [symmetric] by metis
  moreover have "backed (rs_ledger rst) (kp_posting_version_id k) (ck_book_id c, ck_account_id c, ck_commodity_id c, kp_entry_date k, kp_quantity_value k, kp_quantity_scale k)"
    if k: "k \<in> set (linksOf ?L (ck_id c))" for k
  proof -
    have k': "k \<in> set ?L" "kp_checkpoint_id k = ck_id (chainOf c)" using k by (simp_all add: linksOf_def)
    from linksOk_row(2) [OF q(3) k'(1)] obtain x where x: "x \<in> set ?T" "ck_id x = ck_id (chainOf c)" "position x = (kp_book_id k, kp_account_id k, kp_commodity_id k)"
      unfolding k'(2) by blast
    have "inj_on ck_id (set ?T)" using d(1) by (simp add: distinct_map)
    then have "x = chainOf c" using x(2,1) c(1) by (rule inj_onD)
    then have "position c = (kp_book_id k, kp_account_id k, kp_commodity_id k)" using x(3) by simp
    then show ?thesis using linksOk_row(1) [OF q(3) k'(1)] by (simp add: position_def)
  qed
  ultimately show ?thesis by blast
qed


text \<open>
  C8. Finishing a session closes its statement. When the repository finishes a session, whatever order Go ranges over the transactions in, the session
  was open and is finished, and one checkpoint is added to the table: active, of the session's account, commodity and date, chained to its
  starting checkpoint, with the statement's balance; it links, on their new versions, the very lines that were selected; and
  the statement's balance is the starting balance and the linked postings, exactly.
\<close>

theorem finishing_closes_the_statement:
  assumes "statementsOk rst" and "mapOrder ord" and "repo_FinishReconciliationSession ord params rst = Inr (rst', r)"
  shows "\<exists>s n N. s \<in> set (rs_sessions rst) \<and> sn_BookID s = finish_BookID params \<and> sn_ID s = finish_SessionID params \<and> sn_Status s = ''open'' \<and>
     (\<forall>s'\<in>set (rs_sessions rst'). sn_ID s' = sn_ID s \<longrightarrow> sn_Status s' = ''finished'') \<and>
     st_checkpoints (rs_ledger rst') = st_checkpoints (rs_ledger rst) @ [n] \<and> ck_status n = ''active'' \<and>
     (ck_book_id n, ck_account_id n, ck_commodity_id n) = (sn_BookID s, sn_AccountID s, sn_CommodityID s) \<and> ck_statement_date n = sn_StatementDate s \<and>
     ck_previous_checkpoint_id n = sn_StartingCheckpointID s \<and> stated n = statementVal s \<and>
     rs_checkpoint_postings rst' = rs_checkpoint_postings rst @ N \<and> N \<noteq> [] \<and> (\<forall>k\<in>set N. kp_checkpoint_id k = ck_id n) \<and>
     mset (map (\<lambda>k. lineOf (rs_ledger rst') (kp_posting_version_id k)) N) =
       mset (map (\<lambda>x. lineOf (rs_ledger rst) (xp_posting_version_id x)) (selectionOf (rs_session_postings rst) (sn_ID s))) \<and>
     stated n = startingVal s + (\<Sum>k\<leftarrow>N. linkVal k)"
proof -
  obtain s n N where "closes rst params rst' s n N" by (rule finish_step [OF assms])
  then show ?thesis unfolding closes_def position_def sessionKey_def by (intro exI [of _ s] exI [of _ n] exI [of _ N]) simp
qed


section \<open>Examples\<close>

text \<open>
  The small ledger with its checkpoint of 50.00 linked to the first transaction, and an open session of account 1 that states 60.00 and has the
  second transaction selected.
\<close>

definition openSession :: sessionRow where
  "openSession = \<lparr> sn_ID = 1, sn_BookID = BookID, sn_AccountID = 1, sn_CommodityID = 7, sn_Status = ''open'', sn_SourceKind = ''statement'',
     sn_StatementDate = exampleDay, sn_StatementBalanceValue = New 6000, sn_StatementBalanceScale = 2, sn_StartingCheckpointID = Some 1,
     sn_StartingBalanceValue = New 5000, sn_StartingBalanceScale = 2, sn_SelectedBalanceValue = New 1000, sn_SelectedBalanceScale = 2,
     sn_DifferenceValue = New 0, sn_DifferenceScale = 2, sn_MetadataJSON = ''{}'', sn_CreatedAt = [], sn_CreatedByUserID = 1, sn_UpdatedAt = [],
     sn_UpdatedByUserID = 1, sn_FinishedAt = None, sn_VoidedAt = None, sn_ChangeReason = [], sn_created_audit = None, sn_updated_audit = None \<rparr>"

definition selectedSecond :: sessionPostingRow where
  "selectedSecond = \<lparr> xp_session_id = 1, xp_posting_version_id = 3, xp_book_id = BookID, xp_transaction_id = 2, xp_transaction_version_id = 2,
     xp_posting_line_id = 3, xp_account_id = 1, xp_commodity_id = 7, xp_entry_date = exampleDay, xp_quantity_value = New 1000, xp_quantity_scale = 2,
     xp_payee_name = None, xp_description = [], xp_created_at = [], xp_created_by = 1, xp_created_audit = 1 \<rparr>"

definition linkedFirst :: checkpointPostingRow where
  "linkedFirst = \<lparr> kp_checkpoint_id = 1, kp_posting_version_id = 1, kp_book_id = BookID, kp_account_id = 1, kp_commodity_id = 7,
     kp_entry_date = exampleDay, kp_quantity_value = New 5000, kp_quantity_scale = 2 \<rparr>"

definition smallBook :: reconcileStore where
  "smallBook = \<lparr> rs_ledger = smallLedger, rs_sessions = [openSession], rs_session_postings = [selectedSecond], rs_checkpoint_postings = [linkedFirst] \<rparr>"

definition exampleFinish :: FinishReconciliationInput where
  "exampleFinish = \<lparr> fi_OwnerUserID = 1, fi_AuthSessionID = 0, fi_RequestID = [], fi_OriginType = ''browser_api'', fi_SessionID = 1, fi_ChangeReason = ''duplicate'' \<rparr>"

definition exampleFinishParams :: FinishReconciliationSessionParams where
  "exampleFinishParams = \<lparr> finish_BookID = BookID, finish_SessionID = 1, finish_ActorUserID = 1, finish_AuthSessionID = 0, finish_RequestID = [],
     finish_OriginType = ''browser_api'', finish_OccurredAt = exampleNow, finish_ChangeReason = ''duplicate'' \<rparr>"

lemma exampleFinish_prepared: "prepareFinish exampleNow exampleFinish = Inr exampleFinishParams"
  by (simp add: prepareFinish_def exampleFinish_def exampleFinishParams_def example_reason)

lemma smallBook_fields [simp]:
  "rs_ledger smallBook = smallLedger" "rs_sessions smallBook = [openSession]" "rs_session_postings smallBook = [selectedSecond]"
  "rs_checkpoint_postings smallBook = [linkedFirst]"
  by (simp_all add: smallBook_def)

lemma exampleCheckpoint_fields [simp]:
  "ck_id (exampleCheckpoint k a m d n x) = k" "ck_previous_checkpoint_id (exampleCheckpoint k a m d n x) = None"
  "position (exampleCheckpoint k a m d n x) = (BookID, a, m)" "ck_status (exampleCheckpoint k a m d n x) = ''active''"
  "ck_statement_balance_scale (exampleCheckpoint k a m d n x) = 2" "stated (exampleCheckpoint k a m d n x) = of_int x / 100"
  "ck_book_id (exampleCheckpoint k a m d n x) = BookID" "ck_account_id (exampleCheckpoint k a m d n x) = a" "ck_commodity_id (exampleCheckpoint k a m d n x) = m"
  by (simp_all add: exampleCheckpoint_def position_def stated_def decVal_def)

lemma openSession_fields [simp]:
  "sn_ID openSession = 1" "sn_BookID openSession = BookID" "sn_AccountID openSession = 1" "sn_CommodityID openSession = 7" "sn_Status openSession = ''open''"
  "sn_StartingCheckpointID openSession = Some 1" "sessionKey openSession = (BookID, 1, 7)" "sn_StatementDate openSession = exampleDay"
  "statementVal openSession = 60" "startingVal openSession = 50" "differenceVal openSession = 0" "BigInt (sn_DifferenceValue openSession) = 0"
  "sn_StatementBalanceScale openSession = 2" "sn_StartingBalanceScale openSession = 2"
  by (simp_all add: openSession_def sessionKey_def statementVal_def startingVal_def differenceVal_def decVal_def)

lemma smallLedger_backed: "backed smallLedger 1 (BookID, 1, 7, exampleDay, New 5000, 2)" "backed smallLedger 3 (BookID, 1, 7, exampleDay, New 1000, 2)"
  by (simp_all add: backed_def smallLedger_def exampleVersion_def examplePosting_def recordPostings_def)

lemma smallBook_rows: "chainRows smallLedger = [chainOf (exampleCheckpoint 1 1 7 exampleDay 1 5000)]"
  by (simp add: chainRows_def)

lemma smallBook_ok: "statementsOk smallBook"
proof (rule statementsOkI, unfold smallBook_fields smallBook_rows)
  show "storeOk smallLedger" by (rule smallLedger_ok)
  show "chainOk [chainOf (exampleCheckpoint 1 1 7 exampleDay 1 5000)] [linkedFirst]"
    by (simp add: chainOk_def startOf_def linksOf_def linkVal_def linkedFirst_def decVal_def storedScale_def)
  show "linksOk smallLedger [chainOf (exampleCheckpoint 1 1 7 exampleDay 1 5000)] [linkedFirst]"
    using smallLedger_backed(1) by (simp add: linksOk_def linkedFirst_def)
  show "onceOk smallLedger [chainOf (exampleCheckpoint 1 1 7 exampleDay 1 5000)] [linkedFirst]" by (simp add: onceOk_def chainLinks_def)
  show "selectionsOk smallLedger [openSession] [selectedSecond]" using smallLedger_backed(2) by (simp add: selectionsOk_def selectedSecond_def)
  show "sessionOk [chainOf (exampleCheckpoint 1 1 7 exampleDay 1 5000)] [selectedSecond] s" if "s \<in> set [openSession]" for s
    using that by (simp add: sessionOk_def storedScale_def selectionOf_def selectedVal_def selectedSecond_def decVal_def)
qed simp

lemma smallBook_start: "startNow smallBook openSession = Some 1"
  by (simp add: startNow_def latestActiveReconciliationCheckpoint_def)

lemma smallBook_open: "3 \<in> rq_PostingID ` set (sessionCandidates smallBook (sessionRecord openSession))"
proof -
  let ?cur = "(exampleDay, examplePosting 3 2 ''a'' 1 2 7 1000)"
  let ?v = "exampleVersion 2 2 ''posted'' [examplePosting 3 2 ''a'' 1 2 7 1000, examplePosting 4 2 ''b'' 3 1 7 (- 1000)]"
  have "\<not> linkedLine smallBook linkedFirst 3"
    by (simp add: linkedLine_def list_ex_iff storedPostings_def smallLedger_def exampleVersion_def examplePosting_def recordPostings_def linkedFirst_def)
  then have "notCoveredByCheckpoint smallBook BookID 1 3" by (simp add: notCoveredByCheckpoint_def)
  moreover have "reconciliationPosting (exampleRow 2) ?v ?cur \<in> set (postedRows smallLedger BookID)"
    unfolding posted_rows using smallLedger_current
    by (intro exI [of _ "exampleRow 2"] exI [of _ ?v] exI [of _ ?cur]) (simp add: smallLedger_def exampleRow_def exampleVersion_def recordPostings_def)
  ultimately have "reconciliationPosting (exampleRow 2) ?v ?cur \<in> set (sessionCandidates smallBook (sessionRecord openSession))"
    by (simp add: sessionCandidates_def reconciliationPostingSelect_def openForSession_def reconciliationPosting_def examplePosting_def)
  then show ?thesis by (rule rev_image_eqI) (simp add: examplePosting_def)
qed

lemma exampleFinish_audit: "auditAccepted (finishAudit exampleFinishParams)"
  using example_time
  by (simp add: auditAccepted_def finishAudit_def reconcileAudit_def exampleFinishParams_def auditOriginTypes_def text_literal byteVal_def)

lemma remdups_order: "mapOrder remdups"
  by (simp add: mapOrder_def)

lemma smallBook_selection: "selectionOf [selectedSecond] 1 = [selectedSecond]" "xp_posting_version_id selectedSecond = 3"
  by (simp_all add: selectionOf_def selectedSecond_def)

lemma smallBook_finishes:
  obtains rst' r where "repo_FinishReconciliationSession remdups exampleFinishParams smallBook = Inr (rst', r)"
    "statementHistory transferEnv smallBook [rst', smallBook]"
proof -
  have p: "finish_BookID exampleFinishParams = BookID" "finish_SessionID exampleFinishParams = 1" by (simp_all add: exampleFinishParams_def)
  obtain rst' r where w: "repo_FinishReconciliationSession remdups exampleFinishParams smallBook = Inr (rst', r)"
    using finish_ready [OF smallBook_ok _ remdups_order, of exampleFinishParams openSession] exampleFinish_audit smallBook_start smallBook_open
    by (auto simp: p smallBook_selection Coefficient_Sign_def)
  have "statementHistory transferEnv smallBook [rst', smallBook]"
    by (rule statementHistory.finishes [OF statementHistory.begins exampleFinish_prepared remdups_order w])
  then show thesis by (rule that [OF w])
qed

text \<open>Finishing the example session writes a second checkpoint.\<close>

lemma smallBook_closed:
  obtains rst' r n where "statementHistory transferEnv smallBook [rst', smallBook]" "st_checkpoints (rs_ledger rst') = [exampleCheckpoint 1 1 7 exampleDay 1 5000, n]"
    "stated n = 60" "ck_status n = ''active''" "ck_previous_checkpoint_id n = Some 1"
proof -
  obtain rst' r where w: "repo_FinishReconciliationSession remdups exampleFinishParams smallBook = Inr (rst', r)"
    and h: "statementHistory transferEnv smallBook [rst', smallBook]" by (rule smallBook_finishes)
  obtain s n N where "closes smallBook exampleFinishParams rst' s n N" by (rule finish_step [OF smallBook_ok remdups_order w])
  then have "st_checkpoints (rs_ledger rst') = [exampleCheckpoint 1 1 7 exampleDay 1 5000, n]" "stated n = 60" "ck_status n = ''active''" "ck_previous_checkpoint_id n = Some 1"
    by (auto simp: closes_def)
  then show thesis by (rule that [OF h])
qed

theorem statements_add_up_witness:
  "\<exists>rst n. statementHistory transferEnv smallBook [rst, smallBook] \<and> n \<in> set (st_checkpoints (rs_ledger rst)) \<and> stated n = 60 \<and> ck_previous_checkpoint_id n = Some 1 \<and>
    (\<Sum>k\<leftarrow>chainLinks (st_checkpoints (rs_ledger rst)) (rs_checkpoint_postings rst) (ck_id n). linkVal k) = 60"
proof -
  obtain rst r n where w: "statementHistory transferEnv smallBook [rst, smallBook]" "st_checkpoints (rs_ledger rst) = [exampleCheckpoint 1 1 7 exampleDay 1 5000, n]"
    "stated n = 60" "ck_previous_checkpoint_id n = Some 1" by (rule smallBook_closed)
  have n: "n \<in> set (st_checkpoints (rs_ledger rst))" by (simp add: w(2))
  have rst: "rst \<in> set [rst, smallBook]" by simp
  from statements_add_up [OF w(1) smallBook_ok rst n refl] w(1,3,4) n show ?thesis by (intro exI [of _ rst] exI [of _ n]) simp
qed


theorem finishing_closes_the_statement_witness:
  "\<exists>rst r n N. repo_FinishReconciliationSession remdups exampleFinishParams smallBook = Inr (rst, r) \<and> st_checkpoints (rs_ledger rst) = st_checkpoints smallLedger @ [n] \<and>
    stated n = 60 \<and> (\<Sum>k\<leftarrow>N. linkVal k) = 10 \<and> rs_checkpoint_postings rst = linkedFirst # N"
proof -
  obtain rst r where w: "repo_FinishReconciliationSession remdups exampleFinishParams smallBook = Inr (rst, r)" by (rule smallBook_finishes)
  from finishing_closes_the_statement [OF smallBook_ok remdups_order w] obtain n N where
    "st_checkpoints (rs_ledger rst) = st_checkpoints smallLedger @ [n]" "stated n = 60" "rs_checkpoint_postings rst = linkedFirst # N" "stated n = 50 + (\<Sum>k\<leftarrow>N. linkVal k)"
    by auto
  then show ?thesis using w by (intro exI [of _ rst] exI [of _ r] exI [of _ n] exI [of _ N]) simp
qed


end
