(* ===== verification/Recurring.thy ===== *)
theory Recurring
  imports Lifecycle Recur
begin

text \<open>
  Recurring transactions: the repository of templates and occurrences (\<^verbatim>\<open>db/recurring.go\<close>, \<^verbatim>\<open>db/recurring_generation.go\<close>,
  \<^verbatim>\<open>db/recurring_review.go\<close>) and the service over it (\<^verbatim>\<open>app/recurring.go\<close>, \<^verbatim>\<open>app/recurring_generation.go\<close>,
  \<^verbatim>\<open>app/recurring_review.go\<close>). A template carries a schedule, a revision and a watermark, the day from which dates are still to be
  generated. An occurrence is the fate of one date of one template: a draft was generated, the date was skipped, or
  validation blocked it. The rows of postings and tags of a template are kept within its row; an occurrence is a row of the ledger's
  store, because discarding a draft writes it.
\<close>

section \<open>Definitions: templates\<close>

record RecurringTemplatePostingSpec =
  rtp_LineKey :: string
  rtp_AccountID :: int
  rtp_QuantityValue :: Coefficient
  rtp_QuantityScale :: int
  rtp_CommodityID :: int
  rtp_Memo :: string

record RecurringTemplateSpec =
  rt_Name :: string
  rt_Enabled :: bool
  rt_TransactionKind :: string
  rt_PayeeID :: "int option"
  rt_PayeeName :: string
  rt_Description :: string
  rt_NoteMarkdown :: string
  rt_Frequency :: string
  rt_IntervalCount :: int
  rt_ByWeekday :: "int option"
  rt_DayOfMonth :: "int option"
  rt_LastDayOfMonth :: bool
  rt_MonthOfYear :: "int option"
  rt_StartsOn :: string
  rt_EndsOn :: string
  rt_MaxOccurrences :: "int option"
  rt_LeadDays :: int
  rt_GenerateFrom :: string
  rt_Postings :: "RecurringTemplatePostingSpec list"
  rt_TagIDs :: "int list"

record RecurringTemplatePostingRecord =
  tp_ID :: int
  tp_TemplateID :: int
  tp_LineSeq :: int
  tp_LineKey :: string
  tp_AccountID :: int
  tp_QuantityValue :: Coefficient
  tp_QuantityScale :: int
  tp_CommodityID :: int
  tp_Memo :: string

record templateRow =
  tm_id :: int
  tm_book_id :: int
  tm_name :: string
  tm_enabled :: bool
  tm_archived_at :: "string option"
  tm_transaction_kind :: string
  tm_payee_id :: "int option"
  tm_payee_name :: "string option"
  tm_description :: string
  tm_note_markdown :: string
  tm_frequency :: string
  tm_interval_count :: int
  tm_by_weekday :: "int option"
  tm_day_of_month :: "int option"
  tm_last_day_of_month :: bool
  tm_month_of_year :: "int option"
  tm_starts_on :: string
  tm_ends_on :: "string option"
  tm_max_occurrences :: "int option"
  tm_lead_days :: int
  tm_generate_from :: string
  tm_created_at :: string
  tm_created_by :: int
  tm_updated_at :: string
  tm_updated_by :: int
  tm_revision :: int
  tm_postings :: "RecurringTemplatePostingRecord list"
  tm_tag_ids :: "int list"

record RecurringTemplateRecord =
  tt_MaterializedDates :: "string list"
  tt_ID :: int
  tt_Revision :: int
  tt_BookID :: int
  tt_Name :: string
  tt_Enabled :: bool
  tt_ArchivedAt :: "string option"
  tt_TransactionKind :: string
  tt_PayeeID :: "int option"
  tt_PayeeName :: "string option"
  tt_Description :: string
  tt_NoteMarkdown :: string
  tt_Frequency :: string
  tt_IntervalCount :: int
  tt_ByWeekday :: "int option"
  tt_DayOfMonth :: "int option"
  tt_LastDayOfMonth :: bool
  tt_MonthOfYear :: "int option"
  tt_StartsOn :: string
  tt_EndsOn :: "string option"
  tt_MaxOccurrences :: "int option"
  tt_LeadDays :: int
  tt_GenerateFrom :: string
  tt_CreatedAt :: string
  tt_UpdatedAt :: string
  tt_Postings :: "RecurringTemplatePostingRecord list"
  tt_TagIDs :: "int list"

record CreateRecurringTemplateParams =
  nt_BookID :: int
  nt_ActorUserID :: int
  nt_AuthSessionID :: int
  nt_RequestID :: string
  nt_CreatedAt :: string
  nt_Spec :: RecurringTemplateSpec

record UpdateRecurringTemplateParams =
  et_BookID :: int
  et_TemplateID :: int
  et_ActorUserID :: int
  et_AuthSessionID :: int
  et_RequestID :: string
  et_UpdatedAt :: string
  et_Spec :: RecurringTemplateSpec
  et_ExpectedRevision :: "int option"

record ArchiveRecurringTemplateParams =
  at_BookID :: int
  at_TemplateID :: int
  at_ActorUserID :: int
  at_AuthSessionID :: int
  at_RequestID :: string
  at_ArchivedAt :: string

record ListRecurringTemplatesParams =
  lt_BookID :: int
  lt_IncludeArchived :: bool
  lt_EnabledOnly :: bool

record CreateRecurringOccurrenceParams =
  no_BookID :: int
  no_TemplateID :: int
  no_OccurrenceDate :: string
  no_Status :: string
  no_TransactionID :: "int option"
  no_ErrorSummary :: string
  no_SkipReason :: string
  no_MaterializedAt :: string

record recurringStore =
  gs_ledger :: store
  gs_templates :: "templateRow list"

text \<open>What the repository refuses with; an error of the ledger underneath is carried along.\<close>

datatype recurring_refusal =
    DBTemplateNotFound | DBTemplateArchived | DBTemplateConflict | DBOccurrenceExists | DBOccurrenceNotFound
  | DraftContractInvalid | TemplateLineKeyRepeated | TemplateTagRepeated
  | DBLedger write_error

section \<open>Definitions: reading templates\<close>

definition occurrencesIn :: "recurringStore \<Rightarrow> occurrenceRow list" where
  "occurrencesIn gs = st_occurrences (gs_ledger gs)"

text \<open>The name a template shows for its payee: that of the linked payee in effect, else the typed one.\<close>

definition templatePayeeName :: "ledgerEnv \<Rightarrow> recurringStore \<Rightarrow> templateRow \<Rightarrow> string option" where
  "templatePayeeName env gs row = (case (case tm_payee_id row of None \<Rightarrow> None
       | Some payeeID \<Rightarrow> PayeeByID (st_reference (gs_ledger gs)) (env_referenceDate env) (tm_book_id row) payeeID) of
     Some pv \<Rightarrow> Some (pv_name pv) | None \<Rightarrow> tm_payee_name row)"

definition materializedDates :: "recurringStore \<Rightarrow> templateRow \<Rightarrow> string list" where
  "materializedDates gs row = map oc_occurrence_date (filter (\<lambda>o'. oc_book_id o' = tm_book_id row \<and> oc_template_id o' = tm_id row
     \<and> oc_occurrence_date o' \<ge> tm_generate_from row) (occurrencesIn gs))"

definition templateRecord :: "ledgerEnv \<Rightarrow> recurringStore \<Rightarrow> templateRow \<Rightarrow> RecurringTemplateRecord" where
  "templateRecord env gs row = \<lparr> tt_MaterializedDates = materializedDates gs row, tt_ID = tm_id row, tt_Revision = tm_revision row,
     tt_BookID = tm_book_id row, tt_Name = tm_name row, tt_Enabled = tm_enabled row, tt_ArchivedAt = tm_archived_at row,
     tt_TransactionKind = tm_transaction_kind row, tt_PayeeID = tm_payee_id row, tt_PayeeName = templatePayeeName env gs row,
     tt_Description = tm_description row, tt_NoteMarkdown = tm_note_markdown row, tt_Frequency = tm_frequency row,
     tt_IntervalCount = tm_interval_count row, tt_ByWeekday = tm_by_weekday row, tt_DayOfMonth = tm_day_of_month row,
     tt_LastDayOfMonth = tm_last_day_of_month row, tt_MonthOfYear = tm_month_of_year row, tt_StartsOn = tm_starts_on row,
     tt_EndsOn = tm_ends_on row, tt_MaxOccurrences = tm_max_occurrences row, tt_LeadDays = tm_lead_days row,
     tt_GenerateFrom = tm_generate_from row, tt_CreatedAt = tm_created_at row, tt_UpdatedAt = tm_updated_at row,
     tt_Postings = sort_key tp_LineSeq (tm_postings row), tt_TagIDs = sort (tm_tag_ids row) \<rparr>"

definition listRecurringTemplates :: "ledgerEnv \<Rightarrow> recurringStore \<Rightarrow> ListRecurringTemplatesParams \<Rightarrow> int \<Rightarrow> RecurringTemplateRecord list" where
  "listRecurringTemplates env gs params templateID = map (templateRecord env gs) (sort_key (\<lambda>row. (tm_name row, tm_id row))
     (filter (\<lambda>row. tm_book_id row = lt_BookID params \<and> (templateID > 0 \<longrightarrow> tm_id row = templateID)
        \<and> (\<not> lt_IncludeArchived params \<longrightarrow> tm_archived_at row = None)
        \<and> (lt_EnabledOnly params \<longrightarrow> tm_enabled row \<and> tm_archived_at row = None)) (gs_templates gs)))"

definition repo_ListRecurringTemplates :: "ledgerEnv \<Rightarrow> recurringStore \<Rightarrow> ListRecurringTemplatesParams \<Rightarrow> RecurringTemplateRecord list" where
  "repo_ListRecurringTemplates env gs params = listRecurringTemplates env gs params 0"

definition RecurringTemplateByID :: "ledgerEnv \<Rightarrow> recurringStore \<Rightarrow> int \<Rightarrow> int \<Rightarrow> (recurring_refusal, RecurringTemplateRecord) result" where
  "RecurringTemplateByID env gs bookID templateID = (
     case listRecurringTemplates env gs \<lparr> lt_BookID = bookID, lt_IncludeArchived = True, lt_EnabledOnly = False \<rparr> templateID of
       [] \<Rightarrow> Inl DBTemplateNotFound | record # _ \<Rightarrow> Inr record)"

definition findTemplate :: "recurringStore \<Rightarrow> int \<Rightarrow> int \<Rightarrow> templateRow option" where
  "findTemplate gs bookID templateID = find (\<lambda>row. tm_book_id row = bookID \<and> tm_id row = templateID) (gs_templates gs)"

definition requireRecurringTemplate :: "recurringStore \<Rightarrow> int \<Rightarrow> int \<Rightarrow> (recurring_refusal, templateRow) result" where
  "requireRecurringTemplate gs bookID templateID = (case findTemplate gs bookID templateID of
       None \<Rightarrow> Inl DBTemplateNotFound | Some row \<Rightarrow> Inr row)"

section \<open>Definitions: writing templates\<close>

definition nullableNonEmptyText :: "string \<Rightarrow> string option" where
  "nullableNonEmptyText v = (if v = [] then None else Some v)"

text \<open>The children of a template are replaced as a whole; a line key or a tag given twice breaks a unique index.\<close>

definition replaceRecurringTemplateChildren :: "RecurringTemplateSpec \<Rightarrow> templateRow list \<Rightarrow> templateRow \<Rightarrow> (recurring_refusal, templateRow) result" where
  "replaceRecurringTemplateChildren spec others row = (
     let firstID = nextAbove (map tp_ID (concat (map tm_postings others))) in
     bindR (ensure (distinct (map rtp_LineKey (rt_Postings spec))) TemplateLineKeyRepeated) (\<lambda>_.
     bindR (ensure (distinct (rt_TagIDs spec)) TemplateTagRepeated) (\<lambda>_.
     Inr (row\<lparr> tm_postings := map (\<lambda>(index, posting). \<lparr> tp_ID = firstID + int index, tp_TemplateID = tm_id row, tp_LineSeq = int index + 1,
         tp_LineKey = rtp_LineKey posting, tp_AccountID = rtp_AccountID posting, tp_QuantityValue = rtp_QuantityValue posting,
         tp_QuantityScale = rtp_QuantityScale posting, tp_CommodityID = rtp_CommodityID posting, tp_Memo = rtp_Memo posting \<rparr>)
         (enumerate 0 (rt_Postings spec)),
       tm_tag_ids := rt_TagIDs spec \<rparr>))))"

definition templateAudit :: "int \<Rightarrow> int \<Rightarrow> int \<Rightarrow> string \<Rightarrow> string \<Rightarrow> string \<Rightarrow> string \<Rightarrow> string \<Rightarrow> AuditEventParams" where
  "templateAudit bookID actorID sessionID occurredAt requestID operation reason metadata = \<lparr> ap_BookID = bookID, ap_ActorUserID = actorID,
     ap_AuthSessionID = sessionID, ap_OccurredAt = occurredAt, ap_RequestID = requestID, ap_OriginType = ''browser_api'',
     ap_Operation = operation, ap_Reason = reason, ap_MetadataJSON = metadata \<rparr>"

definition templateMetadata :: "int \<Rightarrow> string" where
  "templateMetadata templateID = ''{\"template_id\":'' @ intString templateID @ ''}''"

definition auditRecurring :: "AuditEventParams \<Rightarrow> recurringStore \<Rightarrow> (recurring_refusal, recurringStore \<times> int) result" where
  "auditRecurring params gs = bindR (mapErr DBLedger (insertAuditEvent params (gs_ledger gs))) (\<lambda>(st, auditID). Inr (gs\<lparr> gs_ledger := st \<rparr>, auditID))"

definition newTemplateRow :: "CreateRecurringTemplateParams \<Rightarrow> int \<Rightarrow> templateRow" where
  "newTemplateRow params templateID = (let spec = nt_Spec params in
     \<lparr> tm_id = templateID, tm_book_id = nt_BookID params, tm_name = rt_Name spec, tm_enabled = rt_Enabled spec, tm_archived_at = None,
       tm_transaction_kind = rt_TransactionKind spec, tm_payee_id = rt_PayeeID spec, tm_payee_name = nullableNonEmptyText (rt_PayeeName spec),
       tm_description = rt_Description spec, tm_note_markdown = rt_NoteMarkdown spec, tm_frequency = rt_Frequency spec,
       tm_interval_count = rt_IntervalCount spec, tm_by_weekday = rt_ByWeekday spec, tm_day_of_month = rt_DayOfMonth spec,
       tm_last_day_of_month = rt_LastDayOfMonth spec, tm_month_of_year = rt_MonthOfYear spec, tm_starts_on = rt_StartsOn spec,
       tm_ends_on = nullableNonEmptyText (rt_EndsOn spec), tm_max_occurrences = rt_MaxOccurrences spec, tm_lead_days = rt_LeadDays spec,
       tm_generate_from = rt_GenerateFrom spec, tm_created_at = nt_CreatedAt params, tm_created_by = nt_ActorUserID params,
       tm_updated_at = nt_CreatedAt params, tm_updated_by = nt_ActorUserID params, tm_revision = 1, tm_postings = [], tm_tag_ids = [] \<rparr>)"

definition updatedTemplateRow :: "UpdateRecurringTemplateParams \<Rightarrow> templateRow \<Rightarrow> templateRow" where
  "updatedTemplateRow params row = (let spec = et_Spec params in
     row\<lparr> tm_name := rt_Name spec, tm_enabled := rt_Enabled spec, tm_transaction_kind := rt_TransactionKind spec,
       tm_payee_id := rt_PayeeID spec, tm_payee_name := nullableNonEmptyText (rt_PayeeName spec),
       tm_description := rt_Description spec, tm_note_markdown := rt_NoteMarkdown spec, tm_frequency := rt_Frequency spec,
       tm_interval_count := rt_IntervalCount spec, tm_by_weekday := rt_ByWeekday spec, tm_day_of_month := rt_DayOfMonth spec,
       tm_last_day_of_month := rt_LastDayOfMonth spec, tm_month_of_year := rt_MonthOfYear spec, tm_starts_on := rt_StartsOn spec,
       tm_ends_on := nullableNonEmptyText (rt_EndsOn spec), tm_max_occurrences := rt_MaxOccurrences spec, tm_lead_days := rt_LeadDays spec,
       tm_generate_from := rt_GenerateFrom spec, tm_updated_at := et_UpdatedAt params, tm_updated_by := et_ActorUserID params,
       tm_revision := tm_revision row + 1 \<rparr>)"

definition archivedTemplateRow :: "ArchiveRecurringTemplateParams \<Rightarrow> templateRow \<Rightarrow> templateRow" where
  "archivedTemplateRow params row = row\<lparr> tm_archived_at := Some (at_ArchivedAt params), tm_enabled := False,
     tm_updated_at := at_ArchivedAt params, tm_updated_by := at_ActorUserID params, tm_revision := tm_revision row + 1 \<rparr>"

text \<open>An \<^verbatim>\<open>UPDATE\<close> of the row with a book and an id.\<close>

definition updateTemplate :: "int \<Rightarrow> int \<Rightarrow> (templateRow \<Rightarrow> templateRow) \<Rightarrow> templateRow list \<Rightarrow> templateRow list" where
  "updateTemplate bookID templateID f rows = map (\<lambda>row. if tm_book_id row = bookID \<and> tm_id row = templateID then f row else row) rows"

definition repo_CreateRecurringTemplate ::
  "ledgerEnv \<Rightarrow> CreateRecurringTemplateParams \<Rightarrow> recurringStore \<Rightarrow> (recurring_refusal, recurringStore \<times> RecurringTemplateRecord) result" where
  "repo_CreateRecurringTemplate env params gs =
     bindR (mapErr DBLedger (readBookForUpdate (gs_ledger gs) (nt_BookID params))) (\<lambda>_.
     bindR (auditRecurring (templateAudit (nt_BookID params) (nt_ActorUserID params) (nt_AuthSessionID params) (nt_CreatedAt params)
       (nt_RequestID params) ''recurring.template.create'' ''recurring template created'' []) gs) (\<lambda>(gs1, auditID).
     let templateID = nextAbove (map tm_id (gs_templates gs1)) in
     bindR (replaceRecurringTemplateChildren (nt_Spec params) (gs_templates gs1) (newTemplateRow params templateID)) (\<lambda>row.
     let gs2 = gs1\<lparr> gs_templates := gs_templates gs1 @ [row] \<rparr> in
     bindR (RecurringTemplateByID env gs2 (nt_BookID params) templateID) (\<lambda>record. Inr (gs2, record)))))"

definition repo_UpdateRecurringTemplate ::
  "ledgerEnv \<Rightarrow> UpdateRecurringTemplateParams \<Rightarrow> recurringStore \<Rightarrow> (recurring_refusal, recurringStore \<times> RecurringTemplateRecord) result" where
  "repo_UpdateRecurringTemplate env params gs =
     bindR (mapErr DBLedger (readBookForUpdate (gs_ledger gs) (et_BookID params))) (\<lambda>_.
     bindR (requireRecurringTemplate gs (et_BookID params) (et_TemplateID params)) (\<lambda>row.
     bindR (ensure (tm_archived_at row = None) DBTemplateArchived) (\<lambda>_.
     bindR (ensure (case et_ExpectedRevision params of None \<Rightarrow> True | Some expected \<Rightarrow> tm_revision row = expected) DBTemplateConflict) (\<lambda>_.
     bindR (auditRecurring (templateAudit (et_BookID params) (et_ActorUserID params) (et_AuthSessionID params) (et_UpdatedAt params)
       (et_RequestID params) ''recurring.template.update'' ''recurring template updated'' (templateMetadata (et_TemplateID params))) gs) (\<lambda>(gs1, auditID).
     bindR (replaceRecurringTemplateChildren (et_Spec params) (filter (\<lambda>other. tm_id other \<noteq> tm_id row) (gs_templates gs1)) (updatedTemplateRow params row)) (\<lambda>row'.
     let gs2 = gs1\<lparr> gs_templates := updateTemplate (et_BookID params) (et_TemplateID params) (\<lambda>_. row') (gs_templates gs1) \<rparr> in
     bindR (RecurringTemplateByID env gs2 (et_BookID params) (et_TemplateID params)) (\<lambda>record. Inr (gs2, record))))))))"

definition repo_ArchiveRecurringTemplate ::
  "ledgerEnv \<Rightarrow> ArchiveRecurringTemplateParams \<Rightarrow> recurringStore \<Rightarrow> (recurring_refusal, recurringStore \<times> RecurringTemplateRecord) result" where
  "repo_ArchiveRecurringTemplate env params gs =
     bindR (mapErr DBLedger (readBookForUpdate (gs_ledger gs) (at_BookID params))) (\<lambda>_.
     bindR (requireRecurringTemplate gs (at_BookID params) (at_TemplateID params)) (\<lambda>row.
     if tm_archived_at row \<noteq> None then bindR (RecurringTemplateByID env gs (at_BookID params) (at_TemplateID params)) (\<lambda>record. Inr (gs, record))
     else
     bindR (auditRecurring (templateAudit (at_BookID params) (at_ActorUserID params) (at_AuthSessionID params) (at_ArchivedAt params)
       (at_RequestID params) ''recurring.template.archive'' ''recurring template archived'' (templateMetadata (at_TemplateID params))) gs) (\<lambda>(gs1, auditID).
     let gs2 = gs1\<lparr> gs_templates := updateTemplate (at_BookID params) (at_TemplateID params) (archivedTemplateRow params) (gs_templates gs1) \<rparr> in
     bindR (RecurringTemplateByID env gs2 (at_BookID params) (at_TemplateID params)) (\<lambda>record. Inr (gs2, record)))))"

section \<open>Definitions: occurrences\<close>

definition findOccurrence :: "recurringStore \<Rightarrow> int \<Rightarrow> int \<Rightarrow> string \<Rightarrow> occurrenceRow option" where
  "findOccurrence gs bookID templateID date =
     find (\<lambda>o'. oc_book_id o' = bookID \<and> oc_template_id o' = templateID \<and> oc_occurrence_date o' = date) (occurrencesIn gs)"

text \<open>The dates within bounds, both included, that have a row.\<close>

definition occurrencesOf :: "recurringStore \<Rightarrow> int \<Rightarrow> int \<Rightarrow> string \<Rightarrow> string \<Rightarrow> occurrenceRow list" where
  "occurrencesOf gs bookID templateID from to = sort_key (\<lambda>o'. (oc_occurrence_date o', oc_id o'))
     (filter (\<lambda>o'. oc_book_id o' = bookID \<and> oc_template_id o' = templateID \<and> from \<le> oc_occurrence_date o' \<and> oc_occurrence_date o' \<le> to) (occurrencesIn gs))"

definition RecurringOccurrenceDates :: "recurringStore \<Rightarrow> int \<Rightarrow> int \<Rightarrow> string \<Rightarrow> string \<Rightarrow> string \<rightharpoonup> string" where
  "RecurringOccurrenceDates gs bookID templateID from to =
     map_of (rev (map (\<lambda>o'. (oc_occurrence_date o', oc_status o')) (occurrencesOf gs bookID templateID from to)))"

definition RecurringOccurrencesInRange :: "recurringStore \<Rightarrow> int \<Rightarrow> int \<Rightarrow> string \<Rightarrow> string \<Rightarrow> occurrenceRow list" where
  "RecurringOccurrencesInRange gs bookID templateID from to = occurrencesOf gs bookID templateID from to"

definition RecurringOccurrenceByID :: "recurringStore \<Rightarrow> int \<Rightarrow> int \<Rightarrow> (recurring_refusal, occurrenceRow) result" where
  "RecurringOccurrenceByID gs bookID occurrenceID = (case find (\<lambda>o'. oc_book_id o' = bookID \<and> oc_id o' = occurrenceID) (occurrencesIn gs) of
       None \<Rightarrow> Inl DBOccurrenceNotFound | Some o' \<Rightarrow> Inr o')"

text \<open>Newest first.\<close>

definition ListRecurringOccurrences :: "recurringStore \<Rightarrow> int \<Rightarrow> int \<Rightarrow> int \<Rightarrow> occurrenceRow list" where
  "ListRecurringOccurrences gs bookID templateID limit = take (nat (if limit \<le> 0 then 50 else limit))
     (rev (sort_key (\<lambda>o'. (oc_occurrence_date o', oc_id o')) (filter (\<lambda>o'. oc_book_id o' = bookID \<and> oc_template_id o' = templateID) (occurrencesIn gs))))"

definition newOccurrence :: "CreateRecurringOccurrenceParams \<Rightarrow> int option \<Rightarrow> int \<Rightarrow> occurrenceRow" where
  "newOccurrence params auditID occurrenceID = \<lparr> oc_id = occurrenceID, oc_book_id = no_BookID params, oc_template_id = no_TemplateID params,
     oc_occurrence_date = no_OccurrenceDate params, oc_status = no_Status params, oc_transaction_id = no_TransactionID params,
     oc_error_summary = no_ErrorSummary params, oc_skip_reason = no_SkipReason params, oc_materialized_at = no_MaterializedAt params,
     oc_created_at = no_MaterializedAt params, oc_updated_at = no_MaterializedAt params, oc_last_audit = auditID \<rparr>"

text \<open>An insert; the unique index on template and date refuses a second row for a date.\<close>

definition insertOccurrence :: "CreateRecurringOccurrenceParams \<Rightarrow> int option \<Rightarrow> recurringStore \<Rightarrow> (recurring_refusal, recurringStore) result" where
  "insertOccurrence params auditID gs =
     bindR (ensure (\<forall>o'\<in>set (occurrencesIn gs). \<not> (oc_template_id o' = no_TemplateID params \<and> oc_occurrence_date o' = no_OccurrenceDate params)) DBOccurrenceExists) (\<lambda>_.
     Inr (gs\<lparr> gs_ledger := (gs_ledger gs)\<lparr> st_occurrences := occurrencesIn gs @ [newOccurrence params auditID (nextAbove (map oc_id (occurrencesIn gs)))] \<rparr> \<rparr>))"

definition repo_CreateRecurringOccurrence :: "CreateRecurringOccurrenceParams \<Rightarrow> recurringStore \<Rightarrow> (recurring_refusal, recurringStore \<times> occurrenceRow) result" where
  "repo_CreateRecurringOccurrence params gs =
     bindR (insertOccurrence params None gs) (\<lambda>gs1.
     bindR (RecurringOccurrenceByID gs1 (no_BookID params) (nextAbove (map oc_id (occurrencesIn gs)))) (\<lambda>o'. Inr (gs1, o')))"

definition updateOccurrence :: "CreateRecurringOccurrenceParams \<Rightarrow> (occurrenceRow \<Rightarrow> occurrenceRow) \<Rightarrow> recurringStore \<Rightarrow> recurringStore" where
  "updateOccurrence params f gs = gs\<lparr> gs_ledger := (gs_ledger gs)\<lparr> st_occurrences := map (\<lambda>o'.
     if oc_book_id o' = no_BookID params \<and> oc_template_id o' = no_TemplateID params \<and> oc_occurrence_date o' = no_OccurrenceDate params
     then f o' else o') (occurrencesIn gs) \<rparr> \<rparr>"

section \<open>Definitions: generation\<close>

text \<open>The guard of a generating write: the template is still at the revision that was read, enabled, and not archived.\<close>

definition guardRecurringGeneration :: "recurringStore \<Rightarrow> int \<Rightarrow> int \<Rightarrow> int \<Rightarrow> (recurring_refusal, unit) result" where
  "guardRecurringGeneration gs bookID templateID revision = ensure (\<exists>row\<in>set (gs_templates gs). tm_book_id row = bookID \<and> tm_id row = templateID
     \<and> tm_revision row = revision \<and> tm_enabled row \<and> tm_archived_at row = None) DBTemplateConflict"

text \<open>A date without a row can be claimed; a row only by who has read that it is blocked, and at which audit event.\<close>

definition guardRecurringOccurrence :: "recurringStore \<Rightarrow> CreateRecurringOccurrenceParams \<Rightarrow> int option \<Rightarrow> (recurring_refusal, unit) result" where
  "guardRecurringOccurrence gs occurrence expectedAuditID = (
     case findOccurrence gs (no_BookID occurrence) (no_TemplateID occurrence) (no_OccurrenceDate occurrence) of
       None \<Rightarrow> ensure (expectedAuditID = None) DBOccurrenceExists
     | Some o' \<Rightarrow> ensure (expectedAuditID \<noteq> None \<and> oc_status o' = ''blocked'' \<and> oc_last_audit o' = expectedAuditID) DBOccurrenceExists)"

definition retriedOccurrence :: "CreateRecurringOccurrenceParams \<Rightarrow> int \<Rightarrow> occurrenceRow \<Rightarrow> occurrenceRow" where
  "retriedOccurrence params auditID o' = o'\<lparr> oc_status := no_Status params, oc_transaction_id := no_TransactionID params,
     oc_error_summary := no_ErrorSummary params, oc_skip_reason := [], oc_materialized_at := no_MaterializedAt params,
     oc_updated_at := no_MaterializedAt params, oc_last_audit := Some auditID \<rparr>"

text \<open>The draft of an occurrence is written first, or the audit event of its refusal, then the row that stands for the date.\<close>

definition draftOf :: "CreateRecurringOccurrenceParams \<Rightarrow> CreateTransactionParams option \<Rightarrow> AuditEventParams \<Rightarrow> recurringStore
    \<Rightarrow> (recurring_refusal, recurringStore \<times> CreateRecurringOccurrenceParams \<times> int) result" where
  "draftOf occurrence draft audit gs = (case draft of
       Some params \<Rightarrow>
         bindR (ensure (ct_BookID params = no_BookID occurrence \<and> ts_Status (ct_Spec params) = ''draft'' \<and> ct_OriginType params = ''scheduled''
           \<and> ts_TransactionDate (ct_Spec params) = no_OccurrenceDate occurrence) DraftContractInvalid) (\<lambda>_.
         bindR (mapErr DBLedger (createTransactionWithAuditTx params (gs_ledger gs))) (\<lambda>(st, record, auditID).
         Inr (gs\<lparr> gs_ledger := st \<rparr>, occurrence\<lparr> no_Status := ''generated'', no_TransactionID := Some (rc_ID record) \<rparr>, auditID)))
     | None \<Rightarrow>
         bindR (auditRecurring audit gs) (\<lambda>(gs1, auditID).
         Inr (gs1, occurrence\<lparr> no_Status := ''blocked'', no_TransactionID := None \<rparr>, auditID)))"

definition materializeRecurringOccurrence :: "int \<Rightarrow> CreateRecurringOccurrenceParams \<Rightarrow> CreateTransactionParams option \<Rightarrow> AuditEventParams
    \<Rightarrow> int option \<Rightarrow> recurringStore \<Rightarrow> (recurring_refusal, recurringStore) result" where
  "materializeRecurringOccurrence revision occurrence draft audit expectedAuditID gs =
     bindR (guardRecurringGeneration gs (no_BookID occurrence) (no_TemplateID occurrence) revision) (\<lambda>_.
     bindR (guardRecurringOccurrence gs occurrence expectedAuditID) (\<lambda>_.
     bindR (draftOf occurrence draft audit gs) (\<lambda>(gs1, outcome, auditID).
     if expectedAuditID = None then insertOccurrence outcome (Some auditID) gs1
     else Inr (updateOccurrence outcome (retriedOccurrence outcome auditID) gs1))))"

definition repo_MaterializeRecurringOccurrence :: "int \<Rightarrow> CreateRecurringOccurrenceParams \<Rightarrow> CreateTransactionParams option \<Rightarrow> AuditEventParams
    \<Rightarrow> recurringStore \<Rightarrow> (recurring_refusal, recurringStore) result" where
  "repo_MaterializeRecurringOccurrence revision occurrence draft audit gs = materializeRecurringOccurrence revision occurrence draft audit None gs"

definition repo_RetryRecurringOccurrence :: "int \<Rightarrow> CreateRecurringOccurrenceParams \<Rightarrow> CreateTransactionParams option \<Rightarrow> AuditEventParams
    \<Rightarrow> int \<Rightarrow> recurringStore \<Rightarrow> (recurring_refusal, recurringStore) result" where
  "repo_RetryRecurringOccurrence revision occurrence draft audit expectedAuditID gs =
     materializeRecurringOccurrence revision occurrence draft audit (Some expectedAuditID) gs"

definition repo_AdvanceRecurringGeneration :: "int \<Rightarrow> int \<Rightarrow> int \<Rightarrow> string \<Rightarrow> string \<Rightarrow> recurringStore \<Rightarrow> (recurring_refusal, recurringStore) result" where
  "repo_AdvanceRecurringGeneration bookID templateID revision through occurredAt gs =
     bindR (guardRecurringGeneration gs bookID templateID revision) (\<lambda>_.
     Inr (gs\<lparr> gs_templates := updateTemplate bookID templateID (\<lambda>row. if tm_generate_from row < through
       then row\<lparr> tm_generate_from := through, tm_updated_at := occurredAt, tm_revision := tm_revision row + 1 \<rparr> else row) (gs_templates gs) \<rparr>))"

section \<open>Definitions: review\<close>

definition skippedOccurrence :: "CreateRecurringOccurrenceParams \<Rightarrow> int \<Rightarrow> occurrenceRow \<Rightarrow> occurrenceRow" where
  "skippedOccurrence params auditID o' = o'\<lparr> oc_status := ''skipped'', oc_error_summary := [], oc_skip_reason := no_SkipReason params,
     oc_updated_at := no_MaterializedAt params, oc_last_audit := Some auditID \<rparr>"

definition repo_SkipRecurringOccurrence :: "int \<Rightarrow> CreateRecurringOccurrenceParams \<Rightarrow> int option \<Rightarrow> AuditEventParams
    \<Rightarrow> recurringStore \<Rightarrow> (recurring_refusal, recurringStore) result" where
  "repo_SkipRecurringOccurrence revision occurrence expectedAuditID audit gs =
     bindR (ensure (\<exists>row\<in>set (gs_templates gs). tm_book_id row = no_BookID occurrence \<and> tm_id row = no_TemplateID occurrence
       \<and> tm_revision row = revision) DBTemplateConflict) (\<lambda>_.
     bindR (guardRecurringOccurrence gs occurrence expectedAuditID) (\<lambda>_.
     bindR (auditRecurring audit gs) (\<lambda>(gs1, auditID).
     if expectedAuditID = None then insertOccurrence (occurrence\<lparr> no_Status := ''skipped'', no_TransactionID := None, no_ErrorSummary := [] \<rparr>) (Some auditID) gs1
     else Inr (updateOccurrence occurrence (skippedOccurrence occurrence auditID) gs1))))"

text \<open>The draft of an occurrence that still awaits review: the current version of its transaction, when that is a draft not deleted.\<close>

definition occurrenceVersion :: "recurringStore \<Rightarrow> occurrenceRow \<Rightarrow> versionRow option" where
  "occurrenceVersion gs o' = (case oc_transaction_id o' of None \<Rightarrow> None
     | Some transactionID \<Rightarrow> (case findTransaction (gs_ledger gs) (oc_book_id o') transactionID of None \<Rightarrow> None
       | Some t \<Rightarrow> currentVersion (gs_ledger gs) (tr_id t)))"

definition draftAwaitsReview :: "recurringStore \<Rightarrow> occurrenceRow \<Rightarrow> bool" where
  "draftAwaitsReview gs o' \<longleftrightarrow> oc_status o' = ''generated'' \<and>
     (case occurrenceVersion gs o' of None \<Rightarrow> False | Some tv \<Rightarrow> tv_status tv = ''draft'') \<and>
     (case oc_transaction_id o' of None \<Rightarrow> False
      | Some transactionID \<Rightarrow> (case findTransaction (gs_ledger gs) (oc_book_id o') transactionID of None \<Rightarrow> False | Some t \<Rightarrow> tr_deleted_at t = None))"

definition RecurringReviewCounts :: "recurringStore \<Rightarrow> int \<Rightarrow> int \<times> int" where
  "RecurringReviewCounts gs bookID = (let rows = filter (\<lambda>o'. oc_book_id o' = bookID) (occurrencesIn gs) in
     (int (length (filter (draftAwaitsReview gs) rows)), int (length (filter (\<lambda>o'. oc_status o' = ''blocked'') rows))))"

record RecurringDuePosting =
  dp_CommodityID :: int
  dp_QuantityValue :: Coefficient
  dp_QuantityScale :: int

record RecurringDueRecord =
  due_Occurrence :: occurrenceRow
  due_TemplateName :: string
  due_TemplateEnabled :: bool
  due_TemplateArchived :: bool
  due_Description :: string
  due_PayeeName :: string
  due_VersionID :: "int option"
  due_Postings :: "RecurringDuePosting list"

definition payeeInEffect :: "ledgerEnv \<Rightarrow> recurringStore \<Rightarrow> int option \<Rightarrow> string option" where
  "payeeInEffect env gs payeeID = (case payeeID of None \<Rightarrow> None
     | Some p \<Rightarrow> map_option pv_name (currentPayeeVersion (st_reference (gs_ledger gs)) (env_referenceDate env) p))"

text \<open>The amounts of an item: those of the draft's current version, or of the template when it is blocked, by commodity.\<close>

definition duePostings :: "recurringStore \<Rightarrow> occurrenceRow \<Rightarrow> templateRow \<Rightarrow> RecurringDuePosting list" where
  "duePostings gs o' row = sort_key dp_CommodityID (
     if oc_status o' = ''generated'' then (case occurrenceVersion gs o' of None \<Rightarrow> []
       | Some tv \<Rightarrow> concat (map (\<lambda>entry. map (\<lambda>p. \<lparr> dp_CommodityID = pr_CommodityID p, dp_QuantityValue = pr_QuantityValue p,
           dp_QuantityScale = pr_QuantityScale p \<rparr>) (er_Postings entry)) (tv_entries tv)))
     else if oc_status o' = ''blocked'' then map (\<lambda>p. \<lparr> dp_CommodityID = tp_CommodityID p, dp_QuantityValue = tp_QuantityValue p,
         dp_QuantityScale = tp_QuantityScale p \<rparr>) (tm_postings row)
     else [])"

definition dueRecord :: "ledgerEnv \<Rightarrow> recurringStore \<Rightarrow> occurrenceRow \<Rightarrow> templateRow \<Rightarrow> RecurringDueRecord" where
  "dueRecord env gs o' row = (let version = occurrenceVersion gs o' in
     \<lparr> due_Occurrence = o', due_TemplateName = tm_name row, due_TemplateEnabled = tm_enabled row, due_TemplateArchived = (tm_archived_at row \<noteq> None),
       due_Description = (case version of Some tv \<Rightarrow> tv_description tv | None \<Rightarrow> tm_description row),
       due_PayeeName = (if oc_status o' = ''generated''
         then (case payeeInEffect env gs (case version of Some tv \<Rightarrow> tv_payee_id tv | None \<Rightarrow> None) of Some name \<Rightarrow> name
           | None \<Rightarrow> (case version of Some tv \<Rightarrow> orEmpty (tv_payee_name tv) | None \<Rightarrow> []))
         else (case payeeInEffect env gs (tm_payee_id row) of Some name \<Rightarrow> name | None \<Rightarrow> orEmpty (tm_payee_name row))),
       due_VersionID = map_option tv_id version, due_Postings = duePostings gs o' row \<rparr>)"

definition RecurringDue :: "ledgerEnv \<Rightarrow> recurringStore \<Rightarrow> int \<Rightarrow> string \<Rightarrow> int \<Rightarrow> nat \<Rightarrow> RecurringDueRecord list" where
  "RecurringDue env gs bookID afterDate afterID limit = (
     let awaits = (\<lambda>o'. oc_book_id o' = bookID \<and> (oc_status o' = ''blocked'' \<or> draftAwaitsReview gs o')
           \<and> (oc_occurrence_date o' > afterDate \<or> oc_occurrence_date o' = afterDate \<and> oc_id o' > afterID));
         joined = concat (map (\<lambda>o'. case findTemplate gs (oc_book_id o') (oc_template_id o') of None \<Rightarrow> [] | Some row \<Rightarrow> [(o', row)])
           (filter awaits (occurrencesIn gs))) in
     map (\<lambda>(o', row). dueRecord env gs o' row) (take limit (sort_key (\<lambda>(o', row). (oc_occurrence_date o', oc_id o')) joined)))"

end
