(* ===== verification/Recurring_Service.thy ===== *)
theory Recurring_Service
  imports Recurring
begin

text \<open>
  The recurring service: templates and their patches (\<^verbatim>\<open>app/recurring.go\<close>), the sweep that turns due dates into drafts
  (\<^verbatim>\<open>app/recurring_generation.go\<close>), and the review of what it left (\<^verbatim>\<open>app/recurring_review.go\<close>). A sweep makes many separate calls to
  the database, so its state is the store together with what other requests commit before each of the calls still to come.
  Names of commodities, and the texts of error messages, are not spelled out; the message of a refusal is an argument.
\<close>

section \<open>Definitions: patches and schedules\<close>

text \<open>A field that may be cleared: not given, given as null, or given with a value.\<close>

type_synonym 'a NullablePatch = "'a option option"

record RecurringTemplatePatch =
  px_Name :: "string option"
  px_Enabled :: "bool option"
  px_TransactionKind :: "string option"
  px_PayeeID :: "int NullablePatch"
  px_PayeeName :: "string option"
  px_Description :: "string option"
  px_NoteMarkdown :: "string option"
  px_Frequency :: "string option"
  px_IntervalCount :: "int option"
  px_ByWeekday :: "int NullablePatch"
  px_DayOfMonth :: "int NullablePatch"
  px_LastDayOfMonth :: "bool option"
  px_MonthOfYear :: "int NullablePatch"
  px_StartsOn :: "string option"
  px_EndsOn :: "string NullablePatch"
  px_MaxOccurrences :: "int NullablePatch"
  px_LeadDays :: "int option"
  px_Postings :: "RecurringTemplatePostingSpec list option"
  px_TagIDs :: "int list option"

record WriteRecurringTemplateInput =
  wt_OwnerUserID :: int
  wt_AuthSessionID :: int
  wt_RequestID :: string
  wt_TemplateID :: int
  wt_Patch :: RecurringTemplatePatch

record RecurringTemplate =
  rtm_ID :: int
  rtm_Revision :: int
  rtm_Spec :: RecurringTemplateSpec
  rtm_ArchivedAt :: string
  rtm_CreatedAt :: string
  rtm_UpdatedAt :: string
  rtm_NextDueOn :: string

datatype recurring_error =
    RecurringOwnerRequired | TemplateIDRequired | TemplateNameRequired
  | TemplateText ledger_error
  | ErrRecurringTemplateUnbalanced | ErrRecurringScheduleInvalid | ErrRecurringTemplateNotFound | ErrRecurringTemplateArchived
  | ErrRecurringTemplateConflict | ErrRecurringOccurrenceMaterialized
  | TemplateKindUnsupported | TemplatePostingCount | TemplateInvestmentPostings | TemplateLineKeysRepeated | TemplatePostingScale
  | TemplateSumPanics exact_error
  | TemplateRefused service_error
  | DraftRefused service_error
  | WatermarkUnreadable | EnumerationFailed recur_error | NeverReturns
  | SkipReasonRequired | RetryNeedsEnabled | OccurrenceRangeInvalid | OccurrenceRangeTooLong | DueLimitInvalid | DueCursorInvalid
  | RecurringOverflow int | RecurringSumPanics exact_error
  | RepositoryRefused recurring_refusal

definition applyRecurringField :: "'a \<Rightarrow> 'a option \<Rightarrow> 'a" where
  "applyRecurringField target v = (case v of None \<Rightarrow> target | Some x \<Rightarrow> x)"

definition mergeRecurringPatch :: "RecurringTemplateSpec \<Rightarrow> RecurringTemplatePatch \<Rightarrow> RecurringTemplateSpec" where
  "mergeRecurringPatch spec patch = \<lparr>
     rt_Name = applyRecurringField (rt_Name spec) (px_Name patch),
     rt_Enabled = applyRecurringField (rt_Enabled spec) (px_Enabled patch),
     rt_TransactionKind = applyRecurringField (rt_TransactionKind spec) (px_TransactionKind patch),
     rt_PayeeID = (case px_PayeeID patch of Some v \<Rightarrow> v | None \<Rightarrow> if px_PayeeName patch \<noteq> None then None else rt_PayeeID spec),
     rt_PayeeName = (if px_PayeeID patch = Some None \<and> px_PayeeName patch = None then []
       else applyRecurringField (rt_PayeeName spec) (px_PayeeName patch)),
     rt_Description = applyRecurringField (rt_Description spec) (px_Description patch),
     rt_NoteMarkdown = applyRecurringField (rt_NoteMarkdown spec) (px_NoteMarkdown patch),
     rt_Frequency = applyRecurringField (rt_Frequency spec) (px_Frequency patch),
     rt_IntervalCount = applyRecurringField (rt_IntervalCount spec) (px_IntervalCount patch),
     rt_ByWeekday = applyRecurringField (rt_ByWeekday spec) (px_ByWeekday patch),
     rt_DayOfMonth = applyRecurringField (rt_DayOfMonth spec) (px_DayOfMonth patch),
     rt_LastDayOfMonth = applyRecurringField (rt_LastDayOfMonth spec) (px_LastDayOfMonth patch),
     rt_MonthOfYear = applyRecurringField (rt_MonthOfYear spec) (px_MonthOfYear patch),
     rt_StartsOn = applyRecurringField (rt_StartsOn spec) (px_StartsOn patch),
     rt_EndsOn = (case px_EndsOn patch of None \<Rightarrow> rt_EndsOn spec | Some v \<Rightarrow> applyRecurringField [] v),
     rt_MaxOccurrences = applyRecurringField (rt_MaxOccurrences spec) (px_MaxOccurrences patch),
     rt_LeadDays = applyRecurringField (rt_LeadDays spec) (px_LeadDays patch),
     rt_GenerateFrom = rt_GenerateFrom spec,
     rt_Postings = applyRecurringField (rt_Postings spec) (px_Postings patch),
     rt_TagIDs = applyRecurringField (rt_TagIDs spec) (px_TagIDs patch) \<rparr>"

definition recurringSchedulePatched :: "RecurringTemplatePatch \<Rightarrow> bool" where
  "recurringSchedulePatched p \<longleftrightarrow> px_Frequency p \<noteq> None \<or> px_IntervalCount p \<noteq> None \<or> px_ByWeekday p \<noteq> None \<or> px_DayOfMonth p \<noteq> None
     \<or> px_LastDayOfMonth p \<noteq> None \<or> px_MonthOfYear p \<noteq> None \<or> px_StartsOn p \<noteq> None \<or> px_EndsOn p \<noteq> None \<or> px_MaxOccurrences p \<noteq> None"

definition emptyPatch :: RecurringTemplatePatch where
  "emptyPatch = \<lparr> px_Name = None, px_Enabled = None, px_TransactionKind = None, px_PayeeID = None, px_PayeeName = None,
     px_Description = None, px_NoteMarkdown = None, px_Frequency = None, px_IntervalCount = None, px_ByWeekday = None,
     px_DayOfMonth = None, px_LastDayOfMonth = None, px_MonthOfYear = None, px_StartsOn = None, px_EndsOn = None,
     px_MaxOccurrences = None, px_LeadDays = None, px_Postings = None, px_TagIDs = None \<rparr>"

definition recurringPauseOrRenamePatch :: "RecurringTemplatePatch \<Rightarrow> bool" where
  "recurringPauseOrRenamePatch p = (
     if px_Name p = None \<and> px_Enabled p = None then False
     else if px_Enabled p = Some True then False
     else p\<lparr> px_Name := None, px_Enabled := None \<rparr> = emptyPatch)"

definition recurringSchedule :: "RecurringTemplateSpec \<Rightarrow> ScheduleSpec" where
  "recurringSchedule spec = \<lparr> spec_Frequency = rt_Frequency spec, IntervalCount = rt_IntervalCount spec, ByWeekday = rt_ByWeekday spec,
     DayOfMonth = applyRecurringField 0 (rt_DayOfMonth spec), LastDayOfMonth = rt_LastDayOfMonth spec,
     MonthOfYear = applyRecurringField 0 (rt_MonthOfYear spec), StartsOn = rt_StartsOn spec, EndsOn = rt_EndsOn spec,
     MaxOccurrences = applyRecurringField 0 (rt_MaxOccurrences spec) \<rparr>"

definition validateRecurringSchedule :: "RecurringTemplateSpec \<Rightarrow> (recurring_error, unit) result" where
  "validateRecurringSchedule spec = (
     if \<not> isOk (Validate (recurringSchedule spec)) then Inl ErrRecurringScheduleInvalid
     else if (rt_Frequency spec \<noteq> ''weekly'' \<and> rt_ByWeekday spec \<noteq> None)
       \<or> (rt_Frequency spec \<noteq> ''yearly'' \<and> rt_MonthOfYear spec \<noteq> None)
       \<or> ((rt_Frequency spec = ''daily'' \<or> rt_Frequency spec = ''weekly'') \<and> (rt_DayOfMonth spec \<noteq> None \<or> rt_LastDayOfMonth spec))
       \<or> (rt_LastDayOfMonth spec \<and> rt_DayOfMonth spec \<noteq> None)
       \<or> (case rt_MaxOccurrences spec of None \<Rightarrow> False | Some k \<Rightarrow> k < 1) \<or> rt_IntervalCount spec > 10000
     then Inl ErrRecurringScheduleInvalid else Inr ())"

text \<open>An enumeration that would not return is told apart from one that fails; it is shown not to occur.\<close>

definition enumerateDates :: "ScheduleSpec \<Rightarrow> string \<Rightarrow> string \<Rightarrow> (recurring_error, string list) result" where
  "enumerateDates schedule from to = (case Occurrences schedule from to of None \<Rightarrow> Inl NeverReturns | Some r \<Rightarrow> mapErr EnumerationFailed r)"

definition nextDate :: "ScheduleSpec \<Rightarrow> string \<Rightarrow> (recurring_error, string \<times> bool) result" where
  "nextDate schedule after = (case Next schedule after of None \<Rightarrow> Inl NeverReturns | Some r \<Rightarrow> mapErr EnumerationFailed r)"

section \<open>Definitions: validation of a template\<close>

definition cleanRecurringTemplateName :: "string \<Rightarrow> (recurring_error, string) result" where
  "cleanRecurringTemplateName name =
     bindR (mapErr TemplateText (cleanOptionalText name ''template name'' transactionTextMaxBytes)) (\<lambda>cleaned.
     if cleaned = [] then Inl TemplateNameRequired else Inr cleaned)"

text \<open>Whether an account or a commodity of the postings belongs to the investment ledger, as of the reference date.\<close>

definition accountBaseKind :: "bookTables \<Rightarrow> string \<Rightarrow> int \<Rightarrow> string option" where
  "accountBaseKind bt referenceDate accountID = (case findAccount bt BookID accountID of None \<Rightarrow> None
     | Some a \<Rightarrow> (case lastBy versionKey (filter (\<lambda>av. av_effective_from av \<le> referenceDate) (accountVersionsOf bt (a_id a))) of None \<Rightarrow> None
       | Some av \<Rightarrow> map_option ak_base_kind (find (\<lambda>ak. ak_code ak = av_account_kind av \<and> ak_account_class ak = av_account_class av) (account_kinds bt))))"

definition currentCommodityKind :: "bookTables \<Rightarrow> string \<Rightarrow> int \<Rightarrow> string option" where
  "currentCommodityKind bt referenceDate commodityID = (case find (\<lambda>c. c_book_id c = BookID \<and> c_id c = commodityID) (commodities bt) of None \<Rightarrow> None
     | Some c \<Rightarrow> if filter (\<lambda>cv. cv_commodity_id cv = c_id c \<and> cv_effective_from cv \<le> referenceDate) (commodity_versions bt) = [] then None
       else Some (c_kind c))"

definition investmentPosting :: "ledgerEnv \<Rightarrow> bookTables \<Rightarrow> RecurringTemplatePostingSpec \<Rightarrow> bool" where
  "investmentPosting env bt posting \<longleftrightarrow> accountBaseKind bt (env_referenceDate env) (rtp_AccountID posting) = Some subledgerManagedBaseKind
     \<or> currentCommodityKind bt (env_referenceDate env) (rtp_CommodityID posting) \<in> {Some ''security'', Some ''crypto''}"

definition templateTotals :: "(int \<rightharpoonup> ScaledInt) \<Rightarrow> RecurringTemplatePostingSpec \<Rightarrow> (recurring_error, int \<rightharpoonup> ScaledInt) result" where
  "templateTotals totals posting = (
     let held = (case totals (rtp_CommodityID posting) of None \<Rightarrow> NewScaledInt | Some t \<Rightarrow> t) in
     bindR (mapErr TemplateSumPanics (ScaledInt_AddCoefficient held (rtp_QuantityValue posting) (rtp_QuantityScale posting))) (\<lambda>t.
     Inr (totals(rtp_CommodityID posting \<mapsto> t))))"

definition templatePostingInput :: "RecurringTemplatePostingSpec \<Rightarrow> PostingInput" where
  "templatePostingInput posting = \<lparr> pi_LineKey = rtp_LineKey posting, pi_PostedOn = [], pi_AccountID = rtp_AccountID posting,
     pi_QuantityValue = rtp_QuantityValue posting, pi_QuantityScale = rtp_QuantityScale posting, pi_CommodityID = rtp_CommodityID posting,
     pi_Memo = rtp_Memo posting, pi_MetadataJSON = [], pi_TagIDs = [] \<rparr>"

text \<open>The loop over the postings: the keys and totals so far, and the postings of the request in reverse.\<close>

fun templatePostings :: "string list \<Rightarrow> (int \<rightharpoonup> ScaledInt) \<Rightarrow> RecurringTemplatePostingSpec list
    \<Rightarrow> (recurring_error, (int \<rightharpoonup> ScaledInt) \<times> PostingInput list) result" where
  "templatePostings keys totals [] = Inr (totals, [])"
| "templatePostings keys totals (posting # rest) = (
     let key = TrimSpace (rtp_LineKey posting) in
     bindR (ensure (\<not> (key \<noteq> [] \<and> key \<in> set keys)) TemplateLineKeysRepeated) (\<lambda>_.
     bindR (ensure (\<not> (rtp_QuantityScale posting < 0 \<or> rtp_QuantityScale posting > MaxCryptoScale)) TemplatePostingScale) (\<lambda>_.
     bindR (templateTotals totals posting) (\<lambda>totals'.
     bindR (templatePostings (key # keys) totals' rest) (\<lambda>(totals'', inputs).
     Inr (totals'', templatePostingInput (posting\<lparr> rtp_LineKey := key \<rparr>) # inputs))))))"

definition templateEntry :: "string \<Rightarrow> PostingInput list \<Rightarrow> JournalEntryInput" where
  "templateEntry date postings = \<lparr> je_EntryDate = date, je_EntryKind = ''ordinary'', je_Memo = [], je_MetadataJSON = [],
     je_ConversionSide = [], je_FeePaidBy = [], je_Postings = postings \<rparr>"

definition templateTransaction :: "string \<Rightarrow> string \<Rightarrow> string \<Rightarrow> RecurringTemplateSpec \<Rightarrow> PostingInput list \<Rightarrow> TransactionInput" where
  "templateTransaction status date entryDate spec postings = \<lparr> ti_Status = status, ti_TransactionKind = rt_TransactionKind spec,
     ti_InvestmentOperationKind = [], ti_TransactionDate = date, ti_PayeeID = rt_PayeeID spec, ti_PayeeName = rt_PayeeName spec,
     ti_Description = rt_Description spec, ti_ExternalRefHint = [], ti_NoteMarkdown = rt_NoteMarkdown spec, ti_MetadataJSON = [],
     ti_NeedsReview = False, ti_TagIDs = rt_TagIDs spec, ti_JournalEntries = [templateEntry entryDate postings], ti_storedJournal = False \<rparr>"

definition cleanedTemplate :: "RecurringTemplateSpec \<Rightarrow> TransactionSpec \<Rightarrow> RecurringTemplateSpec" where
  "cleanedTemplate spec cleaned = spec\<lparr> rt_PayeeID := ts_PayeeID cleaned,
     rt_PayeeName := (if ts_PayeeID cleaned = None then orEmpty (ts_PayeeName cleaned) else []),
     rt_Description := ts_Description cleaned, rt_NoteMarkdown := ts_NoteMarkdown cleaned, rt_TagIDs := ts_TagIDs cleaned,
     rt_Postings := map (\<lambda>p. \<lparr> rtp_LineKey = ps_LineKey p, rtp_AccountID = ps_AccountID p, rtp_QuantityValue = ps_QuantityValue p,
       rtp_QuantityScale = ps_QuantityScale p, rtp_CommodityID = ps_CommodityID p, rtp_Memo = ps_Memo p \<rparr>)
       (es_Postings (hd (ts_JournalEntries cleaned))) \<rparr>"

definition cleanTemplate :: "ledgerEnv \<Rightarrow> store \<Rightarrow> RecurringTemplateSpec \<Rightarrow> string \<Rightarrow> (recurring_error, RecurringTemplateSpec) result" where
  "cleanTemplate env st spec0 today =
     bindR (cleanRecurringTemplateName (rt_Name spec0)) (\<lambda>name.
     let spec1 = spec0\<lparr> rt_Name := name, rt_Frequency := TrimSpace (rt_Frequency spec0), rt_StartsOn := TrimSpace (rt_StartsOn spec0),
           rt_EndsOn := TrimSpace (rt_EndsOn spec0) \<rparr> in
     bindR (validateRecurringSchedule spec1) (\<lambda>_.
     bindR (ensure (\<not> (rt_LeadDays spec1 < 0 \<or> rt_LeadDays spec1 > 90)) ErrRecurringScheduleInvalid) (\<lambda>_.
     let spec = spec1\<lparr> rt_TransactionKind := TrimSpace (rt_TransactionKind spec1) \<rparr> in
     bindR (ensure (rt_TransactionKind spec = ''ordinary'' \<or> rt_TransactionKind spec = ''transfer'') TemplateKindUnsupported) (\<lambda>_.
     bindR (ensure (\<not> (length (rt_Postings spec) < 2 \<or> length (rt_Postings spec) > 500)) TemplatePostingCount) (\<lambda>_.
     bindR (ensure (\<not> list_ex (investmentPosting env (st_reference st)) (rt_Postings spec)) TemplateInvestmentPostings) (\<lambda>_.
     bindR (templatePostings [] Map.empty (rt_Postings spec)) (\<lambda>(totals, postings).
     bindR (ensure (\<forall>posting\<in>set (rt_Postings spec). case totals (rtp_CommodityID posting) of None \<Rightarrow> True | Some t \<Rightarrow> ScaledInt_Sign t = 0)
       ErrRecurringTemplateUnbalanced) (\<lambda>_.
     bindR (mapErr TemplateRefused (cleanAgainst env st None (plainOptions\<lparr> op_DefaultStatus := ''posted'' \<rparr>)
       (templateTransaction ''posted'' (max today (rt_StartsOn spec)) [] spec postings))) (\<lambda>(cleaned, _).
     Inr (cleanedTemplate spec cleaned))))))))))"

section \<open>Definitions: reading a template\<close>

text \<open>The schedule's first date from \<open>date\<close> on that has no occurrence yet; the empty text when there is none.\<close>

partial_function (option) nextUnmaterialized :: "ScheduleSpec \<Rightarrow> string list \<Rightarrow> string \<Rightarrow> (recur_error, string) result option" where
  "nextUnmaterialized schedule taken date = (
     if date \<noteq> [] \<and> date \<in> set taken then (case Next schedule date of
         None \<Rightarrow> None
       | Some (Inl e) \<Rightarrow> Some (Inl e)
       | Some (Inr r) \<Rightarrow> nextUnmaterialized schedule taken (fst r))
     else Some (Inr date))"

definition nextDueOn :: "RecurringTemplateSpec \<Rightarrow> string list \<Rightarrow> (recurring_error, string) result" where
  "nextDueOn spec taken = (case parseDateOnly (max (rt_StartsOn spec) (rt_GenerateFrom spec)) of
       None \<Rightarrow> Inl WatermarkUnreadable
     | Some from \<Rightarrow> bindR (nextDate (recurringSchedule spec) (formatDateOnly (AddDate from 0 0 (- 1)))) (\<lambda>(date, _).
         case nextUnmaterialized (recurringSchedule spec) taken date of None \<Rightarrow> Inl NeverReturns | Some r \<Rightarrow> mapErr EnumerationFailed r))"

definition specFromRecord :: "RecurringTemplateRecord \<Rightarrow> RecurringTemplateSpec" where
  "specFromRecord stored = \<lparr> rt_Name = tt_Name stored, rt_Enabled = tt_Enabled stored, rt_TransactionKind = tt_TransactionKind stored,
     rt_PayeeID = tt_PayeeID stored, rt_PayeeName = orEmpty (tt_PayeeName stored), rt_Description = tt_Description stored,
     rt_NoteMarkdown = tt_NoteMarkdown stored, rt_Frequency = tt_Frequency stored, rt_IntervalCount = tt_IntervalCount stored,
     rt_ByWeekday = tt_ByWeekday stored, rt_DayOfMonth = tt_DayOfMonth stored, rt_LastDayOfMonth = tt_LastDayOfMonth stored,
     rt_MonthOfYear = tt_MonthOfYear stored, rt_StartsOn = tt_StartsOn stored, rt_EndsOn = orEmpty (tt_EndsOn stored),
     rt_MaxOccurrences = tt_MaxOccurrences stored, rt_LeadDays = tt_LeadDays stored, rt_GenerateFrom = tt_GenerateFrom stored,
     rt_Postings = map (\<lambda>p. \<lparr> rtp_LineKey = tp_LineKey p, rtp_AccountID = tp_AccountID p, rtp_QuantityValue = tp_QuantityValue p,
       rtp_QuantityScale = tp_QuantityScale p, rtp_CommodityID = tp_CommodityID p, rtp_Memo = tp_Memo p \<rparr>) (tt_Postings stored),
     rt_TagIDs = tt_TagIDs stored \<rparr>"

definition recurringTemplateFromRecord :: "RecurringTemplateRecord \<Rightarrow> (recurring_error, RecurringTemplate) result" where
  "recurringTemplateFromRecord stored = (
     let spec = specFromRecord stored; archivedAt = orEmpty (tt_ArchivedAt stored) in
     bindR (if rt_Enabled spec \<and> archivedAt = [] then nextDueOn spec (tt_MaterializedDates stored) else Inr []) (\<lambda>due.
     Inr \<lparr> rtm_ID = tt_ID stored, rtm_Revision = tt_Revision stored, rtm_Spec = spec, rtm_ArchivedAt = archivedAt,
       rtm_CreatedAt = tt_CreatedAt stored, rtm_UpdatedAt = tt_UpdatedAt stored, rtm_NextDueOn = due \<rparr>))"

definition mapRecurringError :: "recurring_refusal \<Rightarrow> recurring_error" where
  "mapRecurringError e = (case e of
       DBOccurrenceExists \<Rightarrow> ErrRecurringOccurrenceMaterialized
     | DBTemplateNotFound \<Rightarrow> ErrRecurringTemplateNotFound
     | DBTemplateArchived \<Rightarrow> ErrRecurringTemplateArchived
     | DBTemplateConflict \<Rightarrow> ErrRecurringTemplateConflict
     | _ \<Rightarrow> RepositoryRefused e)"

definition svc_ListTemplates :: "ledgerEnv \<Rightarrow> recurringStore \<Rightarrow> int \<Rightarrow> bool \<Rightarrow> (recurring_error, RecurringTemplate list) result" where
  "svc_ListTemplates env gs ownerID includeArchived =
     bindR (ensure (ownerID > 0) RecurringOwnerRequired) (\<lambda>_.
     mapR recurringTemplateFromRecord (repo_ListRecurringTemplates env gs
       \<lparr> lt_BookID = BookID, lt_IncludeArchived = includeArchived, lt_EnabledOnly = False \<rparr>))"

definition svc_Template :: "ledgerEnv \<Rightarrow> recurringStore \<Rightarrow> int \<Rightarrow> int \<Rightarrow> (recurring_error, RecurringTemplate) result" where
  "svc_Template env gs ownerID templateID =
     bindR (ensure (ownerID > 0) RecurringOwnerRequired) (\<lambda>_.
     bindR (ensure (templateID > 0) TemplateIDRequired) (\<lambda>_.
     bindR (mapErr mapRecurringError (RecurringTemplateByID env gs BookID templateID)) recurringTemplateFromRecord))"

definition localToday :: "ledgerEnv \<Rightarrow> int \<Rightarrow> (recurring_error, string) result" where
  "localToday env ownerID = bindR (ensure (ownerID > 0) RecurringOwnerRequired) (\<lambda>_. Inr (env_today env ownerID))"

section \<open>Definitions: writing a template\<close>

definition newTemplateSpec :: RecurringTemplateSpec where
  "newTemplateSpec = \<lparr> rt_Name = [], rt_Enabled = True, rt_TransactionKind = ''ordinary'', rt_PayeeID = None, rt_PayeeName = [],
     rt_Description = [], rt_NoteMarkdown = [], rt_Frequency = [], rt_IntervalCount = 1, rt_ByWeekday = None, rt_DayOfMonth = None,
     rt_LastDayOfMonth = False, rt_MonthOfYear = None, rt_StartsOn = [], rt_EndsOn = [], rt_MaxOccurrences = None, rt_LeadDays = 5,
     rt_GenerateFrom = [], rt_Postings = [], rt_TagIDs = [] \<rparr>"

definition prepareCreateTemplate :: "ledgerEnv \<Rightarrow> string \<Rightarrow> recurringStore \<Rightarrow> WriteRecurringTemplateInput
    \<Rightarrow> (recurring_error, CreateRecurringTemplateParams) result" where
  "prepareCreateTemplate env now gs input =
     bindR (localToday env (wt_OwnerUserID input)) (\<lambda>today.
     let merged = mergeRecurringPatch newTemplateSpec (wt_Patch input);
         spec0 = merged\<lparr> rt_GenerateFrom := max today (TrimSpace (rt_StartsOn merged)) \<rparr> in
     bindR (cleanTemplate env (gs_ledger gs) spec0 today) (\<lambda>spec.
     Inr \<lparr> nt_BookID = BookID, nt_ActorUserID = wt_OwnerUserID input, nt_AuthSessionID = wt_AuthSessionID input,
       nt_RequestID = wt_RequestID input, nt_CreatedAt = now, nt_Spec = spec \<rparr>))"

definition updatedSpec :: "ledgerEnv \<Rightarrow> store \<Rightarrow> string \<Rightarrow> RecurringTemplateSpec \<Rightarrow> RecurringTemplatePatch \<Rightarrow> (recurring_error, RecurringTemplateSpec) result" where
  "updatedSpec env st today current patch = (
     let merged = mergeRecurringPatch current patch;
         spec = (if recurringSchedulePatched patch then merged\<lparr> rt_GenerateFrom := max today (TrimSpace (rt_StartsOn merged)) \<rparr> else merged) in
     if recurringPauseOrRenamePatch patch then
       bindR (cleanRecurringTemplateName (rt_Name spec)) (\<lambda>name.
       Inr (spec\<lparr> rt_Name := name, rt_PayeeName := (if rt_PayeeID spec \<noteq> None then [] else rt_PayeeName spec) \<rparr>))
     else cleanTemplate env st spec today)"

definition prepareUpdateTemplate :: "ledgerEnv \<Rightarrow> string \<Rightarrow> recurringStore \<Rightarrow> WriteRecurringTemplateInput
    \<Rightarrow> (recurring_error, UpdateRecurringTemplateParams) result" where
  "prepareUpdateTemplate env now gs input =
     bindR (svc_Template env gs (wt_OwnerUserID input) (wt_TemplateID input)) (\<lambda>current.
     bindR (ensure (rtm_ArchivedAt current = []) ErrRecurringTemplateArchived) (\<lambda>_.
     bindR (localToday env (wt_OwnerUserID input)) (\<lambda>today.
     bindR (updatedSpec env (gs_ledger gs) today (rtm_Spec current) (wt_Patch input)) (\<lambda>spec.
     Inr \<lparr> et_BookID = BookID, et_TemplateID = wt_TemplateID input, et_ActorUserID = wt_OwnerUserID input,
       et_AuthSessionID = wt_AuthSessionID input, et_RequestID = wt_RequestID input, et_UpdatedAt = now, et_Spec = spec,
       et_ExpectedRevision = Some (rtm_Revision current) \<rparr>))))"

text \<open>An archived template is answered as it is; otherwise the parameters of the write.\<close>

definition prepareArchiveTemplate :: "ledgerEnv \<Rightarrow> string \<Rightarrow> recurringStore \<Rightarrow> WriteRecurringTemplateInput
    \<Rightarrow> (recurring_error, RecurringTemplate + ArchiveRecurringTemplateParams) result" where
  "prepareArchiveTemplate env now gs input =
     bindR (svc_Template env gs (wt_OwnerUserID input) (wt_TemplateID input)) (\<lambda>current.
     if rtm_ArchivedAt current \<noteq> [] then Inr (Inl current)
     else Inr (Inr \<lparr> at_BookID = BookID, at_TemplateID = wt_TemplateID input, at_ActorUserID = wt_OwnerUserID input,
       at_AuthSessionID = wt_AuthSessionID input, at_RequestID = wt_RequestID input, at_ArchivedAt = now \<rparr>))"

text \<open>A committed write answers with the template as it is read back; a refused one leaves the store.\<close>

definition commitTemplate :: "(recurring_refusal, recurringStore \<times> RecurringTemplateRecord) result \<Rightarrow> (recurringStore, recurring_error, RecurringTemplate) action" where
  "commitTemplate outcome gs = (case outcome of Inl e \<Rightarrow> (gs, Inl (mapRecurringError e)) | Inr (gs', stored) \<Rightarrow> (gs', recurringTemplateFromRecord stored))"

definition svc_CreateTemplate :: "ledgerEnv \<Rightarrow> CreateRecurringTemplateParams \<Rightarrow> (recurringStore, recurring_error, RecurringTemplate) action" where
  "svc_CreateTemplate env params gs = commitTemplate (repo_CreateRecurringTemplate env params gs) gs"

definition svc_UpdateTemplate :: "ledgerEnv \<Rightarrow> UpdateRecurringTemplateParams \<Rightarrow> (recurringStore, recurring_error, RecurringTemplate) action" where
  "svc_UpdateTemplate env params gs = commitTemplate (repo_UpdateRecurringTemplate env params gs) gs"

definition svc_ArchiveTemplate :: "ledgerEnv \<Rightarrow> ArchiveRecurringTemplateParams \<Rightarrow> (recurringStore, recurring_error, RecurringTemplate) action" where
  "svc_ArchiveTemplate env params gs = commitTemplate (repo_ArchiveRecurringTemplate env params gs) gs"

section \<open>Definitions: the draft of a date\<close>

record GenerateRecurringInput =
  gi_OwnerUserID :: int
  gi_AuthSessionID :: int
  gi_RequestID :: string
  gi_TemplateID :: int

definition draftInput :: "GenerateRecurringInput \<Rightarrow> RecurringTemplateSpec \<Rightarrow> string \<Rightarrow> CreateTransactionInput" where
  "draftInput input spec date = \<lparr> ci_OwnerUserID = gi_OwnerUserID input, ci_AuthSessionID = gi_AuthSessionID input, ci_RequestID = gi_RequestID input,
     ci_OriginType = ''scheduled'', ci_Operation = ''recurring.occurrence.generate'', ci_CorrectionOfTransactionID = None,
     ci_Spec = templateTransaction ''draft'' date date spec (map templatePostingInput (rt_Postings spec)),
     ci_ChangeReason = ''generated recurring draft'', ci_ReconciliationOverride = False, ci_ReconciliationOverrideCheckpointIDs = None \<rparr>"

definition prepareDraft :: "ledgerEnv \<Rightarrow> string \<Rightarrow> store \<Rightarrow> GenerateRecurringInput \<Rightarrow> RecurringTemplateSpec \<Rightarrow> string
    \<Rightarrow> (recurring_error, CreateTransactionParams) result" where
  "prepareDraft env now st input spec0 date =
     bindR (cleanTemplate env st spec0 date) (\<lambda>spec.
     bindR (mapErr DraftRefused (prepareCreateTransactionForWrite env now st (draftInput input spec date))) (\<lambda>params.
     Inr (params\<lparr> ct_CreatedAt := now \<rparr>)))"

text \<open>
  The failures that stand for the date: a refusal of validation, an overflow, a tag that is gone, a template out of balance or
  with a schedule that is not valid. Any other failure leaves the date for a later sweep.
\<close>

definition ledgerRefusal :: "ledger_error \<Rightarrow> bool" where
  "ledgerRefusal e = (case e of Panicked _ \<Rightarrow> False | ClearingAccountMissing \<Rightarrow> False | TradingAccountMissing \<Rightarrow> False
     | TransactionNotFound \<Rightarrow> False | PostingDayUnparsable \<Rightarrow> False | _ \<Rightarrow> True)"

definition serviceRefusal :: "service_error \<Rightarrow> bool" where
  "serviceRefusal e = (case e of Invalid e' \<Rightarrow> ledgerRefusal e' | OwnerRequired \<Rightarrow> True | ChangeReasonTooLong \<Rightarrow> True | ChangeReasonControl \<Rightarrow> True | _ \<Rightarrow> False)"

definition blocksOccurrence :: "recurring_error \<Rightarrow> bool" where
  "blocksOccurrence e = (case e of TemplateNameRequired \<Rightarrow> True | TemplateText _ \<Rightarrow> True | TemplateKindUnsupported \<Rightarrow> True
     | TemplatePostingCount \<Rightarrow> True | TemplateInvestmentPostings \<Rightarrow> True | TemplateLineKeysRepeated \<Rightarrow> True | TemplatePostingScale \<Rightarrow> True
     | TemplateRefused e' \<Rightarrow> serviceRefusal e' | DraftRefused e' \<Rightarrow> serviceRefusal e'
     | ErrRecurringTemplateUnbalanced \<Rightarrow> True | ErrRecurringScheduleInvalid \<Rightarrow> True | _ \<Rightarrow> False)"

definition occurrenceMetadata :: "int \<Rightarrow> string \<Rightarrow> string" where
  "occurrenceMetadata templateID date = ''{\"template_id\":'' @ intString templateID @ '',\"occurrence_date\":\"'' @ date @ ''\"}''"

definition occurrenceAudit :: "GenerateRecurringInput \<Rightarrow> string \<Rightarrow> string \<Rightarrow> string \<Rightarrow> string \<Rightarrow> string \<Rightarrow> AuditEventParams" where
  "occurrenceAudit input occurredAt origin operation reason metadata = \<lparr> ap_BookID = BookID, ap_ActorUserID = gi_OwnerUserID input,
     ap_AuthSessionID = gi_AuthSessionID input, ap_OccurredAt = occurredAt, ap_RequestID = gi_RequestID input, ap_OriginType = origin,
     ap_Operation = operation, ap_Reason = reason, ap_MetadataJSON = metadata \<rparr>"

text \<open>\<open>message\<close> is the text of an error, which the row of a blocked date keeps.\<close>

definition claimOf :: "RecurringTemplate \<Rightarrow> string \<Rightarrow> string \<Rightarrow> CreateRecurringOccurrenceParams" where
  "claimOf template date occurredAt = \<lparr> no_BookID = BookID, no_TemplateID = rtm_ID template, no_OccurrenceDate = date, no_Status = [],
     no_TransactionID = None, no_ErrorSummary = [], no_SkipReason = [], no_MaterializedAt = occurredAt \<rparr>"

definition retriedDraft :: "CreateTransactionParams \<Rightarrow> CreateTransactionParams" where
  "retriedDraft params = params\<lparr> ct_Operation := ''recurring.occurrence.retry'', ct_ChangeReason := ''retry blocked recurring occurrence'' \<rparr>"

definition prepareOccurrence :: "ledgerEnv \<Rightarrow> (recurring_error \<Rightarrow> string) \<Rightarrow> string \<Rightarrow> bool \<Rightarrow> recurringStore \<Rightarrow> GenerateRecurringInput
    \<Rightarrow> RecurringTemplate \<Rightarrow> string \<Rightarrow> (recurring_error, CreateRecurringOccurrenceParams \<times> CreateTransactionParams option \<times> AuditEventParams) result" where
  "prepareOccurrence env message now retrying gs input template date = (
     let claim = claimOf template date now; metadata = occurrenceMetadata (rtm_ID template) date;
         audit = (if retrying then occurrenceAudit input now ''browser_api'' ''recurring.occurrence.retry'' ''retry blocked recurring occurrence'' metadata
           else occurrenceAudit input now ''scheduled'' ''recurring.occurrence.block'' ''recurring occurrence failed validation'' metadata) in
     case prepareDraft env now (gs_ledger gs) input (rtm_Spec template) date of
       Inr params \<Rightarrow> Inr (claim, Some (if retrying then retriedDraft params else params), audit)
     | Inl e \<Rightarrow> if blocksOccurrence e then Inr (claim\<lparr> no_ErrorSummary := message e \<rparr>, None, audit) else Inl e)"

section \<open>Definitions: the sweep\<close>

definition maxOccurrencesPerTick :: nat where "maxOccurrencesPerTick = 50"

text \<open>
  The state of a sweep: the store, and for each call to the database still to come, what other requests commit before it. A read
  sees the store as it is by then; a commit changes it, or is refused and leaves it.
\<close>

type_synonym sweep = "recurringStore \<times> (recurringStore \<Rightarrow> recurringStore) list"

definition othersFirst :: "sweep \<Rightarrow> sweep" where
  "othersFirst w = (case snd w of [] \<Rightarrow> w | f # fs \<Rightarrow> (f (fst w), fs))"

definition readW :: "(recurringStore \<Rightarrow> ('e, 'a) result) \<Rightarrow> (sweep, 'e, 'a) action" where
  "readW f w = (let w' = othersFirst w in (w', f (fst w')))"

definition commitW :: "(recurringStore \<Rightarrow> (recurring_refusal, recurringStore) result) \<Rightarrow> (sweep, 'e, recurring_refusal option) action" where
  "commitW f w = (let w' = othersFirst w in case f (fst w') of Inl e \<Rightarrow> (w', Inr (Some e)) | Inr gs \<Rightarrow> ((gs, snd w'), Inr None))"

record RecurringGenerationResult =
  gr_Generated :: nat
  gr_Blocked :: nat

text \<open>How the loop over a template's dates ends: all handled, the template changed meanwhile, or the budget of the sweep used up.\<close>

datatype dateLoop = AllHandled | TemplateStale | BudgetSpent

text \<open>The last day of the window to generate and the first one, when there is one.\<close>

definition sweepEnd :: "time \<Rightarrow> RecurringTemplateSpec \<Rightarrow> time" where
  "sweepEnd localDate spec = (let end0 = AddDate localDate 0 0 (rt_LeadDays spec) in if Year end0 > 9999 then Date 9999 12 31 else end0)"

definition sweepWindow :: "time \<Rightarrow> RecurringTemplateSpec \<Rightarrow> (recurring_error, time option) result" where
  "sweepWindow localDate spec = (
     let end0 = sweepEnd localDate spec in
     if rt_GenerateFrom spec > formatDateOnly end0 then Inr None
     else case parseDateOnly (rt_GenerateFrom spec) of
       None \<Rightarrow> Inl WatermarkUnreadable
     | Some from \<Rightarrow> (let windowEnd = AddDate from 0 0 (int MaxOccurrencesPerWindow - 1) in
         Inr (Some (if windowEnd < end0 then windowEnd else end0))))"

definition nextWatermark :: "time \<Rightarrow> string" where
  "nextWatermark end0 = (let nxt = AddDate end0 0 0 1 in formatDateOnly (if Year nxt > 9999 then end0 else nxt))"

definition materializeOccurrence :: "ledgerEnv \<Rightarrow> (recurring_error \<Rightarrow> string) \<Rightarrow> string \<Rightarrow> GenerateRecurringInput \<Rightarrow> RecurringTemplate \<Rightarrow> string
    \<Rightarrow> (sweep, recurring_error, bool \<times> recurring_refusal option) action" where
  "materializeOccurrence env message now input template date =
     bindW (readW (\<lambda>gs. prepareOccurrence env message now False gs input template date)) (\<lambda>(occurrence, draft, audit).
     bindW (commitW (repo_MaterializeRecurringOccurrence (rtm_Revision template) occurrence draft audit)) (\<lambda>refused.
     liftW (Inr (draft = None, refused))))"

definition counted :: "bool \<Rightarrow> RecurringGenerationResult \<Rightarrow> RecurringGenerationResult" where
  "counted blocked done = (if blocked then done\<lparr> gr_Blocked := Suc (gr_Blocked done) \<rparr> else done\<lparr> gr_Generated := Suc (gr_Generated done) \<rparr>)"

fun generateDates :: "ledgerEnv \<Rightarrow> (recurring_error \<Rightarrow> string) \<Rightarrow> string \<Rightarrow> GenerateRecurringInput \<Rightarrow> RecurringTemplate \<Rightarrow> (string \<rightharpoonup> string)
    \<Rightarrow> string list \<Rightarrow> RecurringGenerationResult \<Rightarrow> (sweep, recurring_error, dateLoop \<times> RecurringGenerationResult) action" where
  "generateDates env message now input template existing [] sofar = liftW (Inr (AllHandled, sofar))"
| "generateDates env message now input template existing (date # dates) sofar = (
     if existing date \<noteq> None then generateDates env message now input template existing dates sofar
     else if gr_Generated sofar + gr_Blocked sofar \<ge> maxOccurrencesPerTick then liftW (Inr (BudgetSpent, sofar))
     else bindW (materializeOccurrence env message now input template date) (\<lambda>(blocked, refused).
       if refused = Some DBOccurrenceExists then generateDates env message now input template existing dates sofar
       else if refused = Some DBTemplateConflict then liftW (Inr (TemplateStale, sofar))
       else case refused of Some e \<Rightarrow> liftW (Inl (RepositoryRefused e))
         | None \<Rightarrow> generateDates env message now input template existing dates (counted blocked sofar)))"

definition advanceWatermark :: "string \<Rightarrow> RecurringTemplate \<Rightarrow> time \<Rightarrow> (sweep, recurring_error, unit) action" where
  "advanceWatermark now template end0 =
     bindW (commitW (repo_AdvanceRecurringGeneration BookID (rtm_ID template) (rtm_Revision template) (nextWatermark end0) now)) (\<lambda>refused.
     case refused of Some e \<Rightarrow> liftW (if e = DBTemplateConflict then Inr () else Inl (RepositoryRefused e)) | None \<Rightarrow> liftW (Inr ()))"

text \<open>One template of a sweep: whether the sweep goes on, and the counts.\<close>

definition sweepTemplate :: "ledgerEnv \<Rightarrow> (recurring_error \<Rightarrow> string) \<Rightarrow> string \<Rightarrow> time \<Rightarrow> GenerateRecurringInput \<Rightarrow> RecurringTemplate
    \<Rightarrow> RecurringGenerationResult \<Rightarrow> (sweep, recurring_error, bool \<times> RecurringGenerationResult) action" where
  "sweepTemplate env message now localDate input template sofar = (
     if \<not> rt_Enabled (rtm_Spec template) \<or> rtm_ArchivedAt template \<noteq> [] then liftW (Inr (True, sofar))
     else bindW (liftW (sweepWindow localDate (rtm_Spec template))) (\<lambda>window. case window of None \<Rightarrow> liftW (Inr (True, sofar))
       | Some end0 \<Rightarrow>
         let from = rt_GenerateFrom (rtm_Spec template); to = formatDateOnly end0 in
         bindW (liftW (enumerateDates (recurringSchedule (rtm_Spec template)) from to)) (\<lambda>dates.
         bindW (readW (\<lambda>gs. Inr (RecurringOccurrenceDates gs BookID (rtm_ID template) from to))) (\<lambda>existing.
         bindW (generateDates env message now input template existing dates sofar) (\<lambda>(loop, sofar').
         case loop of BudgetSpent \<Rightarrow> liftW (Inr (False, sofar'))
           | TemplateStale \<Rightarrow> liftW (Inr (True, sofar'))
           | AllHandled \<Rightarrow> bindW (advanceWatermark now template end0) (\<lambda>_. liftW (Inr (True, sofar'))))))))"

fun sweepTemplates :: "ledgerEnv \<Rightarrow> (recurring_error \<Rightarrow> string) \<Rightarrow> string \<Rightarrow> time \<Rightarrow> GenerateRecurringInput \<Rightarrow> RecurringTemplate list
    \<Rightarrow> RecurringGenerationResult \<Rightarrow> (sweep, recurring_error, RecurringGenerationResult) action" where
  "sweepTemplates env message now localDate input [] sofar = liftW (Inr sofar)"
| "sweepTemplates env message now localDate input (template # templates) sofar =
     bindW (sweepTemplate env message now localDate input template sofar) (\<lambda>(goesOn, sofar').
     if goesOn then sweepTemplates env message now localDate input templates sofar' else liftW (Inr sofar'))"

definition svc_GenerateDue :: "ledgerEnv \<Rightarrow> (recurring_error \<Rightarrow> string) \<Rightarrow> string \<Rightarrow> GenerateRecurringInput
    \<Rightarrow> (sweep, recurring_error, RecurringGenerationResult) action" where
  "svc_GenerateDue env message now input =
     bindW (liftW (localToday env (gi_OwnerUserID input))) (\<lambda>today.
     bindW (readW (\<lambda>gs. if gi_TemplateID input > 0
         then bindR (svc_Template env gs (gi_OwnerUserID input) (gi_TemplateID input)) (\<lambda>template. Inr [template])
         else svc_ListTemplates env gs (gi_OwnerUserID input) False)) (\<lambda>templates.
     case parseDateOnly today of None \<Rightarrow> liftW (Inl WatermarkUnreadable)
       | Some localDate \<Rightarrow> sweepTemplates env message now localDate input templates \<lparr> gr_Generated = 0, gr_Blocked = 0 \<rparr>))"

section \<open>Definitions: review\<close>

record ReviewRecurringInput =
  ri_OwnerUserID :: int
  ri_AuthSessionID :: int
  ri_RequestID :: string
  ri_TemplateID :: int
  ri_OccurrenceDate :: string
  ri_Reason :: string

definition validRecurringDate :: "string \<Rightarrow> bool" where
  "validRecurringDate date \<longleftrightarrow> (case parseDateOnly date of None \<Rightarrow> False | Some t \<Rightarrow> Year t \<ge> 1 \<and> formatDateOnly t = date)"

definition reviewOccurrence :: "ledgerEnv \<Rightarrow> recurringStore \<Rightarrow> ReviewRecurringInput \<Rightarrow> (recurring_error, RecurringTemplate \<times> occurrenceRow option) result" where
  "reviewOccurrence env gs input =
     bindR (ensure (validRecurringDate (ri_OccurrenceDate input)) ErrRecurringScheduleInvalid) (\<lambda>_.
     bindR (svc_Template env gs (ri_OwnerUserID input) (ri_TemplateID input)) (\<lambda>template.
     case RecurringOccurrencesInRange gs BookID (rtm_ID template) (ri_OccurrenceDate input) (ri_OccurrenceDate input) of
       [] \<Rightarrow> Inr (template, None) | o' # _ \<Rightarrow> Inr (template, Some o')))"

text \<open>The audit event a row was last written under, when it is blocked.\<close>

definition blockedAttempt :: "occurrenceRow \<Rightarrow> (recurring_error, int) result" where
  "blockedAttempt o' = (case oc_last_audit o' of None \<Rightarrow> Inl ErrRecurringOccurrenceMaterialized
     | Some auditID \<Rightarrow> if oc_status o' = ''blocked'' then Inr auditID else Inl ErrRecurringOccurrenceMaterialized)"

definition reviewAudit :: "ReviewRecurringInput \<Rightarrow> string \<Rightarrow> string \<Rightarrow> int \<Rightarrow> AuditEventParams" where
  "reviewAudit input occurredAt reason templateID = \<lparr> ap_BookID = BookID, ap_ActorUserID = ri_OwnerUserID input,
     ap_AuthSessionID = ri_AuthSessionID input, ap_OccurredAt = occurredAt, ap_RequestID = ri_RequestID input, ap_OriginType = ''browser_api'',
     ap_Operation = ''recurring.occurrence.skip'', ap_Reason = reason, ap_MetadataJSON = occurrenceMetadata templateID (ri_OccurrenceDate input) \<rparr>"

definition prepareSkip :: "ledgerEnv \<Rightarrow> string \<Rightarrow> recurringStore \<Rightarrow> ReviewRecurringInput
    \<Rightarrow> (recurring_error, int \<times> CreateRecurringOccurrenceParams \<times> int option \<times> AuditEventParams) result" where
  "prepareSkip env now gs input =
     bindR (reviewOccurrence env gs input) (\<lambda>(template, current).
     bindR (mapErr TemplateText (cleanOptionalText (ri_Reason input) ''skip reason'' transactionTextMaxBytes)) (\<lambda>reason.
     bindR (ensure (TrimSpace reason \<noteq> []) SkipReasonRequired) (\<lambda>_.
     bindR (case current of
         Some o' \<Rightarrow> bindR (blockedAttempt o') (\<lambda>auditID. Inr (Some auditID))
       | None \<Rightarrow>
           bindR (ensure (rtm_ArchivedAt template = []) ErrRecurringTemplateArchived) (\<lambda>_.
           bindR (case enumerateDates (recurringSchedule (rtm_Spec template)) (ri_OccurrenceDate input) (ri_OccurrenceDate input) of
               Inl NeverReturns \<Rightarrow> Inl NeverReturns
             | Inl _ \<Rightarrow> Inl ErrRecurringScheduleInvalid
             | Inr dates \<Rightarrow> ensure (length dates = 1 \<and> \<not> ri_OccurrenceDate input < rt_GenerateFrom (rtm_Spec template)) ErrRecurringScheduleInvalid) (\<lambda>_.
           Inr None))) (\<lambda>expected.
     Inr (rtm_Revision template, (claimOf template (ri_OccurrenceDate input) now)\<lparr> no_SkipReason := reason \<rparr>, expected,
       reviewAudit input now reason (rtm_ID template))))))"

definition svc_SkipOccurrence :: "int \<times> CreateRecurringOccurrenceParams \<times> int option \<times> AuditEventParams \<Rightarrow> recurringStore
    \<Rightarrow> (recurring_error, recurringStore) result" where
  "svc_SkipOccurrence params gs = (case params of (revision, occurrence, expected, audit) \<Rightarrow>
     mapErr mapRecurringError (repo_SkipRecurringOccurrence revision occurrence expected audit gs))"

definition retryInput :: "ReviewRecurringInput \<Rightarrow> int \<Rightarrow> GenerateRecurringInput" where
  "retryInput input templateID = \<lparr> gi_OwnerUserID = ri_OwnerUserID input, gi_AuthSessionID = ri_AuthSessionID input,
     gi_RequestID = ri_RequestID input, gi_TemplateID = templateID \<rparr>"

definition prepareRetry :: "ledgerEnv \<Rightarrow> (recurring_error \<Rightarrow> string) \<Rightarrow> string \<Rightarrow> recurringStore \<Rightarrow> ReviewRecurringInput
    \<Rightarrow> (recurring_error, int \<times> CreateRecurringOccurrenceParams \<times> CreateTransactionParams option \<times> AuditEventParams \<times> int) result" where
  "prepareRetry env message now gs input =
     bindR (reviewOccurrence env gs input) (\<lambda>(template, current).
     bindR (ensure (rtm_ArchivedAt template = []) ErrRecurringTemplateArchived) (\<lambda>_.
     bindR (ensure (rt_Enabled (rtm_Spec template)) RetryNeedsEnabled) (\<lambda>_.
     bindR (case current of None \<Rightarrow> Inl ErrRecurringOccurrenceMaterialized | Some o' \<Rightarrow> blockedAttempt o') (\<lambda>expected.
     bindR (prepareOccurrence env message now True gs (retryInput input (rtm_ID template)) template (ri_OccurrenceDate input)) (\<lambda>(occurrence, draft, audit).
     Inr (rtm_Revision template, occurrence, draft, audit, expected))))))"

definition svc_RetryOccurrence :: "int \<times> CreateRecurringOccurrenceParams \<times> CreateTransactionParams option \<times> AuditEventParams \<times> int \<Rightarrow> recurringStore
    \<Rightarrow> (recurring_error, recurringStore \<times> RecurringGenerationResult) result" where
  "svc_RetryOccurrence params gs = (case params of (revision, occurrence, draft, audit, expected) \<Rightarrow>
     bindR (mapErr mapRecurringError (repo_RetryRecurringOccurrence revision occurrence draft audit expected gs)) (\<lambda>gs'.
     Inr (gs', counted (draft = None) \<lparr> gr_Generated = 0, gr_Blocked = 0 \<rparr>)))"

section \<open>Definitions: what is due\<close>

record RecurringOccurrence =
  ro_Date :: string
  ro_Status :: string
  ro_Record :: "occurrenceRow option"

text \<open>Each date once: what became of it when it has a row, else that it is scheduled.\<close>

definition mergedOccurrences :: "string list \<Rightarrow> occurrenceRow list \<Rightarrow> RecurringOccurrence list" where
  "mergedOccurrences dates rows = (
     let recorded = map_of (rev (map (\<lambda>o'. (oc_occurrence_date o', o')) rows)) in
     map (\<lambda>date. case recorded date of
         None \<Rightarrow> \<lparr> ro_Date = date, ro_Status = ''scheduled'', ro_Record = None \<rparr>
       | Some o' \<Rightarrow> \<lparr> ro_Date = date, ro_Status = oc_status o', ro_Record = Some o' \<rparr>)
       (sort (remdups (dates @ map oc_occurrence_date rows))))"

definition svc_Occurrences :: "ledgerEnv \<Rightarrow> recurringStore \<Rightarrow> int \<Rightarrow> int \<Rightarrow> string \<Rightarrow> string \<Rightarrow> (recurring_error, RecurringOccurrence list) result" where
  "svc_Occurrences env gs ownerID templateID from to =
     bindR (ensure (validRecurringDate from \<and> validRecurringDate to \<and> \<not> from > to) OccurrenceRangeInvalid) (\<lambda>_.
     bindR (case (parseDateOnly from, parseDateOnly to) of (Some start, Some end0) \<Rightarrow> ensure (\<not> end0 - start > 366) OccurrenceRangeTooLong
       | _ \<Rightarrow> Inr ()) (\<lambda>_.
     bindR (svc_Template env gs ownerID templateID) (\<lambda>template.
     let rows = RecurringOccurrencesInRange gs BookID templateID from to; first = max from (rt_GenerateFrom (rtm_Spec template)) in
     bindR (if first \<le> to then enumerateDates (recurringSchedule (rtm_Spec template)) first to else Inr []) (\<lambda>dates.
     Inr (mergedOccurrences dates rows)))))"

text \<open>The next dates of a schedule after a day, at most so many.\<close>

fun nextDates :: "nat \<Rightarrow> ScheduleSpec \<Rightarrow> string \<Rightarrow> (recurring_error, string list) result" where
  "nextDates 0 schedule after = Inr []"
| "nextDates (Suc n) schedule after = (case nextDate schedule after of
       Inl NeverReturns \<Rightarrow> Inl NeverReturns
     | Inl _ \<Rightarrow> Inl ErrRecurringScheduleInvalid
     | Inr (date, found) \<Rightarrow> if found then bindR (nextDates n schedule date) (\<lambda>dates. Inr (date # dates)) else Inr [])"

definition previewSpec :: RecurringTemplateSpec where
  "previewSpec = newTemplateSpec\<lparr> rt_Enabled := False, rt_TransactionKind := [], rt_LeadDays := 0 \<rparr>"

definition svc_PreviewSchedule :: "ledgerEnv \<Rightarrow> int \<Rightarrow> RecurringTemplatePatch \<Rightarrow> (recurring_error, string list) result" where
  "svc_PreviewSchedule env ownerID patch =
     bindR (localToday env ownerID) (\<lambda>today.
     let spec = mergeRecurringPatch previewSpec patch in
     bindR (validateRecurringSchedule spec) (\<lambda>_.
     case parseDateOnly (max today (rt_StartsOn spec)) of None \<Rightarrow> Inl ErrRecurringScheduleInvalid
       | Some from \<Rightarrow> nextDates 5 (recurringSchedule spec) (formatDateOnly (AddDate from 0 0 (- 1)))))"

record RecurringSummary =
  sum_DraftCount :: int
  sum_BlockedCount :: int
  sum_Today :: string

definition svc_Summary :: "ledgerEnv \<Rightarrow> recurringStore \<Rightarrow> int \<Rightarrow> (recurring_error, RecurringSummary) result" where
  "svc_Summary env gs ownerID =
     bindR (localToday env ownerID) (\<lambda>today.
     let (drafts, blocked) = RecurringReviewCounts gs BookID in
     Inr \<lparr> sum_DraftCount = drafts, sum_BlockedCount = blocked, sum_Today = today \<rparr>)"

record RecurringAmount =
  ra_CommodityID :: int
  ra_DebitValue :: Coefficient
  ra_CreditValue :: Coefficient
  ra_QuantityScale :: int

definition addDue :: "ScaledInt \<Rightarrow> RecurringDuePosting \<Rightarrow> (exact_error, ScaledInt) result" where
  "addDue t p = ScaledInt_AddCoefficient t (dp_QuantityValue p) (dp_QuantityScale p)"

definition isDebit :: "RecurringDuePosting \<Rightarrow> bool" where
  "isDebit p \<longleftrightarrow> Coefficient_Sign (dp_QuantityValue p) \<ge> 0"

text \<open>The debits and the credits of one commodity, brought to one scale.\<close>

definition recurringAmount :: "RecurringDuePosting list \<Rightarrow> int \<Rightarrow> (recurring_error, RecurringAmount) result" where
  "recurringAmount postings commodityID = (
     let own = filter (\<lambda>p. dp_CommodityID p = commodityID) postings in
     bindR (mapErr RecurringSumPanics (foldR addDue NewScaledInt (filter isDebit own))) (\<lambda>debit0.
     bindR (mapErr RecurringSumPanics (foldR addDue NewScaledInt (filter (\<lambda>p. \<not> isDebit p) own))) (\<lambda>credit0.
     let sc = max (si_scale debit0) (si_scale credit0) in
     bindR (mapErr RecurringSumPanics (ScaledInt_Align debit0 sc)) (\<lambda>debit1.
     bindR (mapErr RecurringSumPanics (ScaledInt_Align credit0 sc)) (\<lambda>credit1.
     bindR (mapErr (\<lambda>_. RecurringOverflow commodityID) (ScaledInt_Coefficient debit1)) (\<lambda>debit.
     bindR (mapErr (\<lambda>_. RecurringOverflow commodityID) (ScaledInt_Coefficient credit1)) (\<lambda>credit.
     Inr \<lparr> ra_CommodityID = commodityID, ra_DebitValue = debit, ra_CreditValue = credit, ra_QuantityScale = sc \<rparr>)))))))"

definition recurringAmounts :: "RecurringDuePosting list \<Rightarrow> (recurring_error, RecurringAmount list) result" where
  "recurringAmounts postings = mapR (recurringAmount postings) (sort (remdups (map dp_CommodityID postings)))"

record RecurringDueItem =
  item_Record :: RecurringDueRecord
  item_Amounts :: "RecurringAmount list"

record RecurringDuePage =
  page_Items :: "RecurringDueItem list"
  page_NextCursor :: "(string \<times> int) option"

text \<open>A cursor is the date and the id of the last item of a page; its encoding as text is left out.\<close>

definition dueItem :: "RecurringDueRecord \<Rightarrow> (recurring_error, RecurringDueItem) result" where
  "dueItem row = bindR (recurringAmounts (due_Postings row)) (\<lambda>amounts. Inr \<lparr> item_Record = row, item_Amounts = amounts \<rparr>)"

definition cursorOf :: "RecurringDueRecord \<Rightarrow> string \<times> int" where
  "cursorOf row = (oc_occurrence_date (due_Occurrence row), oc_id (due_Occurrence row))"

definition svc_Due :: "ledgerEnv \<Rightarrow> recurringStore \<Rightarrow> int \<Rightarrow> (string \<times> int) option \<Rightarrow> int \<Rightarrow> (recurring_error, RecurringDuePage) result" where
  "svc_Due env gs ownerID cursor limit0 = (
     let limit = (if limit0 = 0 then 50 else limit0) in
     bindR (ensure (ownerID > 0) RecurringOwnerRequired) (\<lambda>_.
     bindR (ensure (\<not> (limit < 1 \<or> limit > 200)) DueLimitInvalid) (\<lambda>_.
     bindR (case cursor of None \<Rightarrow> Inr ([], 0)
       | Some after \<Rightarrow> if validRecurringDate (fst after) \<and> \<not> snd after \<le> 0 then Inr after else Inl DueCursorInvalid) (\<lambda>(afterDate, afterID).
     let rows = RecurringDue env gs BookID afterDate afterID (Suc (nat limit)); shown = take (nat limit) rows in
     bindR (mapR dueItem shown) (\<lambda>items.
     Inr \<lparr> page_Items = items, page_NextCursor = (if int (length rows) > limit then Some (cursorOf (last shown)) else None) \<rparr>)))))"

end
