(* ===== verification/Recurring_Kept.thy ===== *)
theory Recurring_Kept
  imports Recurring_Service Statements Histories
begin

text \<open>
  What every write keeps of the recurring tables. The invariant says that a date of a template has one row, that a generated row has a
  transaction of its own, and that audit events named by rows exist. The relation between an earlier and a later store says that a row stays, that its
  fate only goes forward, and that a template at the same revision is the same template. Both hold for the writes of the ledger as
  well, among them the discarding of a draft.
\<close>

section \<open>The invariant\<close>

definition occurrenceKey :: "occurrenceRow \<Rightarrow> int \<times> string" where
  "occurrenceKey o' = (oc_template_id o', oc_occurrence_date o')"

definition transactionKeys :: "store \<Rightarrow> (int \<times> int) set" where
  "transactionKeys st = (\<lambda>t. (tr_book_id t, tr_id t)) ` set (st_transactions st)"

definition auditIDs :: "store \<Rightarrow> int set" where
  "auditIDs st = au_id ` set (st_audit st)"

definition occurrenceOk :: "store \<Rightarrow> occurrenceRow \<Rightarrow> bool" where
  "occurrenceOk st o' \<longleftrightarrow> oc_status o' \<in> {''generated'', ''skipped'', ''blocked''} \<and> (oc_status o' = ''generated'' \<longleftrightarrow> oc_transaction_id o' \<noteq> None) \<and>
     (\<forall>t. oc_transaction_id o' = Some t \<longrightarrow> (oc_book_id o', t) \<in> transactionKeys st) \<and> (\<forall>a. oc_last_audit o' = Some a \<longrightarrow> a \<in> auditIDs st)"

definition ownTransactions :: "occurrenceRow list \<Rightarrow> bool" where
  "ownTransactions rows \<longleftrightarrow> (\<forall>o1\<in>set rows. \<forall>o2\<in>set rows. oc_transaction_id o1 \<noteq> None \<longrightarrow> oc_transaction_id o1 = oc_transaction_id o2 \<longrightarrow> o1 = o2)"

definition occurrencesOk :: "store \<Rightarrow> bool" where
  "occurrencesOk st \<longleftrightarrow> distinct (map occurrenceKey (st_occurrences st)) \<and> distinct (map oc_id (st_occurrences st)) \<and>
     (\<forall>o'\<in>set (st_occurrences st). occurrenceOk st o') \<and> ownTransactions (st_occurrences st)"

definition recurringOk :: "recurringStore \<Rightarrow> bool" where
  "recurringOk gs \<longleftrightarrow> storeOk (gs_ledger gs) \<and> occurrencesOk (gs_ledger gs) \<and> distinct (map tm_id (gs_templates gs))"

section \<open>Earlier and later\<close>

text \<open>The fate of a date: a blocked date may be generated or skipped later, the draft of a generated one discarded; skipped is final.\<close>

definition fateGoesOn :: "occurrenceRow \<Rightarrow> occurrenceRow \<Rightarrow> bool" where
  "fateGoesOn o1 o2 \<longleftrightarrow> (oc_status o2 = oc_status o1 \<and> oc_transaction_id o2 = oc_transaction_id o1) \<or>
     (oc_status o1 = ''blocked'' \<and> oc_status o2 \<in> {''generated'', ''skipped''}) \<or> (oc_status o1 = ''generated'' \<and> oc_status o2 = ''skipped'')"

definition laterOccurrence :: "occurrenceRow \<Rightarrow> occurrenceRow \<Rightarrow> bool" where
  "laterOccurrence o1 o2 \<longleftrightarrow> oc_id o2 = oc_id o1 \<and> oc_book_id o2 = oc_book_id o1 \<and> occurrenceKey o2 = occurrenceKey o1 \<and>
     oc_created_at o2 = oc_created_at o1 \<and> fateGoesOn o1 o2 \<and>
     (o1 = o2 \<or> oc_status o1 \<noteq> ''skipped'' \<and> (\<exists>b. oc_last_audit o2 = Some b \<and> (\<forall>a. oc_last_audit o1 = Some a \<longrightarrow> a < b)))"

definition laterTemplate :: "templateRow \<Rightarrow> templateRow \<Rightarrow> bool" where
  "laterTemplate r1 r2 \<longleftrightarrow> tm_id r2 = tm_id r1 \<and> tm_book_id r2 = tm_book_id r1 \<and> (r1 = r2 \<or> tm_revision r1 < tm_revision r2) \<and>
     (tm_archived_at r1 \<noteq> None \<longrightarrow> r1 = r2)"

definition recurringLater :: "recurringStore \<Rightarrow> recurringStore \<Rightarrow> bool" where
  "recurringLater gs gs' \<longleftrightarrow> (\<forall>o1\<in>set (occurrencesIn gs). \<exists>o2\<in>set (occurrencesIn gs'). laterOccurrence o1 o2) \<and>
     (\<forall>r1\<in>set (gs_templates gs). \<exists>r2\<in>set (gs_templates gs'). laterTemplate r1 r2) \<and> balancesKept (gs_ledger gs) (gs_ledger gs')"

lemma laterOccurrence_refl [simp]: "laterOccurrence o1 o1"
  by (simp add: laterOccurrence_def fateGoesOn_def)

lemma fateGoesOn_trans: "fateGoesOn o1 o2 \<Longrightarrow> fateGoesOn o2 o3 \<Longrightarrow> fateGoesOn o1 o3"
  unfolding fateGoesOn_def by (elim disjE conjE) simp_all

lemma laterOccurrence_trans:
  assumes a: "laterOccurrence o1 o2" and b: "laterOccurrence o2 o3"
  shows "laterOccurrence o1 o3"
proof -
  have "o1 = o3 \<or> oc_status o1 \<noteq> ''skipped'' \<and> (\<exists>c. oc_last_audit o3 = Some c \<and> (\<forall>a. oc_last_audit o1 = Some a \<longrightarrow> a < c))"
  proof (cases "o1 = o2 \<or> o2 = o3")
    case True
    then show ?thesis using a b by (auto simp: laterOccurrence_def)
  next
    case False
    then obtain c d where c: "oc_last_audit o2 = Some c" "\<forall>a. oc_last_audit o1 = Some a \<longrightarrow> a < c"
      and d: "oc_last_audit o3 = Some d" "\<forall>a. oc_last_audit o2 = Some a \<longrightarrow> a < d"
      and open': "oc_status o1 \<noteq> ''skipped''" using a b unfolding laterOccurrence_def by blast
    have "a < d" if "oc_last_audit o1 = Some a" for a using c(2) d(2) c(1) that by (metis order.strict_trans)
    then show ?thesis using d(1) open' by blast
  qed
  then show ?thesis using a b fateGoesOn_trans [of o1 o2 o3] unfolding laterOccurrence_def by simp
qed

lemma laterTemplate_refl [simp]: "laterTemplate r r"
  by (simp add: laterTemplate_def)

lemma laterTemplate_trans: "laterTemplate r1 r2 \<Longrightarrow> laterTemplate r2 r3 \<Longrightarrow> laterTemplate r1 r3"
  unfolding laterTemplate_def by auto

text \<open>Rows that stay as they are, or are changed one by one.\<close>

lemma occurrences_same: "\<forall>o1\<in>set rows. \<exists>o2\<in>set (rows @ added). laterOccurrence o1 o2"
  by (intro ballI, rule bexI, rule laterOccurrence_refl, simp)

lemma occurrences_mapped: "(\<And>o'. o' \<in> set rows \<Longrightarrow> laterOccurrence o' (f o')) \<Longrightarrow> \<forall>o1\<in>set rows. \<exists>o2\<in>set (map f rows). laterOccurrence o1 o2"
  by auto

lemma templates_same: "\<forall>r1\<in>set rows. \<exists>r2\<in>set (rows @ added). laterTemplate r1 r2"
  by (intro ballI, rule bexI, rule laterTemplate_refl, simp)

lemma templates_mapped: "(\<And>r. r \<in> set rows \<Longrightarrow> laterTemplate r (f r)) \<Longrightarrow> \<forall>r1\<in>set rows. \<exists>r2\<in>set (map f rows). laterTemplate r1 r2"
  by auto

interpretation recurring: kept_relation recurringOk recurringLater
proof
  show "recurringLater gs gs" if "recurringOk gs" for gs
    unfolding recurringLater_def using laterOccurrence_refl laterTemplate_refl balancesKept_refl by blast
  fix g1 g2 g3
  assume a: "recurringLater g1 g2" and b: "recurringLater g2 g3"
  show "recurringLater g1 g3" unfolding recurringLater_def
  proof (intro conjI ballI)
    fix o1 assume "o1 \<in> set (occurrencesIn g1)"
    then obtain o2 where o2: "o2 \<in> set (occurrencesIn g2)" "laterOccurrence o1 o2" using a unfolding recurringLater_def by blast
    then obtain o3 where "o3 \<in> set (occurrencesIn g3)" "laterOccurrence o2 o3" using b unfolding recurringLater_def by blast
    then show "\<exists>o3\<in>set (occurrencesIn g3). laterOccurrence o1 o3" using laterOccurrence_trans [OF o2(2)] by blast
  next
    fix r1 assume "r1 \<in> set (gs_templates g1)"
    then obtain r2 where r2: "r2 \<in> set (gs_templates g2)" "laterTemplate r1 r2" using a unfolding recurringLater_def by blast
    then obtain r3 where "r3 \<in> set (gs_templates g3)" "laterTemplate r2 r3" using b unfolding recurringLater_def by blast
    then show "\<exists>r3\<in>set (gs_templates g3). laterTemplate r1 r3" using laterTemplate_trans [OF r2(2)] by blast
  next
    show "balancesKept (gs_ledger g1) (gs_ledger g3)" using a b balancesKept_trans unfolding recurringLater_def by blast
  qed
qed

section \<open>Writes of the ledger\<close>

text \<open>A write of the ledger leaves the occurrences, and takes no transaction and no audit event away.\<close>

definition steady :: "store \<Rightarrow> store \<Rightarrow> bool" where
  "steady st st' \<longleftrightarrow> st_occurrences st' = st_occurrences st \<and> transactionKeys st \<subseteq> transactionKeys st' \<and> auditIDs st \<subseteq> auditIDs st'"

lemma steady_refl [simp]: "steady st st"
  by (simp add: steady_def)

lemma steady_trans: "steady r s \<Longrightarrow> steady s t \<Longrightarrow> steady r t"
  by (auto simp: steady_def)

lemma steady_fields: "st_occurrences st' = st_occurrences st \<Longrightarrow> st_transactions st' = st_transactions st \<Longrightarrow> st_audit st' = st_audit st \<Longrightarrow> steady st st'"
  by (simp add: steady_def transactionKeys_def auditIDs_def)

lemma insertAuditEvent_row:
  "insertAuditEvent p st = Inr (st', i) \<Longrightarrow> \<exists>row. st' = st\<lparr> st_audit := st_audit st @ [row] \<rparr> \<and> au_id row = i \<and> i = nextAbove (map au_id (st_audit st))"
  by (auto simp: insertAuditEvent_def Let_def result_simps)

lemma audit_steady:
  assumes "insertAuditEvent p st = Inr (st', i)"
  shows "steady st st'" "i \<in> auditIDs st'" "a \<in> auditIDs st \<Longrightarrow> a < i"
proof -
  obtain row where "st' = st\<lparr> st_audit := st_audit st @ [row] \<rparr>" "au_id row = i" "i = nextAbove (map au_id (st_audit st))"
    using insertAuditEvent_row [OF assms] by blast
  then show "steady st st'" "i \<in> auditIDs st'" "a \<in> auditIDs st \<Longrightarrow> a < i"
    using nextAbove_gt [of a "map au_id (st_audit st)"] by (auto simp: steady_def transactionKeys_def auditIDs_def)
qed

lemma insert_steady: "insertTransactionVersion vp st = Inr (st', r) \<Longrightarrow> steady st st'"
  by (erule insertTransactionVersion_Inr) (simp add: steady_fields versionAdded_frame)

lemma enforce_steady: "enforceBoundary batch bp st = Inr (st', ids) \<Longrightarrow> steady st st'"
  by (auto simp: enforceBoundary_def result_simps intro: steady_fields)

lemma crossed_steady: "invalidateCrossed bp refs st r = (st', r') \<Longrightarrow> steady st st'"
  by (auto simp: invalidateCrossed_def split: if_splits prod.splits intro: steady_fields)

lemma moveVersion_steady: "moveVersion params audit t reason ov st = Inr (st', r) \<Longrightarrow> steady st st'"
  by (auto simp: moveVersion_def Let_def result_simps dest: insert_steady)

lemma writeReordered_steady: "writeReordered params audit days ps ts found st = Inr (st', found') \<Longrightarrow> steady st st'"
proof (induction ts arbitrary: st found)
  case (Cons t ts)
  then obtain vp st1 r found1 where "insertTransactionVersion vp st = Inr (st1, r)" "writeReordered params audit days ps ts found1 st1 = Inr (st', found')"
    by (auto simp: Let_def result_simps)
  then show ?case using Cons.IH insert_steady steady_trans by blast
qed simp

lemma written_steady:
  assumes "insertAuditEvent p st = Inr (st1, a)" and "insertTransactionVersion vp st1 = Inr (st2, r)" and "enforceBoundary batch bp st2 = Inr (st3, ids)"
  shows "steady st st3"
  by (rule steady_trans [OF audit_steady(1) [OF assms(1)] steady_trans [OF insert_steady [OF assms(2)] enforce_steady [OF assms(3)]]])

lemma row_steady: "steady st (st\<lparr> st_transactions := st_transactions st @ [row] \<rparr>)"
  by (auto simp: steady_def transactionKeys_def auditIDs_def)

lemma createWithAudit_steady:
  assumes "createTransactionWithAuditTx params st = Inr (st', r, auditID)"
  shows "steady st st'"
proof -
  from assms obtain st1 n row where au: "insertAuditEvent (createAudit params) st = Inr (st1, auditID)"
    and i: "insertTransactionVersion (createVersion params n auditID) (st1\<lparr> st_transactions := st_transactions st1 @ [row] \<rparr>) = Inr (st', r)"
    by (auto simp: createTransactionWithAuditTx_def insertTransactionWithAuditEventTx_def Let_def result_simps)
  show ?thesis by (rule steady_trans [OF audit_steady(1) [OF au] steady_trans [OF row_steady insert_steady [OF i]]])
qed

lemma create_steady:
  assumes "createTransactionTx batch params st = Inr (st', r)"
  shows "steady st st'"
proof -
  from assms obtain st1 r1 auditID ids where c: "createTransactionWithAuditTx params st = Inr (st1, r1, auditID)"
    and g: "enforceBoundary batch (createBoundary params auditID) st1 = Inr (st', ids)"
    by (auto simp: createTransactionTx_def result_simps)
  show ?thesis by (rule steady_trans [OF createWithAudit_steady [OF c] enforce_steady [OF g]])
qed

lemma update_steady: "repo_UpdateTransaction batch params st = Inr (st', r) \<Longrightarrow> steady st st'"
  by (auto simp: repo_UpdateTransaction_def result_simps intro: written_steady)

lemma void_steady: "repo_VoidTransaction batch params st = Inr (st', r) \<Longrightarrow> steady st st'"
  by (auto simp: repo_VoidTransaction_def Let_def result_simps split: if_splits intro: written_steady)

lemma unvoid_steady: "repo_UnvoidTransaction batch params st = Inr (st', r) \<Longrightarrow> steady st st'"
  by (auto simp: repo_UnvoidTransaction_def Let_def result_simps split: if_splits intro: written_steady)

lemma setDeletedFlag_key: "(tr_book_id (setDeletedFlag params deleted a t), tr_id (setDeletedFlag params deleted a t)) = (tr_book_id t, tr_id t)"
  by (simp add: setDeletedFlag_def)

lemma setDeleted_steady:
  assumes "repo_SetTransactionDeleted batch params deleted st = Inr (st', r)"
  shows "steady st st'"
proof -
  from assms have "st' = st \<or> (\<exists>st1 a st2 ids ds. insertAuditEvent (lifecycleAudit params) st = Inr (st1, a) \<and>
      st2 = st1\<lparr> st_transactions := map (setDeletedFlag params deleted a) (st_transactions st1), st_deletions := ds \<rparr> \<and>
      enforceBoundary batch (lifecycleBoundary params a) st2 = Inr (st', ids))"
    by (auto simp: repo_SetTransactionDeleted_def Let_def result_simps split: if_splits)
  then show ?thesis
  proof (elim disjE exE conjE)
    fix st1 a st2 ids ds
    assume au: "insertAuditEvent (lifecycleAudit params) st = Inr (st1, a)"
      and st2: "st2 = st1\<lparr> st_transactions := map (setDeletedFlag params deleted a) (st_transactions st1), st_deletions := ds \<rparr>"
      and g: "enforceBoundary batch (lifecycleBoundary params a) st2 = Inr (st', ids)"
    have "st_transactions st2 = map (setDeletedFlag params deleted a) (st_transactions st1)" by (simp add: st2)
    then have "transactionKeys st2 = transactionKeys st1" by (simp only: transactionKeys_def set_map image_image setDeletedFlag_key)
    then have "steady st1 st2" by (simp add: steady_def st2 auditIDs_def)
    then show ?thesis using audit_steady(1) [OF au] enforce_steady [OF g] steady_trans by blast
  qed simp
qed

lemma approve_steady: "repo_ApproveTransaction params st = Inr (st', r) \<Longrightarrow> steady st st'"
  by (auto simp: repo_ApproveTransaction_def Let_def result_simps split: if_splits intro: steady_trans [OF audit_steady(1) insert_steady])

lemma move_steady:
  assumes "repo_MoveTransaction params st = Inr (st', r)"
  shows "steady st st'"
proof -
  from assms obtain st1 a vp1 st2 r2 vp2 r3 where "insertAuditEvent (moveAudit params) st = Inr (st1, a)"
    and "insertTransactionVersion vp1 st1 = Inr (st2, r2)" and "insertTransactionVersion vp2 st2 = Inr (st', r3)"
    unfolding repo_MoveTransaction_def Let_def by (auto simp: result_simps split: option.splits)
  note s = this
  show ?thesis by (rule steady_trans [OF audit_steady(1) [OF s(1)] steady_trans [OF insert_steady [OF s(2)] insert_steady [OF s(3)]]])
qed

lemma movePosting_steady:
  assumes "repo_MovePosting batch params st = Inr (st', r)"
  shows "steady st st'"
proof -
  from assms obtain st1 audit t reason ov st2 r2 t' ov' st3 bp refs where au: "insertAuditEvent (postingAudit params) st = Inr (st1, audit)"
    and m1: "moveVersion params audit t reason ov st1 = Inr (st2, r2)"
    and m2: "(if t' = t then Inr st2 else bindR (moveVersion params audit t' ''swapped for moved posting'' ov' st2) (\<lambda>(st3, _). Inr st3)) = Inr st3"
    and inv: "invalidateCrossed bp refs st3 r2 = (st', r)"
    unfolding repo_MovePosting_def Let_def by (auto simp: result_simps split: option.splits prod.splits)
  have "steady st2 st3" using m2 by (auto simp: result_simps split: if_splits dest: moveVersion_steady)
  then show ?thesis using audit_steady(1) [OF au] moveVersion_steady [OF m1] crossed_steady [OF inv] steady_trans by blast
qed

lemma place_steady:
  assumes "repo_PlaceTransaction batch params st = Inr (st', r)"
  shows "steady st st'"
proof -
  from assms have "st' = st \<or> (\<exists>st1 audit days ps ts st2 found bp refs r0. insertAuditEvent (placeAudit params) st = Inr (st1, audit) \<and>
      writeReordered params audit days ps ts None st1 = Inr (st2, found) \<and> invalidateCrossed bp refs st2 r0 = (st', r))"
    unfolding repo_PlaceTransaction_def Let_def by (auto simp: result_simps split: if_splits) blast+
  then show ?thesis
    by (elim disjE exE conjE, simp) (drule audit_steady(1), drule writeReordered_steady, drule crossed_steady, blast intro: steady_trans)
qed

lemma write_steady:
  assumes "committedWrite env st0 st st'"
  shows "steady st st'"
  using assms
proof cases
  case (create now input params investment batch r)
  then show ?thesis using create_steady by (auto simp: repo_CreateTransaction_def result_simps)
next
  case (move params r)
  then show ?thesis by (auto simp: svc_MoveTransaction_def result_simps dest!: moveOp_Inr dest: move_steady)
next
  case (movePosting batch params r)
  then show ?thesis by (auto simp: svc_MovePosting_def result_simps dest!: moveOp_Inr dest: movePosting_steady)
next
  case (place batch params r)
  then show ?thesis by (auto simp: svc_PlaceTransaction_def result_simps dest!: moveOp_Inr dest: place_steady)
qed (blast intro: update_steady void_steady unvoid_steady setDeleted_steady approve_steady)+

section \<open>What a write of the ledger keeps\<close>

lemma occurrenceOk_steady: "occurrenceOk st o' \<Longrightarrow> transactionKeys st \<subseteq> transactionKeys st' \<Longrightarrow> auditIDs st \<subseteq> auditIDs st' \<Longrightarrow> occurrenceOk st' o'"
  unfolding occurrenceOk_def by blast

lemma occurrencesOk_steady: "occurrencesOk st \<Longrightarrow> steady st st' \<Longrightarrow> occurrencesOk st'"
  unfolding occurrencesOk_def steady_def by (auto intro: occurrenceOk_steady)

lemma occurrencesOk_parts:
  assumes "occurrencesOk st"
  shows "distinct (map occurrenceKey (st_occurrences st))" "distinct (map oc_id (st_occurrences st))"
    "o' \<in> set (st_occurrences st) \<Longrightarrow> occurrenceOk st o'" "ownTransactions (st_occurrences st)"
  using assms by (auto simp: occurrencesOk_def)

lemma recurringOk_parts:
  assumes "recurringOk gs"
  shows "storeOk (gs_ledger gs)" "occurrencesOk (gs_ledger gs)" "distinct (map tm_id (gs_templates gs))"
  using assms by (auto simp: recurringOk_def)

lemma ledger_kept_recurring:
  assumes "recurringOk gs" and "storeOk st'" and "balancesKept (gs_ledger gs) st'" and "steady (gs_ledger gs) st'"
  shows "recurringOk (gs\<lparr> gs_ledger := st' \<rparr>) \<and> recurringLater gs (gs\<lparr> gs_ledger := st' \<rparr>)"
proof
  show "recurringOk (gs\<lparr> gs_ledger := st' \<rparr>)"
    using recurringOk_parts [OF assms(1)] occurrencesOk_steady [OF _ assms(4)] assms(2) by (simp add: recurringOk_def)
  have "occurrencesIn (gs\<lparr> gs_ledger := st' \<rparr>) = occurrencesIn gs" using assms(4) by (simp add: occurrencesIn_def steady_def)
  then show "recurringLater gs (gs\<lparr> gs_ledger := st' \<rparr>)"
    using assms(3) occurrences_same [of _ "[]"] templates_same [of _ "[]"] by (simp add: recurringLater_def)
qed

text \<open>Discarding a draft turns the row it stands for into a skipped one, and no other row names the transaction.\<close>

lemma skipOccurrence_fields [simp]:
  "oc_id (skipOccurrence params a o') = oc_id o'" "oc_book_id (skipOccurrence params a o') = oc_book_id o'"
  "oc_template_id (skipOccurrence params a o') = oc_template_id o'" "oc_occurrence_date (skipOccurrence params a o') = oc_occurrence_date o'"
  "oc_created_at (skipOccurrence params a o') = oc_created_at o'"
  by (simp_all add: skipOccurrence_def)

lemma skipOccurrence_later:
  assumes "\<forall>b. oc_last_audit o' = Some b \<longrightarrow> b < a"
  shows "laterOccurrence o' (skipOccurrence params a o')"
proof (cases "oc_book_id o' = dd_BookID params \<and> oc_transaction_id o' = Some (dd_TransactionID params) \<and> oc_status o' = ''generated''")
  case True
  then have "oc_status (skipOccurrence params a o') = ''skipped''" "oc_last_audit (skipOccurrence params a o') = Some a" by (simp_all add: skipOccurrence_def)
  then show ?thesis using True assms by (simp add: laterOccurrence_def fateGoesOn_def occurrenceKey_def)
next
  case False
  then have "skipOccurrence params a o' = o'" by (auto simp: skipOccurrence_def)
  then show ?thesis by simp
qed

lemma discard_occurrences:
  assumes ok: "occurrencesOk st" and w: "repo_DeleteDraftTransaction params st = Inr st'"
  shows "occurrencesOk st'" "\<forall>o1\<in>set (st_occurrences st). \<exists>o2\<in>set (st_occurrences st'). laterOccurrence o1 o2"
proof -
  let ?b = "dd_BookID params" and ?t = "dd_TransactionID params"
  from w obtain st1 a where au: "insertAuditEvent (discardAudit params) st = Inr (st1, a)" and rows: "st_occurrences st' = map (skipOccurrence params a) (st_occurrences st1)"
    and ts: "st_transactions st' = filter (\<lambda>t. \<not> (tr_book_id t = ?b \<and> tr_id t = ?t)) (st_transactions st1)" and audits: "st_audit st' = st_audit st1"
    by (auto simp: repo_DeleteDraftTransaction_def Let_def result_simps)
  note s = audit_steady [OF au]
  have rows': "st_occurrences st' = map (skipOccurrence params a) (st_occurrences st)" using rows s(1) by (simp add: steady_def)
  obtain A where "st1 = st\<lparr> st_audit := A \<rparr>" using insertAuditEvent_Inr [OF au] by blast
  then have keys: "transactionKeys st' = transactionKeys st - {(?b, ?t)}" by (auto simp: transactionKeys_def ts)
  have audits': "auditIDs st \<subseteq> auditIDs st'" "a \<in> auditIDs st'" using s(1,2) audits by (simp_all add: steady_def auditIDs_def)
  have older: "\<forall>b. oc_last_audit o' = Some b \<longrightarrow> b < a" if "o' \<in> set (st_occurrences st)" for o'
    using occurrencesOk_parts(3) [OF ok that] s(3) by (auto simp: occurrenceOk_def)
  then show "\<forall>o1\<in>set (st_occurrences st). \<exists>o2\<in>set (st_occurrences st'). laterOccurrence o1 o2"
    unfolding rows' by (intro occurrences_mapped skipOccurrence_later)
  have same: "map occurrenceKey (st_occurrences st') = map occurrenceKey (st_occurrences st)" "map oc_id (st_occurrences st') = map oc_id (st_occurrences st)"
    by (simp_all add: rows' o_def occurrenceKey_def)
  have "occurrenceOk st' (skipOccurrence params a o')" if "o' \<in> set (st_occurrences st)" for o'
    using occurrencesOk_parts(3) [OF ok that] audits' keys by (auto simp: occurrenceOk_def skipOccurrence_def)
  moreover have "ownTransactions (st_occurrences st')" unfolding ownTransactions_def
  proof (intro ballI impI)
    fix o1 o2 assume "o1 \<in> set (st_occurrences st')" "o2 \<in> set (st_occurrences st')" and t: "oc_transaction_id o1 \<noteq> None" "oc_transaction_id o1 = oc_transaction_id o2"
    then obtain p1 p2 where p: "p1 \<in> set (st_occurrences st)" "o1 = skipOccurrence params a p1" "p2 \<in> set (st_occurrences st)" "o2 = skipOccurrence params a p2"
      by (auto simp: rows')
    have "oc_transaction_id p1 = oc_transaction_id o1" "oc_transaction_id p2 = oc_transaction_id o2" using t by (auto simp: p skipOccurrence_def split: if_splits)
    then have "p1 = p2" using occurrencesOk_parts(4) [OF ok] p(1,3) t unfolding ownTransactions_def by metis
    then show "o1 = o2" by (simp add: p)
  qed
  ultimately show "occurrencesOk st'" using occurrencesOk_parts(1,2) [OF ok] same by (simp add: occurrencesOk_def) (simp add: rows')
qed

lemma discard_kept:
  assumes ok: "recurringOk gs" and w: "repo_DeleteDraftTransaction params (gs_ledger gs) = Inr st'"
  shows "recurringOk (gs\<lparr> gs_ledger := st' \<rparr>) \<and> recurringLater gs (gs\<lparr> gs_ledger := st' \<rparr>)"
proof -
  note o = recurringOk_parts [OF ok]
  show ?thesis using discard_occurrences [OF o(2) w] discard_committed [OF o(1) w] o(3) templates_same [of "gs_templates gs" "[]"]
    by (simp add: recurringOk_def recurringLater_def occurrencesIn_def)
qed

end
