(* ===== verification/Recurring_Writes.thy ===== *)
theory Recurring_Writes
  imports Recurring_Kept
begin

text \<open>
  Every write of the recurring repository keeps the invariant and the relation of theory Recurring_Kept: claiming a date with a draft, with
  a refusal or with a skip, consuming a blocked attempt, advancing the watermark, and creating, changing and archiving templates.
\<close>

section \<open>The draft of a date\<close>

text \<open>What a prepared draft satisfies whatever the tables are by the time it is committed.\<close>

definition draftPrepared :: "CreateTransactionParams \<Rightarrow> bool" where
  "draftPrepared params \<longleftrightarrow> distinct (specKeys (ct_Spec params)) \<and> (ts_Status (ct_Spec params) = ''draft'' \<or> ts_Status (ct_Spec params) = ''posted'') \<and>
     ct_CheckpointCandidates params = reconciliationCandidatesFromSpec (ct_Spec params) \<and> \<not> ct_ReconciliationOverride params \<and>
     ct_ReviewedCheckpointIDs params = None \<and> ct_BookID params = BookID"

lemma prepareDraft_prepared:
  assumes "prepareDraft env now st input spec date = Inr params"
  shows "draftPrepared params"
proof -
  from assms obtain cleaned p0 where p: "prepareCreateTransactionForWrite env now st (draftInput input cleaned date) = Inr p0" "params = p0\<lparr> ct_CreatedAt := now \<rparr>"
    by (auto simp: prepareDraft_def result_simps)
  have "prepareCreate env now st (draftInput input cleaned date) = Inr p0" using p(1) by (simp add: prepareCreate_def draftInput_def)
  note pc = prepareCreate_Inr [OF this]
  have "\<not> ct_ReconciliationOverride p0" "ct_ReviewedCheckpointIDs p0 = None"
    using p(1) by (auto simp: prepareCreateTransactionForWrite_def prepareCreateTransactionForWriteWithOptions_def draftInput_def Let_def result_simps)
  then show ?thesis using pc by (simp add: draftPrepared_def p(2))
qed

lemma prepareOccurrence_Inr:
  assumes "prepareOccurrence env message now retrying gs input template date = Inr (occurrence, draft, audit)"
  shows "no_BookID occurrence = BookID" "no_TemplateID occurrence = rtm_ID template" "no_OccurrenceDate occurrence = date"
    "draft = Some params \<Longrightarrow> draftPrepared params"
  using assms
  by (auto simp: prepareOccurrence_def Let_def claimOf_def retriedDraft_def draftPrepared_def split: sum.splits if_splits dest!: prepareDraft_prepared)

lemma createWithAudit_draft:
  assumes ok: "storeOk st" and p: "draftPrepared params" and draft: "ts_Status (ct_Spec params) = ''draft''"
    and w: "createTransactionWithAuditTx params st = Inr (st', r, auditID)"
  shows "storeOk st'" "balancesKept st st'" "(ct_BookID params, rc_ID r) \<in> transactionKeys st'" "rc_ID r \<notin> tr_id ` set (st_transactions st)"
    "auditID \<in> auditIDs st'" "a \<in> auditIDs st \<Longrightarrow> a < auditID"
proof -
  have "enforceBoundary False (createBoundary params auditID) st' = Inr (st', [])"
    using p draft by (simp add: draftPrepared_def enforceBoundary_def createBoundary_def enforceCheckpointBoundaryTx_def reconciliationCandidatesFromSpec_def
        periodScopedCheckpointInvalidationRefs_def bindCheckpointOverride_def uniqueCheckpointIDs_def result_simps)
  then have c: "createTransactionTx False params st = Inr (st', r\<lparr> rc_InvalidatedCheckpointIDs := [] \<rparr>)" using w by (simp add: createTransactionTx_def)
  have k: "storeOk st' \<and> balancesKept st st' \<and> set (st_versions st) \<subseteq> set (st_versions st')"
    by (rule create_written [OF ok c]) (use p in \<open>simp_all add: draftPrepared_def\<close>)
  then show "storeOk st'" "balancesKept st st'" by simp_all
  define t where "t = nextAbove (map tr_id (st_transactions st))"
  from w obtain st1 where au: "insertAuditEvent (createAudit params) st = Inr (st1, auditID)"
    and i: "insertTransactionVersion (createVersion params (nextAbove (map tr_id (st_transactions st1))) auditID)
      (st1\<lparr> st_transactions := st_transactions st1 @ [createRow params (nextAbove (map tr_id (st_transactions st1))) auditID] \<rparr>) = Inr (st', r)"
    by (auto simp: createTransactionWithAuditTx_def insertTransactionWithAuditEventTx_def Let_def result_simps)
  from insertAuditEvent_Inr [OF au] obtain A where A: "st1 = st\<lparr> st_audit := A \<rparr>" ..
  have t1: "nextAbove (map tr_id (st_transactions st1)) = t" by (simp add: t_def A)
  from insertTransactionVersion_Inr [OF i [unfolded t1]] obtain entries where a: "versionAdded (createVersion params t auditID)
      (st1\<lparr> st_transactions := st_transactions st1 @ [createRow params t auditID] \<rparr>) st' entries"
    and b: "bindR (transactionVersionByID st' (nextAbove (map tv_id (st_versions (st1\<lparr> st_transactions := st_transactions st1 @ [createRow params t auditID] \<rparr>)))))
      (\<lambda>r. Inr (loadTransactionChildren st' r)) = Inr r" .
  have id: "rc_ID r = t" using inserted_record(2) [OF conjunct1 [OF k] a b] by (simp add: createVersion_def)
  have "createRow params t auditID \<in> set (st_transactions st')" by (simp add: versionAdded_frame(1) [OF a])
  then show "(ct_BookID params, rc_ID r) \<in> transactionKeys st'"
    unfolding transactionKeys_def id by (rule rev_image_eqI) (simp add: createRow_def)
  show "rc_ID r \<notin> tr_id ` set (st_transactions st)" unfolding id t_def using nextAbove_fresh [of "map tr_id (st_transactions st)"] by simp
  note s = audit_steady [OF au] and i' = insert_steady [OF i]
  have "auditIDs st1 \<subseteq> auditIDs st'" using i' by (auto simp: steady_def auditIDs_def)
  then show "auditID \<in> auditIDs st'" using s(2) by blast
  show "a \<in> auditIDs st \<Longrightarrow> a < auditID" by (rule s(3))
qed

text \<open>What stands for a date once its draft, or the audit event of its refusal, is written.\<close>

definition fateOf :: "store \<Rightarrow> store \<Rightarrow> string \<Rightarrow> int option \<Rightarrow> int \<Rightarrow> bool" where
  "fateOf st st' status transactionID bookID \<longleftrightarrow> status \<in> {''generated'', ''skipped'', ''blocked''} \<and> (status = ''generated'' \<longleftrightarrow> transactionID \<noteq> None) \<and>
     (\<forall>t. transactionID = Some t \<longrightarrow> (bookID, t) \<in> transactionKeys st' \<and> t \<notin> tr_id ` set (st_transactions st))"

definition outcomeOf :: "CreateRecurringOccurrenceParams \<Rightarrow> store \<Rightarrow> CreateRecurringOccurrenceParams \<Rightarrow> store \<Rightarrow> bool" where
  "outcomeOf occurrence st outcome st' \<longleftrightarrow> no_BookID outcome = no_BookID occurrence \<and> no_TemplateID outcome = no_TemplateID occurrence \<and>
     no_OccurrenceDate outcome = no_OccurrenceDate occurrence \<and> no_MaterializedAt outcome = no_MaterializedAt occurrence \<and>
     fateOf st st' (no_Status outcome) (no_TransactionID outcome) (no_BookID outcome)"

definition eventAfter :: "store \<Rightarrow> int \<Rightarrow> store \<Rightarrow> bool" where
  "eventAfter st auditID st' \<longleftrightarrow> storeOk st' \<and> balancesKept st st' \<and> steady st st' \<and> auditID \<in> auditIDs st' \<and> (\<forall>a\<in>auditIDs st. a < auditID)"

lemma auditRecurring_Inr:
  assumes "storeOk (gs_ledger gs)" and "auditRecurring params gs = Inr (gs1, auditID)"
  obtains st1 where "gs1 = gs\<lparr> gs_ledger := st1 \<rparr>" "eventAfter (gs_ledger gs) auditID st1"
proof -
  from assms(2) obtain st1 where au: "insertAuditEvent params (gs_ledger gs) = Inr (st1, auditID)" and gs1: "gs1 = gs\<lparr> gs_ledger := st1 \<rparr>"
    by (auto simp: auditRecurring_def result_simps)
  from insertAuditEvent_Inr [OF au] obtain A where A: "st1 = (gs_ledger gs)\<lparr> st_audit := A \<rparr>" ..
  have "storeOk st1" unfolding A by (rule storeOk_audit [OF assms(1)])
  moreover have "balancesKept (gs_ledger gs) st1" 
    using registerBalance_reads [of st1 "gs_ledger gs"] by (simp add: balancesKept_def A)
  ultimately show ?thesis using that [OF gs1] audit_steady [OF au] by (simp add: eventAfter_def)
qed

lemma draftOf_Inr:
  assumes ok: "storeOk (gs_ledger gs)" and p: "\<And>params. draft = Some params \<Longrightarrow> draftPrepared params"
    and w: "draftOf occurrence draft audit gs = Inr (gs1, outcome, auditID)"
  obtains st1 where "gs1 = gs\<lparr> gs_ledger := st1 \<rparr>" "eventAfter (gs_ledger gs) auditID st1" "outcomeOf occurrence (gs_ledger gs) outcome st1"
    "no_Status outcome = (if draft = None then ''blocked'' else ''generated'')"
proof (cases draft)
  case None
  then obtain gs2 where au: "auditRecurring audit gs = Inr (gs1, auditID)" and out: "outcome = occurrence\<lparr> no_Status := ''blocked'', no_TransactionID := None \<rparr>"
    using w by (auto simp: draftOf_def result_simps)
  obtain st1 where "gs1 = gs\<lparr> gs_ledger := st1 \<rparr>" "eventAfter (gs_ledger gs) auditID st1" by (rule auditRecurring_Inr [OF ok au])
  then show ?thesis using that None by (simp add: outcomeOf_def fateOf_def out)
next
  case (Some params)
  then obtain st1 r where c: "ct_BookID params = no_BookID occurrence" "ts_Status (ct_Spec params) = ''draft''"
      "createTransactionWithAuditTx params (gs_ledger gs) = Inr (st1, r, auditID)"
    and out: "gs1 = gs\<lparr> gs_ledger := st1 \<rparr>" "outcome = occurrence\<lparr> no_Status := ''generated'', no_TransactionID := Some (rc_ID r) \<rparr>"
    using w by (auto simp: draftOf_def result_simps)
  note d = createWithAudit_draft [OF ok p [OF Some] c(2,3)]
  have "eventAfter (gs_ledger gs) auditID st1" using d createWithAudit_steady [OF c(3)] by (simp add: eventAfter_def)
  moreover have "outcomeOf occurrence (gs_ledger gs) outcome st1" using d(3,4) by (simp add: outcomeOf_def fateOf_def out(2) c(1))
  ultimately show ?thesis using that [OF out(1)] Some by (simp add: out(2))
qed

section \<open>The row of a date\<close>

text \<open>The checks of the ledger do not read the occurrences.\<close>

lemma storeOk_reads:
  assumes "st_versions st = st_versions st'" and "st_transactions st = st_transactions st'" and "st_lines st = st_lines st'" and "st_checkpoints st = st_checkpoints st'"
  shows "storeOk st = storeOk st'"
  unfolding storeOk_def reads_versions [OF assms(1)] unfolding assms ..

lemma balancesKept_occurrences: "balancesKept st (st'\<lparr> st_occurrences := rows \<rparr>) = balancesKept st st'"
  using registerBalance_reads [of "st'\<lparr> st_occurrences := rows \<rparr>" st'] by (simp add: balancesKept_def)

text \<open>A row written with an event: what it stands for, and that its transaction is new.\<close>

definition standsAfter :: "store \<Rightarrow> int \<Rightarrow> store \<Rightarrow> occurrenceRow \<Rightarrow> bool" where
  "standsAfter st auditID st' n \<longleftrightarrow> fateOf st st' (oc_status n) (oc_transaction_id n) (oc_book_id n) \<and> oc_last_audit n = Some auditID"

lemma fateOf_fresh: "fateOf st st' status (Some t) b \<Longrightarrow> t \<notin> tr_id ` set (st_transactions st)"
  by (simp add: fateOf_def)

lemma rows_kept:
  assumes ok: "recurringOk gs" and e: "eventAfter (gs_ledger gs) auditID st1"
    and o: "distinct (map occurrenceKey rows)" "distinct (map oc_id rows)" "ownTransactions rows"
    and rows: "\<And>n. n \<in> set rows \<Longrightarrow> n \<in> set (occurrencesIn gs) \<or> standsAfter (gs_ledger gs) auditID st1 n"
    and later: "\<forall>o1\<in>set (occurrencesIn gs). \<exists>o2\<in>set rows. laterOccurrence o1 o2"
  shows "recurringOk (gs\<lparr> gs_ledger := st1\<lparr> st_occurrences := rows \<rparr> \<rparr>) \<and> recurringLater gs (gs\<lparr> gs_ledger := st1\<lparr> st_occurrences := rows \<rparr> \<rparr>)"
proof -
  let ?st = "st1\<lparr> st_occurrences := rows \<rparr>"
  have e': "storeOk st1" "balancesKept (gs_ledger gs) st1" "steady (gs_ledger gs) st1" "auditID \<in> auditIDs st1" using e by (simp_all add: eventAfter_def)
  have keys: "transactionKeys ?st = transactionKeys st1" "auditIDs ?st = auditIDs st1" by (simp_all add: transactionKeys_def auditIDs_def)
  have "occurrenceOk ?st n" if "n \<in> set rows" for n
    using rows [OF that]
  proof
    assume "n \<in> set (occurrencesIn gs)"
    then have "occurrenceOk (gs_ledger gs) n" using occurrencesOk_parts(3) [OF recurringOk_parts(2) [OF ok]] by (simp add: occurrencesIn_def)
    then show ?thesis by (rule occurrenceOk_steady) (use e'(3) keys in \<open>simp_all add: steady_def\<close>)
  next
    assume "standsAfter (gs_ledger gs) auditID st1 n"
    then show ?thesis using e'(4) unfolding standsAfter_def fateOf_def occurrenceOk_def keys
      by - (elim conjE, intro conjI, assumption, assumption, blast, simp)
  qed
  then have "occurrencesOk ?st" using o by (simp add: occurrencesOk_def)
  moreover have "storeOk ?st" using e'(1) by (simp add: storeOk_reads [of ?st st1])
  ultimately show ?thesis using recurringOk_parts(3) [OF ok] later e'(2) templates_same [of "gs_templates gs" "[]"]
    by (simp add: recurringOk_def recurringLater_def occurrencesIn_def balancesKept_occurrences)
qed

lemma old_transaction:
  assumes "recurringOk gs" and "o' \<in> set (occurrencesIn gs)" and "oc_transaction_id o' = Some t"
  shows "t \<in> tr_id ` set (st_transactions (gs_ledger gs))"
  using occurrencesOk_parts(3) [OF recurringOk_parts(2) [OF assms(1)]] assms(2,3) by (fastforce simp: occurrencesIn_def occurrenceOk_def transactionKeys_def)

text \<open>Claiming a date that has no row.\<close>

lemma insert_kept:
  assumes ok: "recurringOk gs" and e: "eventAfter (gs_ledger gs) auditID st1"
    and n: "\<And>k. standsAfter (gs_ledger gs) auditID st1 (newOccurrence outcome (Some auditID) k)"
    and w: "insertOccurrence outcome (Some auditID) (gs\<lparr> gs_ledger := st1 \<rparr>) = Inr gs'"
  shows "recurringOk gs' \<and> recurringLater gs gs'"
proof -
  have same: "st_occurrences st1 = st_occurrences (gs_ledger gs)" using e by (simp add: eventAfter_def steady_def)
  let ?rows = "occurrencesIn gs" and ?n = "newOccurrence outcome (Some auditID) (nextAbove (map oc_id (occurrencesIn gs)))"
  from w have free: "\<forall>o'\<in>set ?rows. \<not> (oc_template_id o' = no_TemplateID outcome \<and> oc_occurrence_date o' = no_OccurrenceDate outcome)"
    and gs': "gs' = gs\<lparr> gs_ledger := st1\<lparr> st_occurrences := ?rows @ [?n] \<rparr> \<rparr>"
    by (auto simp: insertOccurrence_def result_simps occurrencesIn_def same)
  note parts = occurrencesOk_parts [OF recurringOk_parts(2) [OF ok], folded occurrencesIn_def]
  have "distinct (map occurrenceKey (?rows @ [?n]))" using parts(1) free by (auto simp: occurrenceKey_def newOccurrence_def)
  moreover have "distinct (map oc_id (?rows @ [?n]))"
    using parts(2) nextAbove_fresh [of "map oc_id ?rows"] by (simp add: newOccurrence_def)
  moreover have "ownTransactions (?rows @ [?n])" unfolding ownTransactions_def
  proof (intro ballI impI)
    fix o1 o2 assume o: "o1 \<in> set (?rows @ [?n])" "o2 \<in> set (?rows @ [?n])" "oc_transaction_id o1 \<noteq> None" "oc_transaction_id o1 = oc_transaction_id o2"
    then obtain t where t: "oc_transaction_id o1 = Some t" "oc_transaction_id o2 = Some t" by auto
    have fresh: "t \<notin> tr_id ` set (st_transactions (gs_ledger gs))" if "oc_transaction_id ?n = Some t" using n [unfolded standsAfter_def] that fateOf_fresh by metis
    show "o1 = o2"
    proof (cases "o1 \<in> set ?rows \<and> o2 \<in> set ?rows")
      case True
      then show ?thesis using parts(4) o(3,4) unfolding ownTransactions_def by blast
    next
      case False
      then show ?thesis using o(1,2) t fresh old_transaction [OF ok] by auto
    qed
  qed
  moreover have "x \<in> set ?rows \<or> standsAfter (gs_ledger gs) auditID st1 x" if "x \<in> set (?rows @ [?n])" for x using that n by auto
  ultimately show ?thesis unfolding gs' by (rule rows_kept [OF ok e _ _ _ _ occurrences_same])
qed

text \<open>Changing the row of a date that was blocked.\<close>

lemma update_kept:
  assumes ok: "recurringOk gs" and e: "eventAfter (gs_ledger gs) auditID st1"
    and found: "findOccurrence gs (no_BookID occurrence) (no_TemplateID occurrence) (no_OccurrenceDate occurrence) = Some b" "oc_status b = ''blocked''"
    and outcome: "no_BookID outcome = no_BookID occurrence" "no_TemplateID outcome = no_TemplateID occurrence" "no_OccurrenceDate outcome = no_OccurrenceDate occurrence"
    and f: "standsAfter (gs_ledger gs) auditID st1 (f b)" "oc_id (f b) = oc_id b" "oc_book_id (f b) = oc_book_id b" "occurrenceKey (f b) = occurrenceKey b"
      "oc_created_at (f b) = oc_created_at b"
  shows "recurringOk (updateOccurrence outcome f (gs\<lparr> gs_ledger := st1 \<rparr>)) \<and> recurringLater gs (updateOccurrence outcome f (gs\<lparr> gs_ledger := st1 \<rparr>))"
proof -
  let ?rows = "occurrencesIn gs"
  note parts = occurrencesOk_parts [OF recurringOk_parts(2) [OF ok], folded occurrencesIn_def]
  have b: "b \<in> set ?rows" "oc_book_id b = no_BookID occurrence" "oc_template_id b = no_TemplateID occurrence" "oc_occurrence_date b = no_OccurrenceDate occurrence"
    using found(1) by (auto simp: findOccurrence_def find_Some_iff)
  have only: "o' = b" if "o' \<in> set ?rows" "occurrenceKey o' = occurrenceKey b" for o'
    using parts(1) that b(1) by (simp add: distinct_map inj_on_def)
  define g where "g o' = (if o' = b then f b else o')" for o'
  have same: "st_occurrences st1 = st_occurrences (gs_ledger gs)" using e by (simp add: eventAfter_def steady_def)
  have "map (\<lambda>o'. if oc_book_id o' = no_BookID outcome \<and> oc_template_id o' = no_TemplateID outcome \<and> oc_occurrence_date o' = no_OccurrenceDate outcome
      then f o' else o') ?rows = map g ?rows"
  proof (rule map_cong [OF refl])
    fix o' assume o': "o' \<in> set ?rows"
    have "oc_book_id o' = no_BookID outcome \<and> oc_template_id o' = no_TemplateID outcome \<and> oc_occurrence_date o' = no_OccurrenceDate outcome \<longleftrightarrow> o' = b"
      using only [OF o'] b(2-4) unfolding outcome occurrenceKey_def by metis
    then show "(if oc_book_id o' = no_BookID outcome \<and> oc_template_id o' = no_TemplateID outcome \<and> oc_occurrence_date o' = no_OccurrenceDate outcome
      then f o' else o') = g o'" unfolding g_def by (cases "o' = b") auto
  qed
  then have gs': "updateOccurrence outcome f (gs\<lparr> gs_ledger := st1 \<rparr>) = gs\<lparr> gs_ledger := st1\<lparr> st_occurrences := map g ?rows \<rparr> \<rparr>"
    by (simp add: updateOccurrence_def occurrencesIn_def same)
  have older: "a < auditID" if "oc_last_audit b = Some a" for a
    using parts(3) [OF b(1)] that e by (simp add: occurrenceOk_def eventAfter_def)
  have "oc_transaction_id b = None" using parts(3) [OF b(1)] found(2) by (simp add: occurrenceOk_def)
  then have "fateGoesOn b (f b)" using f(1) found(2) unfolding standsAfter_def fateOf_def fateGoesOn_def by auto
  then have "laterOccurrence b (f b)" using f older found(2) by (simp add: laterOccurrence_def standsAfter_def)
  then have later: "laterOccurrence o' (g o')" for o' by (simp add: g_def)
  have keys: "map occurrenceKey (map g ?rows) = map occurrenceKey ?rows" "map oc_id (map g ?rows) = map oc_id ?rows" using f by (simp_all add: g_def)
  have own: "ownTransactions (map g ?rows)" unfolding ownTransactions_def
  proof (intro ballI impI)
    fix o1 o2 assume o: "o1 \<in> set (map g ?rows)" "o2 \<in> set (map g ?rows)" "oc_transaction_id o1 \<noteq> None" "oc_transaction_id o1 = oc_transaction_id o2"
    then obtain p1 p2 where p: "p1 \<in> set ?rows" "o1 = g p1" "p2 \<in> set ?rows" "o2 = g p2" by auto
    obtain t where t: "oc_transaction_id (g p1) = Some t" "oc_transaction_id (g p2) = Some t" using o(3,4) p by auto
    have fresh: "t \<notin> tr_id ` set (st_transactions (gs_ledger gs))" if "oc_transaction_id (f b) = Some t" using f(1) [unfolded standsAfter_def] that fateOf_fresh by metis
    show "o1 = o2"
    proof (cases "p1 = b \<or> p2 = b")
      case True
      then have "p1 = b \<and> p2 = b"
        using t fresh old_transaction [OF ok p(1), of t] old_transaction [OF ok p(3), of t] by (auto simp: g_def split: if_splits)
      then show ?thesis by (simp add: p)
    next
      case False
      then show ?thesis using parts(4) p o(3,4) unfolding ownTransactions_def g_def by simp
    qed
  qed
  show ?thesis unfolding gs'
  proof (rule rows_kept [OF ok e])
    show "distinct (map occurrenceKey (map g ?rows))" "distinct (map oc_id (map g ?rows))" unfolding keys by (rule parts(1,2))+
    show "ownTransactions (map g ?rows)" by (rule own)
    show "n \<in> set ?rows \<or> standsAfter (gs_ledger gs) auditID st1 n" if "n \<in> set (map g ?rows)" for n using that f(1) by (auto simp: g_def split: if_splits)
    show "\<forall>o1\<in>set ?rows. \<exists>o2\<in>set (map g ?rows). laterOccurrence o1 o2" by (rule occurrences_mapped) (rule later)
  qed
qed

section \<open>The writes\<close>

lemma materialize_kept:
  assumes ok: "recurringOk gs" and p: "\<And>params. draft = Some params \<Longrightarrow> draftPrepared params"
    and w: "materializeRecurringOccurrence revision occurrence draft audit expected gs = Inr gs'"
  shows "recurringOk gs' \<and> recurringLater gs gs'"
proof -
  from w obtain gs1 outcome auditID where g: "guardRecurringOccurrence gs occurrence expected = Inr ()"
    and d: "draftOf occurrence draft audit gs = Inr (gs1, outcome, auditID)"
    and i: "(if expected = None then insertOccurrence outcome (Some auditID) gs1 else Inr (updateOccurrence outcome (retriedOccurrence outcome auditID) gs1)) = Inr gs'"
    by (auto simp: materializeRecurringOccurrence_def result_simps simp del: if_split)
  obtain st1 where gs1: "gs1 = gs\<lparr> gs_ledger := st1 \<rparr>" and e: "eventAfter (gs_ledger gs) auditID st1" and o: "outcomeOf occurrence (gs_ledger gs) outcome st1"
    by (rule draftOf_Inr [OF recurringOk_parts(1) [OF ok] p d])
  show ?thesis
  proof (cases expected)
    case None
    then show ?thesis using i o by (intro insert_kept [OF ok e]) (auto simp: gs1 outcomeOf_def standsAfter_def newOccurrence_def)
  next
    case (Some a)
    then obtain b where b: "findOccurrence gs (no_BookID occurrence) (no_TemplateID occurrence) (no_OccurrenceDate occurrence) = Some b" "oc_status b = ''blocked''"
      using g by (auto simp: guardRecurringOccurrence_def result_simps split: option.splits)
    have "oc_book_id b = no_BookID occurrence" using b(1) by (auto simp: findOccurrence_def find_Some_iff)
    then have "standsAfter (gs_ledger gs) auditID st1 (retriedOccurrence outcome auditID b)"
      using o by (auto simp: outcomeOf_def standsAfter_def retriedOccurrence_def)
    then show ?thesis using i Some o update_kept [OF ok e b, of outcome "retriedOccurrence outcome auditID"]
      by (auto simp: gs1 outcomeOf_def retriedOccurrence_def occurrenceKey_def)
  qed
qed

lemma skip_kept:
  assumes ok: "recurringOk gs" and w: "repo_SkipRecurringOccurrence revision occurrence expected audit gs = Inr gs'"
  shows "recurringOk gs' \<and> recurringLater gs gs'"
proof -
  from w obtain gs1 auditID where g: "guardRecurringOccurrence gs occurrence expected = Inr ()" and d: "auditRecurring audit gs = Inr (gs1, auditID)"
    and i: "(if expected = None then insertOccurrence (occurrence\<lparr> no_Status := ''skipped'', no_TransactionID := None, no_ErrorSummary := [] \<rparr>) (Some auditID) gs1
      else Inr (updateOccurrence occurrence (skippedOccurrence occurrence auditID) gs1)) = Inr gs'"
    by (auto simp: repo_SkipRecurringOccurrence_def result_simps simp del: if_split)
  obtain st1 where gs1: "gs1 = gs\<lparr> gs_ledger := st1 \<rparr>" and e: "eventAfter (gs_ledger gs) auditID st1"
    by (rule auditRecurring_Inr [OF recurringOk_parts(1) [OF ok] d])
  show ?thesis
  proof (cases expected)
    case None
    then show ?thesis using i by (intro insert_kept [OF ok e]) (simp_all add: gs1 standsAfter_def fateOf_def newOccurrence_def)
  next
    case (Some a)
    then obtain b where b: "findOccurrence gs (no_BookID occurrence) (no_TemplateID occurrence) (no_OccurrenceDate occurrence) = Some b" "oc_status b = ''blocked''"
      using g by (auto simp: guardRecurringOccurrence_def result_simps split: option.splits)
    have "b \<in> set (occurrencesIn gs)" using b(1) by (auto simp: findOccurrence_def find_Some_iff)
    then have "oc_transaction_id b = None"
      using occurrencesOk_parts(3) [OF recurringOk_parts(2) [OF ok]] b(2) by (fastforce simp: occurrencesIn_def occurrenceOk_def)
    then have "standsAfter (gs_ledger gs) auditID st1 (skippedOccurrence occurrence auditID b)" by (simp add: standsAfter_def fateOf_def skippedOccurrence_def)
    then show ?thesis using i Some update_kept [OF ok e b, of occurrence "skippedOccurrence occurrence auditID"]
      by (auto simp: gs1 skippedOccurrence_def occurrenceKey_def)
  qed
qed

text \<open>Writes of templates leave the occurrences.\<close>

lemma templates_kept:
  assumes ok: "recurringOk gs" and e: "storeOk st1" "balancesKept (gs_ledger gs) st1" "steady (gs_ledger gs) st1"
    and ts: "distinct (map tm_id ts)" "\<forall>r1\<in>set (gs_templates gs). \<exists>r2\<in>set ts. laterTemplate r1 r2"
  shows "recurringOk (gs\<lparr> gs_ledger := st1, gs_templates := ts \<rparr>) \<and> recurringLater gs (gs\<lparr> gs_ledger := st1, gs_templates := ts \<rparr>)"
  using ledger_kept_recurring [OF ok e] ts by (simp add: recurringOk_def recurringLater_def occurrencesIn_def)

lemma updated_templates_kept:
  assumes ok: "recurringOk gs" and e: "storeOk st1" "balancesKept (gs_ledger gs) st1" "steady (gs_ledger gs) st1"
    and f: "\<And>r. r \<in> set (gs_templates gs) \<Longrightarrow> tm_book_id r = b \<Longrightarrow> tm_id r = t \<Longrightarrow> laterTemplate r (f r)"
  shows "recurringOk (gs\<lparr> gs_ledger := st1, gs_templates := updateTemplate b t f (gs_templates gs) \<rparr>) \<and>
    recurringLater gs (gs\<lparr> gs_ledger := st1, gs_templates := updateTemplate b t f (gs_templates gs) \<rparr>)"
proof (rule templates_kept [OF ok e])
  define g where "g r = (if tm_book_id r = b \<and> tm_id r = t then f r else r)" for r
  have u: "updateTemplate b t f (gs_templates gs) = map g (gs_templates gs)" by (simp add: updateTemplate_def g_def)
  have later: "laterTemplate r (g r)" if "r \<in> set (gs_templates gs)" for r using f [OF that] by (simp add: g_def)
  then show "\<forall>r1\<in>set (gs_templates gs). \<exists>r2\<in>set (updateTemplate b t f (gs_templates gs)). laterTemplate r1 r2"
    unfolding u by (rule templates_mapped)
  have "map tm_id (updateTemplate b t f (gs_templates gs)) = map tm_id (gs_templates gs)" using later by (simp add: u laterTemplate_def)
  then show "distinct (map tm_id (updateTemplate b t f (gs_templates gs)))" using recurringOk_parts(3) [OF ok] by simp
qed

lemma children_row:
  "replaceRecurringTemplateChildren spec others row = Inr row' \<Longrightarrow>
    tm_id row' = tm_id row \<and> tm_book_id row' = tm_book_id row \<and> tm_revision row' = tm_revision row \<and> tm_archived_at row' = tm_archived_at row"
  by (auto simp: replaceRecurringTemplateChildren_def Let_def result_simps)

lemma create_template_kept:
  assumes ok: "recurringOk gs" and w: "repo_CreateRecurringTemplate env params gs = Inr (gs', record')"
  shows "recurringOk gs' \<and> recurringLater gs gs'"
proof -
  from w obtain audit gs1 auditID row where a: "auditRecurring audit gs = Inr (gs1, auditID)"
    and r: "replaceRecurringTemplateChildren (nt_Spec params) (gs_templates gs1) (newTemplateRow params (nextAbove (map tm_id (gs_templates gs1)))) = Inr row"
    and gs': "gs' = gs1\<lparr> gs_templates := gs_templates gs1 @ [row] \<rparr>"
    by (auto simp: repo_CreateRecurringTemplate_def Let_def result_simps)
  obtain st1 where gs1: "gs1 = gs\<lparr> gs_ledger := st1 \<rparr>" and e: "eventAfter (gs_ledger gs) auditID st1"
    by (rule auditRecurring_Inr [OF recurringOk_parts(1) [OF ok] a])
  have "tm_id row = nextAbove (map tm_id (gs_templates gs))" using children_row [OF r] by (simp add: newTemplateRow_def Let_def gs1)
  then have "distinct (map tm_id (gs_templates gs @ [row]))" using recurringOk_parts(3) [OF ok] nextAbove_fresh [of "map tm_id (gs_templates gs)"] by simp
  then show ?thesis using templates_kept [OF ok _ _ _ _ templates_same] e by (simp add: gs' gs1 eventAfter_def)
qed

lemma found_template:
  assumes "recurringOk gs" and "requireRecurringTemplate gs b t = Inr row"
  shows "row \<in> set (gs_templates gs)" "tm_book_id row = b" "tm_id row = t" "r \<in> set (gs_templates gs) \<Longrightarrow> tm_id r = t \<Longrightarrow> r = row"
proof -
  show row: "row \<in> set (gs_templates gs)" "tm_book_id row = b" "tm_id row = t"
    using assms(2) by (auto simp: requireRecurringTemplate_def findTemplate_def find_Some_iff split: option.splits)
  show "r \<in> set (gs_templates gs) \<Longrightarrow> tm_id r = t \<Longrightarrow> r = row" using recurringOk_parts(3) [OF assms(1)] row by (simp add: distinct_map inj_on_def)
qed

lemma update_template_kept:
  assumes ok: "recurringOk gs" and w: "repo_UpdateRecurringTemplate env params gs = Inr (gs', record')"
  shows "recurringOk gs' \<and> recurringLater gs gs'"
proof -
  from w obtain row audit gs1 auditID others row' where r: "requireRecurringTemplate gs (et_BookID params) (et_TemplateID params) = Inr row" "tm_archived_at row = None"
    and a: "auditRecurring audit gs = Inr (gs1, auditID)"
    and c: "replaceRecurringTemplateChildren (et_Spec params) others (updatedTemplateRow params row) = Inr row'"
    and gs': "gs' = gs1\<lparr> gs_templates := updateTemplate (et_BookID params) (et_TemplateID params) (\<lambda>_. row') (gs_templates gs1) \<rparr>"
    by (auto simp: repo_UpdateRecurringTemplate_def Let_def result_simps)
  obtain st1 where gs1: "gs1 = gs\<lparr> gs_ledger := st1 \<rparr>" and e: "eventAfter (gs_ledger gs) auditID st1"
    by (rule auditRecurring_Inr [OF recurringOk_parts(1) [OF ok] a])
  have "laterTemplate row row'" using children_row [OF c] r(2) by (simp add: laterTemplate_def updatedTemplateRow_def Let_def)
  then have "laterTemplate x row'" if "x \<in> set (gs_templates gs)" "tm_id x = et_TemplateID params" for x
    using found_template(4) [OF ok r(1) that] by simp
  then show ?thesis using updated_templates_kept [OF ok, of st1 "et_BookID params" "et_TemplateID params" "\<lambda>_. row'"] e
    by (simp add: gs' gs1 eventAfter_def)
qed

lemma archive_template_kept:
  assumes ok: "recurringOk gs" and w: "repo_ArchiveRecurringTemplate env params gs = Inr (gs', record')"
  shows "recurringOk gs' \<and> recurringLater gs gs'"
proof -
  from w obtain row where r: "requireRecurringTemplate gs (at_BookID params) (at_TemplateID params) = Inr row"
    by (auto simp: repo_ArchiveRecurringTemplate_def Let_def result_simps)
  show ?thesis
  proof (cases "tm_archived_at row = None")
    case False
    then show ?thesis using w ok r recurring.kept_refl by (auto simp: repo_ArchiveRecurringTemplate_def result_simps)
  next
    case True
    then obtain audit gs1 auditID where a: "auditRecurring audit gs = Inr (gs1, auditID)"
      and gs': "gs' = gs1\<lparr> gs_templates := updateTemplate (at_BookID params) (at_TemplateID params) (archivedTemplateRow params) (gs_templates gs1) \<rparr>"
      using w r by (auto simp: repo_ArchiveRecurringTemplate_def Let_def result_simps)
    obtain st1 where gs1: "gs1 = gs\<lparr> gs_ledger := st1 \<rparr>" and e: "eventAfter (gs_ledger gs) auditID st1"
      by (rule auditRecurring_Inr [OF recurringOk_parts(1) [OF ok] a])
    have "laterTemplate row (archivedTemplateRow params row)" using True by (simp add: laterTemplate_def archivedTemplateRow_def)
    then have "laterTemplate x (archivedTemplateRow params x)" if "x \<in> set (gs_templates gs)" "tm_id x = at_TemplateID params" for x
      using found_template(4) [OF ok r that] by simp
    then show ?thesis using updated_templates_kept [OF ok, of st1 "at_BookID params" "at_TemplateID params" "archivedTemplateRow params"] e
      by (simp add: gs' gs1 eventAfter_def)
  qed
qed

lemma advance_kept:
  assumes ok: "recurringOk gs" and w: "repo_AdvanceRecurringGeneration b t revision through now gs = Inr gs'"
  shows "recurringOk gs' \<and> recurringLater gs gs'"
proof -
  define f where "f = (\<lambda>row :: templateRow. if tm_generate_from row < through then row\<lparr> tm_generate_from := through, tm_updated_at := now, tm_revision := tm_revision row + 1 \<rparr> else row)"
  from w have gs': "gs' = gs\<lparr> gs_templates := updateTemplate b t f (gs_templates gs) \<rparr>" and
    row: "\<exists>r\<in>set (gs_templates gs). tm_book_id r = b \<and> tm_id r = t \<and> tm_archived_at r = None"
    by (auto simp: repo_AdvanceRecurringGeneration_def guardRecurringGeneration_def result_simps f_def)
  have "tm_archived_at r = None" if "r \<in> set (gs_templates gs)" "tm_id r = t" for r
    using recurringOk_parts(3) [OF ok] row that by (auto simp: distinct_map inj_on_def)
  then have "laterTemplate r (f r)" if "r \<in> set (gs_templates gs)" "tm_id r = t" for r using that by (simp add: f_def laterTemplate_def)
  then show ?thesis using updated_templates_kept [OF ok recurringOk_parts(1) [OF ok] balancesKept_refl steady_refl, of b t f] by (simp add: gs')
qed

end
