(* ===== verification/Recurring_Sweep.thy ===== *)
theory Recurring_Sweep
  imports Recurring_Writes
begin

text \<open>
  The sweep, with other requests committing between any two of its calls to the database. What it needs of the others
  is that each of their commits keeps the invariant and the relation of theory Recurring_Kept, as every write does. What it
  gives: it keeps them too, it counts what it wrote and stops at its budget, and its watermark never passes a date without a row.
\<close>

section \<open>Interference\<close>

definition honours :: "(recurringStore \<Rightarrow> recurringStore) \<Rightarrow> bool" where
  "honours f \<longleftrightarrow> (\<forall>gs. recurringOk gs \<longrightarrow> recurringOk (f gs) \<and> recurringLater gs (f gs))"

definition templateRows :: "int \<Rightarrow> recurringStore \<Rightarrow> templateRow list" where
  "templateRows t gs = filter (\<lambda>row. tm_id row = t) (gs_templates gs)"

definition leavesTemplate :: "int \<Rightarrow> (recurringStore \<Rightarrow> recurringStore) \<Rightarrow> bool" where
  "leavesTemplate t f \<longleftrightarrow> (\<forall>gs. templateRows t (f gs) = templateRows t gs)"

definition hasRow :: "recurringStore \<Rightarrow> int \<Rightarrow> string \<Rightarrow> bool" where
  "hasRow gs t date \<longleftrightarrow> (\<exists>o'\<in>set (occurrencesIn gs). oc_template_id o' = t \<and> oc_occurrence_date o' = date)"

lemma hasRow_later: "recurringLater gs gs' \<Longrightarrow> hasRow gs t date \<Longrightarrow> hasRow gs' t date"
  by (fastforce simp: recurringLater_def hasRow_def laterOccurrence_def occurrenceKey_def)

text \<open>
  What a step of a sweep guarantees when all the others respect the store: it keeps it as well, and a relation between the store it
  found, the store it left and its answer.
\<close>

definition keeps :: "(recurringStore \<Rightarrow> recurringStore) set \<Rightarrow> (sweep, 'e, 'a) action \<Rightarrow> (recurringStore \<Rightarrow> recurringStore \<Rightarrow> ('e, 'a) result \<Rightarrow> bool) \<Rightarrow> bool" where
  "keeps F m P \<longleftrightarrow> (\<forall>gs fs gs' fs' r. recurringOk gs \<longrightarrow> set fs \<subseteq> F \<longrightarrow> m (gs, fs) = ((gs', fs'), r) \<longrightarrow>
     recurringOk gs' \<and> set fs' \<subseteq> F \<and> recurringLater gs gs' \<and> P gs gs' r)"

lemma keepsD: "keeps F m P \<Longrightarrow> recurringOk gs \<Longrightarrow> set fs \<subseteq> F \<Longrightarrow> m (gs, fs) = ((gs', fs'), r) \<Longrightarrow> recurringOk gs' \<and> set fs' \<subseteq> F \<and> recurringLater gs gs' \<and> P gs gs' r"
  unfolding keeps_def by blast

lemma keeps_mono: "keeps F m P \<Longrightarrow> (\<And>g g' r. recurringLater g g' \<Longrightarrow> P g g' r \<Longrightarrow> Q g g' r) \<Longrightarrow> keeps F m Q"
  unfolding keeps_def by blast

lemma keeps_lift: "(\<And>gs. Q gs gs r) \<Longrightarrow> keeps F (liftW r) Q"
  by (simp add: keeps_def result_simps recurring.kept_refl)

lemma keeps_bind:
  assumes m: "keeps F m P" and k: "\<And>a g g'. P g g' (Inr a) \<Longrightarrow> keeps F (k a) (R a)"
    and err: "\<And>g1 g2 e. P g1 g2 (Inl e) \<Longrightarrow> Q g1 g2 (Inl e)"
    and val: "\<And>g1 g2 g3 a r. recurringLater g1 g2 \<Longrightarrow> recurringLater g2 g3 \<Longrightarrow> P g1 g2 (Inr a) \<Longrightarrow> R a g2 g3 r \<Longrightarrow> Q g1 g3 r"
  shows "keeps F (bindW m k) Q"
  unfolding keeps_def
proof (intro allI impI)
  fix gs fs gs' fs' r assume ok: "recurringOk gs" "set fs \<subseteq> F" and b: "bindW m k (gs, fs) = ((gs', fs'), r)"
  obtain g1 fs1 r1 where m1: "m (gs, fs) = ((g1, fs1), r1)" by (metis surj_pair)
  note s1 = keepsD [OF m ok m1]
  show "recurringOk gs' \<and> set fs' \<subseteq> F \<and> recurringLater gs gs' \<and> Q gs gs' r"
  proof (cases r1)
    case (Inl e)
    then show ?thesis using b s1 err by (auto simp: bindW_def m1)
  next
    case (Inr a)
    then have p: "P gs g1 (Inr a)" and b': "k a (g1, fs1) = ((gs', fs'), r)" using s1 b by (auto simp: bindW_def m1)
    have "recurringOk g1" "set fs1 \<subseteq> F" using s1 by simp_all
    note s2 = keepsD [OF k [OF p] this b']
    have "recurringLater gs gs'" using s1 s2 recurring.kept_trans by blast
    moreover have "recurringLater gs g1" "recurringLater g1 gs'" using s1 s2 by simp_all
    ultimately show ?thesis using s2 val [OF _ _ p] by blast
  qed
qed

lemma othersFirst_keeps:
  assumes F: "F \<subseteq> Collect honours" and ok: "recurringOk gs" "set fs \<subseteq> F" and w: "othersFirst (gs, fs) = (g1, fs1)"
  shows "recurringOk g1" "set fs1 \<subseteq> F" "recurringLater gs g1" "F \<subseteq> Collect (leavesTemplate t) \<Longrightarrow> templateRows t g1 = templateRows t gs"
    "F = {} \<Longrightarrow> g1 = gs"
proof -
  have "recurringOk g1 \<and> set fs1 \<subseteq> F \<and> recurringLater gs g1 \<and> (F \<subseteq> Collect (leavesTemplate t) \<longrightarrow> templateRows t g1 = templateRows t gs) \<and> (F = {} \<longrightarrow> g1 = gs)"
  proof (cases fs)
    case Nil
    then show ?thesis using w ok recurring.kept_refl by (simp add: othersFirst_def)
  next
    case (Cons f fs2)
    then have f: "f \<in> F" "g1 = f gs" "fs1 = fs2" using w ok by (auto simp: othersFirst_def)
    have "honours f" using F f(1) by blast
    then have "recurringOk g1 \<and> recurringLater gs g1" using ok(1) by (simp add: honours_def f)
    moreover have "F \<subseteq> Collect (leavesTemplate t) \<Longrightarrow> templateRows t g1 = templateRows t gs" using f by (auto simp: leavesTemplate_def)
    ultimately show ?thesis using ok(2) f(1) by (auto simp: Cons f(3))
  qed
  then show "recurringOk g1" "set fs1 \<subseteq> F" "recurringLater gs g1" "F \<subseteq> Collect (leavesTemplate t) \<Longrightarrow> templateRows t g1 = templateRows t gs"
    "F = {} \<Longrightarrow> g1 = gs" by simp_all
qed

text \<open>What is the same in two stores when nobody else interferes with a template, or nobody at all.\<close>

definition undisturbed :: "(recurringStore \<Rightarrow> recurringStore) set \<Rightarrow> int \<Rightarrow> recurringStore \<Rightarrow> recurringStore \<Rightarrow> bool" where
  "undisturbed F t gs gs' \<longleftrightarrow> (F \<subseteq> Collect (leavesTemplate t) \<longrightarrow> templateRows t gs' = templateRows t gs)"

lemma undisturbed_refl [simp]: "undisturbed F t gs gs"
  by (simp add: undisturbed_def)

lemma undisturbed_trans: "undisturbed F t g1 g2 \<Longrightarrow> undisturbed F t g2 g3 \<Longrightarrow> undisturbed F t g1 g3"
  by (simp add: undisturbed_def)

lemma keeps_read:
  assumes "F \<subseteq> Collect honours"
  shows "keeps F (readW f) (\<lambda>gs gs' r. r = f gs' \<and> undisturbed F t gs gs' \<and> (F = {} \<longrightarrow> gs' = gs))"
  unfolding keeps_def
proof (intro allI impI)
  fix gs fs gs' fs' r assume ok: "recurringOk gs" "set fs \<subseteq> F" and b: "readW f (gs, fs) = ((gs', fs'), r)"
  then have o: "othersFirst (gs, fs) = (gs', fs')" "r = f gs'" by (auto simp: readW_def Let_def)
  show "recurringOk gs' \<and> set fs' \<subseteq> F \<and> recurringLater gs gs' \<and> r = f gs' \<and> undisturbed F t gs gs' \<and> (F = {} \<longrightarrow> gs' = gs)"
    using othersFirst_keeps [OF assms ok o(1)] o(2) by (simp add: undisturbed_def)
qed

text \<open>A commit takes effect on the store as the others have left it, or is refused and leaves it.\<close>

definition committedTo :: "(recurringStore \<Rightarrow> (recurring_refusal, recurringStore) result) \<Rightarrow> recurringStore \<Rightarrow> recurringStore \<Rightarrow> ('e, recurring_refusal option) result \<Rightarrow> bool" where
  "committedTo f g1 gs' r \<longleftrightarrow> (case f g1 of Inl e \<Rightarrow> gs' = g1 \<and> r = Inr (Some e) | Inr g2 \<Rightarrow> gs' = g2 \<and> r = Inr None)"

lemma committedTo_iff:
  "committedTo f g1 gs' r \<longleftrightarrow> (\<exists>e. f g1 = Inl e \<and> gs' = g1 \<and> r = Inr (Some e)) \<or> (f g1 = Inr gs' \<and> r = Inr None)"
  by (cases "f g1") (auto simp: committedTo_def)

lemma keeps_commit:
  assumes F: "F \<subseteq> Collect honours" and f: "\<And>gs gs'. recurringOk gs \<Longrightarrow> f gs = Inr gs' \<Longrightarrow> recurringOk gs' \<and> recurringLater gs gs'"
  shows "keeps F (commitW f) (\<lambda>gs gs' r. \<exists>g1. recurringOk g1 \<and> undisturbed F t gs g1 \<and> (F = {} \<longrightarrow> g1 = gs) \<and> committedTo f g1 gs' r)"
  unfolding keeps_def
proof (intro allI impI)
  fix gs fs gs' fs' and r :: "('e, recurring_refusal option) result"
  assume ok: "recurringOk gs" "set fs \<subseteq> F" and b: "commitW f (gs, fs) = ((gs', fs'), r)"
  obtain g1 fs1 where o: "othersFirst (gs, fs) = (g1, fs1)" by (metis surj_pair)
  have c: "committedTo f g1 gs' r" "fs' = fs1" using b by (auto simp: commitW_def Let_def o committedTo_def split: sum.splits)
  note k = othersFirst_keeps [OF F ok o]
  have "recurringOk gs' \<and> recurringLater g1 gs'"
    using c(1) k(1) f [OF k(1)] recurring.kept_refl [OF k(1)] by (auto simp: committedTo_iff)
  then have "recurringOk gs' \<and> set fs' \<subseteq> F \<and> recurringLater gs gs'" using k(2,3) c(2) recurring.kept_trans by blast
  moreover have "undisturbed F t gs g1" using k(4) by (simp add: undisturbed_def)
  ultimately show "recurringOk gs' \<and> set fs' \<subseteq> F \<and> recurringLater gs gs' \<and> (\<exists>g1. recurringOk g1 \<and> undisturbed F t gs g1 \<and> (F = {} \<longrightarrow> g1 = gs) \<and> committedTo f g1 gs' r)"
    using k(1,5) c(1) by blast
qed

section \<open>One date\<close>

lemma guard_row: "guardRecurringOccurrence gs occurrence None = Inl DBOccurrenceExists \<Longrightarrow> hasRow gs (no_TemplateID occurrence) (no_OccurrenceDate occurrence)"
  by (fastforce simp: guardRecurringOccurrence_def findOccurrence_def find_Some_iff hasRow_def split: option.splits)

lemma guard_errors: "guardRecurringOccurrence gs occurrence expected = Inl e \<Longrightarrow> e = DBOccurrenceExists"
  by (auto simp: guardRecurringOccurrence_def result_simps split: option.splits)

lemma insertOccurrence_cases:
  "insertOccurrence params auditID gs = Inl e \<Longrightarrow> hasRow gs (no_TemplateID params) (no_OccurrenceDate params)"
  "insertOccurrence params auditID gs = Inr gs' \<Longrightarrow> hasRow gs' (no_TemplateID params) (no_OccurrenceDate params) \<and> gs_templates gs' = gs_templates gs \<and>
    length (occurrencesIn gs') = Suc (length (occurrencesIn gs))"
  by (auto simp: insertOccurrence_def bindR_Inl_iff result_simps hasRow_def occurrencesIn_def newOccurrence_def)

lemma draftOf_frame:
  assumes "draftOf occurrence draft audit gs = Inr (gs1, outcome, auditID)"
  shows "gs_templates gs1 = gs_templates gs" "occurrencesIn gs1 = occurrencesIn gs" "no_TemplateID outcome = no_TemplateID occurrence"
    "no_OccurrenceDate outcome = no_OccurrenceDate occurrence"
proof -
  have "gs_templates gs1 = gs_templates gs \<and> steady (gs_ledger gs) (gs_ledger gs1) \<and> no_TemplateID outcome = no_TemplateID occurrence \<and>
      no_OccurrenceDate outcome = no_OccurrenceDate occurrence"
    using assms by (auto simp: draftOf_def auditRecurring_def result_simps split: option.splits dest: createWithAudit_steady audit_steady(1))
  then show "gs_templates gs1 = gs_templates gs" "occurrencesIn gs1 = occurrencesIn gs" "no_TemplateID outcome = no_TemplateID occurrence"
    "no_OccurrenceDate outcome = no_OccurrenceDate occurrence" by (simp_all add: occurrencesIn_def steady_def)
qed

lemma mapErr_Inl_iff: "mapErr g m = Inl e \<longleftrightarrow> (\<exists>e'. m = Inl e' \<and> e = g e')"
  by (cases m) auto

lemma draftOf_error: "draftOf occurrence draft audit gs \<noteq> Inl DBOccurrenceExists" "draftOf occurrence draft audit gs \<noteq> Inl DBTemplateConflict"
  by (auto simp: draftOf_def auditRecurring_def bindR_Inl_iff mapErr_Inl_iff ensure_Inl_iff split: option.splits)

text \<open>A claim that is committed, or refused because the date is taken, leaves a row for the date.\<close>

lemma materialize_row:
  assumes "repo_MaterializeRecurringOccurrence revision occurrence draft audit gs = Inr gs'"
  shows "hasRow gs' (no_TemplateID occurrence) (no_OccurrenceDate occurrence)" "gs_templates gs' = gs_templates gs"
    "length (occurrencesIn gs') = Suc (length (occurrencesIn gs))"
proof -
  from assms obtain gs1 outcome auditID where d: "draftOf occurrence draft audit gs = Inr (gs1, outcome, auditID)" and i: "insertOccurrence outcome (Some auditID) gs1 = Inr gs'"
    by (auto simp: repo_MaterializeRecurringOccurrence_def materializeRecurringOccurrence_def result_simps)
  show "hasRow gs' (no_TemplateID occurrence) (no_OccurrenceDate occurrence)" "gs_templates gs' = gs_templates gs" "length (occurrencesIn gs') = Suc (length (occurrencesIn gs))"
    using insertOccurrence_cases(2) [OF i] draftOf_frame [OF d] by simp_all
qed

lemma materialize_taken:
  assumes "repo_MaterializeRecurringOccurrence revision occurrence draft audit gs = Inl DBOccurrenceExists"
  shows "hasRow gs (no_TemplateID occurrence) (no_OccurrenceDate occurrence)"
proof -
  from assms have "guardRecurringOccurrence gs occurrence None = Inl DBOccurrenceExists \<or>
      (\<exists>gs1 outcome auditID. draftOf occurrence draft audit gs = Inr (gs1, outcome, auditID) \<and> insertOccurrence outcome (Some auditID) gs1 = Inl DBOccurrenceExists)"
    using draftOf_error(1) [of occurrence draft audit gs]
    by (auto simp: repo_MaterializeRecurringOccurrence_def materializeRecurringOccurrence_def guardRecurringGeneration_def bindR_Inl_iff ensure_Inl_iff)
  then show ?thesis
  proof (elim disjE exE conjE)
    assume "guardRecurringOccurrence gs occurrence None = Inl DBOccurrenceExists" then show ?thesis by (rule guard_row)
  next
    fix gs1 outcome auditID assume d: "draftOf occurrence draft audit gs = Inr (gs1, outcome, auditID)" and i: "insertOccurrence outcome (Some auditID) gs1 = Inl DBOccurrenceExists"
    show ?thesis using insertOccurrence_cases(1) [OF i] draftOf_frame [OF d] by (simp add: hasRow_def)
  qed
qed

text \<open>What one date leaves behind, and the row that is written when nobody interferes.\<close>

definition dateDone :: "(recurringStore \<Rightarrow> recurringStore) set \<Rightarrow> int \<Rightarrow> RecurringTemplate \<Rightarrow> string \<Rightarrow> recurringStore \<Rightarrow> recurringStore
    \<Rightarrow> (recurring_error, bool \<times> recurring_refusal option) result \<Rightarrow> bool" where
  "dateDone F t template date gs gs' r \<longleftrightarrow> undisturbed F t gs gs' \<and>
     (\<forall>blocked refused. r = Inr (blocked, refused) \<longrightarrow>
        (refused = None \<or> refused = Some DBOccurrenceExists \<longrightarrow> hasRow gs' (rtm_ID template) date) \<and>
        (F = {} \<longrightarrow> length (occurrencesIn gs') = length (occurrencesIn gs) + (if refused = None then 1 else 0)))"

lemma materializeOccurrence_keeps:
  assumes F: "F \<subseteq> Collect honours"
  shows "keeps F (materializeOccurrence env message now input template date) (dateDone F t template date)"
  unfolding materializeOccurrence_def
proof (rule keeps_bind [OF keeps_read [OF F, where t = t]])
  let ?f = "\<lambda>(occurrence, draft, audit). repo_MaterializeRecurringOccurrence (rtm_Revision template) occurrence draft audit"
  let ?k = "\<lambda>(occurrence, draft, audit). bindW (commitW (repo_MaterializeRecurringOccurrence (rtm_Revision template) occurrence draft audit))
      (\<lambda>refused. liftW (Inr (draft = None, refused)))"
  fix a g g' assume "Inr a = prepareOccurrence env message now False g' input template date \<and> undisturbed F t g g' \<and> (F = {} \<longrightarrow> g' = g)"
  then obtain occurrence draft audit where a: "a = (occurrence, draft, audit)"
    and p: "prepareOccurrence env message now False g' input template date = Inr (occurrence, draft, audit)" by (cases a) auto
  note pr = prepareOccurrence_Inr [OF p]
  have f: "recurringOk gs' \<and> recurringLater gs gs'" if "recurringOk gs" "repo_MaterializeRecurringOccurrence (rtm_Revision template) occurrence draft audit gs = Inr gs'" for gs gs'
    by (rule materialize_kept [OF that(1) _ that(2) [unfolded repo_MaterializeRecurringOccurrence_def]]) (rule pr(4))
  have "keeps F (bindW (commitW (repo_MaterializeRecurringOccurrence (rtm_Revision template) occurrence draft audit)) (\<lambda>refused. liftW (Inr (draft = None, refused))))
      (dateDone F t template date)"
  proof (rule keeps_bind [OF keeps_commit [OF F f, where t = t], where R = "\<lambda>refused gs gs' r. gs' = gs \<and> r = Inr (draft = None, refused)"])
    fix gs gs' e assume "\<exists>g1. recurringOk g1 \<and> undisturbed F t gs g1 \<and> (F = {} \<longrightarrow> g1 = gs) \<and>
      committedTo (repo_MaterializeRecurringOccurrence (rtm_Revision template) occurrence draft audit) g1 gs' (Inl e :: (recurring_error, recurring_refusal option) result)"
    then show "dateDone F t template date gs gs' (Inl e)" by (auto simp: committedTo_iff)
  next
    fix gs gs' gs'' refused and r :: "(recurring_error, bool \<times> recurring_refusal option) result"
    assume "\<exists>g1. recurringOk g1 \<and> undisturbed F t gs g1 \<and> (F = {} \<longrightarrow> g1 = gs) \<and>
        committedTo (repo_MaterializeRecurringOccurrence (rtm_Revision template) occurrence draft audit) g1 gs' (Inr refused :: (recurring_error, recurring_refusal option) result)"
      and r: "gs'' = gs' \<and> r = Inr (draft = None, refused)"
    then obtain g1 where g1: "undisturbed F t gs g1" "F = {} \<longrightarrow> g1 = gs"
      and c: "committedTo (repo_MaterializeRecurringOccurrence (rtm_Revision template) occurrence draft audit) g1 gs' (Inr refused :: (recurring_error, recurring_refusal option) result)"
      by blast
    have "templateRows t gs' = templateRows t g1" using c materialize_row(2) by (fastforce simp: committedTo_iff templateRows_def)
    moreover have "hasRow gs' (rtm_ID template) date" if "refused = None \<or> refused = Some DBOccurrenceExists"
      
      using c that materialize_row(1) [of "rtm_Revision template" occurrence draft audit g1 gs'] materialize_taken [of "rtm_Revision template" occurrence draft audit g1]
      unfolding committedTo_iff pr(2,3) by auto
    moreover have "length (occurrencesIn gs') = length (occurrencesIn g1) + (if refused = None then 1 else 0)"
      
      using c materialize_row(3) [of "rtm_Revision template" occurrence draft audit g1 gs'] unfolding committedTo_iff by auto
    ultimately show "dateDone F t template date gs gs'' r" using g1 r by (auto simp: dateDone_def undisturbed_def)
  qed (assumption | rule keeps_lift conjI refl)+
  then show "keeps F (?k a) (dateDone F t template date)" by (simp add: a)
qed (auto simp: dateDone_def undisturbed_def hasRow_later)

section \<open>The dates of a template\<close>

definition totalDone :: "RecurringGenerationResult \<Rightarrow> nat" where
  "totalDone sofar = gr_Generated sofar + gr_Blocked sofar"

lemma totalDone_counted [simp]: "totalDone (counted blocked sofar) = Suc (totalDone sofar)"
  by (simp add: totalDone_def counted_def)

definition datesDone :: "(recurringStore \<Rightarrow> recurringStore) set \<Rightarrow> int \<Rightarrow> RecurringTemplate \<Rightarrow> (string \<rightharpoonup> string) \<Rightarrow> string list \<Rightarrow> RecurringGenerationResult
    \<Rightarrow> recurringStore \<Rightarrow> recurringStore \<Rightarrow> (recurring_error, dateLoop \<times> RecurringGenerationResult) result \<Rightarrow> bool" where
  "datesDone F t template existing dates sofar gs gs' r \<longleftrightarrow> undisturbed F t gs gs' \<and>
     (\<forall>loop sofar'. r = Inr (loop, sofar') \<longrightarrow> totalDone sofar \<le> totalDone sofar' \<and> totalDone sofar' \<le> max (totalDone sofar) maxOccurrencesPerTick \<and>
        (F = {} \<longrightarrow> length (occurrencesIn gs') + totalDone sofar = length (occurrencesIn gs) + totalDone sofar') \<and>
        (loop = AllHandled \<longrightarrow> (\<forall>d\<in>set dates. existing d \<noteq> None \<longrightarrow> hasRow gs (rtm_ID template) d) \<longrightarrow> (\<forall>d\<in>set dates. hasRow gs' (rtm_ID template) d)))"

lemma datesDone_step:
  assumes later: "recurringLater g2 g3" and one: "dateDone F t template date g1 g2 (Inr (blocked, refused))" and "refused = None \<or> refused = Some DBOccurrenceExists"
    and budget: "totalDone sofar < maxOccurrencesPerTick"
    and rest: "datesDone F t template existing dates (if refused = None then counted blocked sofar else sofar) g2 g3 r" and earlier: "recurringLater g1 g2"
  shows "datesDone F t template existing (date # dates) sofar g1 g3 r"
  unfolding datesDone_def
proof (intro conjI allI impI ballI)
  have "undisturbed F t g1 g2" "undisturbed F t g2 g3" using one rest by (simp_all add: dateDone_def datesDone_def)
  then show "undisturbed F t g1 g3" by (rule undisturbed_trans)
  fix loop sofar' assume r: "r = Inr (loop, sofar')"
  have d: "totalDone (if refused = None then counted blocked sofar else sofar) = totalDone sofar + (if refused = None then 1 else 0)" by simp
  note r' = rest [unfolded datesDone_def r, THEN conjunct2, rule_format, OF refl, unfolded d]
  have l: "F = {} \<longrightarrow> length (occurrencesIn g2) = length (occurrencesIn g1) + (if refused = None then 1 else 0)" using one by (simp add: dateDone_def)
  show "totalDone sofar \<le> totalDone sofar'" "totalDone sofar' \<le> max (totalDone sofar) maxOccurrencesPerTick" using r' budget by auto
  show "length (occurrencesIn g3) + totalDone sofar = length (occurrencesIn g1) + totalDone sofar'" if "F = {}" using r' l that by auto
  show "hasRow g3 (rtm_ID template) d" if "loop = AllHandled" and ex: "\<forall>d\<in>set (date # dates). existing d \<noteq> None \<longrightarrow> hasRow g1 (rtm_ID template) d" and d: "d \<in> set (date # dates)" for d
  proof (cases "d = date")
    case True
    have "hasRow g2 (rtm_ID template) date" using one assms(3) by (auto simp: dateDone_def)
    then show ?thesis using hasRow_later [OF later] True by simp
  next
    case False
    have "\<forall>d\<in>set dates. existing d \<noteq> None \<longrightarrow> hasRow g2 (rtm_ID template) d" using ex hasRow_later [OF earlier] by simp
    then show ?thesis using r' that(1) d False by auto
  qed
qed

lemma generateDates_keeps:
  assumes F: "F \<subseteq> Collect honours"
  shows "keeps F (generateDates env message now input template existing dates sofar) (datesDone F t template existing dates sofar)"
proof (induction dates arbitrary: sofar)
  case Nil
  show ?case unfolding generateDates.simps by (rule keeps_lift) (auto simp: datesDone_def)
next
  case (Cons date dates)
  show ?case
  proof (cases "existing date = None \<and> totalDone sofar < maxOccurrencesPerTick")
    case False
    show ?thesis
    proof (cases "existing date = None")
      case True
      then have "generateDates env message now input template existing (date # dates) sofar = liftW (Inr (BudgetSpent, sofar))"
        using False by (simp add: totalDone_def not_less)
      then show ?thesis by (simp only:) (rule keeps_lift, simp add: datesDone_def)
    next
      case False
      then have "generateDates env message now input template existing (date # dates) sofar = generateDates env message now input template existing dates sofar" by simp
      moreover have "keeps F (generateDates env message now input template existing dates sofar) (datesDone F t template existing (date # dates) sofar)"
        by (rule keeps_mono [OF Cons.IH]) (use False hasRow_later in \<open>auto simp: datesDone_def\<close>)
      ultimately show ?thesis by simp
    qed
  next
    case free: True
    let ?k = "\<lambda>(blocked, refused). if refused = Some DBOccurrenceExists then generateDates env message now input template existing dates sofar
       else if refused = Some DBTemplateConflict then liftW (Inr (TemplateStale, sofar))
       else case refused of Some e \<Rightarrow> liftW (Inl (RepositoryRefused e))
         | None \<Rightarrow> generateDates env message now input template existing dates (counted blocked sofar)"
    let ?R = "\<lambda>(blocked, refused) g g' r. if refused = None \<or> refused = Some DBOccurrenceExists
        then datesDone F t template existing dates (if refused = None then counted blocked sofar else sofar) g g' r
        else g' = g \<and> (\<forall>loop sofar'. r = Inr (loop, sofar') \<longrightarrow> loop \<noteq> AllHandled \<and> sofar' = sofar)"
    have "generateDates env message now input template existing (date # dates) sofar = bindW (materializeOccurrence env message now input template date) ?k"
      using free by (simp add: totalDone_def)
    moreover have "keeps F (bindW (materializeOccurrence env message now input template date) ?k) (datesDone F t template existing (date # dates) sofar)"
    proof (rule keeps_bind [OF materializeOccurrence_keeps [OF F, where t = t], where R = ?R])
      fix a :: "bool \<times> recurring_refusal option" and g g' :: recurringStore
      obtain blocked refused where a: "a = (blocked, refused)" by (cases a)
      show "keeps F (?k a) (?R a)"
      proof (cases "refused = None \<or> refused = Some DBOccurrenceExists")
        case True
        then show ?thesis using Cons.IH [of sofar] Cons.IH [of "counted blocked sofar"] by (auto simp: a)
      next
        case False
        then show ?thesis by (cases "refused = Some DBTemplateConflict") (auto simp: a intro!: keeps_lift split: option.splits)
      qed
    next
      fix g1 g2 e assume "dateDone F t template date g1 g2 (Inl e)"
      then show "datesDone F t template existing (date # dates) sofar g1 g2 (Inl e)" by (simp add: dateDone_def datesDone_def)
    next
      fix g1 g2 g3 a r assume earlier: "recurringLater g1 g2" and later: "recurringLater g2 g3" and one: "dateDone F t template date g1 g2 (Inr a)" and rest: "?R a g2 g3 r"
      obtain blocked refused where a: "a = (blocked, refused)" by (cases a)
      show "datesDone F t template existing (date # dates) sofar g1 g3 r"
      proof (cases "refused = None \<or> refused = Some DBOccurrenceExists")
        case True
        then show ?thesis using datesDone_step [OF later one [unfolded a] True _ _ earlier] rest free by (simp add: a)
      next
        case False
        have "undisturbed F t g1 g2" "F = {} \<longrightarrow> length (occurrencesIn g2) = length (occurrencesIn g1)"
          using one False by (auto simp: a dateDone_def)
        then show ?thesis using rest False by (auto simp: a datesDone_def)
      qed
    qed
    ultimately show ?thesis by simp
  qed
qed

section \<open>One template\<close>

text \<open>Advancing the watermark changes the row of the one template, which must still be at the revision that was read.\<close>

definition advancedRow :: "string \<Rightarrow> string \<Rightarrow> templateRow \<Rightarrow> templateRow" where
  "advancedRow through now row = (if tm_generate_from row < through
     then row\<lparr> tm_generate_from := through, tm_updated_at := now, tm_revision := tm_revision row + 1 \<rparr> else row)"

lemma advancedRow_id [simp]: "tm_id (advancedRow through now row) = tm_id row"
  by (simp add: advancedRow_def)

lemma filter_one: "distinct (map f xs) \<Longrightarrow> x \<in> set xs \<Longrightarrow> filter (\<lambda>y. f y = f x) xs = [x]"
proof (induction xs)
  case (Cons y ys)
  show ?case
  proof (cases "x = y")
    case True
    then show ?thesis using Cons.prems(1) by (auto simp: filter_empty_conv image_iff)
  next
    case False
    then have "f y \<noteq> f x" "x \<in> set ys" using Cons.prems by auto
    then show ?thesis using Cons by simp
  qed
qed simp

lemma one_row: "recurringOk gs \<Longrightarrow> row \<in> set (gs_templates gs) \<Longrightarrow> templateRows (tm_id row) gs = [row]"
  unfolding templateRows_def by (rule filter_one [OF recurringOk_parts(3)])

lemma advance_rows:
  assumes ok: "recurringOk gs" and w: "repo_AdvanceRecurringGeneration b t revision through now gs = Inr gs'"
  shows "\<exists>row. templateRows t gs = [row] \<and> tm_revision row = revision \<and> templateRows t gs' = [advancedRow through now row]"
    "t' \<noteq> t \<Longrightarrow> templateRows t' gs' = templateRows t' gs" "occurrencesIn gs' = occurrencesIn gs"
proof -
  from w obtain row where row: "row \<in> set (gs_templates gs)" "tm_book_id row = b" "tm_id row = t" "tm_revision row = revision"
    and gs': "gs' = gs\<lparr> gs_templates := updateTemplate b t (\<lambda>row. if tm_generate_from row < through
        then row\<lparr> tm_generate_from := through, tm_updated_at := now, tm_revision := tm_revision row + 1 \<rparr> else row) (gs_templates gs) \<rparr>"
    by (auto simp: repo_AdvanceRecurringGeneration_def guardRecurringGeneration_def result_simps)
  define g where "g r = (if tm_book_id r = b \<and> tm_id r = t then advancedRow through now r else r)" for r
  have g: "gs_templates gs' = map g (gs_templates gs)" by (simp add: gs' updateTemplate_def g_def advancedRow_def)
  have "tm_id (g r) = tm_id r" for r by (simp add: g_def)
  then have rows: "templateRows t' gs' = map g (templateRows t' gs)" for t' by (simp add: templateRows_def g filter_map o_def)
  have "templateRows t gs = [row]" using one_row [OF ok row(1)] row(3) by simp
  then show "\<exists>row. templateRows t gs = [row] \<and> tm_revision row = revision \<and> templateRows t gs' = [advancedRow through now row]"
    using row by (simp add: rows g_def)
  show "t' \<noteq> t \<Longrightarrow> templateRows t' gs' = templateRows t' gs" unfolding rows by (rule map_idI) (simp add: templateRows_def g_def)
  show "occurrencesIn gs' = occurrencesIn gs" by (simp add: gs' occurrencesIn_def)
qed

text \<open>
  What the sweep of a template leaves of it: its row as it was, or the row with the next watermark, and then every date of the
  window has a row.
\<close>

definition sweptTo :: "string \<Rightarrow> time \<Rightarrow> RecurringTemplate \<Rightarrow> recurringStore \<Rightarrow> recurringStore \<Rightarrow> bool" where
  "sweptTo now localDate template gs gs' \<longleftrightarrow> (\<exists>end0 dates row. sweepWindow localDate (rtm_Spec template) = Inr (Some end0) \<and>
     enumerateDates (recurringSchedule (rtm_Spec template)) (rt_GenerateFrom (rtm_Spec template)) (formatDateOnly end0) = Inr dates \<and>
     (\<forall>d\<in>set dates. hasRow gs' (rtm_ID template) d) \<and> templateRows (rtm_ID template) gs = [row] \<and> tm_revision row = rtm_Revision template \<and>
     templateRows (rtm_ID template) gs' = [advancedRow (nextWatermark end0) now row])"

definition templateSwept :: "(recurringStore \<Rightarrow> recurringStore) set \<Rightarrow> int \<Rightarrow> string \<Rightarrow> time \<Rightarrow> RecurringTemplate \<Rightarrow> RecurringGenerationResult \<Rightarrow> recurringStore \<Rightarrow> recurringStore
    \<Rightarrow> (recurring_error, bool \<times> RecurringGenerationResult) result \<Rightarrow> bool" where
  "templateSwept F t now localDate template sofar gs gs' r \<longleftrightarrow>
     (F \<subseteq> Collect (leavesTemplate t) \<longrightarrow> templateRows t gs' = templateRows t gs \<or> (rtm_ID template = t \<and> sweptTo now localDate template gs gs')) \<and>
     (\<forall>goesOn sofar'. r = Inr (goesOn, sofar') \<longrightarrow> totalDone sofar \<le> totalDone sofar' \<and> totalDone sofar' \<le> max (totalDone sofar) maxOccurrencesPerTick \<and>
        (F = {} \<longrightarrow> length (occurrencesIn gs') + totalDone sofar = length (occurrencesIn gs) + totalDone sofar'))"

lemma templateSwept_still: "templateSwept F t now localDate template sofar gs gs (Inr (goesOn, sofar))" "templateSwept F t now localDate template sofar gs gs (Inl e)"
  by (simp_all add: templateSwept_def)

lemma bindW_liftW_Inl [simp]: "bindW (liftW (Inl e)) f = liftW (Inl e)"
  by (rule ext) (simp add: bindW_def liftW_def)

lemma advanceWatermark_keeps:
  assumes F: "F \<subseteq> Collect honours"
  shows "keeps F (advanceWatermark now template end0) (\<lambda>gs gs' r. \<exists>g1. recurringOk g1 \<and> undisturbed F t gs g1 \<and> (F = {} \<longrightarrow> g1 = gs) \<and>
    (gs' = g1 \<or> repo_AdvanceRecurringGeneration BookID (rtm_ID template) (rtm_Revision template) (nextWatermark end0) now g1 = Inr gs'))"
  unfolding advanceWatermark_def
proof (rule keeps_bind [OF keeps_commit [OF F, where t = t], where R = "\<lambda>_ gs gs' r. gs' = gs"])
  show "recurringOk gs' \<and> recurringLater gs gs'" if "recurringOk gs"
      "repo_AdvanceRecurringGeneration BookID (rtm_ID template) (rtm_Revision template) (nextWatermark end0) now gs = Inr gs'" for gs gs'
    using advance_kept that by blast
  show "keeps F (case refused of Some e \<Rightarrow> liftW (if e = DBTemplateConflict then Inr () else Inl (RepositoryRefused e)) | None \<Rightarrow> liftW (Inr ())) (\<lambda>gs gs' r. gs' = gs)" for refused
    by (cases refused) (simp_all add: keeps_lift)
qed (auto simp: committedTo_iff)

lemma advanced_template:
  assumes g1: "recurringOk g1" "undisturbed F t gs g1" and w: "repo_AdvanceRecurringGeneration BookID (rtm_ID template) (rtm_Revision template) (nextWatermark end0) now g1 = Inr gs'"
    and window: "sweepWindow localDate (rtm_Spec template) = Inr (Some end0)"
    and dates: "enumerateDates (recurringSchedule (rtm_Spec template)) (rt_GenerateFrom (rtm_Spec template)) (formatDateOnly end0) = Inr dates"
    and rows: "\<forall>d\<in>set dates. hasRow gs' (rtm_ID template) d" and F: "F \<subseteq> Collect (leavesTemplate t)"
  shows "templateRows t gs' = templateRows t gs \<or> (rtm_ID template = t \<and> sweptTo now localDate template gs gs')"
proof (cases "rtm_ID template = t")
  case True
  have u: "templateRows t g1 = templateRows t gs" using g1(2) F by (simp add: undisturbed_def)
  obtain row where "templateRows t g1 = [row]" "tm_revision row = rtm_Revision template" "templateRows t gs' = [advancedRow (nextWatermark end0) now row]"
    using advance_rows(1) [OF g1(1) w] True by auto
  then have "sweptTo now localDate template gs gs'" using window dates rows u True unfolding sweptTo_def by auto
  then show ?thesis using True by simp
next
  case False
  then show ?thesis using advance_rows(2) [OF g1(1) w, of t] g1(2) F by (simp add: undisturbed_def)
qed

text \<open>The end of a template's turn, after the loop over its dates.\<close>

definition turnEnds :: "(recurringStore \<Rightarrow> recurringStore) set \<Rightarrow> int \<Rightarrow> string \<Rightarrow> RecurringTemplate \<Rightarrow> time \<Rightarrow> dateLoop \<times> RecurringGenerationResult \<Rightarrow> recurringStore \<Rightarrow> recurringStore
    \<Rightarrow> (recurring_error, bool \<times> RecurringGenerationResult) result \<Rightarrow> bool" where
  "turnEnds F t now template end0 a g g' r \<longleftrightarrow> (undisturbed F t g g' \<and> (F = {} \<longrightarrow> g' = g) \<or> fst a = AllHandled \<and> (\<exists>g1. recurringOk g1 \<and> undisturbed F t g g1 \<and> (F = {} \<longrightarrow> g1 = g) \<and>
       repo_AdvanceRecurringGeneration BookID (rtm_ID template) (rtm_Revision template) (nextWatermark end0) now g1 = Inr g')) \<and>
     (\<forall>goesOn sofar'. r = Inr (goesOn, sofar') \<longrightarrow> sofar' = snd a)"

lemma turn_keeps:
  assumes F: "F \<subseteq> Collect honours"
  shows "keeps F (case a of (loop, sofar') \<Rightarrow> case loop of BudgetSpent \<Rightarrow> liftW (Inr (False, sofar')) | TemplateStale \<Rightarrow> liftW (Inr (True, sofar'))
      | AllHandled \<Rightarrow> bindW (advanceWatermark now template end0) (\<lambda>_. liftW (Inr (True, sofar')))) (turnEnds F t now template end0 a)"
proof -
  obtain loop sofar' where a: "a = (loop, sofar')" by (cases a)
  show ?thesis
  proof (cases loop)
    case AllHandled
    have "keeps F (bindW (advanceWatermark now template end0) (\<lambda>_. liftW (Inr (True, sofar')))) (turnEnds F t now template end0 (AllHandled, sofar'))"
      by (rule keeps_bind [OF advanceWatermark_keeps [OF F, where t = t], where R = "\<lambda>_ gs gs' r. gs' = gs \<and> r = Inr (True, sofar')"])
        (auto simp: turnEnds_def intro: keeps_lift)
    then show ?thesis by (simp add: a AllHandled)
  qed (simp_all add: a keeps_lift turnEnds_def)
qed

lemma turn_swept:
  assumes later: "recurringLater g2 g3" and dd: "datesDone F t template existing dates sofar g1 g2 (Inr a)" and te: "turnEnds F t now template end0 a g2 g3 r"
    and window: "sweepWindow localDate (rtm_Spec template) = Inr (Some end0)"
    and dates: "enumerateDates (recurringSchedule (rtm_Spec template)) (rt_GenerateFrom (rtm_Spec template)) (formatDateOnly end0) = Inr dates"
    and ex: "\<forall>d. existing d \<noteq> None \<longrightarrow> hasRow g1 (rtm_ID template) d"
  shows "templateSwept F t now localDate template sofar g1 g3 r"
proof -
  obtain loop sofar' where a: "a = (loop, sofar')" by (cases a)
  note dd' = dd [unfolded datesDone_def a]
  have u: "undisturbed F t g1 g2" using dd' by blast
  have len: "F = {} \<Longrightarrow> length (occurrencesIn g3) = length (occurrencesIn g2)" using te advance_rows(3) unfolding turnEnds_def by metis
  have counts: "totalDone sofar \<le> totalDone sofar'" "totalDone sofar' \<le> max (totalDone sofar) maxOccurrencesPerTick"
    "F = {} \<longrightarrow> length (occurrencesIn g2) + totalDone sofar = length (occurrencesIn g1) + totalDone sofar'" using dd' by blast+
  have "templateRows t g3 = templateRows t g1 \<or> (rtm_ID template = t \<and> sweptTo now localDate template g1 g3)" if leaves: "F \<subseteq> Collect (leavesTemplate t)"
  proof -
    consider "undisturbed F t g2 g3" | g where "loop = AllHandled" "recurringOk g" "undisturbed F t g2 g"
        "repo_AdvanceRecurringGeneration BookID (rtm_ID template) (rtm_Revision template) (nextWatermark end0) now g = Inr g3"
      using te unfolding turnEnds_def a by auto
    then show ?thesis
    proof cases
      case 1
      then show ?thesis using u leaves by (simp add: undisturbed_def)
    next
      case 2
      have "\<forall>d\<in>set dates. hasRow g2 (rtm_ID template) d" using dd' 2(1) ex by blast
      then show ?thesis using advanced_template [OF 2(2) undisturbed_trans [OF u 2(3)] 2(4) window dates _ leaves] hasRow_later [OF later] by blast
    qed
  qed
  moreover have "sofar'' = sofar'" if "r = Inr (goesOn, sofar'')" for goesOn sofar'' using te that by (simp add: turnEnds_def a)
  ultimately show ?thesis using counts len unfolding templateSwept_def by auto
qed

lemma sweptTo_start: "templateRows (rtm_ID template) g2 = templateRows (rtm_ID template) g1 \<Longrightarrow> sweptTo now localDate template g2 g3 = sweptTo now localDate template g1 g3"
  by (simp add: sweptTo_def)

lemma templateSwept_start:
  assumes "undisturbed F t g1 g2" and "F = {} \<longrightarrow> g2 = g1" and "templateSwept F t now localDate template sofar g2 g3 r"
  shows "templateSwept F t now localDate template sofar g1 g3 r"
  using assms sweptTo_start [of template g2 g1 now localDate g3] unfolding templateSwept_def undisturbed_def by auto

lemma existing_rows: "RecurringOccurrenceDates gs b t from to d \<noteq> None \<Longrightarrow> hasRow gs t d"
  by (auto simp: RecurringOccurrenceDates_def occurrencesOf_def hasRow_def dest!: map_of_SomeD)

lemma sweepTemplate_keeps:
  assumes F: "F \<subseteq> Collect honours"
  shows "keeps F (sweepTemplate env message now localDate input template sofar) (templateSwept F t now localDate template sofar)"
proof -
  let ?Q = "templateSwept F t now localDate template sofar" and ?T = "rtm_ID template" and ?spec = "rtm_Spec template"
  let ?dates = "\<lambda>end0. enumerateDates (recurringSchedule ?spec) (rt_GenerateFrom ?spec) (formatDateOnly end0)"
  consider "\<exists>r. sweepTemplate env message now localDate input template sofar = liftW r \<and> (\<forall>goesOn sofar'. r = Inr (goesOn, sofar') \<longrightarrow> sofar' = sofar)"
    | end0 dates where "rt_Enabled ?spec" "rtm_ArchivedAt template = []" "sweepWindow localDate ?spec = Inr (Some end0)" "?dates end0 = Inr dates"
    by (cases "rt_Enabled ?spec \<and> rtm_ArchivedAt template = []"; cases "sweepWindow localDate ?spec"; cases "projr (sweepWindow localDate ?spec)";
        cases "?dates (the (projr (sweepWindow localDate ?spec)))") (auto simp: sweepTemplate_def Let_def)
  then show ?thesis
  proof cases
    case 1
    then obtain r where "sweepTemplate env message now localDate input template sofar = liftW r" "\<forall>goesOn sofar'. r = Inr (goesOn, sofar') \<longrightarrow> sofar' = sofar" by blast
    then show ?thesis by (simp add: keeps_lift templateSwept_def)
  next
    case (2 end0 dates)
    let ?finish = "\<lambda>(loop, sofar'). case loop of BudgetSpent \<Rightarrow> liftW (Inr (False, sofar')) | TemplateStale \<Rightarrow> liftW (Inr (True, sofar'))
        | AllHandled \<Rightarrow> bindW (advanceWatermark now template end0) (\<lambda>_. liftW (Inr (True, sofar')))"
    let ?read = "readW (\<lambda>gs. Inr (RecurringOccurrenceDates gs BookID ?T (rt_GenerateFrom ?spec) (formatDateOnly end0)))"
    let ?gen = "\<lambda>existing. generateDates env message now input template existing dates sofar"
    have s: "sweepTemplate env message now localDate input template sofar = bindW ?read (\<lambda>existing. bindW (?gen existing) ?finish)"
      using 2 by (simp add: sweepTemplate_def Let_def)
    have g: "keeps F (bindW (?gen existing) ?finish) (\<lambda>g g' r. (\<forall>d. existing d \<noteq> None \<longrightarrow> hasRow g ?T d) \<longrightarrow> ?Q g g' r)" for existing
    proof (rule keeps_bind [OF generateDates_keeps [OF F, where t = t] turn_keeps [OF F, where t = t]])
      show "(\<forall>d. existing d \<noteq> None \<longrightarrow> hasRow g1 ?T d) \<longrightarrow> ?Q g1 g2 (Inl e)" if "datesDone F t template existing dates sofar g1 g2 (Inl e)" for g1 g2 e
        using that by (simp add: datesDone_def templateSwept_def undisturbed_def)
    qed (blast intro: turn_swept [OF _ _ _ 2(3,4)])
    show ?thesis unfolding s
    proof (rule keeps_bind [OF keeps_read [OF F, where t = t] g])
      fix g1 g2 g3 existing r
      assume "Inr existing = (Inr (RecurringOccurrenceDates g2 BookID ?T (rt_GenerateFrom ?spec) (formatDateOnly end0)) :: (recurring_error, _) result) \<and>
          undisturbed F t g1 g2 \<and> (F = {} \<longrightarrow> g2 = g1)" and q: "(\<forall>d. existing d \<noteq> None \<longrightarrow> hasRow g2 ?T d) \<longrightarrow> ?Q g2 g3 r"
      then have "\<forall>d. existing d \<noteq> None \<longrightarrow> hasRow g2 ?T d" and u: "undisturbed F t g1 g2" "F = {} \<longrightarrow> g2 = g1" using existing_rows by auto
      then have "?Q g2 g3 r" using q by blast
      then show "?Q g1 g3 r" by (rule templateSwept_start [OF u])
    qed simp
  qed
qed

section \<open>All templates\<close>

definition listSwept :: "(recurringStore \<Rightarrow> recurringStore) set \<Rightarrow> int \<Rightarrow> string \<Rightarrow> time \<Rightarrow> RecurringTemplate list \<Rightarrow> RecurringGenerationResult \<Rightarrow> recurringStore \<Rightarrow> recurringStore
    \<Rightarrow> (recurring_error, RecurringGenerationResult) result \<Rightarrow> bool" where
  "listSwept F t now localDate templates sofar gs gs' r \<longleftrightarrow>
     (F \<subseteq> Collect (leavesTemplate t) \<longrightarrow> distinct (map rtm_ID templates) \<longrightarrow> templateRows t gs' = templateRows t gs \<or> (\<exists>template\<in>set templates. rtm_ID template = t \<and> sweptTo now localDate template gs gs')) \<and>
     (\<forall>sofar'. r = Inr sofar' \<longrightarrow> totalDone sofar \<le> totalDone sofar' \<and> totalDone sofar' \<le> max (totalDone sofar) maxOccurrencesPerTick \<and>
        (F = {} \<longrightarrow> length (occurrencesIn gs') + totalDone sofar = length (occurrencesIn gs) + totalDone sofar'))"

lemma sweptTo_end:
  "sweptTo now localDate template g1 g2 \<Longrightarrow> recurringLater g2 g3 \<Longrightarrow> templateRows (rtm_ID template) g3 = templateRows (rtm_ID template) g2 \<Longrightarrow>
    sweptTo now localDate template g1 g3"
  unfolding sweptTo_def using hasRow_later by (elim exE conjE, intro exI conjI) auto

lemma listSwept_step:
  assumes later: "recurringLater g2 g3" and one: "templateSwept F t now localDate template sofar g1 g2 (Inr (goesOn, sofar1))"
    and rest: "listSwept F t now localDate templates sofar1 g2 g3 r"
  shows "listSwept F t now localDate (template # templates) sofar g1 g3 r"
  unfolding listSwept_def
proof (intro conjI impI allI)
  note rest' = rest [unfolded listSwept_def]
  assume F: "F \<subseteq> Collect (leavesTemplate t)" and d: "distinct (map rtm_ID (template # templates))"
  have first: "templateRows t g2 = templateRows t g1 \<or> (rtm_ID template = t \<and> sweptTo now localDate template g1 g2)" using one F by (simp add: templateSwept_def)
  have second: "templateRows t g3 = templateRows t g2 \<or> (\<exists>template\<in>set templates. rtm_ID template = t \<and> sweptTo now localDate template g2 g3)"
    using rest' F d by simp
  show "templateRows t g3 = templateRows t g1 \<or> (\<exists>x\<in>set (template # templates). rtm_ID x = t \<and> sweptTo now localDate x g1 g3)"
  proof (cases "templateRows t g2 = templateRows t g1")
    case True
    then show ?thesis using second sweptTo_start [of _ g2 g1 now localDate g3] by auto
  next
    case False
    then have s: "rtm_ID template = t" "sweptTo now localDate template g1 g2" using first by auto
    then have "templateRows t g3 = templateRows t g2" using second d by (auto simp: image_iff)
    then show ?thesis using sweptTo_end [OF s(2) later] s(1) by simp
  qed
next
  fix sofar' assume r: "r = Inr sofar'"
  note a = one [unfolded templateSwept_def, THEN conjunct2, rule_format, OF refl] and b = rest [unfolded listSwept_def, THEN conjunct2, rule_format, OF r]
  show "totalDone sofar \<le> totalDone sofar'" "totalDone sofar' \<le> max (totalDone sofar) maxOccurrencesPerTick"
    "F = {} \<Longrightarrow> length (occurrencesIn g3) + totalDone sofar = length (occurrencesIn g1) + totalDone sofar'" using a b by auto
qed

lemma listSwept_one:
  assumes "templateSwept F t now localDate template sofar g1 g2 r1" and "\<And>sofar'. r = Inr sofar' \<Longrightarrow> \<exists>goesOn. r1 = Inr (goesOn, sofar')"
  shows "listSwept F t now localDate (template # templates) sofar g1 g2 r"
  using assms unfolding templateSwept_def listSwept_def by fastforce

lemma sweepTemplates_keeps:
  assumes F: "F \<subseteq> Collect honours"
  shows "keeps F (sweepTemplates env message now localDate input templates sofar) (listSwept F t now localDate templates sofar)"
proof (induction templates arbitrary: sofar)
  case Nil
  show ?case unfolding sweepTemplates.simps by (rule keeps_lift) (simp add: listSwept_def)
next
  case (Cons template templates)
  let ?k = "\<lambda>(goesOn, sofar'). if goesOn then sweepTemplates env message now localDate input templates sofar' else liftW (Inr sofar')"
  show ?case unfolding sweepTemplates.simps
  proof (rule keeps_bind [OF sweepTemplate_keeps [OF F, where t = t],
      where R = "\<lambda>(goesOn, sofar') g g' r. if goesOn then listSwept F t now localDate templates sofar' g g' r else g' = g \<and> r = Inr sofar'"])
    show "keeps F (?k a) ((\<lambda>(goesOn, sofar') g g' r. if goesOn then listSwept F t now localDate templates sofar' g g' r else g' = g \<and> r = Inr sofar') a)" for a
      using Cons.IH by (cases a) (auto intro: keeps_lift)
  next
    fix g1 g2 e assume "templateSwept F t now localDate template sofar g1 g2 (Inl e)"
    then show "listSwept F t now localDate (template # templates) sofar g1 g2 (Inl e)" by (rule listSwept_one) simp
  next
    fix g1 g2 g3 a r assume later: "recurringLater g2 g3" and one: "templateSwept F t now localDate template sofar g1 g2 (Inr a)"
      and rest: "(case a of (goesOn, sofar') \<Rightarrow> \<lambda>g g' r. if goesOn then listSwept F t now localDate templates sofar' g g' r else g' = g \<and> r = Inr sofar') g2 g3 r"
    obtain goesOn sofar' where a: "a = (goesOn, sofar')" by (cases a)
    show "listSwept F t now localDate (template # templates) sofar g1 g3 r"
    proof (cases goesOn)
      case True
      then show ?thesis using listSwept_step [OF later one [unfolded a]] rest by (simp add: a)
    next
      case False
      then have e: "g3 = g2" "r = Inr sofar'" using rest by (simp_all add: a)
      show ?thesis unfolding e by (rule listSwept_one [OF one]) (simp add: a)
    qed
  qed
qed

section \<open>The window\<close>

lemma negative_date: "Year t < 0 \<Longrightarrow> \<not> fourDigitYear u \<or> formatDateOnly t \<noteq> formatDateOnly u"
proof -
  assume neg: "Year t < 0"
  have l: "length (padNat w n) \<ge> w" for w n by (simp add: padNat_def)
  have "length (formatDateOnly t) \<ge> 11" using neg l [of 4 "nat \<bar>Year t\<bar>"] l [of 2 "nat (Month t)"] l [of 2 "nat (Day t)"] by (simp add: formatDateOnly_def)
  moreover have "length (formatDateOnly u) = 10" if "fourDigitYear u" using that by (rule formatDateOnly_parts) simp
  ultimately show ?thesis by (cases "fourDigitYear u") auto
qed

lemma enumerate_days:
  assumes "enumerateDates schedule from to = Inr dates"
  shows "Validate schedule = Inr ()" "\<exists>a b. parseDate from = Inr a \<and> parseDate to = Inr b \<and> set dates = formatDateOnly ` {t. occurs schedule t \<and> a \<le> t \<and> t \<le> b}"
proof -
  from assms have o: "Occurrences schedule from to = Some (Inr dates)" by (auto simp: enumerateDates_def result_simps split: option.splits)
  then obtain a b where v: "Validate schedule = Inr ()" "parseDate from = Inr a" "parseDate to = Inr b"
    by (auto simp: Occurrences_def split: sum.splits)
  have fin: "finite {t. occurs schedule t \<and> a \<le> t \<and> t \<le> b}" using occurs_finite [of schedule] v(1) by (simp add: Validate_ok_iff)
  have "dates = map formatDateOnly (sorted_list_of_set {t. occurs schedule t \<and> a \<le> t \<and> t \<le> b})"
    using o Occurrences_eq [OF v] by (auto simp: Let_def split: if_splits)
  then have "set dates = formatDateOnly ` {t. occurs schedule t \<and> a \<le> t \<and> t \<le> b}" using fin by simp
  then show "Validate schedule = Inr ()" "\<exists>a b. parseDate from = Inr a \<and> parseDate to = Inr b \<and> set dates = formatDateOnly ` {t. occurs schedule t \<and> a \<le> t \<and> t \<le> b}"
    using v by blast+
qed

lemma occurs_year:
  assumes "Validate schedule = Inr ()" and "occurs schedule t"
  shows "1 \<le> Year t" "Year t \<le> 9999"
proof -
  have "1 \<le> Year (seriesStart schedule)" "seriesStart schedule \<le> t"
    using assms by (auto simp: Validate_ok_iff specOk_def parseDate_Inr_iff occurs_def onSchedule_def)
  then show "1 \<le> Year t" using Year_mono by fastforce
  show "Year t \<le> 9999" using assms(2) by (simp add: occurs_def)
qed

lemma sweepWindow_year: "sweepWindow localDate spec = Inr (Some end0) \<Longrightarrow> Year end0 \<le> 9999"
proof -
  have last: "Year (Date 9999 12 31) = 9999" by code_simp
  have "Year (sweepEnd localDate spec) \<le> 9999" by (simp add: sweepEnd_def Let_def last)
  then show "sweepWindow localDate spec = Inr (Some end0) \<Longrightarrow> Year end0 \<le> 9999"
    using Year_mono [of end0 "sweepEnd localDate spec"] by (auto simp: sweepWindow_def Let_def split: if_splits option.splits)
qed

lemma window_covers:
  assumes window: "sweepWindow localDate spec = Inr (Some end0)"
    and dates: "enumerateDates schedule (rt_GenerateFrom spec) (formatDateOnly end0) = Inr dates"
    and day: "occurs schedule day" "rt_GenerateFrom spec \<le> formatDateOnly day" "formatDateOnly day < nextWatermark end0"
  shows "formatDateOnly day \<in> set dates"
proof -
  note v = enumerate_days [OF dates]
  then obtain a b where ab: "parseDate (rt_GenerateFrom spec) = Inr a" "parseDate (formatDateOnly end0) = Inr b"
    and set: "set dates = formatDateOnly ` {t. occurs schedule t \<and> a \<le> t \<and> t \<le> b}" by blast
  have four: "fourDigitYear a" "fourDigitYear b" "fourDigitYear day" "rt_GenerateFrom spec = formatDateOnly a" "formatDateOnly end0 = formatDateOnly b"
    using ab occurs_year [OF v(1) day(1)] by (auto simp: parseDate_Inr_iff fourDigitYear_def)
  have e: "fourDigitYear end0" using negative_date [of end0 b] four(2,5) sweepWindow_year [OF window] by (cases "Year end0 < 0") (auto simp: fourDigitYear_def)
  then have b: "b = end0" using formatDateOnly_inj [OF e four(2)] four(5) by simp
  have "a \<le> day" using day(2) four formatDateOnly_less_iff [OF four(3,1)] by (simp add: not_less [symmetric])
  moreover have "day \<le> end0"
  proof (cases "Year (end0 + 1) > 9999")
    case True
    then show ?thesis using day(3) formatDateOnly_less_iff [OF four(3) e] by (simp add: nextWatermark_def AddDate_days)
  next
    case False
    then have "fourDigitYear (end0 + 1)" using e Year_mono [of end0 "end0 + 1"] by (simp add: fourDigitYear_def)
    then show ?thesis using False day(3) formatDateOnly_less_iff [OF four(3), of "end0 + 1"] by (simp add: nextWatermark_def AddDate_days)
  qed
  ultimately show ?thesis using day(1) by (simp add: set b)
qed

section \<open>The sweep\<close>

text \<open>The schedule of a template as its row has it.\<close>

definition scheduleOf :: "templateRow \<Rightarrow> ScheduleSpec" where
  "scheduleOf row = \<lparr> spec_Frequency = tm_frequency row, IntervalCount = tm_interval_count row, ByWeekday = tm_by_weekday row,
     DayOfMonth = applyRecurringField 0 (tm_day_of_month row), LastDayOfMonth = tm_last_day_of_month row,
     MonthOfYear = applyRecurringField 0 (tm_month_of_year row), StartsOn = tm_starts_on row, EndsOn = orEmpty (tm_ends_on row),
     MaxOccurrences = applyRecurringField 0 (tm_max_occurrences row) \<rparr>"

definition readFrom :: "templateRow \<Rightarrow> RecurringTemplate \<Rightarrow> bool" where
  "readFrom row template \<longleftrightarrow> rtm_ID template = tm_id row \<and> rtm_Revision template = tm_revision row \<and> rt_GenerateFrom (rtm_Spec template) = tm_generate_from row \<and>
     recurringSchedule (rtm_Spec template) = scheduleOf row"

lemma template_read: "recurringTemplateFromRecord (templateRecord env gs row) = Inr template \<Longrightarrow> readFrom row template"
  by (auto simp: recurringTemplateFromRecord_def Let_def result_simps readFrom_def recurringSchedule_def specFromRecord_def templateRecord_def scheduleOf_def)

lemma mapR_rows:
  assumes "mapR recurringTemplateFromRecord (map (templateRecord env gs) rows) = Inr templates"
  shows "map rtm_ID templates = map tm_id rows" "\<forall>template\<in>set templates. \<exists>row\<in>set rows. readFrom row template"
proof -
  have l: "list_all2 readFrom rows templates"
    using assms unfolding mapR_Inr_iff list_all2_map1 by (rule list_all2_mono) (rule template_read)
  then show "map rtm_ID templates = map tm_id rows" by (induction rule: list_all2_induct) (simp_all add: readFrom_def)
  show "\<forall>template\<in>set templates. \<exists>row\<in>set rows. readFrom row template" using l by (induction rule: list_all2_induct) auto
qed

definition templatesRead :: "recurringStore \<Rightarrow> RecurringTemplate list \<Rightarrow> bool" where
  "templatesRead gs templates \<longleftrightarrow> distinct (map rtm_ID templates) \<and> (\<forall>template\<in>set templates. \<exists>row\<in>set (gs_templates gs). readFrom row template)"

lemma listed_templates:
  assumes "recurringOk gs" and "svc_ListTemplates env gs owner archived = Inr templates"
  shows "templatesRead gs templates"
proof -
  from assms(2) obtain P where m: "mapR recurringTemplateFromRecord (map (templateRecord env gs) (sort_key (\<lambda>row. (tm_name row, tm_id row)) (filter P (gs_templates gs)))) = Inr templates"
    by (auto simp: svc_ListTemplates_def repo_ListRecurringTemplates_def listRecurringTemplates_def result_simps)
  have "distinct (map tm_id (filter P (gs_templates gs)))" using recurringOk_parts(3) [OF assms(1)] by (simp add: distinct_map_filter)
  then have "distinct (map tm_id (sort_key (\<lambda>row. (tm_name row, tm_id row)) (filter P (gs_templates gs))))" by (simp add: distinct_map)
  then show ?thesis using mapR_rows [OF m] by (auto simp: templatesRead_def)
qed

lemma one_template:
  assumes "svc_Template env gs owner t = Inr template"
  shows "templatesRead gs [template]"
proof -
  from assms obtain P rows stored where rows: "listRecurringTemplates env gs \<lparr> lt_BookID = BookID, lt_IncludeArchived = True, lt_EnabledOnly = False \<rparr> t = stored # rows"
      "recurringTemplateFromRecord stored = Inr template"
    by (auto simp: svc_Template_def RecurringTemplateByID_def result_simps split: list.splits)
  then have "stored \<in> set (listRecurringTemplates env gs \<lparr> lt_BookID = BookID, lt_IncludeArchived = True, lt_EnabledOnly = False \<rparr> t)" by simp
  then obtain row where "row \<in> set (gs_templates gs)" "stored = templateRecord env gs row" by (auto simp: listRecurringTemplates_def)
  then show ?thesis using template_read [of env gs row template] rows(2) by (auto simp: templatesRead_def)
qed

definition sweepDone :: "(recurringStore \<Rightarrow> recurringStore) set \<Rightarrow> int \<Rightarrow> string \<Rightarrow> recurringStore \<Rightarrow> recurringStore
    \<Rightarrow> (recurring_error, RecurringGenerationResult) result \<Rightarrow> bool" where
  "sweepDone F t now gs gs' r \<longleftrightarrow>
     (F \<subseteq> Collect (leavesTemplate t) \<longrightarrow> templateRows t gs' = templateRows t gs \<or>
        (\<exists>localDate template row. row \<in> set (templateRows t gs) \<and> readFrom row template \<and> sweptTo now localDate template gs gs')) \<and>
     (\<forall>result. r = Inr result \<longrightarrow> totalDone result \<le> maxOccurrencesPerTick \<and> (F = {} \<longrightarrow> length (occurrencesIn gs') = length (occurrencesIn gs) + totalDone result))"

lemma templates_swept:
  assumes u: "undisturbed F t g1 g2" "F = {} \<longrightarrow> g2 = g1" and read: "templatesRead g2 templates"
    and l: "listSwept F t now localDate templates \<lparr> gr_Generated = 0, gr_Blocked = 0 \<rparr> g2 g3 r"
  shows "sweepDone F t now g1 g3 r"
proof -
  have "templateRows t g3 = templateRows t g1 \<or> (\<exists>localDate template row. row \<in> set (templateRows t g1) \<and> readFrom row template \<and> sweptTo now localDate template g1 g3)"
    if F: "F \<subseteq> Collect (leavesTemplate t)"
  proof -
    have same: "templateRows t g2 = templateRows t g1" using u(1) F by (simp add: undisturbed_def)
    have "templateRows t g3 = templateRows t g2 \<or> (\<exists>template\<in>set templates. rtm_ID template = t \<and> sweptTo now localDate template g2 g3)"
      using l F read by (simp add: listSwept_def templatesRead_def)
    then show ?thesis
    proof (elim disjE bexE conjE)
      fix template assume t: "template \<in> set templates" "rtm_ID template = t" and s: "sweptTo now localDate template g2 g3"
      then obtain row where row: "row \<in> set (gs_templates g2)" "readFrom row template" using read by (auto simp: templatesRead_def)
      then have "row \<in> set (templateRows t g2)" using t(2) by (simp add: templateRows_def readFrom_def)
      then have "row \<in> set (templateRows t g1)" by (simp only: same)
      moreover have "sweptTo now localDate template g1 g3" using s sweptTo_start [of template g2 g1] same t(2) by simp
      ultimately show ?thesis using row(2) by blast
    qed (simp add: same)
  qed
  then show ?thesis using l u(2) by (auto simp: sweepDone_def listSwept_def totalDone_def)
qed

lemma generateDue_keeps:
  assumes F: "F \<subseteq> Collect honours"
  shows "keeps F (svc_GenerateDue env message now input) (sweepDone F t now)"
proof (cases "localToday env (gi_OwnerUserID input)")
  case (Inl e)
  then show ?thesis by (simp add: svc_GenerateDue_def keeps_lift sweepDone_def)
next
  case (Inr today)
  define read where "read = (\<lambda>gs. if gi_TemplateID input > 0
      then bindR (svc_Template env gs (gi_OwnerUserID input) (gi_TemplateID input)) (\<lambda>template. Inr [template])
      else svc_ListTemplates env gs (gi_OwnerUserID input) False)"
  have read: "templatesRead gs templates" if "recurringOk gs" "read gs = Inr templates" for gs templates
    using that one_template listed_templates [OF that(1)] by (auto simp: read_def result_simps split: if_splits)
  let ?k = "\<lambda>templates. case parseDateOnly today of None \<Rightarrow> liftW (Inl WatermarkUnreadable)
      | Some localDate \<Rightarrow> sweepTemplates env message now localDate input templates \<lparr> gr_Generated = 0, gr_Blocked = 0 \<rparr>"
  have k: "keeps F (?k templates) (\<lambda>g g' r. g' = g \<and> (\<exists>e. r = Inl e) \<or> (\<exists>localDate. listSwept F t now localDate templates \<lparr> gr_Generated = 0, gr_Blocked = 0 \<rparr> g g' r))" for templates
  proof (cases "parseDateOnly today")
    case None
    then show ?thesis by (simp add: keeps_lift)
  next
    case (Some localDate)
    have "keeps F (sweepTemplates env message now localDate input templates \<lparr> gr_Generated = 0, gr_Blocked = 0 \<rparr>)
        (\<lambda>g g' r. g' = g \<and> (\<exists>e. r = Inl e) \<or> (\<exists>localDate. listSwept F t now localDate templates \<lparr> gr_Generated = 0, gr_Blocked = 0 \<rparr> g g' r))"
      by (rule keeps_mono [OF sweepTemplates_keeps [OF F, where t = t]]) blast
    then show ?thesis by (simp add: Some)
  qed
  have "keeps F (readW read) (\<lambda>gs gs' r. r = read gs' \<and> recurringOk gs' \<and> undisturbed F t gs gs' \<and> (F = {} \<longrightarrow> gs' = gs))"
    using keeps_read [OF F, of read t] unfolding keeps_def by blast
  then have "keeps F (bindW (readW read) ?k) (sweepDone F t now)"
  proof (rule keeps_bind [OF _ k])
    fix g1 g2 g3 templates r assume "Inr templates = read g2 \<and> recurringOk g2 \<and> undisturbed F t g1 g2 \<and> (F = {} \<longrightarrow> g2 = g1)"
      and l: "g3 = g2 \<and> (\<exists>e. r = Inl e) \<or> (\<exists>localDate. listSwept F t now localDate templates \<lparr> gr_Generated = 0, gr_Blocked = 0 \<rparr> g2 g3 r)"
    then have u: "undisturbed F t g1 g2" "F = {} \<longrightarrow> g2 = g1" and "templatesRead g2 templates" using read [of g2 templates] by simp_all
    note swept = templates_swept [OF this]
    show "sweepDone F t now g1 g3 r" using l
    proof (elim disjE exE conjE)
      fix e assume "g3 = g2" "r = Inl e"
      then show ?thesis using u(1) by (simp add: sweepDone_def undisturbed_def)
    qed (rule swept)
  qed (simp add: sweepDone_def undisturbed_def)
  then show ?thesis using Inr by (simp add: svc_GenerateDue_def read_def)
qed

section \<open>The next date of a template\<close>

lemma parse_day: "Validate schedule = Inr () \<Longrightarrow> occurs schedule t \<Longrightarrow> parseDate (formatDateOnly t) = Inr t"
  using occurs_year by (simp add: parseDate_Inr_iff)

lemma format_not_empty [simp]: "formatDateOnly t \<noteq> []"
  by (simp add: formatDateOnly_def)

lemma nextUnmaterialized_eq:
  fixes taken :: "string list"
  assumes v: "Validate schedule = Inr ()"
  defines "days \<equiv> \<lambda>c. {t. occurs schedule t \<and> c < t}"
  defines "untaken \<equiv> \<lambda>c. {t. occurs schedule t \<and> c < t \<and> formatDateOnly t \<notin> set taken}"
  shows "nextUnmaterialized schedule taken (if days c = {} then [] else formatDateOnly (Min (days c))) =
    Some (Inr (if untaken c = {} then [] else formatDateOnly (Min (untaken c))))"
proof (induction "card (days c)" arbitrary: c rule: less_induct)
  case less
  have fin: "finite (days c)" for c using occurs_finite [of schedule] v by (simp add: days_def Validate_ok_iff)
  have sub: "untaken c \<subseteq> days c" for c by (auto simp: days_def untaken_def)
  show ?case
  proof (cases "days c = {}")
    case True
    then have "untaken c = {}" using sub by blast
    then show ?thesis using True by (simp add: nextUnmaterialized.simps)
  next
    case False
    define m where "m = Min (days c)"
    have m: "m \<in> days c" "\<And>t. t \<in> days c \<Longrightarrow> m \<le> t" using fin False by (simp_all add: m_def)
    show ?thesis
    proof (cases "formatDateOnly m \<in> set taken")
      case False
      then have "m \<in> untaken c" using m(1) by (simp add: days_def untaken_def)
      moreover from this have "Min (untaken c) = m" using finite_subset [OF sub fin] m(2) sub by (intro Min_eqI) auto
      ultimately show ?thesis using False \<open>days c \<noteq> {}\<close> by (auto simp: nextUnmaterialized.simps m_def)
    next
      case True
      have "m < t" if "t \<in> days c" "t \<noteq> m" for t using m(2) [OF that(1)] that(2) by linarith
      then have dm: "days m = days c - {m}" using m(1) by (auto simp: days_def)
      then have "card (days m) < card (days c)" using card_Diff1_less [OF fin m(1)] by (simp only:)
      note ih = less.hyps [OF this]
      have "untaken c = {t \<in> days c. formatDateOnly t \<notin> set taken}" for c by (auto simp: untaken_def days_def)
      then have same: "untaken m = untaken c" using True by (auto simp: dm)
      have "Next schedule (formatDateOnly m) = Some (Inr (if days m = {} then ([], False) else (formatDateOnly (Min (days m)), True)))"
        using Next_eq [OF v parse_day [OF v, of m]] m(1) by (simp add: days_def)
      then have "nextUnmaterialized schedule taken (formatDateOnly m) = nextUnmaterialized schedule taken (if days m = {} then [] else formatDateOnly (Min (days m)))"
        using True by (subst nextUnmaterialized.simps) simp
      then show ?thesis using ih False by (simp add: same m_def [symmetric])
    qed
  qed
qed

lemma nextDueOn_eq:
  assumes "Validate (recurringSchedule spec) = Inr ()" and "parseDateOnly (max (rt_StartsOn spec) (rt_GenerateFrom spec)) = Some from" and "1 \<le> Year (from - 1)"
  shows "nextDueOn spec taken = Inr (
    let days = {t. occurs (recurringSchedule spec) t \<and> from \<le> t \<and> formatDateOnly t \<notin> set taken} in
    if days = {} then [] else formatDateOnly (Min days))"
proof -
  have y: "Year (from - 1) \<le> 9999" using assms(2) Year_mono [of "from - 1" "from"] by (auto simp: parseDateOnly_iff fourDigitYear_def)
  have p: "parseDate (formatDateOnly (from - 1)) = Inr (from - 1)" using assms(3) y by (simp add: parseDate_Inr_iff)
  have d: "AddDate from 0 0 (- 1) = from - 1" by (simp add: AddDate_days)
  have le: "from - 1 < t \<longleftrightarrow> from \<le> t" for t :: time by auto
  define days where "days = {t. occurs (recurringSchedule spec) t \<and> from \<le> t}"
  define untaken where "untaken = {t. occurs (recurringSchedule spec) t \<and> from \<le> t \<and> formatDateOnly t \<notin> set taken}"
  have n: "nextUnmaterialized (recurringSchedule spec) taken (if days = {} then [] else formatDateOnly (Min days)) =
      Some (Inr (if untaken = {} then [] else formatDateOnly (Min untaken)))"
    using nextUnmaterialized_eq [OF assms(1), where c = "from - 1" and taken = taken] by (simp only: le days_def untaken_def)
  have "nextDate (recurringSchedule spec) (formatDateOnly (from - 1)) = Inr (if days = {} then [] else formatDateOnly (Min days), days \<noteq> {})"
    using Next_eq [OF assms(1) p] by (simp add: nextDate_def le days_def [symmetric] Let_def)
  then have "nextDueOn spec taken = Inr (if untaken = {} then [] else formatDateOnly (Min untaken))"
    using n by (simp add: nextDueOn_def assms(2) d)
  then show ?thesis by (simp only: untaken_def Let_def)
qed


section \<open>The amounts of an item\<close>

definition dueVal :: "RecurringDuePosting \<Rightarrow> rat" where
  "dueVal p = decVal (BigInt (dp_QuantityValue p)) (dp_QuantityScale p)"

lemma storedScale_scaleOk: "storedScale sc \<Longrightarrow> scaleOk sc"
  by (simp add: storedScale_def scaleOk_def MaxPow10Scale_def)

lemma add_due_exact:
  "\<forall>p\<in>set P. storedScale (dp_QuantityScale p) \<Longrightarrow> scaleOk (si_scale s) \<Longrightarrow>
    \<exists>s'. foldR addDue s P = Inr s' \<and> scaleOk (si_scale s') \<and> scaledVal s' = scaledVal s + (\<Sum>p\<leftarrow>P. dueVal p)"
proof (induction P arbitrary: s)
  case (Cons p P)
  obtain s1 where s1: "ScaledInt_Add s (Some (BigInt (dp_QuantityValue p))) (dp_QuantityScale p) = Inr s1" "si_scale s1 = max (si_scale s) (dp_QuantityScale p)"
    "scaledVal s1 = scaledVal s + dueVal p"
    by (rule Add_ok [OF Cons.prems(2) storedScale_scaleOk, of "dp_QuantityScale p" "BigInt (dp_QuantityValue p)"]) (use Cons.prems(1) in \<open>simp_all add: dueVal_def\<close>)
  have "scaleOk (si_scale s1)" using s1(2) Cons.prems(2) storedScale_scaleOk [of "dp_QuantityScale p"] Cons.prems(1) by (simp add: max_def)
  then show ?case using Cons.IH [of s1] Cons.prems(1) s1(1,3) by (auto simp: addDue_def ScaledInt_AddCoefficient_def)
qed simp

lemma coefficient_exact: "ScaledInt_Coefficient s = Inr v \<Longrightarrow> decVal (BigInt v) (si_scale s) = scaledVal s"
  by (auto simp: ScaledInt_Coefficient_def FromBig_Inr_iff scaledVal_def)

definition debitsOf :: "int \<Rightarrow> RecurringDuePosting list \<Rightarrow> rat" where
  "debitsOf c postings = (\<Sum>p\<leftarrow>filter (\<lambda>p. dp_CommodityID p = c \<and> 0 \<le> dueVal p) postings. dueVal p)"

definition creditsOf :: "int \<Rightarrow> RecurringDuePosting list \<Rightarrow> rat" where
  "creditsOf c postings = (\<Sum>p\<leftarrow>filter (\<lambda>p. dp_CommodityID p = c \<and> dueVal p < 0) postings. dueVal p)"

lemma isDebit_iff: "isDebit p \<longleftrightarrow> 0 \<le> dueVal p"
proof -
  have "0 \<le> decVal z sc \<longleftrightarrow> 0 \<le> z" for z sc
    by (simp add: decVal_def pos_le_divide_eq)
  then show ?thesis by (simp add: isDebit_def Coefficient_Sign_def dueVal_def BigInt_def sgn_if)
qed

lemma recurringAmount_cases:
  assumes "\<forall>p\<in>set postings. storedScale (dp_QuantityScale p)"
  shows "(\<exists>a. recurringAmount postings c = Inr a \<and> ra_CommodityID a = c \<and> decVal (BigInt (ra_DebitValue a)) (ra_QuantityScale a) = debitsOf c postings \<and>
      decVal (BigInt (ra_CreditValue a)) (ra_QuantityScale a) = creditsOf c postings) \<or> recurringAmount postings c = Inl (RecurringOverflow c)"
proof -
  define own where "own = filter (\<lambda>p. dp_CommodityID p = c) postings"
  have sc: "\<forall>p\<in>set (filter isDebit own). storedScale (dp_QuantityScale p)" "\<forall>p\<in>set (filter (\<lambda>p. \<not> isDebit p) own). storedScale (dp_QuantityScale p)"
    using assms by (simp_all add: own_def)
  have new: "scaleOk (si_scale NewScaledInt)" "scaledVal NewScaledInt = 0" by (simp_all add: NewScaledInt_def scaleOk_def scaledVal_def decVal_def MaxPow10Scale_def)
  obtain d where d: "foldR addDue NewScaledInt (filter isDebit own) = Inr d" "scaleOk (si_scale d)" "scaledVal d = (\<Sum>p\<leftarrow>filter isDebit own. dueVal p)"
    using add_due_exact [OF sc(1) new(1)] new(2) by auto
  obtain r where r: "foldR addDue NewScaledInt (filter (\<lambda>p. \<not> isDebit p) own) = Inr r" "scaleOk (si_scale r)" "scaledVal r = (\<Sum>p\<leftarrow>filter (\<lambda>p. \<not> isDebit p) own. dueVal p)"
    using add_due_exact [OF sc(2) new(1)] new(2) by auto
  define k where "k = max (si_scale d) (si_scale r)"
  have k: "scaleOk k" using d(2) r(2) by (simp add: k_def max_def)
  obtain d1 where d1: "ScaledInt_Align d k = Inr d1" "si_scale d1 = k" "scaledVal d1 = scaledVal d" by (rule Align_ok [OF d(2) k]) (simp add: k_def)
  obtain r1 where r1: "ScaledInt_Align r k = Inr r1" "si_scale r1 = k" "scaledVal r1 = scaledVal r" by (rule Align_ok [OF r(2) k]) (simp add: k_def)
  have filters: "filter isDebit own = filter (\<lambda>p. dp_CommodityID p = c \<and> 0 \<le> dueVal p) postings"
    "filter (\<lambda>p. \<not> isDebit p) own = filter (\<lambda>p. dp_CommodityID p = c \<and> dueVal p < 0) postings"
    by (simp_all add: own_def isDebit_iff not_le conj_commute)
  have e: "recurringAmount postings c = bindR (mapErr (\<lambda>_. RecurringOverflow c) (ScaledInt_Coefficient d1)) (\<lambda>debit.
      bindR (mapErr (\<lambda>_. RecurringOverflow c) (ScaledInt_Coefficient r1)) (\<lambda>credit.
      Inr \<lparr> ra_CommodityID = c, ra_DebitValue = debit, ra_CreditValue = credit, ra_QuantityScale = k \<rparr>))"
    by (simp add: recurringAmount_def Let_def own_def [symmetric] d(1) r(1) k_def [symmetric] d1(1) r1(1))
  show ?thesis
  proof (cases "ScaledInt_Coefficient d1")
    case (Inr debit)
    show ?thesis
    proof (cases "ScaledInt_Coefficient r1")
      case credit: (Inr credit)
      show ?thesis using coefficient_exact [OF Inr] coefficient_exact [OF credit] d r d1 r1
        by (simp add: e Inr credit debitsOf_def creditsOf_def filters)
    qed (simp add: e Inr)
  qed (simp add: e)
qed


text \<open>A purchase in two currencies: what is owed in the first adds up across scales.\<close>

definition exampleDue :: "RecurringDuePosting list" where
  "exampleDue = [\<lparr> dp_CommodityID = 7, dp_QuantityValue = New 1250, dp_QuantityScale = 2 \<rparr>, \<lparr> dp_CommodityID = 9, dp_QuantityValue = New (- 3), dp_QuantityScale = 0 \<rparr>,
     \<lparr> dp_CommodityID = 7, dp_QuantityValue = New 5, dp_QuantityScale = 1 \<rparr>, \<lparr> dp_CommodityID = 7, dp_QuantityValue = New (- 13), dp_QuantityScale = 0 \<rparr>]"


end
