(* ===== verification/Recurring_History.thy ===== *)
theory Recurring_History
  imports Recurring_Sweep History
begin

text \<open>
  Histories of a book with its recurring templates: ledger writes, discards, templates created, changed and archived, dates
  claimed, retried and skipped, watermarks advanced, in any order, each prepared against a store of the history and committed to
  the latest. What all of them keep, what a stale attempt meets, and what a sweep in the middle of such a history can promise.
\<close>

section \<open>Histories\<close>

inductive recurringCommit :: "ledgerEnv \<Rightarrow> recurringStore \<Rightarrow> recurringStore \<Rightarrow> recurringStore \<Rightarrow> bool" for env :: ledgerEnv and gs0 gs :: recurringStore where
  writes: "set (st_versions (gs_ledger gs0)) \<subseteq> set (st_versions (gs_ledger gs)) \<Longrightarrow> committedWrite env (gs_ledger gs0) (gs_ledger gs) st' \<Longrightarrow>
    recurringCommit env gs0 gs (gs\<lparr> gs_ledger := st' \<rparr>)"
| discards: "prepareDeleteDraft now (gs_ledger gs0) input = Inr params \<Longrightarrow> repo_DeleteDraftTransaction params (gs_ledger gs) = Inr st' \<Longrightarrow>
    recurringCommit env gs0 gs (gs\<lparr> gs_ledger := st' \<rparr>)"
| creates: "prepareCreateTemplate env now gs0 input = Inr params \<Longrightarrow> repo_CreateRecurringTemplate env params gs = Inr (gs', template) \<Longrightarrow> recurringCommit env gs0 gs gs'"
| updates: "prepareUpdateTemplate env now gs0 input = Inr params \<Longrightarrow> repo_UpdateRecurringTemplate env params gs = Inr (gs', template) \<Longrightarrow> recurringCommit env gs0 gs gs'"
| archives: "prepareArchiveTemplate env now gs0 input = Inr (Inr params) \<Longrightarrow> repo_ArchiveRecurringTemplate env params gs = Inr (gs', template) \<Longrightarrow> recurringCommit env gs0 gs gs'"
| generates: "prepareOccurrence env message now False gs0 input template date = Inr (occurrence, draft, audit) \<Longrightarrow>
    repo_MaterializeRecurringOccurrence (rtm_Revision template) occurrence draft audit gs = Inr gs' \<Longrightarrow> recurringCommit env gs0 gs gs'"
| retries: "prepareRetry env message now gs0 input = Inr params \<Longrightarrow> svc_RetryOccurrence params gs = Inr (gs', result) \<Longrightarrow> recurringCommit env gs0 gs gs'"
| skips: "prepareSkip env now gs0 input = Inr params \<Longrightarrow> svc_SkipOccurrence params gs = Inr gs' \<Longrightarrow> recurringCommit env gs0 gs gs'"
| advances: "repo_AdvanceRecurringGeneration BookID templateID revision through now gs = Inr gs' \<Longrightarrow> recurringCommit env gs0 gs gs'"

inductive recurringHistory :: "ledgerEnv \<Rightarrow> recurringStore \<Rightarrow> recurringStore list \<Rightarrow> bool" for env :: ledgerEnv and start :: recurringStore where
  begins: "recurringHistory env start [start]"
| goesOn: "recurringHistory env start (gs # past) \<Longrightarrow> gs0 \<in> set (gs # past) \<Longrightarrow> recurringCommit env gs0 gs gs' \<Longrightarrow> recurringHistory env start (gs' # gs # past)"

inductive_cases recurringHistory_cases: "recurringHistory env start stores"

lemma commit_kept:
  assumes "recurringCommit env gs0 gs gs'" and ok0: "recurringOk gs0" and ok: "recurringOk gs"
  shows "recurringOk gs' \<and> recurringLater gs gs'"
  using assms(1)
proof cases
  case (writes st')
  have "storeOk st' \<and> balancesKept (gs_ledger gs) st'"
    using write_kept [OF writes(3) recurringOk_parts(1) [OF ok0] recurringOk_parts(1) [OF ok] writes(2)] by simp
  then show ?thesis unfolding writes(1) using ledger_kept_recurring [OF ok _ _ write_steady [OF writes(3)]] by blast
next
  case (discards now input params st')
  then show ?thesis using discard_kept [OF ok] by blast
next
  case (creates now input params template)
  then show ?thesis using create_template_kept [OF ok] by blast
next
  case (updates now input params template)
  then show ?thesis using update_template_kept [OF ok] by blast
next
  case (archives now input params template)
  then show ?thesis using archive_template_kept [OF ok] by blast
next
  case (generates message now input template date occurrence draft audit)
  show ?thesis by (rule materialize_kept [OF ok prepareOccurrence_Inr(4) [OF generates(1)] generates(2) [unfolded repo_MaterializeRecurringOccurrence_def]])
next
  case (retries message now input params result)
  obtain revision occurrence draft audit expected where p: "params = (revision, occurrence, draft, audit, expected)" by (cases params)
  from retries(1) obtain input' template date where "prepareOccurrence env message now True gs0 input' template date = Inr (occurrence, draft, audit)"
    by (auto simp: p prepareRetry_def result_simps split: prod.splits)
  note prepared = prepareOccurrence_Inr(4) [OF this]
  have "materializeRecurringOccurrence revision occurrence draft audit (Some expected) gs = Inr gs'"
    using retries(2) by (auto simp: p svc_RetryOccurrence_def repo_RetryRecurringOccurrence_def result_simps)
  note m = this
  show ?thesis by (rule materialize_kept [OF ok prepared m])
next
  case (skips now input params)
  then show ?thesis using skip_kept [OF ok] by (auto simp: svc_SkipOccurrence_def result_simps split: prod.splits)
next
  case (advances templateID revision through now)
  then show ?thesis using advance_kept [OF ok] by blast
qed

lemma recurringHistory_kept:
  assumes "recurringHistory env start stores" and "recurringOk start"
  shows "recurring.intact stores"
  using assms(1)
proof induction
  case begins
  show ?case by (rule recurring.intact_one [OF assms(2)])
next
  case (goesOn gs past gs0 gs')
  have "recurringOk gs0" "recurringOk gs" using recurring.intactD [OF goesOn(4)] goesOn(2) by auto
  note k = commit_kept [OF goesOn(3) this]
  show ?case by (rule recurring.intact_step [OF goesOn(4)]) (use k in simp)
qed

lemma history_earlier:
  assumes "recurringHistory env start (gs # past)" and "recurringOk start" and "gs0 \<in> set (gs # past)"
  shows "recurringOk gs" "recurringOk gs0" "recurringLater gs0 gs"
  using recurring.intactD [OF recurringHistory_kept [OF assms(1,2)]] assms(3) by auto

text \<open>What another request does between two calls of a sweep is such a commit, or nothing when it is refused.\<close>

lemma commit_honours:
  assumes "\<And>gs. f gs = gs \<or> (\<exists>gs0. recurringOk gs0 \<and> recurringCommit env gs0 gs (f gs))"
  shows "honours f"
  unfolding honours_def using assms commit_kept recurring.kept_refl by metis

section \<open>What a history keeps\<close>


section \<open>Stale attempts\<close>

lemma template_at_revision:
  assumes ok: "recurringOk gs" and later: "recurringLater gs0 gs" and row: "row \<in> set (gs_templates gs0)" and changed: "row \<notin> set (gs_templates gs)"
  shows "\<not> (\<exists>r\<in>set (gs_templates gs). tm_book_id r = tm_book_id row \<and> tm_id r = tm_id row \<and> tm_revision r = tm_revision row)"
proof
  assume "\<exists>r\<in>set (gs_templates gs). tm_book_id r = tm_book_id row \<and> tm_id r = tm_id row \<and> tm_revision r = tm_revision row"
  then obtain r where r: "r \<in> set (gs_templates gs)" "tm_id r = tm_id row" "tm_revision r = tm_revision row" by blast
  obtain r2 where r2: "r2 \<in> set (gs_templates gs)" "laterTemplate row r2" using later row by (auto simp: recurringLater_def)
  have id: "tm_id r2 = tm_id r" using r2(2) r(2) by (simp add: laterTemplate_def)
  have "inj_on tm_id (set (gs_templates gs))" using recurringOk_parts(3) [OF ok] by (simp add: distinct_map)
  then have "r2 = r" by (rule inj_onD [OF _ id r2(1) r(1)])
  then have "\<not> tm_revision row < tm_revision r2" using r(3) by simp
  then have "row = r2" using r2(2) unfolding laterTemplate_def by blast
  then show False using r2(1) changed by simp
qed

text \<open>
  C13. A sweep that read a template which was changed since, by whoever and however, is refused: with what it read it can neither
  claim a date of the template nor move its watermark, and the store stays as it is.
\<close>

theorem stale_sweep_refused:
  assumes "recurringHistory env start (gs # past)" and "recurringOk start" and "gs0 \<in> set (gs # past)"
    and "row \<in> set (gs_templates gs0)" and "tm_book_id row = BookID" and "row \<notin> set (gs_templates gs)"
    and "recurringTemplateFromRecord (templateRecord env gs0 row) = Inr template"
    and "prepareOccurrence env message now False gs1 input template date = Inr (occurrence, draft, audit)"
  shows "repo_MaterializeRecurringOccurrence (rtm_Revision template) occurrence draft audit gs = Inl DBTemplateConflict \<and>
    repo_AdvanceRecurringGeneration BookID (rtm_ID template) (rtm_Revision template) through now gs = Inl DBTemplateConflict"
proof -
  note h = history_earlier [OF assms(1-3)]
  have t: "rtm_ID template = tm_id row" "rtm_Revision template = tm_revision row" using template_read [OF assms(7)] by (simp_all add: readFrom_def)
  have g: "guardRecurringGeneration gs BookID (rtm_ID template) (rtm_Revision template) = Inl DBTemplateConflict"
    unfolding guardRecurringGeneration_def ensure_Inl_iff t
  proof (intro conjI refl notI, elim bexE conjE)
    fix r assume "r \<in> set (gs_templates gs)" "tm_book_id r = BookID" "tm_id r = tm_id row" "tm_revision r = tm_revision row"
    then show False using template_at_revision [OF h(1,3) assms(4,6)] assms(5) by simp
  qed
  then show ?thesis using prepareOccurrence_Inr(1,2) [OF assms(8)]
    by (simp add: repo_MaterializeRecurringOccurrence_def materializeRecurringOccurrence_def repo_AdvanceRecurringGeneration_def)
qed

lemma found_occurrence:
  assumes ok: "recurringOk gs" and o: "o' \<in> set (occurrencesIn gs)"
  shows "findOccurrence gs (oc_book_id o') (oc_template_id o') (oc_occurrence_date o') = Some o'"
proof -
  obtain o2 where f: "findOccurrence gs (oc_book_id o') (oc_template_id o') (oc_occurrence_date o') = Some o2"
    using o by (cases "findOccurrence gs (oc_book_id o') (oc_template_id o') (oc_occurrence_date o')") (auto simp: findOccurrence_def find_None_iff)
  then have "o2 \<in> set (occurrencesIn gs)" "occurrenceKey o2 = occurrenceKey o'" by (auto simp: findOccurrence_def find_Some_iff occurrenceKey_def)
  then have "o2 = o'" using occurrencesOk_parts(1) [OF recurringOk_parts(2) [OF ok]] o by (simp add: occurrencesIn_def distinct_map inj_on_def)
  then show ?thesis using f by simp
qed

text \<open>The guard of an attempt at a row that has changed since it was read.\<close>

lemma consumed_attempt:
  assumes ok: "recurringOk gs" and later: "recurringLater gs0 gs" and o1: "o1 \<in> set (occurrencesIn gs0)" "oc_last_audit o1 = Some expected"
    and changed: "o1 \<notin> set (occurrencesIn gs)"
    and occurrence: "no_BookID occurrence = oc_book_id o1" "no_TemplateID occurrence = oc_template_id o1" "no_OccurrenceDate occurrence = oc_occurrence_date o1"
  shows "guardRecurringOccurrence gs occurrence (Some expected) = Inl DBOccurrenceExists"
proof -
  obtain o2 where o2: "o2 \<in> set (occurrencesIn gs)" "laterOccurrence o1 o2" using later o1(1) by (auto simp: recurringLater_def)
  then have "o1 \<noteq> o2" using changed by blast
  then have audit: "oc_last_audit o2 \<noteq> Some expected" using o2(2) o1(2) by (auto simp: laterOccurrence_def)
  have "oc_book_id o2 = oc_book_id o1" "oc_template_id o2 = oc_template_id o1" "oc_occurrence_date o2 = oc_occurrence_date o1"
    using o2(2) by (simp_all add: laterOccurrence_def occurrenceKey_def)
  then show ?thesis using found_occurrence [OF ok o2(1)] audit by (simp add: guardRecurringOccurrence_def occurrence)
qed

lemma review_row:
  assumes "recurringOk gs0" and "reviewOccurrence env gs0 input = Inr (template, Some o1)"
  shows "o1 \<in> set (occurrencesIn gs0)" "oc_book_id o1 = BookID" "oc_template_id o1 = rtm_ID template" "oc_occurrence_date o1 = ri_OccurrenceDate input"
proof -
  from assms(2) obtain t where c: "(case RecurringOccurrencesInRange gs0 BookID (rtm_ID t) (ri_OccurrenceDate input) (ri_OccurrenceDate input) of
      [] \<Rightarrow> Inr (t, None) | o' # _ \<Rightarrow> Inr (t, Some o')) = (Inr (template, Some o1) :: (recurring_error, _) result)"
    unfolding reviewOccurrence_def by (auto simp only: bindR_Inr_iff)
  then have "o1 \<in> set (RecurringOccurrencesInRange gs0 BookID (rtm_ID template) (ri_OccurrenceDate input) (ri_OccurrenceDate input))"
    by (cases "RecurringOccurrencesInRange gs0 BookID (rtm_ID t) (ri_OccurrenceDate input) (ri_OccurrenceDate input)") auto
  then show "o1 \<in> set (occurrencesIn gs0)" "oc_book_id o1 = BookID" "oc_template_id o1 = rtm_ID template" "oc_occurrence_date o1 = ri_OccurrenceDate input"
    by (auto simp: RecurringOccurrencesInRange_def occurrencesOf_def)
qed

lemma attempt_refused:
  assumes "guardRecurringOccurrence gs occurrence (Some expected) = Inl DBOccurrenceExists"
  shows "svc_RetryOccurrence (revision, occurrence, draft, audit, expected) gs \<in> {Inl ErrRecurringOccurrenceMaterialized, Inl ErrRecurringTemplateConflict}"
    "svc_SkipOccurrence (revision, occurrence, Some expected, audit) gs \<in> {Inl ErrRecurringOccurrenceMaterialized, Inl ErrRecurringTemplateConflict}"
proof -
  have "guardRecurringGeneration gs (no_BookID occurrence) (no_TemplateID occurrence) revision \<in> {Inr (), Inl DBTemplateConflict}"
    by (simp add: guardRecurringGeneration_def ensure_def)
  then show "svc_RetryOccurrence (revision, occurrence, draft, audit, expected) gs \<in> {Inl ErrRecurringOccurrenceMaterialized, Inl ErrRecurringTemplateConflict}"
    using assms by (auto simp: svc_RetryOccurrence_def repo_RetryRecurringOccurrence_def materializeRecurringOccurrence_def mapRecurringError_def)
  show "svc_SkipOccurrence (revision, occurrence, Some expected, audit) gs \<in> {Inl ErrRecurringOccurrenceMaterialized, Inl ErrRecurringTemplateConflict}"
    using assms by (simp add: svc_SkipOccurrence_def repo_SkipRecurringOccurrence_def mapRecurringError_def ensure_def)
qed

text \<open>
  C12. An attempt at a blocked date can be used once: when the row it read has changed by the time it commits, by another retry, a
  skip, or a retry that blocked again, retrying and skipping are refused, and the store stays as it is.
\<close>

theorem attempt_used_once:
  assumes "recurringHistory env start (gs # past)" and "recurringOk start" and "gs0 \<in> set (gs # past)"
    and "reviewOccurrence env gs0 input = Inr (template, Some o1)" and "o1 \<notin> set (occurrencesIn gs)"
  shows "(prepareRetry env message now gs0 input = Inr retry \<longrightarrow>
      svc_RetryOccurrence retry gs \<in> {Inl ErrRecurringOccurrenceMaterialized, Inl ErrRecurringTemplateConflict}) \<and>
    (prepareSkip env now gs0 input = Inr skip \<longrightarrow>
      svc_SkipOccurrence skip gs \<in> {Inl ErrRecurringOccurrenceMaterialized, Inl ErrRecurringTemplateConflict})"
proof (intro conjI impI)
  note h = history_earlier [OF assms(1-3)] and r = review_row [OF history_earlier(2) [OF assms(1-3)] assms(4)]
  have attempt: "oc_last_audit o1 = Some expected" if "blockedAttempt o1 = Inr expected" for expected
    using that by (auto simp: blockedAttempt_def split: option.splits if_splits)
  have guard: "guardRecurringOccurrence gs occurrence (Some expected) = Inl DBOccurrenceExists"
    if "blockedAttempt o1 = Inr expected" "no_BookID occurrence = BookID" "no_TemplateID occurrence = rtm_ID template" "no_OccurrenceDate occurrence = ri_OccurrenceDate input"
    for occurrence expected
    by (rule consumed_attempt [OF h(1,3) r(1) attempt [OF that(1)] assms(5)]) (simp_all add: that r)
  assume "prepareRetry env message now gs0 input = Inr retry"
  then obtain occurrence draft audit expected where p: "retry = (rtm_Revision template, occurrence, draft, audit, expected)" "blockedAttempt o1 = Inr expected"
      "prepareOccurrence env message now True gs0 (retryInput input (rtm_ID template)) template (ri_OccurrenceDate input) = Inr (occurrence, draft, audit)"
    using assms(4) by (auto simp: prepareRetry_def result_simps)
  show "svc_RetryOccurrence retry gs \<in> {Inl ErrRecurringOccurrenceMaterialized, Inl ErrRecurringTemplateConflict}"
    unfolding p(1) by (rule attempt_refused(1) [OF guard [OF p(2) prepareOccurrence_Inr(1-3) [OF p(3)]]])
next
  note h = history_earlier [OF assms(1-3)] and r = review_row [OF history_earlier(2) [OF assms(1-3)] assms(4)]
  assume "prepareSkip env now gs0 input = Inr skip"
  then obtain occurrence audit expected where p: "skip = (rtm_Revision template, occurrence, Some expected, audit)" "blockedAttempt o1 = Inr expected"
      "no_BookID occurrence = BookID" "no_TemplateID occurrence = rtm_ID template" "no_OccurrenceDate occurrence = ri_OccurrenceDate input"
    using assms(4) by (auto simp: prepareSkip_def claimOf_def result_simps)
  have "oc_last_audit o1 = Some expected" using p(2) by (auto simp: blockedAttempt_def split: option.splits if_splits)
  then have "guardRecurringOccurrence gs occurrence (Some expected) = Inl DBOccurrenceExists"
    by (rule consumed_attempt [OF h(1,3) r(1) _ assms(5)]) (simp_all add: p r)
  then show "svc_SkipOccurrence skip gs \<in> {Inl ErrRecurringOccurrenceMaterialized, Inl ErrRecurringTemplateConflict}"
    unfolding p(1) by (rule attempt_refused(2))
qed

section \<open>What a sweep promises\<close>



section \<open>A small book\<close>

text \<open>A rent due on the last day of each month; the date of January was blocked, and waits for review.\<close>

definition exampleTemplate :: "bool \<Rightarrow> templateRow" where
  "exampleTemplate enabled = \<lparr> tm_id = 1, tm_book_id = BookID, tm_name = ''Rent'', tm_enabled = enabled, tm_archived_at = None,
     tm_transaction_kind = ''ordinary'', tm_payee_id = None, tm_payee_name = None, tm_description = ''rent'', tm_note_markdown = [],
     tm_frequency = ''monthly'', tm_interval_count = 1, tm_by_weekday = None, tm_day_of_month = Some 31, tm_last_day_of_month = False,
     tm_month_of_year = None, tm_starts_on = ''2026-01-15'', tm_ends_on = None, tm_max_occurrences = None, tm_lead_days = 5,
     tm_generate_from = ''2026-02-01'', tm_created_at = ''2026-01-10T08:00:00Z'', tm_created_by = 1, tm_updated_at = ''2026-02-01T08:00:00Z'',
     tm_updated_by = 1, tm_revision = 2, tm_postings = [], tm_tag_ids = [] \<rparr>"

definition exampleBlocked :: occurrenceRow where
  "exampleBlocked = \<lparr> oc_id = 1, oc_book_id = BookID, oc_template_id = 1, oc_occurrence_date = ''2026-01-31'', oc_status = ''blocked'',
     oc_transaction_id = None, oc_error_summary = ''account is closed'', oc_skip_reason = [], oc_materialized_at = ''2026-01-26T08:00:00Z'',
     oc_created_at = ''2026-01-26T08:00:00Z'', oc_updated_at = ''2026-01-26T08:00:00Z'', oc_last_audit = Some 1 \<rparr>"

definition exampleAudit :: auditRow where
  "exampleAudit = \<lparr> au_id = 1, au_book_id = Some BookID, au_actor = Some 1, au_session = None, au_occurred_at = ''2026-01-26T08:00:00Z'', au_request = None,
     au_origin = ''scheduled'', au_operation = ''recurring.occurrence.block'', au_reason = ''recurring occurrence failed validation'', au_metadata = [] \<rparr>"

definition exampleRecurring :: "bool \<Rightarrow> recurringStore" where
  "exampleRecurring enabled = \<lparr> gs_ledger = smallLedger\<lparr> st_audit := [exampleAudit], st_occurrences := [exampleBlocked] \<rparr>,
     gs_templates = [exampleTemplate enabled] \<rparr>"

definition exampleReview :: ReviewRecurringInput where
  "exampleReview = \<lparr> ri_OwnerUserID = 1, ri_AuthSessionID = 0, ri_RequestID = [], ri_TemplateID = 1, ri_OccurrenceDate = ''2026-01-31'',
     ri_Reason = ''paid in cash'' \<rparr>"

lemma exampleRecurring_ok: "recurringOk (exampleRecurring enabled)"
proof -
  have "storeOk (smallLedger\<lparr> st_audit := [exampleAudit], st_occurrences := [exampleBlocked] \<rparr>)"
    using smallLedger_ok storeOk_reads [of "smallLedger\<lparr> st_audit := [exampleAudit], st_occurrences := [exampleBlocked] \<rparr>" smallLedger] by simp
  then show ?thesis
    by (simp add: recurringOk_def exampleRecurring_def occurrencesOk_def occurrenceOk_def ownTransactions_def exampleBlocked_def exampleAudit_def auditIDs_def exampleTemplate_def)
qed

lemma example_json: "json_Valid (occurrenceMetadata 1 ''2026-01-31'')"
  by code_simp

lemma example_date: "validRecurringDate ''2026-01-31''"
  by code_simp

lemma example_template: "svc_Template transferEnv (exampleRecurring False) 1 1 = Inr \<lparr> rtm_ID = 1, rtm_Revision = 2,
    rtm_Spec = specFromRecord (templateRecord transferEnv (exampleRecurring False) (exampleTemplate False)), rtm_ArchivedAt = [],
    rtm_CreatedAt = ''2026-01-10T08:00:00Z'', rtm_UpdatedAt = ''2026-02-01T08:00:00Z'', rtm_NextDueOn = [] \<rparr>"
  by (simp add: svc_Template_def RecurringTemplateByID_def listRecurringTemplates_def exampleRecurring_def exampleTemplate_def
      recurringTemplateFromRecord_def specFromRecord_def templateRecord_def orEmpty_def Let_def)

lemma example_metadata: "occurrenceMetadata 1 ''2026-01-31'' = ''{\"template_id\":1,\"occurrence_date\":\"2026-01-31\"}''"
  by code_simp

lemma example_audit: "auditAccepted (reviewAudit exampleReview exampleNow ''paid in cash'' 1)"
  using example_time example_json
  by (simp add: auditAccepted_def reviewAudit_def exampleReview_def example_metadata auditOriginTypes_def Let_def text_literal)

lemma example_review: "\<exists>template. rtm_ID template = 1 \<and> rtm_Revision template = 2 \<and> reviewOccurrence transferEnv (exampleRecurring False) exampleReview = Inr (template, Some exampleBlocked)"
  using example_date example_template
  by (simp add: reviewOccurrence_def exampleReview_def RecurringOccurrencesInRange_def occurrencesOf_def occurrencesIn_def)
    (simp add: exampleRecurring_def exampleBlocked_def)

lemma example_reason': "cleanOptionalText ''paid in cash'' ''skip reason'' transactionTextMaxBytes = Inr ''paid in cash''" "TrimSpace ''paid in cash'' \<noteq> []"
  by (simp_all add: cleanOptionalText_def transactionTextMaxBytes_def text_literal byteVal_def)

lemma example_skip:
  obtains skip gs' where "prepareSkip transferEnv exampleNow (exampleRecurring False) exampleReview = Inr skip"
    "svc_SkipOccurrence skip (exampleRecurring False) = Inr gs'" "exampleBlocked \<notin> set (occurrencesIn gs')"
proof -
  obtain template where t: "rtm_ID template = 1" "rtm_Revision template = 2"
    and r: "reviewOccurrence transferEnv (exampleRecurring False) exampleReview = Inr (template, Some exampleBlocked)" using example_review by blast
  define occurrence where "occurrence = (claimOf template ''2026-01-31'' exampleNow)\<lparr> no_SkipReason := ''paid in cash'' \<rparr>"
  define audit where "audit = reviewAudit exampleReview exampleNow ''paid in cash'' 1"
  have p: "prepareSkip transferEnv exampleNow (exampleRecurring False) exampleReview = Inr (2, occurrence, Some 1, audit)"
    using example_reason' by (simp add: prepareSkip_def r t blockedAttempt_def exampleBlocked_def occurrence_def audit_def) (simp add: exampleReview_def)
  have o: "no_BookID occurrence = BookID" "no_TemplateID occurrence = 1" "no_OccurrenceDate occurrence = ''2026-01-31''"
    by (simp_all add: occurrence_def claimOf_def t)
  obtain A i where a: "insertAuditEvent audit (gs_ledger (exampleRecurring False)) = Inr ((gs_ledger (exampleRecurring False))\<lparr> st_audit := A \<rparr>, i)"
    using audit_accepted [OF example_audit] unfolding audit_def by blast
  define gs1 where "gs1 = (exampleRecurring False)\<lparr> gs_ledger := (gs_ledger (exampleRecurring False))\<lparr> st_audit := A \<rparr> \<rparr>"
  have "auditRecurring audit (exampleRecurring False) = Inr (gs1, i)" by (simp add: auditRecurring_def a gs1_def)
  moreover have "guardRecurringOccurrence (exampleRecurring False) occurrence (Some 1) = Inr ()"
    by (simp add: guardRecurringOccurrence_def findOccurrence_def occurrencesIn_def exampleRecurring_def exampleBlocked_def o)
  moreover have "\<exists>row\<in>set (gs_templates (exampleRecurring False)). tm_book_id row = BookID \<and> tm_id row = 1 \<and> tm_revision row = 2"
    by (simp add: exampleRecurring_def exampleTemplate_def)
  ultimately have w: "svc_SkipOccurrence (2, occurrence, Some 1, audit) (exampleRecurring False) = Inr (updateOccurrence occurrence (skippedOccurrence occurrence i) gs1)"
    by (simp add: svc_SkipOccurrence_def repo_SkipRecurringOccurrence_def o)
  have "exampleBlocked \<notin> set (occurrencesIn (updateOccurrence occurrence (skippedOccurrence occurrence i) gs1))"
    by (simp add: updateOccurrence_def occurrencesIn_def gs1_def exampleRecurring_def o skippedOccurrence_def) (simp add: exampleBlocked_def)
  then show ?thesis using that p w by blast
qed

lemma example_history:
  obtains skip gs' where "recurringHistory transferEnv (exampleRecurring False) [gs', exampleRecurring False]"
    "prepareSkip transferEnv exampleNow (exampleRecurring False) exampleReview = Inr skip" "exampleBlocked \<notin> set (occurrencesIn gs')"
proof -
  obtain skip gs' where s: "prepareSkip transferEnv exampleNow (exampleRecurring False) exampleReview = Inr skip"
    "svc_SkipOccurrence skip (exampleRecurring False) = Inr gs'" "exampleBlocked \<notin> set (occurrencesIn gs')" by (rule example_skip)
  have "recurringHistory transferEnv (exampleRecurring False) [gs', exampleRecurring False]"
    by (rule goesOn [OF recurringHistory.begins _ skips [OF s(1,2)]]) simp
  then show ?thesis using that s by blast
qed


theorem attempt_used_once_witness:
  "\<exists>gs skip. recurringHistory transferEnv (exampleRecurring False) [gs, exampleRecurring False] \<and>
    prepareSkip transferEnv exampleNow (exampleRecurring False) exampleReview = Inr skip \<and>
    svc_SkipOccurrence skip gs \<in> {Inl ErrRecurringOccurrenceMaterialized, Inl ErrRecurringTemplateConflict}"
proof -
  obtain skip gs where h: "recurringHistory transferEnv (exampleRecurring False) [gs, exampleRecurring False]"
    "prepareSkip transferEnv exampleNow (exampleRecurring False) exampleReview = Inr skip" "exampleBlocked \<notin> set (occurrencesIn gs)"
    by (rule example_history)
  obtain template where r: "reviewOccurrence transferEnv (exampleRecurring False) exampleReview = Inr (template, Some exampleBlocked)" using example_review by blast
  have "svc_SkipOccurrence skip gs \<in> {Inl ErrRecurringOccurrenceMaterialized, Inl ErrRecurringTemplateConflict}"
    using attempt_used_once [OF h(1) exampleRecurring_ok _ r h(3), where skip = skip and now = exampleNow] h(2) by simp
  then show ?thesis using h(1,2) by blast
qed



definition exampleSchedule :: RecurringTemplateSpec where
  "exampleSchedule = newTemplateSpec\<lparr> rt_Frequency := ''monthly'', rt_DayOfMonth := Some 31, rt_StartsOn := ''2026-01-15'' \<rparr>"

lemma example_spec: "Validate (recurringSchedule (specFromRecord (templateRecord env gs (exampleTemplate True)))) = Inr ()"
  "parseDateOnly (max (rt_StartsOn (specFromRecord (templateRecord env gs (exampleTemplate True)))) (rt_GenerateFrom (specFromRecord (templateRecord env gs (exampleTemplate True))))) =
    Some (Date 2026 2 1)" "1 \<le> Year (Date 2026 2 1 - 1)"
proof -
  have spec: "recurringSchedule (specFromRecord (templateRecord env gs (exampleTemplate True))) = recurringSchedule exampleSchedule"
    "rt_StartsOn (specFromRecord (templateRecord env gs (exampleTemplate True))) = ''2026-01-15''"
    "rt_GenerateFrom (specFromRecord (templateRecord env gs (exampleTemplate True))) = ''2026-02-01''"
    by (simp_all add: exampleSchedule_def recurringSchedule_def specFromRecord_def templateRecord_def exampleTemplate_def newTemplateSpec_def orEmpty_def)
  have "Validate (recurringSchedule exampleSchedule) = Inr ()" by code_simp
  then show "Validate (recurringSchedule (specFromRecord (templateRecord env gs (exampleTemplate True)))) = Inr ()" by (simp only: spec)
  have "parseDateOnly (max ''2026-01-15'' ''2026-02-01'') = Some (Date 2026 2 1)" by code_simp
  then show "parseDateOnly (max (rt_StartsOn (specFromRecord (templateRecord env gs (exampleTemplate True)))) (rt_GenerateFrom (specFromRecord (templateRecord env gs (exampleTemplate True))))) =
    Some (Date 2026 2 1)" by (simp only: spec)
  show "1 \<le> Year (Date 2026 2 1 - 1)" by code_simp
qed


lemma example_read: "\<exists>template. recurringTemplateFromRecord (templateRecord env gs (exampleTemplate True)) = Inr template"
  using nextDueOn_eq [OF example_spec, of env gs] by (simp add: recurringTemplateFromRecord_def Let_def)

text \<open>A template without postings: every date of it is blocked.\<close>

lemma example_blocked:
  assumes "recurringTemplateFromRecord (templateRecord env gs (exampleTemplate True)) = Inr template"
  shows "\<exists>occurrence draft audit. prepareOccurrence env message now False gs1 input template ''2026-02-28'' = Inr (occurrence, draft, audit)"
proof -
  define spec where "spec = specFromRecord (templateRecord env gs (exampleTemplate True))"
  have t: "rtm_Spec template = spec" using assms by (auto simp: recurringTemplateFromRecord_def Let_def result_simps spec_def)
  have f: "rt_Name spec = ''Rent''" "rt_Frequency spec = ''monthly''" "rt_StartsOn spec = ''2026-01-15''" "rt_EndsOn spec = []" "rt_LeadDays spec = 5"
    "rt_TransactionKind spec = ''ordinary''" "rt_Postings spec = []"
    by (simp_all add: spec_def specFromRecord_def templateRecord_def exampleTemplate_def orEmpty_def)
  have same: "spec\<lparr> rt_Name := ''Rent'', rt_Frequency := ''monthly'', rt_StartsOn := ''2026-01-15'', rt_EndsOn := [] \<rparr> = spec"
    using f by (cases spec) simp
  have "cleanRecurringTemplateName ''Rent'' = Inr ''Rent''"
    by (simp add: cleanRecurringTemplateName_def cleanOptionalText_def transactionTextMaxBytes_def text_literal)
  moreover have "validateRecurringSchedule spec = Inr ()"
    using example_spec(1) [of env gs] f(4) by (simp add: validateRecurringSchedule_def spec_def [symmetric])
      (simp add: spec_def specFromRecord_def templateRecord_def exampleTemplate_def)
  ultimately have "cleanTemplate env (gs_ledger gs1) spec ''2026-02-28'' = Inl TemplatePostingCount"
    by (simp add: cleanTemplate_def f same text_literal Let_def)
  then show ?thesis by (simp add: prepareOccurrence_def t prepareDraft_def blocksOccurrence_def Let_def)
qed

theorem stale_sweep_refused_witness:
  "\<exists>template gs. recurringTemplateFromRecord (templateRecord transferEnv (exampleRecurring True) (exampleTemplate True)) = Inr template \<and>
    recurringHistory transferEnv (exampleRecurring True) [gs, exampleRecurring True] \<and>
    repo_AdvanceRecurringGeneration BookID (rtm_ID template) (rtm_Revision template) ''2026-04-01'' exampleNow gs = Inl DBTemplateConflict"
proof -
  have "isOk (repo_AdvanceRecurringGeneration BookID 1 2 ''2026-03-01'' exampleNow (exampleRecurring True))"
    by (simp add: repo_AdvanceRecurringGeneration_def guardRecurringGeneration_def exampleRecurring_def exampleTemplate_def isOk_def)
  then obtain gs where g: "repo_AdvanceRecurringGeneration BookID 1 2 ''2026-03-01'' exampleNow (exampleRecurring True) = Inr gs" by (auto simp: isOk_def split: sum.splits)
  have h: "recurringHistory transferEnv (exampleRecurring True) [gs, exampleRecurring True]"
    by (rule goesOn [OF recurringHistory.begins _ advances [OF g]]) simp
  have lt: "''2026-02-01'' < ''2026-03-01''" by code_simp
  have "exampleTemplate True \<notin> set (gs_templates gs)"
    using g lt by (auto simp: repo_AdvanceRecurringGeneration_def updateTemplate_def exampleRecurring_def exampleTemplate_def result_simps)
  moreover have "exampleTemplate True \<in> set (gs_templates (exampleRecurring True))" "tm_book_id (exampleTemplate True) = BookID"
    by (simp_all add: exampleRecurring_def exampleTemplate_def)
  moreover obtain template where t: "recurringTemplateFromRecord (templateRecord transferEnv (exampleRecurring True) (exampleTemplate True)) = Inr template"
    using example_read by blast
  moreover obtain occurrence draft audit where
    "prepareOccurrence transferEnv (\<lambda>_. []) exampleNow False (exampleRecurring True) (retryInput exampleReview 1) template ''2026-02-28'' = Inr (occurrence, draft, audit)"
    using example_blocked [OF t] by blast
  ultimately have "repo_AdvanceRecurringGeneration BookID (rtm_ID template) (rtm_Revision template) ''2026-04-01'' exampleNow gs = Inl DBTemplateConflict"
    using stale_sweep_refused [OF h exampleRecurring_ok, of "exampleRecurring True" "exampleTemplate True"] by simp
  then show ?thesis using t h by blast
qed

end
