(* ===== verification/Recurring_Drafts.thy ===== *)
theory Recurring_Drafts
  imports Recurring_Sweep
begin

text \<open>
  What a generated draft is: the template's postings, one entry on the date, balanced in every commodity, although a draft need not be.
\<close>

section \<open>The postings of a template\<close>

definition templateAmount :: "RecurringTemplatePostingSpec \<Rightarrow> int \<times> int \<times> Coefficient \<times> int" where
  "templateAmount p = (rtp_AccountID p, rtp_CommodityID p, rtp_QuantityValue p, rtp_QuantityScale p)"

definition templateVal :: "RecurringTemplatePostingSpec \<Rightarrow> rat" where
  "templateVal p = decVal (BigInt (rtp_QuantityValue p)) (rtp_QuantityScale p)"

definition commoditySum :: "int \<Rightarrow> RecurringTemplatePostingSpec list \<Rightarrow> rat" where
  "commoditySum c ps = (\<Sum>p\<leftarrow>filter (\<lambda>p. rtp_CommodityID p = c) ps. templateVal p)"

definition heldVal :: "(int \<rightharpoonup> ScaledInt) \<Rightarrow> int \<Rightarrow> rat" where
  "heldVal totals c = (case totals c of None \<Rightarrow> 0 | Some t \<Rightarrow> scaledVal t)"

definition totalsOk :: "(int \<rightharpoonup> ScaledInt) \<Rightarrow> bool" where
  "totalsOk totals \<longleftrightarrow> (\<forall>c t. totals c = Some t \<longrightarrow> scaleOk (si_scale t))"

lemma templateTotals_Inr:
  assumes ok: "totalsOk totals" and sc: "storedScale (rtp_QuantityScale p)" and w: "templateTotals totals p = Inr totals'"
  shows "totalsOk totals'" "heldVal totals' c = heldVal totals c + (if rtp_CommodityID p = c then templateVal p else 0)"
proof -
  define held where "held = (case totals (rtp_CommodityID p) of None \<Rightarrow> NewScaledInt | Some t \<Rightarrow> t)"
  have h: "scaleOk (si_scale held)" "scaledVal held = heldVal totals (rtp_CommodityID p)"
    using ok by (auto simp: held_def totalsOk_def heldVal_def NewScaledInt_def scaleOk_def scaledVal_def decVal_def MaxPow10Scale_def split: option.splits)
  obtain t where t: "ScaledInt_Add held (Some (BigInt (rtp_QuantityValue p))) (rtp_QuantityScale p) = Inr t" "si_scale t = max (si_scale held) (rtp_QuantityScale p)"
    "scaledVal t = scaledVal held + templateVal p"
    by (rule Add_ok [OF h(1) storedScale_scaleOk [OF sc], of "BigInt (rtp_QuantityValue p)"]) (simp add: templateVal_def)
  have w': "totals' = totals(rtp_CommodityID p \<mapsto> t)" using w t(1) by (simp add: templateTotals_def held_def [symmetric] ScaledInt_AddCoefficient_def Let_def)
  show "totalsOk totals'" using ok t(2) h(1) storedScale_scaleOk [OF sc] by (auto simp: w' totalsOk_def max_def)
  show "heldVal totals' c = heldVal totals c + (if rtp_CommodityID p = c then templateVal p else 0)" using t(3) h(2) by (auto simp: w' heldVal_def)
qed

lemma templatePostings_Inr:
  assumes "templatePostings keys totals ps = Inr (totals', inputs)" and "totalsOk totals"
  shows "heldVal totals' c = heldVal totals c + commoditySum c ps" "map amountOf inputs = map templateAmount ps" "\<forall>l\<in>set inputs. pi_PostedOn l = []"
proof -
  have "heldVal totals' c = heldVal totals c + commoditySum c ps \<and> map amountOf inputs = map templateAmount ps \<and> (\<forall>l\<in>set inputs. pi_PostedOn l = [])"
    using assms
  proof (induction ps arbitrary: keys totals inputs)
    case (Cons p ps)
    then obtain keys' t1 rest where sc: "storedScale (rtp_QuantityScale p)" and t: "templateTotals totals p = Inr t1"
      and r: "templatePostings keys' t1 ps = Inr (totals', rest)" and i: "inputs = templatePostingInput (p\<lparr> rtp_LineKey := TrimSpace (rtp_LineKey p) \<rparr>) # rest"
      by (auto simp: Let_def result_simps storedScale_def MaxCryptoScale_def not_less)
    note s = templateTotals_Inr [OF Cons.prems(2) sc t]
    note ih = Cons.IH [OF r s(1)]
    show ?case using ih s(2) [of c] by (simp add: i commoditySum_def templatePostingInput_def amountOf_def templateAmount_def)
  qed (simp add: commoditySum_def)
  then show "heldVal totals' c = heldVal totals c + commoditySum c ps" "map amountOf inputs = map templateAmount ps" "\<forall>l\<in>set inputs. pi_PostedOn l = []" by blast+
qed

section \<open>One entry\<close>

lemma template_entries:
  assumes "writtenEntries env d (templateTransaction status date entryDate spec postings) = Inr entries" and "\<forall>l\<in>set postings. pi_PostedOn l = []"
  shows "entries = [templateEntry entryDate postings]"
proof -
  have "TrimSpace ''ordinary'' = ''ordinary''" by (simp add: text_literal)
  then show ?thesis using assms
    by (auto simp: writtenEntries_def templateTransaction_def templateEntry_def buildExchangeLegs_def exchangeEntryKind_def groupPostingsByPostedOn_def usesPostedOn_def
        list_ex_iff result_simps split: if_splits)
qed

lemma cleaned_template:
  assumes "cleanAgainst env st deps options (templateTransaction status date entryDate spec postings) = Inr (cleaned, dependencies)"
    and "\<forall>l\<in>set postings. pi_PostedOn l = []"
  obtains entry where "ts_JournalEntries cleaned = [entry]" "map specAmount (es_Postings entry) = map amountOf postings"
    "cleanRequiredDate (entryDay (ts_TransactionDate cleaned) (templateEntry entryDate postings)) ''entry date'' = Inr (es_EntryDate entry)"
    "cleanTransactionDate (env\<lparr> env_tables := st_reference st \<rparr>) options (templateTransaction status date entryDate spec postings) = Inr (ts_TransactionDate cleaned)"
proof -
  from assms(1) obtain s where c: "cleanTransactionSpec (env\<lparr> env_tables := st_reference st \<rparr>) options (templateTransaction status date entryDate spec postings)
      \<lparr> cs_deps = deps, cs_drawn = 0 \<rparr> = (s, Inr cleaned)"
    by (auto simp: cleanAgainst_def split: prod.splits sum.splits)
  obtain journal where j: "cleanTransactionDate (env\<lparr> env_tables := st_reference st \<rparr>) options (templateTransaction status date entryDate spec postings) = Inr (ts_TransactionDate cleaned)"
    "writtenEntries (env\<lparr> env_tables := st_reference st \<rparr>) (ts_TransactionDate cleaned) (templateTransaction status date entryDate spec postings) = Inr journal"
    "list_all2 (entryWritten (env\<lparr> env_tables := st_reference st \<rparr>) options \<lparr> cs_deps = deps, cs_drawn = 0 \<rparr> s (ts_TransactionDate cleaned)) journal (ts_JournalEntries cleaned)"
    using c by (rule cleanTransactionSpec_Inr)
  have journal: "journal = [templateEntry entryDate postings]" by (rule template_entries [OF j(2) assms(2)])
  obtain entry where e: "ts_JournalEntries cleaned = [entry]"
    and w: "entryWritten (env\<lparr> env_tables := st_reference st \<rparr>) options \<lparr> cs_deps = deps, cs_drawn = 0 \<rparr> s (ts_TransactionDate cleaned) (templateEntry entryDate postings) entry"
    using j(3) unfolding journal by (auto simp: list_all2_Cons1)
  have "map specAmount (es_Postings entry) = map amountOf postings"
    using written_amounts [OF j(3)] by (simp add: journal e inputPostings_def templateEntry_def)
  moreover have "cleanRequiredDate (entryDay (ts_TransactionDate cleaned) (templateEntry entryDate postings)) ''entry date'' = Inr (es_EntryDate entry)"
    using w by (simp add: entryWritten_def)
  ultimately show ?thesis using that e j(1) by blast
qed

section \<open>The draft\<close>

lemma cleanTemplate_Inr:
  assumes "cleanTemplate env st spec today = Inr clean"
  shows "map templateAmount (rt_Postings clean) = map templateAmount (rt_Postings spec)" "commoditySum c (rt_Postings spec) = 0"
proof -
  define spec1 where "spec1 = spec\<lparr> rt_Name := projr (cleanRecurringTemplateName (rt_Name spec)), rt_Frequency := TrimSpace (rt_Frequency spec),
    rt_StartsOn := TrimSpace (rt_StartsOn spec), rt_EndsOn := TrimSpace (rt_EndsOn spec), rt_TransactionKind := TrimSpace (rt_TransactionKind spec) \<rparr>"
  have ps: "rt_Postings spec1 = rt_Postings spec" by (simp add: spec1_def)
  from assms obtain totals postings cleaned dependencies options entryDate date where t: "templatePostings [] Map.empty (rt_Postings spec) = Inr (totals, postings)"
    and b: "\<forall>posting\<in>set (rt_Postings spec). case totals (rtp_CommodityID posting) of None \<Rightarrow> True | Some t \<Rightarrow> ScaledInt_Sign t = 0"
    and c: "cleanAgainst env st None options (templateTransaction ''posted'' date [] spec1 postings) = Inr (cleaned, dependencies)"
    and clean: "clean = cleanedTemplate spec1 cleaned"
    by (auto simp: cleanTemplate_def Let_def result_simps spec1_def)
  have ok: "totalsOk Map.empty" by (simp add: totalsOk_def)
  note p = templatePostings_Inr [OF t ok]
  obtain entry where e: "ts_JournalEntries cleaned = [entry]" "map specAmount (es_Postings entry) = map amountOf postings" by (rule cleaned_template [OF c p(3)])
  have "map templateAmount (rt_Postings clean) = map specAmount (es_Postings entry)" by (simp add: clean cleanedTemplate_def e(1) templateAmount_def specAmount_def)
  then show "map templateAmount (rt_Postings clean) = map templateAmount (rt_Postings spec)" using e(2) p(2) by simp
  have sum: "heldVal totals c = commoditySum c (rt_Postings spec)" using p(1) [of c] by (simp add: heldVal_def)
  show "commoditySum c (rt_Postings spec) = 0"
  proof (cases "c \<in> rtp_CommodityID ` set (rt_Postings spec)")
    case True
    then have "case totals c of None \<Rightarrow> True | Some t \<Rightarrow> ScaledInt_Sign t = 0" using b by blast
    then have "heldVal totals c = 0" by (auto simp: heldVal_def ScaledInt_Sign_def scaledVal_def decVal_def sgn_eq_0_iff split: option.splits)
    then show ?thesis using sum by simp
  next
    case False
    then have "filter (\<lambda>p. rtp_CommodityID p = c) (rt_Postings spec) = []" by (auto simp: filter_empty_conv)
    then show ?thesis by (simp add: commoditySum_def)
  qed
qed

text \<open>
  C19. A generated draft is the template on its date: a draft of scheduled origin dated that day, with one entry on that day whose postings
  are the template's, account, commodity, amount and scale, in its order; and although a draft is not required to balance, every commodity of
  it sums to exactly zero. Nothing else is added.
\<close>

theorem generated_draft_is_the_template:
  assumes "prepareDraft env now st input spec (formatDateOnly day) = Inr params" and "fourDigitYear day"
  shows "ct_OriginType params = ''scheduled'' \<and> ts_Status (ct_Spec params) = ''draft'' \<and> ts_TransactionDate (ct_Spec params) = formatDateOnly day \<and>
    (\<exists>entry. ts_JournalEntries (ct_Spec params) = [entry] \<and> es_EntryDate entry = formatDateOnly day \<and>
       map specAmount (es_Postings entry) = map templateAmount (rt_Postings spec)) \<and>
    (\<forall>c. commoditySum c (rt_Postings spec) = 0)"
proof -
  let ?date = "formatDateOnly day"
  from assms(1) obtain clean p0 where cl: "cleanTemplate env st spec ?date = Inr clean"
    and p: "prepareCreateTransactionForWrite env now st (draftInput input clean ?date) = Inr p0" "params = p0\<lparr> ct_CreatedAt := now \<rparr>"
    by (auto simp: prepareDraft_def result_simps)
  let ?postings = "map templatePostingInput (rt_Postings clean)"
  from p(1) obtain deps options dependencies where c: "cleanAgainst env st deps options (templateTransaction ''draft'' ?date ?date clean ?postings) = Inr (ct_Spec p0, dependencies)"
    and o: "ct_OriginType p0 = ''scheduled''" and f: "op_ForcedStatus options = []"
    by (auto simp: prepareCreateTransactionForWrite_def prepareCreateTransactionForWriteWithOptions_def prepareCreateTransaction_def draftInput_def plainOptions_def Let_def result_simps)
  obtain entry where e: "ts_JournalEntries (ct_Spec p0) = [entry]" "map specAmount (es_Postings entry) = map amountOf ?postings"
    "cleanRequiredDate (entryDay (ts_TransactionDate (ct_Spec p0)) (templateEntry ?date ?postings)) ''entry date'' = Inr (es_EntryDate entry)"
    "cleanTransactionDate (env\<lparr> env_tables := st_reference st \<rparr>) options (templateTransaction ''draft'' ?date ?date clean ?postings) = Inr (ts_TransactionDate (ct_Spec p0))"
    by (rule cleaned_template [OF c]) (simp add: templatePostingInput_def)
  have trim: "TrimSpace ?date = ?date" by (rule TrimSpace_date [OF assms(2)])
  have date: "ts_TransactionDate (ct_Spec p0) = ?date"
    using e(4) trim by (simp add: cleanTransactionDate_def templateTransaction_def cleanRequiredDate_Inr)
  have entry: "es_EntryDate entry = ?date" using e(3) trim by (simp add: entryDay_def templateEntry_def cleanRequiredDate_Inr)
  have "amountOf \<circ> templatePostingInput = templateAmount" by (rule ext) (simp add: templatePostingInput_def amountOf_def templateAmount_def)
  then have amounts: "map specAmount (es_Postings entry) = map templateAmount (rt_Postings spec)"
    using e(2) cleanTemplate_Inr(1) [OF cl] by (simp only: map_map)
  have "ts_Status (ct_Spec p0) = ''draft''"
  proof -
    from c obtain s where "cleanTransactionSpec (env\<lparr> env_tables := st_reference st \<rparr>) options (templateTransaction ''draft'' ?date ?date clean ?postings)
        \<lparr> cs_deps = deps, cs_drawn = 0 \<rparr> = (s, Inr (ct_Spec p0))" by (auto simp: cleanAgainst_def split: prod.splits sum.splits)
    then have "cleanStatus options ''draft'' = Inr (ts_Status (ct_Spec p0))" by (rule cleanTransactionSpec_Inr) (simp add: templateTransaction_def)
    moreover have "TrimSpace ''draft'' = ''draft''" by (simp add: text_literal)
    ultimately show ?thesis using f by (auto simp: cleanStatus_def Let_def split: if_splits)
  qed
  then show ?thesis using o date e(1) entry amounts cleanTemplate_Inr(2) [OF cl] by (simp add: p(2))
qed

section \<open>A rent\<close>

definition rentPosting :: "int \<Rightarrow> string \<Rightarrow> int \<Rightarrow> RecurringTemplatePostingSpec" where
  "rentPosting account key v = \<lparr> rtp_LineKey = key, rtp_AccountID = account, rtp_QuantityValue = New v, rtp_QuantityScale = 2, rtp_CommodityID = 7, rtp_Memo = [] \<rparr>"

definition rentSpec :: RecurringTemplateSpec where
  "rentSpec = newTemplateSpec\<lparr> rt_Name := ''Rent'', rt_Frequency := ''monthly'', rt_DayOfMonth := Some 1, rt_StartsOn := ''2026-01-15'',
     rt_GenerateFrom := ''2026-06-01'', rt_Postings := [rentPosting 1 ''a'' (- 1), rentPosting 2 ''b'' 1] \<rparr>"

definition rentLedger :: store where
  "rentLedger = \<lparr> st_books = [BookID], st_reference = env_tables transferEnv, st_transactions = [], st_versions = [], st_lines = [],
     st_transaction_tags = [], st_posting_tags = [], st_checkpoints = [], st_audit = [], st_deletions = [], st_occurrences = [],
     st_operation_links = [], st_lot_sources = [], st_lot_events = [] \<rparr>"

definition rentInput :: GenerateRecurringInput where
  "rentInput = \<lparr> gi_OwnerUserID = 1, gi_AuthSessionID = 0, gi_RequestID = [], gi_TemplateID = 1 \<rparr>"

text \<open>The options of a create, whichever status it defaults to: no stored lines.\<close>

definition freshOptions :: "cleanTransactionOptions \<Rightarrow> bool" where
  "freshOptions options \<longleftrightarrow> op_ForcedStatus options = [] \<and> op_ExistingLineKeys options = None \<and> op_ExistingPostings options = Map.empty \<and>
     \<not> op_AllowSubledgerManagedPostings options \<and> op_DefaultStatus options = ''posted''"

lemma rent_posting:
  assumes "freshOptions options" and "account = 1 \<and> key = ''a'' \<and> v = - 1 \<or> account = 2 \<and> key = ''b'' \<and> v = 1"
  shows "\<exists>s' p. cleanPosting transferEnv options ''2026-06-01'' (templatePostingInput (rentPosting account key v)) s = (s', Inr p) \<and>
    ps_LineKey p = key \<and> ps_AccountID p = account \<and> ps_CommodityID p = 7 \<and> ps_QuantityValue p = New v \<and> ps_QuantityScale p = 2 \<and> ps_Memo p = []"
  using assms
  by (auto simp: posting_eval rule_eval templatePostingInput_def rentPosting_def freshOptions_def word_literals day_literals Coefficient_Cmp_def bigCmp_def Let_def)

definition rentPostings :: "PostingSpec list \<Rightarrow> bool" where
  "rentPostings ps \<longleftrightarrow> map (\<lambda>p. (ps_LineKey p, ps_AccountID p, ps_CommodityID p, ps_QuantityValue p, ps_QuantityScale p, ps_Memo p)) ps =
     [(''a'', 1, 7, New (- 1), 2, []), (''b'', 2, 7, New 1, 2, [])]"

definition rentInputs :: "PostingInput list" where
  "rentInputs = [templatePostingInput (rentPosting 1 ''a'' (- 1)), templatePostingInput (rentPosting 2 ''b'' 1)]"

lemma rent_words: "TrimSpace ''ordinary'' = ''ordinary''" "TrimSpace ''draft'' = ''draft''" "TrimSpace ''Rent'' = ''Rent''" "TrimSpace ''monthly'' = ''monthly''"
  "TrimSpace ''2026-01-15'' = ''2026-01-15''" "TrimSpace ''scheduled'' = ''scheduled''" "TrimSpace ''recurring.occurrence.generate'' = ''recurring.occurrence.generate''"
  by (simp_all add: text_literal)

lemma rent_entry:
  assumes "freshOptions options" and "day = [] \<or> day = ''2026-06-01''"
  shows "\<exists>s' e. cleanJournalEntry transferEnv options ''2026-06-01'' (templateEntry day rentInputs) s = (s', Inr e) \<and> rentPostings (es_Postings e)"
proof -
  obtain s1 p where p: "cleanPosting transferEnv options ''2026-06-01'' (templatePostingInput (rentPosting 1 ''a'' (- 1))) s = (s1, Inr p)"
      "ps_LineKey p = ''a''" "ps_AccountID p = 1" "ps_CommodityID p = 7" "ps_QuantityValue p = New (- 1)" "ps_QuantityScale p = 2" "ps_Memo p = []"
    using rent_posting [OF assms(1), of 1 "''a''" "- 1" s] by auto
  obtain s2 q where q: "cleanPosting transferEnv options ''2026-06-01'' (templatePostingInput (rentPosting 2 ''b'' 1)) s1 = (s2, Inr q)"
      "ps_LineKey q = ''b''" "ps_AccountID q = 2" "ps_CommodityID q = 7" "ps_QuantityValue q = New 1" "ps_QuantityScale q = 2" "ps_Memo q = []"
    using rent_posting [OF assms(1), of 2 "''b''" 1 s1] by auto
  have w: "mapW (cleanPosting transferEnv options ''2026-06-01'') rentInputs s = (s2, Inr [p, q])"
    by (simp add: rentInputs_def bindW_def liftW_def p(1) q(1))
  have d: "entryDay ''2026-06-01'' (templateEntry day rentInputs) = ''2026-06-01''" using assms(2) by (auto simp: entryDay_def templateEntry_def day_literals)
  then show ?thesis using p(2-) q(2-) d
    by (simp add: cleanJournalEntry_def templateEntry_def entryDay_def Let_def bindW_def [of "liftW _"] day_literals rent_words
        entryKinds_def cleanOptionalText_def cleanSizedJSONObject_def transactionTextMaxBytes_def sideOk_def liftW_def)
      (simp add: bindW_def w rentPostings_def)
qed

lemma rent_balanced: "rentPostings ps \<Longrightarrow> length ps = 2" "rentPostings ps \<Longrightarrow> map ps_LineKey ps = [''a'', ''b'']" "rentPostings ps \<Longrightarrow> es_Postings e = ps \<Longrightarrow> validateBalanced [e] = Inr ()"
proof -
  assume r: "rentPostings ps"
  then obtain p q where ps: "ps = [p, q]" by (auto simp: rentPostings_def map_eq_Cons_conv)
  have pq: "ps_LineKey p = ''a''" "ps_LineKey q = ''b''" "ps_CommodityID p = 7" "ps_CommodityID q = 7" "ps_QuantityValue p = New (- 1)" "ps_QuantityValue q = New 1"
    "ps_QuantityScale p = 2" "ps_QuantityScale q = 2" using r by (simp_all add: rentPostings_def ps)
  show "length ps = 2" "map ps_LineKey ps = [''a'', ''b'']" using pq by (simp_all add: ps)
  assume e: "es_Postings e = ps"
  have "specScalesOk (es_Postings e)" using pq by (simp add: e ps specScalesOk_def scaleOk_def MaxPow10Scale_def)
  moreover have "map specLeg (es_Postings e) = [(7, decVal (- 1) 2), (7, decVal 1 2)]" using pq by (simp add: e ps specLeg_def)
  ultimately show "validateBalanced [e] = Inr ()"
    using validateBalancedFrom_exact [of "[e]" 0] by (simp add: validateBalanced_def entryBalances_def balancedLegs_def)
qed

lemma rent_accepted:
  assumes o: "freshOptions options" and "status = ''posted'' \<or> status = ''draft''" and "day = [] \<or> day = ''2026-06-01''"
    and spec: "rt_TransactionKind spec = ''ordinary''" "rt_PayeeID spec = None" "rt_PayeeName spec = []" "rt_Description spec = []" "rt_NoteMarkdown spec = []" "rt_TagIDs spec = []"
  shows "\<exists>s' cleaned e. cleanTransactionSpec transferEnv options (templateTransaction status ''2026-06-01'' day spec rentInputs) s = (s', Inr cleaned) \<and>
    ts_JournalEntries cleaned = [e] \<and> rentPostings (es_Postings e) \<and> ts_PayeeID cleaned = None \<and> ts_PayeeName cleaned = None \<and> ts_Description cleaned = [] \<and>
    ts_NoteMarkdown cleaned = [] \<and> ts_TagIDs cleaned = [] \<and> ts_Status cleaned = status"
proof -
  let ?input = "templateTransaction status ''2026-06-01'' day spec rentInputs"
  obtain s' e where e: "cleanJournalEntry transferEnv options ''2026-06-01'' (templateEntry day rentInputs) s = (s', Inr e)" and r: "rentPostings (es_Postings e)"
    using rent_entry [OF o assms(3)] by blast
  have undated: "pi_PostedOn l = []" if "l \<in> set rentInputs" for l using that by (auto simp: rentInputs_def templatePostingInput_def)
  have "validateBalanced [e] = Inr ()" by (rule rent_balanced(3) [OF r refl])
  moreover have "writtenEntries transferEnv ''2026-06-01'' ?input = Inr [templateEntry day rentInputs]"
    using undated by (simp add: writtenEntries_def buildExchangeLegs_def conversionSidesOk_def groupPostingsByPostedOn_def usesPostedOn_def templateTransaction_def
        templateEntry_def rent_words exchangeEntryKind_def list_ex_iff)
  moreover have "cleanTransactionDate transferEnv options ?input = Inr ''2026-06-01''"
    by (simp add: cleanTransactionDate_def templateTransaction_def day_literals)
  moreover have "cleanPayee transferEnv ?input = Inr (None, [])"
    by (simp add: cleanPayee_def templateTransaction_def spec cleanOptionalText_def payeeNameMaxBytes_def)
  moreover have "cleanStatus options (ti_Status ?input) = Inr status"
    using assms(2) o by (auto simp: cleanStatus_def templateTransaction_def word_literals rent_words freshOptions_def transactionStatuses_def)
  moreover have "cleanEntries transferEnv options ''2026-06-01'' 0 [templateEntry day rentInputs] s = (s', Inr [e])"
    using rent_balanced(1) [OF r] by (simp add: bindW_def liftW_def e)
  moreover have "validateLineKeysUnique [e] = Inr ()" using rent_balanced(2) [OF r] by (simp add: validateLineKeysUnique_def)
  moreover have "ti_TransactionKind ?input = ''ordinary''" "ti_Description ?input = []" "ti_ExternalRefHint ?input = []" "ti_NoteMarkdown ?input = []" "ti_MetadataJSON ?input = []" "ti_TagIDs ?input = []"
    by (simp_all add: templateTransaction_def spec)
  ultimately show ?thesis using r
    by (simp add: cleanTransactionSpec_def Let_def bindW_def liftW_def cleanOptionalText_def cleanOptionalMultilineText_def nullableSQLString_def
        cleanSizedJSONObject_def cleanTagIDs_def transactionTextMaxBytes_def transactionNoteMaxBytes_def rent_words transactionKinds_def
        del: cleanEntries.simps)
qed

lemma rent_env: "transferEnv\<lparr> env_tables := st_reference rentLedger \<rparr> = transferEnv"
  by (simp add: rentLedger_def transferEnv_def)

lemma rent_totals: "\<exists>totals. templatePostings [] Map.empty (rt_Postings rentSpec) = Inr (totals, rentInputs) \<and> (\<exists>t. totals 7 = Some t \<and> ScaledInt_Sign t = 0)"
  by (simp add: rentSpec_def rentInputs_def rentPosting_def templatePostingInput_def templateTotals_def sum_eval word_literals MaxCryptoScale_def Let_def)

lemma rent_schedule: "isOk (Validate (recurringSchedule rentSpec))" "max ''2026-06-01'' (rt_StartsOn rentSpec) = ''2026-06-01''"
  by code_simp+

lemma rent_investments: "\<not> list_ex (investmentPosting transferEnv (st_reference rentLedger)) (rt_Postings rentSpec)"
  by (simp add: rentSpec_def rentPosting_def investmentPosting_def accountBaseKind_def currentCommodityKind_def rentLedger_def rule_eval subledgerManagedBaseKind_def)

lemma rent_clean: "\<exists>clean. cleanTemplate transferEnv rentLedger rentSpec ''2026-06-01'' = Inr clean \<and> map templatePostingInput (rt_Postings clean) = rentInputs \<and>
  rt_TransactionKind clean = ''ordinary'' \<and> rt_PayeeID clean = None \<and> rt_PayeeName clean = [] \<and> rt_Description clean = [] \<and> rt_NoteMarkdown clean = [] \<and> rt_TagIDs clean = []"
proof -
  have fields: "rt_Name rentSpec = ''Rent''" "rt_Frequency rentSpec = ''monthly''" "rt_StartsOn rentSpec = ''2026-01-15''" "rt_EndsOn rentSpec = []"
    "rt_TransactionKind rentSpec = ''ordinary''" "rt_LeadDays rentSpec = 5" "length (rt_Postings rentSpec) = 2" "rt_PayeeID rentSpec = None" "rt_PayeeName rentSpec = []"
    "rt_Description rentSpec = []" "rt_NoteMarkdown rentSpec = []" "rt_TagIDs rentSpec = []" "\<forall>p\<in>set (rt_Postings rentSpec). rtp_CommodityID p = 7"
    by (simp_all add: rentSpec_def newTemplateSpec_def rentPosting_def)
  have spec: "rentSpec\<lparr> rt_Name := ''Rent'', rt_Frequency := ''monthly'', rt_StartsOn := ''2026-01-15'', rt_EndsOn := [] \<rparr> = rentSpec"
    "rentSpec\<lparr> rt_TransactionKind := ''ordinary'' \<rparr> = rentSpec"
    by (simp_all add: rentSpec_def newTemplateSpec_def)
  have name: "cleanRecurringTemplateName ''Rent'' = Inr ''Rent''"
    by (simp add: cleanRecurringTemplateName_def cleanOptionalText_def transactionTextMaxBytes_def text_literal)
  have schedule: "validateRecurringSchedule rentSpec = Inr ()"
    using rent_schedule(1) by (simp add: validateRecurringSchedule_def) (simp add: rentSpec_def newTemplateSpec_def)
  obtain totals t where totals: "templatePostings [] Map.empty (rt_Postings rentSpec) = Inr (totals, rentInputs)" "totals 7 = Some t" "ScaledInt_Sign t = 0"
    using rent_totals by blast
  have options: "freshOptions (plainOptions\<lparr> op_DefaultStatus := ''posted'' \<rparr>)" by (simp add: freshOptions_def plainOptions_def)
  obtain s' cleaned e where c: "cleanTransactionSpec transferEnv (plainOptions\<lparr> op_DefaultStatus := ''posted'' \<rparr>) (templateTransaction ''posted'' ''2026-06-01'' [] rentSpec rentInputs)
      \<lparr> cs_deps = None, cs_drawn = 0 \<rparr> = (s', Inr cleaned)" "ts_JournalEntries cleaned = [e]" "rentPostings (es_Postings e)" "ts_PayeeID cleaned = None" "ts_PayeeName cleaned = None"
      "ts_Description cleaned = []" "ts_NoteMarkdown cleaned = []" "ts_TagIDs cleaned = []"
    using rent_accepted [OF options, of "''posted''" "[]" rentSpec "\<lparr> cs_deps = None, cs_drawn = 0 \<rparr>"] fields by auto
  have a: "cleanAgainst transferEnv rentLedger None (plainOptions\<lparr> op_DefaultStatus := ''posted'' \<rparr>) (templateTransaction ''posted'' ''2026-06-01'' [] rentSpec rentInputs) =
      Inr (cleaned, dependencies_list (cs_deps s'))"
    by (simp add: cleanAgainst_def rent_env c(1))
  have "cleanTemplate transferEnv rentLedger rentSpec ''2026-06-01'' = Inr (cleanedTemplate rentSpec cleaned)"
    using rent_investments rent_schedule(2) fields(13) totals
    by (simp add: cleanTemplate_def fields(1-7) name rent_words spec schedule a Let_def)
  moreover have "map templatePostingInput (rt_Postings (cleanedTemplate rentSpec cleaned)) = rentInputs"
    using c(3) by (auto simp: cleanedTemplate_def c(2) rentPostings_def map_eq_Cons_conv rentInputs_def templatePostingInput_def rentPosting_def)
  ultimately show ?thesis using c(4-8) fields by (simp add: cleanedTemplate_def orEmpty_def)
qed

lemma rent_draft: "\<exists>params. prepareDraft transferEnv ''2026-06-01T08:00:00Z'' rentLedger rentInput rentSpec ''2026-06-01'' = Inr params"
proof -
  obtain clean where clean: "cleanTemplate transferEnv rentLedger rentSpec ''2026-06-01'' = Inr clean" "map templatePostingInput (rt_Postings clean) = rentInputs"
    "rt_TransactionKind clean = ''ordinary''" "rt_PayeeID clean = None" "rt_PayeeName clean = []" "rt_Description clean = []" "rt_NoteMarkdown clean = []" "rt_TagIDs clean = []"
    using rent_clean by blast
  define options where "options = plainOptions\<lparr> op_OwnerUserID := 1, op_DefaultStatus := ''posted'' \<rparr>"
  have "freshOptions options" by (simp add: options_def freshOptions_def plainOptions_def)
  then obtain s' cleaned e where c: "cleanTransactionSpec transferEnv options (templateTransaction ''draft'' ''2026-06-01'' ''2026-06-01'' clean rentInputs)
      \<lparr> cs_deps = Some [], cs_drawn = 0 \<rparr> = (s', Inr cleaned)" "ts_Status cleaned = ''draft''"
    using rent_accepted [of options "''draft''" "''2026-06-01''" clean "\<lparr> cs_deps = Some [], cs_drawn = 0 \<rparr>"] clean(3-8) by auto
  have a: "cleanAgainst transferEnv rentLedger (Some []) options (templateTransaction ''draft'' ''2026-06-01'' ''2026-06-01'' clean rentInputs) = Inr (cleaned, dependencies_list (cs_deps s'))"
    by (simp add: cleanAgainst_def rent_env c(1))
  have r: "cleanChangeReason ''generated recurring draft'' ''created transaction'' = Inr ''generated recurring draft''"
    by (simp add: cleanChangeReason_def changeReasonMaxBytes_def text_literal byteVal_def)
  have "reconciliationCandidatesFromSpec cleaned = []" by (simp add: reconciliationCandidatesFromSpec_def c(2))
  moreover have "resolveCheckpointRefs rentLedger [] = []" by (simp add: resolveCheckpointRefs_def periodScopedCheckpointInvalidationRefs_def)
  ultimately have "\<exists>p0. prepareCreateTransactionForWrite transferEnv ''2026-06-01T08:00:00Z'' rentLedger (draftInput rentInput clean ''2026-06-01'') = Inr p0"
    using a by (simp add: prepareCreateTransactionForWrite_def prepareCreateTransactionForWriteWithOptions_def prepareCreateTransaction_def draftInput_def rentInput_def
        rent_words clean(2) options_def [symmetric] r)
  then show ?thesis by (auto simp: prepareDraft_def clean(1))
qed

theorem generated_draft_is_the_template_witness:
  "\<exists>params entry. prepareDraft transferEnv ''2026-06-01T08:00:00Z'' rentLedger rentInput rentSpec (formatDateOnly (Date 2026 6 1)) = Inr params \<and>
    ts_JournalEntries (ct_Spec params) = [entry] \<and> map specAmount (es_Postings entry) = [(1, 7, New (- 1), 2), (2, 7, New 1, 2)]"
proof -
  have d: "formatDateOnly (Date 2026 6 1) = ''2026-06-01''" "fourDigitYear (Date 2026 6 1)" unfolding fourDigitYear_def by code_simp+
  obtain params where p: "prepareDraft transferEnv ''2026-06-01T08:00:00Z'' rentLedger rentInput rentSpec (formatDateOnly (Date 2026 6 1)) = Inr params"
    using rent_draft by (auto simp: d(1))
  have "map templateAmount (rt_Postings rentSpec) = [(1, 7, New (- 1), 2), (2, 7, New 1, 2)]" by (simp add: rentSpec_def rentPosting_def templateAmount_def)
  then show ?thesis using generated_draft_is_the_template [OF p d(2)] p by auto
qed

end
