(* ===== verification/Spec2Isabelle.thy ===== *)
theory Spec2Isabelle
  imports Recur Throttle Statement_History Recurring_History Recurring_Drafts
begin

text \<open>
  A verification development for the backend of Rekenraam, a self-hosted double-entry ledger: a Go service over one
  SQLite database. Paths below are relative to \<^verbatim>\<open>src/backend/internal\<close>.

  \<^bold>\<open>The program.\<close> A request reaches a handler of \<^verbatim>\<open>api\<close>, which calls a service of \<^verbatim>\<open>app\<close>. The service validates the
  request against what it reads, builds the specification of a transaction, and calls a repository of \<^verbatim>\<open>db\<close>, which
  commits it in one SQLite transaction. Between the two another request may commit, so the repository checks again
  whatever the preparation relied on: the version of the transaction, the versions of the reference data, the checkpoints
  in the way. Transactions are never rewritten: each change appends a version with its own journal entries and
  postings, and the latest version counts. An account is reconciled against a bank statement in a session; finishing it
  leaves a checkpoint, which closes the account's register up to a boundary (a day, and a place within the day). A later
  write that would change a closed balance is refused, or invalidates the checkpoints the user has reviewed and named.

  \<^bold>\<open>Ground.\<close> \<^verbatim>\<open>Prelude\<close> has results (\<open>'e + 'a\<close>, an error or a value), the bytes of a Go string with the parts of
  \<^verbatim>\<open>strings\<close> and \<^verbatim>\<open>unicode\<close> the code uses, and decimal numerals. \<^verbatim>\<open>Exact\<close> is the package \<^verbatim>\<open>exact\<close>: coefficients
  (\<^verbatim>\<open>coefficient.go\<close>), decimal text (\<^verbatim>\<open>decimal.go\<close>), scaled sums (\<^verbatim>\<open>scaled.go\<close>) and rates (\<^verbatim>\<open>rate.go\<close>); the locale
  \<^verbatim>\<open>accumulator\<close> is the contract of a running sum. \<^verbatim>\<open>Go_Time\<close> is the calendar of package \<^verbatim>\<open>time\<close>, \<^verbatim>\<open>Go_JSON\<close> the scanner
  behind \<^verbatim>\<open>json.Valid\<close> and \<^verbatim>\<open>json.Compact\<close>.

  \<^bold>\<open>Schedules.\<close> \<^verbatim>\<open>Recur\<close> is \<^verbatim>\<open>recur/schedule.go\<close>: the series of a schedule, the walk over it, the occurrences in a window
  and the next one. They are proved to be the dates the schedule denotes, in order and without gaps, up to the
  code's bound on a window.

  \<^bold>\<open>Requests into journals.\<close> \<^verbatim>\<open>Ledger_Types\<close> holds the records of \<^verbatim>\<open>app/transactions_types.go\<close> and
  \<^verbatim>\<open>db/transactions_types.go\<close>. \<^verbatim>\<open>Ledger_Rules\<close> is \<^verbatim>\<open>db/transactions_rules.go\<close> and the other lookups of a write, with the
  collector of the versions a write depends on; the locale \<^verbatim>\<open>account_rules\<close> is the contract of an effective-dated lookup.
  \<^verbatim>\<open>Posted_On\<close> (\<^verbatim>\<open>app/transactions_posted_on.go\<close>) splits an entry whose postings clear on other days and bridges the days;
  \<^verbatim>\<open>Exchange\<close> (\<^verbatim>\<open>app/transactions_exchange.go\<close>, \<^verbatim>\<open>app/transactions_transfer_shape.go\<close>,
  \<^verbatim>\<open>app/transactions_restatement.go\<close>) routes a currency exchange through the trading accounts and reads a stored
  journal back into the request it came from. \<^verbatim>\<open>Validate\<close> (\<^verbatim>\<open>app/transactions_validate.go\<close>) is the whole of
  \<^verbatim>\<open>cleanTransactionSpec\<close>. The lemmas: each commodity of each journal balances exactly; nothing but system postings is
  added to a request; an accepted transaction satisfies every rule of its accounts, commodities, payees and tags; a stored journal
  is written again as it was.

  \<^bold>\<open>The ledger.\<close> \<^verbatim>\<open>Store\<close> holds the tables as lists of rows, the reads, the audit events and the writing of a version
  (\<^verbatim>\<open>db/transactions_read.go\<close>, \<^verbatim>\<open>db/transactions_write.go\<close>, \<^verbatim>\<open>db/audit.go\<close>). \<^verbatim>\<open>Writes\<close> has the repository's create,
  update, void, unvoid, soft delete, restore, approve and hard delete of a draft; \<^verbatim>\<open>Moves\<close> and \<^verbatim>\<open>Reorder\<close> the
  reorderings of a day (\<^verbatim>\<open>db/transactions_move.go\<close>, \<^verbatim>\<open>db/transactions_reorder.go\<close>, \<^verbatim>\<open>app/transactions_move.go\<close>);
  \<^verbatim>\<open>Lifecycle\<close> the service's side of each write (\<^verbatim>\<open>app/transactions_write.go\<close>); \<^verbatim>\<open>Checkpoints\<close> the guard of
  \<^verbatim>\<open>db/reconciliation.go\<close>, the netting of a command (\<^verbatim>\<open>db/reconciliation_netting.go\<close>) and the positions a write touches
  (\<^verbatim>\<open>app/transactions_reconciliation.go\<close>). \<^verbatim>\<open>Register\<close> states the invariant \<open>storeOk\<close> of the tables and computes what a new
  version does to the balance of a checkpoint; \<^verbatim>\<open>Ledger\<close>, \<^verbatim>\<open>Drafts\<close> and \<^verbatim>\<open>Life\<close> prove of each write that it keeps the
  invariant, the balances closed by active checkpoints and the life cycle of a transaction; \<^verbatim>\<open>Progress\<close> shows when a
  lifecycle write goes through, and that void and unvoid undo each other. \<^verbatim>\<open>History\<close> puts them together: a history is any
  sequence of writes, each prepared against any earlier store of the history and committed to the latest one.

  \<^bold>\<open>Statements.\<close> \<^verbatim>\<open>Reconcile\<close> is the rest of \<^verbatim>\<open>db/reconciliation.go\<close> with \<^verbatim>\<open>app/reconciliation.go\<close>: starting a session, reading it,
  replacing its selection, finishing it, voiding sessions and checkpoints, listing checkpoints, marking postings.
  \<^verbatim>\<open>Chains\<close> shows that ledger writes leave the chains of checkpoints alone; \<^verbatim>\<open>Statements\<close> that the recursive query for
  covering checkpoints computes a closure, and that marking keeps balances; \<^verbatim>\<open>Reconciled\<close> states the invariant \<open>statementsOk\<close>, the
  abstract account of reconciliation: each statement is the one before it plus the postings it links, no line is linked twice along a
  chain, and every link is a posted version with its amount. \<^verbatim>\<open>Sessions\<close> and \<^verbatim>\<open>Finishing\<close> prove that every operation keeps
  it, \<^verbatim>\<open>Completion\<close> computes what finishing answers in every case, and \<^verbatim>\<open>Statement_History\<close> has histories in
  which ledger writes and reconciliation interleave.

  \<^bold>\<open>Recurring transactions.\<close> A template is a schedule with the postings of a transaction, a revision, and a watermark: the day
  before which every scheduled date has been dealt with. An occurrence is the row of one date of one template: a draft was generated, the
  date was skipped, or validation blocked it. \<^verbatim>\<open>Recurring\<close> is the repository (\<^verbatim>\<open>db/recurring.go\<close>, \<^verbatim>\<open>db/recurring_generation.go\<close>,
  \<^verbatim>\<open>db/recurring_review.go\<close>) and \<^verbatim>\<open>Recurring_Service\<close> the service (\<^verbatim>\<open>app/recurring.go\<close>, \<^verbatim>\<open>app/recurring_generation.go\<close>,
  \<^verbatim>\<open>app/recurring_review.go\<close>). A sweep makes many separate calls to the database, so its state is the store together with a list of
  functions, what others commit before each call. \<^verbatim>\<open>Recurring_Kept\<close> states the invariant \<open>recurringOk\<close> and the relation
  \<open>recurringLater\<close> between an earlier and a later store; \<^verbatim>\<open>Recurring_Writes\<close> proves that every write keeps both.
  \<^verbatim>\<open>Recurring_Sweep\<close> shows of a sweep, whatever others commit that keeps them too, what it leaves behind, and computes the next date of a
  template and the amounts of a due item; \<^verbatim>\<open>Recurring_Drafts\<close> that a generated draft is the template, dated on the
  occurrence; \<^verbatim>\<open>Recurring_History\<close> has histories in which ledger writes and recurring requests interleave. The locale
  \<^verbatim>\<open>kept_relation\<close> of \<^verbatim>\<open>Histories\<close> is what these histories and those of reconciliation share: an invariant and a
  reflexive and transitive relation that every step keeps.

  \<^bold>\<open>Sign-in.\<close> \<^verbatim>\<open>Throttle\<close> is \<^verbatim>\<open>app/auth_throttle.go\<close> over the rows of \<^verbatim>\<open>db/auth.go\<close>: attempts reserve a place in each scope before
  the password is checked and settle it afterwards. Interleaved attempts are a step relation; no interleaving admits
  more than the budget of a scope.

  \<^bold>\<open>How the model reads the code.\<close> Go's \<^verbatim>\<open>int64\<close> values are integers, with the range written out where the code can leave it;
  \<^verbatim>\<open>big.Int\<close> values are integers. A table is the list of its rows in order of row id, so a query is a filter, and an
  \<^verbatim>\<open>ORDER BY\<close> is a stable sort by its keys. A database transaction is a function from a store to an error or a new store; an error
  leaves the old store, as a rollback does. A loop over a Go map takes the order of its keys as an argument, which must permute
  them, so what is proved holds in every order. The current time and the request id are arguments. The recursion of the
  covering query ends because each round removes a checkpoint from those not yet found; the walk of a schedule and the search for a
  template's next date are partial functions with values in \<open>option\<close>, proved to return; no other definition carries fuel.

  \<^bold>\<open>What the histories assume.\<close> An update keeps the commodity of a line that stays on its account and day
  (\<open>commodityKept\<close>), and swapped postings have one commodity (\<open>sameCommodity\<close>): the guard of the code looks
  at one commodity in these two cases, and the balance of the other is not protected by it. A write is not prepared
  against a store with a draft that was discarded since, because row ids of discarded drafts may be used again. Operations that move
  investment lots are not part of a history: their create is modelled with the investment's effect as a parameter.

  \<^bold>\<open>Not modelled.\<close> The schema's triggers and foreign keys are stated where a proof needs them, as parts of the
  invariants, and not as code. The queries that only list (registers, search, cursors) and the enrichment of results with names are left
  out, as are the loop of the scheduler that calls the sweep, the text of cursors and messages, the HTTP layer, accounts and the other reference data as things to write, budgets, cash flow, forecasts, imports,
  exports, prices, investments, backups and the rest of sign-in.
\<close>

end
